(* ===== verification/Prelude.thy ===== *)
theory Prelude
  imports Main "HOL-Library.Word" "HOL-Library.Multiset" "HOL-Library.Monad_Syntax"
begin

text \<open>
  Shared vocabulary of the development: the machine types of the C++ sources, the exceptions and
  aborts they raise as values of a sum type, C strings, and the generic lemmas on lists, sums and
  words the components use.
\<close>

unbundle bit_operations_syntax

section \<open>Machine types and errors\<close>

type_synonym byte = "8 word"
type_synonym u32 = "32 word"

text \<open>
  What ends a C++ function without a value: a thrown exception of the standard library
  (\<open>std::invalid_argument\<close>, \<open>std::out_of_range\<close>, \<open>std::runtime_error\<close>), or a failed assertion
  (\<open>assert\<close>, \<open>GGML_ASSERT\<close>, \<open>GGML_ABORT\<close>), an
  access out of bounds (undefined behaviour in C++, an explicit error here), or a recursion deeper than the call stack: a recursive function of the sources whose recursion is not
  bounded by its input takes the available depth as its first argument and ends in
  \<open>StackOverflow\<close> when it is used up.
\<close>

datatype cxx_error =
    InvalidArgument string
  | OutOfRange string
  | RuntimeError string
  | Abort string
  | UndefinedBehaviour string
  | StackOverflow

type_synonym 'a res = "cxx_error + 'a"

definition bindE :: "'a res \<Rightarrow> ('a \<Rightarrow> 'b res) \<Rightarrow> 'b res" where
  "bindE m f = (case m of Inl e \<Rightarrow> Inl e | Inr x \<Rightarrow> f x)"

lemma bindE_simps [simp]:
  "bindE (Inl e) f = Inl e" "bindE (Inr x) f = f x"
  by (simp_all add: bindE_def)

lemma bindE_Inr_iff: "bindE m f = Inr y \<longleftrightarrow> (\<exists>x. m = Inr x \<and> f x = Inr y)"
  by (cases m) auto

lemma bindE_Inl_iff:
  "bindE m f = Inl e \<longleftrightarrow> m = Inl e \<or> (\<exists>x. m = Inr x \<and> f x = Inl e)"
  by (cases m) auto

lemma bindE_cong [fundef_cong]:
  assumes "m = m'" and "\<And>x. m' = Inr x \<Longrightarrow> f x = g x"
  shows "bindE m f = bindE m' g"
  using assms by (cases m') auto

text \<open>\<open>mapE f xs\<close> applies a throwing function to each element in order: the first error ends the loop.\<close>

fun mapE :: "('a \<Rightarrow> 'b res) \<Rightarrow> 'a list \<Rightarrow> 'b list res" where
  "mapE f [] = Inr []"
| "mapE f (x # xs) = bindE (f x) (\<lambda>y. bindE (mapE f xs) (\<lambda>ys. Inr (y # ys)))"

lemma mapE_Inr_map: "(\<And>x. x \<in> set xs \<Longrightarrow> f x = Inr (g x)) \<Longrightarrow> mapE f xs = Inr (map g xs)"
  by (induction xs) auto

lemma mapE_Inr_iff: "mapE f xs = Inr ys \<longleftrightarrow> list_all2 (\<lambda>x y. f x = Inr y) xs ys"
  by (induction xs arbitrary: ys) (auto simp: bindE_Inr_iff list_all2_Cons1)

text \<open>\<open>foldE\<close> is a loop over a list whose body may throw.\<close>

fun foldE :: "('a \<Rightarrow> 's \<Rightarrow> 's res) \<Rightarrow> 'a list \<Rightarrow> 's \<Rightarrow> 's res" where
  "foldE f [] s = Inr s"
| "foldE f (x # xs) s = bindE (f x s) (foldE f xs)"

lemma foldE_unapplied: "foldE f [] = Inr" "foldE f (x # xs) = (\<lambda>s. bindE (f x s) (foldE f xs))"
  by (rule ext, simp)+

lemma bindE_Inr_right [simp]: "bindE m Inr = m"
  by (cases m) auto

lemma foldE_append: "foldE f (xs @ ys) s = bindE (foldE f xs s) (foldE f ys)"
  by (induction xs arbitrary: s) (auto simp: bindE_def split: sum.splits)

lemma foldE_invariant:
  assumes "foldE f xs s = Inr t" and "P s"
    and "\<And>x s t. x \<in> set xs \<Longrightarrow> P s \<Longrightarrow> f x s = Inr t \<Longrightarrow> P t"
  shows "P t"
  using assms by (induction xs arbitrary: s) (auto simp: bindE_Inr_iff)

text \<open>
  A loop that collects: if each round adds what \<open>Q x\<close> says to what \<open>P\<close> says of the state, the loop
  adds the disjunction over its elements.
\<close>

lemma foldE_disj:
  assumes "foldE f xs s = Inr t"
    and "\<And>x s t. x \<in> set xs \<Longrightarrow> f x s = Inr t \<Longrightarrow> P t \<longleftrightarrow> P s \<or> Q x"
  shows "P t \<longleftrightarrow> P s \<or> (\<exists>x\<in>set xs. Q x)"
  using assms
proof (induction xs arbitrary: s)
  case (Cons x xs)
  then obtain s' where s': "f x s = Inr s'" and t: "foldE f xs s' = Inr t"
    by (auto simp: bindE_Inr_iff)
  have "P t \<longleftrightarrow> P s' \<or> (\<exists>x\<in>set xs. Q x)"
    using Cons.prems(2) by (intro Cons.IH [OF t]) auto
  moreover have "P s' \<longleftrightarrow> P s \<or> Q x"
    using Cons.prems(2) [OF _ s'] by simp
  ultimately show ?case by auto
qed simp

lemma foldE_total:
  assumes "\<And>x s. x \<in> set xs \<Longrightarrow> P s \<Longrightarrow> \<exists>t. f x s = Inr t \<and> P t" and "P s"
  shows "\<exists>t. foldE f xs s = Inr t \<and> P t"
  using assms
proof (induction xs arbitrary: s)
  case (Cons x xs)
  then obtain s' where "f x s = Inr s'" "P s'" by force
  with Cons show ?case by auto
qed simp

lemma foldE_error:
  assumes "foldE f xs s = Inl e" "P s"
    and "\<And>x s t. x \<in> set xs \<Longrightarrow> P s \<Longrightarrow> f x s = Inr t \<Longrightarrow> P t"
    and "\<And>x s. x \<in> set xs \<Longrightarrow> P s \<Longrightarrow> f x s = Inl e \<Longrightarrow> Q e"
  shows "Q e"
  using assms
proof (induction xs arbitrary: s)
  case (Cons x xs)
  show ?case
  proof (cases "f x s")
    case (Inl e')
    with Cons.prems(1) Cons.prems(4) [of x s] Cons.prems(2) show ?thesis by simp
  next
    case (Inr t)
    with Cons.prems(1,2) Cons.prems(3) [of x s t] have "foldE f xs t = Inl e" "P t" by simp_all
    then show ?thesis using Cons.prems(3,4) by (rule Cons.IH) simp_all
  qed
qed simp

lemma foldE_mono:
  assumes "foldE f xs s = Inr t" and "\<And>x s t. x \<in> set xs \<Longrightarrow> f x s = Inr t \<Longrightarrow> g x s = Inr t"
  shows "foldE g xs s = Inr t"
  using assms by (induction xs arbitrary: s) (auto simp: bindE_Inr_iff)

lemma foldE_cong [fundef_cong]:
  assumes "xs = ys" "s = t" "\<And>x u. x \<in> set ys \<Longrightarrow> f x u = g x u"
  shows "foldE f xs s = foldE g ys t"
proof -
  have "foldE f ys u = foldE g ys u" for u
    using assms(3) by (induction ys arbitrary: u) (auto intro: bindE_cong)
  with assms show ?thesis by simp
qed

section \<open>Characters and C strings\<close>

text \<open>
  A \<open>char\<close> is a byte. \<open>ch\<close> writes a character literal of the source, \<open>bytes\<close> a string literal.
  A \<open>const char *\<close> argument is the byte list before its terminating NUL and a position in it:
  \<open>at src i\<close> reads the terminator (0) at the end.
\<close>

abbreviation ch :: "char \<Rightarrow> byte" where
  "ch c \<equiv> of_char c"

definition bytes :: "string \<Rightarrow> byte list" where
  "bytes s = map of_char s"

lemma of_char_byte_iff: "(of_char c :: byte) = of_char d \<longleftrightarrow> c = d"
proof
  assume *: "(of_char c :: byte) = of_char d"
  have "(of_char e :: nat) = unat (of_char e :: byte)" for e
    unfolding of_nat_of_char [symmetric, where 'a = byte] unat_of_nat by (simp add: take_bit_nat_eq_self)
  with * show "c = d" by (metis of_char_eq_iff)
qed simp

lemma bytes_inj: "bytes a = bytes b \<longleftrightarrow> a = b"
  by (simp add: bytes_def inj_map_eq_map inj_def of_char_byte_iff)

text \<open>\<open>std::to_string\<close> of an unsigned number.\<close>

fun to_string :: "nat \<Rightarrow> byte list" where
  "to_string n = (if n < 10 then [ch CHR ''0'' + of_nat n]
     else to_string (n div 10) @ [ch CHR ''0'' + of_nat (n mod 10)])"

declare to_string.simps [simp del]

text \<open>The number that a string of digits stands for.\<close>

definition number_of :: "byte list \<Rightarrow> nat" where
  "number_of = foldl (\<lambda>v d. v * 10 + unat (d - ch CHR ''0'')) 0"

lemma digit_byte: "n < 10 \<Longrightarrow> unat ((ch CHR ''0'' + of_nat n) - ch CHR ''0'') = n"
  by (simp add: unat_of_nat)

lemma number_of_to_string: "number_of (to_string n) = n"
proof (induction n rule: to_string.induct)
  case (1 n)
  show ?case
  proof (cases "n < 10")
    case True
    then show ?thesis by (simp add: to_string.simps [of n] number_of_def unat_of_nat)
  next
    case False
    have "unat (of_nat (n mod 10) :: byte) = n mod 10" by (simp add: unat_of_nat)
    with 1 False show ?thesis by (simp add: to_string.simps [of n] number_of_def)
  qed
qed

lemma to_string_chars: "b \<in> set (to_string n) \<Longrightarrow> ch CHR ''0'' \<le> b \<and> b \<le> ch CHR ''9''"
proof (induction n rule: to_string.induct)
  case (1 n)
  have "ch CHR ''0'' \<le> ch CHR ''0'' + of_nat d \<and> ch CHR ''0'' + of_nat d \<le> ch CHR ''9''" if "d < 10" for d
    using that by (auto simp: word_le_nat_alt unat_word_ariths unat_of_nat)
  with 1 show ?case by (subst (asm) (2) to_string.simps) (auto split: if_splits)
qed

lemma to_string_length: "n < 10 ^ Suc k \<Longrightarrow> length (to_string n) \<le> Suc k"
proof (induction k arbitrary: n)
  case 0
  then show ?case by (simp add: to_string.simps [of n])
next
  case (Suc k)
  then have "n div 10 < 10 ^ Suc k" by simp
  from Suc.IH [OF this] show ?case by (simp add: to_string.simps [of n])
qed

definition at :: "byte list \<Rightarrow> nat \<Rightarrow> byte" where
  "at src i = (if i < length src then src ! i else 0)"

definition c_string :: "byte list \<Rightarrow> bool" where
  "c_string src \<longleftrightarrow> 0 \<notin> set src"

lemma at_neq_0_less: "at src i \<noteq> 0 \<Longrightarrow> i < length src"
  by (simp add: at_def split: if_splits)

lemma at_eq_0_iff: "c_string src \<Longrightarrow> at src i = 0 \<longleftrightarrow> length src \<le> i"
  by (auto simp: at_def c_string_def in_set_conv_nth)

section \<open>Lists\<close>

lemma nth_append_mid: "i = length xs \<Longrightarrow> (xs @ y # ys) ! i = y"
  by simp

lemma drop_Cons_nth: "i < length xs \<Longrightarrow> drop i xs = xs ! i # drop (Suc i) xs"
  by (rule Cons_nth_drop_Suc [symmetric])

lemma length_filter_update:
  assumes "i < length xs"
  shows "length (filter P (xs[i := x])) + (if P (xs ! i) then 1 else 0)
    = length (filter P xs) + (if P x then 1 else 0)"
  using assms
proof (induction xs arbitrary: i)
  case Nil
  then show ?case by simp
next
  case (Cons y ys)
  show ?case
  proof (cases i)
    case 0
    then show ?thesis by simp
  next
    case (Suc j)
    with Cons.prems have "j < length ys" by simp
    from Cons.IH [OF this] Suc show ?thesis by (auto split: if_splits)
  qed
qed

lemma filter_update_same: "i < length xs \<Longrightarrow> P (xs ! i) = P x \<Longrightarrow>
   length (filter P (xs[i := x])) = length (filter P xs)"
  using length_filter_update [of i xs P x] by (auto split: if_splits)

lemma mset_swap_update:
  assumes "i < length xs" "j < length xs"
  shows "mset (xs[i := xs ! j, j := xs ! i]) = mset xs"
  using assms by (cases "i = j") (simp_all add: mset_update mset_swap)

section \<open>Collections\<close>

text \<open>
  Introduction rules for what a part of a writer appends to its output and what a part of a reader
  takes from its input; the proofs about a whole format are steps over these collections.
\<close>

named_theorems write_intros "what the parts of a writer append"
named_theorems read_intros "what the parts of a reader return"

section \<open>Words\<close>

lemma unat_of_nat_u32: "n < 4294967296 \<Longrightarrow> unat (of_nat n :: u32) = n"
  by (simp add: unat_of_nat)

lemma of_nat_u32_inj: "m < 4294967296 \<Longrightarrow> n < 4294967296 \<Longrightarrow>
  (of_nat m :: u32) = of_nat n \<longleftrightarrow> m = n"
  by (metis unat_of_nat_u32)

lemma sint_small:
  assumes "unat (x :: u32) < 2 ^ 31"
  shows "sint x = int (unat x)"
proof -
  have "int (unat x) < int (2 ^ 31)" using assms by (simp only: of_nat_less_iff)
  then have "uint x < 2 ^ 31" by simp
  moreover have "- (2 ^ 31) \<le> uint x" by (rule order_trans [OF _ uint_ge_0]) simp
  ultimately show ?thesis using signed_take_bit_int_eq_self [of 31 "uint x"] by (simp add: sint_uint)
qed

end
