(* ===== verification/Utf8.thy ===== *)
theory Utf8
  imports Prelude
begin

text \<open>
  The UTF-8 codec of \<open>src/src/unicode.cpp\<close>.
\<close>

definition unicode_len_utf8 :: "byte \<Rightarrow> nat" where
  "unicode_len_utf8 src =
     [1, 1, 1, 1, 1, 1, 1, 1, 1, 1, 1, 1, 2, 2, 3, 4] ! unat (drop_bit 4 src)"

lemma unicode_len_utf8_pos: "0 < unicode_len_utf8 b"
proof -
  have "unat (drop_bit 4 b) < 16"
  proof -
    have "unat (drop_bit 4 b) = unat b div 16"
      by (simp only: unat_drop_bit_eq) (simp add: drop_bit_eq_div)
    moreover have "unat b < 2 ^ LENGTH(8)" by (rule unsigned_less)
    ultimately show ?thesis by (simp add: less_mult_imp_div_less)
  qed
  then have "unat (drop_bit 4 b) \<in> {0, 1, 2, 3, 4, 5, 6, 7, 8, 9, 10, 11, 12, 13, 14, 15}"
    by (simp only: insert_iff empty_iff simp_thms) presburger
  then show ?thesis unfolding unicode_len_utf8_def by auto
qed

definition unicode_cpt_to_utf8 :: "u32 \<Rightarrow> byte list res" where
  "unicode_cpt_to_utf8 cp =
    (if cp \<le> 0x7f then Inr [ucast cp]
     else if 0x80 \<le> cp \<and> cp \<le> 0x7ff then
       Inr [ucast (0xc0 OR (drop_bit 6 cp AND 0x1f)),
            ucast (0x80 OR (cp AND 0x3f))]
     else if 0x800 \<le> cp \<and> cp \<le> 0xffff then
       Inr [ucast (0xe0 OR (drop_bit 12 cp AND 0x0f)),
            ucast (0x80 OR (drop_bit 6 cp AND 0x3f)),
            ucast (0x80 OR (cp AND 0x3f))]
     else if 0x10000 \<le> cp \<and> cp \<le> 0x10ffff then
       Inr [ucast (0xf0 OR (drop_bit 18 cp AND 0x07)),
            ucast (0x80 OR (drop_bit 12 cp AND 0x3f)),
            ucast (0x80 OR (drop_bit 6 cp AND 0x3f)),
            ucast (0x80 OR (cp AND 0x3f))]
     else Inl (InvalidArgument ''invalid codepoint''))"

definition is_cont :: "byte \<Rightarrow> bool" where
  "is_cont b \<longleftrightarrow> b AND 0xc0 = 0x80"

definition bits_of :: "byte \<Rightarrow> u32 \<Rightarrow> u32" where
  "bits_of b m = ucast b AND m"

definition unicode_cpt_from_utf8 :: "byte list \<Rightarrow> nat \<Rightarrow> (u32 \<times> nat) res" where
  "unicode_cpt_from_utf8 utf8 offset =
    (if \<not> offset < length utf8 then Inl (Abort ''assert offset < utf8.size()'')
     else if utf8 ! offset AND 0x80 = 0 then Inr (ucast (utf8 ! offset), offset + 1)
     else if utf8 ! offset AND 0x40 = 0 then Inl (InvalidArgument ''invalid character'')
     else if utf8 ! offset AND 0x20 = 0 then
       (if offset + 1 \<ge> length utf8 \<or> \<not> is_cont (utf8 ! (offset + 1))
        then Inl (InvalidArgument ''invalid character'')
        else Inr (push_bit 6 (bits_of (utf8 ! offset) 0x1f) OR bits_of (utf8 ! (offset + 1)) 0x3f,
                  offset + 2))
     else if utf8 ! offset AND 0x10 = 0 then
       (if offset + 2 \<ge> length utf8 \<or> \<not> is_cont (utf8 ! (offset + 1))
           \<or> \<not> is_cont (utf8 ! (offset + 2))
        then Inl (InvalidArgument ''invalid character'')
        else Inr (push_bit 12 (bits_of (utf8 ! offset) 0x0f)
                   OR push_bit 6 (bits_of (utf8 ! (offset + 1)) 0x3f)
                   OR bits_of (utf8 ! (offset + 2)) 0x3f,
                  offset + 3))
     else if utf8 ! offset AND 0x08 = 0 then
       (if offset + 3 \<ge> length utf8 \<or> \<not> is_cont (utf8 ! (offset + 1))
           \<or> \<not> is_cont (utf8 ! (offset + 2)) \<or> \<not> is_cont (utf8 ! (offset + 3))
        then Inl (InvalidArgument ''invalid character'')
        else Inr (push_bit 18 (bits_of (utf8 ! offset) 0x07)
                   OR push_bit 12 (bits_of (utf8 ! (offset + 1)) 0x3f)
                   OR push_bit 6 (bits_of (utf8 ! (offset + 2)) 0x3f)
                   OR bits_of (utf8 ! (offset + 3)) 0x3f,
                  offset + 4))
     else Inl (InvalidArgument ''failed to convert utf8 to codepoint''))"

lemma unicode_cpt_from_utf8_progress:
  "unicode_cpt_from_utf8 utf8 offset = Inr (c, offset') \<Longrightarrow>
   offset < offset' \<and> offset' \<le> length utf8 \<and> offset' \<le> offset + 4"
  by (auto simp: unicode_cpt_from_utf8_def split: if_splits)

function unicode_cpts_from_utf8_loop :: "byte list \<Rightarrow> nat \<Rightarrow> u32 list res" where
  "unicode_cpts_from_utf8_loop utf8 offset =
    (if offset < length utf8 then
       (case unicode_cpt_from_utf8 utf8 offset of
          Inl e \<Rightarrow> Inl e
        | Inr (c, offset') \<Rightarrow>
            bindE (unicode_cpts_from_utf8_loop utf8 offset') (\<lambda>cs. Inr (c # cs)))
     else Inr [])"
  by pat_completeness auto
termination
  by (relation "measure (\<lambda>(utf8, offset). length utf8 - offset)")
     (auto dest!: unicode_cpt_from_utf8_progress)

declare unicode_cpts_from_utf8_loop.simps [simp del]

definition unicode_cpts_from_utf8 :: "byte list \<Rightarrow> u32 list res" where
  "unicode_cpts_from_utf8 utf8 = unicode_cpts_from_utf8_loop utf8 0"

definition unicode_cpts_to_utf8 :: "u32 list \<Rightarrow> byte list res" where
  "unicode_cpts_to_utf8 cps = bindE (mapE unicode_cpt_to_utf8 cps) (\<lambda>bss. Inr (concat bss))"

section \<open>Bit facts\<close>

text \<open>
  A byte of the encoder is a constant prefix or-ed with a masked field; the decoder masks the field
  back out. Both are statements about single bits.
\<close>

lemma exp_numerals:
  "(0x80 :: byte) = 2 ^ 7" "(0x40 :: byte) = 2 ^ 6" "(0x20 :: byte) = 2 ^ 5"
  "(0x10 :: byte) = 2 ^ 4" "(0x08 :: byte) = 2 ^ 3" "(0xc0 :: byte) = 2 ^ 7 OR 2 ^ 6"
  "(0x80 :: u32) = 2 ^ 7" "(0xc0 :: u32) = 2 ^ 7 OR 2 ^ 6" "(0xe0 :: u32) = 2 ^ 7 OR 2 ^ 6 OR 2 ^ 5"
  "(0xf0 :: u32) = 2 ^ 7 OR 2 ^ 6 OR 2 ^ 5 OR 2 ^ 4"
  "(0x3f :: u32) = mask 6" "(0x1f :: u32) = mask 5" "(0x0f :: u32) = mask 4" "(0x07 :: u32) = mask 3"
  by (simp_all add: mask_eq_exp_minus_1)

lemmas bit_field = bit_and_iff bit_or_iff bit_exp_iff bit_mask_iff bit_unsigned_iff bit_take_bit_iff
  bit_push_bit_iff bit_drop_bit_eq possible_bit_word

lemma field_prefix [simp]:
  fixes x :: u32
  shows "bits_of (ucast (0x80 OR (x AND 0x3f))) 0x3f = take_bit 6 x"
    "bits_of (ucast (0xc0 OR (x AND 0x1f))) 0x1f = take_bit 5 x"
    "bits_of (ucast (0xe0 OR (x AND 0x0f))) 0x0f = take_bit 4 x"
    "bits_of (ucast (0xf0 OR (x AND 0x07))) 0x07 = take_bit 3 x"
  unfolding bits_of_def exp_numerals
  by (rule bit_word_eqI, simp only: bit_field, fastforce)+

lemma is_cont_field [simp]: "is_cont (ucast (0x80 OR ((x :: u32) AND 0x3f)))"
  unfolding is_cont_def exp_numerals by (rule bit_word_eqI) (simp only: bit_field, fastforce)

lemma word_and_exp_eq_0: "(w :: 'a::len word) AND 2 ^ k = 0 \<longleftrightarrow> \<not> bit w k"
  by (metis and_exp_eq_0_iff_not_bit)

lemma lead2 [simp]:
  fixes x :: u32 defines "b \<equiv> ucast (0xc0 OR (x AND 0x1f)) :: byte"
  shows "b AND 0x80 \<noteq> 0" "b AND 0x40 \<noteq> 0" "b AND 0x20 = 0"
  unfolding b_def exp_numerals word_and_exp_eq_0 by (simp_all only: bit_field) auto

lemma lead3 [simp]:
  fixes x :: u32 defines "b \<equiv> ucast (0xe0 OR (x AND 0x0f)) :: byte"
  shows "b AND 0x80 \<noteq> 0" "b AND 0x40 \<noteq> 0" "b AND 0x20 \<noteq> 0" "b AND 0x10 = 0"
  unfolding b_def exp_numerals word_and_exp_eq_0 by (simp_all only: bit_field) auto

lemma lead4 [simp]:
  fixes x :: u32 defines "b \<equiv> ucast (0xf0 OR (x AND 0x07)) :: byte"
  shows "b AND 0x80 \<noteq> 0" "b AND 0x40 \<noteq> 0" "b AND 0x20 \<noteq> 0" "b AND 0x10 \<noteq> 0" "b AND 0x08 = 0"
  unfolding b_def exp_numerals word_and_exp_eq_0 by (simp_all only: bit_field) auto

lemma join_fields:
  fixes c :: u32
  shows "push_bit k (take_bit a (drop_bit k c)) OR take_bit k c = take_bit (k + a) c"
  by (rule bit_word_eqI) (auto simp: bit_field)

lemma take_bit_u32_eq:
  fixes c :: u32 assumes "uint c < 2 ^ k" shows "take_bit k c = c"
  using assms by (metis take_bit_int_eq_self unsigned_greater_eq unsigned_take_bit_eq word_uint_eq_iff)

lemma join2: "uint (c :: u32) < 2 ^ 11 \<Longrightarrow>
    push_bit 6 (take_bit 5 (drop_bit 6 c)) OR take_bit 6 c = c"
  using join_fields [of 6 5 c] by (simp add: take_bit_u32_eq)

lemma join3: "uint (c :: u32) < 2 ^ 16 \<Longrightarrow>
    push_bit 12 (take_bit 4 (drop_bit 12 c)) OR push_bit 6 (take_bit 6 (drop_bit 6 c))
      OR take_bit 6 c = c"
  using join_fields [of 6 6 c] join_fields [of 12 4 c] by (simp add: take_bit_u32_eq or.assoc)

lemma join4: "uint (c :: u32) < 2 ^ 21 \<Longrightarrow>
    push_bit 18 (take_bit 3 (drop_bit 18 c)) OR push_bit 12 (take_bit 6 (drop_bit 12 c))
      OR push_bit 6 (take_bit 6 (drop_bit 6 c)) OR take_bit 6 c = c"
  using join_fields [of 6 6 c] join_fields [of 12 6 c] join_fields [of 18 3 c]
  by (simp add: take_bit_u32_eq or.assoc)

section \<open>Round trip\<close>

definition valid_cpt :: "u32 \<Rightarrow> bool" where
  "valid_cpt c \<longleftrightarrow> c \<le> 0x10ffff"

lemma cpt_bounds:
  fixes c :: u32
  shows "0x80 \<le> c \<longleftrightarrow> \<not> c \<le> 0x7f" "0x800 \<le> c \<longleftrightarrow> \<not> c \<le> 0x7ff" "0x10000 \<le> c \<longleftrightarrow> \<not> c \<le> 0xffff"
  by (auto simp: word_le_def)

lemmas encode_cases = unicode_cpt_to_utf8_def [unfolded cpt_bounds]

lemma unicode_cpt_to_utf8_error_iff:
  "(\<exists>e. unicode_cpt_to_utf8 c = Inl e) \<longleftrightarrow> \<not> valid_cpt c"
  by (auto simp: encode_cases valid_cpt_def word_le_def)

lemma unicode_cpt_to_utf8_valid: "valid_cpt c \<Longrightarrow> \<exists>bs. unicode_cpt_to_utf8 c = Inr bs"
  using unicode_cpt_to_utf8_error_iff [of c] by (cases "unicode_cpt_to_utf8 c") auto

lemma ascii_top_bit: "(c :: u32) \<le> 0x7f \<Longrightarrow> (ucast c :: byte) AND 0x80 = 0"
proof -
  assume "c \<le> 0x7f"
  then have "take_bit 7 c = c" by (intro take_bit_u32_eq) (simp add: word_le_def)
  then have "\<not> bit c 7" by (metis bit_take_bit_iff less_irrefl)
  then show ?thesis unfolding exp_numerals word_and_exp_eq_0 by (simp add: bit_field)
qed

lemma ascii_ucast: "(c :: u32) \<le> 0x7f \<Longrightarrow> ucast (ucast c :: byte) = c"
proof -
  assume "c \<le> 0x7f"
  then have "take_bit 8 c = c" by (intro take_bit_u32_eq) (simp add: word_le_def)
  then show ?thesis by (simp add: unsigned_ucast_eq)
qed

lemma decode_encode_at:
  assumes "unicode_cpt_to_utf8 c = Inr bs"
  shows "unicode_cpt_from_utf8 (pre @ bs @ post) (length pre) = Inr (c, length pre + length bs)"
proof -
  have nth: "(pre @ b0 # bs') ! length pre = b0"
    "(pre @ b0 # b1 # bs') ! Suc (length pre) = b1"
    "(pre @ b0 # b1 # b2 # bs') ! Suc (Suc (length pre)) = b2"
    "(pre @ b0 # b1 # b2 # b3 # bs') ! (length pre + 3) = b3" for b0 b1 b2 b3 :: byte and bs'
    by (simp_all add: nth_append)
  consider "c \<le> 0x7f" | "\<not> c \<le> 0x7f" "c \<le> 0x7ff" 
    | "\<not> c \<le> 0x7f" "\<not> c \<le> 0x7ff" "c \<le> 0xffff"
    | "\<not> c \<le> 0x7f" "\<not> c \<le> 0x7ff" "\<not> c \<le> 0xffff" "c \<le> 0x10ffff"
    using assms by (auto simp: encode_cases split: if_splits)
  then show ?thesis
  proof cases
    case 1
    with assms show ?thesis
      by (auto simp: encode_cases unicode_cpt_from_utf8_def ascii_top_bit ascii_ucast)
  next
    case 2
    then have "bs = [ucast (0xc0 OR (drop_bit 6 c AND 0x1f)), ucast (0x80 OR (c AND 0x3f))]"
      using assms by (auto simp: encode_cases split: if_splits)
    moreover have "uint c < 2 ^ 11" using 2 by (simp add: word_le_def)
    ultimately show ?thesis by (simp add: unicode_cpt_from_utf8_def nth join2)
  next
    case 3
    then have "bs = [ucast (0xe0 OR (drop_bit 12 c AND 0x0f)), ucast (0x80 OR (drop_bit 6 c AND 0x3f)),
        ucast (0x80 OR (c AND 0x3f))]"
      using assms by (auto simp: encode_cases split: if_splits)
    moreover have "uint c < 2 ^ 16" using 3 by (simp add: word_le_def)
    ultimately show ?thesis by (simp add: unicode_cpt_from_utf8_def nth join3)
  next
    case 4
    then have "bs = [ucast (0xf0 OR (drop_bit 18 c AND 0x07)), ucast (0x80 OR (drop_bit 12 c AND 0x3f)),
        ucast (0x80 OR (drop_bit 6 c AND 0x3f)), ucast (0x80 OR (c AND 0x3f))]"
      using assms by (auto simp: encode_cases split: if_splits)
    moreover have "uint c < 2 ^ 21" using 4 by (simp add: word_le_def)
    ultimately show ?thesis by (simp add: unicode_cpt_from_utf8_def nth join4)
  qed
qed

lemma encode_length: "unicode_cpt_to_utf8 c = Inr bs \<Longrightarrow> 0 < length bs \<and> length bs \<le> 4"
  by (auto simp: unicode_cpt_to_utf8_def split: if_splits)

lemma cpts_loop_encode:
  assumes "mapE unicode_cpt_to_utf8 cps = Inr bss"
  shows "unicode_cpts_from_utf8_loop (pre @ concat bss) (length pre) = Inr cps"
  using assms
proof (induction cps arbitrary: pre bss)
  case Nil
  then show ?case by (simp add: unicode_cpts_from_utf8_loop.simps)
next
  case (Cons c cps)
  then obtain bs bss' where bs: "unicode_cpt_to_utf8 c = Inr bs"
    and bss': "mapE unicode_cpt_to_utf8 cps = Inr bss'" and [simp]: "bss = bs # bss'"
    by (auto simp: bindE_Inr_iff)
  from Cons.IH [OF bss', of "pre @ bs"] show ?case
    using encode_length [OF bs] decode_encode_at [OF bs, of pre "concat bss'"]
    by (subst unicode_cpts_from_utf8_loop.simps) simp
qed

lemma mapE_encode_valid:
  "list_all valid_cpt cps \<Longrightarrow> \<exists>bss. mapE unicode_cpt_to_utf8 cps = Inr bss"
  by (induction cps) (auto dest!: unicode_cpt_to_utf8_valid)

lemma mapE_encode_invalid:
  "\<not> list_all valid_cpt cps \<Longrightarrow> \<exists>e. mapE unicode_cpt_to_utf8 cps = Inl e"
proof (induction cps)
  case (Cons c cps)
  then show ?case
    using unicode_cpt_to_utf8_error_iff [of c]
    by (cases "unicode_cpt_to_utf8 c") auto
qed simp

text \<open>
  C5: encoding any list of code points up to U+10FFFF and decoding the bytes gives the list back,
  and a list with a larger value is rejected with an exception.
\<close>

theorem utf8_roundtrip:
  "if list_all valid_cpt cps
   then \<exists>bs. unicode_cpts_to_utf8 cps = Inr bs \<and> unicode_cpts_from_utf8 bs = Inr cps
   else \<exists>e. unicode_cpts_to_utf8 cps = Inl e"
  using mapE_encode_valid [of cps] mapE_encode_invalid [of cps] cpts_loop_encode [of cps _ "[]"]
  by (auto simp: unicode_cpts_to_utf8_def unicode_cpts_from_utf8_def)

end
