(* ===== verification/GrammarEngine.thy ===== *)
theory GrammarEngine
  imports Prelude
begin

text \<open>
  The grammar engine of \<open>src/src/llama-grammar.cpp\<close>: a grammar is a vector of rules, a rule a
  vector of elements that ends in \<open>LLAMA_GRETYPE_END\<close>, with its alternates separated by
  \<open>LLAMA_GRETYPE_ALT\<close>. A pointer to an element is the pair of the rule's index and the element's
  index, a pushdown stack a vector of such pointers whose top is its last entry.
\<close>

section \<open>Data\<close>

datatype gretype =
    LLAMA_GRETYPE_END
  | LLAMA_GRETYPE_ALT
  | LLAMA_GRETYPE_RULE_REF
  | LLAMA_GRETYPE_CHAR
  | LLAMA_GRETYPE_CHAR_NOT
  | LLAMA_GRETYPE_CHAR_RNG_UPPER
  | LLAMA_GRETYPE_CHAR_ALT
  | LLAMA_GRETYPE_CHAR_ANY

record grammar_element =
  etype :: gretype
  evalue :: u32

type_synonym grammar_rule = "grammar_element list"
type_synonym grammar_rules = "grammar_rule list"
type_synonym gpos = "nat \<times> nat"
type_synonym grammar_stack = "gpos list"
type_synonym grammar_stacks = "grammar_stack list"

abbreviation mk_elem :: "gretype \<Rightarrow> u32 \<Rightarrow> grammar_element" where
  "mk_elem t v \<equiv> \<lparr>etype = t, evalue = v\<rparr>"

text \<open>
  \<open>*pos\<close>. A read past the end of a rule is undefined behaviour in C++; the model reads an end
  marker there, and the well-formedness invariant below keeps every pointer inside its rule.
\<close>

definition gelem :: "grammar_rules \<Rightarrow> gpos \<Rightarrow> grammar_element" where
  "gelem rules p = (if fst p < length rules \<and> snd p < length (rules ! fst p)
     then rules ! fst p ! snd p else mk_elem LLAMA_GRETYPE_END 0)"

abbreviation gtype :: "grammar_rules \<Rightarrow> gpos \<Rightarrow> gretype" where
  "gtype rules p \<equiv> etype (gelem rules p)"

abbreviation gvalue :: "grammar_rules \<Rightarrow> gpos \<Rightarrow> u32" where
  "gvalue rules p \<equiv> evalue (gelem rules p)"

definition advance_ptr :: "gpos \<Rightarrow> nat \<Rightarrow> gpos" where
  "advance_ptr p k = (fst p, snd p + k)"

lemma gtype_in_range:
  "gtype rules p \<noteq> LLAMA_GRETYPE_END \<Longrightarrow> fst p < length rules \<and> snd p < length (rules ! fst p)"
  by (auto simp: gelem_def split: if_splits)

section \<open>Operations\<close>

definition is_end_type :: "gretype \<Rightarrow> bool" where
  "is_end_type t \<longleftrightarrow> (case t of LLAMA_GRETYPE_END \<Rightarrow> True | LLAMA_GRETYPE_ALT \<Rightarrow> True | _ \<Rightarrow> False)"

definition llama_grammar_is_end_of_sequence :: "grammar_rules \<Rightarrow> gpos \<Rightarrow> bool" where
  "llama_grammar_is_end_of_sequence rules pos \<longleftrightarrow> is_end_type (gtype rules pos)"

definition is_char_start :: "gretype \<Rightarrow> bool" where
  "is_char_start t \<longleftrightarrow> t = LLAMA_GRETYPE_CHAR \<or> t = LLAMA_GRETYPE_CHAR_NOT \<or> t = LLAMA_GRETYPE_CHAR_ANY"

definition is_positive_char :: "gretype \<Rightarrow> bool" where
  "is_positive_char t \<longleftrightarrow> t = LLAMA_GRETYPE_CHAR \<or> t = LLAMA_GRETYPE_CHAR_ANY"

text \<open>The \<open>do ... while (pos->type == LLAMA_GRETYPE_CHAR_ALT)\<close> loop of \<open>llama_grammar_match_char\<close>.\<close>

definition match_char_step :: "grammar_rules \<Rightarrow> u32 \<Rightarrow> gpos \<Rightarrow> bool \<Rightarrow> bool \<times> gpos" where
  "match_char_step rules chr pos found =
    (if gtype rules (advance_ptr pos 1) = LLAMA_GRETYPE_CHAR_RNG_UPPER then
       (found \<or> (gvalue rules pos \<le> chr \<and> chr \<le> gvalue rules (advance_ptr pos 1)), advance_ptr pos 2)
     else if gtype rules pos = LLAMA_GRETYPE_CHAR_ANY then (True, advance_ptr pos 1)
     else (found \<or> gvalue rules pos = chr, advance_ptr pos 1))"

lemma match_char_step_next:
  "match_char_step rules chr pos found = (f, pos') \<Longrightarrow> fst pos' = fst pos \<and> snd pos < snd pos'"
  by (auto simp: match_char_step_def advance_ptr_def split: if_splits)

function match_char_loop :: "grammar_rules \<Rightarrow> u32 \<Rightarrow> gpos \<Rightarrow> bool \<Rightarrow> bool \<times> gpos" where
  "match_char_loop rules chr pos found =
    (case match_char_step rules chr pos found of (found', pos') \<Rightarrow>
       if gtype rules pos' = LLAMA_GRETYPE_CHAR_ALT then match_char_loop rules chr pos' found'
       else (found', pos'))"
  by pat_completeness auto
termination
proof (relation "measure (\<lambda>(rules, chr, pos, found). length (rules ! fst pos) - snd pos)", goal_cases)
  case (2 rules chr pos found x pos')
  then have "gtype rules pos' \<noteq> LLAMA_GRETYPE_END" by simp
  from gtype_in_range [OF this] match_char_step_next [of rules chr pos found x pos'] 2
  show ?case by auto
qed simp

declare match_char_loop.simps [simp del]

definition llama_grammar_match_char :: "grammar_rules \<Rightarrow> gpos \<Rightarrow> u32 \<Rightarrow> (bool \<times> gpos) res" where
  "llama_grammar_match_char rules pos chr =
    (if \<not> (is_positive_char (gtype rules pos) \<or> gtype rules pos = LLAMA_GRETYPE_CHAR_NOT)
     then Inl (Abort ''GGML_ASSERT'')
     else case match_char_loop rules chr pos False of (found, pos') \<Rightarrow>
       Inr (found = is_positive_char (gtype rules pos), pos'))"

text \<open>\<open>while (!llama_grammar_is_end_of_sequence(subpos)) subpos++\<close>\<close>

function scan_to_end :: "grammar_rules \<Rightarrow> gpos \<Rightarrow> gpos" where
  "scan_to_end rules pos =
    (if \<not> llama_grammar_is_end_of_sequence rules pos then scan_to_end rules (advance_ptr pos 1) else pos)"
  by pat_completeness auto
termination
proof (relation "measure (\<lambda>(rules, pos). length (rules ! fst pos) - snd pos)", goal_cases)
  case (2 rules pos)
  then have "gtype rules pos \<noteq> LLAMA_GRETYPE_END"
    by (auto simp: llama_grammar_is_end_of_sequence_def is_end_type_def)
  from gtype_in_range [OF this] show ?case by (auto simp: advance_ptr_def)
qed simp

declare scan_to_end.simps [simp del]

lemma scan_to_end_fst [simp]: "fst (scan_to_end rules pos) = fst pos"
  by (induction rules pos rule: scan_to_end.induct)
     (subst scan_to_end.simps, auto simp: advance_ptr_def)

lemma scan_to_end_ge: "snd pos \<le> snd (scan_to_end rules pos)"
  by (induction rules pos rule: scan_to_end.induct)
     (subst scan_to_end.simps, auto simp: advance_ptr_def)

text \<open>
  The alternates of the definition at \<open>subpos\<close>: the \<open>do ... while (true)\<close> loops of
  \<open>llama_grammar_advance_stack\<close> and \<open>llama_grammar_init_impl\<close> visit these start positions in order.
\<close>

function alternates :: "grammar_rules \<Rightarrow> gpos \<Rightarrow> gpos list" where
  "alternates rules subpos =
    subpos # (let e = scan_to_end rules subpos in
      if gtype rules e = LLAMA_GRETYPE_ALT then alternates rules (advance_ptr e 1) else [])"
  by pat_completeness auto
termination
proof (relation "measure (\<lambda>(rules, pos). length (rules ! fst pos) - snd pos)", goal_cases)
  case (2 rules subpos e)
  then have "gtype rules e \<noteq> LLAMA_GRETYPE_END" by simp
  from gtype_in_range [OF this] scan_to_end_ge [of subpos rules] 2 show ?case
    by (auto simp: advance_ptr_def)
qed simp

declare alternates.simps [simp del]

definition push_unique :: "grammar_stack \<Rightarrow> grammar_stacks \<Rightarrow> grammar_stacks" where
  "push_unique stack new_stacks =
    (if stack \<in> set new_stacks then new_stacks else new_stacks @ [stack])"

definition push_rest :: "grammar_rules \<Rightarrow> gpos \<Rightarrow> grammar_stack \<Rightarrow> grammar_stack" where
  "push_rest rules pos stack =
    (if \<not> llama_grammar_is_end_of_sequence rules pos then stack @ [pos] else stack)"

fun llama_grammar_advance_stack ::
  "nat \<Rightarrow> grammar_rules \<Rightarrow> grammar_stack \<Rightarrow> grammar_stacks \<Rightarrow> grammar_stacks res" where
  "llama_grammar_advance_stack 0 rules stack new_stacks = Inl StackOverflow"
| "llama_grammar_advance_stack (Suc depth) rules stack new_stacks =
    (if stack = [] then Inr (push_unique stack new_stacks)
     else let pos = last stack in
       case gtype rules pos of
         LLAMA_GRETYPE_RULE_REF \<Rightarrow>
           if length rules \<le> unat (gvalue rules pos) then Inl (UndefinedBehaviour ''rules[rule_id]'')
           else foldE (\<lambda>subpos new_stacks.
               let new_stack = push_rest rules (advance_ptr pos 1) (butlast stack);
                   new_stack = push_rest rules subpos new_stack
               in llama_grammar_advance_stack depth rules new_stack new_stacks)
             (alternates rules (unat (gvalue rules pos), 0)) new_stacks
       | LLAMA_GRETYPE_CHAR \<Rightarrow> Inr (push_unique stack new_stacks)
       | LLAMA_GRETYPE_CHAR_NOT \<Rightarrow> Inr (push_unique stack new_stacks)
       | LLAMA_GRETYPE_CHAR_ANY \<Rightarrow> Inr (push_unique stack new_stacks)
       | _ \<Rightarrow> Inl (Abort ''fatal error''))"

definition llama_grammar_accept ::
  "nat \<Rightarrow> grammar_rules \<Rightarrow> grammar_stacks \<Rightarrow> u32 \<Rightarrow> grammar_stacks res" where
  "llama_grammar_accept depth rules stacks chr =
    foldE (\<lambda>stack new_stacks.
        if stack = [] then Inr new_stacks
        else bindE (llama_grammar_match_char rules (last stack) chr) (\<lambda>(ok, pos).
          if ok then llama_grammar_advance_stack depth rules (push_rest rules pos (butlast stack)) new_stacks
          else Inr new_stacks))
      stacks []"

section \<open>Partial UTF-8 sequences\<close>

record partial_utf8 =
  pvalue :: u32
  n_remain :: int

text \<open>
  \<open>decode_utf8\<close> reads its argument through \<open>c_str()\<close>, up to the first NUL. The first loop continues
  the sequence of the previous call and checks the continuation bytes (\<open>None\<close>: invalid sequence).
\<close>

definition c_str :: "byte list \<Rightarrow> byte list" where
  "c_str src = takeWhile (\<lambda>b. b \<noteq> 0) src"

fun decode_continue :: "byte list \<Rightarrow> u32 \<Rightarrow> int \<Rightarrow> (byte list \<times> u32 \<times> int) option" where
  "decode_continue [] value n = Some ([], value, n)"
| "decode_continue (b # bs) value n =
    (if n > 0 then
       if drop_bit 6 b \<noteq> 2 then None
       else decode_continue bs (push_bit 6 value + ucast (b AND 0x3F)) (n - 1)
     else Some (b # bs, value, n))"

fun decode_rest :: "byte list \<Rightarrow> u32 \<Rightarrow> int \<Rightarrow> byte list \<times> u32 \<times> int" where
  "decode_rest [] value n = ([], value, n)"
| "decode_rest (b # bs) value n =
    (if n > 0 then decode_rest bs (push_bit 6 value + ucast (b AND 0x3F)) (n - 1)
     else (b # bs, value, n))"

lemma decode_rest_length [simp]: "length (fst (decode_rest bs v n)) \<le> length bs"
  by (induction bs v n rule: decode_rest.induct) auto

definition decode_lookup :: "byte \<Rightarrow> int" where
  "decode_lookup b = [1, 1, 1, 1, 1, 1, 1, 1, 0, 0, 0, 0, 2, 2, 3, 4] ! unat (drop_bit 4 b)"

definition decode_mask :: "int \<Rightarrow> byte" where
  "decode_mask n = push_bit (nat (7 - n)) 1 - 1"

function decode_main :: "byte list \<Rightarrow> u32 \<Rightarrow> int \<Rightarrow> u32 list \<Rightarrow> u32 list \<times> partial_utf8" where
  "decode_main [] value n code_points = (code_points @ [0], \<lparr>pvalue = value, n_remain = n\<rparr>)"
| "decode_main (b # bs) value n code_points =
    (let n' = decode_lookup b - 1 in
     if n' < 0 then ([0], \<lparr>pvalue = 0, n_remain = n'\<rparr>)
     else case decode_rest bs (ucast (b AND decode_mask n')) n' of (bs', value', n'') \<Rightarrow>
       decode_main bs' value' n'' (if n'' = 0 then code_points @ [value'] else code_points))"
  by pat_completeness auto
termination
  by (relation "measure (\<lambda>(bs, v, n, cps). length bs)")
     (auto simp: less_Suc_eq_le, metis decode_rest_length fst_conv)

definition decode_utf8 :: "byte list \<Rightarrow> partial_utf8 \<Rightarrow> u32 list \<times> partial_utf8" where
  "decode_utf8 src partial_start =
    (case decode_continue (c_str src) (pvalue partial_start) (n_remain partial_start) of
       None \<Rightarrow> ([0], \<lparr>pvalue = 0, n_remain = -1\<rparr>)
     | Some (pos, value, n) \<Rightarrow>
         decode_main pos value n (if n_remain partial_start > 0 \<and> n = 0 then [value] else []))"

text \<open>
  The range of code points a partial sequence can complete to. \<open>1 << (n_remain * 6)\<close> is a 32-bit
  shift, \<open>n_remain\<close> being 0 to 3 here.
\<close>

definition partial_range :: "partial_utf8 \<Rightarrow> u32 \<times> u32" where
  "partial_range p =
    (let k = nat (n_remain p * 6);
         low = push_bit k (pvalue p);
         high = low OR (push_bit k 1 - 1);
         low = (if low = 0 then
                  if n_remain p = 2 then push_bit 11 1
                  else if n_remain p = 3 then push_bit 16 1
                  else low
                else low)
     in (low, high))"

definition partial_char_step ::
  "grammar_rules \<Rightarrow> u32 \<Rightarrow> u32 \<Rightarrow> gpos \<Rightarrow> bool \<times> gpos" where
  \<comment> \<open>one round of the loop: whether it returns (a hit), and the next position\<close>
  "partial_char_step rules low high pos =
    (if gtype rules (advance_ptr pos 1) = LLAMA_GRETYPE_CHAR_RNG_UPPER then
       (gvalue rules pos \<le> high \<and> low \<le> gvalue rules (advance_ptr pos 1), advance_ptr pos 2)
     else if gtype rules pos = LLAMA_GRETYPE_CHAR_ANY then (True, advance_ptr pos 1)
     else (low \<le> gvalue rules pos \<and> gvalue rules pos \<le> high, advance_ptr pos 1))"

lemma partial_char_step_next:
  "partial_char_step rules low high pos = (f, pos') \<Longrightarrow> fst pos' = fst pos \<and> snd pos < snd pos'"
  by (auto simp: partial_char_step_def advance_ptr_def split: if_splits)

text \<open>
  The loop returns \<open>is_positive_char\<close> on the first hit (\<open>true\<close> for a hit on \<open>.\<close>) and
  \<open>!is_positive_char\<close> at the end.
\<close>

function partial_char_loop :: "grammar_rules \<Rightarrow> u32 \<Rightarrow> u32 \<Rightarrow> bool \<Rightarrow> gpos \<Rightarrow> bool" where
  "partial_char_loop rules low high positive pos =
    (case partial_char_step rules low high pos of (hit, pos') \<Rightarrow>
       if hit then
         (if gtype rules (advance_ptr pos 1) \<noteq> LLAMA_GRETYPE_CHAR_RNG_UPPER
             \<and> gtype rules pos = LLAMA_GRETYPE_CHAR_ANY then True else positive)
       else if gtype rules pos' = LLAMA_GRETYPE_CHAR_ALT then
         partial_char_loop rules low high positive pos'
       else \<not> positive)"
  by pat_completeness auto
termination
proof (relation "measure (\<lambda>(rules, low, high, positive, pos). length (rules ! fst pos) - snd pos)", goal_cases)
  case (2 rules low high positive pos hit pos')
  then have "gtype rules pos' \<noteq> LLAMA_GRETYPE_END" by simp
  from gtype_in_range [OF this] partial_char_step_next [of rules low high pos hit pos'] 2
  show ?case by auto
qed simp

declare partial_char_loop.simps [simp del]

definition llama_grammar_match_partial_char ::
  "grammar_rules \<Rightarrow> gpos \<Rightarrow> partial_utf8 \<Rightarrow> bool res" where
  "llama_grammar_match_partial_char rules pos p =
    (if \<not> (is_positive_char (gtype rules pos) \<or> gtype rules pos = LLAMA_GRETYPE_CHAR_NOT)
     then Inl (Abort ''GGML_ASSERT'')
     else if n_remain p < 0 \<or> (n_remain p = 1 \<and> pvalue p < 2) then Inr False
     else case partial_range p of (low, high) \<Rightarrow>
       Inr (partial_char_loop rules low high (is_positive_char (gtype rules pos)) pos))"

section \<open>Candidates\<close>

text \<open>
  A candidate points into the NUL-terminated code points of its token: the vector and an offset.
\<close>

record grammar_candidate =
  cindex :: nat
  code_points :: "u32 list"
  coffset :: nat
  cpartial :: partial_utf8

definition cur_cpt :: "grammar_candidate \<Rightarrow> u32" where
  "cur_cpt tok = (if coffset tok < length (code_points tok) then code_points tok ! coffset tok else 0)"

definition next_cpt :: "grammar_candidate \<Rightarrow> grammar_candidate" where
  "next_cpt tok = tok\<lparr>coffset := coffset tok + 1\<rparr>"

definition prev_cpt :: "grammar_candidate \<Rightarrow> grammar_candidate" where
  "prev_cpt tok = tok\<lparr>coffset := coffset tok - 1\<rparr>"

definition classify_candidate :: "grammar_rules \<Rightarrow> gpos \<Rightarrow> grammar_candidate \<Rightarrow>
    grammar_candidate list \<times> grammar_candidate list \<Rightarrow>
    (grammar_candidate list \<times> grammar_candidate list) res" where
  "classify_candidate rules stack_pos tok acc =
    (case acc of (rejects, next_candidates) \<Rightarrow>
      if cur_cpt tok = 0 then
        if n_remain (cpartial tok) \<noteq> 0 then
          bindE (llama_grammar_match_partial_char rules stack_pos (cpartial tok)) (\<lambda>ok.
            if \<not> ok then Inr (rejects @ [tok], next_candidates) else Inr (rejects, next_candidates))
        else Inr (rejects, next_candidates)
      else
        bindE (llama_grammar_match_char rules stack_pos (cur_cpt tok)) (\<lambda>(ok, _).
          if ok then Inr (rejects, next_candidates @ [next_cpt tok])
          else Inr (rejects @ [tok], next_candidates)))"

fun llama_grammar_reject_candidates ::
    "nat \<Rightarrow> grammar_rules \<Rightarrow> grammar_stacks \<Rightarrow> grammar_candidate list \<Rightarrow> grammar_candidate list res"
and llama_grammar_reject_candidates_for_stack ::
    "nat \<Rightarrow> grammar_rules \<Rightarrow> grammar_stack \<Rightarrow> grammar_candidate list \<Rightarrow> grammar_candidate list res"
where
  "llama_grammar_reject_candidates 0 rules stacks candidates = Inl StackOverflow"
| "llama_grammar_reject_candidates (Suc depth) rules stacks candidates =
    (if stacks = [] then Inl (Abort ''GGML_ASSERT(!stacks.empty())'')
     else if candidates = [] then Inr []
     else bindE (llama_grammar_reject_candidates_for_stack depth rules (hd stacks) candidates)
       (foldE (\<lambda>stack rejects. llama_grammar_reject_candidates_for_stack depth rules stack rejects)
         (tl stacks)))"
| "llama_grammar_reject_candidates_for_stack 0 rules stack candidates = Inl StackOverflow"
| "llama_grammar_reject_candidates_for_stack (Suc depth) rules stack candidates =
    (if stack = [] then
       Inr (filter (\<lambda>tok. cur_cpt tok \<noteq> 0 \<or> n_remain (cpartial tok) \<noteq> 0) candidates)
     else let stack_pos = last stack in
       bindE (foldE (classify_candidate rules stack_pos) candidates ([], [])) (\<lambda>(rejects, next_candidates).
       bindE (llama_grammar_match_char rules stack_pos 0) (\<lambda>(_, stack_pos_after).
       bindE (llama_grammar_advance_stack depth rules
                (push_rest rules stack_pos_after (butlast stack)) []) (\<lambda>next_stacks.
       bindE (llama_grammar_reject_candidates depth rules next_stacks next_candidates) (\<lambda>next_rejects.
         Inr (rejects @ map prev_cpt next_rejects))))))"

section \<open>Left recursion, initialisation\<close>

record left_recursion =
  rules_visited :: "bool list"
  rules_in_progress :: "bool list"
  rules_may_be_empty :: "bool list"

fun has_empty_alternate :: "bool \<Rightarrow> grammar_rule \<Rightarrow> bool" where
  "has_empty_alternate at_rule_start [] = False"
| "has_empty_alternate at_rule_start (e # es) =
    (if is_end_type (etype e) then (if at_rule_start then True else has_empty_alternate True es)
     else has_empty_alternate False es)"

fun llama_grammar_detect_left_recursion ::
    "nat \<Rightarrow> grammar_rules \<Rightarrow> nat \<Rightarrow> left_recursion \<Rightarrow> (bool \<times> left_recursion) res" where
  "llama_grammar_detect_left_recursion 0 rules rule_index st = Inl StackOverflow"
| "llama_grammar_detect_left_recursion (Suc depth) rules rule_index st =
    (if length rules \<le> rule_index then Inl (UndefinedBehaviour ''rules[rule_index]'')
     else if rules_in_progress st ! rule_index then Inr (True, st)
     else
       let rule = rules ! rule_index;
           st = st\<lparr>rules_in_progress := (rules_in_progress st)[rule_index := True]\<rparr>;
           st = (if has_empty_alternate True rule
                 then st\<lparr>rules_may_be_empty := (rules_may_be_empty st)[rule_index := True]\<rparr> else st)
       in bindE
         (foldE (\<lambda>elem (found, recurse_into_nonterminal, st).
            if found then Inr (found, recurse_into_nonterminal, st)
            else if etype elem = LLAMA_GRETYPE_RULE_REF \<and> recurse_into_nonterminal then
              bindE (llama_grammar_detect_left_recursion depth rules (unat (evalue elem)) st) (\<lambda>(r, st).
                if r then Inr (True, recurse_into_nonterminal, st)
                else Inr (False, rules_may_be_empty st ! unat (evalue elem), st))
            else Inr (False, is_end_type (etype elem), st))
          rule (False, True, st))
         (\<lambda>(found, _, st).
            if found then Inr (True, st)
            else Inr (False, st\<lparr>rules_in_progress := (rules_in_progress st)[rule_index := False],
                               rules_visited := (rules_visited st)[rule_index := True]\<rparr>)))"

record llama_grammar =
  grules :: grammar_rules
  gstacks :: grammar_stacks
  gpartial :: partial_utf8

definition copy_rule :: "grammar_rule \<Rightarrow> grammar_rule" where
  "copy_rule r = takeWhile (\<lambda>e. etype e \<noteq> LLAMA_GRETYPE_END) r @ [mk_elem LLAMA_GRETYPE_END 0]"

definition check_left_recursion :: "nat \<Rightarrow> grammar_rules \<Rightarrow> bool res" where
  "check_left_recursion depth rules =
    (let n = length rules;
         st = \<lparr>rules_visited = replicate n False, rules_in_progress = replicate n False,
               rules_may_be_empty = replicate n False\<rparr>
     in bindE (foldE (\<lambda>i (found, st).
          if found \<or> rules_visited st ! i then Inr (found, st)
          else llama_grammar_detect_left_recursion depth rules i st)
        [0..<n] (False, st)) (\<lambda>(found, _). Inr found))"

definition initial_stacks :: "nat \<Rightarrow> grammar_rules \<Rightarrow> nat \<Rightarrow> grammar_stacks res" where
  "initial_stacks depth rules start_rule_index =
    foldE (\<lambda>pos stacks. llama_grammar_advance_stack depth rules (push_rest rules pos []) stacks)
      (alternates rules (start_rule_index, 0)) []"

text \<open>\<open>None\<close> is the null pointer.\<close>

definition llama_grammar_init_impl ::
    "nat \<Rightarrow> grammar_rules \<Rightarrow> nat \<Rightarrow> llama_grammar option res" where
  "llama_grammar_init_impl depth rules start_rule_index =
    (let vec_rules = map copy_rule rules in
     bindE (check_left_recursion depth vec_rules) (\<lambda>found.
       if found then Inr None
       else if length vec_rules \<le> start_rule_index then Inl (UndefinedBehaviour ''vec_rules[start]'')
       else bindE (initial_stacks depth vec_rules start_rule_index) (\<lambda>stacks.
         Inr (Some \<lparr>grules = vec_rules, gstacks = stacks,
                     gpartial = \<lparr>pvalue = 0, n_remain = 0\<rparr>\<rparr>))))"

section \<open>Sampling and accepting a token\<close>

text \<open>
  The vocabulary is seen through two functions: \<open>piece_of\<close> is \<open>vocab->cache_token_to_piece.at(id)\<close>
  and \<open>is_eog\<close> is \<open>llama_token_is_eog_impl\<close>. A logit is a value of any type, \<open>neg_inf\<close> its
  \<open>-INFINITY\<close>; the engine only overwrites logits.
\<close>

record 'l token_data =
  td_id :: int
  td_logit :: 'l
  td_p :: 'l

definition ban :: "'l \<Rightarrow> nat \<Rightarrow> 'l token_data list \<Rightarrow> 'l token_data list" where
  "ban neg_inf i data = data[i := (data ! i)\<lparr>td_logit := neg_inf\<rparr>]"

definition sample_scan :: "'l \<Rightarrow> (int \<Rightarrow> byte list res) \<Rightarrow> (int \<Rightarrow> bool) \<Rightarrow> partial_utf8 \<Rightarrow> bool \<Rightarrow> nat \<Rightarrow>
    'l token_data list \<times> grammar_candidate list \<Rightarrow> ('l token_data list \<times> grammar_candidate list) res" where
  "sample_scan neg_inf piece_of is_eog partial allow_eog i acc =
    (case acc of (data, candidates_grammar) \<Rightarrow>
      bindE (piece_of (td_id (data ! i))) (\<lambda>piece.
        if is_eog (td_id (data ! i)) then
          Inr (if \<not> allow_eog then ban neg_inf i data else data, candidates_grammar)
        else if piece = [] \<or> piece ! 0 = 0 then Inr (ban neg_inf i data, candidates_grammar)
        else case decode_utf8 piece partial of (cps, p) \<Rightarrow>
          Inr (data, candidates_grammar @
            [\<lparr>cindex = i, code_points = cps, coffset = 0, cpartial = p\<rparr>])))"

definition llama_grammar_sample_impl :: "nat \<Rightarrow> 'l \<Rightarrow> (int \<Rightarrow> byte list res) \<Rightarrow> (int \<Rightarrow> bool) \<Rightarrow>
    llama_grammar \<Rightarrow> 'l token_data list \<Rightarrow> 'l token_data list res" where
  "llama_grammar_sample_impl depth neg_inf piece_of is_eog grammar candidates =
    (let allow_eog = list_ex (\<lambda>stack. stack = []) (gstacks grammar) in
     bindE (foldE (sample_scan neg_inf piece_of is_eog (gpartial grammar) allow_eog)
              [0..<length candidates] (candidates, [])) (\<lambda>(data, candidates_grammar).
     bindE (llama_grammar_reject_candidates depth (grules grammar) (gstacks grammar) candidates_grammar)
       (\<lambda>rejects. Inr (fold (\<lambda>reject data. ban neg_inf (cindex reject) data) rejects data))))"

definition accept_code_points ::
    "nat \<Rightarrow> grammar_rules \<Rightarrow> u32 list \<Rightarrow> grammar_stacks \<Rightarrow> grammar_stacks res" where
  "accept_code_points depth rules cps stacks =
    foldE (\<lambda>c stacks. llama_grammar_accept depth rules stacks c) cps stacks"

definition llama_grammar_accept_token_impl :: "nat \<Rightarrow> (int \<Rightarrow> byte list res) \<Rightarrow> (int \<Rightarrow> bool) \<Rightarrow>
    llama_grammar \<Rightarrow> int \<Rightarrow> llama_grammar res" where
  "llama_grammar_accept_token_impl depth piece_of is_eog grammar token =
    (if is_eog token then
       (if list_ex (\<lambda>stack. stack = []) (gstacks grammar) then Inr grammar
        else Inl (Abort ''fatal error''))
     else bindE (piece_of token) (\<lambda>piece.
       case decode_utf8 piece (gpartial grammar) of (cps, partial) \<Rightarrow>
         bindE (accept_code_points depth (grules grammar) (butlast cps) (gstacks grammar)) (\<lambda>stacks.
           if stacks = [] then Inl (Abort ''GGML_ASSERT(!grammar->stacks.empty())'')
           else Inr (grammar\<lparr>gstacks := stacks, gpartial := partial\<rparr>))))"

end
