(* ===== verification/GrammarUtf8.thy ===== *)
theory GrammarUtf8
  imports Utf8 GrammarEngine
begin

text \<open>
  The streaming decoder \<open>decode_utf8\<close> of the grammar engine: a text may be cut into token pieces at
  any byte, the partial sequence at the end of one piece being continued by the next.
\<close>

section \<open>The decoder as a byte automaton\<close>

fun run_bytes :: "byte list \<Rightarrow> u32 \<Rightarrow> int \<Rightarrow> u32 list \<times> u32 \<times> int" where
  "run_bytes [] v n = ([], v, n)"
| "run_bytes (b # bs) v n =
    (let n' = (if n > 0 then n - 1 else decode_lookup b - 1);
         v' = (if n > 0 then push_bit 6 v + ucast (b AND 0x3F) else ucast (b AND decode_mask n'))
     in case run_bytes bs v' n' of (out, s) \<Rightarrow> ((if n' = 0 then v' # out else out), s))"

text \<open>No NUL, no continuation byte out of place, no missing one before the end.\<close>

fun stream_ok :: "int \<Rightarrow> byte list \<Rightarrow> bool" where
  "stream_ok n [] = True"
| "stream_ok n (b # bs) =
    (b \<noteq> 0 \<and> (if n > 0 then drop_bit 6 b = 2 \<and> stream_ok (n - 1) bs
      else decode_lookup b \<ge> 1 \<and> stream_ok (decode_lookup b - 1) bs))"

lemma stream_ok_no_nul: "stream_ok n bs \<Longrightarrow> c_str bs = bs"
  by (induction n bs rule: stream_ok.induct) (auto simp: c_str_def split: if_splits)

lemma decode_rest_run:
  "stream_ok n bs \<Longrightarrow> n > 0 \<Longrightarrow> decode_rest bs v n = (bs', v', n') \<Longrightarrow>
   n' \<ge> 0 \<and> (bs' = [] \<or> n' = 0) \<and> stream_ok n' bs' \<and>
   run_bytes bs v n = (case run_bytes bs' v' n' of (out, s) \<Rightarrow> ((if n' = 0 then v' # out else out), s))"
proof (induction bs v n rule: decode_rest.induct)
  case (2 b bs v n)
  show ?case
  proof (cases "n = 1")
    case True
    with 2 show ?thesis by (cases bs) (auto split: prod.splits)
  next
    case False
    with 2 have "n - 1 > 0" "stream_ok (n - 1) bs"
      "decode_rest bs (push_bit 6 v + ucast (b AND 0x3F)) (n - 1) = (bs', v', n')" by auto
    from "2.IH" [OF _ this(2,1,3)] 2 False show ?thesis by (auto split: prod.splits)
  qed
qed auto

lemma decode_continue_rest:
  "stream_ok n bs \<Longrightarrow> decode_continue bs v n = Some (decode_rest bs v n)"
  by (induction bs v n rule: decode_continue.induct) auto

lemma decode_rest_zero: "n \<le> 0 \<Longrightarrow> decode_rest bs v n = (bs, v, n)"
  by (cases bs) auto

lemma decode_main_run:
  "stream_ok n bs \<Longrightarrow> n \<ge> 0 \<Longrightarrow> bs = [] \<or> n = 0 \<Longrightarrow> run_bytes bs v n = (out, v', n') \<Longrightarrow>
   decode_main bs v n acc = (acc @ out @ [0], \<lparr>pvalue = v', n_remain = n'\<rparr>)"
proof (induction bs v n acc arbitrary: out rule: decode_main.induct)
  case (2 b bs v n acc)
  let ?n = "decode_lookup b - 1" and ?v = "ucast (b AND decode_mask (decode_lookup b - 1))"
  have n: "n = 0" "?n \<ge> 0" and ok: "stream_ok ?n bs" using 2 by auto
  obtain bs1 v1 n1 where rest: "decode_rest bs ?v ?n = (bs1, v1, n1)" by (cases "decode_rest bs ?v ?n")
  obtain out1 where run1: "run_bytes bs1 v1 n1 = (out1, v', n') \<and> out = (if n1 = 0 then v1 # out1 else out1)
      \<and> n1 \<ge> 0 \<and> (bs1 = [] \<or> n1 = 0) \<and> stream_ok n1 bs1"
  proof (cases "?n > 0")
    case True
    from decode_rest_run [OF ok True rest] "2.prems"(4) n True that show thesis
      by (auto split: prod.splits if_splits)
  next
    case False
    with n have "?n = 0" by simp
    with rest "2.prems"(4) n ok that show thesis
      by (auto simp: decode_rest_zero split: prod.splits)
  qed
  have "decode_main bs1 v1 n1 (if n1 = 0 then acc @ [v1] else acc)
      = ((if n1 = 0 then acc @ [v1] else acc) @ out1 @ [0], \<lparr>pvalue = v', n_remain = n'\<rparr>)"
    using run1 n rest by (intro "2.IH" [OF refl _ rest [symmetric] refl]) auto
  with run1 n rest show ?case by (auto simp: Let_def)
qed auto

lemma decode_utf8_run:
  assumes "stream_ok (n_remain p) bs" "n_remain p \<ge> 0"
    and run: "run_bytes bs (pvalue p) (n_remain p) = (out, v', n')"
  shows "decode_utf8 bs p = (out @ [0], \<lparr>pvalue = v', n_remain = n'\<rparr>)"
proof -
  obtain bs1 v1 n1 where rest: "decode_rest bs (pvalue p) (n_remain p) = (bs1, v1, n1)"
    by (cases "decode_rest bs (pvalue p) (n_remain p)")
  show ?thesis
  proof (cases "n_remain p > 0")
    case True
    from decode_rest_run [OF assms(1) True rest] run True rest assms
    show ?thesis
      by (auto simp: decode_utf8_def stream_ok_no_nul decode_continue_rest decode_main_run
          split: prod.splits if_splits)
  next
    case False
    with assms rest show ?thesis
      by (auto simp: decode_utf8_def stream_ok_no_nul decode_continue_rest decode_main_run decode_rest_zero)
  qed
qed

lemma run_bytes_append:
  "run_bytes (xs @ ys) v n = (case run_bytes xs v n of (out, v', n') \<Rightarrow>
     case run_bytes ys v' n' of (out', s) \<Rightarrow> (out @ out', s))"
  by (induction xs v n rule: run_bytes.induct) (auto simp: Let_def split: prod.splits)

lemma run_bytes_remain:
  "snd (snd (run_bytes (b # bs) v n)) =
     snd (snd (run_bytes bs (if n > 0 then push_bit 6 v + ucast (b AND 0x3F)
                             else ucast (b AND decode_mask (decode_lookup b - 1)))
       (if n > 0 then n - 1 else decode_lookup b - 1)))"
  by (simp add: Let_def split: prod.split)

lemma stream_ok_append:
  "stream_ok n (xs @ ys) \<longleftrightarrow> stream_ok n xs \<and> stream_ok (snd (snd (run_bytes xs v n))) ys"
proof (induction xs arbitrary: n v)
  case (Cons b bs)
  show ?case
    by (cases "n > 0")
      (simp_all only: append_Cons stream_ok.simps run_bytes_remain if_True if_False conj_assoc
        Cons.IH [of "n - 1" "push_bit 6 v + ucast (b AND 0x3F)"]
        Cons.IH [of "decode_lookup b - 1" "ucast (b AND decode_mask (decode_lookup b - 1))"])
qed simp

lemma run_bytes_nonneg: "stream_ok n bs \<Longrightarrow> n \<ge> 0 \<Longrightarrow> snd (snd (run_bytes bs v n)) \<ge> 0"
proof (induction bs arbitrary: v n)
  case (Cons b bs)
  from Cons.prems show ?case unfolding run_bytes_remain
    by (intro Cons.IH) (auto split: if_splits)
qed simp

section \<open>Bytes of encoded code points\<close>

lemma mask_bytes:
  "(0x3f :: byte) = mask 6" "(0x1f :: byte) = mask 5" "(0x0f :: byte) = mask 4"
  "(0x07 :: byte) = mask 3" "(0x7f :: byte) = mask 7"
  by (simp_all add: mask_eq_exp_minus_1)

lemma prefix_bytes:
  "(2 :: byte) = push_bit 1 (mask 1)" "(6 :: byte) = push_bit 1 (mask 2)"
  "(14 :: byte) = push_bit 1 (mask 3)" "(15 :: byte) = mask 4"
  by (simp_all add: mask_eq_exp_minus_1)

lemma decode_masks:
  "decode_mask 0 = 0x7f" "decode_mask 1 = 0x3f" "decode_mask 2 = 0x1f" "decode_mask 3 = 0x0f"
  by (simp_all add: decode_mask_def)

lemma cont_byte:
  fixes x :: u32 defines "b \<equiv> ucast (0x80 OR (x AND 0x3f)) :: byte"
  shows "b \<noteq> 0" "drop_bit 6 b = 2" "ucast (b AND 0x3F) = take_bit 6 x"
proof -
  show d: "drop_bit 6 b = 2" unfolding b_def exp_numerals mask_bytes prefix_bytes
    by (rule bit_word_eqI) (simp only: bit_field comp_apply, auto)
  show "ucast (b AND 0x3F) = take_bit 6 x" unfolding b_def exp_numerals mask_bytes prefix_bytes
    by (rule bit_word_eqI) (simp only: bit_field, fastforce)
  from d show "b \<noteq> 0" by auto
qed

lemma lead_byte_field:
  fixes x :: u32
  shows "ucast ((ucast (0xc0 OR (x AND 0x1f)) :: byte) AND 0x3f) = take_bit 5 x"
    "ucast ((ucast (0xe0 OR (x AND 0x0f)) :: byte) AND 0x1f) = take_bit 4 x"
    "ucast ((ucast (0xf0 OR (x AND 0x07)) :: byte) AND 0x0f) = take_bit 3 x"
  unfolding exp_numerals mask_bytes prefix_bytes
  by (rule bit_word_eqI, simp only: bit_field, fastforce)+

lemma lead_byte_prefix:
  fixes x :: u32
  shows "drop_bit 5 (ucast (0xc0 OR (x AND 0x1f)) :: byte) = 6"
    "drop_bit 4 (ucast (0xe0 OR (x AND 0x0f)) :: byte) = 14"
    "drop_bit 4 (ucast (0xf0 OR (x AND 0x07)) :: byte) = 15"
  unfolding exp_numerals mask_bytes prefix_bytes
  by (rule bit_word_eqI, simp only: bit_field comp_apply, fastforce)+

lemma lead_byte_nonzero:
  fixes x :: u32
  shows "(ucast (0xc0 OR (x AND 0x1f)) :: byte) \<noteq> 0" "(ucast (0xe0 OR (x AND 0x0f)) :: byte) \<noteq> 0"
    "(ucast (0xf0 OR (x AND 0x07)) :: byte) \<noteq> 0"
proof -
  have "b \<noteq> 0" if "drop_bit k b = numeral n" "(numeral n :: byte) \<noteq> 0" for b :: byte and k n
    using that by auto
  from this [OF lead_byte_prefix(1)] this [OF lead_byte_prefix(2)] this [OF lead_byte_prefix(3)]
  show "(ucast (0xc0 OR (x AND 0x1f)) :: byte) \<noteq> 0" "(ucast (0xe0 OR (x AND 0x0f)) :: byte) \<noteq> 0"
    "(ucast (0xf0 OR (x AND 0x07)) :: byte) \<noteq> 0" by simp_all
qed

lemma add_fields:
  fixes x :: u32
  shows "push_bit 6 v + take_bit 6 x = push_bit 6 v OR take_bit 6 x"
    "(push_bit 12 u OR push_bit 6 v) + take_bit 6 x = (push_bit 12 u OR push_bit 6 v) OR take_bit 6 x"
    "((push_bit 18 w OR push_bit 12 u) OR push_bit 6 v) + take_bit 6 x
      = ((push_bit 18 w OR push_bit 12 u) OR push_bit 6 v) OR take_bit 6 x"
  by (rule disjunctive_add, auto simp: bit_field)+

lemma decode_lookup_lead:
  "drop_bit 5 b = 6 \<Longrightarrow> decode_lookup b = 2" "drop_bit 4 b = 14 \<Longrightarrow> decode_lookup b = 3"
  "drop_bit 4 b = 15 \<Longrightarrow> decode_lookup b = 4"
proof -
  assume "drop_bit 5 b = 6"
  then have "unat (drop_bit 5 b) = 6" by simp
  then have "unat b div 32 = 6" by (simp add: unat_drop_bit_eq drop_bit_eq_div unat_div)
  then have "unat b div 16 = 12 \<or> unat b div 16 = 13" by linarith
  then show "decode_lookup b = 2" by (auto simp: decode_lookup_def unat_drop_bit_eq drop_bit_eq_div unat_div)
qed (simp_all add: decode_lookup_def)

lemma ascii_byte:
  assumes "(c :: u32) \<le> 0x7f"
  shows "decode_lookup (ucast c) = 1" "ucast ((ucast c :: byte) AND 0x7f) = c"
    "(ucast c :: byte) = 0 \<longleftrightarrow> c = 0"
proof -
  from assms have n: "unat c \<le> 127" by (simp add: word_le_nat_alt)
  then have "unat (ucast c :: byte) = unat c" by (simp add: unsigned_ucast_eq take_bit_nat_eq_self)
  with n have "unat (drop_bit 4 (ucast c :: byte)) < 8" by (simp add: unat_drop_bit_eq drop_bit_eq_div unat_div)
  then show "decode_lookup (ucast c) = 1"
    by (auto simp: decode_lookup_def less_Suc_eq numeral_eq_Suc)
  show "(ucast c :: byte) = 0 \<longleftrightarrow> c = 0" using ascii_ucast [OF assms] by auto
  have "take_bit 7 c = c" using assms by (intro take_bit_u32_eq) (simp add: word_le_def)
  then have "c AND mask 7 = c" by (simp add: take_bit_eq_mask)
  moreover have "ucast ((ucast c :: byte) AND 0x7f) = c AND mask 7" unfolding mask_bytes
    by (rule bit_word_eqI) (simp only: bit_field, fastforce)
  ultimately show "ucast ((ucast c :: byte) AND 0x7f) = c" by simp
qed

lemmas lead_facts = decode_lookup_lead lead_byte_prefix lead_byte_nonzero decode_masks lead_byte_field

section \<open>Encoded code points on the automaton\<close>

lemma run_bytes_encoded:
  assumes enc: "unicode_cpt_to_utf8 c = Inr bs" and c: "c \<noteq> 0"
  shows "stream_ok 0 bs \<and> run_bytes bs v 0 = ([c], c, 0)"
proof -
  consider "c \<le> 0x7f" | "\<not> c \<le> 0x7f" "c \<le> 0x7ff" 
    | "\<not> c \<le> 0x7f" "\<not> c \<le> 0x7ff" "c \<le> 0xffff"
    | "\<not> c \<le> 0x7f" "\<not> c \<le> 0x7ff" "\<not> c \<le> 0xffff" "c \<le> 0x10ffff"
    using enc by (auto simp: encode_cases split: if_splits)
  then show ?thesis
  proof cases
    case 1
    with enc c show ?thesis by (auto simp: encode_cases ascii_byte decode_masks)
  next
    case 2
    then have "bs = [ucast (0xc0 OR (drop_bit 6 c AND 0x1f)), ucast (0x80 OR (c AND 0x3f))]"
      using enc by (auto simp: encode_cases split: if_splits)
    moreover have "uint c < 2 ^ 11" using 2 by (simp add: word_le_def)
    ultimately show ?thesis by (simp add: lead_facts cont_byte add_fields join2)
  next
    case 3
    then have "bs = [ucast (0xe0 OR (drop_bit 12 c AND 0x0f)), ucast (0x80 OR (drop_bit 6 c AND 0x3f)),
        ucast (0x80 OR (c AND 0x3f))]"
      using enc by (auto simp: encode_cases split: if_splits)
    moreover have "uint c < 2 ^ 16" using 3 by (simp add: word_le_def)
    ultimately show ?thesis by (simp add: lead_facts cont_byte add_fields Let_def or.assoc [symmetric] join3 [simplified or.assoc [symmetric]])
  next
    case 4
    then have "bs = [ucast (0xf0 OR (drop_bit 18 c AND 0x07)), ucast (0x80 OR (drop_bit 12 c AND 0x3f)),
        ucast (0x80 OR (drop_bit 6 c AND 0x3f)), ucast (0x80 OR (c AND 0x3f))]"
      using enc by (auto simp: encode_cases split: if_splits)
    moreover have "uint c < 2 ^ 21" using 4 by (simp add: word_le_def)
    ultimately show ?thesis by (simp add: lead_facts cont_byte add_fields Let_def or.assoc [symmetric] join4 [simplified or.assoc [symmetric]])
  qed
qed

lemma run_bytes_cpts:
  assumes "mapE unicode_cpt_to_utf8 cps = Inr bss" "0 \<notin> set cps"
  shows "stream_ok 0 (concat bss) \<and> (\<exists>v'. run_bytes (concat bss) v 0 = (cps, v', 0))"
  using assms
proof (induction cps arbitrary: bss v)
  case (Cons c cps)
  then obtain bs bss' where bs: "unicode_cpt_to_utf8 c = Inr bs"
    and bss': "mapE unicode_cpt_to_utf8 cps = Inr bss'" and [simp]: "bss = bs # bss'"
    by (auto simp: bindE_Inr_iff)
  from Cons.prems have "c \<noteq> 0" "0 \<notin> set cps" by auto
  with run_bytes_encoded [OF bs, of v] Cons.IH [OF bss', of c] show ?case
    by (auto simp: run_bytes_append stream_ok_append [of _ _ _ v] split: prod.splits)
qed simp

text \<open>
  C4: a text of non-NUL code points may be cut at any byte. The code points of the two pieces, each
  list without its terminating zero, are together the text, no sequence is reported invalid, and
  none is pending at the end.
\<close>

theorem decode_utf8_stream:
  assumes "unicode_cpts_to_utf8 cps = Inr (xs @ ys)" "0 \<notin> set cps"
    and "decode_utf8 xs \<lparr>pvalue = v, n_remain = 0\<rparr> = (out, p)"
    and "decode_utf8 ys p = (out', p')"
  shows "n_remain p \<ge> 0 \<and> n_remain p' = 0 \<and> last out = 0 \<and> last out' = 0
    \<and> butlast out @ butlast out' = cps"
proof -
  obtain bss where "mapE unicode_cpt_to_utf8 cps = Inr bss" and "concat bss = xs @ ys"
    using assms(1) by (auto simp: unicode_cpts_to_utf8_def bindE_Inr_iff)
  then have ok: "stream_ok 0 (xs @ ys)" and ex: "\<exists>w. run_bytes (xs @ ys) v 0 = (cps, w, 0)"
    using run_bytes_cpts [OF _ assms(2), of bss v] by simp_all
  obtain o1 v1 n1 where r1: "run_bytes xs v 0 = (o1, v1, n1)" by (cases "run_bytes xs v 0")
  obtain o2 v2 n2 where r2: "run_bytes ys v1 n1 = (o2, v2, n2)" by (cases "run_bytes ys v1 n1")
  from ok r1 have ok1: "stream_ok 0 xs" and ok2: "stream_ok n1 ys"
    by (auto simp: stream_ok_append [of _ _ _ v])
  from run_bytes_nonneg [OF ok1, of v] r1 have n1: "n1 \<ge> 0" by simp
  from ok1 r1 assms(3) have "out = o1 @ [0]" "p = \<lparr>pvalue = v1, n_remain = n1\<rparr>"
    by (simp_all add: decode_utf8_run)
  moreover from this ok2 n1 r2 assms(4) have "out' = o2 @ [0]" "p' = \<lparr>pvalue = v2, n_remain = n2\<rparr>"
    by (simp_all add: decode_utf8_run)
  moreover from ex r1 r2 have "cps = o1 @ o2" "n2 = 0" by (auto simp: run_bytes_append)
  ultimately show ?thesis using n1 by simp
qed

lemma decode_utf8_stream_witness:
  "n_remain \<lparr>pvalue = 3, n_remain = 1\<rparr> \<ge> 0 \<and> n_remain \<lparr>pvalue = 233, n_remain = 0\<rparr> = 0
    \<and> last [97, 0 :: u32] = 0 \<and> last [233, 0 :: u32] = 0
    \<and> butlast [97, 0] @ butlast [233, 0] = [97, 233 :: u32]"
proof (rule decode_utf8_stream)
  show "unicode_cpts_to_utf8 [97, 233] = Inr ([0x61, 0xc3] @ [0xa9])" by code_simp
  show "decode_utf8 [0x61, 0xc3] \<lparr>pvalue = 0, n_remain = 0\<rparr> = ([97, 0], \<lparr>pvalue = 3, n_remain = 1\<rparr>)"
    by code_simp
  show "decode_utf8 [0xa9] \<lparr>pvalue = 3, n_remain = 1\<rparr> = ([233, 0], \<lparr>pvalue = 233, n_remain = 0\<rparr>)"
    by code_simp
qed simp

end
