(* ===== verification/GrammarLanguage.thy ===== *)
theory GrammarLanguage
  imports GrammarEngine
begin

text \<open>
  The specification of the grammar engine: the context-free language of a grammar, and the proofs
  that the engine's stacks denote exactly the rest of the input it may still accept.
\<close>

section \<open>Context-free grammars\<close>

datatype cclass = Single u32 | Range u32 u32 | AnyChar

fun in_class :: "u32 \<Rightarrow> cclass \<Rightarrow> bool" where
  "in_class c (Single v) \<longleftrightarrow> v = c"
| "in_class c (Range lo hi) \<longleftrightarrow> lo \<le> c \<and> c \<le> hi"
| "in_class c AnyChar \<longleftrightarrow> True"

text \<open>A terminal is a set of classes, inclusive (\<open>True\<close>) or inverse; a non-terminal a rule index.\<close>

datatype gsym = Term bool "cclass list" | NonTerm nat

definition term_matches :: "bool \<Rightarrow> cclass list \<Rightarrow> u32 \<Rightarrow> bool" where
  "term_matches positive cs c \<longleftrightarrow> list_ex (in_class c) cs = positive"

text \<open>\<open>lang G s w\<close>: the symbols \<open>s\<close> derive the code points \<open>w\<close>.\<close>

inductive lang :: "(nat \<Rightarrow> gsym list list) \<Rightarrow> gsym list \<Rightarrow> u32 list \<Rightarrow> bool"
  for G :: "nat \<Rightarrow> gsym list list" where
  lang_nil: "lang G [] []"
| lang_term: "term_matches p cs c \<Longrightarrow> lang G s w \<Longrightarrow> lang G (Term p cs # s) (c # w)"
| lang_nt: "a \<in> set (G x) \<Longrightarrow> lang G a u \<Longrightarrow> lang G s v \<Longrightarrow> lang G (NonTerm x # s) (u @ v)"

inductive_simps lang_nil_iff [simp]: "lang G [] w"
inductive_simps lang_term_iff: "lang G (Term p cs # s) w"
inductive_cases lang_ntE: "lang G (NonTerm x # s) w"

lemma lang_append_intro: "lang G s u \<Longrightarrow> lang G t v \<Longrightarrow> lang G (s @ t) (u @ v)"
  by (induction rule: lang.induct) (auto intro: lang.intros)

lemma lang_append_elim:
  "lang G st w \<Longrightarrow> st = s @ t \<Longrightarrow> \<exists>u v. w = u @ v \<and> lang G s u \<and> lang G t v"
proof (induction arbitrary: s rule: lang.induct)
  case lang_nil
  then show ?case by (auto intro: lang.lang_nil)
next
  case (lang_term p cs c s' w)
  show ?case
  proof (cases s)
    case Nil
    with lang_term show ?thesis by (auto intro: lang.lang_term)
  next
    case (Cons y s1)
    with lang_term obtain u v where "w = u @ v" "lang G s1 u" "lang G t v" by auto
    with lang_term Cons show ?thesis
      by (intro exI [of _ "c # u"] exI [of _ v]) (auto intro: lang.lang_term)
  qed
next
  case (lang_nt a x u1 s' v1)
  show ?case
  proof (cases s)
    case Nil
    with lang_nt show ?thesis by (auto intro: lang.lang_nt)
  next
    case (Cons y s1)
    with lang_nt obtain u v where "v1 = u @ v" "lang G s1 u" "lang G t v" by auto
    with lang_nt Cons show ?thesis
      by (intro exI [of _ "u1 @ u"] exI [of _ v]) (auto intro: lang.lang_nt)
  qed
qed

lemma lang_append_iff:
  "lang G (s @ t) w \<longleftrightarrow> (\<exists>u v. w = u @ v \<and> lang G s u \<and> lang G t v)"
  using lang_append_intro [of G s _ t] lang_append_elim [of G "s @ t" w s t] by auto

lemma lang_nt_iff: "lang G (NonTerm x # s) w \<longleftrightarrow> (\<exists>a\<in>set (G x). lang G (a @ s) w)"
proof
  assume "lang G (NonTerm x # s) w"
  then show "\<exists>a\<in>set (G x). lang G (a @ s) w"
    by (rule lang_ntE) (auto intro: lang_append_intro)
next
  assume "\<exists>a\<in>set (G x). lang G (a @ s) w"
  then show "lang G (NonTerm x # s) w"
    by (auto simp: lang_append_iff intro: lang_nt)
qed

section \<open>The grammar of a rule vector\<close>

text \<open>
  \<open>char_classes es\<close> reads the character class at the head of \<open>es\<close>: a character or a range, and the
  \<open>LLAMA_GRETYPE_CHAR_ALT\<close> elements after it; it returns the classes and what follows.
\<close>

definition first_class :: "grammar_rule \<Rightarrow> cclass \<times> grammar_rule" where
  "first_class es = (case es of
      [] \<Rightarrow> (Single 0, [])
    | e # es' \<Rightarrow> (case es' of
        u # es'' \<Rightarrow>
          if etype u = LLAMA_GRETYPE_CHAR_RNG_UPPER then (Range (evalue e) (evalue u), es'')
          else (if etype e = LLAMA_GRETYPE_CHAR_ANY then AnyChar else Single (evalue e), es')
      | [] \<Rightarrow> (if etype e = LLAMA_GRETYPE_CHAR_ANY then AnyChar else Single (evalue e), [])))"

definition starts_alt :: "grammar_rule \<Rightarrow> bool" where
  "starts_alt es \<longleftrightarrow> (case es of [] \<Rightarrow> False | e # _ \<Rightarrow> etype e = LLAMA_GRETYPE_CHAR_ALT)"

lemma first_class_shorter: "first_class es = (c, r) \<Longrightarrow> es \<noteq> [] \<Longrightarrow> length r < length es"
  by (auto simp: first_class_def split: list.splits if_splits)

function char_classes :: "grammar_rule \<Rightarrow> cclass list \<times> grammar_rule" where
  "char_classes es = (case first_class es of (c, r) \<Rightarrow>
     if starts_alt r \<and> es \<noteq> [] then (case char_classes r of (cs, r') \<Rightarrow> (c # cs, r')) else ([c], r))"
  by pat_completeness auto
termination
  by (relation "measure length") (auto dest: first_class_shorter [OF sym])

declare char_classes.simps [simp del]

lemma char_classes_shorter: "es \<noteq> [] \<Longrightarrow> length (snd (char_classes es)) < length es"
proof (induction es rule: char_classes.induct)
  case (1 es)
  obtain c r where fc: "first_class es = (c, r)" by fastforce
  with "1.prems" have "length r < length es" by (simp add: first_class_shorter)
  with 1 fc show ?case
    by (subst char_classes.simps)
       (auto simp: starts_alt_def split: prod.splits list.splits)
qed

text \<open>The symbols of a sequence, up to the end of its alternate.\<close>

function seq_syms :: "grammar_rule \<Rightarrow> gsym list" where
  "seq_syms [] = []"
| "seq_syms (e # es) =
    (if is_end_type (etype e) then []
     else if etype e = LLAMA_GRETYPE_RULE_REF then NonTerm (unat (evalue e)) # seq_syms es
     else if is_char_start (etype e) then
       (case char_classes (e # es) of (cs, r) \<Rightarrow>
          Term (is_positive_char (etype e)) cs # seq_syms r)
     else [Term True []])"
  by pat_completeness auto
termination
proof (relation "measure length", goal_cases)
  case (3 e es cs r)
  then show ?case using char_classes_shorter [of "e # es"] by (cases "char_classes (e # es)") auto
qed simp_all

function alt_syms :: "grammar_rule \<Rightarrow> gsym list list" where
  "alt_syms es = seq_syms es #
     (case dropWhile (\<lambda>e. \<not> is_end_type (etype e)) es of
        [] \<Rightarrow> []
      | e # es' \<Rightarrow> if etype e = LLAMA_GRETYPE_ALT then alt_syms es' else [])"
  by pat_completeness auto
termination
proof (relation "measure length", goal_cases)
  case (2 es e es')
  then show ?case
    using length_dropWhile_le [of "\<lambda>e. \<not> is_end_type (etype e)" es] by simp
qed simp

declare alt_syms.simps [simp del]

definition rule_prods :: "grammar_rules \<Rightarrow> nat \<Rightarrow> gsym list list" where
  "rule_prods rules x = (if x < length rules then alt_syms (rules ! x) else [[]])"

section \<open>Pointers and stacks as symbol strings\<close>

definition from_pos :: "grammar_rules \<Rightarrow> gpos \<Rightarrow> grammar_rule" where
  "from_pos rules p = (if fst p < length rules then drop (snd p) (rules ! fst p) else [])"

definition seq_at :: "grammar_rules \<Rightarrow> gpos \<Rightarrow> gsym list" where
  "seq_at rules p = seq_syms (from_pos rules p)"

definition stack_syms :: "grammar_rules \<Rightarrow> grammar_stack \<Rightarrow> gsym list" where
  "stack_syms rules stack = concat (map (seq_at rules) (rev stack))"

definition stack_lang :: "grammar_rules \<Rightarrow> grammar_stack \<Rightarrow> u32 list \<Rightarrow> bool" where
  "stack_lang rules stack w \<longleftrightarrow> lang (rule_prods rules) (stack_syms rules stack) w"

definition stacks_lang :: "grammar_rules \<Rightarrow> grammar_stacks \<Rightarrow> u32 list \<Rightarrow> bool" where
  "stacks_lang rules stacks w \<longleftrightarrow> (\<exists>stack\<in>set stacks. stack_lang rules stack w)"

lemma stack_syms_simps [simp]:
  "stack_syms rules [] = []"
  "stack_syms rules (stack @ [p]) = seq_at rules p @ stack_syms rules stack"
  by (simp_all add: stack_syms_def)

lemma from_pos_gelem:
  "from_pos rules p = (if fst p < length rules \<and> snd p < length (rules ! fst p)
     then gelem rules p # from_pos rules (advance_ptr p 1) else [])"
  by (auto simp: from_pos_def gelem_def advance_ptr_def Cons_nth_drop_Suc)

lemma from_pos_Nil_gelem: "from_pos rules p = [] \<Longrightarrow> gtype rules p = LLAMA_GRETYPE_END"
  by (auto simp: from_pos_def gelem_def split: if_splits)

lemma from_pos_Cons_gelem: "from_pos rules p = e # es \<Longrightarrow> gelem rules p = e"
  by (subst (asm) from_pos_gelem) (auto split: if_splits)

lemma from_pos_tl: "from_pos rules p = e # es \<Longrightarrow> from_pos rules (advance_ptr p 1) = es"
  by (subst (asm) from_pos_gelem) (auto split: if_splits)

lemma advance_ptr_2 [simp]: "advance_ptr (advance_ptr p 1) 1 = advance_ptr p 2"
  by (simp add: advance_ptr_def)

lemma from_pos_nonempty:
  assumes "gtype rules p \<noteq> LLAMA_GRETYPE_END"
  shows "from_pos rules p = gelem rules p # from_pos rules (advance_ptr p 1)"
  using gtype_in_range [OF assms] by (subst from_pos_gelem) simp

lemma end_of_sequence_syms:
  "llama_grammar_is_end_of_sequence rules p \<Longrightarrow> seq_at rules p = []"
  by (cases "from_pos rules p")
     (simp_all add: seq_at_def llama_grammar_is_end_of_sequence_def from_pos_Cons_gelem)

lemma push_rest_syms [simp]:
  "stack_syms rules (push_rest rules p stack) = seq_at rules p @ stack_syms rules stack"
  by (simp add: push_rest_def end_of_sequence_syms)

lemma gtype_next:
  assumes "from_pos rules p = e # es"
  shows "gelem rules (advance_ptr p 1) = (case es of [] \<Rightarrow> mk_elem LLAMA_GRETYPE_END 0 | u # _ \<Rightarrow> u)"
proof (cases es)
  case Nil
  with from_pos_tl [OF assms] show ?thesis
    by (auto simp: from_pos_def gelem_def split: if_splits)
next
  case (Cons u es')
  with from_pos_tl [OF assms] show ?thesis by (simp add: from_pos_Cons_gelem)
qed

lemma starts_alt_gtype: "starts_alt (from_pos rules p) \<longleftrightarrow> gtype rules p = LLAMA_GRETYPE_CHAR_ALT"
  by (cases "from_pos rules p")
     (simp_all add: starts_alt_def from_pos_Nil_gelem from_pos_Cons_gelem)

lemma match_char_step_class:
  assumes "from_pos rules p = e # es" "match_char_step rules chr p found = (f, p')"
    "first_class (e # es) = (c, r)"
  shows "f = (found \<or> in_class chr c) \<and> from_pos rules p' = r"
proof (cases es)
  case Nil
  with assms gtype_next [OF assms(1)] from_pos_tl [OF assms(1)] from_pos_Cons_gelem [OF assms(1)]
  show ?thesis by (auto simp: match_char_step_def first_class_def split: if_splits)
next
  case (Cons u es')
  with from_pos_tl [OF assms(1)] have "from_pos rules (advance_ptr p 2) = es'"
    by (metis advance_ptr_2 from_pos_tl)
  with Cons assms gtype_next [OF assms(1)] from_pos_tl [OF assms(1)] from_pos_Cons_gelem [OF assms(1)]
  show ?thesis by (auto simp: match_char_step_def first_class_def split: if_splits)
qed

lemma match_char_loop_class:
  assumes "from_pos rules p \<noteq> []" "match_char_loop rules chr p found = (f, p')"
    "char_classes (from_pos rules p) = (cs, r)"
  shows "f = (found \<or> list_ex (in_class chr) cs) \<and> from_pos rules p' = r"
  using assms
proof (induction rules chr p found arbitrary: cs rule: match_char_loop.induct)
  case (1 rules chr p found)
  obtain e es where es: "from_pos rules p = e # es" using "1.prems"(1) by (cases "from_pos rules p") auto
  obtain f1 p1 where step: "match_char_step rules chr p found = (f1, p1)"
    by (cases "match_char_step rules chr p found")
  obtain c r1 where fc: "first_class (e # es) = (c, r1)" by (cases "first_class (e # es)")
  note mc = match_char_step_class [OF es step fc]
  show ?case
  proof (cases "gtype rules p1 = LLAMA_GRETYPE_CHAR_ALT")
    case True
    then have alt: "starts_alt r1" using mc starts_alt_gtype [of rules p1] by simp
    then have ne: "from_pos rules p1 \<noteq> []" using mc by (auto simp: starts_alt_def)
    obtain cs' where cc: "char_classes (from_pos rules p1) = (cs', r)" "cs = c # cs'"
      using "1.prems"(3) fc alt es mc by (auto simp: char_classes.simps [of "e # es"] split: prod.splits)
    have "match_char_loop rules chr p1 f1 = (f, p')"
      using "1.prems"(2) step True by (simp add: match_char_loop.simps [of rules chr p])
    from "1.IH" [OF step [symmetric] True ne this cc(1)] mc cc(2) show ?thesis by auto
  next
    case False
    then have "\<not> starts_alt r1" using mc starts_alt_gtype [of rules p1] by simp
    with "1.prems" fc es step False mc show ?thesis
      by (auto simp add: char_classes.simps [of "e # es"] match_char_loop.simps [of rules chr p])
  qed
qed

text \<open>
  \<open>llama_grammar_match_char\<close> at a terminal decides it, and returns the position behind it, which
  does not depend on the character.
\<close>

lemma match_char_syms:
  assumes "llama_grammar_match_char rules p chr = Inr (ok, p')"
  shows "\<exists>pos cs. seq_at rules p = Term pos cs # seq_at rules p' \<and> term_matches pos cs chr = ok"
proof -
  have st: "is_char_start (gtype rules p)" and
    ml: "\<exists>f. match_char_loop rules chr p False = (f, p') \<and> ok = (f = is_positive_char (gtype rules p))"
    using assms by (auto simp: llama_grammar_match_char_def is_positive_char_def is_char_start_def
        split: if_splits prod.splits)
  then obtain f where f: "match_char_loop rules chr p False = (f, p')" "ok = (f = is_positive_char (gtype rules p))"
    by blast
  have ne: "gtype rules p \<noteq> LLAMA_GRETYPE_END" using st by (auto simp: is_char_start_def)
  note fp = from_pos_nonempty [OF ne]
  obtain cs r where cc: "char_classes (from_pos rules p) = (cs, r)" by fastforce
  from match_char_loop_class [OF _ f(1) cc] fp
  have "f = list_ex (in_class chr) cs" "from_pos rules p' = r" by auto
  moreover have "seq_at rules p = Term (is_positive_char (gtype rules p)) cs # seq_syms r"
    using st fp cc by (auto simp: seq_at_def is_char_start_def is_end_type_def)
  ultimately show ?thesis using f(2) by (auto simp: seq_at_def term_matches_def)
qed

lemma from_pos_scan:
  "from_pos rules (scan_to_end rules p) = dropWhile (\<lambda>e. \<not> is_end_type (etype e)) (from_pos rules p)"
proof (induction rules p rule: scan_to_end.induct)
  case (1 rules p)
  show ?case
  proof (cases "llama_grammar_is_end_of_sequence rules p")
    case True
    then show ?thesis
      by (cases "from_pos rules p")
         (simp_all add: scan_to_end.simps [of rules p] llama_grammar_is_end_of_sequence_def from_pos_Cons_gelem)
  next
    case False
    then have "gtype rules p \<noteq> LLAMA_GRETYPE_END"
      by (auto simp: llama_grammar_is_end_of_sequence_def is_end_type_def)
    with 1 False show ?thesis
      by (simp add: scan_to_end.simps [of rules p] from_pos_nonempty llama_grammar_is_end_of_sequence_def)
  qed
qed

lemma alternates_syms: "map (seq_at rules) (alternates rules p) = alt_syms (from_pos rules p)"
proof (induction rules p rule: alternates.induct)
  case (1 rules p)
  let ?e = "scan_to_end rules p"
  show ?case
  proof (cases "gtype rules ?e = LLAMA_GRETYPE_ALT")
    case True
    then have "from_pos rules ?e = gelem rules ?e # from_pos rules (advance_ptr ?e 1)"
      by (intro from_pos_nonempty) simp
    with True 1 show ?thesis
      by (simp add: alternates.simps [of rules p] alt_syms.simps [of "from_pos rules p"]
          from_pos_scan [symmetric] seq_at_def)
  next
    case False
    then show ?thesis
      by (cases "from_pos rules ?e")
         (simp_all add: alternates.simps [of rules p] alt_syms.simps [of "from_pos rules p"]
          from_pos_scan [symmetric] seq_at_def from_pos_Cons_gelem)
  qed
qed

section \<open>The stacks denote the remaining language\<close>

lemma rule_prods_alternates:
  "x < length rules \<Longrightarrow> set (rule_prods rules x) = seq_at rules ` set (alternates rules (x, 0))"
  using alternates_syms [of rules "(x, 0)"]
  by (simp add: rule_prods_def from_pos_def flip: set_map)

lemma push_unique_lang [simp]:
  "stacks_lang rules (push_unique stack ss) w \<longleftrightarrow> stacks_lang rules ss w \<or> stack_lang rules stack w"
  by (auto simp: push_unique_def stacks_lang_def)

lemma stack_syms_ref:
  assumes "stack \<noteq> []" "gtype rules (last stack) = LLAMA_GRETYPE_RULE_REF"
  shows "stack_syms rules stack = NonTerm (unat (gvalue rules (last stack)))
    # seq_at rules (advance_ptr (last stack) 1) @ stack_syms rules (butlast stack)"
proof -
  have "stack_syms rules stack = seq_at rules (last stack) @ stack_syms rules (butlast stack)"
    using assms(1) stack_syms_simps(2) [of rules "butlast stack" "last stack"] by simp
  then show ?thesis using assms(2) by (simp add: seq_at_def from_pos_nonempty is_end_type_def)
qed

lemma advance_stack_lang:
  assumes "llama_grammar_advance_stack depth rules stack ss = Inr ss'"
  shows "stacks_lang rules ss' w \<longleftrightarrow> stacks_lang rules ss w \<or> stack_lang rules stack w"
  using assms
proof (induction depth arbitrary: stack ss ss')
  case (Suc depth)
  show ?case
  proof (cases "stack \<noteq> [] \<and> gtype rules (last stack) = LLAMA_GRETYPE_RULE_REF")
    case True
    let ?x = "unat (gvalue rules (last stack))"
    let ?next = "\<lambda>p. push_rest rules p (push_rest rules (advance_ptr (last stack) 1) (butlast stack))"
    from Suc.prems True have x: "?x < length rules" and
      fold: "foldE (\<lambda>p. llama_grammar_advance_stack depth rules (?next p)) (alternates rules (?x, 0)) ss = Inr ss'"
      by (auto simp: Let_def split: if_splits)
    from foldE_disj [OF fold, where P = "\<lambda>ss. stacks_lang rules ss w" and Q = "\<lambda>p. stack_lang rules (?next p) w"]
    have "stacks_lang rules ss' w \<longleftrightarrow>
        stacks_lang rules ss w \<or> (\<exists>p\<in>set (alternates rules (?x, 0)). stack_lang rules (?next p) w)"
      using Suc.IH by blast
    with True x show ?thesis
      by (simp add: stack_lang_def stack_syms_ref lang_nt_iff rule_prods_alternates)
  next
    case False
    with Suc.prems show ?thesis
      by (cases "stack = []") (auto simp: Let_def split: gretype.splits)
  qed
qed simp

lemma match_char_lang:
  assumes "llama_grammar_match_char rules (last stack) chr = Inr (ok, p)" "stack \<noteq> []"
  shows "stack_lang rules stack (chr # w) \<longleftrightarrow> ok \<and> stack_lang rules (push_rest rules p (butlast stack)) w"
proof -
  from match_char_syms [OF assms(1)] obtain pos cs where
    "seq_at rules (last stack) = Term pos cs # seq_at rules p" "term_matches pos cs chr = ok" by blast
  moreover have "stack_syms rules stack = seq_at rules (last stack) @ stack_syms rules (butlast stack)"
    using assms(2) stack_syms_simps(2) [of rules "butlast stack" "last stack"] by simp
  ultimately show ?thesis by (simp add: stack_lang_def lang_term_iff)
qed

lemma accept_lang:
  assumes "llama_grammar_accept depth rules ss chr = Inr ss'"
  shows "stacks_lang rules ss' w \<longleftrightarrow> stacks_lang rules ss (chr # w)"
proof -
  have "stacks_lang rules ss' w \<longleftrightarrow> stacks_lang rules [] w \<or> (\<exists>stack\<in>set ss. stack_lang rules stack (chr # w))"
    using assms unfolding llama_grammar_accept_def
  proof (rule foldE_disj, goal_cases)
    case (1 stack s t)
    show ?case
    proof (cases "stack = []")
      case True
      with 1 show ?thesis by (simp add: stack_lang_def)
    next
      case False
      with 1 obtain ok p where m: "llama_grammar_match_char rules (last stack) chr = Inr (ok, p)"
        by (auto simp: bindE_Inr_iff)
      with 1 False show ?thesis
        by (auto simp: match_char_lang [OF m False] dest: advance_stack_lang split: if_splits)
    qed
  qed
  then show ?thesis by (simp add: stacks_lang_def)
qed

lemma accept_code_points_lang:
  "accept_code_points depth rules cps ss = Inr ss' \<Longrightarrow>
   stacks_lang rules ss' w \<longleftrightarrow> stacks_lang rules ss (cps @ w)"
proof (induction cps arbitrary: ss)
  case (Cons c cps)
  then obtain s where s: "llama_grammar_accept depth rules ss c = Inr s"
    and "accept_code_points depth rules cps s = Inr ss'"
    by (auto simp: accept_code_points_def bindE_Inr_iff)
  with Cons.IH accept_lang [OF s, of "cps @ w"] show ?case by simp
qed (simp add: accept_code_points_def)

lemma initial_stacks_lang:
  assumes "initial_stacks depth rules start = Inr ss" "start < length rules"
  shows "stacks_lang rules ss w \<longleftrightarrow> lang (rule_prods rules) [NonTerm start] w"
proof -
  have "stacks_lang rules ss w \<longleftrightarrow> stacks_lang rules [] w \<or>
      (\<exists>p\<in>set (alternates rules (start, 0)). stack_lang rules (push_rest rules p []) w)"
    using assms(1) unfolding initial_stacks_def
    by (rule foldE_disj) (rule advance_stack_lang)
  with assms(2) show ?thesis
    by (simp add: stacks_lang_def stack_lang_def lang_nt_iff rule_prods_alternates)
qed

section \<open>Ready stacks\<close>

text \<open>\<open>llama_grammar_advance_stack\<close> leaves every stack empty or with a terminal on top.\<close>

definition stack_ready :: "grammar_rules \<Rightarrow> grammar_stack \<Rightarrow> bool" where
  "stack_ready rules stack \<longleftrightarrow> stack = [] \<or> is_char_start (gtype rules (last stack))"

lemma advance_stack_ready:
  "llama_grammar_advance_stack depth rules stack ss = Inr ss' \<Longrightarrow>
   list_all (stack_ready rules) ss \<Longrightarrow> list_all (stack_ready rules) ss'"
proof (induction depth arbitrary: stack ss ss')
  case (Suc depth)
  show ?case
  proof (cases "stack \<noteq> [] \<and> gtype rules (last stack) = LLAMA_GRETYPE_RULE_REF")
    case True
    from Suc.prems True have fold: "foldE (\<lambda>p. llama_grammar_advance_stack depth rules
        (push_rest rules p (push_rest rules (advance_ptr (last stack) 1) (butlast stack))))
        (alternates rules (unat (gvalue rules (last stack)), 0)) ss = Inr ss'"
      by (auto simp: Let_def split: if_splits)
    from foldE_invariant [OF fold, where P = "list_all (stack_ready rules)"] Suc.prems(2) Suc.IH
    show ?thesis by blast
  next
    case False
    with Suc.prems show ?thesis
      by (cases "stack = []")
         (auto simp: Let_def push_unique_def stack_ready_def is_char_start_def split: gretype.splits if_splits)
  qed
qed simp

lemma accept_ready:
  assumes "llama_grammar_accept depth rules ss chr = Inr ss'"
  shows "list_all (stack_ready rules) ss'"
  using assms unfolding llama_grammar_accept_def
  by (rule foldE_invariant)
     (auto simp: bindE_Inr_iff split: if_splits intro: advance_stack_ready)

lemma initial_stacks_ready:
  assumes "initial_stacks depth rules start = Inr ss"
  shows "list_all (stack_ready rules) ss"
  using assms unfolding initial_stacks_def
  by (rule foldE_invariant) (auto intro: advance_stack_ready)

lemma accept_code_points_ready:
  "accept_code_points depth rules cps ss = Inr ss' \<Longrightarrow>
   list_all (stack_ready rules) ss \<Longrightarrow> list_all (stack_ready rules) ss'"
  by (induction cps arbitrary: ss) (auto simp: accept_code_points_def bindE_Inr_iff dest: accept_ready)

lemma ready_match_char:
  assumes "stack_ready rules stack" "stack \<noteq> []"
  shows "\<exists>ok p. llama_grammar_match_char rules (last stack) chr = Inr (ok, p)"
  using assms by (auto simp: stack_ready_def llama_grammar_match_char_def is_char_start_def
      is_positive_char_def split: prod.splits)

lemma ready_empty_iff:
  assumes "list_all (stack_ready rules) ss"
  shows "stacks_lang rules ss [] \<longleftrightarrow> [] \<in> set ss"
proof -
  have "stack_lang rules stack [] \<longleftrightarrow> stack = []" if "stack \<in> set ss" for stack
  proof (cases "stack = []")
    case False
    from assms that False obtain ok p where
      "llama_grammar_match_char rules (last stack) 0 = Inr (ok, p)"
      using ready_match_char [of rules stack 0] by (auto simp: list_all_iff)
    from match_char_syms [OF this] obtain pos cs where
      "seq_at rules (last stack) = Term pos cs # seq_at rules p" by blast
    then show ?thesis
      using False stack_syms_simps(2) [of rules "butlast stack" "last stack"]
      by (simp add: stack_lang_def lang_term_iff)
  qed (simp add: stack_lang_def)
  then show ?thesis by (auto simp: stacks_lang_def)
qed

section \<open>Well-formed rules\<close>

text \<open>
  A well-formed rule is closed by an end marker, refers to existing rules, and has its range bounds
  and alternative characters only inside a character class.
\<close>

function seq_wf :: "nat \<Rightarrow> grammar_rule \<Rightarrow> bool" where
  "seq_wf n [] = False"
| "seq_wf n (e # es) =
    (if etype e = LLAMA_GRETYPE_END then True
     else if etype e = LLAMA_GRETYPE_ALT then seq_wf n es
     else if etype e = LLAMA_GRETYPE_RULE_REF then unat (evalue e) < n \<and> seq_wf n es
     else if is_char_start (etype e) then seq_wf n (snd (char_classes (e # es)))
     else False)"
  by pat_completeness auto
termination
proof (relation "measure (\<lambda>(n, es). length es)", goal_cases)
  case (4 n e es)
  then show ?case using char_classes_shorter [of "e # es"] by simp
qed simp_all

definition rules_wf :: "grammar_rules \<Rightarrow> bool" where
  "rules_wf rules \<longleftrightarrow> list_all (seq_wf (length rules)) rules"

definition pos_wf :: "grammar_rules \<Rightarrow> gpos \<Rightarrow> bool" where
  "pos_wf rules p \<longleftrightarrow> seq_wf (length rules) (from_pos rules p)"

definition stack_wf :: "grammar_rules \<Rightarrow> grammar_stack \<Rightarrow> bool" where
  "stack_wf rules stack \<longleftrightarrow> list_all (\<lambda>p. pos_wf rules p \<and> \<not> llama_grammar_is_end_of_sequence rules p) stack"

lemma stack_wf_simps [simp]:
  "stack_wf rules []"
  "stack_wf rules (stack @ [p]) \<longleftrightarrow>
     stack_wf rules stack \<and> pos_wf rules p \<and> \<not> llama_grammar_is_end_of_sequence rules p"
  by (auto simp: stack_wf_def)

lemma stack_wf_butlast: "stack_wf rules stack \<Longrightarrow> stack_wf rules (butlast stack)"
  by (auto simp: stack_wf_def list_all_iff dest: in_set_butlastD)

lemma stack_wf_last: "stack_wf rules stack \<Longrightarrow> stack \<noteq> [] \<Longrightarrow>
    pos_wf rules (last stack) \<and> \<not> llama_grammar_is_end_of_sequence rules (last stack)"
  by (auto simp: stack_wf_def list_all_iff)

lemma push_rest_wf [intro]: "stack_wf rules stack \<Longrightarrow> pos_wf rules p \<Longrightarrow> stack_wf rules (push_rest rules p stack)"
  by (simp add: push_rest_def)

lemma pos_wf_Cons:
  assumes "pos_wf rules p"
  shows "from_pos rules p = gelem rules p # from_pos rules (advance_ptr p 1)"
proof (cases "from_pos rules p")
  case Nil
  with assms show ?thesis by (simp add: pos_wf_def)
next
  case (Cons e es)
  then show ?thesis by (simp only: from_pos_tl from_pos_Cons_gelem)
qed

lemma pos_wf_seq:
  "pos_wf rules p \<Longrightarrow> seq_wf (length rules) (gelem rules p # from_pos rules (advance_ptr p 1))"
  using pos_wf_Cons [of rules p] by (simp only: pos_wf_def)

lemma pos_wf_types:
  assumes "pos_wf rules p"
  shows "gtype rules p = LLAMA_GRETYPE_END \<or> gtype rules p = LLAMA_GRETYPE_ALT
    \<or> gtype rules p = LLAMA_GRETYPE_RULE_REF \<or> is_char_start (gtype rules p)"
  using pos_wf_seq [OF assms] by (auto split: if_splits)

lemma pos_wf_ref:
  assumes "pos_wf rules p" "gtype rules p = LLAMA_GRETYPE_RULE_REF"
  shows "unat (gvalue rules p) < length rules \<and> pos_wf rules (advance_ptr p 1)"
  using pos_wf_seq [OF assms(1)] assms(2) by (auto simp: pos_wf_def)

lemma pos_wf_alt:
  assumes "pos_wf rules p" "gtype rules p = LLAMA_GRETYPE_ALT"
  shows "pos_wf rules (advance_ptr p 1)"
  using pos_wf_seq [OF assms(1)] assms(2) by (auto simp: pos_wf_def)

lemma match_char_from_pos:
  assumes "llama_grammar_match_char rules p chr = Inr (ok, p')"
  shows "is_char_start (gtype rules p) \<and> from_pos rules p' = snd (char_classes (from_pos rules p))"
proof -
  from assms have st: "is_char_start (gtype rules p)" and
    ml: "\<exists>f. match_char_loop rules chr p False = (f, p')"
    by (auto simp: llama_grammar_match_char_def is_positive_char_def is_char_start_def
        split: if_splits prod.splits)
  then have "from_pos rules p \<noteq> []"
    using from_pos_nonempty [of rules p] by (auto simp: is_char_start_def)
  with st ml match_char_loop_class show ?thesis by (metis prod.collapse)
qed

lemma pos_wf_match_char:
  assumes "pos_wf rules p" "llama_grammar_match_char rules p chr = Inr (ok, p')"
  shows "pos_wf rules p'"
proof -
  from match_char_from_pos [OF assms(2)] have st: "is_char_start (gtype rules p)"
    and fp: "from_pos rules p' = snd (char_classes (from_pos rules p))" by auto
  from pos_wf_seq [OF assms(1)] st have "seq_wf (length rules) (snd (char_classes (gelem rules p # from_pos rules (advance_ptr p 1))))"
    by (auto simp: is_char_start_def)
  then show ?thesis using fp pos_wf_Cons [OF assms(1)] by (simp add: pos_wf_def)
qed

lemma dropWhile_char_classes:
  "es \<noteq> [] \<Longrightarrow> \<not> is_end_type (etype (hd es)) \<Longrightarrow>
   dropWhile (\<lambda>e. \<not> is_end_type (etype e)) (snd (char_classes es)) = dropWhile (\<lambda>e. \<not> is_end_type (etype e)) es"
proof (induction es rule: char_classes.induct)
  case (1 es)
  obtain c r where fc: "first_class es = (c, r)" by (cases "first_class es")
  have drop: "dropWhile (\<lambda>e. \<not> is_end_type (etype e)) r = dropWhile (\<lambda>e. \<not> is_end_type (etype e)) es"
    using fc "1.prems" by (auto simp: first_class_def is_end_type_def split: list.splits if_splits)
  show ?case
  proof (cases "starts_alt r")
    case True
    then have "r \<noteq> []" "\<not> is_end_type (etype (hd r))"
      by (auto simp: starts_alt_def is_end_type_def split: list.splits)
    with 1 fc True drop show ?thesis by (subst char_classes.simps) (auto split: prod.splits)
  next
    case False
    with fc drop show ?thesis by (subst char_classes.simps) simp
  qed
qed

lemma seq_wf_dropWhile:
  "seq_wf n es \<Longrightarrow> seq_wf n (dropWhile (\<lambda>e. \<not> is_end_type (etype e)) es)"
proof (induction n es rule: seq_wf.induct)
  case (2 n e es)
  show ?case
  proof (cases "is_char_start (etype e)")
    case True
    then have "etype e \<notin> {LLAMA_GRETYPE_END, LLAMA_GRETYPE_ALT, LLAMA_GRETYPE_RULE_REF}" "\<not> is_end_type (etype e)"
      by (auto simp: is_char_start_def is_end_type_def)
    with 2 True dropWhile_char_classes [of "e # es"] show ?thesis by auto
  next
    case False
    with 2 show ?thesis by (auto simp: is_end_type_def split: if_splits)
  qed
qed simp

lemma pos_wf_scan: "pos_wf rules p \<Longrightarrow> pos_wf rules (scan_to_end rules p)"
  by (simp add: pos_wf_def from_pos_scan seq_wf_dropWhile)

lemma alternates_wf: "pos_wf rules p \<Longrightarrow> q \<in> set (alternates rules p) \<Longrightarrow> pos_wf rules q"
proof (induction rules p rule: alternates.induct)
  case (1 rules p)
  let ?e = "scan_to_end rules p"
  from "1.prems"(2) consider "q = p"
    | "gtype rules ?e = LLAMA_GRETYPE_ALT" "q \<in> set (alternates rules (advance_ptr ?e 1))"
    by (subst (asm) alternates.simps) (auto simp: Let_def split: if_splits)
  then show ?case
    using "1.IH" [OF refl] pos_wf_scan [OF "1.prems"(1)] pos_wf_alt "1.prems"(1) by cases auto
qed

lemma rule_start_wf: "rules_wf rules \<Longrightarrow> x < length rules \<Longrightarrow> pos_wf rules (x, 0)"
  by (simp add: rules_wf_def pos_wf_def from_pos_def list_all_length)

end
