(* ===== verification/GrammarDepth.thy ===== *)
theory GrammarDepth
  imports GrammarLanguage
begin

text \<open>
  How deep \<open>llama_grammar_advance_stack\<close> recurses: on a grammar without left recursion the depth is
  bounded, so that the engine always returns; the check of \<open>llama_grammar_init_impl\<close> misses some
  left-recursive grammars, on which the recursion has no bound.
\<close>

section \<open>A bound on the recursion\<close>

text \<open>
  \<open>N x\<close>: rule \<open>x\<close> may derive the empty string through references alone. \<open>W x\<close>: how many expansions a
  reference to \<open>x\<close> may take before a terminal comes to the top. The potential of a symbol string adds
  the weights of the references up to the first one that cannot vanish.
\<close>

fun vanishes :: "(nat \<Rightarrow> bool) \<Rightarrow> gsym list \<Rightarrow> bool" where
  "vanishes N [] = True"
| "vanishes N (Term p cs # s) = False"
| "vanishes N (NonTerm x # s) = (N x \<and> vanishes N s)"

fun pot :: "(nat \<Rightarrow> bool) \<Rightarrow> (nat \<Rightarrow> nat) \<Rightarrow> gsym list \<Rightarrow> nat" where
  "pot N W [] = 0"
| "pot N W (Term p cs # s) = 0"
| "pot N W (NonTerm x # s) = W x + (if N x then pot N W s else 0)"

lemma pot_append: "pot N W (s @ t) = pot N W s + (if vanishes N s then pot N W t else 0)"
  by (induction N s rule: vanishes.induct) auto

lemma vanishes_append: "vanishes N (s @ t) \<longleftrightarrow> vanishes N s \<and> vanishes N t"
  by (induction N s rule: vanishes.induct) auto

definition no_left_recursion :: "(nat \<Rightarrow> bool) \<Rightarrow> (nat \<Rightarrow> nat) \<Rightarrow> grammar_rules \<Rightarrow> bool" where
  "no_left_recursion N W rules \<longleftrightarrow>
    list_all (\<lambda>x. list_all (\<lambda>a. pot N W a < W x \<and> (vanishes N a \<longrightarrow> N x)) (rule_prods rules x))
      [0..<length rules]"

lemma no_left_recursionD:
  "no_left_recursion N W rules \<Longrightarrow> x < length rules \<Longrightarrow> a \<in> set (rule_prods rules x) \<Longrightarrow>
   pot N W a < W x \<and> (vanishes N a \<longrightarrow> N x)"
  by (auto simp: no_left_recursion_def list_all_iff)

lemma stack_top_cases:
  assumes "stack_wf rules stack" "stack \<noteq> []"
  obtains (ref) "gtype rules (last stack) = LLAMA_GRETYPE_RULE_REF"
      "unat (gvalue rules (last stack)) < length rules" "pos_wf rules (advance_ptr (last stack) 1)"
  | (char) "is_char_start (gtype rules (last stack))"
proof -
  from stack_wf_last [OF assms] have wf: "pos_wf rules (last stack)"
    and ne: "\<not> llama_grammar_is_end_of_sequence rules (last stack)" by auto
  from pos_wf_types [OF wf] ne
  consider "gtype rules (last stack) = LLAMA_GRETYPE_RULE_REF" | "is_char_start (gtype rules (last stack))"
    by (auto simp: llama_grammar_is_end_of_sequence_def is_end_type_def)
  then show thesis using ref char pos_wf_ref [OF wf] by cases auto
qed

lemma expand_pot:
  assumes nlr: "no_left_recursion N W rules" and "stack \<noteq> []"
    and ref: "gtype rules (last stack) = LLAMA_GRETYPE_RULE_REF"
      "unat (gvalue rules (last stack)) < length rules"
    and p: "p \<in> set (alternates rules (unat (gvalue rules (last stack)), 0))"
  shows "pot N W (stack_syms rules (push_rest rules p
      (push_rest rules (advance_ptr (last stack) 1) (butlast stack)))) < pot N W (stack_syms rules stack)"
proof -
  let ?x = "unat (gvalue rules (last stack))"
  have "seq_at rules p \<in> set (rule_prods rules ?x)"
    using rule_prods_alternates [OF ref(2)] p by blast
  from no_left_recursionD [OF nlr ref(2) this] show ?thesis
    by (auto simp: stack_syms_ref [OF \<open>stack \<noteq> []\<close> ref(1)] pot_append)
qed

lemma advance_stack_total:
  assumes "rules_wf rules" "no_left_recursion N W rules"
  shows "stack_wf rules stack \<Longrightarrow> pot N W (stack_syms rules stack) < depth \<Longrightarrow> list_all (stack_wf rules) ss \<Longrightarrow>
    \<exists>ss'. llama_grammar_advance_stack depth rules stack ss = Inr ss' \<and> list_all (stack_wf rules) ss'"
proof (induction depth arbitrary: stack ss)
  case (Suc depth)
  show ?case
  proof (cases "stack = []")
    case True
    with Suc.prems show ?thesis by (simp add: push_unique_def)
  next
    case False
    from Suc.prems(1) False show ?thesis
    proof (cases rule: stack_top_cases)
      case ref
      let ?x = "unat (gvalue rules (last stack))"
      let ?next = "\<lambda>p. push_rest rules p (push_rest rules (advance_ptr (last stack) 1) (butlast stack))"
      have "\<exists>ss'. foldE (\<lambda>p. llama_grammar_advance_stack depth rules (?next p)) (alternates rules (?x, 0)) ss
          = Inr ss' \<and> list_all (stack_wf rules) ss'"
      proof (rule foldE_total [where P = "list_all (stack_wf rules)"])
        fix p s assume p: "p \<in> set (alternates rules (?x, 0))" and s: "list_all (stack_wf rules) s"
        have "stack_wf rules (?next p)"
          using Suc.prems(1) ref p assms(1)
          by (blast intro: stack_wf_butlast alternates_wf rule_start_wf)
        moreover have "pot N W (stack_syms rules (?next p)) < depth"
          using expand_pot [OF assms(2) False ref(1,2) p] Suc.prems(2) by simp
        ultimately show "\<exists>t. llama_grammar_advance_stack depth rules (?next p) s = Inr t
            \<and> list_all (stack_wf rules) t" using s by (rule Suc.IH)
      qed (rule Suc.prems)
      with False ref show ?thesis by (simp add: Let_def)
    next
      case char
      with False Suc.prems show ?thesis
        by (auto simp: is_char_start_def push_unique_def Let_def split: gretype.splits)
    qed
  qed
qed simp

text \<open>More depth never changes a result.\<close>

lemma advance_stack_mono:
  "llama_grammar_advance_stack d rules stack ss = Inr ss' \<Longrightarrow> d \<le> d' \<Longrightarrow>
   llama_grammar_advance_stack d' rules stack ss = Inr ss'"
proof (induction d arbitrary: d' stack ss ss')
  case (Suc d)
  then obtain e where d': "d' = Suc e" "d \<le> e" by (cases d') auto
  show ?case
  proof (cases "stack \<noteq> [] \<and> gtype rules (last stack) = LLAMA_GRETYPE_RULE_REF")
    case True
    then show ?thesis
      using Suc.prems Suc.IH [OF _ d'(2)] unfolding d'(1)
      by (auto simp: Let_def split: if_splits elim!: foldE_mono)
  next
    case False
    then show ?thesis using Suc.prems unfolding d'(1)
      by (cases "stack = []") (auto simp: Let_def split: gretype.splits)
  qed
qed simp

lemma accept_mono:
  "llama_grammar_accept d rules ss chr = Inr ss' \<Longrightarrow> d \<le> d' \<Longrightarrow>
   llama_grammar_accept d' rules ss chr = Inr ss'"
  unfolding llama_grammar_accept_def
  by (erule foldE_mono) (auto simp: bindE_Inr_iff split: if_splits intro: advance_stack_mono)

lemma accept_code_points_mono:
  "accept_code_points d rules cps ss = Inr ss' \<Longrightarrow> d \<le> d' \<Longrightarrow>
   accept_code_points d' rules cps ss = Inr ss'"
  unfolding accept_code_points_def by (erule foldE_mono) (auto intro: accept_mono)

lemma initial_stacks_mono:
  "initial_stacks d rules start = Inr ss \<Longrightarrow> d \<le> d' \<Longrightarrow> initial_stacks d' rules start = Inr ss"
  unfolding initial_stacks_def by (erule foldE_mono) (auto intro: advance_stack_mono)

text \<open>A loop of calls: a depth that is enough for each of them is enough for all.\<close>

lemma foldE_enough:
  fixes f :: "nat \<Rightarrow> 'a \<Rightarrow> 's \<Rightarrow> 's res"
  assumes mono: "\<And>d d' x s t. f d x s = Inr t \<Longrightarrow> d \<le> d' \<Longrightarrow> f d' x s = Inr t"
    and total: "\<And>x s. x \<in> set xs \<Longrightarrow> P s \<Longrightarrow> \<exists>d t. f d x s = Inr t \<and> P t"
  shows "P s \<Longrightarrow> \<exists>d t. foldE (f d) xs s = Inr t \<and> P t"
  using total
proof (induction xs arbitrary: s)
  case (Cons x xs)
  then obtain d1 s1 where 1: "f d1 x s = Inr s1" "P s1" by (metis list.set_intros(1))
  with Cons obtain d2 t where 2: "foldE (f d2) xs s1 = Inr t" "P t"
    by (metis list.set_intros(2))
  have "f (max d1 d2) x s = Inr s1" by (rule mono [OF 1(1)]) simp
  moreover have "foldE (f (max d1 d2)) xs s1 = Inr t"
    using 2(1) by (rule foldE_mono) (auto intro: mono)
  ultimately show ?case using 2(2) by (intro exI [of _ "max d1 d2"] exI [of _ t]) simp
qed simp

definition ready_wf :: "grammar_rules \<Rightarrow> grammar_stacks \<Rightarrow> bool" where
  "ready_wf rules ss \<longleftrightarrow> list_all (stack_wf rules) ss \<and> list_all (stack_ready rules) ss"

lemma advance_stack_enough:
  assumes "rules_wf rules" "no_left_recursion N W rules" "stack_wf rules stack" "ready_wf rules ss"
  shows "\<exists>d ss'. llama_grammar_advance_stack d rules stack ss = Inr ss' \<and> ready_wf rules ss'"
  using advance_stack_total [OF assms(1-3) lessI] assms(4) advance_stack_ready
  unfolding ready_wf_def by blast

lemma accept_enough:
  assumes "rules_wf rules" "no_left_recursion N W rules" "ready_wf rules ss"
  shows "\<exists>d ss'. llama_grammar_accept d rules ss chr = Inr ss' \<and> ready_wf rules ss'"
  unfolding llama_grammar_accept_def
proof (rule foldE_enough [where f = "\<lambda>d stack s. if stack = [] then Inr s
          else bindE (llama_grammar_match_char rules (last stack) chr) (\<lambda>(ok, pos).
            if ok then llama_grammar_advance_stack d rules (push_rest rules pos (butlast stack)) s
            else Inr s)"], goal_cases)
  case (1 d d' stack s t)
  then show ?case by (auto simp: bindE_Inr_iff split: if_splits intro: advance_stack_mono)
next
  case (2 stack s)
  show ?case
  proof (cases "stack = []")
    case False
    have wf: "stack_wf rules stack" and "stack_ready rules stack"
      using assms(3) 2 by (auto simp: ready_wf_def list_all_iff)
    with ready_match_char [OF _ False] obtain ok p
      where m: "llama_grammar_match_char rules (last stack) chr = Inr (ok, p)" by blast
    with wf False have "stack_wf rules (push_rest rules p (butlast stack))"
      using pos_wf_match_char stack_wf_last by (blast intro: stack_wf_butlast)
    from advance_stack_enough [OF assms(1,2) this 2(2)] m False 2(2) show ?thesis by auto
  qed (use 2 in simp)
qed (simp add: ready_wf_def)

lemma accept_code_points_enough:
  assumes "rules_wf rules" "no_left_recursion N W rules" "ready_wf rules ss"
  shows "\<exists>d ss'. accept_code_points d rules cps ss = Inr ss' \<and> ready_wf rules ss'"
  unfolding accept_code_points_def
  by (rule foldE_enough [where f = "\<lambda>d c s. llama_grammar_accept d rules s c"])
     (use assms accept_enough in \<open>auto intro: accept_mono\<close>)

lemma initial_stacks_enough:
  assumes "rules_wf rules" "no_left_recursion N W rules" "start < length rules"
  shows "\<exists>d ss. initial_stacks d rules start = Inr ss \<and> ready_wf rules ss"
  unfolding initial_stacks_def
proof (rule foldE_enough [where f = "\<lambda>d pos. llama_grammar_advance_stack d rules (push_rest rules pos [])"],
    goal_cases)
  case (2 p s)
  then have "pos_wf rules p" using assms by (blast intro: alternates_wf rule_start_wf)
  then have "stack_wf rules (push_rest rules p [])" by (intro push_rest_wf) simp
  from advance_stack_enough [OF assms(1,2) this 2(2)] show ?case .
qed (auto simp: ready_wf_def intro: advance_stack_mono)

section \<open>Total correctness\<close>

text \<open>
  C1: on a well-formed grammar without left recursion the engine returns for every input, given
  enough call depth, and the empty stack (which allows the end-of-generation token) is among the
  stacks after an input exactly if the grammar derives the input from the start rule.
\<close>

theorem grammar_accepts_language:
  assumes "rules_wf rules" and "no_left_recursion N W rules" and "start < length rules"
  shows "\<exists>d. \<forall>depth\<ge>d. \<exists>ss0 ss.
    initial_stacks depth rules start = Inr ss0 \<and>
    accept_code_points depth rules cps ss0 = Inr ss \<and>
    ([] \<in> set ss \<longleftrightarrow> lang (rule_prods rules) [NonTerm start] cps)"
proof -
  from initial_stacks_enough [OF assms] obtain d0 ss0 where
    0: "initial_stacks d0 rules start = Inr ss0" "ready_wf rules ss0" by blast
  from accept_code_points_enough [OF assms(1,2) 0(2)] obtain d1 ss where
    1: "accept_code_points d1 rules cps ss0 = Inr ss" "ready_wf rules ss" by blast
  have "[] \<in> set ss \<longleftrightarrow> lang (rule_prods rules) [NonTerm start] cps"
    using ready_empty_iff [of rules ss] 1(2) accept_code_points_lang [OF 1(1), of "[]"]
      initial_stacks_lang [OF 0(1) assms(3)] by (simp add: ready_wf_def)
  with initial_stacks_mono [OF 0(1)] accept_code_points_mono [OF 1(1)] show ?thesis
    by (intro exI [of _ "max d0 d1"]) auto
qed

text \<open>A grammar for balanced parentheses: \<open>root ::= "(" root ")" root |\<close>\<close>

definition paren_rules :: grammar_rules where
  "paren_rules = [[mk_elem LLAMA_GRETYPE_CHAR 40, mk_elem LLAMA_GRETYPE_RULE_REF 0,
     mk_elem LLAMA_GRETYPE_CHAR 41, mk_elem LLAMA_GRETYPE_RULE_REF 0,
     mk_elem LLAMA_GRETYPE_ALT 0, mk_elem LLAMA_GRETYPE_END 0]]"

lemma paren_rules_ok: "rules_wf paren_rules \<and> no_left_recursion (\<lambda>_. True) (\<lambda>_. 1) paren_rules"
  by (simp add: paren_rules_def rules_wf_def no_left_recursion_def rule_prods_def alt_syms.simps
      char_classes.simps first_class_def starts_alt_def is_char_start_def is_end_type_def)

lemma grammar_accepts_language_witness:
  "\<exists>d. \<forall>depth\<ge>d. \<exists>ss0 ss.
    initial_stacks depth paren_rules 0 = Inr ss0 \<and>
    accept_code_points depth paren_rules [40, 40, 41, 41] ss0 = Inr ss \<and>
    ([] \<in> set ss \<longleftrightarrow> lang (rule_prods paren_rules) [NonTerm 0] [40, 40, 41, 41])"
  by (rule grammar_accepts_language [where N = "\<lambda>_. True" and W = "\<lambda>_. 1"])
     (use paren_rules_ok in \<open>simp_all add: paren_rules_def\<close>)

section \<open>Left recursion the check does not see\<close>

text \<open>
  \<open>root ::= a root "x"\<close>, \<open>a ::= b\<close>, \<open>b ::= | "c"\<close>. The first pass of
  \<open>llama_grammar_detect_left_recursion\<close> marks \<open>b\<close> as possibly empty, but not \<open>a\<close>, which is empty only
  through \<open>b\<close>; so the reference to \<open>root\<close> behind \<open>a\<close> is not followed.
\<close>

definition hidden_rules :: grammar_rules where
  "hidden_rules =
    [[mk_elem LLAMA_GRETYPE_RULE_REF 1, mk_elem LLAMA_GRETYPE_RULE_REF 0,
      mk_elem LLAMA_GRETYPE_CHAR 120, mk_elem LLAMA_GRETYPE_END 0],
     [mk_elem LLAMA_GRETYPE_RULE_REF 2, mk_elem LLAMA_GRETYPE_END 0],
     [mk_elem LLAMA_GRETYPE_ALT 0, mk_elem LLAMA_GRETYPE_CHAR 99, mk_elem LLAMA_GRETYPE_END 0]]"

lemma hidden_elems:
  "gelem hidden_rules (0, 0) = mk_elem LLAMA_GRETYPE_RULE_REF 1"
  "gelem hidden_rules (0, Suc 0) = mk_elem LLAMA_GRETYPE_RULE_REF 0"
  "gelem hidden_rules (0, Suc (Suc 0)) = mk_elem LLAMA_GRETYPE_CHAR 120"
  "gelem hidden_rules (Suc 0, 0) = mk_elem LLAMA_GRETYPE_RULE_REF 2"
  "gelem hidden_rules (Suc 0, Suc 0) = mk_elem LLAMA_GRETYPE_END 0"
  "gelem hidden_rules (2, 0) = mk_elem LLAMA_GRETYPE_ALT 0"
  "gelem hidden_rules (2, Suc 0) = mk_elem LLAMA_GRETYPE_CHAR 99"
  "length hidden_rules = 3"
  by (simp_all add: hidden_rules_def gelem_def)

lemma hidden_alternates:
  "alternates hidden_rules (0, 0) = [(0, 0)]"
  "alternates hidden_rules (Suc 0, 0) = [(Suc 0, 0)]"
  "alternates hidden_rules (2, 0) = [(2, 0), (2, Suc 0)]"
  by code_simp+

lemmas hidden_step = hidden_elems hidden_alternates push_rest_def llama_grammar_is_end_of_sequence_def
  is_end_type_def advance_ptr_def

lemma hidden_steps:
  "llama_grammar_advance_stack (Suc d) hidden_rules (stack @ [(0, 0)]) ss
    = bindE (llama_grammar_advance_stack d hidden_rules ((stack @ [(0, Suc 0)]) @ [(Suc 0, 0)]) ss) Inr"
  "llama_grammar_advance_stack (Suc d) hidden_rules (stack @ [(Suc 0, 0)]) ss
    = bindE (llama_grammar_advance_stack d hidden_rules stack ss)
       (\<lambda>ss. bindE (llama_grammar_advance_stack d hidden_rules (stack @ [(2, Suc 0)]) ss) Inr)"
  "llama_grammar_advance_stack (Suc d) hidden_rules (stack @ [(0, Suc 0)]) ss
    = bindE (llama_grammar_advance_stack d hidden_rules ((stack @ [(0, Suc (Suc 0))]) @ [(0, 0)]) ss) Inr"
  by (simp_all add: hidden_step Let_def foldE_unapplied del: append_assoc)

lemma hidden_overflow:
  "llama_grammar_advance_stack depth hidden_rules (stack @ [(0, 0)]) ss = Inl StackOverflow"
proof (induction depth arbitrary: stack ss rule: less_induct)
  case (less depth)
  consider "depth = 0" | "depth = Suc 0" | "depth = Suc (Suc 0)" | d where "depth = Suc (Suc (Suc d))"
    by (metis not0_implies_Suc)
  then show ?case
    using less by cases (simp_all add: hidden_steps del: append_assoc llama_grammar_advance_stack.simps(2))
qed

lemma hidden_not_detected: "check_left_recursion (Suc (Suc (Suc (Suc depth)))) hidden_rules = Inr False"
  by (simp add: check_left_recursion_def hidden_rules_def is_end_type_def upt_rec Let_def)

text \<open>
  C7: the left-recursion check accepts this grammar, yet \<open>llama_grammar_init_impl\<close> runs out of any
  call depth while it builds the initial stacks.
\<close>

theorem undetected_left_recursion:
  "check_left_recursion (depth + 4) hidden_rules = Inr False \<and>
   llama_grammar_init_impl (depth + 4) hidden_rules 0 = Inl StackOverflow"
proof -
  have "map copy_rule hidden_rules = hidden_rules"
    by (simp add: hidden_rules_def copy_rule_def)
  moreover have "initial_stacks d hidden_rules 0 = Inl StackOverflow" for d
    using hidden_overflow [of d "[]"] by (simp add: initial_stacks_def hidden_step)
  ultimately show ?thesis
    using hidden_not_detected [of depth]
    by (simp add: llama_grammar_init_impl_def Let_def hidden_elems eval_nat_numeral)
qed

end
