(* ===== verification/GrammarCandidates.thy ===== *)
theory GrammarCandidates
  imports GrammarDepth
begin

text \<open>
  The sampling side of the engine: \<open>llama_grammar_reject_candidates\<close> rejects exactly the candidates
  whose code points the accepting side (\<open>llama_grammar_accept\<close>) could not consume.
\<close>

section \<open>Expansion as a relation\<close>

inductive expands :: "grammar_rules \<Rightarrow> grammar_stack \<Rightarrow> grammar_stack \<Rightarrow> bool" for rules where
  expands_ready: "stack_ready rules stack \<Longrightarrow> expands rules stack stack"
| expands_ref: "stack \<noteq> [] \<Longrightarrow> gtype rules (last stack) = LLAMA_GRETYPE_RULE_REF \<Longrightarrow>
    p \<in> set (alternates rules (unat (gvalue rules (last stack)), 0)) \<Longrightarrow>
    expands rules (push_rest rules p
      (push_rest rules (advance_ptr (last stack) 1) (butlast stack))) s' \<Longrightarrow>
    expands rules stack s'"

lemma expands_ready_iff:
  "stack_ready rules stack \<Longrightarrow> expands rules stack s' \<longleftrightarrow> s' = stack"
  by (auto elim: expands.cases intro: expands_ready simp: stack_ready_def is_char_start_def)

lemma expands_ref_iff:
  assumes "stack \<noteq> []" "gtype rules (last stack) = LLAMA_GRETYPE_RULE_REF"
  shows "expands rules stack s' \<longleftrightarrow>
    (\<exists>p\<in>set (alternates rules (unat (gvalue rules (last stack)), 0)).
       expands rules (push_rest rules p (push_rest rules (advance_ptr (last stack) 1) (butlast stack))) s')"
  using assms
  by (subst expands.simps) (auto simp: stack_ready_def is_char_start_def)

lemma expands_result_ready: "expands rules stack s' \<Longrightarrow> stack_ready rules s'"
  by (induction rule: expands.induct) auto

lemma advance_stack_set:
  assumes "llama_grammar_advance_stack depth rules stack ss = Inr ss'"
  shows "s' \<in> set ss' \<longleftrightarrow> s' \<in> set ss \<or> expands rules stack s'"
  using assms
proof (induction depth arbitrary: stack ss ss')
  case (Suc depth)
  show ?case
  proof (cases "stack \<noteq> [] \<and> gtype rules (last stack) = LLAMA_GRETYPE_RULE_REF")
    case True
    let ?next = "\<lambda>p. push_rest rules p (push_rest rules (advance_ptr (last stack) 1) (butlast stack))"
    from Suc.prems True have "foldE (\<lambda>p. llama_grammar_advance_stack depth rules (?next p))
        (alternates rules (unat (gvalue rules (last stack)), 0)) ss = Inr ss'"
      by (auto simp: Let_def split: if_splits)
    from foldE_disj [OF this, where P = "\<lambda>ss. s' \<in> set ss" and Q = "\<lambda>p. expands rules (?next p) s'"]
    show ?thesis using Suc.IH True by (simp add: expands_ref_iff)
  next
    case False
    have "ss' = push_unique stack ss \<and> stack_ready rules stack"
      using False Suc.prems
      by (cases "stack = []") (auto simp: Let_def stack_ready_def is_char_start_def split: gretype.splits)
    then show ?thesis by (auto simp: push_unique_def expands_ready_iff)
  qed
qed simp

text \<open>One character from one stack.\<close>

definition char_step :: "grammar_rules \<Rightarrow> grammar_stack \<Rightarrow> u32 \<Rightarrow> grammar_stack \<Rightarrow> bool" where
  "char_step rules stack c s' \<longleftrightarrow> stack \<noteq> [] \<and>
    (\<exists>p. llama_grammar_match_char rules (last stack) c = Inr (True, p)
       \<and> expands rules (push_rest rules p (butlast stack)) s')"

lemma accept_set:
  assumes "llama_grammar_accept depth rules ss c = Inr ss'"
  shows "s' \<in> set ss' \<longleftrightarrow> (\<exists>stack\<in>set ss. char_step rules stack c s')"
proof -
  have "s' \<in> set ss' \<longleftrightarrow> s' \<in> set [] \<or> (\<exists>stack\<in>set ss. char_step rules stack c s')"
    using assms unfolding llama_grammar_accept_def
  proof (rule foldE_disj, goal_cases)
    case (1 stack s t)
    show ?case
    proof (cases "stack = []")
      case False
      with 1 obtain ok p where m: "llama_grammar_match_char rules (last stack) c = Inr (ok, p)"
        by (auto simp: bindE_Inr_iff)
      with 1 False show ?thesis
        by (cases ok) (simp_all add: char_step_def advance_stack_set)
    qed (use 1 in \<open>simp add: char_step_def\<close>)
  qed
  then show ?thesis by simp
qed

section \<open>What a candidate needs\<close>

fun viable :: "grammar_rules \<Rightarrow> u32 list \<Rightarrow> partial_utf8 \<Rightarrow> grammar_stack \<Rightarrow> bool" where
  "viable rules [] partial stack \<longleftrightarrow> n_remain partial = 0 \<or>
     (stack \<noteq> [] \<and> llama_grammar_match_partial_char rules (last stack) partial = Inr True)"
| "viable rules (c # cs) partial stack \<longleftrightarrow> (\<exists>s'. char_step rules stack c s' \<and> viable rules cs partial s')"

lemma accept_code_points_viable:
  assumes "accept_code_points depth rules cps ss = Inr ss'" "n_remain partial = 0"
  shows "ss' \<noteq> [] \<longleftrightarrow> (\<exists>stack\<in>set ss. viable rules cps partial stack)"
  using assms
proof (induction cps arbitrary: ss)
  case Nil
  then show ?case by (cases ss') (auto simp: accept_code_points_def)
next
  case (Cons c cps)
  then obtain s where s: "llama_grammar_accept depth rules ss c = Inr s"
    and "accept_code_points depth rules cps s = Inr ss'"
    by (auto simp: accept_code_points_def bindE_Inr_iff)
  with Cons have "ss' \<noteq> [] \<longleftrightarrow> (\<exists>stack\<in>set s. viable rules cps partial stack)" by blast
  then show ?case using accept_set [OF s] by (simp, blast)
qed

text \<open>The code points a candidate still points to, before the terminating zero.\<close>

definition remaining :: "grammar_candidate \<Rightarrow> u32 list" where
  "remaining tok = takeWhile (\<lambda>c. c \<noteq> 0) (drop (coffset tok) (code_points tok))"

lemma remaining_Nil: "cur_cpt tok = 0 \<Longrightarrow> remaining tok = []"
  by (cases "coffset tok < length (code_points tok)")
     (auto simp: remaining_def cur_cpt_def drop_Cons_nth)

lemma remaining_Cons: "cur_cpt tok \<noteq> 0 \<Longrightarrow> remaining tok = cur_cpt tok # remaining (next_cpt tok)"
  by (cases "coffset tok < length (code_points tok)")
     (auto simp: remaining_def cur_cpt_def next_cpt_def drop_Cons_nth)

lemma prev_next_cpt [simp]: "prev_cpt (next_cpt tok) = tok"
  by (simp add: prev_cpt_def next_cpt_def)

lemma cpartial_next [simp]: "cpartial (next_cpt tok) = cpartial tok"
  by (simp add: next_cpt_def)

definition tok_viable :: "grammar_rules \<Rightarrow> grammar_candidate \<Rightarrow> grammar_stack \<Rightarrow> bool" where
  "tok_viable rules tok stack \<longleftrightarrow> viable rules (remaining tok) (cpartial tok) stack"

definition first_matches :: "grammar_rules \<Rightarrow> gpos \<Rightarrow> grammar_candidate \<Rightarrow> bool" where
  "first_matches rules pos tok \<longleftrightarrow> cur_cpt tok \<noteq> 0 \<and>
     (\<exists>p. llama_grammar_match_char rules pos (cur_cpt tok) = Inr (True, p))"

definition first_rejected :: "grammar_rules \<Rightarrow> gpos \<Rightarrow> grammar_candidate \<Rightarrow> bool" where
  "first_rejected rules pos tok \<longleftrightarrow>
    (if cur_cpt tok = 0 then n_remain (cpartial tok) \<noteq> 0
       \<and> llama_grammar_match_partial_char rules pos (cpartial tok) \<noteq> Inr True
     else \<not> first_matches rules pos tok)"

lemma classify_candidates:
  assumes "foldE (classify_candidate rules pos) cands (r0, n0) = Inr (r, n)"
  shows "r = r0 @ filter (first_rejected rules pos) cands
    \<and> n = n0 @ map next_cpt (filter (first_matches rules pos) cands)"
  using assms
proof (induction cands arbitrary: r0 n0)
  case (Cons tok cands)
  then obtain r1 n1 where step: "classify_candidate rules pos tok (r0, n0) = Inr (r1, n1)"
    and rest: "foldE (classify_candidate rules pos) cands (r1, n1) = Inr (r, n)"
    by (auto simp: bindE_Inr_iff)
  have "r1 = r0 @ (if first_rejected rules pos tok then [tok] else [])
      \<and> n1 = n0 @ (if first_matches rules pos tok then [next_cpt tok] else [])"
    using step by (auto simp: classify_candidate_def first_rejected_def first_matches_def
        bindE_Inr_iff split: if_splits)
  with Cons.IH [OF rest] show ?case by auto
qed simp

text \<open>The position behind a terminal does not depend on the character matched.\<close>

lemma match_char_loop_pos:
  "snd (match_char_loop rules c p f) = snd (match_char_loop rules c' p f')"
proof (induction rules c p f arbitrary: f' rule: match_char_loop.induct)
  case (1 rules c p f)
  obtain f1 p1 where s: "match_char_step rules c p f = (f1, p1)"
    by (cases "match_char_step rules c p f")
  obtain f2 p2 where s': "match_char_step rules c' p f' = (f2, p2)"
    by (cases "match_char_step rules c' p f'")
  have "p1 = p2" using s s' by (auto simp: match_char_step_def split: if_splits)
  with s s' "1.IH" [OF s [symmetric], of f2] show ?case
    by (simp add: match_char_loop.simps [of rules c p f] match_char_loop.simps [of rules c' p f'])
qed

lemma match_char_same_pos:
  assumes "llama_grammar_match_char rules p c = Inr (ok, q)"
  shows "\<exists>ok'. llama_grammar_match_char rules p c' = Inr (ok', q)"
  using assms match_char_loop_pos [of rules c p False c' False]
  by (auto simp: llama_grammar_match_char_def split: if_splits prod.splits)

lemma tok_viable_Cons:
  assumes "stack \<noteq> []" "llama_grammar_match_char rules (last stack) 0 = Inr (ok, q)" "cur_cpt tok \<noteq> 0"
  shows "tok_viable rules tok stack \<longleftrightarrow> first_matches rules (last stack) tok \<and>
    (\<exists>s'. expands rules (push_rest rules q (butlast stack)) s' \<and> tok_viable rules (next_cpt tok) s')"
proof -
  from match_char_same_pos [OF assms(2), of "cur_cpt tok"] obtain ok' where
    "llama_grammar_match_char rules (last stack) (cur_cpt tok) = Inr (ok', q)" by blast
  with assms show ?thesis
    by (auto simp: tok_viable_def remaining_Cons first_matches_def char_step_def)
qed

lemma tok_viable_Nil:
  assumes "cur_cpt tok = 0"
  shows "tok_viable rules tok stack \<longleftrightarrow> n_remain (cpartial tok) = 0 \<or>
     (stack \<noteq> [] \<and> llama_grammar_match_partial_char rules (last stack) (cpartial tok) = Inr True)"
  using assms by (simp add: tok_viable_def remaining_Nil)

text \<open>Both functions of the mutual recursion, by induction on the depth.\<close>

lemma reject_candidates_spec:
  "(llama_grammar_reject_candidates depth rules stacks cands = Inr rejects \<longrightarrow>
     set rejects = {tok \<in> set cands. \<forall>stack\<in>set stacks. \<not> tok_viable rules tok stack})
   \<and> (llama_grammar_reject_candidates_for_stack depth rules stack cands = Inr rejects \<longrightarrow>
     set rejects = {tok \<in> set cands. \<not> tok_viable rules tok stack})"
proof (induction depth arbitrary: stacks stack cands rejects)
  case (Suc depth)
  show ?case
  proof (intro conjI impI)
    assume rc: "llama_grammar_reject_candidates (Suc depth) rules stacks cands = Inr rejects"
    show "set rejects = {tok \<in> set cands. \<forall>stack\<in>set stacks. \<not> tok_viable rules tok stack}"
    proof (cases "cands = []")
      case False
      then obtain s ss r0 where ss: "stacks = s # ss"
        and r0: "llama_grammar_reject_candidates_for_stack depth rules s cands = Inr r0"
        and fold: "foldE (llama_grammar_reject_candidates_for_stack depth rules) ss r0 = Inr rejects"
        using rc by (cases stacks) (auto simp: bindE_Inr_iff)
      have "set t = {tok \<in> set u. \<not> tok_viable rules tok stack}"
        if "llama_grammar_reject_candidates_for_stack depth rules stack u = Inr t" for stack t u
        using Suc.IH that by blast
      then have "tok \<notin> set rejects \<longleftrightarrow> tok \<notin> set r0 \<or> (\<exists>stack\<in>set ss. tok_viable rules tok stack)" for tok
        using fold by (rule_tac foldE_disj [where P = "\<lambda>r. tok \<notin> set r"]) auto
      moreover have "set r0 = {tok \<in> set cands. \<not> tok_viable rules tok s}"
        using Suc.IH r0 by blast
      ultimately show ?thesis unfolding ss by auto
    qed (use rc in \<open>auto split: if_splits\<close>)
  next
    assume rs: "llama_grammar_reject_candidates_for_stack (Suc depth) rules stack cands = Inr rejects"
    show "set rejects = {tok \<in> set cands. \<not> tok_viable rules tok stack}"
    proof (cases "stack = []")
      case True
      have "tok_viable rules tok [] \<longleftrightarrow> cur_cpt tok = 0 \<and> n_remain (cpartial tok) = 0" for tok
        by (cases "cur_cpt tok = 0") (simp_all add: tok_viable_def remaining_Nil remaining_Cons char_step_def)
      moreover have "rejects = filter (\<lambda>tok. cur_cpt tok \<noteq> 0 \<or> n_remain (cpartial tok) \<noteq> 0) cands"
        using rs True by simp
      ultimately show ?thesis unfolding True by auto
    next
      case False
      from rs False obtain r n ok q next_stacks next_rejects where
        cl: "foldE (classify_candidate rules (last stack)) cands ([], []) = Inr (r, n)"
        and m: "llama_grammar_match_char rules (last stack) 0 = Inr (ok, q)"
        and adv: "llama_grammar_advance_stack depth rules (push_rest rules q (butlast stack)) [] = Inr next_stacks"
        and nr: "llama_grammar_reject_candidates depth rules next_stacks n = Inr next_rejects"
        and rej: "rejects = r @ map prev_cpt next_rejects"
        by (auto simp: bindE_Inr_iff Let_def)
      have next_set: "set next_rejects
          = {tok \<in> set n. \<forall>s'. expands rules (push_rest rules q (butlast stack)) s' \<longrightarrow> \<not> tok_viable rules tok s'}"
        using Suc.IH nr advance_stack_set [OF adv] by fastforce
      from classify_candidates [OF cl]
      have rn: "set r = {tok \<in> set cands. first_rejected rules (last stack) tok}"
        "set n = next_cpt ` {tok \<in> set cands. first_matches rules (last stack) tok}" by auto
      have "prev_cpt ` set next_rejects = {tok \<in> set cands. first_matches rules (last stack) tok \<and>
          (\<forall>s'. expands rules (push_rest rules q (butlast stack)) s' \<longrightarrow> \<not> tok_viable rules (next_cpt tok) s')}"
        unfolding next_set rn by force
      moreover have "\<not> tok_viable rules tok stack \<longleftrightarrow> first_rejected rules (last stack) tok \<or>
          (first_matches rules (last stack) tok \<and>
          (\<forall>s'. expands rules (push_rest rules q (butlast stack)) s' \<longrightarrow> \<not> tok_viable rules (next_cpt tok) s'))" for tok
        by (cases "cur_cpt tok = 0")
           (auto simp: tok_viable_Nil tok_viable_Cons [OF False m] first_rejected_def first_matches_def False)
      ultimately show ?thesis unfolding rej set_append set_map rn(1) by auto
    qed
  qed
qed simp

text \<open>
  C3: a candidate whose piece ends on a complete code point is rejected exactly if accepting the
  same code points would leave the grammar without any stack.
\<close>

theorem reject_iff_not_accepted:
  assumes "llama_grammar_reject_candidates depth rules stacks cands = Inr rejects"
    and "tok \<in> set cands" and "n_remain (cpartial tok) = 0"
    and "accept_code_points depth' rules (remaining tok) stacks = Inr stacks'"
  shows "tok \<in> set rejects \<longleftrightarrow> stacks' = []"
proof -
  have "set rejects = {tok \<in> set cands. \<forall>stack\<in>set stacks. \<not> tok_viable rules tok stack}"
    using reject_candidates_spec assms(1) by blast
  with assms(2) accept_code_points_viable [OF assms(4,3)] show ?thesis
    by (auto simp: tok_viable_def)
qed

lemma reject_iff_not_accepted_witness:
  "\<lparr>cindex = 0, code_points = [40, 41, 0], coffset = 0, cpartial = \<lparr>pvalue = 0, n_remain = 0\<rparr>\<rparr> \<in> set []
    \<longleftrightarrow> [[(0, 0)], []] = ([] :: grammar_stacks)"
proof (rule reject_iff_not_accepted)
  let ?tok = "\<lparr>cindex = 0, code_points = [40, 41, 0], coffset = 0, cpartial = \<lparr>pvalue = 0, n_remain = 0\<rparr>\<rparr>"
  show "llama_grammar_reject_candidates 10 paren_rules [[(0, 0)], []] [?tok] = Inr []"
    by code_simp
  show "accept_code_points 10 paren_rules (remaining ?tok) [[(0, 0)], []] = Inr [[(0, 0)], []]"
    by code_simp
qed simp_all

end
