(* ===== verification/GrammarSampling.thy ===== *)
theory GrammarSampling
  imports GrammarCandidates
begin

text \<open>
  Sampling and accepting together: a token whose logit survives \<open>llama_grammar_sample_impl\<close> can be
  given to \<open>llama_grammar_accept_token_impl\<close>.
\<close>

section \<open>The only failure is the call depth\<close>

lemma advance_stack_wf:
  assumes "rules_wf rules"
  shows "stack_wf rules stack \<Longrightarrow> list_all (stack_wf rules) ss \<Longrightarrow>
    (\<forall>ss'. llama_grammar_advance_stack depth rules stack ss = Inr ss' \<longrightarrow> list_all (stack_wf rules) ss') \<and>
    (\<forall>e. llama_grammar_advance_stack depth rules stack ss = Inl e \<longrightarrow> e = StackOverflow)"
proof (induction depth arbitrary: stack ss)
  case (Suc depth)
  show ?case
  proof (cases "stack = []")
    case True
    with Suc.prems show ?thesis by (simp add: push_unique_def)
  next
    case False
    from Suc.prems(1) False show ?thesis
    proof (cases rule: stack_top_cases)
      case ref
      let ?ps = "alternates rules (unat (gvalue rules (last stack)), 0)"
      let ?next = "\<lambda>p. push_rest rules p (push_rest rules (advance_ptr (last stack) 1) (butlast stack))"
      let ?f = "\<lambda>p. llama_grammar_advance_stack depth rules (?next p)"
      have eq: "llama_grammar_advance_stack (Suc depth) rules stack ss = foldE ?f ?ps ss"
        using False ref by (simp add: Let_def)
      have wf: "stack_wf rules (?next p)" if "p \<in> set ?ps" for p
        using Suc.prems(1) ref that assms by (blast intro: stack_wf_butlast alternates_wf rule_start_wf)
      have "list_all (stack_wf rules) ss'" if "foldE ?f ?ps ss = Inr ss'" for ss'
        using that Suc.prems(2) by (rule foldE_invariant) (use Suc.IH wf in blast)
      moreover have "e = StackOverflow" if "foldE ?f ?ps ss = Inl e" for e
        using that Suc.prems(2)
        by (rule foldE_error [where P = "list_all (stack_wf rules)"]) (use Suc.IH wf in blast)+
      ultimately show ?thesis unfolding eq by blast
    next
      case char
      with False Suc.prems show ?thesis
        by (auto simp: is_char_start_def push_unique_def Let_def split: gretype.splits)
    qed
  qed
qed simp

lemma accept_wf:
  assumes "rules_wf rules" "ready_wf rules ss"
  shows "(\<forall>ss'. llama_grammar_accept depth rules ss c = Inr ss' \<longrightarrow> ready_wf rules ss') \<and>
    (\<forall>e. llama_grammar_accept depth rules ss c = Inl e \<longrightarrow> e = StackOverflow)"
proof -
  let ?f = "\<lambda>stack new_stacks. if stack = [] then Inr new_stacks
        else bindE (llama_grammar_match_char rules (last stack) c) (\<lambda>(ok, pos).
          if ok then llama_grammar_advance_stack depth rules (push_rest rules pos (butlast stack)) new_stacks
          else Inr new_stacks)"
  have step: "(\<forall>t. ?f stack s = Inr t \<longrightarrow> list_all (stack_wf rules) t) \<and> (\<forall>e. ?f stack s = Inl e \<longrightarrow> e = StackOverflow)"
    if st: "stack \<in> set ss" and s: "list_all (stack_wf rules) s" for stack s
  proof (cases "stack = []")
    case False
    have wf: "stack_wf rules stack" and rd: "stack_ready rules stack"
      using assms(2) st by (auto simp: ready_wf_def list_all_iff)
    from ready_match_char [OF rd False] obtain ok p
      where m: "llama_grammar_match_char rules (last stack) c = Inr (ok, p)" by blast
    have "stack_wf rules (push_rest rules p (butlast stack))"
      using wf False m pos_wf_match_char stack_wf_last by (blast intro: stack_wf_butlast)
    from advance_stack_wf [OF assms(1) this s] m False s show ?thesis by auto
  qed (use s in simp)
  have "list_all (stack_wf rules) ss'" if "llama_grammar_accept depth rules ss c = Inr ss'" for ss'
    using that unfolding llama_grammar_accept_def
    by (rule foldE_invariant) (use step in \<open>simp, blast\<close>)
  moreover have "e = StackOverflow" if "llama_grammar_accept depth rules ss c = Inl e" for e
    using that unfolding llama_grammar_accept_def
    by (rule foldE_error [where P = "list_all (stack_wf rules)"]) (use step in \<open>simp, blast, blast\<close>)
  ultimately show ?thesis using accept_ready by (auto simp: ready_wf_def)
qed

lemma accept_code_points_wf:
  assumes "rules_wf rules"
  shows "ready_wf rules ss \<Longrightarrow>
    (\<forall>ss'. accept_code_points depth rules cps ss = Inr ss' \<longrightarrow> ready_wf rules ss') \<and>
    (\<forall>e. accept_code_points depth rules cps ss = Inl e \<longrightarrow> e = StackOverflow)"
proof (induction cps arbitrary: ss)
  case (Cons c cps)
  show ?case
    using accept_wf [OF assms Cons.prems, of depth c] Cons.IH
    by (cases "llama_grammar_accept depth rules ss c") (auto simp: accept_code_points_def)
qed (simp add: accept_code_points_def)

lemma initial_stacks_wf:
  assumes "rules_wf rules" "start < length rules" "initial_stacks depth rules start = Inr ss"
  shows "ready_wf rules ss"
proof -
  have "list_all (stack_wf rules) ss"
    using assms(3) unfolding initial_stacks_def
  proof (rule foldE_invariant)
    fix p s t assume p: "p \<in> set (alternates rules (start, 0))" and s: "list_all (stack_wf rules) s"
      and adv: "llama_grammar_advance_stack depth rules (push_rest rules p []) s = Inr t"
    have "stack_wf rules (push_rest rules p [])"
      using p assms by (intro push_rest_wf) (auto intro: alternates_wf rule_start_wf)
    with advance_stack_wf [OF assms(1) this s] adv show "list_all (stack_wf rules) t" by blast
  qed simp
  with initial_stacks_ready [OF assms(3)] show ?thesis by (simp add: ready_wf_def)
qed

section \<open>The invariant of a grammar\<close>

definition grammar_inv :: "llama_grammar \<Rightarrow> bool" where
  "grammar_inv g \<longleftrightarrow> rules_wf (grules g) \<and> ready_wf (grules g) (gstacks g)"

lemma accept_token_cases:
  assumes "llama_grammar_accept_token_impl depth piece_of is_eog g token = Inr g'"
  obtains (eog) "is_eog token" "g' = g" "[] \<in> set (gstacks g)"
  | (code_points) piece ss where "\<not> is_eog token" "piece_of token = Inr piece"
      "accept_code_points depth (grules g) (butlast (fst (decode_utf8 piece (gpartial g)))) (gstacks g) = Inr ss"
      "ss \<noteq> []" "g' = g\<lparr>gstacks := ss, gpartial := snd (decode_utf8 piece (gpartial g))\<rparr>"
proof (cases "is_eog token")
  case True
  with assms eog show thesis by (auto simp: llama_grammar_accept_token_impl_def list_ex_iff split: if_splits)
next
  case False
  with assms obtain piece where p: "piece_of token = Inr piece"
    by (auto simp: llama_grammar_accept_token_impl_def bindE_Inr_iff)
  obtain cps partial where "decode_utf8 piece (gpartial g) = (cps, partial)"
    by (cases "decode_utf8 piece (gpartial g)")
  with assms False p code_points show thesis
    by (auto simp: llama_grammar_accept_token_impl_def bindE_Inr_iff split: if_splits)
qed

lemma init_impl_inv:
  assumes "rules_wf (map copy_rule rules)" "llama_grammar_init_impl depth rules start = Inr (Some g)"
  shows "grammar_inv g"
proof -
  from assms(2) obtain ss where "initial_stacks depth (map copy_rule rules) start = Inr ss"
    and "start < length (map copy_rule rules)"
    and g: "g = \<lparr>grules = map copy_rule rules, gstacks = ss, gpartial = \<lparr>pvalue = 0, n_remain = 0\<rparr>\<rparr>"
    by (auto simp: llama_grammar_init_impl_def Let_def bindE_Inr_iff split: if_splits)
  with initial_stacks_wf [OF assms(1)] show ?thesis by (simp add: grammar_inv_def assms(1))
qed

text \<open>
  C6: the grammar invariant (well-formed rules, every stack inside its rules and empty or with a
  terminal on top) holds after \<open>llama_grammar_init_impl\<close> and is kept by every accepted token, and
  accepting a token changes neither the rules nor, for an end-of-generation token, anything at all.
\<close>

theorem grammar_inv_preserved:
  "rules_wf (map copy_rule rules) \<Longrightarrow>
   (\<forall>g. llama_grammar_init_impl depth rules start = Inr (Some g) \<longrightarrow> grammar_inv g) \<and>
   (\<forall>g token g'. grammar_inv g \<longrightarrow>
      llama_grammar_accept_token_impl depth piece_of is_eog g token = Inr g' \<longrightarrow>
      grammar_inv g' \<and> grules g' = grules g \<and> (is_eog token \<longrightarrow> g' = g))"
proof (intro conjI allI impI, goal_cases)
  case (1 g)
  then show ?case by (rule init_impl_inv)
next
  case (2 g token g')
  from 2(3) show ?case
  proof (cases rule: accept_token_cases)
    case (code_points piece ss)
    with 2(2) accept_code_points_wf show ?thesis unfolding grammar_inv_def by fastforce
  qed (use 2 in simp)
next
  case (3 g token g')
  from 3(3) show ?case by (cases rule: accept_token_cases) simp_all
next
  case (4 g token g')
  from 4(3,4) show ?case by (cases rule: accept_token_cases) simp_all
qed

lemma grammar_inv_preserved_witness:
  "grammar_inv \<lparr>grules = paren_rules, gstacks = [[(0, 0)], []], gpartial = \<lparr>pvalue = 0, n_remain = 0\<rparr>\<rparr>"
proof -
  have "rules_wf (map copy_rule paren_rules)" by code_simp
  note * = grammar_inv_preserved [OF this, of 5 0, THEN conjunct1]
  show ?thesis by (rule * [rule_format]) code_simp
qed

section \<open>What survives sampling can be accepted\<close>

lemma viable_no_partial:
  "viable rules cps partial stack \<Longrightarrow> n_remain p = 0 \<Longrightarrow> viable rules cps p stack"
  by (induction rules cps partial stack rule: viable.induct) auto

lemma decode_main_last: "\<exists>xs. fst (decode_main bs v n cps) = xs @ [0]"
  by (induction bs v n cps rule: decode_main.induct) (auto simp: Let_def split: prod.splits)

lemma decode_utf8_last: "\<exists>xs. fst (decode_utf8 src p) = xs @ [0]"
  using decode_main_last by (auto simp: decode_utf8_def split: option.splits prod.splits)

lemma takeWhile_butlast:
  assumes "\<exists>xs. cps = xs @ [0]" "0 \<notin> set (butlast cps)"
  shows "takeWhile (\<lambda>c. c \<noteq> (0 :: u32)) cps = butlast cps"
proof -
  from assms(1) obtain xs where "cps = xs @ [0]" ..
  with assms(2) show ?thesis by (simp add: takeWhile_append)
qed

definition token_candidate :: "partial_utf8 \<Rightarrow> nat \<Rightarrow> byte list \<Rightarrow> grammar_candidate" where
  "token_candidate partial i piece =
    \<lparr>cindex = i, code_points = fst (decode_utf8 piece partial), coffset = 0,
     cpartial = snd (decode_utf8 piece partial)\<rparr>"

text \<open>
  What the scan knows about an entry it has passed: its logit is banned, or the token may end the
  text, or it is a candidate.
\<close>

definition scanned :: "'l \<Rightarrow> (int \<Rightarrow> byte list res) \<Rightarrow> (int \<Rightarrow> bool) \<Rightarrow> partial_utf8 \<Rightarrow> bool \<Rightarrow>
    'l token_data list \<Rightarrow> grammar_candidate list \<Rightarrow> nat \<Rightarrow> bool" where
  "scanned neg_inf piece_of is_eog partial allow_eog data cands i \<longleftrightarrow>
     td_logit (data ! i) = neg_inf \<or> (is_eog (td_id (data ! i)) \<and> allow_eog) \<or>
     (\<exists>piece. piece_of (td_id (data ! i)) = Inr piece \<and> \<not> is_eog (td_id (data ! i))
        \<and> token_candidate partial i piece \<in> set cands)"

lemma ban_nth: "i < length data \<Longrightarrow> ban neg_inf j data ! i =
    (if i = j then (data ! i)\<lparr>td_logit := neg_inf\<rparr> else data ! i)"
  by (simp add: ban_def nth_list_update)

lemma length_ban [simp]: "length (ban neg_inf j data) = length data"
  by (simp add: ban_def)

lemma sample_scan_step:
  assumes "sample_scan neg_inf piece_of is_eog partial allow_eog i (data, cg) = Inr (data', cg')"
    "i < length data"
  shows "length data' = length data \<and> (\<forall>j<length data. td_id (data' ! j) = td_id (data ! j)) \<and>
    (\<forall>j<length data. scanned neg_inf piece_of is_eog partial allow_eog data cg j \<longrightarrow>
       scanned neg_inf piece_of is_eog partial allow_eog data' cg' j) \<and>
    scanned neg_inf piece_of is_eog partial allow_eog data' cg' i"
proof -
  let ?id = "td_id (data ! i)"
  from assms(1) obtain piece where p: "piece_of ?id = Inr piece"
    by (auto simp: sample_scan_def bindE_Inr_iff)
  consider "is_eog ?id" "\<not> allow_eog" | "is_eog ?id" "allow_eog" | "\<not> is_eog ?id" "piece = [] \<or> piece ! 0 = 0"
    | "\<not> is_eog ?id" "\<not> (piece = [] \<or> piece ! 0 = 0)" by blast
  then consider (ban) "data' = ban neg_inf i data" "cg' = cg" | (keep) "is_eog ?id" "allow_eog" "data' = data" "cg' = cg"
    | (cand) "\<not> is_eog ?id" "data' = data" "cg' = cg @ [token_candidate partial i piece]"
    using assms(1) p
    by cases (auto simp: sample_scan_def token_candidate_def split: prod.splits)
  then show ?thesis
    using assms(2) p by cases (auto simp: ban_nth scanned_def)
qed

lemma sample_scan_all:
  assumes "foldE (sample_scan neg_inf piece_of is_eog partial allow_eog) [0..<n] (cands, []) = Inr (data, cg)"
    "n \<le> length cands"
  shows "length data = length cands \<and> (\<forall>j<length cands. td_id (data ! j) = td_id (cands ! j)) \<and>
    (\<forall>j<n. scanned neg_inf piece_of is_eog partial allow_eog data cg j)"
  using assms
proof (induction n arbitrary: data cg)
  case (Suc n)
  then obtain data1 cg1 where 1: "foldE (sample_scan neg_inf piece_of is_eog partial allow_eog) [0..<n] (cands, []) = Inr (data1, cg1)"
    and 2: "sample_scan neg_inf piece_of is_eog partial allow_eog n (data1, cg1) = Inr (data, cg)"
    by (auto simp: foldE_append bindE_Inr_iff)
  from Suc.IH [OF 1] Suc.prems(2) sample_scan_step [OF 2] show ?case
    by (auto simp: less_Suc_eq)
qed simp

lemma fold_ban:
  "i < length data \<Longrightarrow> td_logit (fold (\<lambda>r. ban neg_inf (cindex r)) rs data ! i) \<noteq> neg_inf \<Longrightarrow>
   td_logit (data ! i) \<noteq> neg_inf \<and> i \<notin> cindex ` set rs"
proof (induction rs arbitrary: data)
  case (Cons r rs)
  from Cons.IH [of "ban neg_inf (cindex r) data"] Cons.prems show ?case
    by (auto simp: ban_nth split: if_splits)
qed simp

text \<open>
  C2: a token whose logit survives \<open>llama_grammar_sample_impl\<close> never makes
  \<open>llama_grammar_accept_token_impl\<close> abort: the only possible failure is the call depth. The token's
  piece must not decode to an embedded zero code point (an overlong NUL), where the two sides differ.
\<close>

theorem sampled_token_accepted:
  assumes "grammar_inv g"
    and "llama_grammar_sample_impl depth neg_inf piece_of is_eog g cands = Inr data"
    and "i < length cands" and "td_logit (data ! i) \<noteq> neg_inf"
    and "\<And>piece. piece_of (td_id (cands ! i)) = Inr piece \<Longrightarrow>
           0 \<notin> set (butlast (fst (decode_utf8 piece (gpartial g))))"
  shows "(\<exists>g'. llama_grammar_accept_token_impl depth' piece_of is_eog g (td_id (cands ! i)) = Inr g')
    \<or> llama_grammar_accept_token_impl depth' piece_of is_eog g (td_id (cands ! i)) = Inl StackOverflow"
proof -
  let ?id = "td_id (cands ! i)" and ?eog = "list_ex (\<lambda>stack. stack = []) (gstacks g)"
  from assms(2) obtain data1 cg rejects where
    scan: "foldE (sample_scan neg_inf piece_of is_eog (gpartial g) ?eog) [0..<length cands] (cands, []) = Inr (data1, cg)"
    and rej: "llama_grammar_reject_candidates depth (grules g) (gstacks g) cg = Inr rejects"
    and data: "data = fold (\<lambda>r. ban neg_inf (cindex r)) rejects data1"
    by (auto simp: llama_grammar_sample_impl_def Let_def bindE_Inr_iff)
  note sc = sample_scan_all [OF scan order_refl]
  have keep: "td_logit (data1 ! i) \<noteq> neg_inf" "i \<notin> cindex ` set rejects"
    using fold_ban [of i data1 neg_inf rejects] assms(3,4) sc unfolding data by auto
  from sc assms(3) keep(1) consider "is_eog ?id" ?eog
    | piece where "piece_of ?id = Inr piece" "\<not> is_eog ?id" "token_candidate (gpartial g) i piece \<in> set cg"
    by (auto simp: scanned_def)
  then show ?thesis
  proof cases
    case 1
    then show ?thesis by (simp add: llama_grammar_accept_token_impl_def)
  next
    case 2
    let ?tok = "token_candidate (gpartial g) i piece"
    let ?cps = "butlast (fst (decode_utf8 piece (gpartial g)))"
    have "?tok \<notin> set rejects" using keep(2) by (force simp: token_candidate_def)
    then obtain stack where "stack \<in> set (gstacks g)" "tok_viable (grules g) ?tok stack"
      using reject_candidates_spec rej 2(3) by blast
    moreover have "remaining ?tok = ?cps"
      using takeWhile_butlast [OF decode_utf8_last assms(5) [OF 2(1)]]
      by (simp add: remaining_def token_candidate_def)
    ultimately have v: "\<exists>stack\<in>set (gstacks g). viable (grules g) ?cps \<lparr>pvalue = 0, n_remain = 0\<rparr> stack"
      using viable_no_partial by (force simp: tok_viable_def)
    show ?thesis
    proof (cases "accept_code_points depth' (grules g) ?cps (gstacks g)")
      case (Inl e)
      then have "e = StackOverflow"
        using assms(1) accept_code_points_wf unfolding grammar_inv_def by blast
      with Inl 2 show ?thesis
        by (cases "decode_utf8 piece (gpartial g)") (simp add: llama_grammar_accept_token_impl_def)
    next
      case (Inr ss)
      with accept_code_points_viable [OF Inr] v have "ss \<noteq> []" by force
      with Inr 2 show ?thesis
        by (cases "decode_utf8 piece (gpartial g)") (simp add: llama_grammar_accept_token_impl_def)
    qed
  qed
qed

definition paren_grammar :: llama_grammar where
  "paren_grammar = \<lparr>grules = paren_rules, gstacks = [[(0, 0)], []],
     gpartial = \<lparr>pvalue = 0, n_remain = 0\<rparr>\<rparr>"

definition char_piece :: "int \<Rightarrow> byte list res" where
  "char_piece t = Inr [word_of_int t]"

lemma paren_sample:
  "llama_grammar_sample_impl 10 (-1 :: int) char_piece (\<lambda>_. False) paren_grammar
     [\<lparr>td_id = 40, td_logit = 5, td_p = 0\<rparr>, \<lparr>td_id = 41, td_logit = 5, td_p = 0\<rparr>]
   = Inr [\<lparr>td_id = 40, td_logit = 5, td_p = 0\<rparr>, \<lparr>td_id = 41, td_logit = -1, td_p = 0\<rparr>]"
  by code_simp

lemma sampled_token_accepted_witness:
  "(\<exists>g'. llama_grammar_accept_token_impl 10 char_piece (\<lambda>_. False) paren_grammar 40 = Inr g')
    \<or> llama_grammar_accept_token_impl 10 char_piece (\<lambda>_. False) paren_grammar 40 = Inl StackOverflow"
proof -
  have inv: "grammar_inv paren_grammar"
    by (simp add: grammar_inv_def ready_wf_def paren_grammar_def) code_simp
  have "0 \<notin> set (butlast (fst (decode_utf8 [40] (gpartial paren_grammar))))" by code_simp
  then show ?thesis
    using sampled_token_accepted [OF inv paren_sample, of 0 10] by (simp add: char_piece_def)
qed

end
