(* ===== verification/GrammarParser.thy ===== *)
theory GrammarParser
  imports GrammarEngine "HOL-Library.AList"
begin

text \<open>
  The grammar text parser of \<open>src/common/grammar-parser.cpp\<close>. A \<open>const char *\<close> position is the list
  of the bytes from it to the terminating NUL (which is the end of the list): \<open>pos[i]\<close> is \<open>at pos i\<close>,
  \<open>pos + 1\<close> is \<open>tl pos\<close>. The text of an exception keeps the message's first words; the sources add the
  rest of the input to it.
\<close>

section \<open>State\<close>

text \<open>\<open>std::map<std::string, uint32_t>\<close> as an association list without duplicate keys.\<close>

record parse_state =
  symbol_ids :: "(byte list \<times> u32) list"
  prules :: grammar_rules

definition empty_parse_state :: parse_state where
  "empty_parse_state = \<lparr>symbol_ids = [], prules = []\<rparr>"

section \<open>Lexical functions\<close>

definition gp_lookup :: "byte \<Rightarrow> nat" where
  "gp_lookup b = [1, 1, 1, 1, 1, 1, 1, 1, 1, 1, 1, 1, 2, 2, 3, 4] ! unat (drop_bit 4 b)"

definition gp_decode_utf8 :: "byte list \<Rightarrow> u32 \<times> byte list" where
  "gp_decode_utf8 src =
    (let first_byte = at src 0;
         len = gp_lookup first_byte;
         mask = (push_bit (8 - len) 1 - 1 :: byte);
         cont = take (len - 1) (tl src)
     in (foldl (\<lambda>value b. push_bit 6 value + ucast (b AND 0x3F)) (ucast (first_byte AND mask)) cont,
         drop (length cont) (tl src)))"

definition get_symbol_id :: "parse_state \<Rightarrow> byte list \<Rightarrow> parse_state \<times> u32" where
  "get_symbol_id state name =
    (let next_id = of_nat (length (symbol_ids state)) in
     case map_of (symbol_ids state) name of
       Some i \<Rightarrow> (state, i)
     | None \<Rightarrow> (state\<lparr>symbol_ids := symbol_ids state @ [(name, next_id)]\<rparr>, next_id))"

definition generate_symbol_id :: "parse_state \<Rightarrow> byte list \<Rightarrow> parse_state \<times> u32" where
  "generate_symbol_id state base_name =
    (let next_id = of_nat (length (symbol_ids state)) in
     (state\<lparr>symbol_ids := AList.update (base_name @ [ch CHR ''_''] @ to_string (unat next_id)) next_id
              (symbol_ids state)\<rparr>, next_id))"

definition vector_resize :: "nat \<Rightarrow> 'a \<Rightarrow> 'a list \<Rightarrow> 'a list" where
  "vector_resize n x xs = take n xs @ replicate (n - length xs) x"

definition add_rule :: "parse_state \<Rightarrow> u32 \<Rightarrow> grammar_rule \<Rightarrow> parse_state" where
  "add_rule state rule_id rule =
    (let rules = (if length (prules state) \<le> unat rule_id
                  then vector_resize (unat (rule_id + 1)) [] (prules state) else prules state)
     in state\<lparr>prules := rules[unat rule_id := rule]\<rparr>)"

definition is_digit_char :: "byte \<Rightarrow> bool" where
  "is_digit_char c \<longleftrightarrow> ch CHR ''0'' \<le> c \<and> c \<le> ch CHR ''9''"

definition is_word_char :: "byte \<Rightarrow> bool" where
  "is_word_char c \<longleftrightarrow> (ch CHR ''a'' \<le> c \<and> c \<le> ch CHR ''z'') \<or> (ch CHR ''A'' \<le> c \<and> c \<le> ch CHR ''Z'')
     \<or> c = ch CHR ''-'' \<or> is_digit_char c"

definition hex_digit :: "byte \<Rightarrow> byte option" where
  "hex_digit c =
    (if ch CHR ''a'' \<le> c \<and> c \<le> ch CHR ''f'' then Some (c - ch CHR ''a'' + 10)
     else if ch CHR ''A'' \<le> c \<and> c \<le> ch CHR ''F'' then Some (c - ch CHR ''A'' + 10)
     else if ch CHR ''0'' \<le> c \<and> c \<le> ch CHR ''9'' then Some (c - ch CHR ''0'')
     else None)"

text \<open>\<open>parse_hex\<close> counts the characters still wanted, \<open>end - pos\<close>.\<close>

fun hex_loop :: "byte list \<Rightarrow> nat \<Rightarrow> u32 \<Rightarrow> u32 \<times> byte list \<times> nat" where
  "hex_loop pos 0 value = (value, pos, 0)"
| "hex_loop [] (Suc k) value = (value, [], Suc k)"
| "hex_loop (c # cs) (Suc k) value =
    (case hex_digit c of
       Some d \<Rightarrow> hex_loop cs k (push_bit 4 value + ucast d)
     | None \<Rightarrow> (push_bit 4 value, c # cs, Suc k))"

definition parse_hex :: "byte list \<Rightarrow> nat \<Rightarrow> (u32 \<times> byte list) res" where
  "parse_hex src n =
    (case hex_loop src n 0 of (value, pos, k) \<Rightarrow>
       if k \<noteq> 0 then Inl (RuntimeError ''expecting hex chars'') else Inr (value, pos))"

definition is_newline :: "byte \<Rightarrow> bool" where
  "is_newline c \<longleftrightarrow> c = 13 \<or> c = 10"

function parse_space :: "byte list \<Rightarrow> bool \<Rightarrow> byte list" where
  "parse_space src newline_ok =
    (case src of
       [] \<Rightarrow> []
     | c # cs \<Rightarrow>
         if c = ch CHR ''#'' then parse_space (dropWhile (\<lambda>c. \<not> is_newline c) cs) newline_ok
         else if c = ch CHR '' '' \<or> c = 9 \<or> (newline_ok \<and> is_newline c) then parse_space cs newline_ok
         else src)"
  by pat_completeness auto
termination
  by (relation "measure (\<lambda>(src, newline_ok). length src)") (auto simp: le_imp_less_Suc length_dropWhile_le)

declare parse_space.simps [simp del]

definition parse_name :: "byte list \<Rightarrow> (byte list \<times> byte list) res" where
  \<comment> \<open>the name and the position behind it\<close>
  "parse_name src =
    (let pos = dropWhile is_word_char src in
     if pos = src then Inl (RuntimeError ''expecting name'')
     else Inr (takeWhile is_word_char src, pos))"

definition parse_int :: "byte list \<Rightarrow> (byte list \<times> byte list) res" where
  "parse_int src =
    (let pos = dropWhile is_digit_char src in
     if pos = src then Inl (RuntimeError ''expecting integer'')
     else Inr (takeWhile is_digit_char src, pos))"

text \<open>
  \<open>int n = std::stoul(digits)\<close>: out of the range of \<open>unsigned long\<close> throws, and the result is
  truncated to a 32-bit \<open>int\<close>.
\<close>

definition stoul :: "byte list \<Rightarrow> int res" where
  "stoul digits =
    (let n = foldl (\<lambda>v d. v * 10 + uint (d - ch CHR ''0'')) 0 digits in
     if n < 2 ^ 64 then Inr n else Inl (OutOfRange ''stoul''))"

definition int_of_ulong :: "int \<Rightarrow> int" where
  "int_of_ulong n = sint (word_of_int n :: u32)"

definition parse_char :: "byte list \<Rightarrow> (u32 \<times> byte list) res" where
  "parse_char src =
    (if at src 0 = 92 then
       (let c = at src 1; src2 = drop 2 src in
        if c = ch CHR ''x'' then parse_hex src2 2
        else if c = ch CHR ''u'' then parse_hex src2 4
        else if c = ch CHR ''U'' then parse_hex src2 8
        else if c = ch CHR ''t'' then Inr (9, src2)
        else if c = ch CHR ''r'' then Inr (13, src2)
        else if c = ch CHR ''n'' then Inr (10, src2)
        else if c = 92 \<or> c = 34 \<or> c = ch CHR ''['' \<or> c = ch CHR '']'' then Inr (ucast c, src2)
        else Inl (RuntimeError ''unknown escape''))
     else if src \<noteq> [] then Inr (gp_decode_utf8 src)
     else Inl (RuntimeError ''unexpected end of input''))"

lemma hex_loop_length: "hex_loop pos k v = (v', pos', k') \<Longrightarrow> length pos' \<le> length pos"
  by (induction pos k v rule: hex_loop.induct) (auto split: option.splits)

lemma parse_char_shorter:
  assumes "parse_char src = Inr (c, pos)"
  shows "length pos < length src"
proof -
  have "at src 0 = 92 \<Longrightarrow> src \<noteq> []" by (auto simp: at_def)
  with assms show ?thesis
    by (auto simp: parse_char_def parse_hex_def gp_decode_utf8_def Let_def
        dest!: hex_loop_length split: if_splits prod.splits)
      (cases src; simp)+
qed

section \<open>Sequences\<close>

text \<open>The loop over a string literal, behind its opening quote; it ends at the closing one.\<close>

function literal_loop :: "byte list \<Rightarrow> grammar_rule \<Rightarrow> (byte list \<times> grammar_rule) res" where
  "literal_loop pos out =
    (if at pos 0 = 34 then Inr (pos, out)
     else if pos = [] then Inl (RuntimeError ''unexpected end of input'')
     else case parse_char pos of
       Inl e \<Rightarrow> Inl e
     | Inr (c, pos') \<Rightarrow> literal_loop pos' (out @ [mk_elem LLAMA_GRETYPE_CHAR c]))"
  by pat_completeness auto
termination
  by (relation "measure (\<lambda>(pos, out). length pos)") (auto dest: parse_char_shorter)

declare literal_loop.simps [simp del]

text \<open>One character or range of a class, and the loop up to the closing bracket.\<close>

definition class_item :: "gretype \<Rightarrow> nat \<Rightarrow> byte list \<Rightarrow> grammar_rule \<Rightarrow> (byte list \<times> grammar_rule) res" where
  "class_item start_type last_sym_start pos out =
    bindE (parse_char pos) (\<lambda>(c, pos).
      let type = (if last_sym_start < length out then LLAMA_GRETYPE_CHAR_ALT else start_type);
          out = out @ [mk_elem type c]
      in if at pos 0 = ch CHR ''-'' \<and> at pos 1 \<noteq> ch CHR '']'' then
           (if at pos 1 = 0 then Inl (RuntimeError ''unexpected end of input'')
            else bindE (parse_char (tl pos)) (\<lambda>(c2, pos).
              Inr (pos, out @ [mk_elem LLAMA_GRETYPE_CHAR_RNG_UPPER c2])))
         else Inr (pos, out))"

lemma class_item_shorter:
  "class_item t l pos out = Inr (pos', out') \<Longrightarrow> length pos' < length pos"
  by (auto simp: class_item_def bindE_Inr_iff Let_def dest!: parse_char_shorter split: if_splits)

function class_loop :: "gretype \<Rightarrow> nat \<Rightarrow> byte list \<Rightarrow> grammar_rule \<Rightarrow> (byte list \<times> grammar_rule) res" where
  "class_loop start_type last_sym_start pos out =
    (if at pos 0 = ch CHR '']'' then Inr (pos, out)
     else if pos = [] then Inl (RuntimeError ''unexpected end of input'')
     else case class_item start_type last_sym_start pos out of
       Inl e \<Rightarrow> Inl e
     | Inr (pos', out') \<Rightarrow> class_loop start_type last_sym_start pos' out')"
  by pat_completeness auto
termination
  by (relation "measure (\<lambda>(t, l, pos, out). length pos)") (auto dest: class_item_shorter)

declare class_loop.simps [simp del]

text \<open>
  \<open>handle_repetitions\<close>: the rewrite of \<open>S{m,n}\<close> into \<open>m\<close> copies of \<open>S\<close> and the generated optional
  rules. Each round cuts \<open>rec_rule\<close> back to the repeated elements.
\<close>

definition rec_rule_round :: "byte list \<Rightarrow> grammar_rule \<Rightarrow> int \<Rightarrow> nat \<Rightarrow> parse_state \<times> u32 \<Rightarrow> parse_state \<times> u32" where
  "rec_rule_round rule_name previous max_times i acc =
    (case acc of (state, last_rec_rule_id) \<Rightarrow>
     case generate_symbol_id state rule_name of (state, rec_rule_id) \<Rightarrow>
       let rec_rule = previous
             @ (if i > 0 \<or> max_times < 0
                then [mk_elem LLAMA_GRETYPE_RULE_REF (if max_times < 0 then rec_rule_id else last_rec_rule_id)]
                else [])
             @ [mk_elem LLAMA_GRETYPE_ALT 0, mk_elem LLAMA_GRETYPE_END 0]
       in (add_rule state rec_rule_id rec_rule, rec_rule_id))"

definition handle_repetitions :: "byte list \<Rightarrow> nat \<Rightarrow> parse_state \<Rightarrow> grammar_rule \<Rightarrow> int \<Rightarrow> int \<Rightarrow>
    (parse_state \<times> grammar_rule) res" where
  "handle_repetitions rule_name last_sym_start state out min_times max_times =
    (if last_sym_start = length out then Inl (RuntimeError ''expecting preceding item to */+/?/{'')
     else if max_times \<ge> 0 \<and> max_times - min_times \<ge> 2 ^ 31 then Inl (UndefinedBehaviour ''signed overflow'')
     else
       let previous = drop last_sym_start out;
           out = (if min_times = 0 then take last_sym_start out
                  else out @ concat (replicate (nat (min_times - 1)) previous));
           n_opt = (if max_times < 0 then 1 else max_times - min_times)
       in case fold (rec_rule_round rule_name previous max_times) [0..<nat n_opt] (state, 0) of
            (state, last_rec_rule_id) \<Rightarrow>
              Inr (state, if n_opt > 0 then out @ [mk_elem LLAMA_GRETYPE_RULE_REF last_rec_rule_id] else out))"

text \<open>The bounds of \<open>S{m,n}\<close>, from behind the opening brace to behind the closing one.\<close>

definition parse_bounds :: "byte list \<Rightarrow> bool \<Rightarrow> (int \<times> int \<times> byte list) res" where
  "parse_bounds pos is_nested =
    (let pos = parse_space pos is_nested in
     if \<not> is_digit_char (at pos 0) then Inl (RuntimeError ''expecting an int'')
     else bindE (parse_int pos) (\<lambda>(digits, int_end).
       bindE (stoul digits) (\<lambda>n.
         let min_times = int_of_ulong n; pos = parse_space int_end is_nested in
         if at pos 0 = ch CHR ''}'' then Inr (min_times, min_times, parse_space (tl pos) is_nested)
         else if at pos 0 = ch CHR '','' then
           let pos = parse_space (tl pos) is_nested in
           bindE (if is_digit_char (at pos 0) then
                    bindE (parse_int pos) (\<lambda>(digits, int_end).
                      bindE (stoul digits) (\<lambda>n. Inr (int_of_ulong n, parse_space int_end is_nested)))
                  else Inr (-1, pos)) (\<lambda>(max_times, pos).
             if at pos 0 \<noteq> ch CHR ''}'' then Inl (RuntimeError ''expecting }'')
             else Inr (min_times, max_times, parse_space (tl pos) is_nested))
         else Inl (RuntimeError ''expecting ,''))))"

text \<open>
  One round of the \<open>while (*pos)\<close> loop of \<open>parse_sequence\<close>, groups apart: the next \<open>last_sym_start\<close>,
  state, position and elements, or \<open>None\<close> for the \<open>break\<close>.
\<close>

definition sequence_item :: "bool \<Rightarrow> byte list \<Rightarrow> nat \<Rightarrow> parse_state \<Rightarrow> byte list \<Rightarrow> grammar_rule \<Rightarrow>
    (nat \<times> parse_state \<times> byte list \<times> grammar_rule) option res" where
  "sequence_item is_nested rule_name last_sym_start state pos out =
    (let c = at pos 0; next = tl pos in
     if c = 34 then
       bindE (literal_loop next out) (\<lambda>(pos, out').
         Inr (Some (length out, state, parse_space (tl pos) is_nested, out')))
     else if c = ch CHR ''['' then
       (let negated = (at next 0 = ch CHR ''^'') in
        bindE (class_loop (if negated then LLAMA_GRETYPE_CHAR_NOT else LLAMA_GRETYPE_CHAR) (length out)
                 (if negated then tl next else next) out) (\<lambda>(pos, out').
          Inr (Some (length out, state, parse_space (tl pos) is_nested, out'))))
     else if is_word_char c then
       bindE (parse_name pos) (\<lambda>(name, name_end).
         case get_symbol_id state name of (state, ref_rule_id) \<Rightarrow>
           Inr (Some (length out, state, parse_space name_end is_nested,
             out @ [mk_elem LLAMA_GRETYPE_RULE_REF ref_rule_id])))
     else if c = ch CHR ''.'' then
       Inr (Some (length out, state, parse_space next is_nested, out @ [mk_elem LLAMA_GRETYPE_CHAR_ANY 0]))
     else if c = ch CHR ''*'' then
       bindE (handle_repetitions rule_name last_sym_start state out 0 (-1)) (\<lambda>(state, out).
         Inr (Some (last_sym_start, state, parse_space next is_nested, out)))
     else if c = ch CHR ''+'' then
       bindE (handle_repetitions rule_name last_sym_start state out 1 (-1)) (\<lambda>(state, out).
         Inr (Some (last_sym_start, state, parse_space next is_nested, out)))
     else if c = ch CHR ''?'' then
       bindE (handle_repetitions rule_name last_sym_start state out 0 1) (\<lambda>(state, out).
         Inr (Some (last_sym_start, state, parse_space next is_nested, out)))
     else if c = ch CHR ''{'' then
       bindE (parse_bounds next is_nested) (\<lambda>(min_times, max_times, pos).
         bindE (handle_repetitions rule_name last_sym_start state out min_times max_times) (\<lambda>(state, out).
           Inr (Some (last_sym_start, state, pos, out))))
     else Inr None)"

text \<open>
  \<open>parse_sequence\<close> (\<open>sequence_loop\<close>) and \<open>parse_alternates\<close> call each other for a group. The loops
  take the call for a group, \<open>parse_alternates(state, pos, rule_name, id, true)\<close>, as an argument, and a
  bound on their rounds; \<open>parse_alternates\<close> is then a recursion over the call depth. Every round and
  every nested call consumes a character, so \<open>length pos + 1\<close> bounds all of them.
\<close>

type_synonym group_parser = "parse_state \<Rightarrow> byte list \<Rightarrow> byte list \<Rightarrow> u32 \<Rightarrow> (parse_state \<times> byte list) res"

fun sequence_loop :: "group_parser \<Rightarrow> bool \<Rightarrow> byte list \<Rightarrow> nat \<Rightarrow> nat \<Rightarrow> parse_state \<Rightarrow> byte list \<Rightarrow> grammar_rule \<Rightarrow>
    (parse_state \<times> byte list \<times> grammar_rule) res" where
  "sequence_loop subparser is_nested rule_name 0 last_sym_start state pos out = Inl StackOverflow"
| "sequence_loop subparser is_nested rule_name (Suc rounds) last_sym_start state pos out =
    (if pos = [] then Inr (state, pos, out)
     else if at pos 0 = ch CHR ''('' then
       (case generate_symbol_id state rule_name of (state, sub_rule_id) \<Rightarrow>
        bindE (subparser state (parse_space (tl pos) True) rule_name sub_rule_id) (\<lambda>(state, pos).
          if at pos 0 \<noteq> ch CHR '')'' then Inl (RuntimeError ''expecting )'')
          else sequence_loop subparser is_nested rule_name rounds (length out) state
                 (parse_space (tl pos) is_nested) (out @ [mk_elem LLAMA_GRETYPE_RULE_REF sub_rule_id])))
     else bindE (sequence_item is_nested rule_name last_sym_start state pos out) (\<lambda>r. case r of
         None \<Rightarrow> Inr (state, pos, out)
       | Some (last_sym_start, state, pos, out) \<Rightarrow>
           sequence_loop subparser is_nested rule_name rounds last_sym_start state pos out))"

definition parse_sequence :: "group_parser \<Rightarrow> bool \<Rightarrow> byte list \<Rightarrow> parse_state \<Rightarrow> byte list \<Rightarrow> grammar_rule \<Rightarrow>
    (parse_state \<times> byte list \<times> grammar_rule) res" where
  "parse_sequence subparser is_nested rule_name state src out =
     sequence_loop subparser is_nested rule_name (length src + 1) (length out) state src out"

fun alternates_loop :: "group_parser \<Rightarrow> bool \<Rightarrow> byte list \<Rightarrow> nat \<Rightarrow> parse_state \<Rightarrow> byte list \<Rightarrow> grammar_rule \<Rightarrow>
    (parse_state \<times> byte list \<times> grammar_rule) res" where
  "alternates_loop subparser is_nested rule_name 0 state pos rule = Inl StackOverflow"
| "alternates_loop subparser is_nested rule_name (Suc rounds) state pos rule =
    (if at pos 0 = ch CHR ''|'' then
       bindE (parse_sequence subparser is_nested rule_name state (parse_space (tl pos) True)
                (rule @ [mk_elem LLAMA_GRETYPE_ALT 0]))
         (\<lambda>(state, pos, rule). alternates_loop subparser is_nested rule_name rounds state pos rule)
     else Inr (state, pos, rule))"

fun parse_alternates :: "nat \<Rightarrow> parse_state \<Rightarrow> byte list \<Rightarrow> byte list \<Rightarrow> u32 \<Rightarrow> bool \<Rightarrow>
    (parse_state \<times> byte list) res" where
  "parse_alternates 0 state src rule_name rule_id is_nested = Inl StackOverflow"
| "parse_alternates (Suc depth) state src rule_name rule_id is_nested =
    (let subparser = (\<lambda>state pos name sub_rule_id. parse_alternates depth state pos name sub_rule_id True) in
     bindE (parse_sequence subparser is_nested rule_name state src []) (\<lambda>(state, pos, rule).
       bindE (alternates_loop subparser is_nested rule_name (length pos + 1) state pos rule) (\<lambda>(state, pos, rule).
         Inr (add_rule state rule_id (rule @ [mk_elem LLAMA_GRETYPE_END 0]), pos))))"

section \<open>Rules and texts\<close>

definition skip_line_end :: "byte list \<Rightarrow> byte list res" where
  "skip_line_end pos =
    (if at pos 0 = 13 then Inr (if at pos 1 = 10 then drop 2 pos else tl pos)
     else if at pos 0 = 10 then Inr (tl pos)
     else if pos \<noteq> [] then Inl (RuntimeError ''expecting newline or end'')
     else Inr pos)"

definition parse_rule :: "parse_state \<Rightarrow> byte list \<Rightarrow> (parse_state \<times> byte list) res" where
  "parse_rule state src =
    bindE (parse_name src) (\<lambda>(name, name_end).
      let pos = parse_space name_end False in
      case get_symbol_id state name of (state, rule_id) \<Rightarrow>
        if \<not> (at pos 0 = ch CHR '':'' \<and> at pos 1 = ch CHR '':'' \<and> at pos 2 = ch CHR ''='')
        then Inl (RuntimeError ''expecting ::='')
        else
          let pos = parse_space (drop 3 pos) True in
          bindE (parse_alternates (length pos + 1) state pos name rule_id False) (\<lambda>(state, pos).
            bindE (skip_line_end pos) (\<lambda>pos. Inr (state, parse_space pos True))))"

text \<open>Every function returns a position inside its input, and a round of a loop consumes a character.\<close>

lemma parse_space_le: "length (parse_space src nl) \<le> length src"
proof (induction src nl rule: parse_space.induct)
  case (1 src nl)
  show ?case
  proof (cases src)
    case (Cons c cs)
    have "length (dropWhile (\<lambda>c. \<not> is_newline c) cs) \<le> length cs" by (rule length_dropWhile_le)
    with 1 [OF Cons] show ?thesis unfolding Cons by (subst parse_space.simps) auto
  qed (simp add: parse_space.simps)
qed

lemma parse_space_tl: "pos \<noteq> [] \<Longrightarrow> length (parse_space (tl pos) nl) < length pos"
  using parse_space_le [of "tl pos" nl] by (cases pos) auto

lemma parse_name_shorter:
  assumes "parse_name src = Inr (name, pos)"
  shows "length pos < length src"
proof -
  from assms have "pos = dropWhile is_word_char src" "pos \<noteq> src"
    by (auto simp: parse_name_def Let_def split: if_splits)
  then show ?thesis by (cases src) (auto simp: le_imp_less_Suc length_dropWhile_le split: if_splits)
qed

lemma parse_int_le: "parse_int src = Inr (ds, pos) \<Longrightarrow> length pos \<le> length src"
  by (auto simp: parse_int_def Let_def length_dropWhile_le split: if_splits)

lemma at_0_nonempty: "at pos 0 \<noteq> 0 \<Longrightarrow> pos \<noteq> []"
  by (auto simp: at_def)

lemma literal_loop_le:
  "literal_loop pos out = Inr (pos', out') \<Longrightarrow> length pos' \<le> length pos \<and> pos' \<noteq> []"
proof (induction pos out rule: literal_loop.induct)
  case (1 pos out)
  show ?case
  proof (cases "at pos 0 = 34 \<or> pos = []")
    case True
    with "1.prems" at_0_nonempty [of pos] show ?thesis
      by (subst (asm) literal_loop.simps) (auto split: if_splits)
  next
    case False
    with "1.prems" obtain c pos1 where pc: "parse_char pos = Inr (c, pos1)"
      and "literal_loop pos1 (out @ [mk_elem LLAMA_GRETYPE_CHAR c]) = Inr (pos', out')"
      by (subst (asm) literal_loop.simps) (auto split: sum.splits)
    with "1.IH" [OF _ _ pc refl] False parse_char_shorter [OF pc] show ?thesis by auto
  qed
qed

lemma class_loop_le:
  "class_loop t l pos out = Inr (pos', out') \<Longrightarrow> length pos' \<le> length pos \<and> pos' \<noteq> []"
proof (induction t l pos out rule: class_loop.induct)
  case (1 t l pos out)
  show ?case
  proof (cases "at pos 0 = ch CHR '']'' \<or> pos = []")
    case True
    with "1.prems" at_0_nonempty [of pos] show ?thesis
      by (subst (asm) class_loop.simps) (auto split: if_splits)
  next
    case False
    with "1.prems" obtain pos1 out1 where ci: "class_item t l pos out = Inr (pos1, out1)"
      and "class_loop t l pos1 out1 = Inr (pos', out')"
      by (subst (asm) class_loop.simps) (auto split: sum.splits)
    with "1.IH" [OF _ _ ci refl] False class_item_shorter [OF ci] show ?thesis by auto
  qed
qed

lemma parse_bounds_le:
  assumes "parse_bounds pos nested = Inr (m, n, pos')"
  shows "length pos' \<le> length pos"
proof -
  have tl: "length (parse_space (tl p) nested) \<le> length p" for p
    using parse_space_le [of "tl p" nested] by simp
  from assms obtain ds p1 where p1: "parse_int (parse_space pos nested) = Inr (ds, p1)"
    and "length pos' \<le> length (parse_space p1 nested)"
    using tl parse_int_le parse_space_le
    by (auto simp: parse_bounds_def Let_def bindE_Inr_iff split: if_splits) (meson le_trans)+
  then show ?thesis
    using parse_space_le [of pos nested] parse_space_le [of p1 nested] parse_int_le [OF p1] by linarith
qed

lemma sequence_item_shorter:
  assumes "sequence_item nested name l st pos out = Inr (Some (l', st', pos', out'))" "pos \<noteq> []"
  shows "length pos' < length pos"
proof -
  have tl: "length (parse_space (tl p) nested) < length pos" if "p \<noteq> []" "length p \<le> length pos" for p
    using parse_space_tl [OF that(1), of nested] that(2) by linarith
  have tl1: "length (tl pos) < length pos" "length (tl (tl pos)) < length pos"
    using assms(2) by (cases pos; simp)+
  show ?thesis
    using assms tl [of pos] tl1 unfolding sequence_item_def Let_def
    by (auto simp: bindE_Inr_iff case_prod_beta split: if_splits
        dest!: literal_loop_le class_loop_le parse_name_shorter parse_bounds_le
        intro!: tl le_less_trans [OF parse_space_le])
qed

lemma sequence_loop_le:
  assumes sub: "\<And>st p nm i st' p'. subparser st p nm i = Inr (st', p') \<Longrightarrow> length p' \<le> length p"
  shows "sequence_loop subparser nested name rounds l st pos out = Inr (st', pos', out') \<Longrightarrow>
    length pos' \<le> length pos"
proof (induction rounds arbitrary: l st pos out)
  case (Suc rounds)
  show ?case
  proof (cases "pos = []")
    case False
    note tl = parse_space_tl [OF False]
    show ?thesis
    proof (cases "at pos 0 = ch CHR ''(''")
      case True
      with Suc.prems False obtain st1 i st2 p2 where
        "subparser st1 (parse_space (tl pos) True) name i = Inr (st2, p2)"
        and rest: "sequence_loop subparser nested name rounds (length out) st2 (parse_space (tl p2) nested)
          (out @ [mk_elem LLAMA_GRETYPE_RULE_REF i]) = Inr (st', pos', out')"
        by (auto simp: bindE_Inr_iff split: if_splits prod.splits)
      from sub [OF this(1)] Suc.IH [OF rest] parse_space_le [of "tl p2" nested] tl [of True]
      show ?thesis by simp
    next
      case no_group: False
      with Suc.prems False obtain r where item: "sequence_item nested name l st pos out = Inr r"
        by (auto simp: bindE_Inr_iff)
      show ?thesis
      proof (cases r)
        case None
        with Suc.prems False no_group item show ?thesis by simp
      next
        case (Some q)
        obtain l1 st1 p1 o1 where q: "q = (l1, st1, p1, o1)" by (cases q)
        with Suc.prems False no_group item Some
        have "sequence_loop subparser nested name rounds l1 st1 p1 o1 = Inr (st', pos', out')" by simp
        with Suc.IH sequence_item_shorter [OF item [unfolded Some q] False] show ?thesis by fastforce
      qed
    qed
  qed (use Suc in simp)
qed simp

lemma alternates_loop_le:
  assumes sub: "\<And>st p nm i st' p'. subparser st p nm i = Inr (st', p') \<Longrightarrow> length p' \<le> length p"
  shows "alternates_loop subparser nested name rounds st pos rule = Inr (st', pos', rule') \<Longrightarrow>
    length pos' \<le> length pos"
proof (induction rounds arbitrary: st pos rule)
  case (Suc rounds)
  show ?case
  proof (cases "at pos 0 = ch CHR ''|''")
    case True
    then have "pos \<noteq> []" by (intro at_0_nonempty) simp
    from Suc.prems True obtain st1 p1 r1 where
      seq: "parse_sequence subparser nested name st (parse_space (tl pos) True) (rule @ [mk_elem LLAMA_GRETYPE_ALT 0])
        = Inr (st1, p1, r1)"
      and rest: "alternates_loop subparser nested name rounds st1 p1 r1 = Inr (st', pos', rule')"
      by (auto simp: bindE_Inr_iff Let_def)
    from sequence_loop_le [OF sub seq [unfolded parse_sequence_def]] Suc.IH [OF rest]
      parse_space_tl [OF \<open>pos \<noteq> []\<close>, of True] show ?thesis by fastforce
  qed (use Suc in simp)
qed simp

lemma parse_alternates_le:
  "parse_alternates depth st pos name i nested = Inr (st', pos') \<Longrightarrow> length pos' \<le> length pos"
proof (induction depth arbitrary: st pos name i nested st' pos')
  case (Suc depth)
  let ?sub = "\<lambda>state pos name sub_rule_id. parse_alternates depth state pos name sub_rule_id True"
  from Suc.prems obtain st1 p1 r1 st2 r2 where
    seq: "parse_sequence ?sub nested name st pos [] = Inr (st1, p1, r1)"
    and alts: "alternates_loop ?sub nested name (length p1 + 1) st1 p1 r1 = Inr (st2, pos', r2)"
    by (auto simp: bindE_Inr_iff Let_def)
  have "length p1 \<le> length pos"
    by (rule sequence_loop_le [OF _ seq [unfolded parse_sequence_def]]) (rule Suc.IH)
  moreover have "length pos' \<le> length p1"
    by (rule alternates_loop_le [OF _ alts]) (rule Suc.IH)
  ultimately show ?case by simp
qed simp

lemma parse_rule_shorter:
  assumes "parse_rule st pos = Inr (st', pos')"
  shows "length pos' < length pos"
proof -
  from assms obtain name e where name: "parse_name pos = Inr (name, e)"
    by (auto simp: parse_rule_def bindE_Inr_iff)
  define q where "q = parse_space (drop 3 (parse_space e False)) True"
  from assms name obtain st1 i st2 p2 p3 where
    alts: "parse_alternates (length q + 1) st1 q name i False = Inr (st2, p2)"
    and p3: "skip_line_end p2 = Inr p3" and pos': "pos' = parse_space p3 True"
    by (auto simp: parse_rule_def Let_def bindE_Inr_iff case_prod_beta q_def [symmetric]
        simp del: parse_alternates.simps split: if_splits)
  have "length p3 \<le> length p2" using p3 by (auto simp: skip_line_end_def split: if_splits)
  with pos' parse_space_le [of p3 True] have "length pos' \<le> length p2" by simp
  moreover have "length q \<le> length e"
    using parse_space_le [of "drop 3 (parse_space e False)" True] parse_space_le [of e False]
    by (simp add: q_def)
  ultimately show ?thesis
    using parse_name_shorter [OF name] parse_alternates_le [OF alts] by linarith
qed

function rules_loop :: "parse_state \<Rightarrow> byte list \<Rightarrow> parse_state res" where
  "rules_loop state pos =
    (if pos = [] then Inr state
     else case parse_rule state pos of
       Inl e \<Rightarrow> Inl e
     | Inr (state', pos') \<Rightarrow> rules_loop state' pos')"
  by pat_completeness auto
termination
  by (relation "measure (\<lambda>(state, pos). length pos)") (auto dest: parse_rule_shorter)

declare rules_loop.simps [simp del]

text \<open>
  \<open>parse\<close>: the exceptions of the standard library are caught, logged, and an empty state returned.
  The check after the loop: no rule is empty, and every referenced rule exists (if the missing one has
  a name; otherwise the loop over the names does not throw).
\<close>

definition check_elem :: "parse_state \<Rightarrow> grammar_element \<Rightarrow> bool" where
  "check_elem state elem \<longleftrightarrow>
    \<not> (etype elem = LLAMA_GRETYPE_RULE_REF
       \<and> (length (prules state) \<le> unat (evalue elem) \<or> prules state ! unat (evalue elem) = [])
       \<and> list_ex (\<lambda>kv. snd kv = evalue elem) (symbol_ids state))"

definition check_rules :: "parse_state \<Rightarrow> parse_state res" where
  "check_rules state =
    (if list_all (\<lambda>rule. rule \<noteq> [] \<and> list_all (check_elem state) rule) (prules state) then Inr state
     else Inl (RuntimeError ''Undefined rule''))"

definition catch_std :: "'a \<Rightarrow> 'a res \<Rightarrow> 'a res" where
  "catch_std handler r =
    (case r of
       Inl (InvalidArgument m) \<Rightarrow> Inr handler
     | Inl (OutOfRange m) \<Rightarrow> Inr handler
     | Inl (RuntimeError m) \<Rightarrow> Inr handler
     | _ \<Rightarrow> r)"

definition gp_parse :: "byte list \<Rightarrow> parse_state res" where
  "gp_parse src =
    catch_std empty_parse_state
      (bindE (rules_loop empty_parse_state (parse_space src True)) check_rules)"

text \<open>
  \<open>parse_state::c_rules\<close> hands out pointers to the rules' data; a rule is its own elements here.
\<close>

definition c_rules :: "parse_state \<Rightarrow> grammar_rules" where
  "c_rules state = map (\<lambda>rule. rule) (prules state)"

section \<open>Printing\<close>

text \<open>
  A printing function returns what it has written, and the exception that ended it if one did: what
  is already in the file stays there.
\<close>

type_synonym printed = "byte list \<times> cxx_error option"

definition written :: "string \<Rightarrow> printed" where
  "written s = (bytes s, None)"

definition then_print :: "printed \<Rightarrow> printed \<Rightarrow> printed" where
  "then_print a b = (case snd a of None \<Rightarrow> (fst a @ fst b, snd b) | Some e \<Rightarrow> a)"

definition hex_char :: "nat \<Rightarrow> byte" where
  "hex_char d = (if d < 10 then ch CHR ''0'' + of_nat d else ch CHR ''A'' + of_nat (d - 10))"

fun to_hex :: "nat \<Rightarrow> byte list" where
  "to_hex n = (if n < 16 then [hex_char n] else to_hex (n div 16) @ [hex_char (n mod 16)])"

declare to_hex.simps [simp del]

definition pad4 :: "byte list \<Rightarrow> byte list" where
  "pad4 ds = replicate (4 - length ds) (ch CHR ''0'') @ ds"

definition print_grammar_char :: "u32 \<Rightarrow> printed" where
  "print_grammar_char c =
    (if 0x20 \<le> c \<and> c \<le> 0x7f then ([ucast c], None)
     else (bytes ''<U+'' @ pad4 (to_hex (unat c)) @ bytes ''>'', None))"

definition is_char_element :: "grammar_element \<Rightarrow> bool" where
  "is_char_element elem = (case etype elem of
     LLAMA_GRETYPE_CHAR \<Rightarrow> True
   | LLAMA_GRETYPE_CHAR_NOT \<Rightarrow> True
   | LLAMA_GRETYPE_CHAR_ALT \<Rightarrow> True
   | LLAMA_GRETYPE_CHAR_RNG_UPPER \<Rightarrow> True
   | LLAMA_GRETYPE_CHAR_ANY \<Rightarrow> True
   | _ \<Rightarrow> False)"

definition gretype_name :: "gretype \<Rightarrow> string" where
  "gretype_name t = (case t of
     LLAMA_GRETYPE_END \<Rightarrow> ''END''
   | LLAMA_GRETYPE_ALT \<Rightarrow> ''ALT''
   | LLAMA_GRETYPE_RULE_REF \<Rightarrow> ''RULE_REF''
   | LLAMA_GRETYPE_CHAR \<Rightarrow> ''CHAR''
   | LLAMA_GRETYPE_CHAR_NOT \<Rightarrow> ''CHAR_NOT''
   | LLAMA_GRETYPE_CHAR_RNG_UPPER \<Rightarrow> ''CHAR_RNG_UPPER''
   | LLAMA_GRETYPE_CHAR_ALT \<Rightarrow> ''CHAR_ALT''
   | LLAMA_GRETYPE_CHAR_ANY \<Rightarrow> ''CHAR_ANY'')"

definition print_rule_binary :: "grammar_rule \<Rightarrow> byte list" where
  "print_rule_binary rule =
    concat (map (\<lambda>elem. bytes (gretype_name (etype elem)) @
      (if is_char_element elem then bytes ''('' @ [34] @ fst (print_grammar_char (evalue elem)) @ [34] @ bytes '') ''
       else bytes ''('' @ to_string (unat (evalue elem)) @ bytes '') '')) rule) @ [10]"

definition print_name :: "(u32 \<times> byte list) list \<Rightarrow> u32 \<Rightarrow> printed" where
  \<comment> \<open>\<open>symbol_id_names.at(id)\<close>\<close>
  "print_name names i = (case map_of names i of
     Some name \<Rightarrow> (name, None) | None \<Rightarrow> ([], Some (OutOfRange ''map::at'')))"

definition prev_is_char :: "grammar_rule \<Rightarrow> nat \<Rightarrow> bool" where
  "prev_is_char rule i \<longleftrightarrow> \<not> (i = 0 \<or> \<not> is_char_element (rule ! (i - 1)))"

definition print_elem :: "(u32 \<times> byte list) list \<Rightarrow> grammar_rule \<Rightarrow> nat \<Rightarrow> printed" where
  "print_elem names rule i =
    (let elem = rule ! i in
     then_print
       (case etype elem of
          LLAMA_GRETYPE_END \<Rightarrow> ([], Some (RuntimeError ''unexpected end of rule''))
        | LLAMA_GRETYPE_ALT \<Rightarrow> written ''| ''
        | LLAMA_GRETYPE_RULE_REF \<Rightarrow> then_print (print_name names (evalue elem)) (written '' '')
        | LLAMA_GRETYPE_CHAR \<Rightarrow> then_print (written ''['') (print_grammar_char (evalue elem))
        | LLAMA_GRETYPE_CHAR_NOT \<Rightarrow> then_print (written ''[^'') (print_grammar_char (evalue elem))
        | LLAMA_GRETYPE_CHAR_RNG_UPPER \<Rightarrow>
            (if \<not> prev_is_char rule i
             then ([], Some (RuntimeError ''LLAMA_GRETYPE_CHAR_RNG_UPPER without preceding char''))
             else then_print (written ''-'') (print_grammar_char (evalue elem)))
        | LLAMA_GRETYPE_CHAR_ALT \<Rightarrow>
            (if \<not> prev_is_char rule i
             then ([], Some (RuntimeError ''LLAMA_GRETYPE_CHAR_ALT without preceding char''))
             else print_grammar_char (evalue elem))
        | LLAMA_GRETYPE_CHAR_ANY \<Rightarrow> written ''.'')
       (if is_char_element elem then
          (case etype (rule ! (i + 1)) of
             LLAMA_GRETYPE_CHAR_ALT \<Rightarrow> ([], None)
           | LLAMA_GRETYPE_CHAR_RNG_UPPER \<Rightarrow> ([], None)
           | LLAMA_GRETYPE_CHAR_ANY \<Rightarrow> ([], None)
           | _ \<Rightarrow> written ''] '')
        else ([], None)))"

definition print_rule :: "(u32 \<times> byte list) list \<Rightarrow> nat \<Rightarrow> grammar_rule \<Rightarrow> printed" where
  "print_rule names rule_id rule =
    (if rule = [] \<or> etype (last rule) \<noteq> LLAMA_GRETYPE_END
     then ([], Some (RuntimeError ''malformed rule, does not end with LLAMA_GRETYPE_END''))
     else then_print (then_print (print_name names (of_nat rule_id)) (written '' ::= ''))
       (then_print (foldl then_print ([], None) (map (print_elem names rule) [0..<length rule - 1]))
          ([10], None)))"

definition symbol_id_names :: "parse_state \<Rightarrow> (u32 \<times> byte list) list" where
  "symbol_id_names state = fold (\<lambda>kv. AList.update (snd kv) (fst kv)) (symbol_ids state) []"

text \<open>\<open>print_grammar\<close> catches the exception and logs it: the second part of the result.\<close>

definition print_grammar :: "parse_state \<Rightarrow> printed" where
  "print_grammar state =
    foldl then_print ([], None)
      (map (\<lambda>i. print_rule (symbol_id_names state) i (prules state ! i)) [0..<length (prules state)])"

end
