(* ===== verification/GrammarParserProps.thy ===== *)
theory GrammarParserProps
  imports GrammarParser GrammarLanguage
begin

text \<open>
  Correctness of the grammar parser: it returns for every text, and the rules of a successful parse
  are well-formed in the sense the grammar engine needs.
\<close>

section \<open>The parser returns\<close>

text \<open>What can end the parser: an exception it catches itself, or the overflow of \<open>n - m\<close> in \<open>S{m,n}\<close>.\<close>

definition parse_error :: "cxx_error \<Rightarrow> bool" where
  "parse_error e \<longleftrightarrow> (\<exists>m. e = RuntimeError m) \<or> (\<exists>m. e = OutOfRange m)
     \<or> e = UndefinedBehaviour ''signed overflow''"

lemma parse_error_simps [simp]:
  "parse_error (RuntimeError m)" "parse_error (OutOfRange m)"
  "parse_error (UndefinedBehaviour ''signed overflow'')" "\<not> parse_error StackOverflow"
  by (simp_all add: parse_error_def)

lemma parse_char_error: "parse_char src = Inl e \<Longrightarrow> parse_error e"
  by (auto simp: parse_char_def parse_hex_def Let_def split: if_splits prod.splits)

lemma literal_loop_error: "literal_loop pos out = Inl e \<Longrightarrow> parse_error e"
proof (induction pos out rule: literal_loop.induct)
  case (1 pos out)
  from "1.prems" [unfolded literal_loop.simps [of pos out]] "1.IH" show ?case
    by (auto split: if_splits sum.splits prod.splits dest: parse_char_error)
qed

lemma class_item_error: "class_item t l pos out = Inl e \<Longrightarrow> parse_error e"
  by (auto simp: class_item_def Let_def bindE_Inl_iff split: if_splits dest: parse_char_error)

lemma class_loop_error: "class_loop t l pos out = Inl e \<Longrightarrow> parse_error e"
proof (induction t l pos out rule: class_loop.induct)
  case (1 t l pos out)
  from "1.prems" [unfolded class_loop.simps [of t l pos out]] "1.IH" show ?case
    by (auto split: if_splits sum.splits prod.splits dest: class_item_error)
qed

lemma lexical_errors:
  "parse_name src = Inl e \<Longrightarrow> parse_error e" "parse_int src = Inl e \<Longrightarrow> parse_error e"
  "stoul ds = Inl e \<Longrightarrow> parse_error e"
  by (auto simp: parse_name_def parse_int_def stoul_def Let_def split: if_splits)

lemma parse_bounds_error: "parse_bounds pos nested = Inl e \<Longrightarrow> parse_error e"
  by (auto simp: parse_bounds_def Let_def bindE_Inl_iff split: if_splits dest: lexical_errors)

lemma handle_repetitions_error: "handle_repetitions name l st out m n = Inl e \<Longrightarrow> parse_error e"
  by (auto simp: handle_repetitions_def Let_def split: if_splits prod.splits)

lemmas item_errors = literal_loop_error class_loop_error lexical_errors parse_bounds_error
  handle_repetitions_error

lemma sequence_item_error: "sequence_item nested name l st pos out = Inl e \<Longrightarrow> parse_error e"
  by (auto simp: sequence_item_def Let_def bindE_Inl_iff case_prod_beta split: if_splits dest: item_errors)

lemma sequence_loop_error:
  assumes sub: "\<And>st p nm i e. length p < len \<Longrightarrow> subparser st p nm i = Inl e \<Longrightarrow> parse_error e"
    and sub_le: "\<And>st p nm i st' p'. subparser st p nm i = Inr (st', p') \<Longrightarrow> length p' \<le> length p"
  shows "sequence_loop subparser nested name rounds l st pos out = Inl e \<Longrightarrow>
    length pos < rounds \<Longrightarrow> length pos \<le> len \<Longrightarrow> parse_error e"
proof (induction rounds arbitrary: l st pos out)
  case (Suc rounds)
  show ?case
  proof (cases "pos = []")
    case False
    note tl = parse_space_tl [OF False, of True]
    show ?thesis
    proof (cases "at pos 0 = ch CHR ''(''")
      case True
      obtain st1 i where gen: "generate_symbol_id st name = (st1, i)" by (cases "generate_symbol_id st name")
      show ?thesis
      proof (cases "subparser st1 (parse_space (tl pos) True) name i")
        case (Inl e')
        with Suc.prems False True gen sub [OF _ Inl] tl show ?thesis by simp
      next
        case (Inr r)
        obtain st2 p2 where r: "r = (st2, p2)" by (cases r)
        have "length (parse_space (tl p2) nested) < length pos"
          using sub_le [OF Inr [unfolded r]] tl parse_space_le [of "tl p2" nested] by simp
        with Suc False True gen Inr r show ?thesis by (auto split: if_splits)
      qed
    next
      case no_group: False
      show ?thesis
      proof (cases "sequence_item nested name l st pos out")
        case (Inl e')
        with Suc.prems False no_group sequence_item_error [OF Inl] show ?thesis by simp
      next
        case (Inr r)
        show ?thesis
        proof (cases r)
          case None
          with Suc.prems False no_group Inr show ?thesis by simp
        next
          case (Some q)
          obtain l1 st1 p1 o1 where q: "q = (l1, st1, p1, o1)" by (cases q)
          have "length p1 < length pos" using sequence_item_shorter [OF Inr [unfolded Some q] False] .
          with Suc False no_group Inr Some q show ?thesis by auto
        qed
      qed
    qed
  qed (use Suc in simp)
qed simp

lemma alternates_loop_error:
  assumes sub: "\<And>st p nm i e. length p < len \<Longrightarrow> subparser st p nm i = Inl e \<Longrightarrow> parse_error e"
    and sub_le: "\<And>st p nm i st' p'. subparser st p nm i = Inr (st', p') \<Longrightarrow> length p' \<le> length p"
  shows "alternates_loop subparser nested name rounds st pos rule = Inl e \<Longrightarrow>
    length pos < rounds \<Longrightarrow> length pos \<le> len \<Longrightarrow> parse_error e"
proof (induction rounds arbitrary: st pos rule)
  case (Suc rounds)
  show ?case
  proof (cases "at pos 0 = ch CHR ''|''")
    case True
    let ?pos = "parse_space (tl pos) True" and ?rule = "rule @ [mk_elem LLAMA_GRETYPE_ALT 0]"
    from True have "length ?pos < length pos" by (intro parse_space_tl at_0_nonempty) simp
    show ?thesis
    proof (cases "parse_sequence subparser nested name st ?pos ?rule")
      case (Inl e')
      have "parse_error e'"
        by (rule sequence_loop_error [OF sub sub_le Inl [unfolded parse_sequence_def]])
          (use Suc.prems \<open>length ?pos < length pos\<close> in auto)
      with Suc.prems True Inl show ?thesis by simp
    next
      case (Inr r)
      obtain st1 p1 r1 where r: "r = (st1, p1, r1)" by (cases r)
      have "length p1 \<le> length ?pos"
        by (rule sequence_loop_le [OF sub_le Inr [unfolded parse_sequence_def r]])
      with Suc True Inr r \<open>length ?pos < length pos\<close> show ?thesis by auto
    qed
  qed (use Suc in simp)
qed simp

lemma parse_alternates_error:
  "parse_alternates depth st pos name i nested = Inl e \<Longrightarrow> length pos < depth \<Longrightarrow> parse_error e"
proof (induction depth arbitrary: st pos name i nested e)
  case (Suc depth)
  let ?sub = "\<lambda>state pos name sub_rule_id. parse_alternates depth state pos name sub_rule_id True"
  have sub: "\<And>st p nm i e. length p < length pos \<Longrightarrow> ?sub st p nm i = Inl e \<Longrightarrow> parse_error e"
    using Suc.IH Suc.prems(2) by fastforce
  have sub_le: "\<And>st p nm i st' p'. ?sub st p nm i = Inr (st', p') \<Longrightarrow> length p' \<le> length p"
    by (rule parse_alternates_le)
  show ?case
  proof (cases "parse_sequence ?sub nested name st pos []")
    case (Inl e')
    have "parse_error e'"
      by (rule sequence_loop_error [OF sub sub_le Inl [unfolded parse_sequence_def]]) auto
    with Suc.prems Inl show ?thesis by simp
  next
    case (Inr r)
    obtain st1 p1 r1 where r: "r = (st1, p1, r1)" by (cases r)
    have "length p1 \<le> length pos"
      by (rule sequence_loop_le [OF sub_le Inr [unfolded parse_sequence_def r]])
    with Suc.prems Inr r have alts: "alternates_loop ?sub nested name (length p1 + 1) st1 p1 r1 = Inl e"
      by (auto simp: bindE_Inl_iff case_prod_beta simp del: alternates_loop.simps)
    show ?thesis
      by (rule alternates_loop_error [OF sub sub_le alts]) (use \<open>length p1 \<le> length pos\<close> in auto)
  qed
qed simp

lemma parse_rule_error: "parse_rule st pos = Inl e \<Longrightarrow> parse_error e"
  by (auto simp: parse_rule_def skip_line_end_def Let_def bindE_Inl_iff case_prod_beta
      simp del: parse_alternates.simps split: if_splits dest: lexical_errors parse_alternates_error)

lemma rules_loop_error: "rules_loop st pos = Inl e \<Longrightarrow> parse_error e"
proof (induction st pos rule: rules_loop.induct)
  case (1 st pos)
  from "1.prems" [unfolded rules_loop.simps [of st pos]] "1.IH" show ?case
    by (auto split: if_splits sum.splits prod.splits dest: parse_rule_error)
qed

text \<open>What stands in the \<open>try\<close> block of \<open>parse\<close>.\<close>

definition gp_try :: "byte list \<Rightarrow> parse_state res" where
  "gp_try src = bindE (rules_loop empty_parse_state (parse_space src True)) check_rules"

text \<open>
  C10: \<open>parse\<close> returns for every text: the state of its rules if they all parse and are defined, and an
  empty state if anything throws, which only a \<open>runtime_error\<close> or an \<open>out_of_range\<close> does. Its loops and nested
  calls stay inside the text (the bounds of the model are never reached), and no error leaves it but the
  overflow of the 32-bit difference of the bounds of a repetition.
\<close>

theorem gp_parse_returns:
  "(\<exists>state. gp_try src = Inr state \<and> gp_parse src = Inr state)
   \<or> (\<exists>m. (gp_try src = Inl (RuntimeError m) \<or> gp_try src = Inl (OutOfRange m)) \<and> gp_parse src = Inr empty_parse_state)
   \<or> gp_try src = Inl (UndefinedBehaviour ''signed overflow'') \<and> gp_parse src = gp_try src"
proof (cases "gp_try src")
  case (Inl e)
  then have "parse_error e"
    by (auto simp: gp_try_def bindE_Inl_iff check_rules_def split: if_splits dest: rules_loop_error)
  with Inl show ?thesis by (auto simp: gp_parse_def gp_try_def catch_std_def parse_error_def)
qed (simp add: gp_parse_def gp_try_def catch_std_def)

end
