(* ===== verification/GrammarParserRules.thy ===== *)
theory GrammarParserRules
  imports GrammarParserProps GrammarDepth GrammarSampling
begin

text \<open>
  The rules of a parsed grammar: their shape, the invariant of the parser's state (identifiers and
  names in bijection, every rule built of sequences over known identifiers), and the theorem that a
  successful parse gives rules the grammar engine can run on.
\<close>

section \<open>Shape of parsed rules\<close>

text \<open>
  What follows the first element of a character class: more characters, each perhaps the lower
  bound of a range.
\<close>

inductive class_tail :: "grammar_rule \<Rightarrow> bool" where
  class_tail_nil: "class_tail []"
| class_tail_char: "class_tail t \<Longrightarrow> class_tail (mk_elem LLAMA_GRETYPE_CHAR_ALT v # t)"
| class_tail_range: "class_tail t \<Longrightarrow>
    class_tail (mk_elem LLAMA_GRETYPE_CHAR_ALT v # mk_elem LLAMA_GRETYPE_CHAR_RNG_UPPER u # t)"

text \<open>A sequence with references below \<open>n\<close>: characters, classes, dots and references.\<close>

inductive seq_items :: "nat \<Rightarrow> grammar_rule \<Rightarrow> bool" for n :: nat where
  items_nil: "seq_items n []"
| items_ref: "unat v < n \<Longrightarrow> seq_items n s \<Longrightarrow> seq_items n (mk_elem LLAMA_GRETYPE_RULE_REF v # s)"
| items_any: "seq_items n s \<Longrightarrow> seq_items n (mk_elem LLAMA_GRETYPE_CHAR_ANY 0 # s)"
| items_char: "t = LLAMA_GRETYPE_CHAR \<or> t = LLAMA_GRETYPE_CHAR_NOT \<Longrightarrow> class_tail c \<Longrightarrow> seq_items n s \<Longrightarrow>
    seq_items n (mk_elem t v # c @ s)"
| items_range: "t = LLAMA_GRETYPE_CHAR \<or> t = LLAMA_GRETYPE_CHAR_NOT \<Longrightarrow> class_tail c \<Longrightarrow> seq_items n s \<Longrightarrow>
    seq_items n (mk_elem t v # mk_elem LLAMA_GRETYPE_CHAR_RNG_UPPER u # c @ s)"

text \<open>A rule under construction: sequences separated by \<open>LLAMA_GRETYPE_ALT\<close>.\<close>

inductive open_rule :: "nat \<Rightarrow> grammar_rule \<Rightarrow> bool" for n :: nat where
  open_seq: "seq_items n s \<Longrightarrow> open_rule n s"
| open_alt: "open_rule n r \<Longrightarrow> seq_items n s \<Longrightarrow> open_rule n (r @ mk_elem LLAMA_GRETYPE_ALT 0 # s)"

definition closed_rule :: "nat \<Rightarrow> grammar_rule \<Rightarrow> bool" where
  "closed_rule n r \<longleftrightarrow> (\<exists>q. open_rule n q \<and> r = q @ [mk_elem LLAMA_GRETYPE_END 0])"

lemma class_tail_append: "class_tail a \<Longrightarrow> class_tail b \<Longrightarrow> class_tail (a @ b)"
  by (induction rule: class_tail.induct) (auto intro: class_tail.intros)

lemma seq_items_append: "seq_items n a \<Longrightarrow> seq_items n b \<Longrightarrow> seq_items n (a @ b)"
  by (induction rule: seq_items.induct) (auto intro: seq_items.intros)

lemma seq_items_concat: "\<forall>a\<in>set as. seq_items n a \<Longrightarrow> seq_items n (concat as)"
  by (induction as) (auto intro: seq_items_append items_nil)

lemma seq_items_mono: "seq_items n a \<Longrightarrow> n \<le> m \<Longrightarrow> seq_items m a"
  by (induction rule: seq_items.induct) (auto intro: seq_items.intros)

lemma open_rule_mono: "open_rule n r \<Longrightarrow> n \<le> m \<Longrightarrow> open_rule m r"
  by (induction rule: open_rule.induct) (auto intro: open_rule.intros seq_items_mono)

lemma closed_rule_mono: "closed_rule n r \<Longrightarrow> n \<le> m \<Longrightarrow> closed_rule m r"
  by (auto simp: closed_rule_def intro: open_rule_mono)

lemma seq_items_single [intro]:
  "seq_items n [mk_elem LLAMA_GRETYPE_CHAR v]" "seq_items n [mk_elem LLAMA_GRETYPE_CHAR_ANY 0]"
  using items_char [of LLAMA_GRETYPE_CHAR "[]" n "[]"]
  by (auto intro: seq_items.intros class_tail.intros)

lemma seq_items_ref: "unat v < n \<Longrightarrow> seq_items n [mk_elem LLAMA_GRETYPE_RULE_REF v]"
  by (auto intro: seq_items.intros)

text \<open>The rest of a rule behind a class starts neither with a character nor with an upper bound.\<close>

definition class_free :: "grammar_rule \<Rightarrow> bool" where
  "class_free r \<longleftrightarrow> (case r of [] \<Rightarrow> True
     | e # _ \<Rightarrow> etype e \<noteq> LLAMA_GRETYPE_CHAR_ALT \<and> etype e \<noteq> LLAMA_GRETYPE_CHAR_RNG_UPPER)"

lemma seq_wf_class_free: "seq_wf n r \<Longrightarrow> class_free r"
  by (cases r) (auto simp: class_free_def is_char_start_def)

lemma class_tail_classes:
  "class_tail c \<Longrightarrow> class_free r \<Longrightarrow> etype e \<noteq> LLAMA_GRETYPE_CHAR_RNG_UPPER \<Longrightarrow>
   snd (char_classes (e # c @ r)) = r \<and> snd (char_classes (e # mk_elem LLAMA_GRETYPE_CHAR_RNG_UPPER u # c @ r)) = r"
proof (induction arbitrary: e u rule: class_tail.induct)
  case class_tail_nil
  then show ?case
    by (cases r) (auto simp: char_classes.simps [of "e # _"] first_class_def starts_alt_def class_free_def
        split: list.splits)
next
  case (class_tail_char t v)
  from class_tail_char.IH [OF class_tail_char.prems(1), of "mk_elem LLAMA_GRETYPE_CHAR_ALT v"] class_tail_char.prems
  show ?case
    by (auto simp: char_classes.simps [of "e # _"] first_class_def starts_alt_def split: prod.splits)
next
  case (class_tail_range t v u')
  from class_tail_range.IH [OF class_tail_range.prems(1), of "mk_elem LLAMA_GRETYPE_CHAR_ALT v" u'] class_tail_range.prems
  show ?case
    by (auto simp: char_classes.simps [of "e # _"] first_class_def starts_alt_def split: prod.splits)
qed

lemma seq_items_wf:
  "seq_items n s \<Longrightarrow> seq_wf m r \<Longrightarrow>
   (\<forall>e\<in>set s. etype e = LLAMA_GRETYPE_RULE_REF \<longrightarrow> unat (evalue e) < m) \<Longrightarrow> seq_wf m (s @ r)"
proof (induction rule: seq_items.induct)
  case (items_any s)
  then have "class_free (s @ r)" by (auto intro: seq_wf_class_free)
  with items_any class_tail_classes [OF class_tail_nil, of "s @ r" "mk_elem LLAMA_GRETYPE_CHAR_ANY 0"]
  show ?case by (simp add: is_char_start_def)
next
  case (items_char t c s v)
  then have "class_free (s @ r)" by (auto intro: seq_wf_class_free)
  with items_char class_tail_classes [OF items_char(2), of "s @ r" "mk_elem t v"]
  show ?case by (auto simp: is_char_start_def)
next
  case (items_range t c s v u)
  then have "class_free (s @ r)" by (auto intro: seq_wf_class_free)
  with items_range class_tail_classes [OF items_range(2), of "s @ r" "mk_elem t v" u]
  show ?case by (auto simp: is_char_start_def)
qed simp_all

lemma open_rule_wf:
  "open_rule n q \<Longrightarrow> seq_wf m r \<Longrightarrow>
   (\<forall>e\<in>set q. etype e = LLAMA_GRETYPE_RULE_REF \<longrightarrow> unat (evalue e) < m) \<Longrightarrow> seq_wf m (q @ r)"
proof (induction arbitrary: r rule: open_rule.induct)
  case (open_seq s)
  then show ?case by (rule seq_items_wf)
next
  case (open_alt q s)
  then have "seq_wf m (s @ r)" by (intro seq_items_wf) auto
  with open_alt show ?case by auto
qed

lemma class_tail_refs: "class_tail c \<Longrightarrow> e \<in> set c \<Longrightarrow> etype e \<noteq> LLAMA_GRETYPE_RULE_REF"
  by (induction rule: class_tail.induct) auto

lemma seq_items_refs:
  "seq_items n s \<Longrightarrow> e \<in> set s \<Longrightarrow> etype e = LLAMA_GRETYPE_RULE_REF \<Longrightarrow> unat (evalue e) < n"
  by (induction rule: seq_items.induct) (auto dest: class_tail_refs)

lemma open_rule_refs:
  "open_rule n q \<Longrightarrow> e \<in> set q \<Longrightarrow> etype e = LLAMA_GRETYPE_RULE_REF \<Longrightarrow> unat (evalue e) < n"
  by (induction rule: open_rule.induct) (auto dest: seq_items_refs)

section \<open>Numbers in names\<close>

lemma to_string_digits: "b \<in> set (to_string n) \<Longrightarrow> is_digit_char b"
  using to_string_chars [of b n] by (simp add: is_digit_char_def)

lemma underscore_no_digit: "\<not> is_digit_char (ch CHR ''_'')" "\<not> is_word_char (ch CHR ''_'')"
  by (simp_all add: is_digit_char_def is_word_char_def word_le_nat_alt)

lemma last_separator_inj:
  assumes "a @ c # x = b @ c # y" "c \<notin> set x" "c \<notin> set y"
  shows "x = y"
proof -
  have "takeWhile (\<lambda>d. d \<noteq> c) (rev (a @ c # x)) = rev x" if "c \<notin> set x" for a x
    using that takeWhile_append2 [of "rev x" "\<lambda>d. d \<noteq> c" "c # rev a"] by fastforce
  from this [OF assms(2), of a] this [OF assms(3), of b] assms(1) show ?thesis by simp
qed

lemma to_string_inj:
  assumes "a @ ch CHR ''_'' # to_string m = b @ ch CHR ''_'' # to_string n"
  shows "m = n"
proof -
  have "to_string m = to_string n"
    using assms by (rule last_separator_inj) (use to_string_digits underscore_no_digit in blast)+
  then show ?thesis by (metis number_of_to_string)
qed

section \<open>The invariant of the parser's state\<close>

abbreviation n_symbols :: "parse_state \<Rightarrow> nat" where
  "n_symbols st \<equiv> length (symbol_ids st)"

definition ids_ok :: "parse_state \<Rightarrow> bool" where
  "ids_ok st \<longleftrightarrow> map snd (symbol_ids st) = map of_nat [0..<n_symbols st]
     \<and> distinct (map fst (symbol_ids st))
     \<and> (\<forall>j<n_symbols st. ch CHR ''_'' \<in> set (fst (symbol_ids st ! j)) \<longrightarrow>
          (\<exists>b. fst (symbol_ids st ! j) = b @ ch CHR ''_'' # to_string j))"

definition rules_ok :: "parse_state \<Rightarrow> bool" where
  "rules_ok st \<longleftrightarrow> length (prules st) \<le> n_symbols st
     \<and> (\<forall>r\<in>set (prules st). r = [] \<or> closed_rule (n_symbols st) r)"

text \<open>
  Identifiers are 32-bit, so the invariant speaks of states with fewer than \<open>2^32\<close> symbols; the
  number of symbols only grows.
\<close>

definition few_symbols :: "parse_state \<Rightarrow> bool" where
  "few_symbols st \<longleftrightarrow> n_symbols st < 2 ^ 32"

definition state_ok :: "parse_state \<Rightarrow> bool" where
  "state_ok st \<longleftrightarrow> (few_symbols st \<longrightarrow> ids_ok st \<and> rules_ok st)"

definition ok_step :: "parse_state \<Rightarrow> parse_state \<Rightarrow> bool" where
  "ok_step st st' \<longleftrightarrow> n_symbols st \<le> n_symbols st' \<and> (state_ok st \<longrightarrow> state_ok st')"

lemma ok_step_refl [simp]: "ok_step st st"
  by (simp add: ok_step_def)

lemma ok_step_trans [trans]: "ok_step a b \<Longrightarrow> ok_step b c \<Longrightarrow> ok_step a c"
  by (auto simp: ok_step_def)

lemma few_symbols_step: "ok_step a b \<Longrightarrow> few_symbols b \<Longrightarrow> few_symbols a"
  by (auto simp: ok_step_def few_symbols_def)

lemma ids_ok_ids: "ids_ok st \<Longrightarrow> (name, i) \<in> set (symbol_ids st) \<Longrightarrow> unat i < n_symbols st"
proof -
  assume ok: "ids_ok st" and "(name, i) \<in> set (symbol_ids st)"
  then have "i \<in> set (map snd (symbol_ids st))" by force
  with ok obtain j where "j < n_symbols st" "i = of_nat j" by (auto simp: ids_ok_def)
  then show "unat i < n_symbols st" by (simp add: unat_of_nat le_less_trans [OF mod_less_eq_dividend])
qed

lemma update_fresh: "k \<notin> fst ` set al \<Longrightarrow> AList.update k v al = al @ [(k, v)]"
  by (induction al) auto

lemma length_update: "length (AList.update k v al) = (if k \<in> fst ` set al then length al else Suc (length al))"
  by (induction al) auto

lemma rules_ok_more:
  "rules_ok st \<Longrightarrow> prules st' = prules st \<Longrightarrow> n_symbols st \<le> n_symbols st' \<Longrightarrow> rules_ok st'"
  by (auto simp: rules_ok_def intro: closed_rule_mono)

lemma ids_ok_snoc:
  assumes "ids_ok st" "name \<notin> fst ` set (symbol_ids st)"
    and "ch CHR ''_'' \<in> set name \<Longrightarrow> \<exists>b. name = b @ ch CHR ''_'' # to_string (n_symbols st)"
  shows "ids_ok (st\<lparr>symbol_ids := symbol_ids st @ [(name, of_nat (n_symbols st))]\<rparr>)"
  using assms by (auto simp: ids_ok_def nth_append less_Suc_eq)

lemma get_symbol_id_step:
  assumes "get_symbol_id st name = (st', i)" "ch CHR ''_'' \<notin> set name"
  shows "ok_step st st' \<and> prules st' = prules st \<and> (state_ok st \<and> few_symbols st' \<longrightarrow> unat i < n_symbols st')"
proof (cases "map_of (symbol_ids st) name")
  case (Some j)
  with assms(1) have "st' = st" "i = j" by (auto simp: get_symbol_id_def Let_def)
  with map_of_SomeD [OF Some] ids_ok_ids show ?thesis by (auto simp: state_ok_def)
next
  case None
  with assms(1) have st': "st' = st\<lparr>symbol_ids := symbol_ids st @ [(name, of_nat (n_symbols st))]\<rparr>"
    and i: "i = of_nat (n_symbols st)" by (auto simp: get_symbol_id_def Let_def)
  have "name \<notin> fst ` set (symbol_ids st)" using None by (simp add: map_of_eq_None_iff)
  then have "ids_ok st \<Longrightarrow> ids_ok st'" unfolding st' using assms(2) by (intro ids_ok_snoc) auto
  moreover have "rules_ok st \<Longrightarrow> rules_ok st'" using rules_ok_more [of st st'] by (auto simp: st')
  ultimately show ?thesis
    using i by (auto simp: ok_step_def state_ok_def few_symbols_def st' unat_of_nat)
qed

lemma generate_symbol_id_step:
  assumes "generate_symbol_id st base = (st', i)"
  shows "ok_step st st'" and "prules st' = prules st" and "i = of_nat (n_symbols st)"
    and "state_ok st \<Longrightarrow> few_symbols st' \<Longrightarrow> n_symbols st' = Suc (n_symbols st) \<and> unat i < n_symbols st'"
proof -
  let ?name = "base @ [ch CHR ''_''] @ to_string (unat (of_nat (n_symbols st) :: u32))"
  from assms have st': "st' = st\<lparr>symbol_ids := AList.update ?name (of_nat (n_symbols st)) (symbol_ids st)\<rparr>"
    and i: "i = of_nat (n_symbols st)" by (auto simp: generate_symbol_id_def Let_def)
  have le: "n_symbols st \<le> n_symbols st'" by (simp add: st' length_update)
  have fresh: "?name \<notin> fst ` set (symbol_ids st)" if "ids_ok st" "few_symbols st"
  proof
    assume "?name \<in> fst ` set (symbol_ids st)"
    then obtain j where j: "j < n_symbols st" "fst (symbol_ids st ! j) = ?name"
      by (auto simp: in_set_conv_nth)
    then have "ch CHR ''_'' \<in> set (fst (symbol_ids st ! j))" by simp
    with that(1) j obtain b where "fst (symbol_ids st ! j) = b @ ch CHR ''_'' # to_string j"
      unfolding ids_ok_def by blast
    with j have "j = unat (of_nat (n_symbols st) :: u32)" using to_string_inj [of b j base] by simp
    with that(2) j(1) show False by (simp add: few_symbols_def unat_of_nat)
  qed
  have snoc: "ids_ok st' \<and> n_symbols st' = Suc (n_symbols st)" if "ids_ok st" "few_symbols st"
  proof -
    have "st' = st\<lparr>symbol_ids := symbol_ids st @ [(?name, of_nat (n_symbols st))]\<rparr>"
      unfolding st' using update_fresh [OF fresh [OF that]] by simp
    moreover have "ids_ok (st\<lparr>symbol_ids := symbol_ids st @ [(?name, of_nat (n_symbols st))]\<rparr>)"
      using that fresh [OF that] by (intro ids_ok_snoc) (auto simp: few_symbols_def unat_of_nat)
    ultimately show ?thesis by simp
  qed
  have few: "few_symbols st' \<Longrightarrow> few_symbols st" using le by (simp add: few_symbols_def)
  show pr: "prules st' = prules st" by (simp add: st')
  show "i = of_nat (n_symbols st)" by (rule i)
  have "rules_ok st \<Longrightarrow> rules_ok st'" using rules_ok_more [OF _ pr le] by blast
  with le snoc few show "ok_step st st'" by (auto simp: ok_step_def state_ok_def)
  assume "state_ok st" "few_symbols st'"
  with snoc few show "n_symbols st' = Suc (n_symbols st) \<and> unat i < n_symbols st'"
    by (auto simp: state_ok_def i unat_of_nat few_symbols_def)
qed

lemma vector_resize_nth: "j < n \<Longrightarrow> vector_resize n x xs ! j = (if j < length xs then xs ! j else x)"
  by (auto simp: vector_resize_def nth_append)

lemma length_vector_resize [simp]: "length (vector_resize n x xs) = n"
  by (simp add: vector_resize_def)

lemma add_rule_symbols [simp]: "symbol_ids (add_rule st i r) = symbol_ids st"
  by (simp add: add_rule_def)

lemma add_rule_rules:
  assumes "unat i < 2 ^ 32 - 1"
  shows "length (prules (add_rule st i r)) = max (length (prules st)) (unat i + 1)"
    and "j < max (length (prules st)) (unat i + 1) \<Longrightarrow> prules (add_rule st i r) ! j =
      (if j = unat i then r else if j < length (prules st) then prules st ! j else [])"
proof -
  have "unat (i + 1) = unat i + 1" using assms by (simp add: unat_word_ariths)
  then show "length (prules (add_rule st i r)) = max (length (prules st)) (unat i + 1)"
    "j < max (length (prules st)) (unat i + 1) \<Longrightarrow> prules (add_rule st i r) ! j =
      (if j = unat i then r else if j < length (prules st) then prules st ! j else [])"
    by (auto simp: add_rule_def Let_def nth_list_update vector_resize_nth)
qed

lemma add_rule_step:
  assumes "state_ok st \<Longrightarrow> few_symbols st \<Longrightarrow> unat i < n_symbols st \<and> closed_rule (n_symbols st) r"
  shows "ok_step st (add_rule st i r)"
proof -
  let ?st' = "add_rule st i r"
  have "rules_ok ?st'" if ok: "rules_ok st" "unat i < n_symbols st" "closed_rule (n_symbols st) r" "few_symbols st"
  proof -
    have i: "unat i < 2 ^ 32 - 1" using ok(2,4) by (simp add: few_symbols_def)
    note rules = add_rule_rules [OF i]
    have "r' = [] \<or> closed_rule (n_symbols st) r'" if "r' \<in> set (prules ?st')" for r'
    proof -
      from that obtain j where "j < length (prules ?st')" "r' = prules ?st' ! j" by (auto simp: in_set_conv_nth)
      with rules(2) [of j] ok(1,3) show ?thesis by (auto simp: rules(1) rules_ok_def)
    qed
    with ok show ?thesis by (auto simp: rules_ok_def rules(1))
  qed
  moreover have "ids_ok st \<Longrightarrow> ids_ok ?st'" by (simp add: ids_ok_def)
  ultimately show ?thesis using assms by (auto simp: ok_step_def state_ok_def few_symbols_def)
qed


section \<open>Sequences keep the shape\<close>

definition class_so_far :: "grammar_rule \<Rightarrow> bool" where
  "class_so_far c \<longleftrightarrow> c = [] \<or> (\<exists>t v u c'. (t = LLAMA_GRETYPE_CHAR \<or> t = LLAMA_GRETYPE_CHAR_NOT)
     \<and> class_tail c' \<and> (c = mk_elem t v # c' \<or> c = mk_elem t v # mk_elem LLAMA_GRETYPE_CHAR_RNG_UPPER u # c'))"

lemma class_so_far_items: "class_so_far c \<Longrightarrow> seq_items n c"
  using items_char [of _ _ n "[]", simplified] items_range [of _ _ n "[]", simplified] items_nil
  unfolding class_so_far_def by fast

lemma class_so_far_first:
  "t = LLAMA_GRETYPE_CHAR \<or> t = LLAMA_GRETYPE_CHAR_NOT \<Longrightarrow>
   class_so_far [mk_elem t v] \<and> class_so_far [mk_elem t v, mk_elem LLAMA_GRETYPE_CHAR_RNG_UPPER u]"
  unfolding class_so_far_def using class_tail_nil by blast

lemma class_so_far_append:
  assumes "class_so_far c" "c \<noteq> []" "class_tail d"
  shows "class_so_far (c @ d)"
proof -
  from assms(1,2) obtain t v u c' where c: "t = LLAMA_GRETYPE_CHAR \<or> t = LLAMA_GRETYPE_CHAR_NOT" "class_tail c'"
    "c = mk_elem t v # c' \<or> c = mk_elem t v # mk_elem LLAMA_GRETYPE_CHAR_RNG_UPPER u # c'"
    unfolding class_so_far_def by blast
  have "class_tail (c' @ d)" using c(2) assms(3) by (rule class_tail_append)
  moreover have "c @ d = mk_elem t v # (c' @ d) \<or> c @ d = mk_elem t v # mk_elem LLAMA_GRETYPE_CHAR_RNG_UPPER u # (c' @ d)"
    using c(3) by auto
  ultimately show ?thesis unfolding class_so_far_def using c(1) by blast
qed

lemma class_item_shape:
  assumes "class_item t (length out) pos (out @ c) = Inr (pos', out')"
    and "t = LLAMA_GRETYPE_CHAR \<or> t = LLAMA_GRETYPE_CHAR_NOT" "class_so_far c"
  shows "\<exists>c'. out' = out @ c' \<and> class_so_far c'"
proof -
  let ?type = "if c \<noteq> [] then LLAMA_GRETYPE_CHAR_ALT else t"
  from assms(1) obtain v u where "out' = out @ c @ [mk_elem ?type v]
      \<or> out' = out @ c @ [mk_elem ?type v, mk_elem LLAMA_GRETYPE_CHAR_RNG_UPPER u]"
    by (auto simp: class_item_def bindE_Inr_iff Let_def split: if_splits)
  then show ?thesis
    using class_so_far_first [OF assms(2)] class_so_far_append [OF assms(3)]
      class_tail_char [OF class_tail_nil] class_tail_range [OF class_tail_nil]
    by (cases "c = []") auto
qed

lemma class_loop_shape:
  "class_loop t l pos outc = Inr (pos', out') \<Longrightarrow> t = LLAMA_GRETYPE_CHAR \<or> t = LLAMA_GRETYPE_CHAR_NOT \<Longrightarrow>
   outc = out @ c \<Longrightarrow> l = length out \<Longrightarrow> class_so_far c \<Longrightarrow> \<exists>c'. out' = out @ c' \<and> class_so_far c'"
proof (induction t l pos outc arbitrary: c rule: class_loop.induct)
  case (1 t l pos outc)
  show ?case
  proof (cases "at pos 0 = ch CHR '']'' \<or> pos = []")
    case True
    with 1 show ?thesis by (subst (asm) class_loop.simps) (auto split: if_splits)
  next
    case False
    with "1.prems"(1) obtain pos1 out1 where item: "class_item t l pos outc = Inr (pos1, out1)"
      and rest: "class_loop t l pos1 out1 = Inr (pos', out')"
      by (subst (asm) class_loop.simps) (auto split: sum.splits)
    from class_item_shape [of t out pos c pos1 out1] item "1.prems" obtain c1 where "out1 = out @ c1" "class_so_far c1" by auto
    with "1.IH" [OF _ _ item refl rest] False "1.prems" show ?thesis by blast
  qed
qed

lemma literal_loop_shape:
  "literal_loop pos out = Inr (pos', out') \<Longrightarrow> \<exists>c. out' = out @ c \<and> seq_items n c"
proof (induction pos out rule: literal_loop.induct)
  case (1 pos out)
  show ?case
  proof (cases "at pos 0 = 34 \<or> pos = []")
    case True
    with 1 show ?thesis by (subst (asm) literal_loop.simps) (auto split: if_splits intro: items_nil)
  next
    case False
    with "1.prems" obtain v pos1 where pc: "parse_char pos = Inr (v, pos1)"
      and rest: "literal_loop pos1 (out @ [mk_elem LLAMA_GRETYPE_CHAR v]) = Inr (pos', out')"
      by (subst (asm) literal_loop.simps) (auto split: sum.splits)
    from "1.IH" [OF _ _ pc refl rest] False obtain c where
      "out' = out @ [mk_elem LLAMA_GRETYPE_CHAR v] @ c" "seq_items n c" by auto
    with seq_items_append [OF seq_items_single(1)] show ?thesis by blast
  qed
qed

lemma closed_optional:
  "seq_items n s \<Longrightarrow> closed_rule n (s @ [mk_elem LLAMA_GRETYPE_ALT 0, mk_elem LLAMA_GRETYPE_END 0])"
  unfolding closed_rule_def
  by (rule exI [of _ "s @ [mk_elem LLAMA_GRETYPE_ALT 0]"]) (auto intro: open_alt open_seq items_nil)

lemma rec_rule_round_step:
  assumes "rec_rule_round name prev k i (st, last_id) = (st', id')"
    and ok: "state_ok st" and prev: "few_symbols st \<Longrightarrow> seq_items (n_symbols st) prev"
    and last: "i > 0 \<Longrightarrow> few_symbols st \<Longrightarrow> unat last_id < n_symbols st"
  shows "ok_step st st' \<and> (few_symbols st' \<longrightarrow> unat id' < n_symbols st')"
proof -
  obtain st1 id1 where gen: "generate_symbol_id st name = (st1, id1)" by (cases "generate_symbol_id st name")
  note g = generate_symbol_id_step [OF gen]
  let ?refs = "if i > 0 \<or> k < 0
     then [mk_elem LLAMA_GRETYPE_RULE_REF (if k < 0 then id1 else last_id)] else []"
  let ?rule = "prev @ ?refs @ [mk_elem LLAMA_GRETYPE_ALT 0, mk_elem LLAMA_GRETYPE_END 0]"
  have st': "st' = add_rule st1 id1 ?rule" "id' = id1"
    using assms(1) gen by (auto simp: rec_rule_round_def Let_def)
  have few: "few_symbols st1 \<Longrightarrow> few_symbols st" using few_symbols_step [OF g(1)] .
  have le: "n_symbols st \<le> n_symbols st1" using g(1) by (simp add: ok_step_def)
  have "ok_step st1 st'" unfolding st'
  proof (rule add_rule_step)
    assume f: "few_symbols st1"
    have "seq_items (n_symbols st1) ?refs"
      using g(4) [OF ok f] last few f le by (auto intro: items_nil seq_items_ref)
    then have "seq_items (n_symbols st1) (prev @ ?refs)"
      using prev few f le by (blast intro: seq_items_append seq_items_mono)
    from closed_optional [OF this] g(4) [OF ok f]
    show "unat id1 < n_symbols st1 \<and> closed_rule (n_symbols st1) ?rule" by simp
  qed
  with g(1,4) ok show ?thesis by (auto simp: st' ok_step_def few_symbols_def)
qed

lemma rec_rule_rounds_step:
  assumes "fold (rec_rule_round name prev k) [0..<j] (st, 0) = (st', id')"
    and ok: "state_ok st" and prev: "few_symbols st \<Longrightarrow> seq_items (n_symbols st) prev"
  shows "ok_step st st' \<and> (0 < j \<longrightarrow> few_symbols st' \<longrightarrow> unat id' < n_symbols st')"
  using assms(1)
proof (induction j arbitrary: st' id')
  case (Suc j)
  obtain st1 id1 where rounds: "fold (rec_rule_round name prev k) [0..<j] (st, 0) = (st1, id1)"
    by (cases "fold (rec_rule_round name prev k) [0..<j] (st, 0)")
  note IH = Suc.IH [OF rounds]
  have "ok_step st1 st' \<and> (few_symbols st' \<longrightarrow> unat id' < n_symbols st')"
  proof (rule rec_rule_round_step)
    show "rec_rule_round name prev k j (st1, id1) = (st', id')" using Suc.prems rounds by simp
    show "state_ok st1" using IH ok by (simp add: ok_step_def)
    show "seq_items (n_symbols st1) prev" if "few_symbols st1"
      using prev few_symbols_step [of st st1] that IH by (auto simp: ok_step_def intro: seq_items_mono)
  qed (use IH in auto)
  with IH show ?case using ok_step_trans by blast
qed simp

lemma handle_repetitions_step:
  assumes rep: "handle_repetitions name (length p) st (p @ s) m k = Inr (st', out')"
    and ok: "state_ok st" and s: "few_symbols st \<Longrightarrow> seq_items (n_symbols st) s"
  shows "ok_step st st' \<and> (\<exists>s'. out' = p @ s' \<and> (few_symbols st' \<longrightarrow> seq_items (n_symbols st') s'))"
proof -
  let ?n = "if k < 0 then 1 else k - m"
  let ?s = "if m = 0 then [] else s @ concat (replicate (nat (m - 1)) s)"
  obtain st1 id1 where rounds: "fold (rec_rule_round name s k) [0..<nat ?n] (st, 0) = (st1, id1)"
    by (cases "fold (rec_rule_round name s k) [0..<nat ?n] (st, 0)")
  from rec_rule_rounds_step [OF rounds ok s]
  have step: "ok_step st st1" and id1: "0 < nat ?n \<Longrightarrow> few_symbols st1 \<Longrightarrow> unat id1 < n_symbols st1" by auto
  have *: "out' = p @ ?s @ (if ?n > 0 then [mk_elem LLAMA_GRETYPE_RULE_REF id1] else [])" "st' = st1"
    using rep rounds by (auto simp: handle_repetitions_def Let_def split: if_splits)
  have "seq_items (n_symbols st1) (?s @ (if ?n > 0 then [mk_elem LLAMA_GRETYPE_RULE_REF id1] else []))"
    if "few_symbols st1"
  proof -
    have "seq_items (n_symbols st1) s"
      using s few_symbols_step [OF step that] step by (auto simp: ok_step_def intro: seq_items_mono)
    then have "seq_items (n_symbols st1) ?s"
      by (auto intro!: items_nil seq_items_append seq_items_concat)
    moreover have "seq_items (n_symbols st1) (if ?n > 0 then [mk_elem LLAMA_GRETYPE_RULE_REF id1] else [])"
      using id1 that by (auto intro: items_nil seq_items_ref)
    ultimately show ?thesis by (rule seq_items_append)
  qed
  with * step show ?thesis by blast
qed

text \<open>
  The elements of a rule under construction: what an enclosing \<open>parse_alternates\<close> had collected, the
  finished items of the sequence, and the last item, which a repetition would apply to.
\<close>

definition seq_state :: "grammar_rule \<Rightarrow> parse_state \<Rightarrow> nat \<Rightarrow> grammar_rule \<Rightarrow> bool" where
  "seq_state pre st l out \<longleftrightarrow> (\<exists>s1 s2. out = pre @ s1 @ s2 \<and> l = length (pre @ s1)
     \<and> (few_symbols st \<longrightarrow> seq_items (n_symbols st) s1 \<and> seq_items (n_symbols st) s2))"

lemma seq_state_push:
  assumes "seq_state pre st l out" "ok_step st st'" "few_symbols st' \<Longrightarrow> seq_items (n_symbols st') c"
  shows "seq_state pre st' (length out) (out @ c)"
proof -
  from assms(1) obtain s1 s2 where s: "out = pre @ s1 @ s2"
    "few_symbols st \<Longrightarrow> seq_items (n_symbols st) (s1 @ s2)"
    by (auto simp: seq_state_def intro: seq_items_append)
  with few_symbols_step [OF assms(2)] assms(2,3) show ?thesis unfolding seq_state_def
    by (intro exI [of _ "s1 @ s2"] exI [of _ c]) (auto simp: ok_step_def intro: seq_items_mono)
qed

lemma seq_state_repetition:
  assumes "seq_state pre st l out" "handle_repetitions name l st out m k = Inr (st', out')" "state_ok st"
  shows "ok_step st st' \<and> seq_state pre st' l out'"
proof -
  from assms(1) obtain s1 s2 where s: "out = (pre @ s1) @ s2" "l = length (pre @ s1)"
    "few_symbols st \<Longrightarrow> seq_items (n_symbols st) s1" "few_symbols st \<Longrightarrow> seq_items (n_symbols st) s2"
    by (auto simp: seq_state_def)
  from handle_repetitions_step [OF _ assms(3) s(4)] assms(2) s(1,2)
  have *: "ok_step st st'" "\<exists>s'. out' = (pre @ s1) @ s' \<and> (few_symbols st' \<longrightarrow> seq_items (n_symbols st') s')"
    by blast+
  with few_symbols_step [OF *(1)] s(2,3) show ?thesis
    by (auto simp: seq_state_def ok_step_def intro: seq_items_mono)
qed

lemma parse_name_word: "parse_name src = Inr (name, pos) \<Longrightarrow> ch CHR ''_'' \<notin> set name"
  using underscore_no_digit(2) by (auto simp: parse_name_def Let_def split: if_splits dest: set_takeWhileD)

lemma sequence_item_step:
  assumes item: "sequence_item nested name l st pos out = Inr (Some (l', st', pos', out'))"
    and s: "seq_state pre st l out" and ok: "state_ok st"
  shows "ok_step st st' \<and> seq_state pre st' l' out'"
proof -
  note push = seq_state_push [OF s]
  let ?c = "at pos 0"
  note item' = item [unfolded sequence_item_def Let_def]
  have rep: ?thesis if "handle_repetitions name l st out m k = Inr (st', out')" "l' = l" for m k
    using seq_state_repetition [OF s _ ok] that by blast
  consider "?c = 34" | "?c = ch CHR ''[''" | "?c \<noteq> 34" "?c \<noteq> ch CHR ''[''" "is_word_char ?c"
    | "\<not> is_word_char ?c" "?c = ch CHR ''.''"
    | "?c \<noteq> 34" "?c \<noteq> ch CHR ''[''" "\<not> is_word_char ?c" "?c \<noteq> ch CHR ''.''" by blast
  then show ?thesis
  proof cases
    case 1
    with item' obtain p where lit: "literal_loop (tl pos) out = Inr (p, out')" "st' = st" "l' = length out"
      by (auto simp: bindE_Inr_iff)
    from literal_loop_shape [OF lit(1)] obtain c where "out' = out @ c" "seq_items (n_symbols st) c" by blast
    with push [of st c] lit show ?thesis by simp
  next
    case 2
    from item' [unfolded 2] obtain t q p where cls: "class_loop t (length out) q out = Inr (p, out')" "st' = st" "l' = length out"
        "t = LLAMA_GRETYPE_CHAR \<or> t = LLAMA_GRETYPE_CHAR_NOT"
      by (cases "at (tl pos) 0 = ch CHR ''^''") (auto simp: bindE_Inr_iff)
    have "class_so_far []" by (simp add: class_so_far_def)
    from class_loop_shape [OF cls(1,4) _ refl this] obtain c where "out' = out @ c" "class_so_far c" by auto
    with push [of st c] class_so_far_items cls show ?thesis by simp
  next
    case 3
    obtain nm p where nm: "parse_name pos = Inr (nm, p)" using 3 item' by (auto simp: bindE_Inr_iff)
    obtain st1 i where get: "get_symbol_id st nm = (st1, i)" by (cases "get_symbol_id st nm")
    from 3 item' nm get have *: "st1 = st'" "l' = length out" "out' = out @ [mk_elem LLAMA_GRETYPE_RULE_REF i]"
      by simp_all
    note g = get_symbol_id_step [OF get [unfolded *(1)] parse_name_word [OF nm]]
    have "seq_state pre st' l' out'"
      unfolding *(2,3) by (rule push) (use g ok in \<open>auto intro: seq_items_ref\<close>)
    with g show ?thesis by blast
  next
    case 4
    with item' have "st' = st" "l' = length out" "out' = out @ [mk_elem LLAMA_GRETYPE_CHAR_ANY 0]" by simp_all
    with push [of st "[mk_elem LLAMA_GRETYPE_CHAR_ANY 0]"] seq_items_single show ?thesis by simp
  next
    case 5
    have "(\<exists>m k. handle_repetitions name l st out m k = Inr (st', out')) \<and> l' = l"
    proof (cases "?c = ch CHR ''*'' \<or> ?c = ch CHR ''+'' \<or> ?c = ch CHR ''?''")
      case True
      with item' 5 show ?thesis by (elim disjE) (force simp: bindE_Inr_iff)+
    next
      case False
      with item' 5 show ?thesis
        by (cases "?c = ch CHR ''{''") (auto simp: bindE_Inr_iff case_prod_beta)
    qed
    with rep show ?thesis by blast
  qed
qed

text \<open>What a group parser, \<open>parse_alternates\<close> at a smaller depth, does to the state.\<close>

definition group_step :: "group_parser \<Rightarrow> bool" where
  "group_step subparser \<longleftrightarrow> (\<forall>st p nm i st' p'. subparser st p nm i = Inr (st', p') \<longrightarrow> state_ok st \<longrightarrow>
     (few_symbols st \<longrightarrow> unat i < n_symbols st) \<longrightarrow> ok_step st st')"

lemma sequence_loop_step:
  assumes sub: "group_step subparser"
  shows "sequence_loop subparser nested name rounds l st pos out = Inr (st', pos', out') \<Longrightarrow>
    seq_state pre st l out \<Longrightarrow> state_ok st \<Longrightarrow> ok_step st st' \<and> (\<exists>l'. seq_state pre st' l' out')"
proof (induction rounds arbitrary: l st pos out)
  case (Suc rounds)
  show ?case
  proof (cases "pos = []")
    case False
    show ?thesis
    proof (cases "at pos 0 = ch CHR ''(''")
      case True
      obtain st1 i where gen: "generate_symbol_id st name = (st1, i)" by (cases "generate_symbol_id st name")
      note g = generate_symbol_id_step [OF gen]
      from Suc.prems(1) True False gen obtain st2 p2 where
        group: "subparser st1 (parse_space (tl pos) True) name i = Inr (st2, p2)"
        and rest: "sequence_loop subparser nested name rounds (length out) st2 (parse_space (tl p2) nested)
          (out @ [mk_elem LLAMA_GRETYPE_RULE_REF i]) = Inr (st', pos', out')"
        by (auto simp: bindE_Inr_iff split: if_splits)
      have ok1: "state_ok st1" using g(1) Suc.prems(3) by (simp add: ok_step_def)
      with group sub g(4) [OF Suc.prems(3)] have s12: "ok_step st1 st2"
        unfolding group_step_def by blast
      then have step2: "ok_step st st2" using g(1) ok_step_trans by blast
      have ok2: "state_ok st2" using step2 Suc.prems(3) by (simp add: ok_step_def)
      have "unat i < n_symbols st2" if "few_symbols st2"
        using g(4) [OF Suc.prems(3) few_symbols_step [OF s12 that]] s12 by (simp add: ok_step_def)
      then have "seq_state pre st2 (length out) (out @ [mk_elem LLAMA_GRETYPE_RULE_REF i])"
        by (intro seq_state_push [OF Suc.prems(2) step2]) (auto intro: seq_items_ref)
      from Suc.IH [OF rest this ok2] step2 ok_step_trans show ?thesis by blast
    next
      case no_group: False
      with Suc.prems(1) False obtain r where item: "sequence_item nested name l st pos out = Inr r"
        by (auto simp: bindE_Inr_iff)
      show ?thesis
      proof (cases r)
        case None
        with Suc.prems False no_group item show ?thesis by auto
      next
        case (Some q)
        obtain l1 st1 p1 o1 where q: "q = (l1, st1, p1, o1)" by (cases q)
        note step = sequence_item_step [OF item [unfolded Some q] Suc.prems(2,3)]
        with Suc.prems(3) have "state_ok st1" by (simp add: ok_step_def)
        moreover from Suc.prems False no_group item Some q
        have "sequence_loop subparser nested name rounds l1 st1 p1 o1 = Inr (st', pos', out')" by simp
        ultimately show ?thesis using Suc.IH step ok_step_trans by blast
      qed
    qed
  qed (use Suc.prems in auto)
qed simp

lemma parse_sequence_step:
  assumes sub: "group_step subparser"
    and seq: "parse_sequence subparser nested name st pos pre = Inr (st', pos', out')" and ok: "state_ok st"
  shows "ok_step st st' \<and> (\<exists>s. out' = pre @ s \<and> (few_symbols st' \<longrightarrow> seq_items (n_symbols st') s))"
proof -
  have "seq_state pre st (length pre) pre" by (simp add: seq_state_def items_nil)
  from sequence_loop_step [OF sub seq [unfolded parse_sequence_def] this ok] show ?thesis
    by (auto simp: seq_state_def intro: seq_items_append)
qed

lemma alternates_loop_step:
  assumes sub: "group_step subparser"
  shows "alternates_loop subparser nested name rounds st pos rule = Inr (st', pos', rule') \<Longrightarrow>
    state_ok st \<Longrightarrow> (few_symbols st \<longrightarrow> open_rule (n_symbols st) rule) \<Longrightarrow>
    ok_step st st' \<and> (few_symbols st' \<longrightarrow> open_rule (n_symbols st') rule')"
proof (induction rounds arbitrary: st pos rule)
  case (Suc rounds)
  show ?case
  proof (cases "at pos 0 = ch CHR ''|''")
    case True
    with Suc.prems(1) obtain st1 p1 r1 where
      seq: "parse_sequence subparser nested name st (parse_space (tl pos) True) (rule @ [mk_elem LLAMA_GRETYPE_ALT 0])
        = Inr (st1, p1, r1)"
      and rest: "alternates_loop subparser nested name rounds st1 p1 r1 = Inr (st', pos', rule')"
      by (auto simp: bindE_Inr_iff Let_def)
    from parse_sequence_step [OF sub seq Suc.prems(2)] obtain s where
      step: "ok_step st st1" and r1: "r1 = rule @ mk_elem LLAMA_GRETYPE_ALT 0 # s"
      and s: "few_symbols st1 \<longrightarrow> seq_items (n_symbols st1) s" by auto
    have "few_symbols st1 \<longrightarrow> open_rule (n_symbols st1) r1"
      using few_symbols_step [OF step] Suc.prems(3) s step
      by (auto simp: r1 ok_step_def intro: open_alt open_rule_mono)
    moreover have "state_ok st1" using step Suc.prems(2) by (simp add: ok_step_def)
    ultimately show ?thesis using Suc.IH [OF rest] step ok_step_trans by blast
  qed (use Suc.prems in simp)
qed simp

lemma parse_alternates_step:
  "parse_alternates depth st pos name i nested = Inr (st', pos') \<Longrightarrow> state_ok st \<Longrightarrow>
   (few_symbols st \<longrightarrow> unat i < n_symbols st) \<Longrightarrow> ok_step st st'"
proof (induction depth arbitrary: st pos name i nested st' pos')
  case (Suc depth)
  let ?sub = "\<lambda>state pos name sub_rule_id. parse_alternates depth state pos name sub_rule_id True"
  have sub: "group_step ?sub" unfolding group_step_def using Suc.IH by blast
  from Suc.prems(1) obtain st1 p1 r1 st2 r2 where
    seq: "parse_sequence ?sub nested name st pos [] = Inr (st1, p1, r1)"
    and alts: "alternates_loop ?sub nested name (length p1 + 1) st1 p1 r1 = Inr (st2, pos', r2)"
    and st': "st' = add_rule st2 i (r2 @ [mk_elem LLAMA_GRETYPE_END 0])"
    by (auto simp: bindE_Inr_iff Let_def simp del: alternates_loop.simps)
  from parse_sequence_step [OF sub seq Suc.prems(2)]
  have 1: "ok_step st st1" "few_symbols st1 \<longrightarrow> open_rule (n_symbols st1) r1" by (auto intro: open_seq)
  then have ok1: "state_ok st1" using Suc.prems(2) by (simp add: ok_step_def)
  from alternates_loop_step [OF sub alts ok1 1(2)]
  have 2: "ok_step st1 st2" "few_symbols st2 \<longrightarrow> open_rule (n_symbols st2) r2" by auto
  have "ok_step st st2" using 1(1) 2(1) by (rule ok_step_trans)
  moreover have "ok_step st2 st'" unfolding st'
  proof (rule add_rule_step)
    assume "few_symbols st2"
    with 2(2) few_symbols_step [OF \<open>ok_step st st2\<close>] Suc.prems(3) \<open>ok_step st st2\<close>
    show "unat i < n_symbols st2 \<and> closed_rule (n_symbols st2) (r2 @ [mk_elem LLAMA_GRETYPE_END 0])"
      by (auto simp: closed_rule_def ok_step_def)
  qed
  ultimately show ?case by (rule ok_step_trans)
qed simp

lemma parse_rule_step:
  assumes "parse_rule st pos = Inr (st', pos')" and ok: "state_ok st"
  shows "ok_step st st'"
proof -
  from assms(1) obtain name e where name: "parse_name pos = Inr (name, e)"
    by (auto simp: parse_rule_def bindE_Inr_iff)
  obtain st1 i where get: "get_symbol_id st name = (st1, i)" by (cases "get_symbol_id st name")
  from assms(1) name get obtain q p2 where
    alts: "parse_alternates (length q + 1) st1 q name i False = Inr (st', p2)"
    by (auto simp: parse_rule_def Let_def bindE_Inr_iff simp del: parse_alternates.simps split: if_splits)
  from get_symbol_id_step [OF get parse_name_word [OF name]] ok
  have 1: "ok_step st st1" "few_symbols st1 \<longrightarrow> unat i < n_symbols st1" by auto
  then have "state_ok st1" using ok by (simp add: ok_step_def)
  from parse_alternates_step [OF alts this 1(2)] 1(1) show ?thesis by (blast intro: ok_step_trans)
qed

lemma rules_loop_step: "rules_loop st pos = Inr st' \<Longrightarrow> state_ok st \<Longrightarrow> ok_step st st'"
proof (induction st pos rule: rules_loop.induct)
  case (1 st pos)
  show ?case
  proof (cases "pos = []")
    case True
    with "1.prems" show ?thesis by (subst (asm) rules_loop.simps) simp
  next
    case False
    with "1.prems"(1) obtain st1 p1 where pr: "parse_rule st pos = Inr (st1, p1)"
      and rest: "rules_loop st1 p1 = Inr st'"
      by (subst (asm) rules_loop.simps) (auto split: sum.splits)
    note step = parse_rule_step [OF pr "1.prems"(2)]
    then have "state_ok st1" using "1.prems"(2) by (simp add: ok_step_def)
    from "1.IH" [OF False pr refl rest this] step show ?thesis by (blast intro: ok_step_trans)
  qed
qed

section \<open>A parsed grammar is well-formed\<close>

lemma class_tail_no_end: "class_tail c \<Longrightarrow> e \<in> set c \<Longrightarrow> etype e \<noteq> LLAMA_GRETYPE_END"
  by (induction rule: class_tail.induct) auto

lemma seq_items_no_end: "seq_items n s \<Longrightarrow> e \<in> set s \<Longrightarrow> etype e \<noteq> LLAMA_GRETYPE_END"
  by (induction rule: seq_items.induct) (auto dest: class_tail_no_end)

lemma open_rule_no_end: "open_rule n q \<Longrightarrow> e \<in> set q \<Longrightarrow> etype e \<noteq> LLAMA_GRETYPE_END"
  by (induction rule: open_rule.induct) (auto dest: seq_items_no_end)

lemma closed_rule_copy: "closed_rule n r \<Longrightarrow> copy_rule r = r"
  using open_rule_no_end by (fastforce simp: closed_rule_def copy_rule_def takeWhile_tail takeWhile_append2)

lemma empty_state_ok: "state_ok empty_parse_state"
  by (simp add: state_ok_def empty_parse_state_def ids_ok_def rules_ok_def)

lemma check_rules_wf:
  assumes "check_rules st = Inr st'" "ids_ok st" "rules_ok st"
  shows "st' = st \<and> rules_wf (prules st) \<and> map copy_rule (prules st) = prules st"
proof -
  from assms(1) have st': "st' = st" and chk: "\<forall>r\<in>set (prules st). r \<noteq> [] \<and> (\<forall>e\<in>set r. check_elem st e)"
    by (auto simp: check_rules_def list_all_iff split: if_splits)
  have "seq_wf (length (prules st)) r" if r: "r \<in> set (prules st)" for r
  proof -
    from r chk assms(3) obtain q where q: "open_rule (n_symbols st) q" "r = q @ [mk_elem LLAMA_GRETYPE_END 0]"
      by (auto simp: rules_ok_def closed_rule_def)
    have "unat (evalue e) < length (prules st)" if e: "e \<in> set q" "etype e = LLAMA_GRETYPE_RULE_REF" for e
    proof -
      have "unat (evalue e) < n_symbols st" using open_rule_refs [OF q(1) e] .
      moreover have "map snd (symbol_ids st) = map of_nat [0..<n_symbols st]" using assms(2) by (simp add: ids_ok_def)
      ultimately have "map snd (symbol_ids st) ! unat (evalue e) = evalue e" by simp
      then have "snd (symbol_ids st ! unat (evalue e)) = evalue e"
        using \<open>unat (evalue e) < n_symbols st\<close> by simp
      then have "list_ex (\<lambda>kv. snd kv = evalue e) (symbol_ids st)"
        using \<open>unat (evalue e) < n_symbols st\<close> nth_mem by (fastforce simp: list_ex_iff)
      moreover have "check_elem st e" using chk r e(1) q(2) by auto
      ultimately show ?thesis using e(2) by (auto simp: check_elem_def not_le)
    qed
    then show ?thesis unfolding q(2) by (intro open_rule_wf [OF q(1)]) auto
  qed
  moreover have "copy_rule r = r" if "r \<in> set (prules st)" for r
    using that chk assms(3) closed_rule_copy by (auto simp: rules_ok_def)
  ultimately show ?thesis using st' by (simp add: rules_wf_def list_all_iff map_idI)
qed

lemma gp_parse_ok:
  assumes "gp_parse src = Inr st" and "n_symbols st < 2 ^ 32"
  shows "ids_ok st" "rules_ok st" "rules_wf (prules st)" "map copy_rule (prules st) = prules st"
    "\<forall>r\<in>set (prules st). closed_rule (n_symbols st) r"
proof -
  have "ids_ok st \<and> rules_ok st \<and> rules_wf (prules st) \<and> map copy_rule (prules st) = prules st"
  proof (cases "bindE (rules_loop empty_parse_state (parse_space src True)) check_rules")
    case (Inl e)
    with assms(1) have "st = empty_parse_state"
      by (auto simp: gp_parse_def catch_std_def split: cxx_error.splits)
    then show ?thesis by (simp add: empty_parse_state_def ids_ok_def rules_ok_def rules_wf_def)
  next
    case (Inr s)
    with assms(1) have "s = st" by (simp add: gp_parse_def catch_std_def)
    with Inr obtain st0 where loop: "rules_loop empty_parse_state (parse_space src True) = Inr st0"
      and chk: "check_rules st0 = Inr st" by (auto simp: bindE_Inr_iff)
    from chk have "st0 = st" by (auto simp: check_rules_def split: if_splits)
    with rules_loop_step [OF loop empty_state_ok] empty_state_ok assms(2)
    have "ids_ok st" "rules_ok st" by (auto simp: ok_step_def state_ok_def few_symbols_def)
    with check_rules_wf chk \<open>st0 = st\<close> show ?thesis by blast
  qed
  then show "ids_ok st" "rules_ok st" and wf: "rules_wf (prules st)" and "map copy_rule (prules st) = prules st"
    by auto
  from wf have "[] \<notin> set (prules st)" by (auto simp: rules_wf_def list_all_iff)
  with \<open>rules_ok st\<close> show "\<forall>r\<in>set (prules st). closed_rule (n_symbols st) r" by (auto simp: rules_ok_def)
qed

text \<open>
  C8: the rules of a parsed grammar are well-formed (every rule closed, every reference to an existing
  rule, range bounds and alternative characters only inside a class), and its symbols are numbered
  from 0 with distinct names; so the grammar made from it satisfies the engine's invariant.
\<close>

theorem parsed_rules_wf:
  assumes "gp_parse src = Inr st" and "n_symbols st < 2 ^ 32"
  shows "rules_wf (prules st) \<and> map snd (symbol_ids st) = map of_nat [0..<n_symbols st]
    \<and> distinct (map fst (symbol_ids st))
    \<and> (\<forall>g. llama_grammar_init_impl depth (c_rules st) start = Inr (Some g) \<longrightarrow> grammar_inv g)"
  using gp_parse_ok [OF assms] init_impl_inv [of "prules st" depth start]
  by (simp add: ids_ok_def c_rules_def)

text \<open>The grammar \<open>root ::= [a-z]+ | "."\<close> and its parse.\<close>

definition sample_text :: "byte list" where
  "sample_text = bytes ''root ::= [a-z]+ | . ''"

definition sample_state :: parse_state where
  "sample_state = \<lparr>symbol_ids = [(bytes ''root'', 0), (bytes ''root_1'', 1)],
     prules = [[mk_elem LLAMA_GRETYPE_CHAR 97, mk_elem LLAMA_GRETYPE_CHAR_RNG_UPPER 122,
                mk_elem LLAMA_GRETYPE_RULE_REF 1, mk_elem LLAMA_GRETYPE_ALT 0,
                mk_elem LLAMA_GRETYPE_CHAR_ANY 0, mk_elem LLAMA_GRETYPE_END 0],
               [mk_elem LLAMA_GRETYPE_CHAR 97, mk_elem LLAMA_GRETYPE_CHAR_RNG_UPPER 122,
                mk_elem LLAMA_GRETYPE_RULE_REF 1, mk_elem LLAMA_GRETYPE_ALT 0,
                mk_elem LLAMA_GRETYPE_END 0]]\<rparr>"

lemma sample_parse: "gp_parse sample_text = Inr sample_state"
  by code_simp

lemma parsed_rules_wf_witness:
  "rules_wf (prules sample_state)
   \<and> map snd (symbol_ids sample_state) = map of_nat [0..<n_symbols sample_state]
   \<and> distinct (map fst (symbol_ids sample_state))"
proof -
  have "n_symbols sample_state < 2 ^ 32" by (simp add: sample_state_def)
  from parsed_rules_wf [OF sample_parse this] show ?thesis by blast
qed

end
