(* ===== verification/GrammarRepetition.thy ===== *)
theory GrammarRepetition
  imports GrammarParserRules
begin

text \<open>
  What the repetition operators of the grammar language mean: the symbols of a parsed sequence, the
  languages of the generated rules, and the theorem on \<open>handle_repetitions\<close>.
\<close>

section \<open>Symbols of sequences\<close>

abbreviation end_elem :: grammar_element where
  "end_elem \<equiv> mk_elem LLAMA_GRETYPE_END 0"

definition syms :: "grammar_rule \<Rightarrow> gsym list" where
  "syms s = seq_syms (s @ [end_elem])"

lemma class_tail_classes_indep:
  "class_tail c \<Longrightarrow> etype e \<noteq> LLAMA_GRETYPE_CHAR_RNG_UPPER \<Longrightarrow>
   (\<exists>cs. \<forall>r. class_free r \<longrightarrow> char_classes (e # c @ r) = (cs, r)) \<and>
   (\<exists>cs. \<forall>r. class_free r \<longrightarrow> char_classes (e # mk_elem LLAMA_GRETYPE_CHAR_RNG_UPPER u # c @ r) = (cs, r))"
proof (induction arbitrary: e u rule: class_tail.induct)
  case class_tail_nil
  have "char_classes (e # r) = ([if etype e = LLAMA_GRETYPE_CHAR_ANY then AnyChar else Single (evalue e)], r)
      \<and> char_classes (e # mk_elem LLAMA_GRETYPE_CHAR_RNG_UPPER u # r) = ([Range (evalue e) u], r)"
    if "class_free r" for r
    using that class_tail_nil
    by (cases r) (auto simp: char_classes.simps [of "e # _"] first_class_def starts_alt_def class_free_def)
  then show ?case unfolding append_Nil by blast
next
  case (class_tail_char t v)
  let ?a = "mk_elem LLAMA_GRETYPE_CHAR_ALT v"
  from class_tail_char.IH [of ?a 0] obtain cs where cs: "\<And>r. class_free r \<Longrightarrow> char_classes (?a # t @ r) = (cs, r)"
    by auto
  have "char_classes (e # (?a # t) @ r) = ((if etype e = LLAMA_GRETYPE_CHAR_ANY then AnyChar else Single (evalue e)) # cs, r)
      \<and> char_classes (e # mk_elem LLAMA_GRETYPE_CHAR_RNG_UPPER u # (?a # t) @ r) = (Range (evalue e) u # cs, r)"
    if "class_free r" for r
    using cs [OF that]
    by (simp add: char_classes.simps [of "e # _"] first_class_def starts_alt_def)
  then show ?case by blast
next
  case (class_tail_range t v u')
  let ?a = "mk_elem LLAMA_GRETYPE_CHAR_ALT v" and ?u = "mk_elem LLAMA_GRETYPE_CHAR_RNG_UPPER u'"
  from class_tail_range.IH [of ?a u'] obtain cs where
    cs: "\<And>r. class_free r \<Longrightarrow> char_classes (?a # ?u # t @ r) = (cs, r)" by auto
  have "char_classes (e # (?a # ?u # t) @ r) = ((if etype e = LLAMA_GRETYPE_CHAR_ANY then AnyChar else Single (evalue e)) # cs, r)
      \<and> char_classes (e # mk_elem LLAMA_GRETYPE_CHAR_RNG_UPPER u # (?a # ?u # t) @ r) = (Range (evalue e) u # cs, r)"
    if "class_free r" for r
    using cs [OF that]
    by (simp add: char_classes.simps [of "e # _"] first_class_def starts_alt_def)
  then show ?case by blast
qed

lemma items_class_free: "seq_items n s \<Longrightarrow> class_free r \<Longrightarrow> class_free (s @ r)"
  by (induction rule: seq_items.induct) (auto simp: class_free_def)

lemma end_class_free [simp]: "class_free [end_elem]"
  by (simp add: class_free_def)

lemma seq_syms_items: "seq_items n s \<Longrightarrow> class_free r \<Longrightarrow> seq_syms (s @ r) = syms s @ seq_syms r"
proof (induction rule: seq_items.induct)
  case items_nil
  then show ?case by (simp add: syms_def is_end_type_def)
next
  case (items_ref v s)
  then show ?case by (simp add: syms_def is_end_type_def)
next
  case (items_any s)
  from class_tail_classes_indep [OF class_tail_nil, of "mk_elem LLAMA_GRETYPE_CHAR_ANY 0" 0]
  obtain cs where "\<And>r. class_free r \<Longrightarrow> char_classes (mk_elem LLAMA_GRETYPE_CHAR_ANY 0 # r) = (cs, r)" by auto
  with items_any items_class_free show ?case
    by (simp add: syms_def is_end_type_def is_char_start_def)
next
  case (items_char t c s v)
  from class_tail_classes_indep [OF items_char(2), of "mk_elem t v" 0] items_char(1)
  obtain cs where "\<And>r. class_free r \<Longrightarrow> char_classes (mk_elem t v # c @ r) = (cs, r)" by auto
  with items_char items_class_free show ?case
    by (auto simp: syms_def is_end_type_def is_char_start_def)
next
  case (items_range t c s v u)
  from class_tail_classes_indep [OF items_range(2), of "mk_elem t v" u] items_range(1)
  obtain cs where "\<And>r. class_free r \<Longrightarrow>
    char_classes (mk_elem t v # mk_elem LLAMA_GRETYPE_CHAR_RNG_UPPER u # c @ r) = (cs, r)" by auto
  with items_range items_class_free show ?case
    by (auto simp: syms_def is_end_type_def is_char_start_def)
qed

lemma syms_append: "seq_items n a \<Longrightarrow> seq_items n b \<Longrightarrow> syms (a @ b) = syms a @ syms b"
  using seq_syms_items [of n a "b @ [end_elem]"] items_class_free [of n b "[end_elem]"]
  by (simp add: syms_def)

lemma syms_simps [simp]: "syms [] = []" "syms [mk_elem LLAMA_GRETYPE_RULE_REF v] = [NonTerm (unat v)]"
  by (simp_all add: syms_def is_end_type_def)

lemma syms_repeat: "seq_items n s \<Longrightarrow> syms (concat (replicate j s)) = concat (replicate j (syms s))"
proof (induction j)
  case (Suc j)
  have "seq_items n (concat (replicate j s))" using Suc.prems by (intro seq_items_concat) auto
  with Suc show ?case by (simp add: syms_append)
qed simp

lemma class_tail_no_alt: "class_tail c \<Longrightarrow> e \<in> set c \<Longrightarrow> \<not> is_end_type (etype e)"
  by (induction rule: class_tail.induct) (auto simp: is_end_type_def)

lemma seq_items_no_alt: "seq_items n s \<Longrightarrow> e \<in> set s \<Longrightarrow> \<not> is_end_type (etype e)"
  by (induction rule: seq_items.induct) (auto simp: is_end_type_def dest: class_tail_no_alt)

lemma alt_syms_optional:
  assumes "seq_items n s"
  shows "alt_syms (s @ [mk_elem LLAMA_GRETYPE_ALT 0, end_elem]) = [syms s, []]"
proof -
  have "dropWhile (\<lambda>e. \<not> is_end_type (etype e)) (s @ [mk_elem LLAMA_GRETYPE_ALT 0, end_elem])
      = [mk_elem LLAMA_GRETYPE_ALT 0, end_elem]"
    using seq_items_no_alt [OF assms] by (subst dropWhile_append2) (auto simp: is_end_type_def)
  moreover have "seq_syms (s @ [mk_elem LLAMA_GRETYPE_ALT 0, end_elem]) = syms s"
    using seq_syms_items [OF assms, of "[mk_elem LLAMA_GRETYPE_ALT 0, end_elem]"]
    by (simp add: class_free_def is_end_type_def)
  ultimately show ?thesis
    by (simp add: alt_syms.simps [of "s @ _"] alt_syms.simps [of "[end_elem]"] is_end_type_def)
qed

section \<open>Languages of repetitions\<close>

definition power_lang :: "(nat \<Rightarrow> gsym list list) \<Rightarrow> gsym list \<Rightarrow> nat \<Rightarrow> u32 list \<Rightarrow> bool" where
  "power_lang G S j w \<longleftrightarrow> lang G (concat (replicate j S)) w"

lemma power_lang_simps [simp]: "power_lang G S 0 w \<longleftrightarrow> w = []"
  "power_lang G S (Suc j) w \<longleftrightarrow> (\<exists>u v. w = u @ v \<and> lang G S u \<and> power_lang G S j v)"
  by (simp_all add: power_lang_def lang_append_iff)

lemma power_lang_add:
  "power_lang G S (i + j) w \<longleftrightarrow> (\<exists>u v. w = u @ v \<and> power_lang G S i u \<and> power_lang G S j v)"
  by (simp add: power_lang_def replicate_add lang_append_iff)

lemma star_rule_sound:
  assumes "G x = [S @ [NonTerm x], []]"
  shows "lang G t w \<Longrightarrow> t = p @ [NonTerm x] \<Longrightarrow> \<exists>j. lang G (p @ concat (replicate j S)) w"
proof (induction arbitrary: p rule: lang.induct)
  case lang_nil
  then show ?case by simp
next
  case (lang_term b cs c s w)
  then obtain p' where p: "p = Term b cs # p'" "s = p' @ [NonTerm x]" by (cases p) auto
  with lang_term show ?case by (auto intro: lang.lang_term)
next
  case (lang_nt a y u s v)
  show ?case
  proof (cases p)
    case Nil
    with lang_nt have xy: "y = x" "s = []" "v = []" by auto
    with lang_nt(1) assms consider "a = S @ [NonTerm x]" | "a = []" by auto
    then show ?thesis
    proof cases
      case 1
      with lang_nt.IH(1) [of S] obtain j where "lang G (S @ concat (replicate j S)) u" by auto
      with Nil xy show ?thesis by (intro exI [of _ "Suc j"]) simp
    next
      case 2
      with lang_nt Nil xy show ?thesis by (intro exI [of _ 0]) simp
    qed
  next
    case (Cons q p')
    with lang_nt have "q = NonTerm y" "s = p' @ [NonTerm x]" by auto
    with lang_nt.IH(2) [of p'] lang_nt(1,2) Cons show ?thesis by (auto intro: lang.lang_nt)
  qed
qed

lemma star_rule_lang:
  assumes "G x = [S @ [NonTerm x], []]"
  shows "lang G [NonTerm x] w \<longleftrightarrow> (\<exists>j. power_lang G S j w)"
proof
  assume "lang G [NonTerm x] w"
  from star_rule_sound [OF assms this, of "[]"] show "\<exists>j. power_lang G S j w" by (simp add: power_lang_def)
next
  have "power_lang G S j w \<Longrightarrow> lang G [NonTerm x] w" for j w
  proof (induction j arbitrary: w)
    case (Suc j)
    then obtain u v where "w = u @ v" "lang G S u" "lang G [NonTerm x] v" by auto
    then have "lang G (S @ [NonTerm x]) w" by (auto simp: lang_append_iff)
    with assms show ?case by (subst lang_nt_iff) simp
  qed (use assms in \<open>simp add: lang_nt_iff\<close>)
  then show "\<exists>j. power_lang G S j w \<Longrightarrow> lang G [NonTerm x] w" by blast
qed

lemma chain_rule_lang:
  assumes "\<And>i. i < j \<Longrightarrow> G (n + i) = [S @ (if i = 0 then [] else [NonTerm (n + i - 1)]), []]" and "i < j"
  shows "lang G [NonTerm (n + i)] w \<longleftrightarrow> (\<exists>t\<le>Suc i. power_lang G S t w)"
  using assms(2)
proof (induction i arbitrary: w)
  case 0
  with assms(1) [of 0] show ?case by (auto simp: lang_nt_iff le_Suc_eq)
next
  case (Suc i)
  then have IH: "lang G [NonTerm (n + i)] v \<longleftrightarrow> (\<exists>t\<le>Suc i. power_lang G S t v)" for v by simp
  have "lang G [NonTerm (n + Suc i)] w \<longleftrightarrow> lang G (S @ [NonTerm (n + i)]) w \<or> w = []"
    using assms(1) [OF Suc.prems] by (simp add: lang_nt_iff)
  also have "\<dots> \<longleftrightarrow> (\<exists>t\<le>Suc i. power_lang G S (Suc t) w) \<or> power_lang G S 0 w"
    by (auto simp: lang_append_iff IH)
  also have "\<dots> \<longleftrightarrow> (\<exists>t\<le>Suc (Suc i). power_lang G S t w)"
    by (metis Suc_le_mono not0_implies_Suc zero_le)
  finally show ?case .
qed

section \<open>\<open>handle_repetitions\<close>\<close>

text \<open>The rules \<open>handle_repetitions\<close> generates.\<close>

definition rec_refs :: "nat \<Rightarrow> int \<Rightarrow> nat \<Rightarrow> grammar_rule" where
  "rec_refs n k i = (if k < 0 then [mk_elem LLAMA_GRETYPE_RULE_REF (of_nat (n + i))]
     else if i > 0 then [mk_elem LLAMA_GRETYPE_RULE_REF (of_nat (n + i - 1))] else [])"

definition rec_rule_at :: "grammar_rule \<Rightarrow> nat \<Rightarrow> int \<Rightarrow> nat \<Rightarrow> grammar_rule" where
  "rec_rule_at s n k i = s @ rec_refs n k i @ [mk_elem LLAMA_GRETYPE_ALT 0, end_elem]"

lemma rec_rule_rounds_rules:
  assumes "fold (rec_rule_round name s k) [0..<j] (st, 0) = (st', id')"
    and ok: "state_ok st" and s: "few_symbols st \<Longrightarrow> seq_items (n_symbols st) s" and few: "few_symbols st'"
  shows "n_symbols st' = n_symbols st + j \<and> (j > 0 \<longrightarrow> id' = of_nat (n_symbols st + j - 1))
    \<and> (\<forall>i<j. n_symbols st + i < length (prules st') \<and> prules st' ! (n_symbols st + i) = rec_rule_at s (n_symbols st) k i)"
  using assms(1) few
proof (induction j arbitrary: st' id')
  case (Suc j)
  obtain st1 id1 where rounds: "fold (rec_rule_round name s k) [0..<j] (st, 0) = (st1, id1)"
    by (cases "fold (rec_rule_round name s k) [0..<j] (st, 0)")
  from rec_rule_rounds_step [OF rounds ok s] have step: "ok_step st st1" by simp
  then have ok1: "state_ok st1" using ok by (simp add: ok_step_def)
  obtain st2 id2 where gen: "generate_symbol_id st1 name = (st2, id2)" by (cases "generate_symbol_id st1 name")
  note g = generate_symbol_id_step [OF gen]
  let ?rule = "s @ (if j > 0 \<or> k < 0 then [mk_elem LLAMA_GRETYPE_RULE_REF (if k < 0 then id2 else id1)] else [])
     @ [mk_elem LLAMA_GRETYPE_ALT 0, end_elem]"
  have st': "st' = add_rule st2 id2 ?rule" "id' = id2"
  proof -
    have "rec_rule_round name s k j (st1, id1) = (st', id')" using Suc.prems(1) rounds by simp
    with gen show "st' = add_rule st2 id2 ?rule" "id' = id2" by (auto simp: rec_rule_round_def Let_def)
  qed
  have few2: "few_symbols st2" using Suc.prems(2) by (simp add: st' few_symbols_def)
  then have few1: "few_symbols st1" using few_symbols_step g(1) by blast
  note IH = Suc.IH [OF rounds few1]
  have n2: "n_symbols st2 = Suc (n_symbols st + j)" using g(4) [OF ok1 few2] IH by simp
  have id2: "id2 = of_nat (n_symbols st + j)" using g(3) IH by simp
  with few2 n2 have un: "unat id2 = n_symbols st + j" "unat id2 < 2 ^ 32 - 1"
    by (simp_all add: few_symbols_def unat_of_nat del: of_nat_add)
  note add = add_rule_rules [OF un(2)]
  have "?rule = rec_rule_at s (n_symbols st) k j"
    using IH id2 by (auto simp: rec_rule_at_def rec_refs_def)
  moreover have "n_symbols st + i < length (prules st') \<and> prules st' ! (n_symbols st + i) =
      (if i = j then ?rule else rec_rule_at s (n_symbols st) k i)" if "i < Suc j" for i
    using that IH g(2) un(1) by (auto simp: st' add)
  ultimately show ?case using n2 id2 by (auto simp: st')
qed simp

lemma shift_bounds:
  fixes m n :: int
  assumes "0 \<le> m"
  shows "(\<exists>t. (n < 0 \<or> int t \<le> n - m) \<and> P (nat m + t)) \<longleftrightarrow> (\<exists>j. m \<le> int j \<and> (n < 0 \<or> int j \<le> n) \<and> P j)"
proof
  assume "\<exists>t. (n < 0 \<or> int t \<le> n - m) \<and> P (nat m + t)"
  then obtain t where "n < 0 \<or> int t \<le> n - m" "P (nat m + t)" by blast
  with assms show "\<exists>j. m \<le> int j \<and> (n < 0 \<or> int j \<le> n) \<and> P j"
    by (intro exI [of _ "nat m + t"]) auto
next
  assume "\<exists>j. m \<le> int j \<and> (n < 0 \<or> int j \<le> n) \<and> P j"
  then obtain j where "m \<le> int j" "n < 0 \<or> int j \<le> n" "P j" by blast
  with assms show "\<exists>t. (n < 0 \<or> int t \<le> n - m) \<and> P (nat m + t)"
    by (intro exI [of _ "j - nat m"]) (auto simp: nat_le_iff)
qed

text \<open>The last generated rule derives up to \<open>n - m\<close> copies (any number, for \<open>S{m,}\<close>).\<close>

lemma rec_refs_lang:
  fixes n m :: int and N :: nat
  defines "k \<equiv> nat (if n < 0 then 1 else n - m)"
  assumes G: "\<And>i. i < k \<Longrightarrow> G (N + i) = [S @ syms (rec_refs N n i), []]"
    and un: "\<And>j. j < N + k \<Longrightarrow> unat (of_nat j :: u32) = j" and mn: "n < 0 \<or> m \<le> n"
  shows "lang G (if k > 0 then [NonTerm (N + k - 1)] else []) v \<longleftrightarrow>
    (\<exists>t. (n < 0 \<or> int t \<le> n - m) \<and> power_lang G S t v)"
proof (cases "n < 0")
  case True
  then have k: "k = 1" by (simp add: k_def)
  have "G N = [S @ [NonTerm N], []]"
    using G [of 0] k True un [of N] by (simp add: rec_refs_def)
  from star_rule_lang [of G N S, OF this] k True show ?thesis by simp
next
  case bounded: False
  show ?thesis
  proof (cases "k > 0")
    case True
    have "G (N + i) = [S @ (if i = 0 then [] else [NonTerm (N + i - 1)]), []]" if "i < k" for i
      using G [OF that] bounded that un [of "N + i - 1"] by (auto simp: rec_refs_def)
    from chain_rule_lang [of k G N S "k - 1" v, OF this] True
    have "lang G [NonTerm (N + k - 1)] v \<longleftrightarrow> (\<exists>t\<le>k. power_lang G S t v)" by simp
    moreover have "t \<le> k \<longleftrightarrow> int t \<le> n - m" for t using bounded True by (auto simp: k_def)
    ultimately show ?thesis using True bounded by simp
  next
    case False
    with bounded mn have "n = m" by (auto simp: k_def)
    with False bounded show ?thesis by auto
  qed
qed

text \<open>
  C9: \<open>S{m,n}\<close>, \<open>S{m,}\<close>, \<open>S*\<close>, \<open>S+\<close> and \<open>S?\<close> mean what they say. If \<open>handle_repetitions\<close> rewrites the
  elements \<open>s\<close> of the last item into \<open>s'\<close> then in every grammar that has the rules it generated, \<open>s'\<close>
  derives exactly the \<open>j\<close>-fold repetitions of \<open>s\<close> for \<open>j\<close> from \<open>m\<close> to \<open>n\<close> (from \<open>m\<close> on, without an upper
  bound).
\<close>

theorem repetition_language:
  assumes rep: "handle_repetitions name (length p) st (p @ s) m n = Inr (st', out)"
    and ok: "state_ok st" and few: "few_symbols st'" and s: "seq_items (n_symbols st) s"
    and mn: "0 \<le> m" "n < 0 \<or> m \<le> n"
    and R: "\<And>i. n_symbols st \<le> i \<Longrightarrow> i < n_symbols st' \<Longrightarrow> i < length R \<and> R ! i = prules st' ! i"
  shows "\<exists>s'. out = p @ s' \<and> (\<forall>w. lang (rule_prods R) (syms s') w \<longleftrightarrow>
    (\<exists>j. m \<le> int j \<and> (n < 0 \<or> int j \<le> n) \<and> power_lang (rule_prods R) (syms s) j w))"
proof -
  let ?k = "nat (if n < 0 then 1 else n - m)" and ?G = "rule_prods R" and ?N = "n_symbols st"
  obtain st1 id1 where rounds: "fold (rec_rule_round name s n) [0..<?k] (st, 0) = (st1, id1)"
    by (cases "fold (rec_rule_round name s n) [0..<?k] (st, 0)")
  define s' where "s' = concat (replicate (nat m) s) @ (if ?k > 0 then [mk_elem LLAMA_GRETYPE_RULE_REF id1] else [])"
  have "out = p @ s'" and st1: "st1 = st'"
  proof -
    have "concat (replicate (nat m) s) = (if m = 0 then [] else s @ concat (replicate (nat (m - 1)) s))"
      using mn(1) by (cases "nat m") (auto simp: nat_diff_distrib)
    then show "out = p @ s'" "st1 = st'" using rep rounds
      by (auto simp: handle_repetitions_def Let_def s'_def split: if_splits)
  qed
  from rec_rule_rounds_rules [OF rounds ok] s few
  have n': "n_symbols st' = ?N + ?k" and id1: "?k > 0 \<Longrightarrow> id1 = of_nat (?N + ?k - 1)"
    and rules: "\<And>i. i < ?k \<Longrightarrow> prules st' ! (?N + i) = rec_rule_at s ?N n i" by (auto simp: st1)
  have un: "unat (of_nat j :: u32) = j" if "j < ?N + ?k" for j
    using that few n' by (simp add: few_symbols_def unat_of_nat)
  have items: "seq_items (?N + ?k) (s @ rec_refs ?N n i)" if "i < ?k" for i
    using that s un [of "?N + i"] un [of "?N + i - 1"]
    by (intro seq_items_append) (auto simp: rec_refs_def intro: seq_items_mono seq_items_ref items_nil)
  have G: "?G (?N + i) = [syms s @ syms (rec_refs ?N n i), []]" if "i < ?k" for i
  proof -
    have R: "?N + i < length R" "R ! (?N + i) = rec_rule_at s ?N n i"
      using R [of "?N + i"] that n' rules [OF that] by auto
    have "seq_items (?N + ?k) s" "seq_items (?N + ?k) (rec_refs ?N n i)"
      using that s un [of "?N + i"] un [of "?N + i - 1"]
      by (auto simp: rec_refs_def intro: seq_items_mono seq_items_ref items_nil)
    from syms_append [OF this] alt_syms_optional [OF items [OF that]] R show ?thesis
      by (simp add: rule_prods_def rec_rule_at_def)
  qed
  note last = rec_refs_lang [where G = ?G and S = "syms s" and N = ?N and n = n and m = m, OF G un mn(2)]
  have "seq_items (?N + ?k) (concat (replicate (nat m) s))"
    using s by (auto intro!: seq_items_concat intro: seq_items_mono)
  moreover have "seq_items (?N + ?k) (if ?k > 0 then [mk_elem LLAMA_GRETYPE_RULE_REF id1] else [])"
    using id1 un [of "?N + ?k - 1"] by (auto intro: items_nil seq_items_ref)
  moreover have "syms (if ?k > 0 then [mk_elem LLAMA_GRETYPE_RULE_REF id1] else []) =
      (if ?k > 0 then [NonTerm (?N + ?k - 1)] else [])"
  proof (cases "?k > 0")
    case True
    then have "unat id1 = ?N + ?k - 1" unfolding id1 [OF True] by (intro un) linarith
    with True show ?thesis by (simp only: if_True syms_simps)
  qed simp
  ultimately have "syms s' = concat (replicate (nat m) (syms s)) @ (if ?k > 0 then [NonTerm (?N + ?k - 1)] else [])"
    unfolding s'_def by (simp only: syms_append syms_repeat [OF s])
  then have "lang ?G (syms s') w \<longleftrightarrow> (\<exists>u v. w = u @ v \<and> power_lang ?G (syms s) (nat m) u \<and>
      (\<exists>t. (n < 0 \<or> int t \<le> n - m) \<and> power_lang ?G (syms s) t v))" for w
    by (simp only: lang_append_iff last power_lang_def)
  then have "lang ?G (syms s') w \<longleftrightarrow> (\<exists>t. (n < 0 \<or> int t \<le> n - m) \<and> power_lang ?G (syms s) (nat m + t) w)" for w
    unfolding power_lang_add by blast
  then have "lang ?G (syms s') w \<longleftrightarrow> (\<exists>j. m \<le> int j \<and> (n < 0 \<or> int j \<le> n) \<and> power_lang ?G (syms s) j w)" for w
    using shift_bounds [OF mn(1), where P = "\<lambda>j. power_lang ?G (syms s) j w" and n = n] by simp
  with \<open>out = p @ s'\<close> show ?thesis by (intro exI [of _ s']) simp
qed

text \<open>\<open>"ab"{1,2}\<close> in an empty state: one copy, and a reference to the generated optional rule.\<close>

lemma repetition_language_witness:
  fixes ab :: grammar_rule and st' :: parse_state
  defines "ab \<equiv> [mk_elem LLAMA_GRETYPE_CHAR 97, mk_elem LLAMA_GRETYPE_CHAR 98]"
    and "st' \<equiv> \<lparr>symbol_ids = [(bytes ''r_0'', 0)],
      prules = [[mk_elem LLAMA_GRETYPE_CHAR 97, mk_elem LLAMA_GRETYPE_CHAR 98, mk_elem LLAMA_GRETYPE_ALT 0, end_elem]]\<rparr>"
  shows "\<exists>s'. ab @ [mk_elem LLAMA_GRETYPE_RULE_REF 0] = [] @ s' \<and>
    (\<forall>w. lang (rule_prods (prules st')) (syms s') w \<longleftrightarrow>
      (\<exists>j. 1 \<le> int j \<and> (2 < (0 :: int) \<or> int j \<le> 2) \<and> power_lang (rule_prods (prules st')) (syms ab) j w))"
proof (rule repetition_language [where name = "bytes ''r''" and st = empty_parse_state])
  show "handle_repetitions (bytes ''r'') (length []) empty_parse_state ([] @ ab) 1 2
      = Inr (st', ab @ [mk_elem LLAMA_GRETYPE_RULE_REF 0])"
    unfolding ab_def st'_def by code_simp
  show "seq_items (n_symbols empty_parse_state) ab"
    unfolding ab_def using seq_items_append [OF seq_items_single(1) seq_items_single(1)] by simp
  show "state_ok empty_parse_state" by (rule empty_state_ok)
qed (simp_all add: few_symbols_def st'_def empty_parse_state_def)

text \<open>The rules of \<open>[a]+\<close> and of \<open>[a]{3}\<close>.\<close>

definition one_or_more :: parse_state where
  "one_or_more = \<lparr>symbol_ids = [(bytes ''root'', 0), (bytes ''root_1'', 1)],
     prules = [[mk_elem LLAMA_GRETYPE_CHAR 97, mk_elem LLAMA_GRETYPE_RULE_REF 1, end_elem],
       [mk_elem LLAMA_GRETYPE_CHAR 97, mk_elem LLAMA_GRETYPE_RULE_REF 1, mk_elem LLAMA_GRETYPE_ALT 0, end_elem]]\<rparr>"

definition three_times :: parse_state where
  "three_times = \<lparr>symbol_ids = [(bytes ''root'', 0)],
     prules = [[mk_elem LLAMA_GRETYPE_CHAR 97, mk_elem LLAMA_GRETYPE_CHAR 97, mk_elem LLAMA_GRETYPE_CHAR 97, end_elem]]\<rparr>"

lemma parse_plus: "gp_parse (bytes ''root ::= [a]+'') = Inr one_or_more"
  by code_simp

lemma parse_huge: "gp_parse (bytes ''root ::= [a]{4294967295}'') = Inr one_or_more"
  by code_simp

lemma parse_three: "gp_parse (bytes ''root ::= [a]{3}'') = Inr three_times"
  by code_simp

lemma parse_three_two: "gp_parse (bytes ''root ::= [a]{3,2}'') = Inr three_times"
  by code_simp

text \<open>
  The bounds of a repetition are not checked. \<open>[a]{3,2}\<close>, an empty range, parses as \<open>[a]{3}\<close>;
  and the conversion of \<open>std::stoul\<close>'s result to \<open>int\<close> makes \<open>[a]{4294967295}\<close> the same grammar as \<open>[a]+\<close>.
\<close>

theorem repetition_bounds_unchecked:
  "gp_parse (bytes ''root ::= [a]{3,2}'') = gp_parse (bytes ''root ::= [a]{3}'')
   \<and> gp_parse (bytes ''root ::= [a]{4294967295}'') = gp_parse (bytes ''root ::= [a]+'')
   \<and> gp_parse (bytes ''root ::= [a]{3}'') \<noteq> Inr empty_parse_state"
  by (simp add: parse_plus parse_huge parse_three parse_three_two three_times_def empty_parse_state_def)

end
