(* ===== verification/GrammarPrint.thy ===== *)
theory GrammarPrint
  imports GrammarParserRules
begin

text \<open>
  The grammar printer on parsed grammars: it never meets a malformed rule, but closes a bracket
  behind \<open>.\<close> that it has not opened.
\<close>

section \<open>A parsed grammar prints\<close>

text \<open>A range bound or an alternative character follows a character element.\<close>

fun linked :: "bool \<Rightarrow> grammar_rule \<Rightarrow> bool" where
  "linked after_char [] \<longleftrightarrow> True"
| "linked after_char (e # r) \<longleftrightarrow>
    (etype e = LLAMA_GRETYPE_CHAR_ALT \<or> etype e = LLAMA_GRETYPE_CHAR_RNG_UPPER \<longrightarrow> after_char)
    \<and> linked (is_char_element e) r"

lemma linked_weaken: "linked False r \<Longrightarrow> linked b r"
  by (cases r) auto

lemma is_char_element_simps [simp]:
  "is_char_element (mk_elem LLAMA_GRETYPE_CHAR v)" "is_char_element (mk_elem LLAMA_GRETYPE_CHAR_NOT v)"
  "is_char_element (mk_elem LLAMA_GRETYPE_CHAR_ALT v)" "is_char_element (mk_elem LLAMA_GRETYPE_CHAR_RNG_UPPER v)"
  "is_char_element (mk_elem LLAMA_GRETYPE_CHAR_ANY v)" "\<not> is_char_element (mk_elem LLAMA_GRETYPE_RULE_REF v)"
  "\<not> is_char_element (mk_elem LLAMA_GRETYPE_ALT v)" "\<not> is_char_element (mk_elem LLAMA_GRETYPE_END v)"
  by (simp_all add: is_char_element_def)

lemma class_tail_linked: "class_tail c \<Longrightarrow> linked False r \<Longrightarrow> linked True (c @ r)"
  by (induction rule: class_tail.induct) (auto intro: linked_weaken)

lemma seq_items_linked: "seq_items n s \<Longrightarrow> linked False r \<Longrightarrow> linked False (s @ r)"
  by (induction rule: seq_items.induct) (auto intro: linked_weaken class_tail_linked)

lemma open_rule_linked: "open_rule n q \<Longrightarrow> linked False r \<Longrightarrow> linked False (q @ r)"
proof (induction arbitrary: r rule: open_rule.induct)
  case (open_alt q s)
  then have "linked False (mk_elem LLAMA_GRETYPE_ALT 0 # s @ r)" by (simp add: seq_items_linked)
  from open_alt.IH [OF this] show ?case by simp
qed (rule seq_items_linked)

lemma linked_nth:
  "linked b r \<Longrightarrow> i < length r \<Longrightarrow> etype (r ! i) = LLAMA_GRETYPE_CHAR_ALT \<or> etype (r ! i) = LLAMA_GRETYPE_CHAR_RNG_UPPER \<Longrightarrow>
   (if i = 0 then b else is_char_element (r ! (i - 1)))"
proof (induction r arbitrary: b i)
  case (Cons e r)
  show ?case
  proof (cases i)
    case 0
    with Cons.prems show ?thesis by auto
  next
    case (Suc j)
    with Cons.prems Cons.IH [of "is_char_element e" j] show ?thesis by (cases j) auto
  qed
qed simp

lemma map_of_names: "map_of (fold (\<lambda>kv. AList.update (snd kv) (fst kv)) ids acc) i = None \<longleftrightarrow>
    map_of acc i = None \<and> i \<notin> snd ` set ids"
  by (induction ids arbitrary: acc) (auto simp: update_conv')

lemma print_name_ok:
  assumes "ids_ok st" "unat i < n_symbols st"
  shows "snd (print_name (symbol_id_names st) i) = None"
proof -
  from assms have "map snd (symbol_ids st) ! unat i = of_nat (unat i)" by (simp add: ids_ok_def)
  then have "snd (symbol_ids st ! unat i) = i" using assms(2) by simp
  then have "i \<in> snd ` set (symbol_ids st)" using assms(2) by (metis image_eqI nth_mem)
  then have "map_of (symbol_id_names st) i \<noteq> None"
    unfolding symbol_id_names_def using map_of_names [of "symbol_ids st" "[]" i] by blast
  then show ?thesis by (auto simp: print_name_def split: option.splits)
qed

lemma then_print_ok [simp]: "snd (then_print a b) = None \<longleftrightarrow> snd a = None \<and> snd b = None"
  by (auto simp: then_print_def split: option.splits)

lemma foldl_then_print_ok:
  "snd (foldl then_print a ps) = None \<longleftrightarrow> snd a = None \<and> (\<forall>p\<in>set ps. snd p = None)"
  by (induction ps arbitrary: a) auto

lemma print_char_ok [simp]: "snd (print_grammar_char c) = None" "snd (written s) = None"
  by (simp_all add: print_grammar_char_def written_def)

lemma print_elem_ok:
  assumes "etype (rule ! i) \<noteq> LLAMA_GRETYPE_END"
    and "etype (rule ! i) = LLAMA_GRETYPE_RULE_REF \<Longrightarrow> snd (print_name names (evalue (rule ! i))) = None"
    and "etype (rule ! i) = LLAMA_GRETYPE_CHAR_ALT \<or> etype (rule ! i) = LLAMA_GRETYPE_CHAR_RNG_UPPER \<Longrightarrow>
      prev_is_char rule i"
  shows "snd (print_elem names rule i) = None"
  using assms by (auto simp: print_elem_def Let_def split: gretype.splits)

lemma print_rule_ok:
  assumes "ids_ok st" "closed_rule (n_symbols st) rule" "i < n_symbols st" "few_symbols st"
  shows "snd (print_rule (symbol_id_names st) i rule) = None"
proof -
  from assms(2) obtain q where q: "open_rule (n_symbols st) q" and rule: "rule = q @ [mk_elem LLAMA_GRETYPE_END 0]"
    by (auto simp: closed_rule_def)
  have linked: "linked False rule" unfolding rule using q by (rule open_rule_linked) simp
  have "snd (print_elem (symbol_id_names st) rule j) = None" if j: "j < length q" for j
  proof (rule print_elem_ok)
    have mem: "rule ! j \<in> set q" using j by (simp add: rule nth_append)
    then show "etype (rule ! j) \<noteq> LLAMA_GRETYPE_END" using open_rule_no_end q by blast
    show "snd (print_name (symbol_id_names st) (evalue (rule ! j))) = None"
      if "etype (rule ! j) = LLAMA_GRETYPE_RULE_REF"
      using print_name_ok [OF assms(1)] open_rule_refs [OF q mem that] by blast
    show "prev_is_char rule j"
      if "etype (rule ! j) = LLAMA_GRETYPE_CHAR_ALT \<or> etype (rule ! j) = LLAMA_GRETYPE_CHAR_RNG_UPPER"
      using linked_nth [OF linked _ that] j by (auto simp: prev_is_char_def rule split: if_splits)
  qed
  moreover have "unat (of_nat i :: u32) < n_symbols st"
    using assms(3,4) by (simp add: few_symbols_def unat_of_nat)
  ultimately show ?thesis
    using print_name_ok [OF assms(1)] by (auto simp: print_rule_def rule foldl_then_print_ok)
qed

text \<open>
  \<open>print_grammar\<close> prints every parsed grammar to the end: no rule is malformed, and every
  identifier has a name.
\<close>

theorem parsed_grammar_prints:
  assumes "gp_parse src = Inr st" and "n_symbols st < 2 ^ 32"
  shows "snd (print_grammar st) = None"
proof -
  note ok = gp_parse_ok [OF assms]
  then have "snd (print_rule (symbol_id_names st) i (prules st ! i)) = None" if "i < length (prules st)" for i
    using that assms(2) by (intro print_rule_ok) (auto simp: rules_ok_def few_symbols_def)
  then show ?thesis by (auto simp: print_grammar_def foldl_then_print_ok)
qed

lemma parsed_grammar_prints_witness: "snd (print_grammar sample_state) = None"
  by (rule parsed_grammar_prints [OF sample_parse]) (simp add: sample_state_def)

text \<open>
  The printer closes a bracket it has not opened: the rule \<open>root ::= .\<close> is printed as
  \<open>root ::= .]\<close>, which does not parse back.
\<close>

theorem printed_any_char:
  "\<exists>st. gp_parse (bytes ''root ::= .'') = Inr st
    \<and> print_grammar st = (bytes ''root ::= .] '' @ [10], None)
    \<and> gp_parse (fst (print_grammar st)) = Inr empty_parse_state"
  by (rule exI [of _ "\<lparr>symbol_ids = [(bytes ''root'', 0)],
     prules = [[mk_elem LLAMA_GRETYPE_CHAR_ANY 0, mk_elem LLAMA_GRETYPE_END 0]]\<rparr>"]) code_simp

end
