(* ===== verification/KvCache.thy ===== *)
theory KvCache
  imports Prelude
begin

text \<open>
  The metadata of the KV cache of \<open>src/src/llama.cpp\<close>: the cells, the search for a slot, and the
  operations on sequences. Tensors and backend buffers are not modelled. Sizes and indices, below
  \<open>2^32\<close>, are natural numbers, the counter \<open>used\<close>, which the code decrements unchecked, a 32-bit word;
  positions are 32-bit integers, whose overflow (undefined in C++) is an error.
\<close>

section \<open>State\<close>

record kv_cell =
  cpos :: int
  cdelta :: int
  csrc :: int
  cseq :: "int set"

definition new_cell :: kv_cell where
  "new_cell = \<lparr>cpos = -1, cdelta = 0, csrc = 0, cseq = {}\<rparr>"

definition has_seq_id :: "kv_cell \<Rightarrow> int \<Rightarrow> bool" where
  "has_seq_id cell i \<longleftrightarrow> i \<in> cseq cell"

definition is_empty :: "kv_cell \<Rightarrow> bool" where
  "is_empty cell \<longleftrightarrow> cseq cell = {}"

record kv_cache =
  has_shift :: bool
  do_defrag :: bool
  do_copy :: bool
  recurrent :: bool
  khead :: nat
  ksize :: nat
  kused :: u32
  kn :: u32
  kcells :: "kv_cell list"

text \<open>The part of a \<open>llama_batch\<close> the cache reads: position and sequence ids of each token.\<close>

record kv_batch =
  bpos :: "int list"
  bseq :: "int list list"

abbreviation n_tokens :: "kv_batch \<Rightarrow> nat" where
  "n_tokens batch \<equiv> length (bpos batch)"

definition pos_max :: int where
  "pos_max = 2 ^ 31 - 1"

definition add_i32 :: "int \<Rightarrow> int \<Rightarrow> int res" where
  "add_i32 a b = (if - (2 ^ 31) \<le> a + b \<and> a + b < 2 ^ 31 then Inr (a + b)
     else Inl (UndefinedBehaviour ''signed overflow''))"

text \<open>The cache part of \<open>llama_kv_cache_init\<close>.\<close>

definition llama_kv_cache_init :: "bool \<Rightarrow> nat \<Rightarrow> kv_cache" where
  "llama_kv_cache_init is_recurrent kv_size =
    \<lparr>has_shift = False, do_defrag = False, do_copy = False, recurrent = is_recurrent,
     khead = 0, ksize = kv_size, kused = 0, kn = 0,
     kcells = map (\<lambda>i. if is_recurrent then new_cell\<lparr>csrc := int i\<rparr> else new_cell) [0..<kv_size]\<rparr>"

section \<open>Finding a slot\<close>

text \<open>Recurrent models: one cell per sequence. \<open>(uint32_t) seq_id < size\<close> also rejects negative ids.\<close>

definition valid_seq :: "nat \<Rightarrow> int \<Rightarrow> bool" where
  "valid_seq sz s \<longleftrightarrow> 0 \<le> s \<and> s < int sz"

definition recurrent_token :: "nat \<Rightarrow> int \<Rightarrow> int \<Rightarrow> bool \<times> kv_cell list \<times> u32 \<times> int \<times> int \<Rightarrow>
    bool \<times> kv_cell list \<times> u32 \<times> int \<times> int" where
  "recurrent_token sz pos seq_id acc =
    (case acc of (ok, cells, used, lo, hi) \<Rightarrow>
       if \<not> ok then acc
       else if valid_seq sz seq_id then
         let cell = cells ! nat seq_id in
         (True, cells[nat seq_id := cell\<lparr>cpos := pos\<rparr>],
          if cpos cell < 0 \<and> 0 \<le> pos then used + 1 else used,
          if seq_id < lo then seq_id else lo,
          if seq_id > hi then seq_id else hi)
       else (False, cells, used, lo, hi))"

definition find_slot_recurrent :: "kv_cache \<Rightarrow> kv_batch \<Rightarrow> bool \<times> kv_cache" where
  "find_slot_recurrent cache batch =
    (case fold (\<lambda>(pos, seqs) acc. fold (recurrent_token (ksize cache) pos) seqs acc)
            (zip (bpos batch) (bseq batch))
            (True, kcells cache, kused cache, int (ksize cache) - 1, 0) of
       (ok, cells, used, lo, hi) \<Rightarrow>
         if \<not> ok then (False, cache\<lparr>kcells := cells, kused := used\<rparr>)
         else (lo \<le> hi, cache\<lparr>kcells := cells, kused := used, khead := nat lo,
                            kn := word_of_int (hi - lo + 1)\<rparr>))"

text \<open>The first occupied cell among \<open>n\<close> from \<open>head\<close> on, as its offset.\<close>

definition first_used :: "kv_cell list \<Rightarrow> nat \<Rightarrow> nat \<Rightarrow> nat option" where
  "first_used cells head n = find (\<lambda>i. cpos (cells ! (head + i)) \<ge> 0) [0..<n]"

lemma first_used_Some: "first_used cells head n = Some i \<Longrightarrow>
    i < n \<and> cpos (cells ! (head + i)) \<ge> 0 \<and> (\<forall>j<i. cpos (cells ! (head + j)) < 0)"
  by (auto simp: first_used_def find_Some_iff not_le)

lemma first_used_None: "first_used cells head n = None \<longleftrightarrow> (\<forall>i<n. cpos (cells ! (head + i)) < 0)"
  by (auto simp: first_used_def find_None_iff not_le)

text \<open>
  The \<open>while (true)\<close> search over the ring of cells: whether a slot was found, and the new \<open>head\<close>. The
  first case is the check before the loop (\<open>n_tokens > cache.size\<close>), which no round can reach.
\<close>

function find_loop :: "kv_cell list \<Rightarrow> nat \<Rightarrow> nat \<Rightarrow> nat \<Rightarrow> nat \<Rightarrow> bool \<times> nat" where
  "find_loop cells sz n head n_tested =
    (if n > sz then (False, head)
     else if head + n > sz then find_loop cells sz n 0 (n_tested + (sz - head))
     else case first_used cells head n of
       None \<Rightarrow> (True, head)
     | Some i \<Rightarrow>
         if n_tested + (i + 1) \<ge> sz then (False, head + (i + 1))
         else find_loop cells sz n (head + (i + 1)) (n_tested + (i + 1)))"
  by pat_completeness auto
termination
  by (relation "measures [\<lambda>(cells, sz, n, head, n_tested). sz - n_tested,
        \<lambda>(cells, sz, n, head, n_tested). if head + n > sz then 1 else 0]") auto

declare find_loop.simps [simp del]

definition place_token :: "kv_batch \<Rightarrow> nat \<Rightarrow> nat \<Rightarrow> kv_cell list \<Rightarrow> kv_cell list" where
  "place_token batch head i cells =
    (let cell = cells ! (head + i) in
     cells[head + i := cell\<lparr>cpos := bpos batch ! i, cseq := cseq cell \<union> set (bseq batch ! i)\<rparr>])"

definition llama_kv_cache_find_slot :: "kv_cache \<Rightarrow> kv_batch \<Rightarrow> bool \<times> kv_cache" where
  "llama_kv_cache_find_slot cache batch =
    (let n = n_tokens batch in
     if recurrent cache then find_slot_recurrent cache batch
     else case find_loop (kcells cache) (ksize cache) n (khead cache) 0 of
       (False, head) \<Rightarrow> (False, cache\<lparr>khead := head\<rparr>)
     | (True, head) \<Rightarrow>
         (True, cache\<lparr>khead := head,
                  kcells := fold (place_token batch head) [0..<n] (kcells cache),
                  kused := kused cache + of_nat n\<rparr>))"

definition llama_kv_cache_cell_max :: "kv_cache \<Rightarrow> nat" where
  "llama_kv_cache_cell_max cache =
    (case find (\<lambda>i. cpos (kcells cache ! i) \<ge> 0 \<and> \<not> is_empty (kcells cache ! i)) (rev [0..<ksize cache]) of
       None \<Rightarrow> 0
     | Some i \<Rightarrow> i + 1)"

section \<open>Operations on sequences\<close>

text \<open>
  The cells of a cache; its buffers are cleared with them where the state has their bytes (\<open>clear_kv\<close> of
  \<open>StateRestore\<close>).
\<close>

definition llama_kv_cache_clear :: "kv_cache \<Rightarrow> kv_cache" where
  "llama_kv_cache_clear cache =
    cache\<lparr>kcells := map (\<lambda>cell. cell\<lparr>cpos := -1, cseq := {}\<rparr>) (kcells cache), khead := 0, kused := 0\<rparr>"

text \<open>
  A loop over all cells that edits each cell on its own. The edit says whether the loop body
  decrements \<open>used\<close>, and whether it offers the cell as \<open>new_head\<close> (kept by the first such cell;
  \<open>new_head\<close> starts as \<open>size\<close>).
\<close>

fun for_cells :: "nat \<Rightarrow> (kv_cell \<Rightarrow> (kv_cell \<times> bool \<times> bool) res) \<Rightarrow> nat \<Rightarrow> kv_cell list \<Rightarrow> u32 \<Rightarrow> nat \<Rightarrow>
    (kv_cell list \<times> u32 \<times> nat) res" where
  "for_cells sz f i [] used new_head = Inr ([], used, new_head)"
| "for_cells sz f i (cell # cells) used new_head =
    bindE (f cell) (\<lambda>(cell', dec, freed).
      bindE (for_cells sz f (i + 1) cells (if dec then used - 1 else used)
               (if freed \<and> new_head = sz then i else new_head)) (\<lambda>(cells', used', new_head').
        Inr (cell' # cells', used', new_head')))"

definition all_cells :: "(kv_cell \<Rightarrow> (kv_cell \<times> bool \<times> bool) res) \<Rightarrow> kv_cache \<Rightarrow>
    (kv_cell list \<times> u32 \<times> nat) res" where
  "all_cells f cache = for_cells (ksize cache) f 0 (kcells cache) (kused cache) (ksize cache)"

definition range_start :: "int \<Rightarrow> int" where
  "range_start p0 = (if p0 < 0 then 0 else p0)"

definition range_end :: "int \<Rightarrow> int" where
  "range_end p1 = (if p1 < 0 then pos_max else p1)"

abbreviation pos_in :: "kv_cell \<Rightarrow> int \<Rightarrow> int \<Rightarrow> bool" where
  "pos_in cell p0 p1 \<equiv> cpos cell \<ge> p0 \<and> cpos cell < p1"

definition rm_cell :: "int \<Rightarrow> int \<Rightarrow> int \<Rightarrow> kv_cell \<Rightarrow> kv_cell \<times> bool \<times> bool" where
  "rm_cell seq_id p0 p1 cell =
    (if pos_in cell p0 p1 then
       if \<not> seq_id < 0 \<and> \<not> has_seq_id cell seq_id then (cell, False, False)
       else
         let cell = (if seq_id < 0 then cell\<lparr>cseq := {}\<rparr> else cell\<lparr>cseq := cseq cell - {seq_id}\<rparr>)
         in if is_empty cell then (cell\<lparr>cpos := -1\<rparr>, cpos cell \<ge> 0, True) else (cell, False, False)
     else (cell, False, False))"

definition set_head_if_freed :: "nat \<Rightarrow> kv_cache \<Rightarrow> kv_cache" where
  "set_head_if_freed new_head cache =
    (if new_head \<noteq> ksize cache \<and> new_head < khead cache then cache\<lparr>khead := new_head\<rparr> else cache)"

text \<open>The recurrent check reads \<open>cells[seq_id]\<close>; \<open>None\<close>: proceed, \<open>Some\<close>: return.\<close>

definition rm_recurrent_refused :: "kv_cache \<Rightarrow> int \<Rightarrow> int \<Rightarrow> int \<Rightarrow> bool" where
  "rm_recurrent_refused cache seq_id p0 p1 \<longleftrightarrow>
    (if seq_id \<ge> int (ksize cache) then True
     else if 0 \<le> seq_id then
       (let pos = cpos (kcells cache ! nat seq_id) in (0 < p0 \<and> p0 \<le> pos) \<or> (0 < p1 \<and> p1 \<le> pos))
     else p0 \<noteq> p1 \<and> (p0 \<noteq> 0 \<or> p1 \<noteq> pos_max))"

definition llama_kv_cache_seq_rm :: "kv_cache \<Rightarrow> int \<Rightarrow> int \<Rightarrow> int \<Rightarrow> (bool \<times> kv_cache) res" where
  "llama_kv_cache_seq_rm cache seq_id p0 p1 =
    (let p0 = range_start p0; p1 = range_end p1 in
     if recurrent cache \<and> rm_recurrent_refused cache seq_id p0 p1 then Inr (False, cache)
     else bindE (all_cells (\<lambda>cell. Inr (rm_cell seq_id p0 p1 cell)) cache) (\<lambda>(cells, used, new_head).
       Inr (True, set_head_if_freed new_head (cache\<lparr>kcells := cells, kused := used\<rparr>))))"

text \<open>The \<open>GGML_ASSERT\<close> is on the source of the source, an index into the cells.\<close>

definition seq_cp_recurrent :: "kv_cache \<Rightarrow> int \<Rightarrow> int \<Rightarrow> kv_cache res" where
  "seq_cp_recurrent cache seq_id_src seq_id_dst =
    (if valid_seq (ksize cache) seq_id_dst \<and> valid_seq (ksize cache) seq_id_src then
       let src = csrc (kcells cache ! nat seq_id_src) in
       if \<not> valid_seq (ksize cache) src then Inl (Abort ''GGML_ASSERT'')
       else
         let cells = (kcells cache)[nat seq_id_dst := (kcells cache ! nat seq_id_dst)\<lparr>csrc := src\<rparr>];
             dst = cells ! nat seq_id_dst;
             dst = (if has_seq_id (cells ! nat src) src then dst\<lparr>cseq := insert seq_id_dst (cseq dst)\<rparr>
                    else dst\<lparr>cseq := cseq dst - {seq_id_dst}\<rparr>);
             cells = cells[nat seq_id_dst := dst];
             cells = cells[nat seq_id_dst := dst\<lparr>cpos := cpos (cells ! nat src)\<rparr>]
         in Inr (cache\<lparr>kcells := cells, do_copy := True\<rparr>)
     else Inr cache)"

definition cp_cell :: "int \<Rightarrow> int \<Rightarrow> int \<Rightarrow> int \<Rightarrow> kv_cell \<Rightarrow> kv_cell" where
  "cp_cell seq_id_src seq_id_dst p0 p1 cell =
    (if has_seq_id cell seq_id_src \<and> pos_in cell p0 p1 then cell\<lparr>cseq := insert seq_id_dst (cseq cell)\<rparr>
     else cell)"

definition llama_kv_cache_seq_cp :: "kv_cache \<Rightarrow> int \<Rightarrow> int \<Rightarrow> int \<Rightarrow> int \<Rightarrow> kv_cache res" where
  "llama_kv_cache_seq_cp cache seq_id_src seq_id_dst p0 p1 =
    (let p0 = range_start p0; p1 = range_end p1 in
     if recurrent cache then seq_cp_recurrent cache seq_id_src seq_id_dst
     else bindE (all_cells (\<lambda>cell. Inr (cp_cell seq_id_src seq_id_dst p0 p1 cell, False, False)) cache)
       (\<lambda>(cells, used, new_head). Inr (cache\<lparr>khead := 0, kcells := cells\<rparr>)))"

definition keep_cell :: "int \<Rightarrow> kv_cell \<Rightarrow> kv_cell \<times> bool \<times> bool" where
  "keep_cell seq_id cell =
    (if \<not> has_seq_id cell seq_id then (cell\<lparr>cpos := -1, cseq := {}\<rparr>, cpos cell \<ge> 0, True)
     else (cell\<lparr>cseq := {seq_id}\<rparr>, False, False))"

definition llama_kv_cache_seq_keep :: "kv_cache \<Rightarrow> int \<Rightarrow> kv_cache res" where
  "llama_kv_cache_seq_keep cache seq_id =
    bindE (all_cells (\<lambda>cell. Inr (keep_cell seq_id cell)) cache) (\<lambda>(cells, used, new_head).
      Inr (set_head_if_freed new_head (cache\<lparr>kcells := cells, kused := used\<rparr>)))"

text \<open>
  Shifting: the position and the pending \<open>delta\<close>; a cell whose position becomes negative is freed.
  Whether a cell was shifted at all sets \<open>has_shift\<close>.
\<close>

definition shifted :: "int \<Rightarrow> int \<Rightarrow> int \<Rightarrow> kv_cell \<Rightarrow> bool" where
  "shifted seq_id p0 p1 cell \<longleftrightarrow> has_seq_id cell seq_id \<and> pos_in cell p0 p1"

definition add_cell :: "int \<Rightarrow> int \<Rightarrow> int \<Rightarrow> int \<Rightarrow> kv_cell \<Rightarrow> (kv_cell \<times> bool \<times> bool) res" where
  "add_cell seq_id p0 p1 delta cell =
    (if shifted seq_id p0 p1 cell then
       bindE (add_i32 (cpos cell) delta) (\<lambda>pos.
         bindE (add_i32 (cdelta cell) delta) (\<lambda>d.
           let cell = cell\<lparr>cpos := pos, cdelta := d\<rparr> in
           if cpos cell < 0 then Inr (cell\<lparr>cpos := -1, cseq := {}\<rparr>, \<not> is_empty cell, True)
           else Inr (cell, False, False)))
     else Inr (cell, False, False))"

definition seq_add_recurrent :: "kv_cache \<Rightarrow> int \<Rightarrow> int \<Rightarrow> int \<Rightarrow> int \<Rightarrow> kv_cache res" where
  "seq_add_recurrent cache seq_id p0 p1 delta =
    (if valid_seq (ksize cache) seq_id \<and> shifted seq_id p0 p1 (kcells cache ! nat seq_id) then
       let cell = kcells cache ! nat seq_id in
       bindE (add_i32 (cpos cell) delta) (\<lambda>pos.
         Inr (cache\<lparr>kcells := (kcells cache)[nat seq_id := cell\<lparr>cpos := pos\<rparr>]\<rparr>))
     else Inr cache)"

definition llama_kv_cache_seq_add :: "kv_cache \<Rightarrow> int \<Rightarrow> int \<Rightarrow> int \<Rightarrow> int \<Rightarrow> kv_cache res" where
  "llama_kv_cache_seq_add cache seq_id p0 p1 delta =
    (let p0 = range_start p0; p1 = range_end p1 in
     if p0 = p1 then Inr cache
     else if recurrent cache then seq_add_recurrent cache seq_id p0 p1 delta
     else bindE (all_cells (add_cell seq_id p0 p1 delta) cache) (\<lambda>(cells, used, new_head).
       Inr (cache\<lparr>kcells := cells, kused := used,
              has_shift := (has_shift cache \<or> list_ex (shifted seq_id p0 p1) (kcells cache)),
              khead := (if new_head \<noteq> ksize cache then new_head else 0)\<rparr>)))"

text \<open>C++ division truncates; division by zero, and of \<open>INT_MIN\<close> by \<open>-1\<close>, is undefined.\<close>

definition div_i32 :: "int \<Rightarrow> int \<Rightarrow> int res" where
  "div_i32 a b = (if b = 0 then Inl (UndefinedBehaviour ''division by zero'')
     else if a = - (2 ^ 31) \<and> b = -1 then Inl (UndefinedBehaviour ''signed overflow'')
     else Inr (sgn a * sgn b * (\<bar>a\<bar> div \<bar>b\<bar>)))"

definition div_cell :: "int \<Rightarrow> int \<Rightarrow> int \<Rightarrow> int \<Rightarrow> kv_cell \<Rightarrow> (kv_cell \<times> bool \<times> bool) res" where
  "div_cell seq_id p0 p1 d cell =
    (if shifted seq_id p0 p1 cell then
       bindE (div_i32 (cpos cell) d) (\<lambda>pos.
         bindE (add_i32 (cdelta cell) (pos - cpos cell)) (\<lambda>delta.
           Inr (cell\<lparr>cpos := pos, cdelta := delta\<rparr>, False, False)))
     else Inr (cell, False, False))"

definition llama_kv_cache_seq_div :: "kv_cache \<Rightarrow> int \<Rightarrow> int \<Rightarrow> int \<Rightarrow> int \<Rightarrow> kv_cache res" where
  "llama_kv_cache_seq_div cache seq_id p0 p1 d =
    (let p0 = range_start p0; p1 = range_end p1 in
     if p0 = p1 then Inr cache
     else if recurrent cache then
       (if valid_seq (ksize cache) seq_id \<and> shifted seq_id p0 p1 (kcells cache ! nat seq_id) then
          let cell = kcells cache ! nat seq_id in
          bindE (div_i32 (cpos cell) d) (\<lambda>pos.
            Inr (cache\<lparr>kcells := (kcells cache)[nat seq_id := cell\<lparr>cpos := pos\<rparr>]\<rparr>))
        else Inr cache)
     else bindE (all_cells (div_cell seq_id p0 p1 d) cache) (\<lambda>(cells, used, new_head).
       Inr (cache\<lparr>kcells := cells,
              has_shift := (has_shift cache \<or> list_ex (shifted seq_id p0 p1) (kcells cache))\<rparr>)))"

definition llama_kv_cache_seq_pos_max :: "kv_cache \<Rightarrow> int \<Rightarrow> int" where
  "llama_kv_cache_seq_pos_max cache seq_id =
    fold (\<lambda>cell result. if has_seq_id cell seq_id then max result (cpos cell) else result) (kcells cache) 0"

definition llama_kv_cache_defrag :: "kv_cache \<Rightarrow> kv_cache" where
  "llama_kv_cache_defrag cache = cache\<lparr>do_defrag := True\<rparr>"

definition llama_kv_cache_get_padding :: "bool \<Rightarrow> nat" where
  "llama_kv_cache_get_padding flash_attn = (if flash_attn then 256 else 32)"

section \<open>The public interface\<close>

definition llama_get_kv_cache_token_count :: "kv_cache \<Rightarrow> int" where
  "llama_get_kv_cache_token_count cache = sum_list (map (\<lambda>cell. int (card (cseq cell))) (kcells cache))"

definition llama_get_kv_cache_used_cells :: "kv_cache \<Rightarrow> int" where
  "llama_get_kv_cache_used_cells cache = sint (kused cache)"

definition api_seq_cp :: "kv_cache \<Rightarrow> int \<Rightarrow> int \<Rightarrow> int \<Rightarrow> int \<Rightarrow> kv_cache res" where
  "api_seq_cp cache seq_id_src seq_id_dst p0 p1 =
    (if seq_id_src = seq_id_dst then Inr cache
     else llama_kv_cache_seq_cp cache seq_id_src seq_id_dst p0 p1)"

definition api_seq_add :: "kv_cache \<Rightarrow> int \<Rightarrow> int \<Rightarrow> int \<Rightarrow> int \<Rightarrow> kv_cache res" where
  "api_seq_add cache seq_id p0 p1 delta =
    (if delta = 0 then Inr cache else llama_kv_cache_seq_add cache seq_id p0 p1 delta)"

definition api_seq_div :: "kv_cache \<Rightarrow> int \<Rightarrow> int \<Rightarrow> int \<Rightarrow> int \<Rightarrow> kv_cache res" where
  "api_seq_div cache seq_id p0 p1 d =
    (if d = 1 then Inr cache else llama_kv_cache_seq_div cache seq_id p0 p1 d)"

end
