(* ===== verification/KvCacheProps.thy ===== *)
theory KvCacheProps
  imports KvCache
begin

text \<open>
  The KV cache of a non-recurrent model against its specification, a multiset of tokens: the invariant
  that \<open>used\<close> counts the occupied cells, and the edits of the sequence operations on one cell.
\<close>

section \<open>The tokens of a cache and its invariant\<close>

type_synonym kv_token = "int \<times> int set"

definition entry :: "kv_cell \<Rightarrow> kv_token" where
  "entry cell = (cpos cell, cseq cell)"

definition kv_tokens :: "kv_cell list \<Rightarrow> kv_token multiset" where
  "kv_tokens cells = image_mset entry (filter_mset (\<lambda>c. \<not> is_empty c) (mset cells))"

definition cell_ok :: "kv_cell \<Rightarrow> bool" where
  "cell_ok c \<longleftrightarrow> (cpos c \<ge> 0 \<longleftrightarrow> \<not> is_empty c) \<and> finite (cseq c)"

definition occupied :: "kv_cell list \<Rightarrow> nat" where
  "occupied cells = length (filter (\<lambda>c. \<not> is_empty c) cells)"

definition kv_inv :: "kv_cache \<Rightarrow> bool" where
  "kv_inv cache \<longleftrightarrow> \<not> recurrent cache \<and> length (kcells cache) = ksize cache \<and> ksize cache < 2 ^ 32
     \<and> khead cache \<le> ksize cache \<and> list_all cell_ok (kcells cache)
     \<and> unat (kused cache) = occupied (kcells cache)"

lemma occupied_simps [simp]:
  "occupied [] = 0" "occupied (c # cs) = (if is_empty c then 0 else 1) + occupied cs"
  by (simp_all add: occupied_def)

lemma occupied_le: "occupied cells \<le> length cells"
  by (simp add: occupied_def)

lemma occupied_tokens: "occupied cells = size (kv_tokens cells)"
  by (simp add: occupied_def kv_tokens_def flip: mset_filter)

lemma kv_tokens_simps [simp]:
  "kv_tokens [] = {#}"
  "kv_tokens (c # cs) = (if is_empty c then {#} else {#entry c#}) + kv_tokens cs"
  by (simp_all add: kv_tokens_def)

lemma kv_tokens_append: "kv_tokens (xs @ ys) = kv_tokens xs + kv_tokens ys"
  by (simp add: kv_tokens_def)

lemma kv_tokens_update:
  assumes "i < length cells" "is_empty (cells ! i)" "\<not> is_empty c"
  shows "kv_tokens (cells[i := c]) = add_mset (entry c) (kv_tokens cells)"
proof -
  have "kv_tokens cells = kv_tokens (take i cells @ cells ! i # drop (Suc i) cells)"
    using assms(1) by (simp add: id_take_nth_drop [symmetric])
  then show ?thesis using assms by (simp add: upd_conv_take_nth_drop kv_tokens_append)
qed

lemma kv_tokens_eq_empty: "list_all is_empty cells \<Longrightarrow> kv_tokens cells = {#}"
  by (induction cells) auto

section \<open>Edits of cells\<close>

text \<open>
  The contract of the body of a loop over the cells: it keeps a cell well-formed, says truly whether
  it frees the cell, never fills an empty one, and does to the token of an occupied cell what \<open>g\<close>
  says; a token without sequences is gone.
\<close>

locale cell_edit =
  fixes f :: "kv_cell \<Rightarrow> (kv_cell \<times> bool \<times> bool) res" and g :: "kv_token \<Rightarrow> kv_token"
  assumes edit_ok: "cell_ok c \<Longrightarrow> f c = Inr (c', dec, freed) \<Longrightarrow> cell_ok c'"
    and edit_dec: "cell_ok c \<Longrightarrow> f c = Inr (c', dec, freed) \<Longrightarrow> dec \<longleftrightarrow> \<not> is_empty c \<and> is_empty c'"
    and edit_empty: "cell_ok c \<Longrightarrow> f c = Inr (c', dec, freed) \<Longrightarrow> is_empty c \<Longrightarrow> is_empty c'"
    and edit_entry: "cell_ok c \<Longrightarrow> f c = Inr (c', dec, freed) \<Longrightarrow> \<not> is_empty c \<Longrightarrow>
      (if is_empty c' then snd (g (entry c)) = {} else entry c' = g (entry c))"
begin

lemma loop_cells:
  "for_cells sz f i cells used nh = Inr (cells', used', nh') \<Longrightarrow> list_all cell_ok cells \<Longrightarrow>
   length cells' = length cells \<and> list_all cell_ok cells' \<and>
   kv_tokens cells' = filter_mset (\<lambda>t. snd t \<noteq> {}) (image_mset g (kv_tokens cells))"
proof (induction cells arbitrary: i used nh cells')
  case (Cons c cs)
  then obtain c' dec freed cs' where fc: "f c = Inr (c', dec, freed)" and cells': "cells' = c' # cs'"
    and rest: "for_cells sz f (i + 1) cs (if dec then used - 1 else used)
      (if freed \<and> nh = sz then i else nh) = Inr (cs', used', nh')"
    by (auto simp: bindE_Inr_iff)
  have ok: "cell_ok c" "list_all cell_ok cs" using Cons.prems(2) by auto
  note fact = edit_ok [OF ok(1) fc] edit_empty [OF ok(1) fc] edit_entry [OF ok(1) fc]
  have "snd (entry c') \<noteq> {}" if "\<not> is_empty c'" using that by (simp add: entry_def is_empty_def)
  with Cons.IH [OF rest ok(2)] fact show ?case
    by (cases "g (entry c)"; cases "is_empty c"; cases "is_empty c'") (simp_all add: cells')
qed simp

lemma loop_used:
  "for_cells sz f i cells used nh = Inr (cells', used', nh') \<Longrightarrow> list_all cell_ok cells \<Longrightarrow>
   unat used = k + occupied cells \<Longrightarrow> unat used' = k + occupied cells'"
proof (induction cells arbitrary: i used nh cells' k)
  case (Cons c cs)
  then obtain c' dec freed cs' where fc: "f c = Inr (c', dec, freed)" and cells': "cells' = c' # cs'"
    and rest: "for_cells sz f (i + 1) cs (if dec then used - 1 else used)
      (if freed \<and> nh = sz then i else nh) = Inr (cs', used', nh')"
    by (auto simp: bindE_Inr_iff)
  have ok: "cell_ok c" "list_all cell_ok cs" using Cons.prems(2) by auto
  let ?k = "k + (if is_empty c' then 0 else 1)"
  have "unat (used - 1) = unat used - 1" if "unat used \<noteq> 0"
    using that by (metis unat_eq_zero unat_minus_one)
  then have "unat (if dec then used - 1 else used) = ?k + occupied cs"
    using Cons.prems(3) edit_dec [OF ok(1) fc] edit_empty [OF ok(1) fc] by auto
  from Cons.IH [OF rest ok(2) this] show ?case by (simp add: cells')
qed simp

lemma loop_head:
  "for_cells sz f i cells used nh = Inr (cells', used', nh') \<Longrightarrow> nh' = nh \<or> (i \<le> nh' \<and> nh' < i + length cells)"
proof (induction cells arbitrary: i used nh cells')
  case (Cons c cs)
  then obtain dec freed cs' where "for_cells sz f (i + 1) cs (if dec then used - 1 else used)
      (if freed \<and> nh = sz then i else nh) = Inr (cs', used', nh')"
    by (auto simp: bindE_Inr_iff)
  from Cons.IH [OF this] show ?case by (auto split: if_splits)
qed simp

text \<open>A loop over a whole cache keeps the invariant and edits every token.\<close>

lemma all_cells_inv:
  assumes "all_cells f cache = Inr (cells', used', nh')" "kv_inv cache"
    and "ksize cache' = ksize cache" "kcells cache' = cells'" "kused cache' = used'"
    and "recurrent cache' = recurrent cache" "khead cache' \<le> ksize cache"
  shows "kv_inv cache'"
    and "kv_tokens cells' = filter_mset (\<lambda>t. snd t \<noteq> {}) (image_mset g (kv_tokens (kcells cache)))"
    and "nh' \<le> ksize cache"
proof -
  note loop = assms(1) [unfolded all_cells_def]
  have ok: "list_all cell_ok (kcells cache)" "unat (kused cache) = 0 + occupied (kcells cache)"
    using assms(2) by (simp_all add: kv_inv_def)
  from loop_cells [OF loop ok(1)] loop_used [OF loop ok] assms(2-)
  show "kv_inv cache'" "kv_tokens cells' = filter_mset (\<lambda>t. snd t \<noteq> {}) (image_mset g (kv_tokens (kcells cache)))"
    by (simp_all add: kv_inv_def)
  from loop_head [OF loop] assms(2) show "nh' \<le> ksize cache" by (auto simp: kv_inv_def)
qed

end

text \<open>The edits of the operations, on a token \<open>(p, S)\<close>.\<close>

definition rm_token :: "int \<Rightarrow> int \<Rightarrow> int \<Rightarrow> kv_token \<Rightarrow> kv_token" where
  "rm_token s p0 p1 t = (case t of (p, S) \<Rightarrow>
     if p0 \<le> p \<and> p < p1 then (p, if s < 0 then {} else S - {s}) else (p, S))"

definition cp_token :: "int \<Rightarrow> int \<Rightarrow> int \<Rightarrow> int \<Rightarrow> kv_token \<Rightarrow> kv_token" where
  "cp_token src dst p0 p1 t = (case t of (p, S) \<Rightarrow>
     if src \<in> S \<and> p0 \<le> p \<and> p < p1 then (p, insert dst S) else (p, S))"

definition keep_token :: "int \<Rightarrow> kv_token \<Rightarrow> kv_token" where
  "keep_token s t = (case t of (p, S) \<Rightarrow> (p, S \<inter> {s}))"

definition add_token :: "int \<Rightarrow> int \<Rightarrow> int \<Rightarrow> int \<Rightarrow> kv_token \<Rightarrow> kv_token" where
  "add_token s p0 p1 delta t = (case t of (p, S) \<Rightarrow>
     if s \<in> S \<and> p0 \<le> p \<and> p < p1 then (p + delta, if p + delta < 0 then {} else S) else (p, S))"

definition div_token :: "int \<Rightarrow> int \<Rightarrow> int \<Rightarrow> int \<Rightarrow> kv_token \<Rightarrow> kv_token" where
  "div_token s p0 p1 d t = (case t of (p, S) \<Rightarrow>
     if s \<in> S \<and> p0 \<le> p \<and> p < p1 then (p div d, S) else (p, S))"

lemmas edit_defs = cell_ok_def is_empty_def has_seq_id_def entry_def

interpretation rm: cell_edit "\<lambda>c. Inr (rm_cell s p0 p1 c)" "rm_token s p0 p1" for s p0 p1
  by unfold_locales (auto simp: rm_cell_def rm_token_def edit_defs Let_def split: if_splits)

interpretation cp: cell_edit "\<lambda>c. Inr (cp_cell src dst p0 p1 c, False, False)" "cp_token src dst p0 p1"
  for src dst p0 p1
  by unfold_locales (auto simp: cp_cell_def cp_token_def edit_defs split: if_splits)

interpretation keep: cell_edit "\<lambda>c. Inr (keep_cell s c)" "keep_token s" for s
  by unfold_locales (auto simp: keep_cell_def keep_token_def edit_defs split: if_splits)

interpretation add: cell_edit "add_cell s p0 p1 delta" "add_token s p0 p1 delta" for s p0 p1 delta
  by unfold_locales
    (auto simp: add_cell_def add_token_def add_i32_def shifted_def edit_defs Let_def bindE_Inr_iff split: if_splits)

text \<open>Division by a positive number (the sources divide by whatever they are given).\<close>

interpretation divide: cell_edit "div_cell s p0 p1 (int (Suc k))" "div_token s p0 p1 (int (Suc k))" for s p0 p1 k
  by unfold_locales
    (auto simp: div_cell_def div_token_def div_i32_def add_i32_def shifted_def edit_defs Let_def bindE_Inr_iff
      sgn_if pos_imp_zdiv_nonneg_iff split: if_splits)

end
