(* ===== verification/KvCacheOps.thy ===== *)
theory KvCacheOps
  imports KvCacheProps
begin

text \<open>
  The operations on sequences of a non-recurrent cache implement their meaning on the multiset of
  cached tokens.
\<close>

section \<open>The operations on sequences\<close>

datatype kv_op =
    Clear
  | SeqRm int int int
  | SeqCp int int int int
  | SeqKeep int
  | SeqAdd int int int int
  | SeqDiv int int int int

fun kv_exec :: "kv_op \<Rightarrow> kv_cache \<Rightarrow> kv_cache res" where
  "kv_exec Clear cache = Inr (llama_kv_cache_clear cache)"
| "kv_exec (SeqRm s p0 p1) cache = bindE (llama_kv_cache_seq_rm cache s p0 p1) (\<lambda>(ok, cache'). Inr cache')"
| "kv_exec (SeqCp src dst p0 p1) cache = api_seq_cp cache src dst p0 p1"
| "kv_exec (SeqKeep s) cache = llama_kv_cache_seq_keep cache s"
| "kv_exec (SeqAdd s p0 p1 delta) cache = api_seq_add cache s p0 p1 delta"
| "kv_exec (SeqDiv s p0 p1 d) cache = api_seq_div cache s p0 p1 d"

text \<open>What each operation means on the tokens; a token that no sequence holds is gone.\<close>

definition edit_tokens :: "(kv_token \<Rightarrow> kv_token) \<Rightarrow> kv_token multiset \<Rightarrow> kv_token multiset" where
  "edit_tokens g ts = filter_mset (\<lambda>t. snd t \<noteq> {}) (image_mset g ts)"

fun spec_exec :: "kv_op \<Rightarrow> kv_token multiset \<Rightarrow> kv_token multiset" where
  "spec_exec Clear ts = {#}"
| "spec_exec (SeqRm s p0 p1) ts = edit_tokens (rm_token s (range_start p0) (range_end p1)) ts"
| "spec_exec (SeqCp src dst p0 p1) ts = edit_tokens (cp_token src dst (range_start p0) (range_end p1)) ts"
| "spec_exec (SeqKeep s) ts = edit_tokens (keep_token s) ts"
| "spec_exec (SeqAdd s p0 p1 delta) ts = edit_tokens (add_token s (range_start p0) (range_end p1) delta) ts"
| "spec_exec (SeqDiv s p0 p1 d) ts = edit_tokens (div_token s (range_start p0) (range_end p1) d) ts"

definition op_ok :: "kv_op \<Rightarrow> bool" where
  "op_ok oper \<longleftrightarrow> (case oper of SeqDiv s p0 p1 d \<Rightarrow> d > 0 | _ \<Rightarrow> True)"

lemma kv_tokens_ok: "list_all cell_ok cells \<Longrightarrow> t \<in># kv_tokens cells \<Longrightarrow> fst t \<ge> 0 \<and> snd t \<noteq> {}"
  by (auto simp: kv_tokens_def entry_def list_all_iff cell_ok_def is_empty_def)

lemma edit_tokens_id:
  assumes "list_all cell_ok cells" "\<And>p S. p \<ge> 0 \<Longrightarrow> S \<noteq> {} \<Longrightarrow> g (p, S) = (p, S)"
  shows "edit_tokens g (kv_tokens cells) = kv_tokens cells"
proof -
  have "image_mset g (kv_tokens cells) = image_mset (\<lambda>t. t) (kv_tokens cells)"
    using kv_tokens_ok [OF assms(1)] assms(2) by (intro image_mset_cong) (metis prod.collapse)
  then show ?thesis using kv_tokens_ok [OF assms(1)] by (simp add: edit_tokens_def filter_mset_eq_conv)
qed

lemma set_head_inv: "nh \<le> ksize cache \<Longrightarrow> kv_inv cache \<Longrightarrow> kv_inv (set_head_if_freed nh cache)"
  by (auto simp: set_head_if_freed_def kv_inv_def)

lemma set_head_cells [simp]: "kcells (set_head_if_freed nh cache) = kcells cache"
  by (simp add: set_head_if_freed_def)

lemma clear_refines:
  assumes "kv_inv cache"
  shows "kv_inv (llama_kv_cache_clear cache) \<and> kv_tokens (kcells (llama_kv_cache_clear cache)) = {#}"
proof -
  let ?cells = "map (\<lambda>cell. cell\<lparr>cpos := -1, cseq := {}\<rparr>) (kcells cache)"
  have "list_all cell_ok ?cells" "list_all is_empty ?cells"
    by (auto simp: list_all_iff cell_ok_def is_empty_def)
  then show ?thesis
    using assms kv_tokens_eq_empty [of ?cells] by (simp add: llama_kv_cache_clear_def kv_inv_def occupied_tokens)
qed

lemma seq_rm_refines:
  assumes "llama_kv_cache_seq_rm cache s p0 p1 = Inr (ok, cache')" "kv_inv cache"
  shows "ok \<and> kv_inv cache' \<and>
    kv_tokens (kcells cache') = edit_tokens (rm_token s (range_start p0) (range_end p1)) (kv_tokens (kcells cache))"
proof -
  from assms obtain cells used nh where
    loop: "all_cells (\<lambda>c. Inr (rm_cell s (range_start p0) (range_end p1) c)) cache = Inr (cells, used, nh)"
    and c': "ok" "cache' = set_head_if_freed nh (cache\<lparr>kcells := cells, kused := used\<rparr>)"
    by (auto simp: llama_kv_cache_seq_rm_def Let_def bindE_Inr_iff kv_inv_def)
  note r = rm.all_cells_inv [OF loop assms(2), of "cache\<lparr>kcells := cells, kused := used\<rparr>"]
  have "khead cache \<le> ksize cache" using assms(2) by (simp add: kv_inv_def)
  with r set_head_inv [of nh "cache\<lparr>kcells := cells, kused := used\<rparr>"] c' show ?thesis
    by (simp add: edit_tokens_def)
qed

lemma seq_keep_refines:
  assumes "llama_kv_cache_seq_keep cache s = Inr cache'" "kv_inv cache"
  shows "kv_inv cache' \<and> kv_tokens (kcells cache') = edit_tokens (keep_token s) (kv_tokens (kcells cache))"
proof -
  from assms obtain cells used nh where
    loop: "all_cells (\<lambda>c. Inr (keep_cell s c)) cache = Inr (cells, used, nh)"
    and c': "cache' = set_head_if_freed nh (cache\<lparr>kcells := cells, kused := used\<rparr>)"
    by (auto simp: llama_kv_cache_seq_keep_def bindE_Inr_iff)
  note r = keep.all_cells_inv [OF loop assms(2), of "cache\<lparr>kcells := cells, kused := used\<rparr>"]
  have "khead cache \<le> ksize cache" using assms(2) by (simp add: kv_inv_def)
  with r set_head_inv [of nh "cache\<lparr>kcells := cells, kused := used\<rparr>"] c' show ?thesis
    by (simp add: edit_tokens_def)
qed

lemma seq_cp_refines:
  assumes "llama_kv_cache_seq_cp cache src dst p0 p1 = Inr cache'" "kv_inv cache"
  shows "kv_inv cache' \<and> kv_tokens (kcells cache') =
    edit_tokens (cp_token src dst (range_start p0) (range_end p1)) (kv_tokens (kcells cache))"
proof -
  from assms obtain cells used nh where
    loop: "all_cells (\<lambda>c. Inr (cp_cell src dst (range_start p0) (range_end p1) c, False, False)) cache = Inr (cells, used, nh)"
    and c': "cache' = cache\<lparr>khead := 0, kcells := cells\<rparr>"
    by (auto simp: llama_kv_cache_seq_cp_def Let_def bindE_Inr_iff kv_inv_def)
  have "used = kused cache"
  proof -
    have "for_cells sz (\<lambda>c. Inr (h c, False, False)) i cs u nh = Inr (cs', u', nh') \<Longrightarrow> u' = u" for sz h i cs u nh cs' u' nh'
      by (induction cs arbitrary: i nh cs') (auto simp: bindE_Inr_iff)
    then show ?thesis using loop unfolding all_cells_def by blast
  qed
  with cp.all_cells_inv [OF loop assms(2), of cache'] c' show ?thesis by (simp add: edit_tokens_def)
qed

lemma seq_add_refines:
  assumes "llama_kv_cache_seq_add cache s p0 p1 delta = Inr cache'" "kv_inv cache"
  shows "kv_inv cache' \<and> kv_tokens (kcells cache') =
    edit_tokens (add_token s (range_start p0) (range_end p1) delta) (kv_tokens (kcells cache))"
proof (cases "range_start p0 = range_end p1")
  case True
  with assms have "cache' = cache" by (simp add: llama_kv_cache_seq_add_def)
  with assms(2) True edit_tokens_id [of "kcells cache"] show ?thesis by (simp add: add_token_def kv_inv_def)
next
  case False
  with assms obtain cells used nh where
    loop: "all_cells (add_cell s (range_start p0) (range_end p1) delta) cache = Inr (cells, used, nh)"
    and c': "cache' = cache\<lparr>kcells := cells, kused := used,
      has_shift := has_shift cache \<or> list_ex (shifted s (range_start p0) (range_end p1)) (kcells cache),
      khead := (if nh \<noteq> ksize cache then nh else 0)\<rparr>"
    by (auto simp: llama_kv_cache_seq_add_def Let_def bindE_Inr_iff kv_inv_def)
  have "nh \<le> ksize cache" by (rule add.all_cells_inv(3) [OF loop assms(2), of "cache\<lparr>kcells := cells, kused := used\<rparr>"])
      (use assms(2) in \<open>auto simp: kv_inv_def\<close>)
  with add.all_cells_inv [OF loop assms(2), of cache'] show ?thesis
    by (simp add: c' edit_tokens_def)
qed

lemma seq_div_refines:
  assumes "llama_kv_cache_seq_div cache s p0 p1 d = Inr cache'" "kv_inv cache" "d > 0"
  shows "kv_inv cache' \<and> kv_tokens (kcells cache') =
    edit_tokens (div_token s (range_start p0) (range_end p1) d) (kv_tokens (kcells cache))"
proof (cases "range_start p0 = range_end p1")
  case True
  with assms have "cache' = cache" by (simp add: llama_kv_cache_seq_div_def)
  with assms(2) True edit_tokens_id [of "kcells cache"] show ?thesis by (simp add: div_token_def kv_inv_def)
next
  case False
  from assms(3) obtain k where d: "d = int (Suc k)" by (metis Suc_pred' nat_0_le zero_less_nat_eq less_imp_le)
  from False assms obtain cells used nh where
    loop: "all_cells (div_cell s (range_start p0) (range_end p1) (int (Suc k))) cache = Inr (cells, used, nh)"
    and c': "cache' = cache\<lparr>kcells := cells,
      has_shift := has_shift cache \<or> list_ex (shifted s (range_start p0) (range_end p1)) (kcells cache)\<rparr>"
    by (auto simp: llama_kv_cache_seq_div_def Let_def bindE_Inr_iff kv_inv_def d)
  have "used = kused cache"
  proof -
    have "for_cells sz (div_cell s q0 q1 d) i cs u nh = Inr (cs', u', nh') \<Longrightarrow> u' = u" for sz q0 q1 i cs u nh cs' u' nh'
      by (induction cs arbitrary: i nh cs') (auto simp: bindE_Inr_iff div_cell_def split: if_splits)
    then show ?thesis using loop unfolding all_cells_def d by blast
  qed
  with divide.all_cells_inv [OF loop assms(2), of cache'] assms(2) c' show ?thesis
    by (simp add: edit_tokens_def d kv_inv_def)
qed

lemmas op_refines = clear_refines seq_rm_refines seq_keep_refines seq_cp_refines seq_add_refines seq_div_refines

text \<open>
  C11: the sequence operations implement their meaning on the multiset of cached tokens: removing
  drops a sequence (or all) from the tokens of a position range, copying adds one, keeping restricts
  every token to one, shifting and dividing move positions, and a token shifted below zero or left
  without a sequence is freed. The invariant (\<open>used\<close> is the number of occupied cells, a cell has a
  position exactly if it has a sequence) is kept, so the unchecked decrements of \<open>used\<close> never wrap.
  (Division: by a positive number.)
\<close>

theorem kv_ops_refine:
  assumes "kv_inv cache" "op_ok oper" "kv_exec oper cache = Inr cache'"
  shows "kv_inv cache' \<and> kv_tokens (kcells cache') = spec_exec oper (kv_tokens (kcells cache))"
proof (cases oper)
  case (SeqCp src dst p0 p1)
  show ?thesis
  proof (cases "src = dst")
    case True
    with SeqCp assms edit_tokens_id [of "kcells cache"] show ?thesis
      by (auto simp: api_seq_cp_def cp_token_def kv_inv_def insert_absorb)
  next
    case False
    with SeqCp assms seq_cp_refines show ?thesis by (simp add: api_seq_cp_def)
  qed
next
  case (SeqAdd s p0 p1 delta)
  show ?thesis
  proof (cases "delta = 0")
    case True
    with SeqAdd assms edit_tokens_id [of "kcells cache"] show ?thesis
      by (auto simp: api_seq_add_def add_token_def kv_inv_def)
  next
    case False
    with SeqAdd assms seq_add_refines show ?thesis by (simp add: api_seq_add_def)
  qed
next
  case (SeqDiv s p0 p1 d)
  show ?thesis
  proof (cases "d = 1")
    case True
    with SeqDiv assms edit_tokens_id [of "kcells cache"] show ?thesis
      by (auto simp: api_seq_div_def div_token_def kv_inv_def)
  next
    case False
    with SeqDiv assms seq_div_refines show ?thesis by (simp add: api_seq_div_def op_ok_def)
  qed
qed (use assms op_refines in \<open>auto simp: bindE_Inr_iff\<close>)

text \<open>Four cells, the first two holding positions 0 and 1, the second shared by two sequences.\<close>

definition sample_cache :: kv_cache where
  "sample_cache = (llama_kv_cache_init False 4)\<lparr>khead := 2, kused := 2,
     kcells := [new_cell\<lparr>cpos := 0, cseq := {0}\<rparr>, new_cell\<lparr>cpos := 1, cseq := {0, 1}\<rparr>, new_cell, new_cell]\<rparr>"

lemma sample_cache_inv: "kv_inv sample_cache"
  by (simp add: sample_cache_def kv_inv_def llama_kv_cache_init_def new_cell_def cell_ok_def is_empty_def)

lemma sample_cache_simps [simp]:
  "kcells sample_cache = [new_cell\<lparr>cpos := 0, cseq := {0}\<rparr>, new_cell\<lparr>cpos := 1, cseq := {0, 1}\<rparr>, new_cell, new_cell]"
  "ksize sample_cache = 4" "khead sample_cache = 2" "kused sample_cache = 2" "\<not> recurrent sample_cache"
  by (simp_all add: sample_cache_def llama_kv_cache_init_def)

lemma kv_ops_refine_witness:
  "kv_inv (sample_cache\<lparr>khead := 0, kused := 1,
     kcells := [new_cell, new_cell\<lparr>cpos := 1, cseq := {1}\<rparr>, new_cell, new_cell]\<rparr>)
   \<and> kv_tokens [new_cell, new_cell\<lparr>cpos := 1, cseq := {1}\<rparr>, new_cell, new_cell]
     = spec_exec (SeqRm 0 (-1) (-1)) (kv_tokens (kcells sample_cache))"
proof -
  have "kv_exec (SeqRm 0 (-1) (-1)) sample_cache = Inr (sample_cache\<lparr>khead := 0, kused := 1,
     kcells := [new_cell, new_cell\<lparr>cpos := 1, cseq := {1}\<rparr>, new_cell, new_cell]\<rparr>)"
    by (simp add: llama_kv_cache_seq_rm_def all_cells_def rm_cell_def has_seq_id_def is_empty_def new_cell_def
        range_start_def range_end_def pos_max_def set_head_if_freed_def Let_def insert_Diff_if)
  from kv_ops_refine [OF sample_cache_inv _ this] show ?thesis by (simp add: op_ok_def)
qed

end
