(* ===== verification/KvSlot.thy ===== *)
theory KvSlot
  imports KvCacheOps
begin

text \<open>
  The search for a slot: the ring search tries every start once, so it fails only when no run of free
  cells is long enough; the batch is then placed in the cells found.
\<close>

section \<open>The ring search\<close>

definition free_slot :: "kv_cell list \<Rightarrow> nat \<Rightarrow> nat \<Rightarrow> nat \<Rightarrow> bool" where
  "free_slot cells sz n h \<longleftrightarrow> h + n \<le> sz \<and> (\<forall>i<n. cpos (cells ! (h + i)) < 0)"

lemma find_loop_sound: "find_loop cells sz n head t = (True, h) \<Longrightarrow> free_slot cells sz n h"
proof (induction cells sz n head t rule: find_loop.induct)
  case (1 cells sz n head t)
  note step = "1.prems" [unfolded find_loop.simps [of cells sz n head t]]
  show ?case
  proof (cases "n > sz \<or> head + n > sz")
    case True
    with step "1.IH"(1) show ?thesis by (auto split: if_splits)
  next
    case fits: False
    show ?thesis
    proof (cases "first_used cells head n")
      case None
      with step fits have "h = head" by simp
      with None fits show ?thesis by (simp add: free_slot_def first_used_None)
    next
      case (Some i)
      with step "1.IH"(2) [OF _ _ Some] fits show ?thesis by (auto split: if_splits)
    qed
  qed
qed

lemma find_loop_head: "find_loop cells sz n head t = (ok, h) \<Longrightarrow> head \<le> sz \<Longrightarrow> h \<le> sz"
proof (induction cells sz n head t rule: find_loop.induct)
  case (1 cells sz n head t)
  note step = "1.prems"(1) [unfolded find_loop.simps [of cells sz n head t]]
  show ?case
  proof (cases "n > sz \<or> head + n > sz")
    case True
    with step "1.IH"(1) "1.prems"(2) show ?thesis by (auto split: if_splits)
  next
    case fits: False
    show ?thesis
    proof (cases "first_used cells head n")
      case None
      with step fits "1.prems"(2) show ?thesis by simp
    next
      case (Some i)
      with first_used_Some [OF Some] fits have "head + (i + 1) \<le> sz" by simp
      with step "1.IH"(2) [OF _ _ Some] fits Some show ?thesis by (auto split: if_splits)
    qed
  qed
qed

text \<open>
  The search has tested every start between the first head \<open>h0\<close> and the current one (in the ring), or
  all of them.
\<close>

definition search_inv :: "kv_cell list \<Rightarrow> nat \<Rightarrow> nat \<Rightarrow> nat \<Rightarrow> nat \<Rightarrow> nat \<Rightarrow> bool" where
  "search_inv cells sz n h0 head t \<longleftrightarrow>
    (t + h0 = head \<and> (\<forall>h. free_slot cells sz n h \<longrightarrow> h < h0 \<or> head \<le> h))
    \<or> (t + h0 = sz + head \<and> (\<forall>h. free_slot cells sz n h \<longrightarrow> head \<le> h \<and> h < h0))
    \<or> (\<forall>h. \<not> free_slot cells sz n h)"

lemma blocked_slots:
  assumes "cpos (cells ! (head + i)) \<ge> 0" "i < n" "free_slot cells sz n h" "head \<le> h"
  shows "head + (i + 1) \<le> h"
proof (rule ccontr)
  assume "\<not> head + (i + 1) \<le> h"
  then have "head + i - h < n" "h + (head + i - h) = head + i" using assms(2,4) by auto
  with assms(1,3) show False unfolding free_slot_def by (metis not_less)
qed

lemma wrap_inv:
  assumes inv: "search_inv cells sz n h0 head t" and "head + n > sz" "h0 \<le> sz" "head \<le> sz"
  shows "search_inv cells sz n h0 0 (t + (sz - head))"
proof -
  have no: "\<not> (free_slot cells sz n h \<and> head \<le> h)" for h
    using assms(2) by (auto simp: free_slot_def)
  from inv consider (first) "t + h0 = head" "\<forall>h. free_slot cells sz n h \<longrightarrow> h < h0 \<or> head \<le> h"
    | (second) "\<forall>h. free_slot cells sz n h \<longrightarrow> head \<le> h \<and> h < h0"
    | (all) "\<forall>h. \<not> free_slot cells sz n h"
    unfolding search_inv_def by blast
  then show ?thesis
  proof cases
    case first
    then have "t + (sz - head) + h0 = sz" "\<forall>h. free_slot cells sz n h \<longrightarrow> h < h0"
      using assms(4) no by auto
    then show ?thesis by (simp add: search_inv_def)
  next
    case second
    with no show ?thesis unfolding search_inv_def by blast
  qed (simp add: search_inv_def)
qed

lemma blocked_inv:
  assumes inv: "search_inv cells sz n h0 head t" and blk: "cpos (cells ! (head + i)) \<ge> 0" "i < n"
  shows "search_inv cells sz n h0 (head + (i + 1)) (t + (i + 1))"
proof -
  note blocked = blocked_slots [OF blk]
  from inv consider (first) "t + h0 = head" "\<forall>h. free_slot cells sz n h \<longrightarrow> h < h0 \<or> head \<le> h"
    | (second) "t + h0 = sz + head" "\<forall>h. free_slot cells sz n h \<longrightarrow> head \<le> h \<and> h < h0"
    | (all) "\<forall>h. \<not> free_slot cells sz n h"
    unfolding search_inv_def by blast
  then show ?thesis
  proof cases
    case first
    then have "\<forall>h. free_slot cells sz n h \<longrightarrow> h < h0 \<or> head + (i + 1) \<le> h" using blocked by blast
    with first show ?thesis unfolding search_inv_def by simp
  next
    case second
    then have "\<forall>h. free_slot cells sz n h \<longrightarrow> head + (i + 1) \<le> h \<and> h < h0" using blocked by blast
    with second show ?thesis unfolding search_inv_def by simp
  qed (simp add: search_inv_def)
qed

lemma exhausted_inv:
  assumes inv: "search_inv cells sz n h0 head t" and "t \<ge> sz" "head \<le> sz" "h0 \<le> sz" "n > 0"
  shows "\<not> free_slot cells sz n h"
proof
  assume free: "free_slot cells sz n h"
  then have "h < sz" using assms(5) by (auto simp: free_slot_def)
  from inv free consider "t + h0 = head" "h < h0 \<or> head \<le> h" | "t + h0 = sz + head" "head \<le> h" "h < h0"
    unfolding search_inv_def by blast
  then show False using assms(2-4) \<open>h < sz\<close> by cases auto
qed

lemma find_loop_complete:
  "find_loop cells sz n head t = (False, h) \<Longrightarrow> n \<le> sz \<Longrightarrow> h0 \<le> sz \<Longrightarrow> head \<le> sz \<Longrightarrow>
   search_inv cells sz n h0 head t \<Longrightarrow> \<not> free_slot cells sz n h'"
proof (induction cells sz n head t rule: find_loop.induct)
  case (1 cells sz n head t)
  note step = "1.prems"(1) [unfolded find_loop.simps [of cells sz n head t]]
  show ?case
  proof (cases "head + n > sz")
    case True
    then have "search_inv cells sz n h0 0 (t + (sz - head))"
      using wrap_inv "1.prems"(3,4,5) by blast
    with "1.IH"(1) step True "1.prems" show ?thesis by simp
  next
    case fits: False
    with step "1.prems"(2) obtain i where i: "first_used (cells) head n = Some i"
      by (auto split: option.splits)
    note blk = first_used_Some [OF i]
    have inv: "search_inv cells sz n h0 (head + (i + 1)) (t + (i + 1))"
      using blocked_inv [OF "1.prems"(5)] blk by blast
    have le: "head + (i + 1) \<le> sz" "n > 0" using fits blk by auto
    show ?thesis
    proof (cases "t + (i + 1) \<ge> sz")
      case True
      with exhausted_inv [OF inv] le "1.prems"(3) show ?thesis by blast
    next
      case False
      with step fits i "1.prems"(2) have "find_loop cells sz n (head + (i + 1)) (t + (i + 1)) = (False, h)" by simp
      with "1.IH"(2) [OF _ fits i] False inv "1.prems"(2,3) le show ?thesis by simp
    qed
  qed
qed

lemma find_slot_iff:
  assumes "kv_inv cache"
  shows "fst (llama_kv_cache_find_slot cache batch) \<longleftrightarrow> (\<exists>h. free_slot (kcells cache) (ksize cache) (n_tokens batch) h)"
proof -
  let ?n = "n_tokens batch" and ?sz = "ksize cache"
  note inv = assms [unfolded kv_inv_def]
  obtain found h where loop: "find_loop (kcells cache) ?sz ?n (khead cache) 0 = (found, h)"
    by (cases "find_loop (kcells cache) ?sz ?n (khead cache) 0")
  have ok: "fst (llama_kv_cache_find_slot cache batch) \<longleftrightarrow> found"
    using inv loop by (cases found) (simp_all add: llama_kv_cache_find_slot_def Let_def)
  have "\<not> free_slot (kcells cache) ?sz ?n k" if "\<not> found" for k
  proof (cases "?n \<le> ?sz")
    case True
    have start: "search_inv (kcells cache) ?sz ?n (khead cache) (khead cache) 0"
      by (auto simp: search_inv_def)
    have head: "khead cache \<le> ?sz" using inv by simp
    have "find_loop (kcells cache) ?sz ?n (khead cache) 0 = (False, h)" using loop that by simp
    from find_loop_complete [OF this True head head start] show ?thesis .
  qed (simp add: free_slot_def)
  moreover have "free_slot (kcells cache) ?sz ?n h" if "found" using find_loop_sound loop that by simp
  ultimately show ?thesis using ok by blast
qed

section \<open>Placing a batch\<close>

definition batch_ok :: "kv_batch \<Rightarrow> bool" where
  "batch_ok batch \<longleftrightarrow> length (bseq batch) = n_tokens batch
     \<and> (\<forall>i<n_tokens batch. bpos batch ! i \<ge> 0 \<and> bseq batch ! i \<noteq> [])"

definition batch_tokens :: "kv_batch \<Rightarrow> kv_token list" where
  "batch_tokens batch = map (\<lambda>i. (bpos batch ! i, set (bseq batch ! i))) [0..<n_tokens batch]"

lemma place_token_nth:
  "head + n \<le> length cells \<Longrightarrow>
   length (fold (place_token b head) [0..<n] cells) = length cells \<and>
   (\<forall>j<length cells. fold (place_token b head) [0..<n] cells ! j =
     (if head \<le> j \<and> j < head + n
      then (cells ! j)\<lparr>cpos := bpos b ! (j - head), cseq := cseq (cells ! j) \<union> set (bseq b ! (j - head))\<rparr>
      else cells ! j))"
proof (induction n)
  case (Suc n)
  then show ?case by (auto simp: place_token_def Let_def nth_list_update less_Suc_eq)
qed auto

lemma place_tokens:
  assumes "batch_ok b" "list_all cell_ok cells" "free_slot cells (length cells) (n_tokens b) head" "n \<le> n_tokens b"
  shows "list_all cell_ok (fold (place_token b head) [0..<n] cells) \<and>
    kv_tokens (fold (place_token b head) [0..<n] cells) =
      kv_tokens cells + mset (map (\<lambda>i. (bpos b ! i, set (bseq b ! i))) [0..<n])"
  using assms(4)
proof (induction n)
  case (Suc n)
  let ?cells = "fold (place_token b head) [0..<n] cells"
  have len: "head + n < length cells" using assms(3) Suc.prems by (simp add: free_slot_def)
  then have nth: "length ?cells = length cells" "?cells ! (head + n) = cells ! (head + n)"
    using place_token_nth [of head n cells b] by auto
  have "cpos (cells ! (head + n)) < 0" using assms(3) Suc.prems by (simp add: free_slot_def)
  then have empty: "is_empty (cells ! (head + n))" "cseq (cells ! (head + n)) = {}"
    using assms(2) len by (auto simp: list_all_length cell_ok_def is_empty_def)
  let ?c = "(cells ! (head + n))\<lparr>cpos := bpos b ! n, cseq := set (bseq b ! n)\<rparr>"
  have c: "cell_ok ?c" "\<not> is_empty ?c" "entry ?c = (bpos b ! n, set (bseq b ! n))"
    using assms(1) Suc.prems by (auto simp: batch_ok_def cell_ok_def is_empty_def entry_def)
  have step: "fold (place_token b head) [0..<Suc n] cells = ?cells[head + n := ?c]"
    by (simp add: place_token_def Let_def nth empty(2))
  have "list_all cell_ok (?cells[head + n := ?c])"
    using Suc c(1) by (auto simp: list_all_iff dest!: set_update_subset_insert [THEN subsetD])
  moreover have "kv_tokens (?cells[head + n := ?c]) = add_mset (entry ?c) (kv_tokens ?cells)"
    by (rule kv_tokens_update) (use len nth empty(1) c(2) in auto)
  ultimately show ?case unfolding step using Suc c(3) by simp
qed (use assms(2) in simp)

lemma find_slot_effect:
  assumes "kv_inv cache" "batch_ok batch" "llama_kv_cache_find_slot cache batch = (ok, cache')"
  shows "kv_inv cache' \<and> ksize cache' = ksize cache
    \<and> (ok \<longleftrightarrow> (\<exists>h. free_slot (kcells cache) (ksize cache) (n_tokens batch) h))
    \<and> (ok \<longrightarrow> free_slot (kcells cache) (ksize cache) (n_tokens batch) (khead cache')
        \<and> map entry (take (n_tokens batch) (drop (khead cache') (kcells cache'))) = batch_tokens batch
        \<and> (\<forall>j<ksize cache. \<not> (khead cache' \<le> j \<and> j < khead cache' + n_tokens batch) \<longrightarrow>
             kcells cache' ! j = kcells cache ! j)
        \<and> kv_tokens (kcells cache') = kv_tokens (kcells cache) + mset (batch_tokens batch))
    \<and> (\<not> ok \<longrightarrow> kcells cache' = kcells cache)"
proof -
  let ?n = "n_tokens batch" and ?sz = "ksize cache"
  note inv = assms(1) [unfolded kv_inv_def]
  obtain found h where loop: "find_loop (kcells cache) ?sz ?n (khead cache) 0 = (found, h)"
    by (cases "find_loop (kcells cache) ?sz ?n (khead cache) 0")
  have h: "h \<le> ?sz" using find_loop_head [OF loop] inv by simp
  show ?thesis
  proof (cases found)
    case False
    have c': "ok = False" "cache' = cache\<lparr>khead := h\<rparr>"
      using assms(3) inv loop False by (auto simp: llama_kv_cache_find_slot_def)
    have "\<not> free_slot (kcells cache) ?sz ?n k" for k using find_slot_iff [OF assms(1), of batch] assms(3) c' by simp
    with c' h inv show ?thesis by (auto simp: kv_inv_def)
  next
    case True
    have free: "free_slot (kcells cache) ?sz ?n h" using find_loop_sound loop True by simp
    let ?cells = "fold (place_token batch h) [0..<?n] (kcells cache)"
    have c': "ok" "cache' = cache\<lparr>khead := h, kcells := ?cells, kused := kused cache + of_nat ?n\<rparr>"
      using assms(3) inv loop True by (auto simp: llama_kv_cache_find_slot_def Let_def)
    have fits: "h + ?n \<le> length (kcells cache)" using free inv by (simp add: free_slot_def)
    note nth = place_token_nth [OF fits, of batch]
    have free': "free_slot (kcells cache) (length (kcells cache)) ?n h" using free inv by simp
    have ok': "list_all cell_ok (kcells cache)" using inv by simp
    from place_tokens [OF assms(2) ok' free' le_refl]
    have cells: "list_all cell_ok ?cells" "kv_tokens ?cells = kv_tokens (kcells cache) + mset (batch_tokens batch)"
      by (auto simp: batch_tokens_def)
    have occ: "occupied ?cells = occupied (kcells cache) + ?n"
      using cells(2) by (simp add: occupied_tokens batch_tokens_def)
    moreover have "occupied ?cells \<le> ?sz" using occupied_le [of ?cells] nth inv by simp
    ultimately have "unat (kused cache + of_nat ?n) = occupied ?cells"
      using inv by (simp add: unat_word_ariths unat_of_nat)
    with cells(1) nth h inv c' have "kv_inv cache'" by (simp add: kv_inv_def)
    moreover have "map entry (take ?n (drop h ?cells)) = batch_tokens batch"
    proof (rule nth_equalityI)
      show "length (map entry (take ?n (drop h ?cells))) = length (batch_tokens batch)"
        using nth fits by (simp add: batch_tokens_def)
    next
      fix i assume "i < length (map entry (take ?n (drop h ?cells)))"
      then have i: "i < ?n" by simp
      then have "is_empty (kcells cache ! (h + i))"
        using free' ok' fits by (auto simp: free_slot_def list_all_length cell_ok_def not_le [symmetric])
      with i nth fits show "map entry (take ?n (drop h ?cells)) ! i = batch_tokens batch ! i"
        by (simp add: batch_tokens_def entry_def is_empty_def)
    qed
    ultimately show ?thesis using c' free cells(2) nth inv by auto
  qed
qed

text \<open>
  C12: \<open>llama_kv_cache_find_slot\<close> on a non-recurrent cache. It succeeds exactly if the cache has enough
  consecutive free cells, wherever \<open>head\<close> stands; then \<open>head\<close> is the first of such cells, they hold the
  tokens of the batch in order, and every other cell is untouched. On failure the cells are
  untouched. The invariant is kept either way.
\<close>

theorem find_slot_correct:
  assumes "kv_inv cache" "batch_ok batch" "llama_kv_cache_find_slot cache batch = (ok, cache')"
  shows "kv_inv cache'
    \<and> (ok \<longleftrightarrow> (\<exists>h. free_slot (kcells cache) (ksize cache) (n_tokens batch) h))
    \<and> (ok \<longrightarrow> free_slot (kcells cache) (ksize cache) (n_tokens batch) (khead cache')
        \<and> map entry (take (n_tokens batch) (drop (khead cache') (kcells cache'))) = batch_tokens batch
        \<and> (\<forall>j<ksize cache. \<not> (khead cache' \<le> j \<and> j < khead cache' + n_tokens batch) \<longrightarrow>
             kcells cache' ! j = kcells cache ! j)
        \<and> kv_tokens (kcells cache') = kv_tokens (kcells cache) + mset (batch_tokens batch))
    \<and> (\<not> ok \<longrightarrow> kcells cache' = kcells cache)"
  using find_slot_effect [OF assms] by blast

lemma find_slot_correct_witness:
  "kv_inv (sample_cache\<lparr>khead := 2, kused := 3, kcells := (kcells sample_cache)[2 := new_cell\<lparr>cpos := 2, cseq := {0}\<rparr>]\<rparr>)"
proof -
  let ?b = "\<lparr>bpos = [2], bseq = [[0]]\<rparr>"
  have "llama_kv_cache_find_slot sample_cache ?b =
      (True, sample_cache\<lparr>khead := 2, kused := 3, kcells := (kcells sample_cache)[2 := new_cell\<lparr>cpos := 2, cseq := {0}\<rparr>]\<rparr>)"
    by (simp add: llama_kv_cache_find_slot_def find_loop.simps first_used_def place_token_def Let_def new_cell_def
        numeral_2_eq_2)
  from find_slot_correct [OF sample_cache_inv _ this] show ?thesis by (simp add: batch_ok_def)
qed

end
