(* ===== verification/KvDefrag.thy ===== *)
theory KvDefrag
  imports KvSlot
begin

text \<open>
  Defragmentation and the pending updates of the KV cache (\<open>llama_kv_cache_defrag_internal\<close>,
  \<open>build_defrag\<close>, \<open>llama_kv_cache_update_internal\<close> of \<open>src/src/llama.cpp\<close>). The cached data is a list
  with one row per cell (the keys and values of all layers); a compute graph is what it does to the
  rows, the rotation of a key by an angle, computed by ggml, a parameter. Assertions are enabled.
\<close>

section \<open>Choosing the moves\<close>

text \<open>
  \<open>dids ! i\<close> is the destination of cell \<open>i\<close>, or the number of cells when it does not move; \<open>dmoves\<close>
  counts the blocks moved.
\<close>

record defrag_state =
  dcells :: "kv_cell list"
  dids :: "nat list"
  dmoves :: nat
  dhead :: nat

text \<open>\<open>while (i0 + nh < n_used && cells[i0 + nh].is_empty()) nh++\<close>\<close>

function hole_size :: "kv_cell list \<Rightarrow> nat \<Rightarrow> nat \<Rightarrow> nat \<Rightarrow> nat" where
  "hole_size cells n_used i0 nh =
    (if i0 + nh < n_used \<and> is_empty (cells ! (i0 + nh)) then hole_size cells n_used i0 (nh + 1) else nh)"
  by pat_completeness auto
termination by (relation "measure (\<lambda>(cells, n_used, i0, nh). n_used - (i0 + nh))") auto

declare hole_size.simps [simp del]

definition unmoved :: "nat \<Rightarrow> defrag_state \<Rightarrow> nat \<Rightarrow> bool" where
  "unmoved n_kv st i \<longleftrightarrow> \<not> (is_empty (dcells st ! i) \<or> dids st ! i \<noteq> n_kv)"

text \<open>\<open>for (; is > i0; --is)\<close>: find \<open>nh\<close> cells from the end; the index of the last one, and the number found.\<close>

fun scan_tail :: "nat \<Rightarrow> defrag_state \<Rightarrow> nat \<Rightarrow> nat \<Rightarrow> nat \<Rightarrow> nat \<Rightarrow> nat \<times> nat" where
  "scan_tail n_kv st i0 nh 0 nf = (0, nf)"
| "scan_tail n_kv st i0 nh (Suc i) nf =
    (if i0 < Suc i then
       if \<not> unmoved n_kv st (Suc i) then scan_tail n_kv st i0 nh i nf
       else if nf + 1 = nh then (Suc i, nf + 1)
       else scan_tail n_kv st i0 nh i (nf + 1)
     else (Suc i, nf))"

definition move_cell :: "nat \<Rightarrow> nat \<Rightarrow> nat \<Rightarrow> bool \<Rightarrow> defrag_state \<Rightarrow> defrag_state" where
  "move_cell n_used i1 dst cont st =
    st\<lparr>dids := (dids st)[i1 := dst],
       dcells := (dcells st)[dst := dcells st ! i1, i1 := new_cell],
       dhead := n_used,
       dmoves := (if cont then dmoves st else dmoves st + 1)\<rparr>"

text \<open>\<open>for (; i1 < n_kv; ++i1)\<close>: fill the hole; whether to stop, and the new state.\<close>

function move_loop :: "nat \<Rightarrow> nat \<Rightarrow> nat \<Rightarrow> nat \<Rightarrow> nat \<Rightarrow> nat \<Rightarrow> nat \<Rightarrow> bool \<Rightarrow> defrag_state \<Rightarrow> bool \<times> defrag_state" where
  "move_loop n_kv n_used max_moves i0 nh i1 nf cont st =
    (if i1 < n_kv then
       if \<not> unmoved n_kv st i1 then
         if dmoves st = max_moves then (True, st)
         else move_loop n_kv n_used max_moves i0 nh (i1 + 1) nf False st
       else
         let st = move_cell n_used i1 (i0 + nf) cont st in
         if nf + 1 = nh then (False, st)
         else move_loop n_kv n_used max_moves i0 nh (i1 + 1) (nf + 1) True st
     else (False, st))"
  by pat_completeness auto
termination by (relation "measure (\<lambda>(n_kv, n_used, max_moves, i0, nh, i1, nf, cont, st). n_kv - i1)") auto

declare move_loop.simps [simp del]

text \<open>The outer loop. \<open>nh \<ge> 1\<close>, so \<open>i0\<close> advances.\<close>

lemma hole_size_ge: "nh \<le> hole_size cells n_used i0 nh"
proof (induction cells n_used i0 nh rule: hole_size.induct)
  case (1 cells n_used i0 nh)
  then show ?case by (subst hole_size.simps) auto
qed

function defrag_loop :: "nat \<Rightarrow> nat \<Rightarrow> nat \<Rightarrow> nat \<Rightarrow> defrag_state \<Rightarrow> defrag_state res" where
  "defrag_loop n_kv n_used max_moves i0 st =
    (if i0 < n_used then
       if \<not> is_empty (dcells st ! i0) then
         defrag_loop n_kv n_used max_moves (i0 + 1) (st\<lparr>dids := (dids st)[i0 := i0]\<rparr>)
       else
         let nh = hole_size (dcells st) n_used i0 1;
             (i, nf) = scan_tail n_kv st i0 nh (n_kv - 1) 0 in
         if nf \<noteq> nh then Inl (Abort ''KV defrag bug: nf != nh'')
         else let (stop, st) = move_loop n_kv n_used max_moves i0 nh i 0 False st in
           if stop \<or> dmoves st = max_moves then Inr st
           else defrag_loop n_kv n_used max_moves (i0 + nh) st
     else Inr st)"
  by pat_completeness auto
termination
proof (relation "measure (\<lambda>(n_kv, n_used, max_moves, i0, st). n_used - i0)")
  fix n_used i0 :: nat and st nh
  assume "i0 < n_used" "nh = hole_size (dcells st) n_used i0 1"
  with hole_size_ge [of 1 "dcells st" n_used i0]
  show "((n_kv, n_used, max_moves, i0 + nh, st'), (n_kv, n_used, max_moves, i0, st))
    \<in> measure (\<lambda>(n_kv, n_used, max_moves, i0, st). n_used - i0)" for n_kv max_moves st' by auto
qed auto

declare defrag_loop.simps [simp del]

section \<open>Moving the data\<close>

text \<open>
  \<open>build_defrag\<close>: the blocks \<open>(source, destination, length)\<close> it copies, and their effect in order. Its
  inner loop extends a block while the destinations are consecutive.
\<close>

function run_length :: "nat list \<Rightarrow> nat \<Rightarrow> nat \<Rightarrow> nat" where
  "run_length ids i nm =
    (if i + nm < length ids \<and> ids ! (i + nm) = ids ! i + nm then run_length ids i (nm + 1) else nm)"
  by pat_completeness auto
termination by (relation "measure (\<lambda>(ids, i, nm). length ids - (i + nm))") auto

declare run_length.simps [simp del]

lemma run_length_ge: "nm \<le> run_length ids i nm"
proof (induction ids i nm rule: run_length.induct)
  case (1 ids i nm)
  then show ?case by (subst run_length.simps) auto
qed

function build_defrag :: "nat list \<Rightarrow> nat \<Rightarrow> (nat \<times> nat \<times> nat) list" where
  "build_defrag ids i =
    (if i < length ids then
       if i = ids ! i \<or> ids ! i = length ids then build_defrag ids (i + 1)
       else let nm = run_length ids i 1 in (i, ids ! i, nm) # build_defrag ids (i + nm)
     else [])"
  by pat_completeness auto
termination
proof (relation "measure (\<lambda>(ids, i). length ids - i)")
  fix ids :: "nat list" and i nm
  assume "i < length ids" "nm = run_length ids i 1"
  with run_length_ge [of 1 ids i] show "((ids, i + nm), ids, i) \<in> measure (\<lambda>(ids, i). length ids - i)" by auto
qed auto

declare build_defrag.simps [simp del]

definition copy_block :: "nat \<times> nat \<times> nat \<Rightarrow> 'a list \<Rightarrow> 'a list" where
  "copy_block b rows = (case b of (src, dst, nm) \<Rightarrow>
     take dst rows @ take nm (drop src rows) @ drop (dst + nm) rows)"

section \<open>Defragmentation and pending updates\<close>

definition llama_model_max_nodes :: "nat \<Rightarrow> nat" where
  "llama_model_max_nodes n_tensors = max 8192 (n_tensors * 5)"

definition max_moves_of :: "nat \<Rightarrow> nat \<Rightarrow> nat" where
  "max_moves_of max_nodes n_layer = (max_nodes - 2 * n_layer) div (6 * n_layer)"

definition llama_kv_cache_defrag_internal :: "nat \<Rightarrow> kv_cache \<Rightarrow> 'a list \<Rightarrow> (kv_cache \<times> 'a list) res" where
  "llama_kv_cache_defrag_internal max_moves cache rows =
    (let n_kv = llama_kv_cache_cell_max cache; n_used = unat (kused cache) in
     if \<not> n_used \<le> n_kv then Inl (Abort ''n_used <= n_kv'')
     else bindE (defrag_loop n_kv n_used max_moves 0
                   \<lparr>dcells = kcells cache, dids = replicate n_kv n_kv, dmoves = 0, dhead = khead cache\<rparr>)
       (\<lambda>st. let cache = cache\<lparr>kcells := dcells st, khead := dhead st\<rparr> in
         if dmoves st = 0 then Inr (cache, rows)
         else Inr (cache, fold copy_block (build_defrag (dids st) 0) rows)))"

definition llama_set_k_shift :: "kv_cache \<Rightarrow> int list" where
  "llama_set_k_shift cache = map cdelta (kcells cache)"

definition build_k_shift :: "(int \<Rightarrow> 'a \<Rightarrow> 'a) \<Rightarrow> int list \<Rightarrow> 'a list \<Rightarrow> 'a list" where
  "build_k_shift rot shifts rows = map2 rot shifts rows"

definition llama_set_s_copy :: "kv_cache \<Rightarrow> int list" where
  "llama_set_s_copy cache = map csrc (kcells cache)"

definition build_s_copy :: "int list \<Rightarrow> 'a list \<Rightarrow> 'a list" where
  "build_s_copy srcs rows = map (\<lambda>src. rows ! nat src) srcs"

text \<open>The properties of the model \<open>llama_kv_cache_update_internal\<close> reads.\<close>

record update_params =
  rope_none :: bool
  deepseek2 :: bool
  n_tensors :: nat
  n_layer :: nat

definition apply_k_shift :: "(int \<Rightarrow> 'a \<Rightarrow> 'a) \<Rightarrow> update_params \<Rightarrow> kv_cache \<times> 'a list \<Rightarrow> (kv_cache \<times> 'a list) res" where
  "apply_k_shift rot m s = (case s of (cache, rows) \<Rightarrow>
     if \<not> rope_none m \<and> has_shift cache then
       if deepseek2 m then Inl (Abort ''Deepseek2 does not support K-shift'')
       else Inr (cache\<lparr>has_shift := False, kcells := map (\<lambda>cell. cell\<lparr>cdelta := 0\<rparr>) (kcells cache)\<rparr>,
                 build_k_shift rot (llama_set_k_shift cache) rows)
     else Inr (cache, rows))"

definition apply_s_copy :: "kv_cache \<times> 'a list \<Rightarrow> kv_cache \<times> 'a list" where
  "apply_s_copy s = (case s of (cache, rows) \<Rightarrow>
     if recurrent cache \<and> do_copy cache then
       (cache\<lparr>do_copy := False, kcells := map (\<lambda>(i, cell). cell\<lparr>csrc := int i\<rparr>) (enumerate 0 (kcells cache))\<rparr>,
        build_s_copy (llama_set_s_copy cache) rows)
     else (cache, rows))"

definition apply_defrag :: "update_params \<Rightarrow> kv_cache \<times> 'a list \<Rightarrow> (kv_cache \<times> 'a list) res" where
  "apply_defrag m s = (case s of (cache, rows) \<Rightarrow>
     if do_defrag cache then
       bindE (llama_kv_cache_defrag_internal (max_moves_of (llama_model_max_nodes (n_tensors m)) (n_layer m)) cache rows)
         (\<lambda>(cache, rows). Inr (cache\<lparr>do_defrag := False\<rparr>, rows))
     else Inr (cache, rows))"

definition llama_kv_cache_update_internal ::
    "(int \<Rightarrow> 'a \<Rightarrow> 'a) \<Rightarrow> update_params \<Rightarrow> kv_cache \<times> 'a list \<Rightarrow> (kv_cache \<times> 'a list) res" where
  "llama_kv_cache_update_internal rot m s =
    bindE (apply_k_shift rot m s) (\<lambda>s. apply_defrag m (apply_s_copy s))"

end
