(* ===== verification/KvDefragProps.thy ===== *)
theory KvDefragProps
  imports KvDefrag
begin

text \<open>
  Defragmentation: the invariant of its two loops, by a bijection from the occupied cells to where
  their content is; the copies of the graph follow the same bijection on the data.
\<close>

section \<open>Live cells\<close>

definition live :: "kv_cell list \<Rightarrow> nat set" where
  "live cells = {j. j < length cells \<and> \<not> is_empty (cells ! j)}"

lemma finite_live [simp]: "finite (live cells)"
  by (simp add: live_def)

lemma occupied_live: "occupied cells = card (live cells)"
  by (simp add: occupied_def live_def length_filter_conv_card)

lemma live_cell_max:
  assumes "kv_inv cache" "j \<in> live (kcells cache)"
  shows "j < llama_kv_cache_cell_max cache"
proof -
  let ?P = "\<lambda>i. cpos (kcells cache ! i) \<ge> 0 \<and> \<not> is_empty (kcells cache ! i)"
  from assms have j: "j < ksize cache" "?P j"
    by (auto simp: live_def kv_inv_def list_all_length cell_ok_def)
  then have "find ?P (rev [0..<ksize cache]) \<noteq> None" by (auto simp: find_None_iff)
  then obtain i where i: "find ?P (rev [0..<ksize cache]) = Some i" by auto
  then obtain k where k: "k < ksize cache" "i = ksize cache - Suc k" "\<forall>l<k. \<not> ?P (rev [0..<ksize cache] ! l)"
    by (auto simp: find_Some_iff rev_nth)
  have "j \<le> i"
  proof (rule ccontr)
    assume "\<not> j \<le> i"
    with k j have "ksize cache - Suc j < k" by simp
    with k have "\<not> ?P (rev [0..<ksize cache] ! (ksize cache - Suc j))" by blast
    with j show False by (simp add: rev_nth)
  qed
  with i show ?thesis by (simp add: llama_kv_cache_cell_max_def)
qed

lemma cell_max_le: "llama_kv_cache_cell_max cache \<le> ksize cache"
proof (cases "find (\<lambda>i. cpos (kcells cache ! i) \<ge> 0 \<and> \<not> is_empty (kcells cache ! i)) (rev [0..<ksize cache])")
  case (Some i)
  then have "i \<in> set (rev [0..<ksize cache])" unfolding find_Some_iff by (metis nth_mem)
  with Some show ?thesis by (simp add: llama_kv_cache_cell_max_def)
qed (simp add: llama_kv_cache_cell_max_def)

section \<open>The search for moves\<close>

lemma hole_size_empty:
  "i0 + nh \<le> n_used \<Longrightarrow> \<forall>j. i0 \<le> j \<and> j < i0 + nh \<longrightarrow> is_empty (cells ! j) \<Longrightarrow>
   i0 + hole_size cells n_used i0 nh \<le> n_used \<and>
   (\<forall>j. i0 \<le> j \<and> j < i0 + hole_size cells n_used i0 nh \<longrightarrow> is_empty (cells ! j))"
proof (induction cells n_used i0 nh rule: hole_size.induct)
  case (1 cells n_used i0 nh)
  show ?case
  proof (cases "i0 + nh < n_used \<and> is_empty (cells ! (i0 + nh))")
    case True
    then have "\<forall>j. i0 \<le> j \<and> j < i0 + (nh + 1) \<longrightarrow> is_empty (cells ! j)"
      using "1.prems"(2) by (auto simp: less_Suc_eq)
    with "1.IH" True show ?thesis by (subst (1 2) hole_size.simps) simp
  next
    case False
    with "1.prems" show ?thesis by (subst (1 2) hole_size.simps) auto
  qed
qed

definition live_from :: "kv_cell list \<Rightarrow> nat \<Rightarrow> nat \<Rightarrow> nat set" where
  "live_from cells a b = {j. a \<le> j \<and> j < b \<and> \<not> is_empty (cells ! j)}"

lemma finite_live_from [simp]: "finite (live_from cells a b)"
  by (rule finite_subset [of _ "{..<b}"]) (auto simp: live_from_def)

lemma live_from_Suc: "live_from cells a (Suc b) =
    (if a \<le> b \<and> \<not> is_empty (cells ! b) then insert b (live_from cells a b) else live_from cells a b)"
  by (auto simp: live_from_def less_Suc_eq)

lemma live_from_first: "a < b \<Longrightarrow> live_from cells a b =
    (if is_empty (cells ! a) then live_from cells (Suc a) b else insert a (live_from cells (Suc a) b))"
  by (intro set_eqI) (auto simp: live_from_def Suc_le_eq le_eq_less_or_eq)

lemma live_from_notin [simp]: "a \<notin> live_from cells (Suc a) b" "b \<notin> live_from cells a b"
  by (auto simp: live_from_def)

lemma scan_tail_finds:
  assumes "\<And>j. i0 < j \<Longrightarrow> j < n_kv \<Longrightarrow> unmoved n_kv st j \<longleftrightarrow> \<not> is_empty (dcells st ! j)"
  shows "scan_tail n_kv st i0 nh i nf = (r, nf') \<Longrightarrow> nf < nh \<Longrightarrow> i0 < u \<Longrightarrow> i < n_kv \<Longrightarrow>
    card (live_from (dcells st) u (Suc i)) \<ge> nh - nf \<Longrightarrow>
    nf' = nh \<and> u \<le> r \<and> r \<le> i \<and> card (live_from (dcells st) r (Suc i)) = nh - nf"
proof (induction i arbitrary: nf)
  case 0
  then have "live_from (dcells st) u (Suc 0) = {}" by (auto simp: live_from_def)
  with 0 show ?case by simp
next
  case (Suc i)
  note card = Suc.prems(5)
  have ge: "u \<le> Suc i"
  proof (rule ccontr)
    assume "\<not> u \<le> Suc i"
    then have "live_from (dcells st) u (Suc (Suc i)) = {}" by (auto simp: live_from_def)
    with Suc.prems(2) card show False by simp
  qed
  then have lt: "i0 < Suc i" using Suc.prems(3) by simp
  show ?case
  proof (cases "is_empty (dcells st ! Suc i)")
    case True
    then have step: "scan_tail n_kv st i0 nh i nf = (r, nf')" using Suc.prems(1) lt assms [OF lt Suc.prems(4)] by simp
    from True have eq: "live_from (dcells st) a (Suc (Suc i)) = live_from (dcells st) a (Suc i)" for a
      by (subst live_from_Suc) simp
    from Suc.IH [OF step Suc.prems(2,3)] Suc.prems(4) card show ?thesis unfolding eq by simp
  next
    case occ: False
    from occ have eq: "live_from (dcells st) a (Suc (Suc i)) = insert (Suc i) (live_from (dcells st) a (Suc i))"
      if "a \<le> Suc i" for a using that by (subst live_from_Suc) simp
    show ?thesis
    proof (cases "nf + 1 = nh")
      case True
      have "live_from (dcells st) (Suc i) (Suc (Suc i)) = {Suc i}" using occ by (auto simp: live_from_def)
      with True Suc.prems(1) lt assms [OF lt Suc.prems(4)] occ ge show ?thesis by auto
    next
      case False
      have step: "scan_tail n_kv st i0 nh i (nf + 1) = (r, nf')" using Suc.prems(1) lt assms [OF lt Suc.prems(4)] occ False by simp
      have "card (live_from (dcells st) u (Suc i)) \<ge> nh - (nf + 1)" using card eq [OF ge] by simp
      with Suc.IH [OF step _ Suc.prems(3)] False Suc.prems(2,4)
      have r: "nf' = nh \<and> u \<le> r \<and> r \<le> i \<and> card (live_from (dcells st) r (Suc i)) = nh - (nf + 1)" by simp
      with eq [of r] Suc.prems(2) show ?thesis by simp
    qed
  qed
qed


section \<open>The invariant of the moves\<close>

definition moved :: "nat list \<Rightarrow> nat \<Rightarrow> bool" where
  "moved ids j \<longleftrightarrow> j < length ids \<and> ids ! j \<noteq> j \<and> ids ! j \<noteq> length ids"

text \<open>Where the content of cell \<open>j\<close> is.\<close>

definition dest :: "nat list \<Rightarrow> nat \<Rightarrow> nat" where
  "dest ids j = (if moved ids j then ids ! j else j)"

definition defrag_inv :: "kv_cell list \<Rightarrow> nat \<Rightarrow> nat \<Rightarrow> nat \<Rightarrow> defrag_state \<Rightarrow> bool" where
  "defrag_inv cells n_kv u i0 st \<longleftrightarrow>
     length (dcells st) = length cells \<and> length (dids st) = n_kv \<and> u \<le> n_kv \<and> n_kv \<le> length cells
     \<and> list_all cell_ok (dcells st) \<and> live cells \<subseteq> {..<n_kv}
     \<and> (\<forall>j<n_kv. dids st ! j = j \<longrightarrow> j < i0)
     \<and> (\<forall>j. moved (dids st) j \<longrightarrow> j \<in> live cells \<and> u \<le> j \<and> dids st ! j < u)
     \<and> bij_betw (dest (dids st)) (live cells) (live (dcells st))
     \<and> (\<forall>j\<in>live cells. dcells st ! dest (dids st) j = cells ! j)"

lemma defrag_inv_live:
  assumes "defrag_inv cells n_kv u i0 st" "j \<in> live (dcells st)" "u \<le> j"
  shows "j \<in> live cells \<and> j < n_kv \<and> \<not> moved (dids st) j"
proof -
  from assms have "j \<in> dest (dids st) ` live cells" by (auto simp: defrag_inv_def bij_betw_def)
  then obtain k where k: "k \<in> live cells" "j = dest (dids st) k" by blast
  with assms have "\<not> moved (dids st) k" by (fastforce simp: defrag_inv_def dest_def)
  with k assms show ?thesis by (auto simp: defrag_inv_def dest_def)
qed

lemma defrag_inv_low_live:
  assumes "defrag_inv cells n_kv u i0 st"
  shows "live (dcells st) \<subseteq> {..<n_kv}"
proof
  fix j assume j: "j \<in> live (dcells st)"
  show "j \<in> {..<n_kv}"
  proof (cases "u \<le> j")
    case True
    then show ?thesis using defrag_inv_live [OF assms j] by simp
  next
    case False
    then show ?thesis using assms by (simp add: defrag_inv_def)
  qed
qed

lemma unmoved_iff:
  assumes inv: "defrag_inv cells n_kv u i0 st" and j: "i0 \<le> j" "j < n_kv"
  shows "unmoved n_kv st j \<longleftrightarrow> \<not> is_empty (dcells st ! j)"
proof -
  have "dids st ! j = n_kv" if occ: "\<not> is_empty (dcells st ! j)"
  proof (rule ccontr)
    assume "dids st ! j \<noteq> n_kv"
    with inv j have m: "moved (dids st) j" by (auto simp: defrag_inv_def moved_def)
    with inv have "u \<le> j" by (auto simp: defrag_inv_def)
    moreover have "j \<in> live (dcells st)" using inv j occ by (auto simp: defrag_inv_def live_def)
    ultimately show False using defrag_inv_live [OF inv] m by blast
  qed
  then show ?thesis by (auto simp: unmoved_def)
qed

lemma defrag_inv_keep:
  assumes "defrag_inv cells n_kv u i0 st" "j < u" "\<not> is_empty (dcells st ! j)" "i0 \<le> j" "j < i0'" "i0 \<le> i0'"
  shows "defrag_inv cells n_kv u i0' (st\<lparr>dids := (dids st)[j := j]\<rparr>)"
proof -
  have len: "j < length (dids st)" "length (dids st) = n_kv" using assms(1,2) by (auto simp: defrag_inv_def)
  have nm: "\<not> moved (dids st) j" using assms(1,2) by (force simp: defrag_inv_def)
  then have same: "moved ((dids st)[j := j]) = moved (dids st)" "dest ((dids st)[j := j]) = dest (dids st)"
    using len by (auto simp: fun_eq_iff moved_def dest_def nth_list_update)
  have "\<forall>k<n_kv. (dids st)[j := j] ! k = k \<longrightarrow> k < i0'"
    using assms(1,5,6) len by (auto simp: defrag_inv_def nth_list_update)
  moreover have "\<forall>k. moved (dids st) k \<longrightarrow> (dids st)[j := j] ! k < u"
    using assms(1) nm by (auto simp: defrag_inv_def) (metis nth_list_update_neq)
  ultimately show ?thesis using assms(1) same by (simp add: defrag_inv_def)
qed

lemma defrag_inv_move:
  assumes inv: "defrag_inv cells n_kv u i0 st" and i1: "u \<le> i1" "i1 < n_kv" "\<not> is_empty (dcells st ! i1)"
    and dst: "dst < u" "is_empty (dcells st ! dst)"
  shows "defrag_inv cells n_kv u i0 (move_cell n_used i1 dst cont st)"
proof -
  let ?ids = "(dids st)[i1 := dst]" and ?cells = "(dcells st)[dst := dcells st ! i1, i1 := new_cell]"
  note I = inv [unfolded defrag_inv_def]
  have len: "length (dids st) = n_kv" "i1 < length (dcells st)" "dst < length (dcells st)" "dst < n_kv" "dst \<noteq> i1"
    using I i1 dst by auto
  have "i1 \<in> live (dcells st)" using i1 len by (simp add: live_def)
  then have l1: "i1 \<in> live cells" "\<not> moved (dids st) i1" using defrag_inv_live [OF inv _ i1(1)] by auto
  have mv: "moved ?ids j \<longleftrightarrow> moved (dids st) j \<or> j = i1" for j
    using len i1 dst l1 by (auto simp: moved_def nth_list_update)
  have de: "dest ?ids j = (if j = i1 then dst else dest (dids st) j)" for j
    using len i1 mv by (auto simp: dest_def nth_list_update)
  have new: "is_empty new_cell" by (simp add: is_empty_def new_cell_def)
  have lv: "live ?cells = insert dst (live (dcells st) - {i1})"
    using len i1 dst new by (auto simp: live_def nth_list_update)
  have dnot: "dst \<notin> live (dcells st)" using dst by (simp add: live_def)
  have i1d: "dest (dids st) i1 = i1" using l1 by (simp add: dest_def)
  have bij: "bij_betw (dest (dids st)) (live cells) (live (dcells st))" using I by simp
  then have img: "dest (dids st) ` live cells = live (dcells st)" and inj: "inj_on (dest (dids st)) (live cells)"
    by (auto simp: bij_betw_def)
  have "bij_betw (dest (dids st)) (live cells - {i1}) (live (dcells st) - {i1})"
    using bij_betw_DiffI [OF bij, of "{i1}" "{i1}"] l1(1) i1d \<open>i1 \<in> live (dcells st)\<close> by (simp add: bij_betw_def)
  then have "bij_betw (dest ?ids) (live cells - {i1}) (live (dcells st) - {i1})"
    by (rule bij_betw_cong [THEN iffD1, rotated]) (simp add: de)
  then have "bij_betw (dest ?ids) (insert i1 (live cells - {i1})) (insert dst (live (dcells st) - {i1}))"
    using dnot notIn_Un_bij_betw [of i1 "live cells - {i1}" "dest ?ids" "live (dcells st) - {i1}"]
    by (simp add: de)
  then have bij': "bij_betw (dest ?ids) (live cells) (live ?cells)" using l1(1) lv by (simp add: insert_absorb)
  have cont': "?cells ! dest ?ids j = cells ! j" if j: "j \<in> live cells" for j
  proof (cases "j = i1")
    case True
    with len I l1 i1d j show ?thesis by (auto simp: de nth_list_update)
  next
    case False
    with j l1(1) inj i1d have "dest (dids st) j \<noteq> i1" by (metis inj_on_eq_iff)
    moreover have "dest (dids st) j \<noteq> dst" using j img dnot by blast
    ultimately show ?thesis using False I j by (simp add: de)
  qed
  have ident: "?ids ! j = j \<longrightarrow> j < i0" if "j < n_kv" for j
    using I that len by (cases "j = i1") (auto simp: nth_list_update)
  have mvd: "moved ?ids j \<longrightarrow> j \<in> live cells \<and> u \<le> j \<and> ?ids ! j < u" for j
    using I l1 i1 dst len unfolding mv by (cases "j = i1") (auto simp: nth_list_update)
  have "cell_ok new_cell" "cell_ok (dcells st ! i1)"
    using I len(2) by (auto simp: cell_ok_def is_empty_def new_cell_def list_all_length)
  then have lens: "length ?cells = length cells" "length ?ids = n_kv" "list_all cell_ok ?cells"
    using I by (auto simp: list_all_iff dest!: set_update_subset_insert [THEN subsetD])
  have "defrag_inv cells n_kv u i0 (move_cell n_used i1 dst cont st)
    \<longleftrightarrow> defrag_inv cells n_kv u i0 (st\<lparr>dids := ?ids, dcells := ?cells\<rparr>)"
    by (simp add: defrag_inv_def move_cell_def)
  also have "\<dots>" unfolding defrag_inv_def using I lens bij' cont' ident mvd by simp
  finally show ?thesis .
qed


text \<open>Where a block of moved cells starts: each start was counted, and a count means that a cell moved.\<close>

definition starts :: "nat list \<Rightarrow> nat set" where
  "starts ids = {j. moved ids j \<and> \<not> (0 < j \<and> moved ids (j - 1) \<and> ids ! j = ids ! (j - 1) + 1)}"

lemma finite_starts [simp]: "finite (starts ids)"
  by (rule finite_subset [of _ "{..<length ids}"]) (auto simp: starts_def moved_def)

lemma moved_keep: "moved ids k \<Longrightarrow> \<not> moved ids j \<Longrightarrow> moved (ids[j := j]) k"
  by (cases "k = j") (auto simp: moved_def)

lemma starts_keep: "\<not> moved ids j \<Longrightarrow> starts (ids[j := j]) = starts ids"
proof -
  assume nm: "\<not> moved ids j"
  have mv: "moved (ids[j := j]) k \<longleftrightarrow> moved ids k" for k
    using nm by (cases "k = j") (auto simp: moved_def)
  have "moved ids k \<Longrightarrow> ids[j := j] ! k = ids ! k" for k using nm by (cases "k = j") auto
  then show ?thesis by (auto simp: starts_def mv)
qed

lemma starts_move:
  assumes "\<not> moved ids i1"
  shows "starts (ids[i1 := dst]) \<subseteq> insert i1 (starts ids)"
    and "0 < i1 \<and> moved ids (i1 - 1) \<and> dst = ids ! (i1 - 1) + 1 \<Longrightarrow> starts (ids[i1 := dst]) \<subseteq> starts ids"
proof -
  have mv: "moved (ids[i1 := dst]) k \<longleftrightarrow> moved ids k" "ids[i1 := dst] ! k = ids ! k" if "k \<noteq> i1" for k
    using that by (auto simp: moved_def)
  have sub: "k \<in> starts ids" if "k \<in> starts (ids[i1 := dst])" "k \<noteq> i1" for k
    using that assms mv [of k] mv [of "k - 1"] by (cases "k - 1 = i1") (auto simp: starts_def)
  then show "starts (ids[i1 := dst]) \<subseteq> insert i1 (starts ids)" by blast
  assume prev: "0 < i1 \<and> moved ids (i1 - 1) \<and> dst = ids ! (i1 - 1) + 1"
  then have "i1 \<notin> starts (ids[i1 := dst])"
    using mv [of "i1 - 1"] by (auto simp: starts_def moved_def nth_list_update)
  with sub show "starts (ids[i1 := dst]) \<subseteq> starts ids" by blast
qed

definition counted :: "nat \<Rightarrow> defrag_state \<Rightarrow> bool" where
  "counted max_moves st \<longleftrightarrow> card (starts (dids st)) \<le> dmoves st \<and> dmoves st \<le> max_moves
     \<and> (0 < dmoves st \<longrightarrow> (\<exists>j. moved (dids st) j))"

lemma counted_move:
  assumes "counted max_moves st" "\<not> moved (dids st) i1"
    and "if cont then 0 < i1 \<and> moved (dids st) (i1 - 1) \<and> dst = dids st ! (i1 - 1) + 1 else dmoves st < max_moves"
    and "i1 < length (dids st)" "dst < i1"
  shows "counted max_moves (move_cell n_used i1 dst cont st)"
proof (cases cont)
  case True
  have "moved ((dids st)[i1 := dst]) i1" using assms(4,5) by (simp add: moved_def)
  then have moved: "\<exists>j. moved ((dids st)[i1 := dst]) j" by blast
  from True starts_move(2) [OF assms(2), of dst] assms(3)
  have "starts ((dids st)[i1 := dst]) \<subseteq> starts (dids st)" by simp
  then have "card (starts ((dids st)[i1 := dst])) \<le> card (starts (dids st))" by (intro card_mono) auto
  with True moved assms show ?thesis by (simp add: counted_def move_cell_def)
next
  case False
  have "moved ((dids st)[i1 := dst]) i1" using assms(4,5) by (simp add: moved_def)
  then have moved: "\<exists>j. moved ((dids st)[i1 := dst]) j" by blast
  have "card (starts ((dids st)[i1 := dst])) \<le> card (insert i1 (starts (dids st)))"
    by (intro card_mono starts_move(1) [OF assms(2)]) auto
  also have "\<dots> \<le> card (starts (dids st)) + 1" by (simp add: card_insert_if)
  finally show ?thesis using False moved assms by (simp add: counted_def move_cell_def)
qed

lemma move_loop_fills:
  "move_loop n_kv n_used max_moves i0 nh i1 nf cont st = (stop, st') \<Longrightarrow>
   defrag_inv cells n_kv u i0 st \<Longrightarrow> counted max_moves st \<Longrightarrow> u \<le> i1 \<Longrightarrow> i0 \<le> u \<Longrightarrow> i0 + nh \<le> u \<Longrightarrow> nf < nh \<Longrightarrow>
   \<forall>j<i0 + nf. \<not> is_empty (dcells st ! j) \<Longrightarrow> \<forall>j. i0 + nf \<le> j \<and> j < i0 + nh \<longrightarrow> is_empty (dcells st ! j) \<Longrightarrow>
   card (live_from (dcells st) i1 n_kv) = nh - nf \<Longrightarrow>
   (if cont then 0 < i1 \<and> moved (dids st) (i1 - 1) \<and> i0 + nf = dids st ! (i1 - 1) + 1 else dmoves st < max_moves) \<Longrightarrow>
   defrag_inv cells n_kv u i0 st' \<and> counted max_moves st' \<and> (stop \<longrightarrow> dmoves st' = max_moves)
   \<and> (\<not> stop \<longrightarrow> (\<forall>j<i0 + nh. \<not> is_empty (dcells st' ! j)))
   \<and> (dhead st' = dhead st \<or> dhead st' = n_used)"
proof (induction n_kv n_used max_moves i0 nh i1 nf cont st rule: move_loop.induct)
  case (1 n_kv n_used max_moves i0 nh i1 nf cont st)
  note step = "1.prems"(1) [unfolded move_loop.simps [of n_kv n_used max_moves i0 nh i1]]
  note inv = "1.prems"(2)
  have lt: "i1 < n_kv"
  proof (rule ccontr)
    assume "\<not> i1 < n_kv"
    then have "live_from (dcells st) i1 n_kv = {}" by (auto simp: live_from_def)
    with "1.prems"(7,10) show False by simp
  qed
  have um: "unmoved n_kv st i1 \<longleftrightarrow> \<not> is_empty (dcells st ! i1)"
    using unmoved_iff [OF inv] "1.prems"(4,5) lt by simp
  show ?case
  proof (cases "is_empty (dcells st ! i1)")
    case True
    show ?thesis
    proof (cases "dmoves st = max_moves")
      case eq: True
      with step lt um True have "stop" "st' = st" by auto
      with "1.prems" eq show ?thesis by simp
    next
      case False
      with step lt um True have rec: "move_loop n_kv n_used max_moves i0 nh (i1 + 1) nf False st = (stop, st')" by simp
      have "card (live_from (dcells st) (i1 + 1) n_kv) = nh - nf"
        using live_from_first [OF lt, of "dcells st"] True "1.prems"(10) by simp
      moreover have "dmoves st < max_moves" using False "1.prems"(3) by (simp add: counted_def)
      ultimately show ?thesis using "1.IH"(1) [OF lt _ False rec] um True "1.prems"(2-9) by simp
    qed
  next
    case occ: False
    let ?st = "move_cell n_used i1 (i0 + nf) cont st"
    have l1: "\<not> moved (dids st) i1"
      using defrag_inv_live [OF inv _ "1.prems"(4)] inv lt occ by (auto simp: defrag_inv_def live_def)
    have d: "i0 + nf < u" "is_empty (dcells st ! (i0 + nf))" using "1.prems"(6,7,9) by auto
    have inv': "defrag_inv cells n_kv u i0 ?st" by (rule defrag_inv_move [OF inv "1.prems"(4) lt occ d])
    have len: "i0 + nf < length (dcells st)" "i1 < length (dcells st)" "length (dids st) = n_kv" "i0 + nf < i1" "i0 + nf < n_kv"
      using inv d lt "1.prems"(4) by (auto simp: defrag_inv_def)
    have cnt': "counted max_moves ?st" by (rule counted_move [OF "1.prems"(3) l1 "1.prems"(11)]) (use len lt in simp_all)
    have filled: "\<forall>j<i0 + (nf + 1). \<not> is_empty (dcells ?st ! j)"
      using "1.prems"(8) occ len by (auto simp: move_cell_def nth_list_update less_Suc_eq)
    have hd: "dhead ?st = n_used" by (simp add: move_cell_def)
    show ?thesis
    proof (cases "nf + 1 = nh")
      case True
      with step lt um occ have "\<not> stop" "st' = ?st" by (auto simp: Let_def)
      with inv' cnt' filled True hd show ?thesis by simp
    next
      case False
      with step lt um occ have rec: "move_loop n_kv n_used max_moves i0 nh (i1 + 1) (nf + 1) True ?st = (stop, st')"
        by (simp add: Let_def)
      have empty: "\<forall>j. i0 + (nf + 1) \<le> j \<and> j < i0 + nh \<longrightarrow> is_empty (dcells ?st ! j)"
        using "1.prems"(4,6,9) len by (auto simp: move_cell_def nth_list_update)
      have "live_from (dcells ?st) (i1 + 1) n_kv = live_from (dcells st) (i1 + 1) n_kv"
        using len by (auto simp: live_from_def move_cell_def nth_list_update)
      then have card: "card (live_from (dcells ?st) (i1 + 1) n_kv) = nh - (nf + 1)"
        using live_from_first [OF lt, of "dcells st"] occ "1.prems"(10) by simp
      have cont: "moved (dids ?st) i1" "dids ?st ! i1 = i0 + nf"
        using len lt by (auto simp: move_cell_def moved_def)
      show ?thesis
        using "1.IH"(2) [OF lt _ refl False rec inv' cnt' _ "1.prems"(5,6) _ filled empty card] um occ "1.prems"(4,7) False cont hd
        by simp
    qed
  qed
qed


lemma defrag_inv_mono: "defrag_inv cells n_kv u i0 st \<Longrightarrow> i0 \<le> i0' \<Longrightarrow> defrag_inv cells n_kv u i0' st"
  by (auto simp: defrag_inv_def)

lemma enough_tail:
  assumes "defrag_inv cells n_kv u i0 st" "card (live cells) = u"
    and "i0 + nh \<le> u" "\<forall>j. i0 \<le> j \<and> j < i0 + nh \<longrightarrow> is_empty (dcells st ! j)"
  shows "nh \<le> card (live_from (dcells st) u n_kv)"
proof -
  have "card (live (dcells st)) = u" using assms(1,2) by (metis bij_betw_same_card defrag_inv_def)
  moreover have "live (dcells st) \<subseteq> ({..<u} - {i0..<i0 + nh}) \<union> live_from (dcells st) u n_kv"
    using defrag_inv_low_live [OF assms(1)] assms(4) by (auto simp: live_def live_from_def)
  then have "card (live (dcells st)) \<le> card (({..<u} - {i0..<i0 + nh}) \<union> live_from (dcells st) u n_kv)"
    by (intro card_mono) auto
  moreover have "card (({..<u} - {i0..<i0 + nh}) \<union> live_from (dcells st) u n_kv)
    \<le> card ({..<u} - {i0..<i0 + nh}) + card (live_from (dcells st) u n_kv)" by (rule card_Un_le)
  moreover have "card ({..<u} - {i0..<i0 + nh}) = u - nh"
    using assms(3) by (subst card_Diff_subset) auto
  ultimately show ?thesis using assms(3) by linarith
qed

lemma defrag_loop_ok:
  "defrag_inv cells n_kv u i0 st \<Longrightarrow> card (live cells) = u \<Longrightarrow> counted max_moves st \<Longrightarrow> dmoves st < max_moves \<Longrightarrow>
   i0 \<le> u \<Longrightarrow> \<forall>j<i0. \<not> is_empty (dcells st ! j) \<Longrightarrow>
   \<exists>st'. defrag_loop n_kv u max_moves i0 st = Inr st' \<and> defrag_inv cells n_kv u u st' \<and> counted max_moves st'
     \<and> (dmoves st' = max_moves \<or> (\<forall>j<u. \<not> is_empty (dcells st' ! j)))
     \<and> (dhead st' = dhead st \<or> dhead st' = u)"
proof (induction n_kv u max_moves i0 st rule: defrag_loop.induct)
  case (1 n_kv u max_moves i0 st)
  note inv = "1.prems"(1)
  show ?case
  proof (cases "i0 < u")
    case False
    with "1.prems" defrag_inv_mono [OF inv] show ?thesis by (subst defrag_loop.simps) auto
  next
    case lt: True
    show ?thesis
    proof (cases "is_empty (dcells st ! i0)")
      case False
      have "\<not> moved (dids st) i0" using inv lt by (force simp: defrag_inv_def)
      then have "counted max_moves (st\<lparr>dids := (dids st)[i0 := i0]\<rparr>)"
        using "1.prems"(3) moved_keep by (auto simp: counted_def starts_keep)
      moreover have "defrag_inv cells n_kv u (i0 + 1) (st\<lparr>dids := (dids st)[i0 := i0]\<rparr>)"
        by (rule defrag_inv_keep [OF inv lt False]) auto
      ultimately show ?thesis
        using "1.IH"(1) [OF lt False] "1.prems" lt False by (subst defrag_loop.simps) (simp add: less_Suc_eq)
    next
      case True
      define nh where "nh = hole_size (dcells st) u i0 1"
      have nh: "i0 + nh \<le> u" "\<forall>j. i0 \<le> j \<and> j < i0 + nh \<longrightarrow> is_empty (dcells st ! j)" "1 \<le> nh"
      proof -
        have "\<forall>j. i0 \<le> j \<and> j < i0 + 1 \<longrightarrow> is_empty (dcells st ! j)" using True by (metis Suc_eq_plus1 le_antisym less_Suc_eq_le)
        with hole_size_empty [of i0 1 u "dcells st"] lt
        show "i0 + nh \<le> u" "\<forall>j. i0 \<le> j \<and> j < i0 + nh \<longrightarrow> is_empty (dcells st ! j)" by (simp_all add: nh_def)
        show "1 \<le> nh" using hole_size_ge [of 1 "dcells st" u i0] by (simp add: nh_def)
      qed
      have kv: "u \<le> n_kv" "0 < n_kv" using inv lt by (auto simp: defrag_inv_def)
      obtain r nf where scan: "scan_tail n_kv st i0 nh (n_kv - 1) 0 = (r, nf)" by fastforce
      have um: "unmoved n_kv st j \<longleftrightarrow> \<not> is_empty (dcells st ! j)" if "i0 < j" "j < n_kv" for j
        using unmoved_iff [OF inv] that by simp
      from scan_tail_finds [OF um scan, of u] enough_tail [OF inv "1.prems"(2) nh(1,2)] nh(3) lt kv
      have r: "nf = nh" "u \<le> r" "card (live_from (dcells st) r n_kv) = nh" by simp_all
      obtain stop st' where mv: "move_loop n_kv u max_moves i0 nh r 0 False st = (stop, st')" by fastforce
      from move_loop_fills [OF mv inv "1.prems"(3) r(2) "1.prems"(5) nh(1)] nh r(3) "1.prems"(4,6)
      have st': "defrag_inv cells n_kv u i0 st'" "counted max_moves st'" "stop \<longrightarrow> dmoves st' = max_moves"
        "\<not> stop \<longrightarrow> (\<forall>j<i0 + nh. \<not> is_empty (dcells st' ! j))" "dhead st' = dhead st \<or> dhead st' = u"
        by simp_all
      show ?thesis
      proof (cases "stop \<or> dmoves st' = max_moves")
        case True
        with \<open>is_empty (dcells st ! i0)\<close> lt scan r mv have "defrag_loop n_kv u max_moves i0 st = Inr st'"
          by (subst defrag_loop.simps) (simp add: Let_def nh_def [symmetric, unfolded One_nat_def])
        with st' True defrag_inv_mono [OF st'(1)] "1.prems"(5) show ?thesis by auto
      next
        case False
        with \<open>is_empty (dcells st ! i0)\<close> lt scan r mv
        have "defrag_loop n_kv u max_moves i0 st = defrag_loop n_kv u max_moves (i0 + nh) st'"
          by (subst defrag_loop.simps) (simp add: Let_def nh_def [symmetric, unfolded One_nat_def])
        moreover have "dmoves st' < max_moves" using False st'(2) by (auto simp: counted_def)
        moreover have "defrag_inv cells n_kv u (i0 + nh) st'" using defrag_inv_mono [OF st'(1)] by simp
        ultimately show ?thesis
          using "1.IH"(2) [OF lt _ nh_def refl scan [symmetric] _ refl mv [symmetric] False] True r(1) st' False nh(1) "1.prems"(2) by auto
      qed
    qed
  qed
qed

section \<open>The data follows the cells\<close>

text \<open>The moves go from above \<open>u\<close> to below it, each to its own place.\<close>

definition moves_ok :: "nat list \<Rightarrow> nat \<Rightarrow> bool" where
  "moves_ok ids u \<longleftrightarrow> u \<le> length ids \<and> (\<forall>j. moved ids j \<longrightarrow> u \<le> j \<and> ids ! j < u) \<and> inj_on (\<lambda>j. ids ! j) {j. moved ids j}"

lemma run_length_run:
  "moves_ok ids u \<Longrightarrow> 1 \<le> nm \<Longrightarrow> i + nm \<le> length ids \<Longrightarrow> \<forall>k<nm. moved ids (i + k) \<and> ids ! (i + k) = ids ! i + k \<Longrightarrow>
    i + run_length ids i nm \<le> length ids \<and>
    (\<forall>k<run_length ids i nm. moved ids (i + k) \<and> ids ! (i + k) = ids ! i + k) \<and>
    (i + run_length ids i nm < length ids \<longrightarrow> ids ! (i + run_length ids i nm) \<noteq> ids ! i + run_length ids i nm)"
proof (induction ids i nm rule: run_length.induct)
  case (1 ids i nm)
  note ok = "1.prems"(1)
  show ?case
  proof (cases "i + nm < length ids \<and> ids ! (i + nm) = ids ! i + nm")
    case True
    have "nm - 1 < nm" "0 < nm" using "1.prems"(2) by simp_all
    with "1.prems"(4) have last: "moved ids (i + (nm - 1))" "ids ! (i + (nm - 1)) = ids ! i + (nm - 1)" "moved ids i"
      by (metis, metis, metis add_0_right)
    with ok have u: "u \<le> i" "ids ! i + (nm - 1) < u" unfolding moves_ok_def by metis+
    then have "moved ids (i + nm)" using True "1.prems"(2) by (auto simp: moved_def)
    with True "1.prems"(4) have "\<forall>k<nm + 1. moved ids (i + k) \<and> ids ! (i + k) = ids ! i + k"
      by (auto simp: less_Suc_eq)
    with "1.IH" True "1.prems" have "i + run_length ids i (nm + 1) \<le> length ids \<and>
      (\<forall>k<run_length ids i (nm + 1). moved ids (i + k) \<and> ids ! (i + k) = ids ! i + k) \<and>
      (i + run_length ids i (nm + 1) < length ids \<longrightarrow>
        ids ! (i + run_length ids i (nm + 1)) \<noteq> ids ! i + run_length ids i (nm + 1))" by simp
    moreover have "run_length ids i nm = run_length ids i (nm + 1)" using True by (subst run_length.simps) simp
    ultimately show ?thesis by simp
  next
    case False
    then have "run_length ids i nm = nm" by (subst run_length.simps) auto
    with "1.prems" False show ?thesis by auto
  qed
qed

lemma copy_block_nth:
  assumes "src + nm \<le> length rows" "dst + nm \<le> length rows"
  shows "length (copy_block (src, dst, nm) rows) = length rows"
    and "j < length rows \<Longrightarrow> copy_block (src, dst, nm) rows ! j =
      (if dst \<le> j \<and> j < dst + nm then rows ! (src + (j - dst)) else rows ! j)"
  using assms by (auto simp: copy_block_def nth_append)

lemma build_defrag_moves:
  "moves_ok ids u \<Longrightarrow> length ids \<le> length rows \<Longrightarrow>
    length (fold copy_block (build_defrag ids i) rows) = length rows \<and>
    (\<forall>j\<ge>i. moved ids j \<longrightarrow> fold copy_block (build_defrag ids i) rows ! (ids ! j) = rows ! j) \<and>
    (\<forall>d<length rows. (\<forall>j\<ge>i. moved ids j \<longrightarrow> ids ! j \<noteq> d) \<longrightarrow> fold copy_block (build_defrag ids i) rows ! d = rows ! d)"
proof (induction ids i arbitrary: rows rule: build_defrag.induct)
  case (1 ids i)
  note ok = "1.prems"(1)
  show ?case
  proof (cases "moved ids i")
    case False
    show ?thesis
    proof (cases "i < length ids")
      case True
      with False have step: "build_defrag ids i = build_defrag ids (i + 1)"
        by (subst build_defrag.simps) (auto simp: moved_def)
      have next': "j \<ge> i \<and> moved ids j \<longleftrightarrow> j \<ge> i + 1 \<and> moved ids j" for j
        using False by (cases "j = i") auto
      have "i = ids ! i \<or> ids ! i = length ids" using True False by (auto simp: moved_def)
      from "1.IH"(1) [OF True this "1.prems"] show ?thesis unfolding step using next' by (metis (lifting))
    next
      case False
      then have "build_defrag ids i = []" by (subst build_defrag.simps) simp
      moreover have "\<not> moved ids j" if "j \<ge> i" for j using False that by (simp add: moved_def)
      ultimately show ?thesis by simp
    qed
  next
    case True
    define nm where "nm = run_length ids i 1"
    have lt: "i < length ids" "\<not> (i = ids ! i \<or> ids ! i = length ids)" using True by (auto simp: moved_def)
    have run: "1 \<le> nm" "i + nm \<le> length ids" "\<And>k. k < nm \<Longrightarrow> moved ids (i + k) \<and> ids ! (i + k) = ids ! i + k"
      using run_length_run [OF ok, of 1 i] run_length_ge [of 1 ids i] lt True by (auto simp: nm_def)
    have step: "build_defrag ids i = (i, ids ! i, nm) # build_defrag ids (i + nm)"
      using lt by (subst build_defrag.simps) (auto simp: nm_def Let_def)
    have u: "\<And>j. moved ids j \<Longrightarrow> u \<le> j \<and> ids ! j < u" "u \<le> length ids" using ok by (auto simp: moves_ok_def)
    have "nm - 1 < nm" using run(1) by simp
    from u(1) [of "i + (nm - 1)"] run(3) [OF this] have dst: "ids ! i + nm \<le> u" using run(1) by auto
    define rows1 where "rows1 = copy_block (i, ids ! i, nm) rows"
    have c: "length rows1 = length rows" "\<And>j. j < length rows \<Longrightarrow> rows1 ! j =
      (if ids ! i \<le> j \<and> j < ids ! i + nm then rows ! (i + (j - ids ! i)) else rows ! j)"
      using copy_block_nth [of i nm rows "ids ! i"] run(2) dst u(2) "1.prems"(2) by (auto simp: rows1_def)
    define rows' where "rows' = fold copy_block (build_defrag ids i) rows"
    have IH: "length rows' = length rows" "\<And>j. j \<ge> i + nm \<Longrightarrow> moved ids j \<Longrightarrow> rows' ! (ids ! j) = rows1 ! j"
      "\<And>d. d < length rows \<Longrightarrow> (\<And>j. j \<ge> i + nm \<Longrightarrow> moved ids j \<Longrightarrow> ids ! j \<noteq> d) \<Longrightarrow> rows' ! d = rows1 ! d"
      using "1.IH"(2) [OF lt nm_def ok, of rows1] "1.prems"(2) c(1)
      by (auto simp: rows'_def step rows1_def [symmetric])
    have inj: "ids ! j = ids ! k \<Longrightarrow> moved ids j \<Longrightarrow> moved ids k \<Longrightarrow> j = k" for j k
      using ok by (auto simp: moves_ok_def inj_on_def)
    have all: "rows' ! (ids ! j) = rows ! j" if j: "j \<ge> i" "moved ids j" for j
    proof (cases "j \<ge> i + nm")
      case True
      from u(1) [OF j(2)] dst j(2) "1.prems"(2) have "rows1 ! j = rows ! j" by (subst c(2)) (auto simp: moved_def)
      with IH(2) [OF True j(2)] show ?thesis by simp
    next
      case False
      then have k: "j - i < nm" "j = i + (j - i)" using j by auto
      have e: "ids ! j = ids ! i + (j - i)" using run(3) [OF k(1)] k(2) by metis
      have "rows' ! (ids ! j) = rows1 ! (ids ! j)"
      proof (rule IH(3))
        show "ids ! j < length rows" using u(1) [OF j(2)] u(2) "1.prems"(2) by linarith
        show "ids ! j' \<noteq> ids ! j" if "j' \<ge> i + nm" "moved ids j'" for j'
          using inj [of j' j] that j(2) False by auto
      qed
      also have "\<dots> = rows ! j"
      proof -
        have "ids ! i \<le> ids ! j" "ids ! j < ids ! i + nm" "i + (ids ! j - ids ! i) = j" using e k j(1) by linarith+
        then show ?thesis using c(2) [of "ids ! j"] u(1) [OF j(2)] u(2) "1.prems"(2) by simp
      qed
      finally show ?thesis .
    qed
    have others: "rows' ! d = rows ! d" if d: "d < length rows" "\<And>j. j \<ge> i \<Longrightarrow> moved ids j \<Longrightarrow> ids ! j \<noteq> d" for d
    proof -
      have "\<not> (ids ! i \<le> d \<and> d < ids ! i + nm)"
      proof
        assume "ids ! i \<le> d \<and> d < ids ! i + nm"
        then have "d - ids ! i < nm" "ids ! i + (d - ids ! i) = d" by auto
        with run(3) [of "d - ids ! i"] d(2) [OF le_add1, of "d - ids ! i"] show False by simp
      qed
      with c(2) [OF d(1)] IH(3) [OF d(1)] d(2) show ?thesis by auto
    qed
    show ?thesis using IH(1) all others unfolding rows'_def by blast
  qed
qed

lemma build_defrag_starts:
  "moves_ok ids u \<Longrightarrow> (moved ids i \<Longrightarrow> i \<in> starts ids) \<Longrightarrow> length (build_defrag ids i) \<le> card (starts ids \<inter> {i..})"
proof (induction ids i rule: build_defrag.induct)
  case (1 ids i)
  note ok = "1.prems"(1)
  show ?case
  proof (cases "i < length ids")
    case False
    then show ?thesis by (subst build_defrag.simps) simp
  next
    case lt: True
    show ?thesis
    proof (cases "moved ids i")
      case False
      then have id: "i = ids ! i \<or> ids ! i = length ids" using lt by (auto simp: moved_def)
      have "moved ids (i + 1) \<Longrightarrow> i + 1 \<in> starts ids" using False by (simp add: starts_def)
      from "1.IH"(1) [OF lt id ok this] have "length (build_defrag ids i) \<le> card (starts ids \<inter> {i + 1..})"
        using lt id by (subst build_defrag.simps) simp
      also have "\<dots> \<le> card (starts ids \<inter> {i..})" by (intro card_mono) auto
      finally show ?thesis .
    next
      case True
      define nm where "nm = run_length ids i 1"
      have id: "\<not> (i = ids ! i \<or> ids ! i = length ids)" using True by (auto simp: moved_def)
      have run: "1 \<le> nm" "\<And>k. k < nm \<Longrightarrow> ids ! (i + k) = ids ! i + k" "i + nm < length ids \<Longrightarrow> ids ! (i + nm) \<noteq> ids ! i + nm"
        using run_length_run [OF ok, of 1 i] run_length_ge [of 1 ids i] lt True by (auto simp: nm_def)
      have "ids ! (i + nm - 1) = ids ! i + (nm - 1)" using run(1) run(2) [of "nm - 1"] by simp
      then have "moved ids (i + nm) \<Longrightarrow> i + nm \<in> starts ids"
        using run(1,3) by (auto simp: starts_def moved_def)
      from "1.IH"(2) [OF lt id nm_def ok this]
      have "length (build_defrag ids i) \<le> Suc (card (starts ids \<inter> {i + nm..}))"
        using lt id by (subst build_defrag.simps) (simp add: Let_def nm_def [symmetric, unfolded One_nat_def])
      also have "\<dots> = card (insert i (starts ids \<inter> {i + nm..}))" using run(1) by (subst card_insert_disjoint) auto
      also have "\<dots> \<le> card (starts ids \<inter> {i..})" using "1.prems"(2) True by (intro card_mono) auto
      finally show ?thesis .
    qed
  qed
qed


section \<open>Defragmentation\<close>

text \<open>What is cached: the occupied cells, each with its row of data.\<close>

definition contents :: "kv_cell list \<Rightarrow> 'a list \<Rightarrow> (kv_cell \<times> 'a) multiset" where
  "contents cells rows = image_mset (\<lambda>j. (cells ! j, rows ! j)) (mset_set (live cells))"

definition compact :: "kv_cache \<Rightarrow> bool" where
  "compact cache \<longleftrightarrow> (\<forall>i<ksize cache. \<not> is_empty (kcells cache ! i) \<longleftrightarrow> i < unat (kused cache))"

lemma contents_moved:
  assumes bij: "bij_betw f (live cells) (live cells')"
    and "\<And>j. j \<in> live cells \<Longrightarrow> cells' ! f j = cells ! j \<and> rows' ! f j = rows ! j"
  shows "contents cells' rows' = contents cells rows"
proof -
  have "mset_set (live cells') = image_mset f (mset_set (live cells))"
    using bij by (metis bij_betw_def image_mset_mset_set)
  then have "contents cells' rows' = image_mset (\<lambda>j. (cells' ! f j, rows' ! f j)) (mset_set (live cells))"
    by (simp add: contents_def multiset.map_comp comp_def)
  also have "\<dots> = contents cells rows"
    unfolding contents_def by (intro image_mset_cong) (use assms(2) in auto)
  finally show ?thesis .
qed

lemma moves_ok_inv:
  assumes inv: "defrag_inv cells n_kv u i0 st"
  shows "moves_ok (dids st) u"
proof -
  have mv: "moved (dids st) j \<Longrightarrow> j \<in> live cells \<and> u \<le> j \<and> dids st ! j < u" for j
    using inv by (auto simp: defrag_inv_def)
  have inj: "inj_on (dest (dids st)) (live cells)" using inv by (auto simp: defrag_inv_def bij_betw_def)
  have "inj_on (\<lambda>j. dids st ! j) {j. moved (dids st) j}"
  proof (rule inj_onI)
    fix j k assume "j \<in> {j. moved (dids st) j}" "k \<in> {j. moved (dids st) j}" "dids st ! j = dids st ! k"
    then show "j = k" using inj_onD [OF inj, of j k] mv by (simp add: dest_def)
  qed
  with inv mv show ?thesis by (simp add: moves_ok_def defrag_inv_def)
qed

lemma defrag_run:
  assumes inv: "kv_inv cache" and max: "0 < max_moves"
  defines "n_kv \<equiv> llama_kv_cache_cell_max cache" and "u \<equiv> unat (kused cache)"
  obtains st where
    "defrag_loop n_kv u max_moves 0 \<lparr>dcells = kcells cache, dids = replicate n_kv n_kv, dmoves = 0, dhead = khead cache\<rparr> = Inr st"
    "u \<le> n_kv" "defrag_inv (kcells cache) n_kv u u st" "counted max_moves st"
    "dmoves st = max_moves \<or> (\<forall>j<u. \<not> is_empty (dcells st ! j))" "dhead st = khead cache \<or> dhead st = u"
    "card (live (kcells cache)) = u"
proof -
  let ?st = "\<lparr>dcells = kcells cache, dids = replicate n_kv n_kv, dmoves = 0, dhead = khead cache\<rparr>"
  have card: "card (live (kcells cache)) = u" using inv by (simp add: kv_inv_def occupied_live u_def)
  have sub: "live (kcells cache) \<subseteq> {..<n_kv}" using live_cell_max [OF inv] by (auto simp: n_kv_def)
  from card_mono [OF _ sub] card have le: "u \<le> n_kv" by simp
  have nm: "\<not> moved (dids ?st) j" for j by (auto simp: moved_def)
  then have dest: "dest (dids ?st) j = j" for j by (simp add: dest_def)
  have "n_kv \<le> length (kcells cache)" using cell_max_le [of cache] inv by (simp add: n_kv_def kv_inv_def)
  with le sub nm dest inv have i0: "defrag_inv (kcells cache) n_kv u 0 ?st"
    by (simp add: defrag_inv_def kv_inv_def bij_betw_def inj_on_def)
  have c0: "counted max_moves ?st" using nm by (simp add: counted_def starts_def)
  from defrag_loop_ok [OF i0 card c0] max le that card show ?thesis by auto
qed

lemma defrag_internal:
  assumes "kv_inv cache" "length rows = ksize cache" "0 < max_moves"
  shows "\<exists>cache' rows'. llama_kv_cache_defrag_internal max_moves cache rows = Inr (cache', rows')
    \<and> kv_inv cache' \<and> length rows' = ksize cache' \<and> kused cache' = kused cache
    \<and> contents (kcells cache') rows' = contents (kcells cache) rows \<and> ksize cache' = ksize cache"
proof -
  let ?u = "unat (kused cache)" and ?n_kv = "llama_kv_cache_cell_max cache"
  from defrag_run [OF assms(1,3)] obtain st where
    run: "defrag_loop ?n_kv ?u max_moves 0 \<lparr>dcells = kcells cache, dids = replicate ?n_kv ?n_kv, dmoves = 0, dhead = khead cache\<rparr> = Inr st"
    and le: "?u \<le> ?n_kv" and inv: "defrag_inv (kcells cache) ?n_kv ?u ?u st" and cnt: "counted max_moves st"
    and hd: "dhead st = khead cache \<or> dhead st = ?u" and card: "card (live (kcells cache)) = ?u" by metis
  note I = inv [unfolded defrag_inv_def]
  note ok = moves_ok_inv [OF inv]
  let ?rows = "fold copy_block (build_defrag (dids st) 0) rows"
  let ?cache = "cache\<lparr>kcells := dcells st, khead := dhead st\<rparr>"
  have "length (build_defrag (dids st) 0) \<le> dmoves st"
  proof -
    have "moved (dids st) 0 \<Longrightarrow> 0 \<in> starts (dids st)" by (simp add: starts_def)
    from build_defrag_starts [OF ok this] cnt show ?thesis by (simp add: counted_def)
  qed
  then have res: "llama_kv_cache_defrag_internal max_moves cache rows = Inr (?cache, ?rows)"
    using run le by (cases "dmoves st = 0") (simp_all add: llama_kv_cache_defrag_internal_def Let_def)
  have len: "length (dids st) \<le> length rows" using I assms(1,2) by (simp add: kv_inv_def)
  note mv = build_defrag_moves [OF ok len, of 0]
  have "?rows ! dest (dids st) j = rows ! j" if j: "j \<in> live (kcells cache)" for j
  proof (cases "moved (dids st) j")
    case True
    with mv show ?thesis by (simp add: dest_def)
  next
    case False
    have "dids st ! k \<noteq> j" if k: "moved (dids st) k" for k
    proof
      assume "dids st ! k = j"
      then have "dest (dids st) k = dest (dids st) j" using k False by (simp add: dest_def)
      moreover have "k \<in> live (kcells cache)" "k \<noteq> j" using I k False by auto
      ultimately show False using I j by (auto simp: bij_betw_def inj_on_def)
    qed
    moreover have "j < length rows" using j assms(1,2) by (simp add: live_def kv_inv_def)
    ultimately show ?thesis using mv False by (simp add: dest_def)
  qed
  then have "contents (dcells st) ?rows = contents (kcells cache) rows"
    using I by (intro contents_moved [of "dest (dids st)"]) auto
  moreover have "card (live (dcells st)) = ?u" using I card by (metis bij_betw_same_card)
  then have "kv_inv ?cache" using I assms(1) hd by (auto simp: kv_inv_def occupied_live)
  ultimately show ?thesis using res mv assms(2) by simp
qed

text \<open>
  C13: defragmentation is total and loses nothing. On a cache that satisfies the invariant (and with
  room for one move) no assertion fails, in particular the scan from the end always finds as many
  cells as the hole has; the occupied cells are the same as before, each with the row of data it had
  before (the copies of the graph never overwrite a row that is still to be read), and the invariant
  holds again.
\<close>

theorem defrag_correct:
  assumes "kv_inv cache" "length rows = ksize cache" "0 < max_moves"
  shows "\<exists>cache' rows'. llama_kv_cache_defrag_internal max_moves cache rows = Inr (cache', rows')
    \<and> kv_inv cache' \<and> length rows' = ksize cache' \<and> kused cache' = kused cache
    \<and> contents (kcells cache') rows' = contents (kcells cache) rows"
  using defrag_internal [OF assms] by blast

text \<open>
  C14: defragmentation makes progress and its graph fits. It leaves the cache compact (the occupied
  cells are the first \<open>used\<close> ones) unless it used up its budget of moves; the graph copies at most that
  many blocks, so with the budget \<open>llama_kv_cache_defrag_internal\<close> computes, the \<open>6 * n_layer\<close> tensors
  of each block fit into \<open>max_nodes\<close>.
\<close>

theorem defrag_compacts:
  assumes "kv_inv cache" "0 < layers" "0 < max_moves_of max_nodes layers"
  shows "\<exists>st. defrag_loop (llama_kv_cache_cell_max cache) (unat (kused cache)) (max_moves_of max_nodes layers) 0
        \<lparr>dcells = kcells cache, dids = replicate (llama_kv_cache_cell_max cache) (llama_kv_cache_cell_max cache),
         dmoves = 0, dhead = khead cache\<rparr> = Inr st
    \<and> length (build_defrag (dids st) 0) \<le> dmoves st \<and> dmoves st \<le> max_moves_of max_nodes layers
    \<and> 6 * layers * length (build_defrag (dids st) 0) + 2 * layers \<le> max_nodes
    \<and> (dmoves st < max_moves_of max_nodes layers \<longrightarrow> compact (cache\<lparr>kcells := dcells st\<rparr>))"
proof -
  let ?u = "unat (kused cache)" and ?n_kv = "llama_kv_cache_cell_max cache" and ?mm = "max_moves_of max_nodes layers"
  from defrag_run [OF assms(1,3)] obtain st where
    run: "defrag_loop ?n_kv ?u ?mm 0 \<lparr>dcells = kcells cache, dids = replicate ?n_kv ?n_kv, dmoves = 0, dhead = khead cache\<rparr> = Inr st"
    and inv: "defrag_inv (kcells cache) ?n_kv ?u ?u st" and cnt: "counted ?mm st"
    and full: "dmoves st = ?mm \<or> (\<forall>j<?u. \<not> is_empty (dcells st ! j))" and card: "card (live (kcells cache)) = ?u" by metis
  note I = inv [unfolded defrag_inv_def]
  have "moved (dids st) 0 \<Longrightarrow> 0 \<in> starts (dids st)" by (simp add: starts_def)
  from build_defrag_starts [OF moves_ok_inv [OF inv] this] cnt
  have blocks: "length (build_defrag (dids st) 0) \<le> dmoves st" "dmoves st \<le> ?mm" by (simp_all add: counted_def)
  have "6 * layers * length (build_defrag (dids st) 0) \<le> 6 * layers * ?mm" using blocks by simp
  also have "\<dots> \<le> max_nodes - 2 * layers" by (simp add: max_moves_of_def)
  finally have "6 * layers * length (build_defrag (dids st) 0) \<le> max_nodes - 2 * layers" .
  moreover have "2 * layers \<le> max_nodes" using assms(3) by (cases "2 * layers \<le> max_nodes") (auto simp: max_moves_of_def)
  moreover have "compact (cache\<lparr>kcells := dcells st\<rparr>)" if "\<forall>j<?u. \<not> is_empty (dcells st ! j)"
  proof -
    have c: "card (live (dcells st)) = ?u" using I card by (metis bij_betw_same_card)
    have "{..<?u} \<subseteq> live (dcells st)" using that I by (auto simp: live_def)
    from card_subset_eq [OF _ this] c have "live (dcells st) = {..<?u}" by simp
    then have "j < length (dcells st) \<Longrightarrow> \<not> is_empty (dcells st ! j) \<longleftrightarrow> j < ?u" for j
      unfolding live_def by blast
    then show ?thesis using I assms(1) by (simp add: compact_def kv_inv_def)
  qed
  ultimately show ?thesis using run blocks full by (intro exI [of _ st]) auto
qed


text \<open>Two holes among five cells, filled from the end.\<close>

definition holes_cache :: kv_cache where
  "holes_cache = (llama_kv_cache_init False 5)\<lparr>kused := 2,
     kcells := [new_cell, new_cell\<lparr>cpos := 0, cseq := {0}\<rparr>, new_cell, new_cell\<lparr>cpos := 1, cseq := {0}\<rparr>, new_cell]\<rparr>"

lemma holes_cache_inv: "kv_inv holes_cache"
  by (simp add: holes_cache_def kv_inv_def llama_kv_cache_init_def new_cell_def cell_ok_def is_empty_def)

lemma defrag_correct_witness:
  "\<exists>cache' rows'. llama_kv_cache_defrag_internal 1 holes_cache [10, 11, 12, 13, 14 :: nat] = Inr (cache', rows')
    \<and> kv_inv cache' \<and> length rows' = ksize cache' \<and> kused cache' = kused holes_cache
    \<and> contents (kcells cache') rows' = contents (kcells holes_cache) [10, 11, 12, 13, 14]"
  by (rule defrag_correct [OF holes_cache_inv]) (simp_all add: holes_cache_def llama_kv_cache_init_def)

lemma defrag_example: "llama_kv_cache_defrag_internal 1 holes_cache [10, 11, 12, 13, 14 :: nat]
  = Inr (holes_cache\<lparr>khead := 2, kcells := [new_cell\<lparr>cpos := 1, cseq := {0}\<rparr>, new_cell\<lparr>cpos := 0, cseq := {0}\<rparr>, new_cell, new_cell, new_cell]\<rparr>,
         [13, 11, 12, 13, 14])"
  by code_simp

lemma defrag_compacts_witness:
  "\<exists>st. defrag_loop (llama_kv_cache_cell_max holes_cache) (unat (kused holes_cache)) (max_moves_of 100 2) 0
        \<lparr>dcells = kcells holes_cache, dids = replicate (llama_kv_cache_cell_max holes_cache) (llama_kv_cache_cell_max holes_cache),
         dmoves = 0, dhead = khead holes_cache\<rparr> = Inr st
    \<and> length (build_defrag (dids st) 0) \<le> dmoves st \<and> dmoves st \<le> max_moves_of 100 2
    \<and> 6 * 2 * length (build_defrag (dids st) 0) + 2 * 2 \<le> (100 :: nat)"
proof -
  have budget: "0 < (2 :: nat)" "0 < max_moves_of 100 2" by (simp_all add: max_moves_of_def)
  from defrag_compacts [OF holes_cache_inv budget] show ?thesis by blast
qed


section \<open>Defragmenting again and again\<close>

text \<open>The holes that a compact cache does not have.\<close>

definition holes :: "kv_cache \<Rightarrow> nat set" where
  "holes cache = {j. j < unat (kused cache) \<and> is_empty (kcells cache ! j)}"

lemma finite_holes [simp]: "finite (holes cache)"
  by (simp add: holes_def)

lemma compact_iff_holes:
  assumes "kv_inv cache"
  shows "compact cache \<longleftrightarrow> holes cache = {}"
proof
  have u: "card (live (kcells cache)) = unat (kused cache)" using assms by (simp add: kv_inv_def occupied_live)
  have "live (kcells cache) \<subseteq> {..<ksize cache}" using assms by (auto simp: live_def kv_inv_def)
  from card_mono [OF _ this] u have le: "unat (kused cache) \<le> ksize cache" by simp
  show "holes cache = {}" if "compact cache" using that le by (auto simp: compact_def holes_def)
  show "compact cache" if "holes cache = {}"
  proof -
    have "{..<unat (kused cache)} \<subseteq> live (kcells cache)" using that le assms by (auto simp: holes_def live_def kv_inv_def)
    from card_subset_eq [OF _ this] u have "live (kcells cache) = {..<unat (kused cache)}" by simp
    moreover have "i < ksize cache \<Longrightarrow> \<not> is_empty (kcells cache ! i) \<longleftrightarrow> i \<in> live (kcells cache)" for i
      using assms by (simp add: live_def kv_inv_def)
    ultimately show ?thesis by (auto simp: compact_def)
  qed
qed

text \<open>Every cell that was filled stays filled, and a budget that was used up filled a hole.\<close>

lemma defrag_fills:
  assumes "kv_inv cache" "0 < max_moves" "llama_kv_cache_defrag_internal max_moves cache rows = Inr (cache', rows')"
  shows "holes cache' \<subseteq> holes cache" "holes cache \<noteq> {} \<Longrightarrow> holes cache' \<noteq> holes cache"
proof -
  let ?u = "unat (kused cache)" and ?n_kv = "llama_kv_cache_cell_max cache"
  from defrag_run [OF assms(1,2)] obtain st where
    run: "defrag_loop ?n_kv ?u max_moves 0 \<lparr>dcells = kcells cache, dids = replicate ?n_kv ?n_kv, dmoves = 0, dhead = khead cache\<rparr> = Inr st"
    and le: "?u \<le> ?n_kv" and inv: "defrag_inv (kcells cache) ?n_kv ?u ?u st" and cnt: "counted max_moves st"
    and full: "dmoves st = max_moves \<or> (\<forall>j<?u. \<not> is_empty (dcells st ! j))" by metis
  note I = inv [unfolded defrag_inv_def]
  have c': "kcells cache' = dcells st" "kused cache' = kused cache"
    using assms(3) run le by (auto simp: llama_kv_cache_defrag_internal_def Let_def split: if_splits)
  have len: "?u \<le> length (kcells cache)" using I by simp
  have at: "dest (dids st) j \<in> live (dcells st)" if "j \<in> live (kcells cache)" for j
    using I that by (auto simp: bij_betw_def)
  have low: "\<not> moved (dids st) j" if "j < ?u" for j using I that by fastforce
  show "holes cache' \<subseteq> holes cache"
  proof
    fix j assume j: "j \<in> holes cache'"
    show "j \<in> holes cache"
    proof (rule ccontr)
      assume "j \<notin> holes cache"
      then have "j \<in> live (kcells cache)" "j < ?u" using j len by (auto simp: holes_def c' live_def)
      with at [of j] low [of j] j show False by (simp add: holes_def c' dest_def live_def)
    qed
  qed
  show "holes cache' \<noteq> holes cache" if "holes cache \<noteq> {}"
  proof (cases "dmoves st = max_moves")
    case True
    then obtain j where j: "moved (dids st) j" using cnt assms(2) by (auto simp: counted_def)
    then have jl: "j \<in> live (kcells cache)" "?u \<le> j" "dids st ! j < ?u" using I by auto
    let ?d = "dids st ! j"
    have d: "dest (dids st) j = ?d" using j by (simp add: dest_def)
    have "?d \<notin> live (kcells cache)"
    proof
      assume "?d \<in> live (kcells cache)"
      moreover have "dest (dids st) ?d = ?d" using low [OF jl(3)] by (simp add: dest_def)
      ultimately have "?d = j" using I jl(1) d by (auto simp: bij_betw_def inj_on_def)
      with jl show False by simp
    qed
    then have "?d \<in> holes cache" using jl(3) len by (simp add: holes_def live_def)
    moreover have "?d \<notin> holes cache'" using at [OF jl(1)] d by (simp add: holes_def c' live_def)
    ultimately show ?thesis by blast
  next
    case False
    with full have "holes cache' = {}" by (auto simp: holes_def c')
    with that show ?thesis by simp
  qed
qed

fun defrags :: "nat \<Rightarrow> nat \<Rightarrow> kv_cache \<times> 'a list \<Rightarrow> (kv_cache \<times> 'a list) res" where
  "defrags max_moves 0 s = Inr s"
| "defrags max_moves (Suc n) s = bindE (llama_kv_cache_defrag_internal max_moves (fst s) (snd s)) (defrags max_moves n)"

text \<open>
  C15: A cache that is defragmented again and again becomes compact: as many rounds as it has holes are
  enough, however few moves one round is allowed, and it stays compact. No round fails, and the cells keep
  their metadata and their rows of data all the way.
\<close>

theorem defrag_eventually_compact:
  assumes "kv_inv cache" "length rows = ksize cache" "0 < max_moves" "card (holes cache) \<le> n"
  shows "\<exists>cache' rows'. defrags max_moves n (cache, rows) = Inr (cache', rows') \<and> compact cache'
    \<and> kv_inv cache' \<and> contents (kcells cache') rows' = contents (kcells cache) rows"
  using assms(1,2,4)
proof (induction n arbitrary: cache rows)
  case 0
  then show ?case using compact_iff_holes by simp
next
  case (Suc n)
  from defrag_internal [OF Suc.prems(1,2) assms(3)] obtain cache' rows' where step:
    "llama_kv_cache_defrag_internal max_moves cache rows = Inr (cache', rows')" "kv_inv cache'" "length rows' = ksize cache'"
    "contents (kcells cache') rows' = contents (kcells cache) rows" by blast
  note fills = defrag_fills [OF Suc.prems(1) assms(3) step(1)]
  have "card (holes cache') \<le> n"
  proof (cases "holes cache = {}")
    case False
    with fills have "holes cache' \<subset> holes cache" by blast
    from psubset_card_mono [OF _ this] Suc.prems(3) show ?thesis by simp
  qed (use fills in simp)
  from Suc.IH [OF step(2,3) this] step(1,4) show ?case by simp
qed

lemma defrag_eventually_compact_witness:
  "\<exists>cache' rows'. defrags 1 2 (holes_cache, [10, 11, 12, 13, 14 :: nat]) = Inr (cache', rows') \<and> compact cache'"
proof -
  have "card (holes holes_cache) \<le> card {..<unat (kused holes_cache)}" by (rule card_mono) (auto simp: holes_def)
  also have "\<dots> = 2" by (simp add: holes_cache_def)
  finally have "card (holes holes_cache) \<le> 2" .
  from defrag_eventually_compact [OF holes_cache_inv _ _ this, of "[10, 11, 12, 13, 14 :: nat]" 1] show ?thesis
    by (auto simp: holes_cache_def llama_kv_cache_init_def)
qed

end
