(* ===== verification/KvUpdate.thy ===== *)
theory KvUpdate
  imports KvDefragProps
begin

text \<open>
  Keys and positions: the sequence operations keep every cached row in step with its cell, and the
  pending updates rotate every key once by the shift that is pending for its cell.
\<close>

section \<open>Keys under the sequence operations\<close>

text \<open>
  A cell's row holds its key rotated to the position \<open>pos - delta\<close>: shifting moves position and pending
  delta together. The contract extends that of the loops over the cells.
\<close>

locale key_edit = cell_edit +
  fixes touched :: "kv_cell \<Rightarrow> bool"
  assumes edit_key: "cell_ok c \<Longrightarrow> f c = Inr (c', dec, freed) \<Longrightarrow> \<not> is_empty c' \<Longrightarrow>
      \<not> is_empty c \<and> cpos c' - cdelta c' = cpos c - cdelta c"
    and edit_delta: "cell_ok c \<Longrightarrow> f c = Inr (c', dec, freed) \<Longrightarrow> cdelta c' = cdelta c \<or> touched c"
begin

lemma loop_keys:
  "for_cells sz f i cells used nh = Inr (cells', used', nh') \<Longrightarrow> list_all cell_ok cells \<Longrightarrow>
   list_all2 (\<lambda>c c'. (\<not> is_empty c' \<longrightarrow> \<not> is_empty c \<and> cpos c' - cdelta c' = cpos c - cdelta c)
     \<and> (cdelta c' = cdelta c \<or> touched c)) cells cells'"
proof (induction cells arbitrary: i used nh cells')
  case (Cons c cs)
  then obtain c' dec freed cs' where fc: "f c = Inr (c', dec, freed)" and cells': "cells' = c' # cs'"
    and rest: "for_cells sz f (i + 1) cs (if dec then used - 1 else used)
      (if freed \<and> nh = sz then i else nh) = Inr (cs', used', nh')"
    by (auto simp: bindE_Inr_iff)
  have ok: "cell_ok c" "list_all cell_ok cs" using Cons.prems(2) by auto
  from Cons.IH [OF rest ok(2)] edit_key [OF ok(1) fc] edit_delta [OF ok(1) fc] show ?case
    by (simp add: cells')
qed simp

end

interpretation rm_key: key_edit "\<lambda>c. Inr (rm_cell s p0 p1 c)" "rm_token s p0 p1" "\<lambda>c. False" for s p0 p1
  by unfold_locales (auto simp: rm_cell_def edit_defs Let_def split: if_splits)

interpretation cp_key: key_edit "\<lambda>c. Inr (cp_cell src dst p0 p1 c, False, False)" "cp_token src dst p0 p1" "\<lambda>c. False"
  for src dst p0 p1
  by unfold_locales (auto simp: cp_cell_def edit_defs split: if_splits)

interpretation keep_key: key_edit "\<lambda>c. Inr (keep_cell s c)" "keep_token s" "\<lambda>c. False" for s
  by unfold_locales (auto simp: keep_cell_def edit_defs split: if_splits)

interpretation add_key: key_edit "add_cell s p0 p1 delta" "add_token s p0 p1 delta" "shifted s p0 p1" for s p0 p1 delta
  by unfold_locales
    (auto simp: add_cell_def add_i32_def edit_defs Let_def bindE_Inr_iff split: if_splits)

interpretation divide_key: key_edit "div_cell s p0 p1 (int (Suc k))" "div_token s p0 p1 (int (Suc k))" "shifted s p0 p1"
  for s p0 p1 k
  by unfold_locales
    (auto simp: div_cell_def div_i32_def add_i32_def edit_defs Let_def bindE_Inr_iff split: if_splits)

definition keys_ok :: "(int \<Rightarrow> 'a \<Rightarrow> 'a) \<Rightarrow> kv_cache \<Rightarrow> 'a list \<Rightarrow> 'a list \<Rightarrow> bool" where
  "keys_ok rot cache raws rows \<longleftrightarrow> length rows = ksize cache \<and> length raws = ksize cache
     \<and> (\<forall>j\<in>live (kcells cache). rows ! j = rot (cpos (kcells cache ! j) - cdelta (kcells cache ! j)) (raws ! j))
     \<and> (has_shift cache \<or> list_all (\<lambda>c. cdelta c = 0) (kcells cache))"

lemma keys_ok_edited:
  assumes "keys_ok rot cache raws rows" "ksize cache' = ksize cache" "has_shift cache \<Longrightarrow> has_shift cache'"
    and edit: "list_all2 (\<lambda>c c'. (\<not> is_empty c' \<longrightarrow> \<not> is_empty c \<and> cpos c' - cdelta c' = cpos c - cdelta c)
         \<and> (cdelta c' = cdelta c \<or> touched c)) (kcells cache) (kcells cache')"
    and "has_shift cache' \<or> (\<forall>c\<in>set (kcells cache). \<not> touched c)"
  shows "keys_ok rot cache' raws rows"
proof -
  have len: "length (kcells cache') = length (kcells cache)" using edit by (simp add: list_all2_lengthD)
  have "j \<in> live (kcells cache) \<and> cpos (kcells cache' ! j) - cdelta (kcells cache' ! j)
      = cpos (kcells cache ! j) - cdelta (kcells cache ! j)" if "j \<in> live (kcells cache')" for j
    using list_all2_nthD2 [OF edit, of j] that len by (simp add: live_def)
  moreover have "list_all (\<lambda>c. cdelta c = 0) (kcells cache')" if "\<not> has_shift cache'"
  proof -
    have "list_all (\<lambda>c. cdelta c = 0) (kcells cache)" "\<forall>c\<in>set (kcells cache). \<not> touched c"
      using assms(1,3,5) that by (auto simp: keys_ok_def)
    with edit len show ?thesis by (auto simp: list_all_length list_all2_conv_all_nth)
  qed
  ultimately show ?thesis using assms(1,2) by (auto simp: keys_ok_def)
qed

lemma set_head_simps [simp]:
  "ksize (set_head_if_freed nh cache) = ksize cache" "has_shift (set_head_if_freed nh cache) = has_shift cache"
  by (simp_all add: set_head_if_freed_def)

text \<open>
  C17: the sequence operations never desynchronise keys and positions: as long as every cached row is
  its key rotated to \<open>pos - delta\<close>, with no pending delta unless \<open>has_shift\<close> is set, this holds after any
  of them, though none touches the data.
\<close>

theorem kv_ops_keep_keys:
  assumes "kv_inv cache" "op_ok oper" "kv_exec oper cache = Inr cache'" "keys_ok rot cache raws rows"
  shows "keys_ok rot cache' raws rows"
proof (cases oper)
  case Clear
  with assms show ?thesis
    by (intro keys_ok_edited [OF assms(4), of cache' "\<lambda>c. False"])
      (auto simp: llama_kv_cache_clear_def list_all2_conv_all_nth is_empty_def)
next
  case (SeqRm s p0 p1)
  with assms obtain cells used nh where
    loop: "for_cells (ksize cache) (\<lambda>c. Inr (rm_cell s (range_start p0) (range_end p1) c)) 0 (kcells cache) (kused cache)
      (ksize cache) = Inr (cells, used, nh)"
    and c': "cache' = set_head_if_freed nh (cache\<lparr>kcells := cells, kused := used\<rparr>)"
    by (auto simp: llama_kv_cache_seq_rm_def Let_def bindE_Inr_iff kv_inv_def all_cells_def)
  from rm_key.loop_keys [OF loop] assms(1) c' show ?thesis
    by (intro keys_ok_edited [OF assms(4)]) (auto simp: kv_inv_def)
next
  case (SeqKeep s)
  with assms obtain cells used nh where
    loop: "for_cells (ksize cache) (\<lambda>c. Inr (keep_cell s c)) 0 (kcells cache) (kused cache) (ksize cache) = Inr (cells, used, nh)"
    and c': "cache' = set_head_if_freed nh (cache\<lparr>kcells := cells, kused := used\<rparr>)"
    by (auto simp: llama_kv_cache_seq_keep_def bindE_Inr_iff kv_inv_def all_cells_def)
  from keep_key.loop_keys [OF loop] assms(1) c' show ?thesis
    by (intro keys_ok_edited [OF assms(4)]) (auto simp: kv_inv_def)
next
  case (SeqCp src dst p0 p1)
  show ?thesis
  proof (cases "src = dst")
    case True
    with SeqCp assms(3,4) show ?thesis by (simp add: api_seq_cp_def)
  next
    case False
    with SeqCp assms obtain cells used nh where
      loop: "for_cells (ksize cache) (\<lambda>c. Inr (cp_cell src dst (range_start p0) (range_end p1) c, False, False)) 0
        (kcells cache) (kused cache) (ksize cache) = Inr (cells, used, nh)"
      and c': "cache' = cache\<lparr>khead := 0, kcells := cells\<rparr>"
      by (auto simp: api_seq_cp_def llama_kv_cache_seq_cp_def Let_def bindE_Inr_iff kv_inv_def all_cells_def)
    from cp_key.loop_keys [OF loop] assms(1) c' show ?thesis
      by (intro keys_ok_edited [OF assms(4)]) (auto simp: kv_inv_def)
  qed
next
  case (SeqAdd s p0 p1 delta)
  show ?thesis
  proof (cases "delta = 0 \<or> range_start p0 = range_end p1")
    case True
    with SeqAdd assms(3,4) show ?thesis by (auto simp: api_seq_add_def llama_kv_cache_seq_add_def split: if_splits)
  next
    case False
    with SeqAdd assms obtain cells used nh where
      loop: "for_cells (ksize cache) (add_cell s (range_start p0) (range_end p1) delta) 0
        (kcells cache) (kused cache) (ksize cache) = Inr (cells, used, nh)"
      and c': "cache' = cache\<lparr>kcells := cells, kused := used,
        has_shift := has_shift cache \<or> list_ex (shifted s (range_start p0) (range_end p1)) (kcells cache),
        khead := (if nh \<noteq> ksize cache then nh else 0)\<rparr>"
      by (auto simp: api_seq_add_def llama_kv_cache_seq_add_def Let_def bindE_Inr_iff kv_inv_def all_cells_def)
    from add_key.loop_keys [OF loop] assms(1) c' show ?thesis
      by (intro keys_ok_edited [OF assms(4)]) (auto simp: kv_inv_def list_ex_iff)
  qed
next
  case (SeqDiv s p0 p1 d)
  show ?thesis
  proof (cases "d = 1 \<or> range_start p0 = range_end p1")
    case True
    with SeqDiv assms(3,4) show ?thesis by (auto simp: api_seq_div_def llama_kv_cache_seq_div_def split: if_splits)
  next
    case False
    from assms(2) SeqDiv have "d > 0" by (simp add: op_ok_def)
    then obtain k where d: "d = int (Suc k)" by (metis Suc_pred' nat_0_le zero_less_nat_eq less_imp_le)
    with False SeqDiv assms obtain cells used nh where
      loop: "for_cells (ksize cache) (div_cell s (range_start p0) (range_end p1) (int (Suc k))) 0
        (kcells cache) (kused cache) (ksize cache) = Inr (cells, used, nh)"
      and c': "cache' = cache\<lparr>kcells := cells,
        has_shift := has_shift cache \<or> list_ex (shifted s (range_start p0) (range_end p1)) (kcells cache)\<rparr>"
      by (auto simp: api_seq_div_def llama_kv_cache_seq_div_def Let_def bindE_Inr_iff kv_inv_def all_cells_def)
    from divide_key.loop_keys [OF loop] assms(1) c' show ?thesis
      by (intro keys_ok_edited [OF assms(4)]) (auto simp: kv_inv_def list_ex_iff)
  qed
qed

section \<open>The pending updates\<close>

lemma defrag_flags:
  "llama_kv_cache_defrag_internal mm cache rows = Inr (cache', rows') \<Longrightarrow>
   has_shift cache' = has_shift cache \<and> recurrent cache' = recurrent cache \<and> ksize cache' = ksize cache"
  by (auto simp: llama_kv_cache_defrag_internal_def Let_def bindE_Inr_iff split: if_splits)

lemma tokens_of_contents:
  assumes "length rows = length cells"
  shows "kv_tokens cells = image_mset (entry \<circ> fst) (contents cells rows)"
  using assms
proof (induction cells arbitrary: rows rule: rev_induct)
  case (snoc c cs)
  from snoc.prems obtain r rs where rows: "rows = rs @ [r]" "length rs = length cs"
    by (cases rows rule: rev_cases) auto
  have live: "live (cs @ [c]) = (if is_empty c then live cs else insert (length cs) (live cs))"
    by (auto simp: live_def nth_append less_Suc_eq)
  have "length cs \<notin> live cs" by (simp add: live_def)
  moreover have "contents cs rows = contents cs rs" "image_mset (\<lambda>j. ((cs @ [c]) ! j, rows ! j)) (mset_set (live cs)) = contents cs rs"
    unfolding contents_def by (auto intro!: image_mset_cong simp: live_def rows nth_append)
  ultimately show ?case
    using snoc.IH [OF rows(2)] by (simp add: contents_def live kv_tokens_append rows(1) nth_append flip: rows(2))
qed (simp add: contents_def live_def)


lemma shift_contents:
  assumes "length rows = length cells"
  shows "contents (map (\<lambda>cell. cell\<lparr>cdelta := 0\<rparr>) cells) (map2 rot (map cdelta cells) rows)
    = image_mset (\<lambda>(c, x). (c\<lparr>cdelta := 0\<rparr>, rot (cdelta c) x)) (contents cells rows)"
proof -
  have live: "live (map (\<lambda>cell. cell\<lparr>cdelta := 0\<rparr>) cells) = live cells" by (simp add: live_def is_empty_def cong: conj_cong)
  show ?thesis
    unfolding contents_def live multiset.map_comp
    by (rule image_mset_cong) (use assms in \<open>simp add: live_def\<close>)
qed

text \<open>
  C16: the pending updates of a cache, with a budget of at least one move: \<open>llama_kv_cache_update_internal\<close>
  succeeds and keeps every cached cell with its key. If a shift is pending, each key is rotated once, by the
  delta of its own cell, and no delta is left that could be applied again; otherwise no key changes. Then
  neither a shift nor a defragmentation is pending. What a rotation does to a key is a parameter.
\<close>

theorem update_applies_shifts:
  assumes "kv_inv cache" "length rows = ksize cache" "\<not> rope_none m" "\<not> deepseek2 m"
    and "0 < max_moves_of (llama_model_max_nodes (n_tensors m)) (n_layer m)"
  shows "\<exists>cache' rows'. llama_kv_cache_update_internal rot m (cache, rows) = Inr (cache', rows')
    \<and> kv_inv cache' \<and> \<not> has_shift cache' \<and> \<not> do_defrag cache' \<and> ksize cache' = ksize cache
    \<and> contents (kcells cache') rows' = image_mset (\<lambda>(c, x). if has_shift cache then (c\<lparr>cdelta := 0\<rparr>, rot (cdelta c) x)
        else (c, x)) (contents (kcells cache) rows)"
proof -
  let ?want = "image_mset (\<lambda>(c, x). if has_shift cache then (c\<lparr>cdelta := 0\<rparr>, rot (cdelta c) x) else (c, x)) (contents (kcells cache) rows)"
  have "\<exists>cache1 rows1. apply_k_shift rot m (cache, rows) = Inr (cache1, rows1) \<and> kv_inv cache1 \<and> \<not> has_shift cache1
      \<and> ksize cache1 = ksize cache \<and> length rows1 = ksize cache \<and> contents (kcells cache1) rows1 = ?want"
  proof (cases "has_shift cache")
    case True
    let ?cells = "map (\<lambda>cell. cell\<lparr>cdelta := 0\<rparr>) (kcells cache)"
    have live: "live ?cells = live (kcells cache)" by (simp add: live_def is_empty_def cong: conj_cong)
    have "kv_inv (cache\<lparr>has_shift := False, kcells := ?cells\<rparr>)" using assms(1) live
      by (auto simp: kv_inv_def occupied_live list_all_iff cell_ok_def is_empty_def)
    then show ?thesis
      using True assms shift_contents [of rows "kcells cache" rot]
      by (simp add: apply_k_shift_def build_k_shift_def llama_set_k_shift_def kv_inv_def)
  qed (use assms in \<open>auto simp: apply_k_shift_def\<close>)
  then obtain cache1 rows1 where s1: "apply_k_shift rot m (cache, rows) = Inr (cache1, rows1)" "kv_inv cache1"
    "\<not> has_shift cache1" "ksize cache1 = ksize cache" "length rows1 = ksize cache" "contents (kcells cache1) rows1 = ?want"
    by blast
  have copy: "apply_s_copy (cache1, rows1) = (cache1, rows1)" using s1(2) by (simp add: apply_s_copy_def kv_inv_def)
  show ?thesis
  proof (cases "do_defrag cache1")
    case True
    from defrag_internal [OF s1(2) _ assms(5), of rows1] s1(4,5) obtain cache2 rows2 where
      run: "llama_kv_cache_defrag_internal (max_moves_of (llama_model_max_nodes (n_tensors m)) (n_layer m)) cache1 rows1
        = Inr (cache2, rows2)" and s2: "kv_inv cache2" "ksize cache2 = ksize cache1"
        "contents (kcells cache2) rows2 = contents (kcells cache1) rows1" by auto
    with True s1 copy defrag_flags [OF run] show ?thesis
      by (intro exI [of _ "cache2\<lparr>do_defrag := False\<rparr>"] exI [of _ rows2])
        (simp add: llama_kv_cache_update_internal_def apply_defrag_def kv_inv_def)
  qed (use s1 copy in \<open>auto simp: llama_kv_cache_update_internal_def apply_defrag_def\<close>)
qed

text \<open>Keys as integers, rotated by addition; the second sequence shifted by 3.\<close>

definition shifted_cache :: kv_cache where
  "shifted_cache = holes_cache\<lparr>has_shift := True, do_defrag := True,
     kcells := [new_cell, new_cell\<lparr>cpos := 0, cseq := {0}\<rparr>, new_cell, new_cell\<lparr>cpos := 4, cdelta := 3, cseq := {1}\<rparr>, new_cell]\<rparr>"

lemma shifted_cache_ok: "kv_inv shifted_cache" "keys_ok (+) shifted_cache [0, 100, 0, 200, 0] [0, 100, 0, 201, 0]"
proof -
  show "kv_inv shifted_cache"
    by (simp add: shifted_cache_def holes_cache_def kv_inv_def llama_kv_cache_init_def new_cell_def cell_ok_def is_empty_def)
  have "live (kcells shifted_cache) \<subseteq> {1, 3}"
    by (auto simp: live_def shifted_cache_def is_empty_def new_cell_def less_Suc_eq numeral_eq_Suc)
  then show "keys_ok (+) shifted_cache [0, 100, 0, 200, 0] [0, 100, 0, 201, 0]"
    by (auto simp: keys_ok_def shifted_cache_def holes_cache_def llama_kv_cache_init_def new_cell_def)
qed

definition sample_model :: update_params where
  "sample_model = \<lparr>rope_none = False, deepseek2 = False, n_tensors = 10, n_layer = 2\<rparr>"

lemma kv_ops_keep_keys_witness:
  "keys_ok (+) (llama_kv_cache_clear shifted_cache) [0, 100, 0, 200, 0] [0, 100, 0, 201, 0 :: int]"
  by (rule kv_ops_keep_keys [OF shifted_cache_ok(1) _ _ shifted_cache_ok(2), of Clear]) (simp_all add: op_ok_def)

lemma update_applies_shifts_witness:
  "\<exists>cache' rows'. llama_kv_cache_update_internal (+) sample_model (shifted_cache, [0, 100, 0, 201, 0 :: int]) = Inr (cache', rows')
    \<and> \<not> has_shift cache' \<and> \<not> do_defrag cache'
    \<and> contents (kcells cache') rows' = {#(new_cell\<lparr>cpos := 0, cseq := {0}\<rparr>, 100), (new_cell\<lparr>cpos := 4, cseq := {1}\<rparr>, 204)#}"
proof -
  have "live (kcells shifted_cache) = {1, 3}"
    by (auto simp: live_def shifted_cache_def is_empty_def new_cell_def less_Suc_eq numeral_eq_Suc)
  then have "contents (kcells shifted_cache) [0, 100, 0, 201, 0 :: int]
      = {#(new_cell\<lparr>cpos := 0, cseq := {0}\<rparr>, 100), (new_cell\<lparr>cpos := 4, cdelta := 3, cseq := {1}\<rparr>, 201)#}"
    by (simp add: contents_def) (simp add: shifted_cache_def)
  moreover have "length [0, 100, 0, 201, 0 :: int] = ksize shifted_cache" "has_shift shifted_cache"
    by (simp_all add: shifted_cache_def holes_cache_def llama_kv_cache_init_def)
  ultimately show ?thesis
    using update_applies_shifts [OF shifted_cache_ok(1), of "[0, 100, 0, 201, 0 :: int]" sample_model "(+)"]
    by (auto simp: sample_model_def max_moves_of_def llama_model_max_nodes_def new_cell_def)
qed

end
