(* ===== verification/KvView.thy ===== *)
theory KvView
  imports KvUpdate
begin

text \<open>
  The debugging view of a KV cache (\<open>llama_kv_cache_view_init\<close>, \<open>llama_kv_cache_view_update\<close> of
  \<open>src/src/llama.cpp\<close>). A null pointer is \<open>None\<close>; the sequence ids of all cells are one array with
  \<open>n_seq_max\<close> entries per cell, padded with \<open>-1\<close>.
\<close>

section \<open>The view\<close>

record kv_view =
  vn_cells :: nat
  vn_seq_max :: nat
  vtoken_count :: int
  vused_cells :: int
  vmax_contiguous :: nat
  vmax_contiguous_idx :: int
  vcells :: "int list option"
  vcells_sequences :: "int list"

definition llama_kv_cache_view_init :: "kv_cache \<Rightarrow> nat \<Rightarrow> kv_view" where
  "llama_kv_cache_view_init cache n_seq_max =
    \<lparr>vn_cells = 0, vn_seq_max = n_seq_max, vtoken_count = 0,
     vused_cells = llama_get_kv_cache_used_cells cache, vmax_contiguous = 0, vmax_contiguous_idx = -1,
     vcells = None, vcells_sequences = []\<rparr>"

definition llama_kv_cache_view_free :: "kv_view \<Rightarrow> kv_view" where
  "llama_kv_cache_view_free view = view\<lparr>vcells := None, vcells_sequences := []\<rparr>"

text \<open>The loop over the cells: the current run of free cells, and the longest one closed so far.\<close>

record contig =
  curr_idx :: int
  max_contig :: nat
  max_contig_idx :: int

definition contig_step :: "nat \<times> kv_cell \<Rightarrow> contig \<Rightarrow> contig" where
  "contig_step ic s = (case ic of (i, cell) \<Rightarrow>
     if card (cseq cell) > 0 then
       (if curr_idx s \<ge> 0 \<and> nat (int i - curr_idx s) > max_contig s
        then s\<lparr>max_contig := nat (int i - curr_idx s), max_contig_idx := curr_idx s\<rparr> else s)\<lparr>curr_idx := -1\<rparr>
     else if curr_idx s < 0 then s\<lparr>curr_idx := int i\<rparr>
     else s)"

definition contig_end :: "nat \<Rightarrow> contig \<Rightarrow> contig" where
  "contig_end n s =
    (if curr_idx s \<ge> 0 \<and> nat (int n - curr_idx s) > max_contig s
     then s\<lparr>max_contig_idx := curr_idx s, max_contig := nat (int n - curr_idx s)\<rparr> else s)"

definition contig_scan :: "kv_cell list \<Rightarrow> contig" where
  "contig_scan cells = contig_end (length cells)
    (fold contig_step (enumerate 0 cells) \<lparr>curr_idx = -1, max_contig = 0, max_contig_idx = -1\<rparr>)"

text \<open>The ids of a cell, in the order of \<open>std::set\<close>, cut and padded to \<open>n_seq_max\<close>.\<close>

definition view_sequences :: "nat \<Rightarrow> kv_cell \<Rightarrow> int list" where
  "view_sequences n_seq_max cell =
    (let ids = take n_seq_max (sorted_list_of_set (cseq cell)) in ids @ replicate (n_seq_max - length ids) (-1))"

definition view_used :: "nat \<Rightarrow> kv_cell \<Rightarrow> bool" where
  "view_used n_seq_max cell \<longleftrightarrow> take n_seq_max (sorted_list_of_set (cseq cell)) \<noteq> []"

text \<open>
  The arrays are reallocated when the view has too few cells; if it has more, the entries behind those
  of the cache stay.
\<close>

definition llama_kv_cache_view_update :: "kv_cache \<Rightarrow> kv_view \<Rightarrow> kv_view res" where
  "llama_kv_cache_view_update cache view =
    (let view = (if vn_cells view < ksize cache \<or> vcells view = None
                 then view\<lparr>vn_cells := ksize cache, vcells := Some [], vcells_sequences := []\<rparr> else view);
         cells = kcells cache; m = vn_seq_max view; s = contig_scan cells in
     bindE (mapE (\<lambda>cell. add_i32 (cpos cell) (cdelta cell)) cells) (\<lambda>poss.
       Inr (view\<lparr>vcells := Some (poss @ drop (length cells) (the (vcells view))),
         vcells_sequences := concat (map (view_sequences m) cells) @ drop (m * length cells) (vcells_sequences view),
         vmax_contiguous := max_contig s, vmax_contiguous_idx := max_contig_idx s,
         vtoken_count := (\<Sum>cell\<leftarrow>cells. int (card (cseq cell))),
         vused_cells := int (length (filter (view_used m) cells))\<rparr>)))"

section \<open>What it shows\<close>

definition free_run :: "kv_cell list \<Rightarrow> nat \<Rightarrow> nat \<Rightarrow> bool" where
  "free_run cells a n \<longleftrightarrow> a + n \<le> length cells \<and> (\<forall>j. a \<le> j \<and> j < a + n \<longrightarrow> is_empty (cells ! j))"

text \<open>
  After \<open>n\<close> cells: no run of free cells among them is longer than the recorded one or the current one,
  which begins after an occupied cell.
\<close>

definition scan_inv :: "kv_cell list \<Rightarrow> nat \<Rightarrow> contig \<Rightarrow> bool" where
  "scan_inv cells n s \<longleftrightarrow>
     (\<forall>a k. free_run cells a k \<and> a + k \<le> n \<longrightarrow> k \<le> max_contig s \<or> 0 \<le> curr_idx s \<and> int k \<le> int n - curr_idx s)
     \<and> (if max_contig s = 0 then max_contig_idx s = -1
        else 0 \<le> max_contig_idx s \<and> free_run cells (nat (max_contig_idx s)) (max_contig s))
     \<and> (if curr_idx s < 0 then curr_idx s = -1 \<and> (\<forall>m. n = Suc m \<longrightarrow> \<not> is_empty (cells ! m))
        else nat (curr_idx s) < n \<and> free_run cells (nat (curr_idx s)) (n - nat (curr_idx s))
          \<and> (\<forall>m. nat (curr_idx s) = Suc m \<longrightarrow> \<not> is_empty (cells ! m)))"

lemma free_run_Suc: "free_run cells a (Suc k) \<longleftrightarrow> free_run cells a k \<and> a + k < length cells \<and> is_empty (cells ! (a + k))"
  by (auto simp: free_run_def less_Suc_eq)

lemma free_run_bounded:
  assumes "free_run cells a k" "a \<le> b" "b < a + k"
  shows "is_empty (cells ! b)"
  using assms by (simp add: free_run_def)

lemma scan_occupied:
  assumes inv: "scan_inv cells n s" and n: "n < length cells" "\<not> is_empty (cells ! n)" and s': "s' = contig_end n s"
  shows "scan_inv cells (Suc n) (s'\<lparr>curr_idx := -1\<rparr>)"
proof -
  have before: "a + k \<le> n \<or> k = 0" if "free_run cells a k" "a + k \<le> Suc n" for a k
  proof (cases "k = 0 \<or> a + k \<le> n")
    case False
    with that have "a \<le> n" "n < a + k" by auto
    with free_run_bounded [OF that(1)] n(2) show ?thesis by blast
  qed blast
  have max: "max_contig s \<le> max_contig s'" "0 \<le> curr_idx s \<Longrightarrow> int n - curr_idx s \<le> int (max_contig s')"
    by (auto simp: s' contig_end_def)
  have "k \<le> max_contig s'" if run: "free_run cells a k" "a + k \<le> Suc n" for a k
  proof (cases "k = 0")
    case False
    with before [OF run] inv run(1) have "k \<le> max_contig s \<or> 0 \<le> curr_idx s \<and> int k \<le> int n - curr_idx s"
      by (auto simp: scan_inv_def)
    with max show ?thesis by auto
  qed simp
  moreover have "if max_contig s' = 0 then max_contig_idx s' = -1
      else 0 \<le> max_contig_idx s' \<and> free_run cells (nat (max_contig_idx s')) (max_contig s')"
  proof (cases "curr_idx s \<ge> 0 \<and> nat (int n - curr_idx s) > max_contig s")
    case True
    then have "nat (int n - curr_idx s) = n - nat (curr_idx s)" by linarith
    with True inv show ?thesis by (simp add: scan_inv_def s' contig_end_def)
  next
    case False
    with inv show ?thesis by (auto simp: scan_inv_def s' contig_end_def)
  qed
  ultimately show ?thesis using n(2) by (auto simp: scan_inv_def)
qed

lemma scan_free:
  assumes inv: "scan_inv cells n s" and n: "n < length cells" "is_empty (cells ! n)"
  shows "scan_inv cells (Suc n) (if curr_idx s < 0 then s\<lparr>curr_idx := int n\<rparr> else s)"
proof -
  define c where "c = (if curr_idx s < 0 then n else nat (curr_idx s))"
  have c: "c \<le> n" "free_run cells c (n - c)" "\<And>m. c = Suc m \<Longrightarrow> \<not> is_empty (cells ! m)"
    using inv n by (auto simp: scan_inv_def c_def free_run_def split: if_splits)
  have s': "(if curr_idx s < 0 then s\<lparr>curr_idx := int n\<rparr> else s) = s\<lparr>curr_idx := int c\<rparr>"
    by (simp add: c_def)
  have "k \<le> max_contig s \<or> int k \<le> int (Suc n) - int c" if run: "free_run cells a k" "a + k \<le> Suc n" for a k
  proof (cases "a + k \<le> n")
    case True
    with run inv have "k \<le> max_contig s \<or> 0 \<le> curr_idx s \<and> int k \<le> int n - curr_idx s" by (auto simp: scan_inv_def)
    then show ?thesis by (auto simp: c_def)
  next
    case False
    have "c \<le> a"
    proof (rule ccontr)
      assume "\<not> c \<le> a"
      then obtain m where "c = Suc m" "a \<le> m" by (cases c) auto
      with c run False show False using free_run_bounded [OF run(1), of m] by auto
    qed
    with run c(1) show ?thesis by auto
  qed
  then have "\<forall>a k. free_run cells a k \<and> a + k \<le> Suc n \<longrightarrow> k \<le> max_contig s \<or> int k \<le> int (Suc n) - int c" by blast
  moreover have "free_run cells c (Suc n - c)"
    using c n by (simp add: Suc_diff_le free_run_Suc)
  moreover have "if max_contig s = 0 then max_contig_idx s = -1
      else 0 \<le> max_contig_idx s \<and> free_run cells (nat (max_contig_idx s)) (max_contig s)"
    using inv unfolding scan_inv_def by blast
  ultimately show ?thesis unfolding s' scan_inv_def using c(1,3) by auto
qed

lemma scan_step:
  assumes "scan_inv cells n s" "n < length cells" "finite (cseq (cells ! n))"
  shows "scan_inv cells (Suc n) (contig_step (n, cells ! n) s)"
proof (cases "is_empty (cells ! n)")
  case True
  then have "contig_step (n, cells ! n) s = (if curr_idx s < 0 then s\<lparr>curr_idx := int n\<rparr> else s)"
    by (simp add: contig_step_def is_empty_def)
  with scan_free [OF assms(1,2) True] show ?thesis by simp
next
  case False
  then have "contig_step (n, cells ! n) s = (contig_end n s)\<lparr>curr_idx := -1\<rparr>"
    using assms(3) by (simp add: contig_step_def contig_end_def is_empty_def card_gt_0_iff)
  with scan_occupied [OF assms(1,2) False refl] show ?thesis by simp
qed

lemma scan_all:
  assumes fin: "\<forall>c\<in>set cells. finite (cseq c)"
  shows "n \<le> length cells \<Longrightarrow>
    scan_inv cells n (fold contig_step (take n (enumerate 0 cells)) \<lparr>curr_idx = -1, max_contig = 0, max_contig_idx = -1\<rparr>)"
proof (induction n)
  case 0
  show ?case by (simp add: scan_inv_def)
next
  case (Suc n)
  then have "take (Suc n) (enumerate 0 cells) = take n (enumerate 0 cells) @ [(n, cells ! n)]"
    by (simp add: take_Suc_conv_app_nth nth_enumerate_eq)
  with Suc scan_step [of cells n] fin show ?case by simp
qed

lemma contig_scan_longest:
  assumes "\<forall>c\<in>set cells. finite (cseq c)"
  shows "(\<forall>a k. free_run cells a k \<longrightarrow> k \<le> max_contig (contig_scan cells))
    \<and> (if max_contig (contig_scan cells) = 0 then max_contig_idx (contig_scan cells) = -1
       else 0 \<le> max_contig_idx (contig_scan cells)
         \<and> free_run cells (nat (max_contig_idx (contig_scan cells))) (max_contig (contig_scan cells)))"
proof -
  define s where "s = fold contig_step (enumerate 0 cells) \<lparr>curr_idx = -1, max_contig = 0, max_contig_idx = -1\<rparr>"
  have inv: "scan_inv cells (length cells) s" using scan_all [OF assms le_refl] by (simp add: s_def)
  have scan: "contig_scan cells = contig_end (length cells) s" by (simp add: contig_scan_def s_def)
  have bound: "k \<le> max_contig s \<or> 0 \<le> curr_idx s \<and> int k \<le> int (length cells) - curr_idx s" if "free_run cells a k" for a k
    using inv that unfolding scan_inv_def free_run_def by blast
  have best: "if max_contig s = 0 then max_contig_idx s = -1
      else 0 \<le> max_contig_idx s \<and> free_run cells (nat (max_contig_idx s)) (max_contig s)"
    using inv unfolding scan_inv_def by blast
  show ?thesis
  proof (cases "curr_idx s \<ge> 0 \<and> nat (int (length cells) - curr_idx s) > max_contig s")
    case True
    then have e: "nat (int (length cells) - curr_idx s) = length cells - nat (curr_idx s)" by linarith
    have "free_run cells (nat (curr_idx s)) (length cells - nat (curr_idx s))"
      using inv True unfolding scan_inv_def by (simp split: if_splits)
    moreover have "k \<le> length cells - nat (curr_idx s)" if "free_run cells a k" for a k
      using bound [OF that] True e by linarith
    ultimately show ?thesis using True e by (auto simp: scan contig_end_def)
  next
    case False
    have "k \<le> max_contig s" if "free_run cells a k" for a k using bound [OF that] False by linarith
    moreover have "contig_scan cells = s" unfolding scan contig_end_def using False by (simp only: if_False)
    ultimately show ?thesis using best by auto
  qed
qed

lemma free_slot_run:
  assumes "kv_inv cache"
  shows "free_slot (kcells cache) (ksize cache) n h \<longleftrightarrow> free_run (kcells cache) h n"
proof -
  have e: "cpos (kcells cache ! j) < 0 \<longleftrightarrow> is_empty (kcells cache ! j)" if "j < ksize cache" for j
    using assms that by (auto simp: kv_inv_def list_all_length cell_ok_def not_le [symmetric])
  have "free_slot (kcells cache) (ksize cache) n h \<longleftrightarrow>
      h + n \<le> ksize cache \<and> (\<forall>i<n. is_empty (kcells cache ! (h + i)))"
    using e by (auto simp: free_slot_def)
  also have "(\<forall>i<n. is_empty (kcells cache ! (h + i))) \<longleftrightarrow> (\<forall>j. h \<le> j \<and> j < h + n \<longrightarrow> is_empty (kcells cache ! j))"
    by (metis le_add1 nat_add_left_cancel_less le_iff_add)
  finally show ?thesis using assms by (simp add: free_run_def kv_inv_def)
qed

text \<open>
  The view of a non-recurrent cache is accurate: \<open>token_count\<close> is what
  \<open>llama_get_kv_cache_token_count\<close> returns, \<open>used_cells\<close> what \<open>llama_get_kv_cache_used_cells\<close> returns
  (so the mismatch the code logs cannot occur), \<open>max_contiguous\<close> is the length of the longest run of
  free cells and \<open>max_contiguous_idx\<close> its start. A batch fits exactly if it is not longer than that.
\<close>

theorem view_accurate:
  assumes "kv_inv cache" "ksize cache < 2 ^ 31" "0 < vn_seq_max view"
    and "llama_kv_cache_view_update cache view = Inr view'"
  shows "vtoken_count view' = llama_get_kv_cache_token_count cache
    \<and> vused_cells view' = llama_get_kv_cache_used_cells cache
    \<and> (\<forall>a n. free_run (kcells cache) a n \<longrightarrow> n \<le> vmax_contiguous view')
    \<and> (if vmax_contiguous view' = 0 then vmax_contiguous_idx view' = -1
       else free_run (kcells cache) (nat (vmax_contiguous_idx view')) (vmax_contiguous view'))
    \<and> (fst (llama_kv_cache_find_slot cache batch) \<longleftrightarrow> n_tokens batch \<le> vmax_contiguous view')"
proof -
  have fin: "\<forall>c\<in>set (kcells cache). finite (cseq c)"
    using assms(1) by (auto simp: kv_inv_def list_all_iff cell_ok_def)
  have v: "vmax_contiguous view' = max_contig (contig_scan (kcells cache))"
    "vmax_contiguous_idx view' = max_contig_idx (contig_scan (kcells cache))"
    "vtoken_count view' = llama_get_kv_cache_token_count cache"
    "vused_cells view' = int (length (filter (view_used (vn_seq_max view)) (kcells cache)))"
    using assms(4) by (auto simp: llama_kv_cache_view_update_def Let_def bindE_Inr_iff
        llama_get_kv_cache_token_count_def split: if_splits)
  have "filter (view_used (vn_seq_max view)) (kcells cache) = filter (\<lambda>c. \<not> is_empty c) (kcells cache)"
    using fin assms(3) by (intro filter_cong) (auto simp: view_used_def is_empty_def)
  then have used: "vused_cells view' = int (unat (kused cache))"
    using v(4) assms(1) by (simp add: kv_inv_def occupied_def)
  have "unat (kused cache) < 2 ^ 31"
    using occupied_le [of "kcells cache"] assms(1,2) by (simp add: kv_inv_def)
  then have "sint (kused cache) = int (unat (kused cache))" by (rule sint_small)
  with used have used': "vused_cells view' = llama_get_kv_cache_used_cells cache"
    by (simp add: llama_get_kv_cache_used_cells_def)
  note longest = contig_scan_longest [OF fin, folded v]
  have slot: "fst (llama_kv_cache_find_slot cache batch) \<longleftrightarrow> (\<exists>h. free_run (kcells cache) h (n_tokens batch))"
    using find_slot_iff [OF assms(1)] free_slot_run [OF assms(1)] by simp
  have "(\<exists>h. free_run (kcells cache) h (n_tokens batch)) \<longleftrightarrow> n_tokens batch \<le> vmax_contiguous view'"
  proof
    assume le: "n_tokens batch \<le> vmax_contiguous view'"
    show "\<exists>h. free_run (kcells cache) h (n_tokens batch)"
    proof (cases "n_tokens batch = 0")
      case True
      then show ?thesis by (intro exI [of _ 0]) (simp add: free_run_def)
    next
      case False
      with le longest have "free_run (kcells cache) (nat (vmax_contiguous_idx view')) (vmax_contiguous view')" by auto
      with le show ?thesis by (intro exI [of _ "nat (vmax_contiguous_idx view')"]) (simp add: free_run_def)
    qed
  qed (use longest in blast)
  with longest v(3) used' slot show ?thesis by auto
qed


lemma view_accurate_witness:
  "\<exists>view'. llama_kv_cache_view_update shifted_cache (llama_kv_cache_view_init shifted_cache 1) = Inr view'
    \<and> vtoken_count view' = llama_get_kv_cache_token_count shifted_cache
    \<and> vused_cells view' = llama_get_kv_cache_used_cells shifted_cache"
proof -
  have ok: "ksize shifted_cache < 2 ^ 31" "0 < vn_seq_max (llama_kv_cache_view_init shifted_cache 1)"
    by (simp_all add: shifted_cache_def holes_cache_def llama_kv_cache_init_def llama_kv_cache_view_init_def)
  have "\<exists>view'. llama_kv_cache_view_update shifted_cache (llama_kv_cache_view_init shifted_cache 1) = Inr view'"
    by (simp add: llama_kv_cache_view_update_def Let_def shifted_cache_def new_cell_def add_i32_def)
  then obtain view' where v: "llama_kv_cache_view_update shifted_cache (llama_kv_cache_view_init shifted_cache 1) = Inr view'" ..
  from view_accurate [OF shifted_cache_ok(1) ok v] v show ?thesis by blast
qed

text \<open>
  The positions in the view are wrong while a shift is pending. \<open>llama_kv_cache_seq_add\<close> moves the
  position of a cell itself (\<open>delta\<close> only remembers by how much its key has still to be rotated), and
  the view adds \<open>delta\<close> to it again: a token at position 1 moved by 3 is at position 4, its view says 7.
\<close>

theorem view_shifts_twice:
  "\<exists>cache' view'. api_seq_add sample_cache 1 0 (-1) 3 = Inr cache'
    \<and> llama_kv_cache_view_update cache' (llama_kv_cache_view_init cache' 1) = Inr view'
    \<and> map cpos (kcells cache') = [0, 4, -1, -1] \<and> vcells view' = Some [0, 7, -1, -1]"
  by (simp add: api_seq_add_def llama_kv_cache_seq_add_def all_cells_def add_cell_def add_i32_def shifted_def has_seq_id_def
      range_start_def range_end_def pos_max_def new_cell_def Let_def llama_kv_cache_view_update_def llama_kv_cache_view_init_def
      shifted_def)

end
