(* ===== verification/KvInputs.thy ===== *)
theory KvInputs
  imports KvView
begin

text \<open>
  The inputs of a compute graph (\<open>llama_set_inputs\<close> of \<open>src/src/llama.cpp\<close>): the output rows, the
  attention masks, the pooling rows and the state masks of recurrent models. Token ids, embeddings and
  positions are only copied; the position buckets of T5 are floating-point arithmetic and left out.
\<close>

section \<open>Output rows\<close>

text \<open>The tokens whose rows the graph computes, from the number of outputs the scheduler announced.\<close>

definition flagged :: "bool list \<Rightarrow> nat list" where
  "flagged flags = filter (\<lambda>i. flags ! i) [0..<length flags]"

definition set_out_ids :: "nat \<Rightarrow> nat \<Rightarrow> bool list option \<Rightarrow> nat list res" where
  "set_out_ids n_outputs n flags =
    (if n_outputs = n then Inr [0..<n]
     else case flags of
       Some fs \<Rightarrow> if n_outputs = length (flagged fs) then Inr (flagged fs) else Inl (Abort ''lctx.n_outputs == n_outputs'')
     | None \<Rightarrow> if n_outputs = 1 then Inr [n - 1]
         else if n_outputs = 0 then Inr [] else Inl (Abort ''lctx.n_outputs == 0''))"

section \<open>Attention masks\<close>

text \<open>An entry is \<open>-INFINITY\<close> or a bias: 0, or minus the distance for ALiBi (exact in a float).\<close>

datatype mask_value = NegInf | Bias int

definition ggml_pad :: "nat \<Rightarrow> nat \<Rightarrow> nat" where
  "ggml_pad x n = nat ((int x + int n - 1) AND NOT (int n - 1))"

definition kq_mask_pad :: nat where
  "kq_mask_pad = 32"

text \<open>The causal mask of one token: over the first \<open>n_kv\<close> cells.\<close>

definition causal_value :: "bool \<Rightarrow> int \<Rightarrow> int \<Rightarrow> kv_cell \<Rightarrow> mask_value" where
  "causal_value use_alibi pos seq_id cell =
    (if \<not> has_seq_id cell seq_id \<or> cpos cell > pos then NegInf
     else if use_alibi then Bias (- \<bar>cpos cell - pos\<bar>) else Bias 0)"

definition swa_value :: "bool \<Rightarrow> int \<Rightarrow> int \<Rightarrow> int \<Rightarrow> kv_cell \<Rightarrow> mask_value" where
  "swa_value use_alibi n_swa pos seq_id cell =
    (if pos - cpos cell \<ge> n_swa then NegInf else causal_value use_alibi pos seq_id cell)"

definition pad_rows :: "nat \<Rightarrow> nat \<Rightarrow> mask_value list list \<Rightarrow> mask_value list list" where
  "pad_rows n width rows = rows @ replicate (ggml_pad n kq_mask_pad - n) (replicate width NegInf)"

definition kq_mask_causal :: "bool \<Rightarrow> kv_cache \<Rightarrow> kv_batch \<Rightarrow> mask_value list list" where
  "kq_mask_causal use_alibi cache batch =
    pad_rows (n_tokens batch) (unat (kn cache))
      (map (\<lambda>j. map (\<lambda>i. causal_value use_alibi (bpos batch ! j) (bseq batch ! j ! 0) (kcells cache ! i))
                    [0..<unat (kn cache)]) [0..<n_tokens batch])"

definition kq_mask_swa :: "bool \<Rightarrow> int \<Rightarrow> kv_cache \<Rightarrow> kv_batch \<Rightarrow> mask_value list list" where
  "kq_mask_swa use_alibi n_swa cache batch =
    pad_rows (n_tokens batch) (unat (kn cache))
      (map (\<lambda>j. map (\<lambda>i. swa_value use_alibi n_swa (bpos batch ! j) (bseq batch ! j ! 0) (kcells cache ! i))
                    [0..<unat (kn cache)]) [0..<n_tokens batch])"

text \<open>Without causal attention a token sees the tokens of the batch that share its first sequence.\<close>

definition batch_value :: "bool \<Rightarrow> kv_batch \<Rightarrow> nat \<Rightarrow> nat \<Rightarrow> mask_value" where
  "batch_value use_alibi batch j i =
    (if list_ex (\<lambda>s. s = bseq batch ! j ! 0) (bseq batch ! i) then
       if use_alibi then Bias (- \<bar>bpos batch ! i - bpos batch ! j\<bar>) else Bias 0
     else NegInf)"

text \<open>\<open>n_stride\<close> is the number of cells or of tokens; smaller than the batch, the rows would overlap.\<close>

definition kq_mask_batch :: "bool \<Rightarrow> nat \<Rightarrow> kv_batch \<Rightarrow> mask_value list list res" where
  "kq_mask_batch use_alibi n_stride batch =
    (if n_stride < n_tokens batch then Inl (UndefinedBehaviour ''mask rows overlap'')
     else Inr (map (\<lambda>j. map (batch_value use_alibi batch j) [0..<n_tokens batch]
                 @ replicate (n_stride - n_tokens batch) NegInf) [0..<n_tokens batch]))"

text \<open>The cross attention of encoder-decoder models: encoder outputs that share a sequence.\<close>

definition kq_mask_cross :: "int set list \<Rightarrow> kv_batch \<Rightarrow> mask_value list list" where
  "kq_mask_cross seq_ids_enc batch =
    pad_rows (n_tokens batch) (length seq_ids_enc)
      (map (\<lambda>j. map (\<lambda>ids. if list_ex (\<lambda>s. s \<in> ids) (bseq batch ! j) then Bias 0 else NegInf) seq_ids_enc)
         [0..<n_tokens batch])"

section \<open>Pooling\<close>

text \<open>
  Sequence ids index arrays of \<open>n_tokens\<close> entries; the code checks the upper bound only.
\<close>

definition pool_seq :: "kv_batch \<Rightarrow> nat \<Rightarrow> nat res" where
  "pool_seq batch i =
    (let s = bseq batch ! i ! 0 in
     if \<not> s < int (n_tokens batch) then Inl (Abort ''seq_id cannot be larger than n_tokens'')
     else if s < 0 then Inl (UndefinedBehaviour ''index out of bounds'')
     else Inr (nat s))"

text \<open>Mean pooling: the weight \<open>1 / sum\<close> is given by its denominator, the weight 0 by 0.\<close>

definition mean_sums :: "kv_batch \<Rightarrow> nat list res" where
  "mean_sums batch = foldE (\<lambda>i sums. bindE (pool_seq batch i) (\<lambda>s. Inr (sums[s := sums ! s + 1])))
     [0..<n_tokens batch] (replicate (n_tokens batch) 0)"

definition set_inp_mean :: "kv_batch \<Rightarrow> nat list res" where
  "set_inp_mean batch =
    (let n = n_tokens batch in
     bindE (mean_sums batch) (\<lambda>sums.
       foldE (\<lambda>i data. bindE (pool_seq batch i) (\<lambda>s. Inr (data[s * n + i := sums ! s])))
         [0..<n] (replicate (n * n) 0)))"

definition set_inp_cls :: "kv_batch \<Rightarrow> nat list res" where
  "set_inp_cls batch =
    foldE (\<lambda>i data. bindE (pool_seq batch i) (\<lambda>s. Inr (if bpos batch ! i = 0 then data[s := i] else data)))
      [0..<n_tokens batch] (replicate (n_tokens batch) 0)"

definition last_step :: "kv_batch \<Rightarrow> nat \<Rightarrow> int list \<times> int list \<Rightarrow> (int list \<times> int list) res" where
  "last_step batch i acc = (case acc of (last_pos, last_row) \<Rightarrow>
     bindE (pool_seq batch i) (\<lambda>s.
       Inr (if bpos batch ! i \<ge> last_pos ! s then (last_pos[s := bpos batch ! i], last_row[s := int i])
            else (last_pos, last_row))))"

definition set_inp_last :: "kv_batch \<Rightarrow> nat list res" where
  "set_inp_last batch =
    (let n = n_tokens batch in
     bindE (foldE (last_step batch) [0..<n] (replicate n (-1), replicate n (-1))) (\<lambda>(last_pos, last_row).
       Inr (map (\<lambda>r. if r \<ge> 0 then nat r else 0) last_row)))"

section \<open>Recurrent models\<close>

text \<open>Which states are kept; a state with a position is marked as belonging to its own sequence.\<close>

definition set_s_mask :: "kv_cache \<Rightarrow> bool list \<times> kv_cache" where
  "set_s_mask cache =
    fold (\<lambda>i (data, cache).
        let s = i + khead cache; cell = kcells cache ! s; self = has_seq_id cell (int s) in
        (data @ [self],
         if \<not> self \<and> cpos cell \<ge> 0
         then cache\<lparr>kcells := (kcells cache)[s := cell\<lparr>cseq := insert (int s) (cseq cell)\<rparr>]\<rparr> else cache))
      [0..<unat (kn cache)] ([], cache)"

definition set_s_seq :: "kv_cache \<Rightarrow> kv_batch \<Rightarrow> int list list res" where
  "set_s_seq cache batch =
    mapE (\<lambda>seqs. if seqs = [] then Inl (Abort ''0 < n_seq'')
        else Inr (map (\<lambda>i. if i < length seqs then seqs ! i - int (khead cache) else -1) [0..<unat (kn cache)]))
      (bseq batch)"

section \<open>What a token sees\<close>

lemma int_and_not_mask: "(k :: int) AND NOT (mask n) = k div 2 ^ n * 2 ^ n"
proof -
  have "k AND NOT (mask n) = push_bit n (drop_bit n k)" by (rule bit_eqI) (auto simp: bit_simps)
  then show ?thesis by (simp add: push_bit_eq_mult drop_bit_eq_div)
qed

lemma ggml_pad_power: "ggml_pad x (2 ^ n) = (x + 2 ^ n - 1) div 2 ^ n * 2 ^ n"
proof -
  have "ggml_pad x (2 ^ n) = nat ((int x + 2 ^ n - 1) AND NOT (mask n))"
    by (simp add: ggml_pad_def mask_eq_exp_minus_1)
  also have "\<dots> = nat (int ((x + 2 ^ n - 1) div 2 ^ n * 2 ^ n))"
    unfolding int_and_not_mask by (simp add: zdiv_int of_nat_diff trans_le_add2)
  finally show ?thesis by (simp only: nat_int)
qed

lemma ggml_pad_ge: "x \<le> ggml_pad x (2 ^ n)"
proof -
  have "x + 2 ^ n - 1 = (x + 2 ^ n - 1) div 2 ^ n * 2 ^ n + (x + 2 ^ n - 1) mod 2 ^ n"
    by (rule div_mult_mod_eq [symmetric])
  moreover have "(x + 2 ^ n - 1) mod 2 ^ n < 2 ^ n" by simp
  ultimately have "x + 2 ^ n - 1 < ggml_pad x (2 ^ n) + 2 ^ n" unfolding ggml_pad_power by linarith
  then show ?thesis by (simp add: less_eq_Suc_le)
qed

definition attended :: "mask_value list list \<Rightarrow> nat \<Rightarrow> nat set" where
  "attended msk j = {i. i < length (msk ! j) \<and> msk ! j ! i \<noteq> NegInf}"

lemma attended_map:
  "j < n \<Longrightarrow> attended (pad_rows n w (map (\<lambda>j. map (f j) [0..<m]) [0..<n])) j = {i. i < m \<and> f j i \<noteq> NegInf}"
  by (auto simp: attended_def pad_rows_def nth_append)

text \<open>
  C18: the causal masks are exact. If the cells up to \<open>kv.n\<close> include every occupied one, a token of the
  batch attends to exactly the cached tokens of its (first) sequence that are not in its future, with
  the sliding window also not older than the window, with ALiBi at the bias of their distance; the
  padding rows attend to nothing.
\<close>

theorem causal_mask_exact:
  assumes "kv_inv cache" "llama_kv_cache_cell_max cache \<le> unat (kn cache)" "unat (kn cache) \<le> ksize cache"
    and "j < n_tokens batch"
  defines "seen \<equiv> \<lambda>i. i < ksize cache \<and> has_seq_id (kcells cache ! i) (bseq batch ! j ! 0) \<and> cpos (kcells cache ! i) \<le> bpos batch ! j"
  shows "attended (kq_mask_causal alibi cache batch) j = {i. seen i}
    \<and> attended (kq_mask_swa alibi n_swa cache batch) j = {i. seen i \<and> cpos (kcells cache ! i) > bpos batch ! j - n_swa}
    \<and> (\<forall>i. seen i \<longrightarrow> kq_mask_causal alibi cache batch ! j ! i
          = Bias (if alibi then cpos (kcells cache ! i) - bpos batch ! j else 0))
    \<and> (\<forall>k\<ge>n_tokens batch. k < length (kq_mask_causal alibi cache batch) \<longrightarrow>
          attended (kq_mask_causal alibi cache batch) k = {})"
proof (intro conjI)
  have occ: "i < unat (kn cache)" if "seen i" for i
  proof -
    have "i \<in> live (kcells cache)" using that assms(1) by (auto simp: seen_def live_def has_seq_id_def is_empty_def kv_inv_def)
    with live_cell_max [OF assms(1)] assms(2) show ?thesis by fastforce
  qed
  then show "attended (kq_mask_causal alibi cache batch) j = {i. seen i}"
    "attended (kq_mask_swa alibi n_swa cache batch) j = {i. seen i \<and> cpos (kcells cache ! i) > bpos batch ! j - n_swa}"
    using assms(3,4) unfolding kq_mask_causal_def kq_mask_swa_def
    by (auto simp: attended_map causal_value_def swa_value_def seen_def split: if_splits)
  show "\<forall>i. seen i \<longrightarrow> kq_mask_causal alibi cache batch ! j ! i
      = Bias (if alibi then cpos (kcells cache ! i) - bpos batch ! j else 0)"
    using occ assms(4) by (auto simp: kq_mask_causal_def pad_rows_def nth_append causal_value_def seen_def)
  show "\<forall>k\<ge>n_tokens batch. k < length (kq_mask_causal alibi cache batch) \<longrightarrow> attended (kq_mask_causal alibi cache batch) k = {}"
    by (auto simp: attended_def kq_mask_causal_def pad_rows_def nth_append)
qed

lemma causal_mask_exact_witness:
  "attended (kq_mask_causal False (sample_cache\<lparr>kn := 4\<rparr>) \<lparr>bpos = [1, 0], bseq = [[1], [0]]\<rparr>) 0 = {1}"
proof -
  let ?c = "sample_cache\<lparr>kn := 4\<rparr>" and ?b = "\<lparr>bpos = [1, 0], bseq = [[1], [0]]\<rparr>"
  have inv: "kv_inv ?c" using sample_cache_inv by (simp add: kv_inv_def)
  have max: "llama_kv_cache_cell_max ?c \<le> unat (kn ?c)" using cell_max_le [of ?c] by simp
  have "attended (kq_mask_causal False ?c ?b) 0
    = {i. i < ksize ?c \<and> has_seq_id (kcells ?c ! i) (bseq ?b ! 0 ! 0) \<and> cpos (kcells ?c ! i) \<le> bpos ?b ! 0}"
    by (rule causal_mask_exact [OF inv max, THEN conjunct1]) simp_all
  also have "\<dots> = {1}"
  proof -
    have "{i. i < (4 :: nat) \<and> P i} = set (filter P [0..<4])" for P by auto
    moreover have "[0..<4] = [0, 1, 2, 3 :: nat]" by (simp add: upt_rec)
    ultimately show ?thesis by (simp add: has_seq_id_def new_cell_def)
  qed
  finally show ?thesis .
qed

section \<open>Pooling rows\<close>

definition pool_ok :: "kv_batch \<Rightarrow> bool" where
  "pool_ok batch \<longleftrightarrow> length (bseq batch) = n_tokens batch
     \<and> (\<forall>i<n_tokens batch. 0 \<le> bseq batch ! i ! 0 \<and> bseq batch ! i ! 0 < int (n_tokens batch))"

abbreviation seq_of :: "kv_batch \<Rightarrow> nat \<Rightarrow> nat" where
  "seq_of batch i \<equiv> nat (bseq batch ! i ! 0)"

lemma pool_seq_ok: "pool_ok batch \<Longrightarrow> i < n_tokens batch \<Longrightarrow> pool_seq batch i = Inr (seq_of batch i) \<and> seq_of batch i < n_tokens batch"
  by (auto simp: pool_seq_def pool_ok_def Let_def)


lemma mean_sums_loop:
  assumes ok: "pool_ok batch"
  shows "m \<le> n_tokens batch \<Longrightarrow>
    foldE (\<lambda>i sums. bindE (pool_seq batch i) (\<lambda>s. Inr (sums[s := sums ! s + 1]))) [0..<m] (replicate (n_tokens batch) 0)
    = Inr (map (\<lambda>s. card {k. k < m \<and> seq_of batch k = s}) [0..<n_tokens batch])"
proof (induction m)
  case 0
  show ?case by (simp add: map_replicate_trivial)
next
  case (Suc m)
  have set: "{k. k < Suc m \<and> seq_of batch k = s} =
      (if seq_of batch m = s then insert m {k. k < m \<and> seq_of batch k = s} else {k. k < m \<and> seq_of batch k = s})" for s
    by (auto simp: less_Suc_eq)
  have "foldE (\<lambda>i sums. bindE (pool_seq batch i) (\<lambda>s. Inr (sums[s := sums ! s + 1]))) [0..<m] (replicate (n_tokens batch) 0)
    = Inr (map (\<lambda>s. card {k. k < m \<and> seq_of batch k = s}) [0..<n_tokens batch])" using Suc by simp
  moreover have "(map (\<lambda>s. card {k. k < m \<and> seq_of batch k = s}) [0..<n_tokens batch])
      [seq_of batch m := card {k. k < m \<and> seq_of batch k = seq_of batch m} + 1]
    = map (\<lambda>s. card {k. k < Suc m \<and> seq_of batch k = s}) [0..<n_tokens batch]"
    by (rule nth_equalityI) (auto simp: nth_list_update set)
  ultimately show ?case using pool_seq_ok [OF ok, of m] Suc.prems by (simp add: foldE_append)
qed

lemma mean_loop:
  assumes ok: "pool_ok batch" and n: "n = n_tokens batch"
  shows "m \<le> n \<Longrightarrow> \<exists>data. foldE (\<lambda>i data. bindE (pool_seq batch i) (\<lambda>s. Inr (data[s * n + i := sums ! s]))) [0..<m]
      (replicate (n * n) 0) = Inr data \<and> length data = n * n
    \<and> (\<forall>s<n. \<forall>i<n. data ! (s * n + i) = (if i < m \<and> seq_of batch i = s then sums ! s else 0))"
proof (induction m)
  case 0
  have "s * n + i < n * n" if "s < n" "i < n" for s i
  proof -
    have "s * n + i < Suc s * n" using that by simp
    also have "\<dots> \<le> n * n" using that by (intro mult_le_mono1) simp
    finally show ?thesis .
  qed
  then show ?case by simp
next
  case (Suc m)
  then obtain data where IH: "foldE (\<lambda>i data. bindE (pool_seq batch i) (\<lambda>s. Inr (data[s * n + i := sums ! s]))) [0..<m]
      (replicate (n * n) 0) = Inr data" "length data = n * n"
    "\<forall>s<n. \<forall>i<n. data ! (s * n + i) = (if i < m \<and> seq_of batch i = s then sums ! s else 0)" by auto
  have sm: "pool_seq batch m = Inr (seq_of batch m)" "seq_of batch m < n" "m < n"
    using pool_seq_ok [OF ok, of m] Suc.prems n by auto
  let ?d = "data[seq_of batch m * n + m := sums ! seq_of batch m]"
  have "seq_of batch m * n + m < Suc (seq_of batch m) * n" using sm by simp
  also have "\<dots> \<le> n * n" using sm by (intro mult_le_mono1) simp
  finally have lt: "seq_of batch m * n + m < length data" using IH(2) by simp
  have idx: "s * n + i = s' * n + i' \<longleftrightarrow> s = s' \<and> i = i'" if "i < n" "i' < n" for s s' i i'
  proof
    assume e: "s * n + i = s' * n + i'"
    have "(s * n + i) div n = s" "(s' * n + i') div n = s'" using that by auto
    with e show "s = s' \<and> i = i'" by simp
  qed simp
  have "\<forall>s<n. \<forall>i<n. ?d ! (s * n + i) = (if i < Suc m \<and> seq_of batch i = s then sums ! s else 0)"
    using IH(3) lt sm idx by (auto simp: nth_list_update less_Suc_eq)
  then show ?case using IH(1,2) sm by (simp add: foldE_append)
qed

definition last_of :: "kv_batch \<Rightarrow> nat \<Rightarrow> nat \<Rightarrow> nat \<Rightarrow> bool" where
  "last_of batch m s k \<longleftrightarrow> k < m \<and> seq_of batch k = s
     \<and> (\<forall>i<m. seq_of batch i = s \<longrightarrow> bpos batch ! i < bpos batch ! k \<or> bpos batch ! i = bpos batch ! k \<and> i \<le> k)"

lemma last_loop:
  assumes ok: "pool_ok batch" and pos: "\<forall>i<n_tokens batch. bpos batch ! i \<ge> 0"
  shows "m \<le> n_tokens batch \<Longrightarrow> \<exists>lp lr. foldE (last_step batch) [0..<m]
      (replicate (n_tokens batch) (-1), replicate (n_tokens batch) (-1)) = Inr (lp, lr)
    \<and> length lp = n_tokens batch \<and> length lr = n_tokens batch
    \<and> (\<forall>s<n_tokens batch. if \<exists>i<m. seq_of batch i = s
         then \<exists>k. lr ! s = int k \<and> lp ! s = bpos batch ! k \<and> last_of batch m s k
         else lr ! s = -1 \<and> lp ! s = -1)"
proof (induction m)
  case (Suc m)
  let ?n = "n_tokens batch" and ?s = "seq_of batch m"
  from Suc obtain lp lr where IH: "foldE (last_step batch) [0..<m] (replicate ?n (-1), replicate ?n (-1)) = Inr (lp, lr)"
    "length lp = ?n" "length lr = ?n"
    "\<forall>s<?n. if \<exists>i<m. seq_of batch i = s
         then \<exists>k. lr ! s = int k \<and> lp ! s = bpos batch ! k \<and> last_of batch m s k else lr ! s = -1 \<and> lp ! s = -1"
    by auto
  have sm: "pool_seq batch m = Inr ?s" "?s < ?n" using pool_seq_ok [OF ok, of m] Suc.prems by auto
  define lp' lr' where "lp' = (if bpos batch ! m \<ge> lp ! ?s then lp[?s := bpos batch ! m] else lp)"
    and "lr' = (if bpos batch ! m \<ge> lp ! ?s then lr[?s := int m] else lr)"
  have step: "foldE (last_step batch) [0..<Suc m] (replicate ?n (-1), replicate ?n (-1)) = Inr (lp', lr')"
    using IH(1) sm by (simp add: foldE_append last_step_def lp'_def lr'_def)
  have "if \<exists>i<Suc m. seq_of batch i = s
      then \<exists>k. lr' ! s = int k \<and> lp' ! s = bpos batch ! k \<and> last_of batch (Suc m) s k else lr' ! s = -1 \<and> lp' ! s = -1"
    if s: "s < ?n" for s
  proof (cases "s = ?s")
    case False
    have "last_of batch (Suc m) s k \<longleftrightarrow> last_of batch m s k" for k
      using False by (auto simp: last_of_def less_Suc_eq)
    then show ?thesis using IH(4) s False by (simp add: lp'_def lr'_def less_Suc_eq) (metis less_Suc_eq)
  next
    case True
    show ?thesis
    proof (cases "bpos batch ! m \<ge> lp ! ?s")
      case new: True
      have "last_of batch (Suc m) ?s m"
      proof (cases "\<exists>i<m. seq_of batch i = ?s")
        case ex: True
        from IH(4) [rule_format, OF sm(2), unfolded if_P [OF ex]]
        obtain k where "lp ! ?s = bpos batch ! k" "last_of batch m ?s k" by auto
        with new show ?thesis by (fastforce simp: last_of_def less_Suc_eq)
      qed (auto simp: last_of_def less_Suc_eq)
      then show ?thesis using new True IH(2,3) sm(2) by (auto simp: lp'_def lr'_def)
    next
      case old: False
      have ex: "\<exists>i<m. seq_of batch i = ?s"
      proof (rule ccontr)
        assume none: "\<not> (\<exists>i<m. seq_of batch i = ?s)"
        from IH(4) [rule_format, OF sm(2), unfolded if_not_P [OF none]] have "lp ! ?s = -1" by simp
        moreover have "bpos batch ! m \<ge> 0" using pos Suc.prems by simp
        ultimately show False using old by simp
      qed
      from IH(4) [rule_format, OF sm(2), unfolded if_P [OF ex]]
      obtain k where k: "lr ! ?s = int k" "lp ! ?s = bpos batch ! k" "last_of batch m ?s k" by auto
      with old have "last_of batch (Suc m) ?s k" by (fastforce simp: last_of_def less_Suc_eq)
      with k old True show ?thesis by (auto simp: lp'_def lr'_def)
    qed
  qed
  moreover have "length lp' = ?n" "length lr' = ?n" using IH(2,3) by (simp_all add: lp'_def lr'_def)
  ultimately show ?case using step by blast
qed simp

text \<open>
  The pooling rows. If the first sequence ids of a batch are smaller than its number of tokens, as
  the code asserts (and not negative, which it does not), no assertion fails; mean pooling weighs the
  tokens of each sequence by one over their number and all others by 0, and last-token pooling takes
  of each sequence in the batch the token with the greatest position, the latest such.
\<close>

theorem pooling_rows:
  assumes "pool_ok batch" "\<forall>i<n_tokens batch. bpos batch ! i \<ge> 0"
  shows "\<exists>mean rows. set_inp_mean batch = Inr mean \<and> set_inp_last batch = Inr rows
    \<and> (\<forall>s<n_tokens batch. \<forall>i<n_tokens batch. mean ! (s * n_tokens batch + i) =
         (if seq_of batch i = s then card {k. k < n_tokens batch \<and> seq_of batch k = s} else 0))
    \<and> (\<forall>s<n_tokens batch. (\<exists>i<n_tokens batch. seq_of batch i = s) \<longrightarrow> last_of batch (n_tokens batch) s (rows ! s))"
proof -
  let ?n = "n_tokens batch"
  let ?sums = "map (\<lambda>s. card {k. k < ?n \<and> seq_of batch k = s}) [0..<?n]"
  have sums: "mean_sums batch = Inr ?sums"
    unfolding mean_sums_def by (rule mean_sums_loop [OF assms(1) order_refl])
  from mean_loop [OF assms(1) refl order_refl, of ?sums] obtain mean where
    "set_inp_mean batch = Inr mean"
    "\<forall>s<?n. \<forall>i<?n. mean ! (s * ?n + i) = (if seq_of batch i = s then card {k. k < ?n \<and> seq_of batch k = s} else 0)"
    by (auto simp: set_inp_mean_def Let_def sums)
  moreover from last_loop [OF assms order_refl] obtain lp lr where last:
    "foldE (last_step batch) [0..<?n] (replicate ?n (-1), replicate ?n (-1)) = Inr (lp, lr)"
    "length lr = ?n"
    "\<forall>s<?n. if \<exists>i<?n. seq_of batch i = s
         then \<exists>k. lr ! s = int k \<and> lp ! s = bpos batch ! k \<and> last_of batch ?n s k
         else lr ! s = -1 \<and> lp ! s = -1" by auto
  moreover have "set_inp_last batch = Inr (map (\<lambda>r. if r \<ge> 0 then nat r else 0) lr)"
    using last(1) by (simp add: set_inp_last_def Let_def)
  moreover have "last_of batch ?n s (map (\<lambda>r. if r \<ge> 0 then nat r else 0) lr ! s)"
    if that: "s < ?n" "\<exists>i<?n. seq_of batch i = s" for s
  proof -
    from last(3) [rule_format, OF that(1), unfolded if_P [OF that(2)]]
    obtain k where "lr ! s = int k" "last_of batch ?n s k" by auto
    with that last(2) show ?thesis by simp
  qed
  ultimately show ?thesis by blast
qed

lemma pooling_rows_witness:
  "\<exists>mean rows. set_inp_mean \<lparr>bpos = [0, 1, 0], bseq = [[0], [0], [1]]\<rparr> = Inr mean
    \<and> set_inp_last \<lparr>bpos = [0, 1, 0], bseq = [[0], [0], [1]]\<rparr> = Inr rows"
proof -
  let ?b = "\<lparr>bpos = [0, 1, 0], bseq = [[0], [0], [1]]\<rparr>"
  have b: "pool_ok ?b" "\<forall>i<n_tokens ?b. bpos ?b ! i \<ge> 0"
    by (auto simp: pool_ok_def less_Suc_eq numeral_eq_Suc)
  from pooling_rows [OF b] show ?thesis by blast
qed

lemma pooling_example: "set_inp_mean \<lparr>bpos = [0, 1, 0], bseq = [[0], [0], [1]]\<rparr> = Inr [2, 2, 0, 0, 0, 1, 0, 0, 0]
    \<and> set_inp_last \<lparr>bpos = [0, 1, 0], bseq = [[0], [0], [1]]\<rparr> = Inr [1, 2, 0]"
  by code_simp

end
