(* ===== verification/KvDecode.thy ===== *)
theory KvDecode
  imports KvInputs
begin

text \<open>
  \<open>llama_decode_internal\<close> and \<open>llama_output_reserve\<close> of \<open>src/src/llama.cpp\<close>: a batch is cut into
  micro-batches; each gets a slot in the KV cache, is evaluated, and its output rows are appended to
  the output buffer. The compute graph, built and run by ggml, is a parameter: from its inputs and the
  cached data it computes the new data, a row of results for each token and one for each sequence. The
  allocation of a buffer and the floating-point test for fragmentation are parameters too. Timing, the
  number of threads and backend synchronisation are left out.
\<close>

section \<open>Batches and contexts\<close>

text \<open>\<open>inputs\<close> stands for the token ids or the embeddings, of which a batch has exactly one.\<close>

record 'i llama_batch =
  inputs :: "'i list"
  pos_arr :: "int list option"
  seq_arr :: "int list list option"
  logit_flags :: "bool list option"
  all_pos_0 :: int
  all_pos_1 :: int
  all_seq_id :: int

datatype pooling_type = PoolUnspecified | PoolNone | PoolMean | PoolCls | PoolLast

record params =
  n_batch :: nat
  n_ubatch :: nat
  n_seq_max :: nat
  causal_attn :: bool
  model_causal :: bool
  embeddings :: bool
  pooling :: pooling_type
  logits_all :: bool
  n_vocab :: nat
  n_embd :: nat
  flash_attn :: bool
  use_alibi :: bool
  n_swa :: int
  defrag_enabled :: bool

text \<open>
  \<open>buf_size\<close> is the size of the output buffer, if allocated; \<open>logits\<close> and \<open>embd\<close>, views of it, are
  lists of rows, a cleared row being \<open>None\<close>; a null pointer is \<open>None\<close>.
\<close>

record ('k, 'r) ctx =
  kv :: kv_cache
  kdata :: "'k list"
  output_ids :: "int list"
  n_outputs :: nat
  buf_size :: "nat option"
  output_size :: nat
  logits :: "'r option list option"
  embd :: "'r option list option"
  logits_size :: nat
  embd_size :: nat
  embd_seq :: "int \<rightharpoonup> 'r"

section \<open>The output buffer\<close>

definition sizeof_float :: nat where
  "sizeof_float = 4"

definition llama_output_reserve :: "(nat \<Rightarrow> bool) \<Rightarrow> params \<Rightarrow> ('k, 'r) ctx \<Rightarrow> nat \<Rightarrow> nat \<times> ('k, 'r) ctx" where
  "llama_output_reserve alloc p lctx n_out =
    (let n_max = max n_out (n_seq_max p);
         has_logits = \<not> embeddings p;
         has_embd = embeddings p \<and> pooling p = PoolNone;
         l_size = (if has_logits then n_vocab p * n_max else 0);
         e_size = (if has_embd then n_embd p * n_max else 0);
         lctx = (if output_ids lctx = [] then lctx\<lparr>output_ids := replicate (n_batch p) 0\<rparr> else lctx);
         prev_size = (case buf_size lctx of Some s \<Rightarrow> s | None \<Rightarrow> 0);
         new_size = (l_size + e_size) * sizeof_float;
         realloc = buf_size lctx = None \<or> prev_size < new_size;
         lctx = (if realloc \<and> buf_size lctx \<noteq> None then lctx\<lparr>buf_size := None, logits := None, embd := None\<rparr> else lctx)
     in if realloc \<and> \<not> alloc new_size then (0, lctx)
        else (n_max, lctx\<lparr>
          buf_size := (if realloc then Some new_size else buf_size lctx),
          logits := (if has_logits then Some (replicate n_max None) else None),
          embd := (if has_embd then Some (replicate n_max None) else None),
          output_size := n_max, logits_size := l_size, embd_size := e_size,
          output_ids := map (\<lambda>_. -1) (output_ids lctx),
          n_outputs := 0\<rparr>))"

definition embd_pooled :: "params \<Rightarrow> bool" where
  "embd_pooled p \<longleftrightarrow> embeddings p \<and> pooling p \<noteq> PoolNone"

definition count_outputs :: "params \<Rightarrow> 'i llama_batch \<Rightarrow> nat" where
  "count_outputs p batch =
    (if logit_flags batch \<noteq> None \<and> \<not> embd_pooled p then length (filter id (the (logit_flags batch)))
     else if logits_all p \<or> embd_pooled p then length (inputs batch)
     else 1)"

text \<open>\<open>output_ids[i]\<close>: the row of token \<open>i\<close> in the output buffer.\<close>

definition set_output_ids :: "'i llama_batch \<Rightarrow> nat \<Rightarrow> int list \<Rightarrow> int list" where
  "set_output_ids batch n_out ids =
    (case logit_flags batch of
       Some flags \<Rightarrow>
         snd (fold (\<lambda>i (k, ids). if flags ! i then (k + 1, ids[i := k]) else (k, ids)) [0..<length (inputs batch)] (0, ids))
     | None \<Rightarrow> fold (\<lambda>i ids. ids[i := int i]) [0..<n_out] ids)"

section \<open>Micro-batches\<close>

definition slice :: "nat \<Rightarrow> nat \<Rightarrow> 'a list \<Rightarrow> 'a list" where
  "slice cur n xs = take n (drop cur xs)"

definition ubatch :: "'i llama_batch \<Rightarrow> nat \<Rightarrow> nat \<Rightarrow> 'i llama_batch" where
  "ubatch batch cur n =
    \<lparr>inputs = slice cur n (inputs batch), pos_arr = map_option (slice cur n) (pos_arr batch),
     seq_arr = map_option (slice cur n) (seq_arr batch), logit_flags = map_option (slice cur n) (logit_flags batch),
     all_pos_0 = all_pos_0 batch + int cur * all_pos_1 batch, all_pos_1 = all_pos_1 batch,
     all_seq_id = all_seq_id batch\<rparr>"

definition count_new :: "params \<Rightarrow> nat \<Rightarrow> nat \<Rightarrow> nat \<Rightarrow> 'i llama_batch \<Rightarrow> nat" where
  "count_new p n_out n_all cur ub =
    (if logit_flags ub \<noteq> None \<and> \<not> embd_pooled p then length (filter id (the (logit_flags ub)))
     else if n_out = n_all then length (inputs ub)
     else if cur + length (inputs ub) \<ge> n_all then 1 else 0)"

text \<open>Missing positions and sequences are filled in.\<close>

definition resolve :: "'i llama_batch \<Rightarrow> kv_batch" where
  "resolve ub =
    \<lparr>bpos = (case pos_arr ub of Some ps \<Rightarrow> ps
         | None \<Rightarrow> map (\<lambda>i. all_pos_0 ub + int i * all_pos_1 ub) [0..<length (inputs ub)]),
     bseq = (case seq_arr ub of Some ss \<Rightarrow> ss
         | None \<Rightarrow> replicate (length (inputs ub)) [all_seq_id ub])\<rparr>"

definition set_kv_n :: "params \<Rightarrow> kv_cache \<Rightarrow> kv_cache" where
  "set_kv_n p cache =
    (if recurrent cache then cache
     else let pad = llama_kv_cache_get_padding (flash_attn p)
       in cache\<lparr>kn := of_nat (min (ksize cache) (max pad (ggml_pad (llama_kv_cache_cell_max cache) pad)))\<rparr>)"

text \<open>Pending updates, the choice of the search start, and the slot; whether there was one.\<close>

definition prepare_cache :: "(int \<Rightarrow> 'k \<Rightarrow> 'k) \<Rightarrow> update_params \<Rightarrow> params \<Rightarrow> kv_batch \<Rightarrow> kv_cache \<times> 'k list \<Rightarrow>
    (bool \<times> kv_cache \<times> 'k list) res" where
  "prepare_cache rot m p batch s =
    (if model_causal p then
       bindE (llama_kv_cache_update_internal rot m s) (\<lambda>(cache, rows).
         let cache = (if khead cache > unat (kused cache) + 2 * n_tokens batch then cache\<lparr>khead := 0\<rparr> else cache) in
         case llama_kv_cache_find_slot cache batch of
           (ok, cache) \<Rightarrow> Inr (ok, if ok then set_kv_n p cache else cache, rows))
     else Inr (True, s))"

text \<open>What the compute graph is given.\<close>

record 'i graph_inputs =
  gin :: "'i list"
  gpos :: "int list"
  gmask :: "mask_value list list"
  gmask_swa :: "mask_value list list"
  gpool :: "nat list"
  gs_mask :: "bool list"
  gs_seq :: "int list list"
  gkv :: nat
  ghead :: nat

definition pool_inputs :: "params \<Rightarrow> kv_batch \<Rightarrow> nat list res" where
  "pool_inputs p batch =
    (if \<not> embeddings p then Inr []
     else case pooling p of PoolMean \<Rightarrow> set_inp_mean batch | PoolCls \<Rightarrow> set_inp_cls batch
       | PoolLast \<Rightarrow> set_inp_last batch | _ \<Rightarrow> Inr [])"

definition mask_inputs :: "params \<Rightarrow> kv_cache \<Rightarrow> kv_batch \<Rightarrow> (mask_value list list \<times> mask_value list list) res" where
  "mask_inputs p cache batch =
    (if causal_attn p then Inr (kq_mask_causal (use_alibi p) cache batch, kq_mask_swa (use_alibi p) (n_swa p) cache batch)
     else bindE (kq_mask_batch (use_alibi p) (if model_causal p then unat (kn cache) else n_tokens batch) batch)
       (\<lambda>msk. Inr (msk, [])))"

definition llama_set_inputs :: "params \<Rightarrow> kv_cache \<Rightarrow> 'i list \<Rightarrow> kv_batch \<Rightarrow> ('i graph_inputs \<times> kv_cache) res" where
  "llama_set_inputs p cache ins batch =
    (if \<not> model_causal p \<and> causal_attn p then Inl (Abort ''causal attention is not supported by this model'')
     else bindE (mask_inputs p cache batch) (\<lambda>(msk, swa).
       bindE (pool_inputs p batch) (\<lambda>pool.
         let (keep, cache') = (if recurrent cache then set_s_mask cache else ([], cache)) in
         bindE (if recurrent cache then set_s_seq cache' batch else Inr []) (\<lambda>sseq.
           Inr (\<lparr>gin = ins, gpos = bpos batch, gmask = msk, gmask_swa = swa, gpool = pool, gs_mask = keep,
                 gs_seq = sseq, gkv = unat (kn cache'), ghead = khead cache'\<rparr>, cache')))))"

definition advance_head :: "nat \<Rightarrow> kv_cache \<Rightarrow> kv_cache" where
  "advance_head n cache =
    (let head = khead cache + n in cache\<lparr>khead := (if head \<ge> ksize cache then 0 else head)\<rparr>)"

type_synonym ('i, 'k, 'r) graph = "'i graph_inputs \<Rightarrow> 'k list \<Rightarrow> 'k list \<times> (nat \<Rightarrow> 'r) \<times> (int \<Rightarrow> 'r)"

text \<open>Evaluating a micro-batch that has its slot: the results of its tokens and sequences.\<close>

definition run_graph :: "('i, 'k, 'r) graph \<Rightarrow> params \<Rightarrow> 'i list \<Rightarrow> kv_batch \<Rightarrow> kv_cache \<times> 'k list \<Rightarrow>
    (((nat \<Rightarrow> 'r) \<times> (int \<Rightarrow> 'r)) \<times> kv_cache \<times> 'k list) res" where
  "run_graph graph p ins batch s =
    (case s of (cache, rows) \<Rightarrow>
       bindE (llama_set_inputs p cache ins batch) (\<lambda>(gi, cache).
         let (rows, tok, pooled) = graph gi rows
         in Inr ((tok, pooled), advance_head (length ins) cache, rows)))"

section \<open>Extracting the results\<close>

definition write_rows :: "nat \<Rightarrow> 'r list \<Rightarrow> 'r option list \<Rightarrow> 'r option list" where
  "write_rows prev rows buf = take prev buf @ map Some rows @ drop (prev + length rows) buf"

definition extract_rows :: "nat \<Rightarrow> nat \<Rightarrow> nat \<Rightarrow> nat \<Rightarrow> 'r list \<Rightarrow> 'r option list option \<Rightarrow> 'r option list res" where
  "extract_rows width cap n_out prev rows buf =
    (case buf of
       None \<Rightarrow> Inl (Abort ''output buffer != nullptr'')
     | Some b \<Rightarrow>
         if \<not> prev + length rows \<le> n_out then Inl (Abort ''n_outputs_prev + n_outputs_new <= n_outputs'')
         else if \<not> (prev + length rows) * width \<le> cap then Inl (Abort ''output buffer too small'')
         else Inr (write_rows prev rows b))"

definition pooled_rows :: "kv_batch \<Rightarrow> (int \<Rightarrow> 'r) \<Rightarrow> int \<rightharpoonup> 'r" where
  "pooled_rows batch pooled =
    fold (\<lambda>seqs out. if out (seqs ! 0) \<noteq> None then out else out(seqs ! 0 \<mapsto> pooled (seqs ! 0))) (bseq batch) Map.empty"

definition extract_results :: "params \<Rightarrow> nat \<Rightarrow> nat \<Rightarrow> nat list \<Rightarrow> kv_batch \<Rightarrow> (nat \<Rightarrow> 'r) \<Rightarrow> (int \<Rightarrow> 'r) \<Rightarrow> ('k, 'r) ctx \<Rightarrow>
    ('k, 'r) ctx res" where
  "extract_results p n_out prev out_ids batch tok pooled lctx =
    (if n_outputs lctx = 0 then Inr lctx
     else if \<not> embeddings p then
       bindE (extract_rows (n_vocab p) (logits_size lctx) n_out prev (map tok out_ids) (logits lctx))
         (\<lambda>b. Inr (lctx\<lparr>logits := Some b\<rparr>))
     else case pooling p of
       PoolNone \<Rightarrow>
         bindE (extract_rows (n_embd p) (embd_size lctx) n_out prev (map tok out_ids) (embd lctx))
           (\<lambda>b. Inr (lctx\<lparr>embd := Some b\<rparr>))
     | PoolUnspecified \<Rightarrow> Inl (Abort ''unknown pooling type'')
     | _ \<Rightarrow> Inr (lctx\<lparr>embd_seq := pooled_rows batch pooled\<rparr>))"

section \<open>Decoding\<close>

definition ubatch_out_ids :: "params \<Rightarrow> nat \<Rightarrow> 'i llama_batch \<Rightarrow> nat list res" where
  "ubatch_out_ids p n_new ub =
    (if model_causal p \<or> pooling p = PoolNone then set_out_ids n_new (length (inputs ub)) (logit_flags ub) else Inr [])"

text \<open>
  One round of the loop: \<open>None\<close> if there is no slot (the code returns 1). \<open>lctx.n_outputs\<close> holds the
  number of outputs of the micro-batch.
\<close>

definition decode_ubatch :: "('i, 'k, 'r) graph \<Rightarrow> (int \<Rightarrow> 'k \<Rightarrow> 'k) \<Rightarrow> update_params \<Rightarrow> params \<Rightarrow> nat \<Rightarrow> nat \<Rightarrow> nat \<Rightarrow> nat \<Rightarrow>
    'i llama_batch \<Rightarrow> ('k, 'r) ctx \<Rightarrow> (bool \<times> ('k, 'r) ctx) res" where
  "decode_ubatch graph rot m p n_out n_all cur prev ub lctx =
    (let n_new = count_new p n_out n_all cur ub; lctx = lctx\<lparr>n_outputs := n_new\<rparr>; kb = resolve ub in
     bindE (prepare_cache rot m p kb (kv lctx, kdata lctx)) (\<lambda>(ok, cache, rows).
       if \<not> ok then Inr (False, lctx\<lparr>kv := cache, kdata := rows\<rparr>)
       else bindE (ubatch_out_ids p n_new ub) (\<lambda>out_ids.
         bindE (run_graph graph p (inputs ub) kb (cache, rows)) (\<lambda>((tok, pooled), cache, rows).
           bindE (extract_results p n_out prev out_ids kb tok pooled (lctx\<lparr>kv := cache, kdata := rows\<rparr>))
             (\<lambda>lctx. Inr (True, lctx))))))"

text \<open>
  The loop \<open>for (cur_token = 0; cur_token < n_tokens_all; cur_token += n_ubatch)\<close>: the value to return
  and the context. With \<open>n_ubatch = 0\<close>, which \<open>llama_new_context_with_model\<close> excludes, it would not end;
  the model ends it with an error.
\<close>

function decode_loop :: "('i, 'k, 'r) graph \<Rightarrow> (int \<Rightarrow> 'k \<Rightarrow> 'k) \<Rightarrow> update_params \<Rightarrow> params \<Rightarrow> nat \<Rightarrow> 'i llama_batch \<Rightarrow>
    nat \<Rightarrow> nat \<Rightarrow> ('k, 'r) ctx \<Rightarrow> (int \<times> ('k, 'r) ctx) res" where
  "decode_loop graph rot m p n_out batch cur prev lctx =
    (let n_all = length (inputs batch) in
     if cur < n_all then
       if n_ubatch p = 0 then Inl (Abort ''endless loop'')
       else bindE (decode_ubatch graph rot m p n_out n_all cur prev (ubatch batch cur (min (n_ubatch p) (n_all - cur))) lctx)
         (\<lambda>(ok, lctx). if \<not> ok then Inr (1, lctx)
           else decode_loop graph rot m p n_out batch (cur + n_ubatch p) (prev + n_outputs lctx) lctx)
     else Inr (0, lctx))"
  by pat_completeness auto
termination by (relation "measure (\<lambda>(graph, rot, m, p, n_out, batch, cur, prev, lctx). length (inputs batch) - cur)") auto

declare decode_loop.simps [simp del]

definition llama_decode_internal :: "('i, 'k, 'r) graph \<Rightarrow> (int \<Rightarrow> 'k \<Rightarrow> 'k) \<Rightarrow> (nat \<Rightarrow> bool) \<Rightarrow> (u32 \<Rightarrow> u32 \<Rightarrow> bool) \<Rightarrow>
    update_params \<Rightarrow> params \<Rightarrow> 'i llama_batch \<Rightarrow> ('k, 'r) ctx \<Rightarrow> (int \<times> ('k, 'r) ctx) res" where
  "llama_decode_internal graph rot alloc fragmented m p batch lctx =
    (let n_all = length (inputs batch) in
     if n_all = 0 then Inr (-1, lctx)
     else if \<not> n_all \<le> n_batch p then Inl (Abort ''n_tokens_all <= cparams.n_batch'')
     else if \<not> (causal_attn p \<or> n_ubatch p \<ge> n_all) then Inl (Abort ''non-causal attention requires n_ubatch >= n_tokens'')
     else
       let n_out = count_outputs p batch; (reserved, lctx) = llama_output_reserve alloc p lctx n_out in
       if reserved < n_out then Inr (-2, lctx)
       else bindE (decode_loop graph rot m p n_out batch 0 0
               (lctx\<lparr>output_ids := set_output_ids batch n_out (output_ids lctx)\<rparr>)) (\<lambda>(ret, lctx).
         if ret \<noteq> 0 then Inr (ret, lctx)
         else let lctx = lctx\<lparr>n_outputs := n_out\<rparr> in
           Inr (0, if causal_attn p \<and> defrag_enabled p \<and> fragmented (kused (kv lctx)) (kn (kv lctx))
                   then lctx\<lparr>kv := llama_kv_cache_defrag (kv lctx)\<rparr> else lctx)))"

text \<open>
  The row of the output buffer \<open>llama_get_logits_ith\<close> (or \<open>llama_get_embeddings_ith\<close>) points to;
  \<open>None\<close> for the null pointer of its error paths (a release build).
\<close>

definition get_ith :: "'r option list option \<Rightarrow> ('k, 'r) ctx \<Rightarrow> int \<Rightarrow> nat option" where
  "get_ith buf lctx i =
    (if buf = None then None
     else
       let j = (if i < 0 then (let j = int (n_outputs lctx) + i in if j < 0 then None else Some j)
                else if nat i \<ge> length (output_ids lctx) then None
                else Some (output_ids lctx ! nat i))
       in case j of None \<Rightarrow> None
          | Some j \<Rightarrow> if j < 0 then None else if j \<ge> int (n_outputs lctx) then None else Some (nat j))"

definition llama_get_logits_ith :: "('k, 'r) ctx \<Rightarrow> int \<Rightarrow> nat option" where
  "llama_get_logits_ith lctx i = get_ith (logits lctx) lctx i"

definition llama_get_embeddings_ith :: "('k, 'r) ctx \<Rightarrow> int \<Rightarrow> nat option" where
  "llama_get_embeddings_ith lctx i = get_ith (embd lctx) lctx i"

end
