(* ===== verification/KvDecodeProps.thy ===== *)
theory KvDecodeProps
  imports KvDecode
begin

text \<open>
  Decoding: the cut of a batch into micro-batches, the bookkeeping of its outputs and the KV cache
  together. The rows in the output buffer are compared with a reference that evaluates the
  micro-batches one after the other and keeps every row.
\<close>

section \<open>Preparing the cache\<close>

lemma contents_tokens:
  assumes "contents cells' rows' = contents cells rows" "length rows = length cells" "length rows' = length cells'"
  shows "kv_tokens cells' = kv_tokens cells"
  using tokens_of_contents [OF assms(2)] tokens_of_contents [OF assms(3)] assms(1) by simp

lemma kv_tokens_delta: "kv_tokens (map (\<lambda>cell. cell\<lparr>cdelta := 0\<rparr>) cells) = kv_tokens cells"
  by (induction cells) (simp_all add: is_empty_def entry_def)

lemma k_shift_total:
  assumes "kv_inv cache" "length rows = ksize cache" "\<not> deepseek2 m"
  obtains cache' rows' where "apply_k_shift rot m (cache, rows) = Inr (cache', rows')" "kv_inv cache'"
    "length rows' = ksize cache'" "ksize cache' = ksize cache" "kv_tokens (kcells cache') = kv_tokens (kcells cache)"
proof (cases "\<not> rope_none m \<and> has_shift cache")
  case True
  let ?cells = "map (\<lambda>cell. cell\<lparr>cdelta := 0\<rparr>) (kcells cache)"
  let ?cache = "cache\<lparr>has_shift := False, kcells := ?cells\<rparr>"
  have live: "live ?cells = live (kcells cache)" by (simp add: live_def is_empty_def cong: conj_cong)
  have inv: "kv_inv ?cache" using assms(1) live
    by (auto simp: kv_inv_def occupied_live list_all_iff cell_ok_def is_empty_def)
  have "kv_tokens ?cells = kv_tokens (kcells cache)" by (rule kv_tokens_delta)
  with True assms inv show ?thesis
    by (intro that [of ?cache "build_k_shift rot (llama_set_k_shift cache) rows"])
      (simp_all add: apply_k_shift_def build_k_shift_def llama_set_k_shift_def kv_inv_def)
next
  case False
  with assms show ?thesis by (intro that [of cache rows]) (auto simp: apply_k_shift_def)
qed

lemma update_total:
  assumes "kv_inv cache" "length rows = ksize cache" "\<not> deepseek2 m"
    and mm: "0 < max_moves_of (llama_model_max_nodes (n_tensors m)) (n_layer m)"
  obtains cache' rows' where "llama_kv_cache_update_internal rot m (cache, rows) = Inr (cache', rows')" "kv_inv cache'"
    "length rows' = ksize cache'" "ksize cache' = ksize cache" "kv_tokens (kcells cache') = kv_tokens (kcells cache)"
proof -
  from k_shift_total [OF assms(1-3)] obtain cache1 rows1 where
    s1: "apply_k_shift rot m (cache, rows) = Inr (cache1, rows1)" "kv_inv cache1" "length rows1 = ksize cache1"
    "ksize cache1 = ksize cache" "kv_tokens (kcells cache1) = kv_tokens (kcells cache)" by metis
  have s2: "apply_s_copy (cache1, rows1) = (cache1, rows1)" using s1(2) by (simp add: apply_s_copy_def kv_inv_def)
  show ?thesis
  proof (cases "do_defrag cache1")
    case False
    with s1 s2 show ?thesis by (intro that [of cache1 rows1]) (simp_all add: llama_kv_cache_update_internal_def apply_defrag_def)
  next
    case True
    let ?mm = "max_moves_of (llama_model_max_nodes (n_tensors m)) (n_layer m)"
    from defrag_internal [OF s1(2,3) mm] obtain cache2 rows2 where
      d: "llama_kv_cache_defrag_internal ?mm cache1 rows1 = Inr (cache2, rows2)" "kv_inv cache2" "length rows2 = ksize cache2"
      "contents (kcells cache2) rows2 = contents (kcells cache1) rows1" "ksize cache2 = ksize cache1" by blast
    have "kv_tokens (kcells cache2) = kv_tokens (kcells cache1)"
      using contents_tokens [OF d(4)] d(2,3) s1(2,3) by (simp add: kv_inv_def)
    with True d s1 s2 show ?thesis
      by (intro that [of "cache2\<lparr>do_defrag := False\<rparr>" rows2])
        (simp_all add: llama_kv_cache_update_internal_def apply_defrag_def kv_inv_def)
  qed
qed

lemma set_kv_n_bounds:
  assumes "kv_inv cache"
  shows "kv_inv (set_kv_n p cache) \<and> kcells (set_kv_n p cache) = kcells cache \<and> ksize (set_kv_n p cache) = ksize cache
    \<and> llama_kv_cache_cell_max cache \<le> unat (kn (set_kv_n p cache)) \<and> unat (kn (set_kv_n p cache)) \<le> ksize cache"
proof -
  let ?pad = "llama_kv_cache_get_padding (flash_attn p)"
  let ?n = "min (ksize cache) (max ?pad (ggml_pad (llama_kv_cache_cell_max cache) ?pad))"
  have "?pad = 2 ^ 8 \<or> ?pad = 2 ^ 5" by (auto simp: llama_kv_cache_get_padding_def)
  then have "llama_kv_cache_cell_max cache \<le> ggml_pad (llama_kv_cache_cell_max cache) ?pad"
    using ggml_pad_ge by metis
  with cell_max_le [of cache] have "llama_kv_cache_cell_max cache \<le> ?n" by simp
  moreover have "?n < 2 ^ 32" using assms by (simp add: kv_inv_def min_less_iff_disj)
  then have "unat (of_nat ?n :: u32) = ?n" by (intro unat_of_nat_u32) simp
  ultimately show ?thesis using assms by (auto simp: set_kv_n_def kv_inv_def Let_def)
qed

text \<open>A slot is found for a micro-batch or not; the tokens cached are those before, and those of the micro-batch.\<close>

lemma prepare_ok:
  assumes "kv_inv cache" "length rows = ksize cache" "\<not> deepseek2 m" "model_causal p" "batch_ok kb"
    and "0 < max_moves_of (llama_model_max_nodes (n_tensors m)) (n_layer m)"
  obtains ok cache' rows' where "prepare_cache rot m p kb (cache, rows) = Inr (ok, cache', rows')" "kv_inv cache'"
    "length rows' = ksize cache'" "ksize cache' = ksize cache"
    "kv_tokens (kcells cache') = kv_tokens (kcells cache) + (if ok then mset (batch_tokens kb) else {#})"
    "ok \<Longrightarrow> llama_kv_cache_cell_max cache' \<le> unat (kn cache') \<and> unat (kn cache') \<le> ksize cache'"
proof -
  from update_total [OF assms(1-3,6)] obtain cache1 rows1 where
    u: "llama_kv_cache_update_internal rot m (cache, rows) = Inr (cache1, rows1)" "kv_inv cache1"
    "length rows1 = ksize cache1" "ksize cache1 = ksize cache" "kv_tokens (kcells cache1) = kv_tokens (kcells cache)" by metis
  define cache2 where "cache2 = (if khead cache1 > unat (kused cache1) + 2 * n_tokens kb then cache1\<lparr>khead := 0\<rparr> else cache1)"
  have c2: "kv_inv cache2" "kcells cache2 = kcells cache1" "ksize cache2 = ksize cache1"
    using u(2) by (simp_all add: cache2_def kv_inv_def)
  obtain ok cache3 where slot: "llama_kv_cache_find_slot cache2 kb = (ok, cache3)" by fastforce
  note f = find_slot_effect [OF c2(1) assms(5) slot]
  have c3: "kv_inv cache3" "ksize cache3 = ksize cache" using f c2 u by auto
  have toks: "kv_tokens (kcells cache3) = kv_tokens (kcells cache) + (if ok then mset (batch_tokens kb) else {#})"
    using f c2(2) u(5) by (cases ok) auto
  have prep: "prepare_cache rot m p kb (cache, rows) = Inr (ok, if ok then set_kv_n p cache3 else cache3, rows1)"
    using u(1) assms(4) slot by (simp add: prepare_cache_def cache2_def [symmetric] Let_def)
  have cm: "llama_kv_cache_cell_max (set_kv_n p cache3) = llama_kv_cache_cell_max cache3"
    using set_kv_n_bounds [OF c3(1), of p] by (simp add: llama_kv_cache_cell_max_def)
  show ?thesis
    using prep c3 toks u(3,4) set_kv_n_bounds [OF c3(1), of p] cm
    by (intro that [OF prep]) auto
qed


section \<open>Selected tokens\<close>

text \<open>The tokens of a batch that produce output, and their rows.\<close>

definition selected :: "params \<Rightarrow> 'i llama_batch \<Rightarrow> nat \<Rightarrow> bool" where
  "selected p batch i = (case logit_flags batch of Some fs \<Rightarrow> fs ! i
     | None \<Rightarrow> logits_all p \<or> i + 1 = length (inputs batch))"

definition sel_upto :: "params \<Rightarrow> 'i llama_batch \<Rightarrow> nat \<Rightarrow> nat list" where
  "sel_upto p batch k = filter (selected p batch) [0..<k]"

definition batch_wf :: "'i llama_batch \<Rightarrow> bool" where
  "batch_wf batch \<longleftrightarrow> inputs batch \<noteq> []
     \<and> (\<forall>ps. pos_arr batch = Some ps \<longrightarrow> length ps = length (inputs batch))
     \<and> (\<forall>ss. seq_arr batch = Some ss \<longrightarrow> length ss = length (inputs batch))
     \<and> (\<forall>fs. logit_flags batch = Some fs \<longrightarrow> length fs = length (inputs batch))
     \<and> batch_ok (resolve batch)"

lemma length_slice: "cur + n \<le> length xs \<Longrightarrow> length (slice cur n xs) = n"
  by (simp add: slice_def)

lemma nth_slice: "cur + n \<le> length xs \<Longrightarrow> i < n \<Longrightarrow> slice cur n xs ! i = xs ! (cur + i)"
  by (simp add: slice_def)

lemma length_resolve: "batch_wf batch \<Longrightarrow> n_tokens (resolve batch) = length (inputs batch) \<and> length (bseq (resolve batch)) = length (inputs batch)"
  by (auto simp: batch_wf_def resolve_def split: option.splits)

lemma resolve_ubatch:
  assumes "batch_wf batch" "cur + n \<le> length (inputs batch)"
  shows "bpos (resolve (ubatch batch cur n)) = slice cur n (bpos (resolve batch))"
    and "bseq (resolve (ubatch batch cur n)) = slice cur n (bseq (resolve batch))"
proof -
  have len: "n_tokens (resolve batch) = length (inputs batch)" "length (bseq (resolve batch)) = length (inputs batch)"
    using length_resolve [OF assms(1)] by auto
  have lu: "length (inputs (ubatch batch cur n)) = n" using assms(2) by (simp add: ubatch_def length_slice)
  show "bpos (resolve (ubatch batch cur n)) = slice cur n (bpos (resolve batch))"
  proof (cases "pos_arr batch")
    case None
    with lu assms(2) show ?thesis
      by (intro nth_equalityI) (simp_all add: resolve_def ubatch_def slice_def distrib_right)
  qed (simp add: resolve_def ubatch_def)
  show "bseq (resolve (ubatch batch cur n)) = slice cur n (bseq (resolve batch))"
  proof (cases "seq_arr batch")
    case None
    with lu assms(2) show ?thesis
      by (intro nth_equalityI) (simp_all add: resolve_def ubatch_def slice_def)
  qed (simp add: resolve_def ubatch_def)
qed

lemma batch_ok_ubatch:
  assumes "batch_wf batch" "cur + n \<le> length (inputs batch)"
  shows "batch_ok (resolve (ubatch batch cur n))" "n_tokens (resolve (ubatch batch cur n)) = n"
    and "batch_tokens (resolve (ubatch batch cur n)) = slice cur n (batch_tokens (resolve batch))"
proof -
  note len = length_resolve [OF assms(1)]
  show n: "n_tokens (resolve (ubatch batch cur n)) = n" using resolve_ubatch [OF assms] len assms(2) by (simp add: length_slice)
  show "batch_ok (resolve (ubatch batch cur n))"
    using assms len n by (auto simp: batch_wf_def batch_ok_def resolve_ubatch length_slice nth_slice)
  show "batch_tokens (resolve (ubatch batch cur n)) = slice cur n (batch_tokens (resolve batch))"
    using assms len n by (intro nth_equalityI) (simp_all add: batch_tokens_def resolve_ubatch length_slice nth_slice)
qed

lemma flagged_slice:
  assumes "cur + n \<le> length fs"
  shows "flagged (slice cur n fs) = filter (\<lambda>i. fs ! (cur + i)) [0..<n]"
  using assms by (auto simp: flagged_def length_slice nth_slice intro: filter_cong)

lemma count_flags: "length (filter id fs) = length (flagged fs)"
proof -
  have "filter id fs = map ((!) fs) (flagged fs)"
    unfolding flagged_def by (subst (1) map_nth [symmetric]) (simp add: filter_map comp_def)
  then show ?thesis by simp
qed

lemma filter_range_add: "filter P [cur..<cur + n] = map (\<lambda>i. cur + i) (filter (\<lambda>i. P (cur + i)) [0..<n])"
proof -
  have "[cur..<cur + n] = map (\<lambda>i. cur + i) [0..<n]" by (induction n) simp_all
  then show ?thesis by (simp add: filter_map comp_def)
qed

lemma count_outputs_selected:
  assumes "batch_wf batch" "\<not> embd_pooled p"
  shows "count_outputs p batch = length (sel_upto p batch (length (inputs batch)))"
proof (cases "logit_flags batch")
  case (Some fs)
  with assms have "length fs = length (inputs batch)" by (simp add: batch_wf_def)
  moreover have "selected p batch = (!) fs" using Some by (simp add: fun_eq_iff selected_def)
  ultimately show ?thesis using Some assms by (simp add: count_outputs_def count_flags flagged_def sel_upto_def)
next
  case None
  show ?thesis
  proof (cases "logits_all p")
    case True
    with None assms show ?thesis by (simp add: count_outputs_def sel_upto_def selected_def)
  next
    case False
    obtain k where k: "length (inputs batch) = Suc k" using assms(1) by (cases "inputs batch") (auto simp: batch_wf_def)
    have "filter (\<lambda>i. i = k) [0..<k] = []" by (simp add: filter_empty_conv)
    with None False assms k show ?thesis by (simp add: count_outputs_def sel_upto_def selected_def)
  qed
qed

text \<open>The rows a micro-batch announces and the graph keeps are those of its selected tokens.\<close>

lemma count_new_selected:
  assumes "batch_wf batch" "\<not> embd_pooled p" "cur + n \<le> length (inputs batch)" "0 < n"
    and "n_out = count_outputs p batch"
  shows "count_new p n_out (length (inputs batch)) cur (ubatch batch cur n)
      = length (filter (\<lambda>i. selected p batch (cur + i)) [0..<n])"
    and "set_out_ids (count_new p n_out (length (inputs batch)) cur (ubatch batch cur n)) n (logit_flags (ubatch batch cur n))
      = Inr (filter (\<lambda>i. selected p batch (cur + i)) [0..<n])"
proof -
  let ?sel = "filter (\<lambda>i. selected p batch (cur + i)) [0..<n]"
  have lu: "length (inputs (ubatch batch cur n)) = n" using assms(3) by (simp add: ubatch_def length_slice)
  have full: "?sel = [0..<n]" if "length ?sel = n"
    using that by (metis (no_types, lifting) diff_zero filter_id_conv length_filter_less length_upt nat_less_le)
  have *: "count_new p n_out (length (inputs batch)) cur (ubatch batch cur n) = length ?sel
    \<and> set_out_ids (length ?sel) n (logit_flags (ubatch batch cur n)) = Inr ?sel"
  proof (cases "logit_flags batch")
    case (Some fs)
    with assms have "length fs = length (inputs batch)" by (simp add: batch_wf_def)
    with Some assms have fl: "flagged (slice cur n fs) = ?sel" by (simp add: flagged_slice selected_def)
    with Some assms(2) show ?thesis using full
      by (auto simp: count_new_def ubatch_def count_flags set_out_ids_def)
  next
    case None
    show ?thesis
    proof (cases "logits_all p")
      case True
      then have "?sel = [0..<n]" using None by (simp add: selected_def)
      with None True assms(2,5) lu show ?thesis
        by (simp add: count_new_def ubatch_def count_outputs_def set_out_ids_def length_slice [OF assms(3)])
    next
      case False
      then have sel: "selected p batch i \<longleftrightarrow> i + 1 = length (inputs batch)" for i using None by (simp add: selected_def)
      have n_out: "n_out = 1" using None False assms(2,5) by (simp add: count_outputs_def)
      obtain k where n: "n = Suc k" using assms(4) by (cases n) auto
      show ?thesis
      proof (cases "cur + n = length (inputs batch)")
        case True
        have "filter (\<lambda>i. Suc (cur + i) = length (inputs batch)) [0..<k] = []" using True n by (auto simp: filter_empty_conv)
        then have "?sel = [k]" using True n by (simp add: sel)
        with None n_out True n lu assms(2,3) show ?thesis
          by (cases k) (auto simp: count_new_def ubatch_def set_out_ids_def)
      next
        case False
        with assms(3) have "?sel = []" by (auto simp: sel filter_empty_conv)
        with None n_out False n lu assms(2,3) show ?thesis by (auto simp: count_new_def ubatch_def set_out_ids_def)
      qed
    qed
  qed
  then show "count_new p n_out (length (inputs batch)) cur (ubatch batch cur n) = length ?sel"
    "set_out_ids (count_new p n_out (length (inputs batch)) cur (ubatch batch cur n)) n (logit_flags (ubatch batch cur n)) = Inr ?sel"
    by auto
qed


section \<open>Evaluating a batch\<close>

text \<open>
  The reference: the micro-batches are evaluated one after the other, and every token's row is kept.
  \<open>None\<close> if a micro-batch finds no slot.
\<close>

definition eval_ubatch :: "('i, 'k, 'r) graph \<Rightarrow> (int \<Rightarrow> 'k \<Rightarrow> 'k) \<Rightarrow> update_params \<Rightarrow> params \<Rightarrow> 'i llama_batch \<Rightarrow>
    kv_cache \<times> 'k list \<Rightarrow> ('r list \<times> kv_cache \<times> 'k list) option res" where
  "eval_ubatch graph rot m p ub s =
    bindE (prepare_cache rot m p (resolve ub) s) (\<lambda>(ok, s).
      if \<not> ok then Inr None
      else bindE (run_graph graph p (inputs ub) (resolve ub) s) (\<lambda>((tok, pooled), s).
        Inr (Some (map tok [0..<length (inputs ub)], s))))"

function eval_loop :: "('i, 'k, 'r) graph \<Rightarrow> (int \<Rightarrow> 'k \<Rightarrow> 'k) \<Rightarrow> update_params \<Rightarrow> params \<Rightarrow> 'i llama_batch \<Rightarrow> nat \<Rightarrow>
    kv_cache \<times> 'k list \<Rightarrow> ('r list \<times> kv_cache \<times> 'k list) option res" where
  "eval_loop graph rot m p batch cur s =
    (let n_all = length (inputs batch) in
     if cur < n_all \<and> 0 < n_ubatch p then
       bindE (eval_ubatch graph rot m p (ubatch batch cur (min (n_ubatch p) (n_all - cur))) s) (\<lambda>r.
         case r of None \<Rightarrow> Inr None
         | Some (rows, s) \<Rightarrow> bindE (eval_loop graph rot m p batch (cur + n_ubatch p) s) (\<lambda>r'.
             Inr (map_option (\<lambda>(rows', s). (rows @ rows', s)) r')))
     else Inr (Some ([], s)))"
  by pat_completeness auto
termination by (relation "measure (\<lambda>(graph, rot, m, p, batch, cur, s). length (inputs batch) - cur)") auto

declare eval_loop.simps [simp del]

text \<open>
  What the scheduler needs of the model, of the graph (ggml's: it keeps the number of rows of the
  cache), and of the context.
\<close>

definition setup_ok :: "update_params \<Rightarrow> params \<Rightarrow> bool" where
  "setup_ok m p \<longleftrightarrow> \<not> deepseek2 m \<and> 0 < max_moves_of (llama_model_max_nodes (n_tensors m)) (n_layer m)
     \<and> model_causal p \<and> causal_attn p \<and> \<not> embd_pooled p \<and> 0 < n_ubatch p"

definition graph_keeps_rows :: "('i, 'k, 'r) graph \<Rightarrow> bool" where
  "graph_keeps_rows graph \<longleftrightarrow> (\<forall>gi rows. length (fst (graph gi rows)) = length rows)"

definition cache_ok :: "kv_cache \<times> 'k list \<Rightarrow> bool" where
  "cache_ok s \<longleftrightarrow> kv_inv (fst s) \<and> length (snd s) = ksize (fst s)"

definition out_buf :: "params \<Rightarrow> ('k, 'r) ctx \<Rightarrow> 'r option list option" where
  "out_buf p lctx = (if embeddings p then embd lctx else logits lctx)"

definition out_width :: "params \<Rightarrow> nat" where
  "out_width p = (if embeddings p then n_embd p else n_vocab p)"

definition out_cap :: "params \<Rightarrow> ('k, 'r) ctx \<Rightarrow> nat" where
  "out_cap p lctx = (if embeddings p then embd_size lctx else logits_size lctx)"

lemma advance_head_inv: "kv_inv cache \<Longrightarrow> kv_inv (advance_head n cache) \<and> kcells (advance_head n cache) = kcells cache
    \<and> ksize (advance_head n cache) = ksize cache"
  by (auto simp: advance_head_def kv_inv_def Let_def)

lemma run_graph_ok:
  assumes "setup_ok m p" "graph_keeps_rows graph" "cache_ok (cache, rows)"
  obtains tok pooled cache' rows' where "run_graph graph p ins kb (cache, rows) = Inr ((tok, pooled), cache', rows')"
    "cache_ok (cache', rows')" "kcells cache' = kcells cache"
proof -
  have pool: "pool_inputs p kb = Inr []" using assms(1) by (auto simp: pool_inputs_def setup_ok_def embd_pooled_def)
  have rec: "\<not> recurrent cache" using assms(3) by (simp add: cache_ok_def kv_inv_def)
  obtain gi where gi: "llama_set_inputs p cache ins kb = Inr (gi, cache)"
    using assms(1) rec by (simp add: llama_set_inputs_def mask_inputs_def pool setup_ok_def)
  obtain rows' tok pooled where g: "graph gi rows = (rows', tok, pooled)" by (metis prod_cases3)
  then have "length rows' = length rows" using assms(2) unfolding graph_keeps_rows_def by (metis fst_conv)
  with gi g assms(3) show ?thesis
    by (intro that [of tok pooled "advance_head (length ins) cache" rows'])
      (simp_all add: run_graph_def cache_ok_def advance_head_inv)
qed

lemma extract_ok:
  assumes "\<not> embd_pooled p" "out_buf p lctx = Some buf" "n_outputs lctx = length ids" "prev + length ids \<le> n_out"
    and "n_out \<le> length buf" "out_cap p lctx = out_width p * length buf"
  obtains lctx' where "extract_results p n_out prev ids kb tok pooled lctx = Inr lctx'"
    "out_buf p lctx' = Some (write_rows prev (map tok ids) buf)" "out_cap p lctx' = out_cap p lctx"
    "kv lctx' = kv lctx" "kdata lctx' = kdata lctx" "output_ids lctx' = output_ids lctx" "n_outputs lctx' = n_outputs lctx"
proof (cases "n_outputs lctx = 0")
  case True
  with assms show ?thesis
    by (intro that [of lctx]) (simp_all add: extract_results_def write_rows_def)
next
  case False
  have "(prev + length ids) * out_width p \<le> length buf * out_width p" using assms(4,5) by (intro mult_le_mono1) simp
  then have fit: "(prev + length ids) * out_width p \<le> out_cap p lctx" using assms(6) by (simp add: mult.commute)
  show ?thesis
  proof (cases "embeddings p")
    case True
    with assms(1) have pool: "pooling p = PoolNone" by (simp add: embd_pooled_def)
    from True pool False assms(2,4) fit show ?thesis
      by (intro that [of "lctx\<lparr>embd := Some (write_rows prev (map tok ids) buf)\<rparr>"])
        (simp_all add: extract_results_def extract_rows_def out_buf_def out_cap_def out_width_def mult.commute)
  next
    case emb: False
    from emb False assms(2,4) fit show ?thesis
      by (intro that [of "lctx\<lparr>logits := Some (write_rows prev (map tok ids) buf)\<rparr>"])
        (simp_all add: extract_results_def extract_rows_def out_buf_def out_cap_def out_width_def mult.commute)
  qed
qed


lemma ubatch_inputs: "cur + n \<le> length (inputs batch) \<Longrightarrow> length (inputs (ubatch batch cur n)) = n"
  by (simp add: ubatch_def length_slice)

lemma decode_ubatch_ok:
  assumes set: "setup_ok m p" "graph_keeps_rows graph" "batch_wf batch" and s: "cache_ok (kv lctx, kdata lctx)"
    and n: "cur + n \<le> length (inputs batch)" "0 < n" and n_out: "n_out = count_outputs p batch"
    and buf: "out_buf p lctx = Some buf" "n_out \<le> length buf" "out_cap p lctx = out_width p * length buf"
    and prev: "prev = length (sel_upto p batch cur)"
  defines "ids \<equiv> filter (\<lambda>i. selected p batch (cur + i)) [0..<n]"
  obtains (slot) lctx' tok where
    "decode_ubatch graph rot m p n_out (length (inputs batch)) cur prev (ubatch batch cur n) lctx = Inr (True, lctx')"
    "eval_ubatch graph rot m p (ubatch batch cur n) (kv lctx, kdata lctx) = Inr (Some (map tok [0..<n], kv lctx', kdata lctx'))"
    "cache_ok (kv lctx', kdata lctx')" "out_buf p lctx' = Some (write_rows prev (map tok ids) buf)"
    "out_cap p lctx' = out_cap p lctx" "output_ids lctx' = output_ids lctx" "n_outputs lctx' = length ids"
    "kv_tokens (kcells (kv lctx')) = kv_tokens (kcells (kv lctx)) + mset (slice cur n (batch_tokens (resolve batch)))"
  | (full) lctx' where
    "decode_ubatch graph rot m p n_out (length (inputs batch)) cur prev (ubatch batch cur n) lctx = Inr (False, lctx')"
    "cache_ok (kv lctx', kdata lctx')"
proof -
  let ?ub = "ubatch batch cur n"
  note ub = batch_ok_ubatch [OF set(3) n(1)]
  have pooled: "\<not> embd_pooled p" using set(1) by (simp add: setup_ok_def)
  note sel = count_new_selected [OF set(3) pooled n n_out, folded ids_def]
  have inv: "kv_inv (kv lctx)" "length (kdata lctx) = ksize (kv lctx)" "\<not> deepseek2 m" "model_causal p"
    "0 < max_moves_of (llama_model_max_nodes (n_tensors m)) (n_layer m)"
    using s set(1) by (simp_all add: cache_ok_def setup_ok_def)
  from prepare_ok [OF inv(1-4) ub(1) inv(5)] obtain ok cache rows where
    prep: "prepare_cache rot m p (resolve ?ub) (kv lctx, kdata lctx) = Inr (ok, cache, rows)" "kv_inv cache"
    "length rows = ksize cache"
    "kv_tokens (kcells cache) = kv_tokens (kcells (kv lctx)) + (if ok then mset (batch_tokens (resolve ?ub)) else {#})"
    by metis
  have ck: "cache_ok (cache, rows)" using prep by (simp add: cache_ok_def)
  let ?lctx = "lctx\<lparr>n_outputs := length ids\<rparr>"
  show thesis
  proof (cases ok)
    case False
    with prep ck sel(1) show thesis
      by (intro full [of "?lctx\<lparr>kv := cache, kdata := rows\<rparr>"]) (simp_all add: decode_ubatch_def Let_def)
  next
    case True
    from run_graph_ok [OF set(1,2) ck, of "inputs ?ub" "resolve ?ub"] obtain tok pooled cache' rows' where
      run: "run_graph graph p (inputs ?ub) (resolve ?ub) (cache, rows) = Inr ((tok, pooled), cache', rows')"
      "cache_ok (cache', rows')" "kcells cache' = kcells cache" by metis
    have out: "ubatch_out_ids p (length ids) ?ub = Inr ids"
      using sel set(1) ubatch_inputs [OF n(1)] by (simp add: ubatch_out_ids_def setup_ok_def)
    let ?l = "?lctx\<lparr>kv := cache', kdata := rows'\<rparr>"
    have "length (sel_upto p batch (cur + n)) \<le> length (sel_upto p batch (length (inputs batch)))"
      using n(1) le_Suc_ex [OF n(1)] by (auto simp: sel_upto_def upt_add_eq_append [of 0])
    moreover have "length (sel_upto p batch (cur + n)) = prev + length ids"
      using prev filter_range_add [of "selected p batch" cur n]
      by (simp add: sel_upto_def ids_def upt_add_eq_append [of 0])
    ultimately have fit: "prev + length ids \<le> n_out"
      using n_out count_outputs_selected [OF set(3) pooled] by simp
    have l: "out_buf p ?l = Some buf" "n_outputs ?l = length ids" "out_cap p ?l = out_width p * length buf"
      using buf by (auto simp: out_buf_def out_cap_def)
    obtain lctx' where
      ext: "extract_results p n_out prev ids (resolve ?ub) tok pooled ?l = Inr lctx'"
      "out_buf p lctx' = Some (write_rows prev (map tok ids) buf)" "out_cap p lctx' = out_cap p ?l"
      "kv lctx' = cache'" "kdata lctx' = rows'" "output_ids lctx' = output_ids lctx" "n_outputs lctx' = length ids"
      by (rule extract_ok [OF pooled l(1,2) fit buf(2) l(3), of "resolve ?ub" tok pooled]) (rule that, simp_all)
    show thesis
    proof (rule slot)
      show "decode_ubatch graph rot m p n_out (length (inputs batch)) cur prev ?ub lctx = Inr (True, lctx')"
        using prep(1) True sel(1) out run(1) ext(1) by (simp add: decode_ubatch_def Let_def)
      show "eval_ubatch graph rot m p ?ub (kv lctx, kdata lctx) = Inr (Some (map tok [0..<n], kv lctx', kdata lctx'))"
        using prep(1) True run(1) ext(4,5) ubatch_inputs [OF n(1)] by (simp add: eval_ubatch_def)
      show "kv_tokens (kcells (kv lctx')) = kv_tokens (kcells (kv lctx)) + mset (slice cur n (batch_tokens (resolve batch)))"
        using prep(4) True ub(3) run(3) ext(4) by simp
    qed (use ext run in \<open>simp_all add: out_cap_def\<close>)
  qed
qed


lemma upt_split: "a \<le> b \<Longrightarrow> b \<le> c \<Longrightarrow> [a..<c] = [a..<b] @ [b..<c]"
  using upt_add_eq_append [of a b "c - b"] by simp

lemma slice_drop: "drop cur xs = slice cur n xs @ drop (cur + n) xs"
  using append_take_drop_id [of n "drop cur xs"] by (simp add: slice_def add.commute)

lemma decode_loop_ok:
  fixes graph :: "('i, 'k, 'r) graph" and lctx :: "('k, 'r) ctx"
  assumes set: "setup_ok m p" "graph_keeps_rows graph" "batch_wf batch" and n_out: "n_out = count_outputs p batch"
  shows "cache_ok (kv lctx, kdata lctx) \<Longrightarrow> out_buf p lctx = Some buf \<Longrightarrow> n_out \<le> length buf \<Longrightarrow>
    out_cap p lctx = out_width p * length buf \<Longrightarrow> prev = length (sel_upto p batch (min cur (length (inputs batch)))) \<Longrightarrow>
    \<exists>ret lctx'. decode_loop graph rot m p n_out batch cur prev lctx = Inr (ret, lctx')
      \<and> cache_ok (kv lctx', kdata lctx') \<and> (ret = 0 \<or> ret = 1)
      \<and> (ret = 0 \<longrightarrow> output_ids lctx' = output_ids lctx
         \<and> kv_tokens (kcells (kv lctx')) = kv_tokens (kcells (kv lctx)) + mset (drop cur (batch_tokens (resolve batch)))
         \<and> (\<exists>rows. eval_loop graph rot m p batch cur (kv lctx, kdata lctx) = Inr (Some (rows, kv lctx', kdata lctx'))
            \<and> length rows = length (inputs batch) - cur
            \<and> out_buf p lctx' = Some (take prev buf
                @ map (\<lambda>i. Some (rows ! (i - cur))) (filter (selected p batch) [cur..<length (inputs batch)]) @ drop n_out buf)))"
    (is "_ \<Longrightarrow> _ \<Longrightarrow> _ \<Longrightarrow> _ \<Longrightarrow> _ \<Longrightarrow> ?goal cur prev lctx buf")
proof (induction "length (inputs batch) - cur" arbitrary: cur prev lctx buf rule: less_induct)
  case less
  note ok = less.prems(1) and buf = less.prems(2-4) and prev = less.prems(5)
  have pooled: "\<not> embd_pooled p" using set(1) by (simp add: setup_ok_def)
  note n_out' = count_outputs_selected [OF set(3) pooled, folded n_out]
  have u: "0 < n_ubatch p" using set(1) by (simp add: setup_ok_def)
  show ?case
  proof (cases "cur < length (inputs batch)")
    case False
    moreover have "length (batch_tokens (resolve batch)) = length (inputs batch)"
      using length_resolve [OF set(3)] by (simp add: batch_tokens_def)
    moreover have "take prev buf @ drop n_out buf = buf" using prev False n_out' by simp
    ultimately show ?thesis using ok buf by (simp add: decode_loop.simps [of _ _ _ _ _ batch cur] eval_loop.simps [of _ _ _ _ batch cur])
  next
    case lt: True
    define n where "n = min (n_ubatch p) (length (inputs batch) - cur)"
    have n: "cur + n \<le> length (inputs batch)" "0 < n" using lt u by (auto simp: n_def)
    have prev': "prev = length (sel_upto p batch cur)" using prev lt by simp
    let ?ids = "filter (\<lambda>i. selected p batch (cur + i)) [0..<n]"
    have step: "decode_loop graph rot m p n_out batch cur prev lctx =
        bindE (decode_ubatch graph rot m p n_out (length (inputs batch)) cur prev (ubatch batch cur n) lctx)
          (\<lambda>(ok, lctx). if \<not> ok then Inr (1, lctx)
            else decode_loop graph rot m p n_out batch (cur + n_ubatch p) (prev + n_outputs lctx) lctx)"
      using lt u by (subst decode_loop.simps) (simp add: n_def Let_def)
    show ?thesis
    proof (cases rule: decode_ubatch_ok [OF set ok n n_out buf prev', of rot, case_names slot full])
      case (full lctx')
      with step show ?thesis by simp
    next
      case (slot lctx1 tok)
      let ?buf = "write_rows prev (map tok ?ids) buf"
      have range: "[0..<min (cur + n_ubatch p) (length (inputs batch))] = [0..<cur] @ [cur..<cur + n]"
      proof -
        have "min (cur + n_ubatch p) (length (inputs batch)) = cur + n" using lt by (simp add: n_def)
        then show ?thesis using upt_split [of 0 cur "cur + n"] by simp
      qed
      have cnt: "prev + length ?ids = length (sel_upto p batch (min (cur + n_ubatch p) (length (inputs batch))))"
        unfolding sel_upto_def range using prev' by (simp add: sel_upto_def filter_range_add)
      have le: "prev + length ?ids \<le> n_out"
      proof -
        have "[0..<length (inputs batch)] = [0..<min (cur + n_ubatch p) (length (inputs batch))]
            @ [min (cur + n_ubatch p) (length (inputs batch))..<length (inputs batch)]"
          by (rule upt_split) auto
        then show ?thesis unfolding cnt n_out' sel_upto_def by simp
      qed
      have b: "length ?buf = length buf" "take (prev + length ?ids) ?buf = take prev buf @ map (\<lambda>i. Some (tok i)) ?ids"
        "drop n_out ?buf = drop n_out buf"
        using le buf(2) by (auto simp: write_rows_def)
      have cap: "out_cap p lctx1 = out_width p * length ?buf" using slot(5) buf(3) b(1) by simp
      have smaller: "length (inputs batch) - (cur + n_ubatch p) < length (inputs batch) - cur" using lt u by simp
      have nb: "n_out \<le> length ?buf" using b(1) buf(2) by simp
      have cnt': "prev + n_outputs lctx1 = length (sel_upto p batch (min (cur + n_ubatch p) (length (inputs batch))))"
        using cnt slot(7) by simp
      from less.hyps [OF smaller slot(3,4) nb cap cnt'] obtain ret lctx' where
        rec: "decode_loop graph rot m p n_out batch (cur + n_ubatch p) (prev + n_outputs lctx1) lctx1 = Inr (ret, lctx')"
        and ck: "cache_ok (kv lctx', kdata lctx')" "ret = 0 \<or> ret = 1"
        and fin: "ret = 0 \<longrightarrow> output_ids lctx' = output_ids lctx1
         \<and> kv_tokens (kcells (kv lctx')) = kv_tokens (kcells (kv lctx1)) + mset (drop (cur + n_ubatch p) (batch_tokens (resolve batch)))
         \<and> (\<exists>rows. eval_loop graph rot m p batch (cur + n_ubatch p) (kv lctx1, kdata lctx1) = Inr (Some (rows, kv lctx', kdata lctx'))
            \<and> length rows = length (inputs batch) - (cur + n_ubatch p)
            \<and> out_buf p lctx' = Some (take (prev + n_outputs lctx1) ?buf
                @ map (\<lambda>i. Some (rows ! (i - (cur + n_ubatch p)))) (filter (selected p batch) [cur + n_ubatch p..<length (inputs batch)])
                @ drop n_out ?buf))" by auto
      have run: "decode_loop graph rot m p n_out batch cur prev lctx = Inr (ret, lctx')"
        using step slot(1) rec by simp
      show ?thesis
      proof (cases "ret = 0")
        case False
        with run ck show ?thesis by auto
      next
        case True
        with fin obtain rows where ev: "eval_loop graph rot m p batch (cur + n_ubatch p) (kv lctx1, kdata lctx1) = Inr (Some (rows, kv lctx', kdata lctx'))"
          and lrows: "length rows = length (inputs batch) - (cur + n_ubatch p)"
          and ob: "out_buf p lctx' = Some (take (prev + length ?ids) ?buf
                @ map (\<lambda>i. Some (rows ! (i - (cur + n_ubatch p)))) (filter (selected p batch) [cur + n_ubatch p..<length (inputs batch)])
                @ drop n_out ?buf)" using slot(7) by auto
        let ?rows = "map tok [0..<n] @ rows"
        have ev': "eval_loop graph rot m p batch cur (kv lctx, kdata lctx) = Inr (Some (?rows, kv lctx', kdata lctx'))"
          using lt u slot(2) ev by (subst eval_loop.simps) (simp add: Let_def n_def)
        have split: "[cur..<length (inputs batch)] = [cur..<cur + n] @ [cur + n_ubatch p..<length (inputs batch)]"
        proof (cases "cur + n_ubatch p \<le> length (inputs batch)")
          case True
          then have "n = n_ubatch p" using lt by (simp add: n_def)
          then show ?thesis using upt_split [OF le_add1 True] by simp
        next
          case False
          then have "cur + n = length (inputs batch)" using lt by (simp add: n_def)
          with False show ?thesis by simp
        qed
        have rest: "?rows ! (i - cur) = rows ! (i - (cur + n_ubatch p))" if "cur + n_ubatch p \<le> i" "i < length (inputs batch)" for i
        proof -
          have "n = n_ubatch p" "\<not> i - cur < n" "i - cur - n = i - (cur + n)" using that by (simp_all add: n_def)
          then show ?thesis by (simp add: nth_append)
        qed
        have "map (\<lambda>i. Some (?rows ! (i - cur))) (filter (selected p batch) [cur..<length (inputs batch)])
          = map (\<lambda>i. Some (tok i)) ?ids
            @ map (\<lambda>i. Some (rows ! (i - (cur + n_ubatch p)))) (filter (selected p batch) [cur + n_ubatch p..<length (inputs batch)])"
        proof -
          have "map (\<lambda>i. Some (?rows ! (i - cur))) (filter (selected p batch) [cur..<cur + n]) = map (\<lambda>i. Some (tok i)) ?ids"
            unfolding filter_range_add by (auto simp: nth_append)
          moreover have "map (\<lambda>i. Some (?rows ! (i - cur))) (filter (selected p batch) [cur + n_ubatch p..<length (inputs batch)])
            = map (\<lambda>i. Some (rows ! (i - (cur + n_ubatch p)))) (filter (selected p batch) [cur + n_ubatch p..<length (inputs batch)])"
            using rest by (intro map_cong refl) auto
          ultimately show ?thesis unfolding split by simp
        qed
        then have ob': "out_buf p lctx' = Some (take prev buf
            @ map (\<lambda>i. Some (?rows ! (i - cur))) (filter (selected p batch) [cur..<length (inputs batch)]) @ drop n_out buf)"
          using ob b by simp
        have lt_toks: "length (batch_tokens (resolve batch)) = length (inputs batch)"
          using length_resolve [OF set(3)] by (simp add: batch_tokens_def)
        have "drop (cur + n) (batch_tokens (resolve batch)) = drop (cur + n_ubatch p) (batch_tokens (resolve batch))"
          using lt_toks by (auto simp: n_def min_def)
        then have "drop cur (batch_tokens (resolve batch)) = slice cur n (batch_tokens (resolve batch)) @ drop (cur + n_ubatch p) (batch_tokens (resolve batch))"
          using slice_drop [of cur "batch_tokens (resolve batch)" n] by simp
        then have toks: "kv_tokens (kcells (kv lctx')) = kv_tokens (kcells (kv lctx)) + mset (drop cur (batch_tokens (resolve batch)))"
          using fin True slot(8) by simp
        have lr: "length ?rows = length (inputs batch) - cur" using lrows lt by (auto simp: n_def min_def)
        show ?thesis using run ck fin True slot(6) toks ev' lr ob' by (intro exI [of _ ret] exI [of _ lctx']) auto
      qed
    qed
  qed
qed


section \<open>The output mapping\<close>

lemma output_ids_flags:
  "k \<le> length ids \<Longrightarrow> list_all (\<lambda>x. x = -1) ids \<Longrightarrow>
   fst (fold (\<lambda>i (j, ids). if fs ! i then (j + 1, ids[i := j]) else (j, ids)) [0..<k] (0 :: int, ids))
     = int (length (filter ((!) fs) [0..<k]))
   \<and> length (snd (fold (\<lambda>i (j, ids). if fs ! i then (j + 1, ids[i := j]) else (j, ids)) [0..<k] (0 :: int, ids))) = length ids
   \<and> (\<forall>i<length ids. snd (fold (\<lambda>i (j, ids). if fs ! i then (j + 1, ids[i := j]) else (j, ids)) [0..<k] (0 :: int, ids)) ! i
     = (if i < k \<and> fs ! i then int (length (filter ((!) fs) [0..<i])) else -1))"
proof (induction k)
  case 0
  then show ?case by (simp add: list_all_length)
next
  case (Suc k)
  obtain j ids' where f: "fold (\<lambda>i (j, ids). if fs ! i then (j + 1, ids[i := j]) else (j, ids)) [0..<k] (0 :: int, ids) = (j, ids')"
    by fastforce
  with Suc show ?case by (auto simp: nth_list_update less_Suc_eq)
qed

lemma filter_upt_nth:
  assumes "i < k" "P i"
  shows "length (filter P [0..<i]) < length (filter P [0..<k]) \<and> filter P [0..<k] ! length (filter P [0..<i]) = i"
proof -
  have "[0..<k] = [0..<i] @ i # [Suc i..<k]" using assms(1) upt_split [of 0 i k] by (simp add: upt_conv_Cons)
  with assms(2) show ?thesis by (simp add: nth_append)
qed

lemma reserve_ok:
  assumes "alloc (sizeof_float * out_width p * max n_out (n_seq_max p))" "\<not> embd_pooled p"
    and "output_ids lctx = [] \<or> length (output_ids lctx) = n_batch p"
  obtains lctx' where "llama_output_reserve alloc p lctx n_out = (max n_out (n_seq_max p), lctx')"
    "kv lctx' = kv lctx" "kdata lctx' = kdata lctx" "output_ids lctx' = replicate (n_batch p) (-1)"
    "out_buf p lctx' = Some (replicate (max n_out (n_seq_max p)) None)"
    "out_cap p lctx' = out_width p * max n_out (n_seq_max p)"
proof -
  let ?m = "max n_out (n_seq_max p)"
  have sz: "(if \<not> embeddings p then n_vocab p * ?m else 0) + (if embeddings p \<and> pooling p = PoolNone then n_embd p * ?m else 0)
      = out_width p * ?m"
    using assms(2) by (simp add: out_width_def embd_pooled_def)
  have mem: "alloc (out_width p * ?m * sizeof_float)" using assms(1) by (simp add: ac_simps)
  show ?thesis
  proof (rule that)
    show "llama_output_reserve alloc p lctx n_out = (?m, snd (llama_output_reserve alloc p lctx n_out))"
      unfolding llama_output_reserve_def Let_def sz using mem by simp
  next
    show "output_ids (snd (llama_output_reserve alloc p lctx n_out)) = replicate (n_batch p) (-1)"
      unfolding llama_output_reserve_def Let_def sz using mem assms(3) by (auto simp: map_replicate_const)
  next
    show "out_cap p (snd (llama_output_reserve alloc p lctx n_out)) = out_width p * ?m"
      unfolding llama_output_reserve_def Let_def sz using mem assms(2)
      by (simp add: out_cap_def out_width_def embd_pooled_def)
  next
    show "out_buf p (snd (llama_output_reserve alloc p lctx n_out)) = Some (replicate ?m None)"
      unfolding llama_output_reserve_def Let_def sz using mem assms(2)
      by (simp add: out_buf_def embd_pooled_def)
  qed (unfold llama_output_reserve_def Let_def sz, use mem in simp_all)
qed

text \<open>When a decode call may start: the cache is in order, and the mapping has its final length or none.\<close>

definition ctx_ok :: "params \<Rightarrow> ('k, 'r) ctx \<Rightarrow> bool" where
  "ctx_ok p lctx \<longleftrightarrow> cache_ok (kv lctx, kdata lctx) \<and> (output_ids lctx = [] \<or> length (output_ids lctx) = n_batch p)"

lemma decode_runs:
  fixes graph :: "('i, 'k, 'r) graph" and lctx :: "('k, 'r) ctx"
  assumes set: "setup_ok m p" "graph_keeps_rows graph" "batch_wf batch" and ok: "ctx_ok p lctx"
    and n: "length (inputs batch) \<le> n_batch p"
    and mem: "alloc (sizeof_float * out_width p * max (count_outputs p batch) (n_seq_max p))"
  shows "\<exists>ret lctx'. llama_decode_internal graph rot alloc fragmented m p batch lctx = Inr (ret, lctx')
    \<and> cache_ok (kv lctx', kdata lctx') \<and> (ret = 0 \<or> ret = 1)
    \<and> (ret = 0 \<longrightarrow> n_outputs lctx' = count_outputs p batch
       \<and> output_ids lctx' = set_output_ids batch (count_outputs p batch) (replicate (n_batch p) (-1))
       \<and> kv_tokens (kcells (kv lctx')) = kv_tokens (kcells (kv lctx)) + mset (batch_tokens (resolve batch))
       \<and> (\<exists>rows s rest. eval_loop graph rot m p batch 0 (kv lctx, kdata lctx) = Inr (Some (rows, s))
          \<and> out_buf p lctx' = Some (map (\<lambda>i. Some (rows ! i)) (sel_upto p batch (length (inputs batch))) @ rest)))"
proof -
  let ?n_out = "count_outputs p batch"
  have pooled: "\<not> embd_pooled p" using set(1) by (simp add: setup_ok_def)
  from ok have ids: "output_ids lctx = [] \<or> length (output_ids lctx) = n_batch p" and ck: "cache_ok (kv lctx, kdata lctx)"
    by (simp_all add: ctx_ok_def)
  from reserve_ok [where alloc = alloc, OF mem pooled ids] obtain lctx1 where
    r: "llama_output_reserve alloc p lctx ?n_out = (max ?n_out (n_seq_max p), lctx1)"
    "kv lctx1 = kv lctx" "kdata lctx1 = kdata lctx" "output_ids lctx1 = replicate (n_batch p) (-1)"
    "out_buf p lctx1 = Some (replicate (max ?n_out (n_seq_max p)) None)"
    "out_cap p lctx1 = out_width p * max ?n_out (n_seq_max p)" by metis
  let ?ids = "set_output_ids batch ?n_out (replicate (n_batch p) (-1))"
  let ?lctx = "lctx1\<lparr>output_ids := ?ids\<rparr>"
  have l: "cache_ok (kv ?lctx, kdata ?lctx)" "out_buf p ?lctx = Some (replicate (max ?n_out (n_seq_max p)) None)"
    "out_cap p ?lctx = out_width p * length (replicate (max ?n_out (n_seq_max p)) (None :: 'r option))"
    using r ck by (auto simp: out_buf_def out_cap_def)
  have nb: "?n_out \<le> length (replicate (max ?n_out (n_seq_max p)) (None :: 'r option))" by simp
  from decode_loop_ok [OF set refl l(1,2) nb l(3), of 0 0 rot] obtain ret lctx2 where
    loop: "decode_loop graph rot m p ?n_out batch 0 0 ?lctx = Inr (ret, lctx2)" "cache_ok (kv lctx2, kdata lctx2)" "ret = 0 \<or> ret = 1"
    and fin: "ret = 0 \<longrightarrow> output_ids lctx2 = ?ids
         \<and> kv_tokens (kcells (kv lctx2)) = kv_tokens (kcells (kv lctx)) + mset (batch_tokens (resolve batch))
         \<and> (\<exists>rows. eval_loop graph rot m p batch 0 (kv lctx, kdata lctx) = Inr (Some (rows, kv lctx2, kdata lctx2))
            \<and> out_buf p lctx2 = Some (map (\<lambda>i. Some (rows ! i)) (sel_upto p batch (length (inputs batch)))
                @ drop ?n_out (replicate (max ?n_out (n_seq_max p)) None)))"
    using r by (auto simp: sel_upto_def)
  let ?done = "lctx2\<lparr>n_outputs := ?n_out\<rparr>"
  let ?l' = "if ret \<noteq> 0 then lctx2 else if causal_attn p \<and> defrag_enabled p \<and> fragmented (kused (kv lctx2)) (kn (kv lctx2))
        then ?done\<lparr>kv := llama_kv_cache_defrag (kv lctx2)\<rparr> else ?done"
  have "inputs batch \<noteq> []" using set(3) by (simp add: batch_wf_def)
  then have run: "llama_decode_internal graph rot alloc fragmented m p batch lctx = Inr (ret, ?l')"
    using set(1) n r loop(1) by (simp add: llama_decode_internal_def Let_def setup_ok_def)
  have "cache_ok (kv ?l', kdata ?l')" using loop(2) by (auto simp: cache_ok_def llama_kv_cache_defrag_def kv_inv_def)
  with run loop(3) fin show ?thesis
    by (intro exI [of _ ret] exI [of _ ?l']) (auto simp: out_buf_def llama_kv_cache_defrag_def)
qed


text \<open>
  C19: every requested row is the right one. If decoding returns 0 on a batch with output flags,
  \<open>llama_get_logits_ith\<close> (or \<open>llama_get_embeddings_ith\<close>) of a flagged token points to the row which
  evaluating the micro-batches one after the other computes for that token, however the batch was cut;
  of a token that is not flagged it is the null pointer.
\<close>

theorem decode_outputs:
  fixes graph :: "('i, 'k, 'r) graph" and lctx :: "('k, 'r) ctx"
  assumes "setup_ok m p" "graph_keeps_rows graph" "batch_wf batch" "ctx_ok p lctx" "length (inputs batch) \<le> n_batch p"
    and "alloc (sizeof_float * out_width p * max (count_outputs p batch) (n_seq_max p))"
    and flags: "logit_flags batch = Some fs"
    and run: "llama_decode_internal graph rot alloc fragmented m p batch lctx = Inr (0, lctx')"
  shows "\<exists>rows s buf. eval_loop graph rot m p batch 0 (kv lctx, kdata lctx) = Inr (Some (rows, s))
    \<and> out_buf p lctx' = Some buf
    \<and> (\<forall>i<length (inputs batch). case get_ith (out_buf p lctx') lctx' (int i) of
         Some j \<Rightarrow> fs ! i \<and> j < length buf \<and> buf ! j = Some (rows ! i) | None \<Rightarrow> \<not> fs ! i)"
proof -
  let ?n_out = "count_outputs p batch" and ?n = "length (inputs batch)"
  from decode_runs [where alloc = alloc and rot = rot and fragmented = fragmented, OF assms(1-6)] run obtain rows s rest where
    st: "n_outputs lctx' = ?n_out" "output_ids lctx' = set_output_ids batch ?n_out (replicate (n_batch p) (-1))"
    "eval_loop graph rot m p batch 0 (kv lctx, kdata lctx) = Inr (Some (rows, s))"
    "out_buf p lctx' = Some (map (\<lambda>i. Some (rows ! i)) (sel_upto p batch ?n) @ rest)" by auto
  have pooled: "\<not> embd_pooled p" using assms(1) by (simp add: setup_ok_def)
  have sel: "selected p batch = (!) fs" using flags by (simp add: fun_eq_iff selected_def)
  have n_out: "?n_out = length (sel_upto p batch ?n)" using count_outputs_selected [OF assms(3) pooled] .
  have "list_all (\<lambda>x. x = -1) (replicate (n_batch p) (-1 :: int))" by (simp add: list_all_length)
  from output_ids_flags [OF _ this, of ?n fs] assms(5)
  have ids: "length (output_ids lctx') = n_batch p" "\<forall>i<n_batch p. output_ids lctx' ! i
      = (if i < ?n \<and> fs ! i then int (length (filter ((!) fs) [0..<i])) else -1)"
    using st(2) flags by (simp_all add: set_output_ids_def)
  have "case get_ith (out_buf p lctx') lctx' (int i) of
         Some j \<Rightarrow> fs ! i \<and> j < length (map (\<lambda>i. Some (rows ! i)) (sel_upto p batch ?n) @ rest)
           \<and> (map (\<lambda>i. Some (rows ! i)) (sel_upto p batch ?n) @ rest) ! j = Some (rows ! i)
       | None \<Rightarrow> \<not> fs ! i" if i: "i < ?n" for i
  proof (cases "fs ! i")
    case False
    then show ?thesis using i ids assms(5) st(4) by (simp add: get_ith_def)
  next
    case True
    let ?j = "length (filter ((!) fs) [0..<i])"
    note j = filter_upt_nth [of i ?n "(!) fs", OF i True]
    have "get_ith (out_buf p lctx') lctx' (int i) = Some ?j"
      using i ids assms(5) st(1,4) True j n_out by (simp add: get_ith_def sel_upto_def sel)
    then show ?thesis using True j by (simp add: sel_upto_def sel nth_append)
  qed
  with st(3,4) show ?thesis by blast
qed


text \<open>Two tokens of sequence 0, the second with output, in micro-batches of one token.\<close>

definition sample_params :: params where
  "sample_params = \<lparr>n_batch = 4, n_ubatch = 1, n_seq_max = 1, causal_attn = True, model_causal = True,
     embeddings = False, pooling = PoolUnspecified, logits_all = False, n_vocab = 2, n_embd = 2,
     flash_attn = False, use_alibi = False, n_swa = 0, defrag_enabled = False\<rparr>"

definition sample_batch :: "nat llama_batch" where
  "sample_batch = \<lparr>inputs = [5, 6], pos_arr = Some [2, 3], seq_arr = Some [[0], [0]], logit_flags = Some [False, True],
     all_pos_0 = 0, all_pos_1 = 0, all_seq_id = 0\<rparr>"

definition sample_ctx :: "(nat, nat) ctx" where
  "sample_ctx = \<lparr>kv = sample_cache, kdata = [0, 1, 2, 3], output_ids = [], n_outputs = 0, buf_size = None, output_size = 0,
     logits = None, embd = None, logits_size = 0, embd_size = 0, embd_seq = Map.empty\<rparr>"

definition sample_graph :: "(nat, nat, nat) graph" where
  "sample_graph gi rows = (rows, \<lambda>j. gin gi ! j * 10, \<lambda>s. 0)"

lemma sample_setup: "setup_ok sample_model sample_params" "graph_keeps_rows sample_graph" "batch_wf sample_batch"
  "ctx_ok sample_params sample_ctx" "length (inputs sample_batch) \<le> n_batch sample_params"
  using sample_cache_inv
  by (simp_all add: setup_ok_def sample_model_def sample_params_def max_moves_of_def llama_model_max_nodes_def embd_pooled_def
      graph_keeps_rows_def sample_graph_def batch_wf_def sample_batch_def batch_ok_def resolve_def less_Suc_eq
      ctx_ok_def sample_ctx_def cache_ok_def)

lemma sample_decode: "case llama_decode_internal sample_graph (\<lambda>_ k. k) (\<lambda>_. True) (\<lambda>_ _. False) sample_model sample_params
    sample_batch sample_ctx of Inl e \<Rightarrow> False | Inr (ret, l) \<Rightarrow> ret = 0"
  by code_simp


lemma decode_outputs_witness:
  "\<exists>rows s lctx'. eval_loop sample_graph (\<lambda>_ k. k) sample_model sample_params sample_batch 0 (kv sample_ctx, kdata sample_ctx)
      = Inr (Some (rows, s))
    \<and> llama_decode_internal sample_graph (\<lambda>_ k. k) (\<lambda>_. True) (\<lambda>_ _. False) sample_model sample_params sample_batch sample_ctx
      = Inr (0, lctx')"
proof -
  obtain l where l: "llama_decode_internal sample_graph (\<lambda>_ k. k) (\<lambda>_. True) (\<lambda>_ _. False) sample_model sample_params
      sample_batch sample_ctx = Inr (0, l)" using sample_decode by (auto split: sum.splits prod.splits)
  have "logit_flags sample_batch = Some [False, True]" by (simp add: sample_batch_def)
  from decode_outputs [where alloc = "\<lambda>_. True", OF sample_setup TrueI this l] l show ?thesis by blast
qed

end
