(* ===== verification/Vocab.thy ===== *)
theory Vocab
  imports Utf8 "HOL-Library.Sublist"
begin

text \<open>
  The vocabulary of \<open>src/src/llama-vocab.h\<close> and the accessors of \<open>src/src/llama-vocab.cpp\<close>: the
  token table, the attribute tests, the byte tokens, and the escaping of spaces
  (\<open>replace_all\<close> of \<open>src/src/llama-impl.h\<close>) with its inverse.

  Scores are floats in the sources; the tokenizers only compare and add them, so their type is a
  parameter \<open>'s\<close> (a linear order where they are compared: a vocabulary has no NaN scores). Token ids
  are \<open>int32_t\<close> there and \<open>int\<close> here.
\<close>

section \<open>Data\<close>

record 's vocab_token =
  tok_text :: "byte list"
  tok_score :: 's
  tok_attr :: u32

datatype llama_vocab_type = VOCAB_NONE | VOCAB_SPM | VOCAB_BPE | VOCAB_WPM | VOCAB_UGM

record 's llama_vocab =
  vocab_type :: llama_vocab_type
  max_token_len :: nat
  token_to_id :: "byte list \<Rightarrow> int option"
  id_to_token :: "'s vocab_token list"
  cache_special_tokens :: "int list"
  cache_token_to_piece :: "byte list list"
  bpe_ranks :: "byte list \<times> byte list \<Rightarrow> int option"
  special_bos_id :: int
  special_eos_id :: int
  special_unk_id :: int
  special_sep_id :: int
  special_pad_id :: int
  special_cls_id :: int
  special_mask_id :: int
  linefeed_id :: int
  special_prefix_id :: int
  special_suffix_id :: int
  special_middle_id :: int
  special_eot_id :: int
  special_eom_id :: int
  tokenizer_add_space_prefix :: bool
  tokenizer_add_bos :: bool
  tokenizer_add_eos :: bool
  tokenizer_ignore_merges :: bool
  tokenizer_clean_spaces :: bool
  tokenizer_remove_extra_whitespaces :: bool
  tokenizer_escape_whitespaces :: bool
  tokenizer_treat_whitespace_as_suffix :: bool
  precompiled_charsmap :: "byte list"

text \<open>The default member values of \<open>llama_vocab\<close>.\<close>

definition empty_vocab :: "'s llama_vocab" where
  "empty_vocab = \<lparr>
     vocab_type = VOCAB_SPM, max_token_len = 0, token_to_id = Map.empty, id_to_token = [],
     cache_special_tokens = [], cache_token_to_piece = [], bpe_ranks = Map.empty,
     special_bos_id = 1, special_eos_id = 2, special_unk_id = 0, special_sep_id = -1,
     special_pad_id = -1, special_cls_id = -1, special_mask_id = -1,
     linefeed_id = 13, special_prefix_id = -1, special_suffix_id = -1, special_middle_id = -1,
     special_eot_id = -1, special_eom_id = -1,
     tokenizer_add_space_prefix = False, tokenizer_add_bos = False, tokenizer_add_eos = False,
     tokenizer_ignore_merges = False, tokenizer_clean_spaces = False,
     tokenizer_remove_extra_whitespaces = False, tokenizer_escape_whitespaces = True,
     tokenizer_treat_whitespace_as_suffix = False, precompiled_charsmap = []\<rparr>"

text \<open>The flags of \<open>enum llama_token_attr\<close>.\<close>

definition ATTR_UNKNOWN :: u32 where "ATTR_UNKNOWN = push_bit 0 1"
definition ATTR_UNUSED :: u32 where "ATTR_UNUSED = push_bit 1 1"
definition ATTR_NORMAL :: u32 where "ATTR_NORMAL = push_bit 2 1"
definition ATTR_CONTROL :: u32 where "ATTR_CONTROL = push_bit 3 1"
definition ATTR_USER_DEFINED :: u32 where "ATTR_USER_DEFINED = push_bit 4 1"
definition ATTR_BYTE :: u32 where "ATTR_BYTE = push_bit 5 1"
definition ATTR_LSTRIP :: u32 where "ATTR_LSTRIP = push_bit 7 1"
definition ATTR_RSTRIP :: u32 where "ATTR_RSTRIP = push_bit 8 1"

lemmas attr_defs = ATTR_UNKNOWN_def ATTR_UNUSED_def ATTR_NORMAL_def ATTR_CONTROL_def
  ATTR_USER_DEFINED_def ATTR_BYTE_def ATTR_LSTRIP_def ATTR_RSTRIP_def

section \<open>Accessors\<close>

text \<open>\<open>vocab.id_to_token[id]\<close>: an id outside of the table is an access out of bounds.\<close>

definition valid_id :: "'s llama_vocab \<Rightarrow> int \<Rightarrow> bool" where
  "valid_id vocab tid \<longleftrightarrow> 0 \<le> tid \<and> nat tid < length (id_to_token vocab)"

definition token_at :: "'s llama_vocab \<Rightarrow> int \<Rightarrow> 's vocab_token res" where
  "token_at vocab tid =
    (if valid_id vocab tid then Inr (id_to_token vocab ! nat tid)
     else Inl (UndefinedBehaviour ''id_to_token[id]''))"

definition token_has :: "'s llama_vocab \<Rightarrow> int \<Rightarrow> u32 \<Rightarrow> bool res" where
  "token_has vocab tid flag =
    (if vocab_type vocab = VOCAB_NONE then Inl (Abort ''vocab.type != LLAMA_VOCAB_TYPE_NONE'')
     else bindE (token_at vocab tid) (\<lambda>d. Inr (tok_attr d AND flag \<noteq> 0)))"

definition llama_is_normal_token :: "'s llama_vocab \<Rightarrow> int \<Rightarrow> bool res" where
  "llama_is_normal_token vocab tid = token_has vocab tid ATTR_NORMAL"

definition llama_is_unknown_token :: "'s llama_vocab \<Rightarrow> int \<Rightarrow> bool res" where
  "llama_is_unknown_token vocab tid = token_has vocab tid ATTR_UNKNOWN"

definition llama_is_control_token :: "'s llama_vocab \<Rightarrow> int \<Rightarrow> bool res" where
  "llama_is_control_token vocab tid = token_has vocab tid ATTR_CONTROL"

definition llama_is_byte_token :: "'s llama_vocab \<Rightarrow> int \<Rightarrow> bool res" where
  "llama_is_byte_token vocab tid = token_has vocab tid ATTR_BYTE"

definition llama_is_user_defined_token :: "'s llama_vocab \<Rightarrow> int \<Rightarrow> bool res" where
  "llama_is_user_defined_token vocab tid = token_has vocab tid ATTR_USER_DEFINED"

definition llama_is_unused_token :: "'s llama_vocab \<Rightarrow> int \<Rightarrow> bool res" where
  "llama_is_unused_token vocab tid = token_has vocab tid ATTR_UNUSED"

definition checked_token :: "'s llama_vocab \<Rightarrow> int \<Rightarrow> 's vocab_token res" where
  "checked_token vocab tid =
    (if vocab_type vocab = VOCAB_NONE then Inl (Abort ''vocab.type != LLAMA_VOCAB_TYPE_NONE'')
     else token_at vocab tid)"

definition llama_token_get_text_impl :: "'s llama_vocab \<Rightarrow> int \<Rightarrow> byte list res" where
  "llama_token_get_text_impl vocab tid = bindE (checked_token vocab tid) (\<lambda>d. Inr (tok_text d))"

definition llama_token_get_score_impl :: "'s llama_vocab \<Rightarrow> int \<Rightarrow> 's res" where
  "llama_token_get_score_impl vocab tid = bindE (checked_token vocab tid) (\<lambda>d. Inr (tok_score d))"

definition llama_token_get_attr_impl :: "'s llama_vocab \<Rightarrow> int \<Rightarrow> u32 res" where
  "llama_token_get_attr_impl vocab tid = bindE (checked_token vocab tid) (\<lambda>d. Inr (tok_attr d))"

definition llama_token_is_eog_impl :: "'s llama_vocab \<Rightarrow> int \<Rightarrow> bool" where
  "llama_token_is_eog_impl vocab token \<longleftrightarrow> token \<noteq> -1 \<and>
    (token = special_eos_id vocab \<or> token = special_eot_id vocab \<or> token = special_eom_id vocab)"

section \<open>Spaces\<close>

text \<open>
  \<open>std::string::find(search, pos)\<close>: the first match at \<open>pos\<close> or after it, \<open>None\<close> for \<open>npos\<close>.
\<close>

definition match_at :: "byte list \<Rightarrow> byte list \<Rightarrow> nat \<Rightarrow> bool" where
  "match_at s search i \<longleftrightarrow> i + length search \<le> length s \<and> take (length search) (drop i s) = search"

definition str_find :: "byte list \<Rightarrow> byte list \<Rightarrow> nat \<Rightarrow> nat option" where
  "str_find s search pos = List.find (match_at s search) [pos..<Suc (length s)]"

lemma find_upt_Some_iff:
  "List.find P [a..<b] = Some i \<longleftrightarrow> a \<le> i \<and> i < b \<and> P i \<and> (\<forall>j. a \<le> j \<and> j < i \<longrightarrow> \<not> P j)"
proof
  assume *: "List.find P [a..<b] = Some i"
  then show "a \<le> i \<and> i < b \<and> P i \<and> (\<forall>j. a \<le> j \<and> j < i \<longrightarrow> \<not> P j)"
    by (auto simp: find_Some_iff nth_upt)
       (metis add_diff_inverse_nat diff_less_mono less_imp_diff_less linorder_not_less
          nat_add_left_cancel_less)
next
  assume *: "a \<le> i \<and> i < b \<and> P i \<and> (\<forall>j. a \<le> j \<and> j < i \<longrightarrow> \<not> P j)"
  then show "List.find P [a..<b] = Some i"
    unfolding find_Some_iff
    by (intro exI [of _ "i - a"]) (auto simp: nth_upt)
qed

lemma str_find_Some_iff:
  "str_find s search pos = Some i \<longleftrightarrow>
   pos \<le> i \<and> match_at s search i \<and> (\<forall>j. pos \<le> j \<and> j < i \<longrightarrow> \<not> match_at s search j)"
  by (simp only: str_find_def find_upt_Some_iff) (auto simp: match_at_def)

lemma str_find_None_iff: "str_find s search pos = None \<longleftrightarrow> (\<forall>j\<ge>pos. \<not> match_at s search j)"
  by (auto simp: str_find_def find_None_iff match_at_def)

text \<open>\<open>replace_all\<close>: the loop resumes the search behind each replacement.\<close>

function replace_loop :: "byte list \<Rightarrow> byte list \<Rightarrow> byte list \<Rightarrow> nat \<Rightarrow> byte list" where
  "replace_loop search replace s pos =
    (if search = [] then s
     else case str_find s search pos of
       None \<Rightarrow> s
     | Some i \<Rightarrow>
         replace_loop search replace (take i s @ replace @ drop (i + length search) s)
           (i + length replace))"
  by pat_completeness auto
termination
  by (relation "measure (\<lambda>(search, replace, s, pos). length s - pos)")
     (auto simp: str_find_Some_iff match_at_def neq_Nil_conv)

declare replace_loop.simps [simp del]

definition replace_all :: "byte list \<Rightarrow> byte list \<Rightarrow> byte list \<Rightarrow> byte list" where
  "replace_all s search replace = (if search = [] then s else replace_loop search replace s 0)"

definition escaped_space :: "byte list" where
  "escaped_space = [0xe2, 0x96, 0x81]"

definition llama_escape_whitespace :: "byte list \<Rightarrow> byte list" where
  "llama_escape_whitespace s = replace_all s (bytes '' '') escaped_space"

definition llama_unescape_whitespace :: "byte list \<Rightarrow> byte list" where
  "llama_unescape_whitespace s = replace_all s escaped_space (bytes '' '')"

subsection \<open>What replacing computes\<close>

text \<open>One left-to-right pass that never looks at replaced text again.\<close>

function subst_all :: "byte list \<Rightarrow> byte list \<Rightarrow> byte list \<Rightarrow> byte list" where
  "subst_all search replace s =
    (if s = [] \<or> search = [] then s
     else if prefix search s then replace @ subst_all search replace (drop (length search) s)
     else hd s # subst_all search replace (tl s))"
  by pat_completeness auto
termination by (relation "measure (\<lambda>(search, replace, s). length s)") auto

declare subst_all.simps [simp del]

lemma subst_all_Nil [simp]: "subst_all search replace [] = []"
  by (simp add: subst_all.simps)

lemma prefix_take_iff: "prefix xs ys \<longleftrightarrow> take (length xs) ys = xs"
  unfolding prefix_def by (metis append_eq_conv_conj)

lemma match_at_prefix: "match_at s search i \<longleftrightarrow> i \<le> length s \<and> prefix search (drop i s)"
proof
  assume "match_at s search i"
  then show "i \<le> length s \<and> prefix search (drop i s)" by (simp add: match_at_def prefix_take_iff)
next
  assume *: "i \<le> length s \<and> prefix search (drop i s)"
  then have "length search \<le> length (drop i s)" by (blast intro: prefix_length_le)
  with * show "match_at s search i" by (simp add: match_at_def prefix_take_iff) linarith
qed

lemma subst_all_skip:
  assumes "\<And>j. j < k \<Longrightarrow> \<not> prefix search (drop j s)" and "k \<le> length s"
  shows "subst_all search replace s = take k s @ subst_all search replace (drop k s)"
  using assms
proof (induction k arbitrary: s)
  case (Suc k)
  then obtain a t where s: "s = a # t" by (cases s) auto
  have "\<not> prefix search s" using Suc.prems(1) [of 0] by simp
  then have "subst_all search replace s = a # subst_all search replace t"
    by (subst subst_all.simps) (auto simp: s)
  moreover have "subst_all search replace t = take k t @ subst_all search replace (drop k t)"
    using Suc.prems(1) [of "Suc j" for j] Suc.prems(2) by (intro Suc.IH) (auto simp: s)
  ultimately show ?case by (simp add: s)
qed simp

lemma replace_loop_subst:
  assumes "pos \<le> length s" "search \<noteq> []"
  shows "replace_loop search replace s pos = take pos s @ subst_all search replace (drop pos s)"
  using assms
proof (induction search replace s pos rule: replace_loop.induct)
  case (1 search replace s pos)
  show ?case
  proof (cases "str_find s search pos")
    case None
    then have "\<not> prefix search (drop j (drop pos s))" if "j \<le> length (drop pos s)" for j
      using that 1(2) by (auto simp: str_find_None_iff match_at_prefix add.commute)
    then have "subst_all search replace (drop pos s) = drop pos s"
      using subst_all_skip [of "length (drop pos s)" search "drop pos s" replace] by simp
    with None 1 show ?thesis by (simp add: replace_loop.simps [of search replace s pos])
  next
    case (Some i)
    then have i: "pos \<le> i" "match_at s search i" and
      before: "\<And>j. pos \<le> j \<Longrightarrow> j < i \<Longrightarrow> \<not> match_at s search j"
      by (auto simp: str_find_Some_iff)
    then have il: "i + length search \<le> length s" by (simp add: match_at_def)
    let ?s' = "take i s @ replace @ drop (i + length search) s"
    have "replace_loop search replace ?s' (i + length replace)
        = take (i + length replace) ?s' @ subst_all search replace (drop (i + length replace) ?s')"
      using 1(1) [OF 1(3) Some] il 1(3) by simp
    also have "\<dots> = take i s @ replace @ subst_all search replace (drop (i + length search) s)"
      using il by simp
    also have "replace @ subst_all search replace (drop (i + length search) s)
        = subst_all search replace (drop i s)"
      using i(2) 1(3) il
      by (subst (2) subst_all.simps) (auto simp: match_at_prefix add.commute)
    also have "take i s @ \<dots> = take pos s @ take (i - pos) (drop pos s) @ \<dots>"
      using i(1) by (metis append.assoc le_add_diff_inverse take_add)
    also have "take (i - pos) (drop pos s) @ subst_all search replace (drop i s)
        = subst_all search replace (drop pos s)"
    proof -
      have "subst_all search replace (drop pos s)
          = take (i - pos) (drop pos s) @ subst_all search replace (drop (i - pos) (drop pos s))"
        using before i(1) il
        by (intro subst_all_skip) (auto simp: match_at_prefix add.commute)
      with i(1) show ?thesis by simp
    qed
    finally show ?thesis using Some 1(3) by (simp add: replace_loop.simps [of search replace s pos])
  qed
qed

lemma replace_all_subst: "replace_all s search replace = subst_all search replace s"
  by (simp add: replace_all_def replace_loop_subst subst_all.simps [of "[]"])

lemma escape_simps [simp]:
  "llama_escape_whitespace [] = []"
  "llama_escape_whitespace (c # s) =
     (if c = ch CHR '' '' then escaped_space else [c]) @ llama_escape_whitespace s"
  by (simp_all add: llama_escape_whitespace_def replace_all_subst subst_all.simps [of _ _ "c # s"]
        bytes_def)

lemma escape_append [simp]:
  "llama_escape_whitespace (s @ t) = llama_escape_whitespace s @ llama_escape_whitespace t"
  by (induction s) auto

text \<open>
  The escape sequence has no border, so escaping creates no occurrence of it other than the ones it
  writes.
\<close>

lemma unescape_escape:
  assumes "\<And>i. \<not> match_at s escaped_space i"
  shows "llama_unescape_whitespace (llama_escape_whitespace s) = s"
  using assms
proof (induction s)
  case Nil
  then show ?case by (simp add: llama_unescape_whitespace_def replace_all_subst)
next
  case (Cons c s)
  have IH: "llama_unescape_whitespace (llama_escape_whitespace s) = s"
    using Cons.prems [of "Suc i" for i] by (intro Cons.IH) (simp add: match_at_def)
  have no: "\<not> prefix escaped_space (c # s)" using Cons.prems [of 0] by (simp add: match_at_prefix)
  have "\<not> prefix escaped_space (c # llama_escape_whitespace s)" if "c \<noteq> ch CHR '' ''"
  proof
    assume pre: "prefix escaped_space (c # llama_escape_whitespace s)"
    then have c: "c = 0xe2" and t: "prefix [0x96, 0x81] (llama_escape_whitespace s)"
      by (simp_all add: escaped_space_def)
    from t obtain s1 where s1: "s = 0x96 # s1" and u: "prefix [0x81] (llama_escape_whitespace s1)"
      by (cases s) (auto simp: escaped_space_def split: if_splits)
    from u obtain s2 where "s1 = 0x81 # s2"
      by (cases s1) (auto simp: escaped_space_def split: if_splits)
    with no c s1 show False by (simp add: escaped_space_def)
  qed
  with IH show ?case
    by (auto simp: llama_unescape_whitespace_def replace_all_subst subst_all.simps [of _ _ "c # _"]
        subst_all.simps [of _ _ "escaped_space @ _"] bytes_def)
       (simp_all add: escaped_space_def)
qed

lemma escape_no_space: "0x20 \<notin> set (llama_escape_whitespace s)"
  by (induction s) (auto simp: escaped_space_def)

text \<open>
  A text without the escape sequence U+2581 is escaped to a text without spaces, and unescaping
  that gives the text back.
\<close>

theorem escape_roundtrip:
  assumes "\<And>i. \<not> match_at s escaped_space i"
  shows "0x20 \<notin> set (llama_escape_whitespace s)
    \<and> llama_unescape_whitespace (llama_escape_whitespace s) = s"
  using escape_no_space unescape_escape [OF assms] by blast

lemma escape_roundtrip_witness:
  "0x20 \<notin> set (llama_escape_whitespace (bytes ''a b''))
    \<and> llama_unescape_whitespace (llama_escape_whitespace (bytes ''a b'')) = bytes ''a b''"
proof (rule escape_roundtrip)
  show "\<not> match_at (bytes ''a b'') escaped_space i" for i
    by (cases "i \<in> {0, 1, 2, 3}") (auto simp: match_at_def bytes_def escaped_space_def)
qed

end
