(* ===== verification/MergeSymbols.thy ===== *)
theory MergeSymbols
  imports Vocab
begin

text \<open>
  The symbol list the SPM and BPE tokenizers of \<open>src/src/llama-vocab.cpp\<close> work on: the characters
  of a text, doubly linked through indices, of which neighbours are merged. A symbol's
  \<open>const char *\<close> is the rest of the string it points into, so \<open>std::string(sym.text, sym.n)\<close> is
  \<open>take n\<close> of it.
\<close>

record llm_symbol =
  sym_prev :: int
  sym_next :: int
  sym_text :: "byte list"
  sym_n :: nat

definition piece :: "llm_symbol \<Rightarrow> byte list" where
  "piece s = take (sym_n s) (sym_text s)"

text \<open>The text is split into the byte sequences its lead bytes announce, the last one cut to fit.\<close>

function split_symbols :: "byte list \<Rightarrow> nat \<Rightarrow> nat \<Rightarrow> llm_symbol list" where
  "split_symbols s offs index =
    (if offs < length s then
       (let n = min (unicode_len_utf8 (s ! offs)) (length s - offs) in
        \<lparr>sym_prev = int index - 1,
         sym_next = (if offs + n = length s then -1 else int index + 1),
         sym_text = drop offs s, sym_n = n\<rparr> # split_symbols s (offs + n) (index + 1))
     else [])"
  by pat_completeness auto
termination
  by (relation "measure (\<lambda>(s, offs, index). length s - offs)")
     (simp_all add: diff_less_mono2 unicode_len_utf8_pos)

declare split_symbols.simps [simp del]

text \<open>A symbol accessed by index; an index outside of the vector is an access out of bounds.\<close>

definition sym_at :: "llm_symbol list \<Rightarrow> int \<Rightarrow> llm_symbol res" where
  "sym_at syms i =
    (if 0 \<le> i \<and> nat i < length syms then Inr (syms ! nat i)
     else Inl (UndefinedBehaviour ''symbols[i]''))"

definition upd :: "nat \<Rightarrow> ('a \<Rightarrow> 'a) \<Rightarrow> 'a list \<Rightarrow> 'a list" where
  "upd i f xs = xs[i := f (xs ! i)]"

text \<open>
  Merging the right symbol into the left one: the left one grows, the right one is emptied and
  taken out of the chain.
\<close>

definition merge_symbols :: "llm_symbol list \<Rightarrow> nat \<Rightarrow> nat \<Rightarrow> llm_symbol list res" where
  "merge_symbols syms left right =
    bindE (sym_at syms (int left)) (\<lambda>_. bindE (sym_at syms (int right)) (\<lambda>r.
      let s1 = upd left (\<lambda>s. s\<lparr>sym_n := sym_n s + sym_n r\<rparr>) syms;
          s2 = upd right (\<lambda>s. s\<lparr>sym_n := 0\<rparr>) s1;
          nx = sym_next (s2 ! right);
          s3 = upd left (\<lambda>s. s\<lparr>sym_next := nx\<rparr>) s2
      in if nx \<ge> 0 then
           bindE (sym_at s3 nx) (\<lambda>_. Inr (upd (nat nx) (\<lambda>s. s\<lparr>sym_prev := int left\<rparr>) s3))
         else Inr s3))"

text \<open>How many symbols are not empty: the measure of the merge loops.\<close>

definition live_count :: "llm_symbol list \<Rightarrow> nat" where
  "live_count syms = length (filter (\<lambda>s. sym_n s > 0) syms)"

lemma live_count_upd:
  assumes "i < length syms" "sym_n (f (syms ! i)) > 0 \<longleftrightarrow> sym_n (syms ! i) > 0"
  shows "live_count (upd i f syms) = live_count syms"
  using assms by (simp add: live_count_def upd_def filter_update_same)

lemma live_count_clear:
  assumes "i < length syms" "sym_n (syms ! i) > 0" "sym_n (f (syms ! i)) = 0"
  shows "live_count (upd i f syms) < live_count syms"
  using length_filter_update [OF assms(1), of "\<lambda>s. sym_n s > 0" "f (syms ! i)"] assms
  by (simp add: live_count_def upd_def)

lemma upd_simps [simp]:
  "length (upd i f xs) = length xs"
  "i < length xs \<Longrightarrow> upd i f xs ! i = f (xs ! i)"
  "j \<noteq> i \<Longrightarrow> upd i f xs ! j = xs ! j"
  by (simp_all add: upd_def)

lemma sym_at_Inr_iff: "sym_at syms i = Inr s \<longleftrightarrow> 0 \<le> i \<and> nat i < length syms \<and> s = syms ! nat i"
  by (auto simp: sym_at_def)

lemma merge_symbols_live:
  assumes "merge_symbols syms left right = Inr syms'"
    and "sym_n (syms ! left) > 0" "sym_n (syms ! right) > 0"
  shows "live_count syms' < live_count syms"
proof -
  let ?s1 = "upd left (\<lambda>s. s\<lparr>sym_n := sym_n s + sym_n (syms ! right)\<rparr>) syms"
  let ?s2 = "upd right (\<lambda>s. s\<lparr>sym_n := 0\<rparr>) ?s1"
  let ?s3 = "upd left (\<lambda>s. s\<lparr>sym_next := sym_next (?s2 ! right)\<rparr>) ?s2"
  have b: "left < length syms" "right < length syms"
    using assms(1) by (auto simp: merge_symbols_def bindE_Inr_iff sym_at_Inr_iff)
  have "live_count ?s2 < live_count ?s1"
    using b assms by (intro live_count_clear) (cases "left = right"; simp)+
  also have "live_count ?s1 = live_count syms" using b assms by (intro live_count_upd) auto
  finally have "live_count ?s3 < live_count syms" using b by (simp add: live_count_upd)
  moreover have "live_count syms' = live_count ?s3"
    using assms(1) b
    by (auto simp: merge_symbols_def bindE_Inr_iff sym_at_Inr_iff Let_def live_count_upd
        split: if_splits)
  ultimately show ?thesis by simp
qed

section \<open>The chain\<close>

text \<open>
  \<open>segment syms s p off is nx off'\<close>: the symbols \<open>is\<close> are linked in this order, the first back to \<open>p\<close>
  and the last on to \<open>nx\<close>, and spell \<open>s\<close> from position \<open>off\<close> to \<open>off'\<close>.
\<close>

definition head_or :: "nat list \<Rightarrow> int \<Rightarrow> int" where
  "head_or is d = (case is of [] \<Rightarrow> d | j # _ \<Rightarrow> int j)"

definition last_or :: "nat list \<Rightarrow> int \<Rightarrow> int" where
  "last_or is d = (if is = [] then d else int (last is))"

lemma head_or_simps [simp]: "head_or [] d = d" "head_or (j # js) d = int j"
  "head_or (is @ js) d = head_or is (head_or js d)"
  by (simp_all add: head_or_def split: list.split)

lemma last_or_simps [simp]: "last_or [] d = d" "last_or (j # js) d = last_or js (int j)"
  by (simp_all add: last_or_def)

fun segment :: "llm_symbol list \<Rightarrow> byte list \<Rightarrow> int \<Rightarrow> nat \<Rightarrow> nat list \<Rightarrow> int \<Rightarrow> nat \<Rightarrow> bool" where
  "segment syms s p off [] nx off' \<longleftrightarrow> off' = off"
| "segment syms s p off (i # is) nx off' \<longleftrightarrow>
     i < length syms \<and> sym_prev (syms ! i) = p \<and> sym_text (syms ! i) = drop off s
     \<and> 0 < sym_n (syms ! i) \<and> sym_next (syms ! i) = head_or is nx
     \<and> segment syms s (int i) (off + sym_n (syms ! i)) is nx off'"

lemma segment_append:
  "segment syms s p off (is @ js) nx off' \<longleftrightarrow>
   (\<exists>m. segment syms s p off is (head_or js nx) m \<and> segment syms s (last_or is p) m js nx off')"
  by (induction "is" arbitrary: p off) auto

lemma segment_cong:
  assumes "\<And>i. i \<in> set is \<Longrightarrow> i < length syms \<Longrightarrow> i < length syms' \<and> syms' ! i = syms ! i"
    and "segment syms s p off is nx off'"
  shows "segment syms' s p off is nx off'"
  using assms by (induction "is" arbitrary: p off) auto

lemma segment_le: "segment syms s p off is nx off' \<Longrightarrow> off \<le> off'"
  by (induction "is" arbitrary: p off) fastforce+

lemma segment_offset:
  assumes "segment syms s p off is nx off'" "i \<in> set is"
  shows "\<exists>m. off \<le> m \<and> m < off' \<and> sym_text (syms ! i) = drop m s \<and> 0 < sym_n (syms ! i)
    \<and> i < length syms"
  using assms
proof (induction "is" arbitrary: p off)
  case (Cons j js)
  show ?case
  proof (cases "i = j")
    case True
    with Cons.prems segment_le show ?thesis by fastforce
  next
    case False
    with Cons have "\<exists>m. off + sym_n (syms ! j) \<le> m \<and> m < off' \<and> sym_text (syms ! i) = drop m s
        \<and> 0 < sym_n (syms ! i) \<and> i < length syms" by auto
    then show ?thesis by (meson add_leD1)
  qed
qed simp

lemma segment_pieces:
  assumes "segment syms s p off is nx off'" "off' \<le> length s"
  shows "concat (map (\<lambda>i. piece (syms ! i)) is) = take (off' - off) (drop off s)"
  using assms
proof (induction "is" arbitrary: p off)
  case (Cons i "is")
  then have "off + sym_n (syms ! i) \<le> off'" using segment_le by fastforce
  then have "off' - off = sym_n (syms ! i) + (off' - (off + sym_n (syms ! i)))" by simp
  then have "take (off' - off) (drop off s) = take (sym_n (syms ! i)) (drop off s)
      @ take (off' - (off + sym_n (syms ! i))) (drop (off + sym_n (syms ! i)) s)"
    by (metis add.commute drop_drop take_add)
  with Cons.prems Cons.IH [of "int i" "off + sym_n (syms ! i)"] show ?case by (simp add: piece_def)
qed simp

text \<open>
  The chain of all live symbols: in the order of their indices, spelling the whole text.
\<close>

definition live_chain :: "llm_symbol list \<Rightarrow> byte list \<Rightarrow> nat list \<Rightarrow> bool" where
  "live_chain syms s is \<longleftrightarrow> segment syms s (-1) 0 is (-1) (length s) \<and> sorted_wrt (<) is
     \<and> set is = {i. i < length syms \<and> sym_n (syms ! i) > 0} \<and> head_or is 0 = 0"

definition pieces :: "llm_symbol list \<Rightarrow> nat list \<Rightarrow> byte list list" where
  "pieces syms is = map (\<lambda>i. piece (syms ! i)) is"

lemma pieces_all: "pieces syms [0..<length syms] = map piece syms"
  by (rule nth_equalityI) (simp_all add: pieces_def)

lemma live_chain_concat: "live_chain syms s is \<Longrightarrow> concat (pieces syms is) = s"
  using segment_pieces [of syms s "-1" 0 "is" "-1" "length s"]
  by (simp add: live_chain_def pieces_def)

lemma length_piece:
  assumes "live_chain syms s is" "i \<in> set is"
  shows "length (piece (syms ! i)) = sym_n (syms ! i)"
proof -
  obtain xs ys where "is = xs @ i # ys" using assms(2) by (auto simp: in_set_conv_decomp)
  with assms(1) obtain m where "sym_text (syms ! i) = drop m s"
    "segment syms s (int i) (m + sym_n (syms ! i)) ys (-1) (length s)"
    by (auto simp: live_chain_def segment_append)
  with segment_le show ?thesis by (fastforce simp: piece_def)
qed

lemma split_symbols_segment:
  assumes "offs \<le> length s"
  shows "segment (pre @ split_symbols s offs (length pre)) s (int (length pre) - 1) offs
    [length pre..<length pre + length (split_symbols s offs (length pre))] (-1) (length s)"
  using assms
proof (induction "length s - offs" arbitrary: offs pre rule: less_induct)
  case less
  show ?case
  proof (cases "offs < length s")
    case False
    with less.prems have "offs = length s" by simp
    then show ?thesis by (simp add: split_symbols.simps [of s "length s"])
  next
    case True
    define n where "n = min (unicode_len_utf8 (s ! offs)) (length s - offs)"
    define sym where "sym = \<lparr>sym_prev = int (length pre) - 1,
      sym_next = (if offs + n = length s then -1 else int (length pre) + 1),
      sym_text = drop offs s, sym_n = n\<rparr>"
    define rest where "rest = split_symbols s (offs + n) (length (pre @ [sym]))"
    have n: "0 < n" "offs + n \<le> length s" using True unicode_len_utf8_pos by (auto simp: n_def)
    have S: "split_symbols s offs (length pre) = sym # rest"
      using True by (subst split_symbols.simps) (simp add: sym_def rest_def n_def Let_def)
    have IH: "segment (pre @ sym # rest) s (int (length pre)) (offs + n)
        [Suc (length pre)..<Suc (length pre) + length rest] (-1) (length s)"
      using less.hyps [of "offs + n" "pre @ [sym]"] n True by (simp add: rest_def)
    have "rest = [] \<longleftrightarrow> offs + n = length s"
      using n by (auto simp: rest_def split_symbols.simps [of s "offs + n"] Let_def)
    then have "sym_next sym = head_or [Suc (length pre)..<Suc (length pre) + length rest] (-1)"
      by (cases rest) (simp_all add: sym_def upt_conv_Cons del: upt_Suc)
    with IH n(1) show ?thesis unfolding S
      by (simp add: upt_conv_Cons del: upt_Suc) (simp add: sym_def)
  qed
qed

lemma live_chain_split:
  "live_chain (split_symbols s 0 0) s [0..<length (split_symbols s 0 0)]"
proof -
  let ?S = "split_symbols s 0 0"
  have seg: "segment ?S s (-1) 0 [0..<length ?S] (-1) (length s)"
    using split_symbols_segment [of 0 s "[]"] by simp
  moreover have "{i. i < length ?S \<and> sym_n (?S ! i) > 0} = set [0..<length ?S]"
    using segment_offset [OF seg] by fastforce
  moreover have "head_or [0..<length ?S] 0 = 0" by (simp add: head_or_def upt_rec split: list.split)
  ultimately show ?thesis by (simp only: live_chain_def sorted_wrt_upt)
qed

text \<open>The characters of a text.\<close>

definition utf8_chars :: "byte list \<Rightarrow> byte list list" where
  "utf8_chars s = map piece (split_symbols s 0 0)"

lemma utf8_chars_concat: "concat (utf8_chars s) = s"
  using live_chain_concat [OF live_chain_split [of s]] by (simp add: utf8_chars_def pieces_all)

section \<open>Merging neighbours\<close>

lemma live_chain_distinct: "live_chain syms s is \<Longrightarrow> distinct is"
  by (simp add: live_chain_def strict_sorted_iff flip: strict_sorted_iff) (simp add: strict_sorted_iff)

lemma merge_symbols_fields:
  assumes chain: "live_chain syms s (xs @ l # r # ys)"
  shows "\<exists>syms'. merge_symbols syms l r = Inr syms' \<and> length syms' = length syms
    \<and> syms' ! l = (syms ! l)\<lparr>sym_n := sym_n (syms ! l) + sym_n (syms ! r), sym_next := head_or ys (-1)\<rparr>
    \<and> syms' ! r = (syms ! r)\<lparr>sym_n := 0\<rparr>
    \<and> (\<forall>j js. ys = j # js \<longrightarrow> syms' ! j = (syms ! j)\<lparr>sym_prev := int l\<rparr>)
    \<and> (\<forall>i. i \<noteq> l \<and> i \<noteq> r \<and> int i \<noteq> head_or ys (-1) \<longrightarrow> syms' ! i = syms ! i)"
proof -
  have d: "l \<noteq> r" "l \<notin> set ys" "r \<notin> set ys" using live_chain_distinct [OF chain] by auto
  from chain obtain m where lr: "l < length syms" "r < length syms" "sym_next (syms ! r) = head_or ys (-1)"
    and ys: "segment syms s (int r) m ys (-1) (length s)"
    by (auto simp: live_chain_def segment_append)
  show ?thesis
  proof (cases ys)
    case Nil
    with d lr show ?thesis by (auto simp: merge_symbols_def sym_at_def Let_def)
  next
    case (Cons j js)
    with d ys have "j \<noteq> l" "j \<noteq> r" "j < length syms" by auto
    with d lr Cons show ?thesis by (auto simp: merge_symbols_def sym_at_def Let_def)
  qed
qed

lemma merge_symbols_chain:
  assumes chain: "live_chain syms s (xs @ l # r # ys)" and m: "merge_symbols syms l r = Inr syms'"
  shows "live_chain syms' s (xs @ l # ys)"
    and "sym_text (syms' ! i) = sym_text (syms ! i)" and "length syms' = length syms"
    and "sym_n (syms' ! i) = (if i = l then sym_n (syms ! l) + sym_n (syms ! r)
           else if i = r then 0 else sym_n (syms ! i))"
proof -
  have d: "l \<noteq> r" "l \<notin> set ys" "r \<notin> set ys" "l \<notin> set xs" "r \<notin> set xs" "distinct ys"
    "set xs \<inter> set ys = {}"
    using live_chain_distinct [OF chain] by auto
  from merge_symbols_fields [OF chain] m have
    len: "length syms' = length syms" and
    l: "syms' ! l = (syms ! l)\<lparr>sym_n := sym_n (syms ! l) + sym_n (syms ! r), sym_next := head_or ys (-1)\<rparr>"
    and r: "syms' ! r = (syms ! r)\<lparr>sym_n := 0\<rparr>"
    and j: "\<And>j js. ys = j # js \<Longrightarrow> syms' ! j = (syms ! j)\<lparr>sym_prev := int l\<rparr>"
    and other: "\<And>i. i \<noteq> l \<Longrightarrow> i \<noteq> r \<Longrightarrow> int i \<noteq> head_or ys (-1) \<Longrightarrow> syms' ! i = syms ! i"
    by auto
  show len: "length syms' = length syms" by (rule len)
  have fields: "sym_text (syms' ! i) = sym_text (syms ! i)
      \<and> sym_n (syms' ! i) = (if i = l then sym_n (syms ! l) + sym_n (syms ! r)
           else if i = r then 0 else sym_n (syms ! i))" for i
  proof (cases "i = l \<or> i = r")
    case True
    with l r d show ?thesis by auto
  next
    case False
    show ?thesis
    proof (cases "int i = head_or ys (-1)")
      case True
      then obtain js where "ys = i # js" by (cases ys) auto
      from j [OF this] False show ?thesis by simp
    next
      case 2: False
      with other False show ?thesis by auto
    qed
  qed
  then show "sym_text (syms' ! i) = sym_text (syms ! i)"
    "sym_n (syms' ! i) = (if i = l then sym_n (syms ! l) + sym_n (syms ! r)
           else if i = r then 0 else sym_n (syms ! i))" by auto
  from chain obtain m1 where
    xs: "segment syms s (-1) 0 xs (int l) m1" and
    L: "l < length syms" "sym_prev (syms ! l) = last_or xs (-1)" "sym_text (syms ! l) = drop m1 s"
      "0 < sym_n (syms ! l)" "r < length syms" "0 < sym_n (syms ! r)" and
    ys: "segment syms s (int r) (m1 + sym_n (syms ! l) + sym_n (syms ! r)) ys (-1) (length s)"
    by (auto simp: live_chain_def segment_append add.assoc)
  have "segment syms' s (-1) 0 xs (int l) m1"
  proof (rule segment_cong [OF _ xs])
    fix i assume i: "i \<in> set xs" "i < length syms"
    with d have "i \<noteq> l" "i \<noteq> r" "int i \<noteq> head_or ys (-1)" by (auto simp: head_or_def split: list.splits)
    with i len other show "i < length syms' \<and> syms' ! i = syms ! i" by simp
  qed
  moreover have "segment syms' s (int l) (m1 + sym_n (syms ! l) + sym_n (syms ! r)) ys (-1) (length s)"
  proof (cases ys)
    case (Cons k ks)
    with ys have seg: "segment syms s (int k)
        (m1 + sym_n (syms ! l) + sym_n (syms ! r) + sym_n (syms ! k)) ks (-1) (length s)" by simp
    have "segment syms' s (int k)
        (m1 + sym_n (syms ! l) + sym_n (syms ! r) + sym_n (syms ! k)) ks (-1) (length s)"
    proof (rule segment_cong [OF _ seg])
      fix i assume i: "i \<in> set ks" "i < length syms"
      with d Cons have "i \<noteq> l" "i \<noteq> r" "int i \<noteq> head_or ys (-1)" by auto
      with i len other show "i < length syms' \<and> syms' ! i = syms ! i" by simp
    qed
    with ys Cons j len show ?thesis by simp
  qed (use ys in simp)
  ultimately have "segment syms' s (-1) 0 (xs @ l # ys) (-1) (length s)"
    using L l len by (auto simp: segment_append add.assoc)
  moreover have "sorted_wrt (<) (xs @ l # ys)"
    using chain by (auto simp: live_chain_def sorted_wrt_append)
  moreover have "set (xs @ l # ys) = {i. i < length syms' \<and> sym_n (syms' ! i) > 0}"
  proof -
    have "set (xs @ l # r # ys) = {i. i < length syms \<and> sym_n (syms ! i) > 0}"
      using chain by (simp add: live_chain_def)
    then have "set (xs @ l # ys) = {i. i < length syms \<and> sym_n (syms ! i) > 0} - {r}"
      using d by auto
    also have "\<dots> = {i. i < length syms' \<and> sym_n (syms' ! i) > 0}"
      using fields len L d by (auto split: if_splits)
    finally show ?thesis .
  qed
  moreover have "head_or (xs @ l # ys) 0 = 0" using chain by (simp add: live_chain_def)
  ultimately show "live_chain syms' s (xs @ l # ys)" by (simp add: live_chain_def)
qed

end
