(* ===== verification/MergeQueue.thy ===== *)
theory MergeQueue
  imports MergeSymbols
begin

text \<open>
  What the SPM and BPE tokenizers share: the \<open>std::priority_queue\<close> of candidate pairs, the greedy
  merging it implements, and the contract under which a queue whose entries are not removed when
  they become stale still merges the best adjacent pair at each step.
\<close>

section \<open>The priority queue\<close>

text \<open>
  \<open>before x y\<close> is the comparator (\<open>x\<close> has the lower priority). \<open>top\<close> is an element that no other
  one comes after; the standard does not say which one when there are several, so \<open>tie\<close> chooses.
\<close>

definition pq_tops :: "('b \<Rightarrow> 'b \<Rightarrow> bool) \<Rightarrow> 'b list \<Rightarrow> 'b list" where
  "pq_tops before q = filter (\<lambda>x. \<not> list_ex (before x) q) q"

definition pq_top :: "('b \<Rightarrow> 'b \<Rightarrow> bool) \<Rightarrow> ('b list \<Rightarrow> nat) \<Rightarrow> 'b list \<Rightarrow> 'b" where
  "pq_top before tie q =
    (let tops = pq_tops before q in if tops = [] then hd q else tops ! (tie q mod length tops))"

definition pq_pop :: "('b \<Rightarrow> 'b \<Rightarrow> bool) \<Rightarrow> ('b list \<Rightarrow> nat) \<Rightarrow> 'b list \<Rightarrow> 'b list" where
  "pq_pop before tie q = remove1 (pq_top before tie q) q"

lemma pq_top_in: "q \<noteq> [] \<Longrightarrow> pq_top before tie q \<in> set q"
  by (auto simp: pq_top_def pq_tops_def Let_def split: if_splits)
     (metis (no_types, lifting) empty_filter_conv filter_is_subset length_greater_0_conv
       mod_less_divisor nth_mem subsetD)

lemma pq_pop_length: "q \<noteq> [] \<Longrightarrow> length (pq_pop before tie q) < length q"
  by (simp add: pq_pop_def length_remove1 pq_top_in)

section \<open>Greedy merging\<close>

text \<open>The leftmost of the largest ranks.\<close>

fun best :: "'p::linorder option list \<Rightarrow> (nat \<times> 'p) option" where
  "best [] = None"
| "best (None # rs) = map_option (apfst Suc) (best rs)"
| "best (Some p # rs) =
    (case best rs of
       None \<Rightarrow> Some (0, p)
     | Some (k, q) \<Rightarrow> if p < q then Some (Suc k, q) else Some (0, p))"

definition pair_ranks :: "('a \<Rightarrow> 'a \<Rightarrow> 'p option) \<Rightarrow> 'a list \<Rightarrow> 'p option list" where
  "pair_ranks rank ps = map (\<lambda>(a, b). rank a b) (zip ps (tl ps))"

lemma best_None_iff: "best rs = None \<longleftrightarrow> set rs \<subseteq> {None}"
  by (induction rs rule: best.induct) (auto split: option.splits prod.splits)

lemma best_Some:
  "best rs = Some (k, p) \<Longrightarrow> k < length rs \<and> rs ! k = Some p
    \<and> (\<forall>j q. j < length rs \<longrightarrow> rs ! j = Some q \<longrightarrow> q \<le> p \<and> (q = p \<longrightarrow> k \<le> j))"
proof (induction rs arbitrary: k p rule: best.induct)
  case (2 rs)
  then obtain k' where k: "k = Suc k'" "best rs = Some (k', p)" by auto
  from 2(1) [OF k(2)] k(1) show ?case by (auto simp: nth_Cons split: nat.splits)
next
  case (3 p' rs)
  show ?case
  proof (cases "best rs")
    case None
    with 3 show ?thesis
      by (auto simp: best_None_iff nth_Cons split: nat.splits) (metis nth_mem singletonD subsetD option.distinct(1))+
  next
    case (Some kq)
    obtain k' q where kq: "kq = (k', q)" by (cases kq)
    with 3(1) [of k' q] Some have
      IH: "k' < length rs" "rs ! k' = Some q"
        "\<And>j q'. j < length rs \<Longrightarrow> rs ! j = Some q' \<Longrightarrow> q' \<le> q \<and> (q' = q \<longrightarrow> k' \<le> j)" by auto
    with 3(2) Some kq show ?thesis
      by (auto simp: nth_Cons split: nat.splits if_splits) (meson linorder_not_le order_trans)+
  qed
qed simp

lemma best_eqI:
  assumes "k < length rs" "rs ! k = Some p"
    and "\<And>j q. j < length rs \<Longrightarrow> rs ! j = Some q \<Longrightarrow> q \<le> p \<and> (q = p \<longrightarrow> k \<le> j)"
  shows "best rs = Some (k, p)"
proof (cases "best rs")
  case None
  then have "rs ! k = None" using assms(1) by (metis best_None_iff nth_mem singletonD subsetD)
  with assms(2) show ?thesis by simp
next
  case (Some kq)
  obtain k' q where kq: "kq = (k', q)" by (cases kq)
  from best_Some [of rs k' q] Some kq assms(1,2) have "k' < length rs" "rs ! k' = Some q"
    "p \<le> q" "p = q \<longrightarrow> k' \<le> k" by auto
  with assms(3) [of k' q] Some kq show ?thesis by auto
qed

lemma best_less: "best (pair_ranks rank ps) = Some (k, p) \<Longrightarrow> Suc k < length ps"
  using best_Some [of "pair_ranks rank ps" k p] by (auto simp: pair_ranks_def)

function greedy :: "('a list \<Rightarrow> 'a list \<Rightarrow> 'p::linorder option) \<Rightarrow> 'a list list \<Rightarrow> 'a list list" where
  "greedy rank ps =
    (case best (pair_ranks rank ps) of
       None \<Rightarrow> ps
     | Some (k, p) \<Rightarrow> greedy rank (take k ps @ (ps ! k @ ps ! Suc k) # drop (Suc (Suc k)) ps))"
  by pat_completeness auto
termination
  by (relation "measure (\<lambda>(rank, ps). length ps)") (auto dest: best_less)

declare greedy.simps [simp del]

lemma greedy_concat: "concat (greedy rank ps) = concat ps"
proof (induction rank ps rule: greedy.induct)
  case (1 rank ps)
  show ?case
  proof (cases "best (pair_ranks rank ps)")
    case None
    then show ?thesis by (simp add: greedy.simps [of rank ps])
  next
    case (Some kp)
    obtain k p where kp: "kp = (k, p)" by (cases kp)
    with Some have k: "Suc k < length ps" by (simp add: best_less)
    then have "ps = take k ps @ ps ! k # ps ! Suc k # drop (Suc (Suc k)) ps"
      by (simp add: Cons_nth_drop_Suc)
    then have "concat ps = concat (take k ps @ (ps ! k @ ps ! Suc k) # drop (Suc (Suc k)) ps)"
      by (metis (no_types) append.assoc concat.simps(2) concat_append)
    with 1 [OF Some kp [symmetric]] Some kp show ?thesis by (simp add: greedy.simps [of rank ps])
  qed
qed

section \<open>The contract\<close>

text \<open>
  A merge tokenizer ranks pairs of neighbouring strings, queues a candidate for each ranked pair,
  and tells from a candidate and the symbols whether it is still current. \<open>tag_ok\<close> is what a
  candidate records of the string its left symbol points into.
\<close>

locale merge_queue =
  fixes rank :: "byte list \<Rightarrow> byte list \<Rightarrow> 'p::linorder option"
    and left right bsize :: "'b \<Rightarrow> nat" and prio :: "'b \<Rightarrow> 'p"
    and before :: "'b \<Rightarrow> 'b \<Rightarrow> bool"
    and tag_ok :: "byte list \<Rightarrow> 'b \<Rightarrow> bool"
    and fresh :: "llm_symbol list \<Rightarrow> 'b \<Rightarrow> bool"
  assumes before_iff: "before b c \<longleftrightarrow> prio b < prio c \<or> prio b = prio c \<and> left b > left c"
    and fresh_iff: "sym_text (syms ! left b) = pre @ sym_text (syms ! right b) \<Longrightarrow>
      0 < length pre \<Longrightarrow> bsize b = length pre + n \<Longrightarrow>
      bsize b \<le> length (sym_text (syms ! left b)) \<Longrightarrow>
      sym_n (syms ! left b) = 0 \<or> length pre \<le> sym_n (syms ! left b) \<and>
        sym_n (syms ! left b) \<le> length (sym_text (syms ! left b)) \<Longrightarrow>
      sym_n (syms ! right b) = 0 \<or> n \<le> sym_n (syms ! right b) \<and>
        sym_n (syms ! right b) \<le> length (sym_text (syms ! right b)) \<Longrightarrow>
      tag_ok (sym_text (syms ! left b)) b \<Longrightarrow>
      fresh syms b \<longleftrightarrow> sym_n (syms ! left b) \<noteq> 0 \<and> sym_n (syms ! right b) \<noteq> 0
        \<and> sym_n (syms ! left b) + sym_n (syms ! right b) = bsize b"
begin

text \<open>
  An entry was right when it was queued: its symbols started next to each other, and their sizes
  then (which have only grown, or dropped to zero, since) had its rank.
\<close>

definition entry_ok :: "llm_symbol list \<Rightarrow> byte list \<Rightarrow> 'b \<Rightarrow> bool" where
  "entry_ok syms s b \<longleftrightarrow> left b < length syms \<and> right b < length syms \<and> tag_ok (sym_text (syms ! left b)) b
     \<and> (\<exists>m n1 n2. 0 < n1 \<and> 0 < n2 \<and> m + n1 + n2 \<le> length s \<and> bsize b = n1 + n2
       \<and> sym_text (syms ! left b) = drop m s \<and> sym_text (syms ! right b) = drop (m + n1) s
       \<and> rank (take n1 (drop m s)) (take n2 (drop (m + n1) s)) = Some (prio b)
       \<and> (sym_n (syms ! left b) = 0 \<or> n1 \<le> sym_n (syms ! left b))
       \<and> (sym_n (syms ! right b) = 0 \<or> n2 \<le> sym_n (syms ! right b)))"

text \<open>\<open>b\<close> is the candidate of the neighbours \<open>l\<close> and \<open>r\<close> as they are now.\<close>

definition candidate :: "llm_symbol list \<Rightarrow> nat \<Rightarrow> nat \<Rightarrow> 'b \<Rightarrow> bool" where
  "candidate syms l r b \<longleftrightarrow> left b = l \<and> right b = r
     \<and> bsize b = sym_n (syms ! l) + sym_n (syms ! r) \<and> tag_ok (sym_text (syms ! l)) b
     \<and> rank (piece (syms ! l)) (piece (syms ! r)) = Some (prio b)"

definition queued :: "llm_symbol list \<Rightarrow> 'b list \<Rightarrow> nat \<Rightarrow> nat \<Rightarrow> bool" where
  "queued syms q l r \<longleftrightarrow> rank (piece (syms ! l)) (piece (syms ! r)) \<noteq> None \<longrightarrow>
     (\<exists>b\<in>set q. candidate syms l r b)"

definition neighbours :: "nat list \<Rightarrow> nat \<Rightarrow> nat \<Rightarrow> bool" where
  "neighbours is l r \<longleftrightarrow> (\<exists>xs ys. is = xs @ l # r # ys)"

definition queue_inv :: "llm_symbol list \<Rightarrow> byte list \<Rightarrow> 'b list \<Rightarrow> nat list \<Rightarrow> bool" where
  "queue_inv syms s q is \<longleftrightarrow> live_chain syms s is \<and> (\<forall>b\<in>set q. entry_ok syms s b)
     \<and> (\<forall>l r. neighbours is l r \<longrightarrow> queued syms q l r)"

lemma neighbours_offset:
  assumes "live_chain syms s is" "neighbours is l r"
  shows "\<exists>m. sym_text (syms ! l) = drop m s \<and> sym_text (syms ! r) = drop (m + sym_n (syms ! l)) s
    \<and> m + sym_n (syms ! l) + sym_n (syms ! r) \<le> length s
    \<and> 0 < sym_n (syms ! l) \<and> 0 < sym_n (syms ! r) \<and> l < length syms \<and> r < length syms"
proof -
  from assms obtain xs ys where "is = xs @ l # r # ys" by (auto simp: neighbours_def)
  with assms(1) obtain m where "sym_text (syms ! l) = drop m s"
    "sym_text (syms ! r) = drop (m + sym_n (syms ! l)) s"
    "segment syms s (int r) (m + sym_n (syms ! l) + sym_n (syms ! r)) ys (-1) (length s)"
    "0 < sym_n (syms ! l)" "0 < sym_n (syms ! r)" "l < length syms" "r < length syms"
    by (auto simp: live_chain_def segment_append)
  with segment_le show ?thesis by blast
qed

lemma candidate_entry:
  assumes "live_chain syms s is" "neighbours is l r" "candidate syms l r b"
  shows "entry_ok syms s b"
proof -
  from neighbours_offset [OF assms(1,2)] obtain m where
    "sym_text (syms ! l) = drop m s" "sym_text (syms ! r) = drop (m + sym_n (syms ! l)) s"
    "m + sym_n (syms ! l) + sym_n (syms ! r) \<le> length s"
    "0 < sym_n (syms ! l)" "0 < sym_n (syms ! r)" "l < length syms" "r < length syms" by blast
  with assms(3) show ?thesis
    unfolding entry_ok_def candidate_def piece_def
    by (intro conjI exI [of _ m] exI [of _ "sym_n (syms ! l)"] exI [of _ "sym_n (syms ! r)"]) auto
qed

text \<open>An entry is current exactly when its symbols are neighbours and it is their candidate.\<close>

lemma fresh_entry:
  assumes chain: "live_chain syms s is" and ok: "entry_ok syms s b"
  shows "fresh syms b \<longleftrightarrow> neighbours is (left b) (right b) \<and> candidate syms (left b) (right b) b"
proof -
  let ?l = "left b" and ?r = "right b"
  from ok obtain m n1 n2 where pos: "0 < n1" "0 < n2" "m + n1 + n2 \<le> length s" "bsize b = n1 + n2"
    and tx: "sym_text (syms ! ?l) = drop m s" "sym_text (syms ! ?r) = drop (m + n1) s"
    and rk: "rank (take n1 (drop m s)) (take n2 (drop (m + n1) s)) = Some (prio b)"
    and sz: "sym_n (syms ! ?l) = 0 \<or> n1 \<le> sym_n (syms ! ?l)"
      "sym_n (syms ! ?r) = 0 \<or> n2 \<le> sym_n (syms ! ?r)"
    and tag: "tag_ok (sym_text (syms ! ?l)) b" and lr: "?l < length syms" "?r < length syms"
    unfolding entry_ok_def by blast
  have bound: "sym_n (syms ! i) \<le> length (sym_text (syms ! i))" if "i < length syms" "sym_n (syms ! i) \<noteq> 0" for i
    using chain that length_piece [OF chain, of i] by (simp add: live_chain_def piece_def)
  have "drop m s = take n1 (drop m s) @ drop (m + n1) s" by (metis add.commute append_take_drop_id drop_drop)
  then have iff: "fresh syms b \<longleftrightarrow> sym_n (syms ! ?l) \<noteq> 0 \<and> sym_n (syms ! ?r) \<noteq> 0
      \<and> sym_n (syms ! ?l) + sym_n (syms ! ?r) = bsize b"
    using pos tx sz tag bound [OF lr(1)] bound [OF lr(2)]
    by (intro fresh_iff [where pre = "take n1 (drop m s)" and n = n2]) auto
  show ?thesis
  proof
    assume "fresh syms b"
    with iff sz pos have n: "sym_n (syms ! ?l) = n1" "sym_n (syms ! ?r) = n2" by auto
    with pos lr chain have "?l \<in> set is" "?r \<in> set is" by (auto simp: live_chain_def)
    then obtain xs zs where dec: "is = xs @ ?l # zs" by (auto simp: in_set_conv_decomp)
    with chain obtain m' where xs: "segment syms s (-1) 0 xs (int ?l) m'"
      and m': "sym_text (syms ! ?l) = drop m' s"
      and zs: "segment syms s (int ?l) (m' + n1) zs (-1) (length s)"
      using n by (auto simp: live_chain_def segment_append)
    have "m' + n1 \<le> length s" using segment_le [OF zs] .
    moreover have "length s - m' = length s - m" using m' tx(1) by (metis length_drop)
    ultimately have [simp]: "m' = m" using pos by simp
    have here: "k = m + n1" if "sym_text (syms ! ?r) = drop k s" "k < length s" for k
    proof -
      have "length s - k = length s - (m + n1)" using that(1) tx(2) by (metis length_drop)
      with that(2) pos show ?thesis by simp
    qed
    have "?r \<notin> set xs" using segment_offset [OF xs] here segment_le [OF zs] pos by fastforce
    moreover have "?r \<noteq> ?l" using tx pos by (metis length_drop diff_less_mono2 add_less_cancel_left
      less_add_same_cancel1 less_irrefl_nat order_less_le_trans add_leD1 trans_less_add1)
    ultimately have "?r \<in> set zs" using \<open>?r \<in> set is\<close> dec by auto
    then obtain j ys where j: "zs = j # ys" by (cases zs) auto
    have "j = ?r"
    proof (rule ccontr)
      assume "j \<noteq> ?r"
      with \<open>?r \<in> set zs\<close> j have "?r \<in> set ys" by auto
      moreover from zs j have "0 < sym_n (syms ! j)"
        "segment syms s (int j) (m + n1 + sym_n (syms ! j)) ys (-1) (length s)" by auto
      ultimately show False using segment_offset [of syms s "int j" _ ys] here by fastforce
    qed
    with dec j have "neighbours is ?l ?r" by (auto simp: neighbours_def)
    then show "neighbours is ?l ?r \<and> candidate syms ?l ?r b"
      using n tx rk pos tag by (simp add: candidate_def piece_def)
  next
    assume "neighbours is ?l ?r \<and> candidate syms ?l ?r b"
    with iff neighbours_offset [OF chain] show "fresh syms b" by (auto simp: candidate_def)
  qed
qed


lemma neighbours_nth: "neighbours is l r \<longleftrightarrow> (\<exists>k. Suc k < length is \<and> is ! k = l \<and> is ! Suc k = r)"
proof
  assume "neighbours is l r"
  then obtain xs ys where "is = xs @ l # r # ys" by (auto simp: neighbours_def)
  then show "\<exists>k. Suc k < length is \<and> is ! k = l \<and> is ! Suc k = r"
    by (intro exI [of _ "length xs"]) (simp add: nth_append)
next
  assume "\<exists>k. Suc k < length is \<and> is ! k = l \<and> is ! Suc k = r"
  then obtain k where "Suc k < length is" "is ! k = l" "is ! Suc k = r" by blast
  then have "is = take k is @ l # r # drop (Suc (Suc k)) is"
    by (metis Cons_nth_drop_Suc Suc_lessD id_take_nth_drop)
  then show "neighbours is l r" unfolding neighbours_def by blast
qed

lemma neighbours_merged:
  assumes "neighbours (xs @ l # ys) i j"
  shows "i = last xs \<and> xs \<noteq> [] \<and> j = l \<or> i = l \<and> (\<exists>js. ys = j # js)
    \<or> neighbours (xs @ l # r # ys) i j \<and> (i \<in> set xs \<and> j \<in> set xs \<or> i \<in> set ys \<and> j \<in> set ys)"
proof -
  from assms obtain k where k: "Suc k < length (xs @ l # ys)" "(xs @ l # ys) ! k = i"
    "(xs @ l # ys) ! Suc k = j" by (auto simp: neighbours_nth)
  consider "Suc k < length xs" | "Suc k = length xs" | "k = length xs" | "length xs < k" by linarith
  then show ?thesis
  proof cases
    case 1
    then have "neighbours (xs @ l # r # ys) i j"
      using k unfolding neighbours_nth by (intro exI [of _ k]) (simp add: nth_append)
    moreover have "i \<in> set xs" "j \<in> set xs" using 1 k by (auto simp: nth_append)
    ultimately show ?thesis by blast
  next
    case 2
    then have "xs \<noteq> []" "k = length xs - 1" by auto
    with 2 k have "i = last xs" "j = l" by (auto simp: nth_append last_conv_nth)
    with \<open>xs \<noteq> []\<close> show ?thesis by blast
  next
    case 3
    with k show ?thesis by (cases ys) (auto simp: nth_append)
  next
    case 4
    then obtain d where d: "k = Suc (length xs + d)" by (metis less_imp_Suc_add add_Suc)
    with k have "ys ! d = i" "ys ! Suc d = j" "Suc d < length ys" by (auto simp: nth_append)
    moreover from this have "neighbours (xs @ l # r # ys) i j"
      unfolding neighbours_nth by (intro exI [of _ "Suc k"]) (simp add: nth_append d)
    ultimately show ?thesis by force
  qed
qed

section \<open>One step\<close>

lemma pq_top_max:
  assumes "q \<noteq> []" "c \<in> set q"
  shows "\<not> before (pq_top before tie q) c"
proof -
  have "\<exists>x\<in>set q. \<forall>y\<in>set q. \<not> before x y" using assms(1)
  proof (induction q rule: list_nonempty_induct)
    case (cons a q)
    then obtain x where x: "x \<in> set q" "\<forall>y\<in>set q. \<not> before x y" by blast
    show ?case
    proof (cases "before x a")
      case True
      with x have "\<forall>y\<in>set (a # q). \<not> before a y" by (auto simp: before_iff)
      then show ?thesis by auto
    next
      case False
      with x show ?thesis by auto
    qed
  qed (simp add: before_iff)
  then have "pq_tops before q \<noteq> []" by (auto simp: pq_tops_def filter_empty_conv list_ex_iff)
  then have "pq_top before tie q \<in> set (pq_tops before q)"
    by (simp add: pq_top_def Let_def)
  with assms(2) show ?thesis by (auto simp: pq_tops_def list_ex_iff)
qed

lemma best_top:
  assumes inv: "queue_inv syms s q is" and b: "b \<in> set q" "\<And>c. c \<in> set q \<Longrightarrow> \<not> before b c"
    and is_eq: "is = xs @ left b # right b # ys" and cand: "candidate syms (left b) (right b) b"
  shows "best (pair_ranks rank (pieces syms is)) = Some (length xs, prio b)"
proof (rule best_eqI)
  have ranks: "pair_ranks rank (pieces syms is) ! j = rank (piece (syms ! (is ! j))) (piece (syms ! (is ! Suc j)))"
    if "Suc j < length is" for j
    using that by (simp add: pair_ranks_def pieces_def nth_tl)
  have len: "length (pair_ranks rank (pieces syms is)) = length is - 1"
    by (simp add: pair_ranks_def pieces_def)
  show "length xs < length (pair_ranks rank (pieces syms is))"
    unfolding len by (simp add: is_eq)
  show "pair_ranks rank (pieces syms is) ! length xs = Some (prio b)"
    using cand ranks [of "length xs"] by (simp add: is_eq candidate_def nth_append)
  fix j p
  assume j: "j < length (pair_ranks rank (pieces syms is))" "pair_ranks rank (pieces syms is) ! j = Some p"
  then have "Suc j < length is" using len by simp
  then have "neighbours is (is ! j) (is ! Suc j)" by (auto simp: neighbours_nth)
  then have "queued syms q (is ! j) (is ! Suc j)" using inv by (simp add: queue_inv_def)
  then obtain c where c: "c \<in> set q" "candidate syms (is ! j) (is ! Suc j) c"
    using ranks [OF \<open>Suc j < length is\<close>] j(2) by (auto simp: queued_def)
  then have "prio c = p" "left c = is ! j"
    using ranks [OF \<open>Suc j < length is\<close>] j(2) by (auto simp: candidate_def)
  with b(2) [OF c(1)] have "p \<le> prio b" "p = prio b \<longrightarrow> is ! length xs \<le> is ! j"
    by (auto simp: before_iff is_eq nth_append)
  moreover have "length xs \<le> j" if "is ! length xs \<le> is ! j"
  proof (rule ccontr)
    assume "\<not> length xs \<le> j"
    moreover have "sorted_wrt (<) is" using inv by (simp add: queue_inv_def live_chain_def)
    ultimately have "is ! j < is ! length xs"
      using sorted_wrt_nth_less [of "(<)" "is" j "length xs"] is_eq by simp
    with that show False by simp
  qed
  ultimately show "p \<le> prio b \<and> (p = prio b \<longrightarrow> length xs \<le> j)" by blast
qed

lemma skip_inv:
  assumes inv: "queue_inv syms s q is" and b: "b \<in> set q" and stale: "\<not> fresh syms b"
  shows "queue_inv syms s (remove1 b q) is"
proof -
  have chain: "live_chain syms s is" and ok: "entry_ok syms s b"
    using inv b by (auto simp: queue_inv_def)
  have "queued syms (remove1 b q) l r" if "neighbours is l r" for l r
    unfolding queued_def
  proof
    assume "rank (piece (syms ! l)) (piece (syms ! r)) \<noteq> None"
    moreover have "queued syms q l r" using inv that by (simp add: queue_inv_def)
    ultimately obtain c where c: "c \<in> set q" "candidate syms l r c" unfolding queued_def by blast
    have "c \<noteq> b" using stale that c fresh_entry [OF chain ok] by (auto simp: candidate_def)
    with c show "\<exists>b'\<in>set (remove1 b q). candidate syms l r b'" by auto
  qed
  moreover have "\<forall>c\<in>set (remove1 b q). entry_ok syms s c"
    using inv notin_set_remove1 [of _ q b] by (auto simp: queue_inv_def)
  ultimately show ?thesis using chain by (simp add: queue_inv_def)
qed

text \<open>Queueing the candidate of two neighbours, if they have a rank; no index means no pair.\<close>

definition offered :: "llm_symbol list \<Rightarrow> int \<Rightarrow> int \<Rightarrow> 'b list \<Rightarrow> 'b list \<Rightarrow> bool" where
  "offered syms i j q q' \<longleftrightarrow>
     (if i = -1 \<or> j = -1 \<or> rank (piece (syms ! nat i)) (piece (syms ! nat j)) = None then q' = q
      else \<exists>b. candidate syms (nat i) (nat j) b \<and> q' = q @ [b])"

lemma offered_set:
  "offered syms i j q q' \<Longrightarrow> set q \<subseteq> set q'"
  "offered syms i j q q' \<Longrightarrow> i \<noteq> -1 \<Longrightarrow> j \<noteq> -1 \<Longrightarrow> queued syms q' (nat i) (nat j)"
  "offered syms i j q q' \<Longrightarrow> b \<in> set q' \<Longrightarrow> b \<in> set q \<or> i \<noteq> -1 \<and> j \<noteq> -1 \<and> candidate syms (nat i) (nat j) b"
  by (auto simp: offered_def queued_def split: if_splits)

lemma queued_mono: "queued syms q l r \<Longrightarrow> set q \<subseteq> set q' \<Longrightarrow> queued syms q' l r"
  by (auto simp: queued_def)

lemma entry_ok_merge:
  assumes chain: "live_chain syms s (xs @ l # r # ys)" and m: "merge_symbols syms l r = Inr syms'"
    and ok: "entry_ok syms s b"
  shows "entry_ok syms' s b"
proof -
  note eff = merge_symbols_chain [OF chain m]
  have n: "sym_n (syms' ! i) = 0 \<or> k \<le> sym_n (syms' ! i)"
    if "sym_n (syms ! i) = 0 \<or> k \<le> sym_n (syms ! i)" "i < length syms" for i k
  proof (cases "i = l")
    case True
    have "sym_n (syms ! l) \<noteq> 0" using chain by (auto simp: live_chain_def segment_append)
    with True that eff(4) [of i] show ?thesis by auto
  next
    case False
    with that eff(4) [of i] show ?thesis by auto
  qed
  from ok show ?thesis unfolding entry_ok_def eff(2,3) using n by blast
qed

lemma merge_inv:
  assumes inv: "queue_inv syms s q is" and b: "b \<in> set q" "\<And>c. c \<in> set q \<Longrightarrow> \<not> before b c"
    and fr: "fresh syms b"
  obtains syms' "is'" where "merge_symbols syms (left b) (right b) = Inr syms'"
    and "live_chain syms' s is'" "left b < length syms'"
    and "\<And>i. i = sym_prev (syms' ! left b) \<Longrightarrow> i \<noteq> -1 \<Longrightarrow> 0 \<le> i \<and> neighbours is' (nat i) (left b)"
    and "\<And>i. i = sym_next (syms' ! left b) \<Longrightarrow> i \<noteq> -1 \<Longrightarrow> 0 \<le> i \<and> neighbours is' (left b) (nat i)"
    and "greedy rank (pieces syms is) = greedy rank (pieces syms' is')"
    and "\<And>q1 q2. offered syms' (sym_prev (syms' ! left b)) (int (left b)) (remove1 b q) q1 \<Longrightarrow>
      offered syms' (int (left b)) (sym_next (syms' ! left b)) q1 q2 \<Longrightarrow> queue_inv syms' s q2 is'"
proof -
  let ?l = "left b" and ?r = "right b"
  have chain: "live_chain syms s is" and ok: "entry_ok syms s b" using inv b by (auto simp: queue_inv_def)
  from fr fresh_entry [OF chain ok] have nb: "neighbours is ?l ?r" and cand: "candidate syms ?l ?r b" by auto
  from nb obtain xs ys where is_eq: "is = xs @ ?l # ?r # ys" by (auto simp: neighbours_def)
  note chain' = chain [unfolded is_eq]
  obtain syms' where m: "merge_symbols syms ?l ?r = Inr syms'"
    using merge_symbols_fields [OF chain'] by blast
  note eff = merge_symbols_chain [OF chain' m]
  let ?is = "xs @ ?l # ys"
  have d: "?l \<noteq> ?r" "?l \<notin> set ys" "?r \<notin> set ys" "?l \<notin> set xs" "?r \<notin> set xs"
    using live_chain_distinct [OF chain'] by auto
  from eff(1) have links: "sym_prev (syms' ! ?l) = last_or xs (-1)" "sym_next (syms' ! ?l) = head_or ys (-1)"
    "?l < length syms'" by (auto simp: live_chain_def segment_append)
  have prev: "0 \<le> i \<and> xs \<noteq> [] \<and> nat i = last xs \<and> neighbours ?is (nat i) ?l"
    if "i = sym_prev (syms' ! ?l)" "i \<noteq> -1" for i
  proof -
    from that links have xs: "xs \<noteq> []" "i = int (last xs)" by (auto simp: last_or_def split: if_splits)
    then have "?is = butlast xs @ nat i # ?l # ys" by simp
    then have "neighbours ?is (nat i) ?l" unfolding neighbours_def by blast
    with xs show ?thesis by simp
  qed
  have "next": "0 \<le> i \<and> (\<exists>js. ys = nat i # js) \<and> neighbours ?is ?l (nat i)"
    if "i = sym_next (syms' ! ?l)" "i \<noteq> -1" for i
  proof -
    from that links obtain j js where "ys = j # js" "i = int j" by (cases ys) auto
    then show ?thesis unfolding neighbours_def by auto
  qed
  have piece_l: "piece (syms' ! ?l) = piece (syms ! ?l) @ piece (syms ! ?r)"
  proof -
    from neighbours_offset [OF chain nb] obtain k where
      "sym_text (syms ! ?l) = drop k s" "sym_text (syms ! ?r) = drop (k + sym_n (syms ! ?l)) s" by blast
    then show ?thesis
      by (simp add: piece_def eff(2) eff(4) take_add add.commute)
  qed
  have piece_other: "piece (syms' ! i) = piece (syms ! i)" if "i \<noteq> ?l" "i \<noteq> ?r" for i
    using that by (simp add: piece_def eff(2) eff(4))
  have "greedy rank (pieces syms is) = greedy rank (pieces syms' ?is)"
  proof -
    have "map (\<lambda>i. piece (syms' ! i)) zs = map (\<lambda>i. piece (syms ! i)) zs"
      if "?l \<notin> set zs" "?r \<notin> set zs" for zs
      using that by (intro map_cong [OF refl] piece_other) auto
    then have eq2: "pieces syms' ?is = map (\<lambda>i. piece (syms ! i)) xs @ (piece (syms ! ?l) @ piece (syms ! ?r))
        # map (\<lambda>i. piece (syms ! i)) ys"
      using d by (simp add: pieces_def piece_l)
    have "best (pair_ranks rank (pieces syms is)) = Some (length xs, prio b)"
      by (rule best_top [OF inv b is_eq cand])
    then show ?thesis unfolding eq2
      by (subst greedy.simps) (simp add: is_eq pieces_def nth_append)
  qed
  moreover have "queue_inv syms' s q2 ?is"
    if q1: "offered syms' (sym_prev (syms' ! ?l)) (int ?l) (remove1 b q) q1"
      and q2: "offered syms' (int ?l) (sym_next (syms' ! ?l)) q1 q2" for q1 q2
  proof -
    have sub: "set (remove1 b q) \<subseteq> set q1" "set q1 \<subseteq> set q2" using q1 q2 offered_set(1) by blast+
    have "entry_ok syms' s c" if "c \<in> set q2" for c
    proof -
      from that offered_set(3) [OF q2 that] offered_set(3) [OF q1, of c] consider
        "c \<in> set (remove1 b q)"
        | "sym_prev (syms' ! ?l) \<noteq> -1" "candidate syms' (nat (sym_prev (syms' ! ?l))) ?l c"
        | "sym_next (syms' ! ?l) \<noteq> -1" "candidate syms' ?l (nat (sym_next (syms' ! ?l))) c" by auto
      then show ?thesis
      proof cases
        case 1
        then have "c \<in> set q" by (metis notin_set_remove1)
        then show ?thesis using inv entry_ok_merge [OF chain' m] by (simp add: queue_inv_def)
      qed (use candidate_entry [OF eff(1)] prev "next" in blast)+
    qed
    moreover have "queued syms' q2 i j" if "neighbours ?is i j" for i j
    proof -
      from neighbours_merged [OF that, of ?r] consider
        "xs \<noteq> []" "i = last xs" "j = ?l" | js where "i = ?l" "ys = j # js"
        | "neighbours is i j" "i \<in> set xs \<and> j \<in> set xs \<or> i \<in> set ys \<and> j \<in> set ys"
        unfolding is_eq by blast
      then show ?thesis
      proof cases
        case 1
        then have "queued syms' q1 i j" using offered_set(2) [OF q1] links by (simp add: last_or_def)
        then show ?thesis by (rule queued_mono) (rule sub)
      next
        case 2
        then show ?thesis using offered_set(2) [OF q2] links by simp
      next
        case 3
        with d have ij: "i \<noteq> ?l" "i \<noteq> ?r" "j \<noteq> ?l" "j \<noteq> ?r" by auto
        have "queued syms q i j" using inv 3 by (simp add: queue_inv_def)
        moreover have "candidate syms' i j c \<longleftrightarrow> candidate syms i j c" for c
          using ij by (simp add: candidate_def piece_other eff)
        moreover have "c \<noteq> b" if "candidate syms i j c" for c
          using that ij by (auto simp: candidate_def)
        ultimately have "queued syms' (remove1 b q) i j"
          using ij by (auto simp: queued_def piece_other)
        then show ?thesis by (rule queued_mono) (use sub in blast)
      qed
    qed
    ultimately show ?thesis using eff(1) by (simp add: queue_inv_def)
  qed
  ultimately show ?thesis using that [OF m eff(1)] links prev "next" by blast
qed

lemma empty_queue_done:
  assumes "queue_inv syms s [] is"
  shows "greedy rank (pieces syms is) = pieces syms is"
proof -
  have "rank (piece (syms ! (is ! j))) (piece (syms ! (is ! Suc j))) = None" if "Suc j < length is" for j
  proof -
    from that have "neighbours is (is ! j) (is ! Suc j)" by (auto simp: neighbours_nth)
    with assms show ?thesis by (auto simp: queue_inv_def queued_def)
  qed
  then have "set (pair_ranks rank (pieces syms is)) \<subseteq> {None}"
    by (auto simp: pair_ranks_def pieces_def in_set_conv_nth nth_tl)
  then have "best (pair_ranks rank (pieces syms is)) = None" by (simp only: best_None_iff)
  then show ?thesis by (simp add: greedy.simps)
qed


text \<open>The queue is right once every pair of neighbours of a freshly split text has been offered.\<close>

lemma seed_inv:
  assumes chain: "live_chain syms s [0..<length syms]"
    and sound: "\<And>b. b \<in> set q \<Longrightarrow> \<exists>i. Suc i < length syms \<and> candidate syms i (Suc i) b"
    and all: "\<And>i. Suc i < length syms \<Longrightarrow> queued syms q i (Suc i)"
  shows "queue_inv syms s q [0..<length syms]"
proof -
  have nb: "neighbours [0..<length syms] l r \<longleftrightarrow> r = Suc l \<and> Suc l < length syms" for l r
    by (auto simp: neighbours_nth)
  have "entry_ok syms s b" if "b \<in> set q" for b
    using sound [OF that] candidate_entry [OF chain] nb by blast
  with chain all show ?thesis by (auto simp: queue_inv_def nb)
qed

end

section \<open>The work loop\<close>

text \<open>
  A tokenizer's state has the symbols and the queue; the loop pops the top candidate, ignores it
  when it is stale, and otherwise merges its symbols and offers the two new pairs of neighbours.
  \<open>good\<close> is what else it keeps of its state, \<open>text_ok\<close> what it needs of the text.
\<close>

locale merge_tokenizer = merge_queue rank left right bsize prio before tag_ok fresh
  for rank :: "byte list \<Rightarrow> byte list \<Rightarrow> 'p::linorder option"
    and left right bsize :: "'b \<Rightarrow> nat" and prio :: "'b \<Rightarrow> 'p"
    and before :: "'b \<Rightarrow> 'b \<Rightarrow> bool" and tag_ok :: "byte list \<Rightarrow> 'b \<Rightarrow> bool"
    and fresh :: "llm_symbol list \<Rightarrow> 'b \<Rightarrow> bool" +
  fixes symbols :: "'st \<Rightarrow> llm_symbol list" and queue :: "'st \<Rightarrow> 'b list"
    and with_symbols :: "llm_symbol list \<Rightarrow> 'st \<Rightarrow> 'st" and with_queue :: "'b list \<Rightarrow> 'st \<Rightarrow> 'st"
    and good :: "'st \<Rightarrow> bool" and text_ok :: "byte list \<Rightarrow> bool"
    and try_add :: "int \<Rightarrow> int \<Rightarrow> 'st \<Rightarrow> 'st res" and step :: "'b \<Rightarrow> 'st \<Rightarrow> 'st res"
    and loop :: "'st \<Rightarrow> 'st res" and tie :: "'b list \<Rightarrow> nat"
  assumes with_simps: "symbols (with_symbols y st) = y" "queue (with_symbols y st) = queue st"
      "symbols (with_queue q st) = symbols st" "queue (with_queue q st) = q"
    and good_with: "good st \<Longrightarrow> good (with_symbols y st)" "good st \<Longrightarrow> good (with_queue q st)"
    and offers: "text_ok s \<Longrightarrow> good st \<Longrightarrow> live_chain (symbols st) s is \<Longrightarrow>
      (i \<noteq> -1 \<Longrightarrow> j \<noteq> -1 \<Longrightarrow> 0 \<le> i \<and> 0 \<le> j \<and> neighbours is (nat i) (nat j)) \<Longrightarrow>
      \<exists>st'. try_add i j st = Inr st' \<and> symbols st' = symbols st \<and> good st'
        \<and> offered (symbols st) i j (queue st) (queue st')"
    and step_eq: "left b < length (symbols st) \<Longrightarrow> right b < length (symbols st) \<Longrightarrow>
      step b st = (if \<not> fresh (symbols st) b then Inr st
        else bindE (merge_symbols (symbols st) (left b) (right b)) (\<lambda>y.
          bindE (try_add (sym_prev (y ! left b)) (int (left b)) (with_symbols y st))
            (try_add (int (left b)) (sym_next (y ! left b)))))"
    and loop_eq: "loop st = (if queue st = [] then Inr st
      else case step (pq_top before tie (queue st)) (with_queue (pq_pop before tie (queue st)) st) of
          Inl e \<Rightarrow> Inl e
        | Inr st' \<Rightarrow> loop st')"
begin

lemma step_inv:
  assumes ok: "text_ok s" "good st" and inv: "queue_inv (symbols st) s (queue st) is"
    and ne: "queue st \<noteq> []" and b: "b = pq_top before tie (queue st)"
    and st: "st0 = with_queue (pq_pop before tie (queue st)) st"
  obtains st' "is'" where "step b st0 = Inr st'" "good st'" "queue_inv (symbols st') s (queue st') is'"
    "greedy rank (pieces (symbols st) is) = greedy rank (pieces (symbols st') is')"
    "symbols st' = symbols st \<and> length (queue st') < length (queue st)
      \<or> live_count (symbols st') < live_count (symbols st)"
proof -
  let ?y = "symbols st" and ?q = "queue st"
  have max: "b \<in> set ?q" "\<And>c. c \<in> set ?q \<Longrightarrow> \<not> before b c"
    using ne by (simp_all add: b pq_top_in pq_top_max)
  from inv max(1) have "entry_ok ?y s b" and chain: "live_chain ?y s is" by (auto simp: queue_inv_def)
  then have bounds: "left b < length ?y" "right b < length ?y" by (auto simp: entry_ok_def)
  have st0: "symbols st0 = ?y" "queue st0 = remove1 b ?q" "good st0"
    using ok by (simp_all add: st with_simps good_with pq_pop_def b)
  have len: "length (remove1 b ?q) < length ?q"
    using pq_pop_length [OF ne, of before tie] by (simp add: pq_pop_def b)
  show ?thesis
  proof (cases "fresh ?y b")
    case False
    then have "step b st0 = Inr st0" using bounds st0 by (simp add: step_eq)
    moreover have "queue_inv (symbols st0) s (queue st0) is"
      using skip_inv [OF inv max(1) False] st0 by simp
    ultimately show ?thesis using that [of st0 "is"] st0 len by simp
  next
    case True
    obtain y "is'" where m: "merge_symbols ?y (left b) (right b) = Inr y"
      and chain': "live_chain y s is'" and "left b < length y"
      and prev: "\<And>i. i = sym_prev (y ! left b) \<Longrightarrow> i \<noteq> -1 \<Longrightarrow> 0 \<le> i \<and> neighbours is' (nat i) (left b)"
      and nxt: "\<And>i. i = sym_next (y ! left b) \<Longrightarrow> i \<noteq> -1 \<Longrightarrow> 0 \<le> i \<and> neighbours is' (left b) (nat i)"
      and g: "greedy rank (pieces ?y is) = greedy rank (pieces y is')"
      and inv': "\<And>q1 q2. offered y (sym_prev (y ! left b)) (int (left b)) (remove1 b ?q) q1 \<Longrightarrow>
        offered y (int (left b)) (sym_next (y ! left b)) q1 q2 \<Longrightarrow> queue_inv y s q2 is'"
      using merge_inv [OF inv max True] by blast
    obtain st1 where st1: "try_add (sym_prev (y ! left b)) (int (left b)) (with_symbols y st0) = Inr st1"
      "symbols st1 = y" "good st1" "offered y (sym_prev (y ! left b)) (int (left b)) (remove1 b ?q) (queue st1)"
      using offers [of s "with_symbols y st0" "is'" "sym_prev (y ! left b)" "int (left b)"]
        ok(1) st0 chain' prev by (auto simp: with_simps good_with)
    obtain st2 where st2: "try_add (int (left b)) (sym_next (y ! left b)) st1 = Inr st2"
      "symbols st2 = y" "good st2" "offered y (int (left b)) (sym_next (y ! left b)) (queue st1) (queue st2)"
      using offers [of s st1 "is'" "int (left b)" "sym_next (y ! left b)"] ok(1) st1 chain' nxt by auto
    have "step b st0 = Inr st2" using bounds st0 True m st1(1) st2(1) by (simp add: step_eq)
    moreover have "queue_inv (symbols st2) s (queue st2) is'" using inv' [OF st1(4) st2(4)] st2(2) by simp
    moreover have "live_count y < live_count ?y"
    proof (rule merge_symbols_live [OF m])
      have "neighbours is (left b) (right b)"
        using fresh_entry [OF chain] inv max(1) True by (auto simp: queue_inv_def)
      from neighbours_offset [OF chain this] show "sym_n (?y ! left b) > 0" "sym_n (?y ! right b) > 0"
        by blast+
    qed
    ultimately show ?thesis using that [of st2 "is'"] st2 g by simp
  qed
qed

lemma loop_greedy:
  assumes "text_ok s" "good st" "queue_inv (symbols st) s (queue st) is"
  shows "\<exists>st' is'. loop st = Inr st' \<and> good st' \<and> live_chain (symbols st') s is'
    \<and> pieces (symbols st') is' = greedy rank (pieces (symbols st) is)"
  using assms
proof (induction "(live_count (symbols st), length (queue st))" arbitrary: st "is"
    rule: wf_induct_rule [OF wf_lex_prod [OF wf_less wf_less], case_names less])
  case less
  show ?case
  proof (cases "queue st = []")
    case True
    with less empty_queue_done [of "symbols st" s "is"] show ?thesis
      by (subst loop_eq) (auto simp: queue_inv_def)
  next
    case False
    obtain st' "is'" where st': "step (pq_top before tie (queue st))
        (with_queue (pq_pop before tie (queue st)) st) = Inr st'"
      "good st'" "queue_inv (symbols st') s (queue st') is'"
      and g: "greedy rank (pieces (symbols st) is) = greedy rank (pieces (symbols st') is')"
      and lt: "symbols st' = symbols st \<and> length (queue st') < length (queue st)
        \<or> live_count (symbols st') < live_count (symbols st)"
      by (rule step_inv [OF less.prems False refl refl])
    from lt have "((live_count (symbols st'), length (queue st')),
        (live_count (symbols st), length (queue st))) \<in> {(x, y). x < y} <*lex*> {(x, y). x < y}" by auto
    from less.hyps [OF this less.prems(1) st'(2,3)] st'(1) g False show ?thesis
      by (subst loop_eq) auto
  qed
qed

text \<open>Before the loop every two neighbouring characters are offered.\<close>

lemma seed_queue:
  assumes ok: "text_ok s" "good st" and st: "symbols st = syms" "queue st = []"
    and chain: "live_chain syms s [0..<length syms]"
  shows "\<exists>st'. foldE (\<lambda>i. try_add (int i - 1) (int i)) [1..<length syms] st = Inr st'
    \<and> symbols st' = syms \<and> good st' \<and> queue_inv syms s (queue st') [0..<length syms]"
proof -
  have "\<exists>st'. foldE (\<lambda>i. try_add (int i - 1) (int i)) [1..<k] st = Inr st'
      \<and> symbols st' = syms \<and> good st'
      \<and> (\<forall>b\<in>set (queue st'). \<exists>i. Suc i < k \<and> candidate syms i (Suc i) b)
      \<and> (\<forall>i. Suc i < k \<longrightarrow> queued syms (queue st') i (Suc i))" if "k \<le> length syms" for k
    using that
  proof (induction k)
    case 0
    with ok st show ?case by simp
  next
    case (Suc k)
    then obtain st1 where st1: "foldE (\<lambda>i. try_add (int i - 1) (int i)) [1..<k] st = Inr st1"
      "symbols st1 = syms" "good st1"
      and q: "\<And>b. b \<in> set (queue st1) \<Longrightarrow> \<exists>i. Suc i < k \<and> candidate syms i (Suc i) b"
        "\<And>i. Suc i < k \<Longrightarrow> queued syms (queue st1) i (Suc i)" by auto
    show ?case
    proof (cases k)
      case 0
      with st1 q st show ?thesis by auto
    next
      case (Suc j)
      have "neighbours [0..<length syms] j k"
        using Suc Suc.prems unfolding neighbours_nth by (intro exI [of _ j]) auto
      then obtain st2 where st2: "try_add (int j) (int k) st1 = Inr st2"
        "symbols st2 = syms" "good st2" "offered syms (int j) (int k) (queue st1) (queue st2)"
        using offers [of s st1 "[0..<length syms]" "int j" "int k"] ok(1) chain st1 by auto
      have "\<exists>i. Suc i < Suc k \<and> candidate syms i (Suc i) b" if "b \<in> set (queue st2)" for b
        using offered_set(3) [OF st2(4) that] q(1) [of b] Suc
        by (auto simp: nat_add_distrib intro: less_SucI)
      moreover have "queued syms (queue st2) i (Suc i)" if "Suc i < Suc k" for i
      proof (cases "Suc i = k")
        case True
        with offered_set(2) [OF st2(4)] Suc show ?thesis by (simp add: nat_add_distrib)
      next
        case False
        with that have "Suc i < k" by simp
        from q(2) [OF this] offered_set(1) [OF st2(4)] show ?thesis by (rule queued_mono)
      qed
      moreover have "foldE (\<lambda>i. try_add (int i - 1) (int i)) [1..<Suc k] st = Inr st2"
        using st1(1) st2(1) Suc by (simp add: foldE_append)
      ultimately show ?thesis using st2 by blast
    qed
  qed
  from this [of "length syms"] show ?thesis using seed_inv [OF chain] by blast
qed

text \<open>Seeding and looping over the characters of a text leaves their greedy merge.\<close>

lemma tokenizer_greedy:
  assumes "text_ok s" "good st" "symbols st = syms" "queue st = []"
    and chain: "live_chain syms s [0..<length syms]"
  shows "\<exists>st1 st' is'. foldE (\<lambda>i. try_add (int i - 1) (int i)) [1..<length syms] st = Inr st1
    \<and> loop st1 = Inr st' \<and> good st' \<and> live_chain (symbols st') s is'
    \<and> pieces (symbols st') is' = greedy rank (map piece syms)"
proof -
  from seed_queue [OF assms] obtain st1 where
    "foldE (\<lambda>i. try_add (int i - 1) (int i)) [1..<length syms] st = Inr st1"
    "symbols st1 = syms" "good st1" "queue_inv syms s (queue st1) [0..<length syms]" by blast
  with loop_greedy [OF assms(1), of st1 "[0..<length syms]"] pieces_all [of syms] show ?thesis by auto
qed

end

end
