(* ===== verification/ByteEncoding.thy ===== *)
theory ByteEncoding
  imports Vocab
begin

text \<open>
  How bytes become tokens: the byte-level alphabet of the BPE vocabularies (the tables of
  \<open>src/src/unicode.cpp\<close> that give each byte a printable code point), its inverse, and the byte tokens
  of the other vocabularies (\<open>llama_byte_to_token_impl\<close>, \<open>llama_token_to_byte\<close>).
\<close>

section \<open>The two tables\<close>

text \<open>The bytes that stand for themselves; the others are numbered from 256 in order.\<close>

definition byte_ranges :: "nat list" where
  "byte_ranges = [0x21..<0x7F] @ [0xA1..<0xAD] @ [0xAE..<0x100]"

definition self_step :: "nat \<Rightarrow> (byte \<Rightarrow> byte list option) \<Rightarrow> (byte \<Rightarrow> byte list option) res" where
  "self_step c m = bindE (unicode_cpt_to_utf8 (of_nat c)) (\<lambda>u. Inr (m(of_nat c \<mapsto> u)))"

fun rest_step ::
  "nat \<Rightarrow> (byte \<Rightarrow> byte list option) \<times> nat \<Rightarrow> ((byte \<Rightarrow> byte list option) \<times> nat) res" where
  "rest_step c (m, n) =
    (if m (of_nat c) = None then
       bindE (unicode_cpt_to_utf8 (of_nat (256 + n))) (\<lambda>u. Inr (m(of_nat c \<mapsto> u), n + 1))
     else Inr (m, n))"

definition unicode_byte_to_utf8_map :: "(byte \<Rightarrow> byte list option) res" where
  "unicode_byte_to_utf8_map =
    bindE (foldE self_step byte_ranges Map.empty)
      (\<lambda>m. bindE (foldE rest_step [0..<256] (m, 0)) (\<lambda>(m, n). Inr m))"

definition self_step' :: "nat \<Rightarrow> (byte list \<Rightarrow> byte option) \<Rightarrow> (byte list \<Rightarrow> byte option) res" where
  "self_step' c m = bindE (unicode_cpt_to_utf8 (of_nat c)) (\<lambda>u. Inr (m(u \<mapsto> of_nat c)))"

fun rest_step' ::
  "nat \<Rightarrow> (byte list \<Rightarrow> byte option) \<times> nat \<Rightarrow> ((byte list \<Rightarrow> byte option) \<times> nat) res" where
  "rest_step' c (m, n) =
    bindE (unicode_cpt_to_utf8 (of_nat c)) (\<lambda>k.
      if m k = None then
        bindE (unicode_cpt_to_utf8 (of_nat (256 + n))) (\<lambda>u. Inr (m(u \<mapsto> of_nat c), n + 1))
      else Inr (m, n))"

definition unicode_utf8_to_byte_map :: "(byte list \<Rightarrow> byte option) res" where
  "unicode_utf8_to_byte_map =
    bindE (foldE self_step' byte_ranges Map.empty)
      (\<lambda>m. bindE (foldE rest_step' [0..<256] (m, 0)) (\<lambda>(m, n). Inr m))"

text \<open>\<open>map.at(key)\<close>: a missing key throws.\<close>

definition map_at :: "('a \<Rightarrow> 'b option) \<Rightarrow> 'a \<Rightarrow> 'b res" where
  "map_at m k = (case m k of None \<Rightarrow> Inl (OutOfRange ''at'') | Some v \<Rightarrow> Inr v)"

definition unicode_byte_to_utf8 :: "byte \<Rightarrow> byte list res" where
  "unicode_byte_to_utf8 b = bindE unicode_byte_to_utf8_map (\<lambda>m. map_at m b)"

definition unicode_utf8_to_byte :: "byte list \<Rightarrow> byte res" where
  "unicode_utf8_to_byte s = bindE unicode_utf8_to_byte_map (\<lambda>m. map_at m s)"

text \<open>\<open>unicode_byte_encoding_process\<close>: each word is decoded, encoded again, and spelt byte by byte.\<close>

definition encode_word :: "byte list \<Rightarrow> byte list res" where
  "encode_word word =
    bindE (unicode_cpts_from_utf8 word) (\<lambda>cpts.
    bindE (mapE unicode_cpt_to_utf8 cpts) (\<lambda>us.
    bindE (mapE unicode_byte_to_utf8 (concat us)) (\<lambda>bs. Inr (concat bs))))"

definition unicode_byte_encoding_process :: "byte list list \<Rightarrow> byte list list res" where
  "unicode_byte_encoding_process words = mapE encode_word words"

text \<open>
  \<open>llama_decode_text\<close>: the inverse; a character that spells no byte is written out in brackets,
  followed by the whole token text.
\<close>

definition hex_char :: "nat \<Rightarrow> byte" where
  "hex_char n = bytes ''0123456789abcdef'' ! n"

definition hex02 :: "byte \<Rightarrow> byte list" where
  "hex02 c = [hex_char (unat c div 16), hex_char (unat c mod 16)]"

definition decode_cpt :: "byte list \<Rightarrow> u32 \<Rightarrow> byte list res" where
  "decode_cpt txt cpt =
    bindE (unicode_cpt_to_utf8 cpt) (\<lambda>utf8.
      case unicode_utf8_to_byte utf8 of
        Inr b \<Rightarrow> Inr [b]
      | Inl (OutOfRange _) \<Rightarrow>
          Inr (bytes ''[UNK_BYTE_0x'' @ concat (map hex02 utf8) @ txt @ bytes '']'')
      | Inl e \<Rightarrow> Inl e)"

definition llama_decode_text :: "byte list \<Rightarrow> byte list res" where
  "llama_decode_text txt =
    bindE (unicode_cpts_from_utf8 txt) (\<lambda>cpts.
    bindE (mapE (decode_cpt txt) cpts) (\<lambda>ps. Inr (concat ps)))"

section \<open>What the tables hold\<close>

definition byte_rank :: "nat \<Rightarrow> nat" where
  "byte_rank k = length (filter (\<lambda>c. c \<notin> set byte_ranges) [0..<k])"

definition byte_cpt :: "byte \<Rightarrow> nat" where
  "byte_cpt b = (if unat b \<in> set byte_ranges then unat b else 256 + byte_rank (unat b))"

definition cpt_text :: "nat \<Rightarrow> byte list" where
  "cpt_text n = projr (unicode_cpt_to_utf8 (of_nat n))"

lemma byte_ranges_less: "c \<in> set byte_ranges \<Longrightarrow> c < 256"
  by (auto simp: byte_ranges_def)

lemma byte_rank_le: "byte_rank k \<le> k"
  unfolding byte_rank_def by (metis diff_zero length_filter_le length_upt)

lemma byte_rank_Suc: "byte_rank (Suc k) = byte_rank k + (if k \<in> set byte_ranges then 0 else 1)"
  by (simp add: byte_rank_def)

lemma byte_rank_mono: "j \<le> k \<Longrightarrow> byte_rank j \<le> byte_rank k"
  by (induction k) (auto simp: byte_rank_Suc le_Suc_eq)

lemma byte_rank_strict: "j < k \<Longrightarrow> j \<notin> set byte_ranges \<Longrightarrow> byte_rank j < byte_rank k"
  using byte_rank_mono [of "Suc j" k] by (simp add: byte_rank_Suc)

lemma byte_less [simp]: "unat (b :: byte) < 256"
proof -
  have "unat b < 2 ^ LENGTH(8)" by (rule unsigned_less)
  then show ?thesis by simp
qed

lemma byte_cpt_less: "byte_cpt b < 512"
  using byte_rank_le [of "unat b"] byte_less [of b] by (simp add: byte_cpt_def del: byte_less)

lemma byte_cpt_inj: "byte_cpt b = byte_cpt b' \<longleftrightarrow> b = b'"
proof
  assume eq: "byte_cpt b = byte_cpt b'"
  have "unat b = unat b'"
  proof (rule ccontr)
    assume ne: "unat b \<noteq> unat b'"
    from eq ne byte_less [of b] byte_less [of b'] have "unat b \<notin> set byte_ranges" "unat b' \<notin> set byte_ranges"
      "byte_rank (unat b) = byte_rank (unat b')"
      by (simp_all add: byte_cpt_def del: byte_less split: if_splits)
    with ne byte_rank_strict [of "unat b" "unat b'"] byte_rank_strict [of "unat b'" "unat b"]
    show False by linarith
  qed
  then show "b = b'" by (simp add: word_unat_eq_iff)
qed simp

lemma cpt_text_small: "n < 512 \<Longrightarrow> unicode_cpt_to_utf8 (of_nat n) = Inr (cpt_text n)"
proof -
  assume "n < 512"
  then have "valid_cpt (of_nat n)"
    by (simp add: valid_cpt_def word_le_nat_alt unat_of_nat_u32)
  then show ?thesis using unicode_cpt_to_utf8_valid by (force simp: cpt_text_def)
qed

lemma cpt_text_inj:
  assumes "m < 512" "n < 512"
  shows "cpt_text m = cpt_text n \<longleftrightarrow> m = n"
proof
  assume "cpt_text m = cpt_text n"
  with decode_encode_at [OF cpt_text_small [OF assms(1)], of "[]" "[]"]
    decode_encode_at [OF cpt_text_small [OF assms(2)], of "[]" "[]"]
  have "(of_nat m :: u32) = of_nat n" by (metis Inr_inject prod.inject)
  with assms show "m = n" by (simp add: of_nat_u32_inj)
qed simp

lemma cpt_text_utf8: "n < 512 \<Longrightarrow> unicode_cpts_from_utf8 (cpt_text n) = Inr [of_nat n]"
  using cpts_loop_encode [of "[of_nat n]" "[cpt_text n]" "[]"]
  by (simp add: cpt_text_small unicode_cpts_from_utf8_def)

abbreviation byte_text :: "byte \<Rightarrow> byte list" where
  "byte_text b \<equiv> cpt_text (byte_cpt b)"

lemma byte_text_inj: "byte_text b = byte_text b' \<longleftrightarrow> b = b'"
  by (simp add: cpt_text_inj byte_cpt_less byte_cpt_inj)

lemma unat_byte_of_nat: "c < 256 \<Longrightarrow> unat (of_nat c :: byte) = c"
  by (simp add: unat_of_nat)

lemma byte_eq_of_nat: "c < 256 \<Longrightarrow> b = (of_nat c :: byte) \<longleftrightarrow> unat b = c"
  by (auto simp: unat_byte_of_nat)

lemma self_steps:
  assumes "set cs \<subseteq> set byte_ranges"
  shows "foldE self_step cs m = Inr (\<lambda>b. if unat b \<in> set cs then Some (byte_text b) else m b)"
  using assms
proof (induction cs arbitrary: m)
  case (Cons c cs)
  then have c: "c \<in> set byte_ranges" "c < 256" using byte_ranges_less by auto
  then have "cpt_text c = byte_text (of_nat c)" by (simp add: byte_cpt_def unat_byte_of_nat)
  with c Cons show ?case
    by (auto simp: self_step_def cpt_text_small byte_eq_of_nat fun_eq_iff unat_byte_of_nat)
qed simp

lemma rest_steps:
  assumes "k \<le> 256"
  shows "foldE rest_step [0..<k] (\<lambda>b. if unat b \<in> set byte_ranges then Some (byte_text b) else None, 0)
    = Inr (\<lambda>b. if unat b < k \<or> unat b \<in> set byte_ranges then Some (byte_text b) else None, byte_rank k)"
  using assms
proof (induction k)
  case (Suc k)
  then have k: "k < 256" by simp
  have "256 + byte_rank k < 512" using byte_rank_le [of k] k by simp
  moreover have "k \<notin> set byte_ranges \<Longrightarrow> 256 + byte_rank k = byte_cpt (of_nat k)"
    using k by (simp add: byte_cpt_def unat_byte_of_nat)
  ultimately show ?case
    using Suc k cpt_text_small [of "256 + byte_rank k"]
    by (auto simp: foldE_append unat_byte_of_nat byte_rank_Suc fun_eq_iff
        byte_eq_of_nat less_Suc_eq simp del: of_nat_add)
qed (simp add: byte_rank_def)

lemma unicode_byte_to_utf8_eq: "unicode_byte_to_utf8 b = Inr (byte_text b)"
  by (simp add: unicode_byte_to_utf8_def unicode_byte_to_utf8_map_def self_steps rest_steps map_at_def)

text \<open>The inverse table: an entry per byte seen so far, and no other.\<close>

definition spells :: "nat set \<Rightarrow> (byte list \<Rightarrow> byte option) \<Rightarrow> bool" where
  "spells A m \<longleftrightarrow> (\<forall>s b. m s = Some b \<longleftrightarrow> unat b \<in> A \<and> s = byte_text b)"

lemma spells_update:
  "spells A m \<Longrightarrow> c < 256 \<Longrightarrow> s = byte_text (of_nat c) \<Longrightarrow> spells (insert c A) (m(s \<mapsto> of_nat c))"
  unfolding spells_def by (auto simp: byte_text_inj unat_byte_of_nat byte_eq_of_nat)

lemma self_steps':
  assumes "set cs \<subseteq> set byte_ranges" "spells A m"
  shows "\<exists>m'. foldE self_step' cs m = Inr m' \<and> spells (A \<union> set cs) m'"
  using assms
proof (induction cs arbitrary: A m)
  case (Cons c cs)
  then have c: "c \<in> set byte_ranges" "c < 256" using byte_ranges_less by auto
  then have "cpt_text c = byte_text (of_nat c)" by (simp add: byte_cpt_def unat_byte_of_nat)
  with c Cons.prems have "spells (insert c A) (m(cpt_text c \<mapsto> of_nat c))"
    by (intro spells_update) auto
  then have "\<exists>m'. foldE self_step' cs (m(cpt_text c \<mapsto> of_nat c)) = Inr m'
      \<and> spells (insert c A \<union> set cs) m'"
    by (rule Cons.IH [rotated]) (use Cons.prems in auto)
  moreover have "self_step' c m = Inr (m(cpt_text c \<mapsto> of_nat c))"
    using c by (simp add: self_step'_def cpt_text_small)
  ultimately show ?case by (simp only: foldE.simps bindE_simps list.set Un_insert_left Un_insert_right)
qed simp

lemma rest_steps':
  assumes "k \<le> 256" "spells (set byte_ranges) m"
  shows "\<exists>m'. foldE rest_step' [0..<k] (m, 0) = Inr (m', byte_rank k)
    \<and> spells ({..<k} \<union> set byte_ranges) m'"
  using assms(1)
proof (induction k)
  case (Suc k)
  then obtain m' where m': "foldE rest_step' [0..<k] (m, 0) = Inr (m', byte_rank k)"
    "spells ({..<k} \<union> set byte_ranges) m'" and k: "k < 256" by auto
  have seen: "m' (cpt_text k) = None \<longleftrightarrow> k \<notin> set byte_ranges"
  proof (cases "k \<in> set byte_ranges")
    case True
    then have "cpt_text k = byte_text (of_nat k)" using k by (simp add: byte_cpt_def unat_byte_of_nat)
    then have "m' (cpt_text k) = Some (of_nat k)"
      using True m'(2) k by (simp add: spells_def unat_byte_of_nat)
    with True show ?thesis by simp
  next
    case False
    have "m' (cpt_text k) \<noteq> Some b" for b
    proof
      assume "m' (cpt_text k) = Some b"
      then have "cpt_text k = byte_text b" using m'(2) by (simp add: spells_def)
      then have "byte_cpt b = k" using k byte_cpt_less [of b] by (simp add: cpt_text_inj)
      with False k show False by (auto simp: byte_cpt_def split: if_splits)
    qed
    with False show ?thesis by auto
  qed
  have small: "256 + byte_rank k < 512" using byte_rank_le [of k] k by simp
  show ?case
  proof (cases "k \<in> set byte_ranges")
    case True
    then have "{..<Suc k} \<union> set byte_ranges = {..<k} \<union> set byte_ranges" by (auto simp: less_Suc_eq)
    with True m' seen k show ?thesis
      by (auto simp: foldE_append cpt_text_small byte_rank_Suc)
  next
    case False
    then have "cpt_text (256 + byte_rank k) = byte_text (of_nat k)"
      using k by (simp add: byte_cpt_def unat_byte_of_nat)
    then have "spells (insert k ({..<k} \<union> set byte_ranges))
        (m'(cpt_text (256 + byte_rank k) \<mapsto> of_nat k))"
      using m'(2) k by (intro spells_update) auto
    moreover have "insert k ({..<k} \<union> set byte_ranges) = {..<Suc k} \<union> set byte_ranges" by auto
    ultimately show ?thesis
      using False m' seen k cpt_text_small [OF small]
      by (simp add: foldE_append cpt_text_small [of k] byte_rank_Suc del: of_nat_add)
  qed
qed (use assms(2) in \<open>simp add: byte_rank_def\<close>)

lemma unicode_utf8_to_byte_text: "unicode_utf8_to_byte (byte_text b) = Inr b"
proof -
  have "spells {} Map.empty" by (simp add: spells_def)
  then obtain m where m: "foldE self_step' byte_ranges Map.empty = Inr m" "spells (set byte_ranges) m"
    using self_steps' [of byte_ranges "{}" Map.empty] by auto
  then obtain m' where "foldE rest_step' [0..<256] (m, 0) = Inr (m', byte_rank 256)"
    "spells ({..<256} \<union> set byte_ranges) m'"
    using rest_steps' [of 256 m] by blast
  moreover from this(2) have "m' (byte_text b) = Some b" by (simp add: spells_def)
  ultimately show ?thesis
    using m(1) by (simp add: unicode_utf8_to_byte_def unicode_utf8_to_byte_map_def map_at_def)
qed

lemma decode_byte_texts: "llama_decode_text (concat (map byte_text bs)) = Inr bs"
proof -
  have "mapE unicode_cpt_to_utf8 (map (of_nat \<circ> byte_cpt) bs) = Inr (map byte_text bs)"
    by (induction bs) (simp_all add: cpt_text_small byte_cpt_less)
  then have "unicode_cpts_from_utf8 (concat (map byte_text bs)) = Inr (map (of_nat \<circ> byte_cpt) bs)"
    using cpts_loop_encode [of _ _ "[]"] by (simp add: unicode_cpts_from_utf8_def)
  moreover have "mapE (decode_cpt w) (map (of_nat \<circ> byte_cpt) bs) = Inr (map (\<lambda>b. [b]) bs)" for w
    by (induction bs)
       (simp_all add: decode_cpt_def cpt_text_small byte_cpt_less unicode_utf8_to_byte_text)
  ultimately show ?thesis by (simp add: llama_decode_text_def)
qed

text \<open>No byte of a spelling is a control character or a space.\<close>

lemma byte_text_printable: "c \<in> set (byte_text b) \<Longrightarrow> c \<ge> 0x21"
proof -
  assume c: "c \<in> set (byte_text b)"
  have n: "0x21 \<le> byte_cpt b" "byte_cpt b < 512"
    using byte_cpt_less [of b] by (auto simp: byte_cpt_def byte_ranges_def)
  then have u: "unat (of_nat (byte_cpt b) :: u32) = byte_cpt b" by (simp add: unat_of_nat_u32)
  have high: "(0x80 :: byte) \<le> ucast (0xc0 OR (x :: u32))" "(0x80 :: byte) \<le> ucast (0x80 OR x)" for x
  proof -
    have bit: "bit (ucast (0xc0 OR x) :: byte) 7" "bit (ucast (0x80 OR x) :: byte) 7"
      unfolding exp_numerals by (simp_all add: bit_field)
    have "0x80 \<le> w" if "bit w 7" for w :: byte
    proof -
      from that have "bit (unat w) 7" by (simp add: bit_unsigned_iff)
      then have "odd (unat w div 128)" by (simp add: bit_iff_odd)
      then have "unat w div 128 \<noteq> 0" by (metis even_zero)
      then have "128 \<le> unat w" by (simp add: div_eq_0_iff not_less)
      then show ?thesis by (simp add: word_le_nat_alt)
    qed
    with bit show "(0x80 :: byte) \<le> ucast (0xc0 OR x)" "(0x80 :: byte) \<le> ucast (0x80 OR x)" by auto
  qed
  show "c \<ge> 0x21"
  proof (cases "byte_cpt b \<le> 0x7f")
    case True
    then have "(of_nat (byte_cpt b) :: u32) \<le> 0x7f" by (simp add: word_le_nat_alt u)
    then have "cpt_text (byte_cpt b) = [ucast (of_nat (byte_cpt b) :: u32)]"
      by (simp add: cpt_text_def unicode_cpt_to_utf8_def)
    with c have "c = ucast (of_nat (byte_cpt b) :: u32)" by simp
    then have "unat c = take_bit 8 (unat (of_nat (byte_cpt b) :: u32))"
      by (simp add: unsigned_ucast_eq)
    also have "\<dots> = byte_cpt b" unfolding u using True by (simp add: take_bit_nat_eq_self)
    finally show ?thesis using n by (simp add: word_le_nat_alt)
  next
    case False
    with n have "cpt_text (byte_cpt b)
        = [ucast (0xc0 OR (drop_bit 6 (of_nat (byte_cpt b) :: u32) AND 0x1f)),
           ucast (0x80 OR ((of_nat (byte_cpt b) :: u32) AND 0x3f))]"
      by (simp add: cpt_text_def unicode_cpt_to_utf8_def word_le_nat_alt u)
    with c high have "c \<ge> 0x80" by auto
    then show ?thesis by (simp add: word_le_nat_alt)
  qed
qed

lemma mapE_byte_text: "mapE unicode_byte_to_utf8 bs = Inr (map byte_text bs)"
  by (intro mapE_Inr_map unicode_byte_to_utf8_eq)

text \<open>
  A word of code points up to U+10FFFF is spelt in the byte alphabet without an exception, with
  no space or control byte in the spelling, and decoding the spelling gives the word back.
\<close>

theorem byte_level_roundtrip:
  assumes "unicode_cpts_to_utf8 cps = Inr w"
  shows "\<exists>e. encode_word w = Inr e \<and> (\<forall>c. c \<in> set e \<longrightarrow> c \<ge> 0x21) \<and> llama_decode_text e = Inr w"
proof -
  obtain us where us: "mapE unicode_cpt_to_utf8 cps = Inr us" and w: "w = concat us"
    using assms by (auto simp: unicode_cpts_to_utf8_def bindE_Inr_iff)
  then have "unicode_cpts_from_utf8 w = Inr cps"
    using cpts_loop_encode [OF us, of "[]"] by (simp add: unicode_cpts_from_utf8_def)
  then have "encode_word w = Inr (concat (map byte_text w))"
    using us w by (simp add: encode_word_def mapE_byte_text)
  moreover have "\<forall>c. c \<in> set (concat (map byte_text w)) \<longrightarrow> c \<ge> 0x21"
    using byte_text_printable by auto
  ultimately show ?thesis using decode_byte_texts by blast
qed

lemma byte_level_roundtrip_witness:
  "\<exists>e. encode_word [0x20, 0xc3, 0xa9] = Inr e \<and> 0x20 \<notin> set e
     \<and> llama_decode_text e = Inr [0x20, 0xc3, 0xa9]"
proof -
  have "unicode_cpts_to_utf8 [0x20, 0xe9] = Inr [0x20, 0xc3, 0xa9]" by code_simp
  from byte_level_roundtrip [OF this] obtain e where
    "encode_word [0x20, 0xc3, 0xa9] = Inr e" "\<forall>c. c \<in> set e \<longrightarrow> c \<ge> 0x21"
    "llama_decode_text e = Inr [0x20, 0xc3, 0xa9]" by blast
  moreover from this(2) have "0x20 \<notin> set e" by (auto simp: word_le_nat_alt)
  ultimately show ?thesis by blast
qed

section \<open>Byte tokens\<close>

definition upper_hex :: "nat \<Rightarrow> byte" where
  "upper_hex n = bytes ''0123456789ABCDEF'' ! n"

definition byte_token_text :: "byte \<Rightarrow> byte list" where
  "byte_token_text c =
     bytes ''<0x'' @ [upper_hex (unat (drop_bit 4 c)), upper_hex (unat (c AND 15))] @ bytes ''>''"

definition llama_byte_to_token_impl :: "'s llama_vocab \<Rightarrow> byte \<Rightarrow> int res" where
  "llama_byte_to_token_impl vocab c =
    (if vocab_type vocab = VOCAB_NONE then Inl (Abort ''vocab type'')
     else if vocab_type vocab = VOCAB_SPM \<or> vocab_type vocab = VOCAB_UGM then
       (case token_to_id vocab (byte_token_text c) of
          Some token \<Rightarrow> Inr token
        | None \<Rightarrow> map_at (token_to_id vocab) (if c = 0 then [] else [c]))
     else bindE (unicode_byte_to_utf8 c) (map_at (token_to_id vocab)))"

text \<open>\<open>strtol(buf, NULL, 16)\<close>; the buffer has two characters, so the value is in range.\<close>

definition is_space :: "byte \<Rightarrow> bool" where
  "is_space c \<longleftrightarrow> c = 0x20 \<or> 9 \<le> c \<and> c \<le> 13"

definition hex_value :: "byte \<Rightarrow> nat option" where
  "hex_value c =
    (if ch CHR ''0'' \<le> c \<and> c \<le> ch CHR ''9'' then Some (unat c - 0x30)
     else if ch CHR ''A'' \<le> c \<and> c \<le> ch CHR ''F'' then Some (unat c - 0x37)
     else if ch CHR ''a'' \<le> c \<and> c \<le> ch CHR ''f'' then Some (unat c - 0x57)
     else None)"

fun hex_digits :: "byte list \<Rightarrow> nat \<Rightarrow> nat" where
  "hex_digits [] v = v"
| "hex_digits (c # s) v = (case hex_value c of None \<Rightarrow> v | Some d \<Rightarrow> hex_digits s (16 * v + d))"

definition strtol16 :: "byte list \<Rightarrow> int" where
  "strtol16 s =
    (let s1 = dropWhile is_space s;
         neg = (s1 \<noteq> [] \<and> hd s1 = ch CHR ''-'');
         s2 = (if s1 \<noteq> [] \<and> (hd s1 = ch CHR ''-'' \<or> hd s1 = ch CHR ''+'') then tl s1 else s1);
         s3 = (if length s2 > 2 \<and> hd s2 = ch CHR ''0'' \<and> s2 ! 1 \<in> {ch CHR ''x'', ch CHR ''X''}
                 \<and> hex_value (s2 ! 2) \<noteq> None then drop 2 s2 else s2)
     in (if neg then - int (hex_digits s3 0) else int (hex_digits s3 0)))"

definition llama_token_to_byte :: "'s llama_vocab \<Rightarrow> int \<Rightarrow> byte res" where
  "llama_token_to_byte vocab tid =
    (if vocab_type vocab = VOCAB_NONE then Inl (Abort ''vocab type'')
     else bindE (llama_is_byte_token vocab tid) (\<lambda>byte_tok.
       if \<not> byte_tok then Inl (Abort ''llama_is_byte_token(vocab, id)'')
       else bindE (token_at vocab tid) (\<lambda>d.
         if vocab_type vocab = VOCAB_SPM \<or> vocab_type vocab = VOCAB_UGM then
           (if length (tok_text d) < 3 then Inl (OutOfRange ''substr'')
            else Inr (word_of_int (strtol16 (take 2 (drop 3 (tok_text d))))))
         else Inl (Abort ''fatal error''))))"

lemma less_16_cases: "n < 16 \<Longrightarrow> n \<in> {0, 1, 2, 3, 4, 5, 6, 7, 8, 9, 10, 11, 12, 13, 14, 15 :: nat}"
  by (simp only: insert_iff empty_iff simp_thms) presburger

lemma hex_value_upper: "n < 16 \<Longrightarrow> hex_value (upper_hex n) = Some n"
  by (drule less_16_cases) (auto simp: hex_value_def upper_hex_def bytes_def word_le_nat_alt)

lemma upper_hex_plain:
  "n < 16 \<Longrightarrow> \<not> is_space (upper_hex n)" "n < 16 \<Longrightarrow> upper_hex n \<noteq> ch CHR ''-''"
  "n < 16 \<Longrightarrow> upper_hex n \<noteq> ch CHR ''+''"
  by (drule less_16_cases; auto simp: is_space_def upper_hex_def bytes_def word_le_nat_alt)+

lemma byte_nibbles:
  "unat (drop_bit 4 (b :: byte)) < 16" "unat (b AND 15) < 16"
  "16 * unat (drop_bit 4 b) + unat (b AND 15) = unat b"
proof -
  have "(15 :: byte) = mask 4" by (simp add: mask_eq_exp_minus_1)
  then have "unat (b AND 15) = unat (take_bit 4 b)" by (simp only: take_bit_eq_mask)
  also have "\<dots> = take_bit 4 (unat b)" by (rule unsigned_take_bit_eq)
  finally have lo: "unat (b AND 15) = unat b mod 16" by (simp add: take_bit_eq_mod)
  have hi: "unat (drop_bit 4 b) = unat b div 16" by (simp only: unat_drop_bit_eq) (simp add: drop_bit_eq_div)
  from byte_less [of b] have "unat b div 16 < 16" by (rule less_mult_imp_div_less [of _ 16 16, simplified])
  with lo hi show "unat (drop_bit 4 b) < 16" "unat (b AND 15) < 16"
    "16 * unat (drop_bit 4 b) + unat (b AND 15) = unat b" by simp_all
qed

lemma byte_token_text_roundtrip:
  assumes "vocab_type vocab = VOCAB_SPM \<or> vocab_type vocab = VOCAB_UGM"
    and "token_to_id vocab (byte_token_text b) = Some token" and "token_at vocab token = Inr d"
    and "tok_text d = byte_token_text b" and "tok_attr d AND ATTR_BYTE \<noteq> 0"
  shows "llama_byte_to_token_impl vocab b = Inr token \<and> llama_token_to_byte vocab token = Inr b"
proof -
  let ?h = "upper_hex (unat (drop_bit 4 b))" and ?l = "upper_hex (unat (b AND 15))"
  have "strtol16 [?h, ?l] = int (unat b)"
    using byte_nibbles [of b] upper_hex_plain [of "unat (drop_bit 4 b)"]
    by (simp add: strtol16_def hex_value_upper)
  moreover have "take 2 (drop 3 (byte_token_text b)) = [?h, ?l]" "length (byte_token_text b) = 6"
    by (simp_all add: byte_token_text_def bytes_def)
  ultimately show ?thesis
    using assms
    by (auto simp: llama_byte_to_token_impl_def llama_token_to_byte_def llama_is_byte_token_def
        token_has_def)
qed

text \<open>
  In a vocabulary whose table holds the byte token \<open><0xHH>\<close> of a byte, the byte is turned into
  that token and the token into that byte.
\<close>

theorem byte_token_roundtrip:
  assumes "vocab_type vocab = VOCAB_SPM \<or> vocab_type vocab = VOCAB_UGM"
    and "token_to_id vocab (byte_token_text b) = Some token" and "token_at vocab token = Inr d"
    and "tok_text d = byte_token_text b" and "tok_attr d AND ATTR_BYTE \<noteq> 0"
  shows "llama_byte_to_token_impl vocab b = Inr token \<and> llama_token_to_byte vocab token = Inr b"
  using byte_token_text_roundtrip [OF assms] .

definition byte_vocab :: "int llama_vocab" where
  "byte_vocab = empty_vocab
     \<lparr>token_to_id := [byte_token_text 0x2f \<mapsto> 0],
      id_to_token := [\<lparr>tok_text = byte_token_text 0x2f, tok_score = 0, tok_attr = ATTR_BYTE\<rparr>]\<rparr>"

lemma byte_token_roundtrip_witness:
  "llama_byte_to_token_impl byte_vocab 0x2f = Inr 0 \<and> llama_token_to_byte byte_vocab 0 = Inr 0x2f"
  by (rule byte_token_roundtrip
        [where d = "\<lparr>tok_text = byte_token_text 0x2f, tok_score = 0, tok_attr = ATTR_BYTE\<rparr>"])
     (simp_all add: byte_vocab_def empty_vocab_def token_at_def valid_id_def ATTR_BYTE_def)

end
