(* ===== verification/SpmTokenizer.thy ===== *)
theory SpmTokenizer
  imports MergeQueue ByteEncoding
begin

text \<open>
  \<open>llm_tokenizer_spm\<close> of \<open>src/src/llama-vocab.cpp\<close>: characters are merged as long as two
  neighbours form a token, the token with the best score first.
\<close>

record 's llm_bigram_spm =
  spm_left :: nat
  spm_right :: nat
  spm_score :: 's
  spm_size :: nat

definition spm_before :: "'s::linorder llm_bigram_spm \<Rightarrow> 's llm_bigram_spm \<Rightarrow> bool" where
  "spm_before l r \<longleftrightarrow> spm_score l < spm_score r \<or> spm_score l = spm_score r \<and> spm_left l > spm_left r"

record 's spm_state =
  spm_symbols :: "llm_symbol list"
  spm_queue :: "'s llm_bigram_spm list"
  rev_merge :: "byte list \<Rightarrow> (int \<times> int) option"

definition spm_try_add_bigram ::
  "'s llama_vocab \<Rightarrow> int \<Rightarrow> int \<Rightarrow> 's spm_state \<Rightarrow> 's spm_state res" where
  "spm_try_add_bigram vocab left right st =
    (if left = -1 \<or> right = -1 then Inr st
     else bindE (sym_at (spm_symbols st) left) (\<lambda>l. bindE (sym_at (spm_symbols st) right) (\<lambda>r.
       let s = take (sym_n l + sym_n r) (sym_text l) in
       case token_to_id vocab s of
         None \<Rightarrow> Inr st
       | Some token \<Rightarrow>
           if \<not> valid_id vocab token then Inr st
           else Inr (st\<lparr>
             spm_queue := spm_queue st @ [\<lparr>spm_left = nat left, spm_right = nat right,
               spm_score = tok_score (id_to_token vocab ! nat token), spm_size = length s\<rparr>],
             rev_merge := (rev_merge st)(s \<mapsto> (left, right))\<rparr>))))"

text \<open>The body of the loop: \<open>spm_stale\<close> is its \<open>continue\<close>.\<close>

definition spm_stale :: "llm_symbol list \<Rightarrow> 's llm_bigram_spm \<Rightarrow> bool" where
  "spm_stale syms b \<longleftrightarrow> sym_n (syms ! spm_left b) = 0 \<or> sym_n (syms ! spm_right b) = 0
     \<or> sym_n (syms ! spm_left b) + sym_n (syms ! spm_right b) \<noteq> spm_size b"

definition spm_step ::
  "'s llama_vocab \<Rightarrow> 's llm_bigram_spm \<Rightarrow> 's spm_state \<Rightarrow> 's spm_state res" where
  "spm_step vocab b st =
    bindE (sym_at (spm_symbols st) (int (spm_left b))) (\<lambda>_.
    bindE (sym_at (spm_symbols st) (int (spm_right b))) (\<lambda>_.
      if spm_stale (spm_symbols st) b then Inr st
      else bindE (merge_symbols (spm_symbols st) (spm_left b) (spm_right b)) (\<lambda>syms.
        let l = syms ! spm_left b in
        bindE (spm_try_add_bigram vocab (sym_prev l) (int (spm_left b)) (st\<lparr>spm_symbols := syms\<rparr>))
          (spm_try_add_bigram vocab (int (spm_left b)) (sym_next l)))))"

lemma spm_try_add_symbols:
  "spm_try_add_bigram vocab i j st = Inr st' \<Longrightarrow> spm_symbols st' = spm_symbols st"
  by (auto simp: spm_try_add_bigram_def bindE_Inr_iff Let_def split: if_splits option.splits)

lemma spm_step_measure:
  assumes "spm_step vocab b st = Inr st'"
  shows "st' = st \<or> live_count (spm_symbols st') < live_count (spm_symbols st)"
proof (cases "spm_stale (spm_symbols st) b")
  case True
  with assms show ?thesis by (auto simp: spm_step_def bindE_Inr_iff)
next
  case False
  with assms obtain syms st1 where
    "merge_symbols (spm_symbols st) (spm_left b) (spm_right b) = Inr syms" and
    a1: "spm_try_add_bigram vocab (sym_prev (syms ! spm_left b)) (int (spm_left b))
      (st\<lparr>spm_symbols := syms\<rparr>) = Inr st1" and
    a2: "spm_try_add_bigram vocab (int (spm_left b)) (sym_next (syms ! spm_left b)) st1 = Inr st'"
    by (auto simp: spm_step_def bindE_Inr_iff Let_def)
  moreover have "spm_symbols st' = syms"
    using spm_try_add_symbols [OF a1] spm_try_add_symbols [OF a2] by simp
  ultimately show ?thesis using False merge_symbols_live by (fastforce simp: spm_stale_def)
qed

text \<open>The work loop. \<open>tie\<close> is the choice the heap makes between entries of equal priority.\<close>

function spm_loop ::
  "'s::linorder llama_vocab \<Rightarrow> ('s llm_bigram_spm list \<Rightarrow> nat) \<Rightarrow> 's spm_state
    \<Rightarrow> 's spm_state res" where
  "spm_loop vocab tie st =
    (if spm_queue st = [] then Inr st
     else case spm_step vocab (pq_top spm_before tie (spm_queue st))
         (st\<lparr>spm_queue := pq_pop spm_before tie (spm_queue st)\<rparr>) of
       Inl e \<Rightarrow> Inl e
     | Inr st' \<Rightarrow> spm_loop vocab tie st')"
  by pat_completeness auto
termination
  by (relation "measures [\<lambda>(vocab, tie, st). live_count (spm_symbols st),
        \<lambda>(vocab, tie, st). length (spm_queue st)]")
     (auto dest!: spm_step_measure simp: pq_pop_length)

declare spm_loop.simps [simp del]

text \<open>
  \<open>resegment\<close>. A piece that is a token is that token; one that is not is split again where it was
  merged, or spelt in byte tokens. The first argument is the depth the call stack allows.
\<close>

definition push_bytes :: "'s llama_vocab \<Rightarrow> byte list \<Rightarrow> int list \<Rightarrow> int list res" where
  "push_bytes vocab s out =
    foldE (\<lambda>c out. bindE (llama_byte_to_token_impl vocab c) (\<lambda>token. Inr (out @ [token]))) s out"

fun spm_resegment ::
  "nat \<Rightarrow> 's llama_vocab \<Rightarrow> 's spm_state \<Rightarrow> llm_symbol \<Rightarrow> int list \<Rightarrow> int list res" where
  "spm_resegment 0 vocab st sy out = Inl StackOverflow"
| "spm_resegment (Suc depth) vocab st sy out =
    (case token_to_id vocab (piece sy) of
       Some token \<Rightarrow> Inr (out @ [token])
     | None \<Rightarrow>
        (case rev_merge st (piece sy) of
           None \<Rightarrow> push_bytes vocab (piece sy) out
         | Some (first, second) \<Rightarrow>
             bindE (sym_at (spm_symbols st) first) (\<lambda>s1.
             bindE (spm_resegment depth vocab st s1 out) (\<lambda>out1.
             bindE (sym_at (spm_symbols st) second) (\<lambda>s2.
               spm_resegment depth vocab st s2 out1)))))"

text \<open>
  The output loop follows the links from symbol 0 until \<open>-1\<close>; \<open>fuel\<close> bounds the number of symbols
  visited (a chain visits none twice).
\<close>

fun spm_output ::
  "nat \<Rightarrow> nat \<Rightarrow> 's llama_vocab \<Rightarrow> 's spm_state \<Rightarrow> int \<Rightarrow> int list \<Rightarrow> int list res" where
  "spm_output 0 depth vocab st i out =
    (if i = -1 then Inr out else Inl (UndefinedBehaviour ''cyclic chain''))"
| "spm_output (Suc fuel) depth vocab st i out =
    (if i = -1 then Inr out
     else bindE (sym_at (spm_symbols st) i) (\<lambda>sy.
       bindE (spm_resegment depth vocab st sy out) (\<lambda>out1.
         spm_output fuel depth vocab st (sym_next sy) out1)))"

definition spm_seed :: "'s llama_vocab \<Rightarrow> llm_symbol list \<Rightarrow> 's spm_state res" where
  "spm_seed vocab syms =
    foldE (\<lambda>i. spm_try_add_bigram vocab (int i - 1) (int i)) [1..<length syms]
      \<lparr>spm_symbols = syms, spm_queue = [], rev_merge = Map.empty\<rparr>"

definition spm_tokenize ::
  "'s::linorder llama_vocab \<Rightarrow> ('s llm_bigram_spm list \<Rightarrow> nat) \<Rightarrow> nat \<Rightarrow> byte list
    \<Rightarrow> int list \<Rightarrow> int list res" where
  "spm_tokenize vocab tie depth s out =
    bindE (spm_seed vocab (split_symbols s 0 0)) (\<lambda>st.
    bindE (spm_loop vocab tie st) (\<lambda>st'.
      spm_output (Suc (length (spm_symbols st'))) depth vocab st' 0 out))"

section \<open>What it computes\<close>

text \<open>The rank of a pair of strings, and the tokens of a string.\<close>

definition spm_rank :: "'s llama_vocab \<Rightarrow> byte list \<Rightarrow> byte list \<Rightarrow> 's option" where
  "spm_rank vocab a b =
    (case token_to_id vocab (a @ b) of
       Some token \<Rightarrow>
         if valid_id vocab token then Some (tok_score (id_to_token vocab ! nat token)) else None
     | None \<Rightarrow> None)"

definition spm_tokens :: "'s llama_vocab \<Rightarrow> byte list \<Rightarrow> int list res" where
  "spm_tokens vocab p =
    (case token_to_id vocab p of
       Some token \<Rightarrow> Inr [token]
     | None \<Rightarrow> mapE (llama_byte_to_token_impl vocab) p)"

interpretation spm: merge_queue "spm_rank vocab" spm_left spm_right spm_size spm_score spm_before
    "\<lambda>_ _. True" "\<lambda>syms b. \<not> spm_stale syms b"
  for vocab :: "'s::linorder llama_vocab"
  by unfold_locales (auto simp: spm_before_def spm_stale_def)

definition rev_merge_tokens :: "'s llama_vocab \<Rightarrow> 's spm_state \<Rightarrow> bool" where
  "rev_merge_tokens vocab st \<longleftrightarrow> (\<forall>s. token_to_id vocab s = None \<longrightarrow> rev_merge st s = None)"

lemma spm_try_offers:
  assumes chain: "live_chain (spm_symbols st) s is"
    and nb: "i \<noteq> -1 \<Longrightarrow> j \<noteq> -1 \<Longrightarrow> 0 \<le> i \<and> 0 \<le> j \<and> spm.neighbours is (nat i) (nat j)"
    and rev: "rev_merge_tokens vocab st"
  shows "\<exists>st'. spm_try_add_bigram vocab i j st = Inr st' \<and> spm_symbols st' = spm_symbols st
    \<and> rev_merge_tokens vocab st'
    \<and> spm.offered vocab (spm_symbols st) i j (spm_queue st) (spm_queue st')"
proof (cases "i = -1 \<or> j = -1")
  case True
  with rev show ?thesis by (auto simp: spm_try_add_bigram_def spm.offered_def)
next
  case False
  let ?l = "spm_symbols st ! nat i" and ?r = "spm_symbols st ! nat j"
  from False nb have nb: "0 \<le> i" "0 \<le> j" "spm.neighbours is (nat i) (nat j)" by auto
  from spm.neighbours_offset [OF chain nb(3)] obtain m where m: "sym_text ?l = drop m s"
    "sym_text ?r = drop (m + sym_n ?l) s" "m + sym_n ?l + sym_n ?r \<le> length s"
    "nat i < length (spm_symbols st)" "nat j < length (spm_symbols st)" by blast
  then have eq: "take (sym_n ?l + sym_n ?r) (sym_text ?l) = piece ?l @ piece ?r"
    "length (piece ?l @ piece ?r) = sym_n ?l + sym_n ?r"
    by (simp_all add: piece_def take_add add.commute)
  from False nb m(4,5) rev show ?thesis
    by (auto simp: spm_try_add_bigram_def sym_at_def Let_def eq spm.offered_def spm_rank_def
        spm.candidate_def rev_merge_tokens_def simp del: length_append split: option.splits)
qed

interpretation spm_run: merge_tokenizer "spm_rank vocab" spm_left spm_right spm_size spm_score
    spm_before "\<lambda>_ _. True" "\<lambda>syms b. \<not> spm_stale syms b" spm_symbols spm_queue
    "\<lambda>y st. st\<lparr>spm_symbols := y\<rparr>" "\<lambda>q st. st\<lparr>spm_queue := q\<rparr>" "rev_merge_tokens vocab" "\<lambda>_. True"
    "spm_try_add_bigram vocab" "spm_step vocab" "spm_loop vocab tie" tie
  for vocab :: "'s::linorder llama_vocab" and tie
proof (unfold_locales, goal_cases)
  case (7 s st "is" i j)
  then show ?case using spm_try_offers [of st s "is" i j vocab] by blast
next
  case (9 st)
  then show ?case by (subst spm_loop.simps) simp
qed (simp_all add: rev_merge_tokens_def spm_step_def sym_at_def Let_def)

lemma push_bytes_eq:
  "push_bytes vocab s out = bindE (mapE (llama_byte_to_token_impl vocab) s) (\<lambda>ts. Inr (out @ ts))"
  by (induction s arbitrary: out) (auto simp: push_bytes_def bindE_def split: sum.splits)

lemma spm_resegment_eq:
  "rev_merge_tokens vocab st \<Longrightarrow> spm_resegment (Suc depth) vocab st sy out
    = bindE (spm_tokens vocab (piece sy)) (\<lambda>ts. Inr (out @ ts))"
  by (auto simp: spm_tokens_def rev_merge_tokens_def push_bytes_eq split: option.splits)

lemma spm_output_eq:
  assumes "segment (spm_symbols st) s p off is (-1) off'" "length is \<le> fuel" "rev_merge_tokens vocab st"
  shows "spm_output fuel (Suc depth) vocab st (head_or is (-1)) out
    = bindE (mapE (spm_tokens vocab) (pieces (spm_symbols st) is)) (\<lambda>ts. Inr (out @ concat ts))"
  using assms
proof (induction "is" arbitrary: p off fuel out)
  case Nil
  then show ?case by (cases fuel) (simp_all add: pieces_def)
next
  case (Cons i "is")
  then obtain f where f: "fuel = Suc f" by (cases fuel) auto
  have IH: "spm_output f (Suc depth) vocab st (head_or is (-1)) out
    = bindE (mapE (spm_tokens vocab) (pieces (spm_symbols st) is)) (\<lambda>ts. Inr (out @ concat ts))" for out
    using Cons f by (intro Cons.IH) auto
  from Cons.prems f show ?case
    by (auto simp: sym_at_def spm_resegment_eq IH pieces_def bindE_def
        simp del: spm_resegment.simps split: sum.splits)
qed

lemma spm_tokenize_eq:
  "spm_tokenize vocab tie (Suc depth) s out =
    (if s = [] then Inl (UndefinedBehaviour ''symbols[i]'')
     else bindE (mapE (spm_tokens vocab) (greedy (spm_rank vocab) (utf8_chars s)))
       (\<lambda>ts. Inr (out @ concat ts)))"
proof (cases "s = []")
  case True
  have "split_symbols [] 0 0 = []" by (simp add: split_symbols.simps)
  with True show ?thesis
    by (simp add: spm_tokenize_def spm_seed_def spm_loop.simps sym_at_def)
next
  case False
  let ?S = "split_symbols s 0 0"
  obtain st st' "is'" where st: "spm_seed vocab ?S = Inr st" and st': "spm_loop vocab tie st = Inr st'"
    "live_chain (spm_symbols st') s is'" "rev_merge_tokens vocab st'"
    "pieces (spm_symbols st') is' = greedy (spm_rank vocab) (utf8_chars s)"
    using spm_run.tokenizer_greedy [of vocab
        "\<lparr>spm_symbols = ?S, spm_queue = [], rev_merge = Map.empty\<rparr>" ?S s tie] live_chain_split [of s]
    by (auto simp: spm_seed_def rev_merge_tokens_def utf8_chars_def)
  from st'(2) have seg: "segment (spm_symbols st') s (-1) 0 is' (-1) (length s)"
    and ids: "set is' = {i. i < length (spm_symbols st') \<and> sym_n (spm_symbols st' ! i) > 0}"
    and sorted: "sorted_wrt (<) is'" by (auto simp: live_chain_def)
  have "length is' = card (set is')" using live_chain_distinct [OF st'(2)] by (simp add: distinct_card)
  also have "\<dots> \<le> length (spm_symbols st')"
    using card_mono [of "{..<length (spm_symbols st')}" "set is'"] ids by auto
  finally have len: "length is' \<le> Suc (length (spm_symbols st'))" by simp
  have "head_or is' (-1) = 0"
    using st'(2) seg False by (cases "is'") (auto simp: live_chain_def)
  with spm_output_eq [OF seg len st'(3)] st st' False show ?thesis
    by (simp add: spm_tokenize_def)
qed

text \<open>
  C24: tokenizing a text cuts it into pieces and looks each piece up (a token, or the byte tokens of
  its bytes). The pieces spell the text, and they are what is left of its characters when the
  leftmost of the best-scored adjacent pairs that form a token is merged until there is none,
  whatever order the heap gives to entries of equal priority; one level of recursion is enough. An
  empty text reads a symbol that does not exist.
\<close>

theorem spm_tokenize_greedy:
  "concat (greedy (spm_rank vocab) (utf8_chars s)) = s
   \<and> spm_tokenize vocab tie (Suc depth) s out =
      (if s = [] then Inl (UndefinedBehaviour ''symbols[i]'')
       else bindE (mapE (spm_tokens vocab) (greedy (spm_rank vocab) (utf8_chars s)))
         (\<lambda>ts. Inr (out @ concat ts)))"
  using spm_tokenize_eq [of vocab tie depth s out]
  by (simp only: greedy_concat utf8_chars_concat simp_thms)

end
