(* ===== verification/BpeTokenizer.thy ===== *)
theory BpeTokenizer
  imports MergeQueue ByteEncoding
begin

text \<open>
  \<open>llm_tokenizer_bpe\<close> of \<open>src/src/llama-vocab.cpp\<close>, behind the split of a text into words
  (\<open>unicode_regex_split\<close>): within a word the pair of neighbours with the lowest merge rank is
  merged first.
\<close>

definition find_bpe_rank :: "'s llama_vocab \<Rightarrow> byte list \<Rightarrow> byte list \<Rightarrow> int res" where
  "find_bpe_rank vocab token_left token_right =
    (if 0x20 \<in> set token_left then Inl (Abort ''token_left.find(space)'')
     else if 0x0a \<in> set token_left then Inl (Abort ''token_left.find(newline)'')
     else if 0x20 \<in> set token_right then Inl (Abort ''token_right.find(space)'')
     else if 0x0a \<in> set token_right then Inl (Abort ''token_right.find(newline)'')
     else case bpe_ranks vocab (token_left, token_right) of None \<Rightarrow> Inr (-1) | Some r \<Rightarrow> Inr r)"

record llm_bigram_bpe =
  bpe_left :: nat
  bpe_right :: nat
  bpe_text :: "byte list"
  bpe_rank :: int
  bpe_size :: nat

definition bpe_before :: "llm_bigram_bpe \<Rightarrow> llm_bigram_bpe \<Rightarrow> bool" where
  "bpe_before l r \<longleftrightarrow> bpe_rank l > bpe_rank r \<or> bpe_rank l = bpe_rank r \<and> bpe_left l > bpe_left r"

record bpe_state =
  bpe_symbols :: "llm_symbol list"
  bpe_queue :: "llm_bigram_bpe list"

definition add_new_bigram :: "'s llama_vocab \<Rightarrow> int \<Rightarrow> int \<Rightarrow> bpe_state \<Rightarrow> bpe_state res" where
  "add_new_bigram vocab left right st =
    (if left = -1 \<or> right = -1 then Inr st
     else bindE (sym_at (bpe_symbols st) left) (\<lambda>l. bindE (sym_at (bpe_symbols st) right) (\<lambda>r.
       bindE (find_bpe_rank vocab (piece l) (piece r)) (\<lambda>rank_found.
         if rank_found < 0 then Inr st
         else Inr (st\<lparr>bpe_queue := bpe_queue st @ [\<lparr>bpe_left = nat left, bpe_right = nat right,
           bpe_text = piece l @ piece r, bpe_rank = rank_found,
           bpe_size = length (piece l) + length (piece r)\<rparr>]\<rparr>)))))"

definition bpe_stale :: "llm_symbol list \<Rightarrow> llm_bigram_bpe \<Rightarrow> bool" where
  "bpe_stale syms b \<longleftrightarrow> sym_n (syms ! bpe_left b) = 0 \<or> sym_n (syms ! bpe_right b) = 0
     \<or> piece (syms ! bpe_left b) @ piece (syms ! bpe_right b) \<noteq> bpe_text b"

definition bpe_step ::
  "'s llama_vocab \<Rightarrow> llm_bigram_bpe \<Rightarrow> bpe_state \<Rightarrow> bpe_state res" where
  "bpe_step vocab b st =
    bindE (sym_at (bpe_symbols st) (int (bpe_left b))) (\<lambda>_.
    bindE (sym_at (bpe_symbols st) (int (bpe_right b))) (\<lambda>_.
      if bpe_stale (bpe_symbols st) b then Inr st
      else bindE (merge_symbols (bpe_symbols st) (bpe_left b) (bpe_right b)) (\<lambda>syms.
        let l = syms ! bpe_left b in
        bindE (add_new_bigram vocab (sym_prev l) (int (bpe_left b)) (st\<lparr>bpe_symbols := syms\<rparr>))
          (add_new_bigram vocab (int (bpe_left b)) (sym_next l)))))"

lemma add_new_symbols:
  "add_new_bigram vocab i j st = Inr st' \<Longrightarrow> bpe_symbols st' = bpe_symbols st"
  by (auto simp: add_new_bigram_def bindE_Inr_iff Let_def split: if_splits option.splits)

lemma bpe_step_measure:
  assumes "bpe_step vocab b st = Inr st'"
  shows "st' = st \<or> live_count (bpe_symbols st') < live_count (bpe_symbols st)"
proof (cases "bpe_stale (bpe_symbols st) b")
  case True
  with assms show ?thesis by (auto simp: bpe_step_def bindE_Inr_iff)
next
  case False
  with assms obtain syms st1 where
    "merge_symbols (bpe_symbols st) (bpe_left b) (bpe_right b) = Inr syms" and
    a1: "add_new_bigram vocab (sym_prev (syms ! bpe_left b)) (int (bpe_left b))
      (st\<lparr>bpe_symbols := syms\<rparr>) = Inr st1" and
    a2: "add_new_bigram vocab (int (bpe_left b)) (sym_next (syms ! bpe_left b)) st1 = Inr st'"
    by (auto simp: bpe_step_def bindE_Inr_iff Let_def)
  moreover have "bpe_symbols st' = syms"
    using add_new_symbols [OF a1] add_new_symbols [OF a2] by simp
  ultimately show ?thesis using False merge_symbols_live by (fastforce simp: bpe_stale_def)
qed

text \<open>The work loop. \<open>tie\<close> is the choice the heap makes between entries of equal priority.\<close>

function bpe_loop ::
  "'s llama_vocab \<Rightarrow> (llm_bigram_bpe list \<Rightarrow> nat) \<Rightarrow> bpe_state
    \<Rightarrow> bpe_state res" where
  "bpe_loop vocab tie st =
    (if bpe_queue st = [] then Inr st
     else case bpe_step vocab (pq_top bpe_before tie (bpe_queue st))
         (st\<lparr>bpe_queue := pq_pop bpe_before tie (bpe_queue st)\<rparr>) of
       Inl e \<Rightarrow> Inl e
     | Inr st' \<Rightarrow> bpe_loop vocab tie st')"
  by pat_completeness auto
termination
  by (relation "measures [\<lambda>(vocab, tie, st). live_count (bpe_symbols st),
        \<lambda>(vocab, tie, st). length (bpe_queue st)]")
     (auto dest!: bpe_step_measure simp: pq_pop_length)

declare bpe_loop.simps [simp del]

text \<open>The symbols of a word: its characters, or the whole word where it is a token itself.\<close>

definition word_symbols :: "'s llama_vocab \<Rightarrow> byte list \<Rightarrow> llm_symbol list" where
  "word_symbols vocab word =
    (if tokenizer_ignore_merges vocab \<and> token_to_id vocab word \<noteq> None then
       [\<lparr>sym_prev = -1, sym_next = -1, sym_text = word, sym_n = length word\<rparr>]
     else split_symbols word 0 0)"

definition bpe_word ::
  "'s llama_vocab \<Rightarrow> (llm_bigram_bpe list \<Rightarrow> nat) \<Rightarrow> byte list \<Rightarrow> llm_symbol list res" where
  "bpe_word vocab tie word =
    (let syms = word_symbols vocab word in
     bindE (foldE (\<lambda>i. add_new_bigram vocab (int i - 1) (int i)) [1..<length syms]
         \<lparr>bpe_symbols = syms, bpe_queue = []\<rparr>) (\<lambda>st.
     bindE (bpe_loop vocab tie st) (\<lambda>st'. Inr (bpe_symbols st'))))"

text \<open>
  The finished symbols of all words are appended to \<open>symbols_final\<close>, linked anew; the index of the
  last one goes with it.
\<close>

definition add_final ::
  "llm_symbol \<Rightarrow> llm_symbol list \<times> int \<Rightarrow> llm_symbol list \<times> int" where
  "add_final sy = (\<lambda>(final, prev).
    if sym_n sy > 0 then
      ((if prev \<noteq> -1 then upd (nat prev) (\<lambda>t. t\<lparr>sym_next := int (length final)\<rparr>) final else final)
         @ [sy\<lparr>sym_prev := prev, sym_next := -1\<rparr>], int (length final))
    else (final, prev))"

definition bpe_words ::
  "'s llama_vocab \<Rightarrow> (llm_bigram_bpe list \<Rightarrow> nat) \<Rightarrow> byte list list \<Rightarrow> (llm_symbol list \<times> int) res" where
  "bpe_words vocab tie words =
    foldE (\<lambda>word fp. bindE (bpe_word vocab tie word) (\<lambda>syms. Inr (fold add_final syms fp)))
      words ([], -1)"

text \<open>A piece that is no token is looked up byte by byte; a byte without a token is left out.\<close>

definition bpe_tokens :: "'s llama_vocab \<Rightarrow> byte list \<Rightarrow> int list" where
  "bpe_tokens vocab str =
    (case token_to_id vocab str of
       Some token \<Rightarrow> [token]
     | None \<Rightarrow> List.map_filter (\<lambda>c. token_to_id vocab [c]) str)"

fun bpe_output :: "nat \<Rightarrow> 's llama_vocab \<Rightarrow> llm_symbol list \<Rightarrow> int \<Rightarrow> int list \<Rightarrow> int list res" where
  "bpe_output 0 vocab symbols i out =
    (if i = -1 then Inr out else Inl (UndefinedBehaviour ''cyclic chain''))"
| "bpe_output (Suc fuel) vocab symbols i out =
    (if i = -1 then Inr out
     else bindE (sym_at symbols i) (\<lambda>sy.
       bpe_output fuel vocab symbols (sym_next sy)
         (if sym_n sy = 0 then out else out @ bpe_tokens vocab (piece sy))))"

text \<open>\<open>tokenize\<close>; \<open>split\<close> is the split into words.\<close>

definition bpe_tokenize ::
  "'s llama_vocab \<Rightarrow> (llm_bigram_bpe list \<Rightarrow> nat) \<Rightarrow> (byte list \<Rightarrow> byte list list res) \<Rightarrow> byte list
    \<Rightarrow> int list \<Rightarrow> int list res" where
  "bpe_tokenize vocab tie split s out =
    bindE (split s) (\<lambda>word_collection.
    bindE (bpe_words vocab tie word_collection) (\<lambda>(symbols, _).
      if symbols = [] then Inr out
      else bpe_output (length symbols) vocab symbols 0 out))"

section \<open>What it computes\<close>

definition bpe_prio :: "(byte list \<times> byte list \<Rightarrow> int option) \<Rightarrow> byte list \<Rightarrow> byte list \<Rightarrow> int option" where
  "bpe_prio ranks a b =
    (case ranks (a, b) of Some r \<Rightarrow> if r < 0 then None else Some (- r) | None \<Rightarrow> None)"

definition plain :: "byte list \<Rightarrow> bool" where
  "plain s \<longleftrightarrow> 0x20 \<notin> set s \<and> 0x0a \<notin> set s"

definition bpe_tag :: "byte list \<Rightarrow> llm_bigram_bpe \<Rightarrow> bool" where
  "bpe_tag s b \<longleftrightarrow> bpe_text b = take (bpe_size b) s"

interpretation bpe: merge_queue "bpe_prio ranks" bpe_left bpe_right bpe_size "\<lambda>b. - bpe_rank b"
    bpe_before bpe_tag "\<lambda>syms b. \<not> bpe_stale syms b"
  for ranks
proof (unfold_locales, goal_cases)
  case (1 b c)
  then show ?case by (auto simp: bpe_before_def)
next
  case (2 syms b pre n)
  let ?l = "syms ! bpe_left b" and ?r = "syms ! bpe_right b"
  have "piece ?l @ piece ?r = bpe_text b \<longleftrightarrow> sym_n ?l + sym_n ?r = bpe_size b"
    if nz: "sym_n ?l \<noteq> 0" "sym_n ?r \<noteq> 0"
  proof
    assume "piece ?l @ piece ?r = bpe_text b"
    then have "length (piece ?l) + length (piece ?r) = length (bpe_text b)" by (metis length_append)
    with 2 nz show "sym_n ?l + sym_n ?r = bpe_size b"
      by (simp add: piece_def bpe_tag_def min_def split: if_splits)
  next
    assume "sym_n ?l + sym_n ?r = bpe_size b"
    with 2 nz have "sym_n ?l = length pre" "sym_n ?r = n" by auto
    with 2 show "piece ?l @ piece ?r = bpe_text b" by (simp add: piece_def bpe_tag_def)
  qed
  then show ?case by (auto simp: bpe_stale_def)
qed

lemma find_bpe_rank_plain:
  "plain a \<Longrightarrow> plain b \<Longrightarrow> find_bpe_rank vocab a b
    = Inr (case bpe_ranks vocab (a, b) of None \<Rightarrow> -1 | Some r \<Rightarrow> r)"
  by (auto simp: find_bpe_rank_def plain_def split: option.splits)

lemma plain_piece: "plain s \<Longrightarrow> sym_text sy = drop m s \<Longrightarrow> plain (piece sy)"
  by (auto simp: plain_def piece_def dest: in_set_takeD in_set_dropD)

lemma bpe_add_offers:
  assumes s: "plain s" and chain: "live_chain (bpe_symbols st) s is"
    and nb: "i \<noteq> -1 \<Longrightarrow> j \<noteq> -1 \<Longrightarrow> 0 \<le> i \<and> 0 \<le> j \<and> bpe.neighbours is (nat i) (nat j)"
  shows "\<exists>st'. add_new_bigram vocab i j st = Inr st' \<and> bpe_symbols st' = bpe_symbols st
    \<and> bpe.offered (bpe_ranks vocab) (bpe_symbols st) i j (bpe_queue st) (bpe_queue st')"
proof (cases "i = -1 \<or> j = -1")
  case True
  then show ?thesis by (auto simp: add_new_bigram_def bpe.offered_def)
next
  case False
  let ?l = "bpe_symbols st ! nat i" and ?r = "bpe_symbols st ! nat j"
  from False nb have nb: "0 \<le> i" "0 \<le> j" "bpe.neighbours is (nat i) (nat j)" by auto
  from bpe.neighbours_offset [OF chain nb(3)] obtain m where m: "sym_text ?l = drop m s"
    "sym_text ?r = drop (m + sym_n ?l) s" "m + sym_n ?l + sym_n ?r \<le> length s"
    "nat i < length (bpe_symbols st)" "nat j < length (bpe_symbols st)" by blast
  then have eq: "take (sym_n ?l + sym_n ?r) (sym_text ?l) = piece ?l @ piece ?r"
    "length (piece ?l) = sym_n ?l" "length (piece ?r) = sym_n ?r"
    by (simp_all add: piece_def take_add add.commute)
  have "find_bpe_rank vocab (piece ?l) (piece ?r)
      = Inr (case bpe_ranks vocab (piece ?l, piece ?r) of None \<Rightarrow> -1 | Some r \<Rightarrow> r)"
    using plain_piece [OF s m(1)] plain_piece [OF s m(2)] by (rule find_bpe_rank_plain)
  with False nb m(4,5) show ?thesis
    by (auto simp: add_new_bigram_def sym_at_def eq bpe.offered_def bpe_prio_def bpe.candidate_def
        bpe_tag_def split: option.splits)
qed

interpretation bpe_run: merge_tokenizer "bpe_prio (bpe_ranks vocab)" bpe_left bpe_right bpe_size "\<lambda>b. - bpe_rank b"
    bpe_before bpe_tag "\<lambda>syms b. \<not> bpe_stale syms b" bpe_symbols bpe_queue
    "\<lambda>y st. st\<lparr>bpe_symbols := y\<rparr>" "\<lambda>q st. st\<lparr>bpe_queue := q\<rparr>" "\<lambda>_. True" plain
    "add_new_bigram vocab" "bpe_step vocab" "bpe_loop vocab tie" tie
  for vocab :: "'s llama_vocab" and tie
proof (unfold_locales, goal_cases)
  case (7 s st "is" i j)
  then show ?case using bpe_add_offers [of s st "is" i j vocab] by blast
next
  case (9 st)
  then show ?case by (subst bpe_loop.simps) simp
qed (simp_all add: bpe_step_def sym_at_def Let_def)

text \<open>The pieces of a word, and the symbols left of it.\<close>

definition bpe_pieces :: "'s llama_vocab \<Rightarrow> byte list \<Rightarrow> byte list list" where
  "bpe_pieces vocab word =
    (if tokenizer_ignore_merges vocab \<and> token_to_id vocab word \<noteq> None then
       (if word = [] then [] else [word])
     else greedy (bpe_prio (bpe_ranks vocab)) (utf8_chars word))"

definition live :: "llm_symbol list \<Rightarrow> llm_symbol list" where
  "live syms = filter (\<lambda>sy. sym_n sy > 0) syms"

lemma live_chain_live:
  assumes "live_chain syms s is"
  shows "map piece (live syms) = pieces syms is"
proof -
  have "is = filter (\<lambda>i. sym_n (syms ! i) > 0) [0..<length syms]"
    using assms by (intro strict_sorted_equal) (auto simp: live_chain_def sorted_wrt_filter)
  moreover have "live syms = map ((!) syms) (filter (\<lambda>i. sym_n (syms ! i) > 0) [0..<length syms])"
    using filter_map [of "\<lambda>sy. sym_n sy > 0" "(!) syms" "[0..<length syms]"]
    by (simp add: live_def map_nth comp_def)
  ultimately show ?thesis by (simp add: pieces_def)
qed

lemma bpe_word_pieces:
  assumes "plain word"
  shows "\<exists>syms. bpe_word vocab tie word = Inr syms \<and> map piece (live syms) = bpe_pieces vocab word"
proof (cases "tokenizer_ignore_merges vocab \<and> token_to_id vocab word \<noteq> None")
  case True
  then show ?thesis
    by (simp add: bpe_word_def word_symbols_def Let_def bpe_loop.simps bpe_pieces_def live_def piece_def)
next
  case False
  let ?S = "split_symbols word 0 0"
  from bpe_run.tokenizer_greedy [of word "\<lparr>bpe_symbols = ?S, bpe_queue = []\<rparr>" ?S vocab tie]
    live_chain_split [of word] assms
  obtain st1 st "is'" where run: "foldE (\<lambda>i. add_new_bigram vocab (int i - 1) (int i)) [1..<length ?S]
      \<lparr>bpe_symbols = ?S, bpe_queue = []\<rparr> = Inr st1" "bpe_loop vocab tie st1 = Inr st"
    and st: "live_chain (bpe_symbols st) word is'"
      "pieces (bpe_symbols st) is' = greedy (bpe_prio (bpe_ranks vocab)) (map piece ?S)"
    by auto
  have "bpe_word vocab tie word = Inr (bpe_symbols st)"
    using run False by (auto simp: bpe_word_def word_symbols_def Let_def)
  moreover have "pieces (bpe_symbols st) is' = bpe_pieces vocab word"
    using st(2) False by (auto simp: bpe_pieces_def utf8_chars_def)
  ultimately show ?thesis using live_chain_live [OF st(1)] by auto
qed

text \<open>The final list is linked in order.\<close>

definition final_ok :: "llm_symbol list \<times> int \<Rightarrow> bool" where
  "final_ok = (\<lambda>(fs, prev). prev = int (length fs) - 1 \<and>
     (\<forall>k<length fs. sym_n (fs ! k) > 0 \<and>
       sym_next (fs ! k) = (if Suc k = length fs then -1 else int (Suc k))))"

lemma add_final_ok:
  assumes "final_ok (fs, prev)"
  shows "final_ok (add_final sy (fs, prev))
    \<and> map piece (fst (add_final sy (fs, prev))) = map piece fs @ map piece (live [sy])"
proof (cases "sym_n sy > 0")
  case True
  show ?thesis
  proof (cases fs rule: rev_cases)
    case Nil
    with assms True show ?thesis by (simp add: add_final_def final_ok_def live_def piece_def)
  next
    case (snoc gs t)
    with assms have prev: "prev = int (length gs)" by (simp add: final_ok_def)
    have "map piece (fs[length gs := t\<lparr>sym_next := int (length fs)\<rparr>]) = map piece fs"
      by (simp add: snoc piece_def list_update_append)
    with assms True prev snoc show ?thesis
      by (auto simp: add_final_def final_ok_def upd_def live_def piece_def nth_append
          list_update_append less_Suc_eq)
  qed
next
  case False
  with assms show ?thesis by (simp add: add_final_def live_def)
qed

lemma add_finals_ok:
  assumes "final_ok fp"
  shows "final_ok (fold add_final syms fp)
    \<and> map piece (fst (fold add_final syms fp)) = map piece (fst fp) @ map piece (live syms)"
  using assms
proof (induction syms arbitrary: fp)
  case (Cons sy syms)
  obtain fs prev where fp: "fp = (fs, prev)" by (cases fp)
  from add_final_ok [of fs prev sy] Cons.prems fp have
    ok: "final_ok (add_final sy fp)" and
    eq: "map piece (fst (add_final sy fp)) = map piece (fst fp) @ map piece (live [sy])" by auto
  from Cons.IH [OF ok] eq show ?case by (auto simp: live_def)
qed (simp add: live_def)

lemma bpe_words_pieces:
  assumes "\<And>word. word \<in> set words \<Longrightarrow> plain word" "final_ok fp"
  shows "\<exists>fp'. foldE (\<lambda>word fp. bindE (bpe_word vocab tie word) (\<lambda>syms. Inr (fold add_final syms fp)))
      words fp = Inr fp' \<and> final_ok fp'
    \<and> map piece (fst fp') = map piece (fst fp) @ concat (map (bpe_pieces vocab) words)"
  using assms
proof (induction words arbitrary: fp)
  case (Cons word words)
  obtain syms where syms: "bpe_word vocab tie word = Inr syms"
    "map piece (live syms) = bpe_pieces vocab word"
    using bpe_word_pieces Cons.prems(1) by (metis list.set_intros(1))
  from add_finals_ok [OF Cons.prems(2), of syms] syms(2)
  have "final_ok (fold add_final syms fp)"
    "map piece (fst (fold add_final syms fp)) = map piece (fst fp) @ bpe_pieces vocab word" by auto
  with Cons.IH [of "fold add_final syms fp"] Cons.prems(1) syms(1) show ?case by auto
qed simp

lemma bpe_output_eq:
  assumes "final_ok (fs, prev)" "k \<le> length fs" "length fs - k \<le> fuel"
  shows "bpe_output fuel vocab fs (if k = length fs then -1 else int k) out
    = Inr (out @ concat (map (\<lambda>sy. bpe_tokens vocab (piece sy)) (drop k fs)))"
  using assms(2,3)
proof (induction fuel arbitrary: k out)
  case 0
  then show ?case by simp
next
  case (Suc fuel)
  show ?case
  proof (cases "k = length fs")
    case False
    then have "k < length fs" "sym_n (fs ! k) > 0"
      "sym_next (fs ! k) = (if Suc k = length fs then -1 else int (Suc k))"
      using assms(1) Suc.prems by (auto simp: final_ok_def)
    with Suc.IH [of "Suc k" "out @ bpe_tokens vocab (piece (fs ! k))"] Suc.prems show ?thesis
      by (simp add: sym_at_def flip: Cons_nth_drop_Suc)
  qed simp
qed

lemma bpe_tokenize_eq:
  assumes "split s = Inr words" "\<And>word. word \<in> set words \<Longrightarrow> plain word"
  shows "bpe_tokenize vocab tie split s out
    = Inr (out @ concat (map (bpe_tokens vocab) (concat (map (bpe_pieces vocab) words))))"
proof -
  have "final_ok ([], -1)" by (simp add: final_ok_def)
  from bpe_words_pieces [OF assms(2) this, of words vocab tie]
  obtain fs prev where fp: "bpe_words vocab tie words = Inr (fs, prev)" "final_ok (fs, prev)"
    "map piece fs = concat (map (bpe_pieces vocab) words)"
    unfolding bpe_words_def by auto
  have "map (bpe_tokens vocab) (concat (map (bpe_pieces vocab) words)) = map (\<lambda>sy. bpe_tokens vocab (piece sy)) fs"
    by (simp add: comp_def flip: fp(3))
  with fp bpe_output_eq [OF fp(2), of 0 "length fs" vocab out] assms(1) show ?thesis
    by (auto simp: bpe_tokenize_def)
qed

lemma bpe_pieces_concat: "concat (bpe_pieces vocab word) = word"
  by (simp add: bpe_pieces_def greedy_concat utf8_chars_concat)

end
