(* ===== verification/PreTokenizer.thy ===== *)
theory PreTokenizer
  imports ByteEncoding
begin

text \<open>
  The split of a text into words in front of the BPE tokenizer (\<open>unicode_regex_split\<close> of
  \<open>src/src/unicode.cpp\<close>): the code point flags, the hand-written matchers for the GPT-2 and LLaMA-3
  expressions, and the fallback to \<open>std::regex\<close>.

  The tables of \<open>src/src/unicode-data.cpp\<close> are the fields of a record \<open>unicode_data\<close>.
\<close>

section \<open>Code point flags\<close>

type_synonym flags = "16 word"

record unicode_data =
  unicode_ranges_flags :: "(u32 \<times> flags) list"
  unicode_set_whitespace :: "u32 list"
  unicode_map_lowercase :: "(u32 \<times> u32) list"
  unicode_map_uppercase :: "(u32 \<times> u32) list"
  unicode_ranges_nfd :: "(u32 \<times> u32 \<times> u32) list"

definition UNDEFINED :: flags where "UNDEFINED = 0x0001"
definition NUMBER :: flags where "NUMBER = 0x0002"
definition LETTER :: flags where "LETTER = 0x0004"
definition PUNCTUATION :: flags where "PUNCTUATION = 0x0020"
definition MASK_CATEGORIES :: flags where "MASK_CATEGORIES = 0x00FF"

definition is_number :: "flags \<Rightarrow> bool" where "is_number f = bit f 1"
definition is_letter :: "flags \<Rightarrow> bool" where "is_letter f = bit f 2"
definition is_separator :: "flags \<Rightarrow> bool" where "is_separator f = bit f 3"
definition is_punctuation :: "flags \<Rightarrow> bool" where "is_punctuation f = bit f 5"
definition is_symbol :: "flags \<Rightarrow> bool" where "is_symbol f = bit f 6"
definition is_control :: "flags \<Rightarrow> bool" where "is_control f = bit f 7"
definition is_whitespace :: "flags \<Rightarrow> bool" where "is_whitespace f = bit f 8"

text \<open>The flag array is a function; an assignment to one element is an update of it.\<close>

definition set_flag :: "nat \<Rightarrow> u32 \<Rightarrow> (u32 \<Rightarrow> flags) \<Rightarrow> u32 \<Rightarrow> flags" where
  "set_flag n cpt f = f(cpt := f cpt OR push_bit n 1)"

definition unicode_cpt_flags_array :: "unicode_data \<Rightarrow> u32 \<Rightarrow> flags" where
  "unicode_cpt_flags_array ucd =
    (let rs = unicode_ranges_flags ucd;
         f0 = fold (\<lambda>((ini, fl), (fin, _)) f c. if ini \<le> c \<and> c < fin then fl else f c)
                (zip rs (tl rs)) (\<lambda>_. UNDEFINED);
         f1 = fold (set_flag 8) (unicode_set_whitespace ucd) f0;
         f2 = fold (set_flag 9 \<circ> snd) (unicode_map_lowercase ucd) f1;
         f3 = fold (set_flag 10 \<circ> snd) (unicode_map_uppercase ucd) f2
     in fold (set_flag 11 \<circ> snd \<circ> snd) (unicode_ranges_nfd ucd) f3)"

definition unicode_cpt_flags :: "unicode_data \<Rightarrow> u32 \<Rightarrow> flags" where
  "unicode_cpt_flags ucd cp = (if cp < 0x110000 then unicode_cpt_flags_array ucd cp else UNDEFINED)"

definition unicode_tolower :: "unicode_data \<Rightarrow> u32 \<Rightarrow> u32" where
  "unicode_tolower ucd cp = (case map_of (unicode_map_lowercase ucd) cp of None \<Rightarrow> cp | Some l \<Rightarrow> l)"

text \<open>
  \<open>std::upper_bound(...) - 1\<close>: the last range that does not start behind the code point (the table
  is sorted); without one the iterator leaves the table.
\<close>

definition normalize_nfd_cpt :: "unicode_data \<Rightarrow> u32 \<Rightarrow> u32 res" where
  "normalize_nfd_cpt ucd cpt =
    (case rev (takeWhile (\<lambda>(first, _, _). \<not> cpt < first) (unicode_ranges_nfd ucd)) of
       [] \<Rightarrow> Inl (UndefinedBehaviour ''upper_bound() - 1'')
     | (first, final, nfd) # _ \<Rightarrow> Inr (if first \<le> cpt \<and> cpt \<le> final then nfd else cpt))"

definition unicode_cpts_normalize_nfd :: "unicode_data \<Rightarrow> u32 list \<Rightarrow> u32 list res" where
  "unicode_cpts_normalize_nfd ucd cpts = mapE (normalize_nfd_cpt ucd) cpts"

section \<open>Splitting a range\<close>

text \<open>
  One input offset is the range \<open>ini..<fin\<close> of the code points. Outside of it there is no code point
  and no flag.
\<close>

record cpt_range =
  rcpts :: "u32 list"
  rini :: nat
  rfin :: nat

definition OUT_OF_RANGE :: u32 where "OUT_OF_RANGE = 0xFFFFFFFF"

definition get_cpt :: "cpt_range \<Rightarrow> nat \<Rightarrow> u32" where
  "get_cpt r pos = (if rini r \<le> pos \<and> pos < rfin r then rcpts r ! pos else OUT_OF_RANGE)"

definition get_flags :: "unicode_data \<Rightarrow> cpt_range \<Rightarrow> nat \<Rightarrow> flags" where
  "get_flags ucd r pos =
    (if rini r \<le> pos \<and> pos < rfin r then unicode_cpt_flags ucd (rcpts r ! pos) else 0)"

text \<open>
  \<open>_add_token(end)\<close> on \<open>(bpe_offsets, _prev_end)\<close>; it returns the length of the new token.
\<close>

definition add_token :: "cpt_range \<Rightarrow> nat \<Rightarrow> nat list \<times> nat \<Rightarrow> ((nat list \<times> nat) \<times> nat) res" where
  "add_token r fin = (\<lambda>(offs, prev_end).
    if prev_end \<le> fin \<and> fin \<le> rfin r then
      Inr ((if fin - prev_end > 0 then offs @ [fin - prev_end] else offs, fin), fin - prev_end)
    else Inl (Abort ''_prev_end <= end && end <= offset_end''))"

text \<open>
  \<open>while (P(flags)) flags = _get_flags(++pos)\<close>. No flag is set behind the range and none of the
  conditions holds without a flag, so the loop stops there at the latest.
\<close>

function scan :: "unicode_data \<Rightarrow> cpt_range \<Rightarrow> (flags \<Rightarrow> bool) \<Rightarrow> nat \<Rightarrow> nat" where
  "scan ucd r P pos =
    (if pos < rfin r \<and> P (get_flags ucd r pos) then scan ucd r P (pos + 1) else pos)"
  by pat_completeness auto
termination by (relation "measure (\<lambda>(ucd, r, P, pos). rfin r - pos)") auto

declare scan.simps [simp del]

definition is_other :: "flags \<Rightarrow> bool" where
  "is_other f \<longleftrightarrow> \<not> (is_whitespace f \<or> is_letter f \<or> is_number f) \<and> f \<noteq> 0"

lemma no_flags [simp]:
  "\<not> is_letter 0" "\<not> is_number 0" "\<not> is_whitespace 0" "\<not> is_other 0"
  by (simp_all add: is_letter_def is_number_def is_whitespace_def is_other_def)

section \<open>GPT-2\<close>

abbreviation uch :: "char \<Rightarrow> u32" where
  "uch c \<equiv> of_char c"

text \<open>The contractions \<open>'s|'t|'re|'ve|'m|'ll|'d\<close>: how many code points match at \<open>pos\<close>.\<close>

definition contraction :: "(u32 \<Rightarrow> u32) \<Rightarrow> cpt_range \<Rightarrow> nat \<Rightarrow> nat option" where
  "contraction lower r pos =
    (if get_cpt r pos = uch CHR 0x27 \<and> pos + 1 < rfin r then
       (let c1 = lower (get_cpt r (pos + 1)) in
        if c1 = uch CHR ''s'' \<or> c1 = uch CHR ''t'' \<or> c1 = uch CHR ''m'' \<or> c1 = uch CHR ''d'' then Some 2
        else if pos + 2 < rfin r then
          (let c2 = lower (get_cpt r (pos + 2)) in
           if c1 = uch CHR ''r'' \<and> c2 = uch CHR ''e'' \<or> c1 = uch CHR ''v'' \<and> c2 = uch CHR ''e''
              \<or> c1 = uch CHR ''l'' \<and> c2 = uch CHR ''l'' then Some 3 else None)
        else None)
     else None)"

text \<open>The end of any other match: letters, numbers, other characters, spaces.\<close>

definition whitespace_end :: "unicode_data \<Rightarrow> cpt_range \<Rightarrow> nat \<Rightarrow> nat" where
  "whitespace_end ucd r pos =
    (let num_whitespaces = scan ucd r is_whitespace pos - pos in
     if num_whitespaces > 1 \<and> get_cpt r (pos + num_whitespaces) \<noteq> OUT_OF_RANGE then
       pos + num_whitespaces - 1
     else if num_whitespaces > 0 then pos + num_whitespaces
     else pos + 1)"

definition gpt2_match_end :: "unicode_data \<Rightarrow> cpt_range \<Rightarrow> nat \<Rightarrow> nat" where
  "gpt2_match_end ucd r pos =
    (let space = (if get_cpt r pos = 0x20 then 1 else 0);
         flags2 = (if get_cpt r pos = 0x20 then get_flags ucd r (pos + 1) else get_flags ucd r pos)
     in if is_letter flags2 then scan ucd r is_letter (pos + space)
        else if is_number flags2 then scan ucd r is_number (pos + space)
        else if is_other flags2 then scan ucd r is_other (pos + space)
        else whitespace_end ucd r pos)"

text \<open>
  The loop over the range. In the source \<open>pos\<close> is advanced by the length of the token after a
  contraction. \<open>fuel\<close> bounds the rounds; every round advances \<open>pos\<close>, so the length of the range is
  enough.
\<close>

fun gpt2_loop ::
  "nat \<Rightarrow> unicode_data \<Rightarrow> cpt_range \<Rightarrow> nat \<Rightarrow> nat list \<times> nat \<Rightarrow> (nat list \<times> nat) res" where
  "gpt2_loop 0 ucd r pos st = (if pos < rfin r then Inl StackOverflow else Inr st)"
| "gpt2_loop (Suc fuel) ucd r pos st =
    (if pos < rfin r then
       (case contraction (\<lambda>c. c) r pos of
          Some n \<Rightarrow> bindE (add_token r (pos + n) st) (\<lambda>(st', len). gpt2_loop fuel ucd r (pos + len) st')
        | None \<Rightarrow>
            (let fin = gpt2_match_end ucd r pos in
             bindE (add_token r fin st) (\<lambda>(st', _). gpt2_loop fuel ucd r fin st')))
     else Inr st)"

text \<open>The loop over the input offsets, for either matcher.\<close>

fun split_ranges ::
  "(cpt_range \<Rightarrow> nat \<Rightarrow> nat list \<times> nat \<Rightarrow> (nat list \<times> nat) res) \<Rightarrow> u32 list \<Rightarrow> nat list \<Rightarrow> nat
    \<Rightarrow> nat list \<Rightarrow> nat list res" where
  "split_ranges body cpts [] start offs = Inr offs"
| "split_ranges body cpts (offset # offsets) start offs =
    (let fin = start + offset in
     if \<not> fin \<le> length cpts then Inl (Abort ''offset_end <= cpts.size()'')
     else bindE (body \<lparr>rcpts = cpts, rini = start, rfin = fin\<rparr> start (offs, start))
       (\<lambda>(offs', _). split_ranges body cpts offsets fin offs'))"

definition unicode_regex_split_custom_gpt2 ::
  "unicode_data \<Rightarrow> byte list \<Rightarrow> nat list \<Rightarrow> nat list res" where
  "unicode_regex_split_custom_gpt2 ucd s offsets =
    bindE (unicode_cpts_from_utf8 s) (\<lambda>cpts.
      split_ranges (\<lambda>r. gpt2_loop (rfin r - rini r) ucd r) cpts offsets 0 [])"

section \<open>LLaMA-3\<close>

text \<open>\<open>\p{N}{1,3}\<close>: a token for every three numbers and one for the rest.\<close>

fun number_loop ::
  "nat \<Rightarrow> unicode_data \<Rightarrow> cpt_range \<Rightarrow> nat \<Rightarrow> nat \<Rightarrow> nat list \<times> nat
    \<Rightarrow> ((nat list \<times> nat) \<times> nat) res" where
  "number_loop 0 ucd r pos ini st =
    (if is_number (get_flags ucd r pos) then Inl StackOverflow else Inr (st, pos))"
| "number_loop (Suc fuel) ucd r pos ini st =
    (if is_number (get_flags ucd r pos) then
       (if pos + 1 - ini \<ge> 3 then
          bindE (add_token r (pos + 1) st) (\<lambda>(st', _). number_loop fuel ucd r (pos + 1) (pos + 1) st')
        else number_loop fuel ucd r (pos + 1) ini st)
     else Inr (st, pos))"

function skip_newlines :: "cpt_range \<Rightarrow> nat \<Rightarrow> nat" where
  "skip_newlines r pos =
    (if pos < rfin r \<and> (get_cpt r pos = 0x0d \<or> get_cpt r pos = 0x0a) then skip_newlines r (pos + 1)
     else pos)"
  by pat_completeness auto
termination by (relation "measure (\<lambda>(r, pos). rfin r - pos)") auto

declare skip_newlines.simps [simp del]

text \<open>\<open>last_end_r_or_n\<close>: behind the last line break among the spaces at \<open>pos\<close>, or 0.\<close>

definition last_newline_end :: "cpt_range \<Rightarrow> nat \<Rightarrow> nat \<Rightarrow> nat" where
  "last_newline_end r pos fin =
    fold (\<lambda>i e. if get_cpt r i = 0x0d \<or> get_cpt r i = 0x0a then Suc i else e) [pos..<fin] 0"

definition llama3_match_end :: "unicode_data \<Rightarrow> cpt_range \<Rightarrow> nat \<Rightarrow> nat" where
  "llama3_match_end ucd r pos =
    (let cpt = get_cpt r pos; fl = get_flags ucd r pos;
         flags2 = (if cpt = 0x20 then get_flags ucd r (pos + 1) else fl);
         space = (if cpt = 0x20 then 1 else 0)
     in if \<not> (cpt = 0x0d \<or> cpt = 0x0a \<or> is_number fl)
           \<and> (is_letter fl \<or> is_letter (get_flags ucd r (pos + 1))) then scan ucd r is_letter (pos + 1)
        else if \<not> (is_whitespace flags2 \<or> is_letter flags2 \<or> is_number flags2) \<and> fl \<noteq> 0 then
          skip_newlines r (scan ucd r is_other (pos + space))
        else
          (let e = last_newline_end r pos (scan ucd r is_whitespace pos) in
           if e > 0 then e else whitespace_end ucd r pos))"

text \<open>
  The letter branch of the source, tried first there, excludes a number at \<open>pos\<close>, so the number
  branch may be tested before the others.
\<close>

fun llama3_loop ::
  "nat \<Rightarrow> unicode_data \<Rightarrow> cpt_range \<Rightarrow> nat \<Rightarrow> nat list \<times> nat \<Rightarrow> (nat list \<times> nat) res" where
  "llama3_loop 0 ucd r pos st = (if pos < rfin r then Inl StackOverflow else Inr st)"
| "llama3_loop (Suc fuel) ucd r pos st =
    (if pos < rfin r then
       (case contraction (unicode_tolower ucd) r pos of
          Some n \<Rightarrow> bindE (add_token r (pos + n) st) (\<lambda>(st', len). llama3_loop fuel ucd r (pos + len) st')
        | None \<Rightarrow>
            if is_number (get_flags ucd r pos) then
              bindE (number_loop (rfin r - pos) ucd r pos pos st) (\<lambda>(st', pos').
              bindE (add_token r pos' st') (\<lambda>(st'', _). llama3_loop fuel ucd r pos' st''))
            else
              (let fin = llama3_match_end ucd r pos in
               bindE (add_token r fin st) (\<lambda>(st', _). llama3_loop fuel ucd r fin st')))
     else Inr st)"

definition unicode_regex_split_custom_llama3 ::
  "unicode_data \<Rightarrow> byte list \<Rightarrow> nat list \<Rightarrow> nat list res" where
  "unicode_regex_split_custom_llama3 ucd s offsets =
    bindE (unicode_cpts_from_utf8 s) (\<lambda>cpts.
      split_ranges (\<lambda>r. llama3_loop (rfin r - rini r) ucd r) cpts offsets 0 [])"

section \<open>The matchers cut every range into tokens\<close>

lemma scan_bounds:
  "pos \<le> rfin r \<Longrightarrow> pos \<le> scan ucd r P pos \<and> scan ucd r P pos \<le> rfin r"
  by (induction ucd r P pos rule: scan.induct) (subst (1 2) scan.simps, auto)

lemma scan_advances:
  assumes "P (get_flags ucd r pos)" "\<not> P 0"
  shows "pos < scan ucd r P pos \<and> scan ucd r P pos \<le> rfin r"
proof -
  have "pos < rfin r" using assms by (auto simp: get_flags_def split: if_splits)
  then show ?thesis using assms scan_bounds [of "pos + 1" r ucd P] by (subst (1 2) scan.simps) simp
qed

lemma contraction_bounds:
  "contraction lower r pos = Some n \<Longrightarrow> 0 < n \<and> pos + n \<le> rfin r"
  by (auto simp: contraction_def Let_def split: if_splits)

lemma whitespace_end_bounds:
  assumes "pos < rfin r"
  shows "pos < whitespace_end ucd r pos \<and> whitespace_end ucd r pos \<le> rfin r"
  using scan_bounds [of pos r ucd is_whitespace] assms by (auto simp: whitespace_end_def Let_def)

lemma gpt2_match_end_bounds:
  assumes "pos < rfin r"
  shows "pos < gpt2_match_end ucd r pos \<and> gpt2_match_end ucd r pos \<le> rfin r"
proof -
  define q where "q = pos + (if get_cpt r pos = 0x20 then 1 else 0)"
  have "pos < scan ucd r P q \<and> scan ucd r P q \<le> rfin r" if "P (get_flags ucd r q)" "\<not> P 0" for P
    using scan_advances [OF that] by (auto simp: q_def split: if_splits)
  moreover have "gpt2_match_end ucd r pos =
     (if is_letter (get_flags ucd r q) then scan ucd r is_letter q
      else if is_number (get_flags ucd r q) then scan ucd r is_number q
      else if is_other (get_flags ucd r q) then scan ucd r is_other q else whitespace_end ucd r pos)"
    by (simp add: gpt2_match_end_def q_def Let_def)
  ultimately show ?thesis using whitespace_end_bounds [OF assms, of ucd] by simp
qed

lemma skip_newlines_bounds:
  "pos \<le> rfin r \<Longrightarrow> pos \<le> skip_newlines r pos \<and> skip_newlines r pos \<le> rfin r"
  by (induction r pos rule: skip_newlines.induct) (subst (1 2) skip_newlines.simps, auto)

lemma last_newline_end_bounds:
  "last_newline_end r pos fin = 0 \<or> pos < last_newline_end r pos fin \<and> last_newline_end r pos fin \<le> fin"
proof (cases "pos \<le> fin")
  case True
  then show ?thesis
    by (induction fin rule: dec_induct) (auto simp: last_newline_end_def)
qed (simp add: last_newline_end_def)

lemma llama3_match_end_bounds:
  assumes pos: "pos < rfin r"
  shows "pos < llama3_match_end ucd r pos \<and> llama3_match_end ucd r pos \<le> rfin r"
proof -
  let ?c = "get_cpt r pos" and ?fl = "get_flags ucd r pos" and ?next = "get_flags ucd r (pos + 1)"
  let ?flags2 = "if ?c = 0x20 then ?next else ?fl" and ?space = "if ?c = 0x20 then 1 else 0 :: nat"
  have other: "pos < skip_newlines r (scan ucd r is_other (pos + ?space))
      \<and> skip_newlines r (scan ucd r is_other (pos + ?space)) \<le> rfin r"
    if "\<not> (is_whitespace ?flags2 \<or> is_letter ?flags2 \<or> is_number ?flags2)" "?fl \<noteq> 0"
  proof -
    have "pos < scan ucd r is_other (pos + ?space) \<and> scan ucd r is_other (pos + ?space) \<le> rfin r"
    proof (cases "?c = 0x20")
      case True
      then show ?thesis using scan_bounds [of "pos + 1" r ucd is_other] pos by simp
    next
      case False
      with that have "is_other ?fl" by (simp add: is_other_def)
      then show ?thesis using scan_advances [of is_other ucd r pos] False by simp
    qed
    then show ?thesis using skip_newlines_bounds [of "scan ucd r is_other (pos + ?space)" r] by linarith
  qed
  have "pos < scan ucd r is_letter (pos + 1) \<and> scan ucd r is_letter (pos + 1) \<le> rfin r"
    using scan_bounds [of "pos + 1" r ucd is_letter] pos by simp
  moreover have "scan ucd r is_whitespace pos \<le> rfin r" using scan_bounds [of pos r] pos by simp
  ultimately show ?thesis
    using other last_newline_end_bounds [of r pos "scan ucd r is_whitespace pos"]
      whitespace_end_bounds [OF pos, of ucd]
    by (auto simp: llama3_match_end_def Let_def)
qed

text \<open>A matcher's loop is right if it appends tokens that fill the range.\<close>

definition fills :: "nat \<Rightarrow> nat list \<Rightarrow> bool" where
  "fills n offs \<longleftrightarrow> sum_list offs = n \<and> 0 \<notin> set offs"

lemma fills_simps [simp]: "fills 0 []" "0 < n \<Longrightarrow> fills m offs \<Longrightarrow> fills (n + m) (n # offs)"
  by (simp_all add: fills_def)

lemma fills_append: "fills m xs \<Longrightarrow> fills n ys \<Longrightarrow> fills (m + n) (xs @ ys)"
  by (auto simp: fills_def)

lemma add_token_ok:
  "prev \<le> fin \<Longrightarrow> fin \<le> rfin r \<Longrightarrow> \<exists>new. add_token r fin (offs, prev) = Inr ((offs @ new, fin), fin - prev)
    \<and> fills (fin - prev) new"
  by (cases "prev < fin") (auto simp: add_token_def fills_def)

lemma less_fuel: "(pos :: nat) < fin \<Longrightarrow> n - pos \<le> Suc fuel \<Longrightarrow> n - fin \<le> fuel"
  by simp

lemma gpt2_loop_ok:
  assumes "pos \<le> rfin r" "rfin r - pos \<le> fuel"
  shows "\<exists>new. gpt2_loop fuel ucd r pos (offs, pos) = Inr (offs @ new, rfin r) \<and> fills (rfin r - pos) new"
  using assms
proof (induction fuel arbitrary: pos offs)
  case (Suc fuel)
  show ?case
  proof (cases "pos < rfin r")
    case True
    define fin where "fin = (case contraction (\<lambda>c. c) r pos of Some n \<Rightarrow> pos + n
      | None \<Rightarrow> gpt2_match_end ucd r pos)"
    have fin: "pos < fin" "fin \<le> rfin r"
      using gpt2_match_end_bounds [OF True, of ucd] contraction_bounds [of "\<lambda>c. c" r pos]
      by (auto simp: fin_def split: option.splits)
    then obtain new where new: "add_token r fin (offs, pos) = Inr ((offs @ new, fin), fin - pos)"
      "fills (fin - pos) new" using add_token_ok [of pos fin r offs] by auto
    obtain new' where new': "gpt2_loop fuel ucd r fin (offs @ new, fin) = Inr ((offs @ new) @ new', rfin r)"
      "fills (rfin r - fin) new'"
      using Suc.IH [OF fin(2), of "offs @ new"] less_fuel [OF fin(1) Suc.prems(2)] by auto
    have "gpt2_loop (Suc fuel) ucd r pos (offs, pos) = gpt2_loop fuel ucd r fin (offs @ new, fin)"
      using True new(1) fin by (auto simp: fin_def Let_def split: option.splits)
    with new' fills_append [OF new(2) new'(2)] fin show ?thesis by auto
  qed (use Suc.prems in simp)
qed simp

lemma number_loop_ok:
  assumes "pos \<le> rfin r" "rfin r - pos \<le> fuel" "ini \<le> pos"
  shows "\<exists>new ini' pos'. number_loop fuel ucd r pos ini (offs, ini) = Inr ((offs @ new, ini'), pos')
    \<and> fills (ini' - ini) new \<and> ini \<le> ini' \<and> ini' \<le> pos' \<and> pos' \<le> rfin r
    \<and> pos \<le> pos' \<and> (is_number (get_flags ucd r pos) \<longrightarrow> pos < pos')"
  using assms
proof (induction fuel arbitrary: pos ini offs)
  case 0
  then have "\<not> is_number (get_flags ucd r pos)" by (simp add: get_flags_def)
  with 0 show ?case by simp
next
  case (Suc fuel)
  show ?case
  proof (cases "is_number (get_flags ucd r pos)")
    case True
    then have pos: "pos < rfin r" by (auto simp: get_flags_def split: if_splits)
    show ?thesis
    proof (cases "pos + 1 - ini \<ge> 3")
      case three: True
      obtain new where new: "add_token r (pos + 1) (offs, ini)
          = Inr ((offs @ new, pos + 1), pos + 1 - ini)" "fills (pos + 1 - ini) new"
        using add_token_ok [of ini "pos + 1" r offs] pos Suc.prems by auto
      obtain new' ini' pos' where new':
        "number_loop fuel ucd r (pos + 1) (pos + 1) (offs @ new, pos + 1)
          = Inr (((offs @ new) @ new', ini'), pos')"
        "fills (ini' - (pos + 1)) new'" "pos + 1 \<le> ini'" "ini' \<le> pos'" "pos' \<le> rfin r"
        using Suc.IH [of "pos + 1" "pos + 1" "offs @ new"] pos less_fuel [OF _ Suc.prems(2), of "pos + 1"]
        by auto
      have "fills (ini' - ini) (new @ new')"
        using fills_append [OF new(2) new'(2)] new'(3) Suc.prems by simp
      then show ?thesis using True three new(1) new' Suc.prems by auto
    next
      case False
      with Suc.IH [of "pos + 1" ini offs] pos Suc.prems True show ?thesis by fastforce
    qed
  next
    case False
    with Suc.prems show ?thesis by simp
  qed
qed

lemma llama3_loop_ok:
  assumes "pos \<le> rfin r" "rfin r - pos \<le> fuel"
  shows "\<exists>new. llama3_loop fuel ucd r pos (offs, pos) = Inr (offs @ new, rfin r) \<and> fills (rfin r - pos) new"
  using assms
proof (induction fuel arbitrary: pos offs)
  case (Suc fuel)
  show ?case
  proof (cases "pos < rfin r")
    case True
    have "\<exists>new fin. llama3_loop (Suc fuel) ucd r pos (offs, pos)
        = llama3_loop fuel ucd r fin (offs @ new, fin) \<and> fills (fin - pos) new \<and> pos < fin \<and> fin \<le> rfin r"
    proof (cases "contraction (unicode_tolower ucd) r pos = None \<and> is_number (get_flags ucd r pos)")
      case number: True
      obtain new ini pos' where new: "number_loop (rfin r - pos) ucd r pos pos (offs, pos)
          = Inr ((offs @ new, ini), pos')" "fills (ini - pos) new" "pos \<le> ini" "ini \<le> pos'"
          "pos' \<le> rfin r" "pos < pos'"
        using number_loop_ok [of pos r "rfin r - pos" pos ucd offs] True number by auto
      obtain new' where new': "add_token r pos' (offs @ new, ini)
          = Inr (((offs @ new) @ new', pos'), pos' - ini)" "fills (pos' - ini) new'"
        using add_token_ok [of ini pos' r "offs @ new"] new by auto
      have "llama3_loop (Suc fuel) ucd r pos (offs, pos)
          = llama3_loop fuel ucd r pos' (offs @ new @ new', pos')"
        using True number new(1) new'(1) by simp
      moreover have "fills (pos' - pos) (new @ new')"
        using fills_append [OF new(2) new'(2)] new by simp
      ultimately show ?thesis using new by blast
    next
      case other: False
      define fin where "fin = (case contraction (unicode_tolower ucd) r pos of Some n \<Rightarrow> pos + n
        | None \<Rightarrow> llama3_match_end ucd r pos)"
      have fin: "pos < fin" "fin \<le> rfin r"
        using llama3_match_end_bounds [OF True, of ucd] contraction_bounds [of "unicode_tolower ucd" r pos]
        by (auto simp: fin_def split: option.splits)
      then obtain new where new: "add_token r fin (offs, pos) = Inr ((offs @ new, fin), fin - pos)"
        "fills (fin - pos) new" using add_token_ok [of pos fin r offs] by auto
      have "llama3_loop (Suc fuel) ucd r pos (offs, pos) = llama3_loop fuel ucd r fin (offs @ new, fin)"
        using True new(1) fin other by (auto simp: fin_def Let_def split: option.splits)
      with new fin show ?thesis by blast
    qed
    then obtain new fin where step: "llama3_loop (Suc fuel) ucd r pos (offs, pos)
        = llama3_loop fuel ucd r fin (offs @ new, fin)" "fills (fin - pos) new" "pos < fin" "fin \<le> rfin r"
      by blast
    obtain new' where new': "llama3_loop fuel ucd r fin (offs @ new, fin) = Inr ((offs @ new) @ new', rfin r)"
      "fills (rfin r - fin) new'"
      using Suc.IH [OF step(4), of "offs @ new"] less_fuel [OF step(3) Suc.prems(2)] by auto
    with fills_append [OF step(2) new'(2)] step show ?thesis by auto
  qed (use Suc.prems in simp)
qed simp

text \<open>\<open>refines\<close>: each offset of the first list is cut into offsets of the second.\<close>

definition refines :: "nat list \<Rightarrow> nat list \<Rightarrow> bool" where
  "refines offsets offs \<longleftrightarrow> (\<exists>parts. offs = concat parts \<and> map sum_list parts = offsets)"

lemma sum_list_concat: "sum_list (concat xss) = sum_list (map sum_list (xss :: nat list list))"
  by (induction xss) auto

lemma refines_sum: "refines offsets offs \<Longrightarrow> sum_list offs = sum_list offsets"
  by (auto simp: refines_def sum_list_concat)

lemma split_ranges_refines:
  assumes body: "\<And>r offs. rini r \<le> rfin r \<Longrightarrow>
      \<exists>new. body r (rini r) (offs, rini r) = Inr (offs @ new, rfin r) \<and> fills (rfin r - rini r) new"
    and "start + sum_list offsets \<le> length cpts"
  shows "\<exists>parts. split_ranges body cpts offsets start offs = Inr (offs @ concat parts)
    \<and> map sum_list parts = offsets \<and> 0 \<notin> set (concat parts)"
  using assms(2)
proof (induction offsets arbitrary: start offs)
  case (Cons offset offsets)
  let ?r = "\<lparr>rcpts = cpts, rini = start, rfin = start + offset\<rparr>"
  obtain new where new: "body ?r start (offs, start) = Inr (offs @ new, start + offset)" "fills offset new"
    using body [of ?r offs] by auto
  obtain parts where "split_ranges body cpts offsets (start + offset) (offs @ new)
      = Inr ((offs @ new) @ concat parts)" "map sum_list parts = offsets" "0 \<notin> set (concat parts)"
    using Cons.IH [of "start + offset" "offs @ new"] Cons.prems by auto
  with new Cons.prems show ?case by (intro exI [of _ "new # parts"]) (auto simp: fills_def)
qed (simp add: exI [of _ "[]"])

lemma split_ranges_loops:
  assumes "sum_list offsets \<le> length cpts"
  shows "\<exists>offs. split_ranges (\<lambda>r. gpt2_loop (rfin r - rini r) ucd r) cpts offsets 0 [] = Inr offs
      \<and> refines offsets offs \<and> 0 \<notin> set offs"
    and "\<exists>offs. split_ranges (\<lambda>r. llama3_loop (rfin r - rini r) ucd r) cpts offsets 0 [] = Inr offs
      \<and> refines offsets offs \<and> 0 \<notin> set offs"
proof -
  have "\<exists>parts. split_ranges (\<lambda>r. gpt2_loop (rfin r - rini r) ucd r) cpts offsets 0 [] = Inr ([] @ concat parts)
      \<and> map sum_list parts = offsets \<and> 0 \<notin> set (concat parts)"
    using assms by (intro split_ranges_refines gpt2_loop_ok) auto
  then show "\<exists>offs. split_ranges (\<lambda>r. gpt2_loop (rfin r - rini r) ucd r) cpts offsets 0 [] = Inr offs
      \<and> refines offsets offs \<and> 0 \<notin> set offs" by (auto simp: refines_def)
  have "\<exists>parts. split_ranges (\<lambda>r. llama3_loop (rfin r - rini r) ucd r) cpts offsets 0 [] = Inr ([] @ concat parts)
      \<and> map sum_list parts = offsets \<and> 0 \<notin> set (concat parts)"
    using assms by (intro split_ranges_refines llama3_loop_ok) auto
  then show "\<exists>offs. split_ranges (\<lambda>r. llama3_loop (rfin r - rini r) ucd r) cpts offsets 0 [] = Inr offs
      \<and> refines offsets offs \<and> 0 \<notin> set offs" by (auto simp: refines_def)
qed

text \<open>
  The hand-written matchers always return, without a failed assertion, and cut each given range
  into non-empty tokens that fill it exactly.
\<close>

theorem custom_split_refines:
  assumes "unicode_cpts_from_utf8 s = Inr cpts" and "sum_list offsets \<le> length cpts"
  shows "\<exists>gpt2 llama3. unicode_regex_split_custom_gpt2 ucd s offsets = Inr gpt2
    \<and> unicode_regex_split_custom_llama3 ucd s offsets = Inr llama3
    \<and> refines offsets gpt2 \<and> refines offsets llama3 \<and> 0 \<notin> set gpt2 \<and> 0 \<notin> set llama3"
  using split_ranges_loops [OF assms(2), of ucd] assms(1)
  by (auto simp: unicode_regex_split_custom_gpt2_def unicode_regex_split_custom_llama3_def)

section \<open>The fallback and the dispatch\<close>

text \<open>
  \<open>std::regex\<close> is a parameter: compiling an expression fails (\<open>std::regex_error\<close>) or gives the
  position and length of its successive matches in a text.
\<close>

type_synonym 'c regex_engine = "'c list \<Rightarrow> ('c list \<Rightarrow> (nat \<times> nat) list) option"

fun stl_matches :: "nat \<Rightarrow> (nat \<times> nat) list \<Rightarrow> nat \<Rightarrow> nat list" where
  "stl_matches offset [] start_idx = (if start_idx < offset then [offset - start_idx] else [])"
| "stl_matches offset ((position, len) # ms) start_idx =
    (if position > start_idx then [position - start_idx] else [])
      @ len # stl_matches offset ms (position + len)"

fun unicode_regex_split_stl :: "('c list \<Rightarrow> (nat \<times> nat) list) \<Rightarrow> 'c list \<Rightarrow> nat list \<Rightarrow> nat list" where
  "unicode_regex_split_stl expr s [] = []"
| "unicode_regex_split_stl expr s (offset # offsets) =
    stl_matches offset (expr (take offset s)) 0
      @ unicode_regex_split_stl expr (drop offset s) offsets"

text \<open>
  C++ string literals with quotes and backslashes: a backquote stands for a quote, a tilde for a
  backslash (neither occurs in the expressions themselves).
\<close>

definition regex_lit :: "string \<Rightarrow> byte list" where
  "regex_lit s = map (\<lambda>c. if c = CHR 0x60 then 0x27 else if c = CHR 0x7E then 0x5c else of_char c) s"

definition GPT2_REGEX :: "byte list" where
  "GPT2_REGEX = regex_lit ''`s|`t|`re|`ve|`m|`ll|`d| ?~p{L}+| ?~p{N}+| ?[^~s~p{L}~p{N}]+|~s+(?!~S)''"

definition LLAMA3_REGEX :: "byte list" where
  "LLAMA3_REGEX = regex_lit (''(?i:`s|`t|`re|`ve|`m|`ll|`d)|[^~r~n~p{L}~p{N}]?~p{L}+|~p{N}{1,3}''
     @ ''| ?[^~s~p{L}~p{N}]+[~r~n]*|~s*[~r~n]+|~s+(?!~S)|~s+'')"

definition LLAMA3_ADAPTED_REGEX :: "byte list" where
  "LLAMA3_ADAPTED_REGEX = regex_lit (''(?:`[sS]|`[tT]|`[rR][eE]|`[vV][eE]|`[mM]|`[lL][lL]|`[dD])''
     @ ''|[^~r~n~p{L}~p{N}]?~p{L}+|~p{N}{1,3}| ?[^~s~p{L}~p{N}]+[~r~n]*|~s*[~r~n]+|~s+(?!~S)|~s+'')"

definition unicode_regex_split_custom ::
  "unicode_data \<Rightarrow> byte list \<Rightarrow> byte list \<Rightarrow> nat list \<Rightarrow> nat list res" where
  "unicode_regex_split_custom ucd s regex_expr offsets =
    (if regex_expr = GPT2_REGEX then unicode_regex_split_custom_gpt2 ucd s offsets
     else if regex_expr = LLAMA3_REGEX \<or> regex_expr = LLAMA3_ADAPTED_REGEX then
       unicode_regex_split_custom_llama3 ucd s offsets
     else Inr [])"

text \<open>The categories and their collapsed representation (\<open>k_ucat_enum\<close>, \<open>k_ucat_cpt\<close>, \<open>k_ucat_map\<close>).\<close>

definition k_ucat :: "(byte list \<times> flags \<times> byte \<times> byte list) list" where
  "k_ucat =
    [(regex_lit ''~p{N}'', NUMBER, 0xD1, regex_lit ''0-9''),
     (regex_lit ''~p{L}'', LETTER, 0xD2, regex_lit ''A-Za-z''),
     (regex_lit ''~p{P}'', PUNCTUATION, 0xD3, regex_lit ''!-#%-*,-/:-;?-@~[-~]_~{~}'')]"

definition uses_category :: "byte list \<Rightarrow> bool" where
  "uses_category regex_expr \<longleftrightarrow> list_ex (\<lambda>(pat, _). str_find regex_expr pat 0 \<noteq> None) k_ucat"

definition collapse_cpt :: "unicode_data \<Rightarrow> u32 \<Rightarrow> byte" where
  "collapse_cpt ucd cpt =
    (if cpt < 128 then ucast cpt
     else let fl = unicode_cpt_flags ucd cpt in
       if is_whitespace fl then 0x0B
       else (case map_of (map snd k_ucat) (fl AND MASK_CATEGORIES) of
           Some (c, _) \<Rightarrow> c
         | None \<Rightarrow> 0xD0))"

text \<open>The collapsed expression: \<open>inside\<close> tracks bracket expressions.\<close>

function collapse_regex :: "byte list \<Rightarrow> nat \<Rightarrow> bool \<Rightarrow> byte list" where
  "collapse_regex re i inside =
    (if \<not> i < length re then []
     else if re ! i = ch CHR ''['' \<and> (i = 0 \<or> re ! (i - 1) \<noteq> 0x5c) then
       ch CHR ''['' # collapse_regex re (i + 1) True
     else if inside \<and> re ! i = ch CHR '']'' \<and> re ! (i - 1) \<noteq> 0x5c then
       ch CHR '']'' # collapse_regex re (i + 1) False
     else if re ! i = 0x5c \<and> i + 4 < length re \<and> re ! (i + 1) = ch CHR ''p'' \<and> re ! (i + 2) = ch CHR ''{''
         \<and> re ! (i + 4) = ch CHR ''}'' \<and> map_of k_ucat (take 5 (drop i re)) \<noteq> None then
       (case map_of k_ucat (take 5 (drop i re)) of
          Some (_, c, m) \<Rightarrow>
            (if inside then [] else [ch CHR ''['']) @ c # m @ (if inside then [] else [ch CHR '']''])
        | None \<Rightarrow> []) @ collapse_regex re (i + 5) inside
     else re ! i # collapse_regex re (i + 1) inside)"
  by pat_completeness auto
termination by (relation "measure (\<lambda>(re, i, inside). length re - i)") auto

declare collapse_regex.simps [simp del]

definition failed_regex :: cxx_error where
  "failed_regex = RuntimeError ''Failed to process regex''"

definition split_fallback ::
  "unicode_data \<Rightarrow> byte regex_engine \<Rightarrow> u32 regex_engine \<Rightarrow> u32 list \<Rightarrow> byte list \<Rightarrow> nat list \<Rightarrow> nat list res"
  where
  "split_fallback ucd std_regex std_wregex cpts regex_expr offsets =
    (if uses_category regex_expr then
       bindE (unicode_cpts_from_utf8 regex_expr) (\<lambda>cpts_regex.
         if list_ex (\<lambda>c. c \<ge> 128) cpts_regex then
           Inl (RuntimeError ''Regex includes both unicode categories and non-ASCII characters'')
         else case std_regex (collapse_regex regex_expr 0 False) of
             None \<Rightarrow> Inl failed_regex
           | Some expr \<Rightarrow> Inr (unicode_regex_split_stl expr (map (collapse_cpt ucd) cpts) offsets))
     else
       bindE (unicode_cpts_from_utf8 regex_expr) (\<lambda>wregex_expr.
         case std_wregex wregex_expr of
           None \<Rightarrow> Inl failed_regex
         | Some expr \<Rightarrow> Inr (unicode_regex_split_stl expr
             (map (\<lambda>c. if c > 0x7F \<and> is_whitespace (unicode_cpt_flags ucd c) then 0x0B else c) cpts)
             offsets)))"

definition split_expr ::
  "unicode_data \<Rightarrow> byte regex_engine \<Rightarrow> u32 regex_engine \<Rightarrow> byte list \<Rightarrow> u32 list \<Rightarrow> byte list \<Rightarrow> nat list
    \<Rightarrow> nat list res" where
  "split_expr ucd std_regex std_wregex s cpts regex_expr offsets =
    bindE (unicode_regex_split_custom ucd s regex_expr offsets) (\<lambda>tmp.
      if tmp \<noteq> [] then Inr tmp
      else split_fallback ucd std_regex std_wregex cpts regex_expr offsets)"

fun cut_words :: "u32 list \<Rightarrow> nat list \<Rightarrow> byte list list res" where
  "cut_words cpts [] = Inr []"
| "cut_words cpts (offset # offsets) =
    (if offset \<le> length cpts then
       bindE (mapE unicode_cpt_to_utf8 (take offset cpts)) (\<lambda>us.
       bindE (cut_words (drop offset cpts) offsets) (\<lambda>ws. Inr (concat us # ws)))
     else Inl (UndefinedBehaviour ''cpts[i]''))"

definition unicode_regex_split ::
  "unicode_data \<Rightarrow> byte regex_engine \<Rightarrow> u32 regex_engine \<Rightarrow> byte list \<Rightarrow> byte list list
    \<Rightarrow> byte list list res" where
  "unicode_regex_split ucd std_regex std_wregex s regex_exprs =
    bindE (unicode_cpts_from_utf8 s) (\<lambda>cpts.
    bindE (foldE (split_expr ucd std_regex std_wregex s cpts) regex_exprs [length cpts]) (\<lambda>bpe_offsets.
    bindE (cut_words cpts bpe_offsets) unicode_byte_encoding_process))"

section \<open>No text is lost\<close>

text \<open>
  What the standard says of the matches of \<open>std::regex_iterator\<close>: they lie in the text, one after the
  other.
\<close>

fun matches_ok :: "nat \<Rightarrow> (nat \<times> nat) list \<Rightarrow> nat \<Rightarrow> bool" where
  "matches_ok n [] start \<longleftrightarrow> start \<le> n"
| "matches_ok n ((position, len) # ms) start \<longleftrightarrow> start \<le> position \<and> matches_ok n ms (position + len)"

definition engine_ok :: "'c regex_engine \<Rightarrow> bool" where
  "engine_ok engine \<longleftrightarrow> (\<forall>re expr. engine re = Some expr \<longrightarrow> (\<forall>s. matches_ok (length s) (expr s) 0))"

lemma stl_matches_sum: "matches_ok n ms start \<Longrightarrow> start + sum_list (stl_matches n ms start) = n"
  by (induction n ms start rule: stl_matches.induct) auto

lemma stl_split_sum:
  assumes "\<And>t. matches_ok (length t) (expr t) 0" "sum_list offsets \<le> length s"
  shows "sum_list (unicode_regex_split_stl expr s offsets) = sum_list offsets"
  using assms(2)
proof (induction offsets arbitrary: s)
  case (Cons offset offsets)
  then have "matches_ok offset (expr (take offset s)) 0" using assms(1) [of "take offset s"] by simp
  with Cons stl_matches_sum [of offset "expr (take offset s)" 0] show ?case by simp
qed simp

lemma split_expr_sum:
  assumes "split_expr ucd std_regex std_wregex s cpts re offsets = Inr offs"
    and "engine_ok std_regex" "engine_ok std_wregex" "unicode_cpts_from_utf8 s = Inr cpts"
    and "sum_list offsets = length cpts"
  shows "sum_list offs = length cpts"
proof -
  have custom: "sum_list tmp = length cpts" if "unicode_regex_split_custom ucd s re offsets = Inr tmp"
    "tmp \<noteq> []" for tmp
    using that split_ranges_loops [of offsets cpts ucd] assms(4,5) refines_sum
    by (auto simp: unicode_regex_split_custom_def unicode_regex_split_custom_gpt2_def
        unicode_regex_split_custom_llama3_def split: if_splits)
  have "sum_list offs = length cpts"
    if "split_fallback ucd std_regex std_wregex cpts re offsets = Inr offs"
    using that assms(2,3,5) unfolding split_fallback_def
    by (auto simp: bindE_Inr_iff engine_ok_def stl_split_sum split: if_splits option.splits)
  with custom assms(1) show ?thesis by (auto simp: split_expr_def bindE_Inr_iff split: if_splits)
qed

lemma cut_words_valid:
  assumes "mapE unicode_cpt_to_utf8 cpts = Inr us" "sum_list offsets = length cpts"
  shows "\<exists>css. cut_words cpts offsets = Inr (map concat css) \<and> concat css = us
    \<and> (\<exists>pss. concat pss = cpts \<and> list_all2 (\<lambda>ps cs. mapE unicode_cpt_to_utf8 ps = Inr cs) pss css)"
  using assms
proof (induction offsets arbitrary: cpts us)
  case Nil
  then show ?case by (intro exI [of _ "[]"]) auto
next
  case (Cons offset offsets)
  have "list_all2 (\<lambda>c u. unicode_cpt_to_utf8 c = Inr u) cpts us" using Cons.prems(1) by (simp add: mapE_Inr_iff)
  then have tk: "mapE unicode_cpt_to_utf8 (take offset cpts) = Inr (take offset us)"
    "mapE unicode_cpt_to_utf8 (drop offset cpts) = Inr (drop offset us)"
    by (auto simp: mapE_Inr_iff list_all2_takeI list_all2_dropI)
  have rest: "sum_list offsets = length (drop offset cpts)" using Cons.prems(2) by simp
  obtain css pss where c: "cut_words (drop offset cpts) offsets = Inr (map concat css)"
    "concat css = drop offset us" "concat pss = drop offset cpts"
    "list_all2 (\<lambda>ps cs. mapE unicode_cpt_to_utf8 ps = Inr cs) pss css"
    using Cons.IH [OF tk(2) rest] by blast
  with tk(1) Cons.prems(2) show ?case
    by (intro exI [of _ "take offset us # css"] conjI exI [of _ "take offset cpts # pss"]) auto
qed

lemma encode_valid_word:
  assumes "mapE unicode_cpt_to_utf8 ps = Inr cs"
  shows "encode_word (concat cs) = Inr (concat (map byte_text (concat cs)))"
  using cpts_loop_encode [OF assms, of "[]"] assms
  by (simp add: encode_word_def unicode_cpts_from_utf8_def mapE_byte_text)

lemma unicode_regex_split_words:
  assumes "unicode_cpts_to_utf8 cps = Inr s" "engine_ok std_regex" "engine_ok std_wregex"
    and "unicode_regex_split ucd std_regex std_wregex s regex_exprs = Inr words"
  shows "\<exists>ws. words = map (\<lambda>w. concat (map byte_text w)) ws \<and> concat ws = s"
proof -
  obtain us where us: "mapE unicode_cpt_to_utf8 cps = Inr us" and s: "s = concat us"
    using assms(1) by (auto simp: unicode_cpts_to_utf8_def bindE_Inr_iff)
  then have cpts: "unicode_cpts_from_utf8 s = Inr cps"
    using cpts_loop_encode [OF us, of "[]"] by (simp add: unicode_cpts_from_utf8_def)
  with assms(4) obtain offs cut where
    offs: "foldE (split_expr ucd std_regex std_wregex s cps) regex_exprs [length cps] = Inr offs"
    and cut: "cut_words cps offs = Inr cut" "unicode_byte_encoding_process cut = Inr words"
    by (auto simp: unicode_regex_split_def bindE_Inr_iff)
  have "sum_list offs = length cps"
    by (rule foldE_invariant [OF offs]) (use split_expr_sum assms(2,3) cpts in auto)
  from cut_words_valid [OF us this] cut(1) obtain css pss where css: "cut = map concat css" "concat css = us"
    "list_all2 (\<lambda>ps cs. mapE unicode_cpt_to_utf8 ps = Inr cs) pss css" by auto
  have "encode_word (concat cs) = Inr (concat (map byte_text (concat cs)))" if "cs \<in> set css" for cs
  proof -
    have "\<exists>ps. mapE unicode_cpt_to_utf8 ps = Inr cs"
      using css(3) that by (induction pss css rule: list_all2_induct) auto
    then show ?thesis using encode_valid_word by blast
  qed
  then have "mapE encode_word cut = Inr (map (\<lambda>w. concat (map byte_text w)) cut)"
    by (intro mapE_Inr_map) (auto simp: css(1))
  moreover have "concat (map concat css) = concat (concat css)" by (induction css) auto
  ultimately show ?thesis using cut(2) css s
    by (intro exI [of _ cut]) (auto simp: unicode_byte_encoding_process_def)
qed

text \<open>
  C26: if the split returns, decoding the words it gives and joining them gives the text back, so no
  part of a text is lost or duplicated, whatever the expressions; and no word has a space or a
  control byte.
\<close>

theorem unicode_regex_split_lossless:
  assumes "unicode_cpts_to_utf8 cps = Inr s" "engine_ok std_regex" "engine_ok std_wregex"
    and "unicode_regex_split ucd std_regex std_wregex s regex_exprs = Inr words"
  shows "bindE (mapE llama_decode_text words) (\<lambda>ws. Inr (concat ws)) = Inr s
    \<and> (\<forall>c. c \<in> set (concat words) \<longrightarrow> c \<ge> 0x21)"
proof -
  obtain ws where ws: "words = map (\<lambda>w. concat (map byte_text w)) ws" "concat ws = s"
    using unicode_regex_split_words [OF assms] by blast
  have "mapE llama_decode_text words = Inr ws"
    unfolding ws(1) by (induction ws) (simp_all add: decode_byte_texts)
  moreover have "\<forall>c. c \<in> set (concat words) \<longrightarrow> c \<ge> 0x21"
    unfolding ws(1) using byte_text_printable by auto
  ultimately show ?thesis using ws(2) by simp
qed

text \<open>A small table: letters \<open>a\<close> to \<open>z\<close>, and the space.\<close>

definition small_data :: unicode_data where
  "small_data = \<lparr>unicode_ranges_flags = [(0, UNDEFINED), (0x61, LETTER), (0x7b, UNDEFINED), (0x110000, 0)],
     unicode_set_whitespace = [0x20], unicode_map_lowercase = [], unicode_map_uppercase = [],
     unicode_ranges_nfd = [(0, 0, 0)]\<rparr>"

lemma custom_split_refines_witness:
  "\<exists>gpt2 llama3. unicode_regex_split_custom_gpt2 small_data (bytes ''a  b'') [2, 2] = Inr gpt2
    \<and> unicode_regex_split_custom_llama3 small_data (bytes ''a  b'') [2, 2] = Inr llama3
    \<and> refines [2, 2] gpt2 \<and> refines [2, 2] llama3 \<and> 0 \<notin> set gpt2 \<and> 0 \<notin> set llama3"
proof (rule custom_split_refines)
  show "unicode_cpts_from_utf8 (bytes ''a  b'') = Inr [0x61, 0x20, 0x20, 0x62]" by code_simp
qed simp

definition no_matches :: "'c regex_engine" where
  "no_matches = (\<lambda>_. Some (\<lambda>_. []))"

lemma no_matches_ok: "engine_ok no_matches"
  by (simp add: engine_ok_def no_matches_def)

lemma unicode_regex_split_lossless_witness:
  "bindE (mapE llama_decode_text (map (\<lambda>w. concat (map byte_text w)) [bytes ''a'', bytes '' b'']))
      (\<lambda>ws. Inr (concat ws)) = Inr (bytes ''a b'')
   \<and> 0x20 \<notin> set (concat (map (\<lambda>w. concat (map byte_text w)) [bytes ''a'', bytes '' b'']))"
proof -
  let ?words = "map (\<lambda>w. concat (map byte_text w)) [bytes ''a'', bytes '' b'']"
  have "unicode_cpts_from_utf8 (bytes ''a b'') = Inr [0x61, 0x20, 0x62]" by code_simp
  moreover have "foldE (split_expr small_data no_matches no_matches (bytes ''a b'') [0x61, 0x20, 0x62])
      [GPT2_REGEX] [3] = Inr [1, 2]" by code_simp
  moreover have "cut_words [0x61, 0x20, 0x62] [1, 2] = Inr [bytes ''a'', bytes '' b'']" by code_simp
  moreover have "unicode_byte_encoding_process [bytes ''a'', bytes '' b''] = Inr ?words"
  proof -
    have "mapE unicode_cpt_to_utf8 [0x61] = Inr [bytes ''a'']"
      "mapE unicode_cpt_to_utf8 [0x20, 0x62] = Inr [bytes '' '', bytes ''b'']" by code_simp+
    from encode_valid_word [OF this(1)] encode_valid_word [OF this(2)] show ?thesis
      by (simp add: unicode_byte_encoding_process_def bytes_def)
  qed
  moreover have "length [0x61, 0x20, 0x62 :: u32] = 3" by simp
  ultimately have run: "unicode_regex_split small_data no_matches no_matches (bytes ''a b'') [GPT2_REGEX]
      = Inr ?words"
    by (simp only: unicode_regex_split_def bindE_simps)
  have "unicode_cpts_to_utf8 [0x61, 0x20, 0x62] = Inr (bytes ''a b'')" by code_simp
  from unicode_regex_split_lossless [OF this no_matches_ok no_matches_ok run]
  have "bindE (mapE llama_decode_text ?words) (\<lambda>ws. Inr (concat ws)) = Inr (bytes ''a b'')
      \<and> (\<forall>c. c \<in> set (concat ?words) \<longrightarrow> c \<ge> 0x21)" .
  then show ?thesis by (auto simp: word_le_nat_alt)
qed

end
