(* ===== verification/BpeText.thy ===== *)
theory BpeText
  imports BpeTokenizer PreTokenizer
begin

text \<open>The BPE tokenizer behind the split of a text into words.\<close>

text \<open>
  C25: when the split of a UTF-8 text returns, tokenizing returns as well (no assertion on spaces in
  a token fails). Every word contributes the tokens of its pieces, in order: a word that is a token
  itself stays whole where the vocabulary says so, any other word is left with the pieces of the
  greedy merge, which takes the leftmost pair of the lowest rank first, whatever order the heap
  gives to entries of equal rank. The pieces of a word spell it.
\<close>

theorem bpe_tokenize_greedy:
  assumes "unicode_cpts_to_utf8 cps = Inr s" "engine_ok std_regex" "engine_ok std_wregex"
    and "unicode_regex_split ucd std_regex std_wregex s regex_exprs = Inr words"
  shows "bpe_tokenize vocab tie
      (\<lambda>t. unicode_regex_split ucd std_regex std_wregex t regex_exprs) s out
    = Inr (out @ concat (map (bpe_tokens vocab) (concat (map (bpe_pieces vocab) words))))
    \<and> map (\<lambda>w. concat (bpe_pieces vocab w)) words = words"
proof -
  obtain ws where ws: "words = map (\<lambda>w. concat (map byte_text w)) ws"
    using unicode_regex_split_words [OF assms] by blast
  have "plain word" if "word \<in> set words" for word
    using that byte_text_printable unfolding ws plain_def by (fastforce simp: word_le_nat_alt)
  from bpe_tokenize_eq [where split = "\<lambda>t. unicode_regex_split ucd std_regex std_wregex t regex_exprs",
      OF assms(4) this] show ?thesis by (simp add: bpe_pieces_concat)
qed

definition bpe_vocab :: "int llama_vocab" where
  "bpe_vocab = empty_vocab\<lparr>vocab_type := VOCAB_BPE,
     token_to_id := [bytes ''a'' \<mapsto> 0, bytes ''b'' \<mapsto> 1, bytes ''ab'' \<mapsto> 2, bytes ''aba'' \<mapsto> 3],
     bpe_ranks := [(bytes ''a'', bytes ''b'') \<mapsto> 0, (bytes ''ab'', bytes ''a'') \<mapsto> 1]\<rparr>"

lemma bpe_tokenize_greedy_witness:
  "bpe_tokenize bpe_vocab (\<lambda>_. 0) (\<lambda>t. unicode_regex_split small_data no_matches no_matches t [])
      (bytes ''aba'') [7] = Inr [7, 3]
   \<and> map (\<lambda>w. concat (bpe_pieces bpe_vocab w)) [bytes ''aba''] = [bytes ''aba'']"
proof -
  have s: "unicode_cpts_to_utf8 [0x61, 0x62, 0x61] = Inr (bytes ''aba'')" by code_simp
  have enc: "mapE unicode_cpt_to_utf8 [0x61, 0x62, 0x61] = Inr [bytes ''a'', bytes ''b'', bytes ''a'']"
    by code_simp
  have "concat (map byte_text (bytes ''aba'')) = bytes ''aba''" by code_simp
  with encode_valid_word [OF enc] have "encode_word (bytes ''aba'') = Inr (bytes ''aba'')"
    by (simp add: bytes_def)
  then have "unicode_byte_encoding_process [bytes ''aba''] = Inr [bytes ''aba'']"
    by (simp add: unicode_byte_encoding_process_def)
  moreover have "unicode_cpts_from_utf8 (bytes ''aba'') = Inr [0x61, 0x62, 0x61]" by code_simp
  moreover have "cut_words [0x61, 0x62, 0x61] [3] = Inr [bytes ''aba'']" by code_simp
  moreover have "length [0x61, 0x62, 0x61 :: u32] = 3" by simp
  ultimately have run: "unicode_regex_split small_data no_matches no_matches (bytes ''aba'') []
      = Inr [bytes ''aba'']"
    by (simp only: unicode_regex_split_def bindE_simps foldE.simps)
  have "bpe_pieces bpe_vocab (bytes ''aba'') = [bytes ''aba'']" by code_simp
  moreover have "bpe_tokens bpe_vocab (bytes ''aba'') = [3]" by code_simp
  ultimately show ?thesis
    using bpe_tokenize_greedy [OF s no_matches_ok no_matches_ok run, of bpe_vocab "\<lambda>_. 0" "[7]"] by simp
qed

end
