(* ===== verification/WpmTokenizer.thy ===== *)
theory WpmTokenizer
  imports PreTokenizer
begin

text \<open>
  \<open>llm_tokenizer_wpm\<close> of \<open>src/src/llama-vocab.cpp\<close>: the text is normalized and cut into words, and
  every word is segmented greedily, each time with the longest token that matches.
\<close>

section \<open>Words\<close>

definition is_chinese_char :: "u32 \<Rightarrow> bool" where
  "is_chinese_char cpt \<longleftrightarrow>
     0x04E00 \<le> cpt \<and> cpt \<le> 0x09FFF \<or>
     0x03400 \<le> cpt \<and> cpt \<le> 0x04DBF \<or>
     0x20000 \<le> cpt \<and> cpt \<le> 0x2A6DF \<or>
     0x2A700 \<le> cpt \<and> cpt \<le> 0x2B73F \<or>
     0x2B740 \<le> cpt \<and> cpt \<le> 0x2B81F \<or>
     0x2B920 \<le> cpt \<and> cpt \<le> 0x2CEAF \<or>
     0x0F900 \<le> cpt \<and> cpt \<le> 0x0FAFF \<or>
     0x2F800 \<le> cpt \<and> cpt \<le> 0x2FA1F"

text \<open>\<open>words\<close> is never empty: the finished words, and \<open>words.back()\<close>.\<close>

definition finish_word :: "byte list list \<times> byte list \<Rightarrow> byte list list \<times> byte list" where
  "finish_word st = (if snd st \<noteq> [] then (fst st @ [snd st], []) else st)"

definition single_char_word :: "flags \<Rightarrow> u32 \<Rightarrow> bool" where
  "single_char_word f cpt \<longleftrightarrow> is_punctuation f \<or> cpt < 0x7F \<and> is_symbol f \<or> is_chinese_char cpt"

fun wpm_char :: "unicode_data \<Rightarrow> u32 \<Rightarrow> byte list list \<times> byte list \<Rightarrow> (byte list list \<times> byte list) res" where
  "wpm_char ucd cpt st =
    (let f = unicode_cpt_flags ucd cpt in
     if is_whitespace f then Inr (finish_word st)
     else if is_separator f then Inl (Abort ''!flags.is_separator'')
     else if cpt = 0 \<or> cpt = 0xFFFD \<or> is_control f then Inr st
     else bindE (unicode_cpt_to_utf8 (unicode_tolower ucd cpt)) (\<lambda>s.
       if single_char_word f cpt then Inr (fst (finish_word st) @ [s], [])
       else Inr (fst st, snd st @ s)))"

definition preprocess :: "unicode_data \<Rightarrow> byte list \<Rightarrow> byte list list res" where
  "preprocess ucd s =
    bindE (unicode_cpts_from_utf8 s) (\<lambda>cpts.
    bindE (unicode_cpts_normalize_nfd ucd cpts) (\<lambda>cpts_nfd.
    bindE (foldE (wpm_char ucd) cpts_nfd ([], [])) (\<lambda>(ws, back).
      Inr (if back = [] then ws else ws @ [back]))))"

section \<open>Tokens of a word\<close>

text \<open>The inner loop: \<open>j\<close> counts down to the start \<open>i\<close>.\<close>

fun wpm_match :: "'s llama_vocab \<Rightarrow> byte list \<Rightarrow> nat \<Rightarrow> nat \<Rightarrow> (int \<times> nat) option" where
  "wpm_match vocab word1 i j =
    (if j > i then
       (case token_to_id vocab (take (j - i) (drop i word1)) of
          Some t \<Rightarrow> Some (t, j)
        | None \<Rightarrow> wpm_match vocab word1 i (j - 1))
     else None)"

declare wpm_match.simps [simp del]

definition wpm_top :: "'s llama_vocab \<Rightarrow> byte list \<Rightarrow> nat \<Rightarrow> nat" where
  "wpm_top vocab word1 i = Orderings.min (length word1) (i + max_token_len vocab + 1)"

lemma wpm_match_bounds: "wpm_match vocab word1 i j = Some (t, j') \<Longrightarrow> i < j' \<and> j' \<le> j"
  by (induction vocab word1 i j rule: wpm_match.induct)
     (subst (asm) (2) wpm_match.simps, force split: if_splits option.splits)

text \<open>The outer loop; where nothing matches, the tokens of the word are discarded.\<close>

function wpm_loop :: "'s llama_vocab \<Rightarrow> byte list \<Rightarrow> nat \<Rightarrow> nat \<Rightarrow> int list \<Rightarrow> int list" where
  "wpm_loop vocab word1 current_tokens i out =
    (if i < length word1 then
       (case wpm_match vocab word1 i (wpm_top vocab word1 i) of
          Some (t, j) \<Rightarrow> wpm_loop vocab word1 current_tokens j (out @ [t])
        | None \<Rightarrow> take current_tokens out)
     else out)"
  by pat_completeness auto
termination
  by (relation "measure (\<lambda>(vocab, word1, current_tokens, i, out). length word1 - i)")
     (auto dest!: wpm_match_bounds)

declare wpm_loop.simps [simp del]

definition wpm_word :: "'s llama_vocab \<Rightarrow> byte list \<Rightarrow> int list \<Rightarrow> int list" where
  "wpm_word vocab word out =
    (if word = [] then out
     else
       (let out' = wpm_loop vocab (escaped_space @ word) (length out) 0 out in
        if length out = length out' then out' @ [special_unk_id vocab] else out'))"

definition wpm_tokenize :: "unicode_data \<Rightarrow> 's llama_vocab \<Rightarrow> byte list \<Rightarrow> int list \<Rightarrow> int list res" where
  "wpm_tokenize ucd vocab s out =
    bindE (preprocess ucd s) (\<lambda>words. Inr (fold (wpm_word vocab) words out))"

section \<open>Greedy longest match\<close>

text \<open>A token that may be tried at the start of \<open>s\<close>: the length is limited by the vocabulary.\<close>

definition candidate :: "'s llama_vocab \<Rightarrow> byte list \<Rightarrow> nat \<Rightarrow> bool" where
  "candidate vocab s n \<longleftrightarrow> 0 < n \<and> n \<le> length s \<and> n \<le> max_token_len vocab + 1
     \<and> token_to_id vocab (take n s) \<noteq> None"

inductive longest_match :: "'s llama_vocab \<Rightarrow> byte list \<Rightarrow> int list \<Rightarrow> bool" for vocab where
  match_Nil: "longest_match vocab [] []"
| match_Cons: "candidate vocab s n \<Longrightarrow> (\<And>m. candidate vocab s m \<Longrightarrow> m \<le> n)
    \<Longrightarrow> token_to_id vocab (take n s) = Some t \<Longrightarrow> longest_match vocab (drop n s) ts
    \<Longrightarrow> longest_match vocab s (t # ts)"

inductive_cases longest_match_elim: "longest_match vocab s ts"
inductive_simps longest_match_Nil [simp]: "longest_match vocab s []"
inductive_simps longest_match_Cons: "longest_match vocab s (t # ts)"

lemma longest_match_empty [simp]: "longest_match vocab [] ts \<longleftrightarrow> ts = []"
  by (auto simp: candidate_def intro: match_Nil elim: longest_match_elim)

lemma wpm_match_longest:
  "wpm_match vocab word1 i j = Some (t, j') \<Longrightarrow>
    token_to_id vocab (take (j' - i) (drop i word1)) = Some t
    \<and> (\<forall>k. j' < k \<longrightarrow> k \<le> j \<longrightarrow> token_to_id vocab (take (k - i) (drop i word1)) = None)"
proof (induction vocab word1 i j rule: wpm_match.induct)
  case (1 vocab word1 i j)
  show ?case
  proof (cases "j > i \<and> token_to_id vocab (take (j - i) (drop i word1)) = None")
    case True
    with "1.prems" have "wpm_match vocab word1 i (j - 1) = Some (t, j')"
      by (subst (asm) wpm_match.simps) simp
    with True "1.IH" show ?thesis
      by (metis One_nat_def Suc_pred le_Suc_eq less_nat_zero_code not_gr_zero)
  next
    case False
    with "1.prems" show ?thesis
      by (subst (asm) wpm_match.simps) (auto split: if_splits option.splits)
  qed
qed

lemma wpm_match_None:
  "wpm_match vocab word1 i j = None \<Longrightarrow> i < k \<Longrightarrow> k \<le> j \<Longrightarrow>
    token_to_id vocab (take (k - i) (drop i word1)) = None"
proof (induction vocab word1 i j rule: wpm_match.induct)
  case (1 vocab word1 i j)
  from "1.prems" have "token_to_id vocab (take (j - i) (drop i word1)) = None"
    "wpm_match vocab word1 i (j - 1) = None"
    by (subst (asm) wpm_match.simps, force split: option.splits)+
  with 1 show ?case by (cases "k = j") auto
qed

lemma candidate_top:
  "candidate vocab (drop i word1) n \<longleftrightarrow> 0 < n \<and> i + n \<le> wpm_top vocab word1 i
     \<and> token_to_id vocab (take n (drop i word1)) \<noteq> None"
  by (auto simp: candidate_def wpm_top_def)

lemma wpm_match_candidate:
  "case wpm_match vocab word1 i (wpm_top vocab word1 i) of
     None \<Rightarrow> \<forall>n. \<not> candidate vocab (drop i word1) n
   | Some (t, j) \<Rightarrow> i < j \<and> candidate vocab (drop i word1) (j - i)
       \<and> token_to_id vocab (take (j - i) (drop i word1)) = Some t
       \<and> (\<forall>m. candidate vocab (drop i word1) m \<longrightarrow> m \<le> j - i)"
proof (cases "wpm_match vocab word1 i (wpm_top vocab word1 i)")
  case None
  have "\<not> candidate vocab (drop i word1) n" for n
    using wpm_match_None [OF None, of "i + n"] by (cases "n = 0") (auto simp: candidate_top)
  with None show ?thesis by simp
next
  case (Some r)
  obtain t j where r: "r = (t, j)" by fastforce
  note m = wpm_match_bounds [OF Some [unfolded r]] wpm_match_longest [OF Some [unfolded r]]
  then have "m \<le> j - i" if "candidate vocab (drop i word1) m" for m
    using that m(2) [THEN conjunct2, THEN spec, of "i + m"]
    by (cases "j < i + m") (auto simp: candidate_top)
  with m Some r show ?thesis by (auto simp: candidate_top)
qed

lemma wpm_loop_longest:
  assumes "n = length out0"
  shows "if \<exists>ts. longest_match vocab (drop i word1) ts
    then \<exists>ts. longest_match vocab (drop i word1) ts \<and> wpm_loop vocab word1 n i (out0 @ ts0) = out0 @ ts0 @ ts
    else wpm_loop vocab word1 n i (out0 @ ts0) = out0"
proof (induction "length word1 - i" arbitrary: i ts0 rule: less_induct)
  case less
  show ?case
  proof (cases "i < length word1")
    case False
    then show ?thesis by (subst (1 2) wpm_loop.simps) simp
  next
    case inside: True
    show ?thesis
    proof (cases "wpm_match vocab word1 i (wpm_top vocab word1 i)")
      case None
      then have "\<not> longest_match vocab (drop i word1) ts" for ts
        using wpm_match_candidate [where vocab = vocab and ?word1.0 = word1 and i = i] inside by (auto elim: longest_match_elim)
      with None inside assms show ?thesis by (subst (1 2) wpm_loop.simps) simp
    next
      case (Some r)
      obtain t j where r: "r = (t, j)" by fastforce
      with Some wpm_match_candidate [where vocab = vocab and ?word1.0 = word1 and i = i]
      have j: "i < j" "candidate vocab (drop i word1) (j - i)"
        "token_to_id vocab (take (j - i) (drop i word1)) = Some t"
        "\<And>m. candidate vocab (drop i word1) m \<Longrightarrow> m \<le> j - i"
        by auto
      have step: "longest_match vocab (drop i word1) ts
          \<longleftrightarrow> (\<exists>ts'. ts = t # ts' \<and> longest_match vocab (drop j word1) ts')" for ts
      proof
        assume "longest_match vocab (drop i word1) ts"
        with inside obtain t' ts' m where ts: "ts = t' # ts'" "candidate vocab (drop i word1) m"
          "\<And>k. candidate vocab (drop i word1) k \<Longrightarrow> k \<le> m"
          "token_to_id vocab (take m (drop i word1)) = Some t'"
          "longest_match vocab (drop m (drop i word1)) ts'"
          by (cases ts) (auto simp: longest_match_Cons)
        then have "m = j - i" using j by (simp add: le_antisym)
        with ts j show "\<exists>ts'. ts = t # ts' \<and> longest_match vocab (drop j word1) ts'" by simp
      next
        assume "\<exists>ts'. ts = t # ts' \<and> longest_match vocab (drop j word1) ts'"
        with j show "longest_match vocab (drop i word1) ts"
          by (auto intro!: match_Cons [where n = "j - i"])
      qed
      have loop: "wpm_loop vocab word1 n i (out0 @ ts0) = wpm_loop vocab word1 n j (out0 @ ts0 @ [t])"
        using inside Some r by (subst wpm_loop.simps) simp
      have "length word1 - j < length word1 - i" using inside j(1) by simp
      note IH = less.hyps [OF this, of "ts0 @ [t]"]
      show ?thesis
      proof (cases "\<exists>ts. longest_match vocab (drop j word1) ts")
        case True
        with IH obtain ts where "longest_match vocab (drop j word1) ts"
          "wpm_loop vocab word1 n j (out0 @ ts0 @ [t]) = out0 @ ts0 @ t # ts" by auto
        with step [of "t # ts"] loop show ?thesis by auto
      next
        case False
        with IH step loop show ?thesis by simp
      qed
    qed
  qed
qed

definition wpm_result :: "'s llama_vocab \<Rightarrow> byte list \<Rightarrow> int list \<Rightarrow> bool" where
  "wpm_result vocab word ts \<longleftrightarrow>
    (if \<exists>us. longest_match vocab (escaped_space @ word) us then longest_match vocab (escaped_space @ word) ts
     else ts = [special_unk_id vocab])"

lemma wpm_word_result:
  assumes "word \<noteq> []" shows "\<exists>ts. wpm_word vocab word out = out @ ts \<and> wpm_result vocab word ts"
proof -
  have ne: "ts \<noteq> []" if "longest_match vocab (escaped_space @ word) ts" for ts
    using that assms by (auto elim: longest_match_elim)
  show ?thesis
    using wpm_loop_longest [of "length out" out vocab 0 "escaped_space @ word" "[]"] assms ne
    by (force simp: wpm_word_def wpm_result_def Let_def split: if_splits)
qed

lemma wpm_words_result:
  assumes "[] \<notin> set words"
  shows "\<exists>tss. fold (wpm_word vocab) words out = out @ concat tss \<and> list_all2 (wpm_result vocab) words tss"
  using assms
proof (induction words arbitrary: out)
  case (Cons w words)
  from wpm_word_result [of w vocab out] Cons.prems
  obtain ts where ts: "wpm_word vocab w out = out @ ts" "wpm_result vocab w ts" by auto
  from Cons.IH [of "out @ ts"] Cons.prems
  obtain tss where "fold (wpm_word vocab) words (out @ ts) = (out @ ts) @ concat tss"
    "list_all2 (wpm_result vocab) words tss" by auto
  with ts show ?case by (intro exI [of _ "ts # tss"]) simp
qed simp

section \<open>What the words are\<close>

text \<open>What is left of a code point: nothing of spaces, controls, NUL and U+FFFD.\<close>

definition kept :: "unicode_data \<Rightarrow> u32 \<Rightarrow> byte list" where
  "kept ucd cpt =
    (let f = unicode_cpt_flags ucd cpt in
     if is_whitespace f \<or> cpt = 0 \<or> cpt = 0xFFFD \<or> is_control f then []
     else case unicode_cpt_to_utf8 (unicode_tolower ucd cpt) of Inr s \<Rightarrow> s | Inl _ \<Rightarrow> [])"

lemma wpm_char_kept:
  assumes "wpm_char ucd cpt st = Inr st'"
  shows "concat (fst st') @ snd st' = concat (fst st) @ snd st @ kept ucd cpt"
    and "[] \<notin> set (fst st) \<Longrightarrow> [] \<notin> set (fst st')"
  using assms
  by (auto simp: Let_def bindE_Inr_iff finish_word_def kept_def split: if_splits
      dest: encode_length)

lemma wpm_fold_kept:
  assumes "foldE (wpm_char ucd) cpts st = Inr st'" "[] \<notin> set (fst st)"
  shows "concat (fst st') @ snd st' = concat (fst st) @ snd st @ concat (map (kept ucd) cpts)
    \<and> [] \<notin> set (fst st')"
  using assms
proof (induction cpts arbitrary: st)
  case (Cons c cpts)
  then obtain st1 where st1: "wpm_char ucd c st = Inr st1" "foldE (wpm_char ucd) cpts st1 = Inr st'"
    by (auto simp: bindE_Inr_iff simp del: wpm_char.simps)
  from wpm_char_kept [OF st1(1)] Cons.IH [OF st1(2)] Cons.prems(2) show ?case by simp
qed simp

lemma preprocess_kept:
  assumes "preprocess ucd s = Inr words"
  shows "[] \<notin> set words
    \<and> (bindE (unicode_cpts_from_utf8 s) (unicode_cpts_normalize_nfd ucd) = Inr cpts
        \<longrightarrow> concat words = concat (map (kept ucd) cpts))"
  using assms wpm_fold_kept [of ucd _ "([], [])"]
  by (fastforce simp: preprocess_def bindE_Inr_iff split: if_splits)

lemma longest_match_unique:
  "longest_match vocab s ts \<Longrightarrow> longest_match vocab s us \<Longrightarrow> us = ts"
proof (induction arbitrary: us rule: longest_match.induct)
  case (match_Cons s n t ts)
  then have "s \<noteq> []" by (auto simp: candidate_def)
  with match_Cons.prems obtain u us' m where us: "us = u # us'" "candidate vocab s m"
    "\<And>k. candidate vocab s k \<Longrightarrow> k \<le> m" "token_to_id vocab (take m s) = Some u"
    "longest_match vocab (drop m s) us'"
    by (cases us) (auto simp: longest_match_Cons)
  with match_Cons.hyps have "m = n" by (simp add: le_antisym)
  with us match_Cons show ?case by simp
qed simp

text \<open>
  C28: the words cover exactly the lower-cased code points that are kept of the normalized text, none
  of them is empty, and each contributes the tokens of its greedy longest-match segmentation (with
  the escaped space in front) where there is one and the unknown token where there is none.
\<close>

theorem wpm_tokenize_greedy:
  "case preprocess ucd s of
     Inl e \<Rightarrow> wpm_tokenize ucd vocab s out = Inl e
   | Inr words \<Rightarrow> \<exists>cpts tss.
       bindE (unicode_cpts_from_utf8 s) (unicode_cpts_normalize_nfd ucd) = Inr cpts
       \<and> concat words = concat (map (kept ucd) cpts) \<and> [] \<notin> set words
       \<and> wpm_tokenize ucd vocab s out = Inr (out @ concat tss)
       \<and> list_all2 (wpm_result vocab) words tss"
proof (cases "preprocess ucd s")
  case (Inr words)
  then obtain cpts where cpts: "bindE (unicode_cpts_from_utf8 s) (unicode_cpts_normalize_nfd ucd) = Inr cpts"
    by (auto simp: preprocess_def bindE_Inr_iff)
  from preprocess_kept [OF Inr, of cpts] cpts wpm_words_result [of words vocab out] Inr show ?thesis
    by (simp add: wpm_tokenize_def)
qed (simp add: wpm_tokenize_def)

end
