(* ===== verification/VocabTrie.thy ===== *)
theory VocabTrie
  imports Vocab
begin

text \<open>
  \<open>struct naive_trie\<close> of \<open>src/src/llama-vocab.cpp\<close>: the token matchers of the unigram tokenizer. The
  \<open>std::map\<close> of children is a list of pairs kept in key order.
\<close>

datatype naive_trie =
  Trie (children: "(byte \<times> naive_trie) list") (has_value: bool) (trie_value: int)

definition new_trie :: naive_trie where
  "new_trie = Trie [] False 0"

text \<open>\<open>children.insert\<close> of a key that is not there, at its place in the order.\<close>

fun map_insert :: "byte \<Rightarrow> 'a \<Rightarrow> (byte \<times> 'a) list \<Rightarrow> (byte \<times> 'a) list" where
  "map_insert k v [] = [(k, v)]"
| "map_insert k v ((k', v') # m) =
    (if k < k' then (k, v) # (k', v') # m else (k', v') # map_insert k v m)"

fun trie_insert :: "naive_trie \<Rightarrow> byte list \<Rightarrow> int \<Rightarrow> naive_trie" where
  "trie_insert (Trie cs h v) [] value = Trie cs True value"
| "trie_insert (Trie cs h v) (c # key) value =
    (if c \<in> fst ` set cs then
       Trie (map (\<lambda>(c', t). (c', if c' = c then trie_insert t key value else t)) cs) h v
     else Trie (map_insert c (trie_insert new_trie key value) cs) h v)"

definition traverse :: "naive_trie \<Rightarrow> byte \<Rightarrow> naive_trie option" where
  "traverse t c = map_of (children t) c"

text \<open>\<open>get_longest_prefix\<close>; the key is what is left of it behind \<open>offset\<close>.\<close>

fun get_longest_prefix :: "naive_trie \<Rightarrow> byte list \<Rightarrow> nat \<Rightarrow> nat" where
  "get_longest_prefix t [] offset = offset"
| "get_longest_prefix t (c # key) offset =
    (case traverse t c of
       Some t' \<Rightarrow> get_longest_prefix t' key (offset + 1)
     | None \<Rightarrow> offset)"

section \<open>The interface\<close>

text \<open>
  A map from strings that is built by insertions, and one whose paths can be followed; the
  tokenizer's matchers are built by inserting the vocabulary's entries in order.
\<close>

locale string_map =
  fixes empty :: 'm and insert :: "'m \<Rightarrow> byte list \<Rightarrow> int \<Rightarrow> 'm"
    and lookup :: "'m \<Rightarrow> byte list \<Rightarrow> int option"
  assumes lookup_empty: "lookup empty k = None"
    and lookup_insert: "lookup (insert m k v) k' = (if k' = k then Some v else lookup m k')"
begin

lemma lookup_build:
  "lookup (fold (\<lambda>(k, v) m. insert m k v) kvs m) k
    = (case map_of (rev kvs) k of Some v \<Rightarrow> Some v | None \<Rightarrow> lookup m k)"
  by (induction kvs arbitrary: m)
     (auto simp: lookup_insert map_add_def split: option.splits)

lemma lookup_build_empty: "lookup (fold (\<lambda>(k, v) m. insert m k v) kvs empty) = map_of (rev kvs)"
  by (rule ext) (simp add: lookup_build lookup_empty split: option.splits)

end

locale prefix_map = string_map empty insert lookup
  for empty :: 'm and insert :: "'m \<Rightarrow> byte list \<Rightarrow> int \<Rightarrow> 'm"
    and lookup :: "'m \<Rightarrow> byte list \<Rightarrow> int option" +
  fixes has_path :: "'m \<Rightarrow> byte list \<Rightarrow> bool"
  assumes path_empty: "has_path empty s \<longleftrightarrow> s = []"
    and path_insert: "has_path (insert m k v) s \<longleftrightarrow> has_path m s \<or> prefix s k"
begin

lemma path_build:
  "has_path (fold (\<lambda>(k, v) m. insert m k v) kvs m) s
    \<longleftrightarrow> has_path m s \<or> (\<exists>k\<in>fst ` set kvs. prefix s k)"
  by (induction kvs arbitrary: m) (auto simp: path_insert)

lemma path_build_empty:
  "has_path (fold (\<lambda>(k, v) m. insert m k v) kvs empty) s
    \<longleftrightarrow> s = [] \<or> (\<exists>k\<in>fst ` set kvs. prefix s k)"
  by (simp add: path_build path_empty)

end

section \<open>The trie provides it\<close>

text \<open>The node a string leads to, and the value stored there.\<close>

fun walk :: "naive_trie \<Rightarrow> byte list \<Rightarrow> naive_trie option" where
  "walk t [] = Some t"
| "walk t (c # s) = Option.bind (traverse t c) (\<lambda>t'. walk t' s)"

definition node_value :: "naive_trie \<Rightarrow> int option" where
  "node_value t = (if has_value t then Some (trie_value t) else None)"

definition trie_lookup :: "naive_trie \<Rightarrow> byte list \<Rightarrow> int option" where
  "trie_lookup t s = Option.bind (walk t s) node_value"

lemma map_of_map_insert:
  "c \<notin> fst ` set cs \<Longrightarrow> map_of (map_insert c t cs) c' = (if c' = c then Some t else map_of cs c')"
  by (induction cs) auto

lemma map_of_map_key:
  "map_of (map (\<lambda>(c', t). (c', if c' = c then f t else t)) cs) c'
    = (if c' = c then map_option f (map_of cs c) else map_of cs c')"
  by (induction cs) auto

lemma traverse_insert:
  "traverse (trie_insert t (c # key) v) c'
    = (if c' = c then Some (trie_insert (case traverse t c of Some t' \<Rightarrow> t' | None \<Rightarrow> new_trie) key v)
       else traverse t c')"
proof (cases t)
  case (Trie cs h w)
  show ?thesis
  proof (cases "c \<in> fst ` set cs")
    case True
    then obtain t' where "map_of cs c = Some t'" by (metis map_of_eq_None_iff not_None_eq)
    with Trie True show ?thesis by (simp add: traverse_def map_of_map_key)
  next
    case False
    then have "map_of cs c = None" by (simp add: map_of_eq_None_iff)
    with Trie False show ?thesis by (simp add: traverse_def map_of_map_insert)
  qed
qed

lemma value_insert [simp]:
  "node_value (trie_insert t [] v) = Some v" "traverse (trie_insert t [] v) = traverse t"
  "node_value (trie_insert t (c # key) v) = node_value t"
  by (cases t; auto simp: node_value_def traverse_def fun_eq_iff)+

lemma traverse_new [simp]: "traverse new_trie c = None" "node_value new_trie = None"
  by (simp_all add: traverse_def new_trie_def node_value_def)

lemma trie_lookup_simps [simp]:
  "trie_lookup t [] = node_value t"
  "trie_lookup t (c # s) = Option.bind (traverse t c) (\<lambda>t'. trie_lookup t' s)"
  by (auto simp: trie_lookup_def split: bind_split)

lemma trie_lookup_new: "trie_lookup new_trie k = None"
  by (cases k) auto

lemma trie_lookup_insert:
  "trie_lookup (trie_insert t k v) k' = (if k' = k then Some v else trie_lookup t k')"
proof (induction k arbitrary: t k')
  case Nil
  then show ?case by (cases k') auto
next
  case (Cons c k)
  then show ?case
    by (cases k') (auto simp: traverse_insert trie_lookup_new split: option.splits)
qed

lemma walk_new: "walk new_trie s \<noteq> None \<longleftrightarrow> s = []"
  by (cases s) auto

lemma walk_insert: "walk (trie_insert t k v) s \<noteq> None \<longleftrightarrow> walk t s \<noteq> None \<or> prefix s k"
proof (induction k arbitrary: t s)
  case Nil
  then show ?case by (cases s) auto
next
  case (Cons c k)
  show ?case
  proof (cases s)
    case (Cons c' s')
    then show ?thesis
      using Cons.IH [of "case traverse t c of Some t' \<Rightarrow> t' | None \<Rightarrow> new_trie" s'] walk_new [of s']
      by (auto simp: traverse_insert split: option.splits)
  qed simp
qed

interpretation trie: prefix_map new_trie trie_insert trie_lookup "\<lambda>t s. walk t s \<noteq> None"
  by unfold_locales (rule trie_lookup_new trie_lookup_insert walk_new walk_insert)+

section \<open>Longest prefixes\<close>

definition trie_of :: "(byte list \<times> int) list \<Rightarrow> naive_trie" where
  "trie_of kvs = fold (\<lambda>(k, v) m. trie_insert m k v) kvs new_trie"

lemma get_longest_prefix_ge: "offset \<le> get_longest_prefix t key offset"
  by (induction t key offset rule: get_longest_prefix.induct) (auto split: option.splits)

lemma longest_prefix_walk:
  "get_longest_prefix t key offset = offset + n \<Longrightarrow>
    n \<le> length key \<and> walk t (take n key) \<noteq> None \<and> (n < length key \<longrightarrow> walk t (take (Suc n) key) = None)"
proof (induction t key offset arbitrary: n rule: get_longest_prefix.induct)
  case (2 t c key offset)
  show ?case
  proof (cases "traverse t c")
    case None
    with 2 show ?thesis by simp
  next
    case (Some t')
    have "offset + 1 \<le> get_longest_prefix t' key (offset + 1)" by (rule get_longest_prefix_ge)
    then obtain m where "n = Suc m" "get_longest_prefix t' key (offset + 1) = offset + 1 + m"
      using 2(2) Some by (intro that [of "n - 1"]) auto
    with 2(1) [OF Some, of m] Some show ?thesis by simp
  qed
qed simp


lemma walk_prefix: "walk t (s @ s') \<noteq> None \<Longrightarrow> walk t s \<noteq> None"
  by (induction t s rule: walk.induct) (auto split: bind_split_asm)

text \<open>
  A trie built from a list of keys with values holds for each key the value inserted last and
  nothing else, and the longest prefix it finds in a text is the longest prefix of the text that
  is also a prefix of some key (whether or not it is a key itself).
\<close>

theorem trie_of_lookup:
  "trie_lookup (trie_of kvs) = map_of (rev kvs)
   \<and> get_longest_prefix (trie_of kvs) key 0
     = Max {n. n \<le> length key \<and> (n = 0 \<or> (\<exists>k\<in>fst ` set kvs. prefix (take n key) k))}"
proof
  show "trie_lookup (trie_of kvs) = map_of (rev kvs)"
    unfolding trie_of_def by (rule trie.lookup_build_empty)
  let ?P = "\<lambda>n. n \<le> length key \<and> (n = 0 \<or> (\<exists>k\<in>fst ` set kvs. prefix (take n key) k))"
  let ?n = "get_longest_prefix (trie_of kvs) key 0"
  have path: "walk (trie_of kvs) s \<noteq> None \<longleftrightarrow> s = [] \<or> (\<exists>k\<in>fst ` set kvs. prefix s k)" for s
    unfolding trie_of_def by (rule trie.path_build_empty)
  have n: "?n \<le> length key" "walk (trie_of kvs) (take ?n key) \<noteq> None"
    "?n < length key \<longrightarrow> walk (trie_of kvs) (take (Suc ?n) key) = None"
    using longest_prefix_walk [of "trie_of kvs" key 0 ?n] by simp_all
  have "m \<le> ?n" if "?P m" for m
  proof (rule ccontr)
    assume "\<not> m \<le> ?n"
    then have "prefix (take (Suc ?n) key) (take m key)" "?n < length key"
      using that by (auto simp: take_is_prefix min_def prefix_take_iff)
    moreover have "walk (trie_of kvs) (take m key) \<noteq> None" using that path by auto
    ultimately show False using n(3) walk_prefix by (auto simp: prefix_def) (metis option.distinct(1))
  qed
  moreover have "?P ?n" using n path by auto
  ultimately show "?n = Max {n. ?P n}"
    by (intro Max_eqI [symmetric] finite_subset [of "{n. ?P n}" "{..length key}"]) auto
qed

end
