(* ===== verification/UgmTokenizer.thy ===== *)
theory UgmTokenizer
  imports VocabTrie ByteEncoding "HOL-Library.Option_ord"
begin

text \<open>
  \<open>llm_tokenizer_ugm\<close> of \<open>src/src/llama-vocab.cpp\<close>: the token matchers, and the Viterbi search for
  the segmentation of a normalized text with the highest score.

  Scores are floats. The score of a token is added to a stored score in double precision, that of the unknown
  token in single precision; both sums are compared as doubles and stored rounded to a float. The arithmetic is
  a record: the two sums, the rounding, zero, the lowest and the highest float, and the penalty for an unknown
  token. Its values are the doubles that are numbers (not NaN), of which the floats are some.
\<close>

record 's score_arith =
  ar_add :: "'s \<Rightarrow> 's \<Rightarrow> 's"
  ar_add_float :: "'s \<Rightarrow> 's \<Rightarrow> 's"
  ar_round :: "'s \<Rightarrow> 's"
  ar_zero :: 's
  ar_low :: 's
  ar_high :: 's
  ar_penalize :: "'s \<Rightarrow> 's"

record 's best_tokenization =
  bt_token :: int
  bt_offset :: nat
  bt_score :: 's

record 's ugm =
  min_score :: 's
  max_score :: 's
  token_matcher :: naive_trie
  user_defined_token_matcher :: naive_trie
  unknown_token_score :: 's

text \<open>The constructor's loop over the vocabulary.\<close>

definition ugm_add_token :: "'s::linorder llama_vocab \<Rightarrow> nat \<Rightarrow> 's ugm \<Rightarrow> 's ugm res" where
  "ugm_add_token vocab i u =
    bindE (token_at vocab (int i)) (\<lambda>d.
    bindE (llama_is_normal_token vocab (int i)) (\<lambda>normal.
    bindE (llama_is_user_defined_token vocab (int i)) (\<lambda>user.
    bindE (llama_is_unused_token vocab (int i)) (\<lambda>unused.
      let u1 = (if normal then u\<lparr>min_score := Orderings.min (min_score u) (tok_score d),
                  max_score := Orderings.max (max_score u) (tok_score d)\<rparr> else u);
          u2 = (if normal \<or> user \<or> unused then
                  u1\<lparr>token_matcher := trie_insert (token_matcher u1) (tok_text d) (int i)\<rparr> else u1)
      in Inr (if user then
                u2\<lparr>user_defined_token_matcher :=
                  trie_insert (user_defined_token_matcher u2) (tok_text d) 0\<rparr> else u2)))))"

definition ugm_init :: "'s::linorder score_arith \<Rightarrow> 's llama_vocab \<Rightarrow> 's ugm res" where
  "ugm_init ar vocab =
    bindE (foldE (ugm_add_token vocab) [0..<length (id_to_token vocab)]
        \<lparr>min_score = ar_high ar, max_score = ar_low ar, token_matcher = new_trie,
         user_defined_token_matcher = new_trie, unknown_token_score = ar_zero ar\<rparr>)
      (\<lambda>u. Inr (u\<lparr>unknown_token_score := ar_penalize ar (min_score u)\<rparr>))"

section \<open>The search\<close>

text \<open>User-defined tokens count as score 0.\<close>

definition ugm_token_score :: "'s score_arith \<Rightarrow> 's llama_vocab \<Rightarrow> int \<Rightarrow> 's res" where
  "ugm_token_score ar vocab token =
    bindE (token_at vocab token) (\<lambda>d.
    bindE (llama_is_user_defined_token vocab token) (\<lambda>user.
      Inr (if user then ar_zero ar else tok_score d)))"

text \<open>A challenger replaces the champion at its end if its (unrounded) score is higher.\<close>

definition challenge ::
  "'s::linorder score_arith \<Rightarrow> int \<Rightarrow> nat \<Rightarrow> 's \<Rightarrow> nat \<Rightarrow> 's best_tokenization list
    \<Rightarrow> 's best_tokenization list" where
  "challenge ar token input_offset challenger_score fin results =
    (if challenger_score > bt_score (results ! fin) then
       results[fin := \<lparr>bt_token = token, bt_offset = input_offset,
         bt_score = ar_round ar challenger_score\<rparr>]
     else results)"

text \<open>
  The loop that follows the trie along the text from \<open>input_offset\<close>; \<open>rest\<close> is the text from
  \<open>prefix_offset\<close> on.
\<close>

fun ugm_walk ::
  "'s::linorder score_arith \<Rightarrow> 's llama_vocab \<Rightarrow> nat \<Rightarrow> nat \<Rightarrow> 's \<Rightarrow> naive_trie \<Rightarrow> byte list \<Rightarrow> nat
    \<Rightarrow> bool \<times> 's best_tokenization list \<Rightarrow> (bool \<times> 's best_tokenization list) res" where
  "ugm_walk ar vocab input_offset n_units current node [] prefix_offset st = Inr st"
| "ugm_walk ar vocab input_offset n_units current node (c # rest) prefix_offset (single, results) =
    (case traverse node c of
       None \<Rightarrow> Inr (single, results)
     | Some node' \<Rightarrow>
        (let fin = prefix_offset + 1 in
         if has_value node' then
           bindE (ugm_token_score ar vocab (trie_value node')) (\<lambda>token_score.
             ugm_walk ar vocab input_offset n_units current node' rest fin
               (single \<or> fin - input_offset = n_units,
                challenge ar (trie_value node') input_offset (ar_add ar current token_score) fin results))
         else ugm_walk ar vocab input_offset n_units current node' rest fin (single, results)))"

definition n_utf8_code_units :: "byte list \<Rightarrow> nat \<Rightarrow> nat" where
  "n_utf8_code_units s input_offset =
    Orderings.min (unicode_len_utf8 (s ! input_offset)) (length s - input_offset)"

definition ugm_visit ::
  "'s::linorder score_arith \<Rightarrow> 's llama_vocab \<Rightarrow> 's ugm \<Rightarrow> byte list \<Rightarrow> nat
    \<Rightarrow> 's best_tokenization list \<Rightarrow> 's best_tokenization list res" where
  "ugm_visit ar vocab u s input_offset results =
    (let n_units = n_utf8_code_units s input_offset;
         current = bt_score (results ! input_offset)
     in bindE (ugm_walk ar vocab input_offset n_units current (token_matcher u) (drop input_offset s)
          input_offset (False, results)) (\<lambda>(single, results').
        Inr (if single then results'
             else challenge ar (special_unk_id vocab) input_offset
               (ar_add_float ar current (unknown_token_score u)) (input_offset + n_units) results')))"

lemma n_utf8_code_units_pos: "i < length s \<Longrightarrow> 0 < n_utf8_code_units s i"
  by (simp add: n_utf8_code_units_def unicode_len_utf8_pos)

lemma n_utf8_code_units_le: "i < length s \<Longrightarrow> i + n_utf8_code_units s i \<le> length s"
  by (simp add: n_utf8_code_units_def)

function ugm_forward ::
  "'s::linorder score_arith \<Rightarrow> 's llama_vocab \<Rightarrow> 's ugm \<Rightarrow> byte list \<Rightarrow> nat
    \<Rightarrow> 's best_tokenization list \<Rightarrow> 's best_tokenization list res" where
  "ugm_forward ar vocab u s input_offset results =
    (if input_offset < length s then
       bindE (ugm_visit ar vocab u s input_offset results)
         (ugm_forward ar vocab u s (input_offset + n_utf8_code_units s input_offset))
     else Inr results)"
  by pat_completeness auto
termination
  by (relation "measure (\<lambda>(ar, vocab, u, s, input_offset, results). length s - input_offset)")
     (simp_all add: diff_less_mono2 n_utf8_code_units_pos)

declare ugm_forward.simps [simp del]

text \<open>
  Backtracking from the end: runs of unknown tokens give one. Every entry on the way starts before
  its end; \<open>fuel\<close> bounds the number of steps.
\<close>

fun ugm_backtrack ::
  "nat \<Rightarrow> 's llama_vocab \<Rightarrow> 's best_tokenization list \<Rightarrow> nat \<Rightarrow> bool \<Rightarrow> int list \<Rightarrow> int list res" where
  "ugm_backtrack 0 vocab results pos is_prev_unknown out = Inl (UndefinedBehaviour ''cyclic results'')"
| "ugm_backtrack (Suc fuel) vocab results pos is_prev_unknown out =
    (let t = results ! pos;
         is_unknown = (bt_token t = special_unk_id vocab);
         out' = (if is_prev_unknown \<and> is_unknown then out else out @ [bt_token t])
     in if bt_offset t = 0 then Inr out'
        else ugm_backtrack fuel vocab results (bt_offset t) is_unknown out')"

text \<open>\<open>tokenize\<close> behind the normalization; the output is reversed from its old end on.\<close>

definition ugm_tokenize_normalized ::
  "'s::linorder score_arith \<Rightarrow> 's llama_vocab \<Rightarrow> 's ugm \<Rightarrow> byte list \<Rightarrow> int list \<Rightarrow> int list res" where
  "ugm_tokenize_normalized ar vocab u s out =
    (if s = [] then Inr out
     else
       (let low = \<lparr>bt_token = special_unk_id vocab, bt_offset = 0, bt_score = ar_low ar\<rparr>;
            start = \<lparr>bt_token = special_unk_id vocab, bt_offset = 0, bt_score = ar_zero ar\<rparr>
        in bindE (ugm_forward ar vocab u s 0 ((replicate (length s + 1) low)[0 := start])) (\<lambda>results.
           bindE (ugm_backtrack (length s + 1) vocab results (length s) False []) (\<lambda>tokens.
             Inr (out @ rev tokens)))))"

section \<open>Segmentations\<close>

text \<open>
  The arcs out of a character at \<open>i\<close>: every token that matches there, and the unknown token for the
  whole character if no token is just that character. There is at most one arc between two
  positions; it has a token and what its score adds to the score before it.
\<close>

definition token_weight :: "'s score_arith \<Rightarrow> 's llama_vocab \<Rightarrow> int \<Rightarrow> 's" where
  "token_weight ar vocab t =
    (if tok_attr (id_to_token vocab ! nat t) AND ATTR_USER_DEFINED \<noteq> 0 then ar_zero ar
     else tok_score (id_to_token vocab ! nat t))"

definition arc ::
  "'s score_arith \<Rightarrow> 's llama_vocab \<Rightarrow> 's ugm \<Rightarrow> byte list \<Rightarrow> nat \<Rightarrow> nat \<Rightarrow> (int \<times> ('s \<Rightarrow> 's)) option" where
  "arc ar vocab u s i j =
    (if i < j \<and> j \<le> length s then
       (case trie_lookup (token_matcher u) (take (j - i) (drop i s)) of
          Some t \<Rightarrow> Some (t, \<lambda>v. ar_add ar v (token_weight ar vocab t))
        | None \<Rightarrow> if j = i + n_utf8_code_units s i then Some (special_unk_id vocab, \<lambda>v. ar_add_float ar v (unknown_token_score u))
                  else None)
     else None)"

text \<open>The positions the loop visits, and the segmentations up to a position with their scores.\<close>

inductive boundary :: "byte list \<Rightarrow> nat \<Rightarrow> bool" for s where
  boundary_0: "boundary s 0"
| boundary_next: "boundary s i \<Longrightarrow> i < length s \<Longrightarrow> boundary s (i + n_utf8_code_units s i)"

inductive segmentation ::
  "'s score_arith \<Rightarrow> 's llama_vocab \<Rightarrow> 's ugm \<Rightarrow> byte list \<Rightarrow> nat \<Rightarrow> int list \<Rightarrow> 's \<Rightarrow> bool"
  for ar vocab u s where
  seg_Nil: "segmentation ar vocab u s 0 [] (ar_zero ar)"
| seg_snoc: "segmentation ar vocab u s i ts v \<Longrightarrow> boundary s i \<Longrightarrow> arc ar vocab u s i j = Some (t, w) \<Longrightarrow>
    segmentation ar vocab u s j (ts @ [t]) (ar_round ar (w v))"

inductive_cases segmentation_elim: "segmentation ar vocab u s j ts v"

text \<open>
  What the arithmetic has to satisfy: sums and rounding are monotone, a float is rounded to itself, and so is
  the lowest one. All of this holds of the arithmetic of IEEE 754 with rounding to nearest, overflows included,
  if the sum of two opposite infinities, which is not a number, is taken as the lower one.
\<close>

definition arith_ok :: "'s::linorder score_arith \<Rightarrow> bool" where
  "arith_ok ar \<longleftrightarrow> (\<forall>x y w. x \<le> y \<longrightarrow> ar_add ar x w \<le> ar_add ar y w)
     \<and> (\<forall>x y w. x \<le> y \<longrightarrow> ar_add_float ar x w \<le> ar_add_float ar y w)
     \<and> (\<forall>x y. x \<le> y \<longrightarrow> ar_round ar x \<le> ar_round ar y)
     \<and> (\<forall>x. ar_round ar (ar_round ar x) = ar_round ar x)
     \<and> ar_round ar (ar_low ar) = ar_low ar"

text \<open>
  No score that is stored along a segmentation falls to the lowest float. The search starts with this score
  at every position, as the comment in the code says, so that it is lower than all sums of scores.
\<close>

definition sums_above_low ::
  "'s::linorder score_arith \<Rightarrow> 's llama_vocab \<Rightarrow> 's ugm \<Rightarrow> byte list \<Rightarrow> bool" where
  "sums_above_low ar vocab u s \<longleftrightarrow>
    (\<forall>i j ts v t w. segmentation ar vocab u s i ts v \<longrightarrow> arc ar vocab u s i j = Some (t, w) \<longrightarrow>
       ar_low ar < ar_round ar (w v))"

lemma arc_mono: "arith_ok ar \<Longrightarrow> arc ar vocab u s i j = Some (t, w) \<Longrightarrow> x \<le> y \<Longrightarrow> w x \<le> w y"
  by (auto simp: arc_def arith_ok_def split: if_splits option.splits)

definition tokens_valid :: "'s llama_vocab \<Rightarrow> 's ugm \<Rightarrow> bool" where
  "tokens_valid vocab u \<longleftrightarrow>
    (\<forall>k t. trie_lookup (token_matcher u) k = Some t \<longrightarrow> vocab_type vocab \<noteq> VOCAB_NONE \<and> valid_id vocab t)"

lemma ugm_token_score_eq:
  "vocab_type vocab \<noteq> VOCAB_NONE \<Longrightarrow> valid_id vocab t \<Longrightarrow>
    ugm_token_score ar vocab t = Inr (token_weight ar vocab t)"
  by (simp add: ugm_token_score_def token_weight_def token_at_def llama_is_user_defined_token_def
      token_has_def)

section \<open>One position\<close>

text \<open>How an arc out of \<open>i\<close> changes the entry at its end.\<close>

definition improve ::
  "'s::linorder score_arith \<Rightarrow> nat \<Rightarrow> 's \<Rightarrow> (int \<times> ('s \<Rightarrow> 's)) option \<Rightarrow> 's best_tokenization \<Rightarrow> 's best_tokenization"
  where
  "improve ar i current a old =
    (case a of
       None \<Rightarrow> old
     | Some (t, w) \<Rightarrow>
         if w current > bt_score old then
           \<lparr>bt_token = t, bt_offset = i, bt_score = ar_round ar (w current)\<rparr>
         else old)"

lemma challenge_nth:
  "fin < length R \<Longrightarrow> j < length R \<Longrightarrow> challenge ar t i x fin R ! j
    = (if j = fin then improve ar i current (Some (t, \<lambda>v. x)) (R ! j) else R ! j)"
  by (simp add: challenge_def improve_def)

lemma length_challenge [simp]: "length (challenge ar t i c fin R) = length R"
  by (simp add: challenge_def)

lemma walk_append: "walk t (xs @ ys) = Option.bind (walk t xs) (\<lambda>t'. walk t' ys)"
  by (induction t xs rule: walk.induct) (auto split: bind_split)

lemma ugm_walk_eq:
  assumes "walk root (take (p - i) (drop i s)) = Some node" "rest = drop p s" "i \<le> p" "p \<le> length s"
    and valid: "\<And>k t. trie_lookup root k = Some t \<Longrightarrow> vocab_type vocab \<noteq> VOCAB_NONE \<and> valid_id vocab t"
    and len: "length R = length s + 1"
  shows "\<exists>R'. ugm_walk ar vocab i n cur node rest p (single, R)
      = Inr (single \<or> (p < i + n \<and> i + n \<le> length s \<and> trie_lookup root (take n (drop i s)) \<noteq> None), R')
    \<and> length R' = length R
    \<and> (\<forall>j\<le>length s. R' ! j = (if p < j then improve ar i cur
         (map_option (\<lambda>t. (t, \<lambda>v. ar_add ar v (token_weight ar vocab t))) (trie_lookup root (take (j - i) (drop i s)))) (R ! j)
         else R ! j))"
  using assms(1-4) len
proof (induction rest arbitrary: p node single R)
  case Nil
  then show ?case by auto
next
  case (Cons c rest)
  then have d: "drop p s = c # rest" by simp
  then have p: "p < length s" by (metis drop_eq_Nil2 leI list.distinct(1))
  with d have c: "c = s ! p" and rest: "rest = drop (p + 1) s"
    by (simp_all add: Cons_nth_drop_Suc [symmetric])
  let ?w = "\<lambda>j. take (j - i) (drop i s)"
  have step: "?w (p + 1) = ?w p @ [c]"
    using Cons.prems(3) p c by (simp add: Suc_diff_le take_Suc_conv_app_nth)
  have later: "\<exists>r. ?w j = ?w p @ c # r" if "p < j" for j
  proof -
    from that obtain b where "j = Suc (p + b)" by (metis less_imp_Suc_add)
    with Cons.prems(3) have "j - i = (p + 1 - i) + b" by simp
    then have "?w j = ?w (p + 1) @ take b (drop (p + 1 - i) (drop i s))" by (simp only: take_add)
    with step show ?thesis by simp
  qed
  show ?case
  proof (cases "traverse node c")
    case None
    have no: "trie_lookup root (?w j) = None" if "p < j" for j
      using later [OF that] None Cons.prems(1) by (auto simp: trie_lookup_def walk_append)
    have "trie_lookup root (take n (drop i s)) = None" if "p < i + n"
      using no [of "i + n"] that by simp
    with None no show ?thesis by (auto simp: improve_def)
  next
    case (Some node')
    let ?q = "p + 1"
    have node': "walk root (?w ?q) = Some node'" unfolding step using Cons.prems(1) Some
      by (simp add: walk_append)
    then have lk: "trie_lookup root (?w ?q) = node_value node'" by (simp add: trie_lookup_def)
    have n_q: "take n (drop i s) = ?w ?q" if "?q = i + n" using that by simp
    show ?thesis
    proof (cases "has_value node'")
      case True
      then have lk': "trie_lookup root (?w ?q) = Some (trie_value node')" using lk by (simp add: node_value_def)
      let ?wt = "token_weight ar vocab (trie_value node')"
      let ?Rc = "challenge ar (trie_value node') i (ar_add ar cur ?wt) ?q R"
      have sc: "ugm_token_score ar vocab (trie_value node') = Inr ?wt"
        using valid [OF lk'] by (simp add: ugm_token_score_eq)
      obtain R' where R': "ugm_walk ar vocab i n cur node' rest ?q (single \<or> ?q - i = n, ?Rc)
          = Inr ((single \<or> ?q - i = n) \<or> (?q < i + n \<and> i + n \<le> length s
              \<and> trie_lookup root (take n (drop i s)) \<noteq> None), R')"
        "length R' = length R"
        "\<forall>j\<le>length s. R' ! j = (if ?q < j then improve ar i cur
           (map_option (\<lambda>t. (t, \<lambda>v. ar_add ar v (token_weight ar vocab t))) (trie_lookup root (?w j))) (?Rc ! j) else ?Rc ! j)"
        using Cons.IH [OF node' rest, of ?Rc "single \<or> ?q - i = n"] Cons.prems(3,5) p by auto
      have sg: "(single \<or> ?q - i = n) \<or> (?q < i + n \<and> i + n \<le> length s \<and> trie_lookup root (take n (drop i s)) \<noteq> None)
          \<longleftrightarrow> single \<or> (p < i + n \<and> i + n \<le> length s \<and> trie_lookup root (take n (drop i s)) \<noteq> None)"
        using Cons.prems(3) p lk' by (cases "?q = i + n") auto
      have "ugm_walk ar vocab i n cur node (c # rest) p (single, R)
          = Inr (single \<or> (p < i + n \<and> i + n \<le> length s \<and> trie_lookup root (take n (drop i s)) \<noteq> None), R')"
        using Some True sc R'(1) unfolding sg by (simp add: Let_def)
      moreover have "R' ! j = (if p < j then improve ar i cur
           (map_option (\<lambda>t. (t, \<lambda>v. ar_add ar v (token_weight ar vocab t))) (trie_lookup root (?w j))) (R ! j) else R ! j)"
        if "j \<le> length s" for j
        using R'(3) that p Cons.prems(5) lk'
        by (cases "j = ?q") (auto simp: challenge_nth [where current = cur] improve_def)
      ultimately show ?thesis using R'(2) by blast
    next
      case False
      then have lk': "trie_lookup root (?w ?q) = None" using lk by (simp add: node_value_def)
      obtain R' where R': "ugm_walk ar vocab i n cur node' rest ?q (single, R)
          = Inr (single \<or> (?q < i + n \<and> i + n \<le> length s
              \<and> trie_lookup root (take n (drop i s)) \<noteq> None), R')"
        "length R' = length R"
        "\<forall>j\<le>length s. R' ! j = (if ?q < j then improve ar i cur
           (map_option (\<lambda>t. (t, \<lambda>v. ar_add ar v (token_weight ar vocab t))) (trie_lookup root (?w j))) (R ! j) else R ! j)"
        using Cons.IH [OF node' rest, of R single] Cons.prems(3,5) p by auto
      have sg: "single \<or> (?q < i + n \<and> i + n \<le> length s \<and> trie_lookup root (take n (drop i s)) \<noteq> None)
          \<longleftrightarrow> single \<or> (p < i + n \<and> i + n \<le> length s \<and> trie_lookup root (take n (drop i s)) \<noteq> None)"
      proof (cases "?q = i + n")
        case True
        have "trie_lookup root (take n (drop i s)) = None" unfolding n_q [OF True] by (rule lk')
        then show ?thesis by simp
      next
        case False
        then have "?q < i + n \<longleftrightarrow> p < i + n" by auto
        then show ?thesis by simp
      qed
      have "ugm_walk ar vocab i n cur node (c # rest) p (single, R)
          = Inr (single \<or> (p < i + n \<and> i + n \<le> length s \<and> trie_lookup root (take n (drop i s)) \<noteq> None), R')"
        using Some False R'(1) unfolding sg by (simp add: Let_def)
      moreover have "R' ! j = (if p < j then improve ar i cur
           (map_option (\<lambda>t. (t, \<lambda>v. ar_add ar v (token_weight ar vocab t))) (trie_lookup root (?w j))) (R ! j) else R ! j)"
        if "j \<le> length s" for j
        using R'(3) that lk' by (cases "j = ?q") (auto simp: improve_def)
      ultimately show ?thesis using R'(2) by blast
    qed
  qed
qed

lemma ugm_visit_eq:
  assumes valid: "tokens_valid vocab u" and i: "i < length s" and len: "length R = length s + 1"
  shows "\<exists>R'. ugm_visit ar vocab u s i R = Inr R' \<and> length R' = length R
    \<and> (\<forall>j\<le>length s. R' ! j = improve ar i (bt_score (R ! i)) (arc ar vocab u s i j) (R ! j))"
proof -
  let ?n = "n_utf8_code_units s i" and ?root = "token_matcher u" and ?cur = "bt_score (R ! i)"
  have n: "0 < ?n" "i + ?n \<le> length s" using i n_utf8_code_units_pos n_utf8_code_units_le by auto
  let ?single = "trie_lookup ?root (take ?n (drop i s)) \<noteq> None"
  obtain R' where R': "ugm_walk ar vocab i ?n ?cur ?root (drop i s) i (False, R) = Inr (?single, R')"
    "length R' = length R"
    "\<forall>j\<le>length s. R' ! j = (if i < j then improve ar i ?cur
       (map_option (\<lambda>t. (t, \<lambda>v. ar_add ar v (token_weight ar vocab t))) (trie_lookup ?root (take (j - i) (drop i s)))) (R ! j)
       else R ! j)"
    using ugm_walk_eq [of ?root i i s ?root "drop i s" vocab R ar ?n ?cur False] valid i len n
    by (auto simp: tokens_valid_def)
  show ?thesis
  proof (cases ?single)
    case True
    have "R' ! j = improve ar i ?cur (arc ar vocab u s i j) (R ! j)" if "j \<le> length s" for j
      using R'(3) that True by (auto simp: arc_def improve_def split: option.splits)
    with R' True show ?thesis by (auto simp: ugm_visit_def Let_def)
  next
    case False
    let ?R2 = "challenge ar (special_unk_id vocab) i (ar_add_float ar ?cur (unknown_token_score u)) (i + ?n) R'"
    have "?R2 ! j = improve ar i ?cur (arc ar vocab u s i j) (R ! j)" if "j \<le> length s" for j
      using R'(2,3) that False n len
      by (cases "j = i + ?n") (auto simp: challenge_nth [where current = ?cur] arc_def improve_def split: option.splits)
    with R' False show ?thesis by (auto simp: ugm_visit_def Let_def)
  qed
qed

section \<open>The search is optimal\<close>

text \<open>The visited positions form a sequence, so none lies inside a character.\<close>

definition next_boundary :: "byte list \<Rightarrow> nat \<Rightarrow> nat" where
  "next_boundary s i = (if i < length s then i + n_utf8_code_units s i else i)"

lemma boundary_sequence: "boundary s i \<longleftrightarrow> (\<exists>m. i = (next_boundary s ^^ m) 0)"
proof
  assume "boundary s i"
  then show "\<exists>m. i = (next_boundary s ^^ m) 0"
  proof induction
    case (boundary_next i)
    then obtain m where "i = (next_boundary s ^^ m) 0" by blast
    moreover have "next_boundary s i = i + n_utf8_code_units s i"
      using boundary_next by (simp add: next_boundary_def)
    ultimately show ?case by (intro exI [of _ "Suc m"]) simp
  qed (simp add: exI [of _ 0])
next
  assume "\<exists>m. i = (next_boundary s ^^ m) 0"
  then obtain m where "i = (next_boundary s ^^ m) 0" by blast
  then show "boundary s i"
    by (induction m arbitrary: i) (auto simp: next_boundary_def intro: boundary.intros)
qed

lemma boundary_gap:
  assumes "boundary s i" "boundary s k" "k < length s"
  shows "i \<le> k \<or> k + n_utf8_code_units s k \<le> i"
proof -
  obtain a b where ab: "i = (next_boundary s ^^ a) 0" "k = (next_boundary s ^^ b) 0"
    using assms by (auto simp: boundary_sequence)
  have mono: "(next_boundary s ^^ m) 0 \<le> (next_boundary s ^^ m') 0" if "m \<le> m'" for m m'
    using that by (induction m' rule: dec_induct) (auto simp: next_boundary_def intro: order_trans)
  show ?thesis
  proof (cases "a \<le> b")
    case True
    with mono ab show ?thesis by simp
  next
    case False
    then have "(next_boundary s ^^ Suc b) 0 \<le> i" using mono [of "Suc b" a] ab by simp
    with ab assms(3) show ?thesis by (simp add: next_boundary_def)
  qed
qed

lemma arc_bounds: "arc ar vocab u s i j = Some tw \<Longrightarrow> i < j \<and> j \<le> length s"
  by (auto simp: arc_def split: if_splits)

lemma arc_next: "i < length s \<Longrightarrow> arc ar vocab u s i (i + n_utf8_code_units s i) \<noteq> None"
  using n_utf8_code_units_pos [of i s] n_utf8_code_units_le [of i s]
  by (auto simp: arc_def split: option.splits)

text \<open>\<open>viterbi_inv k R\<close>: the entries once every position before \<open>k\<close> has been visited.\<close>

definition low_entry :: "'s score_arith \<Rightarrow> 's llama_vocab \<Rightarrow> 's best_tokenization" where
  "low_entry ar vocab = \<lparr>bt_token = special_unk_id vocab, bt_offset = 0, bt_score = ar_low ar\<rparr>"

definition attained ::
  "'s score_arith \<Rightarrow> 's llama_vocab \<Rightarrow> 's ugm \<Rightarrow> byte list \<Rightarrow> nat \<Rightarrow> 's best_tokenization list \<Rightarrow> nat \<Rightarrow> bool"
  where
  "attained ar vocab u s k R j \<longleftrightarrow> (\<exists>w. bt_offset (R ! j) < k \<and> boundary s (bt_offset (R ! j))
     \<and> arc ar vocab u s (bt_offset (R ! j)) j = Some (bt_token (R ! j), w)
     \<and> bt_score (R ! j) = ar_round ar (w (bt_score (R ! bt_offset (R ! j)))))"

definition best_at ::
  "'s::linorder score_arith \<Rightarrow> 's llama_vocab \<Rightarrow> 's ugm \<Rightarrow> byte list \<Rightarrow> 's best_tokenization list \<Rightarrow> nat \<Rightarrow> bool"
  where
  "best_at ar vocab u s R i \<longleftrightarrow> (\<exists>ts. segmentation ar vocab u s i ts (bt_score (R ! i)))
     \<and> (\<forall>ts v. segmentation ar vocab u s i ts v \<longrightarrow> v \<le> bt_score (R ! i))"

definition viterbi_inv ::
  "'s::linorder score_arith \<Rightarrow> 's llama_vocab \<Rightarrow> 's ugm \<Rightarrow> byte list \<Rightarrow> nat \<Rightarrow> 's best_tokenization list \<Rightarrow> bool"
  where
  "viterbi_inv ar vocab u s k R \<longleftrightarrow> length R = length s + 1 \<and> bt_score (R ! 0) = ar_zero ar
     \<and> (\<forall>j. 0 < j \<and> j \<le> length s \<longrightarrow>
          (\<forall>i<k. boundary s i \<longrightarrow> arc ar vocab u s i j = None) \<and> R ! j = low_entry ar vocab
          \<or> attained ar vocab u s k R j)
     \<and> (\<forall>i j t w. i < k \<longrightarrow> boundary s i \<longrightarrow> arc ar vocab u s i j = Some (t, w) \<longrightarrow>
          ar_round ar (w (bt_score (R ! i))) \<le> bt_score (R ! j))
     \<and> (\<forall>i\<le>k. boundary s i \<longrightarrow> best_at ar vocab u s R i)"

lemma viterbi_visit:
  assumes ok: "arith_ok ar" "sums_above_low ar vocab u s" and inv: "viterbi_inv ar vocab u s k R"
    and k: "boundary s k" "k < length s" and len: "length R' = length R"
    and R': "\<And>j. j \<le> length s \<Longrightarrow> R' ! j = improve ar k (bt_score (R ! k)) (arc ar vocab u s k j) (R ! j)"
  shows "viterbi_inv ar vocab u s (k + n_utf8_code_units s k) R'"
proof -
  let ?k = "k + n_utf8_code_units s k" and ?arc = "arc ar vocab u s"
  have klen: "?k \<le> length s" "k < ?k" using n_utf8_code_units_le n_utf8_code_units_pos k(2) by auto
  from inv have lenR: "length R = length s + 1" and zero: "bt_score (R ! 0) = ar_zero ar"
    and entry: "\<And>j. 0 < j \<Longrightarrow> j \<le> length s \<Longrightarrow>
      (\<forall>i<k. boundary s i \<longrightarrow> ?arc i j = None) \<and> R ! j = low_entry ar vocab \<or> attained ar vocab u s k R j"
    and dom: "\<And>i j t w. i < k \<Longrightarrow> boundary s i \<Longrightarrow> ?arc i j = Some (t, w) \<Longrightarrow>
      ar_round ar (w (bt_score (R ! i))) \<le> bt_score (R ! j)"
    and best: "\<And>i. i \<le> k \<Longrightarrow> boundary s i \<Longrightarrow> best_at ar vocab u s R i"
    unfolding viterbi_inv_def by auto
  have mono_round: "x \<le> y \<Longrightarrow> ar_round ar x \<le> ar_round ar y"
    and idem: "ar_round ar (ar_round ar x) = ar_round ar x" and low: "ar_round ar (ar_low ar) = ar_low ar" for x y
    using ok(1) by (auto simp: arith_ok_def)
  have early: "R' ! i = R ! i" if "i \<le> k" for i
    using R' [of i] that k(2) arc_bounds [of ar vocab u s k i] by (cases "?arc k i") (auto simp: improve_def)
  have gap: "i \<le> k" if "boundary s i" "i < ?k" for i using boundary_gap [OF that(1) k] that(2) by auto
  obtain ts where seg_k: "segmentation ar vocab u s k ts (bt_score (R ! k))"
    using best [OF order_refl k(1)] by (auto simp: best_at_def)
  have above_round: "ar_low ar < ar_round ar (w (bt_score (R ! k)))" if "?arc k j = Some (t, w)" for j t w
    using ok(2) seg_k that by (auto simp: sums_above_low_def)
  have above: "ar_low ar < w (bt_score (R ! k))" if "?arc k j = Some (t, w)" for j t w
  proof (rule ccontr)
    assume "\<not> ar_low ar < w (bt_score (R ! k))"
    then have "ar_round ar (w (bt_score (R ! k))) \<le> ar_low ar"
      using mono_round [of "w (bt_score (R ! k))" "ar_low ar"] low by (simp add: not_less)
    with above_round [OF that] show False by simp
  qed
  have stable: "ar_round ar (bt_score (R ! j)) = bt_score (R ! j)" if "attained ar vocab u s k R j" for j
    using that idem by (auto simp: attained_def)
  have grow: "bt_score (R ! j) \<le> bt_score (R' ! j)" if j: "j \<le> length s" for j
  proof (cases "R' ! j = R ! j")
    case False
    then obtain t w where tw: "?arc k j = Some (t, w)" "w (bt_score (R ! k)) > bt_score (R ! j)"
      and new: "bt_score (R' ! j) = ar_round ar (w (bt_score (R ! k)))"
      using R' [OF j] by (auto simp: improve_def split: option.splits if_splits)
    have "0 < j" using arc_bounds [OF tw(1)] by simp
    from entry [OF this j] show ?thesis
    proof
      assume "(\<forall>i<k. boundary s i \<longrightarrow> ?arc i j = None) \<and> R ! j = low_entry ar vocab"
      then show ?thesis using new above_round [OF tw(1)] by (simp add: low_entry_def)
    next
      assume "attained ar vocab u s k R j"
      from stable [OF this] mono_round [OF less_imp_le [OF tw(2)]] new show ?thesis by simp
    qed
  qed simp
  have entry': "(\<forall>i<?k. boundary s i \<longrightarrow> ?arc i j = None) \<and> R' ! j = low_entry ar vocab
      \<or> attained ar vocab u s ?k R' j" if j: "0 < j" "j \<le> length s" for j
  proof (cases "R' ! j = R ! j")
    case True
    from entry [OF j] show ?thesis
    proof
      assume low: "(\<forall>i<k. boundary s i \<longrightarrow> ?arc i j = None) \<and> R ! j = low_entry ar vocab"
      have "?arc k j = None"
      proof (rule ccontr)
        assume "?arc k j \<noteq> None"
        then obtain t w where tw: "?arc k j = Some (t, w)" by auto
        from R' [OF j(2)] True low tw above [OF tw] have "ar_round ar (w (bt_score (R ! k))) = ar_low ar"
          by (simp add: improve_def low_entry_def)
        with above_round [OF tw] show False by simp
      qed
      with low gap True show ?thesis by (metis le_neq_implies_less)
    next
      assume "attained ar vocab u s k R j"
      then show ?thesis using True klen early by (auto simp: attained_def)
    qed
  next
    case False
    then obtain t w where tw: "?arc k j = Some (t, w)"
      and new: "R' ! j = \<lparr>bt_token = t, bt_offset = k,
        bt_score = ar_round ar (w (bt_score (R ! k)))\<rparr>"
      using R' [OF j(2)] by (auto simp: improve_def split: option.splits if_splits)
    then have "attained ar vocab u s ?k R' j" using klen k(1) early [of k] by (simp add: attained_def)
    then show ?thesis by blast
  qed
  have dom': "ar_round ar (w (bt_score (R' ! i))) \<le> bt_score (R' ! j)"
    if i: "i < ?k" "boundary s i" and a: "?arc i j = Some (t, w)" for i j t w
  proof -
    have j: "i < j" "j \<le> length s" using arc_bounds [OF a] by auto
    have "i \<le> k" using gap i by blast
    then consider "i < k" | "i = k" by linarith
    then show ?thesis
    proof cases
      case 1
      with dom [OF 1 i(2) a] grow [OF j(2)] early [of i] show ?thesis by simp
    next
      case 2
      with a have a: "?arc k j = Some (t, w)" by simp
      show ?thesis
      proof (cases "w (bt_score (R ! k)) > bt_score (R ! j)")
        case True
        with R' [OF j(2)] a 2 early [of k] show ?thesis by (simp add: improve_def)
      next
        case False
        then have old: "R' ! j = R ! j" using R' [OF j(2)] a by (simp add: improve_def)
        have "0 < j" using j by simp
        from entry [OF this j(2)] have "attained ar vocab u s k R j"
          using False above [OF a] by (auto simp: low_entry_def)
        with False mono_round [of "w (bt_score (R ! k))" "bt_score (R ! j)"] stable [of j] old 2
          early [of k] show ?thesis by simp
      qed
    qed
  qed
  have best': "best_at ar vocab u s R' i" if i: "i \<le> ?k" "boundary s i" for i
  proof (cases "i = ?k")
    case False
    with i have "i \<le> k" using gap by simp
    with best [OF this i(2)] early [of i] show ?thesis by (simp add: best_at_def)
  next
    case True
    have bk: "best_at ar vocab u s R' m" if "m < ?k" "boundary s m" for m
      using best [of m] gap [OF that(2,1)] early [of m] that by (simp add: best_at_def)
    have "0 < ?k" using klen by simp
    have "\<not> (\<forall>i<?k. boundary s i \<longrightarrow> ?arc i ?k = None)"
    proof
      assume "\<forall>i<?k. boundary s i \<longrightarrow> ?arc i ?k = None"
      with klen(2) k(1) have "?arc k ?k = None" by (elim allE [of _ k]) simp
      with arc_next [OF k(2), of ar vocab u] show False by simp
    qed
    with entry' [OF \<open>0 < ?k\<close> klen(1)] have "attained ar vocab u s ?k R' ?k" by blast
    then obtain w where w: "bt_offset (R' ! ?k) < ?k" "boundary s (bt_offset (R' ! ?k))"
      "?arc (bt_offset (R' ! ?k)) ?k = Some (bt_token (R' ! ?k), w)"
      "bt_score (R' ! ?k) = ar_round ar (w (bt_score (R' ! bt_offset (R' ! ?k))))"
      by (auto simp: attained_def)
    from bk [OF w(1,2)] obtain ts' where
      "segmentation ar vocab u s (bt_offset (R' ! ?k)) ts' (bt_score (R' ! bt_offset (R' ! ?k)))"
      by (auto simp: best_at_def)
    from seg_snoc [OF this w(2,3)] w(4)
    have att: "\<exists>ts. segmentation ar vocab u s ?k ts (bt_score (R' ! ?k))" by auto
    moreover have "v \<le> bt_score (R' ! ?k)" if "segmentation ar vocab u s ?k ts v" for ts v
      using that
    proof (cases rule: segmentation.cases)
      case (seg_snoc m ts0 v0 t w')
      have "m < ?k" using arc_bounds [OF seg_snoc(5)] by simp
      with bk [OF this seg_snoc(4)] seg_snoc(3) have "v0 \<le> bt_score (R' ! m)" by (auto simp: best_at_def)
      then have "v \<le> ar_round ar (w' (bt_score (R' ! m)))"
        unfolding seg_snoc(2) by (intro mono_round arc_mono [OF ok(1) seg_snoc(5)])
      also have "\<dots> \<le> bt_score (R' ! ?k)" using dom' [OF \<open>m < ?k\<close> seg_snoc(4,5)] .
      finally show ?thesis .
    qed (use klen in simp)
    ultimately show ?thesis using True by (auto simp: best_at_def)
  qed
  show ?thesis
    unfolding viterbi_inv_def using lenR len zero early [of 0] entry' dom' best' by auto
qed

lemma ugm_forward_inv:
  assumes "arith_ok ar" "sums_above_low ar vocab u s" "tokens_valid vocab u"
    and "viterbi_inv ar vocab u s k R" "boundary s k" "k \<le> length s"
  shows "\<exists>R'. ugm_forward ar vocab u s k R = Inr R' \<and> viterbi_inv ar vocab u s (length s) R'
    \<and> boundary s (length s)"
  using assms(4-6)
proof (induction "length s - k" arbitrary: k R rule: less_induct)
  case less
  show ?case
  proof (cases "k < length s")
    case True
    have "length R = length s + 1" using less.prems(1) by (simp add: viterbi_inv_def)
    from ugm_visit_eq [OF assms(3) True this, of ar] obtain R' where
      R': "ugm_visit ar vocab u s k R = Inr R'" "length R' = length R"
      "\<And>j. j \<le> length s \<Longrightarrow> R' ! j = improve ar k (bt_score (R ! k)) (arc ar vocab u s k j) (R ! j)"
      by blast
    have inv: "viterbi_inv ar vocab u s (k + n_utf8_code_units s k) R'"
      by (rule viterbi_visit [OF assms(1,2) less.prems(1,2) True R'(2,3)])
    have nxt: "boundary s (k + n_utf8_code_units s k)" using less.prems(2) True by (rule boundary_next)
    have "length s - (k + n_utf8_code_units s k) < length s - k"
      using True n_utf8_code_units_pos [OF True] by simp
    from less.hyps [OF this inv nxt n_utf8_code_units_le [OF True]] R'(1) True show ?thesis
      by (simp add: ugm_forward.simps [of ar vocab u s k])
  next
    case False
    with less.prems have "k = length s" by simp
    with less.prems show ?thesis by (simp add: ugm_forward.simps [of ar vocab u s "length s"])
  qed
qed

text \<open>Runs of the unknown token are written once.\<close>

fun squash :: "int \<Rightarrow> int list \<Rightarrow> int list" where
  "squash unk [] = []"
| "squash unk (t # ts) =
    (if t = unk \<and> ts \<noteq> [] \<and> hd ts = unk then squash unk ts else t # squash unk ts)"

fun squash_from :: "int \<Rightarrow> bool \<Rightarrow> int list \<Rightarrow> int list" where
  "squash_from unk prev [] = []"
| "squash_from unk prev (t # ts) = (if prev \<and> t = unk then [] else [t]) @ squash_from unk (t = unk) ts"

lemma squash_from_snoc:
  "squash_from unk prev (ts @ [t]) = squash_from unk prev ts
    @ (if (if ts = [] then prev else last ts = unk) \<and> t = unk then [] else [t])"
  by (induction ts arbitrary: prev) auto

lemma squash_rev: "rev (squash_from unk False (rev ts)) = squash unk ts"
  by (induction ts) (auto simp: squash_from_snoc last_rev)

lemma ugm_backtrack_eq:
  assumes inv: "viterbi_inv ar vocab u s (length s) R"
    and "boundary s pos" "0 < pos" "pos \<le> length s" "pos \<le> fuel"
  shows "\<exists>ts. segmentation ar vocab u s pos ts (bt_score (R ! pos))
    \<and> ugm_backtrack fuel vocab R pos prev out
      = Inr (out @ squash_from (special_unk_id vocab) prev (rev ts))"
  using assms(2-)
proof (induction fuel arbitrary: pos prev out)
  case (Suc fuel)
  have best: "best_at ar vocab u s R pos" using inv Suc.prems by (simp add: viterbi_inv_def)
  have "attained ar vocab u s (length s) R pos"
  proof -
    from Suc.prems(1,2) obtain i where i: "boundary s i" "i < length s" "pos = i + n_utf8_code_units s i"
      by (cases rule: boundary.cases) auto
    then have "arc ar vocab u s i pos \<noteq> None" by (simp add: arc_next)
    then have "\<not> (\<forall>i<length s. boundary s i \<longrightarrow> arc ar vocab u s i pos = None)" using i by auto
    moreover have "(\<forall>i<length s. boundary s i \<longrightarrow> arc ar vocab u s i pos = None)
        \<and> R ! pos = low_entry ar vocab \<or> attained ar vocab u s (length s) R pos"
      using inv Suc.prems by (simp add: viterbi_inv_def)
    ultimately show ?thesis by blast
  qed
  then obtain w where w: "boundary s (bt_offset (R ! pos))"
    "arc ar vocab u s (bt_offset (R ! pos)) pos = Some (bt_token (R ! pos), w)"
    "bt_score (R ! pos) = ar_round ar (w (bt_score (R ! bt_offset (R ! pos))))"
    by (auto simp: attained_def)
  let ?i = "bt_offset (R ! pos)" and ?t = "bt_token (R ! pos)"
  have i: "?i < pos" using arc_bounds [OF w(2)] by simp
  show ?case
  proof (cases "?i = 0")
    case True
    have "segmentation ar vocab u s 0 [] (bt_score (R ! 0))"
      using inv seg_Nil by (simp add: viterbi_inv_def)
    with True have "segmentation ar vocab u s ?i [] (bt_score (R ! ?i))" by simp
    from seg_snoc [OF this w(1,2)] w(3) True show ?thesis
      by (intro exI [of _ "[?t]"]) (simp add: Let_def)
  next
    case False
    then have "0 < ?i" "?i \<le> length s" "?i \<le> fuel" using i Suc.prems by auto
    from Suc.IH [OF w(1) this, of "?t = special_unk_id vocab"
        "if prev \<and> ?t = special_unk_id vocab then out else out @ [?t]"]
    obtain ts where ts: "segmentation ar vocab u s ?i ts (bt_score (R ! ?i))"
      "ugm_backtrack fuel vocab R ?i (?t = special_unk_id vocab)
         (if prev \<and> ?t = special_unk_id vocab then out else out @ [?t])
       = Inr ((if prev \<and> ?t = special_unk_id vocab then out else out @ [?t])
           @ squash_from (special_unk_id vocab) (?t = special_unk_id vocab) (rev ts))" by blast
    from seg_snoc [OF ts(1) w(1,2)] w(3) ts(2) False show ?thesis
      by (intro exI [of _ "ts @ [?t]"]) (simp add: Let_def)
  qed
qed simp

lemma ugm_init_valid:
  assumes "ugm_init ar vocab = Inr u"
  shows "tokens_valid vocab u"
proof -
  let ?body = "ugm_add_token vocab"
  obtain v where v: "foldE ?body [0..<length (id_to_token vocab)]
      \<lparr>min_score = ar_high ar, max_score = ar_low ar, token_matcher = new_trie,
       user_defined_token_matcher = new_trie, unknown_token_score = ar_zero ar\<rparr> = Inr v"
    and u: "token_matcher u = token_matcher v"
    using assms by (auto simp: ugm_init_def bindE_Inr_iff)
  have "tokens_valid vocab v"
  proof (rule foldE_invariant [OF v])
    fix i x y
    assume "tokens_valid vocab x" "?body i x = Inr y"
    then show "tokens_valid vocab y"
      by (auto simp: ugm_add_token_def tokens_valid_def bindE_Inr_iff token_at_def llama_is_normal_token_def
          token_has_def Let_def trie_lookup_insert split: if_splits)
  qed (simp add: tokens_valid_def trie_lookup_new)
  with u show ?thesis by (simp add: tokens_valid_def)
qed

text \<open>
  C27: on the tokens of a vocabulary the search returns a segmentation of the whole normalized text
  (each token matches where it stands; a character that is no token of its own may be the unknown
  token) whose score is the highest of all segmentations, with runs of unknown tokens written once. The score of
  a segmentation is the rounded sum that the code computes along it; none may fall to the lowest float.
\<close>

theorem ugm_tokenize_optimal:
  assumes "ugm_init ar vocab = Inr u" and "arith_ok ar" and "sums_above_low ar vocab u s" and "s \<noteq> []"
  shows "\<exists>ts v. ugm_tokenize_normalized ar vocab u s out = Inr (out @ squash (special_unk_id vocab) ts)
    \<and> segmentation ar vocab u s (length s) ts v
    \<and> (\<forall>ts' v'. segmentation ar vocab u s (length s) ts' v' \<longrightarrow> v' \<le> v)"
proof -
  let ?start = "\<lparr>bt_token = special_unk_id vocab, bt_offset = 0, bt_score = ar_zero ar\<rparr>"
  let ?R = "(replicate (length s + 1) (low_entry ar vocab))[0 := ?start]"
  have seg0: "segmentation ar vocab u s 0 ts v \<longleftrightarrow> ts = [] \<and> v = ar_zero ar" for ts v
    by (auto elim: segmentation_elim dest: arc_bounds intro: seg_Nil)
  have "viterbi_inv ar vocab u s 0 ?R"
    by (auto simp: viterbi_inv_def best_at_def seg0 nth_list_update simp del: replicate_Suc)
  from ugm_forward_inv [OF assms(2,3) ugm_init_valid [OF assms(1)] this boundary_0] obtain R where
    R: "ugm_forward ar vocab u s 0 ?R = Inr R" "viterbi_inv ar vocab u s (length s) R"
    "boundary s (length s)" by auto
  have "0 < length s" using assms(4) by simp
  from ugm_backtrack_eq [OF R(2,3) this order_refl, of "length s + 1" False "[]"] obtain ts where
    ts: "segmentation ar vocab u s (length s) ts (bt_score (R ! length s))"
    "ugm_backtrack (length s + 1) vocab R (length s) False []
      = Inr (squash_from (special_unk_id vocab) False (rev ts))" by auto
  have "\<forall>ts' v'. segmentation ar vocab u s (length s) ts' v' \<longrightarrow> v' \<le> bt_score (R ! length s)"
    using R(2,3) by (auto simp: viterbi_inv_def best_at_def)
  moreover have "ugm_tokenize_normalized ar vocab u s out = Inr (out @ squash (special_unk_id vocab) ts)"
    using R(1) ts(2) assms(4) squash_rev [of "special_unk_id vocab" ts]
    by (simp add: ugm_tokenize_normalized_def Let_def low_entry_def)
  ultimately show ?thesis using ts(1) by blast
qed

text \<open>Integer scores with a lowest value, rounded down to multiples of 4, and a vocabulary of three tokens.\<close>

definition int_arith :: "int option score_arith" where
  "int_arith = \<lparr>ar_add = (\<lambda>x w. Option.bind x (\<lambda>a. map_option (\<lambda>b. a + b) w)),
     ar_add_float = (\<lambda>x w. Option.bind x (\<lambda>a. map_option (\<lambda>b. 4 * ((a + b) div 4)) w)),
     ar_round = map_option (\<lambda>a. 4 * (a div 4)),
     ar_zero = Some 0, ar_low = None, ar_high = Some 1000, ar_penalize = map_option (\<lambda>x. x - 10)\<rparr>"

definition ugm_vocab :: "int option llama_vocab" where
  "ugm_vocab = empty_vocab\<lparr>vocab_type := VOCAB_UGM, id_to_token :=
     [\<lparr>tok_text = bytes ''<unk>'', tok_score = Some 0, tok_attr = ATTR_UNKNOWN\<rparr>,
      \<lparr>tok_text = bytes ''a'', tok_score = Some (- 2), tok_attr = ATTR_NORMAL\<rparr>,
      \<lparr>tok_text = bytes ''ab'', tok_score = Some (- 3), tok_attr = ATTR_NORMAL\<rparr>]\<rparr>"

definition ugm_model :: "int option ugm" where
  "ugm_model = projr (ugm_init int_arith ugm_vocab)"

lemma int_arith_ok: "arith_ok int_arith"
  by (auto simp: arith_ok_def int_arith_def less_eq_option_def zdiv_mono1 option.map_comp comp_def split: bind_splits option.splits)

lemma ugm_model_init: "ugm_init int_arith ugm_vocab = Inr ugm_model"
proof -
  have "isl (ugm_init int_arith ugm_vocab) = False" by code_simp
  then show ?thesis by (cases "ugm_init int_arith ugm_vocab") (simp_all add: ugm_model_def)
qed

lemma ugm_model_sums: "sums_above_low int_arith ugm_vocab ugm_model s"
proof -
  have "unknown_token_score ugm_model \<noteq> None" by code_simp
  moreover have "token_weight int_arith ugm_vocab t \<noteq> None" if "valid_id ugm_vocab t" for t
  proof -
    from that have "nat t \<in> {0, 1, 2}" by (auto simp: valid_id_def ugm_vocab_def)
    then show ?thesis by (auto simp: token_weight_def ugm_vocab_def int_arith_def)
  qed
  ultimately have w: "w (Some a) \<noteq> None" if "arc int_arith ugm_vocab ugm_model s i j = Some (t, w)" for i j t w a
    using that ugm_init_valid [OF ugm_model_init]
    by (auto simp: arc_def tokens_valid_def int_arith_def split: if_splits option.splits)
  have round: "ar_round int_arith x \<noteq> None \<longleftrightarrow> x \<noteq> None" for x by (simp add: int_arith_def)
  have v: "v \<noteq> None" if "segmentation int_arith ugm_vocab ugm_model s i ts v" for i ts v
    using that by induction (use w round in \<open>auto simp: int_arith_def\<close>)
  show ?thesis
    unfolding sums_above_low_def
  proof (intro allI impI)
    fix i j ts v t x
    assume "segmentation int_arith ugm_vocab ugm_model s i ts v"
      "arc int_arith ugm_vocab ugm_model s i j = Some (t, x)"
    with v w round have "ar_round int_arith (x v) \<noteq> None" by (metis option.exhaust)
    moreover have "ar_low int_arith = None" by (simp add: int_arith_def)
    ultimately show "ar_low int_arith < ar_round int_arith (x v)"
      by (cases "ar_round int_arith (x v)") simp_all
  qed
qed

lemma ugm_tokenize_optimal_witness:
  "\<exists>ts v. ugm_tokenize_normalized int_arith ugm_vocab ugm_model (bytes ''xyab'') [] = Inr (squash 0 ts)
    \<and> segmentation int_arith ugm_vocab ugm_model (bytes ''xyab'') 4 ts v"
proof -
  have "bytes ''xyab'' \<noteq> []" and len: "length (bytes ''xyab'') = 4" and unk: "special_unk_id ugm_vocab = 0"
    by (simp_all add: bytes_def ugm_vocab_def empty_vocab_def)
  from ugm_tokenize_optimal [OF ugm_model_init int_arith_ok ugm_model_sums this(1), of "[]"]
  show ?thesis unfolding len unk append_Nil by blast
qed

end
