(* ===== verification/UgmNormalize.thy ===== *)
theory UgmNormalize
  imports UgmTokenizer
begin

text \<open>
  The normalization in front of the unigram search: user-defined tokens are kept, the longest prefix
  known to the precompiled character map is replaced, and spaces are merged, escaped and added.
\<close>

section \<open>The character map\<close>

text \<open>
  The map is a blob: a length, the entries of an XOR-compressed double array, and the replacement
  strings. \<open>charsmap_mem\<close> is the memory from the first entry to the end of the blob, so an entry
  read past the array comes out of the replacement strings, as it does in the source.
\<close>

record charsmap =
  charsmap_mem :: "byte list"
  xcda_array_size :: nat
  prefix_replacements :: "byte list"

definition le32 :: "byte list \<Rightarrow> u32" where
  "le32 bs = ucast (bs ! 0) OR push_bit 8 (ucast (bs ! 1)) OR push_bit 16 (ucast (bs ! 2))
     OR push_bit 24 (ucast (bs ! 3))"

definition out_of_bounds :: cxx_error where
  "out_of_bounds = RuntimeError ''Index out of array bounds in precompiled charsmap!''"

definition load_charsmap :: "byte list \<Rightarrow> charsmap res" where
  "load_charsmap blob =
    (if blob = [] then Inr \<lparr>charsmap_mem = [], xcda_array_size = 0, prefix_replacements = []\<rparr>
     else if length blob < 4 then Inl (UndefinedBehaviour ''precompiled_charsmap[0]'')
     else
       (let xcda_blob_size = unat (le32 blob) in
        if xcda_blob_size + 4 \<ge> length blob then Inl out_of_bounds
        else Inr \<lparr>charsmap_mem = drop 4 blob, xcda_array_size = xcda_blob_size div 4,
               prefix_replacements = drop (4 + xcda_blob_size) blob\<rparr>))"

definition get_node :: "charsmap \<Rightarrow> u32 \<Rightarrow> u32 res" where
  "get_node cm index =
    (if unat index > xcda_array_size cm then
       Inl (RuntimeError ''Index out of array bounds in XCDA array!'')
     else if 4 * unat index + 4 \<le> length (charsmap_mem cm) then
       Inr (le32 (drop (4 * unat index) (charsmap_mem cm)))
     else Inl (UndefinedBehaviour ''xcda_array[index]''))"

definition get_base :: "charsmap \<Rightarrow> u32 \<Rightarrow> u32 res" where
  "get_base cm index = bindE (get_node cm index) (\<lambda>packed_node.
     Inr (push_bit (unat (drop_bit 6 (packed_node AND push_bit 9 1))) (drop_bit 10 packed_node)))"

definition get_lcheck :: "charsmap \<Rightarrow> u32 \<Rightarrow> u32 res" where
  "get_lcheck cm index = bindE (get_node cm index) (\<lambda>packed_node.
     Inr (packed_node AND (push_bit 31 1 OR 0xff)))"

definition get_leaf :: "charsmap \<Rightarrow> u32 \<Rightarrow> bool res" where
  "get_leaf cm index = bindE (get_node cm index) (\<lambda>packed_node. Inr (bit packed_node 8))"

definition get_value :: "charsmap \<Rightarrow> u32 \<Rightarrow> u32 res" where
  "get_value cm index = bindE (get_node cm index) (\<lambda>packed_node.
     Inr (packed_node AND (push_bit 31 1 - 1)))"

text \<open>
  The walk through the array: \<open>k\<close> bytes have been read, \<open>best\<close> is the longest match and its value.
\<close>

fun xcda_walk :: "charsmap \<Rightarrow> u32 \<Rightarrow> byte list \<Rightarrow> nat \<Rightarrow> nat \<times> u32 \<Rightarrow> (nat \<times> u32) res" where
  "xcda_walk cm node_index [] k best = Inr best"
| "xcda_walk cm node_index (c # rest) k best =
    (if c = 0 then Inr best
     else
       (let node = xor node_index (ucast c) in
        bindE (get_lcheck cm node) (\<lambda>lcheck.
          if lcheck \<noteq> ucast c then Inr best
          else bindE (get_leaf cm node) (\<lambda>is_leaf.
            bindE (get_base cm node) (\<lambda>base.
              let node' = xor node base in
              if is_leaf then
                bindE (get_value cm node') (\<lambda>v. xcda_walk cm node' rest (k + 1) (k + 1, v))
              else xcda_walk cm node' rest (k + 1) best)))))"

definition xcda_longest :: "charsmap \<Rightarrow> byte list \<Rightarrow> (nat \<times> u32) res" where
  "xcda_longest cm rest =
    (if xcda_array_size cm > 0 then
       bindE (get_base cm 0) (\<lambda>node_index. xcda_walk cm node_index rest 0 (0, 0))
     else Inr (0, 0))"

text \<open>
  The bounds check lets the index one past the last entry through: what is read there are the first
  four bytes of the replacement strings.
\<close>

lemma get_node_past_end:
  assumes "load_charsmap blob = Inr cm" "blob \<noteq> []" and "4 dvd unat (le32 blob)"
    and "4 \<le> length (prefix_replacements cm)"
  shows "get_node cm (of_nat (xcda_array_size cm)) = Inr (le32 (prefix_replacements cm))"
proof -
  let ?k = "unat (le32 blob)"
  from assms(1,2) have cm: "charsmap_mem cm = drop 4 blob" "xcda_array_size cm = ?k div 4"
    "prefix_replacements cm = drop (4 + ?k) blob"
    by (auto simp: load_charsmap_def Let_def split: if_splits)
  have "?k < 2 ^ LENGTH(32)" by (rule unsigned_less)
  then have "unat (of_nat (?k div 4) :: u32) = ?k div 4" by (intro unat_of_nat_u32) simp
  moreover have "4 * (?k div 4) = ?k" using assms(3) by simp
  ultimately show ?thesis
    using assms(4) by (simp add: get_node_def cm add.commute)
qed

section \<open>One prefix\<close>

text \<open>A C string inside the replacements.\<close>

definition c_string_at :: "byte list \<Rightarrow> nat \<Rightarrow> byte list res" where
  "c_string_at mem i =
    (if 0 \<in> set (drop i mem) then Inr (takeWhile (\<lambda>c. c \<noteq> 0) (drop i mem))
     else Inl (UndefinedBehaviour ''strlen''))"

text \<open>\<open>normalize_prefix\<close>: the normalized bytes, and how much of the input they stand for.\<close>

definition normalize_prefix ::
  "'s ugm \<Rightarrow> charsmap \<Rightarrow> byte list \<Rightarrow> nat \<Rightarrow> (byte list \<times> nat) res" where
  "normalize_prefix u cm input input_offset =
    (if input_offset = length input then Inr ([], 0)
     else
       (let rest = drop input_offset input;
            user = get_longest_prefix (user_defined_token_matcher u) rest 0
        in if user > 0 then Inr (take user rest, user)
           else bindE (xcda_longest cm rest) (\<lambda>(longest_prefix_length, longest_prefix_offset).
             if longest_prefix_length > 0 then
               (if unat longest_prefix_offset \<ge> length (prefix_replacements cm) then Inl out_of_bounds
                else bindE (c_string_at (prefix_replacements cm) (unat longest_prefix_offset))
                  (\<lambda>r. Inr (r, longest_prefix_length)))
             else
               (case unicode_cpt_from_utf8 input input_offset of
                  Inr (_, prefix_offset) \<Rightarrow>
                    Inr (take (prefix_offset - input_offset) rest, prefix_offset - input_offset)
                | Inl (InvalidArgument _) \<Rightarrow> Inr ([0xEF, 0xBF, 0xBD], 1)
                | Inl e \<Rightarrow> Inl e))))"

lemma xcda_walk_step:
  assumes "xcda_walk cm node (c # rest) k best = Inr r" "r \<noteq> best"
  shows "\<exists>node' best'. xcda_walk cm node' rest (k + 1) best' = Inr r
    \<and> (best' = best \<or> fst best' = k + 1)"
proof -
  from assms have "(\<exists>node' v. xcda_walk cm node' rest (k + 1) (k + 1, v) = Inr r)
      \<or> (\<exists>node'. xcda_walk cm node' rest (k + 1) best = Inr r)"
    by (auto simp: bindE_Inr_iff Let_def split: if_split_asm)
  then show ?thesis by fastforce
qed

lemma xcda_walk_length:
  "xcda_walk cm node rest k best = Inr (len, v) \<Longrightarrow> len = fst best \<or> k < len"
proof (induction rest arbitrary: node k best)
  case (Cons c rest)
  show ?case
  proof (cases "best = (len, v)")
    case False
    with Cons.prems obtain node' best' where "xcda_walk cm node' rest (k + 1) best' = Inr (len, v)"
      "best' = best \<or> fst best' = k + 1"
      using xcda_walk_step by blast
    with Cons.IH [of node' "k + 1" best'] show ?thesis by auto
  qed simp
qed simp

lemma normalize_prefix_consumes:
  assumes "normalize_prefix u cm input i = Inr (r, n)" "i < length input"
  shows "0 < n"
  using assms unicode_cpt_from_utf8_progress [of input i]
  by (fastforce simp: normalize_prefix_def Let_def bindE_Inr_iff
      split: if_splits sum.splits prod.splits cxx_error.splits)

section \<open>The whole input\<close>

record norm_state =
  normalized :: "byte list"
  is_space_prepended :: bool
  processing_non_ws :: bool

definition ugm_space :: "'s llama_vocab \<Rightarrow> byte list" where
  "ugm_space vocab = (if tokenizer_escape_whitespaces vocab then escaped_space else [0x20])"

definition shall_prepend_space :: "'s llama_vocab \<Rightarrow> bool" where
  "shall_prepend_space vocab \<longleftrightarrow>
     \<not> tokenizer_treat_whitespace_as_suffix vocab \<and> tokenizer_add_space_prefix vocab"

definition shall_append_space :: "'s llama_vocab \<Rightarrow> bool" where
  "shall_append_space vocab \<longleftrightarrow>
     tokenizer_treat_whitespace_as_suffix vocab \<and> tokenizer_add_space_prefix vocab"

definition normalize_char :: "'s llama_vocab \<Rightarrow> byte \<Rightarrow> norm_state \<Rightarrow> norm_state" where
  "normalize_char vocab c st =
    (if c \<noteq> 0x20 then
       (let st1 = (if \<not> processing_non_ws st then
              (let st2 = st\<lparr>processing_non_ws := True\<rparr> in
               if shall_prepend_space vocab \<and> \<not> is_space_prepended st2
                  \<or> tokenizer_remove_extra_whitespaces vocab then
                 st2\<lparr>normalized := normalized st2 @ ugm_space vocab, is_space_prepended := True\<rparr>
               else st2)
            else st)
        in st1\<lparr>normalized := normalized st1 @ [c]\<rparr>)
     else
       (let st1 = st\<lparr>processing_non_ws := False\<rparr> in
        if \<not> tokenizer_remove_extra_whitespaces vocab then
          st1\<lparr>normalized := normalized st1 @ ugm_space vocab\<rparr>
        else st1))"

function normalize_loop ::
  "'s llama_vocab \<Rightarrow> 's ugm \<Rightarrow> charsmap \<Rightarrow> byte list \<Rightarrow> nat \<Rightarrow> norm_state \<Rightarrow> norm_state res" where
  "normalize_loop vocab u cm input input_offset st =
    (if input_offset < length input then
       (case normalize_prefix u cm input input_offset of
          Inl e \<Rightarrow> Inl e
        | Inr (r, n) \<Rightarrow>
            normalize_loop vocab u cm input (input_offset + n) (fold (normalize_char vocab) r st))
     else Inr st)"
  by pat_completeness auto
termination
  by (relation "measure (\<lambda>(vocab, u, cm, input, input_offset, st). length input - input_offset)")
     (auto dest!: normalize_prefix_consumes)

declare normalize_loop.simps [simp del]

definition ugm_normalize :: "'s llama_vocab \<Rightarrow> 's ugm \<Rightarrow> charsmap \<Rightarrow> byte list \<Rightarrow> byte list res" where
  "ugm_normalize vocab u cm input =
    bindE (normalize_loop vocab u cm input 0
        \<lparr>normalized = [], is_space_prepended = False, processing_non_ws = False\<rparr>) (\<lambda>st.
      Inr (normalized st @ (if shall_append_space vocab then ugm_space vocab else [])))"

text \<open>The constructor, and \<open>tokenize\<close>: normalization, then the search.\<close>

definition ugm_load :: "'s::linorder score_arith \<Rightarrow> 's llama_vocab \<Rightarrow> (charsmap \<times> 's ugm) res" where
  "ugm_load ar vocab =
    bindE (load_charsmap (precompiled_charsmap vocab)) (\<lambda>cm.
    bindE (ugm_init ar vocab) (\<lambda>u. Inr (cm, u)))"

definition ugm_tokenize ::
  "'s::linorder score_arith \<Rightarrow> 's llama_vocab \<Rightarrow> charsmap \<times> 's ugm \<Rightarrow> byte list \<Rightarrow> int list \<Rightarrow> int list res" where
  "ugm_tokenize ar vocab = (\<lambda>(cm, u) s out.
    bindE (ugm_normalize vocab u cm s) (\<lambda>normalized.
      ugm_tokenize_normalized ar vocab u normalized out))"

section \<open>What normalization computes\<close>

text \<open>The input after \<open>normalize_prefix\<close>, before its spaces are handled.\<close>

function rewritten :: "'s ugm \<Rightarrow> charsmap \<Rightarrow> byte list \<Rightarrow> nat \<Rightarrow> byte list res" where
  "rewritten u cm input input_offset =
    (if input_offset < length input then
       (case normalize_prefix u cm input input_offset of
          Inl e \<Rightarrow> Inl e
        | Inr (r, n) \<Rightarrow> bindE (rewritten u cm input (input_offset + n)) (\<lambda>s. Inr (r @ s)))
     else Inr [])"
  by pat_completeness auto
termination
  by (relation "measure (\<lambda>(u, cm, input, input_offset). length input - input_offset)")
     (auto dest!: normalize_prefix_consumes)

declare rewritten.simps [simp del]

text \<open>The maximal runs of bytes that are not spaces.\<close>

function words_of :: "byte list \<Rightarrow> byte list list" where
  "words_of s =
    (case dropWhile (\<lambda>c. c = 0x20) s of
       [] \<Rightarrow> []
     | c # cs \<Rightarrow> (c # takeWhile (\<lambda>c. c \<noteq> 0x20) cs) # words_of (dropWhile (\<lambda>c. c \<noteq> 0x20) cs))"
  by pat_completeness auto
termination
proof (relation "measure length")
  fix s :: "byte list" and c cs
  assume "dropWhile (\<lambda>c. c = 0x20) s = c # cs"
  then have "length (c # cs) \<le> length s" by (metis length_dropWhile_le)
  then show "(dropWhile (\<lambda>c. c \<noteq> 0x20) cs, s) \<in> measure length"
    using length_dropWhile_le [of "\<lambda>c. c \<noteq> 0x20" cs] by (simp del: length_dropWhile_le)
qed simp

declare words_of.simps [simp del]

definition subst_spaces :: "byte list \<Rightarrow> byte list \<Rightarrow> byte list" where
  "subst_spaces sp s = concat (map (\<lambda>c. if c = 0x20 then sp else [c]) s)"

text \<open>
  The spaces of the result: one in front of every word when runs are merged; otherwise each space is
  replaced, and one is added in front of the first word when a prefix is asked for.
\<close>

definition spaced :: "'s llama_vocab \<Rightarrow> byte list \<Rightarrow> byte list" where
  "spaced vocab s =
    (let sp = ugm_space vocab in
     if tokenizer_remove_extra_whitespaces vocab then concat (map ((@) sp) (words_of s))
     else subst_spaces sp (takeWhile (\<lambda>c. c = 0x20) s)
       @ (if shall_prepend_space vocab \<and> (\<exists>c\<in>set s. c \<noteq> 0x20) then sp else [])
       @ subst_spaces sp (dropWhile (\<lambda>c. c = 0x20) s))"

lemma words_of_simps [simp]:
  "words_of [] = []" "words_of (0x20 # s) = words_of s"
  "c \<noteq> 0x20 \<Longrightarrow> words_of (c # s)
    = (c # takeWhile (\<lambda>c. c \<noteq> 0x20) s) # words_of (dropWhile (\<lambda>c. c \<noteq> 0x20) s)"
  by (subst words_of.simps, simp; subst words_of.simps, simp)+

lemma fold_merged:
  assumes "tokenizer_remove_extra_whitespaces vocab"
  shows "normalized (fold (normalize_char vocab) s st) = normalized st
    @ (if processing_non_ws st then takeWhile (\<lambda>c. c \<noteq> 0x20) s
         @ concat (map ((@) (ugm_space vocab)) (words_of (dropWhile (\<lambda>c. c \<noteq> 0x20) s)))
       else concat (map ((@) (ugm_space vocab)) (words_of s)))"
  using assms by (induction s arbitrary: st) (auto simp: normalize_char_def Let_def)

lemma fold_kept:
  assumes "\<not> tokenizer_remove_extra_whitespaces vocab"
    and "\<not> shall_prepend_space vocab \<or> is_space_prepended st"
  shows "normalized (fold (normalize_char vocab) s st) = normalized st @ subst_spaces (ugm_space vocab) s"
  using assms by (induction s arbitrary: st) (auto simp: normalize_char_def subst_spaces_def Let_def)

lemma fold_prefixed:
  assumes "\<not> tokenizer_remove_extra_whitespaces vocab" "shall_prepend_space vocab"
    and "\<not> processing_non_ws st" "\<not> is_space_prepended st"
  shows "normalized (fold (normalize_char vocab) s st) = normalized st @ spaced vocab s"
  using assms
proof (induction s arbitrary: st)
  case (Cons c s)
  then show ?case
  proof (cases "c = 0x20")
    case True
    with Cons show ?thesis
      by (simp add: normalize_char_def spaced_def subst_spaces_def Let_def)
  next
    case False
    define st' where "st' = st\<lparr>normalized := normalized st @ ugm_space vocab @ [c],
      is_space_prepended := True, processing_non_ws := True\<rparr>"
    have "normalize_char vocab c st = st'"
      using False Cons.prems by (simp add: normalize_char_def st'_def)
    with Cons.prems(1) fold_kept [of vocab st' s] False Cons.prems(2) show ?thesis
      by (simp add: st'_def spaced_def subst_spaces_def Let_def)
  qed
qed (simp add: spaced_def subst_spaces_def)

lemma fold_spaced:
  assumes "\<not> processing_non_ws st" "\<not> is_space_prepended st"
  shows "normalized (fold (normalize_char vocab) s st) = normalized st @ spaced vocab s"
proof -
  let ?sp = "ugm_space vocab"
  have split: "subst_spaces ?sp (takeWhile (\<lambda>c. c = 0x20) s)
      @ subst_spaces ?sp (dropWhile (\<lambda>c. c = 0x20) s) = subst_spaces ?sp s"
    by (simp add: subst_spaces_def flip: concat_append map_append)
  consider "tokenizer_remove_extra_whitespaces vocab"
    | "\<not> tokenizer_remove_extra_whitespaces vocab" "shall_prepend_space vocab"
    | "\<not> tokenizer_remove_extra_whitespaces vocab" "\<not> shall_prepend_space vocab"
    by blast
  then show ?thesis
  proof cases
    case 1
    with assms show ?thesis by (simp add: fold_merged spaced_def)
  next
    case 2
    with assms show ?thesis by (simp add: fold_prefixed)
  next
    case 3
    with assms split show ?thesis by (simp add: fold_kept spaced_def)
  qed
qed

lemma normalize_loop_rewritten:
  "normalize_loop vocab u cm input i st
    = bindE (rewritten u cm input i) (\<lambda>s. Inr (fold (normalize_char vocab) s st))"
proof (induction vocab u cm input i st rule: normalize_loop.induct)
  case (1 vocab u cm input i st)
  show ?case
    by (subst normalize_loop.simps, subst rewritten.simps)
       (auto simp: 1 bindE_def split: sum.splits)
qed

text \<open>
  Normalization rewrites the prefixes of the input and then, whatever the three space settings
  of the vocabulary are, places the spaces as the specification \<open>spaced\<close> says: with merging, one
  (escaped) space in front of every maximal run of other bytes; without, every space replaced by
  the escape and the dummy prefix added once, in front of the first other byte.
\<close>

theorem ugm_normalize_spaced:
  "ugm_normalize vocab u cm input
   = bindE (rewritten u cm input 0) (\<lambda>s.
       Inr (spaced vocab s @ (if shall_append_space vocab then ugm_space vocab else [])))"
  by (simp add: ugm_normalize_def normalize_loop_rewritten fold_spaced bindE_def split: sum.split)

section \<open>User-defined tokens\<close>

text \<open>
  The matcher reports how far it can walk, not whether it stands at the end of a token: text that
  only begins like a user-defined token is kept from the character map as far as it agrees with it.
\<close>

lemma normalize_prefix_user_path:
  assumes "i < length input" and "get_longest_prefix (user_defined_token_matcher u) (drop i input) 0 = n"
    and "0 < n"
  shows "normalize_prefix u cm input i = Inr (take n (drop i input), n)"
  using assms by (simp add: normalize_prefix_def Let_def)

lemma partial_user_token_bypasses_charsmap:
  assumes "prefix (take n (drop i input)) t" and "n \<noteq> 0" "i + n \<le> length input"
    and "user_defined_token_matcher u = trie_of [(t, v)]"
    and "i + n < length input \<longrightarrow> \<not> prefix (take (Suc n) (drop i input)) t"
  shows "normalize_prefix u cm input i = Inr (take n (drop i input), n)"
proof -
  let ?m = "get_longest_prefix (trie_of [(t, v)]) (drop i input) 0"
  have "walk (trie_of [(t, v)]) s \<noteq> None \<longleftrightarrow> s = [] \<or> prefix s t" for s
    using trie.path_build_empty [of "[(t, v)]" s] by (simp add: trie_of_def)
  note path = this
  have m: "?m \<le> length (drop i input)" "prefix (take ?m (drop i input)) t \<or> ?m = 0"
    "?m < length (drop i input) \<Longrightarrow> \<not> prefix (take (Suc ?m) (drop i input)) t"
    using longest_prefix_walk [of "trie_of [(t, v)]" "drop i input" 0 ?m]
      path [of "take ?m (drop i input)"] path [of "take (Suc ?m) (drop i input)"]
    by auto
  have mono: "prefix (take a (drop i input)) t" if "a \<le> b" "prefix (take b (drop i input)) t" for a b
    using that by (metis min.absorb1 prefix_order.order_trans take_is_prefix take_take)
  have "?m = n"
  proof (rule linorder_cases)
    assume "?m < n"
    moreover from this have "?m < length (drop i input)" using assms(3) by simp
    ultimately show ?thesis using m(3) mono [of "Suc ?m" n] assms(1) by simp
  next
    assume "n < ?m"
    then show ?thesis using m(1,2) mono [of "Suc n" ?m] assms(3,5) by auto
  qed
  with assms show ?thesis by (intro normalize_prefix_user_path) auto
qed

section \<open>Text without a character map\<close>

text \<open>
  With no character map and no user-defined tokens, text that is encoded code points is not rewritten.
\<close>

lemma rewritten_plain:
  assumes "xcda_array_size cm = 0" "user_defined_token_matcher u = new_trie"
    and "mapE unicode_cpt_to_utf8 cps = Inr bss"
  shows "rewritten u cm (pre @ concat bss) (length pre) = Inr (concat bss)"
  using assms(3)
proof (induction cps arbitrary: pre bss)
  case Nil
  then show ?case by (simp add: rewritten.simps)
next
  case (Cons c cps)
  then obtain bs bss' where bs: "unicode_cpt_to_utf8 c = Inr bs" "mapE unicode_cpt_to_utf8 cps = Inr bss'"
    "bss = bs # bss'"
    by (auto simp: bindE_Inr_iff)
  have len: "0 < length bs" using encode_length [OF bs(1)] by simp
  have user: "get_longest_prefix new_trie s 0 = 0" for s by (cases s) simp_all
  have "normalize_prefix u cm (pre @ bs @ concat bss') (length pre) = Inr (bs, length bs)"
    using decode_encode_at [OF bs(1), of pre "concat bss'"] len
    by (simp add: normalize_prefix_def assms(1,2) user xcda_longest_def)
  with Cons.IH [OF bs(2), of "pre @ bs"] len show ?case
    by (subst rewritten.simps) (simp add: bs(3))
qed

end
