(* ===== verification/SpecialTokens.thy ===== *)
theory SpecialTokens
  imports ByteEncoding
begin

text \<open>
  The partition of a text by its special tokens (\<open>tokenizer_st_partition\<close> of
  \<open>src/src/llama-vocab.cpp\<close>): a list of fragments, each a token or a range of the text that is still
  to be tokenized.
\<close>

section \<open>Fragments\<close>

text \<open>Every raw text fragment refers to the same text, which is an argument of the operations.\<close>

datatype fragment_buffer_variant = TokenFragment int | RawText (frag_offset: nat) (frag_length: nat)

definition raw_fragment :: "byte list \<Rightarrow> nat \<Rightarrow> nat \<Rightarrow> fragment_buffer_variant res" where
  "raw_fragment raw_text off len =
    (if len \<ge> 1 \<and> off + len \<le> length raw_text then Inr (RawText off len)
     else Inl (Abort ''_length >= 1''))"

definition emplace_raw :: "byte list \<Rightarrow> nat \<Rightarrow> nat \<Rightarrow> fragment_buffer_variant list res" where
  "emplace_raw raw_text off len =
    (if len > 0 then bindE (raw_fragment raw_text off len) (\<lambda>f. Inr [f]) else Inr [])"

text \<open>Stripping the text in front of a token, and the text behind it.\<close>

fun strip_end :: "byte list \<Rightarrow> nat \<Rightarrow> nat \<Rightarrow> nat" where
  "strip_end raw_text off 0 = 0"
| "strip_end raw_text off (Suc len) =
    (if is_space (raw_text ! (off + len)) then strip_end raw_text off len else Suc len)"

fun strip_start :: "byte list \<Rightarrow> nat \<Rightarrow> nat \<Rightarrow> nat \<times> nat" where
  "strip_start raw_text off 0 = (off, 0)"
| "strip_start raw_text off (Suc len) =
    (if is_space (raw_text ! off) then strip_start raw_text (off + 1) len else (off, Suc len))"

definition left_part :: "byte list \<Rightarrow> bool \<Rightarrow> nat \<Rightarrow> nat \<Rightarrow> fragment_buffer_variant list res" where
  "left_part raw_text lstrip base m =
    (if m > base then
       emplace_raw raw_text base (if lstrip then strip_end raw_text base (m - base) else m - base)
     else Inr [])"

definition right_part :: "byte list \<Rightarrow> bool \<Rightarrow> nat \<Rightarrow> nat \<Rightarrow> nat \<times> nat" where
  "right_part raw_text rstrip off len = (if rstrip then strip_start raw_text off len else (off, len))"

lemma right_part_bounds: "right_part raw_text rstrip off len = (off', len') \<Longrightarrow> off \<le> off' \<and> off' + len' = off + len"
proof -
  have "strip_start raw_text off len = (off', len') \<Longrightarrow> off \<le> off' \<and> off' + len' = off + len"
    by (induction raw_text off len rule: strip_start.induct) (auto split: if_splits)
  then show "right_part raw_text rstrip off len = (off', len') \<Longrightarrow> off \<le> off' \<and> off' + len' = off + len"
    by (auto simp: right_part_def split: if_splits)
qed

section \<open>One token and one fragment\<close>

text \<open>
  The \<open>while (true)\<close> loop on the fragment \<open>base ..< base + len\<close>; what it leaves in the place of the
  fragment. An empty right part is not a fragment. The loop does not end for an empty token: it adds
  tokens until there is no memory left.
\<close>

definition untouched :: "nat \<Rightarrow> nat \<Rightarrow> fragment_buffer_variant list" where
  "untouched base len = (if len > 0 then [RawText base len] else [])"

function split_raw ::
  "byte list \<Rightarrow> byte list \<Rightarrow> int \<Rightarrow> bool \<Rightarrow> bool \<Rightarrow> nat \<Rightarrow> nat \<Rightarrow> fragment_buffer_variant list res" where
  "split_raw raw_text special_token special_id lstrip rstrip base len =
    (if special_token = [] then Inl (RuntimeError ''std::bad_alloc'')
     else case str_find raw_text special_token base of
       None \<Rightarrow> Inr (untouched base len)
     | Some m \<Rightarrow>
         if m + length special_token > base + len then Inr (untouched base len)
         else bindE (left_part raw_text lstrip base m) (\<lambda>left.
           if m + length special_token < base + len then
             (case right_part raw_text rstrip (m + length special_token)
                     (len - ((m - base) + length special_token)) of
                (right_offset, right_length) \<Rightarrow>
                  bindE (emplace_raw raw_text right_offset right_length) (\<lambda>_.
                  bindE (split_raw raw_text special_token special_id lstrip rstrip right_offset right_length)
                    (\<lambda>right. Inr (left @ [TokenFragment special_id] @ right))))
           else Inr (left @ [TokenFragment special_id])))"
  by pat_completeness auto
termination
  by (relation "measure (\<lambda>(raw_text, special_token, special_id, lstrip, rstrip, base, len). len)")
     (auto simp: str_find_Some_iff neq_Nil_conv split: prod.split dest: right_part_bounds)

declare split_raw.simps [simp del]

section \<open>The partition\<close>

fun split_fragment ::
  "byte list \<Rightarrow> int \<Rightarrow> 's vocab_token \<Rightarrow> fragment_buffer_variant \<Rightarrow> fragment_buffer_variant list res" where
  "split_fragment raw_text special_id d (TokenFragment t) = Inr [TokenFragment t]"
| "split_fragment raw_text special_id d (RawText off len) =
    split_raw raw_text (tok_text d) special_id (tok_attr d AND ATTR_LSTRIP \<noteq> 0)
      (tok_attr d AND ATTR_RSTRIP \<noteq> 0) off len"

definition ignored :: "bool \<Rightarrow> 's vocab_token \<Rightarrow> bool" where
  "ignored parse_special d \<longleftrightarrow> \<not> parse_special \<and> tok_attr d AND (ATTR_CONTROL OR ATTR_UNKNOWN) \<noteq> 0"

fun partition_by ::
  "'s llama_vocab \<Rightarrow> byte list \<Rightarrow> bool \<Rightarrow> int \<Rightarrow> fragment_buffer_variant list
    \<Rightarrow> fragment_buffer_variant list res" where
  "partition_by vocab raw_text parse_special special_id buffer =
    bindE (token_at vocab special_id) (\<lambda>d.
      if ignored parse_special d then Inr buffer
      else bindE (mapE (split_fragment raw_text special_id d) buffer) (\<lambda>bs. Inr (concat bs)))"

definition tokenizer_st_partition ::
  "'s llama_vocab \<Rightarrow> byte list \<Rightarrow> bool \<Rightarrow> fragment_buffer_variant list \<Rightarrow> fragment_buffer_variant list res" where
  "tokenizer_st_partition vocab raw_text parse_special buffer =
    foldE (partition_by vocab raw_text parse_special) (cache_special_tokens vocab) buffer"

section \<open>The layout of fragments in the text\<close>

definition text_of :: "'s llama_vocab \<Rightarrow> int \<Rightarrow> byte list" where
  "text_of vocab t = tok_text (id_to_token vocab ! nat t)"

text \<open>Between two fragments there is only white space, and nothing at all if nothing is stripped.\<close>

definition gap :: "byte list \<Rightarrow> bool \<Rightarrow> nat \<Rightarrow> nat \<Rightarrow> bool" where
  "gap raw_text strips a b \<longleftrightarrow> a \<le> b \<and> (a < b \<longrightarrow> strips)
     \<and> (\<forall>i. a \<le> i \<and> i < b \<longrightarrow> i < length raw_text \<and> is_space (raw_text ! i))"

fun layout :: "'s llama_vocab \<Rightarrow> byte list \<Rightarrow> bool \<Rightarrow> nat \<Rightarrow> nat \<Rightarrow> fragment_buffer_variant list \<Rightarrow> bool" where
  "layout vocab raw_text strips pos fin [] \<longleftrightarrow> gap raw_text strips pos fin"
| "layout vocab raw_text strips pos fin (RawText off len # fs) \<longleftrightarrow>
    gap raw_text strips pos off \<and> 1 \<le> len \<and> off + len \<le> length raw_text
    \<and> layout vocab raw_text strips (off + len) fin fs"
| "layout vocab raw_text strips pos fin (TokenFragment t # fs) \<longleftrightarrow>
    (\<exists>m. gap raw_text strips pos m \<and> match_at raw_text (text_of vocab t) m
       \<and> layout vocab raw_text strips (m + length (text_of vocab t)) fin fs)"

lemma gap_refl [simp]: "gap raw_text strips a a"
  by (auto simp: gap_def)

lemma gap_trans: "gap raw_text strips a b \<Longrightarrow> gap raw_text strips b c \<Longrightarrow> gap raw_text strips a c"
  unfolding gap_def by (meson linorder_not_less order_trans le_less_trans)

lemma layout_gap:
  "gap raw_text strips p q \<Longrightarrow> layout vocab raw_text strips q fin fs \<Longrightarrow> layout vocab raw_text strips p fin fs"
  by (cases "(vocab, raw_text, strips, q, fin, fs)" rule: layout.cases) (auto intro: gap_trans)

lemma layout_append:
  "layout vocab raw_text strips p q fs \<Longrightarrow> layout vocab raw_text strips q fin gs
    \<Longrightarrow> layout vocab raw_text strips p fin (fs @ gs)"
  by (induction vocab raw_text strips p q fs rule: layout.induct) (auto intro: layout_gap)

lemma layout_mono: "layout vocab raw_text s p q fs \<Longrightarrow> (s \<Longrightarrow> s') \<Longrightarrow> layout vocab raw_text s' p q fs"
  by (induction vocab raw_text s p q fs rule: layout.induct) (auto simp: gap_def)

text \<open>A fragment within another one, and fragments free of a token's text.\<close>

definition within :: "fragment_buffer_variant list \<Rightarrow> nat \<Rightarrow> nat \<Rightarrow> bool" where
  "within fs a b \<longleftrightarrow> (\<forall>off len. RawText off len \<in> set fs \<longrightarrow> a \<le> off \<and> off + len \<le> b)"

definition clean :: "byte list \<Rightarrow> byte list \<Rightarrow> fragment_buffer_variant list \<Rightarrow> bool" where
  "clean raw_text s fs \<longleftrightarrow> (\<forall>off len m. RawText off len \<in> set fs \<longrightarrow> off \<le> m \<longrightarrow>
     m + length s \<le> off + len \<longrightarrow> \<not> match_at raw_text s m)"

lemma strip_end_gap:
  assumes "off + len \<le> length raw_text"
  shows "strip_end raw_text off len \<le> len \<and> gap raw_text True (off + strip_end raw_text off len) (off + len)"
  using assms
proof (induction len)
  case (Suc len)
  then show ?case
    by (auto simp: gap_def less_Suc_eq)
qed simp

lemma strip_start_gap:
  assumes "off + len \<le> length raw_text" "strip_start raw_text off len = (off', len')"
  shows "gap raw_text True off off'"
  using assms
proof (induction raw_text off len rule: strip_start.induct)
  case (2 raw_text off len)
  show ?case
  proof (cases "is_space (raw_text ! off)")
    case True
    with 2 have "gap raw_text True (Suc off) off'" by simp
    moreover have "gap raw_text True off (Suc off)"
      using True "2.prems" by (auto simp: gap_def less_Suc_eq)
    ultimately show ?thesis by (rule gap_trans [rotated])
  qed (use 2 in simp)
qed simp

lemma left_part_layout:
  assumes "base \<le> m" "m \<le> length raw_text"
  obtains fs where "left_part raw_text lstrip base m = Inr fs"
    "layout vocab raw_text lstrip base m fs" "within fs base m"
proof -
  let ?n = "if lstrip then strip_end raw_text base (m - base) else m - base"
  have n: "?n \<le> m - base" "gap raw_text lstrip (base + ?n) m"
    using strip_end_gap [of base "m - base" raw_text] assms by auto
  show ?thesis
  proof (cases "m > base \<and> ?n > 0")
    case True
    then have "left_part raw_text lstrip base m = Inr [RawText base ?n]"
      using n assms by (auto simp: left_part_def emplace_raw_def raw_fragment_def)
    with True n assms show ?thesis by (intro that) (auto simp: within_def)
  next
    case False
    then have "left_part raw_text lstrip base m = Inr []"
      by (auto simp: left_part_def emplace_raw_def)
    moreover have "gap raw_text lstrip base m" using False n assms by (cases "m > base") auto
    ultimately show ?thesis by (intro that) (auto simp: within_def)
  qed
qed

lemma right_part_layout:
  assumes "off + len \<le> length raw_text" "right_part raw_text rstrip off len = (off', len')"
  shows "gap raw_text rstrip off off' \<and> off' + len' = off + len"
proof (cases rstrip)
  case True
  with assms have "strip_start raw_text off len = (off', len')" by (simp add: right_part_def)
  from strip_start_gap [OF assms(1) this] right_part_bounds [OF assms(2)] True show ?thesis by simp
next
  case False
  with assms show ?thesis by (simp add: right_part_def)
qed

lemma within_append: "within (fs @ gs) a b \<longleftrightarrow> within fs a b \<and> within gs a b"
  by (auto simp: within_def)

lemma within_token [simp]: "within (TokenFragment t # gs) a b \<longleftrightarrow> within gs a b"
  by (auto simp: within_def)

lemma within_mono: "within fs a b \<Longrightarrow> a' \<le> a \<Longrightarrow> b \<le> b' \<Longrightarrow> within fs a' b'"
  by (fastforce simp: within_def)

lemma clean_append: "clean raw_text s (fs @ gs) \<longleftrightarrow> clean raw_text s fs \<and> clean raw_text s gs"
  by (auto simp: clean_def)

lemma clean_token [simp]: "clean raw_text s (TokenFragment t # fs) \<longleftrightarrow> clean raw_text s fs"
  by (auto simp: clean_def)

lemma clean_within:
  assumes "within fs a b" "s \<noteq> []" and "\<And>m. a \<le> m \<Longrightarrow> m + length s \<le> b \<Longrightarrow> \<not> match_at raw_text s m"
  shows "clean raw_text s fs"
  unfolding clean_def
proof (intro allI impI)
  fix off len m
  assume m: "RawText off len \<in> set fs" "off \<le> m" "m + length s \<le> off + len"
  with assms(1) have "a \<le> off" "off + len \<le> b" by (auto simp: within_def)
  with m assms(3) [of m] show "\<not> match_at raw_text s m" by simp
qed

lemma untouched_layout:
  assumes "base + len \<le> length raw_text"
  shows "layout vocab raw_text strips base (base + len) (untouched base len)"
    and "within (untouched base len) base (base + len)"
  using assms by (auto simp: untouched_def within_def)

text \<open>One fragment is replaced by fragments that cover it and do not contain the token.\<close>

lemma split_raw_correct:
  assumes "base + len \<le> length raw_text" "s \<noteq> []" and "text_of vocab t = s"
  shows "\<exists>fs. split_raw raw_text s t lstrip rstrip base len = Inr fs
    \<and> layout vocab raw_text (lstrip \<or> rstrip) base (base + len) fs
    \<and> within fs base (base + len) \<and> clean raw_text s fs"
  using assms
proof (induction len arbitrary: base rule: less_induct)
  case (less len)
  let ?st = "lstrip \<or> rstrip"
  have rest: "\<exists>fs. Inr (untouched base len) = Inr fs \<and> layout vocab raw_text ?st base (base + len) fs
      \<and> within fs base (base + len) \<and> clean raw_text s fs"
    if "\<And>m. base \<le> m \<Longrightarrow> m + length s \<le> base + len \<Longrightarrow> \<not> match_at raw_text s m"
    using untouched_layout [OF less.prems(1)] clean_within [OF untouched_layout(2) [OF less.prems(1)]
        less.prems(2) that] by blast
  consider (none) "str_find raw_text s base = None"
    | (out) m where "str_find raw_text s base = Some m" "m + length s > base + len"
    | (found) m where "str_find raw_text s base = Some m" "m + length s \<le> base + len"
    by (metis linorder_not_less option.exhaust)
  then show ?case
  proof cases
    case none
    moreover from none have "\<not> match_at raw_text s k" if "base \<le> k" for k
      using that by (simp add: str_find_None_iff)
    ultimately show ?thesis using less.prems(2) rest by (subst split_raw.simps) simp
  next
    case out
    then have "\<not> match_at raw_text s k" if "base \<le> k" "k + length s \<le> base + len" for k
      using that by (cases "k < m") (auto simp: str_find_Some_iff)
    with out less.prems rest show ?thesis by (subst split_raw.simps) simp
  next
    case found
    then have m: "base \<le> m" "match_at raw_text s m"
      and first: "\<And>k. base \<le> k \<Longrightarrow> k < m \<Longrightarrow> \<not> match_at raw_text s k"
      by (auto simp: str_find_Some_iff)
    let ?r = "m + length s"
    obtain left where left: "left_part raw_text lstrip base m = Inr left"
      "layout vocab raw_text lstrip base m left" "within left base m"
      using left_part_layout [of base m raw_text lstrip vocab] m(1) found(2) less.prems(1) by force
    have left': "layout vocab raw_text ?st base m left" using left(2) by (rule layout_mono) simp
    have clean_left: "clean raw_text s left"
      using left(3) less.prems(2) first by (rule clean_within) (use less.prems(2) in \<open>auto simp: neq_Nil_conv\<close>)
    have within_left: "within left base (base + len)"
      using left(3) found(2) by (auto elim: within_mono)
    have tok: "layout vocab raw_text ?st m (base + len) (TokenFragment t # fs)"
      if "layout vocab raw_text ?st ?r (base + len) fs" for fs
      using that m(2) less.prems(3) by (auto intro!: exI [of _ m])
    show ?thesis
    proof (cases "?r < base + len")
      case True
      obtain off' len' where rp: "right_part raw_text rstrip ?r (len - ((m - base) + length s)) = (off', len')"
        by fastforce
      have "?r + (len - ((m - base) + length s)) = base + len" using m(1) found(2) by simp
      with right_part_layout [OF _ rp] less.prems(1)
      have off': "gap raw_text rstrip ?r off'" "off' + len' = base + len" by auto
      have bounds: "?r \<le> off'" using right_part_bounds [OF rp] by simp
      have "len' < len" using off'(2) bounds m(1) less.prems(2) by (auto simp: neq_Nil_conv)
      then obtain fs where fs: "split_raw raw_text s t lstrip rstrip off' len' = Inr fs"
        "layout vocab raw_text ?st off' (off' + len') fs" "within fs off' (off' + len')" "clean raw_text s fs"
        using less.IH [of len' off'] less.prems off'(2) by auto
      have "gap raw_text ?st ?r off'" using off'(1) by (auto simp: gap_def)
      with fs(2) off'(2) have "layout vocab raw_text ?st ?r (base + len) fs" by (simp add: layout_gap)
      from layout_append [OF left' tok [OF this]]
      have lay: "layout vocab raw_text ?st base (base + len) (left @ TokenFragment t # fs)" .
      have "emplace_raw raw_text off' len' = Inr (untouched off' len')"
        using off'(2) less.prems(1) by (simp add: emplace_raw_def raw_fragment_def untouched_def)
      then have "split_raw raw_text s t lstrip rstrip base len = Inr (left @ [TokenFragment t] @ fs)"
        using found m True left(1) rp fs(1) less.prems(2) by (subst split_raw.simps) simp
      moreover have "within fs base (base + len)"
        using fs(3) off'(2) bounds m(1) by (auto elim: within_mono)
      ultimately show ?thesis
        using lay within_left clean_left fs(4) by (auto simp: within_append clean_append)
    next
      case False
      then have r: "?r = base + len" using found(2) by simp
      have "layout vocab raw_text ?st base (base + len) (left @ [TokenFragment t])"
        by (rule layout_append [OF left' tok]) (simp add: r)
      moreover have "split_raw raw_text s t lstrip rstrip base len = Inr (left @ [TokenFragment t])"
        using found m False left(1) less.prems(2) by (subst split_raw.simps) simp
      moreover have "within [] base (base + len)" "clean raw_text s []" by (auto simp: within_def clean_def)
      ultimately show ?thesis
        using within_left clean_left by (auto simp: within_append clean_append)
    qed
  qed
qed

text \<open>Every range of \<open>gs\<close> lies in a range of \<open>fs\<close>.\<close>

definition refines :: "fragment_buffer_variant list \<Rightarrow> fragment_buffer_variant list \<Rightarrow> bool" where
  "refines gs fs \<longleftrightarrow> (\<forall>off len. RawText off len \<in> set gs \<longrightarrow>
     (\<exists>off' len'. RawText off' len' \<in> set fs \<and> off' \<le> off \<and> off + len \<le> off' + len'))"

lemma refines_clean:
  assumes "refines gs fs" "clean raw_text s fs" shows "clean raw_text s gs"
  unfolding clean_def
proof (intro allI impI)
  fix off len m
  assume m: "RawText off len \<in> set gs" "off \<le> m" "m + length s \<le> off + len"
  with assms(1) obtain off' len' where f: "RawText off' len' \<in> set fs" "off' \<le> off" "off + len \<le> off' + len'"
    unfolding refines_def by blast
  then have "off' \<le> m" "m + length s \<le> off' + len'" using m by auto
  with assms(2) f(1) show "\<not> match_at raw_text s m" by (auto simp: clean_def)
qed

lemma refines_Cons:
  "within gs off (off + len) \<Longrightarrow> refines hs fs \<Longrightarrow> refines (gs @ hs) (RawText off len # fs)"
  by (fastforce simp: refines_def within_def)

lemma refines_token: "refines hs fs \<Longrightarrow> refines (TokenFragment t # hs) (TokenFragment t # fs)"
  by (fastforce simp: refines_def)

lemma split_buffer_correct:
  assumes "layout vocab raw_text strips p q fs" and "tok_text d \<noteq> []" "text_of vocab t = tok_text d"
    and "tok_attr d AND ATTR_LSTRIP \<noteq> 0 \<or> tok_attr d AND ATTR_RSTRIP \<noteq> 0 \<Longrightarrow> strips"
  shows "\<exists>gss. mapE (split_fragment raw_text t d) fs = Inr gss
    \<and> layout vocab raw_text strips p q (concat gss) \<and> refines (concat gss) fs
    \<and> clean raw_text (tok_text d) (concat gss)"
  using assms(1)
proof (induction fs arbitrary: p)
  case Nil
  then show ?case by (simp add: refines_def clean_def)
next
  case (Cons f fs)
  show ?case
  proof (cases f)
    case (TokenFragment u)
    with Cons.prems obtain m where m: "gap raw_text strips p m" "match_at raw_text (text_of vocab u) m"
      "layout vocab raw_text strips (m + length (text_of vocab u)) q fs" by auto
    from Cons.IH [OF m(3)] obtain gss where "mapE (split_fragment raw_text t d) fs = Inr gss"
      "layout vocab raw_text strips (m + length (text_of vocab u)) q (concat gss)"
      "refines (concat gss) fs" "clean raw_text (tok_text d) (concat gss)" by auto
    with m TokenFragment refines_token [of "concat gss" fs u] show ?thesis by auto
  next
    case (RawText off len)
    with Cons.prems have f: "gap raw_text strips p off" "off + len \<le> length raw_text"
      "layout vocab raw_text strips (off + len) q fs" by auto
    from split_raw_correct [OF f(2) assms(2,3)]
    obtain gs where gs: "split_fragment raw_text t d f = Inr gs"
      "layout vocab raw_text (tok_attr d AND ATTR_LSTRIP \<noteq> 0 \<or> tok_attr d AND ATTR_RSTRIP \<noteq> 0)
         off (off + len) gs"
      "within gs off (off + len)" "clean raw_text (tok_text d) gs"
      using RawText by fastforce
    have "layout vocab raw_text strips off (off + len) gs" using gs(2) assms(4) by (rule layout_mono)
    then have lay: "layout vocab raw_text strips p (off + len) gs" using f(1) by (rule layout_gap [rotated])
    from Cons.IH [OF f(3)] obtain gss where IH: "mapE (split_fragment raw_text t d) fs = Inr gss"
      "layout vocab raw_text strips (off + len) q (concat gss)"
      "refines (concat gss) fs" "clean raw_text (tok_text d) (concat gss)" by auto
    from layout_append [OF lay IH(2)] refines_Cons [OF gs(3) IH(3)] gs IH RawText show ?thesis
      by (simp add: clean_append)
  qed
qed

text \<open>The special tokens that the partition looks for, and whether one of them strips.\<close>

definition active :: "'s llama_vocab \<Rightarrow> bool \<Rightarrow> int \<Rightarrow> bool" where
  "active vocab parse_special t \<longleftrightarrow>
     t \<in> set (cache_special_tokens vocab) \<and> \<not> ignored parse_special (id_to_token vocab ! nat t)"

definition stripping :: "'s llama_vocab \<Rightarrow> bool \<Rightarrow> bool" where
  "stripping vocab parse_special \<longleftrightarrow> (\<exists>t. active vocab parse_special t
     \<and> (tok_attr (id_to_token vocab ! nat t) AND ATTR_LSTRIP \<noteq> 0
        \<or> tok_attr (id_to_token vocab ! nat t) AND ATTR_RSTRIP \<noteq> 0))"

definition special_ok :: "'s llama_vocab \<Rightarrow> int \<Rightarrow> bool" where
  "special_ok vocab t \<longleftrightarrow> valid_id vocab t \<and> text_of vocab t \<noteq> []"

lemma partition_by_correct:
  assumes "special_ok vocab t" "t \<in> set (cache_special_tokens vocab)"
    and "layout vocab raw_text (stripping vocab ps) p q fs"
  shows "\<exists>gs. partition_by vocab raw_text ps t fs = Inr gs
    \<and> layout vocab raw_text (stripping vocab ps) p q gs \<and> refines gs fs
    \<and> (active vocab ps t \<longrightarrow> clean raw_text (text_of vocab t) gs)"
proof -
  let ?d = "id_to_token vocab ! nat t"
  have d: "token_at vocab t = Inr ?d" using assms(1) by (simp add: special_ok_def token_at_def)
  have refl: "refines fs fs" by (auto simp: refines_def)
  show ?thesis
  proof (cases "ignored ps ?d")
    case True
    with d refl assms(3) show ?thesis by (simp add: active_def)
  next
    case False
    with assms(2) have act: "active vocab ps t" by (simp add: active_def)
    then have "tok_attr ?d AND ATTR_LSTRIP \<noteq> 0 \<or> tok_attr ?d AND ATTR_RSTRIP \<noteq> 0 \<Longrightarrow> stripping vocab ps"
      by (auto simp: stripping_def)
    moreover have "tok_text ?d \<noteq> []" "text_of vocab t = tok_text ?d"
      using assms(1) by (simp_all add: special_ok_def text_of_def)
    ultimately obtain gss where "mapE (split_fragment raw_text t ?d) fs = Inr gss"
      "layout vocab raw_text (stripping vocab ps) p q (concat gss)" "refines (concat gss) fs"
      "clean raw_text (tok_text ?d) (concat gss)"
      using split_buffer_correct [OF assms(3), where d = ?d and t = t] by blast
    with d False show ?thesis by (simp add: text_of_def)
  qed
qed

lemma refines_trans: "refines hs gs \<Longrightarrow> refines gs fs \<Longrightarrow> refines hs fs"
  unfolding refines_def by (meson order_trans)

lemma partition_fold:
  assumes "list_all (special_ok vocab) ts" "set ts \<subseteq> set (cache_special_tokens vocab)"
    and "layout vocab raw_text (stripping vocab ps) p q fs"
  shows "\<exists>gs. foldE (partition_by vocab raw_text ps) ts fs = Inr gs
    \<and> layout vocab raw_text (stripping vocab ps) p q gs \<and> refines gs fs
    \<and> (\<forall>t\<in>set ts. active vocab ps t \<longrightarrow> clean raw_text (text_of vocab t) gs)"
  using assms
proof (induction ts arbitrary: fs)
  case Nil
  then show ?case by (auto simp: refines_def)
next
  case (Cons t ts)
  then obtain gs where gs: "partition_by vocab raw_text ps t fs = Inr gs"
    "layout vocab raw_text (stripping vocab ps) p q gs" "refines gs fs"
    "active vocab ps t \<longrightarrow> clean raw_text (text_of vocab t) gs"
    using partition_by_correct [of vocab t raw_text ps p q fs] by auto
  from Cons.prems have "list_all (special_ok vocab) ts" "set ts \<subseteq> set (cache_special_tokens vocab)" by auto
  from Cons.IH [OF this gs(2)] obtain hs where hs: "foldE (partition_by vocab raw_text ps) ts gs = Inr hs"
    "layout vocab raw_text (stripping vocab ps) p q hs" "refines hs gs"
    "\<forall>t\<in>set ts. active vocab ps t \<longrightarrow> clean raw_text (text_of vocab t) hs"
    by blast
  with gs refines_clean [OF hs(3)] refines_trans [OF hs(3) gs(3)] show ?case
    by (auto simp del: partition_by.simps)
qed

text \<open>
  C29: the partition of a text by special tokens with valid ids and nonempty texts succeeds. Its
  fragments lie in the text in order, a token fragment where the text of the token stands; what is
  between them is white space, and nothing at all if no token in use strips; and no text fragment
  contains the text of a token in use.
\<close>

theorem partition_covers:
  assumes "list_all (special_ok vocab) (cache_special_tokens vocab)" "raw_text \<noteq> []"
  shows "\<exists>fs. tokenizer_st_partition vocab raw_text parse_special [RawText 0 (length raw_text)] = Inr fs
    \<and> layout vocab raw_text (stripping vocab parse_special) 0 (length raw_text) fs
    \<and> Collect (active vocab parse_special) \<subseteq> {t. clean raw_text (text_of vocab t) fs}"
proof -
  have "layout vocab raw_text (stripping vocab parse_special) 0 (length raw_text)
      [RawText 0 (length raw_text)]"
    using assms(2) by (cases raw_text) auto
  from partition_fold [OF assms(1) subset_refl this] show ?thesis
    by (auto simp: tokenizer_st_partition_def active_def)
qed

lemma partition_covers_witness:
  "let d = \<lparr>tok_text = bytes ''<s>'', tok_score = 0 :: int, tok_attr = ATTR_CONTROL OR ATTR_RSTRIP\<rparr>;
       vocab = empty_vocab\<lparr>id_to_token := [d], cache_special_tokens := [0]\<rparr>
   in \<exists>fs. tokenizer_st_partition vocab (bytes ''a<s>  b'') True [RawText 0 (length (bytes ''a<s>  b''))] = Inr fs
    \<and> layout vocab (bytes ''a<s>  b'') (stripping vocab True) 0 (length (bytes ''a<s>  b'')) fs
    \<and> Collect (active vocab True) \<subseteq> {t. clean (bytes ''a<s>  b'') (text_of vocab t) fs}"
  unfolding Let_def
  by (rule partition_covers)
     (simp_all add: special_ok_def valid_id_def text_of_def empty_vocab_def bytes_def)

text \<open>Without stripping, the fragments put together are the text.\<close>

fun fragment_text :: "'s llama_vocab \<Rightarrow> byte list \<Rightarrow> fragment_buffer_variant \<Rightarrow> byte list" where
  "fragment_text vocab raw_text (TokenFragment t) = text_of vocab t"
| "fragment_text vocab raw_text (RawText off len) = take len (drop off raw_text)"

lemma layout_text:
  assumes "layout vocab raw_text False p q fs" "p \<le> length raw_text"
  shows "p \<le> q \<and> concat (map (fragment_text vocab raw_text) fs) = take (q - p) (drop p raw_text)"
  using assms
proof (induction vocab raw_text False p q fs rule: layout.induct)
  case (2 vocab raw_text p q off len fs)
  then have "p = off" "off + len \<le> q" by (auto simp: gap_def)
  with 2 show ?case by (auto simp: take_add [symmetric] add.commute simp flip: take_add drop_drop)
next
  case (3 vocab raw_text p q t fs)
  then obtain m where "gap raw_text False p m" and m: "match_at raw_text (text_of vocab t) m"
    "layout vocab raw_text False (m + length (text_of vocab t)) q fs" by auto
  then have "m = p" by (simp add: gap_def)
  let ?n = "length (text_of vocab t)"
  have n: "p + ?n \<le> length raw_text" "take ?n (drop p raw_text) = text_of vocab t"
    using m(1) \<open>m = p\<close> by (simp_all add: match_at_def)
  with "3.hyps" m(2) \<open>m = p\<close> have IH: "p + ?n \<le> q" "concat (map (fragment_text vocab raw_text) fs)
      = take (q - (p + ?n)) (drop (p + ?n) raw_text)" by auto
  then have "q - p = ?n + (q - (p + ?n))" by simp
  then have "take (q - p) (drop p raw_text)
      = take ?n (drop p raw_text) @ take (q - (p + ?n)) (drop (p + ?n) raw_text)"
    by (metis add.commute drop_drop take_add)
  with n IH show ?case by simp
qed (auto simp: gap_def)

end
