(* ===== verification/VocabTokenize.thy ===== *)
theory VocabTokenize
  imports SpmTokenizer BpeText WpmTokenizer UgmNormalize SpecialTokens
begin

text \<open>
  \<open>llama_tokenize_internal\<close> and \<open>llama_tokenize_impl\<close> of \<open>src/src/llama-vocab.cpp\<close>, and the wrapper
  \<open>llama_tokenize\<close> of \<open>src/common/common.cpp\<close>: the text is partitioned by the special tokens, and
  each text fragment goes to the tokenizer of the vocabulary type.
\<close>

section \<open>Tokenizing the fragments\<close>

text \<open>
  What the tokenizers take from outside: the order of the two heaps on entries of equal priority, the
  recursion depth, float arithmetic, the Unicode tables, the regular expressions chosen for the
  vocabulary and the two engines of the standard library.
\<close>

record 's tokenizer_env =
  env_spm_tie :: "'s llm_bigram_spm list \<Rightarrow> nat"
  env_bpe_tie :: "llm_bigram_bpe list \<Rightarrow> nat"
  env_depth :: nat
  env_arith :: "'s score_arith"
  env_data :: unicode_data
  env_regex_exprs :: "byte list list"
  env_regex :: "byte regex_engine"
  env_wregex :: "u32 regex_engine"

definition append_token :: "int \<Rightarrow> int list \<Rightarrow> int list res" where
  "append_token tid out = (if tid = -1 then Inl (Abort ''special id != -1'') else Inr (out @ [tid]))"

definition append_if :: "bool \<Rightarrow> int \<Rightarrow> int list \<Rightarrow> int list res" where
  "append_if b tid out = (if b then append_token tid out else Inr out)"

text \<open>The SPM loop also carries \<open>is_prev_special\<close>.\<close>

fun spm_fragment ::
  "'s::linorder tokenizer_env \<Rightarrow> 's llama_vocab \<Rightarrow> byte list \<Rightarrow> fragment_buffer_variant
    \<Rightarrow> bool \<times> int list \<Rightarrow> (bool \<times> int list) res" where
  "spm_fragment env vocab raw_text (TokenFragment t) (is_prev_special, out) = Inr (True, out @ [t])"
| "spm_fragment env vocab raw_text (RawText off len) (is_prev_special, out) =
    (let s = take len (drop off raw_text);
         s' = (if tokenizer_add_space_prefix vocab \<and> is_prev_special then bytes '' '' @ s else s)
     in bindE (spm_tokenize vocab (env_spm_tie env) (env_depth env) (llama_escape_whitespace s') out)
          (\<lambda>out'. Inr (False, out')))"

text \<open>The loop of the other three: \<open>tok\<close> tokenizes a text fragment.\<close>

fun plain_fragment ::
  "(byte list \<Rightarrow> int list \<Rightarrow> int list res) \<Rightarrow> byte list \<Rightarrow> fragment_buffer_variant \<Rightarrow> int list \<Rightarrow> int list res" where
  "plain_fragment tok raw_text (TokenFragment t) out = Inr (out @ [t])"
| "plain_fragment tok raw_text (RawText off len) out = tok (take len (drop off raw_text)) out"

definition split_words :: "'s tokenizer_env \<Rightarrow> byte list \<Rightarrow> byte list list res" where
  "split_words env s = unicode_regex_split (env_data env) (env_regex env) (env_wregex env) s (env_regex_exprs env)"

definition tokenize_fragments ::
  "'s::linorder tokenizer_env \<Rightarrow> 's llama_vocab \<Rightarrow> byte list \<Rightarrow> fragment_buffer_variant list \<Rightarrow> bool
    \<Rightarrow> int list res" where
  "tokenize_fragments env vocab raw_text buffer add_special =
    (case vocab_type vocab of
       VOCAB_SPM \<Rightarrow>
         bindE (append_if (add_special \<and> tokenizer_add_bos vocab) (special_bos_id vocab) []) (\<lambda>out.
         bindE (foldE (spm_fragment env vocab raw_text) buffer (True, out)) (\<lambda>(_, out').
           append_if (add_special \<and> tokenizer_add_eos vocab) (special_eos_id vocab) out'))
     | VOCAB_BPE \<Rightarrow>
         bindE (append_if (add_special \<and> tokenizer_add_bos vocab) (special_bos_id vocab) []) (\<lambda>out.
         bindE (foldE (plain_fragment (bpe_tokenize vocab (env_bpe_tie env) (split_words env)) raw_text)
             buffer out) (\<lambda>out'.
           append_if (add_special \<and> tokenizer_add_eos vocab) (special_eos_id vocab) out'))
     | VOCAB_WPM \<Rightarrow>
         bindE (append_if add_special (special_cls_id vocab) []) (\<lambda>out.
         bindE (foldE (plain_fragment (wpm_tokenize (env_data env) vocab) raw_text) buffer out) (\<lambda>out'.
           append_if add_special (special_sep_id vocab) out'))
     | VOCAB_UGM \<Rightarrow>
         bindE (ugm_load (env_arith env) vocab) (\<lambda>tokenizer.
         bindE (append_if (add_special \<and> tokenizer_add_bos vocab) (special_bos_id vocab) []) (\<lambda>out.
         bindE (foldE (plain_fragment (ugm_tokenize (env_arith env) vocab tokenizer) raw_text) buffer out)
           (\<lambda>out'. append_if (add_special \<and> tokenizer_add_eos vocab) (special_eos_id vocab) out')))
     | VOCAB_NONE \<Rightarrow> Inl (Abort ''fatal error''))"

definition llama_tokenize_internal ::
  "'s::linorder tokenizer_env \<Rightarrow> 's llama_vocab \<Rightarrow> byte list \<Rightarrow> bool \<Rightarrow> bool \<Rightarrow> int list res" where
  "llama_tokenize_internal env vocab raw_text add_special parse_special =
    bindE (if raw_text \<noteq> [] then
             bindE (raw_fragment raw_text 0 (length raw_text)) (\<lambda>f.
               tokenizer_st_partition vocab raw_text parse_special [f])
           else Inr []) (\<lambda>fragment_buffer.
      tokenize_fragments env vocab raw_text fragment_buffer add_special)"

section \<open>Buffers\<close>

text \<open>
  The caller passes a buffer and its size. A result that does not fit is not written; its negated
  length is returned.
\<close>

definition llama_tokenize_impl ::
  "'s::linorder tokenizer_env \<Rightarrow> 's llama_vocab \<Rightarrow> byte list \<Rightarrow> int list \<Rightarrow> int \<Rightarrow> bool \<Rightarrow> bool
    \<Rightarrow> (int \<times> int list) res" where
  "llama_tokenize_impl env vocab raw_text tokens n_tokens_max add_special parse_special =
    bindE (llama_tokenize_internal env vocab raw_text add_special parse_special) (\<lambda>ids.
      if n_tokens_max < int (length ids) then Inr (- int (length ids), tokens)
      else if length tokens < length ids then Inl (UndefinedBehaviour ''tokens[i]'')
      else Inr (int (length ids), ids @ drop (length ids) tokens))"

text \<open>\<open>std::vector::resize\<close>.\<close>

definition resize_to :: "'a \<Rightarrow> nat \<Rightarrow> 'a list \<Rightarrow> 'a list" where
  "resize_to x n xs = take n xs @ replicate (n - length xs) x"

definition llama_tokenize ::
  "'s::linorder tokenizer_env \<Rightarrow> 's llama_vocab \<Rightarrow> byte list \<Rightarrow> bool \<Rightarrow> bool \<Rightarrow> int list res" where
  "llama_tokenize env vocab s add_special parse_special =
    (let n = length s + 2 * (if add_special then 1 else 0);
         result0 = replicate n 0
     in bindE (llama_tokenize_impl env vocab s result0 (int (length result0)) add_special parse_special)
          (\<lambda>(n_tokens, result).
       if n_tokens < 0 then
         (let result1 = resize_to 0 (nat (- n_tokens)) result in
          bindE (llama_tokenize_impl env vocab s result1 (int (length result1)) add_special parse_special)
            (\<lambda>(check, result2).
              if check = - n_tokens then Inr result2 else Inl (Abort ''check == -n_tokens'')))
       else Inr (resize_to 0 (nat n_tokens) result)))"

lemma llama_tokenize_eq:
  "llama_tokenize env vocab s add_special parse_special
   = llama_tokenize_internal env vocab s add_special parse_special"
  by (cases "llama_tokenize_internal env vocab s add_special parse_special")
     (auto simp: llama_tokenize_def llama_tokenize_impl_def resize_to_def Let_def)

text \<open>
  The two-call protocol of the wrapper always delivers the tokens: its estimate of their number
  may be too small, but the second call gets a buffer of exactly the size the first one asked for,
  the assertion on its return value cannot fail, and no call writes outside of its buffer.
\<close>

theorem llama_tokenize_protocol:
  "llama_tokenize env vocab s add_special parse_special
   = llama_tokenize_internal env vocab s add_special parse_special"
  by (rule llama_tokenize_eq)

section \<open>Valid ids\<close>

definition ids_ok :: "'s llama_vocab \<Rightarrow> int list \<Rightarrow> bool" where
  "ids_ok vocab ids \<longleftrightarrow> (\<forall>t\<in>set ids. valid_id vocab t)"

definition vocab_ok :: "'s llama_vocab \<Rightarrow> bool" where
  "vocab_ok vocab \<longleftrightarrow> ran (token_to_id vocab) \<subseteq> Collect (valid_id vocab)
     \<and> ids_ok vocab (special_unk_id vocab # cache_special_tokens vocab)"

text \<open>A special id that is used is \<open>-1\<close>, which the code refuses, or the id of a token.\<close>

definition specials_ok :: "'s llama_vocab \<Rightarrow> bool" where
  "specials_ok vocab \<longleftrightarrow> (\<forall>t \<in> {special_bos_id vocab, special_eos_id vocab, special_cls_id vocab,
     special_sep_id vocab}. t = -1 \<or> valid_id vocab t)"

lemma ids_ok_simps [simp]:
  "ids_ok vocab []" "ids_ok vocab (a @ b) \<longleftrightarrow> ids_ok vocab a \<and> ids_ok vocab b"
  "ids_ok vocab (t # a) \<longleftrightarrow> valid_id vocab t \<and> ids_ok vocab a"
  by (auto simp: ids_ok_def)

lemma ids_ok_concat: "(\<And>a. a \<in> set as \<Longrightarrow> ids_ok vocab a) \<Longrightarrow> ids_ok vocab (concat as)"
  by (auto simp: ids_ok_def)

lemma vocab_ok_lookup: "vocab_ok vocab \<Longrightarrow> token_to_id vocab s = Some t \<Longrightarrow> valid_id vocab t"
  by (auto simp: vocab_ok_def ran_def)

lemma byte_to_token_valid:
  assumes "vocab_ok vocab" "llama_byte_to_token_impl vocab c = Inr t"
  shows "valid_id vocab t"
  using assms(2) vocab_ok_lookup [OF assms(1)]
  by (auto simp: llama_byte_to_token_impl_def map_at_def bindE_Inr_iff split: if_splits option.splits)

lemma mapE_ids_ok:
  assumes "mapE f xs = Inr ys" "\<And>x y. f x = Inr y \<Longrightarrow> valid_id vocab y"
  shows "ids_ok vocab ys"
  using assms(1) by (induction xs arbitrary: ys) (auto simp: bindE_Inr_iff dest: assms(2))

lemma mapE_ids_ok_concat:
  assumes "mapE f xs = Inr ys" "\<And>x y. f x = Inr y \<Longrightarrow> ids_ok vocab y"
  shows "ids_ok vocab (concat ys)"
  using assms(1) by (induction xs arbitrary: ys) (auto simp: bindE_Inr_iff dest: assms(2))

text \<open>A tokenizer appends ids of tokens.\<close>

definition appends :: "'s llama_vocab \<Rightarrow> int list \<Rightarrow> int list \<Rightarrow> bool" where
  "appends vocab out out' \<longleftrightarrow> (\<exists>ids. out' = out @ ids \<and> ids_ok vocab ids)"

lemma appends_refl [simp]: "appends vocab out out"
  by (auto simp: appends_def)

lemma appends_snoc [simp]: "appends vocab out (out @ ids) \<longleftrightarrow> ids_ok vocab ids"
  by (auto simp: appends_def)

lemma appends_trans: "appends vocab a b \<Longrightarrow> appends vocab b c \<Longrightarrow> appends vocab a c"
  by (auto simp: appends_def)

lemma appends_ok: "appends vocab out out' \<Longrightarrow> ids_ok vocab out \<Longrightarrow> ids_ok vocab out'"
  by (auto simp: appends_def)

lemma spm_resegment_appends:
  assumes "vocab_ok vocab"
  shows "spm_resegment depth vocab st sy out = Inr out' \<Longrightarrow> appends vocab out out'"
proof (induction depth arbitrary: sy out out')
  case (Suc depth)
  from Suc.prems show ?case
    by (auto simp: push_bytes_eq bindE_Inr_iff split: option.splits
        intro: vocab_ok_lookup [OF assms] mapE_ids_ok [OF _ byte_to_token_valid [OF assms]]
          appends_trans [OF Suc.IH Suc.IH])
qed simp

lemma spm_output_appends:
  assumes "vocab_ok vocab"
  shows "spm_output fuel depth vocab st i out = Inr out' \<Longrightarrow> appends vocab out out'"
proof (induction fuel arbitrary: i out)
  case (Suc fuel)
  then show ?case
    by (auto simp: bindE_Inr_iff split: if_splits
        intro: appends_trans dest!: spm_resegment_appends [OF assms])
qed (simp split: if_splits)

lemma spm_tokenize_appends:
  "vocab_ok vocab \<Longrightarrow> spm_tokenize vocab tie depth s out = Inr out' \<Longrightarrow> appends vocab out out'"
  by (auto simp: spm_tokenize_def bindE_Inr_iff simp del: spm_output.simps dest: spm_output_appends)

lemma bpe_tokens_ok: "vocab_ok vocab \<Longrightarrow> ids_ok vocab (bpe_tokens vocab s)"
  by (auto simp: bpe_tokens_def ids_ok_def List.map_filter_def vocab_ok_lookup split: option.splits)

lemma bpe_output_appends:
  assumes "vocab_ok vocab"
  shows "bpe_output fuel vocab syms i out = Inr out' \<Longrightarrow> appends vocab out out'"
proof (induction fuel arbitrary: i out)
  case (Suc fuel)
  then show ?case
    by (auto simp: bindE_Inr_iff bpe_tokens_ok [OF assms] split: if_splits
        dest!: Suc.IH elim!: appends_trans [rotated])
qed (simp split: if_splits)

lemma bpe_tokenize_appends:
  "vocab_ok vocab \<Longrightarrow> bpe_tokenize vocab tie split s out = Inr out' \<Longrightarrow> appends vocab out out'"
  by (auto simp: bpe_tokenize_def bindE_Inr_iff split: if_splits dest: bpe_output_appends)

lemma longest_match_ok: "longest_match vocab s ts \<Longrightarrow> vocab_ok vocab \<Longrightarrow> ids_ok vocab ts"
  by (induction rule: longest_match.induct) (auto dest: vocab_ok_lookup)

lemma wpm_result_ok: "wpm_result vocab w ts \<Longrightarrow> vocab_ok vocab \<Longrightarrow> ids_ok vocab ts"
  by (auto simp: wpm_result_def vocab_ok_def dest: longest_match_ok [unfolded vocab_ok_def] split: if_splits)

lemma wpm_tokenize_appends:
  assumes "vocab_ok vocab" "wpm_tokenize ucd vocab s out = Inr out'"
  shows "appends vocab out out'"
proof -
  from assms(2) obtain words where words: "preprocess ucd s = Inr words"
    "out' = fold (wpm_word vocab) words out"
    by (auto simp: wpm_tokenize_def bindE_Inr_iff)
  from preprocess_kept [OF words(1)] wpm_words_result [of words vocab out]
  obtain tss where tss: "out' = out @ concat tss" "list_all2 (wpm_result vocab) words tss"
    using words(2) by auto
  from tss(2) have "ids_ok vocab (concat tss)"
    by induction (auto intro: wpm_result_ok assms(1))
  with tss(1) show ?thesis by simp
qed

text \<open>Every entry of the search table holds a valid id and starts inside of the table.\<close>

definition entries_ok :: "'s llama_vocab \<Rightarrow> nat \<Rightarrow> 's best_tokenization list \<Rightarrow> bool" where
  "entries_ok vocab n R \<longleftrightarrow> length R = Suc n
     \<and> (\<forall>e\<in>set R. valid_id vocab (bt_token e) \<and> bt_offset e \<le> n)"

lemma challenge_entries:
  assumes "entries_ok vocab n R" "valid_id vocab t" "i \<le> n"
  shows "entries_ok vocab n (challenge ar t i x j R)"
  using assms by (auto simp: entries_ok_def challenge_def Let_def dest!: set_update_subset_insert [THEN subsetD])

lemma ugm_walk_entries:
  assumes "ugm_walk ar vocab i n_units cur node rest j st = Inr st'" "entries_ok vocab n (snd st)" "i \<le> n"
    and "\<And>k t. trie_lookup node k = Some t \<Longrightarrow> valid_id vocab t"
  shows "entries_ok vocab n (snd st')"
  using assms
proof (induction rest arbitrary: node j st)
  case (Cons c rest)
  obtain single R where st: "st = (single, R)" by fastforce
  show ?case
  proof (cases "traverse node c")
    case None
    with Cons.prems st show ?thesis by simp
  next
    case (Some node')
    have sub: "trie_lookup node' k = Some t \<Longrightarrow> valid_id vocab t" for k t
      using Cons.prems(4) [of "c # k" t] Some by simp
    show ?thesis
    proof (cases "has_value node'")
      case True
      then have "valid_id vocab (trie_value node')"
        using sub [of "[]" "trie_value node'"] by (simp add: node_value_def)
      note ch = challenge_entries [OF _ this Cons.prems(3)]
      from Cons.prems(1) st Some True obtain x where "ugm_walk ar vocab i n_units cur node' rest (j + 1)
          (single \<or> j + 1 - i = n_units, challenge ar (trie_value node') i (ar_add ar cur x) (j + 1) R) = Inr st'"
        by (auto simp: Let_def bindE_Inr_iff)
      from Cons.IH [OF this _ Cons.prems(3) sub] ch Cons.prems(2) st show ?thesis by simp
    next
      case False
      with Cons st Some sub show ?thesis by (auto simp: Let_def)
    qed
  qed
qed simp

lemma ugm_forward_entries:
  assumes "ugm_forward ar vocab u s i R = Inr R'" "entries_ok vocab (length s) R"
    and "tokens_valid vocab u" "valid_id vocab (special_unk_id vocab)"
  shows "entries_ok vocab (length s) R'"
  using assms
proof (induction ar vocab u s i R rule: ugm_forward.induct)
  case (1 ar vocab u s i R)
  show ?case
  proof (cases "i < length s")
    case True
    with "1.prems"(1) obtain R1 where R1: "ugm_visit ar vocab u s i R = Inr R1"
      "ugm_forward ar vocab u s (i + n_utf8_code_units s i) R1 = Inr R'"
      by (subst (asm) ugm_forward.simps) (auto simp: bindE_Inr_iff)
    have "entries_ok vocab (length s) R1"
      using R1(1) True "1.prems"(2-)
      by (auto simp: ugm_visit_def Let_def bindE_Inr_iff tokens_valid_def split: if_splits
          intro!: challenge_entries dest!: ugm_walk_entries [where n = "length s"])
    with "1.IH" [OF True R1] "1.prems"(3,4) show ?thesis by simp
  next
    case False
    with "1.prems"(1,2) show ?thesis by (simp add: ugm_forward.simps [of ar vocab u s i R])
  qed
qed

lemma ugm_backtrack_ids:
  assumes "entries_ok vocab n R"
  shows "ugm_backtrack fuel vocab R pos prev out = Inr out' \<Longrightarrow> pos \<le> n \<Longrightarrow> ids_ok vocab out
    \<Longrightarrow> ids_ok vocab out'"
proof (induction fuel arbitrary: pos prev out)
  case (Suc fuel)
  have "valid_id vocab (bt_token (R ! pos))" "bt_offset (R ! pos) \<le> n"
    using assms Suc.prems(2) by (auto simp: entries_ok_def)
  with Suc show ?case by (auto simp: Let_def split: if_splits)
qed simp

lemma ugm_tokenize_appends:
  assumes "vocab_ok vocab" "ugm_load ar vocab = Inr tok" "ugm_tokenize ar vocab tok s out = Inr out'"
  shows "appends vocab out out'"
proof -
  obtain cm u where tok: "tok = (cm, u)" by fastforce
  with assms(2) have valid: "tokens_valid vocab u"
    by (auto simp: ugm_load_def bindE_Inr_iff intro: ugm_init_valid)
  from assms(3) tok obtain t where t: "ugm_tokenize_normalized ar vocab u t out = Inr out'"
    by (auto simp: ugm_tokenize_def bindE_Inr_iff)
  have unk: "valid_id vocab (special_unk_id vocab)" using assms(1) by (simp add: vocab_ok_def)
  show ?thesis
  proof (cases "t = []")
    case True
    with t show ?thesis by (simp add: ugm_tokenize_normalized_def)
  next
    case False
    let ?low = "\<lparr>bt_token = special_unk_id vocab, bt_offset = 0, bt_score = ar_low ar\<rparr>"
    let ?start = "\<lparr>bt_token = special_unk_id vocab, bt_offset = 0, bt_score = ar_zero ar\<rparr>"
    let ?R = "(replicate (length t + 1) ?low)[0 := ?start]"
    from t False obtain R ids where R: "ugm_forward ar vocab u t 0 ?R = Inr R"
      "ugm_backtrack (length t + 1) vocab R (length t) False [] = Inr ids" "out' = out @ rev ids"
      by (auto simp: ugm_tokenize_normalized_def Let_def bindE_Inr_iff)
    have "entries_ok vocab (length t) ?R" using unk by (auto simp: entries_ok_def)
    from ugm_backtrack_ids [OF ugm_forward_entries [OF R(1) this valid unk] R(2)] R(3) show ?thesis
      by (simp add: ids_ok_def)
  qed
qed

definition frag_ids :: "fragment_buffer_variant list \<Rightarrow> int list" where
  "frag_ids fs = concat (map (\<lambda>f. case f of TokenFragment t \<Rightarrow> [t] | RawText _ _ \<Rightarrow> []) fs)"

lemma frag_ids_simps [simp]:
  "frag_ids [] = []" "frag_ids (TokenFragment t # fs) = t # frag_ids fs"
  "frag_ids (RawText off len # fs) = frag_ids fs" "frag_ids (fs @ gs) = frag_ids fs @ frag_ids gs"
  by (simp_all add: frag_ids_def)

lemma plain_fragments_ids:
  assumes "foldE (plain_fragment tok raw_text) fs out = Inr out'" "ids_ok vocab out"
    and "ids_ok vocab (frag_ids fs)"
    and "\<And>s out out'. tok s out = Inr out' \<Longrightarrow> appends vocab out out'"
  shows "ids_ok vocab out'"
  using assms(1-3)
proof (induction fs arbitrary: out)
  case (Cons f fs)
  then show ?case
    by (cases f) (auto simp: bindE_Inr_iff dest!: assms(4) intro: appends_ok)
qed simp

lemma spm_fragments_ids:
  assumes "foldE (spm_fragment env vocab raw_text) fs st = Inr st'" "ids_ok vocab (snd st)"
    and "ids_ok vocab (frag_ids fs)"
    and "vocab_ok vocab"
  shows "ids_ok vocab (snd st')"
  using assms
proof (induction fs arbitrary: st)
  case (Cons f fs)
  then show ?case
    by (cases f; cases st)
       (auto simp: bindE_Inr_iff Let_def dest!: spm_tokenize_appends dest: appends_ok)
qed simp

lemma emplace_raw_no_ids: "emplace_raw raw_text off len = Inr fs \<Longrightarrow> frag_ids fs = []"
  by (auto simp: emplace_raw_def raw_fragment_def split: if_splits)

lemma split_raw_ids:
  "split_raw raw_text s t l r base len = Inr fs \<Longrightarrow> set (frag_ids fs) \<subseteq> {t}"
proof (induction len arbitrary: base fs rule: less_induct)
  case (less len)
  have none: "frag_ids (untouched base len) = []" by (simp add: untouched_def)
  show ?case
  proof (cases "s = [] \<or> str_find raw_text s base = None")
    case True
    with less.prems none show ?thesis by (subst (asm) split_raw.simps) (auto split: if_splits)
  next
    case False
    then obtain m where m: "s \<noteq> []" "str_find raw_text s base = Some m" by auto
    show ?thesis
    proof (cases "m + length s > base + len")
      case True
      with less.prems none m show ?thesis by (subst (asm) split_raw.simps) auto
    next
      case in_range: False
      with less.prems m obtain left where left: "left_part raw_text l base m = Inr left" and
        fs: "(if m + length s < base + len then
             (case right_part raw_text r (m + length s) (len - ((m - base) + length s)) of
                (off', len') \<Rightarrow> bindE (emplace_raw raw_text off' len') (\<lambda>_.
                  bindE (split_raw raw_text s t l r off' len') (\<lambda>right. Inr (left @ [TokenFragment t] @ right))))
           else Inr (left @ [TokenFragment t])) = Inr fs"
        by (subst (asm) split_raw.simps) (auto simp: bindE_Inr_iff)
      have no_left: "frag_ids left = []"
        using left by (auto simp: left_part_def split: if_splits dest: emplace_raw_no_ids)
      show ?thesis
      proof (cases "m + length s < base + len")
        case True
        obtain off' len' where rp: "right_part raw_text r (m + length s) (len - ((m - base) + length s)) = (off', len')"
          by fastforce
        from right_part_bounds [OF rp] True m have "len' < len"
          by (auto simp: str_find_Some_iff neq_Nil_conv)
        from fs True rp obtain right where "split_raw raw_text s t l r off' len' = Inr right"
          "fs = left @ TokenFragment t # right" by (auto simp: bindE_Inr_iff)
        with less.IH [OF \<open>len' < len\<close>] no_left show ?thesis by auto
      next
        case False
        with fs no_left show ?thesis by auto
      qed
    qed
  qed
qed

lemma partition_ids:
  assumes "foldE (partition_by vocab raw_text ps) ts fs = Inr gs"
    and "ids_ok vocab ts" "ids_ok vocab (frag_ids fs)"
  shows "ids_ok vocab (frag_ids gs)"
  using assms
proof (induction ts arbitrary: fs)
  case (Cons t ts)
  have split: "ids_ok vocab (frag_ids (concat gss))"
    if "mapE (split_fragment raw_text t d) hs = Inr gss" "ids_ok vocab (frag_ids hs)" for d hs gss
    using that
  proof (induction hs arbitrary: gss)
    case (Cons h hs)
    obtain g gss' where g: "split_fragment raw_text t d h = Inr g" "mapE (split_fragment raw_text t d) hs = Inr gss'"
      "gss = g # gss'" using Cons.prems(1) by (auto simp: bindE_Inr_iff)
    have "ids_ok vocab (frag_ids g)"
    proof (cases h)
      case (TokenFragment u)
      with g Cons.prems(2) show ?thesis by auto
    next
      case (RawText off len)
      with g split_raw_ids have "set (frag_ids g) \<subseteq> {t}" by auto
      with \<open>ids_ok vocab (t # ts)\<close> show ?thesis by (auto simp: ids_ok_def)
    qed
    moreover have "ids_ok vocab (frag_ids hs)" using Cons.prems(2) by (cases h) auto
    ultimately show ?case using Cons.IH g by simp
  qed simp
  from Cons.prems(1) obtain hs where hs: "partition_by vocab raw_text ps t fs = Inr hs"
    "foldE (partition_by vocab raw_text ps) ts hs = Inr gs"
    by (auto simp: bindE_Inr_iff simp del: partition_by.simps)
  from hs(1) split Cons.prems(3) have "ids_ok vocab (frag_ids hs)"
    by (auto simp: bindE_Inr_iff split: if_splits)
  with Cons.IH [OF hs(2)] Cons.prems(2) show ?case by simp
qed simp

text \<open>
  C30: every id that tokenizing returns, with any of the four kinds of vocabulary and any settings, is
  the id of a token, if the ids that the vocabulary itself refers to are: those of its table of texts and of
  its special tokens, its unknown id, and the ids it may put around a text, each absent or valid. A loaded
  vocabulary need not have a valid unknown id (\<open>VocabLoadProps\<close>); then the claim says nothing.
\<close>

theorem tokenize_ids_valid:
  assumes "vocab_ok vocab" "specials_ok vocab"
    and "llama_tokenize_internal env vocab raw_text add_special parse_special = Inr ids"
  shows "ids_ok vocab ids"
proof -
  have cached: "ids_ok vocab (cache_special_tokens vocab)" using assms(1) by (simp add: vocab_ok_def)
  obtain fs where fs: "ids_ok vocab (frag_ids fs)"
    and run: "tokenize_fragments env vocab raw_text fs add_special = Inr ids"
  proof (cases "raw_text = []")
    case True
    with assms(3) show ?thesis by (intro that [of "[]"]) (simp_all add: llama_tokenize_internal_def)
  next
    case False
    with assms(3) obtain fs where fs: "foldE (partition_by vocab raw_text parse_special)
        (cache_special_tokens vocab) [RawText 0 (length raw_text)] = Inr fs"
      "tokenize_fragments env vocab raw_text fs add_special = Inr ids"
      by (auto simp: llama_tokenize_internal_def bindE_Inr_iff raw_fragment_def tokenizer_st_partition_def
          split: if_splits)
    from partition_ids [OF fs(1) cached] fs(2) show ?thesis by (intro that) simp_all
  qed
  have special: "ids_ok vocab out'" if "append_if b t out = Inr out'" "ids_ok vocab out" "t = -1 \<or> valid_id vocab t"
    for b t out out'
    using that by (auto simp: append_if_def append_token_def split: if_splits)
  have sp: "special_bos_id vocab = -1 \<or> valid_id vocab (special_bos_id vocab)"
    "special_eos_id vocab = -1 \<or> valid_id vocab (special_eos_id vocab)"
    "special_cls_id vocab = -1 \<or> valid_id vocab (special_cls_id vocab)"
    "special_sep_id vocab = -1 \<or> valid_id vocab (special_sep_id vocab)"
    using assms(2) by (simp_all add: specials_ok_def)
  note plain = plain_fragments_ids [OF _ _ fs]
  show ?thesis
  proof (cases "vocab_type vocab")
    case VOCAB_SPM
    with run obtain out prev out' where
      "append_if (add_special \<and> tokenizer_add_bos vocab) (special_bos_id vocab) [] = Inr out"
      "foldE (spm_fragment env vocab raw_text) fs (True, out) = Inr (prev, out')"
      "append_if (add_special \<and> tokenizer_add_eos vocab) (special_eos_id vocab) out' = Inr ids"
      by (auto simp: tokenize_fragments_def bindE_Inr_iff)
    with special [OF _ _ sp(1)] special [OF _ _ sp(2)] spm_fragments_ids [OF _ _ fs assms(1)]
    show ?thesis by fastforce
  next
    case VOCAB_BPE
    with run obtain out out' where r:
      "append_if (add_special \<and> tokenizer_add_bos vocab) (special_bos_id vocab) [] = Inr out"
      "foldE (plain_fragment (bpe_tokenize vocab (env_bpe_tie env) (split_words env)) raw_text) fs out = Inr out'"
      "append_if (add_special \<and> tokenizer_add_eos vocab) (special_eos_id vocab) out' = Inr ids"
      by (auto simp: tokenize_fragments_def bindE_Inr_iff)
    have "ids_ok vocab out'"
      using plain [OF r(2) special [OF r(1) ids_ok_simps(1) sp(1)]] bpe_tokenize_appends [OF assms(1)] by blast
    then show ?thesis using special [OF r(3) _ sp(2)] by blast
  next
    case VOCAB_WPM
    with run obtain out out' where r:
      "append_if add_special (special_cls_id vocab) [] = Inr out"
      "foldE (plain_fragment (wpm_tokenize (env_data env) vocab) raw_text) fs out = Inr out'"
      "append_if add_special (special_sep_id vocab) out' = Inr ids"
      by (auto simp: tokenize_fragments_def bindE_Inr_iff)
    have "ids_ok vocab out'"
      using plain [OF r(2) special [OF r(1) ids_ok_simps(1) sp(3)]] wpm_tokenize_appends [OF assms(1)] by blast
    then show ?thesis using special [OF r(3) _ sp(4)] by blast
  next
    case VOCAB_UGM
    with run obtain tok out out' where tok: "ugm_load (env_arith env) vocab = Inr tok" and r:
      "append_if (add_special \<and> tokenizer_add_bos vocab) (special_bos_id vocab) [] = Inr out"
      "foldE (plain_fragment (ugm_tokenize (env_arith env) vocab tok) raw_text) fs out = Inr out'"
      "append_if (add_special \<and> tokenizer_add_eos vocab) (special_eos_id vocab) out' = Inr ids"
      by (auto simp: tokenize_fragments_def bindE_Inr_iff)
    have "ids_ok vocab out'"
      using plain [OF r(2) special [OF r(1) ids_ok_simps(1) sp(1)]] ugm_tokenize_appends [OF assms(1) tok] by blast
    then show ?thesis using special [OF r(3) _ sp(2)] by blast
  next
    case VOCAB_NONE
    with run show ?thesis by (simp add: tokenize_fragments_def)
  qed
qed

definition tiny_env :: "int option tokenizer_env" where
  "tiny_env = \<lparr>env_spm_tie = \<lambda>_. 0, env_bpe_tie = \<lambda>_. 0, env_depth = 1, env_arith = int_arith,
     env_data = small_data, env_regex_exprs = [], env_regex = no_matches, env_wregex = no_matches\<rparr>"

definition tiny_vocab :: "int option llama_vocab" where
  "tiny_vocab = empty_vocab\<lparr>
     token_to_id := [bytes ''a'' \<mapsto> 0, bytes ''b'' \<mapsto> 1, bytes ''ab'' \<mapsto> 2, bytes ''<s>'' \<mapsto> 3],
     id_to_token := [\<lparr>tok_text = bytes ''a'', tok_score = Some 0, tok_attr = ATTR_NORMAL\<rparr>,
       \<lparr>tok_text = bytes ''b'', tok_score = Some 0, tok_attr = ATTR_NORMAL\<rparr>,
       \<lparr>tok_text = bytes ''ab'', tok_score = Some 1, tok_attr = ATTR_NORMAL\<rparr>,
       \<lparr>tok_text = bytes ''<s>'', tok_score = Some 0, tok_attr = ATTR_CONTROL\<rparr>],
     special_bos_id := 3, special_eos_id := -1, cache_special_tokens := [3], tokenizer_add_bos := True\<rparr>"

lemma ran_map_upd_subset: "ran (m(k \<mapsto> v)) \<subseteq> insert v (ran m)"
  by (auto simp: ran_def)

lemma tokenize_ids_valid_witness: "ids_ok tiny_vocab [3, 0, 3, 2]"
proof (rule tokenize_ids_valid)
  have fields: "token_to_id tiny_vocab = [bytes ''a'' \<mapsto> 0, bytes ''b'' \<mapsto> 1, bytes ''ab'' \<mapsto> 2, bytes ''<s>'' \<mapsto> 3]"
    "special_unk_id tiny_vocab = 0" "cache_special_tokens tiny_vocab = [3]" "special_bos_id tiny_vocab = 3"
    "special_eos_id tiny_vocab = -1" "special_cls_id tiny_vocab = -1" "special_sep_id tiny_vocab = -1"
    "length (id_to_token tiny_vocab) = 4"
    by (simp_all add: tiny_vocab_def empty_vocab_def)
  have valid: "valid_id tiny_vocab t \<longleftrightarrow> 0 \<le> t \<and> t < 4" for t
    by (auto simp: valid_id_def fields)
  have "ran (token_to_id tiny_vocab) \<subseteq> {0, 1, 2, 3}"
    unfolding fields
    by (intro order_trans [OF ran_map_upd_subset] insert_subsetI order_trans [OF ran_map_upd_subset]) auto
  then show "vocab_ok tiny_vocab" by (auto simp: vocab_ok_def fields valid)
  show "specials_ok tiny_vocab" by (simp add: specials_ok_def fields valid)
  have fs: "tokenizer_st_partition tiny_vocab (bytes ''a<s>ab'') True [RawText 0 6]
      = Inr [RawText 0 1, TokenFragment 3, RawText 4 2]" by code_simp
  have spm: "greedy (spm_rank tiny_vocab) (utf8_chars (bytes ''a'')) = [bytes ''a'']"
    "greedy (spm_rank tiny_vocab) (utf8_chars (bytes ''ab'')) = [bytes ''ab'']"
    "spm_tokens tiny_vocab (bytes ''a'') = Inr [0]" "spm_tokens tiny_vocab (bytes ''ab'') = Inr [2]"
    by code_simp+
  have raw: "length (bytes ''a<s>ab'') = 6" "take 1 (drop 0 (bytes ''a<s>ab'')) = bytes ''a''"
    "drop 4 (bytes ''a<s>ab'') = bytes ''ab''" "take 2 (bytes ''ab'') = bytes ''ab''" "bytes ''a'' \<noteq> []" "bytes ''ab'' \<noteq> []"
    "llama_escape_whitespace (bytes ''a'') = bytes ''a''" "llama_escape_whitespace (bytes ''ab'') = bytes ''ab''"
    "bytes ''a<s>ab'' \<noteq> []"
    by (simp_all add: bytes_def)
  have vocab: "vocab_type tiny_vocab = VOCAB_SPM" "tokenizer_add_bos tiny_vocab" "special_bos_id tiny_vocab = 3"
    "\<not> tokenizer_add_eos tiny_vocab" "\<not> tokenizer_add_space_prefix tiny_vocab" "env_depth tiny_env = Suc 0"
    by (simp_all add: tiny_vocab_def empty_vocab_def tiny_env_def)
  show "llama_tokenize_internal tiny_env tiny_vocab (bytes ''a<s>ab'') True True = Inr [3, 0, 3, 2]"
    using fs spm raw vocab
    by (simp add: llama_tokenize_internal_def raw_fragment_def tokenize_fragments_def append_if_def
        append_token_def spm_tokenize_eq Let_def)
qed
end
