(* ===== verification/Detokenize.thy ===== *)
theory Detokenize
  imports VocabTokenize
begin

text \<open>
  From tokens back to text: \<open>llama_token_to_piece_impl\<close> and \<open>llama_detokenize_impl\<close> of
  \<open>src/src/llama-vocab.cpp\<close>, with the wrappers of \<open>src/common/common.cpp\<close>.
\<close>

section \<open>Pieces\<close>

text \<open>
  The memory from the pointer on is a list; \<open>length\<close> is the size the caller states. What does not
  fit is not written and its negated size is returned.
\<close>

fun skip_spaces :: "nat \<Rightarrow> byte list \<Rightarrow> byte list" where
  "skip_spaces 0 s = s"
| "skip_spaces (Suc n) s = (if s \<noteq> [] \<and> hd s = 0x20 then skip_spaces n (tl s) else s)"

definition try_copy :: "byte list \<Rightarrow> byte list \<Rightarrow> int \<Rightarrow> int \<Rightarrow> (int \<times> byte list) res" where
  "try_copy token buf len lstrip =
    (let s = skip_spaces (nat lstrip) token in
     if len < int (length s) then Inr (- int (length s), buf)
     else if length buf < length s then Inl (UndefinedBehaviour ''memcpy'')
     else Inr (int (length s), s @ drop (length s) buf))"

definition ATTR_SPECIAL :: u32 where "ATTR_SPECIAL = ATTR_UNKNOWN OR ATTR_CONTROL"

text \<open>The piece of a token without the cache: \<open>None\<close> where nothing is written.\<close>

definition token_piece :: "'s llama_vocab \<Rightarrow> int \<Rightarrow> byte list option res" where
  "token_piece vocab token =
    (if \<not> valid_id vocab token then Inr None
     else
       (let attr = tok_attr (id_to_token vocab ! nat token);
            token_text = tok_text (id_to_token vocab ! nat token);
            special = (attr AND (ATTR_SPECIAL OR ATTR_USER_DEFINED) \<noteq> 0);
            normal = (attr AND ATTR_NORMAL \<noteq> 0)
        in case vocab_type vocab of
             VOCAB_NONE \<Rightarrow> Inl (Abort ''fatal error'')
           | VOCAB_BPE \<Rightarrow>
               if special then Inr (Some token_text)
               else if normal then bindE (llama_decode_text token_text) (\<lambda>s. Inr (Some s))
               else Inr None
           | _ \<Rightarrow>
               if special then Inr (Some token_text)
               else if normal then Inr (Some (llama_unescape_whitespace token_text))
               else if attr AND ATTR_BYTE \<noteq> 0 then
                 bindE (llama_token_to_byte vocab token) (\<lambda>b. Inr (Some [b]))
               else Inr None))"

definition llama_token_to_piece_impl ::
  "'s llama_vocab \<Rightarrow> int \<Rightarrow> byte list \<Rightarrow> int \<Rightarrow> int \<Rightarrow> bool \<Rightarrow> (int \<times> byte list) res" where
  "llama_token_to_piece_impl vocab token buf len lstrip special =
    bindE (llama_token_get_attr_impl vocab token) (\<lambda>attr.
      if \<not> special \<and> attr AND ATTR_SPECIAL \<noteq> 0 then Inr (0, buf)
      else if cache_token_to_piece vocab \<noteq> [] then
        (if 0 \<le> token \<and> nat token < length (cache_token_to_piece vocab) then
           try_copy (cache_token_to_piece vocab ! nat token) buf len lstrip
         else Inl (OutOfRange ''cache.at''))
      else bindE (token_piece vocab token) (\<lambda>p.
        case p of None \<Rightarrow> Inr (0, buf) | Some s \<Rightarrow> try_copy s buf len lstrip))"

section \<open>The pieces of a text\<close>

text \<open>The text buffer, the position of \<open>text\<close> in it, \<open>avail\<close>, \<open>total\<close> and \<open>remove_space\<close>.\<close>

record detok_state =
  dt_text :: "byte list"
  dt_pos :: nat
  dt_avail :: int
  dt_total :: int
  dt_remove_space :: bool

fun detok_token :: "'s llama_vocab \<Rightarrow> bool \<Rightarrow> int \<Rightarrow> detok_state \<Rightarrow> detok_state res" where
  "detok_token vocab unparse_special token st =
    (if dt_avail st < 0 then Inl (Abort ''avail >= 0'')
     else bindE (llama_token_to_piece_impl vocab token (drop (dt_pos st) (dt_text st)) (dt_avail st)
         (if dt_remove_space st then 1 else 0) unparse_special) (\<lambda>(n_chars, buf).
       let st1 = st\<lparr>dt_remove_space := False, dt_text := take (dt_pos st) (dt_text st) @ buf\<rparr> in
       Inr (if n_chars < 0 then st1\<lparr>dt_avail := 0, dt_total := dt_total st1 - n_chars\<rparr>
            else if n_chars > 0 then
              st1\<lparr>dt_avail := dt_avail st1 - n_chars, dt_pos := dt_pos st1 + nat n_chars,
                 dt_total := dt_total st1 + n_chars\<rparr>
            else st1)))"

section \<open>Cleaning up\<close>

text \<open>
  The three passes work in place: position \<open>i\<close> is read, position \<open>total\<close> is written. \<open>m\<close> is the
  length in front of the pass.
\<close>

definition punctuation_after_space :: "byte \<Rightarrow> bool" where
  "punctuation_after_space x \<longleftrightarrow> x \<in> {ch CHR ''?'', ch CHR ''!'', ch CHR ''.'', ch CHR '',''}"

definition clean_punctuation :: "nat \<Rightarrow> nat \<Rightarrow> byte list \<times> nat \<Rightarrow> byte list \<times> nat" where
  "clean_punctuation m i = (\<lambda>(s, tot).
    let x = s ! i;
        tot1 = (if s ! (i - 1) = 0x20 \<and> punctuation_after_space x then tot - 1 else tot)
    in (s[tot1 := x], tot1 + 1))"

function clean_apostrophes :: "nat \<Rightarrow> nat \<Rightarrow> byte list \<times> nat \<Rightarrow> byte list \<times> nat" where
  "clean_apostrophes m i (s, tot) =
    (if i < m then
       (let x = s ! i in
        if x = ch CHR 0x27 \<and> i + 1 < m \<and> s ! (i - 1) = 0x20 \<and> s ! (i + 1) = 0x20 then
          (let s1 = s[i + 1 := 0] in clean_apostrophes m (i + 2) (s1[tot - 1 := x], tot))
        else clean_apostrophes m (i + 1) (s[tot := x], tot + 1))
     else (s, tot))"
  by pat_completeness auto
termination by (relation "measure (\<lambda>(m, i, _). m - i)") auto

declare clean_apostrophes.simps [simp del]

definition contraction_after_space :: "byte list \<Rightarrow> nat \<Rightarrow> nat \<Rightarrow> bool" where
  "contraction_after_space s m i \<longleftrightarrow> s ! i = ch CHR 0x27 \<and> i + 1 < m \<and>
     (let x1 = s ! (i + 1) in
      if x1 = ch CHR ''t'' \<or> x1 = ch CHR ''d'' then False
      else if x1 = ch CHR ''s'' \<or> x1 = ch CHR ''m'' then True
      else i + 2 < m \<and>
        (let x2 = s ! (i + 2) in
         if x1 = ch CHR ''l'' \<and> x2 = ch CHR ''l'' then False
         else x1 = ch CHR ''r'' \<and> x2 = ch CHR ''e'' \<or> x1 = ch CHR ''v'' \<and> x2 = ch CHR ''e''))"

definition clean_contractions :: "nat \<Rightarrow> nat \<Rightarrow> byte list \<times> nat \<Rightarrow> byte list \<times> nat" where
  "clean_contractions m i = (\<lambda>(s, tot).
    let x = s ! i;
        tot1 = (if s ! (i - 1) = 0x20 \<and> contraction_after_space s m i then tot - 1 else tot)
    in (s[tot1 := x], tot1 + 1))"

definition clean_spaces :: "byte list \<times> nat \<Rightarrow> byte list \<times> nat" where
  "clean_spaces = (\<lambda>(s, tot).
    let (s1, tot1) = fold (clean_punctuation tot) [1..<tot] (s, if tot > 0 then 1 else 0);
        (s2, tot2) = clean_apostrophes tot1 1 (s1, if tot1 > 0 then 1 else 0)
    in fold (clean_contractions tot2) [1..<tot2] (s2, if tot2 > 0 then 1 else 0))"

definition detok_start :: "'s llama_vocab \<Rightarrow> int list \<Rightarrow> bool \<Rightarrow> int list \<times> bool" where
  "detok_start vocab tokens remove_special =
    (let (tokens1, remove_space) =
       (if remove_special \<and> tokenizer_add_bos vocab \<and> tokens \<noteq> [] \<and> hd tokens = special_bos_id vocab
        then (tl tokens, False) else (tokens, tokenizer_add_space_prefix vocab))
     in (if remove_special \<and> tokenizer_add_eos vocab \<and> tokens1 \<noteq> [] \<and> last tokens1 = special_eos_id vocab
         then butlast tokens1 else tokens1, remove_space))"

definition llama_detokenize_impl ::
  "'s llama_vocab \<Rightarrow> int list \<Rightarrow> byte list \<Rightarrow> int \<Rightarrow> bool \<Rightarrow> bool \<Rightarrow> (int \<times> byte list) res" where
  "llama_detokenize_impl vocab tokens txt_buf text_len_max remove_special unparse_special =
    (let (tokens', remove_space) = detok_start vocab tokens remove_special in
     bindE (foldE (detok_token vocab unparse_special) tokens'
         \<lparr>dt_text = txt_buf, dt_pos = 0, dt_avail = text_len_max, dt_total = 0,
          dt_remove_space = remove_space\<rparr>) (\<lambda>st.
       if dt_total st > text_len_max then Inr (- dt_total st, dt_text st)
       else if tokenizer_clean_spaces vocab then
         (let (s, tot) = clean_spaces (dt_text st, nat (dt_total st)) in
          Inr (if int tot \<le> text_len_max then int tot else - int tot, s))
       else Inr (dt_total st, dt_text st)))"

section \<open>Wrappers\<close>

text \<open>A \<open>std::string\<close> starts with a capacity of its own, a parameter.\<close>

definition llama_token_to_piece :: "nat \<Rightarrow> 's llama_vocab \<Rightarrow> int \<Rightarrow> bool \<Rightarrow> byte list res" where
  "llama_token_to_piece capacity vocab token special =
    (let piece0 = replicate capacity 0 in
     bindE (llama_token_to_piece_impl vocab token piece0 (int (length piece0)) 0 special)
       (\<lambda>(n_chars, piece).
       if n_chars < 0 then
         (let piece1 = resize_to 0 (nat (- n_chars)) piece in
          bindE (llama_token_to_piece_impl vocab token piece1 (int (length piece1)) 0 special)
            (\<lambda>(check, piece2).
              if check = - n_chars then Inr piece2 else Inl (Abort ''check == -n_chars'')))
       else Inr (resize_to 0 (nat n_chars) piece)))"

definition llama_detokenize :: "nat \<Rightarrow> 's llama_vocab \<Rightarrow> int list \<Rightarrow> bool \<Rightarrow> byte list res" where
  "llama_detokenize capacity vocab tokens special =
    (let s0 = replicate (Orderings.max capacity (length tokens)) 0 in
     bindE (llama_detokenize_impl vocab tokens s0 (int (length s0)) False special) (\<lambda>(n_chars, s).
       if n_chars < 0 then
         (let s1 = resize_to 0 (nat (- n_chars)) s in
          bindE (llama_detokenize_impl vocab tokens s1 (int (length s1)) False special) (\<lambda>(n_chars', s2).
            if n_chars' > int (length s2) then Inl (Abort ''n_chars <= text.size()'')
            else if n_chars' < 0 then Inl (RuntimeError ''std::length_error'')
            else Inr (resize_to 0 (nat n_chars') s2)))
       else Inr (resize_to 0 (nat n_chars) s)))"

section \<open>What the passes compute\<close>

text \<open>A pass that drops the spaces in front of certain texts.\<close>

fun drop_spaces :: "(byte list \<Rightarrow> bool) \<Rightarrow> byte list \<Rightarrow> byte list" where
  "drop_spaces P [] = []"
| "drop_spaces P (x # xs) = (if x = 0x20 \<and> P xs then drop_spaces P xs else x # drop_spaces P xs)"

fun strip_apostrophes :: "byte list \<Rightarrow> byte list" where
  "strip_apostrophes (x # y # z # r) =
    (if x = 0x20 \<and> y = ch CHR 0x27 \<and> z = 0x20 then ch CHR 0x27 # strip_apostrophes r
     else x # strip_apostrophes (y # z # r))"
| "strip_apostrophes xs = xs"

text \<open>
  The in-place pass as a locale: \<open>cond s m i\<close> is the test of the loop on the buffer, \<open>P\<close> says what it
  means of the text from \<open>i\<close> on.
\<close>

locale space_pass =
  fixes cond :: "byte list \<Rightarrow> nat \<Rightarrow> nat \<Rightarrow> bool" and P :: "byte list \<Rightarrow> bool"
    and body :: "nat \<Rightarrow> nat \<Rightarrow> byte list \<times> nat \<Rightarrow> byte list \<times> nat"
  assumes cond_text: "i < m \<Longrightarrow> m \<le> length s \<Longrightarrow> cond s m i \<longleftrightarrow> P (drop i (take m s))"
    and P_Nil: "\<not> P []"
    and body_step: "body m i (s, tot) =
      (let tot1 = (if s ! (i - 1) = 0x20 \<and> cond s m i then tot - 1 else tot) in (s[tot1 := s ! i], tot1 + 1))"
begin

text \<open>In front of step \<open>i\<close>: the bytes from \<open>i - 1\<close> on are untouched, the output ends with the last of them.\<close>

definition pass_inv :: "nat \<Rightarrow> byte list \<Rightarrow> nat \<Rightarrow> byte list \<times> nat \<Rightarrow> byte list \<Rightarrow> bool" where
  "pass_inv m s i = (\<lambda>(t, tot) out. length t = length s \<and> (\<forall>j. i - 1 \<le> j \<longrightarrow> j < m \<longrightarrow> t ! j = s ! j)
     \<and> take tot t = out @ [s ! (i - 1)] \<and> tot = length out + 1 \<and> tot \<le> i)"

lemma pass_step:
  assumes "pass_inv m s i (t, tot) out" "0 < i" "i < m" "m \<le> length s"
  shows "\<exists>st'. body m i (t, tot) = st'
    \<and> pass_inv m s (Suc i) st' (if s ! (i - 1) = 0x20 \<and> P (drop i (take m s)) then out else out @ [s ! (i - 1)])"
proof -
  from assms(1) have t: "length t = length s" "\<And>j. i - 1 \<le> j \<Longrightarrow> j < m \<Longrightarrow> t ! j = s ! j"
    "take tot t = out @ [s ! (i - 1)]" "tot = length out + 1" "tot \<le> i"
    by (auto simp: pass_inv_def)
  have "drop i (take m t) = drop i (take m s)"
    by (rule nth_equalityI) (use t(1,2) assms in auto)
  then have c: "cond t m i \<longleftrightarrow> P (drop i (take m s))" using cond_text [of i m t] t(1) assms by simp
  have prev: "t ! (i - 1) = s ! (i - 1)" and x: "t ! i = s ! i" using t(2) assms by auto
  have out: "take (length out) t = out"
    using t(3,4) by (metis Suc_eq_plus1 append_eq_conv_conj append_take_drop_id le_add1 min.absorb1 take_take)
  have upd: "t[k := s ! i] ! j = s ! j" if "k \<le> i" "i \<le> j" "j < m" for k j
    using that t(1,2) assms by (cases "k = j") auto
  show ?thesis
  proof (cases "s ! (i - 1) = 0x20 \<and> P (drop i (take m s))")
    case True
    then have "body m i (t, tot) = (t[length out := s ! i], length out + 1)"
      using c prev t(4) by (simp add: body_step x Let_def)
    moreover have "take (length out + 1) (t[length out := s ! i]) = out @ [s ! i]"
      using out t assms by (simp add: take_Suc_conv_app_nth)
    ultimately show ?thesis
      using True t upd assms by (auto simp: pass_inv_def)
  next
    case False
    then have "body m i (t, tot) = (t[tot := s ! i], tot + 1)"
      using c prev by (auto simp: body_step x Let_def)
    moreover have "take (tot + 1) (t[tot := s ! i]) = (out @ [s ! (i - 1)]) @ [s ! i]"
      using t assms by (simp add: take_Suc_conv_app_nth)
    ultimately show ?thesis
      using False t upd assms by (auto simp: pass_inv_def)
  qed
qed

lemma pass_fold:
  assumes "pass_inv m s i (t, tot) out" "0 < i" "i \<le> m" "m \<le> length s"
  shows "\<exists>t' tot'. fold (body m) [i..<m] (t, tot) = (t', tot') \<and> length t' = length s \<and> tot' \<le> m
    \<and> take tot' t' = out @ drop_spaces P (drop (i - 1) (take m s))"
  using assms
proof (induction "m - i" arbitrary: i t tot out)
  case 0
  then obtain k where "i = Suc k" "m = Suc k" by (cases i) auto
  with 0 have "drop (i - 1) (take m s) = [s ! (i - 1)]" by (simp add: take_Suc_conv_app_nth)
  with 0 show ?case by (auto simp: pass_inv_def P_Nil)
next
  case (Suc k)
  then have i: "i < m" by simp
  let ?rest = "drop i (take m s)"
  let ?out = "if s ! (i - 1) = 0x20 \<and> P ?rest then out else out @ [s ! (i - 1)]"
  from pass_step [OF Suc.prems(1,2) i Suc.prems(4)] obtain t1 tot1 where
    st: "body m i (t, tot) = (t1, tot1)" "pass_inv m s (Suc i) (t1, tot1) ?out" by (metis surj_pair)
  have "k = m - Suc i" using Suc.hyps(2) by simp
  from Suc.hyps(1) [OF this st(2)] i Suc.prems(4) obtain t' tot' where
    "fold (body m) [Suc i..<m] (t1, tot1) = (t', tot')" "length t' = length s" "tot' \<le> m"
    "take tot' t' = ?out @ drop_spaces P ?rest" by auto
  moreover have "[i..<m] = i # [Suc i..<m]" using i by (rule upt_conv_Cons)
  moreover have "drop (i - 1) (take m s) = s ! (i - 1) # ?rest"
    using Cons_nth_drop_Suc [of "i - 1" "take m s"] Suc.prems(2,4) i by simp
  ultimately show ?case using st(1) by auto
qed

lemma pass_correct:
  assumes "m \<le> length s"
  shows "\<exists>t tot. fold (body m) [1..<m] (s, if m > 0 then 1 else 0) = (t, tot) \<and> length t = length s
    \<and> tot \<le> m \<and> take tot t = drop_spaces P (take m s)"
proof (cases m)
  case 0
  then show ?thesis by simp
next
  case (Suc k)
  with assms have "pass_inv m s 1 (s, 1) []"
    by (cases s) (auto simp: pass_inv_def)
  from pass_fold [OF this] Suc assms show ?thesis by simp
qed

end

definition starts_punctuation :: "byte list \<Rightarrow> bool" where
  "starts_punctuation xs \<longleftrightarrow> xs \<noteq> [] \<and> punctuation_after_space (hd xs)"

definition starts_contraction :: "byte list \<Rightarrow> bool" where
  "starts_contraction xs \<longleftrightarrow>
     (\<exists>c \<in> {''s'', ''m'', ''re'', ''ve''}. prefix (ch CHR 0x27 # bytes c) xs)"

interpretation punctuation_pass: space_pass "\<lambda>s m i. punctuation_after_space (s ! i)" starts_punctuation
    clean_punctuation
  by unfold_locales
     (auto simp: starts_punctuation_def clean_punctuation_def hd_drop_conv_nth Let_def)

lemma contraction_text:
  assumes "i < m" "m \<le> length s"
  shows "contraction_after_space s m i \<longleftrightarrow> starts_contraction (drop i (take m s))"
proof -
  let ?r = "drop i (take m s)"
  have nth: "?r ! k = s ! (i + k)" if "i + k < m" for k using that assms by simp
  have len: "length ?r = m - i" using assms by simp
  obtain x r1 where r1: "?r = x # r1" using assms by (cases ?r) auto
  have x: "s ! i = x" using nth [of 0] r1 assms by simp
  show ?thesis
  proof (cases r1)
    case Nil
    with r1 len have "m = i + 1" by simp
    with Nil r1 show ?thesis by (auto simp: contraction_after_space_def starts_contraction_def bytes_def)
  next
    case (Cons y r2)
    with r1 len have m1: "i + 1 < m" by simp
    with nth [of 1] r1 Cons have y: "s ! (i + 1) = y" by simp
    show ?thesis
    proof (cases r2)
      case Nil
      with r1 len Cons have "m = i + 2" by simp
      with Nil r1 Cons x y show ?thesis
        by (auto simp: contraction_after_space_def starts_contraction_def bytes_def Let_def)
    next
      case (Cons z r3)
      with r1 len \<open>r1 = y # r2\<close> have m2: "i + 2 < m" by simp
      with nth [of 2] r1 Cons \<open>r1 = y # r2\<close> have z: "s ! (i + 2) = z" by simp
      with m1 m2 r1 Cons \<open>r1 = y # r2\<close> x y show ?thesis
        by (auto simp: contraction_after_space_def starts_contraction_def bytes_def Let_def)
    qed
  qed
qed

interpretation contraction_pass: space_pass contraction_after_space starts_contraction clean_contractions
  by unfold_locales
     (auto simp: contraction_text, auto simp: starts_contraction_def clean_contractions_def Let_def)

text \<open>
  The second pass. \<open>l\<close> is the last byte written; the byte in front of \<open>i\<close> is a space exactly if \<open>l\<close> is
  (behind a match it is the NUL the code leaves there, and \<open>l\<close> is the apostrophe).
\<close>

lemma strip_quote: "strip_apostrophes (39 # r) = 39 # strip_apostrophes r"
  by (cases r rule: strip_apostrophes.cases) simp_all

lemma strip_keep:
  assumes "\<not> (l = 0x20 \<and> x = ch CHR 0x27 \<and> r \<noteq> [] \<and> hd r = 0x20)"
  shows "strip_apostrophes (l # x # r) = l # strip_apostrophes (x # r)"
  using assms by (cases r) auto

lemma apostrophes_loop:
  assumes "length t = length s" "m \<le> length s" "\<And>j. i \<le> j \<Longrightarrow> j < m \<Longrightarrow> t ! j = s ! j"
    and "take tot t = out @ [l]" "tot = length out + 1" "tot \<le> i" "i \<le> m"
    and "l = 0x20 \<longleftrightarrow> t ! (i - 1) = 0x20"
  shows "\<exists>t' tot'. clean_apostrophes m i (t, tot) = (t', tot') \<and> length t' = length s \<and> tot' \<le> m
    \<and> take tot' t' = out @ strip_apostrophes (l # drop i (take m s))"
  using assms
proof (induction "m - i" arbitrary: i t tot out l rule: less_induct)
  case less
  let ?rest = "drop (i + 1) (take m s)"
  have out: "take (length out) t = out"
    using less.prems(4,5) by (metis Suc_eq_plus1 append_eq_conv_conj append_take_drop_id le_add1 min.absorb1 take_take)
  show ?case
  proof (cases "i < m")
    case False
    with less.prems show ?thesis by (simp add: clean_apostrophes.simps)
  next
    case i: True
    have rest: "drop i (take m s) = s ! i # ?rest"
      using Cons_nth_drop_Suc [of i "take m s"] i less.prems(2) by simp
    have x: "t ! i = s ! i" using less.prems(3) i by simp
    have hd_rest: "?rest \<noteq> [] \<and> hd ?rest = 0x20 \<longleftrightarrow> i + 1 < m \<and> t ! (i + 1) = 0x20"
      using less.prems(2,3) by (auto simp: hd_drop_conv_nth)
    show ?thesis
    proof (cases "t ! i = ch CHR 0x27 \<and> i + 1 < m \<and> t ! (i - 1) = 0x20 \<and> t ! (i + 1) = 0x20")
      case match: True
      let ?t = "t[i + 1 := 0, tot - 1 := t ! i]"
      from match have step: "clean_apostrophes m i (t, tot) = clean_apostrophes m (i + 2) (?t, tot)"
        by (subst clean_apostrophes.simps) (simp add: Let_def)
      have "take tot ?t = out @ [ch CHR 0x27]"
        using out less.prems(1,2,5,6) match by (simp add: take_Suc_conv_app_nth)
      moreover have "?t ! (i + 2 - 1) \<noteq> 0x20"
        using less.prems(1,2,5,6) match by (simp add: nth_list_update)
      moreover have "?t ! j = s ! j" if "i + 2 \<le> j" "j < m" for j
        using that less.prems(3,5,6) by simp
      ultimately have "\<exists>t' tot'. clean_apostrophes m (i + 2) (?t, tot) = (t', tot') \<and> length t' = length s
          \<and> tot' \<le> m \<and> take tot' t' = out @ strip_apostrophes (ch CHR 0x27 # drop (i + 2) (take m s))"
        using less.prems(1,2,5,6) match by (intro less.hyps) auto
      moreover have "drop i (take m s) = ch CHR 0x27 # 0x20 # drop (i + 2) (take m s)"
        using rest match x less.prems(2) less.prems(3) [of "i + 1"] Cons_nth_drop_Suc [of "i + 1" "take m s"]
        by simp
      moreover have "l = 0x20" using match less.prems(8) by simp
      ultimately show ?thesis using step by (simp add: strip_quote)
    next
      case no: False
      let ?t = "t[tot := t ! i]"
      from no i have step: "clean_apostrophes m i (t, tot) = clean_apostrophes m (i + 1) (?t, tot + 1)"
        by (subst clean_apostrophes.simps) (auto simp: Let_def)
      have "take (tot + 1) ?t = (out @ [l]) @ [s ! i]"
        using less.prems(1,2,4,6) i x by (simp add: take_Suc_conv_app_nth)
      moreover have "?t ! (i + 1 - 1) = s ! i"
        using less.prems(1,2) i x by (cases "tot = i") auto
      moreover have "?t ! j = s ! j" if "i + 1 \<le> j" "j < m" for j
        using that less.prems(3,6) by simp
      ultimately have "\<exists>t' tot'. clean_apostrophes m (i + 1) (?t, tot + 1) = (t', tot') \<and> length t' = length s
          \<and> tot' \<le> m \<and> take tot' t' = (out @ [l]) @ strip_apostrophes (s ! i # ?rest)"
        using less.prems(1,2,5,6) i by (intro less.hyps) auto
      moreover have "strip_apostrophes (l # s ! i # ?rest) = l # strip_apostrophes (s ! i # ?rest)"
        using no hd_rest x less.prems(8) by (intro strip_keep) auto
      ultimately show ?thesis using step rest by simp
    qed
  qed
qed

lemma apostrophes_correct:
  assumes "m \<le> length s"
  shows "\<exists>t tot. clean_apostrophes m 1 (s, if m > 0 then 1 else 0) = (t, tot) \<and> length t = length s
    \<and> tot \<le> m \<and> take tot t = strip_apostrophes (take m s)"
proof (cases m)
  case 0
  then show ?thesis by (simp add: clean_apostrophes.simps)
next
  case (Suc k)
  with assms obtain x r where s: "s = x # r" by (cases s) auto
  have "\<exists>t tot. clean_apostrophes m 1 (s, 1) = (t, tot) \<and> length t = length s \<and> tot \<le> m
      \<and> take tot t = [] @ strip_apostrophes (x # drop 1 (take m s))"
    using assms Suc s by (intro apostrophes_loop) auto
  with Suc s show ?thesis by simp
qed

definition cleaned :: "byte list \<Rightarrow> byte list" where
  "cleaned s = drop_spaces starts_contraction (strip_apostrophes (drop_spaces starts_punctuation s))"

lemma clean_spaces_correct:
  assumes "n \<le> length s"
  shows "\<exists>t tot. clean_spaces (s, n) = (t, tot) \<and> length t = length s \<and> tot \<le> n \<and> take tot t = cleaned (take n s)"
proof -
  from punctuation_pass.pass_correct [OF assms] obtain t1 n1 where
    1: "fold (clean_punctuation n) [1..<n] (s, if n > 0 then 1 else 0) = (t1, n1)" "length t1 = length s"
      "n1 \<le> n" "take n1 t1 = drop_spaces starts_punctuation (take n s)" by blast
  from 1(2,3) assms have "n1 \<le> length t1" by simp
  from apostrophes_correct [OF this] obtain t2 n2 where
    2: "clean_apostrophes n1 1 (t1, if n1 > 0 then 1 else 0) = (t2, n2)" "length t2 = length t1"
      "n2 \<le> n1" "take n2 t2 = strip_apostrophes (take n1 t1)" by blast
  from 2(2,3) \<open>n1 \<le> length t1\<close> have "n2 \<le> length t2" by simp
  from contraction_pass.pass_correct [OF this] obtain t3 n3 where
    3: "fold (clean_contractions n2) [1..<n2] (t2, if n2 > 0 then 1 else 0) = (t3, n3)" "length t3 = length t2"
      "n3 \<le> n2" "take n3 t3 = drop_spaces starts_contraction (take n2 t2)" by blast
  from 1 2 3 show ?thesis by (auto simp: clean_spaces_def cleaned_def)
qed

section \<open>What detokenizing computes\<close>

text \<open>The bytes of one token.\<close>

definition piece_of :: "'s llama_vocab \<Rightarrow> bool \<Rightarrow> int \<Rightarrow> byte list res" where
  "piece_of vocab special token =
    bindE (llama_token_get_attr_impl vocab token) (\<lambda>attr.
      if \<not> special \<and> attr AND ATTR_SPECIAL \<noteq> 0 then Inr []
      else if cache_token_to_piece vocab \<noteq> [] then
        (if 0 \<le> token \<and> nat token < length (cache_token_to_piece vocab) then
           Inr (cache_token_to_piece vocab ! nat token)
         else Inl (OutOfRange ''cache.at''))
      else bindE (token_piece vocab token) (\<lambda>p. Inr (case p of None \<Rightarrow> [] | Some s \<Rightarrow> s)))"

lemma skip_spaces_Nil [simp]: "skip_spaces n [] = []"
  by (cases n) auto

lemma try_copy_Nil: "0 \<le> len \<Longrightarrow> try_copy [] buf len l = Inr (0, buf)"
  by (simp add: try_copy_def)

lemma token_to_piece_of:
  assumes "0 \<le> len"
  shows "llama_token_to_piece_impl vocab token buf len l special
    = bindE (piece_of vocab special token) (\<lambda>s. try_copy s buf len l)"
  using assms
  by (auto simp: llama_token_to_piece_impl_def piece_of_def bindE_def try_copy_Nil
      split: sum.splits option.splits)

text \<open>The pieces as they are put together: the first one loses a leading space if asked for.\<close>

fun joined :: "bool \<Rightarrow> byte list list \<Rightarrow> byte list" where
  "joined remove_space [] = []"
| "joined remove_space (p # ps) = skip_spaces (if remove_space then 1 else 0) p @ concat ps"

text \<open>
  The loop has collected the text \<open>T\<close>: it stands in the buffer while it fits, and only its length is
  counted afterwards.
\<close>

definition detok_inv :: "nat \<Rightarrow> byte list \<Rightarrow> detok_state \<Rightarrow> bool" where
  "detok_inv n T st \<longleftrightarrow> length (dt_text st) = n \<and> dt_total st = int (length T) \<and> dt_pos st \<le> n
     \<and> (if length T \<le> n then dt_pos st = length T \<and> dt_avail st = int n - int (length T)
          \<and> take (length T) (dt_text st) = T
        else dt_avail st = 0)"

lemma detok_token_step:
  assumes "detok_inv n T st" "piece_of vocab special token = Inr p"
  shows "\<exists>st'. detok_token vocab special token st = Inr st' \<and> \<not> dt_remove_space st'
    \<and> detok_inv n (T @ skip_spaces (if dt_remove_space st then 1 else 0) p) st'"
proof -
  define k where "k = (if dt_remove_space st then 1 else (0 :: int))"
  define q where "q = skip_spaces (nat k) p"
  have q: "skip_spaces (if dt_remove_space st then 1 else 0) p = q" by (simp add: q_def k_def)
  from assms(1) have inv: "length (dt_text st) = n" "dt_total st = int (length T)" "dt_pos st \<le> n" "0 \<le> dt_avail st"
    by (auto simp: detok_inv_def split: if_splits)
  have run: "detok_token vocab special token st = bindE (try_copy p (drop (dt_pos st) (dt_text st)) (dt_avail st) k)
    (\<lambda>(n_chars, buf).
       let st1 = st\<lparr>dt_remove_space := False, dt_text := take (dt_pos st) (dt_text st) @ buf\<rparr> in
       Inr (if n_chars < 0 then st1\<lparr>dt_avail := 0, dt_total := dt_total st1 - n_chars\<rparr>
            else if n_chars > 0 then
              st1\<lparr>dt_avail := dt_avail st1 - n_chars, dt_pos := dt_pos st1 + nat n_chars,
                 dt_total := dt_total st1 + n_chars\<rparr>
            else st1))"
    using inv(4) assms(2) by (simp add: token_to_piece_of k_def)
  show ?thesis
  proof (cases "dt_avail st < int (length q)")
    case True
    then have "try_copy p (drop (dt_pos st) (dt_text st)) (dt_avail st) k
        = Inr (- int (length q), drop (dt_pos st) (dt_text st))" "0 < length q"
      using inv(4) by (auto simp: try_copy_def q_def)
    then have "detok_token vocab special token st = Inr (st\<lparr>dt_remove_space := False,
        dt_avail := 0, dt_total := dt_total st + int (length q)\<rparr>)"
      by (simp add: run Let_def del: detok_token.simps)
    moreover have "n < length T + length q"
      using assms(1) True by (auto simp: detok_inv_def split: if_splits)
    ultimately show ?thesis using inv by (simp add: detok_inv_def q)
  next
    case fits: False
    show ?thesis
    proof (cases "q = []")
      case True
      then have "try_copy p (drop (dt_pos st) (dt_text st)) (dt_avail st) k = Inr (0, drop (dt_pos st) (dt_text st))"
        using inv(4) by (simp add: try_copy_def flip: q_def)
      then have "detok_token vocab special token st = Inr (st\<lparr>dt_remove_space := False\<rparr>)"
        by (simp add: run Let_def del: detok_token.simps)
      with True assms(1) show ?thesis by (simp add: detok_inv_def q split: if_splits)
    next
      case False
      with fits have "0 < dt_avail st" by (cases q) auto
      with assms(1) have T: "length T \<le> n" "dt_pos st = length T" "dt_avail st = int n - int (length T)"
        "take (length T) (dt_text st) = T" by (auto simp: detok_inv_def split: if_splits)
      with fits have len: "length T + length q \<le> n" by simp
      then have "try_copy p (drop (dt_pos st) (dt_text st)) (dt_avail st) k
          = Inr (int (length q), q @ drop (length q) (drop (dt_pos st) (dt_text st)))"
        using fits T inv(1) by (simp add: try_copy_def flip: q_def)
      then have "detok_token vocab special token st = Inr (st\<lparr>dt_remove_space := False,
          dt_text := T @ q @ drop (length T + length q) (dt_text st),
          dt_avail := dt_avail st - int (length q), dt_pos := dt_pos st + length q,
          dt_total := dt_total st + int (length q)\<rparr>)"
        using False T by (simp add: run Let_def add.commute del: detok_token.simps)
      with T inv len show ?thesis by (simp add: detok_inv_def q)
    qed
  qed
qed

lemma detok_loop:
  assumes "detok_inv n T st"
  shows "case mapE (piece_of vocab special) tokens of
      Inl e \<Rightarrow> foldE (detok_token vocab special) tokens st = Inl e
    | Inr ps \<Rightarrow> \<exists>st'. foldE (detok_token vocab special) tokens st = Inr st'
        \<and> detok_inv n (T @ joined (dt_remove_space st) ps) st'"
  using assms
proof (induction tokens arbitrary: T st)
  case (Cons token tokens)
  show ?case
  proof (cases "piece_of vocab special token")
    case (Inl e)
    moreover have "0 \<le> dt_avail st" using Cons.prems by (auto simp: detok_inv_def split: if_splits)
    ultimately show ?thesis by (simp add: token_to_piece_of)
  next
    case (Inr p)
    from detok_token_step [OF Cons.prems Inr] obtain st1 where
      st1: "detok_token vocab special token st = Inr st1" "\<not> dt_remove_space st1"
        "detok_inv n (T @ skip_spaces (if dt_remove_space st then 1 else 0) p) st1" by blast
    have "joined False ps = concat ps" for ps by (cases ps) auto
    define q where "q = skip_spaces (if dt_remove_space st then 1 else 0) p"
    have "joined (dt_remove_space st) (p # ps) = q @ concat ps" for ps
      by (simp only: joined.simps q_def)
    with \<open>\<And>ps. joined False ps = concat ps\<close> Cons.IH [OF st1(3) [folded q_def]] st1(1,2) Inr show ?thesis
      by (simp add: bindE_def del: detok_token.simps joined.simps split: sum.splits)
  qed
qed simp

definition tidy :: "'s llama_vocab \<Rightarrow> byte list \<Rightarrow> byte list" where
  "tidy vocab s = (if tokenizer_clean_spaces vocab then cleaned s else s)"

lemma detokenize_impl_eq:
  assumes "detok_start vocab tokens remove_special = (tokens', remove_space)"
  shows "case mapE (piece_of vocab unparse_special) tokens' of
      Inl e \<Rightarrow> llama_detokenize_impl vocab tokens buf (int (length buf)) remove_special unparse_special = Inl e
    | Inr ps \<Rightarrow> \<exists>buf'.
        let T = joined remove_space ps in
        length buf' = length buf
        \<and> (if length T \<le> length buf then
             llama_detokenize_impl vocab tokens buf (int (length buf)) remove_special unparse_special
               = Inr (int (length (tidy vocab T)), buf')
             \<and> length (tidy vocab T) \<le> length buf \<and> take (length (tidy vocab T)) buf' = tidy vocab T
           else llama_detokenize_impl vocab tokens buf (int (length buf)) remove_special unparse_special
               = Inr (- int (length T), buf'))"
proof -
  let ?st = "\<lparr>dt_text = buf, dt_pos = 0, dt_avail = int (length buf), dt_total = 0, dt_remove_space = remove_space\<rparr>"
  have "detok_inv (length buf) [] ?st" by (simp add: detok_inv_def)
  note loop = detok_loop [OF this, of vocab unparse_special tokens']
  show ?thesis
  proof (cases "mapE (piece_of vocab unparse_special) tokens'")
    case (Inl e)
    with loop assms show ?thesis by (simp add: llama_detokenize_impl_def)
  next
    case (Inr ps)
    let ?T = "joined remove_space ps"
    from loop Inr obtain st where st: "foldE (detok_token vocab unparse_special) tokens' ?st = Inr st"
      "detok_inv (length buf) ?T st" by auto
    then have len: "length (dt_text st) = length buf" "dt_total st = int (length ?T)" by (auto simp: detok_inv_def)
    show ?thesis
    proof (cases "length ?T \<le> length buf")
      case False
      with len st(1) assms Inr show ?thesis by (auto simp: llama_detokenize_impl_def Let_def)
    next
      case fits: True
      with st(2) have T: "take (length ?T) (dt_text st) = ?T" by (simp add: detok_inv_def)
      show ?thesis
      proof (cases "tokenizer_clean_spaces vocab")
        case False
        with fits len st(1) assms Inr T show ?thesis
          by (auto simp: llama_detokenize_impl_def tidy_def Let_def)
      next
        case True
        obtain t tot where t: "clean_spaces (dt_text st, length ?T) = (t, tot)" "length t = length buf"
          "tot \<le> length ?T" "take tot t = cleaned ?T"
          using clean_spaces_correct [of "length ?T" "dt_text st"] fits len(1) T by auto
        then have "length (cleaned ?T) = tot" using fits by (metis le_trans length_take min.absorb2)
        with True fits len st(1) assms Inr t show ?thesis
          by (auto simp: llama_detokenize_impl_def tidy_def Let_def)
      qed
    qed
  qed
qed

lemma resize_grow: "length (resize_to x n xs) = n"
  by (simp add: resize_to_def)

lemma llama_detokenize_eq:
  "llama_detokenize capacity vocab tokens special
   = bindE (mapE (piece_of vocab special) tokens) (\<lambda>ps.
       Inr (tidy vocab (joined (tokenizer_add_space_prefix vocab) ps)))"
proof -
  have start: "detok_start vocab tokens False = (tokens, tokenizer_add_space_prefix vocab)"
    by (simp add: detok_start_def)
  let ?n = "Orderings.max capacity (length tokens)"
  note eq = detokenize_impl_eq [OF start, where unparse_special = special]
  show ?thesis
  proof (cases "mapE (piece_of vocab special) tokens")
    case (Inl e)
    with eq [of "replicate ?n 0"] show ?thesis by (simp add: llama_detokenize_def)
  next
    case (Inr ps)
    let ?T = "joined (tokenizer_add_space_prefix vocab) ps"
    show ?thesis
    proof (cases "length ?T \<le> ?n")
      case True
      with eq [of "replicate ?n 0"] Inr show ?thesis
        by (auto simp: llama_detokenize_def resize_to_def Let_def)
    next
      case False
      with eq [of "replicate ?n 0"] Inr obtain buf where buf: "length buf = ?n"
        "llama_detokenize_impl vocab tokens (replicate ?n 0) (int ?n) False special = Inr (- int (length ?T), buf)"
        by (auto simp: Let_def)
      have "0 < length ?T" using False by linarith
      let ?buf = "resize_to 0 (length ?T) buf"
      from eq [of ?buf] Inr obtain buf' where "length buf' = length ?T"
        "llama_detokenize_impl vocab tokens ?buf (int (length ?T)) False special
          = Inr (int (length (tidy vocab ?T)), buf')"
        "length (tidy vocab ?T) \<le> length ?T" "take (length (tidy vocab ?T)) buf' = tidy vocab ?T"
        by (auto simp: Let_def resize_grow)
      with buf Inr \<open>0 < length ?T\<close> show ?thesis
        by (simp add: llama_detokenize_def Let_def resize_grow) (simp add: resize_to_def)
    qed
  qed
qed

text \<open>
  C32: detokenizing is the concatenation of the pieces of the tokens, without the leading space of
  the first one if the vocabulary adds one, tidied by the clean-up passes; both calls of the wrapper
  agree, its assertions hold, and no buffer is overrun. The in-place passes are: drop a space in
  front of punctuation, replace a lone apostrophe with its spaces by the apostrophe, and drop a space
  in front of the four contractions.
\<close>

theorem llama_detokenize_pieces:
  "llama_detokenize capacity vocab tokens special
   = bindE (mapE (piece_of vocab special) tokens) (\<lambda>ps.
       Inr (tidy vocab (joined (tokenizer_add_space_prefix vocab) ps)))"
  by (rule llama_detokenize_eq)

lemma llama_token_to_piece_eq:
  "llama_token_to_piece capacity vocab token special = piece_of vocab special token"
  by (cases "piece_of vocab special token")
     (auto simp: llama_token_to_piece_def token_to_piece_of try_copy_def resize_to_def Let_def)

end
