(* ===== verification/CharGroups.thy ===== *)
theory CharGroups
  imports MergeQueue Vocab
begin

text \<open>
  Texts of encoded code points: their characters, the way a greedy merge groups them, and unescaping
  a group.
\<close>

section \<open>The characters of an encoded text\<close>

lemma len_lead:
  fixes x :: u32
  shows "drop_bit 4 (ucast (0xc0 OR (x AND 0x1f)) :: byte) \<in> {0xc, 0xd}"
    and "drop_bit 4 (ucast (0xe0 OR (x AND 0x0f)) :: byte) = 0xe"
    and "drop_bit 4 (ucast (0xf0 OR (x AND 0x07)) :: byte) = 0xf"
proof -
  have "drop_bit 4 (ucast (0xc0 OR (x AND 0x1f)) :: byte) = 0xc OR ucast (drop_bit 4 x AND 1)"
    by (rule bit_word_eqI) (auto simp: bit_simps bit_numeral_rec bit_1_iff nth_Cons' less_Suc_eq numeral_eq_Suc)
  moreover have "drop_bit 4 x AND 1 = 0 \<or> drop_bit 4 x AND 1 = 1"
    by (simp add: and_one_eq mod_2_eq_odd)
  ultimately show "drop_bit 4 (ucast (0xc0 OR (x AND 0x1f)) :: byte) \<in> {0xc, 0xd}" by auto
  show "drop_bit 4 (ucast (0xe0 OR (x AND 0x0f)) :: byte) = 0xe"
    by (rule bit_word_eqI) (auto simp: bit_simps bit_numeral_rec less_Suc_eq numeral_eq_Suc)
  show "drop_bit 4 (ucast (0xf0 OR (x AND 0x07)) :: byte) = 0xf"
    by (rule bit_word_eqI) (auto simp: bit_simps bit_numeral_rec less_Suc_eq numeral_eq_Suc)
qed

lemma encode_len:
  assumes "unicode_cpt_to_utf8 c = Inr bs"
  shows "unicode_len_utf8 (hd bs) = length bs"
proof -
  have ascii: "unicode_len_utf8 (ucast c) = 1" if "c \<le> 0x7f"
  proof -
    have "unat (ucast c :: byte) < 128"
      using that by (simp add: word_le_nat_alt unsigned_ucast_eq take_bit_word_eq_self unsigned_take_bit_eq take_bit_nat_def)
    then have "unat (drop_bit 4 (ucast c :: byte)) < 8" by (simp add: drop_bit_eq_div unat_div)
    then have "unat (drop_bit 4 (ucast c :: byte)) \<in> {0, 1, 2, 3, 4, 5, 6, 7}" by auto
    then show ?thesis by (auto simp: unicode_len_utf8_def)
  qed
  show ?thesis
    using assms ascii len_lead(1) [of "drop_bit 6 c"] len_lead(2) [of "drop_bit 12 c"] len_lead(3) [of "drop_bit 18 c"]
    by (auto simp: unicode_cpt_to_utf8_def unicode_len_utf8_def split: if_splits)
qed

lemma utf8_chars_loop:
  assumes "mapE unicode_cpt_to_utf8 cps = Inr bss"
  shows "map piece (split_symbols (pre @ concat bss) (length pre) k) = bss"
  using assms
proof (induction cps arbitrary: pre bss k)
  case Nil
  then show ?case by (simp add: split_symbols.simps)
next
  case (Cons c cps)
  then obtain bs bss' where bs: "unicode_cpt_to_utf8 c = Inr bs" "mapE unicode_cpt_to_utf8 cps = Inr bss'"
    "bss = bs # bss'"
    by (auto simp: bindE_Inr_iff)
  have len: "0 < length bs" using encode_length [OF bs(1)] by simp
  then have "(pre @ bs @ concat bss') ! length pre = hd bs" by (simp add: nth_append hd_conv_nth)
  with encode_len [OF bs(1)] Cons.IH [OF bs(2), of "pre @ bs" "k + 1"] len show ?case
    by (subst split_symbols.simps) (simp add: bs(3) Let_def, simp add: piece_def)
qed

lemma utf8_chars_encode: "mapE unicode_cpt_to_utf8 cps = Inr bss \<Longrightarrow> utf8_chars (concat bss) = bss"
  using utf8_chars_loop [of cps bss "[]" 0] by (simp add: utf8_chars_def)

section \<open>Groups\<close>

definition grouped :: "'a list list \<Rightarrow> 'a list list \<Rightarrow> bool" where
  "grouped xs ys \<longleftrightarrow> (\<exists>gs. concat gs = xs \<and> map concat gs = ys)"

lemma grouped_refl: "grouped xs xs"
  unfolding grouped_def by (intro exI [of _ "map (\<lambda>x. [x]) xs"]) (induction xs; simp)

lemma group_groups:
  "concat hs = map concat gs \<Longrightarrow> \<exists>gss. concat gss = gs \<and> map (map concat) gss = hs"
proof (induction hs arbitrary: gs)
  case (Cons h hs)
  then have h: "h = take (length h) (map concat gs)" "concat hs = drop (length h) (map concat gs)"
    by (metis append_eq_conv_conj concat.simps(2))+
  from h(2) Cons.IH [of "drop (length h) gs"] obtain gss where
    "concat gss = drop (length h) gs" "map (map concat) gss = hs" by (auto simp: drop_map)
  with h(1) show ?case by (intro exI [of _ "take (length h) gs # gss"]) (simp add: take_map)
qed simp

lemma grouped_trans: "grouped xs ys \<Longrightarrow> grouped ys zs \<Longrightarrow> grouped xs zs"
proof -
  assume "grouped xs ys" "grouped ys zs"
  then obtain gs hs where g: "concat gs = xs" "map concat gs = ys" "concat hs = ys" "map concat hs = zs"
    by (auto simp: grouped_def)
  with group_groups [of hs gs] obtain gss where gss: "concat gss = gs" "map (map concat) gss = hs" by auto
  have flat: "concat (map concat us) = concat (concat us)" for us :: "'b list list list"
    by (induction us) auto
  have "map concat (map concat gss) = map concat hs"
    unfolding gss(2) [symmetric] by (induction gss) (simp_all add: flat)
  moreover have "concat (map concat gss) = xs"
    unfolding g(1) [symmetric] gss(1) [symmetric] by (induction gss) simp_all
  ultimately show ?thesis using g(4) unfolding grouped_def by blast
qed

lemma concat_singletons: "concat (map (\<lambda>x. [x]) xs) = xs" "map (\<lambda>x. concat [x]) xs = xs"
  by (induction xs) simp_all

lemma grouped_append: "grouped xs ys \<Longrightarrow> grouped us vs \<Longrightarrow> grouped (xs @ us) (ys @ vs)"
  unfolding grouped_def by (metis concat_append map_append)

lemma grouped_pair: "grouped [a, b] [a @ b]"
  unfolding grouped_def by (intro exI [of _ "[[a, b]]"]) simp

lemma grouped_merge:
  assumes "Suc k < length ps"
  shows "grouped ps (take k ps @ (ps ! k @ ps ! Suc k) # drop (Suc (Suc k)) ps)"
proof -
  have "drop k ps = [ps ! k, ps ! Suc k] @ drop (Suc (Suc k)) ps"
    using assms Cons_nth_drop_Suc [of k ps] Cons_nth_drop_Suc [of "Suc k" ps] by simp
  then have "ps = take k ps @ [ps ! k, ps ! Suc k] @ drop (Suc (Suc k)) ps"
    by (metis append_take_drop_id)
  moreover have "grouped (take k ps @ [ps ! k, ps ! Suc k] @ drop (Suc (Suc k)) ps)
      (take k ps @ [ps ! k @ ps ! Suc k] @ drop (Suc (Suc k)) ps)"
    by (intro grouped_append grouped_refl grouped_pair)
  ultimately show ?thesis by simp
qed

lemma greedy_grouped: "grouped ps (greedy rank ps)"
proof (induction rank ps rule: greedy.induct)
  case (1 rank ps)
  show ?case
  proof (cases "best (pair_ranks rank ps)")
    case None
    then show ?thesis by (simp add: greedy.simps [of rank ps] grouped_refl)
  next
    case (Some kp)
    obtain k p where kp: "kp = (k, p)" by fastforce
    from 1 [OF Some kp [symmetric]] grouped_merge [OF best_less [OF Some [unfolded kp]]] Some kp show ?thesis
      by (simp add: greedy.simps [of rank ps]) (blast intro: grouped_trans)
  qed
qed

text \<open>A piece of the result is a piece of the start or the merge of a ranked pair.\<close>

lemma greedy_set:
  "x \<in> set (greedy rank ps) \<Longrightarrow> x \<in> set ps \<or> (\<exists>a b. x = a @ b \<and> rank a b \<noteq> None)"
proof (induction rank ps rule: greedy.induct)
  case (1 rank ps)
  show ?case
  proof (cases "best (pair_ranks rank ps)")
    case None
    with 1 show ?thesis by (simp add: greedy.simps [of rank ps])
  next
    case (Some kp)
    obtain k p where kp: "kp = (k, p)" by fastforce
    have k: "Suc k < length ps" using best_less [OF Some [unfolded kp]] .
    then have "rank (ps ! k) (ps ! Suc k) = Some p"
      using best_Some [OF Some [unfolded kp]] by (auto simp: pair_ranks_def nth_tl)
    moreover have "x \<in> set (greedy rank (take k ps @ (ps ! k @ ps ! Suc k) # drop (Suc (Suc k)) ps))"
      using "1.prems" Some kp by (simp add: greedy.simps [of rank ps])
    ultimately show ?thesis
      using 1(1) [OF Some kp [symmetric]] by (auto dest: in_set_takeD in_set_dropD)
  qed
qed

lemma grouped_nonempty: "grouped xs ys \<Longrightarrow> [] \<notin> set ys \<Longrightarrow> \<exists>gs. concat gs = xs \<and> map concat gs = ys \<and> [] \<notin> set gs"
  unfolding grouped_def by force

section \<open>Unescaping\<close>

lemma escaped_space_encode: "unicode_cpt_to_utf8 0x2581 = Inr escaped_space"
  by code_simp

lemma encode_cont:
  assumes "unicode_cpt_to_utf8 c = Inr bs" "0 < j" "j < length bs"
  shows "is_cont (bs ! j)"
  using assms by (auto simp: unicode_cpt_to_utf8_def less_Suc_eq numeral_eq_Suc split: if_splits)

lemma escaped_start:
  assumes "unicode_cpt_to_utf8 c = Inr bs" "j < length bs" "prefix escaped_space (drop j (bs @ r))"
  shows "j = 0 \<and> c = 0x2581"
proof -
  have "hd (drop j (bs @ r)) = 0xe2" using assms(3) by (auto simp: escaped_space_def prefix_def)
  then have "bs ! j = 0xe2" using assms(2) by (simp add: hd_append hd_drop_conv_nth)
  then have j: "j = 0" using encode_cont [OF assms(1), of j] assms(2) by (cases j) (auto simp: is_cont_def)
  with assms(3) obtain r' where "bs @ r = escaped_space @ r'" by (auto simp: prefix_def)
  with decode_encode_at [OF assms(1), of "[]" r] decode_encode_at [OF escaped_space_encode, of "[]" r'] j
  show ?thesis by simp
qed

definition unescape_char :: "byte list \<Rightarrow> byte list" where
  "unescape_char bs = (if bs = escaped_space then [0x20] else bs)"

lemma unescape_encode:
  assumes "mapE unicode_cpt_to_utf8 cps = Inr bss"
  shows "llama_unescape_whitespace (concat bss) = concat (map unescape_char bss)"
  using assms
proof (induction cps arbitrary: bss)
  case Nil
  then show ?case by (simp add: llama_unescape_whitespace_def replace_all_subst)
next
  case (Cons c cps)
  then obtain bs bss' where bs: "unicode_cpt_to_utf8 c = Inr bs" "mapE unicode_cpt_to_utf8 cps = Inr bss'"
    "bss = bs # bss'"
    by (auto simp: bindE_Inr_iff)
  show ?case
  proof (cases "bs = escaped_space")
    case True
    then show ?thesis
      using Cons.IH [OF bs(2)] bs(3)
      by (simp add: llama_unescape_whitespace_def replace_all_subst unescape_char_def bytes_def
          subst_all.simps [of _ _ "escaped_space @ _"]) (simp add: escaped_space_def)
  next
    case False
    then have "c \<noteq> 0x2581" using bs(1) escaped_space_encode by auto
    then have "\<not> prefix escaped_space (drop j (bs @ concat bss'))" if "j < length bs" for j
      using escaped_start [OF bs(1) that] by blast
    from subst_all_skip [OF this, of "length bs" "bytes '' ''"] Cons.IH [OF bs(2)] bs(3) False show ?thesis
      by (simp add: llama_unescape_whitespace_def replace_all_subst unescape_char_def)
  qed
qed

text \<open>Escaping turns the code point of a space into U+2581.\<close>

definition escape_cpt :: "u32 \<Rightarrow> u32" where
  "escape_cpt c = (if c = 0x20 then 0x2581 else c)"

lemma encode_space:
  assumes "unicode_cpt_to_utf8 c = Inr bs"
  shows "0x20 \<in> set bs \<longleftrightarrow> c = 0x20"
proof -
  have cont: "\<not> is_cont 0x20" by (simp add: is_cont_def)
  have lead: "ucast (0xc0 OR (x AND 0x1f)) \<noteq> (0x20 :: byte)" "ucast (0xe0 OR (x AND 0x0f)) \<noteq> (0x20 :: byte)"
    "ucast (0xf0 OR (x AND 0x07)) \<noteq> (0x20 :: byte)" for x :: u32
  proof -
    have no: "\<not> ((0x20 :: byte) AND 0x80 \<noteq> 0)" by simp
    show "ucast (0xc0 OR (x AND 0x1f)) \<noteq> (0x20 :: byte)" using lead2(1) [of x] no by metis
    show "ucast (0xe0 OR (x AND 0x0f)) \<noteq> (0x20 :: byte)" using lead3(1) [of x] no by metis
    show "ucast (0xf0 OR (x AND 0x07)) \<noteq> (0x20 :: byte)" using lead4(1) [of x] no by metis
  qed
  have field: "ucast (0x80 OR (x AND 0x3f)) \<noteq> (0x20 :: byte)" for x :: u32
    using is_cont_field [of x] cont by metis
  have ascii: "(0x20 = (ucast c :: byte)) = (c = 0x20)" if "c \<le> 0x7f"
  proof
    assume "0x20 = (ucast c :: byte)"
    with ascii_ucast [OF that] have "c = ucast (0x20 :: byte)" by simp
    then show "c = 0x20" by simp
  qed simp
  show ?thesis
    using assms ascii lead [THEN not_sym] field [THEN not_sym]
    by (auto simp: unicode_cpt_to_utf8_def simp del: lead2 lead3 lead4 split: if_splits)
qed

lemma escape_no_spaces: "0x20 \<notin> set s \<Longrightarrow> llama_escape_whitespace s = s"
  by (induction s) auto

lemma escape_encode:
  assumes "mapE unicode_cpt_to_utf8 cps = Inr bss" "0x2581 \<notin> set cps"
  shows "\<exists>ess. mapE unicode_cpt_to_utf8 (map escape_cpt cps) = Inr ess
    \<and> llama_escape_whitespace (concat bss) = concat ess \<and> map unescape_char ess = bss"
  using assms
proof (induction cps arbitrary: bss)
  case (Cons c cps)
  then obtain bs bss' where bs: "unicode_cpt_to_utf8 c = Inr bs" "mapE unicode_cpt_to_utf8 cps = Inr bss'"
    "bss = bs # bss'"
    by (auto simp: bindE_Inr_iff)
  from Cons.IH [OF bs(2)] Cons.prems(2) obtain ess where
    ess: "mapE unicode_cpt_to_utf8 (map escape_cpt cps) = Inr ess"
      "llama_escape_whitespace (concat bss') = concat ess" "map unescape_char ess = bss'" by auto
  show ?case
  proof (cases "c = 0x20")
    case True
    have "unicode_cpt_to_utf8 0x20 = Inr [0x20]" by code_simp
    with True bs(1) have "bs = [0x20]" by simp
    moreover have "escape_cpt c = 0x2581" "unescape_char escaped_space = [0x20]"
      using True by (simp_all add: escape_cpt_def unescape_char_def)
    ultimately show ?thesis
      using ess bs(3) escaped_space_encode by (intro exI [of _ "escaped_space # ess"]) simp
  next
    case False
    then have "0x20 \<notin> set bs" using encode_space [OF bs(1)] by simp
    moreover have "bs \<noteq> escaped_space"
    proof
      assume "bs = escaped_space"
      with decode_encode_at [OF bs(1), of "[]" "[]"] decode_encode_at [OF escaped_space_encode, of "[]" "[]"]
      have "c = 0x2581" by simp
      with Cons.prems(2) show False by simp
    qed
    moreover have "escape_cpt c = c" using False by (simp add: escape_cpt_def)
    moreover have "unescape_char bs = bs" using \<open>bs \<noteq> escaped_space\<close> by (simp add: unescape_char_def)
    ultimately show ?thesis
      using ess bs by (intro exI [of _ "bs # ess"]) (simp add: escape_no_spaces)
  qed
qed simp

end
