(* ===== verification/SpmRoundtrip.thy ===== *)
theory SpmRoundtrip
  imports Detokenize CharGroups
begin

text \<open>
  Tokenizing a text with an SPM vocabulary and detokenizing the result: which vocabularies and texts
  come back unchanged.
\<close>

section \<open>Vocabularies that keep texts\<close>

definition uncached_piece :: "'s llama_vocab \<Rightarrow> int \<Rightarrow> byte list res" where
  "uncached_piece vocab t = bindE (token_piece vocab t) (\<lambda>p. Inr (case p of None \<Rightarrow> [] | Some s \<Rightarrow> s))"

text \<open>The cache is empty or holds the piece of every token.\<close>

definition piece_cache_ok :: "'s llama_vocab \<Rightarrow> bool" where
  "piece_cache_ok vocab \<longleftrightarrow> cache_token_to_piece vocab = []
     \<or> map Inr (cache_token_to_piece vocab) = map (\<lambda>i. uncached_piece vocab (int i)) [0..<length (id_to_token vocab)]"

definition plain_token :: "'s llama_vocab \<Rightarrow> int \<Rightarrow> byte list \<Rightarrow> bool" where
  "plain_token vocab t s \<longleftrightarrow> valid_id vocab t \<and>
     (let d = id_to_token vocab ! nat t in tok_text d = s
        \<and> tok_attr d AND (ATTR_SPECIAL OR ATTR_USER_DEFINED) = 0 \<and> tok_attr d AND ATTR_NORMAL \<noteq> 0)"

definition byte_token :: "'s llama_vocab \<Rightarrow> int \<Rightarrow> byte \<Rightarrow> bool" where
  "byte_token vocab t b \<longleftrightarrow> valid_id vocab t \<and>
     (let d = id_to_token vocab ! nat t in tok_text d = byte_token_text b
        \<and> tok_attr d AND (ATTR_SPECIAL OR ATTR_USER_DEFINED OR ATTR_NORMAL) = 0 \<and> tok_attr d AND ATTR_BYTE \<noteq> 0)"

text \<open>There is a token for the escaped space, and a byte token for every byte.\<close>

definition lossless_vocab :: "'s llama_vocab \<Rightarrow> bool" where
  "lossless_vocab vocab \<longleftrightarrow> vocab_type vocab = VOCAB_SPM \<and> \<not> tokenizer_clean_spaces vocab
     \<and> piece_cache_ok vocab \<and> list_all (special_ok vocab) (cache_special_tokens vocab)
     \<and> token_to_id vocab escaped_space \<noteq> None
     \<and> (\<forall>b. \<exists>t. token_to_id vocab (byte_token_text b) = Some t \<and> byte_token vocab t b)"

definition with_prefix :: "'s llama_vocab \<Rightarrow> byte list \<Rightarrow> byte list" where
  "with_prefix vocab s = (if tokenizer_add_space_prefix vocab then bytes '' '' @ s else s)"

text \<open>
  The text spells no control, byte or user-defined token: the entries of the vocabulary that occur in
  it are ordinary tokens, and no special token in use does.
\<close>

definition ordinary_text :: "'s llama_vocab \<Rightarrow> bool \<Rightarrow> byte list \<Rightarrow> bool" where
  "ordinary_text vocab parse_special s \<longleftrightarrow>
     (\<forall>p t. sublist p (llama_escape_whitespace (with_prefix vocab s)) \<longrightarrow> token_to_id vocab p = Some t
        \<longrightarrow> plain_token vocab t p)
     \<and> (\<forall>t m. active vocab parse_special t \<longrightarrow> \<not> match_at s (text_of vocab t) m)"

section \<open>Pieces\<close>

lemma and_or_eq_0: "(a :: u32) AND (b OR c) = 0 \<longleftrightarrow> a AND b = 0 \<and> a AND c = 0"
  by (simp add: bit.conj_disj_distrib or_eq_0_iff)

lemma piece_of_uncached:
  assumes "valid_id vocab t" "vocab_type vocab \<noteq> VOCAB_NONE" "piece_cache_ok vocab"
    and "tok_attr (id_to_token vocab ! nat t) AND ATTR_SPECIAL = 0" "uncached_piece vocab t = Inr p"
  shows "piece_of vocab special t = Inr p"
proof -
  let ?d = "id_to_token vocab ! nat t" and ?c = "cache_token_to_piece vocab"
  have attr: "llama_token_get_attr_impl vocab t = Inr (tok_attr ?d)"
    using assms(1,2) by (simp add: llama_token_get_attr_impl_def checked_token_def token_at_def)
  show ?thesis
  proof (cases "?c = []")
    case True
    with attr assms(4,5) show ?thesis by (simp add: piece_of_def uncached_piece_def)
  next
    case False
    with assms(3) have c: "map Inr ?c = map (\<lambda>i. uncached_piece vocab (int i)) [0..<length (id_to_token vocab)]"
      by (simp add: piece_cache_ok_def)
    from arg_cong [OF c, of length] have len: "length ?c = length (id_to_token vocab)" by simp
    from assms(1) have t: "0 \<le> t" "nat t < length (id_to_token vocab)" by (auto simp: valid_id_def)
    from arg_cong [OF c, of "\<lambda>xs. xs ! nat t"] t len have "Inr (?c ! nat t) = uncached_piece vocab t" by simp
    with attr assms(4,5) False t len show ?thesis by (simp add: piece_of_def)
  qed
qed

lemma plain_token_piece:
  assumes "plain_token vocab t s" "lossless_vocab vocab"
  shows "piece_of vocab special t = Inr (llama_unescape_whitespace s)"
  using assms
  by (intro piece_of_uncached)
     (auto simp: plain_token_def lossless_vocab_def uncached_piece_def token_piece_def Let_def and_or_eq_0)

lemma byte_token_piece:
  assumes "lossless_vocab vocab"
  shows "\<exists>t. llama_byte_to_token_impl vocab b = Inr t \<and> piece_of vocab special t = Inr [b]"
proof -
  from assms obtain t where t: "token_to_id vocab (byte_token_text b) = Some t" "byte_token vocab t b"
    and spm: "vocab_type vocab = VOCAB_SPM" by (auto simp: lossless_vocab_def)
  let ?d = "id_to_token vocab ! nat t"
  have at: "token_at vocab t = Inr ?d" "valid_id vocab t" using t(2) by (simp_all add: byte_token_def token_at_def)
  have d: "tok_text ?d = byte_token_text b" "tok_attr ?d AND ATTR_SPECIAL = 0"
    "tok_attr ?d AND ATTR_USER_DEFINED = 0" "tok_attr ?d AND ATTR_NORMAL = 0" "tok_attr ?d AND ATTR_BYTE \<noteq> 0"
    using t(2) by (auto simp: byte_token_def Let_def and_or_eq_0)
  note rt = byte_token_text_roundtrip [OF disjI1 [OF spm] t(1) at(1) d(1,5)]
  have "uncached_piece vocab t = Inr [b]"
    using at(2) d spm rt by (simp add: uncached_piece_def token_piece_def Let_def and_or_eq_0)
  with piece_of_uncached [OF at(2) _ _ d(2)] spm assms rt show ?thesis
    by (auto simp: lossless_vocab_def)
qed

section \<open>The tokens of a piece\<close>

lemma greedy_nonempty: "[] \<notin> set ps \<Longrightarrow> [] \<notin> set (greedy rank ps)"
proof (induction rank ps rule: greedy.induct)
  case (1 rank ps)
  show ?case
  proof (cases "best (pair_ranks rank ps)")
    case None
    with 1 show ?thesis by (simp add: greedy.simps [of rank ps])
  next
    case (Some kp)
    obtain k p where kp: "kp = (k, p)" by fastforce
    then have "ps ! k \<in> set ps" using best_less [of rank ps k p] Some by simp
    with 1(2) have "[] \<notin> set (take k ps @ (ps ! k @ ps ! Suc k) # drop (Suc (Suc k)) ps)"
      by (auto dest: in_set_takeD in_set_dropD)
    with 1(1) [OF Some kp [symmetric]] Some kp show ?thesis by (simp add: greedy.simps [of rank ps])
  qed
qed

text \<open>What the tokens of the group \<open>g\<close> of characters must spell.\<close>

definition spelled :: "'s llama_vocab \<Rightarrow> bool \<Rightarrow> byte list list \<Rightarrow> int list \<Rightarrow> bool" where
  "spelled vocab special g ids \<longleftrightarrow> (\<exists>ps. mapE (piece_of vocab special) ids = Inr ps
     \<and> concat ps = concat (map unescape_char g) \<and> [] \<notin> set ps)"

lemma mapE_append_Inr:
  "mapE f (xs @ ys) = Inr zs \<longleftrightarrow> (\<exists>us vs. mapE f xs = Inr us \<and> mapE f ys = Inr vs \<and> zs = us @ vs)"
  by (induction xs arbitrary: zs) (auto simp: bindE_Inr_iff)

lemma encoded_part:
  assumes "mapE unicode_cpt_to_utf8 cps = Inr (us @ g @ vs)"
  shows "\<exists>cg. mapE unicode_cpt_to_utf8 cg = Inr g"
proof -
  from assms have "list_all2 (\<lambda>c b. unicode_cpt_to_utf8 c = Inr b) cps (us @ g @ vs)" by (simp add: mapE_Inr_iff)
  then show ?thesis by (auto simp: list_all2_append2 mapE_Inr_iff)
qed

lemma encoded_nonempty: "mapE unicode_cpt_to_utf8 cps = Inr bss \<Longrightarrow> [] \<notin> set bss"
  by (induction cps arbitrary: bss) (auto simp: bindE_Inr_iff dest: encode_length)

lemma unescape_nonempty: "[] \<notin> set g \<Longrightarrow> g \<noteq> [] \<Longrightarrow> concat (map unescape_char g) \<noteq> []"
  by (cases g) (auto simp: unescape_char_def)

lemma group_spelled:
  assumes vocab: "lossless_vocab vocab" and g: "mapE unicode_cpt_to_utf8 cg = Inr g" "g \<noteq> []"
    and plain: "\<And>t. token_to_id vocab (concat g) = Some t \<Longrightarrow> plain_token vocab t (concat g)"
    and single: "token_to_id vocab (concat g) = None \<Longrightarrow> \<exists>c. unicode_cpt_to_utf8 c = Inr (concat g)"
  shows "\<exists>ids. spm_tokens vocab (concat g) = Inr ids \<and> spelled vocab special g ids"
proof (cases "token_to_id vocab (concat g)")
  case (Some t)
  with plain_token_piece [OF plain [OF Some] vocab, of special] unescape_encode [OF g(1)]
    unescape_nonempty [OF encoded_nonempty [OF g(1)] g(2)]
  show ?thesis by (simp add: spm_tokens_def spelled_def)
next
  case None
  from single [OF this] obtain c where c: "unicode_cpt_to_utf8 c = Inr (concat g)" by blast
  then have "mapE unicode_cpt_to_utf8 [c] = Inr [concat g]" by simp
  from utf8_chars_encode [OF this] utf8_chars_encode [OF g(1)] have "g = [concat g]" by simp
  then obtain b where b: "g = [b]" by (cases g) auto
  have "b \<noteq> escaped_space" using None vocab b by (auto simp: lossless_vocab_def)
  then have "concat (map unescape_char g) = b" using b by (simp add: unescape_char_def)
  moreover have "\<exists>ids. mapE (llama_byte_to_token_impl vocab) bs = Inr ids
      \<and> mapE (piece_of vocab special) ids = Inr (map (\<lambda>b. [b]) bs)" for bs
  proof (induction bs)
    case (Cons b bs)
    from byte_token_piece [OF vocab, of b special] Cons show ?case by auto
  qed simp
  moreover have "concat (map (\<lambda>b. [b]) bs) = bs" for bs :: "byte list" by (induction bs) auto
  ultimately show ?thesis using None b by (simp add: spm_tokens_def spelled_def) fastforce
qed

lemma groups_spelled:
  assumes "\<And>g. g \<in> set gs \<Longrightarrow> \<exists>ids. spm_tokens vocab (concat g) = Inr ids \<and> spelled vocab special g ids"
  shows "\<exists>idss. mapE (spm_tokens vocab) (map concat gs) = Inr idss \<and> spelled vocab special (concat gs) (concat idss)"
  using assms
proof (induction gs)
  case Nil
  then show ?case by (simp add: spelled_def)
next
  case (Cons g gs)
  from Cons.prems [of g] obtain ids where "spm_tokens vocab (concat g) = Inr ids" "spelled vocab special g ids"
    by auto
  moreover from Cons.IH Cons.prems obtain idss where
    "mapE (spm_tokens vocab) (map concat gs) = Inr idss" "spelled vocab special (concat gs) (concat idss)"
    by (meson list.set_intros(2))
  moreover note ids = calculation
  then have "spelled vocab special (g @ concat gs) (ids @ concat idss)"
    by (auto simp: spelled_def mapE_append_Inr)
  with ids show ?case by simp
qed

lemma spm_tokens_spelled:
  assumes vocab: "lossless_vocab vocab" and ess: "mapE unicode_cpt_to_utf8 cps = Inr ess"
    and plain: "\<And>p t. sublist p (concat ess) \<Longrightarrow> token_to_id vocab p = Some t \<Longrightarrow> plain_token vocab t p"
  shows "\<exists>idss. mapE (spm_tokens vocab) (greedy (spm_rank vocab) ess) = Inr idss
    \<and> spelled vocab special ess (concat idss)"
proof -
  let ?ps = "greedy (spm_rank vocab) ess"
  obtain gs where gs: "concat gs = ess" "map concat gs = ?ps" "[] \<notin> set gs"
    using grouped_nonempty [OF greedy_grouped greedy_nonempty [OF encoded_nonempty [OF ess]]] by blast
  have "\<exists>ids. spm_tokens vocab (concat g) = Inr ids \<and> spelled vocab special g ids" if g: "g \<in> set gs" for g
  proof -
    from g obtain hs ks where hs: "gs = hs @ g # ks" by (metis split_list)
    then have part: "ess = concat hs @ g @ concat ks" using gs(1) by simp
    with ess encoded_part obtain cg where cg: "mapE unicode_cpt_to_utf8 cg = Inr g" by blast
    have in_ps: "concat g \<in> set ?ps" using g unfolding gs(2) [symmetric] by simp
    have "sublist (concat g) (concat ess)" unfolding part by (auto simp: sublist_def)
    moreover have "\<exists>c. unicode_cpt_to_utf8 c = Inr (concat g)" if none: "token_to_id vocab (concat g) = None"
    proof -
      from greedy_set [OF in_ps] none have "concat g \<in> set ess" by (auto simp: spm_rank_def)
      with ess show ?thesis by (auto simp: mapE_Inr_iff list_all2_conv_all_nth in_set_conv_nth) metis
    qed
    moreover have "g \<noteq> []" using g gs(3) by auto
    ultimately show ?thesis using vocab cg plain by (intro group_spelled) auto
  qed
  from groups_spelled [of gs vocab special, OF this] gs show ?thesis by simp
qed

section \<open>The round trip\<close>

lemma partition_untouched:
  assumes "s \<noteq> []" "\<And>t m. active vocab ps t \<Longrightarrow> \<not> match_at s (text_of vocab t) m"
    and "list_all (special_ok vocab) ts" "set ts \<subseteq> set (cache_special_tokens vocab)"
  shows "foldE (partition_by vocab s ps) ts [RawText 0 (length s)] = Inr [RawText 0 (length s)]"
  using assms(3,4)
proof (induction ts)
  case (Cons t ts)
  let ?d = "id_to_token vocab ! nat t"
  have d: "token_at vocab t = Inr ?d" "tok_text ?d \<noteq> []" using Cons.prems(1)
    by (simp_all add: special_ok_def token_at_def text_of_def)
  have "partition_by vocab s ps t [RawText 0 (length s)] = Inr [RawText 0 (length s)]"
  proof (cases "ignored ps ?d")
    case True
    with d show ?thesis by simp
  next
    case False
    with Cons.prems(2) have "active vocab ps t" by (simp add: active_def)
    with assms(2) have "str_find s (tok_text ?d) 0 = None" by (simp add: str_find_None_iff text_of_def)
    with d False assms(1) show ?thesis
      by (simp add: split_raw.simps [of s "tok_text ?d"] untouched_def)
  qed
  with Cons show ?case by (simp del: partition_by.simps)
qed simp

lemma joined_concat: "[] \<notin> set ps \<Longrightarrow> joined b ps = skip_spaces (if b then 1 else 0) (concat ps)"
  by (cases ps; cases "hd ps") auto

lemma tokenize_plain:
  assumes "vocab_type vocab = VOCAB_SPM" "s \<noteq> []" "env_depth env = Suc depth"
    and "list_all (special_ok vocab) (cache_special_tokens vocab)"
    and "\<And>t m. active vocab ps t \<Longrightarrow> \<not> match_at s (text_of vocab t) m"
  shows "llama_tokenize_internal env vocab s False ps
    = bindE (mapE (spm_tokens vocab) (greedy (spm_rank vocab)
        (utf8_chars (llama_escape_whitespace (with_prefix vocab s))))) (\<lambda>idss. Inr (concat idss))"
proof -
  have "1 \<le> length s" using assms(2) by (cases s) auto
  moreover have "llama_escape_whitespace (with_prefix vocab s) \<noteq> []"
    using assms(2) by (cases s) (auto simp: with_prefix_def escaped_space_def bytes_def)
  ultimately show ?thesis
    using partition_untouched [OF assms(2,5,4) subset_refl] assms(1-3)
    by (simp add: llama_tokenize_internal_def raw_fragment_def tokenizer_st_partition_def tokenize_fragments_def
        append_if_def spm_tokenize_eq with_prefix_def Let_def bindE_def split: sum.splits)
qed

text \<open>
  C31: a UTF-8 text without U+2581 that spells no special, byte or user-defined token comes back
  unchanged: tokenizing it with a complete SPM vocabulary returns ids, and detokenizing them gives
  the text, byte fallback, escaped spaces and the space prefix included.
\<close>

theorem spm_text_roundtrip:
  assumes "lossless_vocab vocab" "env_depth env = Suc depth"
    and "unicode_cpts_to_utf8 cps = Inr s" "0x2581 \<notin> set cps" "ordinary_text vocab parse_special s"
  shows "\<exists>ids. llama_tokenize env vocab s False parse_special = Inr ids
    \<and> llama_detokenize capacity vocab ids special = Inr s"
proof -
  from assms(3) obtain bss where bss: "mapE unicode_cpt_to_utf8 cps = Inr bss" "s = concat bss"
    by (auto simp: unicode_cpts_to_utf8_def bindE_Inr_iff)
  let ?b = "tokenizer_add_space_prefix vocab"
  let ?cps = "if ?b then 0x20 # cps else cps"
  have space: "unicode_cpt_to_utf8 0x20 = Inr (bytes '' '')" by code_simp
  obtain bss' where bss': "mapE unicode_cpt_to_utf8 ?cps = Inr bss'" "with_prefix vocab s = concat bss'"
    by (rule that [of "if ?b then bytes '' '' # bss else bss"]) (use bss space in \<open>auto simp: with_prefix_def\<close>)
  have "0x2581 \<notin> set ?cps" using assms(4) by simp
  from escape_encode [OF bss'(1) this] obtain ess where
    ess: "mapE unicode_cpt_to_utf8 (map escape_cpt ?cps) = Inr ess"
      "llama_escape_whitespace (with_prefix vocab s) = concat ess" "map unescape_char ess = bss'"
    unfolding bss'(2) by blast
  have v: "vocab_type vocab = VOCAB_SPM" "list_all (special_ok vocab) (cache_special_tokens vocab)"
    "\<not> tokenizer_clean_spaces vocab"
    using assms(1) by (simp_all add: lossless_vocab_def)
  have strip: "skip_spaces (if ?b then 1 else 0) (with_prefix vocab s) = s"
    by (simp add: with_prefix_def bytes_def)
  show ?thesis
  proof (cases "s = []")
    case True
    then have "llama_tokenize_internal env vocab s False parse_special = Inr []"
      by (simp add: llama_tokenize_internal_def tokenize_fragments_def v append_if_def)
    with True v show ?thesis by (simp add: llama_tokenize_eq llama_detokenize_eq tidy_def)
  next
    case False
    have "plain_token vocab t p" if "sublist p (concat ess)" "token_to_id vocab p = Some t" for p t
      using assms(5) that ess(2) by (simp add: ordinary_text_def)
    from spm_tokens_spelled [OF assms(1) ess(1) this, of special] obtain idss ps where
      ids: "mapE (spm_tokens vocab) (greedy (spm_rank vocab) ess) = Inr idss"
      and ps: "mapE (piece_of vocab special) (concat idss) = Inr ps" "concat ps = concat bss'" "[] \<notin> set ps"
      by (auto simp: spelled_def ess(3))
    have "utf8_chars (llama_escape_whitespace (with_prefix vocab s)) = ess"
      using utf8_chars_encode [OF ess(1)] ess(2) by simp
    moreover have "\<not> match_at s (text_of vocab t) m" if "active vocab parse_special t" for t m
      using assms(5) that by (simp add: ordinary_text_def)
    ultimately have "llama_tokenize_internal env vocab s False parse_special = Inr (concat idss)"
      using tokenize_plain [OF v(1) False assms(2) v(2)] ids by simp
    moreover have "llama_detokenize capacity vocab (concat idss) special = Inr s"
      using ps bss'(2) strip v(3) by (simp add: llama_detokenize_eq joined_concat tidy_def)
    ultimately show ?thesis by (simp add: llama_tokenize_eq)
  qed
qed

text \<open>A vocabulary with all byte tokens, the escaped space and one letter.\<close>

definition letter_vocab :: "int option llama_vocab" where
  "letter_vocab = empty_vocab\<lparr>
     token_to_id := (\<lambda>s. if s = escaped_space then Some 256 else if s = bytes ''a'' then Some 257
       else map_of (map (\<lambda>i. (byte_token_text (of_nat i), int i)) [0..<256]) s),
     id_to_token := map (\<lambda>i. \<lparr>tok_text = byte_token_text (of_nat i), tok_score = None, tok_attr = ATTR_BYTE\<rparr>) [0..<256]
       @ [\<lparr>tok_text = escaped_space, tok_score = Some 0, tok_attr = ATTR_NORMAL\<rparr>,
          \<lparr>tok_text = bytes ''a'', tok_score = Some 0, tok_attr = ATTR_NORMAL\<rparr>],
     tokenizer_add_space_prefix := True\<rparr>"

lemma byte_token_text_length: "length (byte_token_text b) = 6"
  by (simp add: byte_token_text_def bytes_def)

lemma byte_token_text_inj: "byte_token_text b = byte_token_text c \<Longrightarrow> b = c"
  using byte_token_text_roundtrip [where vocab = "byte_vocab\<lparr>token_to_id := [byte_token_text b \<mapsto> 0],
      id_to_token := [\<lparr>tok_text = byte_token_text b, tok_score = 0, tok_attr = ATTR_BYTE\<rparr>]\<rparr>"
      and token = 0 and d = "\<lparr>tok_text = byte_token_text b, tok_score = 0, tok_attr = ATTR_BYTE\<rparr>" and b = b]
    byte_token_text_roundtrip [where vocab = "byte_vocab\<lparr>token_to_id := [byte_token_text c \<mapsto> 0],
      id_to_token := [\<lparr>tok_text = byte_token_text c, tok_score = 0, tok_attr = ATTR_BYTE\<rparr>]\<rparr>"
      and token = 0 and d = "\<lparr>tok_text = byte_token_text c, tok_score = 0, tok_attr = ATTR_BYTE\<rparr>" and b = c]
  by (simp add: byte_vocab_def empty_vocab_def token_at_def valid_id_def ATTR_BYTE_def)

lemma letter_vocab_fields:
  "token_to_id letter_vocab = (\<lambda>s. if s = escaped_space then Some 256 else if s = bytes ''a'' then Some 257
     else map_of (map (\<lambda>i. (byte_token_text (of_nat i), int i)) [0..<256]) s)"
  "vocab_type letter_vocab = VOCAB_SPM" "\<not> tokenizer_clean_spaces letter_vocab" "cache_token_to_piece letter_vocab = []"
  "cache_special_tokens letter_vocab = []" "length (id_to_token letter_vocab) = 258" "tokenizer_add_space_prefix letter_vocab"
  by (simp_all add: letter_vocab_def empty_vocab_def)

lemma letter_vocab_byte: "i < 256 \<Longrightarrow> id_to_token letter_vocab ! i
    = \<lparr>tok_text = byte_token_text (of_nat i), tok_score = None, tok_attr = ATTR_BYTE\<rparr>"
  by (simp add: letter_vocab_def nth_append)

lemma letter_vocab_letters:
  "id_to_token letter_vocab ! 256 = \<lparr>tok_text = escaped_space, tok_score = Some 0, tok_attr = ATTR_NORMAL\<rparr>"
  "id_to_token letter_vocab ! 257 = \<lparr>tok_text = bytes ''a'', tok_score = Some 0, tok_attr = ATTR_NORMAL\<rparr>"
  by (simp_all add: letter_vocab_def nth_append)

lemma letter_vocab_lossless: "lossless_vocab letter_vocab"
proof -
  have "\<exists>t. token_to_id letter_vocab (byte_token_text b) = Some t \<and> byte_token letter_vocab t b" for b
  proof -
    have ub: "unat b < 256" using unsigned_less [of b] by simp
    let ?kvs = "map (\<lambda>i. (byte_token_text (of_nat i), int i)) [0..<256]"
    have "inj_on (\<lambda>i. byte_token_text (of_nat i)) {0..<256}"
    proof (rule inj_onI)
      fix i j :: nat
      assume "i \<in> {0..<256}" "j \<in> {0..<256}" "byte_token_text (of_nat i) = byte_token_text (of_nat j)"
      with byte_token_text_inj have "(of_nat i :: byte) = of_nat j" by blast
      then have "unat (of_nat i :: byte) = unat (of_nat j :: byte)" by simp
      with \<open>i \<in> {0..<256}\<close> \<open>j \<in> {0..<256}\<close> show "i = j" by (simp add: unat_of_nat)
    qed
    then have "distinct (map fst ?kvs)" by (simp add: distinct_map comp_def)
    moreover have "(byte_token_text b, int (unat b)) \<in> set ?kvs"
      using ub by (auto intro!: image_eqI [of _ _ "unat b"])
    ultimately have "map_of ?kvs (byte_token_text b) = Some (int (unat b))" by (rule map_of_is_SomeI)
    moreover have "byte_token_text b \<noteq> escaped_space" "byte_token_text b \<noteq> bytes ''a''"
      using byte_token_text_length [of b] by (auto simp: escaped_space_def bytes_def)
    ultimately have "token_to_id letter_vocab (byte_token_text b) = Some (int (unat b))"
      by (simp add: letter_vocab_fields)
    moreover have "byte_token letter_vocab (int (unat b)) b"
      using less_trans [OF ub, of 258] letter_vocab_byte [OF ub]
      by (simp add: byte_token_def valid_id_def letter_vocab_fields attr_defs ATTR_SPECIAL_def)
    ultimately show ?thesis by blast
  qed
  then show ?thesis
    by (simp add: lossless_vocab_def letter_vocab_fields piece_cache_ok_def)
qed

lemma spm_text_roundtrip_witness:
  "\<exists>ids. llama_tokenize tiny_env letter_vocab (bytes ''a'') False True = Inr ids
    \<and> llama_detokenize 15 letter_vocab ids False = Inr (bytes ''a'')"
proof (rule spm_text_roundtrip [OF letter_vocab_lossless])
  show "env_depth tiny_env = Suc 0" by (simp add: tiny_env_def)
  show "unicode_cpts_to_utf8 [0x61] = Inr (bytes ''a'')" by code_simp
  show "(0x2581 :: u32) \<notin> set [0x61]" by simp
  have "plain_token letter_vocab t p"
    if "sublist p (escaped_space @ bytes ''a'')" "token_to_id letter_vocab p = Some t" for p t
  proof -
    have "length p \<le> 4" using sublist_length_le [OF that(1)] by (simp add: escaped_space_def bytes_def)
    then have "map_of (map (\<lambda>i. (byte_token_text (of_nat i), int i)) [0..<256]) p \<noteq> Some t"
      using byte_token_text_length by (auto dest!: map_of_SomeD)
    with that(2) show ?thesis
      by (auto simp: letter_vocab_fields letter_vocab_letters plain_token_def valid_id_def attr_defs ATTR_SPECIAL_def
          split: if_splits)
  qed
  then show "ordinary_text letter_vocab True (bytes ''a'')"
    by (simp add: ordinary_text_def letter_vocab_fields with_prefix_def active_def bytes_def)
qed

end
