(* ===== verification/PreTypes.thy ===== *)
theory PreTypes
  imports PreTokenizer
begin

text \<open>
  The regular expressions of the BPE pre-tokenizers (\<open>llm_tokenizer_bpe\<close> of \<open>src/src/llama-vocab.cpp\<close>), by
  the pre-tokenizer type of \<open>src/include/llama.h\<close>. Bytes outside of ASCII are written in hexadecimal.
\<close>

datatype llama_vocab_pre_type =
    PRE_TYPE_DEFAULT | PRE_TYPE_LLAMA3 | PRE_TYPE_DEEPSEEK_LLM | PRE_TYPE_DEEPSEEK_CODER
  | PRE_TYPE_FALCON | PRE_TYPE_MPT | PRE_TYPE_STARCODER | PRE_TYPE_GPT2
  | PRE_TYPE_REFACT | PRE_TYPE_COMMAND_R | PRE_TYPE_STABLELM2 | PRE_TYPE_QWEN2
  | PRE_TYPE_OLMO | PRE_TYPE_DBRX | PRE_TYPE_SMAUG | PRE_TYPE_PORO
  | PRE_TYPE_CHATGLM3 | PRE_TYPE_CHATGLM4 | PRE_TYPE_VIKING | PRE_TYPE_JAIS
  | PRE_TYPE_TEKKEN | PRE_TYPE_SMOLLM | PRE_TYPE_CODESHELL

definition regex_llama3 :: "byte list list" where
  "regex_llama3 =
    [regex_lit ''(?:`[sS]|`[tT]|`[rR][eE]|`[vV][eE]|`[mM]|`[lL][lL]|`[dD])|[^~r~n~p{L}~p{N}]?~p{L}+|~''
      @ regex_lit ''p{N}{1,3}| ?[^~s~p{L}~p{N}]+[~r~n]*|~s*[~r~n]+|~s+(?!~S)|~s+'']"

definition regex_dbrx :: "byte list list" where
  "regex_dbrx =
    [regex_lit ''(?:`[sS]|`[tT]|`[rR][eE]|`[vV][eE]|`[mM]|`[lL][lL]|`[dD])|[^~r~n~p{L}~p{N}]?~p{L}+|~''
      @ regex_lit ''p{N}{1,3}| ?[^~s~p{L}~p{N}]+[~r~n]*|~s*[~r~n]+|~s+(?!~S)|~s+'']"

definition regex_deepseek_llm :: "byte list list" where
  "regex_deepseek_llm =
    [regex_lit ''[''
      @ [0x0d, 0x0a]
      @ regex_lit '']'',
     regex_lit ''~s?[A-Za-z''
      @ [0xc2, 0xb5, 0xc3, 0x80, 0x2d, 0xc3, 0x96, 0xc3, 0x98, 0x2d, 0xc3, 0xb6, 0xc3, 0xb8, 0x2d, 0xc6]
      @ [0xba, 0xc6, 0xbc, 0x2d, 0xc6, 0xbf, 0xc7, 0x84, 0x2d, 0xca, 0x93, 0xca, 0x95, 0x2d, 0xca, 0xaf]
      @ [0xcd, 0xb0, 0x2d, 0xcd, 0xb3, 0xcd, 0xb6, 0xcd, 0xb7, 0xcd, 0xbb, 0x2d, 0xcd, 0xbd, 0xcd, 0xbf]
      @ [0xce, 0x86, 0xce, 0x88, 0x2d, 0xce, 0x8a, 0xce, 0x8c, 0xce, 0x8e, 0x2d, 0xce, 0xa1, 0xce, 0xa3]
      @ [0x2d, 0xcf, 0xb5, 0xcf, 0xb7, 0x2d, 0xd2, 0x81, 0xd2, 0x8a, 0x2d, 0xd4, 0xaf, 0xd4, 0xb1, 0x2d]
      @ [0xd5, 0x96, 0xe1, 0x82, 0xa0, 0x2d, 0xe1, 0x83, 0x85, 0xe1, 0x8e, 0xa0, 0x2d, 0xe1, 0x8f, 0xb5]
      @ [0xe1, 0x8f, 0xb8, 0x2d, 0xe1, 0x8f, 0xbd, 0xe1, 0xb2, 0x90, 0x2d, 0xe1, 0xb2, 0xba, 0xe1, 0xb2]
      @ [0xbd, 0x2d, 0xe1, 0xb2, 0xbf, 0xe1, 0xb4, 0x80, 0x2d, 0xe1, 0xb4, 0xab, 0xe1, 0xb5, 0xab, 0x2d]
      @ [0xe1, 0xb5, 0xb7, 0xe1, 0xb5, 0xb9, 0x2d, 0xe1, 0xb6, 0x9a, 0xe1, 0xb8, 0x80, 0x2d, 0xe1, 0xbc]
      @ [0x95, 0xe1, 0xbc, 0x98, 0x2d, 0xe1, 0xbc, 0x9d, 0xe1, 0xbc, 0xa0, 0x2d, 0xe1, 0xbd, 0x85, 0xe1]
      @ [0xbd, 0x88, 0x2d, 0xe1, 0xbd, 0x8d, 0xe1, 0xbd, 0x90, 0x2d, 0xe1, 0xbd, 0x97, 0xe1, 0xbd, 0x99]
      @ [0xe1, 0xbd, 0x9b, 0xe1, 0xbd, 0x9d, 0xe1, 0xbd, 0x9f, 0x2d, 0xe1, 0xbd, 0xbd, 0xe1, 0xbe, 0x80]
      @ [0x2d, 0xe1, 0xbe, 0xb4, 0xe1, 0xbe, 0xb6, 0x2d, 0xe1, 0xbe, 0xbc, 0xe1, 0xbe, 0xbe, 0xe1, 0xbf]
      @ [0x82, 0x2d, 0xe1, 0xbf, 0x84, 0xe1, 0xbf, 0x86, 0x2d, 0xe1, 0xbf, 0x8c, 0xe1, 0xbf, 0x90, 0x2d]
      @ [0xe1, 0xbf, 0x93, 0xe1, 0xbf, 0x96, 0x2d, 0xe1, 0xbf, 0x9b, 0xe1, 0xbf, 0xa0, 0x2d, 0xe1, 0xbf]
      @ [0xac, 0xe1, 0xbf, 0xb2, 0x2d, 0xe1, 0xbf, 0xb4, 0xe1, 0xbf, 0xb6, 0x2d, 0xe1, 0xbf, 0xbc, 0xe2]
      @ [0x84, 0x82, 0xe2, 0x84, 0x87, 0xe2, 0x84, 0x8a, 0x2d, 0xe2, 0x84, 0x93, 0xe2, 0x84, 0x95, 0xe2]
      @ [0x84, 0x99, 0x2d, 0xe2, 0x84, 0x9d, 0xe2, 0x84, 0xa4, 0xe2, 0x84, 0xa6, 0xe2, 0x84, 0xa8, 0xe2]
      @ [0x84, 0xaa, 0x2d, 0xe2, 0x84, 0xad, 0xe2, 0x84, 0xaf, 0x2d, 0xe2, 0x84, 0xb4, 0xe2, 0x84, 0xb9]
      @ [0xe2, 0x84, 0xbc, 0x2d, 0xe2, 0x84, 0xbf, 0xe2, 0x85, 0x85, 0x2d, 0xe2, 0x85, 0x89, 0xe2, 0x85]
      @ [0x8e, 0xe2, 0x86, 0x83, 0xe2, 0x86, 0x84, 0xe2, 0xb0, 0x80, 0x2d, 0xe2, 0xb1, 0xbb, 0xe2, 0xb1]
      @ [0xbe, 0x2d, 0xe2, 0xb3, 0xa4, 0xe2, 0xb3, 0xab, 0x2d, 0xe2, 0xb3, 0xae, 0xe2, 0xb3, 0xb2, 0xe2]
      @ [0xb3, 0xb3, 0xea, 0x99, 0x80, 0x2d, 0xea, 0x99, 0xad, 0xea, 0x9a, 0x80, 0x2d, 0xea, 0x9a, 0x9b]
      @ [0xea, 0x9c, 0xa2, 0x2d, 0xea, 0x9d, 0xaf, 0xea, 0x9d, 0xb1, 0x2d, 0xea, 0x9e, 0x87, 0xea, 0x9e]
      @ [0x8b, 0x2d, 0xea, 0x9e, 0x8e, 0xea, 0xad, 0xb0, 0x2d, 0xea, 0xae, 0xbf, 0xef, 0xac, 0x80, 0x2d]
      @ [0xef, 0xac, 0x86, 0xef, 0xac, 0x93, 0x2d, 0xef, 0xac, 0x97, 0xef, 0xbc, 0xa1, 0x2d, 0xef, 0xbc]
      @ [0xba, 0xef, 0xbd, 0x81, 0x2d, 0xef, 0xbd, 0x9a, 0xf0, 0x90, 0x90, 0x80, 0x2d, 0xf0, 0x90, 0x91]
      @ [0x8f, 0xf0, 0x90, 0x92, 0xb0, 0x2d, 0xf0, 0x90, 0x93, 0x93, 0xf0, 0x90, 0x93, 0x98, 0x2d, 0xf0]
      @ [0x90, 0x93, 0xbb, 0xf0, 0x90, 0xb2, 0x80, 0x2d, 0xf0, 0x90, 0xb2, 0xb2, 0xf0, 0x90, 0xb3, 0x80]
      @ [0x2d, 0xf0, 0x90, 0xb3, 0xb2, 0xf0, 0x91, 0xa2, 0xa0, 0x2d, 0xf0, 0x91, 0xa3, 0x9f, 0xf0, 0x9e]
      @ [0xa4, 0x80, 0x2d, 0xf0, 0x9e, 0xa5, 0x83]
      @ regex_lit '']+'',
     regex_lit ''~s?[!-/:-''
      @ [0x7e, 0xef, 0xbc, 0x81, 0x2d, 0xef, 0xbc, 0x8f, 0xef, 0xbc, 0x9a, 0x2d, 0xef, 0xbd, 0x9e, 0xe2]
      @ [0x80, 0x98, 0x2d, 0xe2, 0x80, 0x9f, 0xe3, 0x80, 0x80, 0x2d, 0xe3, 0x80, 0x82]
      @ regex_lit '']+'',
     regex_lit ''~s+$'',
     regex_lit ''[''
      @ [0xe4, 0xb8, 0x80, 0x2d, 0xe9, 0xbe, 0xa5, 0xe0, 0xa0, 0x80, 0x2d, 0xe4, 0xb8, 0x80, 0xea, 0xb0]
      @ [0x80, 0x2d, 0xed, 0x9f, 0xbf]
      @ regex_lit '']+'',
     regex_lit ''~p{N}+'']"

definition regex_deepseek_coder :: "byte list list" where
  "regex_deepseek_coder =
    [regex_lit ''[''
      @ [0x0d, 0x0a]
      @ regex_lit '']'',
     regex_lit ''~s?~p{L}+'',
     regex_lit ''~s?~p{P}+'',
     regex_lit ''[''
      @ [0xe4, 0xb8, 0x80, 0x2d, 0xe9, 0xbe, 0xa5, 0xe0, 0xa0, 0x80, 0x2d, 0xe4, 0xb8, 0x80, 0xea, 0xb0]
      @ [0x80, 0x2d, 0xed, 0x9f, 0xbf]
      @ regex_lit '']+'',
     regex_lit ''~p{N}'']"

definition regex_falcon :: "byte list list" where
  "regex_falcon =
    [regex_lit ''[~p{P}~$~+<=>~^''
      @ [0x7e, 0x5c, 0x7c, 0x60]
      @ regex_lit '']+'',
     regex_lit ''`s|`t|`re|`ve|`m|`ll|`d| ?~p{L}+| ?~p{N}+| ?[^~s~p{L}~p{N}]+|~s+(?!~S)'',
     regex_lit ''[0-9][0-9][0-9]'']"

definition regex_starcoder :: "byte list list" where
  "regex_starcoder =
    [regex_lit ''~p{N}'',
     regex_lit ''`s|`t|`re|`ve|`m|`ll|`d| ?~p{L}+| ?~p{N}+| ?[^~s~p{L}~p{N}]+|~s+(?!~S)'']"

definition regex_gpt2 :: "byte list list" where
  "regex_gpt2 =
    [regex_lit ''`s|`t|`re|`ve|`m|`ll|`d| ?~p{L}+| ?~p{N}+| ?[^~s~p{L}~p{N}]+|~s+(?!~S)'']"

definition regex_stablelm2 :: "byte list list" where
  "regex_stablelm2 =
    [regex_lit ''(?:`[sS]|`[tT]|`[rR][eE]|`[vV][eE]|`[mM]|`[lL][lL]|`[dD])|[^~r~n~p{L}~p{N}]?~p{L}+|~''
      @ regex_lit ''p{N}| ?[^~s~p{L}~p{N}]+[~r~n]*|~s*[~r~n]+|~s+(?!~S)|~s+'']"

definition regex_poro :: "byte list list" where
  "regex_poro =
    [regex_lit '' ?[^(~s|.,!?''
      @ [0xe2, 0x80, 0xa6, 0xe3, 0x80, 0x82, 0xef, 0xbc, 0x8c, 0xe3, 0x80, 0x81, 0xe0, 0xa5, 0xa4, 0xdb]
      @ [0x94, 0xd8, 0x8c]
      @ regex_lit '')]+'']"

definition regex_chatglm4 :: "byte list list" where
  "regex_chatglm4 =
    [regex_lit ''(?:`[sS]|`[tT]|`[rR][eE]|`[vV][eE]|`[mM]|`[lL][lL]|`[dD])|[^~r~n~p{L}~p{N}]?~p{L}+|~''
      @ regex_lit ''p{N}{1,3}| ?[^~s~p{L}~p{N}]+[~r~n]*|~s*[~r~n]+|~s+(?!~S)|~s+'']"

definition regex_viking :: "byte list list" where
  "regex_viking =
    [regex_lit '' ?[^(~s|.,!?''
      @ [0xe2, 0x80, 0xa6, 0xe3, 0x80, 0x82, 0xef, 0xbc, 0x8c, 0xe3, 0x80, 0x81, 0xe0, 0xa5, 0xa4, 0xdb]
      @ [0x94, 0xd8, 0x8c]
      @ regex_lit '')]+'',
     regex_lit ''~p{N}'']"

definition regex_tekken :: "byte list list" where
  "regex_tekken =
    [regex_lit ''[^~r~n~p{L}~p{N}]?((?=[~p{L}])([^a-z]))*((?=[~p{L}])([^A-Z]))+|[^~r~n~p{L}~p{N}]?((?''
      @ regex_lit ''=[~p{L}])([^a-z]))+((?=[~p{L}])([^A-Z]))*|~p{N}| ?[^~s~p{L}~p{N}]+[~r~n/]*|~s*[~r~n]''
      @ regex_lit ''+|~s+(?!~S)|~s+'']"

definition regex_default :: "byte list list" where
  "regex_default =
    [regex_lit ''[~p{P}~$~+<=>~^''
      @ [0x7e]
      @ regex_lit ''~|]+'',
     regex_lit ''`s|`t|`re|`ve|`m|`ll|`d| ?~p{L}+| ?~p{N}+| ?[^~s~p{L}~p{N}]+|~s+(?!~S)'',
     regex_lit ''~p{N}+'',
     regex_lit ''[0-9][0-9][0-9]'']"

fun regex_exprs_of :: "llama_vocab_pre_type \<Rightarrow> byte list list" where
  "regex_exprs_of PRE_TYPE_DEFAULT = regex_default"
| "regex_exprs_of PRE_TYPE_LLAMA3 = regex_llama3"
| "regex_exprs_of PRE_TYPE_DEEPSEEK_LLM = regex_deepseek_llm"
| "regex_exprs_of PRE_TYPE_DEEPSEEK_CODER = regex_deepseek_coder"
| "regex_exprs_of PRE_TYPE_FALCON = regex_falcon"
| "regex_exprs_of PRE_TYPE_MPT = regex_gpt2"
| "regex_exprs_of PRE_TYPE_STARCODER = regex_starcoder"
| "regex_exprs_of PRE_TYPE_GPT2 = regex_gpt2"
| "regex_exprs_of PRE_TYPE_REFACT = regex_starcoder"
| "regex_exprs_of PRE_TYPE_COMMAND_R = regex_starcoder"
| "regex_exprs_of PRE_TYPE_STABLELM2 = regex_stablelm2"
| "regex_exprs_of PRE_TYPE_QWEN2 = regex_stablelm2"
| "regex_exprs_of PRE_TYPE_OLMO = regex_gpt2"
| "regex_exprs_of PRE_TYPE_DBRX = regex_dbrx"
| "regex_exprs_of PRE_TYPE_SMAUG = regex_dbrx"
| "regex_exprs_of PRE_TYPE_PORO = regex_poro"
| "regex_exprs_of PRE_TYPE_CHATGLM3 = regex_default"
| "regex_exprs_of PRE_TYPE_CHATGLM4 = regex_chatglm4"
| "regex_exprs_of PRE_TYPE_VIKING = regex_viking"
| "regex_exprs_of PRE_TYPE_JAIS = regex_gpt2"
| "regex_exprs_of PRE_TYPE_TEKKEN = regex_tekken"
| "regex_exprs_of PRE_TYPE_SMOLLM = regex_starcoder"
| "regex_exprs_of PRE_TYPE_CODESHELL = regex_starcoder"

text \<open>
  Which expressions the hand-written matchers recognise: the GPT-2 and Llama-3 types split without a
  regular-expression engine.
\<close>

lemma custom_regexes:
  "regex_exprs_of PRE_TYPE_GPT2 = [GPT2_REGEX]" "regex_exprs_of PRE_TYPE_LLAMA3 = [LLAMA3_ADAPTED_REGEX]"
  by (simp_all add: regex_gpt2_def regex_llama3_def GPT2_REGEX_def LLAMA3_ADAPTED_REGEX_def regex_lit_def)

end
