(* ===== verification/Gguf.thy ===== *)
theory Gguf
  imports Prelude
begin

text \<open>
  The GGUF container of \<open>src/ggml/src/ggml.c\<close>: the data of a \<open>gguf_context\<close> and
  \<open>gguf_init_from_file\<close>, which reads one from a file.

  The file is a list of bytes; opening it and read errors of the operating system are left out. Floats
  are kept as their bit patterns. \<open>mem\<close> says which sizes \<open>calloc\<close> can allocate: \<open>GGML_CALLOC\<close> aborts
  for the others.
\<close>

section \<open>Data\<close>

type_synonym u64 = "64 word"

text \<open>The tags of \<open>enum gguf_type\<close>; a number read from a file need not be one.\<close>

datatype gguf_type =
    GGUF_TYPE_UINT8 | GGUF_TYPE_INT8 | GGUF_TYPE_UINT16 | GGUF_TYPE_INT16 | GGUF_TYPE_UINT32
  | GGUF_TYPE_INT32 | GGUF_TYPE_FLOAT32 | GGUF_TYPE_BOOL | GGUF_TYPE_STRING | GGUF_TYPE_ARRAY
  | GGUF_TYPE_UINT64 | GGUF_TYPE_INT64 | GGUF_TYPE_FLOAT64

definition gguf_types :: "gguf_type list" where
  "gguf_types = [GGUF_TYPE_UINT8, GGUF_TYPE_INT8, GGUF_TYPE_UINT16, GGUF_TYPE_INT16, GGUF_TYPE_UINT32,
     GGUF_TYPE_INT32, GGUF_TYPE_FLOAT32, GGUF_TYPE_BOOL, GGUF_TYPE_STRING, GGUF_TYPE_ARRAY,
     GGUF_TYPE_UINT64, GGUF_TYPE_INT64, GGUF_TYPE_FLOAT64]"

definition gguf_type_of :: "nat \<Rightarrow> gguf_type option" where
  "gguf_type_of n = (if n < length gguf_types then Some (gguf_types ! n) else None)"

fun gguf_type_num :: "gguf_type \<Rightarrow> nat" where
  "gguf_type_num GGUF_TYPE_UINT8 = 0"
| "gguf_type_num GGUF_TYPE_INT8 = 1"
| "gguf_type_num GGUF_TYPE_UINT16 = 2"
| "gguf_type_num GGUF_TYPE_INT16 = 3"
| "gguf_type_num GGUF_TYPE_UINT32 = 4"
| "gguf_type_num GGUF_TYPE_INT32 = 5"
| "gguf_type_num GGUF_TYPE_FLOAT32 = 6"
| "gguf_type_num GGUF_TYPE_BOOL = 7"
| "gguf_type_num GGUF_TYPE_STRING = 8"
| "gguf_type_num GGUF_TYPE_ARRAY = 9"
| "gguf_type_num GGUF_TYPE_UINT64 = 10"
| "gguf_type_num GGUF_TYPE_INT64 = 11"
| "gguf_type_num GGUF_TYPE_FLOAT64 = 12"

fun gguf_type_size :: "gguf_type \<Rightarrow> nat" where
  "gguf_type_size GGUF_TYPE_UINT8 = 1"
| "gguf_type_size GGUF_TYPE_INT8 = 1"
| "gguf_type_size GGUF_TYPE_UINT16 = 2"
| "gguf_type_size GGUF_TYPE_INT16 = 2"
| "gguf_type_size GGUF_TYPE_UINT32 = 4"
| "gguf_type_size GGUF_TYPE_INT32 = 4"
| "gguf_type_size GGUF_TYPE_FLOAT32 = 4"
| "gguf_type_size GGUF_TYPE_BOOL = 1"
| "gguf_type_size GGUF_TYPE_STRING = 16"
| "gguf_type_size GGUF_TYPE_ARRAY = 0"
| "gguf_type_size GGUF_TYPE_UINT64 = 8"
| "gguf_type_size GGUF_TYPE_INT64 = 8"
| "gguf_type_size GGUF_TYPE_FLOAT64 = 8"

text \<open>
  The tagged union \<open>gguf_value\<close>. An array has the type of its elements and their data: the bytes of
  all elements, or the strings.
\<close>

datatype gguf_value =
    VUint8 byte
  | VInt8 byte
  | VUint16 "16 word"
  | VInt16 "16 word"
  | VUint32 u32
  | VInt32 u32
  | VFloat32 u32
  | VBool byte
  | VString "byte list"
  | VArray gguf_type nat "byte list"
  | VStrings "byte list list"
  | VUint64 u64
  | VInt64 u64
  | VFloat64 u64

fun value_type :: "gguf_value \<Rightarrow> gguf_type" where
  "value_type (VUint8 _) = GGUF_TYPE_UINT8"
| "value_type (VInt8 _) = GGUF_TYPE_INT8"
| "value_type (VUint16 _) = GGUF_TYPE_UINT16"
| "value_type (VInt16 _) = GGUF_TYPE_INT16"
| "value_type (VUint32 _) = GGUF_TYPE_UINT32"
| "value_type (VInt32 _) = GGUF_TYPE_INT32"
| "value_type (VFloat32 _) = GGUF_TYPE_FLOAT32"
| "value_type (VBool _) = GGUF_TYPE_BOOL"
| "value_type (VString _) = GGUF_TYPE_STRING"
| "value_type (VArray _ _ _) = GGUF_TYPE_ARRAY"
| "value_type (VStrings _) = GGUF_TYPE_ARRAY"
| "value_type (VUint64 _) = GGUF_TYPE_UINT64"
| "value_type (VInt64 _) = GGUF_TYPE_INT64"
| "value_type (VFloat64 _) = GGUF_TYPE_FLOAT64"

type_synonym gguf_kv = "byte list \<times> gguf_value"

text \<open>\<open>ggml_type\<close> is the number in the file; \<open>ti_data\<close> and \<open>ti_size\<close> are for the writing API.\<close>

record gguf_tensor_info =
  ti_name :: "byte list"
  ti_n_dims :: nat
  ti_ne :: "u64 list"
  ti_type :: nat
  ti_offset :: u64
  ti_data :: "byte list"
  ti_size :: nat

record gguf_context =
  gc_magic :: "byte list"
  gc_version :: nat
  gc_kv :: "gguf_kv list"
  gc_infos :: "gguf_tensor_info list"
  gc_alignment :: nat
  gc_offset :: nat
  gc_size :: u64

definition GGUF_MAGIC :: "byte list" where "GGUF_MAGIC = bytes ''GGUF''"
definition GGUF_VERSION :: nat where "GGUF_VERSION = 3"
definition GGUF_DEFAULT_ALIGNMENT :: nat where "GGUF_DEFAULT_ALIGNMENT = 32"

definition gguf_init_empty :: gguf_context where
  "gguf_init_empty = \<lparr>gc_magic = GGUF_MAGIC, gc_version = GGUF_VERSION, gc_kv = [], gc_infos = [],
     gc_alignment = GGUF_DEFAULT_ALIGNMENT, gc_offset = 0, gc_size = 0\<rparr>"

section \<open>The types of tensors\<close>

text \<open>\<open>blck_size\<close> and \<open>type_size\<close> of the table \<open>type_traits\<close>, by type number; 4 and 5 are removed types.\<close>

definition type_traits :: "(nat \<times> nat) list" where
  "type_traits = [(1, 4), (1, 2), (32, 18), (32, 20), (0, 0), (0, 0), (32, 22), (32, 24), (32, 34),
     (32, 36), (256, 84), (256, 110), (256, 144), (256, 176), (256, 210), (256, 292), (256, 66),
     (256, 74), (256, 98), (256, 50), (32, 18), (256, 110), (256, 82), (256, 136), (1, 1), (1, 2),
     (1, 4), (1, 8), (1, 8), (256, 56), (1, 2), (32, 18), (32, 18), (32, 18)]"

definition GGML_TYPE_COUNT :: nat where "GGML_TYPE_COUNT = 34"

definition ggml_blck_size :: "nat \<Rightarrow> nat" where "ggml_blck_size t = fst (type_traits ! t)"

definition ggml_type_size :: "nat \<Rightarrow> nat" where "ggml_type_size t = snd (type_traits ! t)"

text \<open>Sizes are \<open>size_t\<close> and wrap around.\<close>

definition ggml_row_size :: "nat \<Rightarrow> u64 \<Rightarrow> u64" where
  "ggml_row_size t ne = (of_nat (ggml_type_size t) * ne) div of_nat (ggml_blck_size t)"

definition GGML_PAD :: "u64 \<Rightarrow> u64 \<Rightarrow> u64" where
  "GGML_PAD x n = (x + n - 1) AND NOT (n - 1)"

section \<open>Reading\<close>

text \<open>What is left of the file, \<open>offset\<close>, and \<open>ok\<close>.\<close>

record rd =
  rd_rest :: "byte list"
  rd_offset :: nat
  rd_ok :: bool

fun le_nat :: "byte list \<Rightarrow> nat" where
  "le_nat [] = 0"
| "le_nat (b # bs) = unat b + 256 * le_nat bs"

fun le_bytes :: "nat \<Rightarrow> nat \<Rightarrow> byte list" where
  "le_bytes 0 v = []"
| "le_bytes (Suc k) v = of_nat (v mod 256) # le_bytes k (v div 256)"

text \<open>
  A read at the end of the file fills only the first bytes of the destination, whose former content
  is \<open>dst\<close>. \<open>fread_field\<close> is \<open>ok = ok && gguf_fread_el(...)\<close>.
\<close>

definition gguf_fread_el :: "nat \<Rightarrow> byte list \<Rightarrow> rd \<Rightarrow> byte list \<times> rd" where
  "gguf_fread_el n dst st =
    (let bs = take n (rd_rest st) in
     (bs @ drop (length bs) dst,
      st\<lparr>rd_rest := drop n (rd_rest st), rd_offset := rd_offset st + length bs, rd_ok := (length bs = n)\<rparr>))"

definition fread_field :: "nat \<Rightarrow> byte list \<Rightarrow> rd \<Rightarrow> byte list \<times> rd" where
  "fread_field n dst st = (if rd_ok st then gguf_fread_el n dst st else (dst, st))"

definition fread_num :: "nat \<Rightarrow> nat \<Rightarrow> rd \<Rightarrow> nat \<times> rd" where
  "fread_num n old st = (let (bs, st1) = fread_field n (le_bytes n old) st in (le_nat bs, st1))"

definition SIZE_MAX :: nat where "SIZE_MAX = 2 ^ 64 - 1"

definition ggml_calloc_ok :: "(nat \<Rightarrow> bool) \<Rightarrow> nat \<Rightarrow> nat \<Rightarrow> bool" where
  "ggml_calloc_ok mem num sz \<longleftrightarrow> num = 0 \<or> sz = 0 \<or> mem (num * sz)"

definition gguf_fread_str :: "(nat \<Rightarrow> bool) \<Rightarrow> rd \<Rightarrow> (byte list \<times> rd) res" where
  "gguf_fread_str mem st =
    (let (n, st1) = fread_num 8 0 st in
     if n = SIZE_MAX then Inr ([], st1\<lparr>rd_ok := False\<rparr>)
     else if \<not> ggml_calloc_ok mem (n + 1) 1 then Inl (Abort ''fatal error'')
     else Inr (fread_field n (replicate n 0) st1))"

definition fread_str :: "(nat \<Rightarrow> bool) \<Rightarrow> rd \<Rightarrow> (byte list \<times> rd) res" where
  "fread_str mem st = (if rd_ok st then gguf_fread_str mem st else Inr ([], st))"

text \<open>A loop of reads, over the strings of an array or over the pairs. It ends at the first failed one.\<close>

fun read_many :: "(rd \<Rightarrow> ('a \<times> rd) res) \<Rightarrow> nat \<Rightarrow> rd \<Rightarrow> ('a list \<times> rd) res" where
  "read_many get 0 st = Inr ([], st)"
| "read_many get (Suc n) st =
    bindE (get st) (\<lambda>(x, st1).
      if \<not> rd_ok st1 then Inr ([], st1)
      else bindE (read_many get n st1) (\<lambda>(xs, st2). Inr (x # xs, st2)))"

subsection \<open>Key-value pairs\<close>

text \<open>An array that is too large ends the function as any failed read does: with NULL.\<close>

definition read_elements :: "(nat \<Rightarrow> bool) \<Rightarrow> nat \<Rightarrow> nat \<Rightarrow> rd \<Rightarrow> (gguf_value \<times> rd) res" where
  "read_elements mem t n st =
    (case gguf_type_of t of
       None \<Rightarrow> Inl (Abort ''invalid type'')
     | Some GGUF_TYPE_ARRAY \<Rightarrow> Inl (Abort ''invalid type'')
     | Some GGUF_TYPE_STRING \<Rightarrow>
         if n \<ge> SIZE_MAX div 16 then Inr (VStrings [], st\<lparr>rd_ok := False\<rparr>)
         else if \<not> ggml_calloc_ok mem n 16 then Inl (Abort ''fatal error'')
         else bindE (read_many (fread_str mem) n st) (\<lambda>(ss, st1). Inr (VStrings ss, st1))
     | Some et \<Rightarrow>
         if n \<ge> SIZE_MAX div gguf_type_size et then Inr (VArray et 0 [], st\<lparr>rd_ok := False\<rparr>)
         else if \<not> ggml_calloc_ok mem n (gguf_type_size et) then Inl (Abort ''fatal error'')
         else
           (let sz = n * gguf_type_size et; (bs, st1) = fread_field sz (replicate sz 0) st
            in Inr (VArray et n bs, st1)))"

definition read_array :: "(nat \<Rightarrow> bool) \<Rightarrow> rd \<Rightarrow> (gguf_value \<times> rd) res" where
  "read_array mem st =
    (let (t, st1) = fread_num 4 0 st; (n, st2) = fread_num 8 0 st1 in read_elements mem t n st2)"

definition read_scalar :: "gguf_type \<Rightarrow> nat \<Rightarrow> gguf_value" where
  "read_scalar t v =
    (case t of
       GGUF_TYPE_UINT8 \<Rightarrow> VUint8 (of_nat v)
     | GGUF_TYPE_INT8 \<Rightarrow> VInt8 (of_nat v)
     | GGUF_TYPE_UINT16 \<Rightarrow> VUint16 (of_nat v)
     | GGUF_TYPE_INT16 \<Rightarrow> VInt16 (of_nat v)
     | GGUF_TYPE_UINT32 \<Rightarrow> VUint32 (of_nat v)
     | GGUF_TYPE_INT32 \<Rightarrow> VInt32 (of_nat v)
     | GGUF_TYPE_FLOAT32 \<Rightarrow> VFloat32 (of_nat v)
     | GGUF_TYPE_BOOL \<Rightarrow> VBool (of_nat v)
     | GGUF_TYPE_UINT64 \<Rightarrow> VUint64 (of_nat v)
     | GGUF_TYPE_INT64 \<Rightarrow> VInt64 (of_nat v)
     | _ \<Rightarrow> VFloat64 (of_nat v))"

definition read_value :: "(nat \<Rightarrow> bool) \<Rightarrow> nat \<Rightarrow> rd \<Rightarrow> (gguf_value \<times> rd) res" where
  "read_value mem t st =
    (case gguf_type_of t of
       None \<Rightarrow> Inl (Abort ''invalid type'')
     | Some GGUF_TYPE_STRING \<Rightarrow> bindE (fread_str mem st) (\<lambda>(s, st1). Inr (VString s, st1))
     | Some GGUF_TYPE_ARRAY \<Rightarrow> read_array mem st
     | Some vt \<Rightarrow> (let (v, st1) = fread_num (gguf_type_size vt) 0 st in Inr (read_scalar vt v, st1)))"

definition read_kv :: "(nat \<Rightarrow> bool) \<Rightarrow> rd \<Rightarrow> (gguf_kv \<times> rd) res" where
  "read_kv mem st =
    bindE (fread_str mem st) (\<lambda>(key, st1).
    (let (t, st2) = fread_num 4 0 st1 in
     bindE (read_value mem t st2) (\<lambda>(v, st3). Inr ((key, v), st3))))"

subsection \<open>Tensors\<close>

definition GGML_MAX_DIMS :: nat where "GGML_MAX_DIMS = 4"

definition INT64_MAX :: u64 where "INT64_MAX = 2 ^ 63 - 1"

text \<open>The quotients are unsigned; so are the products, which the earlier checks keep from wrapping.\<close>

definition int64_max_div :: "u64 \<Rightarrow> u64 res" where
  "int64_max_div x =
    (if x = 0 then Inl (UndefinedBehaviour ''division by zero'') else Inr (INT64_MAX div x))"

definition gguf_tensor_info_sanitize :: "gguf_tensor_info \<Rightarrow> unit res" where
  "gguf_tensor_info_sanitize info =
    (if ti_n_dims info > GGML_MAX_DIMS then Inl (Abort ''info->n_dims <= GGML_MAX_DIMS'')
     else if ti_type info \<ge> GGML_TYPE_COUNT then Inl (Abort ''info->type < GGML_TYPE_COUNT'')
     else if \<exists>i \<in> set [0..<ti_n_dims info]. ti_ne info ! i = 0 then Inl (Abort ''info->ne[i] > 0'')
     else bindE (int64_max_div (ti_ne info ! 1)) (\<lambda>q1.
       if \<not> q1 > ti_ne info ! 0 then Inl (Abort ''INT64_MAX/info->ne[1]'')
       else bindE (int64_max_div (ti_ne info ! 2)) (\<lambda>q2.
         if \<not> q2 > ti_ne info ! 0 * ti_ne info ! 1 then Inl (Abort ''INT64_MAX/info->ne[2]'')
         else bindE (int64_max_div (ti_ne info ! 3)) (\<lambda>q3.
           if \<not> q3 > ti_ne info ! 0 * ti_ne info ! 1 * ti_ne info ! 2
           then Inl (Abort ''INT64_MAX/info->ne[3]'') else Inr ()))))"

text \<open>
  The loop over the dimensions. With more than four of them \<open>ok\<close> is false and its rounds do nothing,
  so that the array is not left.
\<close>

fun read_dims :: "nat \<Rightarrow> u64 list \<Rightarrow> rd \<Rightarrow> u64 list \<times> rd" where
  "read_dims 0 ne st = (ne, st)"
| "read_dims (Suc n) [] st = ([], st)"
| "read_dims (Suc n) (x # xs) st =
    (let (v, st1) = fread_num 8 (unat x) st; (ys, st2) = read_dims n xs st1
     in (of_nat v # ys, st2))"

text \<open>\<open>strcmp\<close> sees a string up to its first NUL.\<close>

definition c_str :: "byte list \<Rightarrow> byte list" where "c_str s = takeWhile (\<lambda>b. b \<noteq> 0) s"

definition read_info :: "(nat \<Rightarrow> bool) \<Rightarrow> gguf_tensor_info list \<Rightarrow> rd \<Rightarrow> (gguf_tensor_info \<times> rd) res" where
  "read_info mem infos st =
    bindE (fread_str mem st) (\<lambda>(name, st1).
    (let (n_dims, st2) = fread_num 4 0 st1;
         st3 = st2\<lparr>rd_ok := rd_ok st2 \<and> n_dims \<le> GGML_MAX_DIMS\<rparr>;
         (ne, st4) = read_dims n_dims (replicate GGML_MAX_DIMS 1) st3;
         (t, st5) = fread_num 4 0 st4;
         (offset, st6) = fread_num 8 0 st5;
         info = \<lparr>ti_name = name, ti_n_dims = n_dims, ti_ne = ne, ti_type = t, ti_offset = of_nat offset,
                 ti_data = [], ti_size = 0\<rparr>
     in bindE (gguf_tensor_info_sanitize info) (\<lambda>_.
          Inr (info, st6\<lparr>rd_ok := rd_ok st6 \<and> (\<forall>i \<in> set infos. c_str (ti_name i) \<noteq> c_str name)\<rparr>))))"

fun read_infos ::
  "(nat \<Rightarrow> bool) \<Rightarrow> nat \<Rightarrow> gguf_tensor_info list \<Rightarrow> rd \<Rightarrow> (gguf_tensor_info list \<times> rd) res" where
  "read_infos mem 0 infos st = Inr (infos, st)"
| "read_infos mem (Suc n) infos st =
    bindE (read_info mem infos st) (\<lambda>(info, st1).
      if \<not> rd_ok st1 then Inr (infos, st1) else read_infos mem n (infos @ [info]) st1)"

subsection \<open>Looking up keys\<close>

definition gguf_get_n_kv :: "gguf_context \<Rightarrow> int" where
  "gguf_get_n_kv ctx = int (length (gc_kv ctx))"

fun find_from :: "('a \<Rightarrow> bool) \<Rightarrow> int \<Rightarrow> 'a list \<Rightarrow> int" where
  "find_from P i [] = -1"
| "find_from P i (x # xs) = (if P x then i else find_from P (i + 1) xs)"

definition gguf_find_key :: "gguf_context \<Rightarrow> byte list \<Rightarrow> int" where
  "gguf_find_key ctx key = find_from (\<lambda>kv. c_str (fst kv) = c_str key) 0 (gc_kv ctx)"

definition kv_at :: "gguf_context \<Rightarrow> int \<Rightarrow> gguf_kv res" where
  "kv_at ctx key_id =
    (if 0 \<le> key_id \<and> key_id < gguf_get_n_kv ctx then Inr (gc_kv ctx ! nat key_id)
     else Inl (Abort ''key_id >= 0 && key_id < gguf_get_n_kv(ctx)''))"

definition gguf_get_val_u32 :: "gguf_context \<Rightarrow> int \<Rightarrow> u32 res" where
  "gguf_get_val_u32 ctx key_id =
    bindE (kv_at ctx key_id) (\<lambda>(_, v). case v of
      VUint32 x \<Rightarrow> Inr x | _ \<Rightarrow> Inl (Abort ''type == GGUF_TYPE_UINT32''))"

subsection \<open>The file\<close>

text \<open>
  The size of the data section. The number of elements is a product of \<open>int64_t\<close>, where an overflow
  is undefined behaviour. \<open>None\<close> is the early return.
\<close>

definition n_elements :: "gguf_tensor_info \<Rightarrow> u64 res" where
  "n_elements info =
    (if unat (ti_ne info ! 0) * unat (ti_ne info ! 1) * unat (ti_ne info ! 2) * unat (ti_ne info ! 3) < 2 ^ 63
     then Inr (ti_ne info ! 0 * ti_ne info ! 1 * ti_ne info ! 2 * ti_ne info ! 3)
     else Inl (UndefinedBehaviour ''int64_t overflow''))"

fun data_size :: "u64 \<Rightarrow> gguf_tensor_info list \<Rightarrow> u64 \<Rightarrow> u64 option res" where
  "data_size al [] acc = Inr (Some acc)"
| "data_size al (info # infos) acc =
    bindE (n_elements info) (\<lambda>ne.
      if ggml_blck_size (ti_type info) = 0 \<or> unat ne mod ggml_blck_size (ti_type info) \<noteq> 0 then Inr None
      else data_size al infos (acc + GGML_PAD (ggml_row_size (ti_type info) ne) al))"

definition GGML_TENSOR_OVERHEAD :: nat where "GGML_TENSOR_OVERHEAD = 32 + 336"

definition header_ok :: "nat \<Rightarrow> nat \<Rightarrow> bool" where
  "header_ok n_tensors n_kv \<longleftrightarrow>
    n_tensors < (SIZE_MAX div 2) div 88 \<and> n_tensors < (SIZE_MAX div 2) div GGML_TENSOR_OVERHEAD
    \<and> n_kv < (SIZE_MAX div 2) div 48"

definition read_alignment :: "gguf_context \<Rightarrow> nat res" where
  "read_alignment ctx =
    (let idx = gguf_find_key ctx (bytes ''general.alignment'') in
     if idx \<noteq> -1 then bindE (gguf_get_val_u32 ctx idx) (\<lambda>a. Inr (unat a))
     else Inr GGUF_DEFAULT_ALIGNMENT)"

definition pad_offset :: "nat \<Rightarrow> nat \<Rightarrow> nat res" where
  "pad_offset offset al =
    (if al = 0 then Inl (UndefinedBehaviour ''division by zero'')
     else Inr (if offset mod al \<noteq> 0 then offset + (al - offset mod al) else offset))"

text \<open>\<open>None\<close> stands for NULL.\<close>

definition gguf_data_section :: "gguf_context \<Rightarrow> nat \<Rightarrow> gguf_context option res" where
  "gguf_data_section ctx offset =
    bindE (read_alignment ctx) (\<lambda>al.
    bindE (pad_offset offset al) (\<lambda>off.
    bindE (data_size (of_nat al) (gc_infos ctx) 0) (\<lambda>sz. case sz of
      None \<Rightarrow> Inr None
    | Some n \<Rightarrow> Inr (Some (ctx\<lparr>gc_alignment := al, gc_offset := off, gc_size := n\<rparr>)))))"

definition gguf_read_sections ::
  "(nat \<Rightarrow> bool) \<Rightarrow> nat \<Rightarrow> nat \<Rightarrow> nat \<Rightarrow> rd \<Rightarrow> gguf_context option res" where
  "gguf_read_sections mem version n_tensors n_kv st =
    (if \<not> ggml_calloc_ok mem n_kv 48 then Inl (Abort ''fatal error'')
     else bindE (read_many (read_kv mem) n_kv st) (\<lambda>(kvs, st1).
       if \<not> rd_ok st1 then Inr None
       else if \<not> ggml_calloc_ok mem n_tensors 88 then Inl (Abort ''fatal error'')
       else bindE (read_infos mem n_tensors [] st1) (\<lambda>(infos, st2).
         if \<not> rd_ok st2 then Inr None
         else gguf_data_section
           \<lparr>gc_magic = GGUF_MAGIC, gc_version = version, gc_kv = kvs, gc_infos = infos,
            gc_alignment = GGUF_DEFAULT_ALIGNMENT, gc_offset = 0, gc_size = 0\<rparr> (rd_offset st2))))"

text \<open>
  With fewer than four bytes the magic is compared with indeterminate bytes; the reads behind it fail
  in any case.
\<close>

definition gguf_init_from_file :: "(nat \<Rightarrow> bool) \<Rightarrow> byte list \<Rightarrow> gguf_context option res" where
  "gguf_init_from_file mem file =
    (let (magic, st0) = gguf_fread_el 4 [] \<lparr>rd_rest = file, rd_offset = 0, rd_ok = True\<rparr> in
     if magic \<noteq> GGUF_MAGIC then Inr None
     else
       (let (version, st1) = fread_num 4 0 (st0\<lparr>rd_ok := True\<rparr>);
            (n_tensors, st2) = fread_num 8 0 st1;
            (n_kv, st3) = fread_num 8 0 st2
        in if version = 1 \<or> \<not> (rd_ok st3 \<and> header_ok n_tensors n_kv) then Inr None
           else gguf_read_sections mem version n_tensors n_kv st3))"

end
