(* ===== verification/GgufWrite.thy ===== *)
theory GgufWrite
  imports Gguf
begin

text \<open>
  Writing a \<open>gguf_context\<close>: \<open>gguf_write_to_buf\<close> of \<open>src/ggml/src/ggml.c\<close> with its growing buffer, and
  the bytes it writes as a function of the context.
\<close>

section \<open>The buffer\<close>

text \<open>A buffer of size 0 has no memory: only its offset counts. New memory is indeterminate, here zero.\<close>

record gguf_buf =
  gb_data :: "byte list option"
  gb_size :: nat
  gb_offset :: nat

definition gguf_buf_init :: "nat \<Rightarrow> gguf_buf" where
  "gguf_buf_init sz =
    \<lparr>gb_data = (if sz = 0 then None else Some (replicate sz 0)), gb_size = sz, gb_offset = 0\<rparr>"

definition gguf_buf_grow :: "nat \<Rightarrow> gguf_buf \<Rightarrow> gguf_buf" where
  "gguf_buf_grow n buf =
    (if gb_offset buf + n > gb_size buf then
       (let sz = 3 * (gb_offset buf + n) div 2 in
        buf\<lparr>gb_size := sz,
            gb_data := map_option (\<lambda>d. take sz d @ replicate (sz - length d) 0) (gb_data buf)\<rparr>)
     else buf)"

text \<open>\<open>memcpy\<close> to the offset, which moves on.\<close>

definition buf_put :: "byte list \<Rightarrow> gguf_buf \<Rightarrow> gguf_buf res" where
  "buf_put bs buf =
    (case gb_data buf of
       None \<Rightarrow> Inr (buf\<lparr>gb_offset := gb_offset buf + length bs\<rparr>)
     | Some d \<Rightarrow>
         if gb_offset buf + length bs \<le> length d then
           Inr (buf\<lparr>gb_data := Some (take (gb_offset buf) d @ bs @ drop (gb_offset buf + length bs) d),
                    gb_offset := gb_offset buf + length bs\<rparr>)
         else Inl (UndefinedBehaviour ''memcpy''))"

definition gguf_bwrite_el :: "byte list \<Rightarrow> gguf_buf \<Rightarrow> gguf_buf res" where
  "gguf_bwrite_el bs buf = buf_put bs (gguf_buf_grow (length bs) buf)"

definition gguf_bwrite_str :: "byte list \<Rightarrow> gguf_buf \<Rightarrow> gguf_buf res" where
  "gguf_bwrite_str s buf =
    bindE (buf_put (le_bytes 8 (length s)) (gguf_buf_grow (8 + length s) buf)) (buf_put s)"

text \<open>An element of which \<open>n\<close> bytes are written from memory that holds \<open>data\<close>.\<close>

definition bwrite_from :: "byte list \<Rightarrow> nat \<Rightarrow> gguf_buf \<Rightarrow> gguf_buf res" where
  "bwrite_from data n buf =
    (if n \<le> length data then gguf_bwrite_el (take n data) buf
     else Inl (UndefinedBehaviour ''memcpy''))"

definition bwrite_zeros :: "nat \<Rightarrow> gguf_buf \<Rightarrow> gguf_buf res" where
  "bwrite_zeros n buf = foldE (\<lambda>_. gguf_bwrite_el [0]) [0..<n] buf"

section \<open>Writing\<close>

fun scalar_bits :: "gguf_value \<Rightarrow> nat" where
  "scalar_bits (VUint8 x) = unat x"
| "scalar_bits (VInt8 x) = unat x"
| "scalar_bits (VUint16 x) = unat x"
| "scalar_bits (VInt16 x) = unat x"
| "scalar_bits (VUint32 x) = unat x"
| "scalar_bits (VInt32 x) = unat x"
| "scalar_bits (VFloat32 x) = unat x"
| "scalar_bits (VBool x) = unat x"
| "scalar_bits (VUint64 x) = unat x"
| "scalar_bits (VInt64 x) = unat x"
| "scalar_bits (VFloat64 x) = unat x"
| "scalar_bits _ = 0"

definition write_value :: "gguf_value \<Rightarrow> gguf_buf \<Rightarrow> gguf_buf res" where
  "write_value v buf =
    (case v of
       VString s \<Rightarrow> gguf_bwrite_str s buf
     | VArray et n data \<Rightarrow>
         bindE (gguf_bwrite_el (le_bytes 4 (gguf_type_num et)) buf) (\<lambda>buf1.
         bindE (gguf_bwrite_el (le_bytes 8 n) buf1) (\<lambda>buf2.
           if et \<in> {GGUF_TYPE_ARRAY, GGUF_TYPE_STRING} then Inl (Abort ''invalid type'')
           else bwrite_from data (n * gguf_type_size et) buf2))
     | VStrings ss \<Rightarrow>
         bindE (gguf_bwrite_el (le_bytes 4 (gguf_type_num GGUF_TYPE_STRING)) buf) (\<lambda>buf1.
         bindE (gguf_bwrite_el (le_bytes 8 (length ss)) buf1) (\<lambda>buf2. foldE gguf_bwrite_str ss buf2))
     | _ \<Rightarrow> gguf_bwrite_el (le_bytes (gguf_type_size (value_type v)) (scalar_bits v)) buf)"

definition write_kv :: "gguf_kv \<Rightarrow> gguf_buf \<Rightarrow> gguf_buf res" where
  "write_kv kv buf =
    bindE (gguf_bwrite_str (fst kv) buf) (\<lambda>buf1.
    bindE (gguf_bwrite_el (le_bytes 4 (gguf_type_num (value_type (snd kv)))) buf1) (write_value (snd kv)))"

definition write_info :: "gguf_tensor_info \<Rightarrow> gguf_buf \<Rightarrow> gguf_buf res" where
  "write_info info buf =
    bindE (gguf_bwrite_str (ti_name info) buf) (\<lambda>buf1.
    bindE (gguf_bwrite_el (le_bytes 4 (ti_n_dims info)) buf1) (\<lambda>buf2.
      if ti_n_dims info > length (ti_ne info) then Inl (UndefinedBehaviour ''info->ne[j]'')
      else bindE (foldE (\<lambda>x. gguf_bwrite_el (le_bytes 8 (unat x))) (take (ti_n_dims info) (ti_ne info)) buf2)
        (\<lambda>buf3.
      bindE (gguf_bwrite_el (le_bytes 4 (ti_type info)) buf3)
        (gguf_bwrite_el (le_bytes 8 (unat (ti_offset info)))))))"

definition padding :: "nat \<Rightarrow> nat \<Rightarrow> nat" where
  "padding al n = unat (GGML_PAD (of_nat n) (of_nat al) - of_nat n)"

text \<open>The loop over the tensor data carries \<open>offset\<close>.\<close>

definition write_data :: "nat \<Rightarrow> gguf_tensor_info \<Rightarrow> gguf_buf \<times> u64 \<Rightarrow> (gguf_buf \<times> u64) res" where
  "write_data al info = (\<lambda>(buf, offset).
    bindE (bwrite_from (ti_data info) (ti_size info) buf) (\<lambda>buf1.
    bindE (bwrite_zeros (padding al (ti_size info)) buf1) (\<lambda>buf2.
      if offset \<noteq> ti_offset info then Inl (Abort ''offset == info->offset'')
      else Inr (buf2, offset + GGML_PAD (of_nat (ti_size info)) (of_nat al)))))"

definition gguf_write_to_buf :: "gguf_context \<Rightarrow> bool \<Rightarrow> gguf_buf \<Rightarrow> gguf_buf res" where
  "gguf_write_to_buf ctx only_meta buf =
    bindE (gguf_bwrite_el (gc_magic ctx) buf) (\<lambda>buf1.
    bindE (gguf_bwrite_el (le_bytes 4 (gc_version ctx)) buf1) (\<lambda>buf2.
    bindE (gguf_bwrite_el (le_bytes 8 (length (gc_infos ctx))) buf2) (\<lambda>buf3.
    bindE (gguf_bwrite_el (le_bytes 8 (length (gc_kv ctx))) buf3) (\<lambda>buf4.
    bindE (foldE write_kv (gc_kv ctx) buf4) (\<lambda>buf5.
    bindE (foldE write_info (gc_infos ctx) buf5) (\<lambda>buf6.
    bindE (bwrite_zeros (padding (gc_alignment ctx) (gb_offset buf6)) buf6) (\<lambda>buf7.
      if only_meta then Inr buf7
      else bindE (foldE (write_data (gc_alignment ctx)) (gc_infos ctx) (buf7, 0))
        (\<lambda>(buf8, _). Inr buf8))))))))"

text \<open>What is written to the file, or to the memory of the caller.\<close>

definition buf_written :: "gguf_buf \<Rightarrow> byte list" where
  "buf_written buf = (case gb_data buf of None \<Rightarrow> [] | Some d \<Rightarrow> take (gb_offset buf) d)"

definition gguf_write_to_file :: "gguf_context \<Rightarrow> bool \<Rightarrow> byte list res" where
  "gguf_write_to_file ctx only_meta =
    bindE (gguf_write_to_buf ctx only_meta (gguf_buf_init (16 * 1024))) (\<lambda>buf. Inr (buf_written buf))"

definition gguf_get_meta_size :: "gguf_context \<Rightarrow> nat res" where
  "gguf_get_meta_size ctx = bindE (gguf_write_to_buf ctx True (gguf_buf_init 0)) (\<lambda>buf. Inr (gb_offset buf))"

definition gguf_get_meta_data :: "gguf_context \<Rightarrow> byte list res" where
  "gguf_get_meta_data ctx =
    bindE (gguf_write_to_buf ctx True (gguf_buf_init (16 * 1024))) (\<lambda>buf. Inr (buf_written buf))"

section \<open>The bytes of a context\<close>

definition str_image :: "byte list \<Rightarrow> byte list" where
  "str_image s = le_bytes 8 (length s) @ s"

definition value_image :: "gguf_value \<Rightarrow> byte list" where
  "value_image v =
    (case v of
       VString s \<Rightarrow> str_image s
     | VArray et n data \<Rightarrow> le_bytes 4 (gguf_type_num et) @ le_bytes 8 n @ data
     | VStrings ss \<Rightarrow> le_bytes 4 (gguf_type_num GGUF_TYPE_STRING) @ le_bytes 8 (length ss) @ concat (map str_image ss)
     | _ \<Rightarrow> le_bytes (gguf_type_size (value_type v)) (scalar_bits v))"

definition kv_image :: "gguf_kv \<Rightarrow> byte list" where
  "kv_image kv = str_image (fst kv) @ le_bytes 4 (gguf_type_num (value_type (snd kv))) @ value_image (snd kv)"

definition info_image :: "gguf_tensor_info \<Rightarrow> byte list" where
  "info_image info = str_image (ti_name info) @ le_bytes 4 (ti_n_dims info)
     @ concat (map (\<lambda>x. le_bytes 8 (unat x)) (take (ti_n_dims info) (ti_ne info)))
     @ le_bytes 4 (ti_type info) @ le_bytes 8 (unat (ti_offset info))"

definition header_image :: "gguf_context \<Rightarrow> byte list" where
  "header_image ctx = gc_magic ctx @ le_bytes 4 (gc_version ctx) @ le_bytes 8 (length (gc_infos ctx))
     @ le_bytes 8 (length (gc_kv ctx)) @ concat (map kv_image (gc_kv ctx)) @ concat (map info_image (gc_infos ctx))"

definition padded :: "nat \<Rightarrow> byte list \<Rightarrow> byte list" where
  "padded al bs = bs @ replicate (padding al (length bs)) 0"

definition meta_image :: "gguf_context \<Rightarrow> byte list" where
  "meta_image ctx = padded (gc_alignment ctx) (header_image ctx)"

definition data_image :: "gguf_context \<Rightarrow> byte list" where
  "data_image ctx = concat (map (\<lambda>info. padded (gc_alignment ctx) (ti_data info)) (gc_infos ctx))"

end
