(* ===== verification/GgufWriteProps.thy ===== *)
theory GgufWriteProps
  imports GgufWrite
begin

text \<open>
  What the writer appends: the growing buffer never overruns, and its content is the image of the
  context. The size computed without memory is the length of the metadata.
\<close>

section \<open>Buffers with content\<close>

definition buf_holds :: "gguf_buf \<Rightarrow> byte list \<Rightarrow> bool" where
  "buf_holds buf bs \<longleftrightarrow> gb_offset buf = length bs \<and> length bs \<le> gb_size buf
     \<and> (\<forall>d. gb_data buf = Some d \<longrightarrow> length d = gb_size buf \<and> take (length bs) d = bs)"

definition writes :: "(gguf_buf \<Rightarrow> gguf_buf res) \<Rightarrow> byte list \<Rightarrow> bool" where
  "writes w out \<longleftrightarrow> (\<forall>buf bs. buf_holds buf bs \<longrightarrow>
     (\<exists>buf'. w buf = Inr buf' \<and> buf_holds buf' (bs @ out) \<and> (gb_data buf' = None \<longleftrightarrow> gb_data buf = None)))"

lemma writesD:
  assumes "writes w out" "buf_holds buf bs"
  obtains buf' where "w buf = Inr buf'" "buf_holds buf' (bs @ out)" "gb_data buf' = None \<longleftrightarrow> gb_data buf = None"
  using assms(1) [unfolded writes_def, rule_format, OF assms(2)] by (elim exE conjE) (rule that)

lemma writes_Nil [write_intros]: "writes Inr []"
  by (simp add: writes_def)

lemma writes_seq [write_intros]:
  assumes "writes v xs" "writes w ys"
  shows "writes (\<lambda>buf. bindE (v buf) w) (xs @ ys)"
  unfolding writes_def
proof (intro allI impI)
  fix buf bs assume "buf_holds buf bs"
  from writesD [OF assms(1) this] obtain buf1 where
    1: "v buf = Inr buf1" "buf_holds buf1 (bs @ xs)" "gb_data buf1 = None \<longleftrightarrow> gb_data buf = None" .
  from writesD [OF assms(2) 1(2)] obtain buf2 where
    "w buf1 = Inr buf2" "buf_holds buf2 ((bs @ xs) @ ys)" "gb_data buf2 = None \<longleftrightarrow> gb_data buf1 = None" .
  with 1 show "\<exists>buf'. bindE (v buf) w = Inr buf' \<and> buf_holds buf' (bs @ xs @ ys)
      \<and> (gb_data buf' = None \<longleftrightarrow> gb_data buf = None)" by auto
qed

lemma writes_fold:
  assumes "\<And>x. x \<in> set xs \<Longrightarrow> writes (w x) (f x)"
  shows "writes (foldE w xs) (concat (map f xs))"
  using assms
proof (induction xs)
  case Nil
  show ?case by (simp add: foldE_unapplied writes_Nil)
next
  case (Cons x xs)
  then have "writes (\<lambda>buf. bindE (w x buf) (foldE w xs)) (f x @ concat (map f xs))"
    by (intro writes_seq) auto
  then show ?case by (simp add: foldE_unapplied)
qed

lemma writes_put:
  assumes "\<And>buf bs. buf_holds buf bs \<Longrightarrow> buf_holds (grow buf) bs"
    and "\<And>buf. (gb_data (grow buf) = None) = (gb_data buf = None)"
    and "\<And>buf bs. buf_holds buf bs \<Longrightarrow> length bs + length out \<le> gb_size (grow buf)"
  shows "writes (\<lambda>buf. buf_put out (grow buf)) out"
  unfolding writes_def
proof (intro allI impI)
  fix buf bs assume holds: "buf_holds buf bs"
  show "\<exists>buf'. buf_put out (grow buf) = Inr buf' \<and> buf_holds buf' (bs @ out)
      \<and> (gb_data buf' = None \<longleftrightarrow> gb_data buf = None)"
    using assms(1) [OF holds] assms(2) [of buf] assms(3) [OF holds]
    by (cases "gb_data (grow buf)") (auto simp: buf_put_def buf_holds_def)
qed

lemma grow_holds: "buf_holds buf bs \<Longrightarrow> buf_holds (gguf_buf_grow n buf) bs"
  by (auto simp: gguf_buf_grow_def buf_holds_def Let_def)

lemma grow_none: "(gb_data (gguf_buf_grow n buf) = None) = (gb_data buf = None)"
  by (simp add: gguf_buf_grow_def Let_def)

lemma grow_fits: "buf_holds buf bs \<Longrightarrow> length bs + n \<le> gb_size (gguf_buf_grow n buf)"
  by (auto simp: gguf_buf_grow_def buf_holds_def Let_def)

lemma writes_el [write_intros]: "writes (gguf_bwrite_el out) out"
  unfolding gguf_bwrite_el_def [abs_def] by (rule writes_put [OF grow_holds grow_none grow_fits])

lemma length_le_bytes [simp]: "length (le_bytes k v) = k"
  by (induction k arbitrary: v) auto

text \<open>A string grows the buffer once for its length and its bytes.\<close>

lemma writes_str [write_intros]: "writes (gguf_bwrite_str s) (str_image s)"
  unfolding writes_def
proof (intro allI impI)
  fix buf bs assume holds: "buf_holds buf bs"
  let ?buf = "gguf_buf_grow (8 + length s) buf"
  show "\<exists>buf'. gguf_bwrite_str s buf = Inr buf' \<and> buf_holds buf' (bs @ str_image s)
      \<and> (gb_data buf' = None \<longleftrightarrow> gb_data buf = None)"
    using grow_holds [OF holds, of "8 + length s"] grow_none [of "8 + length s" buf]
      grow_fits [OF holds, of "8 + length s"]
    by (cases "gb_data ?buf")
       (auto simp: gguf_bwrite_str_def buf_put_def buf_holds_def str_image_def)
qed

lemma writes_from [write_intros]: "length data = n \<Longrightarrow> writes (bwrite_from data n) data"
  using writes_el [of data] by (auto simp: bwrite_from_def [abs_def])

lemma writes_zeros [write_intros]: "writes (bwrite_zeros n) (replicate n 0)"
proof -
  have "writes (foldE (\<lambda>_. gguf_bwrite_el [0]) [0..<n]) (concat (map (\<lambda>_. [0]) [0..<n]))"
    by (rule writes_fold) (rule writes_el)
  then show ?thesis by (simp add: bwrite_zeros_def [abs_def] map_replicate_trivial)
qed

section \<open>The image\<close>

text \<open>What the code relies on: arrays have the data they announce, and no arrays of arrays.\<close>

fun value_wf :: "gguf_value \<Rightarrow> bool" where
  "value_wf (VArray et n data) \<longleftrightarrow> et \<notin> {GGUF_TYPE_ARRAY, GGUF_TYPE_STRING} \<and> length data = n * gguf_type_size et"
| "value_wf _ \<longleftrightarrow> True"

lemma writes_value: "value_wf v \<Longrightarrow> writes (write_value v) (value_image v)"
  by (cases v)
     (auto simp: write_value_def [abs_def] value_image_def intro!: write_intros writes_fold)

lemma writes_kv: "value_wf (snd kv) \<Longrightarrow> writes (write_kv kv) (kv_image kv)"
  unfolding write_kv_def [abs_def] kv_image_def by (intro write_intros writes_value)

lemma writes_info:
  assumes "ti_n_dims info \<le> length (ti_ne info)"
  shows "writes (write_info info) (info_image info)"
  using assms unfolding write_info_def [abs_def] info_image_def
  by (simp add: linorder_not_less) (intro write_intros writes_fold)

definition writable :: "gguf_context \<Rightarrow> bool" where
  "writable ctx \<longleftrightarrow> list_all (\<lambda>kv. value_wf (snd kv)) (gc_kv ctx)
     \<and> list_all (\<lambda>info. ti_n_dims info \<le> length (ti_ne info)) (gc_infos ctx)"

lemma writes_header:
  assumes "writable ctx"
  shows "writes (\<lambda>buf.
      bindE (gguf_bwrite_el (gc_magic ctx) buf) (\<lambda>buf1.
      bindE (gguf_bwrite_el (le_bytes 4 (gc_version ctx)) buf1) (\<lambda>buf2.
      bindE (gguf_bwrite_el (le_bytes 8 (length (gc_infos ctx))) buf2) (\<lambda>buf3.
      bindE (gguf_bwrite_el (le_bytes 8 (length (gc_kv ctx))) buf3) (\<lambda>buf4.
      bindE (foldE write_kv (gc_kv ctx) buf4) (foldE write_info (gc_infos ctx))))))) (header_image ctx)"
  unfolding header_image_def using assms
  by (intro write_intros writes_fold writes_kv writes_info) (auto simp: writable_def list_all_iff)

lemma bindE_assoc: "bindE (bindE m f) g = bindE m (\<lambda>x. bindE (f x) g)"
  by (cases m) auto

lemma write_meta_holds:
  assumes "writable ctx" "buf_holds buf []"
  obtains buf' where "buf_holds buf' (meta_image ctx)" "gb_data buf' = None \<longleftrightarrow> gb_data buf = None"
    "\<And>only_meta. gguf_write_to_buf ctx only_meta buf = (if only_meta then Inr buf'
       else bindE (foldE (write_data (gc_alignment ctx)) (gc_infos ctx) (buf', 0)) (\<lambda>(buf8, _). Inr buf8))"
proof -
  from writesD [OF writes_header [OF assms(1)] assms(2)] obtain buf6 where
    6: "bindE (gguf_bwrite_el (gc_magic ctx) buf) (\<lambda>buf1.
      bindE (gguf_bwrite_el (le_bytes 4 (gc_version ctx)) buf1) (\<lambda>buf2.
      bindE (gguf_bwrite_el (le_bytes 8 (length (gc_infos ctx))) buf2) (\<lambda>buf3.
      bindE (gguf_bwrite_el (le_bytes 8 (length (gc_kv ctx))) buf3) (\<lambda>buf4.
      bindE (foldE write_kv (gc_kv ctx) buf4) (foldE write_info (gc_infos ctx)))))) = Inr buf6"
    and holds: "buf_holds buf6 (header_image ctx)" and none: "gb_data buf6 = None \<longleftrightarrow> gb_data buf = None"
    by auto
  from writesD [OF writes_zeros holds, of "padding (gc_alignment ctx) (gb_offset buf6)"] obtain buf7 where
    7: "bwrite_zeros (padding (gc_alignment ctx) (gb_offset buf6)) buf6 = Inr buf7"
      "buf_holds buf7 (header_image ctx @ replicate (padding (gc_alignment ctx) (gb_offset buf6)) 0)"
      "gb_data buf7 = None \<longleftrightarrow> gb_data buf6 = None" .
  have "gb_offset buf6 = length (header_image ctx)" using holds by (simp add: buf_holds_def)
  with 7(2) have "buf_holds buf7 (meta_image ctx)" by (simp add: meta_image_def padded_def)
  moreover have "gguf_write_to_buf ctx only_meta buf = (if only_meta then Inr buf7
      else bindE (foldE (write_data (gc_alignment ctx)) (gc_infos ctx) (buf7, 0)) (\<lambda>(buf8, _). Inr buf8))"
    for only_meta
    using arg_cong [OF 6, of "\<lambda>m. bindE m (\<lambda>b. bindE (bwrite_zeros (padding (gc_alignment ctx) (gb_offset b)) b)
        (\<lambda>b7. if only_meta then Inr b7
          else bindE (foldE (write_data (gc_alignment ctx)) (gc_infos ctx) (b7, 0)) (\<lambda>(b8, _). Inr b8)))"]
    by (simp add: gguf_write_to_buf_def bindE_assoc 7(1))
  ultimately show ?thesis using 7(3) none by (intro that) auto
qed

lemma init_holds: "buf_holds (gguf_buf_init sz) []"
  by (simp add: gguf_buf_init_def buf_holds_def)

lemma holds_written: "buf_holds buf bs \<Longrightarrow> gb_data buf \<noteq> None \<Longrightarrow> buf_written buf = bs"
  by (auto simp: buf_holds_def buf_written_def)

text \<open>The offsets that the assertion of the writer asks for: each tensor starts where the padded data in front of it end.\<close>

fun offsets_ok :: "nat \<Rightarrow> u64 \<Rightarrow> gguf_tensor_info list \<Rightarrow> bool" where
  "offsets_ok al off [] \<longleftrightarrow> True"
| "offsets_ok al off (info # infos) \<longleftrightarrow> length (ti_data info) = ti_size info \<and> ti_offset info = off
     \<and> offsets_ok al (off + GGML_PAD (of_nat (ti_size info)) (of_nat al)) infos"

lemma write_data_holds:
  assumes "offsets_ok al off infos" "buf_holds buf bs"
  shows "\<exists>buf' off'. foldE (write_data al) infos (buf, off) = Inr (buf', off')
    \<and> buf_holds buf' (bs @ concat (map (\<lambda>info. padded al (ti_data info)) infos))
    \<and> (gb_data buf' = None \<longleftrightarrow> gb_data buf = None)"
  using assms
proof (induction infos arbitrary: off buf bs)
  case Nil
  then show ?case by simp
next
  case (Cons info infos)
  have sz: "length (ti_data info) = ti_size info" using Cons.prems(1) by simp
  have "writes (\<lambda>b. bindE (bwrite_from (ti_data info) (ti_size info) b) (bwrite_zeros (padding al (ti_size info))))
      (padded al (ti_data info))"
    unfolding padded_def sz by (intro write_intros sz)
  from writesD [OF this Cons.prems(2)] obtain buf1 where
    1: "bindE (bwrite_from (ti_data info) (ti_size info) buf) (bwrite_zeros (padding al (ti_size info))) = Inr buf1"
      "buf_holds buf1 (bs @ padded al (ti_data info))" "gb_data buf1 = None \<longleftrightarrow> gb_data buf = None" .
  let ?off = "off + GGML_PAD (of_nat (ti_size info)) (of_nat al)"
  have off: "ti_offset info = off" "offsets_ok al ?off infos"
    using Cons.prems(1) [unfolded offsets_ok.simps] by blast+
  have step: "write_data al info (buf, off) = Inr (buf1, ?off)"
    using 1(1) off by (auto simp: write_data_def bindE_Inr_iff simp del: offsets_ok.simps)
  from Cons.IH [OF off(2) 1(2)] 1(3) show ?case by (auto simp: step)
qed

lemma gguf_written:
  assumes "writable ctx"
  shows "gguf_get_meta_data ctx = Inr (meta_image ctx)"
    and "gguf_get_meta_size ctx = Inr (length (meta_image ctx))"
    and "gguf_write_to_file ctx True = Inr (meta_image ctx)"
    and "offsets_ok (gc_alignment ctx) 0 (gc_infos ctx)
      \<Longrightarrow> gguf_write_to_file ctx False = Inr (meta_image ctx @ data_image ctx)"
proof -
  from write_meta_holds [OF assms init_holds [of "16384"]] obtain buf where
    buf: "buf_holds buf (meta_image ctx)" "gb_data buf = None \<longleftrightarrow> gb_data (gguf_buf_init (16384)) = None"
      "\<And>only_meta. gguf_write_to_buf ctx only_meta (gguf_buf_init (16384)) = (if only_meta then Inr buf
       else bindE (foldE (write_data (gc_alignment ctx)) (gc_infos ctx) (buf, 0)) (\<lambda>(buf8, _). Inr buf8))"
    by blast
  then have some: "gb_data buf \<noteq> None" by (simp add: gguf_buf_init_def)
  show "gguf_get_meta_data ctx = Inr (meta_image ctx)" "gguf_write_to_file ctx True = Inr (meta_image ctx)"
    by (simp_all add: gguf_get_meta_data_def gguf_write_to_file_def buf(3) holds_written [OF buf(1) some])
  show "gguf_write_to_file ctx False = Inr (meta_image ctx @ data_image ctx)"
    if "offsets_ok (gc_alignment ctx) 0 (gc_infos ctx)"
    using write_data_holds [OF that buf(1)] some
    by (auto simp: gguf_write_to_file_def buf(3) data_image_def holds_written)
  from write_meta_holds [OF assms init_holds [of 0]] obtain buf0 where
    "buf_holds buf0 (meta_image ctx)" "gguf_write_to_buf ctx True (gguf_buf_init 0) = Inr buf0"
    using that by (metis (full_types))
  then show "gguf_get_meta_size ctx = Inr (length (meta_image ctx))"
    by (simp add: gguf_get_meta_size_def buf_holds_def)
qed

end
