(* ===== verification/GgufCodec.thy ===== *)
theory GgufCodec
  imports GgufWriteProps
begin

text \<open>
  Reading and writing are inverse: a part is read with success exactly when the input starts with its
  image. The law is stated once, as the interface \<open>codec\<close>, with its consequence for loops.
\<close>

section \<open>Numbers\<close>

lemma le_nat_bytes: "le_nat (le_bytes k v) = v mod 256 ^ k"
proof (induction k arbitrary: v)
  case (Suc k)
  have "unat (of_nat (v mod 256) :: byte) = v mod 256" by (simp add: unat_of_nat)
  with Suc show ?case by (simp add: mod_mult2_eq)
qed simp

lemma le_nat_less: "le_nat bs < 256 ^ length bs"
proof (induction bs)
  case (Cons b bs)
  have "unat b < 256" using unsigned_less [of b] by simp
  with Cons show ?case by simp
qed simp

lemma le_bytes_nat: "length bs = k \<Longrightarrow> le_bytes k (le_nat bs) = bs"
proof (induction bs arbitrary: k)
  case (Cons b bs)
  have "unat b < 256" using unsigned_less [of b] by simp
  then have "of_nat ((unat b + 256 * le_nat bs) mod 256) = b"
    "(unat b + 256 * le_nat bs) div 256 = le_nat bs" by simp_all
  with Cons show ?case by (cases k) auto
qed simp

section \<open>Reads that succeed\<close>

definition reads_to :: "rd \<Rightarrow> byte list \<Rightarrow> rd \<Rightarrow> bool" where
  "reads_to st bs st' \<longleftrightarrow> rd_ok st \<and> rd_ok st' \<and> rd_rest st = bs @ rd_rest st'
     \<and> rd_offset st' = rd_offset st + length bs"

lemma reads_to_ok: "reads_to st bs st' \<Longrightarrow> rd_ok st" "reads_to st bs st' \<Longrightarrow> rd_ok st'"
  by (simp_all add: reads_to_def)

lemma reads_to_Nil: "rd_ok st' \<Longrightarrow> reads_to st [] st' \<longleftrightarrow> st = st'"
  by (cases st; cases st') (auto simp: reads_to_def)

lemma reads_to_append: "reads_to st (xs @ ys) st'' \<longleftrightarrow> (\<exists>st'. reads_to st xs st' \<and> reads_to st' ys st'')"
proof
  assume *: "reads_to st (xs @ ys) st''"
  let ?st = "\<lparr>rd_rest = ys @ rd_rest st'', rd_offset = rd_offset st + length xs, rd_ok = True\<rparr>"
  from * have "reads_to st xs ?st" "reads_to ?st ys st''" by (auto simp: reads_to_def)
  then show "\<exists>st'. reads_to st xs st' \<and> reads_to st' ys st''" by blast
qed (auto simp: reads_to_def)

lemma fread_field_iff:
  assumes "rd_ok st'" "length dst = n"
  shows "fread_field n dst st = (bs, st') \<longleftrightarrow> length bs = n \<and> reads_to st bs st'"
proof
  assume "fread_field n dst st = (bs, st')"
  with assms show "length bs = n \<and> reads_to st bs st'"
    by (cases st) (auto simp: fread_field_def gguf_fread_el_def reads_to_def Let_def split: if_splits)
next
  assume *: "length bs = n \<and> reads_to st bs st'"
  then have "rd_ok st" "take n (rd_rest st) = bs" "drop n (rd_rest st) = rd_rest st'"
    "rd_offset st + length bs = rd_offset st'" by (auto simp: reads_to_def)
  with * assms show "fread_field n dst st = (bs, st')"
    by (simp add: fread_field_def gguf_fread_el_def Let_def)
qed

lemma fread_num_iff:
  assumes "rd_ok st'"
  shows "fread_num k old st = (v, st') \<longleftrightarrow> v < 256 ^ k \<and> reads_to st (le_bytes k v) st'"
proof -
  have "fread_num k old st = (v, st') \<longleftrightarrow> (\<exists>bs. fread_field k (le_bytes k old) st = (bs, st') \<and> le_nat bs = v)"
    by (auto simp: fread_num_def split: prod.splits)
  also have "\<dots> \<longleftrightarrow> v < 256 ^ k \<and> reads_to st (le_bytes k v) st'"
    unfolding fread_field_iff [OF assms length_le_bytes]
    using le_nat_less by (metis le_bytes_nat le_nat_bytes length_le_bytes mod_less)
  finally show ?thesis .
qed

section \<open>The interface\<close>

text \<open>
  \<open>put\<close> is the image of what \<open>get\<close> reads; \<open>ok\<close> says which values a file can hold.
\<close>

locale codec =
  fixes get :: "rd \<Rightarrow> ('a \<times> rd) res" and put :: "'a \<Rightarrow> byte list" and ok :: "'a \<Rightarrow> bool"
  assumes get_iff: "rd_ok st' \<Longrightarrow> get st = Inr (x, st') \<longleftrightarrow> ok x \<and> reads_to st (put x) st'"
begin

lemma get_ok: "get st = Inr (x, st') \<Longrightarrow> rd_ok st' \<Longrightarrow> rd_ok st"
  by (auto simp: get_iff reads_to_def)

lemma many_iff:
  assumes "rd_ok st'"
  shows "read_many get n st = Inr (xs, st') \<longleftrightarrow>
    n = length xs \<and> list_all ok xs \<and> reads_to st (concat (map put xs)) st'"
  using assms
proof (induction n arbitrary: st xs)
  case 0
  then show ?case by (cases "xs = []") (auto simp: reads_to_Nil)
next
  case (Suc n)
  have "read_many get (Suc n) st = Inr (xs, st') \<longleftrightarrow>
      (\<exists>x st1 ys. get st = Inr (x, st1) \<and> rd_ok st1 \<and> read_many get n st1 = Inr (ys, st') \<and> xs = x # ys)"
    using \<open>rd_ok st'\<close> by (auto simp: bindE_Inr_iff split: if_splits)
  also have "\<dots> \<longleftrightarrow> (\<exists>x st1 ys. ok x \<and> reads_to st (put x) st1 \<and> n = length ys \<and> list_all ok ys
      \<and> reads_to st1 (concat (map put ys)) st' \<and> xs = x # ys)"
  proof (intro iff_exI)
    fix x st1 ys
    show "(get st = Inr (x, st1) \<and> rd_ok st1 \<and> read_many get n st1 = Inr (ys, st') \<and> xs = x # ys) \<longleftrightarrow>
        (ok x \<and> reads_to st (put x) st1 \<and> n = length ys \<and> list_all ok ys
          \<and> reads_to st1 (concat (map put ys)) st' \<and> xs = x # ys)"
      using Suc.IH [OF \<open>rd_ok st'\<close>, of st1 ys] get_iff [of st1 st x] reads_to_ok(2) [of st "put x" st1]
      by blast
  qed
  also have "\<dots> \<longleftrightarrow> Suc n = length xs \<and> list_all ok xs \<and> reads_to st (concat (map put xs)) st'"
    by (cases xs) (auto simp: reads_to_append)
  finally show ?case .
qed

end

section \<open>Strings\<close>

definition str_ok :: "(nat \<Rightarrow> bool) \<Rightarrow> byte list \<Rightarrow> bool" where
  "str_ok mem s \<longleftrightarrow> length s < SIZE_MAX \<and> mem (length s + 1)"

lemma fread_str_iff:
  assumes "rd_ok st'"
  shows "fread_str mem st = Inr (s, st') \<longleftrightarrow> str_ok mem s \<and> reads_to st (str_image s) st'"
proof -
  have "fread_str mem st = Inr (s, st') \<longleftrightarrow>
      rd_ok st \<and> (\<exists>n st1. fread_num 8 0 st = (n, st1) \<and> n \<noteq> SIZE_MAX \<and> mem (n + 1)
        \<and> fread_field n (replicate n 0) st1 = (s, st'))"
    using assms by (auto simp: fread_str_def gguf_fread_str_def ggml_calloc_ok_def split: prod.splits if_splits)
  also have "\<dots> \<longleftrightarrow> (\<exists>n st1. reads_to st (le_bytes 8 n) st1 \<and> n < SIZE_MAX \<and> mem (n + 1)
      \<and> length s = n \<and> reads_to st1 s st')"
    unfolding fread_field_iff [OF assms length_replicate] ex_simps(1,2) [symmetric]
  proof (intro iff_exI)
    fix n st1
    show "(rd_ok st \<and> fread_num 8 0 st = (n, st1) \<and> n \<noteq> SIZE_MAX \<and> mem (n + 1) \<and> length s = n
          \<and> reads_to st1 s st') \<longleftrightarrow>
        (reads_to st (le_bytes 8 n) st1 \<and> n < SIZE_MAX \<and> mem (n + 1) \<and> length s = n \<and> reads_to st1 s st')"
      using fread_num_iff [of st1 8 0 st n] reads_to_ok by (auto simp: SIZE_MAX_def)
  qed
  also have "\<dots> \<longleftrightarrow> str_ok mem s \<and> reads_to st (str_image s) st'"
    by (auto simp: str_ok_def str_image_def reads_to_append)
  finally show ?thesis .
qed

interpretation str: codec "fread_str mem" str_image "str_ok mem" for mem
  by unfold_locales (rule fread_str_iff)

section \<open>Values\<close>

lemma gguf_type_of_iff: "gguf_type_of n = Some t \<longleftrightarrow> n = gguf_type_num t"
proof
  assume "gguf_type_of n = Some t"
  then have "n < 13" "gguf_types ! n = t" by (auto simp: gguf_type_of_def gguf_types_def split: if_splits)
  then have "n = 0 \<or> n = 1 \<or> n = 2 \<or> n = 3 \<or> n = 4 \<or> n = 5 \<or> n = 6 \<or> n = 7 \<or> n = 8 \<or> n = 9 \<or> n = 10
      \<or> n = 11 \<or> n = 12" by presburger
  with \<open>gguf_types ! n = t\<close> show "n = gguf_type_num t" by (auto simp: gguf_types_def)
next
  assume "n = gguf_type_num t"
  then show "gguf_type_of n = Some t" by (cases t) (simp_all add: gguf_type_of_def gguf_types_def)
qed

lemma gguf_type_of_num [simp]: "gguf_type_of (gguf_type_num t) = Some t"
  by (simp add: gguf_type_of_iff)

lemma gguf_type_num_eq [simp]: "gguf_type_num t = gguf_type_num t' \<longleftrightarrow> t = t'"
  by (metis gguf_type_of_num option.inject)

fun value_ok :: "(nat \<Rightarrow> bool) \<Rightarrow> gguf_value \<Rightarrow> bool" where
  "value_ok mem (VString s) \<longleftrightarrow> str_ok mem s"
| "value_ok mem (VArray et n data) \<longleftrightarrow> et \<notin> {GGUF_TYPE_ARRAY, GGUF_TYPE_STRING}
     \<and> length data = n * gguf_type_size et \<and> n < SIZE_MAX div gguf_type_size et
     \<and> ggml_calloc_ok mem n (gguf_type_size et)"
| "value_ok mem (VStrings ss) \<longleftrightarrow>
     length ss < SIZE_MAX div 16 \<and> ggml_calloc_ok mem (length ss) 16 \<and> list_all (str_ok mem) ss"
| "value_ok mem _ \<longleftrightarrow> True"

lemma value_ok_wf: "value_ok mem v \<Longrightarrow> value_wf v"
  by (cases v) auto

fun array_head :: "gguf_value \<Rightarrow> (nat \<times> nat) option" where
  "array_head (VArray et n data) = Some (gguf_type_num et, n)"
| "array_head (VStrings ss) = Some (8, length ss)"
| "array_head _ = None"

fun elements_image :: "gguf_value \<Rightarrow> byte list" where
  "elements_image (VArray et n data) = data"
| "elements_image (VStrings ss) = concat (map str_image ss)"
| "elements_image _ = []"

lemma read_elements_iff:
  assumes "rd_ok st'"
  shows "read_elements mem t n st = Inr (v, st') \<longleftrightarrow>
    array_head v = Some (t, n) \<and> value_ok mem v \<and> reads_to st (elements_image v) st'"
proof (cases "gguf_type_of t")
  case None
  then have "array_head v \<noteq> Some (t, n)"
    using gguf_type_of_num [of GGUF_TYPE_STRING] by (cases v) auto
  with None show ?thesis by (simp add: read_elements_def)
next
  case (Some et)
  then have t: "t = gguf_type_num et" by (simp add: gguf_type_of_iff)
  consider (arr) "et = GGUF_TYPE_ARRAY" | (str) "et = GGUF_TYPE_STRING" | (num) "et \<notin> {GGUF_TYPE_ARRAY, GGUF_TYPE_STRING}"
    by auto
  then show ?thesis
  proof cases
    case arr
    have "\<not> (array_head v = Some (t, n) \<and> value_ok mem v)"
      using gguf_type_num_eq [of _ GGUF_TYPE_ARRAY] by (cases v) (auto simp: t arr)
    with Some arr show ?thesis by (auto simp: read_elements_def)
  next
    case str
    have "read_elements mem t n st = Inr (v, st') \<longleftrightarrow> n < SIZE_MAX div 16 \<and> ggml_calloc_ok mem n 16
        \<and> (\<exists>ss. read_many (fread_str mem) n st = Inr (ss, st') \<and> v = VStrings ss)"
      using assms Some str by (auto simp: read_elements_def bindE_Inr_iff)
    also have "\<dots> \<longleftrightarrow> array_head v = Some (t, n) \<and> value_ok mem v \<and> reads_to st (elements_image v) st'"
      unfolding str.many_iff [OF assms]
      using gguf_type_num_eq [of _ GGUF_TYPE_STRING] by (cases v) (auto simp: t str)
    finally show ?thesis .
  next
    case num
    let ?sz = "n * gguf_type_size et"
    have "read_elements mem t n st = Inr (v, st') \<longleftrightarrow> n < SIZE_MAX div gguf_type_size et
        \<and> ggml_calloc_ok mem n (gguf_type_size et)
        \<and> (\<exists>bs. fread_field ?sz (replicate ?sz 0) st = (bs, st') \<and> v = VArray et n bs)"
      using assms Some num by (cases et) (auto simp: read_elements_def Let_def split: prod.splits)
    also have "\<dots> \<longleftrightarrow> array_head v = Some (t, n) \<and> value_ok mem v \<and> reads_to st (elements_image v) st'"
      unfolding fread_field_iff [OF assms length_replicate] t
      using num gguf_type_num_eq [of GGUF_TYPE_STRING et] by (cases v) auto
    finally show ?thesis .
  qed
qed

lemma read_array_iff:
  assumes "rd_ok st'"
  shows "read_array mem st = Inr (v, st') \<longleftrightarrow>
    value_type v = GGUF_TYPE_ARRAY \<and> value_ok mem v \<and> reads_to st (value_image v) st'"
proof -
  have "read_array mem st = Inr (v, st') \<longleftrightarrow> (\<exists>t n st1 st2. fread_num 4 0 st = (t, st1)
      \<and> fread_num 8 0 st1 = (n, st2) \<and> read_elements mem t n st2 = Inr (v, st'))"
    by (auto simp: read_array_def split: prod.splits)
  also have "\<dots> \<longleftrightarrow> (\<exists>t n st1 st2. array_head v = Some (t, n) \<and> t < 256 ^ 4 \<and> n < 256 ^ 8 \<and> value_ok mem v
      \<and> reads_to st (le_bytes 4 t) st1 \<and> reads_to st1 (le_bytes 8 n) st2
      \<and> reads_to st2 (elements_image v) st')"
  proof (intro iff_exI)
    fix t n st1 st2
    show "(fread_num 4 0 st = (t, st1) \<and> fread_num 8 0 st1 = (n, st2) \<and> read_elements mem t n st2 = Inr (v, st'))
      \<longleftrightarrow> (array_head v = Some (t, n) \<and> t < 256 ^ 4 \<and> n < 256 ^ 8 \<and> value_ok mem v
        \<and> reads_to st (le_bytes 4 t) st1 \<and> reads_to st1 (le_bytes 8 n) st2
        \<and> reads_to st2 (elements_image v) st')"
      using read_elements_iff [OF assms, of mem t n st2 v] fread_num_iff [of st2 8 0 st1 n]
        fread_num_iff [of st1 4 0 st t] reads_to_ok(1) [of st2 "elements_image v" st']
        reads_to_ok(1) [of st1 "le_bytes 8 n" st2] by blast
  qed
  also have "\<dots> \<longleftrightarrow> value_type v = GGUF_TYPE_ARRAY \<and> value_ok mem v \<and> reads_to st (value_image v) st'"
  proof (cases v)
    case (VArray et n data)
    have "gguf_type_num et < 256 ^ 4" by (cases et) simp_all
    moreover have "n < 256 ^ 8" if "value_ok mem v"
    proof -
      have "n < SIZE_MAX div gguf_type_size et" using that VArray by simp
      also have "\<dots> \<le> SIZE_MAX" by (rule div_le_dividend)
      also have "\<dots> < 256 ^ 8" by (simp add: SIZE_MAX_def)
      finally show ?thesis .
    qed
    ultimately show ?thesis using VArray by (auto simp: value_image_def reads_to_append)
  next
    case (VStrings ss)
    then have "value_ok mem v \<Longrightarrow> length ss < 256 ^ 8" by (simp add: SIZE_MAX_def)
    with VStrings show ?thesis by (auto simp: value_image_def reads_to_append)
  qed (auto simp: value_image_def)
  finally show ?thesis .
qed

definition is_scalar :: "gguf_type \<Rightarrow> bool" where
  "is_scalar t \<longleftrightarrow> t \<notin> {GGUF_TYPE_ARRAY, GGUF_TYPE_STRING}"

lemma scalar_read:
  assumes "is_scalar t" "v < 256 ^ gguf_type_size t"
  shows "value_type (read_scalar t v) = t" "scalar_bits (read_scalar t v) = v" "value_ok mem (read_scalar t v)"
  using assms by (cases t; simp add: read_scalar_def is_scalar_def unat_of_nat)+

lemma scalar_image:
  assumes "is_scalar (value_type v)"
  shows "value_image v = le_bytes (gguf_type_size (value_type v)) (scalar_bits v)"
    and "read_scalar (value_type v) (scalar_bits v) = v"
    and "scalar_bits v < 256 ^ gguf_type_size (value_type v)"
proof -
  have "unat (x :: byte) < 256" "unat (y :: 16 word) < 65536" "unat (z :: u32) < 4294967296"
    "unat (u :: u64) < 18446744073709551616" for x y z u
    using unsigned_less [of x] unsigned_less [of y] unsigned_less [of z] unsigned_less [of u] by simp_all
  then show "scalar_bits v < 256 ^ gguf_type_size (value_type v)"
    using assms by (cases v) (simp_all add: is_scalar_def)
qed (use assms in \<open>cases v; simp add: value_image_def read_scalar_def is_scalar_def\<close>)+

lemma read_value_iff:
  assumes "rd_ok st'"
  shows "read_value mem t st = Inr (v, st') \<longleftrightarrow>
    t = gguf_type_num (value_type v) \<and> value_ok mem v \<and> reads_to st (value_image v) st'"
proof (cases "gguf_type_of t")
  case None
  then have "t \<noteq> gguf_type_num (value_type v)" by auto
  with None show ?thesis by (simp add: read_value_def)
next
  case (Some vt)
  then have t: "t = gguf_type_num vt" by (simp add: gguf_type_of_iff)
  consider (arr) "vt = GGUF_TYPE_ARRAY" | (str) "vt = GGUF_TYPE_STRING" | (num) "is_scalar vt"
    by (auto simp: is_scalar_def)
  then show ?thesis
  proof cases
    case arr
    then show ?thesis
      using gguf_type_num_eq [of GGUF_TYPE_ARRAY "value_type v"]
      by (auto simp: read_value_def t read_array_iff [OF assms] gguf_type_of_num [of GGUF_TYPE_ARRAY, simplified]
          simp del: gguf_type_num_eq)
  next
    case str
    have "read_value mem t st = Inr (v, st') \<longleftrightarrow> (\<exists>s. v = VString s \<and> str_ok mem s \<and> reads_to st (str_image s) st')"
      using fread_str_iff [OF assms] by (auto simp: read_value_def Some str bindE_Inr_iff)
    then show ?thesis using str by (cases v) (auto simp: t value_image_def)
  next
    case num
    have "read_value mem t st = Inr (v, st') \<longleftrightarrow>
        (\<exists>n. fread_num (gguf_type_size vt) 0 st = (n, st') \<and> v = read_scalar vt n)"
      using num by (cases vt) (auto simp: read_value_def Some is_scalar_def Let_def split: prod.splits)
    also have "\<dots> \<longleftrightarrow> t = gguf_type_num (value_type v) \<and> value_ok mem v \<and> reads_to st (value_image v) st'"
      unfolding fread_num_iff [OF assms] t gguf_type_num_eq
    proof
      assume "\<exists>n. (n < 256 ^ gguf_type_size vt \<and> reads_to st (le_bytes (gguf_type_size vt) n) st') \<and> v = read_scalar vt n"
      with scalar_read [OF num] scalar_image(1) [of v] num
      show "vt = value_type v \<and> value_ok mem v \<and> reads_to st (value_image v) st'" by auto
    next
      assume "vt = value_type v \<and> value_ok mem v \<and> reads_to st (value_image v) st'"
      with scalar_image [of v] num
      show "\<exists>n. (n < 256 ^ gguf_type_size vt \<and> reads_to st (le_bytes (gguf_type_size vt) n) st') \<and> v = read_scalar vt n"
        by (intro exI [of _ "scalar_bits v"]) auto
    qed
    finally show ?thesis .
  qed
qed

definition kv_ok :: "(nat \<Rightarrow> bool) \<Rightarrow> gguf_kv \<Rightarrow> bool" where
  "kv_ok mem kv \<longleftrightarrow> str_ok mem (fst kv) \<and> value_ok mem (snd kv)"

lemma read_kv_iff:
  assumes "rd_ok st'"
  shows "read_kv mem st = Inr (kv, st') \<longleftrightarrow> kv_ok mem kv \<and> reads_to st (kv_image kv) st'"
proof -
  obtain key v where kv: "kv = (key, v)" by fastforce
  have "read_kv mem st = Inr (kv, st') \<longleftrightarrow> (\<exists>t st1 st2. fread_str mem st = Inr (key, st1)
      \<and> fread_num 4 0 st1 = (t, st2) \<and> read_value mem t st2 = Inr (v, st'))"
    by (auto simp: read_kv_def kv bindE_Inr_iff split_beta Let_def) (metis prod.collapse)
  also have "\<dots> \<longleftrightarrow> (\<exists>t st1 st2. str_ok mem key \<and> reads_to st (str_image key) st1 \<and> t < 256 ^ 4
      \<and> reads_to st1 (le_bytes 4 t) st2 \<and> t = gguf_type_num (value_type v) \<and> value_ok mem v
      \<and> reads_to st2 (value_image v) st')"
  proof (intro iff_exI)
    fix t st1 st2
    show "(fread_str mem st = Inr (key, st1) \<and> fread_num 4 0 st1 = (t, st2) \<and> read_value mem t st2 = Inr (v, st'))
      \<longleftrightarrow> (str_ok mem key \<and> reads_to st (str_image key) st1 \<and> t < 256 ^ 4 \<and> reads_to st1 (le_bytes 4 t) st2
        \<and> t = gguf_type_num (value_type v) \<and> value_ok mem v \<and> reads_to st2 (value_image v) st')"
      using read_value_iff [OF assms, of mem t st2 v] fread_num_iff [of st2 4 0 st1 t]
        fread_str_iff [of st1 mem st key] reads_to_ok(1) [of st2 "value_image v" st']
        reads_to_ok(1) [of st1 "le_bytes 4 t" st2] by blast
  qed
  also have "\<dots> \<longleftrightarrow> kv_ok mem kv \<and> reads_to st (kv_image kv) st'"
  proof -
    have "gguf_type_num (value_type v) < 256 ^ 4" by (cases v) simp_all
    then show ?thesis by (auto simp: kv kv_ok_def kv_image_def reads_to_append)
  qed
  finally show ?thesis .
qed

interpretation kvs: codec "read_kv mem" kv_image "kv_ok mem" for mem
  by unfold_locales (rule read_kv_iff)

end
