(* ===== verification/GgufRoundtrip.thy ===== *)
theory GgufRoundtrip
  imports GgufCodec
begin

text \<open>
  The format as a whole: the reader accepts exactly the files that start with the image of a
  well-formed context and returns this context; writing and reading are inverse.
\<close>

section \<open>Tensor infos\<close>

lemma read_dims_iff:
  assumes "rd_ok st'" "n \<le> length ne"
  shows "read_dims n ne st = (ys, st') \<longleftrightarrow> length ys = length ne \<and> drop n ys = drop n ne
    \<and> reads_to st (concat (map (\<lambda>x. le_bytes 8 (unat x)) (take n ys))) st'"
  using assms(2)
proof (induction n ne st arbitrary: ys rule: read_dims.induct)
  case (1 ne st)
  then show ?case using assms(1) by (auto simp: reads_to_Nil)
next
  case (2 n st)
  then show ?case by simp
next
  case (3 n x xs st)
  have small: "unat (u :: u64) < 256 ^ 8" for u using unsigned_less [of u] by simp
  have "read_dims (Suc n) (x # xs) st = (ys, st') \<longleftrightarrow>
      (\<exists>v st1 zs. fread_num 8 (unat x) st = (v, st1) \<and> read_dims n xs st1 = (zs, st') \<and> ys = of_nat v # zs)"
    by (auto simp: split_beta Let_def) (metis prod.collapse)
  also have "\<dots> \<longleftrightarrow> (\<exists>v st1 zs. v < 256 ^ 8 \<and> reads_to st (le_bytes 8 v) st1 \<and> length zs = length xs
      \<and> drop n zs = drop n xs \<and> reads_to st1 (concat (map (\<lambda>x. le_bytes 8 (unat x)) (take n zs))) st'
      \<and> ys = of_nat v # zs)"
  proof (intro iff_exI)
    fix v st1 zs
    have "n \<le> length xs" using 3(2) by simp
    then have "read_dims n xs st1 = (zs, st') \<longleftrightarrow> length zs = length xs \<and> drop n zs = drop n xs
        \<and> reads_to st1 (concat (map (\<lambda>x. le_bytes 8 (unat x)) (take n zs))) st'"
      if "fread_num 8 (unat x) st = (v, st1)"
      by (intro 3(1) [OF that [symmetric] refl])
    then show "(fread_num 8 (unat x) st = (v, st1) \<and> read_dims n xs st1 = (zs, st') \<and> ys = of_nat v # zs) \<longleftrightarrow>
        (v < 256 ^ 8 \<and> reads_to st (le_bytes 8 v) st1 \<and> length zs = length xs
          \<and> drop n zs = drop n xs \<and> reads_to st1 (concat (map (\<lambda>x. le_bytes 8 (unat x)) (take n zs))) st'
          \<and> ys = of_nat v # zs)"
      using fread_num_iff [of st1 8 "unat x" st v] reads_to_ok(1) [of st1 _ st'] by blast
  qed
  also have "\<dots> \<longleftrightarrow> length ys = length (x # xs) \<and> drop (Suc n) ys = drop (Suc n) (x # xs)
      \<and> reads_to st (concat (map (\<lambda>x. le_bytes 8 (unat x)) (take (Suc n) ys))) st'"
  proof
    assume "\<exists>v st1 zs. v < 256 ^ 8 \<and> reads_to st (le_bytes 8 v) st1 \<and> length zs = length xs
      \<and> drop n zs = drop n xs \<and> reads_to st1 (concat (map (\<lambda>x. le_bytes 8 (unat x)) (take n zs))) st'
      \<and> ys = of_nat v # zs"
    then show "length ys = length (x # xs) \<and> drop (Suc n) ys = drop (Suc n) (x # xs)
      \<and> reads_to st (concat (map (\<lambda>x. le_bytes 8 (unat x)) (take (Suc n) ys))) st'"
      by (auto simp: reads_to_append unat_of_nat)
  next
    assume *: "length ys = length (x # xs) \<and> drop (Suc n) ys = drop (Suc n) (x # xs)
      \<and> reads_to st (concat (map (\<lambda>x. le_bytes 8 (unat x)) (take (Suc n) ys))) st'"
    then obtain y zs where ys: "ys = y # zs" by (cases ys) auto
    with * show "\<exists>v st1 zs. v < 256 ^ 8 \<and> reads_to st (le_bytes 8 v) st1 \<and> length zs = length xs
      \<and> drop n zs = drop n xs \<and> reads_to st1 (concat (map (\<lambda>x. le_bytes 8 (unat x)) (take n zs))) st'
      \<and> ys = of_nat v # zs"
      using small [of y] by (intro exI [of _ "unat y"]) (auto simp: reads_to_append)
  qed
  finally show ?case .
qed

text \<open>What a file says of a tensor; the writing API keeps its data besides.\<close>

definition file_info :: "gguf_tensor_info \<Rightarrow> gguf_tensor_info" where
  "file_info info = info\<lparr>ti_data := [], ti_size := 0\<rparr>"

definition info_ok :: "(nat \<Rightarrow> bool) \<Rightarrow> gguf_tensor_info \<Rightarrow> bool" where
  "info_ok mem info \<longleftrightarrow> str_ok mem (ti_name info) \<and> length (ti_ne info) = GGML_MAX_DIMS
     \<and> drop (ti_n_dims info) (ti_ne info) = drop (ti_n_dims info) (replicate GGML_MAX_DIMS 1)
     \<and> gguf_tensor_info_sanitize info = Inr ()"

lemma sanitize_bounds:
  "gguf_tensor_info_sanitize info = Inr () \<Longrightarrow> ti_n_dims info \<le> GGML_MAX_DIMS \<and> ti_type info < GGML_TYPE_COUNT"
  by (auto simp: gguf_tensor_info_sanitize_def split: if_splits)

definition tensor_name :: "gguf_tensor_info \<Rightarrow> byte list" where
  "tensor_name info = c_str (ti_name info)"

definition mk_info :: "byte list \<Rightarrow> nat \<Rightarrow> u64 list \<Rightarrow> nat \<Rightarrow> u64 \<Rightarrow> gguf_tensor_info" where
  "mk_info name n_dims ne t offset = \<lparr>ti_name = name, ti_n_dims = n_dims, ti_ne = ne, ti_type = t,
     ti_offset = offset, ti_data = [], ti_size = 0\<rparr>"

lemma read_info_parts:
  assumes "rd_ok st'"
  shows "read_info mem infos st = Inr (info, st') \<longleftrightarrow>
    (\<exists>name n_dims ne t offset st1 st2 st4 st5. info = mk_info name n_dims ne t (of_nat offset)
      \<and> gguf_tensor_info_sanitize info = Inr () \<and> tensor_name info \<notin> tensor_name ` set infos
      \<and> fread_str mem st = Inr (name, st1) \<and> fread_num 4 0 st1 = (n_dims, st2)
      \<and> read_dims n_dims (replicate GGML_MAX_DIMS 1) st2 = (ne, st4) \<and> fread_num 4 0 st4 = (t, st5)
      \<and> fread_num 8 0 st5 = (offset, st'))"
    (is "_ \<longleftrightarrow> ?R")
proof
  assume run: "read_info mem infos st = Inr (info, st')"
  obtain name st1 where 1: "fread_str mem st = Inr (name, st1)"
    using run by (auto simp: read_info_def bindE_Inr_iff)
  obtain n_dims st2 where 2: "fread_num 4 0 st1 = (n_dims, st2)" by fastforce
  let ?st3 = "st2\<lparr>rd_ok := rd_ok st2 \<and> n_dims \<le> GGML_MAX_DIMS\<rparr>"
  obtain ne st4 where 4: "read_dims n_dims (replicate GGML_MAX_DIMS 1) ?st3 = (ne, st4)" by fastforce
  obtain t st5 where 5: "fread_num 4 0 st4 = (t, st5)" by fastforce
  obtain offset st6 where 6: "fread_num 8 0 st5 = (offset, st6)" by fastforce
  let ?info = "mk_info name n_dims ne t (of_nat offset)"
  from run have s: "gguf_tensor_info_sanitize ?info = Inr ()" and i: "info = ?info"
    and st': "st' = st6\<lparr>rd_ok := rd_ok st6 \<and> (\<forall>i\<in>set infos. c_str (ti_name i) \<noteq> c_str name)\<rparr>"
    by (auto simp: read_info_def 1 2 4 5 6 Let_def bindE_Inr_iff mk_info_def)
  from st' assms have ok6: "rd_ok st6" and new: "\<forall>i\<in>set infos. c_str (ti_name i) \<noteq> c_str name" by auto
  then have st6: "st6 = st'" unfolding st' by (cases st6) auto
  have le: "n_dims \<le> GGML_MAX_DIMS" using sanitize_bounds [OF s] by (simp add: mk_info_def)
  from fread_num_iff [OF ok6] 6 have "rd_ok st5" by (auto simp: reads_to_ok)
  with fread_num_iff [of st5] 5 have "rd_ok st4" by (auto simp: reads_to_ok)
  with read_dims_iff [of st4 n_dims "replicate GGML_MAX_DIMS 1" ?st3 ne] 4 le have "rd_ok st2"
    by (auto simp: reads_to_def)
  then have "?st3 = st2" using le by (cases st2) auto
  with 4 have 4: "read_dims n_dims (replicate GGML_MAX_DIMS 1) st2 = (ne, st4)" by simp
  have "tensor_name info \<notin> tensor_name ` set infos" using new by (auto simp: i tensor_name_def mk_info_def)
  with i s [folded i] 1 2 4 5 6 [unfolded st6] show ?R by blast
next
  assume ?R
  then obtain name n_dims ne t offset st1 st2 st4 st5 where
    i: "info = mk_info name n_dims ne t (of_nat offset)"
    and s: "gguf_tensor_info_sanitize info = Inr ()" and new: "tensor_name info \<notin> tensor_name ` set infos"
    and 1: "fread_str mem st = Inr (name, st1)" and 2: "fread_num 4 0 st1 = (n_dims, st2)"
    and 4: "read_dims n_dims (replicate GGML_MAX_DIMS 1) st2 = (ne, st4)" and 5: "fread_num 4 0 st4 = (t, st5)"
    and 6: "fread_num 8 0 st5 = (offset, st')" by blast
  have le: "n_dims \<le> GGML_MAX_DIMS" using sanitize_bounds [OF s] by (simp add: i mk_info_def)
  from fread_num_iff [OF assms] 6 have "rd_ok st5" by (auto simp: reads_to_ok)
  with fread_num_iff [of st5] 5 have "rd_ok st4" by (auto simp: reads_to_ok)
  with read_dims_iff [of st4 n_dims "replicate GGML_MAX_DIMS 1" st2 ne] 4 le have "rd_ok st2"
    by (auto simp: reads_to_def)
  then have st3: "st2\<lparr>rd_ok := rd_ok st2 \<and> n_dims \<le> GGML_MAX_DIMS\<rparr> = st2" using le by (cases st2) auto
  have st': "st'\<lparr>rd_ok := rd_ok st' \<and> (\<forall>i\<in>set infos. c_str (ti_name i) \<noteq> c_str name)\<rparr> = st'"
  proof -
    have "\<forall>i\<in>set infos. c_str (ti_name i) \<noteq> c_str name" using new by (force simp: i tensor_name_def mk_info_def)
    with assms show ?thesis by (cases st') auto
  qed
  show "read_info mem infos st = Inr (info, st')"
    using s by (simp add: read_info_def 1 2 st3 4 5 6 Let_def st' i mk_info_def)
qed

lemma read_info_iff:
  assumes "rd_ok st'"
  shows "read_info mem infos st = Inr (info, st') \<longleftrightarrow> info_ok mem info \<and> file_info info = info
    \<and> tensor_name info \<notin> tensor_name ` set infos \<and> reads_to st (info_image info) st'"
proof
  assume "read_info mem infos st = Inr (info, st')"
  then obtain name n_dims ne t offset st1 st2 st4 st5 where
    i: "info = mk_info name n_dims ne t (of_nat offset)"
    and s: "gguf_tensor_info_sanitize info = Inr ()" and new: "tensor_name info \<notin> tensor_name ` set infos"
    and 1: "fread_str mem st = Inr (name, st1)" and 2: "fread_num 4 0 st1 = (n_dims, st2)"
    and 4: "read_dims n_dims (replicate GGML_MAX_DIMS 1) st2 = (ne, st4)" and 5: "fread_num 4 0 st4 = (t, st5)"
    and 6: "fread_num 8 0 st5 = (offset, st')" unfolding read_info_parts [OF assms] by blast
  have le: "n_dims \<le> GGML_MAX_DIMS" using sanitize_bounds [OF s] by (simp add: i mk_info_def)
  from 6 have 6: "offset < 256 ^ 8" "reads_to st5 (le_bytes 8 offset) st'" by (simp_all add: fread_num_iff [OF assms])
  from 5 reads_to_ok(1) [OF 6(2)] have 5: "reads_to st4 (le_bytes 4 t) st5" by (simp add: fread_num_iff)
  from 4 reads_to_ok(1) [OF 5] le have 4: "length ne = GGML_MAX_DIMS"
    "drop n_dims ne = drop n_dims (replicate GGML_MAX_DIMS 1)"
    "reads_to st2 (concat (map (\<lambda>x. le_bytes 8 (unat x)) (take n_dims ne))) st4"
    by (simp_all add: read_dims_iff)
  from 2 reads_to_ok(1) [OF 4(3)] have 2: "reads_to st1 (le_bytes 4 n_dims) st2" by (simp add: fread_num_iff)
  from 1 reads_to_ok(1) [OF 2] have 1: "str_ok mem name" "reads_to st (str_image name) st1"
    by (simp_all add: fread_str_iff)
  have "unat (of_nat offset :: u64) = offset" using 6(1) by (simp add: unat_of_nat)
  with 1 2 4 5 6 s new show "info_ok mem info \<and> file_info info = info
      \<and> tensor_name info \<notin> tensor_name ` set infos \<and> reads_to st (info_image info) st'"
    unfolding info_ok_def file_info_def info_image_def reads_to_append i mk_info_def by auto
next
  assume *: "info_ok mem info \<and> file_info info = info
    \<and> tensor_name info \<notin> tensor_name ` set infos \<and> reads_to st (info_image info) st'"
  have small: "unat (ti_offset info) < 256 ^ 8" using unsigned_less [of "ti_offset info"] by simp
  have s: "gguf_tensor_info_sanitize info = Inr ()" using * by (simp add: info_ok_def)
  note b = sanitize_bounds [OF s]
  from * obtain st1 st2 st4 st5 where reads: "reads_to st (str_image (ti_name info)) st1"
    "reads_to st1 (le_bytes 4 (ti_n_dims info)) st2"
    "reads_to st2 (concat (map (\<lambda>x. le_bytes 8 (unat x)) (take (ti_n_dims info) (ti_ne info)))) st4"
    "reads_to st4 (le_bytes 4 (ti_type info)) st5" "reads_to st5 (le_bytes 8 (unat (ti_offset info))) st'"
    by (auto simp: info_image_def reads_to_append)
  note ok = reads_to_ok(2) [OF reads(1)] reads_to_ok(2) [OF reads(2)] reads_to_ok(2) [OF reads(3)]
    reads_to_ok(2) [OF reads(4)]
  have "fread_str mem st = Inr (ti_name info, st1)"
    using * reads(1) ok by (simp add: fread_str_iff info_ok_def)
  moreover have "fread_num 4 0 st1 = (ti_n_dims info, st2)"
    using reads(2) ok b by (simp add: fread_num_iff GGML_MAX_DIMS_def)
  moreover have "read_dims (ti_n_dims info) (replicate GGML_MAX_DIMS 1) st2 = (ti_ne info, st4)"
    using * reads(3) ok b by (simp add: read_dims_iff info_ok_def)
  moreover have "fread_num 4 0 st4 = (ti_type info, st5)"
    using reads(4) ok b by (simp add: fread_num_iff GGML_TYPE_COUNT_def)
  moreover have "fread_num 8 0 st5 = (unat (ti_offset info), st')"
    using reads(5) small assms by (simp add: fread_num_iff)
  moreover have "info = mk_info (ti_name info) (ti_n_dims info) (ti_ne info) (ti_type info)
      (of_nat (unat (ti_offset info)))"
  proof -
    have "file_info info = info" using * by blast
    then have "ti_data info = []" "ti_size info = 0"
      unfolding file_info_def by (metis gguf_tensor_info.select_convs(6,7) gguf_tensor_info.surjective
        gguf_tensor_info.update_convs(6,7))+
    then show ?thesis by (simp add: mk_info_def)
  qed
  ultimately show "read_info mem infos st = Inr (info, st')"
    using s * unfolding read_info_parts [OF assms] by blast
qed

lemma read_infos_iff:
  assumes "rd_ok st'" "distinct (map tensor_name infos)"
  shows "read_infos mem n infos st = Inr (infos', st') \<longleftrightarrow>
    (\<exists>new. infos' = infos @ new \<and> n = length new \<and> list_all (info_ok mem) new \<and> map file_info new = new
      \<and> distinct (map tensor_name infos') \<and> reads_to st (concat (map info_image new)) st')"
  using assms(2)
proof (induction n arbitrary: infos st)
  case 0
  then show ?case using assms(1) by (auto simp: reads_to_Nil)
next
  case (Suc n)
  have "read_infos mem (Suc n) infos st = Inr (infos', st') \<longleftrightarrow>
      (\<exists>info st1. read_info mem infos st = Inr (info, st1) \<and> rd_ok st1
        \<and> read_infos mem n (infos @ [info]) st1 = Inr (infos', st'))"
    using assms(1) by (auto simp: bindE_Inr_iff split: if_splits)
  also have "\<dots> \<longleftrightarrow> (\<exists>info st1 new. info_ok mem info \<and> file_info info = info
      \<and> tensor_name info \<notin> tensor_name ` set infos \<and> reads_to st (info_image info) st1
      \<and> infos' = infos @ info # new \<and> n = length new \<and> list_all (info_ok mem) new \<and> map file_info new = new
      \<and> distinct (map tensor_name infos') \<and> reads_to st1 (concat (map info_image new)) st')"
  proof (intro iff_exI, goal_cases)
    case (1 info st1)
    show ?case
    proof (cases "rd_ok st1 \<and> tensor_name info \<notin> tensor_name ` set infos")
      case True
      then have "distinct (map tensor_name (infos @ [info]))" using Suc.prems by simp
      from Suc.IH [OF this, of st1] True show ?thesis by (simp add: read_info_iff)
    next
      case False
      then show ?thesis by (auto simp: read_info_iff reads_to_ok)
    qed
  qed
  also have "\<dots> \<longleftrightarrow> (\<exists>new. infos' = infos @ new \<and> Suc n = length new \<and> list_all (info_ok mem) new
      \<and> map file_info new = new \<and> distinct (map tensor_name infos')
      \<and> reads_to st (concat (map info_image new)) st')"
  proof
    assume "\<exists>new. infos' = infos @ new \<and> Suc n = length new \<and> list_all (info_ok mem) new
      \<and> map file_info new = new \<and> distinct (map tensor_name infos')
      \<and> reads_to st (concat (map info_image new)) st'"
    then obtain xs where xs: "infos' = infos @ xs" "Suc n = length xs" "list_all (info_ok mem) xs"
      "map file_info xs = xs" "distinct (map tensor_name infos')"
      "reads_to st (concat (map info_image xs)) st'" by blast
    then obtain info new where "xs = info # new" by (cases xs) auto
    with xs have *: "infos' = infos @ info # new" "n = length new"
      "list_all (info_ok mem) (info # new)" "map file_info (info # new) = info # new"
      "distinct (map tensor_name infos')" "reads_to st (concat (map info_image (info # new))) st'" by simp_all
    moreover from *(5) have "tensor_name info \<notin> tensor_name ` set infos" by (auto simp: *(1))
    ultimately show "\<exists>info st1 new. info_ok mem info \<and> file_info info = info
      \<and> tensor_name info \<notin> tensor_name ` set infos \<and> reads_to st (info_image info) st1
      \<and> infos' = infos @ info # new \<and> n = length new \<and> list_all (info_ok mem) new \<and> map file_info new = new
      \<and> distinct (map tensor_name infos') \<and> reads_to st1 (concat (map info_image new)) st'"
      by (auto simp: reads_to_append)
  next
    assume "\<exists>info st1 new. info_ok mem info \<and> file_info info = info
      \<and> tensor_name info \<notin> tensor_name ` set infos \<and> reads_to st (info_image info) st1
      \<and> infos' = infos @ info # new \<and> n = length new \<and> list_all (info_ok mem) new \<and> map file_info new = new
      \<and> distinct (map tensor_name infos') \<and> reads_to st1 (concat (map info_image new)) st'"
    then obtain info st1 new where *: "info_ok mem info" "file_info info = info" "reads_to st (info_image info) st1"
      "infos' = infos @ info # new" "n = length new" "list_all (info_ok mem) new" "map file_info new = new"
      "distinct (map tensor_name infos')" "reads_to st1 (concat (map info_image new)) st'" by blast
    from *(3,9) have "reads_to st (concat (map info_image (info # new))) st'" by (auto simp: reads_to_append)
    with * show "\<exists>new. infos' = infos @ new \<and> Suc n = length new \<and> list_all (info_ok mem) new
      \<and> map file_info new = new \<and> distinct (map tensor_name infos')
      \<and> reads_to st (concat (map info_image new)) st'"
      by (intro exI [of _ "info # new"]) simp
  qed
  finally show ?case .
qed

section \<open>Files\<close>

definition gguf_ok :: "(nat \<Rightarrow> bool) \<Rightarrow> gguf_context \<Rightarrow> bool" where
  "gguf_ok mem ctx \<longleftrightarrow> gc_magic ctx = GGUF_MAGIC \<and> gc_version ctx < 256 ^ 4 \<and> gc_version ctx \<noteq> 1
     \<and> header_ok (length (gc_infos ctx)) (length (gc_kv ctx))
     \<and> ggml_calloc_ok mem (length (gc_kv ctx)) 48 \<and> ggml_calloc_ok mem (length (gc_infos ctx)) 88
     \<and> list_all (kv_ok mem) (gc_kv ctx) \<and> list_all (info_ok mem) (gc_infos ctx)
     \<and> distinct (map tensor_name (gc_infos ctx))
     \<and> read_alignment ctx = Inr (gc_alignment ctx) \<and> gc_alignment ctx \<noteq> 0
     \<and> data_size (of_nat (gc_alignment ctx)) (gc_infos ctx) 0 = Inr (Some (gc_size ctx))"

definition round_up :: "nat \<Rightarrow> nat \<Rightarrow> nat" where
  "round_up al n = (if n mod al \<noteq> 0 then n + (al - n mod al) else n)"

lemma pad_offset_eq:
  "pad_offset offset al = (if al = 0 then Inl (UndefinedBehaviour ''division by zero'') else Inr (round_up al offset))"
  by (simp add: pad_offset_def round_up_def)

lemma data_section_iff:
  "gguf_data_section ctx offset = Inr (Some ctx') \<longleftrightarrow>
    read_alignment ctx = Inr (gc_alignment ctx') \<and> gc_alignment ctx' \<noteq> 0
    \<and> data_size (of_nat (gc_alignment ctx')) (gc_infos ctx) 0 = Inr (Some (gc_size ctx'))
    \<and> ctx' = ctx\<lparr>gc_alignment := gc_alignment ctx', gc_offset := round_up (gc_alignment ctx') offset,
               gc_size := gc_size ctx'\<rparr>"
  (is "?L \<longleftrightarrow> ?R")
proof
  assume ?L
  then show ?R
    by (auto simp: gguf_data_section_def bindE_Inr_iff pad_offset_eq split: option.splits if_splits)
next
  assume ?R
  then show ?L
    by (simp add: gguf_data_section_def pad_offset_eq)
qed

subsection \<open>What can go wrong\<close>

text \<open>Reading the sections fails only with an assertion or an allocation that is refused.\<close>

definition aborts :: "'a res \<Rightarrow> bool" where
  "aborts r \<longleftrightarrow> (\<forall>e. r = Inl e \<longrightarrow> (\<exists>m. e = Abort m))"

lemma aborts_simps [simp]: "aborts (Inr x)" "aborts (Inl e) \<longleftrightarrow> (\<exists>m. e = Abort m)"
  by (auto simp: aborts_def)

lemma aborts_bind: "aborts m \<Longrightarrow> (\<And>x. m = Inr x \<Longrightarrow> aborts (f x)) \<Longrightarrow> aborts (bindE m f)"
  by (cases m) (auto simp: aborts_def)

lemma aborts_str: "aborts (fread_str mem st)"
  by (auto simp: fread_str_def gguf_fread_str_def split: prod.splits)

lemma aborts_many: "(\<And>st. aborts (get st)) \<Longrightarrow> aborts (read_many get n st)"
  by (induction n arbitrary: st) (auto intro!: aborts_bind)

lemma aborts_elements: "aborts (read_elements mem t n st)"
proof (cases "gguf_type_of t")
  case (Some et)
  then show ?thesis
    by (cases et) (auto simp: read_elements_def Let_def split: prod.splits intro!: aborts_bind aborts_many aborts_str)
qed (simp add: read_elements_def)

lemma aborts_value: "aborts (read_value mem t st)"
proof (cases "gguf_type_of t")
  case (Some vt)
  then show ?thesis
    by (cases vt) (auto simp: read_value_def read_array_def Let_def aborts_elements split: prod.splits
        intro!: aborts_bind aborts_str)
qed (simp add: read_value_def)

lemma aborts_kv: "aborts (read_kv mem st)"
  unfolding read_kv_def
  by (auto intro!: aborts_bind aborts_str aborts_value split: prod.splits)

lemma read_dims_rest:
  "read_dims n ne st = (ys, st') \<Longrightarrow> length ys = length ne \<and> drop n ys = drop n ne"
  by (induction n ne st arbitrary: ys st' rule: read_dims.induct) (auto split: prod.splits)

lemma read_dims_fresh:
  assumes "read_dims n (replicate GGML_MAX_DIMS 1) st = (ys, st')"
  shows "length ys = GGML_MAX_DIMS" "drop n ys = replicate (GGML_MAX_DIMS - n) 1"
  using read_dims_rest [OF assms] by simp_all

lemma aborts_sanitize:
  assumes "length (ti_ne info) = GGML_MAX_DIMS"
    "drop (ti_n_dims info) (ti_ne info) = drop (ti_n_dims info) (replicate GGML_MAX_DIMS 1)"
  shows "aborts (gguf_tensor_info_sanitize info)"
proof (cases "ti_n_dims info > GGML_MAX_DIMS \<or> (\<exists>i \<in> set [0..<ti_n_dims info]. ti_ne info ! i = 0)")
  case True
  then show ?thesis by (auto simp: gguf_tensor_info_sanitize_def)
next
  case False
  have "ti_ne info ! i \<noteq> 0" if "i < 4" for i
  proof (cases "i < ti_n_dims info")
    case True
    with False show ?thesis by auto
  next
    case outside: False
    then have "ti_ne info ! i = drop (ti_n_dims info) (ti_ne info) ! (i - ti_n_dims info)"
      using assms(1) that by (simp add: GGML_MAX_DIMS_def)
    also have "\<dots> = 1" unfolding assms(2) using outside that by (simp add: GGML_MAX_DIMS_def)
    finally show ?thesis by simp
  qed
  then have "ti_ne info ! 1 \<noteq> 0" "ti_ne info ! 2 \<noteq> 0" "ti_ne info ! 3 \<noteq> 0" by simp_all
  then show ?thesis by (auto simp: gguf_tensor_info_sanitize_def int64_max_div_def)
qed

lemma aborts_sanitize_read:
  assumes "read_dims (ti_n_dims info) (replicate GGML_MAX_DIMS 1) st = (ti_ne info, st')"
  shows "aborts (gguf_tensor_info_sanitize info)"
  using read_dims_fresh [OF assms] by (intro aborts_sanitize) simp_all

lemma aborts_info: "aborts (read_info mem infos st)"
  unfolding read_info_def
  by (auto intro!: aborts_bind aborts_str aborts_sanitize_read simp: Let_def split: prod.splits)

lemma aborts_infos: "aborts (read_infos mem n infos st)"
  by (induction n arbitrary: infos st) (auto intro!: aborts_bind aborts_info)

subsection \<open>The sections\<close>

definition file_ctx :: "gguf_kv list \<Rightarrow> gguf_tensor_info list \<Rightarrow> nat \<Rightarrow> gguf_context" where
  "file_ctx kvs infos version = \<lparr>gc_magic = GGUF_MAGIC, gc_version = version, gc_kv = kvs, gc_infos = infos,
     gc_alignment = GGUF_DEFAULT_ALIGNMENT, gc_offset = 0, gc_size = 0\<rparr>"

definition sections_ok :: "(nat \<Rightarrow> bool) \<Rightarrow> gguf_kv list \<Rightarrow> gguf_tensor_info list \<Rightarrow> bool" where
  "sections_ok mem kvs infos \<longleftrightarrow> ggml_calloc_ok mem (length kvs) 48 \<and> ggml_calloc_ok mem (length infos) 88
     \<and> list_all (kv_ok mem) kvs \<and> list_all (info_ok mem) infos \<and> distinct (map tensor_name infos)"

definition sections_image :: "gguf_kv list \<Rightarrow> gguf_tensor_info list \<Rightarrow> byte list" where
  "sections_image kvs infos = concat (map kv_image kvs) @ concat (map info_image infos)"

text \<open>A result other than NULL and an abort is that of the data section.\<close>

lemma sections_iff:
  assumes "r \<noteq> Inr None" "\<not> aborts r \<or> (\<exists>ctx. r = Inr (Some ctx))"
  shows "gguf_read_sections mem version n_tensors n_kv st = r \<longleftrightarrow>
    (\<exists>kvs infos st'. n_kv = length kvs \<and> n_tensors = length infos \<and> sections_ok mem kvs infos
      \<and> map file_info infos = infos \<and> reads_to st (sections_image kvs infos) st'
      \<and> gguf_data_section (file_ctx kvs infos version) (rd_offset st') = r)" (is "?L \<longleftrightarrow> ?R")
proof
  assume ?L
  then have mem: "ggml_calloc_ok mem n_kv 48"
    using assms(2) by (auto simp: gguf_read_sections_def split: if_splits)
  obtain kvs st1 where kv: "read_many (read_kv mem) n_kv st = Inr (kvs, st1)"
  proof (cases "read_many (read_kv mem) n_kv st")
    case (Inl e)
    have "aborts (read_many (read_kv mem) n_kv st)" by (rule aborts_many) (rule aborts_kv)
    with Inl \<open>?L\<close> mem assms(2) show ?thesis by (auto simp: gguf_read_sections_def)
  qed (use that in force)
  with \<open>?L\<close> mem assms have ok1: "rd_ok st1" and mem2: "ggml_calloc_ok mem n_tensors 88"
    by (auto simp: gguf_read_sections_def split: if_splits)
  obtain infos st2 where ti: "read_infos mem n_tensors [] st1 = Inr (infos, st2)"
  proof (cases "read_infos mem n_tensors [] st1")
    case (Inl e)
    have "aborts (read_infos mem n_tensors [] st1)" by (rule aborts_infos)
    with Inl \<open>?L\<close> mem mem2 kv ok1 assms(2) show ?thesis by (auto simp: gguf_read_sections_def)
  qed (use that in force)
  with \<open>?L\<close> mem mem2 kv ok1 assms have ok2: "rd_ok st2"
    and data: "gguf_data_section (file_ctx kvs infos version) (rd_offset st2) = r"
    by (auto simp: gguf_read_sections_def file_ctx_def split: if_splits)
  from kv have kv: "n_kv = length kvs" "list_all (kv_ok mem) kvs" "reads_to st (concat (map kv_image kvs)) st1"
    by (simp_all add: kvs.many_iff [OF ok1])
  from ti have ti: "n_tensors = length infos" "list_all (info_ok mem) infos" "map file_info infos = infos"
    "distinct (map tensor_name infos)" "reads_to st1 (concat (map info_image infos)) st2"
    using read_infos_iff [OF ok2, of "[]"] by auto
  from mem mem2 kv ti data show ?R
    unfolding sections_ok_def sections_image_def reads_to_append by blast
next
  assume ?R
  then obtain kvs infos st1 st2 where len: "n_kv = length kvs" "n_tensors = length infos"
    and ok: "sections_ok mem kvs infos" "map file_info infos = infos"
    and kv: "reads_to st (concat (map kv_image kvs)) st1" and ti: "reads_to st1 (concat (map info_image infos)) st2"
    and data: "gguf_data_section (file_ctx kvs infos version) (rd_offset st2) = r"
    by (auto simp: sections_image_def reads_to_append)
  have "read_many (read_kv mem) n_kv st = Inr (kvs, st1)"
    using kv ok len by (simp add: kvs.many_iff reads_to_ok(2) [OF kv] sections_ok_def)
  moreover have "read_infos mem n_tensors [] st1 = Inr (infos, st2)"
    using ti ok len read_infos_iff [OF reads_to_ok(2) [OF ti], of "[]"] by (auto simp: sections_ok_def)
  ultimately show ?L
    using ok len data reads_to_ok(2) [OF kv] reads_to_ok(2) [OF ti]
    by (auto simp: gguf_read_sections_def sections_ok_def file_ctx_def)
qed

subsection \<open>The header\<close>

definition file_start :: "byte list \<Rightarrow> rd" where
  "file_start bs = \<lparr>rd_rest = bs, rd_offset = 0, rd_ok = True\<rparr>"

lemma length_magic [simp]: "length GGUF_MAGIC = 4"
  by (simp add: GGUF_MAGIC_def bytes_def)

lemma magic_iff:
  assumes "r \<noteq> Inr None"
  shows "gguf_init_from_file mem bs = r \<longleftrightarrow> (\<exists>st0 version n_tensors n_kv st1 st2 st3.
      reads_to (file_start bs) GGUF_MAGIC st0 \<and> fread_num 4 0 st0 = (version, st1)
      \<and> fread_num 8 0 st1 = (n_tensors, st2) \<and> fread_num 8 0 st2 = (n_kv, st3)
      \<and> version \<noteq> 1 \<and> rd_ok st3 \<and> header_ok n_tensors n_kv
      \<and> gguf_read_sections mem version n_tensors n_kv st3 = r)"
proof (cases "take 4 bs = GGUF_MAGIC")
  case True
  then have "length (take 4 bs) = 4" by simp
  let ?st0 = "\<lparr>rd_rest = drop 4 bs, rd_offset = 4, rd_ok = True\<rparr>"
  have "reads_to (file_start bs) GGUF_MAGIC st0 \<longleftrightarrow> st0 = ?st0" for st0
    using True append_take_drop_id [where xs = bs and n = 4]
    by (cases st0) (auto simp: reads_to_def file_start_def)
  with True assms \<open>length (take 4 bs) = 4\<close> show ?thesis
    by (auto simp: gguf_init_from_file_def gguf_fread_el_def split: prod.splits)
next
  case False
  then have "\<not> reads_to (file_start bs) GGUF_MAGIC st0" for st0
    by (auto simp: reads_to_def file_start_def)
  with False assms show ?thesis by (auto simp: gguf_init_from_file_def gguf_fread_el_def Let_def)
qed

lemma header_iff:
  assumes "r \<noteq> Inr None"
  shows "gguf_init_from_file mem bs = r \<longleftrightarrow> (\<exists>version n_tensors n_kv st.
      version \<noteq> 1 \<and> version < 256 ^ 4 \<and> header_ok n_tensors n_kv
      \<and> reads_to (file_start bs)
           (GGUF_MAGIC @ le_bytes 4 version @ le_bytes 8 n_tensors @ le_bytes 8 n_kv) st
      \<and> gguf_read_sections mem version n_tensors n_kv st = r)" (is "_ \<longleftrightarrow> ?R")
proof
  assume "gguf_init_from_file mem bs = r"
  then obtain st0 version n_tensors n_kv st1 st2 st3 where m: "reads_to (file_start bs) GGUF_MAGIC st0"
    and r: "fread_num 4 0 st0 = (version, st1)" "fread_num 8 0 st1 = (n_tensors, st2)" "fread_num 8 0 st2 = (n_kv, st3)"
    and h: "version \<noteq> 1" "rd_ok st3" "header_ok n_tensors n_kv"
    and s: "gguf_read_sections mem version n_tensors n_kv st3 = r" unfolding magic_iff [OF assms] by blast
  from r(3) h(2) have r3: "reads_to st2 (le_bytes 8 n_kv) st3" by (simp add: fread_num_iff)
  from r(2) reads_to_ok(1) [OF r3] have r2: "reads_to st1 (le_bytes 8 n_tensors) st2" by (simp add: fread_num_iff)
  from r(1) reads_to_ok(1) [OF r2] have "version < 256 ^ 4" "reads_to st0 (le_bytes 4 version) st1"
    by (simp_all add: fread_num_iff)
  with m r2 r3 h s show ?R unfolding reads_to_append by blast
next
  assume ?R
  then obtain version n_tensors n_kv st0 st1 st2 st3 where h: "version \<noteq> 1" "version < 256 ^ 4" "header_ok n_tensors n_kv"
    and r: "reads_to (file_start bs) GGUF_MAGIC st0" "reads_to st0 (le_bytes 4 version) st1"
      "reads_to st1 (le_bytes 8 n_tensors) st2" "reads_to st2 (le_bytes 8 n_kv) st3"
    and s: "gguf_read_sections mem version n_tensors n_kv st3 = r" unfolding reads_to_append by blast
  have "n_tensors < 256 ^ 8" "n_kv < 256 ^ 8" using h(3) by (simp_all add: header_ok_def SIZE_MAX_def)
  then have "fread_num 4 0 st0 = (version, st1)" "fread_num 8 0 st1 = (n_tensors, st2)" "fread_num 8 0 st2 = (n_kv, st3)"
    using r h by (simp_all add: fread_num_iff reads_to_ok(2) [OF r(2)] reads_to_ok(2) [OF r(3)] reads_to_ok(2) [OF r(4)])
  with r(1) h s reads_to_ok(2) [OF r(4)] show "gguf_init_from_file mem bs = r" unfolding magic_iff [OF assms] by blast
qed

lemma file_iff:
  assumes "r \<noteq> Inr None" "\<not> aborts r \<or> (\<exists>ctx. r = Inr (Some ctx))"
  shows "gguf_init_from_file mem bs = r \<longleftrightarrow> (\<exists>version kvs infos rest. version \<noteq> 1 \<and> version < 256 ^ 4
      \<and> header_ok (length infos) (length kvs) \<and> sections_ok mem kvs infos \<and> map file_info infos = infos
      \<and> bs = header_image (file_ctx kvs infos version) @ rest
      \<and> gguf_data_section (file_ctx kvs infos version) (length (header_image (file_ctx kvs infos version))) = r)"
proof -
  have image: "header_image (file_ctx kvs infos version) = (GGUF_MAGIC @ le_bytes 4 version
      @ le_bytes 8 (length infos) @ le_bytes 8 (length kvs)) @ sections_image kvs infos" for kvs infos version
    by (simp add: header_image_def file_ctx_def sections_image_def)
  have start: "(\<exists>st'. reads_to (file_start bs) xs st' \<and> P (rd_offset st')) \<longleftrightarrow> (\<exists>rest. bs = xs @ rest \<and> P (length xs))"
    for xs and P :: "nat \<Rightarrow> bool"
  proof
    assume "\<exists>rest. bs = xs @ rest \<and> P (length xs)"
    then obtain rest where "bs = xs @ rest" "P (length xs)" by blast
    then show "\<exists>st'. reads_to (file_start bs) xs st' \<and> P (rd_offset st')"
      by (intro exI [of _ "\<lparr>rd_rest = rest, rd_offset = length xs, rd_ok = True\<rparr>"])
        (simp add: reads_to_def file_start_def)
  qed (auto simp: reads_to_def file_start_def)
  have "gguf_init_from_file mem bs = r \<longleftrightarrow> (\<exists>version kvs infos. version \<noteq> 1 \<and> version < 256 ^ 4
      \<and> header_ok (length infos) (length kvs) \<and> sections_ok mem kvs infos \<and> map file_info infos = infos
      \<and> (\<exists>st'. reads_to (file_start bs) (header_image (file_ctx kvs infos version)) st'
        \<and> gguf_data_section (file_ctx kvs infos version) (rd_offset st') = r))"
    unfolding header_iff [OF assms(1)] sections_iff [OF assms] image reads_to_append [of _ _ "sections_image _ _"]
    by blast
  moreover have "(\<exists>st'. reads_to (file_start bs) (header_image (file_ctx kvs infos version)) st'
        \<and> gguf_data_section (file_ctx kvs infos version) (rd_offset st') = r) \<longleftrightarrow>
      (\<exists>rest. bs = header_image (file_ctx kvs infos version) @ rest
        \<and> gguf_data_section (file_ctx kvs infos version) (length (header_image (file_ctx kvs infos version))) = r)"
    for kvs infos version
    by (rule start)
  ultimately show ?thesis by (simp only:) blast
qed

lemma init_iff:
  "gguf_init_from_file mem bs = Inr (Some ctx) \<longleftrightarrow>
    gguf_ok mem ctx \<and> map file_info (gc_infos ctx) = gc_infos ctx
    \<and> gc_offset ctx = round_up (gc_alignment ctx) (length (header_image ctx))
    \<and> (\<exists>rest. bs = header_image ctx @ rest)"
  (is "?L \<longleftrightarrow> ?R")
proof -
  have al: "read_alignment (file_ctx (gc_kv ctx) infos version) = read_alignment ctx" for infos version
    by (simp add: file_ctx_def read_alignment_def gguf_find_key_def gguf_get_val_u32_def kv_at_def
        gguf_get_n_kv_def Let_def)
  have image: "gc_magic ctx = GGUF_MAGIC \<Longrightarrow> header_image (file_ctx (gc_kv ctx) (gc_infos ctx) (gc_version ctx)) = header_image ctx"
    by (simp add: header_image_def file_ctx_def)
  have parse: "?L \<longleftrightarrow> (\<exists>version kvs infos rest. version \<noteq> 1 \<and> version < 256 ^ 4
      \<and> header_ok (length infos) (length kvs) \<and> sections_ok mem kvs infos \<and> map file_info infos = infos
      \<and> bs = header_image (file_ctx kvs infos version) @ rest
      \<and> gguf_data_section (file_ctx kvs infos version) (length (header_image (file_ctx kvs infos version))) = Inr (Some ctx))"
    by (rule file_iff) auto
  show ?thesis
  proof
    assume ?L
    then obtain version kvs infos rest where h: "version \<noteq> 1" "version < 256 ^ 4" "header_ok (length infos) (length kvs)"
      "sections_ok mem kvs infos" "map file_info infos = infos" "bs = header_image (file_ctx kvs infos version) @ rest"
      and data: "gguf_data_section (file_ctx kvs infos version) (length (header_image (file_ctx kvs infos version)))
        = Inr (Some ctx)" unfolding parse by blast
    note d = data [unfolded data_section_iff]
    then have c: "ctx = (file_ctx kvs infos version)\<lparr>gc_alignment := gc_alignment ctx,
        gc_offset := round_up (gc_alignment ctx) (length (header_image (file_ctx kvs infos version))),
        gc_size := gc_size ctx\<rparr>" by blast
    from arg_cong [OF c, of gc_kv] arg_cong [OF c, of gc_infos] arg_cong [OF c, of gc_version]
      arg_cong [OF c, of gc_magic] arg_cong [OF c, of gc_offset]
    have ctx: "gc_kv ctx = kvs" "gc_infos ctx = infos" "gc_version ctx = version" "gc_magic ctx = GGUF_MAGIC"
      "gc_offset ctx = round_up (gc_alignment ctx) (length (header_image (file_ctx kvs infos version)))"
      by (simp_all add: file_ctx_def)
    have "gc_infos (file_ctx kvs infos version) = infos" by (simp add: file_ctx_def)
    with h d ctx al image show ?R unfolding gguf_ok_def sections_ok_def by auto
  next
    assume R: ?R
    then have m: "gc_magic ctx = GGUF_MAGIC" by (simp add: gguf_ok_def)
    have "gguf_data_section (file_ctx (gc_kv ctx) (gc_infos ctx) (gc_version ctx)) (length (header_image ctx)) = Inr (Some ctx)"
      unfolding data_section_iff al using R m by (simp add: gguf_ok_def file_ctx_def)
    with R show ?L
      unfolding parse image [OF m, symmetric] by (auto simp: gguf_ok_def sections_ok_def)
  qed
qed

end
