(* ===== verification/GgufProps.thy ===== *)
theory GgufProps
  imports GgufRoundtrip
begin

text \<open>
  The properties of the GGUF container: writing and reading are inverse, what a reader can fail with,
  and two files on which the library goes wrong.
\<close>

section \<open>Padding\<close>

lemma word_and_not_mask: "unat ((y :: u64) AND NOT (mask k)) = unat y div 2 ^ k * 2 ^ k"
proof -
  have y: "unat y < 2 ^ 64" using unsigned_less [of y] by simp
  have "y AND NOT (mask k) = push_bit k (drop_bit k y)" by (rule bit_eqI) (auto simp: bit_simps)
  then have "unat (y AND NOT (mask k)) = take_bit 64 (push_bit k (unat (drop_bit k y)))"
    by (simp only: unsigned_push_bit_eq) simp
  also have "unat (drop_bit k y) = drop_bit k (unat y)"
    using y by (simp only: unsigned_drop_bit_eq) (simp add: take_bit_nat_eq_self)
  also have "push_bit k (drop_bit k (unat y)) = unat y div 2 ^ k * 2 ^ k"
    by (simp add: push_bit_eq_mult drop_bit_eq_div)
  finally have "unat (y AND NOT (mask k)) = take_bit 64 (unat y div 2 ^ k * 2 ^ k)" .
  also have "\<dots> = unat y div 2 ^ k * 2 ^ k"
  proof (rule take_bit_nat_eq_self)
    have "unat y div 2 ^ k * 2 ^ k \<le> unat y" by (simp add: div_times_less_eq_dividend)
    also note y
    finally show "unat y div 2 ^ k * 2 ^ k < 2 ^ 64" .
  qed
  finally show ?thesis .
qed

lemma round_up_div: "0 < al \<Longrightarrow> round_up al n = (n + al - 1) div al * al"
proof -
  assume al: "0 < al"
  define q r where "q = n div al" and "r = n mod al"
  then have n: "n = q * al + r" "r < al" using al by simp_all
  show ?thesis
  proof (cases "r = 0")
    case True
    have "n + al - 1 = (al - 1) + q * al" using n al True by simp
    moreover have "(al - 1) div al = 0" using al by simp
    ultimately have "(n + al - 1) div al = q" using al by (simp only: div_mult_self1)
    with True n show ?thesis by (simp add: round_up_def)
  next
    case False
    have "n + al - 1 = (r - 1) + (q + 1) * al" using n False by (simp add: algebra_simps)
    moreover have "(r - 1) div al = 0" using n by simp
    ultimately have "(n + al - 1) div al = q + 1" using al by (simp only: div_mult_self1)
    with n False show ?thesis by (simp add: round_up_def algebra_simps)
  qed
qed

lemma round_up_ge: "n \<le> round_up al n"
  by (simp add: round_up_def)

lemma pad_power:
  assumes "n + 2 ^ k < 2 ^ 64"
  shows "unat (GGML_PAD (of_nat n) (of_nat (2 ^ k))) = round_up (2 ^ k) n"
proof -
  have "(of_nat n + of_nat (2 ^ k) - 1 :: u64) = of_nat (n + 2 ^ k - 1)"
    by (subst of_nat_diff) (simp_all add: Suc_le_eq)
  moreover have "unat (of_nat (n + 2 ^ k - 1) :: u64) = n + 2 ^ k - 1"
    using assms by (simp add: unat_of_nat take_bit_nat_eq_self)
  moreover have "(of_nat (2 ^ k) - 1 :: u64) = mask k" by (simp add: mask_eq_exp_minus_1)
  ultimately show ?thesis by (simp add: GGML_PAD_def word_and_not_mask round_up_div)
qed

lemma padding_power:
  assumes "n + 2 ^ k < 2 ^ 64"
  shows "n + padding (2 ^ k) n = round_up (2 ^ k) n"
proof -
  have n: "unat (of_nat n :: u64) = n" using assms by (simp add: unat_of_nat take_bit_nat_eq_self)
  have "(of_nat n :: u64) \<le> GGML_PAD (of_nat n) (of_nat (2 ^ k))"
    using pad_power [OF assms] round_up_ge [of n "2 ^ k"] by (simp add: word_le_nat_alt n)
  then have "padding (2 ^ k) n = round_up (2 ^ k) n - n"
    unfolding padding_def by (simp add: unat_sub pad_power [OF assms, simplified] n)
  then show ?thesis using round_up_ge [of n "2 ^ k"] by simp
qed

section \<open>Writing and reading\<close>

lemma gguf_ok_writable: "gguf_ok mem ctx \<Longrightarrow> writable ctx"
  by (auto simp: gguf_ok_def writable_def list_all_iff kv_ok_def info_ok_def value_ok_wf dest: sanitize_bounds)

definition reread :: "gguf_context \<Rightarrow> gguf_context" where
  "reread ctx = ctx\<lparr>gc_infos := map file_info (gc_infos ctx), gc_offset := length (meta_image ctx)\<rparr>"

lemma length_padded: "length (padded al bs) = length bs + padding al (length bs)"
  by (simp add: padded_def)

lemma file_info_simps [simp]:
  "ti_name (file_info info) = ti_name info" "ti_n_dims (file_info info) = ti_n_dims info"
  "ti_ne (file_info info) = ti_ne info" "ti_type (file_info info) = ti_type info"
  "ti_offset (file_info info) = ti_offset info" "file_info (file_info info) = file_info info"
  by (simp_all add: file_info_def)

lemma image_file_info [simp]: "info_image (file_info info) = info_image info"
  by (simp add: info_image_def)

lemma info_ok_file_info [simp]: "info_ok mem (file_info info) = info_ok mem info"
  by (simp add: info_ok_def gguf_tensor_info_sanitize_def cong: if_cong)

lemma data_size_file_info: "data_size al (map file_info infos) acc = data_size al infos acc"
  by (induction infos arbitrary: acc) (simp_all add: n_elements_def cong: if_cong)

lemma header_reread [simp]: "header_image (reread ctx) = header_image ctx"
  by (simp add: header_image_def reread_def comp_def)

lemma reread_ok:
  assumes "gguf_ok mem ctx"
  shows "gguf_ok mem (reread ctx)"
proof -
  have "map tensor_name (map file_info infos) = map tensor_name infos" for infos
    by (simp add: tensor_name_def)
  moreover have "read_alignment (reread ctx) = read_alignment ctx"
    by (simp add: reread_def read_alignment_def gguf_find_key_def gguf_get_val_u32_def kv_at_def
        gguf_get_n_kv_def Let_def)
  moreover have "list_all (info_ok mem) (map file_info infos) = list_all (info_ok mem) infos" for infos
    by (simp add: list_all_iff)
  ultimately show ?thesis
    using assms unfolding gguf_ok_def by (simp add: reread_def data_size_file_info del: map_map)
qed

lemma written_read:
  assumes "gguf_ok mem ctx" "gc_alignment ctx = 2 ^ k" "length (header_image ctx) + 2 ^ k < 2 ^ 64"
  shows "gguf_init_from_file mem (meta_image ctx @ rest) = Inr (Some (reread ctx))"
proof -
  have "length (meta_image ctx) = round_up (gc_alignment ctx) (length (header_image ctx))"
    using padding_power [OF assms(3)] by (simp add: meta_image_def length_padded assms(2))
  then have "gc_offset (reread ctx) = round_up (gc_alignment (reread ctx)) (length (header_image (reread ctx)))"
    by (simp only: header_reread) (simp add: reread_def)
  moreover have "meta_image ctx @ rest = header_image (reread ctx)
      @ replicate (padding (gc_alignment ctx) (length (header_image ctx))) 0 @ rest"
    by (simp add: meta_image_def padded_def)
  moreover have "map file_info (gc_infos (reread ctx)) = gc_infos (reread ctx)"
    by (simp add: reread_def)
  ultimately show ?thesis unfolding init_iff using reread_ok [OF assms(1)] by blast
qed

text \<open>The data of a tensor stand at its offset in the data section.\<close>

lemma offsets_data:
  assumes "offsets_ok al off infos" "al = 2 ^ k" "i < length infos" "unat off = length pre"
    and "length (pre @ concat (map (\<lambda>info. padded al (ti_data info)) infos)) + al < 2 ^ 64"
  shows "take (ti_size (infos ! i)) (drop (unat (ti_offset (infos ! i)))
      (pre @ concat (map (\<lambda>info. padded al (ti_data info)) infos))) = ti_data (infos ! i)"
  using assms(1,3-)
proof (induction infos arbitrary: off pre i)
  case Nil
  then show ?case by simp
next
  case (Cons info infos)
  from Cons.prems(1) [unfolded offsets_ok.simps] have
    info: "length (ti_data info) = ti_size info" "ti_offset info = off" and
    rest: "offsets_ok al (off + GGML_PAD (of_nat (ti_size info)) (of_nat al)) infos" by blast+
  show ?case
  proof (cases i)
    case 0
    then show ?thesis using info Cons.prems(3) by (simp add: padded_def)
  next
    case (Suc j)
    let ?off = "off + GGML_PAD (of_nat (ti_size info)) (of_nat al)" and ?pre = "pre @ padded al (ti_data info)"
    have small: "ti_size info + 2 ^ k < 2 ^ 64"
      using Cons.prems(4) by (simp add: length_padded info(1) assms(2))
    have pad: "unat (GGML_PAD (of_nat (ti_size info)) (of_nat al)) = length (padded al (ti_data info))"
      using pad_power [OF small] padding_power [OF small] by (simp add: length_padded assms(2) info(1))
    have "unat ?off = length ?pre"
      using Cons.prems(3,4) pad by (subst unat_plus_simple [THEN iffD1]) (simp_all add: no_olen_add_nat)
    from Cons.IH [OF rest _ this, of j] Cons.prems(2,4) Suc show ?thesis by simp
  qed
qed

text \<open>
  C33: a context that a file can hold, whose alignment is a power of two, is written without an error, in the
  size that the sizing pass without memory computes, and read back unchanged with whatever follows it; when the
  tensor data are written as well, and the tensors have the offsets that adding them one after the other gives
  (\<open>offsets_ok\<close>), the bytes at the offset of each tensor in the data section are its data.
\<close>

theorem gguf_roundtrip:
  assumes "gguf_ok mem ctx" "gc_alignment ctx = 2 ^ k" "length (header_image ctx) + 2 ^ k < 2 ^ 64"
  shows "\<exists>meta. gguf_get_meta_data ctx = Inr meta \<and> gguf_get_meta_size ctx = Inr (length meta)
    \<and> (\<forall>rest. gguf_init_from_file mem (meta @ rest) = Inr (Some (reread ctx)))
    \<and> (offsets_ok (gc_alignment ctx) 0 (gc_infos ctx) \<and> length (data_image ctx) + 2 ^ k < 2 ^ 64 \<longrightarrow>
       (\<exists>data. gguf_write_to_file ctx False = Inr (meta @ data)
         \<and> (\<forall>info\<in>set (gc_infos ctx). take (ti_size info) (drop (unat (ti_offset info)) data) = ti_data info)))"
proof (rule exI [of _ "meta_image ctx"], intro conjI allI impI)
  note w = gguf_written [OF gguf_ok_writable [OF assms(1)]]
  show "gguf_get_meta_data ctx = Inr (meta_image ctx)" "gguf_get_meta_size ctx = Inr (length (meta_image ctx))"
    by (rule w)+
  show "gguf_init_from_file mem (meta_image ctx @ rest) = Inr (Some (reread ctx))" for rest
    by (rule written_read [OF assms])
  assume o: "offsets_ok (gc_alignment ctx) 0 (gc_infos ctx) \<and> length (data_image ctx) + 2 ^ k < 2 ^ 64"
  have "take (ti_size info) (drop (unat (ti_offset info)) (data_image ctx)) = ti_data info"
    if "info \<in> set (gc_infos ctx)" for info
    using that offsets_data [of "gc_alignment ctx" 0 "gc_infos ctx" k _ "[]"] o assms(2)
    by (auto simp: in_set_conv_nth data_image_def)
  then show "\<exists>data. gguf_write_to_file ctx False = Inr (meta_image ctx @ data)
      \<and> (\<forall>info\<in>set (gc_infos ctx). take (ti_size info) (drop (unat (ti_offset info)) data) = ti_data info)"
    using w(4) o by blast
qed

text \<open>
  An alignment that is no power of two is read as any other, and the reader pads to multiples of it; the bit mask
  of the writer does not: after 10 bytes the one expects the data at 48, the other puts them at 16.
\<close>

lemma alignment_not_power: "pad_offset 10 48 = Inr 48" "10 + padding 48 10 = 16"
  by (simp_all add: pad_offset_def padding_def GGML_PAD_def)

section \<open>Exactness of the reader\<close>

lemma mult_below:
  assumes "unat (x :: u64) < unat (INT64_MAX div y)"
  shows "unat x * unat y < 2 ^ 63" "unat (x * y) = unat x * unat y"
proof -
  have M: "unat INT64_MAX = 2 ^ 63 - 1" by (simp add: INT64_MAX_def)
  have "unat x < (2 ^ 63 - 1) div unat y" using assms by (simp add: unat_div M)
  then have "unat x * unat y \<le> (2 ^ 63 - 1) div unat y * unat y" by (intro mult_right_mono) simp_all
  also have "\<dots> \<le> 2 ^ 63 - 1" by (rule div_times_less_eq_dividend)
  finally show *: "unat x * unat y < 2 ^ 63" by simp
  then show "unat (x * y) = unat x * unat y" by (intro unat_mult_lem [THEN iffD1]) simp
qed

lemma sanitize_elements:
  assumes "gguf_tensor_info_sanitize info = Inr ()"
  shows "n_elements info = Inr (ti_ne info ! 0 * ti_ne info ! 1 * ti_ne info ! 2 * ti_ne info ! 3)"
proof -
  let ?a = "ti_ne info ! 0" and ?b = "ti_ne info ! 1" and ?c = "ti_ne info ! 2" and ?d = "ti_ne info ! 3"
  from assms have "?a < INT64_MAX div ?b" "?a * ?b < INT64_MAX div ?c" "?a * ?b * ?c < INT64_MAX div ?d"
    by (auto simp: gguf_tensor_info_sanitize_def int64_max_div_def bindE_Inr_iff split: if_splits)
  then have "unat ?a < unat (INT64_MAX div ?b)" "unat (?a * ?b) < unat (INT64_MAX div ?c)"
    "unat (?a * ?b * ?c) < unat (INT64_MAX div ?d)" by (simp_all add: word_less_nat_alt)
  note m = mult_below [OF this(1)] mult_below [OF this(2)] mult_below [OF this(3)]
  then have "unat ?a * unat ?b * unat ?c * unat ?d < 2 ^ 63" by simp
  then show ?thesis by (simp add: n_elements_def)
qed

lemma data_size_total:
  "list_all (info_ok mem) infos \<Longrightarrow> \<exists>sz. data_size al infos acc = Inr sz"
  by (induction infos arbitrary: acc) (auto simp: info_ok_def sanitize_elements)

lemma read_alignment_aborts: "aborts (read_alignment ctx)"
  by (auto simp: read_alignment_def gguf_get_val_u32_def kv_at_def Let_def intro!: aborts_bind
      split: prod.splits gguf_value.splits)

lemma data_section_undefined:
  assumes "list_all (info_ok mem) (gc_infos ctx)"
  shows "gguf_data_section ctx off = Inl (UndefinedBehaviour m) \<longleftrightarrow>
    m = ''division by zero'' \<and> read_alignment ctx = Inr 0"
proof (cases "read_alignment ctx")
  case (Inl e)
  with read_alignment_aborts [of ctx] show ?thesis by (auto simp: gguf_data_section_def)
next
  case (Inr al)
  obtain sz where "data_size (of_nat al) (gc_infos ctx) 0 = Inr sz" using data_size_total [OF assms] by blast
  with Inr show ?thesis by (auto simp: gguf_data_section_def pad_offset_eq split: option.splits)
qed

text \<open>
  C34: the reader returns a context exactly for the files that begin with the image of this context, if
  it is well-formed; and whatever bytes it is given, the only undefined behaviour it can run into is
  the division by an alignment that the file declares to be zero.
\<close>

theorem gguf_read_exact:
  "(gguf_init_from_file mem bs = Inr (Some ctx) \<longleftrightarrow>
     gguf_ok mem ctx \<and> map file_info (gc_infos ctx) = gc_infos ctx
     \<and> gc_offset ctx = round_up (gc_alignment ctx) (length (header_image ctx))
     \<and> (\<exists>rest. bs = header_image ctx @ rest))
   \<and> (gguf_init_from_file mem bs = Inl (UndefinedBehaviour m) \<longleftrightarrow>
     m = ''division by zero''
     \<and> (\<exists>version kvs infos rest. version \<noteq> 1 \<and> version < 256 ^ 4 \<and> header_ok (length infos) (length kvs)
       \<and> sections_ok mem kvs infos \<and> map file_info infos = infos
       \<and> read_alignment (file_ctx kvs infos version) = Inr 0
       \<and> bs = header_image (file_ctx kvs infos version) @ rest))"
proof
  let ?ub = "Inl (UndefinedBehaviour m) :: gguf_context option res"
  have "gguf_init_from_file mem bs = ?ub \<longleftrightarrow> (\<exists>version kvs infos rest. version \<noteq> 1 \<and> version < 256 ^ 4
      \<and> header_ok (length infos) (length kvs) \<and> sections_ok mem kvs infos \<and> map file_info infos = infos
      \<and> bs = header_image (file_ctx kvs infos version) @ rest
      \<and> gguf_data_section (file_ctx kvs infos version) (length (header_image (file_ctx kvs infos version))) = ?ub)"
    by (rule file_iff) auto
  moreover have "gguf_data_section (file_ctx kvs infos version) off = ?ub \<longleftrightarrow>
      m = ''division by zero'' \<and> read_alignment (file_ctx kvs infos version) = Inr 0"
    if "sections_ok mem kvs infos" for kvs infos version off
    using that by (intro data_section_undefined [where mem = mem]) (simp add: sections_ok_def file_ctx_def)
  ultimately show "gguf_init_from_file mem bs = ?ub \<longleftrightarrow> m = ''division by zero''
     \<and> (\<exists>version kvs infos rest. version \<noteq> 1 \<and> version < 256 ^ 4 \<and> header_ok (length infos) (length kvs)
       \<and> sections_ok mem kvs infos \<and> map file_info infos = infos
       \<and> read_alignment (file_ctx kvs infos version) = Inr 0
       \<and> bs = header_image (file_ctx kvs infos version) @ rest)" by blast
qed (rule init_iff)

text \<open>A file of one pair, \<open>general.alignment = 0\<close>, makes it happen.\<close>

lemma zero_alignment_divides:
  "gguf_init_from_file (\<lambda>_. True)
     (header_image (file_ctx [(bytes ''general.alignment'', VUint32 0)] [] GGUF_VERSION))
   = Inl (UndefinedBehaviour ''division by zero'')" (is "?run = ?ub")
proof -
  let ?kvs = "[(bytes ''general.alignment'', VUint32 0)]"
  have al: "read_alignment (file_ctx ?kvs [] GGUF_VERSION) = Inr 0"
    by (simp add: read_alignment_def file_ctx_def gguf_find_key_def gguf_get_val_u32_def kv_at_def gguf_get_n_kv_def)
  then have data: "gguf_data_section (file_ctx ?kvs [] GGUF_VERSION)
      (length (header_image (file_ctx ?kvs [] GGUF_VERSION))) = ?ub"
    by (simp add: gguf_data_section_def pad_offset_eq)
  have ok: "sections_ok (\<lambda>_. True) ?kvs []" "header_ok 0 (length ?kvs)" "GGUF_VERSION \<noteq> 1" "GGUF_VERSION < 256 ^ 4"
    by (simp_all add: sections_ok_def ggml_calloc_ok_def kv_ok_def str_ok_def SIZE_MAX_def bytes_def
        header_ok_def GGML_TENSOR_OVERHEAD_def GGUF_VERSION_def)
  have "?run = ?ub \<longleftrightarrow> (\<exists>version kvs infos rest. version \<noteq> 1 \<and> version < 256 ^ 4
      \<and> header_ok (length infos) (length kvs) \<and> sections_ok (\<lambda>_. True) kvs infos \<and> map file_info infos = infos
      \<and> header_image (file_ctx ?kvs [] GGUF_VERSION) = header_image (file_ctx kvs infos version) @ rest
      \<and> gguf_data_section (file_ctx kvs infos version) (length (header_image (file_ctx kvs infos version))) = ?ub)"
    by (rule file_iff) auto
  also have "\<dots>"
    using ok data by (intro exI [of _ GGUF_VERSION] exI [of _ ?kvs] exI [of _ "[]"]) auto
  finally show ?thesis .
qed

section \<open>A context with a tensor\<close>

definition small_ctx :: gguf_context where
  "small_ctx = gguf_init_empty\<lparr>
     gc_kv := [(bytes ''general.alignment'', VUint32 8), (bytes ''a'', VStrings [bytes ''x'', []])],
     gc_infos := [\<lparr>ti_name = bytes ''t'', ti_n_dims = 1, ti_ne = [3, 1, 1, 1], ti_type = 24, ti_offset = 0,
                  ti_data = [1, 2, 3], ti_size = 3\<rparr>,
                 \<lparr>ti_name = bytes ''u'', ti_n_dims = 1, ti_ne = [1, 1, 1, 1], ti_type = 24, ti_offset = 8,
                  ti_data = [4], ti_size = 1\<rparr>],
     gc_alignment := 8, gc_size := 16\<rparr>"

lemma small_ctx_fields:
  "gc_magic small_ctx = GGUF_MAGIC" "gc_version small_ctx = 3" "length (gc_kv small_ctx) = 2"
  "length (gc_infos small_ctx) = 2" "gc_alignment small_ctx = 8" "gc_size small_ctx = 16"
  by (simp_all add: small_ctx_def gguf_init_empty_def GGUF_VERSION_def)

lemma small_ctx_alignment: "read_alignment small_ctx = Inr 8"
  by (simp add: read_alignment_def small_ctx_def gguf_find_key_def gguf_get_val_u32_def kv_at_def gguf_get_n_kv_def)

lemma small_ctx_infos:
  "list_all (info_ok (\<lambda>_. True)) (gc_infos small_ctx)" "distinct (map tensor_name (gc_infos small_ctx))"
  by (simp_all add: small_ctx_def info_ok_def str_ok_def SIZE_MAX_def bytes_def GGML_MAX_DIMS_def tensor_name_def
      c_str_def gguf_tensor_info_sanitize_def GGML_TYPE_COUNT_def int64_max_div_def INT64_MAX_def numeral_3_eq_3)

lemma small_ctx_size: "data_size 8 (gc_infos small_ctx) 0 = Inr (Some 16)"
  by (simp add: small_ctx_def n_elements_def ggml_blck_size_def ggml_row_size_def ggml_type_size_def type_traits_def
      GGML_PAD_def)

lemma small_ctx_ok: "gguf_ok (\<lambda>_. True) small_ctx"
  using small_ctx_infos small_ctx_size
  by (simp add: gguf_ok_def small_ctx_fields small_ctx_alignment header_ok_def SIZE_MAX_def
      GGML_TENSOR_OVERHEAD_def ggml_calloc_ok_def)
     (simp add: small_ctx_def kv_ok_def str_ok_def bytes_def SIZE_MAX_def ggml_calloc_ok_def)

lemma small_ctx_header: "length (header_image small_ctx) = 165"
  by (simp add: header_image_def small_ctx_def gguf_init_empty_def kv_image_def info_image_def str_image_def
      value_image_def bytes_def)

lemma small_ctx_data: "offsets_ok 8 0 (gc_infos small_ctx)" "length (data_image small_ctx) = 16"
proof -
  have "padding 8 3 = 5" "padding 8 1 = 7" by (simp_all add: padding_def GGML_PAD_def)
  then show "length (data_image small_ctx) = 16" by (simp add: small_ctx_def data_image_def padded_def numeral_3_eq_3)
qed (simp add: small_ctx_def GGML_PAD_def)

theorem gguf_roundtrip_witness:
  "\<exists>meta data. gguf_get_meta_data small_ctx = Inr meta
    \<and> gguf_init_from_file (\<lambda>_. True) (meta @ data) = Inr (Some (reread small_ctx))
    \<and> gguf_write_to_file small_ctx False = Inr (meta @ data) \<and> take 1 (drop 8 data) = [4]"
proof -
  have "gc_alignment small_ctx = 2 ^ 3" "length (header_image small_ctx) + 2 ^ 3 < 2 ^ 64"
    by (simp_all add: small_ctx_fields small_ctx_header)
  from gguf_roundtrip [OF small_ctx_ok this] obtain meta data where
    "gguf_get_meta_data small_ctx = Inr meta"
    "\<And>rest. gguf_init_from_file (\<lambda>_. True) (meta @ rest) = Inr (Some (reread small_ctx))"
    "gguf_write_to_file small_ctx False = Inr (meta @ data)"
    "\<forall>info\<in>set (gc_infos small_ctx). take (ti_size info) (drop (unat (ti_offset info)) data) = ti_data info"
    using small_ctx_data by (auto simp: small_ctx_fields)
  then show ?thesis by (intro exI [of _ meta] exI [of _ data]) (simp add: small_ctx_def)
qed

end
