(* ===== verification/GgufEdit.thy ===== *)
theory GgufEdit
  imports GgufProps
begin

text \<open>
  The interface to a \<open>gguf_context\<close> in memory (\<open>src/ggml/src/ggml.c\<close>): access to the pairs, setting
  and removing keys, adding tensors. The pairs are shown to behave as a map from keys to values, and
  the offsets to be those the writer asserts.
\<close>

section \<open>Access\<close>

text \<open>A returned \<open>const char *\<close> is the string up to its first NUL.\<close>

definition gguf_get_key :: "gguf_context \<Rightarrow> int \<Rightarrow> byte list res" where
  "gguf_get_key ctx key_id = bindE (kv_at ctx key_id) (\<lambda>(k, _). Inr (c_str k))"

definition gguf_get_kv_type :: "gguf_context \<Rightarrow> int \<Rightarrow> gguf_type res" where
  "gguf_get_kv_type ctx key_id = bindE (kv_at ctx key_id) (\<lambda>(_, v). Inr (value_type v))"

definition get_val :: "(gguf_value \<Rightarrow> 'a option) \<Rightarrow> gguf_context \<Rightarrow> int \<Rightarrow> 'a res" where
  "get_val sel ctx key_id =
    bindE (kv_at ctx key_id) (\<lambda>(_, v). case sel v of Some x \<Rightarrow> Inr x | None \<Rightarrow> Inl (Abort ''ctx->kv[key_id].type''))"

definition gguf_get_val_u8 :: "gguf_context \<Rightarrow> int \<Rightarrow> byte res" where
  "gguf_get_val_u8 = get_val (\<lambda>v. case v of VUint8 x \<Rightarrow> Some x | _ \<Rightarrow> None)"

definition gguf_get_val_i8 :: "gguf_context \<Rightarrow> int \<Rightarrow> byte res" where
  "gguf_get_val_i8 = get_val (\<lambda>v. case v of VInt8 x \<Rightarrow> Some x | _ \<Rightarrow> None)"

definition gguf_get_val_u16 :: "gguf_context \<Rightarrow> int \<Rightarrow> 16 word res" where
  "gguf_get_val_u16 = get_val (\<lambda>v. case v of VUint16 x \<Rightarrow> Some x | _ \<Rightarrow> None)"

definition gguf_get_val_i16 :: "gguf_context \<Rightarrow> int \<Rightarrow> 16 word res" where
  "gguf_get_val_i16 = get_val (\<lambda>v. case v of VInt16 x \<Rightarrow> Some x | _ \<Rightarrow> None)"

definition gguf_get_val_i32 :: "gguf_context \<Rightarrow> int \<Rightarrow> u32 res" where
  "gguf_get_val_i32 = get_val (\<lambda>v. case v of VInt32 x \<Rightarrow> Some x | _ \<Rightarrow> None)"

definition gguf_get_val_f32 :: "gguf_context \<Rightarrow> int \<Rightarrow> u32 res" where
  "gguf_get_val_f32 = get_val (\<lambda>v. case v of VFloat32 x \<Rightarrow> Some x | _ \<Rightarrow> None)"

definition gguf_get_val_u64 :: "gguf_context \<Rightarrow> int \<Rightarrow> u64 res" where
  "gguf_get_val_u64 = get_val (\<lambda>v. case v of VUint64 x \<Rightarrow> Some x | _ \<Rightarrow> None)"

definition gguf_get_val_i64 :: "gguf_context \<Rightarrow> int \<Rightarrow> u64 res" where
  "gguf_get_val_i64 = get_val (\<lambda>v. case v of VInt64 x \<Rightarrow> Some x | _ \<Rightarrow> None)"

definition gguf_get_val_f64 :: "gguf_context \<Rightarrow> int \<Rightarrow> u64 res" where
  "gguf_get_val_f64 = get_val (\<lambda>v. case v of VFloat64 x \<Rightarrow> Some x | _ \<Rightarrow> None)"

definition gguf_get_val_bool :: "gguf_context \<Rightarrow> int \<Rightarrow> bool res" where
  "gguf_get_val_bool = get_val (\<lambda>v. case v of VBool x \<Rightarrow> Some (x \<noteq> 0) | _ \<Rightarrow> None)"

definition gguf_get_val_str :: "gguf_context \<Rightarrow> int \<Rightarrow> byte list res" where
  "gguf_get_val_str = get_val (\<lambda>v. case v of VString s \<Rightarrow> Some (c_str s) | _ \<Rightarrow> None)"

definition gguf_get_arr_type :: "gguf_context \<Rightarrow> int \<Rightarrow> gguf_type res" where
  "gguf_get_arr_type = get_val (\<lambda>v. case v of VArray et _ _ \<Rightarrow> Some et | VStrings _ \<Rightarrow> Some GGUF_TYPE_STRING | _ \<Rightarrow> None)"

text \<open>The length is returned as an \<open>int\<close>: beyond 31 bits it wraps.\<close>

definition gguf_get_arr_n :: "gguf_context \<Rightarrow> int \<Rightarrow> int res" where
  "gguf_get_arr_n ctx key_id =
    bindE (get_val (\<lambda>v. case v of VArray _ n _ \<Rightarrow> Some n | VStrings ss \<Rightarrow> Some (length ss) | _ \<Rightarrow> None) ctx key_id)
      (\<lambda>n. Inr (sint (of_nat n :: u32)))"

text \<open>
  The type of the elements is not checked: the string of an array without strings is a pointer made
  of whatever its data are.
\<close>

definition gguf_get_arr_str :: "gguf_context \<Rightarrow> int \<Rightarrow> nat \<Rightarrow> byte list res" where
  "gguf_get_arr_str ctx key_id i =
    bindE (get_val (\<lambda>v. if value_type v = GGUF_TYPE_ARRAY then Some v else None) ctx key_id) (\<lambda>v. case v of
      VStrings ss \<Rightarrow> if i < length ss then Inr (c_str (ss ! i)) else Inl (UndefinedBehaviour ''arr.data[i]'')
    | _ \<Rightarrow> Inl (UndefinedBehaviour ''arr.data[i]''))"

definition gguf_find_tensor :: "gguf_context \<Rightarrow> byte list \<Rightarrow> int" where
  "gguf_find_tensor ctx name = find_from (\<lambda>info. c_str name = c_str (ti_name info)) 0 (gc_infos ctx)"

text \<open>No assertion guards the index.\<close>

definition gguf_get_tensor_offset :: "gguf_context \<Rightarrow> int \<Rightarrow> u64 res" where
  "gguf_get_tensor_offset ctx i =
    (if 0 \<le> i \<and> i < int (length (gc_infos ctx)) then Inr (ti_offset (gc_infos ctx ! nat i))
     else Inl (UndefinedBehaviour ''ctx->infos[i]''))"

section \<open>Setting and removing keys\<close>

text \<open>The new pair has no value yet; every caller stores one at the returned index.\<close>

definition gguf_get_or_add_key :: "gguf_context \<Rightarrow> byte list \<Rightarrow> int \<times> gguf_context" where
  "gguf_get_or_add_key ctx key =
    (let idx = gguf_find_key ctx key in
     if idx \<ge> 0 then (idx, ctx)
     else (gguf_get_n_kv ctx, ctx\<lparr>gc_kv := gc_kv ctx @ [(c_str key, VUint8 0)]\<rparr>))"

definition gguf_set_val :: "gguf_context \<Rightarrow> byte list \<Rightarrow> gguf_value \<Rightarrow> gguf_context" where
  "gguf_set_val ctx key v =
    (let (idx, ctx1) = gguf_get_or_add_key ctx key in
     ctx1\<lparr>gc_kv := (gc_kv ctx1)[nat idx := (fst (gc_kv ctx1 ! nat idx), v)]\<rparr>)"

definition gguf_remove_key :: "gguf_context \<Rightarrow> byte list \<Rightarrow> gguf_context" where
  "gguf_remove_key ctx key =
    (let idx = gguf_find_key ctx key in
     if idx \<ge> 0 then ctx\<lparr>gc_kv := take (nat idx) (gc_kv ctx) @ drop (Suc (nat idx)) (gc_kv ctx)\<rparr> else ctx)"

definition gguf_set_val_u32 :: "gguf_context \<Rightarrow> byte list \<Rightarrow> u32 \<Rightarrow> gguf_context" where
  "gguf_set_val_u32 ctx key val = gguf_set_val ctx key (VUint32 val)"

definition gguf_set_val_str :: "gguf_context \<Rightarrow> byte list \<Rightarrow> byte list \<Rightarrow> gguf_context" where
  "gguf_set_val_str ctx key val = gguf_set_val ctx key (VString (c_str val))"

definition gguf_set_arr_str :: "gguf_context \<Rightarrow> byte list \<Rightarrow> byte list list \<Rightarrow> gguf_context" where
  "gguf_set_arr_str ctx key ss = gguf_set_val ctx key (VStrings (map c_str ss))"

definition gguf_set_arr_data :: "gguf_context \<Rightarrow> byte list \<Rightarrow> gguf_type \<Rightarrow> byte list \<Rightarrow> nat \<Rightarrow> gguf_context res" where
  "gguf_set_arr_data ctx key t data n =
    (if length data < n * gguf_type_size t then Inl (UndefinedBehaviour ''memcpy'')
     else Inr (gguf_set_val ctx key (VArray t n (take (n * gguf_type_size t) data))))"

definition set_from :: "gguf_kv \<Rightarrow> gguf_context \<Rightarrow> gguf_context res" where
  "set_from kv ctx =
    (case snd kv of
       VString s \<Rightarrow> Inr (gguf_set_val_str ctx (c_str (fst kv)) s)
     | VStrings ss \<Rightarrow> Inr (gguf_set_arr_str ctx (c_str (fst kv)) ss)
     | VArray t n data \<Rightarrow>
         if t = GGUF_TYPE_ARRAY then Inl (Abort ''nested arrays not supported'')
         else gguf_set_arr_data ctx (c_str (fst kv)) t data n
     | v \<Rightarrow> Inr (gguf_set_val ctx (c_str (fst kv)) v))"

definition gguf_set_kv :: "gguf_context \<Rightarrow> gguf_context \<Rightarrow> gguf_context res" where
  "gguf_set_kv ctx src = foldE set_from (gc_kv src) ctx"

section \<open>Tensors\<close>

record ggml_tensor =
  gt_name :: "byte list"
  gt_type :: nat
  gt_ne :: "u64 list"
  gt_nb :: "u64 list"
  gt_data :: "byte list"

definition ggml_n_dims :: "ggml_tensor \<Rightarrow> nat" where
  "ggml_n_dims tensor =
    (if gt_ne tensor ! 3 > 1 then 4 else if gt_ne tensor ! 2 > 1 then 3 else if gt_ne tensor ! 1 > 1 then 2 else 1)"

text \<open>All arithmetic on sizes wraps around.\<close>

definition ggml_nbytes :: "ggml_tensor \<Rightarrow> u64" where
  "ggml_nbytes tensor =
    (let blck = ggml_blck_size (gt_type tensor); dim = \<lambda>i. (gt_ne tensor ! i - 1) * gt_nb tensor ! i in
     if blck = 1 then of_nat (ggml_type_size (gt_type tensor)) + dim 0 + dim 1 + dim 2 + dim 3
     else gt_ne tensor ! 0 * gt_nb tensor ! 0 div of_nat blck + dim 1 + dim 2 + dim 3)"

definition gguf_add_tensor :: "gguf_context \<Rightarrow> ggml_tensor \<Rightarrow> gguf_context res" where
  "gguf_add_tensor ctx tensor =
    (if gguf_find_tensor ctx (gt_name tensor) \<noteq> -1 then Inl (Abort ''duplicated tensor name'')
     else
       (let n = ggml_n_dims tensor;
            offset = (if gc_infos ctx = [] then 0
              else ti_offset (last (gc_infos ctx))
                + GGML_PAD (of_nat (ti_size (last (gc_infos ctx)))) (of_nat (gc_alignment ctx)))
        in Inr (ctx\<lparr>gc_infos := gc_infos ctx @ [\<lparr>ti_name = c_str (gt_name tensor), ti_n_dims = n,
             ti_ne = take n (gt_ne tensor) @ replicate (GGML_MAX_DIMS - n) 1, ti_type = gt_type tensor,
             ti_offset = offset, ti_data = gt_data tensor, ti_size = unat (ggml_nbytes tensor)\<rparr>]\<rparr>)))"

definition gguf_set_tensor_type :: "gguf_context \<Rightarrow> byte list \<Rightarrow> nat \<Rightarrow> gguf_context res" where
  "gguf_set_tensor_type ctx name t =
    (let idx = gguf_find_tensor ctx name in
     if idx < 0 then Inl (Abort ''tensor not found'')
     else Inr (ctx\<lparr>gc_infos := (gc_infos ctx)[nat idx := (gc_infos ctx ! nat idx)\<lparr>ti_type := t\<rparr>]\<rparr>))"

text \<open>The loop over the tensors behind the changed one; \<open>prev\<close> is the one in front.\<close>

fun update_offsets :: "nat \<Rightarrow> gguf_tensor_info \<Rightarrow> gguf_tensor_info list \<Rightarrow> gguf_tensor_info list" where
  "update_offsets al prev [] = []"
| "update_offsets al prev (info # infos) =
    (let info' = info\<lparr>ti_offset := ti_offset prev + GGML_PAD (of_nat (ti_size prev)) (of_nat al)\<rparr>
     in info' # update_offsets al info' infos)"

definition gguf_set_tensor_data :: "gguf_context \<Rightarrow> byte list \<Rightarrow> byte list \<Rightarrow> nat \<Rightarrow> gguf_context res" where
  "gguf_set_tensor_data ctx name data sz =
    (let idx = gguf_find_tensor ctx name in
     if idx < 0 then Inl (Abort ''tensor not found'')
     else
       (let info = (gc_infos ctx ! nat idx)\<lparr>ti_data := data, ti_size := sz\<rparr>
        in Inr (ctx\<lparr>gc_infos := take (nat idx) (gc_infos ctx) @ info
                 # update_offsets (gc_alignment ctx) info (drop (Suc (nat idx)) (gc_infos ctx))\<rparr>)))"

section \<open>A store of keys\<close>

text \<open>What a store of values under keys promises; \<open>norm\<close> is what it distinguishes of a key.\<close>

locale key_store =
  fixes norm :: "'k \<Rightarrow> 'j" and lookup :: "'s \<Rightarrow> 'j \<Rightarrow> 'v option" and put :: "'s \<Rightarrow> 'k \<Rightarrow> 'v \<Rightarrow> 's"
    and remove :: "'s \<Rightarrow> 'k \<Rightarrow> 's" and inv :: "'s \<Rightarrow> bool"
  assumes lookup_put: "lookup (put s k v) = (lookup s)(norm k \<mapsto> v)"
    and lookup_remove: "inv s \<Longrightarrow> lookup (remove s k) = (lookup s)(norm k := None)"
    and inv_put: "inv s \<Longrightarrow> inv (put s k v)"
    and inv_remove: "inv s \<Longrightarrow> inv (remove s k)"
begin

abbreviation put_all :: "'s \<Rightarrow> ('k \<times> 'v) list \<Rightarrow> 's" where
  "put_all s kvs \<equiv> foldl (\<lambda>s kv. put s (fst kv) (snd kv)) s kvs"

lemma inv_put_all: "inv s \<Longrightarrow> inv (put_all s kvs)"
  by (induction kvs arbitrary: s) (auto simp: inv_put)

lemma lookup_put_all:
  assumes "distinct (map (\<lambda>kv. norm (fst kv)) kvs)"
  shows "lookup (put_all s kvs) = lookup s ++ map_of (map (\<lambda>kv. (norm (fst kv), snd kv)) kvs)"
  using assms
proof (induction kvs arbitrary: s)
  case (Cons kv kvs)
  let ?m = "map_of (map (\<lambda>kv. (norm (fst kv), snd kv)) kvs)"
  have "norm (fst kv) \<notin> dom ?m" using Cons.prems by (auto simp: dom_map_of_conv_image_fst image_image)
  then have upd: "lookup (put s (fst kv) (snd kv)) ++ ?m = lookup s ++ ?m(norm (fst kv) \<mapsto> snd kv)"
    unfolding lookup_put by (simp add: map_add_upd_left del: fun_upd_apply)
  have "lookup (put_all s (kv # kvs)) = lookup (put s (fst kv) (snd kv)) ++ ?m"
    unfolding foldl.simps by (rule Cons.IH) (use Cons.prems in simp)
  also note upd
  finally show ?case by (simp only: list.map map_of.simps fst_conv snd_conv)
qed simp

end

section \<open>The pairs as a map\<close>

definition kv_map :: "gguf_context \<Rightarrow> byte list \<Rightarrow> gguf_value option" where
  "kv_map ctx = map_of (map (\<lambda>kv. (c_str (fst kv), snd kv)) (gc_kv ctx))"

definition keys_distinct :: "gguf_context \<Rightarrow> bool" where
  "keys_distinct ctx \<longleftrightarrow> distinct (map (\<lambda>kv. c_str (fst kv)) (gc_kv ctx))"

lemma c_str_idem [simp]: "c_str (c_str s) = c_str s"
  by (simp add: c_str_def takeWhile_idem)

lemma find_from_range: "find_from P i xs = -1 \<or> (i \<le> find_from P i xs \<and> find_from P i xs < i + int (length xs))"
  if "0 \<le> i"
  using that
proof (induction xs arbitrary: i)
  case (Cons x xs)
  from Cons.IH [of "i + 1"] Cons.prems show ?case by auto
qed simp

lemma find_from_iff:
  "0 \<le> i \<Longrightarrow> find_from P i xs = i + int j \<longleftrightarrow> j < length xs \<and> P (xs ! j) \<and> (\<forall>l<j. \<not> P (xs ! l))"
proof (induction xs arbitrary: i j)
  case (Cons x xs)
  show ?case
  proof (cases j)
    case 0
    then show ?thesis using find_from_range [of "i + 1" P xs] Cons.prems by auto
  next
    case (Suc l)
    then have "find_from P (i + 1) xs = i + int j \<longleftrightarrow> find_from P (i + 1) xs = (i + 1) + int l" by auto
    with Cons.IH [of "i + 1" l] Cons.prems Suc show ?thesis by (auto simp: less_Suc_eq_0_disj All_less_Suc2)
  qed
qed simp

lemma find_from_none: "0 \<le> i \<Longrightarrow> find_from P i xs = -1 \<longleftrightarrow> (\<forall>x\<in>set xs. \<not> P x)"
proof (induction xs arbitrary: i)
  case (Cons x xs)
  from Cons.IH [of "i + 1"] Cons.prems show ?case by auto
qed simp

text \<open>A search either fails or splits the list at the first hit.\<close>

lemma find_from_cases:
  obtains (none) "find_from P 0 xs = -1" "\<forall>x\<in>set xs. \<not> P x"
  | (found) ys x zs where "xs = ys @ x # zs" "P x" "\<forall>y\<in>set ys. \<not> P y" "find_from P 0 xs = int (length ys)"
proof (cases "find_from P 0 xs = -1")
  case True
  with find_from_none [of 0 P xs] show ?thesis by (intro none) simp_all
next
  case False
  then obtain j where j: "find_from P 0 xs = int j" "j < length xs"
    using find_from_range [of 0 P xs] by (cases "find_from P 0 xs" rule: int_cases2) auto
  then have "P (xs ! j)" "\<forall>l<j. \<not> P (xs ! l)" using find_from_iff [of 0 P xs j] by auto
  with j show ?thesis
    by (intro found [of "take j xs" "xs ! j" "drop (Suc j) xs"])
      (auto simp: id_take_nth_drop [symmetric] in_set_conv_nth)
qed

lemma find_key_cases:
  obtains (none) "gguf_find_key ctx key = -1" "c_str key \<notin> (\<lambda>kv. c_str (fst kv)) ` set (gc_kv ctx)"
  | (found) ys k v zs where "gc_kv ctx = ys @ (k, v) # zs" "c_str k = c_str key"
      "c_str key \<notin> (\<lambda>kv. c_str (fst kv)) ` set ys" "gguf_find_key ctx key = int (length ys)"
proof (cases rule: find_from_cases [of "\<lambda>kv. c_str (fst kv) = c_str key" "gc_kv ctx"])
  case none
  from none(2) have "c_str key \<notin> (\<lambda>kv. c_str (fst kv)) ` set (gc_kv ctx)" by force
  with none(1) show ?thesis using that(1) by (simp add: gguf_find_key_def)
next
  case (found ys x zs)
  then show ?thesis
    by (intro that(2) [of ys "fst x" "snd x" zs]) (auto simp: gguf_find_key_def)
qed

lemma map_of_notin:
  "k \<notin> (\<lambda>kv. f (fst kv)) ` set ys \<Longrightarrow> map_of (map (\<lambda>kv. (f (fst kv), snd kv)) ys) k = None"
  by (simp add: map_of_eq_None_iff image_image)

lemma kv_map_put: "kv_map (gguf_set_val ctx key v) = (kv_map ctx)(c_str key \<mapsto> v)"
proof (cases rule: find_key_cases [of ctx key])
  case none
  then have "map_of (map (\<lambda>kv. (c_str (fst kv), snd kv)) (gc_kv ctx)) (c_str key) = None" by (intro map_of_notin)
  with none(1) show ?thesis
    by (intro ext) (simp add: kv_map_def gguf_set_val_def gguf_get_or_add_key_def gguf_get_n_kv_def map_add_def
        split: option.split)
next
  case (found ys k w zs)
  from found(3) have "map_of (map (\<lambda>kv. (c_str (fst kv), snd kv)) ys) (c_str key) = None" by (intro map_of_notin)
  with found show ?thesis
    by (intro ext) (simp add: kv_map_def gguf_set_val_def gguf_get_or_add_key_def map_add_def split: option.split)
qed

lemma kv_map_remove:
  assumes "keys_distinct ctx"
  shows "kv_map (gguf_remove_key ctx key) = (kv_map ctx)(c_str key := None)"
proof (cases rule: find_key_cases [of ctx key])
  case none
  then have "map_of (map (\<lambda>kv. (c_str (fst kv), snd kv)) (gc_kv ctx)) (c_str key) = None" by (intro map_of_notin)
  with none(1) show ?thesis by (auto simp: gguf_remove_key_def kv_map_def)
next
  case (found ys k w zs)
  from found(3) have 1: "map_of (map (\<lambda>kv. (c_str (fst kv), snd kv)) ys) (c_str key) = None" by (intro map_of_notin)
  have "c_str key \<notin> (\<lambda>kv. c_str (fst kv)) ` set zs" using assms found(1,2) by (auto simp: keys_distinct_def)
  then have "map_of (map (\<lambda>kv. (c_str (fst kv), snd kv)) zs) (c_str key) = None" by (intro map_of_notin)
  with found 1 show ?thesis
    by (intro ext) (simp add: kv_map_def gguf_remove_key_def map_add_def split: option.split)
qed

lemma keys_distinct_put: "keys_distinct ctx \<Longrightarrow> keys_distinct (gguf_set_val ctx key v)"
  by (cases rule: find_key_cases [of ctx key])
     (simp_all add: keys_distinct_def gguf_set_val_def gguf_get_or_add_key_def gguf_get_n_kv_def)

lemma keys_distinct_remove: "keys_distinct ctx \<Longrightarrow> keys_distinct (gguf_remove_key ctx key)"
  by (cases rule: find_key_cases [of ctx key])
     (auto simp: keys_distinct_def gguf_remove_key_def)

interpretation pairs: key_store c_str kv_map gguf_set_val gguf_remove_key keys_distinct
  by unfold_locales (rule kv_map_put kv_map_remove keys_distinct_put keys_distinct_remove, assumption?)+

text \<open>Copied strings end at their first NUL.\<close>

fun copied :: "gguf_value \<Rightarrow> gguf_value" where
  "copied (VString s) = VString (c_str s)"
| "copied (VStrings ss) = VStrings (map c_str ss)"
| "copied v = v"

lemma map_of_map_snd:
  "map_of (map (\<lambda>x. (f x, g (snd x))) xs) k = map_option g (map_of (map (\<lambda>x. (f x, snd x)) xs) k)"
  by (induction xs) auto

lemma set_from_value:
  assumes "value_wf (snd kv)"
  shows "set_from kv ctx = Inr (gguf_set_val ctx (c_str (fst kv)) (copied (snd kv)))"
  using assms by (cases "snd kv")
    (auto simp: set_from_def gguf_set_val_str_def gguf_set_arr_str_def gguf_set_arr_data_def)

lemma set_kv_put_all:
  "list_all (\<lambda>kv. value_wf (snd kv)) kvs \<Longrightarrow>
   foldE set_from kvs ctx = Inr (pairs.put_all ctx (map (\<lambda>kv. (c_str (fst kv), copied (snd kv))) kvs))"
  by (induction kvs arbitrary: ctx) (auto simp: set_from_value)

lemma get_val_lookup:
  "gguf_find_key ctx key \<noteq> -1 \<Longrightarrow>
   get_val sel ctx (gguf_find_key ctx key) = (case Option.bind (kv_map ctx (c_str key)) sel of
      Some x \<Rightarrow> Inr x | None \<Rightarrow> Inl (Abort ''ctx->kv[key_id].type''))"
proof (cases rule: find_key_cases [of ctx key])
  case (found ys k w zs)
  then have "kv_map ctx (c_str key) = Some w"
    by (simp add: kv_map_def map_add_def map_of_notin)
  with found show ?thesis by (simp add: get_val_def kv_at_def gguf_get_n_kv_def)
qed simp

lemma find_key_iff: "gguf_find_key ctx key = -1 \<longleftrightarrow> kv_map ctx (c_str key) = None"
  by (cases rule: find_key_cases [of ctx key]) (auto simp: kv_map_def map_add_def map_of_notin)

text \<open>
  C35: the pairs of a context are a map from keys (up to their first NUL) to values: lookups read it,
  setting a key updates it, removing one deletes it, and copying the pairs of another context
  overrides it with that one's map, its strings cut at their first NUL; keys stay distinct.
\<close>

theorem gguf_pairs_refine_map:
  assumes "keys_distinct ctx" "keys_distinct src" "list_all (\<lambda>kv. value_wf (snd kv)) (gc_kv src)"
  shows "(if gguf_find_key ctx key = -1 then kv_map ctx (c_str key) = None
      else get_val sel ctx (gguf_find_key ctx key) = (case Option.bind (kv_map ctx (c_str key)) sel of
        Some x \<Rightarrow> Inr x | None \<Rightarrow> Inl (Abort ''ctx->kv[key_id].type'')))
    \<and> kv_map (gguf_set_val ctx key v) = (kv_map ctx)(c_str key \<mapsto> v) \<and> keys_distinct (gguf_set_val ctx key v)
    \<and> kv_map (gguf_remove_key ctx key) = (kv_map ctx)(c_str key := None) \<and> keys_distinct (gguf_remove_key ctx key)
    \<and> (\<exists>ctx'. gguf_set_kv ctx src = Inr ctx' \<and> keys_distinct ctx'
        \<and> kv_map ctx' = kv_map ctx ++ (\<lambda>k. map_option copied (kv_map src k)))"
proof (intro conjI)
  show "if gguf_find_key ctx key = -1 then kv_map ctx (c_str key) = None
      else get_val sel ctx (gguf_find_key ctx key) = (case Option.bind (kv_map ctx (c_str key)) sel of
        Some x \<Rightarrow> Inr x | None \<Rightarrow> Inl (Abort ''ctx->kv[key_id].type''))"
    using get_val_lookup [of ctx key sel] by (simp add: find_key_iff)
  let ?kvs = "map (\<lambda>kv. (c_str (fst kv), copied (snd kv))) (gc_kv src)"
  have "distinct (map (\<lambda>kv. c_str (fst kv)) ?kvs)" using assms(2) by (simp add: keys_distinct_def comp_def)
  note all = pairs.lookup_put_all [OF this, of ctx]
  have "map_of (map (\<lambda>kv. (c_str (fst kv), snd kv)) ?kvs) = (\<lambda>k. map_option copied (kv_map src k))"
    by (rule ext) (simp add: kv_map_def comp_def map_of_map_snd [of "\<lambda>kv. c_str (fst kv)" copied])
  with all pairs.inv_put_all [OF assms(1)] show "\<exists>ctx'. gguf_set_kv ctx src = Inr ctx' \<and> keys_distinct ctx'
        \<and> kv_map ctx' = kv_map ctx ++ (\<lambda>k. map_option copied (kv_map src k))"
    by (simp add: gguf_set_kv_def set_kv_put_all [OF assms(3)])
qed (simp_all only: pairs.lookup_put pairs.lookup_remove pairs.inv_put pairs.inv_remove assms)

lemma two_keys: "keys_distinct small_ctx" "keys_distinct (gguf_set_val gguf_init_empty (bytes ''b'') (VString [1, 0, 2]))"
  "list_all (\<lambda>kv. value_wf (snd kv)) (gc_kv (gguf_set_val gguf_init_empty (bytes ''b'') (VString [1, 0, 2])))"
  by (simp_all add: keys_distinct_def small_ctx_def bytes_def c_str_def gguf_set_val_def gguf_get_or_add_key_def
      gguf_find_key_def gguf_init_empty_def gguf_get_n_kv_def)

theorem gguf_pairs_refine_map_witness:
  "\<exists>ctx'. gguf_set_kv small_ctx (gguf_set_val gguf_init_empty (bytes ''b'') (VString [1, 0, 2])) = Inr ctx'
    \<and> kv_map ctx' (bytes ''b'') = Some (VString [1])"
proof -
  let ?src = "gguf_set_val gguf_init_empty (bytes ''b'') (VString [1, 0, 2])"
  have src: "kv_map ?src (bytes ''b'') = Some (VString [1, 0, 2])"
    by (simp add: kv_map_put c_str_def bytes_def)
  from gguf_pairs_refine_map [OF two_keys, where key = "[]" and v = "VBool 0" and sel = "\<lambda>v. Some v"]
  obtain ctx' where "gguf_set_kv small_ctx ?src = Inr ctx'"
    "kv_map ctx' = kv_map small_ctx ++ (\<lambda>k. map_option copied (kv_map ?src k))" by blast
  then show ?thesis by (simp add: src map_add_def c_str_def)
qed

section \<open>The offsets of the tensors\<close>

lemma offsets_snoc:
  "offsets_ok al off (infos @ [info]) \<longleftrightarrow> offsets_ok al off infos \<and> length (ti_data info) = ti_size info
    \<and> ti_offset info = (if infos = [] then off
        else ti_offset (last infos) + GGML_PAD (of_nat (ti_size (last infos))) (of_nat al))"
proof (induction infos arbitrary: off)
  case Nil
  then show ?case by simp
next
  case (Cons i infos)
  show ?case unfolding append_Cons offsets_ok.simps Cons.IH by (cases "infos = []") auto
qed

lemma offsets_update:
  "list_all (\<lambda>info. length (ti_data info) = ti_size info) infos \<Longrightarrow>
   offsets_ok al (ti_offset prev + GGML_PAD (of_nat (ti_size prev)) (of_nat al)) (update_offsets al prev infos)"
proof (induction infos arbitrary: prev)
  case (Cons info infos)
  from Cons.IH [of "info\<lparr>ti_offset := ti_offset prev + GGML_PAD (of_nat (ti_size prev)) (of_nat al)\<rparr>"] Cons.prems
  show ?case by (simp add: Let_def)
qed simp

lemma offsets_append:
  "offsets_ok al off (xs @ ys) \<longleftrightarrow> offsets_ok al off xs
    \<and> offsets_ok al (foldl (\<lambda>off info. off + GGML_PAD (of_nat (ti_size info)) (of_nat al)) off xs) ys"
  by (induction xs arbitrary: off) auto

lemma offsets_sizes: "offsets_ok al off infos \<Longrightarrow> list_all (\<lambda>info. length (ti_data info) = ti_size info) infos"
  by (induction infos arbitrary: off) auto

text \<open>Contexts built through the interface, from tensors whose data have the size of their shape.\<close>

inductive built :: "gguf_context \<Rightarrow> bool" where
  built_empty: "built gguf_init_empty"
| built_set: "built ctx \<Longrightarrow> value_wf v \<Longrightarrow> built (gguf_set_val ctx key v)"
| built_remove: "built ctx \<Longrightarrow> built (gguf_remove_key ctx key)"
| built_add: "built ctx \<Longrightarrow> length (gt_ne tensor) = GGML_MAX_DIMS
    \<Longrightarrow> length (gt_data tensor) = unat (ggml_nbytes tensor) \<Longrightarrow> gguf_add_tensor ctx tensor = Inr ctx' \<Longrightarrow> built ctx'"
| built_type: "built ctx \<Longrightarrow> gguf_set_tensor_type ctx name t = Inr ctx' \<Longrightarrow> built ctx'"
| built_data: "built ctx \<Longrightarrow> gguf_set_tensor_data ctx name data (length data) = Inr ctx' \<Longrightarrow> built ctx'"

definition built_inv :: "gguf_context \<Rightarrow> bool" where
  "built_inv ctx \<longleftrightarrow> writable ctx \<and> offsets_ok (gc_alignment ctx) 0 (gc_infos ctx)"

lemma set_val_inv: "built_inv ctx \<Longrightarrow> value_wf v \<Longrightarrow> built_inv (gguf_set_val ctx key v)"
  by (cases rule: find_key_cases [of ctx key])
     (auto simp: built_inv_def writable_def gguf_set_val_def gguf_get_or_add_key_def gguf_get_n_kv_def)

lemma remove_inv: "built_inv ctx \<Longrightarrow> built_inv (gguf_remove_key ctx key)"
  by (cases rule: find_key_cases [of ctx key]) (auto simp: built_inv_def writable_def gguf_remove_key_def)

lemma find_tensor_cases:
  assumes "\<not> gguf_find_tensor ctx name < 0"
  obtains ys info zs where "gc_infos ctx = ys @ info # zs" "gguf_find_tensor ctx name = int (length ys)"
  using assms by (cases rule: find_from_cases [of "\<lambda>info. c_str name = c_str (ti_name info)" "gc_infos ctx"])
    (auto simp: gguf_find_tensor_def)

lemma add_tensor_inv:
  assumes "built_inv ctx" "length (gt_ne tensor) = GGML_MAX_DIMS" "length (gt_data tensor) = unat (ggml_nbytes tensor)"
    "gguf_add_tensor ctx tensor = Inr ctx'"
  shows "built_inv ctx'"
  using assms
  by (auto simp: built_inv_def writable_def gguf_add_tensor_def Let_def offsets_snoc ggml_n_dims_def GGML_MAX_DIMS_def
      split: if_splits)

lemma set_type_inv:
  assumes "built_inv ctx" "gguf_set_tensor_type ctx name t = Inr ctx'"
  shows "built_inv ctx'"
proof -
  from assms(2) have "\<not> gguf_find_tensor ctx name < 0" by (auto simp: gguf_set_tensor_type_def Let_def split: if_splits)
  then obtain ys info zs where f: "gc_infos ctx = ys @ info # zs" "gguf_find_tensor ctx name = int (length ys)"
    by (rule find_tensor_cases)
  then have "ctx' = ctx\<lparr>gc_infos := ys @ info\<lparr>ti_type := t\<rparr> # zs\<rparr>"
    using assms(2) by (simp add: gguf_set_tensor_type_def)
  with assms(1) f show ?thesis by (simp add: built_inv_def writable_def offsets_append)
qed

lemma set_data_inv:
  assumes "built_inv ctx" "gguf_set_tensor_data ctx name data (length data) = Inr ctx'"
  shows "built_inv ctx'"
proof -
  from assms(2) have "\<not> gguf_find_tensor ctx name < 0" by (auto simp: gguf_set_tensor_data_def Let_def split: if_splits)
  then obtain ys info zs where f: "gc_infos ctx = ys @ info # zs" "gguf_find_tensor ctx name = int (length ys)"
    by (rule find_tensor_cases)
  let ?info = "info\<lparr>ti_data := data, ti_size := length data\<rparr>"
  have ctx': "ctx' = ctx\<lparr>gc_infos := ys @ ?info # update_offsets (gc_alignment ctx) ?info zs\<rparr>"
    using assms(2) f by (simp add: gguf_set_tensor_data_def Let_def)
  have o: "offsets_ok (gc_alignment ctx) 0 (ys @ info # zs)" using assms(1) f by (simp add: built_inv_def)
  from offsets_sizes [OF this] have "list_all (\<lambda>info. length (ti_data info) = ti_size info) zs" by simp
  from offsets_update [OF this, of "gc_alignment ctx" ?info] o
  have "offsets_ok (gc_alignment ctx) 0 (ys @ ?info # update_offsets (gc_alignment ctx) ?info zs)"
    by (auto simp: offsets_append)
  moreover have "list_all (\<lambda>info. ti_n_dims info \<le> length (ti_ne info)) (update_offsets al prev zs)
      \<longleftrightarrow> list_all (\<lambda>info. ti_n_dims info \<le> length (ti_ne info)) zs" for al prev
    by (induction zs arbitrary: prev) (auto simp: Let_def)
  ultimately show ?thesis using assms(1) f by (simp add: ctx' built_inv_def writable_def)
qed

lemma built_built_inv: "built ctx \<Longrightarrow> built_inv ctx"
proof (induction rule: built.induct)
  case built_empty
  show ?case by (simp add: built_inv_def writable_def gguf_init_empty_def)
qed (blast intro: set_val_inv remove_inv add_tensor_inv set_type_inv set_data_inv)+

text \<open>
  C36: whatever sequence of keys and tensors a context is built from, the writer writes it: its
  assertion on the offsets of the tensors holds, no array is shorter than it says, and the file is the
  image of the metadata followed by the padded data of the tensors in order.
\<close>

theorem gguf_built_writes:
  assumes "built ctx"
  shows "gguf_write_to_file ctx False = Inr (meta_image ctx @ data_image ctx)
    \<and> gguf_get_meta_size ctx = Inr (length (meta_image ctx)) \<and> gguf_get_meta_data ctx = Inr (meta_image ctx)"
  using gguf_written [of ctx] built_built_inv [OF assms] by (simp add: built_inv_def)

definition small_tensor :: ggml_tensor where
  "small_tensor = \<lparr>gt_name = bytes ''t'', gt_type = 24, gt_ne = [3, 1, 1, 1], gt_nb = [1, 3, 3, 3], gt_data = [1, 2, 3]\<rparr>"

theorem gguf_built_writes_witness:
  "\<exists>ctx. gguf_add_tensor gguf_init_empty small_tensor = Inr ctx
    \<and> gguf_write_to_file ctx False = Inr (meta_image ctx @ data_image ctx)"
proof -
  obtain ctx where ctx: "gguf_add_tensor gguf_init_empty small_tensor = Inr ctx"
    by (simp add: gguf_add_tensor_def gguf_init_empty_def gguf_find_tensor_def Let_def)
  have "built ctx"
    by (rule built_add [OF built_empty _ _ ctx])
      (simp_all add: small_tensor_def GGML_MAX_DIMS_def ggml_nbytes_def ggml_blck_size_def ggml_type_size_def
        type_traits_def)
  from gguf_built_writes [OF this] ctx show ?thesis by blast
qed

text \<open>
  Setting the key of the alignment does not change the alignment that the writer uses: the file is
  padded to 32 bytes, and a reader looks for the data behind 128 bytes.
\<close>

lemma set_alignment_ignored:
  fixes ctx
  defines "ctx \<equiv> gguf_set_val_u32 gguf_init_empty (bytes ''general.alignment'') 128"
  shows "gguf_get_meta_size ctx = Inr 64" "read_alignment ctx = Inr 128" "gc_alignment ctx = 32"
proof -
  have c: "ctx = gguf_init_empty\<lparr>gc_kv := [(bytes ''general.alignment'', VUint32 128)]\<rparr>"
    by (simp add: ctx_def gguf_set_val_u32_def gguf_set_val_def gguf_get_or_add_key_def gguf_find_key_def
        gguf_init_empty_def gguf_get_n_kv_def bytes_def c_str_def)
  show "read_alignment ctx = Inr 128" "gc_alignment ctx = 32"
    by (simp_all add: c read_alignment_def gguf_find_key_def gguf_get_val_u32_def kv_at_def gguf_get_n_kv_def
        gguf_init_empty_def GGUF_DEFAULT_ALIGNMENT_def)
  have "length (header_image ctx) = 57"
    by (simp add: c header_image_def gguf_init_empty_def kv_image_def str_image_def value_image_def bytes_def)
  moreover have "built ctx" unfolding ctx_def gguf_set_val_u32_def by (intro built.intros) simp
  ultimately show "gguf_get_meta_size ctx = Inr 64"
    using built_built_inv [of ctx] gguf_written(2) [of ctx] \<open>gc_alignment ctx = 32\<close>
    by (simp add: built_inv_def meta_image_def length_padded padding_def GGML_PAD_def)
qed

end
