(* ===== verification/LlmArch.thy ===== *)
theory LlmArch
  imports Utf8
begin

text \<open>
  The architectures and metadata keys of \<open>src/src/llama.cpp\<close>: the enumerations, the tables of their
  names, and the keys of an architecture (\<open>LLM_KV::operator()\<close>).
\<close>

section \<open>Architectures\<close>

datatype (plugins only: code) llm_arch =
    LLM_ARCH_LLAMA | LLM_ARCH_FALCON | LLM_ARCH_BAICHUAN | LLM_ARCH_GROK | LLM_ARCH_GPT2 | LLM_ARCH_GPTJ
  | LLM_ARCH_GPTNEOX | LLM_ARCH_MPT | LLM_ARCH_STARCODER | LLM_ARCH_REFACT | LLM_ARCH_BERT
  | LLM_ARCH_NOMIC_BERT | LLM_ARCH_JINA_BERT_V2 | LLM_ARCH_BLOOM | LLM_ARCH_STABLELM | LLM_ARCH_QWEN
  | LLM_ARCH_QWEN2 | LLM_ARCH_QWEN2MOE | LLM_ARCH_PHI2 | LLM_ARCH_PHI3 | LLM_ARCH_PLAMO
  | LLM_ARCH_CODESHELL | LLM_ARCH_ORION | LLM_ARCH_INTERNLM2 | LLM_ARCH_MINICPM | LLM_ARCH_GEMMA
  | LLM_ARCH_GEMMA2 | LLM_ARCH_STARCODER2 | LLM_ARCH_MAMBA | LLM_ARCH_XVERSE | LLM_ARCH_COMMAND_R
  | LLM_ARCH_DBRX | LLM_ARCH_OLMO | LLM_ARCH_OPENELM | LLM_ARCH_ARCTIC | LLM_ARCH_DEEPSEEK2
  | LLM_ARCH_CHATGLM | LLM_ARCH_BITNET | LLM_ARCH_T5 | LLM_ARCH_T5ENCODER | LLM_ARCH_JAIS
  | LLM_ARCH_UNKNOWN

text \<open>\<open>std::map\<close> iterates in the order of the enumeration.\<close>

definition LLM_ARCH_NAMES :: "(llm_arch \<times> string) list" where
  "LLM_ARCH_NAMES =
    [(LLM_ARCH_LLAMA, ''llama''),
     (LLM_ARCH_FALCON, ''falcon''),
     (LLM_ARCH_BAICHUAN, ''baichuan''),
     (LLM_ARCH_GROK, ''grok''),
     (LLM_ARCH_GPT2, ''gpt2''),
     (LLM_ARCH_GPTJ, ''gptj''),
     (LLM_ARCH_GPTNEOX, ''gptneox''),
     (LLM_ARCH_MPT, ''mpt''),
     (LLM_ARCH_STARCODER, ''starcoder''),
     (LLM_ARCH_REFACT, ''refact''),
     (LLM_ARCH_BERT, ''bert''),
     (LLM_ARCH_NOMIC_BERT, ''nomic-bert''),
     (LLM_ARCH_JINA_BERT_V2, ''jina-bert-v2''),
     (LLM_ARCH_BLOOM, ''bloom''),
     (LLM_ARCH_STABLELM, ''stablelm''),
     (LLM_ARCH_QWEN, ''qwen''),
     (LLM_ARCH_QWEN2, ''qwen2''),
     (LLM_ARCH_QWEN2MOE, ''qwen2moe''),
     (LLM_ARCH_PHI2, ''phi2''),
     (LLM_ARCH_PHI3, ''phi3''),
     (LLM_ARCH_PLAMO, ''plamo''),
     (LLM_ARCH_CODESHELL, ''codeshell''),
     (LLM_ARCH_ORION, ''orion''),
     (LLM_ARCH_INTERNLM2, ''internlm2''),
     (LLM_ARCH_MINICPM, ''minicpm''),
     (LLM_ARCH_GEMMA, ''gemma''),
     (LLM_ARCH_GEMMA2, ''gemma2''),
     (LLM_ARCH_STARCODER2, ''starcoder2''),
     (LLM_ARCH_MAMBA, ''mamba''),
     (LLM_ARCH_XVERSE, ''xverse''),
     (LLM_ARCH_COMMAND_R, ''command-r''),
     (LLM_ARCH_DBRX, ''dbrx''),
     (LLM_ARCH_OLMO, ''olmo''),
     (LLM_ARCH_OPENELM, ''openelm''),
     (LLM_ARCH_ARCTIC, ''arctic''),
     (LLM_ARCH_DEEPSEEK2, ''deepseek2''),
     (LLM_ARCH_CHATGLM, ''chatglm''),
     (LLM_ARCH_BITNET, ''bitnet''),
     (LLM_ARCH_T5, ''t5''),
     (LLM_ARCH_T5ENCODER, ''t5encoder''),
     (LLM_ARCH_JAIS, ''jais''),
     (LLM_ARCH_UNKNOWN, ''(unknown)'')]"

definition llm_arch_from_string :: "byte list \<Rightarrow> llm_arch" where
  "llm_arch_from_string name =
    (case List.find (\<lambda>kv. bytes (snd kv) = name) LLM_ARCH_NAMES of
       Some kv \<Rightarrow> fst kv | None \<Rightarrow> LLM_ARCH_UNKNOWN)"

section \<open>Keys\<close>

text \<open>
  Keys are compared by the simplifier: one code equation for each pair of the keys would dominate the memory
  that the whole development takes.
\<close>

datatype (plugins only:) llm_kv =
    LLM_KV_GENERAL_TYPE | LLM_KV_GENERAL_ARCHITECTURE | LLM_KV_GENERAL_QUANTIZATION_VERSION
  | LLM_KV_GENERAL_ALIGNMENT | LLM_KV_GENERAL_NAME | LLM_KV_GENERAL_AUTHOR | LLM_KV_GENERAL_VERSION
  | LLM_KV_GENERAL_URL | LLM_KV_GENERAL_DESCRIPTION | LLM_KV_GENERAL_LICENSE | LLM_KV_GENERAL_SOURCE_URL
  | LLM_KV_GENERAL_SOURCE_HF_REPO | LLM_KV_VOCAB_SIZE | LLM_KV_CONTEXT_LENGTH | LLM_KV_EMBEDDING_LENGTH
  | LLM_KV_BLOCK_COUNT | LLM_KV_LEADING_DENSE_BLOCK_COUNT | LLM_KV_FEED_FORWARD_LENGTH
  | LLM_KV_EXPERT_FEED_FORWARD_LENGTH | LLM_KV_EXPERT_SHARED_FEED_FORWARD_LENGTH
  | LLM_KV_USE_PARALLEL_RESIDUAL | LLM_KV_TENSOR_DATA_LAYOUT | LLM_KV_EXPERT_COUNT
  | LLM_KV_EXPERT_USED_COUNT | LLM_KV_EXPERT_SHARED_COUNT | LLM_KV_EXPERT_WEIGHTS_SCALE
  | LLM_KV_POOLING_TYPE | LLM_KV_LOGIT_SCALE | LLM_KV_DECODER_START_TOKEN_ID
  | LLM_KV_ATTN_LOGIT_SOFTCAPPING | LLM_KV_FINAL_LOGIT_SOFTCAPPING | LLM_KV_ATTENTION_HEAD_COUNT
  | LLM_KV_ATTENTION_HEAD_COUNT_KV | LLM_KV_ATTENTION_MAX_ALIBI_BIAS | LLM_KV_ATTENTION_CLAMP_KQV
  | LLM_KV_ATTENTION_KEY_LENGTH | LLM_KV_ATTENTION_VALUE_LENGTH | LLM_KV_ATTENTION_LAYERNORM_EPS
  | LLM_KV_ATTENTION_LAYERNORM_RMS_EPS | LLM_KV_ATTENTION_CAUSAL | LLM_KV_ATTENTION_Q_LORA_RANK
  | LLM_KV_ATTENTION_KV_LORA_RANK | LLM_KV_ATTENTION_RELATIVE_BUCKETS_COUNT
  | LLM_KV_ATTENTION_SLIDING_WINDOW | LLM_KV_ROPE_DIMENSION_COUNT | LLM_KV_ROPE_FREQ_BASE
  | LLM_KV_ROPE_SCALE_LINEAR | LLM_KV_ROPE_SCALING_TYPE | LLM_KV_ROPE_SCALING_FACTOR
  | LLM_KV_ROPE_SCALING_ATTN_FACTOR | LLM_KV_ROPE_SCALING_ORIG_CTX_LEN | LLM_KV_ROPE_SCALING_FINETUNED
  | LLM_KV_ROPE_SCALING_YARN_LOG_MUL | LLM_KV_SPLIT_NO | LLM_KV_SPLIT_COUNT | LLM_KV_SPLIT_TENSORS_COUNT
  | LLM_KV_SSM_INNER_SIZE | LLM_KV_SSM_CONV_KERNEL | LLM_KV_SSM_STATE_SIZE | LLM_KV_SSM_TIME_STEP_RANK
  | LLM_KV_TOKENIZER_MODEL | LLM_KV_TOKENIZER_PRE | LLM_KV_TOKENIZER_LIST | LLM_KV_TOKENIZER_TOKEN_TYPE
  | LLM_KV_TOKENIZER_TOKEN_TYPE_COUNT | LLM_KV_TOKENIZER_SCORES | LLM_KV_TOKENIZER_MERGES
  | LLM_KV_TOKENIZER_BOS_ID | LLM_KV_TOKENIZER_EOS_ID | LLM_KV_TOKENIZER_UNK_ID
  | LLM_KV_TOKENIZER_SEP_ID | LLM_KV_TOKENIZER_PAD_ID | LLM_KV_TOKENIZER_CLS_ID
  | LLM_KV_TOKENIZER_MASK_ID | LLM_KV_TOKENIZER_ADD_BOS | LLM_KV_TOKENIZER_ADD_EOS
  | LLM_KV_TOKENIZER_ADD_PREFIX | LLM_KV_TOKENIZER_REMOVE_EXTRA_WS
  | LLM_KV_TOKENIZER_PRECOMPILED_CHARSMAP | LLM_KV_TOKENIZER_HF_JSON | LLM_KV_TOKENIZER_RWKV
  | LLM_KV_TOKENIZER_PREFIX_ID | LLM_KV_TOKENIZER_SUFFIX_ID | LLM_KV_TOKENIZER_MIDDLE_ID
  | LLM_KV_TOKENIZER_EOT_ID | LLM_KV_TOKENIZER_EOM_ID | LLM_KV_ADAPTER_TYPE | LLM_KV_ADAPTER_LORA_ALPHA

definition LLM_KV_NAMES :: "(llm_kv \<times> string) list" where
  "LLM_KV_NAMES =
    [(LLM_KV_GENERAL_TYPE, ''general.type''),
     (LLM_KV_GENERAL_ARCHITECTURE, ''general.architecture''),
     (LLM_KV_GENERAL_QUANTIZATION_VERSION, ''general.quantization_version''),
     (LLM_KV_GENERAL_ALIGNMENT, ''general.alignment''),
     (LLM_KV_GENERAL_NAME, ''general.name''),
     (LLM_KV_GENERAL_AUTHOR, ''general.author''),
     (LLM_KV_GENERAL_VERSION, ''general.version''),
     (LLM_KV_GENERAL_URL, ''general.url''),
     (LLM_KV_GENERAL_DESCRIPTION, ''general.description''),
     (LLM_KV_GENERAL_LICENSE, ''general.license''),
     (LLM_KV_GENERAL_SOURCE_URL, ''general.source.url''),
     (LLM_KV_GENERAL_SOURCE_HF_REPO, ''general.source.huggingface.repository''),
     (LLM_KV_VOCAB_SIZE, ''%s.vocab_size''),
     (LLM_KV_CONTEXT_LENGTH, ''%s.context_length''),
     (LLM_KV_EMBEDDING_LENGTH, ''%s.embedding_length''),
     (LLM_KV_BLOCK_COUNT, ''%s.block_count''),
     (LLM_KV_LEADING_DENSE_BLOCK_COUNT, ''%s.leading_dense_block_count''),
     (LLM_KV_FEED_FORWARD_LENGTH, ''%s.feed_forward_length''),
     (LLM_KV_EXPERT_FEED_FORWARD_LENGTH, ''%s.expert_feed_forward_length''),
     (LLM_KV_EXPERT_SHARED_FEED_FORWARD_LENGTH, ''%s.expert_shared_feed_forward_length''),
     (LLM_KV_USE_PARALLEL_RESIDUAL, ''%s.use_parallel_residual''),
     (LLM_KV_TENSOR_DATA_LAYOUT, ''%s.tensor_data_layout''),
     (LLM_KV_EXPERT_COUNT, ''%s.expert_count''),
     (LLM_KV_EXPERT_USED_COUNT, ''%s.expert_used_count''),
     (LLM_KV_EXPERT_SHARED_COUNT, ''%s.expert_shared_count''),
     (LLM_KV_EXPERT_WEIGHTS_SCALE, ''%s.expert_weights_scale''),
     (LLM_KV_POOLING_TYPE, ''%s.pooling_type''),
     (LLM_KV_LOGIT_SCALE, ''%s.logit_scale''),
     (LLM_KV_DECODER_START_TOKEN_ID, ''%s.decoder_start_token_id''),
     (LLM_KV_ATTN_LOGIT_SOFTCAPPING, ''%s.attn_logit_softcapping''),
     (LLM_KV_FINAL_LOGIT_SOFTCAPPING, ''%s.final_logit_softcapping''),
     (LLM_KV_ATTENTION_HEAD_COUNT, ''%s.attention.head_count''),
     (LLM_KV_ATTENTION_HEAD_COUNT_KV, ''%s.attention.head_count_kv''),
     (LLM_KV_ATTENTION_MAX_ALIBI_BIAS, ''%s.attention.max_alibi_bias''),
     (LLM_KV_ATTENTION_CLAMP_KQV, ''%s.attention.clamp_kqv''),
     (LLM_KV_ATTENTION_KEY_LENGTH, ''%s.attention.key_length''),
     (LLM_KV_ATTENTION_VALUE_LENGTH, ''%s.attention.value_length''),
     (LLM_KV_ATTENTION_LAYERNORM_EPS, ''%s.attention.layer_norm_epsilon''),
     (LLM_KV_ATTENTION_LAYERNORM_RMS_EPS, ''%s.attention.layer_norm_rms_epsilon''),
     (LLM_KV_ATTENTION_CAUSAL, ''%s.attention.causal''),
     (LLM_KV_ATTENTION_Q_LORA_RANK, ''%s.attention.q_lora_rank''),
     (LLM_KV_ATTENTION_KV_LORA_RANK, ''%s.attention.kv_lora_rank''),
     (LLM_KV_ATTENTION_RELATIVE_BUCKETS_COUNT, ''%s.attention.relative_buckets_count''),
     (LLM_KV_ATTENTION_SLIDING_WINDOW, ''%s.attention.sliding_window''),
     (LLM_KV_ROPE_DIMENSION_COUNT, ''%s.rope.dimension_count''),
     (LLM_KV_ROPE_FREQ_BASE, ''%s.rope.freq_base''),
     (LLM_KV_ROPE_SCALE_LINEAR, ''%s.rope.scale_linear''),
     (LLM_KV_ROPE_SCALING_TYPE, ''%s.rope.scaling.type''),
     (LLM_KV_ROPE_SCALING_FACTOR, ''%s.rope.scaling.factor''),
     (LLM_KV_ROPE_SCALING_ATTN_FACTOR, ''%s.rope.scaling.attn_factor''),
     (LLM_KV_ROPE_SCALING_ORIG_CTX_LEN, ''%s.rope.scaling.original_context_length''),
     (LLM_KV_ROPE_SCALING_FINETUNED, ''%s.rope.scaling.finetuned''),
     (LLM_KV_ROPE_SCALING_YARN_LOG_MUL, ''%s.rope.scaling.yarn_log_multiplier''),
     (LLM_KV_SPLIT_NO, ''split.no''),
     (LLM_KV_SPLIT_COUNT, ''split.count''),
     (LLM_KV_SPLIT_TENSORS_COUNT, ''split.tensors.count''),
     (LLM_KV_SSM_INNER_SIZE, ''%s.ssm.inner_size''),
     (LLM_KV_SSM_CONV_KERNEL, ''%s.ssm.conv_kernel''),
     (LLM_KV_SSM_STATE_SIZE, ''%s.ssm.state_size''),
     (LLM_KV_SSM_TIME_STEP_RANK, ''%s.ssm.time_step_rank''),
     (LLM_KV_TOKENIZER_MODEL, ''tokenizer.ggml.model''),
     (LLM_KV_TOKENIZER_PRE, ''tokenizer.ggml.pre''),
     (LLM_KV_TOKENIZER_LIST, ''tokenizer.ggml.tokens''),
     (LLM_KV_TOKENIZER_TOKEN_TYPE, ''tokenizer.ggml.token_type''),
     (LLM_KV_TOKENIZER_TOKEN_TYPE_COUNT, ''tokenizer.ggml.token_type_count''),
     (LLM_KV_TOKENIZER_SCORES, ''tokenizer.ggml.scores''),
     (LLM_KV_TOKENIZER_MERGES, ''tokenizer.ggml.merges''),
     (LLM_KV_TOKENIZER_BOS_ID, ''tokenizer.ggml.bos_token_id''),
     (LLM_KV_TOKENIZER_EOS_ID, ''tokenizer.ggml.eos_token_id''),
     (LLM_KV_TOKENIZER_UNK_ID, ''tokenizer.ggml.unknown_token_id''),
     (LLM_KV_TOKENIZER_SEP_ID, ''tokenizer.ggml.seperator_token_id''),
     (LLM_KV_TOKENIZER_PAD_ID, ''tokenizer.ggml.padding_token_id''),
     (LLM_KV_TOKENIZER_CLS_ID, ''tokenizer.ggml.cls_token_id''),
     (LLM_KV_TOKENIZER_MASK_ID, ''tokenizer.ggml.mask_token_id''),
     (LLM_KV_TOKENIZER_ADD_BOS, ''tokenizer.ggml.add_bos_token''),
     (LLM_KV_TOKENIZER_ADD_EOS, ''tokenizer.ggml.add_eos_token''),
     (LLM_KV_TOKENIZER_ADD_PREFIX, ''tokenizer.ggml.add_space_prefix''),
     (LLM_KV_TOKENIZER_REMOVE_EXTRA_WS, ''tokenizer.ggml.remove_extra_whitespaces''),
     (LLM_KV_TOKENIZER_PRECOMPILED_CHARSMAP, ''tokenizer.ggml.precompiled_charsmap''),
     (LLM_KV_TOKENIZER_HF_JSON, ''tokenizer.huggingface.json''),
     (LLM_KV_TOKENIZER_RWKV, ''tokenizer.rwkv.world''),
     (LLM_KV_TOKENIZER_PREFIX_ID, ''tokenizer.ggml.prefix_token_id''),
     (LLM_KV_TOKENIZER_SUFFIX_ID, ''tokenizer.ggml.suffix_token_id''),
     (LLM_KV_TOKENIZER_MIDDLE_ID, ''tokenizer.ggml.middle_token_id''),
     (LLM_KV_TOKENIZER_EOT_ID, ''tokenizer.ggml.eot_token_id''),
     (LLM_KV_TOKENIZER_EOM_ID, ''tokenizer.ggml.eom_token_id''),
     (LLM_KV_ADAPTER_TYPE, ''adapter.type''),
     (LLM_KV_ADAPTER_LORA_ALPHA, ''adapter.lora.alpha'')]"

text \<open>\<open>::format(fmt, s)\<close> for a format whose only conversions are \<open>%s\<close>.\<close>

fun format_s :: "string \<Rightarrow> string \<Rightarrow> string" where
  "format_s [] s = []"
| "format_s (c # cs) s = (if c = CHR ''%'' then s @ format_s (tl cs) s else c # format_s cs s)"
  
text \<open>\<open>LLM_KV::operator()\<close>: a missing entry of \<open>at\<close> throws.\<close>

definition table_at :: "('k \<times> 'v) list \<Rightarrow> 'k \<Rightarrow> 'v res" where
  "table_at m k = (case map_of m k of None \<Rightarrow> Inl (OutOfRange ''map::at'') | Some v \<Rightarrow> Inr v)"

definition llm_kv_key :: "llm_arch \<Rightarrow> llm_kv \<Rightarrow> byte list res" where
  "llm_kv_key arch kv =
    bindE (table_at LLM_KV_NAMES kv) (\<lambda>fmt.
    bindE (table_at LLM_ARCH_NAMES arch) (\<lambda>name. Inr (bytes (format_s fmt name))))"

section \<open>The tables\<close>

lemma arch_names_distinct: "distinct (map snd LLM_ARCH_NAMES)"
  by code_simp

lemma map_of_total: "k \<in> set (map fst m) \<Longrightarrow> \<exists>v. map_of m k = Some v"
  by (induction m) auto

lemma arch_name_exists: "\<exists>name. map_of LLM_ARCH_NAMES arch = Some name"
  unfolding LLM_ARCH_NAMES_def
  by (rule map_of_total, cases arch) (simp_all only: list.map list.set fst_conv insert_iff simp_thms)

lemma kv_name_exists: "\<exists>fmt. map_of LLM_KV_NAMES kv = Some fmt"
  unfolding LLM_KV_NAMES_def
  by (rule map_of_total, cases kv) (simp_all only: list.map list.set fst_conv insert_iff simp_thms)

text \<open>Every architecture is found by its name, and every key of it has a name.\<close>

lemma llm_arch_from_name:
  assumes "map_of LLM_ARCH_NAMES arch = Some name"
  shows "llm_arch_from_string (bytes name) = arch"
proof -
  have "find (\<lambda>kv. snd kv = name) kvs = Some (a, name)"
    if "(a, name) \<in> set kvs" "distinct (map snd kvs)" for a and kvs :: "(llm_arch \<times> string) list"
    using that by (induction kvs) force+
  from this [OF map_of_SomeD [OF assms] arch_names_distinct]
  show ?thesis by (simp add: llm_arch_from_string_def bytes_inj)
qed

lemma llm_kv_key_total: "\<exists>key. llm_kv_key arch kv = Inr key"
  using arch_name_exists [of arch] kv_name_exists [of kv] by (auto simp: llm_kv_key_def table_at_def)

end
