(* ===== verification/ModelLoader.thy ===== *)
theory ModelLoader
  imports GgufEdit LlmArch Vocab
begin

text \<open>
  The model loader (\<open>GGUFMeta\<close> and \<open>llama_model_loader\<close> of \<open>src/src/llama.cpp\<close>): typed access to keys
  with overrides, models split over several files, the places of the tensor data in them, and the
  creation and loading of tensors.

  The file system is a parameter \<open>fs\<close> from paths to contents, \<open>mem\<close> says which allocations succeed,
  \<open>path_max\<close> is \<open>PATH_MAX\<close> of the platform. A mapped file and a file that is read give the same bytes.
\<close>

section \<open>Keys\<close>

text \<open>\<open>llama_model_kv_override\<close>; floats are bit patterns.\<close>

datatype kv_override = OverrideInt u64 | OverrideFloat u64 | OverrideBool bool | OverrideStr "byte list"

text \<open>What \<open>GKV_Base\<close> and \<open>try_override\<close> say of a C++ type.\<close>

record 'a gkv =
  gkv_type :: gguf_type
  gkv_getter :: "gguf_context \<Rightarrow> int \<Rightarrow> 'a res"
  gkv_override :: "kv_override \<Rightarrow> 'a option"

definition override_int :: "(u64 \<Rightarrow> 'a) \<Rightarrow> kv_override \<Rightarrow> 'a option" where
  "override_int f ovrd = (case ovrd of OverrideInt x \<Rightarrow> Some (f x) | _ \<Rightarrow> None)"

definition gkv_bool :: "bool gkv" where
  "gkv_bool = \<lparr>gkv_type = GGUF_TYPE_BOOL, gkv_getter = gguf_get_val_bool,
     gkv_override = (\<lambda>ovrd. case ovrd of OverrideBool b \<Rightarrow> Some b | _ \<Rightarrow> None)\<rparr>"

definition gkv_u16 :: "16 word gkv" where
  "gkv_u16 = \<lparr>gkv_type = GGUF_TYPE_UINT16, gkv_getter = gguf_get_val_u16, gkv_override = override_int ucast\<rparr>"

definition gkv_u32 :: "u32 gkv" where
  "gkv_u32 = \<lparr>gkv_type = GGUF_TYPE_UINT32, gkv_getter = gguf_get_val_u32, gkv_override = override_int ucast\<rparr>"

definition gkv_i32 :: "u32 gkv" where
  "gkv_i32 = \<lparr>gkv_type = GGUF_TYPE_INT32, gkv_getter = gguf_get_val_i32, gkv_override = override_int ucast\<rparr>"

definition gkv_string :: "byte list gkv" where
  "gkv_string = \<lparr>gkv_type = GGUF_TYPE_STRING, gkv_getter = gguf_get_val_str,
     gkv_override = (\<lambda>ovrd. case ovrd of OverrideStr s \<Rightarrow> Some (c_str s) | _ \<Rightarrow> None)\<rparr>"

definition get_kv :: "'a gkv \<Rightarrow> gguf_context \<Rightarrow> int \<Rightarrow> 'a res" where
  "get_kv T ctx k =
    bindE (gguf_get_kv_type ctx k) (\<lambda>kt.
      if kt \<noteq> gkv_type T then Inl (RuntimeError ''wrong type'') else gkv_getter T ctx k)"

definition try_override :: "'a gkv \<Rightarrow> kv_override option \<Rightarrow> 'a option" where
  "try_override T ovrd = Option.bind ovrd (gkv_override T)"

text \<open>\<open>GKV::set\<close>: \<open>None\<close> leaves the target as it is and returns false.\<close>

definition gkv_set :: "'a gkv \<Rightarrow> gguf_context \<Rightarrow> byte list \<Rightarrow> kv_override option \<Rightarrow> 'a option res" where
  "gkv_set T ctx key ovrd =
    (case try_override T ovrd of
       Some x \<Rightarrow> Inr (Some x)
     | None \<Rightarrow>
         (let k = gguf_find_key ctx key in
          if k < 0 then Inr None else bindE (get_kv T ctx k) (\<lambda>x. Inr (Some x))))"

text \<open>What \<open>get_kv\<close> of \<open>ArrayInfo\<close> checks and returns of an array: its length.\<close>

definition array_length :: "gguf_context \<Rightarrow> int \<Rightarrow> int res" where
  "array_length ctx kid =
    bindE (gguf_get_kv_type ctx kid) (\<lambda>kt.
      if kt \<noteq> GGUF_TYPE_ARRAY then Inl (RuntimeError ''wrong type'') else gguf_get_arr_n ctx kid)"

section \<open>Tensors\<close>

text \<open>\<open>ggml_new_tensor\<close> without memory for the data, and \<open>ggml_set_name\<close> (\<open>src/ggml/src/ggml.c\<close>).\<close>

definition GGML_MAX_NAME :: nat where "GGML_MAX_NAME = 64"

definition ggml_set_name :: "ggml_tensor \<Rightarrow> byte list \<Rightarrow> ggml_tensor" where
  "ggml_set_name tensor name = tensor\<lparr>gt_name := take (GGML_MAX_NAME - 1) (c_str name)\<rparr>"

definition ggml_new_tensor :: "nat \<Rightarrow> nat \<Rightarrow> u64 list \<Rightarrow> ggml_tensor res" where
  "ggml_new_tensor t n_dims ne =
    (if t \<ge> GGML_TYPE_COUNT then Inl (Abort ''type >= 0 && type < GGML_TYPE_COUNT'')
     else if \<not> (1 \<le> n_dims \<and> n_dims \<le> GGML_MAX_DIMS) then Inl (Abort ''n_dims >= 1 && n_dims <= GGML_MAX_DIMS'')
     else
       (let ne' = take n_dims ne @ replicate (GGML_MAX_DIMS - n_dims) 1;
            nb0 = of_nat (ggml_type_size t);
            nb1 = nb0 * (ne' ! 0 div of_nat (ggml_blck_size t));
            nb2 = nb1 * ne' ! 1
        in Inr \<lparr>gt_name = [], gt_type = t, gt_ne = ne', gt_nb = [nb0, nb1, nb2, nb2 * ne' ! 2], gt_data = []\<rparr>))"

definition ggml_dup_tensor :: "ggml_tensor \<Rightarrow> ggml_tensor res" where
  "ggml_dup_tensor src = ggml_new_tensor (gt_type src) GGML_MAX_DIMS (gt_ne src)"

definition ggml_nelements :: "ggml_tensor \<Rightarrow> u64" where
  "ggml_nelements tensor = gt_ne tensor ! 0 * gt_ne tensor ! 1 * gt_ne tensor ! 2 * gt_ne tensor ! 3"

text \<open>The last loop of \<open>gguf_init_from_file\<close>, with \<open>no_alloc\<close>.\<close>

definition file_tensor :: "gguf_tensor_info \<Rightarrow> ggml_tensor res" where
  "file_tensor info =
    bindE (ggml_new_tensor (ti_type info) (ti_n_dims info) (ti_ne info)) (\<lambda>cur.
      Inr (ggml_set_name cur (ti_name info)))"

record llama_tensor_weight =
  tw_idx :: nat
  tw_offs :: u64
  tw_tensor :: ggml_tensor

text \<open>The constructor of \<open>llama_tensor_weight\<close>; \<open>file_size\<close> is the size of the file.\<close>

definition tensor_weight :: "u64 \<Rightarrow> nat \<Rightarrow> gguf_context \<Rightarrow> ggml_tensor \<Rightarrow> llama_tensor_weight res" where
  "tensor_weight file_size idx ctx tensor =
    (let tensor_idx = gguf_find_tensor ctx (gt_name tensor) in
     bindE (gguf_get_tensor_offset ctx tensor_idx) (\<lambda>offset.
       (let offs = of_nat (gc_offset ctx) + offset in
        if offs + ggml_nbytes tensor < offs \<or> offs + ggml_nbytes tensor > file_size
        then Inl (RuntimeError ''data is not within the file bounds'')
        else Inr \<lparr>tw_idx = idx, tw_offs = offs, tw_tensor = tensor\<rparr>)))"

section \<open>Split files\<close>

text \<open>\<open>snprintf\<close> to a buffer of \<open>maxlen\<close> bytes, and the conversion \<open>%05d\<close>.\<close>

definition snprintf :: "nat \<Rightarrow> byte list \<Rightarrow> byte list" where
  "snprintf maxlen s = take (maxlen - 1) s"

definition fmt_05d :: "int \<Rightarrow> byte list" where
  "fmt_05d i =
    (let digits = to_string (nat \<bar>i\<bar>); sign = (if i < 0 then bytes ''-'' else [])
     in sign @ replicate (5 - length sign - length digits) (ch CHR ''0'') @ digits)"

definition split_postfix :: "int \<Rightarrow> int \<Rightarrow> byte list" where
  "split_postfix split_no split_count =
    bytes ''-'' @ fmt_05d (split_no + 1) @ bytes ''-of-'' @ fmt_05d split_count @ bytes ''.gguf''"

text \<open>The buffer and the returned length. \<open>snprintf\<close> never returns 0 here.\<close>

definition llama_split_path :: "nat \<Rightarrow> byte list \<Rightarrow> int \<Rightarrow> int \<Rightarrow> byte list \<times> nat" where
  "llama_split_path maxlen path_prefix split_no split_count =
    (let path = snprintf maxlen (path_prefix @ split_postfix split_no split_count) in (path, length path))"

definition llama_split_prefix :: "nat \<Rightarrow> byte list \<Rightarrow> int \<Rightarrow> int \<Rightarrow> byte list option \<times> int" where
  "llama_split_prefix maxlen split_path split_no split_count =
    (let postfix = snprintf 32 (split_postfix split_no split_count);
         size_prefix = int (length split_path) - int (length postfix)
     in if size_prefix > 0 \<and> str_find split_path postfix (nat size_prefix) \<noteq> None
        then (Some (snprintf (min (nat size_prefix + 1) maxlen) split_path), size_prefix)
        else (None, 0))"

section \<open>The loader\<close>

record llama_model_loader =
  ml_meta :: gguf_context
  ml_overrides :: "byte list \<Rightarrow> kv_override option"
  ml_arch_name :: "byte list"
  ml_arch :: llm_arch
  ml_files :: "byte list list"
  ml_mappings :: "byte list list"
  ml_weights :: "llama_tensor_weight list"
  ml_n_kv :: int
  ml_n_tensors :: int
  ml_n_created :: int
  ml_n_elements :: u64
  ml_n_bytes :: u64
  ml_ftype :: u32
  ml_use_mmap :: bool
  ml_check_tensors :: bool
  ml_size_data :: u64

definition get_key :: "'a gkv \<Rightarrow> llama_model_loader \<Rightarrow> byte list \<Rightarrow> bool \<Rightarrow> 'a option res" where
  "get_key T ml key required =
    bindE (gkv_set T (ml_meta ml) key (ml_overrides ml key)) (\<lambda>found.
      if required \<and> found = None then Inl (RuntimeError ''key not found in model'') else Inr found)"

definition get_key_kid :: "'a gkv \<Rightarrow> llama_model_loader \<Rightarrow> llm_kv \<Rightarrow> bool \<Rightarrow> 'a option res" where
  "get_key_kid T ml kid required = bindE (llm_kv_key (ml_arch ml) kid) (\<lambda>key. get_key T ml key required)"


definition get_arr_n :: "llama_model_loader \<Rightarrow> byte list \<Rightarrow> bool \<Rightarrow> int option res" where
  "get_arr_n ml key required =
    (let kid = gguf_find_key (ml_meta ml) key in
     if kid < 0 then (if required then Inl (RuntimeError ''key not found in model'') else Inr None)
     else bindE (array_length (ml_meta ml) kid) (\<lambda>n. Inr (Some n)))"

text \<open>
  \<open>get_arr\<close> for the element type of which \<open>expected\<close> is the type in the file: the elements are four
  bytes each, and they replace the first elements of \<open>result\<close>. An array of strings holds pointers:
  nothing can be read out of it as data.
\<close>

definition gguf_get_arr_data :: "gguf_context \<Rightarrow> int \<Rightarrow> byte list res" where
  "gguf_get_arr_data = get_val (\<lambda>v. case v of VArray _ _ data \<Rightarrow> Some data | VStrings _ \<Rightarrow> Some [] | _ \<Rightarrow> None)"

definition arr_word :: "gguf_context \<Rightarrow> int \<Rightarrow> nat \<Rightarrow> u32 res" where
  "arr_word ctx kid i =
    bindE (gguf_get_arr_data ctx kid) (\<lambda>data.
      if 4 * i + 4 \<le> length data then Inr (of_nat (le_nat (take 4 (drop (4 * i) data))))
      else Inl (UndefinedBehaviour ''arr_info.data[i]''))"

definition get_arr ::
  "gguf_type \<Rightarrow> llama_model_loader \<Rightarrow> byte list \<Rightarrow> u32 list \<Rightarrow> bool \<Rightarrow> u32 list option res" where
  "get_arr expected ml key result required =
    (let ctx = ml_meta ml; kid = gguf_find_key ctx key;
         missing = (if required then Inl (RuntimeError ''array key not found in model'') else Inr None)
     in if kid < 0 then missing
        else bindE (gguf_get_kv_type ctx kid) (\<lambda>kt.
          if kt \<noteq> GGUF_TYPE_ARRAY then missing
          else bindE (array_length ctx kid) (\<lambda>n.
          bindE (gguf_get_arr_type ctx kid) (\<lambda>gt.
            if gt = GGUF_TYPE_FLOAT32 \<and> expected \<noteq> GGUF_TYPE_FLOAT32
              \<or> gt = GGUF_TYPE_INT32 \<and> expected \<noteq> GGUF_TYPE_INT32 then Inl (Abort ''std::is_same<T, float>::value'')
            else if gt \<noteq> GGUF_TYPE_FLOAT32 \<and> gt \<noteq> GGUF_TYPE_INT32
            then Inl (RuntimeError ''not a float32, int32 array'')
            else if n < 0 \<or> nat n > length result then Inl (RuntimeError ''array length exceeds max'')
            else bindE (mapE (arr_word ctx kid) [0..<nat n]) (\<lambda>xs.
              Inr (Some (xs @ drop (nat n) result)))))))"

definition get_key_or_arr ::
  "u32 gkv \<Rightarrow> gguf_type \<Rightarrow> llama_model_loader \<Rightarrow> byte list \<Rightarrow> u32 list \<Rightarrow> u32 \<Rightarrow> bool \<Rightarrow> u32 list option res" where
  "get_key_or_arr T expected ml key result n required =
    (let ctx = ml_meta ml; kid = gguf_find_key ctx key in
     if kid < 0 then (if required then Inl (RuntimeError ''key not found in model'') else Inr None)
     else if unat n > length result then Inl (RuntimeError ''n > N_MAX'')
     else bindE (gguf_get_kv_type ctx kid) (\<lambda>kt.
       if kt = GGUF_TYPE_ARRAY then
         bindE (array_length ctx kid) (\<lambda>len.
           if int (unat n) \<noteq> len then Inl (RuntimeError ''wrong array length'')
           else get_arr expected ml key result required)
       else bindE (get_key T ml key required) (\<lambda>found.
         Inr (map_option (\<lambda>x. replicate (unat n) x @ drop (unat n) result) found))))"

section \<open>Loading the metadata\<close>

definition load_overrides :: "(byte list \<times> kv_override) list \<Rightarrow> byte list \<Rightarrow> kv_override option" where
  "load_overrides param_overrides = map_of (takeWhile (\<lambda>p. fst p \<noteq> []) param_overrides)"

definition open_gguf ::
  "(nat \<Rightarrow> bool) \<Rightarrow> (byte list \<Rightarrow> byte list option) \<Rightarrow> byte list \<Rightarrow> (byte list \<times> gguf_context) res" where
  "open_gguf mem fs path =
    (case fs path of
       None \<Rightarrow> Inl (RuntimeError ''failed to load'')
     | Some bs \<Rightarrow> bindE (gguf_init_from_file mem bs) (\<lambda>meta. case meta of
         None \<Rightarrow> Inl (RuntimeError ''failed to load'')
       | Some ctx \<Rightarrow> Inr (bs, ctx)))"

definition file_weights :: "nat \<Rightarrow> byte list \<Rightarrow> gguf_context \<Rightarrow> llama_tensor_weight list res" where
  "file_weights idx bs ctx =
    bindE (mapE file_tensor (gc_infos ctx)) (mapE (tensor_weight (of_nat (length bs)) idx ctx))"

definition load_split ::
  "(nat \<Rightarrow> bool) \<Rightarrow> (byte list \<Rightarrow> byte list option) \<Rightarrow> nat \<Rightarrow> byte list \<Rightarrow> int
    \<Rightarrow> nat \<Rightarrow> llama_model_loader \<Rightarrow> llama_model_loader res" where
  "load_split mem fs path_max split_prefix n_split idx ml =
    (let split_path = fst (llama_split_path path_max split_prefix (int idx) n_split) in
     bindE (open_gguf mem fs split_path) (\<lambda>(bs, ctx).
     bindE (file_weights idx bs ctx) (\<lambda>ws.
       Inr (ml\<lparr>ml_files := ml_files ml @ [bs], ml_weights := ml_weights ml @ ws\<rparr>))))"

text \<open>\<open>n_split\<close> is 0 when the key is missing.\<close>

definition load_splits ::
  "(nat \<Rightarrow> bool) \<Rightarrow> (byte list \<Rightarrow> byte list option) \<Rightarrow> nat \<Rightarrow> byte list
    \<Rightarrow> llama_model_loader \<Rightarrow> llama_model_loader res" where
  "load_splits mem fs path_max fname ml =
    bindE (get_key_kid gkv_u16 ml LLM_KV_SPLIT_COUNT False) (\<lambda>split_count.
      let n_split = (case split_count of None \<Rightarrow> 0 | Some n \<Rightarrow> unat n) in
      if n_split \<le> 1 then Inr ml
      else bindE (get_key_kid gkv_u16 ml LLM_KV_SPLIT_NO True) (\<lambda>idx.
        if idx \<noteq> Some 0 then Inl (RuntimeError ''illegal split file'')
        else case llama_split_prefix path_max fname 0 (int n_split) of
          (None, _) \<Rightarrow> Inl (RuntimeError ''invalid split file'')
        | (Some split_prefix, _) \<Rightarrow>
            bindE (foldE (load_split mem fs path_max split_prefix (int n_split)) [1..<n_split] ml) (\<lambda>ml'.
            bindE (get_key_kid gkv_i32 ml' LLM_KV_SPLIT_TENSORS_COUNT True) (\<lambda>n_tensors.
              if n_tensors \<noteq> Some (of_nat (length (ml_weights ml'))) then Inl (RuntimeError ''corrupted model'')
              else Inr ml'))))"

text \<open>
  The file type is guessed from the most frequent tensor type (the first that reaches the maximum); the
  state counts the tensors of each type.
\<close>

fun count_types :: "llama_tensor_weight list \<Rightarrow> (nat \<Rightarrow> u32) \<Rightarrow> u32 \<Rightarrow> nat \<Rightarrow> nat" where
  "count_types [] n_type n_type_max type_max = type_max"
| "count_types (w # ws) n_type n_type_max type_max =
    (let t = gt_type (tw_tensor w); n = n_type t + 1
     in if n_type_max < n then count_types ws (n_type(t := n)) n t
        else count_types ws (n_type(t := n)) n_type_max type_max)"

text \<open>From \<open>enum ggml_type\<close> to \<open>enum llama_ftype\<close>.\<close>

definition ftype_of_type :: "(nat \<times> u32) list" where
  "ftype_of_type = [(0, 0), (1, 1), (30, 32), (2, 2), (3, 3), (6, 8), (7, 9), (8, 7), (10, 10), (11, 12),
     (12, 15), (13, 17), (14, 18), (16, 19), (17, 20), (22, 28), (18, 23), (19, 24), (29, 31), (20, 25),
     (23, 30), (21, 26), (31, 33), (32, 34), (33, 35)]"

definition LLAMA_FTYPE_GUESSED :: u32 where "LLAMA_FTYPE_GUESSED = 1024"

definition file_type :: "gguf_context \<Rightarrow> llama_tensor_weight list \<Rightarrow> u32 res" where
  "file_type meta ws =
    (let type_max = count_types ws (\<lambda>_. 0) 0 0;
         ftype = (case map_of ftype_of_type type_max of None \<Rightarrow> 0 | Some f \<Rightarrow> f) OR LLAMA_FTYPE_GUESSED;
         kid = gguf_find_key meta (bytes ''general.file_type'')
     in if kid \<ge> 0 then gguf_get_val_u32 meta kid else Inr ftype)"

text \<open>The constructor; what it prints is not modelled. \<open>mmap_supported\<close> is \<open>llama_mmap::SUPPORTED\<close>.\<close>

definition load_model ::
  "(nat \<Rightarrow> bool) \<Rightarrow> (byte list \<Rightarrow> byte list option) \<Rightarrow> nat \<Rightarrow> bool \<Rightarrow> byte list \<Rightarrow> bool \<Rightarrow> bool
    \<Rightarrow> (byte list \<times> kv_override) list \<Rightarrow> llama_model_loader res" where
  "load_model mem fs path_max mmap_supported fname use_mmap check_tensors param_overrides =
    bindE (open_gguf mem fs fname) (\<lambda>(bs, meta).
      let ml = \<lparr>ml_meta = meta, ml_overrides = load_overrides param_overrides, ml_arch_name = [],
            ml_arch = LLM_ARCH_UNKNOWN, ml_files = [bs], ml_mappings = [], ml_weights = [], ml_n_kv = 0, ml_n_tensors = 0,
            ml_n_created = 0, ml_n_elements = 0, ml_n_bytes = 0, ml_ftype = 0,
            ml_use_mmap = use_mmap \<and> mmap_supported, ml_check_tensors = check_tensors, ml_size_data = 0\<rparr>
      in
      bindE (get_key_kid gkv_string ml LLM_KV_GENERAL_ARCHITECTURE False) (\<lambda>arch_name.
        let name = (case arch_name of None \<Rightarrow> [] | Some name \<Rightarrow> name);
            ml1 = ml\<lparr>ml_arch_name := name, ml_arch := llm_arch_from_string name\<rparr>
        in
        bindE (file_weights 0 bs meta) (\<lambda>ws.
        bindE (load_splits mem fs path_max fname (ml1\<lparr>ml_weights := ws\<rparr>)) (\<lambda>ml2.
          let tensors = map tw_tensor (ml_weights ml2);
              ml3 = ml2\<lparr>ml_n_kv := gguf_get_n_kv meta, ml_n_tensors := int (length tensors),
                ml_n_elements := sum_list (map ggml_nelements tensors),
                ml_n_bytes := sum_list (map ggml_nbytes tensors)\<rparr>
          in
          if \<not> distinct (map gt_name tensors) then Inl (RuntimeError ''tensor is duplicated'')
          else bindE (file_type meta (ml_weights ml3)) (\<lambda>ftype. Inr (ml3\<lparr>ml_ftype := ftype\<rparr>))))))"

section \<open>Creating and loading tensors\<close>

definition get_weight :: "llama_model_loader \<Rightarrow> byte list \<Rightarrow> llama_tensor_weight option" where
  "get_weight ml name = List.find (\<lambda>w. c_str name = gt_name (tw_tensor w)) (ml_weights ml)"

definition require_weight :: "llama_model_loader \<Rightarrow> byte list \<Rightarrow> llama_tensor_weight res" where
  "require_weight ml name =
    (case get_weight ml name of None \<Rightarrow> Inl (RuntimeError ''tensor not found'') | Some w \<Rightarrow> Inr w)"

definition get_tensor_meta :: "llama_model_loader \<Rightarrow> byte list \<Rightarrow> ggml_tensor option" where
  "get_tensor_meta ml name = map_option tw_tensor (get_weight ml name)"

definition check_tensor_dims ::
  "llama_model_loader \<Rightarrow> byte list \<Rightarrow> u64 list \<Rightarrow> bool \<Rightarrow> ggml_tensor option res" where
  "check_tensor_dims ml name ne required =
    (case get_tensor_meta ml name of
       None \<Rightarrow> if required then Inl (RuntimeError ''tensor not found'') else Inr None
     | Some cur \<Rightarrow>
         if list_all (\<lambda>i. gt_ne cur ! i = (if i < length ne then ne ! i else 1)) [0..<GGML_MAX_DIMS]
         then Inr (Some cur) else Inl (RuntimeError ''tensor has wrong shape''))"

definition create_tensor_for ::
  "llama_model_loader \<Rightarrow> ggml_tensor \<Rightarrow> bool \<Rightarrow> (ggml_tensor \<times> llama_model_loader) res" where
  "create_tensor_for ml cur duplicated =
    bindE (ggml_dup_tensor cur) (\<lambda>tensor.
      Inr (ggml_set_name tensor (gt_name cur),
           if duplicated then ml\<lparr>ml_size_data := ml_size_data ml + ggml_nbytes cur\<rparr>
           else ml\<lparr>ml_n_created := ml_n_created ml + 1\<rparr>))"

definition TENSOR_NOT_REQUIRED :: u32 where "TENSOR_NOT_REQUIRED = 1"
definition TENSOR_DUPLICATED :: u32 where "TENSOR_DUPLICATED = 2"

definition create_tensor ::
  "llama_model_loader \<Rightarrow> byte list \<Rightarrow> u64 list \<Rightarrow> u32 \<Rightarrow> (ggml_tensor option \<times> llama_model_loader) res" where
  "create_tensor ml name ne flags =
    bindE (check_tensor_dims ml name ne (flags AND TENSOR_NOT_REQUIRED = 0)) (\<lambda>cur. case cur of
      None \<Rightarrow> Inr (None, ml)
    | Some t \<Rightarrow> bindE (create_tensor_for ml t (flags AND TENSOR_DUPLICATED \<noteq> 0)) (\<lambda>(tensor, ml').
        Inr (Some tensor, ml')))"

definition done_getting_tensors :: "llama_model_loader \<Rightarrow> unit res" where
  "done_getting_tensors ml =
    (if ml_n_created ml \<noteq> ml_n_tensors ml then Inl (RuntimeError ''wrong number of tensors'') else Inr ())"

text \<open>
  The memory of a mapping has the bytes of its file. Prefetching, locking and the list of used ranges are left out.
\<close>

definition init_mappings :: "llama_model_loader \<Rightarrow> llama_model_loader" where
  "init_mappings ml =
    ml\<lparr>ml_mappings := ml_mappings ml @ (if ml_use_mmap ml then ml_files ml else []),
       ml_size_data := ml_size_data ml + sum_list (map (\<lambda>w. ggml_nbytes (tw_tensor w)) (ml_weights ml))\<rparr>"

text \<open>
  \<open>load_data_for\<close>: the bytes of the tensor. \<open>has_data\<close> says whether the tensor has memory;
  \<open>validate\<close> is \<open>ggml_validate_row_data\<close>. A read behind the end of a mapping is undefined behaviour.
\<close>

definition load_data_for ::
  "(nat \<Rightarrow> byte list \<Rightarrow> bool) \<Rightarrow> llama_model_loader \<Rightarrow> bool \<Rightarrow> ggml_tensor \<Rightarrow> byte list res" where
  "load_data_for validate ml has_data cur =
    bindE (require_weight ml (gt_name cur)) (\<lambda>w.
    bindE (if ml_use_mmap ml then
             if tw_idx w \<ge> length (ml_mappings ml) then Inl (OutOfRange ''mappings.at'') else Inr (ml_mappings ml ! tw_idx w)
           else if \<not> has_data then Inl (Abort ''cur->data != nullptr'')
           else if tw_idx w \<ge> length (ml_files ml) then Inl (Abort ''w.idx < files.size()'')
           else Inr (ml_files ml ! tw_idx w)) (\<lambda>bs.
      let n = unat (ggml_nbytes cur); offs = unat (tw_offs w); data = take n (drop offs bs) in
      if offs + n > length bs
      then Inl (if ml_use_mmap ml then UndefinedBehaviour ''mapping->addr + w.offs''
                else RuntimeError ''unexpectedly reached end of file'')
      else if ml_check_tensors ml \<and> \<not> validate (gt_type cur) data then Inl (RuntimeError ''tensor has invalid data'')
      else Inr data))"

end
