(* ===== verification/ModelLoaderProps.thy ===== *)
theory ModelLoaderProps
  imports ModelLoader GgufProps
begin

text \<open>
  What the model loader guarantees: the weights it lists lie inside of their files, at the offsets that the
  files declare, a tensor created from them is loaded from there, and the path of a split determines its prefix.
\<close>

section \<open>The weights lie in their files\<close>

text \<open>A tensor that equals its own duplicate in type, dimensions and strides.\<close>

definition tensor_wf :: "ggml_tensor \<Rightarrow> bool" where
  "tensor_wf t \<longleftrightarrow> (case ggml_dup_tensor t of
     Inl _ \<Rightarrow> False | Inr d \<Rightarrow> gt_type d = gt_type t \<and> gt_ne d = gt_ne t \<and> gt_nb d = gt_nb t)"

definition weight_in :: "byte list list \<Rightarrow> llama_tensor_weight \<Rightarrow> bool" where
  "weight_in files w \<longleftrightarrow> tw_idx w < length files \<and> tensor_wf (tw_tensor w)
     \<and> length (gt_name (tw_tensor w)) < GGML_MAX_NAME
     \<and> unat (tw_offs w) + unat (ggml_nbytes (tw_tensor w)) \<le> length (files ! tw_idx w)"

text \<open>
  The offset of a weight is that of the data section of its file and of a tensor of its name in it, which is
  the tensor of some weight.
\<close>

definition placed :: "(nat \<Rightarrow> bool) \<Rightarrow> byte list list \<Rightarrow> llama_tensor_weight list \<Rightarrow> llama_tensor_weight \<Rightarrow> bool" where
  "placed mem files ws w \<longleftrightarrow> (\<exists>ctx info w2. gguf_init_from_file mem (files ! tw_idx w) = Inr (Some ctx)
     \<and> info \<in> set (gc_infos ctx) \<and> c_str (ti_name info) = gt_name (tw_tensor w)
     \<and> tw_offs w = of_nat (gc_offset ctx) + ti_offset info \<and> w2 \<in> set ws \<and> file_tensor info = Inr (tw_tensor w2))"

definition weight_ok :: "(nat \<Rightarrow> bool) \<Rightarrow> byte list list \<Rightarrow> llama_tensor_weight list \<Rightarrow> llama_tensor_weight \<Rightarrow> bool" where
  "weight_ok mem files ws w \<longleftrightarrow> weight_in files w \<and> placed mem files ws w"

definition weights_ok :: "(nat \<Rightarrow> bool) \<Rightarrow> llama_model_loader \<Rightarrow> bool" where
  "weights_ok mem ml \<longleftrightarrow> list_all (weight_ok mem (ml_files ml) (ml_weights ml)) (ml_weights ml)"

definition loader_ok :: "(nat \<Rightarrow> bool) \<Rightarrow> llama_model_loader \<Rightarrow> bool" where
  "loader_ok mem ml \<longleftrightarrow> weights_ok mem ml
     \<and> distinct (map (\<lambda>w. gt_name (tw_tensor w)) (ml_weights ml))
     \<and> ml_n_tensors ml = int (length (ml_weights ml))"

lemma nbytes_cong:
  assumes "gt_type s = gt_type t" "gt_ne s = gt_ne t" "gt_nb s = gt_nb t"
  shows "ggml_nbytes s = ggml_nbytes t"
  unfolding ggml_nbytes_def assms ..

lemma tensor_wf_cong:
  assumes "gt_type s = gt_type t" "gt_ne s = gt_ne t" "gt_nb s = gt_nb t"
  shows "tensor_wf s = tensor_wf t"
  unfolding tensor_wf_def ggml_dup_tensor_def assms ..

lemma new_tensor_wf:
  assumes "ggml_new_tensor ty n ne = Inr t" "n \<le> length ne"
  shows "tensor_wf t"
proof -
  have n: "1 \<le> n" "n \<le> GGML_MAX_DIMS" "ty < GGML_TYPE_COUNT" using assms(1)
    by (auto simp: ggml_new_tensor_def split: if_splits)
  with assms have t: "gt_type t = ty" "gt_ne t = take n ne @ replicate (GGML_MAX_DIMS - n) 1"
    by (auto simp: ggml_new_tensor_def Let_def)
  then have "length (gt_ne t) = GGML_MAX_DIMS" using n(2) assms(2) by simp
  moreover have "1 \<le> GGML_MAX_DIMS" by (simp add: GGML_MAX_DIMS_def)
  ultimately show ?thesis
    using assms(1) n t by (auto simp: tensor_wf_def ggml_dup_tensor_def ggml_new_tensor_def Let_def)
qed

lemma tensor_weight_in:
  assumes "tensor_weight (of_nat (length (files ! idx))) idx ctx tensor = Inr w" "tensor_wf tensor"
    and "length (gt_name tensor) < GGML_MAX_NAME" "idx < length files"
  shows "weight_in files w"
proof -
  let ?n = "length (files ! idx)"
  from assms(1) obtain offs where "\<not> offs + ggml_nbytes tensor < offs" "offs + ggml_nbytes tensor \<le> of_nat ?n"
    and w: "w = \<lparr>tw_idx = idx, tw_offs = offs, tw_tensor = tensor\<rparr>"
    by (auto simp: tensor_weight_def Let_def bindE_Inr_iff not_less split: if_splits)
  then have "unat offs + unat (ggml_nbytes tensor) \<le> unat (of_nat ?n :: u64)"
    by (simp add: unat_plus_simple [THEN iffD1, symmetric] not_less word_le_nat_alt)
  also have "\<dots> \<le> ?n" by (simp add: unat_of_nat take_bit_eq_mod)
  finally show ?thesis using w assms(2-) by (simp add: weight_in_def)
qed

lemma file_tensor_name: "file_tensor info = Inr t \<Longrightarrow> gt_name t = take (GGML_MAX_NAME - 1) (c_str (ti_name info))"
  by (auto simp: file_tensor_def bindE_Inr_iff ggml_set_name_def)

lemma file_tensor_name_length: "file_tensor info = Inr t \<Longrightarrow> length (gt_name t) < GGML_MAX_NAME"
  by (simp add: file_tensor_name GGML_MAX_NAME_def)

lemma file_tensor_wf: "file_tensor info = Inr t \<Longrightarrow> info_ok mem info \<Longrightarrow> tensor_wf t"
  using new_tensor_wf [of "ti_type info" "ti_n_dims info" "ti_ne info"] sanitize_bounds [of info]
  by (auto simp: file_tensor_def bindE_Inr_iff info_ok_def ggml_set_name_def cong: tensor_wf_cong)

lemma open_gguf_ok:
  assumes "open_gguf mem fs path = Inr (bs, ctx)"
  shows "gguf_init_from_file mem bs = Inr (Some ctx)" "list_all (info_ok mem) (gc_infos ctx)"
  using assms by (auto simp: open_gguf_def bindE_Inr_iff init_iff gguf_ok_def split: option.splits)

lemma file_weights_in:
  assumes "file_weights idx (files ! idx) ctx = Inr ws" "list_all (info_ok mem) (gc_infos ctx)" "idx < length files"
  shows "list_all (weight_in files) ws"
proof -
  from assms(1) obtain ts where "list_all2 (\<lambda>info t. file_tensor info = Inr t) (gc_infos ctx) ts"
    and ws: "list_all2 (\<lambda>t w. tensor_weight (of_nat (length (files ! idx))) idx ctx t = Inr w) ts ws"
    by (auto simp: file_weights_def bindE_Inr_iff mapE_Inr_iff)
  then have "\<forall>t\<in>set ts. tensor_wf t \<and> length (gt_name t) < GGML_MAX_NAME"
    using assms(2) by (auto simp: list_all2_conv_all_nth list_all_length in_set_conv_nth)
      (metis file_tensor_wf, metis file_tensor_name_length)
  with ws show ?thesis
    using assms(3) by (auto simp: list_all2_conv_all_nth list_all_length)
      (metis nth_mem tensor_weight_in)
qed

lemma c_str_take [simp]: "c_str (take n (c_str s)) = take n (c_str s)"
  by (auto simp: c_str_def takeWhile_eq_all_conv dest!: in_set_takeD set_takeWhileD)

lemma list_all2_right: "list_all2 P xs ys \<Longrightarrow> y \<in> set ys \<Longrightarrow> \<exists>x\<in>set xs. P x y"
  by (induction rule: list_all2_induct) auto

lemma list_all2_left: "list_all2 P xs ys \<Longrightarrow> x \<in> set xs \<Longrightarrow> \<exists>y\<in>set ys. P x y"
  by (induction rule: list_all2_induct) auto

lemma tensor_weight_offset:
  assumes "tensor_weight sz idx ctx tensor = Inr w"
  obtains info where "info \<in> set (gc_infos ctx)" "c_str (ti_name info) = c_str (gt_name tensor)"
    "tw_offs w = of_nat (gc_offset ctx) + ti_offset info" "tw_idx w = idx" "tw_tensor w = tensor"
proof -
  let ?i = "gguf_find_tensor ctx (gt_name tensor)"
  from assms have i: "0 \<le> ?i" "?i < int (length (gc_infos ctx))"
    and w: "w = \<lparr>tw_idx = idx, tw_offs = of_nat (gc_offset ctx) + ti_offset (gc_infos ctx ! nat ?i), tw_tensor = tensor\<rparr>"
    by (auto simp: tensor_weight_def gguf_get_tensor_offset_def Let_def bindE_Inr_iff split: if_splits)
  from i(1) obtain ys info zs where "gc_infos ctx = ys @ info # zs" "?i = int (length ys)"
    "c_str (gt_name tensor) = c_str (ti_name info)"
    by (cases rule: find_from_cases [of "\<lambda>info. c_str (gt_name tensor) = c_str (ti_name info)" "gc_infos ctx"])
      (auto simp: gguf_find_tensor_def)
  with w show thesis by (intro that [of info]) simp_all
qed

lemma file_weights_placed:
  assumes ws: "file_weights idx (files ! idx) ctx = Inr ws" and ctx: "gguf_init_from_file mem (files ! idx) = Inr (Some ctx)"
  shows "list_all (placed mem files ws) ws"
  unfolding list_all_iff
proof
  fix w assume "w \<in> set ws"
  from ws obtain ts where ts: "list_all2 (\<lambda>info t. file_tensor info = Inr t) (gc_infos ctx) ts"
    and tw: "list_all2 (\<lambda>t w. tensor_weight (of_nat (length (files ! idx))) idx ctx t = Inr w) ts ws"
    by (auto simp: file_weights_def bindE_Inr_iff mapE_Inr_iff)
  from list_all2_right [OF tw \<open>w \<in> set ws\<close>] obtain t where
    t: "t \<in> set ts" "tensor_weight (of_nat (length (files ! idx))) idx ctx t = Inr w" by blast
  obtain info where info: "info \<in> set (gc_infos ctx)" "c_str (ti_name info) = c_str (gt_name t)"
    "tw_offs w = of_nat (gc_offset ctx) + ti_offset info" "tw_idx w = idx" "tw_tensor w = t"
    by (rule tensor_weight_offset [OF t(2)])
  from list_all2_right [OF ts t(1)] have "c_str (gt_name t) = gt_name t" by (auto dest!: file_tensor_name)
  moreover from list_all2_left [OF ts info(1)] obtain t2 where t2: "t2 \<in> set ts" "file_tensor info = Inr t2" by blast
  moreover from list_all2_left [OF tw t2(1)] obtain w2 where
    w2: "w2 \<in> set ws" "tensor_weight (of_nat (length (files ! idx))) idx ctx t2 = Inr w2" by blast
  moreover have "tw_tensor w2 = t2" by (rule tensor_weight_offset [OF w2(2)])
  ultimately show "placed mem files ws w" using ctx info unfolding placed_def by auto
qed

lemma file_weights_ok:
  assumes "file_weights idx (files ! idx) ctx = Inr ws" "open_gguf mem fs path = Inr (files ! idx, ctx)" "idx < length files"
  shows "list_all (weight_ok mem files ws) ws"
  using file_weights_in [OF assms(1) open_gguf_ok(2) [OF assms(2)] assms(3)]
    file_weights_placed [OF assms(1) open_gguf_ok(1) [OF assms(2)]] by (simp add: list_all_iff weight_ok_def)

lemma weight_ok_append: "weight_ok mem files ws w \<Longrightarrow> set ws \<subseteq> set ws2 \<Longrightarrow> weight_ok mem (files @ files2) ws2 w"
  by (auto simp: weight_ok_def weight_in_def placed_def nth_append)

lemma load_split_inv:
  assumes "load_split mem fs path_max split_prefix n_split idx ml = Inr ml'"
    and "weights_ok mem ml" "length (ml_files ml) = idx"
  shows "weights_ok mem ml' \<and> length (ml_files ml') = Suc idx \<and> ml_mappings ml' = ml_mappings ml"
proof -
  from assms(1) obtain path bs ctx ws where o: "open_gguf mem fs path = Inr (bs, ctx)"
    and ws: "file_weights idx bs ctx = Inr ws"
    and ml': "ml' = ml\<lparr>ml_files := ml_files ml @ [bs], ml_weights := ml_weights ml @ ws\<rparr>"
    by (auto simp: load_split_def Let_def bindE_Inr_iff)
  have "list_all (weight_ok mem (ml_files ml @ [bs]) ws) ws"
    using ws o assms(3) by (intro file_weights_ok [of idx _ ctx _ _ fs path]) (auto simp: nth_append)
  then have "weight_ok mem (ml_files ml @ [bs]) (ml_weights ml @ ws) w" if "w \<in> set ws" for w
    using that weight_ok_append [of mem "ml_files ml @ [bs]" ws w "ml_weights ml @ ws" "[]"] by (simp add: list_all_iff)
  with assms(2,3) show ?thesis
    by (auto simp: ml' weights_ok_def list_all_iff intro: weight_ok_append)
qed

lemma load_split_loop:
  assumes "foldE (load_split mem fs path_max split_prefix n_split) [k..<n] ml = Inr ml'"
    and "weights_ok mem ml" "length (ml_files ml) = k"
  shows "weights_ok mem ml' \<and> ml_mappings ml' = ml_mappings ml"
  using assms
proof (induction "n - k" arbitrary: k ml)
  case (Suc d)
  then have "[k..<n] = k # [Suc k..<n]" by (simp add: upt_rec)
  with Suc.prems(1) obtain ml1 where "load_split mem fs path_max split_prefix n_split k ml = Inr ml1"
    and rest: "foldE (load_split mem fs path_max split_prefix n_split) [Suc k..<n] ml1 = Inr ml'"
    by (auto simp: bindE_Inr_iff)
  from load_split_inv [OF this(1) Suc.prems(2,3)] Suc.hyps(2) rest Suc.hyps(1) [of "Suc k" ml1] show ?case by auto
qed simp

lemma load_splits_inv:
  assumes "load_splits mem fs path_max fname ml = Inr ml'"
    and "weights_ok mem ml" "length (ml_files ml) = 1"
  shows "weights_ok mem ml' \<and> ml_mappings ml' = ml_mappings ml"
proof -
  from assms(1) have "ml' = ml \<or> (\<exists>pre k n. foldE (load_split mem fs path_max pre k) [1..<n] ml = Inr ml')"
    unfolding load_splits_def Let_def bindE_Inr_iff
    by (elim exE conjE, simp split: if_splits option.splits prod.splits add: bindE_Inr_iff)
      (auto simp: bindE_Inr_iff split: if_splits)
  then show ?thesis using assms(2,3) load_split_loop by metis
qed

lemma load_model_parts:
  assumes "load_model mem fs path_max mmap_supported fname use_mmap check_tensors ovr = Inr ml"
  obtains bs meta ml0 ws ml2 where "open_gguf mem fs fname = Inr (bs, meta)" "ml_files ml0 = [bs]"
    "ml_weights ml0 = ws" "file_weights 0 bs meta = Inr ws" "load_splits mem fs path_max fname ml0 = Inr ml2"
    "ml_files ml = ml_files ml2" "ml_weights ml = ml_weights ml2" "ml_mappings ml = ml_mappings ml2" "ml_mappings ml0 = []"
    "ml_n_tensors ml = int (length (ml_weights ml2))"
    "distinct (map gt_name (map tw_tensor (ml_weights ml2)))"
  using assms unfolding load_model_def Let_def bindE_Inr_iff
  apply (clarsimp simp: bindE_Inr_iff split: if_splits)
  subgoal premises p by (rule p(1) [OF refl _ _ p(4) p(6)]) (use p in simp_all)
  done

lemma load_model_ok:
  assumes "load_model mem fs path_max mmap_supported fname use_mmap check_tensors ovr = Inr ml"
  shows "loader_ok mem ml" "ml_mappings ml = []"
proof -
  obtain bs meta ml0 ws ml2 where p: "open_gguf mem fs fname = Inr (bs, meta)" "ml_files ml0 = [bs]"
    "ml_weights ml0 = ws" "file_weights 0 bs meta = Inr ws" "load_splits mem fs path_max fname ml0 = Inr ml2"
    "ml_files ml = ml_files ml2" "ml_weights ml = ml_weights ml2" "ml_mappings ml = ml_mappings ml2" "ml_mappings ml0 = []"
    "ml_n_tensors ml = int (length (ml_weights ml2))" "distinct (map gt_name (map tw_tensor (ml_weights ml2)))"
    using assms by (rule load_model_parts)
  have "list_all (weight_ok mem [bs] ws) ws"
    using p(1,4) by (intro file_weights_ok [of 0 _ meta _ _ fs fname]) simp_all
  with p(2,3) have "weights_ok mem ml2 \<and> ml_mappings ml2 = ml_mappings ml0"
    by (intro load_splits_inv [OF p(5)]) (simp_all add: weights_ok_def)
  with p show "loader_ok mem ml" "ml_mappings ml = []" by (simp_all add: loader_ok_def weights_ok_def comp_def)
qed

section \<open>Created tensors\<close>

text \<open>What happens to a loader between its construction and the loading of the data.\<close>

inductive loader_step :: "llama_model_loader \<Rightarrow> llama_model_loader \<Rightarrow> bool" where
  step_create: "create_tensor ml name ne flags = Inr (t, ml') \<Longrightarrow> loader_step ml ml'"
| step_mappings: "loader_step ml (init_mappings ml)"

inductive_cases loader_stepE: "loader_step ml ml'"

definition same_files :: "llama_model_loader \<Rightarrow> llama_model_loader \<Rightarrow> bool" where
  "same_files ml ml' \<longleftrightarrow> ml_files ml' = ml_files ml \<and> ml_weights ml' = ml_weights ml
     \<and> ml_use_mmap ml' = ml_use_mmap ml \<and> ml_check_tensors ml' = ml_check_tensors ml"

lemma create_tensor_parts:
  assumes "create_tensor ml name ne flags = Inr (r, ml')"
  obtains "r = None" "ml' = ml"
  | w d where "get_weight ml name = Some w" "ggml_dup_tensor (tw_tensor w) = Inr d"
      "r = Some (ggml_set_name d (gt_name (tw_tensor w)))" "same_files ml ml'" "ml_mappings ml' = ml_mappings ml"
proof -
  from assms obtain cur where c: "check_tensor_dims ml name ne (flags AND TENSOR_NOT_REQUIRED = 0) = Inr cur"
    and r: "(case cur of None \<Rightarrow> Inr (None, ml)
      | Some t \<Rightarrow> bindE (create_tensor_for ml t (flags AND TENSOR_DUPLICATED \<noteq> 0)) (\<lambda>(tensor, ml'). Inr (Some tensor, ml')))
      = (Inr (r, ml') :: (ggml_tensor option \<times> llama_model_loader) res)"
    unfolding create_tensor_def bindE_Inr_iff by blast
  show thesis
  proof (cases cur)
    case None
    with r that(1) show ?thesis by simp
  next
    case (Some t)
    with c obtain w where w: "get_weight ml name = Some w" "t = tw_tensor w"
      by (auto simp: check_tensor_dims_def get_tensor_meta_def split: option.splits if_splits)
    from r Some obtain tensor where t: "create_tensor_for ml t (flags AND TENSOR_DUPLICATED \<noteq> 0) = Inr (tensor, ml')"
      and r: "r = Some tensor" by (auto simp: bindE_Inr_iff)
    then have "same_files ml ml' \<and> ml_mappings ml' = ml_mappings ml"
      by (cases "flags AND TENSOR_DUPLICATED \<noteq> 0") (auto simp: create_tensor_for_def bindE_Inr_iff same_files_def)
    moreover from t obtain d where "ggml_dup_tensor t = Inr d" "tensor = ggml_set_name d (gt_name t)"
      by (auto simp: create_tensor_for_def bindE_Inr_iff)
    ultimately show ?thesis using w r by (intro that(2)) auto
  qed
qed

lemma create_same_files: "create_tensor ml name ne flags = Inr (t, ml') \<Longrightarrow> same_files ml ml'"
  by (erule create_tensor_parts) (simp_all add: same_files_def)

lemma create_same_mappings: "create_tensor ml name ne flags = Inr (t, ml') \<Longrightarrow> ml_mappings ml' = ml_mappings ml"
  by (erule create_tensor_parts) simp_all

lemma steps_same_files: "loader_step\<^sup>*\<^sup>* ml ml' \<Longrightarrow> same_files ml ml'"
proof (induction rule: rtranclp_induct)
  case (step y z)
  from step.hyps(2) have "same_files y z"
    by (cases rule: loader_stepE) (auto simp: init_mappings_def same_files_def dest: create_same_files)
  with step.IH show ?case by (simp add: same_files_def)
qed (simp add: same_files_def)

lemma created_tensor:
  assumes "create_tensor ml name ne flags = Inr (Some t, ml')" "list_all (weight_in (ml_files ml)) (ml_weights ml)"
  obtains w where "w \<in> set (ml_weights ml)" "gt_name (tw_tensor w) = c_str name" "gt_name t = c_str name"
    "gt_type t = gt_type (tw_tensor w)" "gt_ne t = gt_ne (tw_tensor w)"
    "ggml_nbytes t = ggml_nbytes (tw_tensor w)" "get_weight ml name = Some w"
proof -
  from assms(1) obtain w d where w: "get_weight ml name = Some w" and d: "ggml_dup_tensor (tw_tensor w) = Inr d"
    and t: "t = ggml_set_name d (gt_name (tw_tensor w))"
    by (cases rule: create_tensor_parts) auto
  then have in_set: "w \<in> set (ml_weights ml)" and name: "gt_name (tw_tensor w) = c_str name"
    by (auto simp: get_weight_def find_Some_iff)
  with assms(2) have wf: "tensor_wf (tw_tensor w)" "length (c_str name) < GGML_MAX_NAME"
    by (auto simp: list_all_iff weight_in_def)
  from wf have "gt_name t = c_str name" by (simp add: t ggml_set_name_def name c_str_idem GGML_MAX_NAME_def)
  moreover have same: "gt_type t = gt_type (tw_tensor w)" "gt_ne t = gt_ne (tw_tensor w)" "gt_nb t = gt_nb (tw_tensor w)"
    using wf(1) d by (simp_all add: t ggml_set_name_def tensor_wf_def)
  moreover have "ggml_nbytes t = ggml_nbytes (tw_tensor w)" using same by (rule nbytes_cong)
  ultimately show thesis using in_set name w by (intro that) auto
qed

text \<open>The mappings of a loader are those of its files, once they are made.\<close>

definition maps_ok :: "llama_model_loader \<Rightarrow> bool" where
  "maps_ok ml \<longleftrightarrow> (ml_mappings ml = [] \<or> ml_use_mmap ml
     \<and> (\<forall>i<length (ml_files ml). i < length (ml_mappings ml) \<and> ml_mappings ml ! i = ml_files ml ! i))"

lemma steps_maps_ok: "loader_step\<^sup>*\<^sup>* ml ml' \<Longrightarrow> maps_ok ml \<Longrightarrow> maps_ok ml'"
proof (induction rule: rtranclp_induct)
  case (step y z)
  from step.hyps(2) consider name ne flags t where "create_tensor y name ne flags = Inr (t, z)" | "z = init_mappings y"
    by (auto elim: loader_stepE)
  then show ?case
  proof cases
    case 1
    with step.IH step.prems create_same_files [OF 1] create_same_mappings [OF 1] show ?thesis
      by (simp add: maps_ok_def same_files_def)
  next
    case 2
    with step.IH step.prems show ?thesis
      by (cases "ml_mappings y = []") (auto simp: maps_ok_def init_mappings_def nth_append)
  qed
qed simp

text \<open>
  C37: a tensor created by a loader has the bytes of the tensor of its name in the model files, and loading
  it never leaves its file, whatever else the loader has created meanwhile: in one of the files the reader
  finds a tensor of that name, of the same type and dimensions, and the result is the full slice of the file at
  the offset of the data section and of the tensor in it, or the error of the data check. If the files are to be
  mapped and \<open>init_mappings\<close> was not called, \<open>mappings.at\<close> throws.
\<close>

theorem created_tensor_loads:
  assumes "load_model mem fs path_max mmap_supported fname use_mmap check_tensors ovr = Inr ml0"
    and "loader_step\<^sup>*\<^sup>* ml0 ml" "create_tensor ml name ne flags = Inr (Some t, ml1)" "loader_step\<^sup>*\<^sup>* ml1 ml2"
    and "has_data \<or> ml_use_mmap ml0"
  shows "\<exists>idx ctx info tensor. idx < length (ml_files ml0) \<and> gguf_init_from_file mem (ml_files ml0 ! idx) = Inr (Some ctx)
    \<and> info \<in> set (gc_infos ctx) \<and> c_str (ti_name info) = c_str name \<and> file_tensor info = Inr tensor
    \<and> gt_type t = gt_type tensor \<and> gt_ne t = gt_ne tensor \<and> ggml_nbytes t = ggml_nbytes tensor
    \<and> (let data = take (unat (ggml_nbytes tensor)) (drop (unat (of_nat (gc_offset ctx) + ti_offset info)) (ml_files ml0 ! idx))
       in length data = unat (ggml_nbytes tensor)
        \<and> load_data_for validate ml2 has_data t =
            (if ml_use_mmap ml0 \<and> ml_mappings ml2 = [] then Inl (OutOfRange ''mappings.at'')
             else if ml_check_tensors ml0 \<and> \<not> validate (gt_type t) data
             then Inl (RuntimeError ''tensor has invalid data'') else Inr data))"
proof -
  have ok: "weights_ok mem ml0" and names: "distinct (map (\<lambda>w. gt_name (tw_tensor w)) (ml_weights ml0))"
    and none: "ml_mappings ml0 = []"
    using load_model_ok [OF assms(1)] by (simp_all add: loader_ok_def)
  have same: "same_files ml0 ml" "same_files ml ml1" "same_files ml1 ml2"
    using assms(2-4) steps_same_files create_same_files by blast+
  have "maps_ok ml" using none steps_maps_ok [OF assms(2)] by (simp add: maps_ok_def)
  then have "maps_ok ml1"
    using same(2) create_same_mappings [OF assms(3)] by (simp add: maps_ok_def same_files_def)
  then have maps: "maps_ok ml2" by (rule steps_maps_ok [OF assms(4)])
  from ok have ins: "list_all (weight_in (ml_files ml)) (ml_weights ml)"
    using same(1) by (simp add: weights_ok_def weight_ok_def list_all_iff same_files_def)
  obtain w where w: "w \<in> set (ml_weights ml)" "gt_name (tw_tensor w) = c_str name" "gt_name t = c_str name"
    "gt_type t = gt_type (tw_tensor w)" "gt_ne t = gt_ne (tw_tensor w)"
    "ggml_nbytes t = ggml_nbytes (tw_tensor w)" "get_weight ml name = Some w"
    using created_tensor [OF assms(3) ins] by metis
  then have w0: "w \<in> set (ml_weights ml0)" using same(1) by (simp add: same_files_def)
  then have w_ok: "weight_in (ml_files ml0) w" "placed mem (ml_files ml0) (ml_weights ml0) w"
    using ok by (simp_all add: weights_ok_def weight_ok_def list_all_iff)
  then obtain ctx info w2 where p: "gguf_init_from_file mem (ml_files ml0 ! tw_idx w) = Inr (Some ctx)"
    "info \<in> set (gc_infos ctx)" "c_str (ti_name info) = gt_name (tw_tensor w)"
    "tw_offs w = of_nat (gc_offset ctx) + ti_offset info" "w2 \<in> set (ml_weights ml0)" "file_tensor info = Inr (tw_tensor w2)"
    unfolding placed_def by blast
  have "gt_name (tw_tensor w2) = gt_name (tw_tensor w)"
    using file_tensor_name [OF p(6)] p(3) w_ok(1) by (simp add: weight_in_def GGML_MAX_NAME_def)
  with names p(5) w0 have "w2 = w" by (auto simp: distinct_map dest: inj_onD)
  moreover have "require_weight ml2 (gt_name t) = Inr w"
    using w(3,7) same by (simp add: require_weight_def get_weight_def same_files_def)
  moreover have "length (take (unat (ggml_nbytes t)) (drop (unat (tw_offs w)) (ml_files ml0 ! tw_idx w))) = unat (ggml_nbytes t)"
    using w_ok(1) w(6) by (auto simp: weight_in_def min_def)
  moreover have "load_data_for validate ml2 has_data t =
      (if ml_use_mmap ml0 \<and> ml_mappings ml2 = [] then Inl (OutOfRange ''mappings.at'')
       else let data = take (unat (ggml_nbytes t)) (drop (unat (tw_offs w)) (ml_files ml0 ! tw_idx w)) in
         if ml_check_tensors ml0 \<and> \<not> validate (gt_type t) data
         then Inl (RuntimeError ''tensor has invalid data'') else Inr data)"
    using calculation(2) w_ok(1) w(6) same maps assms(5)
    by (auto simp: load_data_for_def same_files_def weight_in_def maps_ok_def Let_def)
  ultimately show ?thesis
    using p w w_ok(1) by (intro exI [of _ "tw_idx w"] exI [of _ ctx] exI [of _ info] exI [of _ "tw_tensor w"])
      (simp add: weight_in_def Let_def)
qed

definition small_file :: "byte list" where
  "small_file = meta_image small_ctx @ data_image small_ctx"

lemma small_file_opened:
  "open_gguf (\<lambda>_. True) (\<lambda>_. Some small_file) path = Inr (small_file, reread small_ctx)"
  using written_read [OF small_ctx_ok, of 3 "data_image small_ctx"]
  by (simp add: open_gguf_def small_file_def small_ctx_fields small_ctx_header)

lemma small_file_size: "length (meta_image small_ctx) = 168" "length small_file = 184"
  using small_ctx_data(2)
  by (simp_all add: small_file_def meta_image_def length_padded small_ctx_header small_ctx_fields padding_def GGML_PAD_def)

lemma small_weights:
  defines "t n k \<equiv> \<lparr>gt_name = bytes n, gt_type = 24, gt_ne = [k, 1, 1, 1], gt_nb = [1, k, k, k], gt_data = []\<rparr>"
  shows "file_weights 0 small_file (reread small_ctx) =
    Inr [\<lparr>tw_idx = 0, tw_offs = 168, tw_tensor = t ''t'' 3\<rparr>, \<lparr>tw_idx = 0, tw_offs = 176, tw_tensor = t ''u'' 1\<rparr>]"
proof -
  have "mapE file_tensor (gc_infos (reread small_ctx)) = Inr [t ''t'' 3, t ''u'' 1]"
    by (simp add: t_def reread_def small_ctx_def file_info_def file_tensor_def ggml_new_tensor_def Let_def
        GGML_TYPE_COUNT_def GGML_MAX_DIMS_def ggml_set_name_def GGML_MAX_NAME_def c_str_def bytes_def
        ggml_type_size_def ggml_blck_size_def type_traits_def numeral_3_eq_3)
  moreover have "ggml_nbytes (t n k) = k" for n k
    by (simp add: t_def ggml_nbytes_def ggml_type_size_def ggml_blck_size_def type_traits_def)
  moreover have "gguf_find_tensor (reread small_ctx) (bytes ''t'') = 0" "gguf_find_tensor (reread small_ctx) (bytes ''u'') = 1"
    by (simp_all add: gguf_find_tensor_def reread_def small_ctx_def file_info_def c_str_def bytes_def)
  moreover have "gt_name (t n k) = bytes n" for n k by (simp add: t_def)
  moreover have "gguf_get_tensor_offset (reread small_ctx) 0 = Inr 0" "gguf_get_tensor_offset (reread small_ctx) 1 = Inr 8"
    by (simp_all add: gguf_get_tensor_offset_def reread_def small_ctx_def file_info_def)
  moreover have "gc_offset (reread small_ctx) = 168" by (simp add: reread_def small_file_size)
  ultimately show ?thesis
    by (simp add: file_weights_def tensor_weight_def small_file_size)
qed

lemma small_key_missing:
  assumes "ml_meta ml = reread small_ctx" "ml_overrides ml = load_overrides []" "ml_arch ml = LLM_ARCH_UNKNOWN"
    and "llm_kv_key LLM_ARCH_UNKNOWN kid = Inr key"
    and "c_str key \<noteq> bytes ''general.alignment''" "c_str key \<noteq> bytes ''a''"
  shows "get_key_kid T ml kid False = Inr None"
  using assms(5,6) [symmetric]
  by (simp add: get_key_kid_def assms(1-4) get_key_def gkv_set_def load_overrides_def try_override_def
      gguf_find_key_def reread_def small_ctx_def c_str_def bytes_def)

lemma small_keys:
  "llm_kv_key LLM_ARCH_UNKNOWN LLM_KV_GENERAL_ARCHITECTURE = Inr (bytes ''general.architecture'')"
  "llm_kv_key LLM_ARCH_UNKNOWN LLM_KV_SPLIT_COUNT = Inr (bytes ''split.count'')"
  by (simp_all add: llm_kv_key_def table_at_def LLM_KV_NAMES_def LLM_ARCH_NAMES_def)

lemma small_loads:
  obtains ml where
    "load_model (\<lambda>_. True) (\<lambda>_. Some small_file) 4096 True (bytes ''m'') True False [] = Inr ml"
    "file_weights 0 small_file (reread small_ctx) = Inr (ml_weights ml)" "ml_files ml = [small_file]"
    "ml_use_mmap ml" "\<not> ml_check_tensors ml"
proof -
  obtain ws where ws: "file_weights 0 small_file (reread small_ctx) = Inr ws" "distinct (map (gt_name \<circ> tw_tensor) ws)"
    by (simp add: small_weights bytes_def)
  have keys: "c_str (bytes ''general.architecture'') \<noteq> bytes ''general.alignment''"
    "c_str (bytes ''general.architecture'') \<noteq> bytes ''a''" "c_str (bytes ''split.count'') \<noteq> bytes ''general.alignment''"
    "c_str (bytes ''split.count'') \<noteq> bytes ''a''"
    by (simp_all add: c_str_def bytes_def)
  have arch: "llm_arch_from_string [] = LLM_ARCH_UNKNOWN"
    by (simp add: llm_arch_from_string_def LLM_ARCH_NAMES_def bytes_def)
  have "\<not> gguf_find_key (reread small_ctx) (bytes ''general.file_type'') \<ge> 0"
    by (simp add: gguf_find_key_def reread_def small_ctx_def c_str_def bytes_def)
  then obtain f where "file_type (reread small_ctx) ws = Inr f"
    by (simp add: file_type_def Let_def)
  with ws have "\<exists>ml. load_model (\<lambda>_. True) (\<lambda>_. Some small_file) 4096 True (bytes ''m'') True False [] = Inr ml
      \<and> ml_weights ml = ws \<and> ml_files ml = [small_file] \<and> ml_use_mmap ml \<and> \<not> ml_check_tensors ml"
    by (simp add: load_model_def small_file_opened arch load_splits_def comp_def Let_def
        small_key_missing [OF _ _ _ small_keys(1) keys(1,2)] small_key_missing [OF _ _ _ small_keys(2) keys(3,4)])
  with ws(1) that show thesis by blast
qed

theorem created_tensor_loads_witness:
  "\<exists>ml t ml1. load_model (\<lambda>_. True) (\<lambda>_. Some small_file) 4096 True (bytes ''m'') True False [] = Inr ml
    \<and> create_tensor ml (bytes ''t'') [3] 0 = Inr (Some t, ml1)
    \<and> load_data_for (\<lambda>_ _. True) (init_mappings ml1) False t = Inr [1, 2, 3]"
proof -
  obtain ml where ml: "load_model (\<lambda>_. True) (\<lambda>_. Some small_file) 4096 True (bytes ''m'') True False [] = Inr ml"
    "file_weights 0 small_file (reread small_ctx) = Inr (ml_weights ml)" "ml_files ml = [small_file]"
    "ml_use_mmap ml" "\<not> ml_check_tensors ml"
    by (rule small_loads)
  have ws: "ml_weights ml = [\<lparr>tw_idx = 0, tw_offs = 168, tw_tensor = \<lparr>gt_name = bytes ''t'', gt_type = 24,
        gt_ne = [3, 1, 1, 1], gt_nb = [1, 3, 3, 3], gt_data = []\<rparr>\<rparr>,
      \<lparr>tw_idx = 0, tw_offs = 176, tw_tensor = \<lparr>gt_name = bytes ''u'', gt_type = 24,
        gt_ne = [1, 1, 1, 1], gt_nb = [1, 1, 1, 1], gt_data = []\<rparr>\<rparr>]"
    using ml(2) by (simp add: small_weights)
  let ?T = "\<lparr>gt_name = bytes ''t'', gt_type = 24, gt_ne = [3, 1, 1, 1], gt_nb = [1, 3, 3, 3], gt_data = []\<rparr>"
  have dims: "[0..<GGML_MAX_DIMS] = [0, 1, 2, 3]" by (simp add: GGML_MAX_DIMS_def upt_rec)
  have "check_tensor_dims ml (bytes ''t'') [3] True = Inr (Some ?T)"
    by (simp add: check_tensor_dims_def get_tensor_meta_def get_weight_def ws dims)
      (simp add: c_str_def bytes_def)
  moreover have "ggml_dup_tensor ?T = Inr (?T\<lparr>gt_name := []\<rparr>)"
    by (simp add: ggml_dup_tensor_def ggml_new_tensor_def GGML_TYPE_COUNT_def GGML_MAX_DIMS_def
        ggml_type_size_def ggml_blck_size_def type_traits_def)
  moreover have "ggml_nbytes (ggml_set_name (?T\<lparr>gt_name := []\<rparr>) n) = 3" for n
    by (simp add: ggml_set_name_def ggml_nbytes_def ggml_type_size_def ggml_blck_size_def type_traits_def)
  ultimately obtain t ml1 where t: "create_tensor ml (bytes ''t'') [3] 0 = Inr (Some t, ml1)" "ggml_nbytes t = 3"
    by (simp add: create_tensor_def create_tensor_for_def)
  have read: "gguf_init_from_file (\<lambda>_. True) small_file = Inr (Some (reread small_ctx))"
    by (rule open_gguf_ok [OF small_file_opened])
  have name: "(reread small_ctx) = ctx \<Longrightarrow> info \<in> set (gc_infos ctx) \<Longrightarrow> c_str (ti_name info) = bytes ''t'' \<Longrightarrow> ti_offset info = 0"
    for ctx info by (auto simp: reread_def small_ctx_def file_info_def c_str_def bytes_def)
  have offset: "gc_offset (reread small_ctx) = 168" by (simp add: reread_def small_file_size)
  have "ml_mappings (init_mappings ml1) \<noteq> []"
    using create_same_files [OF t(1)] ml(3,4) by (simp add: init_mappings_def same_files_def)
  moreover have "c_str (bytes ''t'') = bytes ''t''" by (simp add: c_str_def bytes_def)
  ultimately have "load_data_for (\<lambda>_ _. True) (init_mappings ml1) False t = Inr (take 3 (drop 168 small_file))"
    using created_tensor_loads [OF ml(1) rtranclp.rtrancl_refl t(1) r_into_rtranclp [where r = loader_step, OF step_mappings],
      of False "\<lambda>_ _. True"] ml(3-5) t(2) read name offset
    by (auto simp: Let_def)
  moreover have "take 3 (drop 168 small_file) = [1, 2, 3]"
  proof -
    have "take 3 (drop 168 small_file) = take 3 (data_image small_ctx)" by (simp add: small_file_def small_file_size)
    then show ?thesis by (simp add: data_image_def small_ctx_def padded_def)
  qed
  ultimately show ?thesis using ml(1) t(1) by metis
qed

section \<open>Paths of splits\<close>

lemma fmt_05d_length:
  assumes "0 \<le> i" "i < 2 ^ 31"
  shows "length (fmt_05d i) \<le> 10"
proof -
  have "length (to_string (nat i)) \<le> 10" using to_string_length [of "nat i" 9] assms by simp
  then show ?thesis using assms(1) by (simp add: fmt_05d_def Let_def)
qed

lemma str_find_suffix: "str_find (p @ q) q (length p) = Some (length p)"
  by (auto simp: str_find_Some_iff match_at_def)

lemma str_find_end:
  assumes "str_find s q n = Some i" "length s = n + length q"
  shows "s = take n s @ q"
proof -
  from assms have "i = n" "take (length q) (drop n s) = q"
    by (auto simp: str_find_Some_iff match_at_def)
  then show ?thesis using assms(2) by (metis append_take_drop_id length_drop diff_add_inverse order_refl take_all_iff)
qed

text \<open>
  The prefix of a path is found exactly if the path is the one that the prefix and the numbers of the
  split make, for every path that fits its buffer; so the paths of all splits are recovered from the path
  of the first.
\<close>

theorem split_path_prefix:
  assumes "0 \<le> split_no" "split_no < 2 ^ 31 - 1" "0 \<le> split_count" "split_count < 2 ^ 31" "length path < maxlen"
  shows "llama_split_prefix maxlen path split_no split_count = (Some p, int (length p))
    \<longleftrightarrow> p \<noteq> [] \<and> length p + length (split_postfix split_no split_count) < maxlen
      \<and> llama_split_path maxlen p split_no split_count = (path, length path)"
proof -
  let ?q = "split_postfix split_no split_count"
  have "length ?q \<le> 30"
    using fmt_05d_length [of "split_no + 1"] fmt_05d_length [of split_count] assms(1-4)
    by (simp add: split_postfix_def bytes_def)
  then have q: "snprintf 32 ?q = ?q" by (simp add: snprintf_def)
  show ?thesis (is "?L \<longleftrightarrow> ?R")
  proof
    assume R: ?R
    then have "snprintf maxlen (p @ ?q) = p @ ?q" by (auto simp: snprintf_def simp del: take_append)
    with R have "path = p @ ?q" by (simp add: llama_split_path_def)
    with R show ?L
      by (simp add: llama_split_prefix_def q Let_def str_find_suffix) (simp add: snprintf_def)
  next
    assume ?L
    then have size: "int (length path) - int (length ?q) > 0"
      and found: "str_find path ?q (length path - length ?q) \<noteq> None"
      and p: "p = take (length path - length ?q) path"
      using assms(5) unfolding llama_split_prefix_def q Let_def
      by (auto simp: snprintf_def nat_diff_distrib' split: if_splits)
    from found obtain i where "str_find path ?q (length path - length ?q) = Some i" by blast
    then have "path = p @ ?q" unfolding p by (rule str_find_end) (use size in simp)
    moreover from this have "snprintf maxlen (p @ ?q) = p @ ?q" using assms(5) by (simp add: snprintf_def)
    ultimately show ?R using size assms(5) by (simp add: llama_split_path_def)
  qed
qed

theorem split_path_prefix_witness:
  "llama_split_prefix 4096 (bytes ''m-00001-of-00003.gguf'') 0 3 = (Some (bytes ''m''), 1)"
proof -
  have "llama_split_path 4096 (bytes ''m'') 0 3 = (bytes ''m-00001-of-00003.gguf'', 21)"
    "length (split_postfix 0 3) = 20"
    by (simp_all add: llama_split_path_def snprintf_def split_postfix_def fmt_05d_def to_string.simps bytes_def
        eval_nat_numeral)
  then show ?thesis
    using split_path_prefix [of 0 3 "bytes ''m-00001-of-00003.gguf''" 4096 "bytes ''m''"] by (simp add: bytes_def)
qed

section \<open>Tensors that are not what the file says\<close>

text \<open>
  A name of 64 bytes and more is cut to 63. If no tensor has the cut name, the lookup fails, and the
  offset is read at the index -1.
\<close>

lemma long_name_undefined:
  assumes "file_tensor info = Inr t" "GGML_MAX_NAME \<le> length (c_str (ti_name info))"
    and "take (GGML_MAX_NAME - 1) (c_str (ti_name info)) \<notin> c_str ` ti_name ` set (gc_infos ctx)"
  shows "tensor_weight sz idx ctx t = Inl (UndefinedBehaviour ''ctx->infos[i]'')"
proof -
  let ?n = "take (GGML_MAX_NAME - 1) (c_str (ti_name info))"
  have "\<forall>i\<in>set (gc_infos ctx). c_str ?n \<noteq> c_str (ti_name i)" using assms(3) by auto
  moreover have "find_from P k xs = -1" if "\<forall>x\<in>set xs. \<not> P x" for P k and xs :: "gguf_tensor_info list"
    using that by (induction xs arbitrary: k) auto
  ultimately have "gguf_find_tensor ctx (gt_name t) = -1"
    by (simp add: gguf_find_tensor_def file_tensor_name [OF assms(1)])
  then show ?thesis by (simp add: tensor_weight_def gguf_get_tensor_offset_def)
qed

text \<open>
  The number of elements of a tensor is checked, its size in bytes is not: a tensor of \<open>2 ^ 62\<close> floats
  has no bytes, so it lies in every file.
\<close>

lemma huge_tensor_empty:
  defines "info \<equiv> \<lparr>ti_name = bytes ''t'', ti_n_dims = 1, ti_ne = [2 ^ 62, 1, 1, 1], ti_type = 0, ti_offset = 0,
    ti_data = [], ti_size = 0\<rparr>"
  shows "gguf_tensor_info_sanitize info = Inr ()"
    and "\<exists>t. file_tensor info = Inr t \<and> ggml_nelements t = 2 ^ 62 \<and> ggml_nbytes t = 0"
proof -
  show "gguf_tensor_info_sanitize info = Inr ()"
    by (simp add: info_def gguf_tensor_info_sanitize_def GGML_MAX_DIMS_def GGML_TYPE_COUNT_def int64_max_div_def
        INT64_MAX_def)
  show "\<exists>t. file_tensor info = Inr t \<and> ggml_nelements t = 2 ^ 62 \<and> ggml_nbytes t = 0"
    by (simp add: info_def file_tensor_def ggml_new_tensor_def GGML_TYPE_COUNT_def GGML_MAX_DIMS_def ggml_set_name_def
        ggml_nelements_def ggml_nbytes_def ggml_type_size_def ggml_blck_size_def type_traits_def)
qed

end
