(* ===== verification/VocabLoad.thy ===== *)
theory VocabLoad
  imports ModelLoader PreTypes Detokenize
begin

text \<open>
  Loading a vocabulary from the metadata of a model (\<open>llm_load_vocab\<close> of \<open>src/src/llama.cpp\<close>): the kind
  of tokenizer and its defaults, the merges, the token table, the special tokens and the caches.

  What comes from outside: the value of a float (\<open>score\<close>, on bit patterns), the iteration order of an
  unordered map (\<open>order\<close>, on the list of its keys) and the sorting of \<open>std::sort\<close>, which leaves open in
  what order equal elements end up (\<open>srt\<close>, on a key to sort by in descending order).
\<close>

section \<open>Helpers\<close>

text \<open>\<open>get_key\<close> into a variable that has a value already.\<close>

definition get_key_default :: "'a gkv \<Rightarrow> llama_model_loader \<Rightarrow> llm_kv \<Rightarrow> 'a \<Rightarrow> 'a res" where
  "get_key_default T ml kid x =
    bindE (get_key_kid T ml kid False) (\<lambda>found. Inr (case found of None \<Rightarrow> x | Some y \<Rightarrow> y))"

definition find_kid :: "llama_model_loader \<Rightarrow> llm_kv \<Rightarrow> int res" where
  "find_kid ml kid = bindE (llm_kv_key (ml_arch ml) kid) (\<lambda>key. Inr (gguf_find_key (ml_meta ml) key))"

text \<open>The index of \<open>gguf_get_arr_str\<close> is an \<open>int\<close>.\<close>

definition arr_str :: "gguf_context \<Rightarrow> int \<Rightarrow> nat \<Rightarrow> byte list res" where
  "arr_str ctx kid i =
    (if i < 2 ^ 31 then gguf_get_arr_str ctx kid i else Inl (UndefinedBehaviour ''arr.data[i]''))"

text \<open>\<open>std::tolower\<close> in the locale \<open>C\<close>.\<close>

definition to_lower :: "byte list \<Rightarrow> byte list" where
  "to_lower = map (\<lambda>c. if ch CHR ''A'' \<le> c \<and> c \<le> ch CHR ''Z'' then c + 32 else c)"

definition contains_str :: "byte list \<Rightarrow> string \<Rightarrow> bool" where
  "contains_str s sub \<longleftrightarrow> str_find s (bytes sub) 0 \<noteq> None"

definition assert_cpts :: "byte list \<Rightarrow> unit res" where
  "assert_cpts word =
    bindE (unicode_cpts_from_utf8 word) (\<lambda>cpts.
      if cpts = [] then Inl (Abort ''unicode_cpts_from_utf8(word).size() > 0'') else Inr ())"

section \<open>The kind of tokenizer\<close>

text \<open>The merges in their order; \<open>emplace\<close> keeps the rank of a pair that is there already.\<close>

definition split_merge :: "byte list \<Rightarrow> byte list \<times> byte list" where
  "split_merge word =
    (case str_find word (bytes '' '') 1 of
       None \<Rightarrow> ([], [])
     | Some pos \<Rightarrow> (take pos word, drop (pos + 1) word))"

definition emplace :: "'k \<Rightarrow> 'v \<Rightarrow> ('k \<Rightarrow> 'v option) \<Rightarrow> 'k \<Rightarrow> 'v option" where
  "emplace k v m = (case m k of None \<Rightarrow> m(k \<mapsto> v) | Some _ \<Rightarrow> m)"

definition load_merges :: "llama_model_loader \<Rightarrow> (byte list \<times> byte list \<Rightarrow> int option) res" where
  "load_merges ml =
    bindE (find_kid ml LLM_KV_TOKENIZER_MERGES) (\<lambda>merges_keyidx.
      if merges_keyidx = -1 then Inl (RuntimeError ''cannot find tokenizer merges in model file'')
      else bindE (gguf_get_arr_n (ml_meta ml) merges_keyidx) (\<lambda>n_merges.
        foldE (\<lambda>i ranks.
            bindE (arr_str (ml_meta ml) merges_keyidx i) (\<lambda>word.
            bindE (assert_cpts word) (\<lambda>_. Inr (emplace (split_merge word) (int i) ranks))))
          [0..<nat n_merges] Map.empty))"

text \<open>As many bytes are copied as the array has elements, whatever their type is.\<close>

definition load_precompiled_charsmap :: "llama_model_loader \<Rightarrow> byte list res" where
  "load_precompiled_charsmap ml =
    bindE (find_kid ml LLM_KV_TOKENIZER_PRECOMPILED_CHARSMAP) (\<lambda>kid.
      if kid = -1 then Inr []
      else bindE (gguf_get_arr_n (ml_meta ml) kid) (\<lambda>n.
        bindE (gguf_get_arr_data (ml_meta ml) kid) (\<lambda>data.
          if n < 0 \<or> nat n > length data then Inl (UndefinedBehaviour ''precompiled_charsmap.assign'')
          else Inr (take (nat n) data))))"

definition no_specials :: "'s llama_vocab \<Rightarrow> 's llama_vocab" where
  "no_specials vocab = vocab\<lparr>special_bos_id := -1, special_eos_id := -1, special_unk_id := -1,
     special_sep_id := -1, special_pad_id := -1, special_cls_id := -1, special_mask_id := -1\<rparr>"

definition load_kind :: "llama_model_loader \<Rightarrow> byte list \<Rightarrow> 's llama_vocab \<Rightarrow> 's llama_vocab res" where
  "load_kind ml tokenizer_model vocab =
    (if tokenizer_model = bytes ''no_vocab'' then
       Inr ((no_specials vocab)\<lparr>vocab_type := VOCAB_NONE, linefeed_id := -1\<rparr>)
     else if tokenizer_model = bytes ''llama'' then
       Inr ((no_specials vocab)\<lparr>vocab_type := VOCAB_SPM, special_bos_id := 1, special_eos_id := 2,
         special_unk_id := 0\<rparr>)
     else if tokenizer_model = bytes ''bert'' then
       Inr ((no_specials vocab)\<lparr>vocab_type := VOCAB_WPM, special_unk_id := 100, special_sep_id := 102,
         special_pad_id := 0, special_cls_id := 101, special_mask_id := 103\<rparr>)
     else if tokenizer_model = bytes ''gpt2'' then
       bindE (load_merges ml) (\<lambda>ranks.
         Inr ((no_specials vocab)\<lparr>vocab_type := VOCAB_BPE, bpe_ranks := ranks, special_bos_id := 11,
           special_eos_id := 11\<rparr>))
     else if tokenizer_model = bytes ''t5'' then
       bindE (load_precompiled_charsmap ml) (\<lambda>charsmap.
         Inr ((no_specials vocab)\<lparr>vocab_type := VOCAB_UGM, precompiled_charsmap := charsmap, special_eos_id := 1,
           special_unk_id := 2, special_pad_id := 0\<rparr>))
     else Inl (RuntimeError ''unknown tokenizer''))"

text \<open>The names of the pre-tokenizers, with their types; an empty name is the default.\<close>

definition pre_type_names :: "(string \<times> llama_vocab_pre_type) list" where
  "pre_type_names =
    [('''', PRE_TYPE_DEFAULT), (''default'', PRE_TYPE_DEFAULT),
     (''llama3'', PRE_TYPE_LLAMA3), (''llama-v3'', PRE_TYPE_LLAMA3), (''llama-bpe'', PRE_TYPE_LLAMA3),
     (''deepseek-llm'', PRE_TYPE_DEEPSEEK_LLM), (''deepseek-coder'', PRE_TYPE_DEEPSEEK_CODER),
     (''falcon'', PRE_TYPE_FALCON), (''mpt'', PRE_TYPE_MPT), (''starcoder'', PRE_TYPE_STARCODER),
     (''gpt-2'', PRE_TYPE_GPT2), (''phi-2'', PRE_TYPE_GPT2), (''jina-es'', PRE_TYPE_GPT2),
     (''jina-de'', PRE_TYPE_GPT2), (''jina-v2-es'', PRE_TYPE_GPT2), (''jina-v2-de'', PRE_TYPE_GPT2),
     (''jina-v2-code'', PRE_TYPE_GPT2), (''refact'', PRE_TYPE_REFACT), (''command-r'', PRE_TYPE_COMMAND_R),
     (''qwen2'', PRE_TYPE_QWEN2), (''stablelm2'', PRE_TYPE_STABLELM2), (''olmo'', PRE_TYPE_OLMO),
     (''dbrx'', PRE_TYPE_DBRX), (''smaug-bpe'', PRE_TYPE_SMAUG), (''poro-chat'', PRE_TYPE_PORO),
     (''chatglm-bpe'', PRE_TYPE_CHATGLM4), (''viking'', PRE_TYPE_VIKING), (''jais'', PRE_TYPE_JAIS),
     (''tekken'', PRE_TYPE_TEKKEN), (''smollm'', PRE_TYPE_SMOLLM), (''codeshell'', PRE_TYPE_CODESHELL)]"

definition no_clean_spaces :: "llama_vocab_pre_type set" where
  "no_clean_spaces = {PRE_TYPE_DEEPSEEK_LLM, PRE_TYPE_DEEPSEEK_CODER, PRE_TYPE_COMMAND_R, PRE_TYPE_QWEN2,
     PRE_TYPE_PORO, PRE_TYPE_VIKING, PRE_TYPE_TEKKEN, PRE_TYPE_SMOLLM}"

definition load_bpe_pre ::
  "byte list \<Rightarrow> 's llama_vocab \<Rightarrow> (llama_vocab_pre_type \<times> 's llama_vocab) res" where
  "load_bpe_pre tokenizer_pre vocab =
    (case List.find (\<lambda>(name, _). bytes name = tokenizer_pre) pre_type_names of
       None \<Rightarrow> Inl (RuntimeError ''unknown pre-tokenizer type'')
     | Some (_, pre) \<Rightarrow>
         (let merges = (pre = PRE_TYPE_LLAMA3 \<or> pre = PRE_TYPE_TEKKEN);
              vocab1 = vocab\<lparr>tokenizer_add_space_prefix := False, tokenizer_clean_spaces := (pre \<notin> no_clean_spaces)\<rparr>;
              vocab2 = (if merges then vocab1\<lparr>tokenizer_ignore_merges := True, tokenizer_add_bos := True\<rparr> else vocab1)
          in Inr (pre, if pre = PRE_TYPE_CHATGLM4 then vocab2\<lparr>special_bos_id := -1\<rparr> else vocab2)))"

definition load_pre ::
  "byte list \<Rightarrow> 's llama_vocab \<Rightarrow> (llama_vocab_pre_type \<times> 's llama_vocab) res" where
  "load_pre tokenizer_pre vocab =
    (case vocab_type vocab of
       VOCAB_BPE \<Rightarrow> load_bpe_pre tokenizer_pre vocab
     | VOCAB_SPM \<Rightarrow> Inr (PRE_TYPE_DEFAULT, vocab\<lparr>tokenizer_add_space_prefix := True,
         tokenizer_clean_spaces := False, tokenizer_add_bos := True, tokenizer_add_eos := False\<rparr>)
     | VOCAB_WPM \<Rightarrow> Inr (PRE_TYPE_DEFAULT, vocab\<lparr>tokenizer_add_space_prefix := False,
         tokenizer_clean_spaces := True, tokenizer_add_bos := True, tokenizer_add_eos := False\<rparr>)
     | VOCAB_UGM \<Rightarrow> Inr (PRE_TYPE_DEFAULT, vocab\<lparr>tokenizer_add_bos := False, tokenizer_add_eos := True\<rparr>)
     | VOCAB_NONE \<Rightarrow> Inr (PRE_TYPE_DEFAULT, vocab))"

section \<open>The token table\<close>

text \<open>\<open>enum llama_token_type\<close> to attributes.\<close>

definition attr_of_toktype :: "u32 \<Rightarrow> u32" where
  "attr_of_toktype t =
    (if t = 1 then ATTR_NORMAL else if t = 2 then ATTR_UNKNOWN else if t = 3 then ATTR_CONTROL
     else if t = 4 then ATTR_USER_DEFINED else if t = 5 then ATTR_UNUSED else if t = 6 then ATTR_BYTE else 0)"

text \<open>An optional array: its data are looked at only if there is a token.\<close>

definition optional_array :: "llama_model_loader \<Rightarrow> llm_kv \<Rightarrow> int option res" where
  "optional_array ml kid =
    bindE (find_kid ml kid) (\<lambda>idx.
      if idx = -1 then Inr None
      else bindE (gguf_get_arr_data (ml_meta ml) idx) (\<lambda>_. Inr (Some idx)))"

definition load_token ::
  "(u32 \<Rightarrow> 's) \<Rightarrow> gguf_context \<Rightarrow> int \<Rightarrow> int option \<Rightarrow> int option \<Rightarrow> nat \<Rightarrow> 's llama_vocab \<Rightarrow> 's llama_vocab res" where
  "load_token score ctx token_idx scores toktypes i vocab =
    bindE (arr_str ctx token_idx i) (\<lambda>word.
    bindE (assert_cpts word) (\<lambda>_.
    bindE (case scores of None \<Rightarrow> Inr 0 | Some idx \<Rightarrow> arr_word ctx idx i) (\<lambda>bits.
    bindE (case toktypes of None \<Rightarrow> Inr ATTR_NORMAL
           | Some idx \<Rightarrow> bindE (arr_word ctx idx i) (\<lambda>t. Inr (attr_of_toktype t))) (\<lambda>attr.
      Inr (vocab\<lparr>token_to_id := (token_to_id vocab)(word \<mapsto> int i),
        max_token_len := Orderings.max (max_token_len vocab) (length word),
        id_to_token := id_to_token vocab @ [\<lparr>tok_text = word, tok_score = score bits, tok_attr = attr\<rparr>]\<rparr>)))))"

text \<open>
  \<open>id_to_token\<close> has its size from the start and is filled here by appending; \<open>token_to_id.size()\<close> is the
  number of different texts.
\<close>

definition load_tokens ::
  "(u32 \<Rightarrow> 's) \<Rightarrow> llama_model_loader \<Rightarrow> 's llama_vocab \<Rightarrow> 's llama_vocab res" where
  "load_tokens score ml vocab =
    bindE (find_kid ml LLM_KV_TOKENIZER_LIST) (\<lambda>token_idx.
      if token_idx = -1 then Inl (RuntimeError ''cannot find tokenizer vocab in model file'')
      else
        bindE (optional_array ml LLM_KV_TOKENIZER_SCORES) (\<lambda>scores.
        bindE (optional_array ml LLM_KV_TOKENIZER_TOKEN_TYPE) (\<lambda>toktypes.
        bindE (gguf_get_arr_n (ml_meta ml) token_idx) (\<lambda>n.
          let n_vocab = unat (of_int n :: u32) in
          bindE (foldE (load_token score (ml_meta ml) token_idx scores toktypes) [0..<n_vocab]
              (vocab\<lparr>id_to_token := []\<rparr>)) (\<lambda>vocab1.
            if length (remdups (map tok_text (id_to_token vocab1))) \<noteq> n_vocab
            then Inl (Abort ''vocab.id_to_token.size() == vocab.token_to_id.size()'')
            else Inr vocab1)))))"

section \<open>Special tokens\<close>

definition text_at :: "'s llama_vocab \<Rightarrow> nat \<Rightarrow> byte list" where
  "text_at vocab i = tok_text (id_to_token vocab ! i)"

definition fim_tokens :: "llm_arch \<Rightarrow> byte list \<Rightarrow> 's llama_vocab \<Rightarrow> 's llama_vocab" where
  "fim_tokens arch gen_name vocab =
    (if \<not> contains_str gen_name ''code'' then vocab
     else if arch = LLM_ARCH_LLAMA \<and> 32010 < length (id_to_token vocab)
       \<and> contains_str (text_at vocab 32007) ''<PRE>'' \<and> contains_str (text_at vocab 32008) ''<SUF>''
       \<and> contains_str (text_at vocab 32009) ''<MID>'' \<and> contains_str (text_at vocab 32010) ''<EOT>'' then
       vocab\<lparr>special_prefix_id := 32007, special_suffix_id := 32008, special_middle_id := 32009,
         special_eot_id := 32010\<rparr>
     else if arch = LLM_ARCH_GEMMA \<and> 107 < length (id_to_token vocab)
       \<and> text_at vocab 67 = bytes ''<|fim_prefix|>'' \<and> text_at vocab 69 = bytes ''<|fim_suffix|>''
       \<and> text_at vocab 68 = bytes ''<|fim_middle|>'' \<and> text_at vocab 107 = bytes ''<end_of_turn>'' then
       vocab\<lparr>special_prefix_id := 67, special_suffix_id := 69, special_middle_id := 68, special_eot_id := 107\<rparr>
     else vocab)"

text \<open>\<open>catch (const std::exception &)\<close> catches what is thrown, not what aborts.\<close>

definition catchE :: "'a res \<Rightarrow> 'a \<Rightarrow> 'a res" where
  "catchE m x =
    (case m of
       Inl (InvalidArgument _) \<Rightarrow> Inr x
     | Inl (OutOfRange _) \<Rightarrow> Inr x
     | Inl (RuntimeError _) \<Rightarrow> Inr x
     | _ \<Rightarrow> m)"

text \<open>The newline token; \<open>U+010A\<close> stands for it in the BPE encoding.\<close>

definition load_linefeed ::
  "'s::linorder tokenizer_env \<Rightarrow> llama_model_loader \<Rightarrow> 's llama_vocab \<Rightarrow> 's llama_vocab res" where
  "load_linefeed env ml vocab =
    (case vocab_type vocab of
       VOCAB_SPM \<Rightarrow>
         bindE (get_key_default gkv_string ml LLM_KV_GENERAL_NAME []) (\<lambda>gen_name.
           let vocab1 = fim_tokens (ml_arch ml) (to_lower gen_name) vocab in
           bindE (catchE (llama_byte_to_token_impl vocab1 10) (special_pad_id vocab1)) (\<lambda>t.
             Inr (vocab1\<lparr>linefeed_id := t\<rparr>)))
     | VOCAB_WPM \<Rightarrow> Inr (vocab\<lparr>linefeed_id := special_pad_id vocab\<rparr>)
     | _ \<Rightarrow>
         bindE (llama_tokenize_internal env vocab [0xC4, 0x8A] False False) (\<lambda>ids.
           if ids = [] then Inl (Abort ''model vocab missing newline token'')
           else Inr (vocab\<lparr>linefeed_id := hd ids\<rparr>)))"

definition special_token_types :: "(llm_kv \<times> (int \<Rightarrow> 's llama_vocab \<Rightarrow> 's llama_vocab)) list" where
  "special_token_types =
    [(LLM_KV_TOKENIZER_BOS_ID, \<lambda>t v. v\<lparr>special_bos_id := t\<rparr>),
     (LLM_KV_TOKENIZER_EOS_ID, \<lambda>t v. v\<lparr>special_eos_id := t\<rparr>),
     (LLM_KV_TOKENIZER_UNK_ID, \<lambda>t v. v\<lparr>special_unk_id := t\<rparr>),
     (LLM_KV_TOKENIZER_SEP_ID, \<lambda>t v. v\<lparr>special_sep_id := t\<rparr>),
     (LLM_KV_TOKENIZER_PAD_ID, \<lambda>t v. v\<lparr>special_pad_id := t\<rparr>),
     (LLM_KV_TOKENIZER_CLS_ID, \<lambda>t v. v\<lparr>special_cls_id := t\<rparr>),
     (LLM_KV_TOKENIZER_MASK_ID, \<lambda>t v. v\<lparr>special_mask_id := t\<rparr>),
     (LLM_KV_TOKENIZER_PREFIX_ID, \<lambda>t v. v\<lparr>special_prefix_id := t\<rparr>),
     (LLM_KV_TOKENIZER_SUFFIX_ID, \<lambda>t v. v\<lparr>special_suffix_id := t\<rparr>),
     (LLM_KV_TOKENIZER_MIDDLE_ID, \<lambda>t v. v\<lparr>special_middle_id := t\<rparr>),
     (LLM_KV_TOKENIZER_EOT_ID, \<lambda>t v. v\<lparr>special_eot_id := t\<rparr>),
     (LLM_KV_TOKENIZER_EOM_ID, \<lambda>t v. v\<lparr>special_eom_id := t\<rparr>)]"

text \<open>An id that is not in the table is reported and ignored.\<close>

definition load_special ::
  "llama_model_loader \<Rightarrow> llm_kv \<times> (int \<Rightarrow> 's llama_vocab \<Rightarrow> 's llama_vocab) \<Rightarrow> 's llama_vocab \<Rightarrow> 's llama_vocab res" where
  "load_special ml = (\<lambda>(kid, set_id) vocab.
    bindE (get_key_kid gkv_u32 ml kid False) (\<lambda>found. case found of
      None \<Rightarrow> Inr vocab
    | Some new_id \<Rightarrow>
        Inr (if unat new_id \<ge> length (id_to_token vocab) then vocab else set_id (sint new_id) vocab)))"

definition eot_texts :: "byte list set" where
  "eot_texts = {bytes ''<|eot_id|>'', bytes ''<|im_end|>'', bytes ''<|end|>'', bytes ''<end_of_turn>'',
     bytes ''<|endoftext|>''}"

definition find_eot :: "(byte list list \<Rightarrow> byte list list) \<Rightarrow> 's llama_vocab \<Rightarrow> 's llama_vocab" where
  "find_eot order vocab =
    (if special_eot_id vocab \<noteq> -1 then vocab
     else case List.find (\<lambda>t. t \<in> eot_texts) (order (map tok_text (id_to_token vocab))) of
       None \<Rightarrow> vocab
     | Some t \<Rightarrow> (case token_to_id vocab t of None \<Rightarrow> vocab | Some tid \<Rightarrow> vocab\<lparr>special_eot_id := tid\<rparr>))"

definition find_eom :: "'s llama_vocab \<Rightarrow> 's llama_vocab" where
  "find_eom vocab =
    (if special_eom_id vocab \<noteq> -1 then vocab
     else case token_to_id vocab (bytes ''<|eom_id|>'') of
       None \<Rightarrow> vocab | Some tid \<Rightarrow> vocab\<lparr>special_eom_id := tid\<rparr>)"

definition load_specials ::
  "(byte list list \<Rightarrow> byte list list) \<Rightarrow> llama_model_loader \<Rightarrow> 's llama_vocab \<Rightarrow> 's llama_vocab res" where
  "load_specials order ml vocab =
    bindE (foldE (load_special ml) special_token_types vocab) (\<lambda>vocab1.
    bindE (get_key_default gkv_bool ml LLM_KV_TOKENIZER_ADD_BOS (tokenizer_add_bos vocab1)) (\<lambda>add_bos.
    bindE (get_key_default gkv_bool ml LLM_KV_TOKENIZER_ADD_EOS (tokenizer_add_eos vocab1)) (\<lambda>add_eos.
      Inr (find_eom (find_eot order (vocab1\<lparr>tokenizer_add_bos := add_bos, tokenizer_add_eos := add_eos\<rparr>))))))"

section \<open>Caches and attributes\<close>

definition cached_attr :: u32 where
  "cached_attr = ATTR_CONTROL OR ATTR_USER_DEFINED OR ATTR_UNKNOWN"

definition load_special_cache ::
  "((int \<Rightarrow> nat) \<Rightarrow> int list \<Rightarrow> int list) \<Rightarrow> 's llama_vocab \<Rightarrow> 's llama_vocab" where
  "load_special_cache srt vocab =
    vocab\<lparr>cache_special_tokens := srt (\<lambda>tid. length (text_at vocab (nat tid)))
      (cache_special_tokens vocab @ map int (filter (\<lambda>i. tok_attr (id_to_token vocab ! i) AND cached_attr \<noteq> 0)
        [0..<length (id_to_token vocab)]))\<rparr>"

text \<open>\<open>capacity\<close> is that of a \<open>std::string\<close> without heap memory.\<close>

definition load_piece_cache :: "nat \<Rightarrow> 's llama_vocab \<Rightarrow> 's llama_vocab res" where
  "load_piece_cache capacity vocab =
    bindE (mapE (\<lambda>i. llama_token_to_piece capacity vocab (int i) True) [0..<length (id_to_token vocab)]) (\<lambda>pieces.
      Inr (vocab\<lparr>cache_token_to_piece := pieces\<rparr>))"

definition set_tokenid_attr :: "u32 \<Rightarrow> bool \<Rightarrow> int \<Rightarrow> 's llama_vocab \<Rightarrow> 's llama_vocab res" where
  "set_tokenid_attr attr value tid vocab =
    (if valid_id vocab tid then
       (let d = id_to_token vocab ! nat tid;
            current = (if value then tok_attr d OR attr else tok_attr d AND NOT attr)
        in Inr (vocab\<lparr>id_to_token := (id_to_token vocab)[nat tid := d\<lparr>tok_attr := current\<rparr>]\<rparr>))
     else Inl (OutOfRange ''id_to_token.at''))"

definition set_token_attr :: "u32 \<Rightarrow> bool \<Rightarrow> string \<Rightarrow> 's llama_vocab \<Rightarrow> 's llama_vocab res" where
  "set_token_attr attr value token vocab =
    (case token_to_id vocab (bytes token) of
       None \<Rightarrow> Inl (OutOfRange ''token_to_id.at'')
     | Some tid \<Rightarrow> set_tokenid_attr attr value tid vocab)"

definition load_attrs :: "llama_model_loader \<Rightarrow> 's llama_vocab \<Rightarrow> 's llama_vocab res" where
  "load_attrs ml vocab =
    bindE (get_key_default gkv_string ml LLM_KV_GENERAL_NAME []) (\<lambda>model_name.
    bindE (get_key_default gkv_string ml LLM_KV_TOKENIZER_PRE []) (\<lambda>tokenizer_pre.
      if list_ex (contains_str tokenizer_pre) [''jina-v2-de'', ''jina-v2-es'', ''jina-v2-code''] then
        set_token_attr ATTR_LSTRIP True ''<mask>'' vocab
      else if list_ex (contains_str (to_lower model_name)) [''phi-3'', ''phi3''] then
        bindE (foldE (set_tokenid_attr ATTR_RSTRIP True) (cache_special_tokens vocab) vocab) (\<lambda>vocab1.
        bindE (foldE (set_token_attr ATTR_RSTRIP True) [''</s>''] vocab1) (\<lambda>vocab2.
          foldE (set_token_attr ATTR_RSTRIP False) [''<unk>'', ''<s>'', ''<|endoftext|>''] vocab2))
      else Inr vocab))"

section \<open>The whole vocabulary\<close>

text \<open>
  The tokenizer that finds the newline takes the regular expressions of the pre-tokenizer just read. The
  result is the type of the pre-tokenizer and the vocabulary.
\<close>

definition llm_load_vocab ::
  "'s::linorder tokenizer_env \<Rightarrow> (u32 \<Rightarrow> 's) \<Rightarrow> (byte list list \<Rightarrow> byte list list)
    \<Rightarrow> ((int \<Rightarrow> nat) \<Rightarrow> int list \<Rightarrow> int list) \<Rightarrow> nat \<Rightarrow> llama_model_loader
    \<Rightarrow> (llama_vocab_pre_type \<times> 's llama_vocab) res" where
  "llm_load_vocab env score order srt capacity ml =
    bindE (get_key_kid gkv_string ml LLM_KV_TOKENIZER_MODEL True) (\<lambda>tokenizer_model.
    bindE (get_key_default gkv_string ml LLM_KV_TOKENIZER_PRE []) (\<lambda>tokenizer_pre.
    bindE (load_kind ml (the tokenizer_model) empty_vocab) (\<lambda>vocab0.
      if vocab_type vocab0 = VOCAB_NONE then Inr (PRE_TYPE_DEFAULT, vocab0)
      else
        bindE (load_pre tokenizer_pre vocab0) (\<lambda>(pre, vocab1).
        bindE (get_key_default gkv_bool ml LLM_KV_TOKENIZER_ADD_PREFIX (tokenizer_add_space_prefix vocab1)) (\<lambda>add_prefix.
        bindE (get_key_default gkv_bool ml LLM_KV_TOKENIZER_REMOVE_EXTRA_WS
            (tokenizer_remove_extra_whitespaces vocab1)) (\<lambda>remove_ws.
        bindE (load_tokens score ml (vocab1\<lparr>tokenizer_add_space_prefix := add_prefix,
            tokenizer_remove_extra_whitespaces := remove_ws\<rparr>)) (\<lambda>vocab2.
        bindE (load_linefeed (env\<lparr>env_regex_exprs := regex_exprs_of pre\<rparr>) ml vocab2) (\<lambda>vocab3.
        bindE (load_specials order ml vocab3) (\<lambda>vocab4.
        bindE (load_piece_cache capacity (load_special_cache srt vocab4)) (\<lambda>vocab5.
        bindE (load_attrs ml vocab5) (\<lambda>vocab6. Inr (pre, vocab6))))))))))))"

end
