(* ===== verification/VocabLoadProps.thy ===== *)
theory VocabLoadProps
  imports VocabLoad SpmRoundtrip
begin

text \<open>
  What a loaded vocabulary satisfies: the two directions of the token table are inverse to each other,
  the cache of special tokens has exactly the tokens it should, in order, and the cache of pieces has the
  piece of every token, although attributes are changed after it was filled.
\<close>

section \<open>The token table\<close>

definition table_ok :: "'s llama_vocab \<Rightarrow> bool" where
  "table_ok vocab \<longleftrightarrow> (\<forall>s t. token_to_id vocab s = Some t \<longleftrightarrow> valid_id vocab t \<and> text_at vocab (nat t) = s)
     \<and> (\<forall>i<length (id_to_token vocab). text_at vocab i \<noteq> []) \<and> length (id_to_token vocab) \<le> 2 ^ 31"

definition same_table :: "'s llama_vocab \<Rightarrow> 's llama_vocab \<Rightarrow> bool" where
  "same_table v w \<longleftrightarrow> id_to_token w = id_to_token v \<and> token_to_id w = token_to_id v \<and> vocab_type w = vocab_type v
     \<and> cache_special_tokens w = cache_special_tokens v \<and> cache_token_to_piece w = cache_token_to_piece v"

lemma same_table_refl [simp]: "same_table v v" by (simp add: same_table_def)

lemma same_table_trans: "same_table u v \<Longrightarrow> same_table v w \<Longrightarrow> same_table u w"
  by (simp add: same_table_def)

lemma valid_same: "same_table v w \<Longrightarrow> valid_id w = valid_id v"
  by (rule ext) (simp add: same_table_def valid_id_def)

lemma table_ok_same: "same_table v w \<Longrightarrow> table_ok w = table_ok v"
  by (simp add: table_ok_def valid_same) (simp add: same_table_def text_at_def)

text \<open>The loop over the tokens.\<close>

definition tokens_inv :: "nat \<Rightarrow> 's llama_vocab \<Rightarrow> bool" where
  "tokens_inv n vocab \<longleftrightarrow> length (id_to_token vocab) = n \<and> n \<le> 2 ^ 31
     \<and> (\<forall>s t. token_to_id vocab s = Some t \<longrightarrow> valid_id vocab t \<and> text_at vocab (nat t) = s)
     \<and> (\<forall>i<n. token_to_id vocab (text_at vocab i) \<noteq> None \<and> text_at vocab i \<noteq> [])"

lemma load_token_fields:
  assumes "load_token score ctx idx scores toktypes i v = Inr w"
  obtains d where "id_to_token w = id_to_token v @ [d]" "token_to_id w = (token_to_id v)(tok_text d \<mapsto> int i)"
    "tok_text d \<noteq> []" "i < 2 ^ 31" "vocab_type w = vocab_type v" "cache_special_tokens w = cache_special_tokens v"
    "cache_token_to_piece w = cache_token_to_piece v"
proof -
  from assms obtain word bits attr where word: "arr_str ctx idx i = Inr word" "assert_cpts word = Inr ()"
    and w: "w = v\<lparr>token_to_id := (token_to_id v)(word \<mapsto> int i),
        max_token_len := Orderings.max (max_token_len v) (length word),
        id_to_token := id_to_token v @ [\<lparr>tok_text = word, tok_score = score bits, tok_attr = attr\<rparr>]\<rparr>"
    unfolding load_token_def bindE_Inr_iff by auto
  have "i < 2 ^ 31" using word(1) by (simp add: arr_str_def split: if_splits)
  moreover have "word \<noteq> []"
    using word(2) by (auto simp: assert_cpts_def unicode_cpts_from_utf8_def unicode_cpts_from_utf8_loop.simps [of "[]"])
  ultimately show thesis using w by (intro that [of "\<lparr>tok_text = word, tok_score = score bits, tok_attr = attr\<rparr>"]) simp_all
qed

lemma load_token_inv:
  assumes "load_token score ctx idx scores toktypes n v = Inr w" "tokens_inv n v"
  shows "tokens_inv (Suc n) w"
  using assms(1)
proof (cases rule: load_token_fields)
  case (1 d)
  have t: "text_at w i = (if i < n then text_at v i else tok_text d)" if "i < Suc n" for i
    using that assms(2) 1(1) by (simp add: text_at_def tokens_inv_def nth_append)
  have v: "valid_id w t \<longleftrightarrow> 0 \<le> t \<and> nat t < Suc n" for t
    using assms(2) 1(1) by (simp add: valid_id_def tokens_inv_def)
  show ?thesis
    using 1 t v assms(2) by (auto simp: tokens_inv_def valid_id_def less_Suc_eq split: if_splits)
qed

lemma load_token_loop:
  assumes "foldE (load_token score ctx idx scores toktypes) [k..<n] v = Inr w" "tokens_inv k v" "k \<le> n"
  shows "tokens_inv n w \<and> vocab_type w = vocab_type v \<and> cache_special_tokens w = cache_special_tokens v
    \<and> cache_token_to_piece w = cache_token_to_piece v"
  using assms
proof (induction "n - k" arbitrary: k v)
  case (Suc d)
  then have "[k..<n] = k # [Suc k..<n]" by (simp add: upt_rec)
  with Suc.prems(1) obtain v1 where v1: "load_token score ctx idx scores toktypes k v = Inr v1"
    and rest: "foldE (load_token score ctx idx scores toktypes) [Suc k..<n] v1 = Inr w"
    by (auto simp: bindE_Inr_iff)
  from load_token_inv [OF v1 Suc.prems(2)] Suc.hyps rest have "tokens_inv n w \<and> vocab_type w = vocab_type v1
      \<and> cache_special_tokens w = cache_special_tokens v1 \<and> cache_token_to_piece w = cache_token_to_piece v1"
    by (intro Suc.hyps(1)) auto
  with v1 show ?case by (auto elim!: load_token_fields)
qed simp

lemma load_tokens_table:
  assumes "load_tokens score ml v = Inr w" "token_to_id v = Map.empty"
  shows "table_ok w \<and> vocab_type w = vocab_type v \<and> cache_special_tokens w = cache_special_tokens v
    \<and> cache_token_to_piece w = cache_token_to_piece v"
proof -
  from assms(1) obtain idx scores toktypes n where
    loop: "foldE (load_token score (ml_meta ml) idx scores toktypes) [0..<n] (v\<lparr>id_to_token := []\<rparr>) = Inr w"
    and sz: "length (remdups (map tok_text (id_to_token w))) = n"
    unfolding load_tokens_def Let_def bindE_Inr_iff
    by (auto simp: bindE_Inr_iff split: if_splits)
  have "tokens_inv 0 (v\<lparr>id_to_token := []\<rparr>)" using assms(2) by (simp add: tokens_inv_def)
  from load_token_loop [OF loop this] have inv: "tokens_inv n w" "vocab_type w = vocab_type v"
    "cache_special_tokens w = cache_special_tokens v" "cache_token_to_piece w = cache_token_to_piece v" by auto
  then have "remdups (map tok_text (id_to_token w)) = map tok_text (id_to_token w)"
    using sz by (metis length_map length_remdups_eq tokens_inv_def)
  then have dist: "distinct (map tok_text (id_to_token w))" by (metis distinct_remdups)
  have "token_to_id w s = Some t" if "valid_id w t" "text_at w (nat t) = s" for s t
  proof -
    from that inv(1) obtain u where u: "token_to_id w s = Some u" by (auto simp: tokens_inv_def valid_id_def)
    with inv(1) have "valid_id w u" "text_at w (nat u) = s" by (auto simp: tokens_inv_def)
    with that dist have "nat u = nat t"
      by (auto simp: valid_id_def text_at_def distinct_conv_nth)
    with u that \<open>valid_id w u\<close> show ?thesis by (auto simp: valid_id_def)
  qed
  with inv have "token_to_id w s = Some t \<longleftrightarrow> valid_id w t \<and> text_at w (nat t) = s" for s t
    unfolding tokens_inv_def by blast
  with inv show ?thesis unfolding table_ok_def tokens_inv_def by blast
qed

section \<open>Special ids\<close>

text \<open>The ids that the code takes as absent when they are -1.\<close>

definition opt_ids :: "'s llama_vocab \<Rightarrow> int list" where
  "opt_ids v = [special_prefix_id v, special_suffix_id v, special_middle_id v, special_eot_id v, special_eom_id v]"

definition opt_ids_ok :: "'s llama_vocab \<Rightarrow> bool" where
  "opt_ids_ok v \<longleftrightarrow> list_all (\<lambda>t. t = -1 \<or> valid_id v t) (opt_ids v)"

lemma opt_ids_ok_cong: "valid_id w = valid_id v \<Longrightarrow> opt_ids w = opt_ids v \<Longrightarrow> opt_ids_ok w = opt_ids_ok v"
  by (simp add: opt_ids_ok_def)

definition step_ok :: "'s llama_vocab \<Rightarrow> 's llama_vocab \<Rightarrow> bool" where
  "step_ok v w \<longleftrightarrow> same_table v w \<and> (table_ok v \<and> opt_ids_ok v \<longrightarrow> opt_ids_ok w)"

lemma step_ok_trans: "step_ok u v \<Longrightarrow> step_ok v w \<Longrightarrow> step_ok u w"
  unfolding step_ok_def using same_table_trans table_ok_same by blast

lemma step_ok_ids: "same_table v w \<Longrightarrow> opt_ids w = opt_ids v \<Longrightarrow> step_ok v w"
  by (simp add: step_ok_def opt_ids_ok_def valid_same)

lemma fim_step: "step_ok v (fim_tokens arch name v)"
  by (auto simp: step_ok_def fim_tokens_def same_table_def opt_ids_ok_def opt_ids_def valid_id_def)

lemma linefeed_step:
  assumes "load_linefeed env ml v = Inr w"
  shows "step_ok v w"
proof (cases "vocab_type v = VOCAB_SPM")
  case True
  with assms obtain name t where "w = fim_tokens (ml_arch ml) name v\<lparr>linefeed_id := t\<rparr>"
    by (auto simp: load_linefeed_def bindE_Inr_iff Let_def)
  moreover have "step_ok u (u\<lparr>linefeed_id := t\<rparr>)" for u
    by (rule step_ok_ids) (simp_all add: same_table_def opt_ids_def)
  ultimately show ?thesis using step_ok_trans [OF fim_step] by blast
next
  case False
  with assms obtain t where "w = v\<lparr>linefeed_id := t\<rparr>"
    by (auto simp: load_linefeed_def bindE_Inr_iff split: llama_vocab_type.splits if_splits)
  then show ?thesis by (intro step_ok_ids) (simp_all add: same_table_def opt_ids_def)
qed

lemma set_id_step:
  assumes "(kid, f) \<in> set special_token_types"
  shows "same_table v (f t v)" and "set (opt_ids (f t v)) \<subseteq> insert t (set (opt_ids v))"
  using assms by (auto simp: special_token_types_def same_table_def opt_ids_def)

lemma load_special_cases:
  fixes v :: "'s llama_vocab"
  assumes "load_special ml (kid, f) v = Inr w"
  shows "w = v \<or> (\<exists>x. unat x < length (id_to_token v) \<and> w = f (sint (x :: u32)) v)"
proof -
  from assms obtain found :: "u32 option" where "(case found of None \<Rightarrow> Inr v
      | Some x \<Rightarrow> Inr (if unat x \<ge> length (id_to_token v) then v else f (sint x) v)) = (Inr w :: 's llama_vocab res)"
    unfolding load_special_def prod.case bindE_Inr_iff by blast
  then show ?thesis by (cases found) (auto simp: not_le split: if_splits)
qed

lemma load_special_step:
  fixes v :: "'s llama_vocab"
  assumes "load_special ml kf v = Inr w" "kf \<in> set special_token_types"
  shows "step_ok v w"
proof -
  obtain kid f where kf: "kf = (kid, f)" by (cases kf)
  from load_special_cases [OF assms(1) [unfolded kf]] show ?thesis
  proof
    assume "\<exists>x. unat x < length (id_to_token v) \<and> w = f (sint (x :: u32)) v"
    then obtain x :: u32 where x: "unat x < length (id_to_token v)" and w: "w = f (sint x) v" by blast
    have "valid_id v (sint x)" if "table_ok v"
    proof -
      have "unat x < 2 ^ 31" using x that by (simp add: table_ok_def)
      with x show ?thesis by (simp add: valid_id_def sint_small)
    qed
    then show ?thesis
      using set_id_step [where kid = kid and f = f and v = v and t = "sint x"] assms(2) valid_same [of v w]
      by (auto simp: step_ok_def opt_ids_ok_def list_all_iff kf w)
  qed (simp add: step_ok_def)
qed

lemma find_ids_step: "step_ok v (find_eom (find_eot order v))"
proof -
  have "step_ok u (find_eot order u)" "step_ok u (find_eom u)" for u
    by (auto simp: step_ok_def find_eot_def find_eom_def same_table_def opt_ids_ok_def opt_ids_def valid_id_def
        table_ok_def split: option.splits)
  then show ?thesis using step_ok_trans by blast
qed

lemma specials_step:
  assumes "load_specials order ml v = Inr w"
  shows "step_ok v w"
proof -
  from assms obtain u b e where u: "foldE (load_special ml) special_token_types v = Inr u"
    and w: "w = find_eom (find_eot order (u\<lparr>tokenizer_add_bos := b, tokenizer_add_eos := e\<rparr>))"
    by (auto simp: load_specials_def bindE_Inr_iff)
  have "step_ok v u"
    using u by (rule foldE_invariant) (auto simp: step_ok_def [of v v] dest: load_special_step intro: step_ok_trans)
  moreover have "step_ok u (u\<lparr>tokenizer_add_bos := b, tokenizer_add_eos := e\<rparr>)"
    by (rule step_ok_ids) (simp_all add: same_table_def opt_ids_def)
  ultimately show ?thesis unfolding w using step_ok_trans find_ids_step by blast
qed

section \<open>Caches and attributes\<close>

text \<open>The cache of special tokens: the tokens with a special attribute, longest text first.\<close>

definition special_cache_ok :: "'s llama_vocab \<Rightarrow> bool" where
  "special_cache_ok v \<longleftrightarrow> distinct (cache_special_tokens v)
     \<and> set (cache_special_tokens v) = {t. valid_id v t \<and> tok_attr (id_to_token v ! nat t) AND cached_attr \<noteq> 0}
     \<and> sorted_wrt (\<lambda>a b. length (text_at v (nat a)) \<ge> length (text_at v (nat b))) (cache_special_tokens v)"

text \<open>What \<open>std::sort\<close> promises.\<close>

definition sorts :: "((int \<Rightarrow> nat) \<Rightarrow> int list \<Rightarrow> int list) \<Rightarrow> bool" where
  "sorts srt \<longleftrightarrow> (\<forall>f xs. mset (srt f xs) = mset xs \<and> sorted_wrt (\<lambda>a b. f a \<ge> f b) (srt f xs))"

lemma special_cache_loaded:
  assumes "sorts srt" "cache_special_tokens v = []"
  shows "special_cache_ok (load_special_cache srt v)"
proof -
  let ?xs = "map int (filter (\<lambda>i. tok_attr (id_to_token v ! i) AND cached_attr \<noteq> 0) [0..<length (id_to_token v)])"
  let ?c = "srt (\<lambda>tid. length (text_at v (nat tid))) ?xs"
  have c: "mset ?c = mset ?xs" "sorted_wrt (\<lambda>a b. length (text_at v (nat a)) \<ge> length (text_at v (nat b))) ?c"
    using assms(1) by (auto simp: sorts_def)
  have "set ?xs = {t. valid_id v t \<and> tok_attr (id_to_token v ! nat t) AND cached_attr \<noteq> 0}"
    by (auto simp: valid_id_def image_iff) (metis int_nat_eq)
  moreover have "distinct ?xs" by (simp add: distinct_map inj_on_def)
  moreover have "set ?c = set ?xs" "distinct ?c = distinct ?xs"
    using c(1) by (metis mset_eq_setD, metis mset_eq_imp_distinct_iff)
  ultimately show ?thesis
    using c(2) assms(2) by (simp add: special_cache_ok_def load_special_cache_def valid_id_def text_at_def)
qed

text \<open>The bits that a piece depends on, and a change of the others.\<close>

definition piece_attr :: u32 where
  "piece_attr = ATTR_SPECIAL OR ATTR_USER_DEFINED OR ATTR_NORMAL OR ATTR_BYTE"

definition same_pieces :: "'s llama_vocab \<Rightarrow> 's llama_vocab \<Rightarrow> bool" where
  "same_pieces v w \<longleftrightarrow> map tok_text (id_to_token w) = map tok_text (id_to_token v)
     \<and> map (\<lambda>d. tok_attr d AND piece_attr) (id_to_token w) = map (\<lambda>d. tok_attr d AND piece_attr) (id_to_token v)
     \<and> token_to_id w = token_to_id v \<and> vocab_type w = vocab_type v \<and> opt_ids w = opt_ids v
     \<and> cache_special_tokens w = cache_special_tokens v \<and> cache_token_to_piece w = cache_token_to_piece v"

lemma same_pieces_refl [simp]: "same_pieces v v" by (simp add: same_pieces_def)

lemma same_pieces_trans: "same_pieces u v \<Longrightarrow> same_pieces v w \<Longrightarrow> same_pieces u w"
  by (simp add: same_pieces_def)

lemma same_pieces_length: "same_pieces v w \<Longrightarrow> length (id_to_token w) = length (id_to_token v)"
  unfolding same_pieces_def by (metis length_map)

lemma same_pieces_valid: "same_pieces v w \<Longrightarrow> valid_id w = valid_id v"
  by (rule ext) (simp add: valid_id_def same_pieces_length)

lemma same_pieces_at:
  fixes v w :: "'s llama_vocab"
  assumes "same_pieces v w" "i < length (id_to_token v)"
  shows "tok_text (id_to_token w ! i) = tok_text (id_to_token v ! i)"
    and "tok_attr (id_to_token w ! i) AND piece_attr = tok_attr (id_to_token v ! i) AND piece_attr"
proof -
  have "map f (id_to_token w) ! i = f (id_to_token w ! i)" "map f (id_to_token v) ! i = f (id_to_token v ! i)"
    for f :: "'s vocab_token \<Rightarrow> 'b"
    using assms(2) same_pieces_length [OF assms(1)] by simp_all
  then show "tok_text (id_to_token w ! i) = tok_text (id_to_token v ! i)"
    "tok_attr (id_to_token w ! i) AND piece_attr = tok_attr (id_to_token v ! i) AND piece_attr"
    using assms(1) unfolding same_pieces_def by metis+
qed

text \<open>A test of a flag that is part of a mask sees only the masked bits.\<close>

lemma masked_flag:
  fixes a :: u32
  assumes "a AND m = b AND m" "m AND f = f"
  shows "a AND f = b AND f"
  using assms by (metis and.assoc)

lemma same_pieces_flag:
  assumes "same_pieces v w" "i < length (id_to_token v)" "piece_attr AND f = f"
  shows "tok_attr (id_to_token w ! i) AND f = tok_attr (id_to_token v ! i) AND f"
  using masked_flag [OF same_pieces_at(2) [OF assms(1,2)] assms(3)] .

lemma piece_flags:
  "piece_attr AND (ATTR_SPECIAL OR ATTR_USER_DEFINED) = ATTR_SPECIAL OR ATTR_USER_DEFINED"
  "piece_attr AND ATTR_NORMAL = ATTR_NORMAL" "piece_attr AND ATTR_BYTE = ATTR_BYTE"
  "piece_attr AND cached_attr = cached_attr"
  by (simp_all add: piece_attr_def ATTR_SPECIAL_def cached_attr_def attr_defs)

lemma same_pieces_uncached:
  assumes "same_pieces v w"
  shows "uncached_piece w t = uncached_piece v t"
proof (cases "valid_id v t")
  case True
  then have i: "nat t < length (id_to_token v)" by (simp add: valid_id_def)
  note f = same_pieces_flag [OF assms i]
  have type: "vocab_type w = vocab_type v" using assms by (simp add: same_pieces_def)
  note eqs = True same_pieces_valid [OF assms] same_pieces_at(1) [OF assms i] type
  have byte: "llama_token_to_byte w t = llama_token_to_byte v t"
    using eqs f [OF piece_flags(3)]
    by (simp add: llama_token_to_byte_def llama_is_byte_token_def token_has_def token_at_def)
  have "token_piece w t = token_piece v t"
    using eqs byte f [OF piece_flags(1)] f [OF piece_flags(2)] f [OF piece_flags(3)]
    by (cases "vocab_type v") (simp_all add: token_piece_def Let_def)
  then show ?thesis by (simp add: uncached_piece_def)
next
  case False
  then show ?thesis using same_pieces_valid [OF assms] by (simp add: uncached_piece_def token_piece_def)
qed

text \<open>Filling the cache of pieces.\<close>

definition pieces_cached :: "'s llama_vocab \<Rightarrow> bool" where
  "pieces_cached vocab \<longleftrightarrow> map Inr (cache_token_to_piece vocab)
     = map (\<lambda>i. uncached_piece vocab (int i)) [0..<length (id_to_token vocab)]"

lemma empty_cache_piece:
  "valid_id v t \<Longrightarrow> vocab_type v \<noteq> VOCAB_NONE \<Longrightarrow> cache_token_to_piece v = [] \<Longrightarrow> piece_of v True t = uncached_piece v t"
  by (simp add: piece_of_def uncached_piece_def llama_token_get_attr_impl_def checked_token_def token_at_def)

lemma mapE_Inr: "mapE f xs = Inr ys \<Longrightarrow> map Inr ys = map f xs"
  by (induction xs arbitrary: ys) (auto simp: bindE_Inr_iff)

lemma load_piece_cache_ok:
  assumes "load_piece_cache capacity v = Inr w" "vocab_type v \<noteq> VOCAB_NONE" "cache_token_to_piece v = []"
  obtains pieces where "w = v\<lparr>cache_token_to_piece := pieces\<rparr>" "pieces_cached w"
proof -
  from assms(1) obtain pieces where
    "mapE (\<lambda>i. llama_token_to_piece capacity v (int i) True) [0..<length (id_to_token v)] = Inr pieces"
    and w: "w = v\<lparr>cache_token_to_piece := pieces\<rparr>"
    by (auto simp: load_piece_cache_def bindE_Inr_iff)
  then have "map Inr pieces = map (\<lambda>i. piece_of v True (int i)) [0..<length (id_to_token v)]"
    by (auto simp: llama_token_to_piece_eq dest: mapE_Inr)
  also have "\<dots> = map (\<lambda>i. uncached_piece v (int i)) [0..<length (id_to_token v)]"
    using assms(2,3) by (simp add: empty_cache_piece valid_id_def)
  also have "\<dots> = map (\<lambda>i. uncached_piece w (int i)) [0..<length (id_to_token w)]"
  proof -
    have "uncached_piece w t = uncached_piece v t" for t
      by (cases "vocab_type v") (simp_all add: w uncached_piece_def token_piece_def llama_token_to_byte_def
        llama_is_byte_token_def token_has_def token_at_def valid_id_def Let_def)
    then show ?thesis by (simp add: w)
  qed
  finally have "pieces_cached w" by (simp add: pieces_cached_def w)
  with w show thesis by (rule that)
qed

text \<open>The attributes that are set last are not among the bits above.\<close>

lemma strip_bits: "piece_attr AND ATTR_RSTRIP = 0" "piece_attr AND ATTR_LSTRIP = 0"
  by (simp_all add: piece_attr_def ATTR_SPECIAL_def attr_defs)

lemma set_bit_outside:
  fixes a :: u32
  assumes "m AND b = 0"
  shows "(a OR b) AND m = a AND m" and "(a AND NOT b) AND m = a AND m"
  using assms by (auto simp: bit_eq_iff bit_simps)

lemma set_tokenid_attr_same:
  assumes "set_tokenid_attr attr value t v = Inr w" "piece_attr AND attr = 0"
  shows "same_pieces v w"
proof -
  from assms(1) obtain a where t: "nat t < length (id_to_token v)"
    and a: "a = tok_attr (id_to_token v ! nat t) OR attr \<or> a = tok_attr (id_to_token v ! nat t) AND NOT attr"
    and w: "w = v\<lparr>id_to_token := (id_to_token v)[nat t := (id_to_token v ! nat t)\<lparr>tok_attr := a\<rparr>]\<rparr>"
    by (auto simp: set_tokenid_attr_def valid_id_def Let_def split: if_splits)
  have "a AND piece_attr = tok_attr (id_to_token v ! nat t) AND piece_attr"
    using a set_bit_outside [OF assms(2)] by auto
  with t show ?thesis
    by (simp add: same_pieces_def w map_update opt_ids_def)
      (metis (no_types, lifting) length_map list_update_id nth_map)
qed

lemma set_token_attr_same:
  "set_token_attr attr value token v = Inr w \<Longrightarrow> piece_attr AND attr = 0 \<Longrightarrow> same_pieces v w"
  by (auto simp: set_token_attr_def split: option.splits dest: set_tokenid_attr_same)

lemma foldE_same_pieces:
  assumes "foldE f xs v = Inr w" "\<And>x u u'. f x u = Inr u' \<Longrightarrow> same_pieces u u'"
  shows "same_pieces v w"
  using assms(1) by (rule foldE_invariant) (auto intro: same_pieces_trans assms(2))

lemma load_attrs_same:
  assumes "load_attrs ml v = Inr w"
  shows "same_pieces v w"
proof -
  from assms consider "set_token_attr ATTR_LSTRIP True ''<mask>'' v = Inr w" | "w = v"
    | v1 v2 where "foldE (set_tokenid_attr ATTR_RSTRIP True) (cache_special_tokens v) v = Inr v1"
      "foldE (set_token_attr ATTR_RSTRIP True) [''</s>''] v1 = Inr v2"
      "foldE (set_token_attr ATTR_RSTRIP False) [''<unk>'', ''<s>'', ''<|endoftext|>''] v2 = Inr w"
    unfolding load_attrs_def bindE_Inr_iff by (auto simp: bindE_Inr_iff split: if_splits simp del: foldE.simps)
  then show ?thesis
  proof cases
    case 3
    then have "same_pieces v v1" "same_pieces v1 v2" "same_pieces v2 w"
      by (auto intro: set_tokenid_attr_same set_token_attr_same strip_bits elim!: foldE_same_pieces simp del: foldE.simps)
    then show ?thesis using same_pieces_trans by blast
  qed (auto intro: set_token_attr_same strip_bits)
qed

section \<open>The loaded vocabulary\<close>

lemma load_kind_fields:
  assumes "load_kind ml m v = Inr w"
  shows "token_to_id w = token_to_id v \<and> cache_special_tokens w = cache_special_tokens v
    \<and> cache_token_to_piece w = cache_token_to_piece v \<and> opt_ids w = opt_ids v"
  using assms by (auto simp: load_kind_def no_specials_def opt_ids_def bindE_Inr_iff split: if_splits)

lemma load_pre_fields:
  assumes "load_pre name v = Inr (pre, w)"
  shows "token_to_id w = token_to_id v \<and> vocab_type w = vocab_type v \<and> cache_special_tokens w = cache_special_tokens v
    \<and> cache_token_to_piece w = cache_token_to_piece v \<and> opt_ids w = opt_ids v"
  using assms
  by (auto simp: load_pre_def load_bpe_pre_def opt_ids_def Let_def
      split: llama_vocab_type.splits option.splits if_splits)

lemma load_token_opt_ids:
  "load_token score ctx idx scores toktypes i v = Inr w \<Longrightarrow> opt_ids w = opt_ids v"
  by (auto simp: load_token_def opt_ids_def bindE_Inr_iff)

lemma load_tokens_keeps:
  assumes "load_tokens score ml v = Inr w" "g (v\<lparr>id_to_token := []\<rparr>) = g v"
    and "\<And>ctx idx scores toktypes i u u'. load_token score ctx idx scores toktypes i u = Inr u' \<Longrightarrow> g u' = g u"
  shows "g w = g v"
proof -
  from assms(1) obtain idx scores toktypes n where
    "foldE (load_token score (ml_meta ml) idx scores toktypes) [0..<n] (v\<lparr>id_to_token := []\<rparr>) = Inr w"
    unfolding load_tokens_def Let_def bindE_Inr_iff by (auto simp: bindE_Inr_iff split: if_splits)
  then show ?thesis
    by (rule foldE_invariant [where P = "\<lambda>u. g u = g v"]) (auto simp: assms(2) assms(3))
qed

lemma load_tokens_opt_ids:
  assumes "load_tokens score ml v = Inr w"
  shows "opt_ids w = opt_ids v"
  using assms by (rule load_tokens_keeps) (auto simp: opt_ids_def dest: load_token_opt_ids [unfolded opt_ids_def])

lemma load_tokens_fields:
  assumes "load_tokens score ml v = Inr w"
  shows "vocab_type w = vocab_type v" "special_pad_id w = special_pad_id v"
  by (rule load_tokens_keeps [OF assms]; auto simp: load_token_def bindE_Inr_iff)+

text \<open>The steps in order.\<close>

lemma llm_load_vocab_steps:
  assumes "llm_load_vocab env score order srt capacity ml = Inr (pre, vocab)" "vocab_type vocab \<noteq> VOCAB_NONE"
  obtains v2 v5 where "table_ok v2" "opt_ids_ok v2" "cache_special_tokens v2 = []" "cache_token_to_piece v2 = []"
    "vocab_type v2 = vocab_type vocab"
    and "\<exists>v4. step_ok v2 v4 \<and> load_piece_cache capacity (load_special_cache srt v4) = Inr v5"
    and "same_pieces v5 vocab"
proof -
  from assms obtain m name v0 v1 b c v2 v3 v4 v5 e where
    kind: "load_kind ml m empty_vocab = Inr v0" and pre: "load_pre name v0 = Inr (pre, v1)"
    and tokens: "load_tokens score ml (v1\<lparr>tokenizer_add_space_prefix := b,
          tokenizer_remove_extra_whitespaces := c\<rparr>) = Inr v2"
    and linefeed: "load_linefeed e ml v2 = Inr v3" and specials: "load_specials order ml v3 = Inr v4"
    and pieces: "load_piece_cache capacity (load_special_cache srt v4) = Inr v5"
    and attrs: "load_attrs ml v5 = Inr vocab"
    unfolding llm_load_vocab_def bindE_Inr_iff by (auto simp: bindE_Inr_iff split: if_splits)
  note fields = load_kind_fields [OF kind] load_pre_fields [OF pre] load_tokens_opt_ids [OF tokens]
  have table: "table_ok v2" "cache_special_tokens v2 = []" "cache_token_to_piece v2 = []"
    using load_tokens_table [OF tokens] fields by (simp_all add: empty_vocab_def)
  have ids: "opt_ids_ok v2" using fields by (simp add: opt_ids_ok_def opt_ids_def empty_vocab_def)
  have 4: "step_ok v2 v4" using step_ok_trans linefeed_step [OF linefeed] specials_step [OF specials] by blast
  have "vocab_type v5 = vocab_type v4"
    using pieces by (auto simp: load_piece_cache_def load_special_cache_def bindE_Inr_iff)
  then have "vocab_type v2 = vocab_type vocab"
    using 4 load_attrs_same [OF attrs] by (simp add: step_ok_def same_table_def same_pieces_def)
  with table ids 4 pieces load_attrs_same [OF attrs] show thesis by (intro that [of v2 v5]) auto
qed

lemma special_cache_same_pieces:
  assumes "same_pieces v w" "special_cache_ok v"
  shows "special_cache_ok w"
proof -
  have at: "text_at w i = text_at v i" if "i < length (id_to_token v)" for i
    using same_pieces_at(1) [OF assms(1) that] by (simp add: text_at_def)
  have c: "cache_special_tokens w = cache_special_tokens v" using assms(1) by (simp add: same_pieces_def)
  have valid: "valid_id v t" if "t \<in> set (cache_special_tokens v)" for t
    using assms(2) that unfolding special_cache_ok_def by blast
  have "{t. valid_id w t \<and> tok_attr (id_to_token w ! nat t) AND cached_attr \<noteq> 0}
      = {t. valid_id v t \<and> tok_attr (id_to_token v ! nat t) AND cached_attr \<noteq> 0}"
    using same_pieces_flag [OF assms(1) _ piece_flags(4)] by (auto simp: same_pieces_valid [OF assms(1)] valid_id_def)
  moreover have "sorted_wrt (\<lambda>a b. length (text_at w (nat a)) \<ge> length (text_at w (nat b))) (cache_special_tokens v)"
    using assms(2) unfolding special_cache_ok_def
    by (auto intro!: sorted_wrt_mono_rel [of "cache_special_tokens v" "\<lambda>a b. length (text_at v (nat a)) \<ge> length (text_at v (nat b))"]
        simp: at dest!: valid simp: valid_id_def)
  ultimately show ?thesis using assms(2) unfolding special_cache_ok_def c by simp
qed

lemma table_ok_same_pieces:
  assumes "same_pieces v w" "table_ok v"
  shows "table_ok w"
proof -
  have at: "text_at w i = text_at v i" if "i < length (id_to_token v)" for i
    using same_pieces_at(1) [OF assms(1) that] by (simp add: text_at_def)
  have "valid_id w t \<and> text_at w (nat t) = s \<longleftrightarrow> valid_id v t \<and> text_at v (nat t) = s" for s t
    using same_pieces_valid [OF assms(1)] at [of "nat t"] by (auto simp: valid_id_def)
  moreover have "token_to_id w = token_to_id v" using assms(1) by (simp add: same_pieces_def)
  ultimately show ?thesis
    using assms(2) same_pieces_length [OF assms(1)] at unfolding table_ok_def by simp
qed

lemma loaded_tables:
  assumes "sorts srt" "llm_load_vocab env score order srt capacity ml = Inr (pre, vocab)"
    and "vocab_type vocab \<noteq> VOCAB_NONE"
  shows "table_ok vocab \<and> special_cache_ok vocab \<and> pieces_cached vocab \<and> opt_ids_ok vocab"
proof (rule llm_load_vocab_steps [OF assms(2,3)])
  fix v2 v5
  assume v2: "table_ok v2" "opt_ids_ok v2" "cache_special_tokens v2 = []" "cache_token_to_piece v2 = []"
      "vocab_type v2 = vocab_type vocab"
    and "\<exists>v4. step_ok v2 v4 \<and> load_piece_cache capacity (load_special_cache srt v4) = Inr v5"
    and same: "same_pieces v5 vocab"
  then obtain v4 where v4: "step_ok v2 v4" and pieces: "load_piece_cache capacity (load_special_cache srt v4) = Inr v5"
    by blast
  let ?s = "load_special_cache srt v4"
  have t4: "table_ok v4" "opt_ids_ok v4" "same_table v2 v4"
    using v4 v2 table_ok_same by (auto simp: step_ok_def)
  have s: "special_cache_ok ?s" using t4(3) v2 by (intro special_cache_loaded assms(1)) (simp add: same_table_def)
  have "vocab_type ?s \<noteq> VOCAB_NONE" "cache_token_to_piece ?s = []"
    using t4(3) v2 assms(3) by (simp_all add: same_table_def load_special_cache_def)
  from pieces this obtain ps where v5: "v5 = ?s\<lparr>cache_token_to_piece := ps\<rparr>" "pieces_cached v5"
    by (rule load_piece_cache_ok)
  have "table_ok v5" "opt_ids_ok v5"
    using t4 unfolding v5(1) by (simp_all add: table_ok_def opt_ids_ok_def opt_ids_def load_special_cache_def valid_id_def text_at_def)
  moreover have "special_cache_ok v5"
    using s unfolding v5(1) by (simp add: special_cache_ok_def valid_id_def text_at_def)
  moreover have "pieces_cached vocab"
    using v5(2) same_pieces_uncached [OF same] same_pieces_length [OF same] same
    by (simp add: pieces_cached_def same_pieces_def)
  moreover have "opt_ids_ok vocab = opt_ids_ok v5"
    using same same_pieces_valid [OF same] by (intro opt_ids_ok_cong) (simp_all add: same_pieces_def)
  ultimately show ?thesis
    using table_ok_same_pieces [OF same] special_cache_same_pieces [OF same] by blast
qed

text \<open>
  The newline token is chosen before the special ids of the file are read: for the WPM tokenizer it is the
  default id of the padding token, 0, whatever the file says.
\<close>

lemma load_special_linefeed:
  assumes "load_special ml kf v = Inr w" "kf \<in> set special_token_types"
  shows "linefeed_id w = linefeed_id v"
proof -
  obtain kid f where kf: "kf = (kid, f)" by (cases kf)
  have "linefeed_id (f t v) = linefeed_id v" for t
    using assms(2) kf by (auto simp: special_token_types_def)
  with load_special_cases [OF assms(1) [unfolded kf]] show ?thesis by auto
qed

lemma set_tokenid_attr_linefeed: "set_tokenid_attr attr value t v = Inr w \<Longrightarrow> linefeed_id w = linefeed_id v"
  by (auto simp: set_tokenid_attr_def Let_def split: if_splits)

lemma set_token_attr_linefeed: "set_token_attr attr value s v = Inr w \<Longrightarrow> linefeed_id w = linefeed_id v"
  by (auto simp: set_token_attr_def set_tokenid_attr_linefeed split: option.splits)

lemma foldE_linefeed:
  assumes "foldE f xs v = Inr w" "\<And>x u u'. x \<in> set xs \<Longrightarrow> f x u = Inr u' \<Longrightarrow> linefeed_id u' = linefeed_id u"
  shows "linefeed_id w = linefeed_id v"
  using assms(1) by (rule foldE_invariant [where P = "\<lambda>u. linefeed_id u = linefeed_id v"]) (auto simp: assms(2))

lemma specials_linefeed:
  assumes "load_specials order ml v = Inr w"
  shows "linefeed_id w = linefeed_id v"
proof -
  from assms obtain u b e where u: "foldE (load_special ml) special_token_types v = Inr u"
    and w: "w = find_eom (find_eot order (u\<lparr>tokenizer_add_bos := b, tokenizer_add_eos := e\<rparr>))"
    by (auto simp: load_specials_def bindE_Inr_iff)
  from foldE_linefeed [OF u] load_special_linefeed have "linefeed_id u = linefeed_id v" by blast
  then show ?thesis by (simp add: w find_eom_def find_eot_def split: option.splits)
qed

lemma attrs_linefeed:
  assumes "load_attrs ml v = Inr w"
  shows "linefeed_id w = linefeed_id v"
  using assms unfolding load_attrs_def bindE_Inr_iff
  by (auto simp: bindE_Inr_iff set_token_attr_linefeed split: if_splits simp del: foldE.simps
      dest!: foldE_linefeed dest: set_tokenid_attr_linefeed set_token_attr_linefeed)

lemma wpm_linefeed_default:
  assumes "llm_load_vocab env score order srt capacity ml = Inr (pre, vocab)" "vocab_type vocab = VOCAB_WPM"
  shows "linefeed_id vocab = 0"
proof -
  from assms obtain m name v0 v1 b c v2 v3 v4 v5 e where
    kind: "load_kind ml m empty_vocab = Inr v0" and pre: "load_pre name v0 = Inr (pre, v1)"
    and tokens: "load_tokens score ml (v1\<lparr>tokenizer_add_space_prefix := b,
          tokenizer_remove_extra_whitespaces := c\<rparr>) = Inr v2"
    and linefeed: "load_linefeed e ml v2 = Inr v3" and specials: "load_specials order ml v3 = Inr v4"
    and pieces: "load_piece_cache capacity (load_special_cache srt v4) = Inr v5"
    and attrs: "load_attrs ml v5 = Inr vocab"
    unfolding llm_load_vocab_def bindE_Inr_iff by (auto simp: bindE_Inr_iff split: if_splits)
  have "vocab_type v5 = VOCAB_WPM" using load_attrs_same [OF attrs] assms(2) by (simp add: same_pieces_def)
  moreover have "vocab_type v5 = vocab_type v4"
    using pieces by (auto simp: load_piece_cache_def load_special_cache_def bindE_Inr_iff)
  moreover have "vocab_type v4 = vocab_type v3" "vocab_type v3 = vocab_type v2"
    using specials_step [OF specials] linefeed_step [OF linefeed] by (simp_all add: step_ok_def same_table_def)
  moreover have "vocab_type v2 = vocab_type v1" "vocab_type v1 = vocab_type v0"
    using load_tokens_fields [OF tokens] load_pre_fields [OF pre] by simp_all
  ultimately have types: "vocab_type v2 = VOCAB_WPM" "vocab_type v1 = VOCAB_WPM" "vocab_type v0 = VOCAB_WPM" by simp_all
  have "special_pad_id v0 = 0"
    using kind types(3) by (auto simp: load_kind_def bindE_Inr_iff split: if_splits)
  moreover have "special_pad_id v1 = special_pad_id v0" using pre types by (auto simp: load_pre_def)
  moreover have "special_pad_id v2 = special_pad_id v1" using load_tokens_fields [OF tokens] by simp
  moreover have "linefeed_id v3 = special_pad_id v2" using linefeed types by (auto simp: load_linefeed_def)
  moreover have "linefeed_id v5 = linefeed_id v4"
    using pieces by (auto simp: load_piece_cache_def load_special_cache_def bindE_Inr_iff)
  ultimately show ?thesis using specials_linefeed [OF specials] attrs_linefeed [OF attrs] by simp
qed

text \<open>
  C38: A vocabulary that loads (with a kind of tokenizer) has a sound table: a text is mapped to an id exactly
  if the id is in the table with that text. The cache of special tokens has exactly the control, user-defined
  and unknown tokens, each once, longest text first, and none with an empty text; the cache of pieces has the
  uncached piece of every token, although the stripping attributes are set only after it was filled. The
  fill-in-the-middle, end-of-turn and end-of-message ids are absent or in the table. Of the condition \<open>vocab_ok\<close>
  under which the ids of tokenized texts were shown to be valid, only the validity of the unknown id is left; it
  is not checked, and its default depends on the kind of tokenizer only. (BPE never uses it; and the ids put
  around a text, the other condition there, are not checked either.)
\<close>

theorem loaded_vocab_ok:
  assumes "sorts srt" "llm_load_vocab env score order srt capacity ml = Inr (pre, vocab)"
    and "vocab_type vocab \<noteq> VOCAB_NONE"
  shows "(token_to_id vocab s = Some t \<longleftrightarrow> valid_id vocab t \<and> text_of vocab t = s)
    \<and> special_cache_ok vocab \<and> list_all (special_ok vocab) (cache_special_tokens vocab)
    \<and> pieces_cached vocab \<and> opt_ids_ok vocab
    \<and> (vocab_ok vocab \<longleftrightarrow> valid_id vocab (special_unk_id vocab))"
proof -
  note loaded = loaded_tables [OF assms]
  then have table: "token_to_id vocab s = Some t \<longleftrightarrow> valid_id vocab t \<and> text_of vocab t = s" for s t
    by (simp add: table_ok_def text_of_def text_at_def)
  have cache: "valid_id vocab t \<and> text_of vocab t \<noteq> []" if "t \<in> set (cache_special_tokens vocab)" for t
    using loaded that by (auto simp: special_cache_ok_def table_ok_def text_of_def text_at_def valid_id_def)
  have "vocab_ok vocab \<longleftrightarrow> valid_id vocab (special_unk_id vocab)"
    using cache table by (auto simp: vocab_ok_def ids_ok_def ran_def)
  with loaded table cache show ?thesis by (auto simp: list_all_iff special_ok_def)
qed

text \<open>A model for the WPM tokenizer with two tokens: the default id of the unknown token is not one of them.\<close>

definition small_bert :: llama_model_loader where
  "small_bert = \<lparr>ml_meta = gguf_init_empty\<lparr>gc_kv :=
       [(bytes ''tokenizer.ggml.model'', VString (bytes ''bert'')),
        (bytes ''tokenizer.ggml.tokens'', VStrings [bytes ''a'', bytes ''<s>'']),
        (bytes ''tokenizer.ggml.token_type'', VArray GGUF_TYPE_INT32 2 [1, 0, 0, 0, 3, 0, 0, 0])]\<rparr>,
     ml_overrides = Map.empty, ml_arch_name = bytes ''bert'', ml_arch = LLM_ARCH_BERT, ml_files = [], ml_mappings = [], ml_weights = [],
     ml_n_kv = 3, ml_n_tensors = 0, ml_n_created = 0, ml_n_elements = 0, ml_n_bytes = 0, ml_ftype = 0,
     ml_use_mmap = False, ml_check_tensors = False, ml_size_data = 0\<rparr>"

definition sort_down :: "(int \<Rightarrow> nat) \<Rightarrow> int list \<Rightarrow> int list" where
  "sort_down f xs = rev (sort_key f xs)"

lemma sort_down_sorts: "sorts sort_down"
  by (simp add: sorts_def sort_down_def sorted_wrt_rev) (metis (mono_tags) sorted_map sorted_sort_key)

lemma small_bert_arch: "ml_arch small_bert = LLM_ARCH_BERT"
  by (simp add: small_bert_def)

lemma small_bert_keys:
  "llm_kv_key LLM_ARCH_BERT LLM_KV_TOKENIZER_MODEL = Inr (bytes ''tokenizer.ggml.model'')"
  "llm_kv_key LLM_ARCH_BERT LLM_KV_TOKENIZER_LIST = Inr (bytes ''tokenizer.ggml.tokens'')"
  "llm_kv_key LLM_ARCH_BERT LLM_KV_TOKENIZER_TOKEN_TYPE = Inr (bytes ''tokenizer.ggml.token_type'')"
  by (simp_all add: llm_kv_key_def table_at_def LLM_KV_NAMES_def LLM_ARCH_NAMES_def)

definition absent_keys :: "llm_kv list" where
  "absent_keys = [LLM_KV_GENERAL_NAME, LLM_KV_TOKENIZER_PRE, LLM_KV_TOKENIZER_ADD_PREFIX,
     LLM_KV_TOKENIZER_REMOVE_EXTRA_WS, LLM_KV_TOKENIZER_SCORES, LLM_KV_TOKENIZER_ADD_BOS, LLM_KV_TOKENIZER_ADD_EOS]
     @ map fst (special_token_types :: (llm_kv \<times> (int \<Rightarrow> unit llama_vocab \<Rightarrow> unit llama_vocab)) list)"

lemma c_str_bytes:
  assumes "CHR 0x00 \<notin> set s"
  shows "c_str (bytes s) = bytes s"
proof -
  have zero: "of_char (CHR 0x00) = (0 :: byte)" by (simp add: of_char_def)
  have "(of_char c :: byte) \<noteq> 0" if "c \<in> set s" for c
    using that assms of_char_byte_iff [of c "CHR 0x00"] unfolding zero by metis
  then have "\<forall>b\<in>set (bytes s). b \<noteq> 0" unfolding bytes_def by force
  then show ?thesis unfolding c_str_def by (subst takeWhile_eq_all_conv)
qed

lemma small_bert_find:
  assumes "CHR 0x00 \<notin> set s"
  shows "gguf_find_key (ml_meta small_bert) (bytes s)
    = (if ''tokenizer.ggml.model'' = s then 0 else if ''tokenizer.ggml.tokens'' = s then 1
       else if ''tokenizer.ggml.token_type'' = s then 2 else -1)"
  using assms by (simp add: gguf_find_key_def small_bert_def gguf_init_empty_def c_str_bytes bytes_inj)

lemma small_bert_absent:
  "kid \<in> set absent_keys \<Longrightarrow> find_kid small_bert kid = Inr (-1)"
  by (auto simp: absent_keys_def special_token_types_def find_kid_def llm_kv_key_def table_at_def LLM_KV_NAMES_def
    LLM_ARCH_NAMES_def small_bert_find small_bert_arch)

lemma small_bert_absent_keys:
  assumes "kid \<in> set absent_keys"
  shows "get_key_kid T small_bert kid False = Inr None" "get_key_default T small_bert kid x = Inr x"
proof -
  show "get_key_kid T small_bert kid False = Inr None"
    using small_bert_absent [OF assms]
    by (auto simp: find_kid_def get_key_kid_def get_key_def gkv_set_def try_override_def small_bert_def bindE_Inr_iff)
  then show "get_key_default T small_bert kid x = Inr x" by (simp add: get_key_default_def)
qed

lemma small_bert_found:
  "gguf_find_key (ml_meta small_bert) (bytes ''tokenizer.ggml.model'') = 0"
  "gguf_find_key (ml_meta small_bert) (bytes ''tokenizer.ggml.tokens'') = 1"
  "gguf_find_key (ml_meta small_bert) (bytes ''tokenizer.ggml.token_type'') = 2"
  by (simp_all add: small_bert_find)

lemma small_bert_values:
  "kv_at (ml_meta small_bert) 0 = Inr (bytes ''tokenizer.ggml.model'', VString (bytes ''bert''))"
  "kv_at (ml_meta small_bert) 1 = Inr (bytes ''tokenizer.ggml.tokens'', VStrings [bytes ''a'', bytes ''<s>''])"
  "kv_at (ml_meta small_bert) 2
   = Inr (bytes ''tokenizer.ggml.token_type'', VArray GGUF_TYPE_INT32 2 [1, 0, 0, 0, 3, 0, 0, 0])"
  by (simp_all add: small_bert_def kv_at_def gguf_get_n_kv_def)

lemma small_bert_fields [simp]: "ml_arch small_bert = LLM_ARCH_BERT" "ml_overrides small_bert = Map.empty"
  by (simp_all add: small_bert_def)

lemma small_bert_kind:
  "get_key_kid gkv_string small_bert LLM_KV_TOKENIZER_MODEL True = Inr (Some (bytes ''bert''))"
  by (simp add: get_key_kid_def get_key_def gkv_set_def try_override_def small_bert_keys small_bert_found
    get_kv_def gkv_string_def gguf_get_kv_type_def gguf_get_val_str_def get_val_def small_bert_values)
    (simp add: c_str_def bytes_def)

lemma small_bert_token:
  "arr_str (ml_meta small_bert) 1 0 = Inr (bytes ''a'')" "arr_str (ml_meta small_bert) 1 (Suc 0) = Inr (bytes ''<s>'')"
  "arr_word (ml_meta small_bert) 2 0 = Inr 1" "arr_word (ml_meta small_bert) 2 (Suc 0) = Inr 3"
  "assert_cpts (bytes ''a'') = Inr ()" "assert_cpts (bytes ''<s>'') = Inr ()"
  apply (simp_all add: arr_str_def arr_word_def gguf_get_arr_str_def get_val_def gguf_get_arr_data_def small_bert_values)
  apply (simp_all add: c_str_def bytes_def)
  apply (code_simp)+
  done

definition bert_table :: "int option vocab_token list" where
  "bert_table = [\<lparr>tok_text = bytes ''a'', tok_score = Some 0, tok_attr = ATTR_NORMAL\<rparr>,
     \<lparr>tok_text = bytes ''<s>'', tok_score = Some 0, tok_attr = ATTR_CONTROL\<rparr>]"

lemma small_bert_tokens:
  fixes v :: "int option llama_vocab"
  assumes "token_to_id v = Map.empty" "max_token_len v = 0"
  shows "load_tokens (\<lambda>_. Some 0) small_bert v
    = Inr (v\<lparr>token_to_id := [bytes ''a'' \<mapsto> 0, bytes ''<s>'' \<mapsto> 1], max_token_len := 3, id_to_token := bert_table\<rparr>)"
proof -
  have "find_kid small_bert LLM_KV_TOKENIZER_LIST = Inr 1" "find_kid small_bert LLM_KV_TOKENIZER_TOKEN_TYPE = Inr 2"
    by (simp_all add: find_kid_def small_bert_keys small_bert_found)
  moreover have "find_kid small_bert LLM_KV_TOKENIZER_SCORES = Inr (-1)"
    by (rule small_bert_absent) (simp add: absent_keys_def)
  moreover have "gguf_get_arr_n (ml_meta small_bert) 1 = Inr 2"
    by (simp add: gguf_get_arr_n_def get_val_def small_bert_values)
  moreover have "[0..<2::nat] = [0, 1]" by (simp add: upt_rec)
  moreover have "bytes ''a'' \<noteq> bytes ''<s>''" "length (bytes ''a'') = 1" "length (bytes ''<s>'') = 3" by (simp_all add: bytes_def)
  ultimately show ?thesis
    by (simp add: load_tokens_def optional_array_def gguf_get_arr_data_def get_val_def small_bert_values
      load_token_def small_bert_token attr_of_toktype_def assms bert_table_def)
qed

lemma foldE_skip: "(\<And>x. x \<in> set xs \<Longrightarrow> f x s = Inr s) \<Longrightarrow> foldE f xs s = Inr s"
  by (induction xs) auto

lemma small_bert_specials:
  assumes "special_eot_id v = -1" "special_eom_id v = -1" "id_to_token v = bert_table"
    and "token_to_id v = [bytes ''a'' \<mapsto> 0, bytes ''<s>'' \<mapsto> 1]"
  shows "load_specials id small_bert v = Inr v"
proof -
  have "load_special small_bert kf v = Inr v" if "kf \<in> set special_token_types" for kf
  proof -
    from that have "fst kf \<in> set absent_keys" by (auto simp: absent_keys_def special_token_types_def)
    then show ?thesis by (cases kf) (simp add: load_special_def small_bert_absent_keys)
  qed
  then have "foldE (load_special small_bert) special_token_types v = Inr v" by (rule foldE_skip)
  moreover have "get_key_default gkv_bool small_bert LLM_KV_TOKENIZER_ADD_BOS x = Inr x"
    "get_key_default gkv_bool small_bert LLM_KV_TOKENIZER_ADD_EOS x = Inr x" for x
    by (rule small_bert_absent_keys; simp add: absent_keys_def)+
  moreover have "find_eom (find_eot id v) = v"
  proof -
    have "bytes ''a'' \<notin> eot_texts" "bytes ''<s>'' \<notin> eot_texts"
      "bytes ''a'' \<noteq> bytes ''<|eom_id|>''" "bytes ''<s>'' \<noteq> bytes ''<|eom_id|>''"
      by (simp_all add: eot_texts_def bytes_def)
    then show ?thesis by (simp add: find_eot_def find_eom_def assms bert_table_def)
  qed
  ultimately show ?thesis by (simp add: load_specials_def)
qed

lemma small_bert_caches:
  assumes "id_to_token v = bert_table" "vocab_type v = VOCAB_WPM" "cache_special_tokens v = []"
    "cache_token_to_piece v = []"
  shows "load_piece_cache 15 (load_special_cache sort_down v)
    = Inr (v\<lparr>cache_special_tokens := [1], cache_token_to_piece := [bytes ''a'', bytes ''<s>'']\<rparr>)"
proof -
  have "cached_attr AND ATTR_NORMAL = 0" "ATTR_NORMAL AND cached_attr = 0" "ATTR_CONTROL AND cached_attr \<noteq> 0"
    by (simp_all add: cached_attr_def attr_defs)
  then have s: "load_special_cache sort_down v = v\<lparr>cache_special_tokens := [1]\<rparr>"
    by (simp add: load_special_cache_def assms bert_table_def upt_rec sort_down_def)
  have unescaped: "llama_unescape_whitespace (bytes ''a'') = bytes ''a''"
    by (simp add: llama_unescape_whitespace_def replace_all_subst escaped_space_def bytes_def
        subst_all.simps [of _ _ "[97]"] subst_all.simps [of _ _ "[]"])
  have "piece_of (v\<lparr>cache_special_tokens := [1]\<rparr>) True 0 = Inr (bytes ''a'')"
    "piece_of (v\<lparr>cache_special_tokens := [1]\<rparr>) True 1 = Inr (bytes ''<s>'')"
    by (simp_all add: empty_cache_piece uncached_piece_def token_piece_def valid_id_def assms bert_table_def
        ATTR_SPECIAL_def attr_defs unescaped)
  then show ?thesis by (simp add: load_piece_cache_def s assms bert_table_def upt_rec llama_token_to_piece_eq)
qed

lemma small_bert_attrs: "load_attrs small_bert v = Inr v"
proof -
  have "get_key_default gkv_string small_bert LLM_KV_GENERAL_NAME [] = Inr []"
    "get_key_default gkv_string small_bert LLM_KV_TOKENIZER_PRE [] = Inr []"
    by (rule small_bert_absent_keys; simp add: absent_keys_def)+
  moreover have "\<not> contains_str [] x" if "x \<noteq> []" for x
    using that by (auto simp: contains_str_def str_find_Some_iff match_at_def bytes_def)
  ultimately show ?thesis by (simp add: load_attrs_def to_lower_def)
qed

lemma small_bert_loads:
  obtains v where "llm_load_vocab tiny_env (\<lambda>_. Some 0) id sort_down 15 small_bert = Inr (PRE_TYPE_DEFAULT, v)"
    "vocab_type v = VOCAB_WPM" "id_to_token v = bert_table" "special_unk_id v = 100" "cache_special_tokens v = [1]"
proof -
  have absent: "get_key_default gkv_string small_bert LLM_KV_TOKENIZER_PRE [] = Inr []"
    "get_key_default gkv_bool small_bert LLM_KV_TOKENIZER_ADD_PREFIX b = Inr b"
    "get_key_default gkv_bool small_bert LLM_KV_TOKENIZER_REMOVE_EXTRA_WS b = Inr b" for b
    by (rule small_bert_absent_keys; simp add: absent_keys_def)+
  have "load_kind ml (bytes ''bert'') v = Inr ((no_specials v)\<lparr>vocab_type := VOCAB_WPM, special_unk_id := 100,
      special_sep_id := 102, special_pad_id := 0, special_cls_id := 101, special_mask_id := 103\<rparr>)"
    for ml and v :: "int option llama_vocab"
    by (simp add: load_kind_def bytes_def)
  then show thesis
    by (intro that) (simp add: llm_load_vocab_def small_bert_kind absent load_pre_def no_specials_def empty_vocab_def
        small_bert_tokens load_linefeed_def small_bert_specials small_bert_caches small_bert_attrs, simp_all)
qed

text \<open>The theorem applies, and shows that the loaded vocabulary does not meet that condition.\<close>

theorem loaded_vocab_ok_witness:
  "\<exists>v. llm_load_vocab tiny_env (\<lambda>_. Some 0) id sort_down 15 small_bert = Inr (PRE_TYPE_DEFAULT, v)
    \<and> token_to_id v (bytes ''<s>'') = Some 1 \<and> special_ok v 1 \<and> \<not> vocab_ok v"
proof -
  obtain v where v: "llm_load_vocab tiny_env (\<lambda>_. Some 0) id sort_down 15 small_bert = Inr (PRE_TYPE_DEFAULT, v)"
    "vocab_type v = VOCAB_WPM" "id_to_token v = bert_table" "special_unk_id v = 100" "cache_special_tokens v = [1]"
    by (rule small_bert_loads)
  from loaded_vocab_ok [OF sort_down_sorts v(1), of "bytes ''<s>''" 1] v
  have "token_to_id v (bytes ''<s>'') = Some 1 \<and> special_ok v 1 \<and> \<not> vocab_ok v"
    by (simp add: valid_id_def text_of_def bert_table_def)
  with v(1) show ?thesis by blast
qed

end
