(* ===== verification/StateIO.thy ===== *)
theory StateIO
  imports KvDecode Gguf LlmArch
begin

text \<open>
  Saving and restoring the state of a context (\<open>llama_data_write\<close>, \<open>llama_data_read\<close> and
  \<open>llama_state_get_data_internal\<close>, \<open>llama_state_set_data_internal\<close> of \<open>src/src/llama.cpp\<close>): the random number
  generator, the outputs of the last batch, and the KV cache with the data of its cells.

  The abstract classes are records of operations, and the writer, or reader, is their state. A function that
  restores changes the context as it reads: it returns the context together with its value or error.
\<close>

section \<open>Dimensions and tensors\<close>

record llama_hparams =
  hp_n_layer :: nat
  n_head_kv_arr :: "u32 list"
  n_embd_head_k :: u32
  n_embd_head_v :: u32
  ssm_d_conv :: u32
  ssm_d_inner :: u32
  ssm_d_state :: u32

definition n_head_kv :: "llama_hparams \<Rightarrow> nat \<Rightarrow> u32 res" where
  "n_head_kv hp il = (if il < hp_n_layer hp then Inr (n_head_kv_arr hp ! il) else Inl (Abort ''fatal error''))"

definition n_embd_k_gqa :: "llama_hparams \<Rightarrow> nat \<Rightarrow> u32 res" where
  "n_embd_k_gqa hp il = bindE (n_head_kv hp il) (\<lambda>n. Inr (n_embd_head_k hp * n))"

definition n_embd_v_gqa :: "llama_hparams \<Rightarrow> nat \<Rightarrow> u32 res" where
  "n_embd_v_gqa hp il = bindE (n_head_kv hp il) (\<lambda>n. Inr (n_embd_head_v hp * n))"

definition n_embd_k_s :: "llama_hparams \<Rightarrow> u32" where
  "n_embd_k_s hp = (if ssm_d_conv hp > 0 then ssm_d_conv hp - 1 else 0) * ssm_d_inner hp"

definition n_embd_v_s :: "llama_hparams \<Rightarrow> u32" where
  "n_embd_v_s hp = ssm_d_state hp * ssm_d_inner hp"

text \<open>A tensor of the cache: its type and its bytes, of which there are \<open>ggml_nbytes\<close>.\<close>

record kv_tensor =
  kt_type :: nat
  kt_data :: "byte list"

text \<open>The assertions add in \<open>size_t\<close>; the copy is then of the bytes meant.\<close>

definition ggml_backend_tensor_get :: "kv_tensor \<Rightarrow> u64 \<Rightarrow> u64 \<Rightarrow> byte list res" where
  "ggml_backend_tensor_get t offset n =
    (if unat (offset + n) > length (kt_data t) then Inl (Abort ''tensor read out of bounds'')
     else if unat offset + unat n > length (kt_data t) then Inl (UndefinedBehaviour ''memcpy'')
     else Inr (take (unat n) (drop (unat offset) (kt_data t))))"

definition splice :: "nat \<Rightarrow> 'a list \<Rightarrow> 'a list \<Rightarrow> 'a list" where
  "splice offset xs ys = take offset ys @ xs @ drop (offset + length xs) ys"

definition ggml_backend_tensor_set :: "kv_tensor \<Rightarrow> byte list \<Rightarrow> u64 \<Rightarrow> kv_tensor res" where
  "ggml_backend_tensor_set t bs offset =
    (if unat (offset + of_nat (length bs)) > length (kt_data t) then Inl (Abort ''tensor write out of bounds'')
     else if unat offset + length bs > length (kt_data t) then Inl (UndefinedBehaviour ''memcpy'')
     else Inr (t\<lparr>kt_data := splice (unat offset) bs (kt_data t)\<rparr>))"

text \<open>
  The context. The floats of the outputs are bit patterns, in rows of \<open>n_vocab\<close> or \<open>n_embd\<close>; the cached data
  are the tensors here. A \<open>std::mt19937\<close> is the sequence of its words in the order of the standard.
\<close>

type_synonym mt19937 = "u32 list"

record state_ctx =
  st_arch :: llm_arch
  st_hparams :: llama_hparams
  st_params :: params
  st_rng :: mt19937
  st_ctx :: "(unit, u32 list) ctx"
  st_v_trans :: bool
  st_k :: "kv_tensor list"
  st_v :: "kv_tensor list"

abbreviation st_kv :: "state_ctx \<Rightarrow> kv_cache" where
  "st_kv c \<equiv> kv (st_ctx c)"

definition set_kv :: "kv_cache \<Rightarrow> state_ctx \<Rightarrow> state_ctx" where
  "set_kv cache c = c\<lparr>st_ctx := (st_ctx c)\<lparr>kv := cache\<rparr>\<rparr>"

definition llama_n_seq_max :: "state_ctx \<Rightarrow> nat" where
  "llama_n_seq_max c = ksize (st_kv c)"

definition tensor_at :: "kv_tensor list \<Rightarrow> nat \<Rightarrow> kv_tensor res" where
  "tensor_at ts il = (if il < length ts then Inr (ts ! il) else Inl (UndefinedBehaviour ''k_l[il]''))"

text \<open>A 32-bit integer as it is in memory.\<close>

definition i32_bytes :: "int \<Rightarrow> byte list" where
  "i32_bytes x = le_bytes 4 (unat (of_int x :: u32))"

definition i32_of :: "byte list \<Rightarrow> int" where
  "i32_of bs = sint (of_nat (le_nat bs) :: u32)"

section \<open>Writers\<close>

record 'w data_write =
  dw_write :: "byte list \<Rightarrow> 'w \<Rightarrow> 'w res"
  dw_tensor :: "kv_tensor \<Rightarrow> u64 \<Rightarrow> u64 \<Rightarrow> 'w \<Rightarrow> 'w res"
  dw_size :: "'w \<Rightarrow> nat"

definition llama_data_write_dummy :: "nat data_write" where
  "llama_data_write_dummy = \<lparr>dw_write = \<lambda>bs n. Inr (n + length bs),
     dw_tensor = \<lambda>t offset n w. Inr (w + unat n), dw_size = id\<rparr>"

text \<open>\<open>wb_out\<close> is what was written at the start of the buffer.\<close>

record write_buffer =
  wb_out :: "byte list"
  wb_buf_size :: nat
  wb_size_written :: nat

definition buffer_write :: "byte list \<Rightarrow> write_buffer \<Rightarrow> write_buffer res" where
  "buffer_write bs w =
    (if length bs > wb_buf_size w then Inl (RuntimeError ''unexpectedly reached end of buffer'')
     else Inr \<lparr>wb_out = wb_out w @ bs, wb_buf_size = wb_buf_size w - length bs,
            wb_size_written = wb_size_written w + length bs\<rparr>)"

definition llama_data_write_buffer :: "write_buffer data_write" where
  "llama_data_write_buffer = \<lparr>dw_write = buffer_write,
     dw_tensor = \<lambda>t offset n w.
       if unat n > wb_buf_size w then Inl (RuntimeError ''unexpectedly reached end of buffer'')
       else bindE (ggml_backend_tensor_get t offset n) (\<lambda>bs. buffer_write bs w),
     dw_size = wb_size_written\<rparr>"

text \<open>\<open>disk\<close> is the number of bytes that a file can take.\<close>

record write_file =
  wf_out :: "byte list"
  wf_size_written :: nat

definition write_raw :: "nat \<Rightarrow> byte list \<Rightarrow> byte list \<Rightarrow> byte list res" where
  "write_raw disk bs out =
    (if bs = [] then Inr out
     else if length out + length bs > disk then Inl (RuntimeError ''write error'')
     else Inr (out @ bs))"

definition file_write :: "nat \<Rightarrow> byte list \<Rightarrow> write_file \<Rightarrow> write_file res" where
  "file_write disk bs w =
    bindE (write_raw disk bs (wf_out w)) (\<lambda>out.
      Inr \<lparr>wf_out = out, wf_size_written = wf_size_written w + length bs\<rparr>)"

definition llama_data_write_file :: "nat \<Rightarrow> write_file data_write" where
  "llama_data_write_file disk = \<lparr>dw_write = file_write disk,
     dw_tensor = \<lambda>t offset n w. bindE (ggml_backend_tensor_get t offset n) (\<lambda>bs. file_write disk bs w),
     dw_size = wf_size_written\<rparr>"

section \<open>What is written\<close>

definition write_string :: "'w data_write \<Rightarrow> byte list \<Rightarrow> 'w \<Rightarrow> 'w res" where
  "write_string W str w =
    (let str_size = unat (of_nat (length str) :: u32) in
     bindE (dw_write W (le_bytes 4 str_size) w) (dw_write W (take str_size str)))"

definition write_model_info :: "'w data_write \<Rightarrow> state_ctx \<Rightarrow> 'w \<Rightarrow> 'w res" where
  "write_model_info W c w =
    bindE (table_at LLM_ARCH_NAMES (st_arch c)) (\<lambda>arch_str. write_string W (bytes arch_str) w)"

text \<open>The textual representation: the words in decimal, with spaces between them.\<close>

fun rng_text :: "mt19937 \<Rightarrow> byte list" where
  "rng_text [] = []"
| "rng_text [x] = to_string (unat x)"
| "rng_text (x # xs) = to_string (unat x) @ bytes '' '' @ rng_text xs"

definition write_rng :: "'w data_write \<Rightarrow> mt19937 \<Rightarrow> 'w \<Rightarrow> 'w res" where
  "write_rng W rng = write_string W (rng_text rng)"

definition compact_ids :: "nat \<Rightarrow> nat \<Rightarrow> int list \<Rightarrow> nat list res" where
  "compact_ids n_out batch ids =
    foldE (\<lambda>i output_pos.
      if i \<ge> length ids then Inl (UndefinedBehaviour ''output_ids[i]'')
      else let pos = ids ! i in
        if pos < 0 then Inr output_pos
        else if nat pos \<ge> n_out then Inl (Abort ''(uint32_t) pos < n_outputs'')
        else Inr (output_pos[nat pos := i])) [0..<batch] (replicate n_out 0)"

definition write_output_ids :: "'w data_write \<Rightarrow> state_ctx \<Rightarrow> 'w \<Rightarrow> 'w res" where
  "write_output_ids W c w =
    (let n_out = n_outputs (st_ctx c) in
     if n_out > output_size (st_ctx c) then Inl (Abort ''n_outputs <= ctx->output_size'')
     else bindE (compact_ids n_out (n_batch (st_params c)) (output_ids (st_ctx c))) (\<lambda>output_pos.
       bindE (dw_write W (le_bytes 4 n_out) w) (\<lambda>w.
         if n_out = 0 then Inr w else dw_write W (concat (map (le_bytes 4) output_pos)) w)))"

text \<open>The rows of a buffer one after the other; a cleared row is zero.\<close>

definition flat_rows :: "nat \<Rightarrow> u32 list option list \<Rightarrow> u32 list" where
  "flat_rows width rows = concat (map (\<lambda>r. case r of None \<Rightarrow> replicate width 0 | Some fs \<Rightarrow> fs) rows)"

definition float_bytes :: "u32 list \<Rightarrow> byte list" where
  "float_bytes fs = concat (map (\<lambda>f. le_bytes 4 (unat f)) fs)"

definition write_floats :: "'w data_write \<Rightarrow> nat \<Rightarrow> nat \<Rightarrow> u32 list option list option \<Rightarrow> 'w \<Rightarrow> 'w res" where
  "write_floats W n width rows w =
    bindE (dw_write W (le_bytes 8 n) w) (\<lambda>w.
      if n = 0 then Inr w
      else case rows of
        None \<Rightarrow> Inl (UndefinedBehaviour ''null pointer'')
      | Some rs \<Rightarrow>
          if n > length (flat_rows width rs) then Inl (UndefinedBehaviour ''read past the buffer'')
          else dw_write W (float_bytes (take n (flat_rows width rs))) w)"

definition write_logits :: "'w data_write \<Rightarrow> state_ctx \<Rightarrow> 'w \<Rightarrow> 'w res" where
  "write_logits W c =
    write_floats W (min (logits_size (st_ctx c)) (n_outputs (st_ctx c) * n_vocab (st_params c)))
      (n_vocab (st_params c)) (logits (st_ctx c))"

definition write_embeddings :: "'w data_write \<Rightarrow> state_ctx \<Rightarrow> 'w \<Rightarrow> 'w res" where
  "write_embeddings W c =
    write_floats W (min (embd_size (st_ctx c)) (n_outputs (st_ctx c) * n_embd (st_params c)))
      (n_embd (st_params c)) (embd (st_ctx c))"

subsection \<open>The KV cache\<close>

text \<open>The sequence ids of a cell in the order of a \<open>std::set\<close>; none for the copy of one sequence.\<close>

definition cell_seqs :: "int \<Rightarrow> kv_cell \<Rightarrow> int list" where
  "cell_seqs seq_id cell = (if seq_id = -1 then sorted_list_of_set (cseq cell) else [])"

definition write_cell :: "'w data_write \<Rightarrow> int \<Rightarrow> kv_cell \<Rightarrow> 'w \<Rightarrow> 'w res" where
  "write_cell W seq_id cell w =
    (let n_seq_id = (if seq_id = -1 then card (cseq cell) else 0) in
     bindE (dw_write W (i32_bytes (cpos cell)) w) (\<lambda>w.
     bindE (dw_write W (le_bytes 4 n_seq_id) w) (\<lambda>w.
       if n_seq_id = 0 then Inr w
       else foldE (\<lambda>s. dw_write W (i32_bytes s)) (cell_seqs seq_id cell) w)))"

text \<open>Ranges of cells, from inclusive to exclusive.\<close>

type_synonym ranges = "(nat \<times> nat) list"

definition write_kv_cache_meta :: "'w data_write \<Rightarrow> kv_cache \<Rightarrow> ranges \<Rightarrow> int \<Rightarrow> 'w \<Rightarrow> 'w res" where
  "write_kv_cache_meta W cache rs seq_id =
    foldE (\<lambda>(a, b). foldE (\<lambda>i. write_cell W seq_id (kcells cache ! i)) [a..<b]) rs"

definition write_row_ranges :: "'w data_write \<Rightarrow> kv_tensor \<Rightarrow> u64 \<Rightarrow> ranges \<Rightarrow> 'w \<Rightarrow> 'w res" where
  "write_row_ranges W t row =
    foldE (\<lambda>(a, b). dw_tensor W t (of_nat a * row) (of_nat (b - a) * row))"

definition write_tensor_rows ::
  "'w data_write \<Rightarrow> (nat \<Rightarrow> u32 res) \<Rightarrow> kv_tensor list \<Rightarrow> ranges \<Rightarrow> nat \<Rightarrow> 'w \<Rightarrow> 'w res" where
  "write_tensor_rows W width ts rs il w =
    bindE (width il) (\<lambda>n.
    bindE (tensor_at ts il) (\<lambda>t.
      let row = ggml_row_size (kt_type t) (ucast n) in
      bindE (dw_write W (le_bytes 4 (kt_type t)) w) (\<lambda>w.
      bindE (dw_write W (le_bytes 8 (unat row)) w) (write_row_ranges W t row rs))))"

text \<open>
  A transposed tensor has a row for each component. The offset in it is computed in 32 bits here: \<open>range.first\<close>,
  \<open>j\<close>, \<open>kv_size\<close> and \<open>v_size_el\<close> all are \<open>uint32_t\<close>.
\<close>

definition write_columns ::
  "'w data_write \<Rightarrow> u32 \<Rightarrow> (nat \<Rightarrow> u32 res) \<Rightarrow> kv_tensor list \<Rightarrow> ranges \<Rightarrow> nat \<Rightarrow> 'w \<Rightarrow> 'w res" where
  "write_columns W kv_size width ts rs il w =
    bindE (width il) (\<lambda>n.
    bindE (tensor_at ts il) (\<lambda>t.
      let el = of_nat (ggml_type_size (kt_type t)) :: u32 in
      bindE (dw_write W (le_bytes 4 (kt_type t)) w) (\<lambda>w.
      bindE (dw_write W (le_bytes 4 (unat el)) w) (\<lambda>w.
      bindE (dw_write W (le_bytes 4 (unat n)) w) (\<lambda>w.
        foldE (\<lambda>j. foldE (\<lambda>(a, b). dw_tensor W t (ucast ((of_nat a + of_nat j * kv_size) * el))
            (of_nat (b - a) * ucast el)) rs) [0..<unat n] w)))))"

definition k_width :: "llama_hparams \<Rightarrow> nat \<Rightarrow> u32 res" where
  "k_width hp il = bindE (n_embd_k_gqa hp il) (\<lambda>n. Inr (n + n_embd_k_s hp))"

definition v_width :: "llama_hparams \<Rightarrow> nat \<Rightarrow> u32 res" where
  "v_width hp il = bindE (n_embd_v_gqa hp il) (\<lambda>n. Inr (n + n_embd_v_s hp))"

definition write_kv_cache_data :: "'w data_write \<Rightarrow> state_ctx \<Rightarrow> ranges \<Rightarrow> 'w \<Rightarrow> 'w res" where
  "write_kv_cache_data W c rs w =
    (let hp = st_hparams c; layers = [0..<hp_n_layer hp] in
     bindE (dw_write W (le_bytes 4 (if st_v_trans c then 1 else 0)) w) (\<lambda>w.
     bindE (dw_write W (le_bytes 4 (hp_n_layer hp)) w) (\<lambda>w.
     bindE (foldE (write_tensor_rows W (k_width hp) (st_k c) rs) layers w) (\<lambda>w.
       if \<not> st_v_trans c then foldE (write_tensor_rows W (v_width hp) (st_v c) rs) layers w
       else foldE (write_columns W (of_nat (ksize (st_kv c))) (v_width hp) (st_v c) rs) layers w))))"

text \<open>The loop that finds the ranges; \<open>begin\<close> is \<open>size\<close> outside of a range.\<close>

definition saves :: "int \<Rightarrow> kv_cell \<Rightarrow> bool" where
  "saves seq_id cell \<longleftrightarrow> seq_id = -1 \<and> \<not> is_empty cell \<or> has_seq_id cell seq_id"

definition range_step :: "kv_cache \<Rightarrow> int \<Rightarrow> nat \<Rightarrow> u32 \<times> nat \<times> ranges \<Rightarrow> u32 \<times> nat \<times> ranges" where
  "range_step cache seq_id i = (\<lambda>(cell_count, from, rs).
    if saves seq_id (kcells cache ! i) then (cell_count + 1, if from = ksize cache then i else from, rs)
    else if from \<noteq> ksize cache then (cell_count, ksize cache, rs @ [(from, i)])
    else (cell_count, from, rs))"

definition cell_ranges :: "kv_cache \<Rightarrow> int \<Rightarrow> u32 \<times> ranges" where
  "cell_ranges cache seq_id =
    (case fold (range_step cache seq_id) [0..<ksize cache] (0, ksize cache, []) of
       (cell_count, from, rs) \<Rightarrow> (cell_count, if from \<noteq> ksize cache then rs @ [(from, ksize cache)] else rs))"

definition write_kv_cache :: "'w data_write \<Rightarrow> state_ctx \<Rightarrow> int \<Rightarrow> 'w \<Rightarrow> 'w res" where
  "write_kv_cache W c seq_id w =
    (case cell_ranges (st_kv c) seq_id of (cell_count, rs) \<Rightarrow>
       if cell_count \<noteq> of_nat (sum_list (map (\<lambda>(a, b). b - a) rs)) then Inl (Abort ''cell_count == cell_count_check'')
       else bindE (dw_write W (le_bytes 4 (unat cell_count)) w) (\<lambda>w.
         bindE (write_kv_cache_meta W (st_kv c) rs seq_id w) (write_kv_cache_data W c rs)))"

definition llama_state_get_data_internal :: "'w data_write \<Rightarrow> state_ctx \<Rightarrow> 'w \<Rightarrow> (nat \<times> 'w) res" where
  "llama_state_get_data_internal W c w =
    bindE (write_model_info W c w) (\<lambda>w.
    bindE (write_rng W (st_rng c) w) (\<lambda>w.
    bindE (write_output_ids W c w) (\<lambda>w.
    bindE (write_logits W c w) (\<lambda>w.
    bindE (write_embeddings W c w) (\<lambda>w.
    bindE (write_kv_cache W c (-1) w) (\<lambda>w. Inr (dw_size W w, w)))))))"

definition llama_state_seq_get_data_internal :: "'w data_write \<Rightarrow> state_ctx \<Rightarrow> int \<Rightarrow> 'w \<Rightarrow> (nat \<times> 'w) res" where
  "llama_state_seq_get_data_internal W c seq_id w =
    bindE (write_kv_cache W c seq_id w) (\<lambda>w. Inr (dw_size W w, w))"

end
