(* ===== verification/StateRestore.thy ===== *)
theory StateRestore
  imports StateIO
begin

text \<open>
  Restoring a state: the readers, what they restore in the order of the code, and the functions of the
  interface that copy a state to and from memory.
\<close>

section \<open>Effects\<close>

text \<open>A function that changes a state, also when it throws.\<close>

type_synonym ('s, 'a) eff = "'s \<Rightarrow> 'a res \<times> 's"

definition returnS :: "'a \<Rightarrow> ('s, 'a) eff" where
  "returnS x s = (Inr x, s)"

definition throwS :: "cxx_error \<Rightarrow> ('s, 'a) eff" where
  "throwS e s = (Inl e, s)"

definition bindS :: "('s, 'a) eff \<Rightarrow> ('a \<Rightarrow> ('s, 'b) eff) \<Rightarrow> ('s, 'b) eff" where
  "bindS m f s = (case m s of (Inl e, s') \<Rightarrow> (Inl e, s') | (Inr x, s') \<Rightarrow> f x s')"

text \<open>A loop whose body returns false to return false from the function.\<close>

fun loopS :: "('b \<Rightarrow> ('s, bool) eff) \<Rightarrow> 'b list \<Rightarrow> ('s, bool) eff" where
  "loopS f [] = returnS True"
| "loopS f (x # xs) = bindS (f x) (\<lambda>ok. if ok then loopS f xs else returnS False)"

text \<open>A function on the context that throws without a change.\<close>

definition liftS :: "('c \<Rightarrow> 'c res) \<Rightarrow> ('r \<times> 'c, unit) eff" where
  "liftS f s = (case f (snd s) of Inl e \<Rightarrow> (Inl e, s) | Inr c \<Rightarrow> (Inr (), fst s, c))"

definition getS :: "('r \<times> 'c, 'c) eff" where
  "getS s = (Inr (snd s), s)"

definition checkS :: "bool \<Rightarrow> cxx_error \<Rightarrow> ('s, unit) eff" where
  "checkS b e = (if b then returnS () else throwS e)"

section \<open>Readers\<close>

text \<open>\<open>read\<close> and \<open>read_to\<close> give the same bytes.\<close>

record 'r data_read =
  dr_read :: "nat \<Rightarrow> 'r \<Rightarrow> (byte list \<times> 'r) res"
  dr_size :: "'r \<Rightarrow> nat"

text \<open>\<open>rb_mem\<close> is the memory from \<open>ptr\<close> on; \<open>rb_buf_size\<close> is what the caller says of its size.\<close>

record read_buffer =
  rb_mem :: "byte list"
  rb_buf_size :: nat
  rb_size_read :: nat

definition llama_data_read_buffer :: "read_buffer data_read" where
  "llama_data_read_buffer = \<lparr>dr_read = \<lambda>n r.
       if n > rb_buf_size r then Inl (RuntimeError ''unexpectedly reached end of buffer'')
       else if n > length (rb_mem r) then Inl (UndefinedBehaviour ''read past the buffer'')
       else Inr (take n (rb_mem r), \<lparr>rb_mem = drop n (rb_mem r), rb_buf_size = rb_buf_size r - n,
                   rb_size_read = rb_size_read r + n\<rparr>),
     dr_size = rb_size_read\<rparr>"

text \<open>\<open>rf_rest\<close> is the file from its position on.\<close>

record read_file =
  rf_rest :: "byte list"
  rf_size_read :: nat

definition read_raw :: "nat \<Rightarrow> byte list \<Rightarrow> (byte list \<times> byte list) res" where
  "read_raw n rest =
    (if n > length rest then Inl (RuntimeError ''unexpectedly reached end of file'')
     else Inr (take n rest, drop n rest))"

definition llama_data_read_file :: "read_file data_read" where
  "llama_data_read_file = \<lparr>dr_read = \<lambda>n r.
       bindE (read_raw n (rf_rest r)) (\<lambda>(bs, rest).
         Inr (bs, \<lparr>rf_rest = rest, rf_size_read = rf_size_read r + n\<rparr>)),
     dr_size = rf_size_read\<rparr>"

definition readS :: "'r data_read \<Rightarrow> nat \<Rightarrow> ('r \<times> 'c, byte list) eff" where
  "readS R n s = (case dr_read R n (fst s) of Inl e \<Rightarrow> (Inl e, s) | Inr (bs, r) \<Rightarrow> (Inr bs, r, snd s))"

definition read_num :: "'r data_read \<Rightarrow> nat \<Rightarrow> ('r \<times> 'c, nat) eff" where
  "read_num R k = bindS (readS R k) (\<lambda>bs. returnS (le_nat bs))"

definition read_i32 :: "'r data_read \<Rightarrow> ('r \<times> 'c, int) eff" where
  "read_i32 R = bindS (readS R 4) (\<lambda>bs. returnS (i32_of bs))"

section \<open>The generator and the outputs\<close>

definition read_string :: "'r data_read \<Rightarrow> ('r \<times> 'c, byte list) eff" where
  "read_string R = bindS (read_num R 4) (readS R)"

definition read_model_info :: "'r data_read \<Rightarrow> ('r \<times> state_ctx, unit) eff" where
  "read_model_info R = bindS getS (\<lambda>c.
    case table_at LLM_ARCH_NAMES (st_arch c) of
      Inl e \<Rightarrow> throwS e
    | Inr cur \<Rightarrow> bindS (read_string R) (\<lambda>arch_str.
        checkS (bytes cur = arch_str) (RuntimeError ''wrong model arch'')))"

text \<open>Reading the words back, which skips the spaces before each.\<close>

definition stream_space :: "byte \<Rightarrow> bool" where
  "stream_space b \<longleftrightarrow> b = 32 \<or> 9 \<le> b \<and> b \<le> 13"

definition is_dec :: "byte \<Rightarrow> bool" where
  "is_dec b \<longleftrightarrow> ch CHR ''0'' \<le> b \<and> b \<le> ch CHR ''9''"

fun rng_words :: "nat \<Rightarrow> byte list \<Rightarrow> mt19937 option" where
  "rng_words 0 s = Some []"
| "rng_words (Suc n) s =
    (let s1 = dropWhile stream_space s; ds = takeWhile is_dec s1 in
     if ds = [] \<or> number_of ds \<ge> 2 ^ 32 then None
     else map_option (Cons (of_nat (number_of ds))) (rng_words n (dropWhile is_dec s1)))"

definition MT_STATE_SIZE :: nat where
  "MT_STATE_SIZE = 624"

definition read_rng :: "'r data_read \<Rightarrow> ('r \<times> state_ctx, unit) eff" where
  "read_rng R = bindS (read_string R) (\<lambda>rng_str.
    case rng_words MT_STATE_SIZE rng_str of
      None \<Rightarrow> throwS (RuntimeError ''failed to load RNG state'')
    | Some rng \<Rightarrow> liftS (\<lambda>c. Inr (c\<lparr>st_rng := rng\<rparr>)))"

definition reserve :: "(nat \<Rightarrow> bool) \<Rightarrow> nat \<Rightarrow> ('r \<times> state_ctx, nat) eff" where
  "reserve alloc n s =
    (case llama_output_reserve alloc (st_params (snd s)) (st_ctx (snd s)) n of
       (n_max, lctx) \<Rightarrow> (Inr n_max, fst s, (snd s)\<lparr>st_ctx := lctx\<rparr>))"

definition set_output_id :: "nat \<Rightarrow> int \<Rightarrow> state_ctx \<Rightarrow> state_ctx res" where
  "set_output_id i tid c =
    (let n = unat (of_int tid :: u32) in
     if n \<ge> n_batch (st_params c) then Inl (RuntimeError ''invalid output id'')
     else if n \<ge> length (output_ids (st_ctx c)) then Inl (UndefinedBehaviour ''output_ids[id]'')
     else Inr (c\<lparr>st_ctx := (st_ctx c)\<lparr>output_ids := (output_ids (st_ctx c))[n := int i]\<rparr>\<rparr>))"

definition i32s_of :: "nat \<Rightarrow> byte list \<Rightarrow> int list" where
  "i32s_of n bs = map (\<lambda>i. i32_of (take 4 (drop (4 * i) bs))) [0..<n]"

definition read_output_ids :: "(nat \<Rightarrow> bool) \<Rightarrow> 'r data_read \<Rightarrow> ('r \<times> state_ctx, unit) eff" where
  "read_output_ids alloc R =
    bindS (read_num R 4) (\<lambda>n_out.
    bindS (reserve alloc n_out) (\<lambda>n_max.
    bindS (checkS (n_out \<le> n_max) (RuntimeError ''could not reserve outputs'')) (\<lambda>_.
      if n_out = 0 then returnS ()
      else
        bindS (readS R (n_out * 4)) (\<lambda>bs.
          let output_pos = i32s_of n_out bs in
          bindS (loopS (\<lambda>i. bindS (liftS (set_output_id i (output_pos ! i))) (\<lambda>_. returnS True))
              [0..<nat (sint (of_nat n_out :: u32))]) (\<lambda>_.
            liftS (\<lambda>c. Inr (c\<lparr>st_ctx := (st_ctx c)\<lparr>n_outputs := n_out\<rparr>\<rparr>)))))))"

text \<open>The floats at the start of a buffer are replaced.\<close>

definition floats_of :: "nat \<Rightarrow> byte list \<Rightarrow> u32 list" where
  "floats_of n bs = map (\<lambda>i. of_nat (le_nat (take 4 (drop (4 * i) bs)))) [0..<n]"

definition put_rows :: "nat \<Rightarrow> u32 list \<Rightarrow> u32 list option list \<Rightarrow> u32 list option list" where
  "put_rows width fs rows =
    (let flat = fs @ drop (length fs) (flat_rows width rows) in
     map (\<lambda>i. Some (take width (drop (i * width) flat))) [0..<length rows])"

definition put_floats :: "nat \<Rightarrow> u32 list \<Rightarrow> u32 list option list option \<Rightarrow> u32 list option list option res" where
  "put_floats width fs rows =
    (case rows of
       None \<Rightarrow> Inl (UndefinedBehaviour ''null pointer'')
     | Some rs \<Rightarrow>
         if length fs > length (flat_rows width rs) then Inl (UndefinedBehaviour ''write past the buffer'')
         else Inr (Some (put_rows width fs rs)))"

definition read_logits :: "'r data_read \<Rightarrow> ('r \<times> state_ctx, unit) eff" where
  "read_logits R =
    bindS (read_num R 8) (\<lambda>n.
    bindS getS (\<lambda>c.
    bindS (checkS (n \<le> logits_size (st_ctx c)) (RuntimeError ''logits buffer too small'')) (\<lambda>_.
      if n = 0 then returnS ()
      else bindS (readS R (n * 4)) (\<lambda>bs.
        liftS (\<lambda>c. bindE (put_floats (n_vocab (st_params c)) (floats_of n bs) (logits (st_ctx c))) (\<lambda>rows.
          Inr (c\<lparr>st_ctx := (st_ctx c)\<lparr>logits := rows\<rparr>\<rparr>)))))))"

definition read_embeddings :: "'r data_read \<Rightarrow> ('r \<times> state_ctx, unit) eff" where
  "read_embeddings R =
    bindS (read_num R 8) (\<lambda>n.
    bindS getS (\<lambda>c.
    bindS (checkS (n \<le> embd_size (st_ctx c)) (RuntimeError ''embeddings buffer too small'')) (\<lambda>_.
      if n = 0 then returnS ()
      else bindS (readS R (n * 4)) (\<lambda>bs.
        liftS (\<lambda>c. bindE (put_floats (n_embd (st_params c)) (floats_of n bs) (embd (st_ctx c))) (\<lambda>rows.
          Inr (c\<lparr>st_ctx := (st_ctx c)\<lparr>embd := rows\<rparr>\<rparr>)))))))"

section \<open>The KV cache\<close>

text \<open>
  The cells of one sequence: positions only, which are then placed as a batch. \<open>llama_batch_init\<close> takes an
  \<open>int32_t\<close>; the assertions look at the first and the last cell and position.
\<close>

fun read_positions :: "'r data_read \<Rightarrow> nat \<Rightarrow> ('r \<times> state_ctx, int list option) eff" where
  "read_positions R 0 = returnS (Some [])"
| "read_positions R (Suc n) =
    bindS (read_i32 R) (\<lambda>pos.
    bindS (read_num R 4) (\<lambda>n_seq_id.
      if n_seq_id \<noteq> 0 then returnS None
      else bindS (read_positions R n) (\<lambda>ps. returnS (map_option (Cons pos) ps))))"

definition slot_ok :: "kv_cache \<Rightarrow> int \<Rightarrow> int list \<Rightarrow> unit res" where
  "slot_ok cache seq_id ps =
    (let h = khead cache; n = length ps; cells = kcells cache in
     if h + n > ksize cache then Inl (Abort ''kv_self.head + cell_count <= kv_self.size'')
     else if n = 0 then Inl (UndefinedBehaviour ''batch.pos[cell_count - 1]'')
     else if cpos (cells ! h) \<noteq> hd ps \<or> cpos (cells ! (h + n - 1)) \<noteq> last ps
       \<or> \<not> has_seq_id (cells ! h) seq_id \<or> \<not> has_seq_id (cells ! (h + n - 1)) seq_id
     then Inl (Abort ''kv_self.cells'')
     else Inr ())"

definition place_sequence :: "int \<Rightarrow> int list \<Rightarrow> ('r \<times> state_ctx, bool) eff" where
  "place_sequence seq_id ps =
    bindS getS (\<lambda>c.
      case llama_kv_cache_find_slot (st_kv c) \<lparr>bpos = ps, bseq = replicate (length ps) [seq_id]\<rparr> of
        (ok, cache) \<Rightarrow>
          bindS (liftS (\<lambda>c. Inr (set_kv cache c))) (\<lambda>_.
            if \<not> ok then returnS False
            else (case slot_ok cache seq_id ps of Inl e \<Rightarrow> throwS e | Inr _ \<Rightarrow> returnS True)))"

definition seq_rm :: "int \<Rightarrow> state_ctx \<Rightarrow> state_ctx res" where
  "seq_rm seq_id c = bindE (llama_kv_cache_seq_rm (st_kv c) seq_id (-1) (-1)) (\<lambda>(_, cache). Inr (set_kv cache c))"

definition read_sequence :: "'r data_read \<Rightarrow> nat \<Rightarrow> int \<Rightarrow> ('r \<times> state_ctx, bool) eff" where
  "read_sequence R cell_count seq_id =
    bindS (liftS (seq_rm seq_id)) (\<lambda>_.
    bindS (checkS (cell_count < 2 ^ 31) (UndefinedBehaviour ''llama_batch_init'')) (\<lambda>_.
    bindS (read_positions R cell_count) (\<lambda>ps.
      case ps of None \<Rightarrow> returnS False | Some ps \<Rightarrow> place_sequence seq_id ps)))"

text \<open>The whole cache: every cell is changed as soon as its values are read.\<close>

definition set_cell :: "nat \<Rightarrow> (kv_cell \<Rightarrow> kv_cell) \<Rightarrow> state_ctx \<Rightarrow> state_ctx" where
  "set_cell i f c = set_kv ((st_kv c)\<lparr>kcells := (kcells (st_kv c))[i := f (kcells (st_kv c) ! i)]\<rparr>) c"

definition read_seq_id :: "'r data_read \<Rightarrow> nat \<Rightarrow> nat \<Rightarrow> ('r \<times> state_ctx, bool) eff" where
  "read_seq_id R i j =
    bindS (read_i32 R) (\<lambda>s.
    bindS getS (\<lambda>c.
      if s < 0 \<or> unat (of_int s :: u32) \<ge> llama_n_seq_max c then returnS False
      else bindS (liftS (\<lambda>c. Inr (set_cell i (\<lambda>cell. cell\<lparr>cseq := insert s (cseq cell)\<rparr>) c))) (\<lambda>_. returnS True)))"

definition read_cell :: "'r data_read \<Rightarrow> nat \<Rightarrow> ('r \<times> state_ctx, bool) eff" where
  "read_cell R i =
    bindS (read_i32 R) (\<lambda>pos.
    bindS (read_num R 4) (\<lambda>n_seq_id.
    bindS (liftS (\<lambda>c. Inr (set_cell i (\<lambda>cell. cell\<lparr>cpos := pos\<rparr>) c))) (\<lambda>_.
      loopS (read_seq_id R i) [0..<n_seq_id])))"

text \<open>\<open>llama_kv_cache_clear\<close> with the buffers of the cache, which hold its tensors.\<close>

definition clear_data :: "state_ctx \<Rightarrow> state_ctx" where
  "clear_data c =
    c\<lparr>st_k := map (\<lambda>t. t\<lparr>kt_data := replicate (length (kt_data t)) 0\<rparr>) (st_k c),
      st_v := map (\<lambda>t. t\<lparr>kt_data := replicate (length (kt_data t)) 0\<rparr>) (st_v c)\<rparr>"

definition clear_kv :: "state_ctx \<Rightarrow> state_ctx" where
  "clear_kv c = set_kv (llama_kv_cache_clear (st_kv c)) (clear_data c)"

definition read_cells :: "'r data_read \<Rightarrow> nat \<Rightarrow> ('r \<times> state_ctx, bool) eff" where
  "read_cells R cell_count =
    bindS getS (\<lambda>c.
      if cell_count > ksize (st_kv c) then returnS False
      else
        bindS (liftS (\<lambda>c. Inr (clear_kv c))) (\<lambda>_.
        bindS (loopS (read_cell R) [0..<cell_count]) (\<lambda>ok.
          if \<not> ok then returnS False
          else bindS (liftS (\<lambda>c. Inr (set_kv ((st_kv c)\<lparr>khead := 0, kused := of_nat cell_count\<rparr>) c)))
            (\<lambda>_. returnS True))))"

definition read_kv_cache_meta :: "'r data_read \<Rightarrow> nat \<Rightarrow> int \<Rightarrow> ('r \<times> state_ctx, bool) eff" where
  "read_kv_cache_meta R cell_count dest_seq_id =
    (if dest_seq_id \<noteq> -1 then read_sequence R cell_count dest_seq_id else read_cells R cell_count)"

subsection \<open>The data of the cells\<close>

text \<open>Either of the tensors of a layer.\<close>

definition set_tensor :: "bool \<Rightarrow> nat \<Rightarrow> kv_tensor \<Rightarrow> state_ctx \<Rightarrow> state_ctx" where
  "set_tensor is_k il t c = (if is_k then c\<lparr>st_k := (st_k c)[il := t]\<rparr> else c\<lparr>st_v := (st_v c)[il := t]\<rparr>)"

definition put_tensor :: "bool \<Rightarrow> nat \<Rightarrow> byte list \<Rightarrow> u64 \<Rightarrow> state_ctx \<Rightarrow> state_ctx res" where
  "put_tensor is_k il bs offset c =
    bindE (tensor_at (if is_k then st_k c else st_v c) il) (\<lambda>t.
    bindE (ggml_backend_tensor_set t bs offset) (\<lambda>t. Inr (set_tensor is_k il t c)))"

definition resS :: "'a res \<Rightarrow> ('s, 'a) eff" where
  "resS x s = (x, s)"

definition read_tensor_rows :: "'r data_read \<Rightarrow> nat \<Rightarrow> bool \<Rightarrow> nat \<Rightarrow> ('r \<times> state_ctx, bool) eff" where
  "read_tensor_rows R cell_count is_k il =
    bindS getS (\<lambda>c.
    bindS (resS ((if is_k then k_width else v_width) (st_hparams c) il)) (\<lambda>n.
    bindS (read_num R 4) (\<lambda>type_ref.
    bindS (resS (tensor_at (if is_k then st_k c else st_v c) il)) (\<lambda>t.
      if kt_type t \<noteq> type_ref then returnS False
      else bindS (read_num R 8) (\<lambda>row_ref.
        let row = ggml_row_size (kt_type t) (ucast n) in
        if unat row \<noteq> row_ref then returnS False
        else if cell_count = 0 then returnS True
        else bindS (readS R (unat (of_nat cell_count * row))) (\<lambda>bs.
          bindS (liftS (put_tensor is_k il bs (of_nat (khead (st_kv c)) * row))) (\<lambda>_. returnS True)))))))"

text \<open>Here the offset is the 32-bit number of elements times a \<open>size_t\<close>.\<close>

definition read_columns :: "'r data_read \<Rightarrow> nat \<Rightarrow> nat \<Rightarrow> ('r \<times> state_ctx, bool) eff" where
  "read_columns R cell_count il =
    bindS getS (\<lambda>c.
    bindS (resS (v_width (st_hparams c) il)) (\<lambda>n.
    bindS (read_num R 4) (\<lambda>type_ref.
    bindS (resS (tensor_at (st_v c) il)) (\<lambda>t.
      if kt_type t \<noteq> type_ref then returnS False
      else bindS (read_num R 4) (\<lambda>el_ref.
        let el = ggml_type_size (kt_type t) in
        if el \<noteq> el_ref then returnS False
        else bindS (read_num R 4) (\<lambda>n_ref.
          if unat n \<noteq> n_ref then returnS False
          else if cell_count = 0 then returnS True
          else loopS (\<lambda>j. bindS (readS R (cell_count * el)) (\<lambda>bs.
              bindS (liftS (put_tensor False il bs
                (ucast (of_nat (khead (st_kv c)) + of_nat j * of_nat (ksize (st_kv c)) :: u32) * of_nat el)))
              (\<lambda>_. returnS True))) [0..<unat n]))))))"

definition read_kv_cache_data :: "'r data_read \<Rightarrow> nat \<Rightarrow> ('r \<times> state_ctx, bool) eff" where
  "read_kv_cache_data R cell_count =
    bindS (read_num R 4) (\<lambda>v_trans.
    bindS (read_num R 4) (\<lambda>n_layer_ref.
    bindS getS (\<lambda>c.
      let layers = [0..<hp_n_layer (st_hparams c)] in
      if n_layer_ref \<noteq> hp_n_layer (st_hparams c) then returnS False
      else if cell_count > ksize (st_kv c) then returnS False
      else if st_v_trans c \<noteq> (v_trans \<noteq> 0) then returnS False
      else bindS (loopS (read_tensor_rows R cell_count True) layers) (\<lambda>ok.
        if \<not> ok then returnS False
        else if \<not> st_v_trans c then loopS (read_tensor_rows R cell_count False) layers
        else loopS (read_columns R cell_count) layers))))"

text \<open>A failure clears what was restored, an exception on the way does not.\<close>

definition read_kv_cache :: "'r data_read \<Rightarrow> int \<Rightarrow> ('r \<times> state_ctx, unit) eff" where
  "read_kv_cache R seq_id =
    bindS (read_num R 4) (\<lambda>cell_count.
    bindS (read_kv_cache_meta R cell_count seq_id) (\<lambda>ok.
    bindS (if ok then read_kv_cache_data R cell_count else returnS False) (\<lambda>ok.
      if ok then returnS ()
      else bindS (liftS (if seq_id = -1 then \<lambda>c. Inr (clear_kv c) else seq_rm seq_id))
        (\<lambda>_. throwS (RuntimeError ''failed to restore kv cache'')))))"

definition llama_state_set_data_internal :: "(nat \<Rightarrow> bool) \<Rightarrow> 'r data_read \<Rightarrow> ('r \<times> state_ctx, nat) eff" where
  "llama_state_set_data_internal alloc R =
    bindS (read_model_info R) (\<lambda>_.
    bindS (read_rng R) (\<lambda>_.
    bindS (read_output_ids alloc R) (\<lambda>_.
    bindS (read_logits R) (\<lambda>_.
    bindS (read_embeddings R) (\<lambda>_.
    bindS (read_kv_cache R (-1)) (\<lambda>_ s. (Inr (dr_size R (fst s)), s)))))))"

definition llama_state_seq_set_data_internal :: "'r data_read \<Rightarrow> int \<Rightarrow> ('r \<times> state_ctx, nat) eff" where
  "llama_state_seq_set_data_internal R dest_seq_id =
    bindS (read_kv_cache R dest_seq_id) (\<lambda>_ s. (Inr (dr_size R (fst s)), s))"

section \<open>The interface\<close>

text \<open>The handlers catch exceptions, which the first three errors are.\<close>

definition thrown :: "cxx_error \<Rightarrow> bool" where
  "thrown e = (case e of InvalidArgument _ \<Rightarrow> True | OutOfRange _ \<Rightarrow> True | RuntimeError _ \<Rightarrow> True | _ \<Rightarrow> False)"

definition caught :: "'a \<Rightarrow> 'a res \<Rightarrow> 'a res" where
  "caught x m = (case m of Inl e \<Rightarrow> if thrown e then Inr x else Inl e | Inr y \<Rightarrow> Inr y)"

definition write_to_buffer :: "nat \<Rightarrow> (write_buffer \<Rightarrow> (nat \<times> write_buffer) res) \<Rightarrow> (nat \<times> byte list) res" where
  "write_to_buffer n f =
    caught (0, []) (bindE (f \<lparr>wb_out = [], wb_buf_size = n, wb_size_written = 0\<rparr>)
      (\<lambda>(k, w). Inr (k, wb_out w)))"

text \<open>The size and the bytes; what a failed call has written is not told.\<close>

definition llama_state_get_data :: "state_ctx \<Rightarrow> nat \<Rightarrow> (nat \<times> byte list) res" where
  "llama_state_get_data c n = write_to_buffer n (llama_state_get_data_internal llama_data_write_buffer c)"

definition llama_state_get_size :: "state_ctx \<Rightarrow> nat res" where
  "llama_state_get_size c =
    caught 0 (bindE (llama_state_get_data_internal llama_data_write_dummy c 0) (\<lambda>(k, _). Inr k))"

definition llama_state_seq_get_data :: "state_ctx \<Rightarrow> nat \<Rightarrow> int \<Rightarrow> (nat \<times> byte list) res" where
  "llama_state_seq_get_data c n seq_id =
    write_to_buffer n (llama_state_seq_get_data_internal llama_data_write_buffer c seq_id)"

definition llama_state_seq_get_size :: "state_ctx \<Rightarrow> int \<Rightarrow> nat res" where
  "llama_state_seq_get_size c seq_id =
    bindE (llama_state_seq_get_data_internal llama_data_write_dummy c seq_id 0) (\<lambda>(k, _). Inr k)"

definition read_from_buffer ::
  "byte list \<Rightarrow> nat \<Rightarrow> (read_buffer \<times> state_ctx, nat) eff \<Rightarrow> state_ctx \<Rightarrow> nat res \<times> state_ctx" where
  "read_from_buffer src n f c =
    (case f (\<lparr>rb_mem = src, rb_buf_size = n, rb_size_read = 0\<rparr>, c) of (x, _, c') \<Rightarrow> (caught 0 x, c'))"

definition llama_state_set_data :: "(nat \<Rightarrow> bool) \<Rightarrow> byte list \<Rightarrow> nat \<Rightarrow> state_ctx \<Rightarrow> nat res \<times> state_ctx" where
  "llama_state_set_data alloc src n = read_from_buffer src n (llama_state_set_data_internal alloc llama_data_read_buffer)"

definition llama_state_seq_set_data :: "byte list \<Rightarrow> nat \<Rightarrow> int \<Rightarrow> state_ctx \<Rightarrow> nat res \<times> state_ctx" where
  "llama_state_seq_set_data src n dest_seq_id =
    read_from_buffer src n (llama_state_seq_set_data_internal llama_data_read_buffer dest_seq_id)"

text \<open>The deprecated functions pass -1 for the size of the buffer.\<close>

definition llama_copy_state_data :: "state_ctx \<Rightarrow> (nat \<times> byte list) res" where
  "llama_copy_state_data c = llama_state_get_data c (2 ^ 64 - 1)"

definition llama_set_state_data :: "(nat \<Rightarrow> bool) \<Rightarrow> byte list \<Rightarrow> state_ctx \<Rightarrow> nat res \<times> state_ctx" where
  "llama_set_state_data alloc src = llama_state_set_data alloc src (2 ^ 64 - 1)"

end
