(* ===== verification/StateSaved.thy ===== *)
theory StateSaved
  imports StateRestore KvCacheProps GgufWriteProps
begin

text \<open>
  What a saved state is: every writer receives the same bytes, the image of the state, and a writer that only
  counts finds out their number.
\<close>

section \<open>Writers as an interface\<close>

text \<open>\<open>f\<close> writes the bytes \<open>bs\<close>, whatever the writer does with them.\<close>

definition stores :: "'w data_write \<Rightarrow> ('w \<Rightarrow> 'w res) \<Rightarrow> byte list \<Rightarrow> bool" where
  "stores W f bs \<longleftrightarrow> (\<forall>w. f w = dw_write W bs w)"

locale data_writer =
  fixes W :: "'w data_write"
  assumes write_nil: "dw_write W [] w = Inr w"
    and write_append: "dw_write W (a @ b) w = bindE (dw_write W a w) (dw_write W b)"
    and write_tensor: "ggml_backend_tensor_get t offset n = Inr bs \<Longrightarrow> dw_tensor W t offset n w = dw_write W bs w"
    and write_size: "dw_write W bs w = Inr w' \<Longrightarrow> dw_size W w' = dw_size W w + length bs"
begin

lemma stores_write: "stores W (dw_write W bs) bs"
  by (simp add: stores_def)

lemma stores_nil: "stores W Inr []"
  by (simp add: stores_def write_nil)

lemma stores_bind: "stores W f a \<Longrightarrow> stores W g b \<Longrightarrow> stores W (\<lambda>w. bindE (f w) g) (a @ b)"
  by (simp add: stores_def write_append bindE_def split: sum.split)

lemma stores_fold: "(\<And>x. x \<in> set xs \<Longrightarrow> stores W (f x) (g x)) \<Longrightarrow> stores W (foldE f xs) (concat (map g xs))"
proof (induction xs)
  case Nil
  then show ?case by (simp add: stores_def write_nil)
next
  case (Cons x xs)
  then have "stores W (\<lambda>w. bindE (f x w) (foldE f xs)) (g x @ concat (map g xs))"
    by (intro stores_bind) auto
  then show ?case by (simp add: stores_def)
qed

lemma stores_tensor: "ggml_backend_tensor_get t offset n = Inr bs \<Longrightarrow> stores W (dw_tensor W t offset n) bs"
  by (simp add: stores_def write_tensor)

end

lemma tensor_get_length: "ggml_backend_tensor_get t offset n = Inr bs \<Longrightarrow> length bs = unat n"
  by (auto simp: ggml_backend_tensor_get_def split: if_splits)

interpretation dummy: data_writer llama_data_write_dummy
  by unfold_locales (auto simp: llama_data_write_dummy_def dest: tensor_get_length)

interpretation buffer: data_writer llama_data_write_buffer
  by unfold_locales
    (auto simp: llama_data_write_buffer_def buffer_write_def bindE_def dest: tensor_get_length split: if_splits)

interpretation diskfile: data_writer "llama_data_write_file disk" for disk
  by unfold_locales
    (auto simp: llama_data_write_file_def file_write_def write_raw_def bindE_def split: if_splits)

section \<open>Ranges\<close>

definition saved :: "kv_cache \<Rightarrow> int \<Rightarrow> nat list" where
  "saved cache seq_id = filter (\<lambda>i. saves seq_id (kcells cache ! i)) [0..<ksize cache]"

definition covers :: "nat \<Rightarrow> nat list \<Rightarrow> ranges \<Rightarrow> bool" where
  "covers n is rs \<longleftrightarrow> concat (map (\<lambda>(a, b). [a..<b]) rs) = is \<and> list_all (\<lambda>(a, b). a < b \<and> b \<le> n) rs"

lemma covers_sum: "covers n is rs \<Longrightarrow> sum_list (map (\<lambda>(a, b). b - a) rs) = length is"
  by (auto simp: covers_def length_concat comp_def intro!: arg_cong [where f = sum_list])

definition range_inv :: "kv_cache \<Rightarrow> int \<Rightarrow> nat \<Rightarrow> u32 \<times> nat \<times> ranges \<Rightarrow> bool" where
  "range_inv cache seq_id i = (\<lambda>(cell_count, beg, rs).
     let is = filter (\<lambda>i. saves seq_id (kcells cache ! i)) [0..<i] in
     cell_count = of_nat (length is) \<and>
     (if beg = ksize cache then covers (ksize cache) is rs
      else beg < i \<and> (\<exists>js. covers (ksize cache) js rs \<and> is = js @ [beg..<i])))"

lemma range_step_inv:
  assumes "range_inv cache seq_id i s" "i < ksize cache"
  shows "range_inv cache seq_id (Suc i) (range_step cache seq_id i s)"
proof -
  obtain cell_count beg rs where s: "s = (cell_count, beg, rs)" by (cases s)
  show ?thesis
  proof (cases "saves seq_id (kcells cache ! i)")
    case True
    then show ?thesis using assms by (auto simp: s range_inv_def range_step_def Let_def split: if_splits)
  next
    case False
    then show ?thesis using assms
      by (auto simp: s range_inv_def range_step_def Let_def covers_def)
  qed
qed

lemma cell_ranges_saved:
  assumes "cell_ranges cache seq_id = (cell_count, rs)"
  shows "cell_count = of_nat (length (saved cache seq_id)) \<and> covers (ksize cache) (saved cache seq_id) rs"
proof -
  have "range_inv cache seq_id n (fold (range_step cache seq_id) [0..<n] (0, ksize cache, []))" if "n \<le> ksize cache" for n
    using that
  proof (induction n)
    case 0
    then show ?case by (simp add: range_inv_def covers_def)
  next
    case (Suc n)
    then show ?case using range_step_inv [of cache seq_id n] by simp
  qed
  from this [of "ksize cache"] have "range_inv cache seq_id (ksize cache)
      (fold (range_step cache seq_id) [0..<ksize cache] (0, ksize cache, []))" by simp
  with assms show ?thesis
    by (auto simp: cell_ranges_def range_inv_def saved_def Let_def covers_def split: prod.splits if_splits)
qed

lemma covers_concat:
  assumes "covers n is rs" "\<And>a b. a < b \<Longrightarrow> b \<le> n \<Longrightarrow> h (a, b) = concat (map g [a..<b])"
  shows "concat (map h rs) = concat (map g is)"
proof -
  have "concat (map h rs) = concat (map (\<lambda>(a, b). concat (map g [a..<b])) rs)"
    using assms by (intro arg_cong [where f = concat] map_cong) (auto simp: covers_def list_all_iff)
  also have "\<dots> = concat (map g (concat (map (\<lambda>(a, b). [a..<b]) rs)))"
    by (induction rs) auto
  finally show ?thesis using assms(1) by (simp add: covers_def)
qed

section \<open>Rows of tensors\<close>

definition row_at :: "nat \<Rightarrow> kv_tensor \<Rightarrow> nat \<Rightarrow> byte list" where
  "row_at row t i = take row (drop (i * row) (kt_data t))"

lemma slice_rows:
  assumes "a \<le> b" "b * row \<le> length (kt_data t)"
  shows "take ((b - a) * row) (drop (a * row) (kt_data t)) = concat (map (row_at row t) [a..<b])"
  using assms
proof (induction b)
  case (Suc b)
  show ?case
  proof (cases "a = Suc b")
    case False
    with Suc.prems have "a \<le> b" by simp
    then have "(Suc b - a) * row = (b - a) * row + row" "(b - a) * row + a * row = b * row"
      by (simp add: Suc_diff_le, metis add_mult_distrib le_add_diff_inverse2)
    then have "take ((Suc b - a) * row) (drop (a * row) (kt_data t))
        = take ((b - a) * row) (drop (a * row) (kt_data t)) @ row_at row t b"
      by (simp only: take_add drop_drop row_at_def)
    then show ?thesis using Suc \<open>a \<le> b\<close> by simp
  qed simp
qed simp

lemma tensor_get_rows:
  fixes offset n :: u64
  assumes "a \<le> b" "b * row \<le> length (kt_data t)" "length (kt_data t) < 2 ^ 64"
    and "unat offset = a * row" "unat n = (b - a) * row"
  shows "ggml_backend_tensor_get t offset n = Inr (concat (map (row_at row t) [a..<b]))"
proof -
  have sum: "a * row + (b - a) * row = b * row" using assms(1) by (metis add_mult_distrib le_add_diff_inverse)
  then have "unat offset + unat n < 2 ^ 64" using assms by simp
  then have "unat (offset + n) = b * row" using sum assms(4,5) by (simp add: unat_word_ariths)
  then show ?thesis using assms sum slice_rows [OF assms(1,2)] by (simp add: ggml_backend_tensor_get_def)
qed

lemma tensor_get_row_range:
  fixes row :: u64
  assumes "a < b" "b \<le> n" "n * unat row = length (kt_data t)" "length (kt_data t) < 2 ^ 64"
  shows "ggml_backend_tensor_get t (of_nat a * row) (of_nat (b - a) * row) = Inr (concat (map (row_at (unat row) t) [a..<b]))"
proof -
  have le: "b * unat row \<le> length (kt_data t)" using assms(2) unfolding assms(3) [symmetric] by simp
  have word: "unat (of_nat k * row) = k * unat row" if "k \<le> b" for k
  proof -
    have "k * unat row < 2 ^ 64" using order_trans [OF mult_le_mono1 [OF that, of "unat row"] le] assms(4) by linarith
    moreover have "of_nat k * row = of_nat (k * unat row)" by simp
    ultimately show ?thesis by (simp only: unat_of_nat len_of_numeral_defs) (simp add: take_bit_nat_eq_self)
  qed
  show ?thesis
    by (rule tensor_get_rows [OF _ le assms(4) word word]) (use assms(1) in auto)
qed

lemma unat_of_nat_less:
  "n < 2 ^ 32 \<Longrightarrow> unat (of_nat n :: u32) = n" "n < 2 ^ 64 \<Longrightarrow> unat (of_nat n :: u64) = n"
  by (simp_all add: unat_of_nat take_bit_nat_eq_self)

lemma unat_ucast_u64 [simp]: "unat (ucast (x :: u32) :: u64) = unat x"
  by (simp add: unsigned_ucast_eq take_bit_nat_eq_self unsigned_less order.strict_trans [OF unsigned_less])

lemma tensor_get_column:
  assumes "a < b" "b \<le> sz" "j < n" "n * sz * el = length (kt_data t)" "length (kt_data t) < 2 ^ 32" "el < 2 ^ 32"
  shows "ggml_backend_tensor_get t (ucast ((of_nat a + of_nat j * of_nat sz) * (of_nat el :: u32))) (of_nat (b - a) * ucast (of_nat el :: u32))
    = Inr (concat (map (\<lambda>i. row_at el t (j * sz + i)) [a..<b]))"
proof -
  have "j * sz + b \<le> Suc j * sz" using assms(2) by simp
  also have "\<dots> \<le> n * sz" using assms(3) by (intro mult_le_mono1) simp
  finally have le: "(j * sz + b) * el \<le> length (kt_data t)"
    unfolding assms(4) [symmetric] by (rule mult_le_mono1)
  have small: "k * el < 2 ^ 32" if "k \<le> j * sz + b" for k
    using order_trans [OF mult_le_mono1 [OF that, of el] le] assms(5) by linarith
  have off: "unat ((of_nat a + of_nat j * of_nat sz) * (of_nat el :: u32)) = (j * sz + a) * el"
  proof -
    have "(of_nat a + of_nat j * of_nat sz) * (of_nat el :: u32) = of_nat ((j * sz + a) * el)"
      by (simp add: algebra_simps)
    then show ?thesis using unat_of_nat_less(1) [OF small, of "j * sz + a"] assms(1) by simp
  qed
  have len: "unat (of_nat (b - a) * ucast (of_nat el :: u32) :: u64) = (b - a) * el"
  proof -
    have "ucast (of_nat el :: u32) = (of_nat el :: u64)"
      unfolding word_unat_eq_iff unat_ucast_u64 using unat_of_nat_less [of el] assms(6) by simp
    then have "of_nat (b - a) * ucast (of_nat el :: u32) = (of_nat ((b - a) * el) :: u64)" by simp
    moreover have "(b - a) * el < 2 ^ 64" using order.strict_trans2 [OF small [of "b - a"], of "2 ^ 64"] by simp
    ultimately show ?thesis by (simp only: unat_of_nat_less(2))
  qed
  have "ggml_backend_tensor_get t (ucast ((of_nat a + of_nat j * of_nat sz) * (of_nat el :: u32))) (of_nat (b - a) * ucast (of_nat el :: u32))
      = Inr (concat (map (row_at el t) [j * sz + a..<j * sz + b]))"
    by (rule tensor_get_rows [OF _ le]) (use assms(1,5) off len in auto)
  also have "map (row_at el t) [j * sz + a..<j * sz + b] = map (\<lambda>i. row_at el t (j * sz + i)) [a..<b]"
    by (rule nth_equalityI) (use assms(1) in \<open>auto simp: add.assoc\<close>)
  finally show ?thesis .
qed

section \<open>The image of a state\<close>

definition string_image :: "byte list \<Rightarrow> byte list" where
  "string_image s = le_bytes 4 (length s) @ s"

definition outputs_image :: "state_ctx \<Rightarrow> byte list" where
  "outputs_image c =
    (case compact_ids (n_outputs (st_ctx c)) (n_batch (st_params c)) (output_ids (st_ctx c)) of
       Inl _ \<Rightarrow> [] | Inr ps \<Rightarrow> le_bytes 4 (n_outputs (st_ctx c)) @ concat (map (le_bytes 4) ps))"

text \<open>The floats of the rows in use, of a buffer that may be absent.\<close>

definition used_floats :: "nat \<Rightarrow> nat \<Rightarrow> u32 list option list option \<Rightarrow> u32 list" where
  "used_floats n width rows = (case rows of None \<Rightarrow> [] | Some rs \<Rightarrow> take (n * width) (flat_rows width rs))"

definition floats_image :: "u32 list \<Rightarrow> byte list" where
  "floats_image fs = le_bytes 8 (length fs) @ float_bytes fs"

definition cell_image :: "int \<Rightarrow> kv_cell \<Rightarrow> byte list" where
  "cell_image seq_id cell = i32_bytes (cpos cell) @ le_bytes 4 (length (cell_seqs seq_id cell))
     @ concat (map i32_bytes (cell_seqs seq_id cell))"

definition rows_image :: "u32 \<Rightarrow> kv_tensor \<Rightarrow> nat list \<Rightarrow> byte list" where
  "rows_image width t is =
    (let row = unat (ggml_row_size (kt_type t) (ucast width)) in
     le_bytes 4 (kt_type t) @ le_bytes 8 row @ concat (map (row_at row t) is))"

definition columns_image :: "nat \<Rightarrow> u32 \<Rightarrow> kv_tensor \<Rightarrow> nat list \<Rightarrow> byte list" where
  "columns_image sz width t is =
    (let el = ggml_type_size (kt_type t) in
     le_bytes 4 (kt_type t) @ le_bytes 4 el @ le_bytes 4 (unat width)
       @ concat (map (\<lambda>j. concat (map (\<lambda>i. row_at el t (j * sz + i)) is)) [0..<unat width]))"

text \<open>The widths of the layers that exist.\<close>

definition width_of :: "(nat \<Rightarrow> u32 res) \<Rightarrow> nat \<Rightarrow> u32" where
  "width_of f il = (case f il of Inl _ \<Rightarrow> 0 | Inr n \<Rightarrow> n)"

definition cells_image :: "state_ctx \<Rightarrow> nat list \<Rightarrow> byte list" where
  "cells_image c is =
    (let hp = st_hparams c; layers = [0..<hp_n_layer hp];
         k = (\<lambda>il. width_of (k_width hp) il); v = (\<lambda>il. width_of (v_width hp) il)
     in le_bytes 4 (if st_v_trans c then 1 else 0) @ le_bytes 4 (hp_n_layer hp)
       @ concat (map (\<lambda>il. rows_image (k il) (st_k c ! il) is) layers)
       @ (if st_v_trans c then concat (map (\<lambda>il. columns_image (ksize (st_kv c)) (v il) (st_v c ! il) is) layers)
          else concat (map (\<lambda>il. rows_image (v il) (st_v c ! il) is) layers)))"

definition cache_image :: "state_ctx \<Rightarrow> int \<Rightarrow> byte list" where
  "cache_image c seq_id =
    (let is = saved (st_kv c) seq_id in
     le_bytes 4 (length is) @ concat (map (\<lambda>i. cell_image seq_id (kcells (st_kv c) ! i)) is) @ cells_image c is)"

definition arch_text :: "state_ctx \<Rightarrow> byte list" where
  "arch_text c = (case table_at LLM_ARCH_NAMES (st_arch c) of Inl _ \<Rightarrow> [] | Inr s \<Rightarrow> bytes s)"

definition state_image :: "state_ctx \<Rightarrow> byte list" where
  "state_image c = string_image (arch_text c) @ string_image (rng_text (st_rng c)) @ outputs_image c
     @ floats_image (used_floats (n_outputs (st_ctx c)) (n_vocab (st_params c)) (logits (st_ctx c)))
     @ floats_image (used_floats (n_outputs (st_ctx c)) (n_embd (st_params c)) (embd (st_ctx c)))
     @ cache_image c (-1)"

section \<open>Well-formed states\<close>

text \<open>
  The tensors have a row for each cell; a transposed one must be smaller than \<open>2^32\<close> bytes, since its offsets are
  computed in 32 bits.
\<close>

definition rows_ok :: "nat \<Rightarrow> u32 \<Rightarrow> kv_tensor \<Rightarrow> bool" where
  "rows_ok sz width t \<longleftrightarrow> kt_type t < 2 ^ 31 \<and> length (kt_data t) < 2 ^ 64
     \<and> sz * unat (ggml_row_size (kt_type t) (ucast width)) = length (kt_data t)"

definition columns_ok :: "nat \<Rightarrow> u32 \<Rightarrow> kv_tensor \<Rightarrow> bool" where
  "columns_ok sz width t \<longleftrightarrow> kt_type t < 2 ^ 31 \<and> ggml_type_size (kt_type t) < 2 ^ 32
     \<and> length (kt_data t) < 2 ^ 32 \<and> unat width * sz * ggml_type_size (kt_type t) = length (kt_data t)"

definition layers_ok :: "state_ctx \<Rightarrow> bool" where
  "layers_ok c \<longleftrightarrow> (let hp = st_hparams c; n = hp_n_layer hp; sz = ksize (st_kv c) in
     n < 2 ^ 32 \<and> length (st_k c) = n \<and> length (st_v c) = n
     \<and> (\<forall>il<n. rows_ok sz (width_of (k_width hp) il) (st_k c ! il)
          \<and> (if st_v_trans c then columns_ok else rows_ok) sz (width_of (v_width hp) il) (st_v c ! il)))"

text \<open>A buffer as \<open>llama_output_reserve\<close> sets it up: \<open>n\<close> rows, or none.\<close>

definition buffer_ok :: "nat \<Rightarrow> nat \<Rightarrow> nat \<Rightarrow> u32 list option list option \<Rightarrow> bool" where
  "buffer_ok n width sz rows \<longleftrightarrow>
    (case rows of None \<Rightarrow> sz = 0
     | Some rs \<Rightarrow> sz = width * n \<and> length rs = n \<and> list_all (\<lambda>r. \<forall>fs. r = Some fs \<longrightarrow> length fs = width) rs)"

definition outputs_ok :: "state_ctx \<Rightarrow> bool" where
  "outputs_ok c \<longleftrightarrow> (let lctx = st_ctx c; p = st_params c; n = n_outputs lctx in
     n \<le> output_size lctx \<and> n < 2 ^ 31 \<and> output_size lctx * n_vocab p < 2 ^ 62 \<and> output_size lctx * n_embd p < 2 ^ 62
     \<and> n_batch p < 2 ^ 31 \<and> length (output_ids lctx) = n_batch p
     \<and> list_all (\<lambda>k. k < int n) (output_ids lctx)
     \<and> (\<forall>k<n. \<exists>!i. i < n_batch p \<and> output_ids lctx ! i = int k)
     \<and> buffer_ok (output_size lctx) (n_vocab p) (logits_size lctx) (logits lctx)
     \<and> buffer_ok (output_size lctx) (n_embd p) (embd_size lctx) (embd lctx))"

definition saveable :: "state_ctx \<Rightarrow> bool" where
  "saveable c \<longleftrightarrow> kv_inv (st_kv c) \<and> layers_ok c \<and> outputs_ok c \<and> length (st_rng c) = MT_STATE_SIZE"

section \<open>Every writer receives the image\<close>

lemma width_of_k: "il < hp_n_layer hp \<Longrightarrow> k_width hp il = Inr (width_of (k_width hp) il)"
  by (simp add: width_of_def k_width_def n_embd_k_gqa_def n_head_kv_def)

lemma width_of_v: "il < hp_n_layer hp \<Longrightarrow> v_width hp il = Inr (width_of (v_width hp) il)"
  by (simp add: width_of_def v_width_def n_embd_v_gqa_def n_head_kv_def)

lemma flat_rows_length:
  assumes "list_all (\<lambda>r. \<forall>fs. r = Some fs \<longrightarrow> length fs = width) rs"
  shows "length (flat_rows width rs) = length rs * width"
  using assms unfolding flat_rows_def by (induction rs) (auto split: option.splits)

lemma le_bytes_length [simp]: "length (le_bytes k n) = k"
  by (induction k arbitrary: n) auto

context data_writer
begin

lemma string_writes:
  assumes "length s < 2 ^ 32"
  shows "stores W (write_string W s) (string_image s)"
proof -
  have "unat (of_nat (length s) :: u32) = length s" using assms by (simp add: unat_of_nat_u32)
  then show ?thesis
    using stores_bind [OF stores_write stores_write, of "le_bytes 4 (length s)" s]
    by (simp add: stores_def write_string_def string_image_def Let_def)
qed

lemma model_info_writes:
  assumes "length (arch_text c) < 2 ^ 32"
  shows "stores W (write_model_info W c) (string_image (arch_text c))"
proof -
  obtain s where s: "table_at LLM_ARCH_NAMES (st_arch c) = Inr s"
    using arch_name_exists [of "st_arch c"] by (auto simp: table_at_def)
  then show ?thesis using string_writes [OF assms] by (simp add: stores_def write_model_info_def arch_text_def)
qed

lemma output_ids_writes:
  assumes "compact_ids (n_outputs (st_ctx c)) (n_batch (st_params c)) (output_ids (st_ctx c)) = Inr ps"
    and "length ps = n_outputs (st_ctx c)" "n_outputs (st_ctx c) \<le> output_size (st_ctx c)"
  shows "stores W (write_output_ids W c) (outputs_image c)"
proof (cases "n_outputs (st_ctx c) = 0")
  case True
  then show ?thesis using assms stores_write [of "le_bytes 4 0"]
    by (simp add: stores_def write_output_ids_def outputs_image_def Let_def bindE_Inr_right)
next
  case False
  then show ?thesis
    using assms stores_bind [OF stores_write stores_write, of "le_bytes 4 (n_outputs (st_ctx c))" "concat (map (le_bytes 4) ps)"]
    by (simp add: stores_def write_output_ids_def outputs_image_def Let_def)
qed

lemma floats_writes:
  assumes "buffer_ok m width sz rows" "n \<le> m"
  shows "stores W (write_floats W (min sz (n * width)) width rows) (floats_image (used_floats n width rows))"
proof (cases rows)
  case None
  then show ?thesis using assms
    by (simp add: stores_def write_floats_def buffer_ok_def used_floats_def floats_image_def float_bytes_def bindE_Inr_right)
next
  case (Some rs)
  then have len: "length (flat_rows width rs) = sz" "n * width \<le> sz"
    using assms flat_rows_length [of width rs] by (auto simp: buffer_ok_def mult.commute)
  have min: "min sz (n * width) = n * width" using len(2) by simp
  show ?thesis
  proof (cases "n * width = 0")
    case True
    then show ?thesis
      unfolding min using Some
      by (auto simp: stores_def write_floats_def used_floats_def floats_image_def float_bytes_def bindE_Inr_right)
  next
    case False
    then show ?thesis
      unfolding min
      using Some len stores_bind [OF stores_write stores_write, of "le_bytes 8 (n * width)" "float_bytes (take (n * width) (flat_rows width rs))"]
      by (simp add: stores_def write_floats_def used_floats_def floats_image_def)
  qed
qed

lemma cell_writes:
  assumes "finite (cseq cell)"
  shows "stores W (write_cell W seq_id cell) (cell_image seq_id cell)"
proof -
  have seqs: "stores W (foldE (\<lambda>s. dw_write W (i32_bytes s)) xs) (concat (map i32_bytes xs))" for xs
    by (rule stores_fold) (rule stores_write)
  have len: "length (cell_seqs seq_id cell) = (if seq_id = -1 then card (cseq cell) else 0)"
    using assms by (simp add: cell_seqs_def)
  have "stores W (\<lambda>w. bindE (dw_write W (i32_bytes (cpos cell)) w) (\<lambda>w. bindE (dw_write W (le_bytes 4 (length (cell_seqs seq_id cell))) w)
      (foldE (\<lambda>s. dw_write W (i32_bytes s)) (cell_seqs seq_id cell)))) (cell_image seq_id cell)"
    unfolding cell_image_def by (intro stores_bind stores_write seqs)
  moreover have "(\<lambda>w. if length (cell_seqs seq_id cell) = 0 then Inr w
      else foldE (\<lambda>s. dw_write W (i32_bytes s)) (cell_seqs seq_id cell) w) = foldE (\<lambda>s. dw_write W (i32_bytes s)) (cell_seqs seq_id cell)"
    by (cases "cell_seqs seq_id cell") auto
  ultimately show ?thesis
    unfolding stores_def write_cell_def Let_def len [symmetric] by simp
qed

lemma meta_writes:
  assumes "covers n is rs" "\<And>i. i < n \<Longrightarrow> finite (cseq (kcells cache ! i))"
  shows "stores W (write_kv_cache_meta W cache rs seq_id) (concat (map (\<lambda>i. cell_image seq_id (kcells cache ! i)) is))"
proof -
  have "stores W (foldE (\<lambda>i. write_cell W seq_id (kcells cache ! i)) [a..<b])
      (concat (map (\<lambda>i. cell_image seq_id (kcells cache ! i)) [a..<b]))" if "b \<le> n" for a b
    using that assms(2) by (intro stores_fold cell_writes) auto
  then have "stores W (write_kv_cache_meta W cache rs seq_id)
      (concat (map (\<lambda>(a, b). concat (map (\<lambda>i. cell_image seq_id (kcells cache ! i)) [a..<b])) rs))"
    unfolding write_kv_cache_meta_def using assms(1)
    by (intro stores_fold) (auto simp: covers_def list_all_iff)
  then show ?thesis by (subst (asm) covers_concat [OF assms(1)]) auto
qed

lemma row_ranges_writes:
  assumes "covers n is rs" "n * unat row = length (kt_data t)" "length (kt_data t) < 2 ^ 64"
  shows "stores W (write_row_ranges W t row rs) (concat (map (row_at (unat row) t) is))"
proof -
  have "stores W (dw_tensor W t (of_nat a * row) (of_nat (b - a) * row)) (concat (map (row_at (unat row) t) [a..<b]))"
    if "a < b" "b \<le> n" for a b
    using tensor_get_row_range [OF that assms(2,3)] by (rule stores_tensor)
  then have "stores W (write_row_ranges W t row rs)
      (concat (map (\<lambda>(a, b). concat (map (row_at (unat row) t) [a..<b])) rs))"
    unfolding write_row_ranges_def using assms(1)
    by (intro stores_fold) (auto simp: covers_def list_all_iff)
  then show ?thesis by (subst (asm) covers_concat [OF assms(1)]) auto
qed

lemma rows_writes:
  assumes "covers n is rs" "f il = Inr (width_of f il)" "il < length ts" "rows_ok n (width_of f il) (ts ! il)"
  shows "stores W (write_tensor_rows W f ts rs il) (rows_image (width_of f il) (ts ! il) is)"
proof -
  let ?row = "ggml_row_size (kt_type (ts ! il)) (ucast (width_of f il))"
  have "stores W (\<lambda>w. bindE (dw_write W (le_bytes 4 (kt_type (ts ! il))) w) (\<lambda>w.
      bindE (dw_write W (le_bytes 8 (unat ?row)) w) (write_row_ranges W (ts ! il) ?row rs)))
    (rows_image (width_of f il) (ts ! il) is)"
    using assms(4) unfolding rows_image_def Let_def rows_ok_def
    by (intro stores_bind stores_write row_ranges_writes [OF assms(1)]) auto
  then show ?thesis using assms(2,3) by (simp add: stores_def write_tensor_rows_def tensor_at_def Let_def)
qed

lemma columns_writes:
  assumes "covers sz is rs" "f il = Inr (width_of f il)" "il < length ts" "columns_ok sz (width_of f il) (ts ! il)"
  shows "stores W (write_columns W (of_nat sz) f ts rs il) (columns_image sz (width_of f il) (ts ! il) is)"
proof -
  let ?t = "ts ! il" and ?n = "unat (width_of f il)"
  let ?el = "ggml_type_size (kt_type ?t)"
  have el: "unat (of_nat ?el :: u32) = ?el" using assms(4) by (simp add: columns_ok_def unat_of_nat_less)
  have col: "stores W (foldE (\<lambda>(a, b). dw_tensor W ?t (ucast ((of_nat a + of_nat j * of_nat sz) * (of_nat ?el :: u32)))
        (of_nat (b - a) * ucast (of_nat ?el :: u32))) rs) (concat (map (\<lambda>i. row_at ?el ?t (j * sz + i)) is))"
    if "j < ?n" for j
  proof -
    have "stores W (dw_tensor W ?t (ucast ((of_nat a + of_nat j * of_nat sz) * (of_nat ?el :: u32)))
        (of_nat (b - a) * ucast (of_nat ?el :: u32))) (concat (map (\<lambda>i. row_at ?el ?t (j * sz + i)) [a..<b]))"
      if "a < b" "b \<le> sz" for a b
      using tensor_get_column [OF that \<open>j < ?n\<close>] assms(4) unfolding columns_ok_def by (intro stores_tensor) blast
    then have "stores W (foldE (\<lambda>(a, b). dw_tensor W ?t (ucast ((of_nat a + of_nat j * of_nat sz) * (of_nat ?el :: u32)))
        (of_nat (b - a) * ucast (of_nat ?el :: u32))) rs)
        (concat (map (\<lambda>(a, b). concat (map (\<lambda>i. row_at ?el ?t (j * sz + i)) [a..<b])) rs))"
      using assms(1) by (intro stores_fold) (auto simp: covers_def list_all_iff)
    then show ?thesis by (subst (asm) covers_concat [OF assms(1)]) auto
  qed
  have "stores W (\<lambda>w. bindE (dw_write W (le_bytes 4 (kt_type ?t)) w) (\<lambda>w. bindE (dw_write W (le_bytes 4 ?el) w)
      (\<lambda>w. bindE (dw_write W (le_bytes 4 ?n) w) (foldE (\<lambda>j. foldE (\<lambda>(a, b). dw_tensor W ?t
        (ucast ((of_nat a + of_nat j * of_nat sz) * (of_nat ?el :: u32))) (of_nat (b - a) * ucast (of_nat ?el :: u32))) rs) [0..<?n]))))
    (columns_image sz (width_of f il) ?t is)"
    unfolding columns_image_def Let_def by (intro stores_bind stores_write stores_fold col) auto
  then show ?thesis using assms(2,3) el by (simp add: stores_def write_columns_def tensor_at_def Let_def)
qed

lemma data_writes:
  assumes "covers (ksize (st_kv c)) is rs" "layers_ok c"
  shows "stores W (write_kv_cache_data W c rs) (cells_image c is)"
proof -
  let ?hp = "st_hparams c" and ?layers = "[0..<hp_n_layer (st_hparams c)]" and ?sz = "ksize (st_kv c)"
  have k: "stores W (foldE (write_tensor_rows W (k_width ?hp) (st_k c) rs) ?layers)
      (concat (map (\<lambda>il. rows_image (width_of (k_width ?hp) il) (st_k c ! il) is) ?layers))"
    using assms(2) by (intro stores_fold rows_writes [OF assms(1)]) (auto simp: layers_ok_def Let_def width_of_k)
  have v: "stores W (if \<not> st_v_trans c then foldE (write_tensor_rows W (v_width ?hp) (st_v c) rs) ?layers
        else foldE (write_columns W (of_nat ?sz) (v_width ?hp) (st_v c) rs) ?layers)
      (if st_v_trans c then concat (map (\<lambda>il. columns_image ?sz (width_of (v_width ?hp) il) (st_v c ! il) is) ?layers)
       else concat (map (\<lambda>il. rows_image (width_of (v_width ?hp) il) (st_v c ! il) is) ?layers))"
  proof (cases "st_v_trans c")
    case True
    then have "stores W (foldE (write_columns W (of_nat ?sz) (v_width ?hp) (st_v c) rs) ?layers)
        (concat (map (\<lambda>il. columns_image ?sz (width_of (v_width ?hp) il) (st_v c ! il) is) ?layers))"
      using assms(2) by (intro stores_fold columns_writes [OF assms(1)]) (auto simp: layers_ok_def Let_def width_of_v)
    with True show ?thesis by simp
  next
    case False
    then have "stores W (foldE (write_tensor_rows W (v_width ?hp) (st_v c) rs) ?layers)
        (concat (map (\<lambda>il. rows_image (width_of (v_width ?hp) il) (st_v c ! il) is) ?layers))"
      using assms(2) by (intro stores_fold rows_writes [OF assms(1)]) (auto simp: layers_ok_def Let_def width_of_v)
    with False show ?thesis by simp
  qed
  have "stores W (\<lambda>w. bindE (dw_write W (le_bytes 4 (if st_v_trans c then 1 else 0)) w) (\<lambda>w.
      bindE (dw_write W (le_bytes 4 (hp_n_layer ?hp)) w) (\<lambda>w.
      bindE (foldE (write_tensor_rows W (k_width ?hp) (st_k c) rs) ?layers w)
        (if \<not> st_v_trans c then foldE (write_tensor_rows W (v_width ?hp) (st_v c) rs) ?layers
         else foldE (write_columns W (of_nat ?sz) (v_width ?hp) (st_v c) rs) ?layers))))
    (cells_image c is)"
    unfolding cells_image_def Let_def by (intro stores_bind stores_write k v)
  then show ?thesis
    unfolding stores_def write_kv_cache_data_def Let_def by (cases "st_v_trans c") simp_all
qed

lemma kv_writes:
  assumes "kv_inv (st_kv c)" "layers_ok c"
  shows "stores W (write_kv_cache W c seq_id) (cache_image c seq_id)"
proof -
  let ?is = "saved (st_kv c) seq_id"
  obtain cell_count rs where cr: "cell_ranges (st_kv c) seq_id = (cell_count, rs)" by (cases "cell_ranges (st_kv c) seq_id")
  from cell_ranges_saved [OF cr] have cov: "cell_count = of_nat (length ?is)" "covers (ksize (st_kv c)) ?is rs" by auto
  have "length ?is \<le> ksize (st_kv c)" unfolding saved_def by (metis length_filter_le length_upt minus_nat.diff_0)
  then have n: "unat (of_nat (length ?is) :: u32) = length ?is"
    using assms(1) by (simp add: kv_inv_def unat_of_nat_less)
  have "finite (cseq (kcells (st_kv c) ! i))" if "i < ksize (st_kv c)" for i
    using assms(1) that by (auto simp: kv_inv_def list_all_length cell_ok_def)
  then have "stores W (\<lambda>w. bindE (dw_write W (le_bytes 4 (length ?is)) w) (\<lambda>w.
      bindE (write_kv_cache_meta W (st_kv c) rs seq_id w) (write_kv_cache_data W c rs))) (cache_image c seq_id)"
    unfolding cache_image_def Let_def
    by (intro stores_bind stores_write meta_writes [OF cov(2)] data_writes [OF cov(2) assms(2)]) auto
  then show ?thesis using covers_sum [OF cov(2)] cov(1) n by (simp add: stores_def write_kv_cache_def cr)
qed

end

section \<open>The whole state\<close>

lemma compact_ids_ok:
  assumes "length ids = batch" "list_all (\<lambda>k. k < int n) ids" "\<And>k. k < n \<Longrightarrow> \<exists>!i. i < batch \<and> ids ! i = int k"
  shows "\<exists>ps. compact_ids n batch ids = Inr ps \<and> length ps = n \<and> (\<forall>k<n. ps ! k < batch \<and> ids ! (ps ! k) = int k)"
proof -
  let ?f = "\<lambda>i output_pos. if i \<ge> length ids then Inl (UndefinedBehaviour ''output_ids[i]'')
      else let pos = ids ! i in
        if pos < 0 then Inr output_pos
        else if nat pos \<ge> n then Inl (Abort ''(uint32_t) pos < n_outputs'')
        else Inr (output_pos[nat pos := i])"
  have "\<exists>ps. foldE ?f [0..<m] (replicate n 0) = Inr ps \<and> length ps = n
      \<and> (\<forall>i<m. 0 \<le> ids ! i \<longrightarrow> ps ! nat (ids ! i) = i)" if "m \<le> batch" for m
    using that
  proof (induction m)
    case (Suc m)
    then obtain ps where ps: "foldE ?f [0..<m] (replicate n 0) = Inr ps" "length ps = n"
      "\<forall>i<m. 0 \<le> ids ! i \<longrightarrow> ps ! nat (ids ! i) = i" by auto
    have m: "m < length ids" "ids ! m < int n" using Suc.prems assms(1,2) by (auto simp: list_all_length)
    have neq: "ids ! i \<noteq> ids ! m" if "i < m" "0 \<le> ids ! m" for i
    proof
      assume "ids ! i = ids ! m"
      moreover have "\<exists>!i. i < batch \<and> ids ! i = int (nat (ids ! m))"
        by (rule assms(3)) (use that(2) m(2) in simp)
      ultimately show False using that Suc.prems by (metis int_nat_eq less_irrefl order.strict_trans2 Suc_le_lessD less_trans)
    qed
    then show ?case using ps m
      by (auto simp: foldE_append Let_def less_Suc_eq nth_list_update eq_nat_nat_iff) (metis neq not_less)
  qed simp
  from this [of batch] obtain ps where ps: "compact_ids n batch ids = Inr ps" "length ps = n"
    "\<forall>i<batch. 0 \<le> ids ! i \<longrightarrow> ps ! nat (ids ! i) = i" unfolding compact_ids_def by auto
  have "ps ! k < batch \<and> ids ! (ps ! k) = int k" if "k < n" for k
  proof -
    from assms(3) [OF that] obtain i where "i < batch" "ids ! i = int k" by blast
    with ps(3) show ?thesis by fastforce
  qed
  with ps show ?thesis by blast
qed

lemma to_string_short: "n < 2 ^ 32 \<Longrightarrow> length (to_string n) \<le> 10"
  using to_string_length [of n 9] by simp

lemma u32_less: "unat (x :: u32) < 2 ^ 32"
  using unsigned_less [of x, where ?'a = nat] by simp

lemma rng_text_length: "length (rng_text xs) \<le> 11 * length xs"
proof (induction xs rule: rng_text.induct)
  case (2 x)
  then show ?case using to_string_short [OF u32_less, of x] by simp
next
  case (3 x y xs)
  then show ?case using to_string_short [OF u32_less, of x] by (simp add: bytes_def)
qed simp

lemma arch_text_length: "length (arch_text c) < 2 ^ 32"
proof -
  have "list_all (\<lambda>(k, s). length s < 100) LLM_ARCH_NAMES" by (simp add: LLM_ARCH_NAMES_def)
  then show ?thesis
    by (auto simp: arch_text_def table_at_def list_all_iff bytes_def split: option.splits sum.splits
        dest!: map_of_SomeD)
qed

context data_writer
begin

lemma state_writes:
  assumes "saveable c"
  shows "llama_state_get_data_internal W c w = bindE (dw_write W (state_image c) w) (\<lambda>w. Inr (dw_size W w, w))"
proof -
  let ?l = "st_ctx c" and ?p = "st_params c"
  have outs: "outputs_ok c" using assms by (simp add: saveable_def)
  then obtain ps where ps: "compact_ids (n_outputs ?l) (n_batch ?p) (output_ids ?l) = Inr ps" "length ps = n_outputs ?l"
    using compact_ids_ok [of "output_ids ?l" "n_batch ?p" "n_outputs ?l"] by (auto simp: outputs_ok_def Let_def)
  have rng: "length (rng_text (st_rng c)) < 2 ^ 32"
    using rng_text_length [of "st_rng c"] assms by (simp add: saveable_def MT_STATE_SIZE_def)
  have "stores W (\<lambda>w. bindE (write_model_info W c w) (\<lambda>w. bindE (write_rng W (st_rng c) w) (\<lambda>w.
      bindE (write_output_ids W c w) (\<lambda>w. bindE (write_logits W c w) (\<lambda>w.
      bindE (write_embeddings W c w) (write_kv_cache W c (-1))))))) (state_image c)"
    unfolding state_image_def write_rng_def write_logits_def write_embeddings_def
    using outs assms
    by (intro stores_bind model_info_writes arch_text_length string_writes rng output_ids_writes [OF ps]
        floats_writes kv_writes) (auto simp: outputs_ok_def saveable_def Let_def)
  then have "bindE (write_model_info W c w) (\<lambda>w. bindE (write_rng W (st_rng c) w) (\<lambda>w.
      bindE (write_output_ids W c w) (\<lambda>w. bindE (write_logits W c w) (\<lambda>w.
      bindE (write_embeddings W c w) (write_kv_cache W c (-1)))))) = dw_write W (state_image c) w"
    by (simp add: stores_def)
  from this [symmetric] show ?thesis by (simp add: llama_state_get_data_internal_def bindE_assoc)
qed

lemma seq_writes:
  assumes "kv_inv (st_kv c)" "layers_ok c"
  shows "llama_state_seq_get_data_internal W c seq_id w = bindE (dw_write W (cache_image c seq_id) w) (\<lambda>w. Inr (dw_size W w, w))"
  using kv_writes [OF assms] by (simp add: llama_state_seq_get_data_internal_def stores_def)

end

lemma buffer_written:
  "write_to_buffer n (\<lambda>w. bindE (dw_write llama_data_write_buffer bs w) (\<lambda>w. Inr (dw_size llama_data_write_buffer w, w)))
    = Inr (if length bs \<le> n then (length bs, bs) else (0, []))"
  by (simp add: write_to_buffer_def llama_data_write_buffer_def buffer_write_def caught_def thrown_def)

text \<open>
  The size of a state is exactly the number of bytes that saving it writes: with a buffer of at least this
  size, saving succeeds and writes the image of the state; with a smaller one it returns 0. The same holds for
  the state of a sequence.
\<close>

lemma state_size_exact: "saveable c \<Longrightarrow> llama_state_get_size c = Inr (length (state_image c))"
  using dummy.state_writes [of c] by (simp add: llama_state_get_size_def llama_data_write_dummy_def caught_def)

lemma state_get_image:
  assumes "saveable c"
  shows "llama_state_get_data c n = Inr (if length (state_image c) \<le> n then (length (state_image c), state_image c) else (0, []))"
  unfolding llama_state_get_data_def ext [OF buffer.state_writes [OF assms]] by (rule buffer_written)

lemma seq_size_exact:
  "kv_inv (st_kv c) \<Longrightarrow> layers_ok c \<Longrightarrow> llama_state_seq_get_size c s = Inr (length (cache_image c s))"
  using dummy.seq_writes [of c] by (simp add: llama_state_seq_get_size_def llama_data_write_dummy_def)

lemma seq_get_image:
  assumes "kv_inv (st_kv c)" "layers_ok c"
  shows "llama_state_seq_get_data c n s = Inr (if length (cache_image c s) \<le> n then (length (cache_image c s), cache_image c s) else (0, []))"
  unfolding llama_state_seq_get_data_def ext [OF buffer.seq_writes [OF assms]] by (rule buffer_written)

end
