(* ===== verification/StateRestored.thy ===== *)
theory StateRestored
  imports StateSaved GgufCodec
begin

text \<open>
  Restoring a saved state: reading the image of a state gives a context with the same generator, the same
  outputs and the same cached cells with the same data, from memory as from a file.
\<close>

section \<open>Readers as an interface\<close>

lemma i32_of_bytes:
  assumes "- (2 ^ 31) \<le> i" "i < 2 ^ 31"
  shows "i32_of (i32_bytes i) = i"
proof -
  have "le_nat (i32_bytes i) = unat (of_int i :: u32)"
    unfolding i32_bytes_def le_nat_bytes using u32_less [of "of_int i"] by simp
  then have "i32_of (i32_bytes i) = sint (of_int i :: u32)" by (simp add: i32_of_def)
  also have "\<dots> = i" using assms by (simp add: sint_uint unsigned_of_int signed_take_bit_take_bit signed_take_bit_int_eq_self)
  finally show ?thesis .
qed

text \<open>
  \<open>m\<close> reads exactly the bytes \<open>bs\<close>, takes the context \<open>c\<close> to \<open>c'\<close> and returns \<open>x\<close>; where fewer bytes are
  left, it throws. \<open>src\<close> gives what is left.
\<close>

definition reads ::
  "'r data_read \<Rightarrow> ('r \<Rightarrow> byte list option) \<Rightarrow> ('r \<times> 'c, 'a) eff \<Rightarrow> byte list \<Rightarrow> 'c \<Rightarrow> 'a \<Rightarrow> 'c \<Rightarrow> bool" where
  "reads R src m bs c x c' \<longleftrightarrow>
     (\<forall>r rest. src r = Some (bs @ rest) \<longrightarrow>
        (\<exists>r'. m (r, c) = (Inr x, r', c') \<and> src r' = Some rest \<and> dr_size R r' = dr_size R r + length bs))
   \<and> (\<forall>r p q. src r = Some p \<longrightarrow> bs = p @ q \<longrightarrow> q \<noteq> [] \<longrightarrow> (\<exists>e s. m (r, c) = (Inl (RuntimeError e), s)))"

locale data_reader =
  fixes R :: "'r data_read" and src :: "'r \<Rightarrow> byte list option"
  assumes read_source: "src r = Some (bs @ rest) \<Longrightarrow>
      \<exists>r'. dr_read R (length bs) r = Inr (bs, r') \<and> src r' = Some rest \<and> dr_size R r' = dr_size R r + length bs"
    and read_short: "src r = Some p \<Longrightarrow> length p < n \<Longrightarrow> \<exists>e. dr_read R n r = Inl (RuntimeError e)"
begin

lemma reads_source:
  assumes "reads R src m bs c x c'" "src r = Some (bs @ rest)"
  shows "\<exists>r'. m (r, c) = (Inr x, r', c') \<and> src r' = Some rest \<and> dr_size R r' = dr_size R r + length bs"
  using assms by (simp add: reads_def)

lemma reads_truncated:
  assumes "reads R src m bs c x c'" "src r = Some p" "bs = p @ q" "q \<noteq> []"
  shows "\<exists>e s. m (r, c) = (Inl (RuntimeError e), s)"
  using assms unfolding reads_def by blast

lemma reads_readS: "length bs = n \<Longrightarrow> reads R src (readS R n) bs c bs c"
  by (auto simp: reads_def readS_def dest!: read_source dest: read_short [where n = n])

lemma reads_return: "reads R src (returnS x) [] c x c"
  by (simp add: reads_def returnS_def)

lemma reads_bind:
  assumes m: "reads R src m a c x c'" and f: "reads R src (f x) b c' y c''"
  shows "reads R src (bindS m f) (a @ b) c y c''"
  unfolding reads_def
proof (intro conjI allI impI)
  fix r rest assume "src r = Some ((a @ b) @ rest)"
  then have "src r = Some (a @ (b @ rest))" by simp
  with m obtain r1 where r1: "m (r, c) = (Inr x, r1, c')" "src r1 = Some (b @ rest)" "dr_size R r1 = dr_size R r + length a"
    unfolding reads_def by blast
  from f r1(2) obtain r2 where "f x (r1, c') = (Inr y, r2, c'')" "src r2 = Some rest" "dr_size R r2 = dr_size R r1 + length b"
    unfolding reads_def by blast
  with r1 show "\<exists>r'. bindS m f (r, c) = (Inr y, r', c'') \<and> src r' = Some rest \<and> dr_size R r' = dr_size R r + length (a @ b)"
    by (simp add: bindS_def)
next
  fix r p q assume p: "src r = Some p" "a @ b = p @ q" "q \<noteq> []"
  show "\<exists>e s. bindS m f (r, c) = (Inl (RuntimeError e), s)"
  proof (cases "length p < length a")
    case True
    with p(2) have "p = take (length p) a" by (metis append_eq_conv_conj less_imp_le_nat take_append take_all_iff append_Nil2 diff_is_0_eq take0)
    then have "a = p @ drop (length p) a" "drop (length p) a \<noteq> []"
      using True by (metis append_take_drop_id, simp)
    with p(1) m have "\<exists>e s. m (r, c) = (Inl (RuntimeError e), s)" unfolding reads_def by blast
    then show ?thesis by (auto simp: bindS_def)
  next
    case False
    then obtain u where u: "p = a @ u" "b = u @ q" using p(2) by (auto simp: append_eq_append_conv2)
    with p(1) m obtain r' where "m (r, c) = (Inr x, r', c')" "src r' = Some u" unfolding reads_def by blast
    moreover from this u(2) p(3) f have "\<exists>e s. f x (r', c') = (Inl (RuntimeError e), s)" unfolding reads_def by blast
    ultimately show ?thesis by (auto simp: bindS_def)
  qed
qed

lemma reads_num: "n < 256 ^ k \<Longrightarrow> reads R src (read_num R k) (le_bytes k n) c n c"
  using reads_bind [where f = "\<lambda>bs. returnS (le_nat bs)", OF reads_readS [of "le_bytes k n" k] reads_return]
  by (simp add: read_num_def le_nat_bytes)

lemma reads_i32: "- (2 ^ 31) \<le> i \<Longrightarrow> i < 2 ^ 31 \<Longrightarrow> reads R src (read_i32 R) (i32_bytes i) c i c"
  using reads_bind [where f = "\<lambda>bs. returnS (i32_of bs)", OF reads_readS [of "i32_bytes i" 4] reads_return]
  by (simp add: read_i32_def i32_of_bytes) (simp add: i32_bytes_def)

lemma reads_lift: "f c = Inr c' \<Longrightarrow> reads R src (liftS f) [] c () c'"
  by (simp add: reads_def liftS_def)

lemma reads_get: "reads R src getS [] c c c"
  by (simp add: reads_def getS_def)

lemma reads_check: "b \<Longrightarrow> reads R src (checkS b e) [] c () c"
  by (simp add: reads_def checkS_def returnS_def)

lemma reads_res: "x = Inr y \<Longrightarrow> reads R src (resS x) [] c y c"
  by (simp add: reads_def resS_def)

lemma reads_loop:
  assumes "\<And>x c. x \<in> set xs \<Longrightarrow> P c \<Longrightarrow> reads R src (f x) (g x) c True (h x c) \<and> P (h x c)" "P c"
  shows "reads R src (loopS f xs) (concat (map g xs)) c True (fold h xs c)"
  using assms
proof (induction xs arbitrary: c)
  case Nil
  then show ?case by (simp add: reads_return)
next
  case (Cons x xs)
  have step: "reads R src (f x) (g x) c True (h x c)" "P (h x c)" using Cons.prems by auto
  moreover have "reads R src (loopS f xs) (concat (map g xs)) (h x c) True (fold h xs (h x c))"
    using Cons.prems step(2) by (intro Cons.IH) auto
  ultimately show ?case using reads_bind [OF step(1), of "\<lambda>ok. if ok then loopS f xs else returnS False"] by simp
qed

end

text \<open>Both readers, with what is left to read; the size of a buffer is right here.\<close>

definition buffer_rest :: "read_buffer \<Rightarrow> byte list option" where
  "buffer_rest r = (if rb_buf_size r \<le> length (rb_mem r) then Some (take (rb_buf_size r) (rb_mem r)) else None)"

interpretation bufread: data_reader llama_data_read_buffer buffer_rest
proof
  fix r :: read_buffer and bs rest
  assume "buffer_rest r = Some (bs @ rest)"
  then have src: "take (rb_buf_size r) (rb_mem r) = bs @ rest" "rb_buf_size r \<le> length (rb_mem r)"
    by (auto simp: buffer_rest_def split: if_splits)
  let ?n = "length bs"
  have n: "?n \<le> length (rb_mem r)" "?n \<le> rb_buf_size r"
    using arg_cong [OF src(1), of length] src(2) by auto
  have "take ?n (rb_mem r) = take ?n (take (rb_buf_size r) (rb_mem r))" using n by (simp add: min_def)
  then have "take ?n (rb_mem r) = bs" unfolding src(1) by simp
  moreover have "take (rb_buf_size r - ?n) (drop ?n (rb_mem r)) = rest"
    using arg_cong [OF src(1), of "drop ?n"] by (simp add: drop_take)
  ultimately show "\<exists>r'. dr_read llama_data_read_buffer ?n r = Inr (bs, r')
      \<and> buffer_rest r' = Some rest \<and> dr_size llama_data_read_buffer r' = dr_size llama_data_read_buffer r + ?n"
    using n src(2) by (simp add: llama_data_read_buffer_def buffer_rest_def)
qed (auto simp: llama_data_read_buffer_def buffer_rest_def split: if_splits)

interpretation fileread: data_reader llama_data_read_file "\<lambda>r. Some (rf_rest r)"
  by unfold_locales (auto simp: llama_data_read_file_def read_raw_def)

section \<open>The generator\<close>

lemma is_dec_to_string: "b \<in> set (to_string n) \<Longrightarrow> is_dec b"
  using to_string_chars [of b n] by (simp add: is_dec_def)

lemma dec_not_space: "is_dec b \<Longrightarrow> \<not> stream_space b"
  by (auto simp: is_dec_def stream_space_def word_le_nat_alt)

lemma to_string_nonempty: "to_string n \<noteq> []"
  by (subst to_string.simps) simp

lemma take_digits:
  assumes "rest = [] \<or> \<not> is_dec (hd rest)"
  shows "takeWhile is_dec (to_string n @ rest) = to_string n" "dropWhile is_dec (to_string n @ rest) = rest"
  using assms is_dec_to_string by (cases rest; auto simp: takeWhile_append dropWhile_append)+

lemma rng_words_text: "rng_words (length xs) (rng_text xs) = Some xs"
proof -
  have step: "rng_words (Suc k) (sp @ to_string (unat x) @ rest) = map_option (Cons x) (rng_words k rest)"
    if "list_all stream_space sp" "rest = [] \<or> \<not> is_dec (hd rest)" for k sp rest and x :: u32
  proof -
    have "dropWhile stream_space (sp @ to_string (unat x) @ rest) = to_string (unat x) @ rest"
      using that(1) to_string_nonempty [of "unat x"] dec_not_space [OF is_dec_to_string, of _ "unat x"]
      by (cases "to_string (unat x)") (auto simp: dropWhile_append list_all_iff)
    then show ?thesis
      using take_digits [OF that(2)] to_string_nonempty number_of_to_string u32_less [of x] by simp
  qed
  have "rng_words (length xs) (sp @ rng_text xs) = Some xs" if "list_all stream_space sp" for sp
    using that
  proof (induction xs arbitrary: sp rule: rng_text.induct)
    case (2 x)
    then show ?case using step [of sp "[]" 0 x] by simp
  next
    case (3 x y xs)
    have sp: "list_all stream_space (bytes '' '')" "\<not> is_dec 32" by (simp_all add: bytes_def stream_space_def is_dec_def)
    have "rng_words (length (x # y # xs)) (sp @ rng_text (x # y # xs))
        = map_option (Cons x) (rng_words (length (y # xs)) (bytes '' '' @ rng_text (y # xs)))"
      using step [OF "3.prems", of "bytes '' '' @ rng_text (y # xs)" "length (y # xs)" x] sp by (simp add: bytes_def)
    then show ?case using "3.IH" [OF sp(1)] by simp
  qed simp
  from this [of "[]"] show ?thesis by simp
qed

context data_reader
begin

lemma reads_string: "length s < 2 ^ 32 \<Longrightarrow> reads R src (read_string R) (string_image s) c s c"
  unfolding read_string_def string_image_def by (rule reads_bind [OF reads_num reads_readS]) simp_all

lemma reads_bind0: "reads R src m [] c x c' \<Longrightarrow> reads R src (f x) b c' y c'' \<Longrightarrow> reads R src (bindS m f) b c y c''"
  using reads_bind [of m "[]"] by simp

lemma reads_bind1: "reads R src m a c x c' \<Longrightarrow> reads R src (f x) [] c' y c'' \<Longrightarrow> reads R src (bindS m f) a c y c''"
  using reads_bind [of m a c x c' f "[]"] by simp

lemma reads_model_info:
  assumes "arch_text src_c = arch_text c"
  shows "reads R src (read_model_info R) (string_image (arch_text src_c)) c () c"
proof -
  obtain s where s: "table_at LLM_ARCH_NAMES (st_arch c) = Inr s"
    using arch_name_exists [of "st_arch c"] by (auto simp: table_at_def)
  then have cur: "bytes s = arch_text c" by (simp add: arch_text_def)
  show ?thesis unfolding read_model_info_def
    by (rule reads_bind0 [OF reads_get])
      (use arch_text_length [of c] in \<open>auto simp: s cur assms intro!: reads_bind1 [OF reads_string] reads_check\<close>)
qed

lemma reads_rng:
  assumes "length rng = MT_STATE_SIZE"
  shows "reads R src (read_rng R) (string_image (rng_text rng)) c () (c\<lparr>st_rng := rng\<rparr>)"
proof -
  have "length (rng_text rng) < 2 ^ 32" using rng_text_length [of rng] assms by (simp add: MT_STATE_SIZE_def)
  then show ?thesis unfolding read_rng_def
    by (rule reads_bind1 [OF reads_string]) (simp add: rng_words_text assms [symmetric] reads_lift)
qed

end

section \<open>The outputs\<close>

lemma i32s_of_image:
  assumes "list_all (\<lambda>p. p < 2 ^ 31) ps"
  shows "i32s_of (length ps) (concat (map (le_bytes 4) ps)) = map int ps"
proof (rule nth_equalityI)
  fix i assume "i < length (i32s_of (length ps) (concat (map (le_bytes 4) ps)))"
  then have i: "i < length ps" by (simp add: i32s_of_def)
  have "take 4 (drop (4 * i) (concat (map (le_bytes 4) ps))) = le_bytes 4 (ps ! i)"
    using i
  proof (induction ps arbitrary: i)
    case (Cons p ps)
    then show ?case by (cases i) auto
  qed simp
  moreover have "i32_of (le_bytes 4 (ps ! i)) = int (ps ! i)"
  proof -
    have p: "ps ! i < 2 ^ 31" using assms i by (simp add: list_all_length)
    then have "unat (of_nat (ps ! i) :: u32) = ps ! i" by (intro unat_of_nat_less) simp
    with p show ?thesis by (simp add: i32_of_def le_nat_bytes sint_small)
  qed
  ultimately show "i32s_of (length ps) (concat (map (le_bytes 4) ps)) ! i = map int ps ! i"
    using i by (simp add: i32s_of_def)
qed (simp add: i32s_of_def)

lemma floats_of_bytes: "floats_of (length fs) (float_bytes fs) = fs"
proof (rule nth_equalityI)
  fix i assume "i < length (floats_of (length fs) (float_bytes fs))"
  then have i: "i < length fs" by (simp add: floats_of_def)
  have "take 4 (drop (4 * i) (float_bytes fs)) = le_bytes 4 (unat (fs ! i))"
    using i unfolding float_bytes_def
  proof (induction fs arbitrary: i)
    case (Cons p ps)
    then show ?case by (cases i) auto
  qed simp
  then show "floats_of (length fs) (float_bytes fs) ! i = fs ! i"
    using i u32_less [of "fs ! i"] by (simp add: floats_of_def le_nat_bytes)
qed (simp add: floats_of_def)

lemma float_bytes_length [simp]: "length (float_bytes fs) = length fs * 4"
  by (simp add: float_bytes_def length_concat comp_def sum_list_triv)

text \<open>The context after its outputs are replaced: those of \<open>s\<close>, a token without an output having -1.\<close>

definition fresh_rows :: "nat \<Rightarrow> bool \<Rightarrow> nat \<Rightarrow> u32 list \<Rightarrow> u32 list option list option" where
  "fresh_rows width present n fs =
    (if \<not> present then None
     else if fs = [] then Some (replicate n None) else Some (put_rows width fs (replicate n None)))"

lemma flat_fresh: "flat_rows width (replicate n None) = replicate (n * width) 0"
  by (induction n) (simp_all add: flat_rows_def replicate_add)

definition restored_ids :: "nat \<Rightarrow> nat list \<Rightarrow> int list \<Rightarrow> int list" where
  "restored_ids n ps ids = fold (\<lambda>i ids. ids[ps ! i := int i]) [0..<n] ids"

lemma restored_ids_correct:
  assumes "length ids = batch" "list_all (\<lambda>k. k < int n) ids" "\<And>k. k < n \<Longrightarrow> ps ! k < batch \<and> ids ! (ps ! k) = int k"
    and "\<And>k. k < n \<Longrightarrow> \<exists>!i. i < batch \<and> ids ! i = int k"
  shows "restored_ids n ps (replicate batch (-1)) = map (max (-1)) ids"
proof -
  have "length (restored_ids m ps (replicate batch (-1))) = batch
      \<and> (\<forall>i<batch. restored_ids m ps (replicate batch (-1)) ! i = (if 0 \<le> ids ! i \<and> ids ! i < int m then ids ! i else -1))"
    if "m \<le> n" for m
    using that
  proof (induction m)
    case 0
    then show ?case by (simp add: restored_ids_def)
  next
    case (Suc m)
    let ?r = "restored_ids m ps (replicate batch (-1))"
    have "restored_ids (Suc m) ps (replicate batch (-1)) = ?r[ps ! m := int m]" by (simp add: restored_ids_def)
    moreover have "i = ps ! m" if "i < batch" "ids ! i = int m" for i
      using assms(3,4) [of m] that Suc.prems by (metis Suc_le_lessD)
    then have "ids ! i < int (Suc m) \<longleftrightarrow> ids ! i < int m" if "i < batch" "i \<noteq> ps ! m" for i
      using that by fastforce
    moreover have "ps ! m < batch" "ids ! (ps ! m) = int m" using assms(3) [of m] Suc.prems by auto
    moreover have "length ?r = batch"
      "\<And>i. i < batch \<Longrightarrow> ?r ! i = (if 0 \<le> ids ! i \<and> ids ! i < int m then ids ! i else -1)" using Suc by auto
    ultimately show ?case by (simp only: length_list_update nth_list_update) auto
  qed
  from this [of n] show ?thesis using assms(1,2) by (intro nth_equalityI) (auto simp: list_all_length max_def)
qed

definition reserved :: "params \<Rightarrow> nat \<Rightarrow> (unit, u32 list) ctx \<Rightarrow> (unit, u32 list) ctx" where
  "reserved p n lctx = snd (llama_output_reserve (\<lambda>_. True) p lctx n)"

lemma reserved_fields:
  fixes p n lctx
  defines "m \<equiv> max n (n_seq_max p)"
  shows "llama_output_reserve (\<lambda>_. True) p lctx n = (m, reserved p n lctx)" "n \<le> m" "n_outputs (reserved p n lctx) = 0"
    "output_ids (reserved p n lctx) = replicate (if output_ids lctx = [] then n_batch p else length (output_ids lctx)) (-1)"
    "output_size (reserved p n lctx) = m" "kv (reserved p n lctx) = kv lctx"
    "logits_size (reserved p n lctx) = (if embeddings p then 0 else n_vocab p * m)"
    "embd_size (reserved p n lctx) = (if embeddings p \<and> pooling p = PoolNone then n_embd p * m else 0)"
    "logits (reserved p n lctx) = (if embeddings p then None else Some (replicate m None))"
    "embd (reserved p n lctx) = (if embeddings p \<and> pooling p = PoolNone then Some (replicate m None) else None)"
  by (simp_all add: reserved_def llama_output_reserve_def Let_def m_def map_replicate_const)

definition set_ids :: "int list \<Rightarrow> state_ctx \<Rightarrow> state_ctx" where
  "set_ids ids c = c\<lparr>st_ctx := (st_ctx c)\<lparr>output_ids := ids\<rparr>\<rparr>"

lemma set_output_id_ok:
  assumes "k < n_batch (st_params c)" "n_batch (st_params c) < 2 ^ 31" "length (output_ids (st_ctx c)) = n_batch (st_params c)"
  shows "set_output_id i (int k) c = Inr (set_ids ((output_ids (st_ctx c))[k := int i]) c)"
proof -
  have "unat (of_int (int k) :: u32) = k" using assms by (simp add: unat_of_nat_less)
  then show ?thesis using assms by (simp add: set_output_id_def set_ids_def)
qed

lemma fold_set_ids:
  "fold (\<lambda>i c. set_ids ((output_ids (st_ctx c))[ps ! i := int i]) c) xs c
   = set_ids (fold (\<lambda>i ids. ids[ps ! i := int i]) xs (output_ids (st_ctx c))) c"
  by (induction xs arbitrary: c) (simp_all add: set_ids_def)

definition with_outputs :: "state_ctx \<Rightarrow> state_ctx \<Rightarrow> state_ctx" where
  "with_outputs s c = c\<lparr>st_ctx := (reserved (st_params c) (n_outputs (st_ctx s)) (st_ctx c))
     \<lparr>output_ids := map (max (-1)) (output_ids (st_ctx s)), n_outputs := n_outputs (st_ctx s)\<rparr>\<rparr>"

lemma no_outputs_ids:
  assumes "list_all (\<lambda>k. k < 0) ids" shows "map (max (-1)) ids = replicate (length ids) (-1 :: int)"
  using assms by (intro nth_equalityI) (auto simp: list_all_length max_def)

context data_reader
begin

lemma reads_output_ids:
  assumes "outputs_ok s" "st_params c = st_params s"
    and "output_ids (st_ctx c) = [] \<or> length (output_ids (st_ctx c)) = n_batch (st_params c)"
  shows "reads R src (read_output_ids (\<lambda>_. True) R) (outputs_image s) c () (with_outputs s c)"
proof -
  let ?n = "n_outputs (st_ctx s)" and ?p = "st_params s" and ?ids = "output_ids (st_ctx s)"
  let ?c = "c\<lparr>st_ctx := reserved ?p ?n (st_ctx c)\<rparr>"
  note ok = assms(1) [unfolded outputs_ok_def Let_def]
  obtain ps where ps: "compact_ids ?n (n_batch ?p) ?ids = Inr ps" "length ps = ?n"
    "\<And>k. k < ?n \<Longrightarrow> ps ! k < n_batch ?p \<and> ?ids ! (ps ! k) = int k"
    using compact_ids_ok [of ?ids "n_batch ?p" ?n] ok by blast
  have len: "output_ids (st_ctx ?c) = replicate (n_batch ?p) (-1)"
    using assms(2,3) by (auto simp: reserved_fields)
  have reserve: "reads R src (reserve (\<lambda>_. True) ?n) [] c (max ?n (n_seq_max ?p)) ?c"
    using assms(2) by (simp add: reads_def reserve_def reserved_fields(1))
  have img: "outputs_image s = le_bytes 4 ?n @ concat (map (le_bytes 4) ps)" by (simp add: outputs_image_def ps(1))
  have small: "list_all (\<lambda>p. p < 2 ^ 31) ps" using ps(2,3) ok by (auto simp: list_all_length intro: less_trans)
  have rest: "reads R src (if ?n = 0 then returnS () else bindS (readS R (?n * 4)) (\<lambda>bs. let output_pos = i32s_of ?n bs in
      bindS (loopS (\<lambda>i. bindS (liftS (set_output_id i (output_pos ! i))) (\<lambda>_. returnS True)) [0..<nat (sint (of_nat ?n :: u32))])
       (\<lambda>_. liftS (\<lambda>c. Inr (c\<lparr>st_ctx := (st_ctx c)\<lparr>n_outputs := ?n\<rparr>\<rparr>)))))
    (concat (map (le_bytes 4) ps)) ?c () (with_outputs s c)"
  proof (cases "?n = 0")
    case True
    then have "list_all (\<lambda>k. k < 0) ?ids" using ok by simp
    then have "with_outputs s c = ?c"
      using no_outputs_ids [of ?ids] len ok True assms(2) by (simp add: with_outputs_def reserved_fields)
    with True ps(2) show ?thesis by (simp add: reads_return)
  next
    case False
    let ?h = "\<lambda>i c. set_ids ((output_ids (st_ctx c))[ps ! i := int i]) c"
    let ?P = "\<lambda>c :: state_ctx. st_params c = ?p \<and> length (output_ids (st_ctx c)) = n_batch ?p"
    have n: "nat (sint (of_nat ?n :: u32)) = ?n" using ok by (simp add: sint_small unat_of_nat_less)
    have "reads R src (loopS (\<lambda>i. bindS (liftS (set_output_id i (map int ps ! i))) (\<lambda>_. returnS True)) [0..<?n])
        (concat (map (\<lambda>i. []) [0..<?n])) ?c True (fold ?h [0..<?n] ?c)"
    proof (rule reads_loop [where P = ?P])
      show "?P ?c" using len assms(2) by simp
      fix i and c :: state_ctx assume "i \<in> set [0..<?n]" "?P c"
      with ps(2) ps(3) [of i] ok have "set_output_id i (map int ps ! i) c = Inr (?h i c)"
        by (simp add: set_output_id_ok)
      with \<open>?P c\<close> show "reads R src (bindS (liftS (set_output_id i (map int ps ! i))) (\<lambda>_. returnS True)) [] c True (?h i c) \<and> ?P (?h i c)"
        by (auto simp: set_ids_def intro: reads_bind0 [OF reads_lift reads_return])
    qed
    moreover have "fold ?h [0..<?n] ?c = set_ids (map (max (-1)) ?ids) ?c"
      unfolding fold_set_ids len restored_ids_def [symmetric]
      using restored_ids_correct [of ?ids "n_batch ?p" ?n ps] ps(3) ok by simp
    moreover have "(set_ids (map (max (-1)) ?ids) ?c)\<lparr>st_ctx := (st_ctx (set_ids (map (max (-1)) ?ids) ?c))\<lparr>n_outputs := ?n\<rparr>\<rparr>
        = with_outputs s c"
      using assms(2) by (simp add: set_ids_def with_outputs_def)
    ultimately have "reads R src (bindS (loopS (\<lambda>i. bindS (liftS (set_output_id i (map int ps ! i))) (\<lambda>_. returnS True)) [0..<?n])
        (\<lambda>_. liftS (\<lambda>c. Inr (c\<lparr>st_ctx := (st_ctx c)\<lparr>n_outputs := ?n\<rparr>\<rparr>)))) [] ?c () (with_outputs s c)"
      by (intro reads_bind0 [where x = True and c' = "set_ids (map (max (-1)) ?ids) ?c"] reads_lift) (simp_all add: map_replicate_const)
    moreover have "length (concat (map (le_bytes 4) ps)) = ?n * 4" using ps(2) by (simp add: length_concat comp_def sum_list_triv)
    ultimately show ?thesis
      using False n i32s_of_image [OF small] ps(2)
      by (auto intro!: reads_bind1 [OF reads_readS] simp: Let_def)
  qed
  show ?thesis
    unfolding read_output_ids_def img
    using ok by (intro reads_bind [OF reads_num] reads_bind0 [OF reserve] reads_bind0 [OF reads_check] rest) auto
qed

end

definition put_logits :: "u32 list \<Rightarrow> state_ctx \<Rightarrow> state_ctx" where
  "put_logits fs c = (if fs = [] then c else
     c\<lparr>st_ctx := (st_ctx c)\<lparr>logits := Some (put_rows (n_vocab (st_params c)) fs (the (logits (st_ctx c))))\<rparr>\<rparr>)"

definition put_embd :: "u32 list \<Rightarrow> state_ctx \<Rightarrow> state_ctx" where
  "put_embd fs c = (if fs = [] then c else
     c\<lparr>st_ctx := (st_ctx c)\<lparr>embd := Some (put_rows (n_embd (st_params c)) fs (the (embd (st_ctx c))))\<rparr>\<rparr>)"

text \<open>There is room for the floats.\<close>

definition fits :: "u32 list \<Rightarrow> nat \<Rightarrow> nat \<Rightarrow> u32 list option list option \<Rightarrow> bool" where
  "fits fs width sz rows \<longleftrightarrow> length fs \<le> sz \<and> length fs < 2 ^ 62
     \<and> (fs = [] \<or> (\<exists>rs. rows = Some rs \<and> length fs \<le> length (flat_rows width rs)))"

context data_reader
begin

lemma reads_logits:
  assumes "fits fs (n_vocab (st_params c)) (logits_size (st_ctx c)) (logits (st_ctx c))"
  shows "reads R src (read_logits R) (floats_image fs) c () (put_logits fs c)"
proof -
  have "reads R src (if length fs = 0 then returnS () else bindS (readS R (length fs * 4)) (\<lambda>bs.
        liftS (\<lambda>c. bindE (put_floats (n_vocab (st_params c)) (floats_of (length fs) bs) (logits (st_ctx c))) (\<lambda>rows.
          Inr (c\<lparr>st_ctx := (st_ctx c)\<lparr>logits := rows\<rparr>\<rparr>)))))
      (float_bytes fs) c () (put_logits fs c)"
  proof (cases "fs = []")
    case True
    then show ?thesis by (simp add: put_logits_def reads_return float_bytes_def)
  next
    case False
    with assms show ?thesis
      by (auto simp: fits_def put_floats_def put_logits_def floats_of_bytes intro!: reads_bind1 [OF reads_readS] reads_lift)
  qed
  then show ?thesis
    unfolding read_logits_def floats_image_def using assms
    by (intro reads_bind [OF reads_num] reads_bind0 [OF reads_get] reads_bind0 [OF reads_check]) (auto simp: fits_def)
qed

lemma reads_embeddings:
  assumes "fits fs (n_embd (st_params c)) (embd_size (st_ctx c)) (embd (st_ctx c))"
  shows "reads R src (read_embeddings R) (floats_image fs) c () (put_embd fs c)"
proof -
  have "reads R src (if length fs = 0 then returnS () else bindS (readS R (length fs * 4)) (\<lambda>bs.
        liftS (\<lambda>c. bindE (put_floats (n_embd (st_params c)) (floats_of (length fs) bs) (embd (st_ctx c))) (\<lambda>rows.
          Inr (c\<lparr>st_ctx := (st_ctx c)\<lparr>embd := rows\<rparr>\<rparr>)))))
      (float_bytes fs) c () (put_embd fs c)"
  proof (cases "fs = []")
    case True
    then show ?thesis by (simp add: put_embd_def reads_return float_bytes_def)
  next
    case False
    with assms show ?thesis
      by (auto simp: fits_def put_floats_def put_embd_def floats_of_bytes intro!: reads_bind1 [OF reads_readS] reads_lift)
  qed
  then show ?thesis
    unfolding read_embeddings_def floats_image_def using assms
    by (intro reads_bind [OF reads_num] reads_bind0 [OF reads_get] reads_bind0 [OF reads_check]) (auto simp: fits_def)
qed

end

section \<open>The cells\<close>

lemma set_kv_simps [simp]:
  "st_kv (set_kv k c) = k" "st_params (set_kv k c) = st_params c" "st_hparams (set_kv k c) = st_hparams c"
  "st_k (set_kv k c) = st_k c" "st_v (set_kv k c) = st_v c" "st_v_trans (set_kv k c) = st_v_trans c"
  "set_kv k (set_kv k' c) = set_kv k c"
  by (simp_all add: set_kv_def)

lemma clear_data_simps [simp]:
  "st_ctx (clear_data c) = st_ctx c" "st_params (clear_data c) = st_params c" "st_hparams (clear_data c) = st_hparams c"
  "st_v_trans (clear_data c) = st_v_trans c" "st_rng (clear_data c) = st_rng c" "st_arch (clear_data c) = st_arch c"
  by (simp_all add: clear_data_def)

lemma map_nth_image: "map (\<lambda>j. f (xs ! j)) [0..<length xs] = map f xs"
  by (rule nth_equalityI) simp_all

lemma nth_set: "(\<lambda>j. xs ! j) ` set [0..<length xs] = set xs"
  by (auto simp: in_set_conv_nth)

lemma set_cell_set_cell: "set_cell i f (set_cell i g c) = set_cell i (\<lambda>cell. f (g cell)) c"
  by (cases "i < length (kcells (st_kv c))") (simp_all add: set_cell_def list_update_beyond)

lemma set_cell_id: "set_cell i (\<lambda>cell. cell) c = c"
  by (simp add: set_cell_def set_kv_def)

lemma fold_insert_seqs:
  "fold (\<lambda>j. set_cell i (\<lambda>cell. cell\<lparr>cseq := insert (L j) (cseq cell)\<rparr>)) xs c
   = set_cell i (\<lambda>cell. cell\<lparr>cseq := cseq cell \<union> L ` set xs\<rparr>) c"
  by (induction xs arbitrary: c) (simp_all add: set_cell_set_cell set_cell_id insert_commute Un_commute)

text \<open>Cells whose values fit their types, in a cache that numbers its sequences below \<open>n\<close>.\<close>

definition cell_fits :: "nat \<Rightarrow> kv_cell \<Rightarrow> bool" where
  "cell_fits n cell \<longleftrightarrow> - (2 ^ 31) \<le> cpos cell \<and> cpos cell < 2 ^ 31 \<and> finite (cseq cell)
     \<and> card (cseq cell) < 2 ^ 32 \<and> (\<forall>s\<in>cseq cell. 0 \<le> s \<and> s < 2 ^ 31 \<and> s < int n)"

definition load_cell :: "kv_cell \<Rightarrow> kv_cell \<Rightarrow> kv_cell" where
  "load_cell from_cell cell = cell\<lparr>cpos := cpos from_cell, cseq := cseq cell \<union> cseq from_cell\<rparr>"

definition load_cells :: "kv_cell list \<Rightarrow> nat \<Rightarrow> kv_cell list \<Rightarrow> kv_cell list" where
  "load_cells cs n cells = map (\<lambda>j. if j < n then load_cell (cs ! j) (cells ! j) else cells ! j) [0..<length cells]"

lemma load_cells_Suc: "(load_cells cs n cells)[n := load_cell (cs ! n) (load_cells cs n cells ! n)] = load_cells cs (Suc n) cells"
proof (rule nth_equalityI)
  fix i assume "i < length ((load_cells cs n cells)[n := load_cell (cs ! n) (load_cells cs n cells ! n)])"
  then have "i < length cells" by (simp add: load_cells_def)
  then show "(load_cells cs n cells)[n := load_cell (cs ! n) (load_cells cs n cells ! n)] ! i = load_cells cs (Suc n) cells ! i"
    by (cases "i = n") (auto simp: load_cells_def)
qed (simp add: load_cells_def)

lemma load_cells_fold:
  "fold (\<lambda>i. set_cell i (load_cell (cs ! i))) [0..<n] c = set_kv ((st_kv c)\<lparr>kcells := load_cells cs n (kcells (st_kv c))\<rparr>) c"
proof (induction n)
  case 0
  have "load_cells cs 0 (kcells (st_kv c)) = kcells (st_kv c)" by (simp add: load_cells_def map_nth)
  then show ?case by (simp add: set_kv_def)
next
  case (Suc n)
  then show ?case by (simp add: set_cell_def load_cells_Suc)
qed

context data_reader
begin

lemma reads_seq_id:
  assumes "0 \<le> s" "s < 2 ^ 31" "s < int (llama_n_seq_max c)"
  shows "reads R src (read_seq_id R i j) (i32_bytes s) c True (set_cell i (\<lambda>cell. cell\<lparr>cseq := insert s (cseq cell)\<rparr>) c)"
proof -
  have "unat (of_int s :: u32) = nat s"
    using assms unat_of_nat_less(1) [of "nat s"] by (simp add: of_nat_nat [symmetric] del: of_nat_nat)
  then show ?thesis
    unfolding read_seq_id_def using assms
    by (intro reads_bind1 [OF reads_i32]) (auto intro!: reads_bind0 [OF reads_get] reads_bind0 [OF reads_lift] reads_return)
qed

lemma reads_cell:
  assumes "cell_fits (llama_n_seq_max c) cell"
  shows "reads R src (read_cell R i) (cell_image (-1) cell) c True (set_cell i (load_cell cell) c)"
proof -
  let ?L = "sorted_list_of_set (cseq cell)"
  let ?c = "set_cell i (\<lambda>d. d\<lparr>cpos := cpos cell\<rparr>) c"
  note ok = assms [unfolded cell_fits_def]
  have max: "llama_n_seq_max (set_cell i f d) = llama_n_seq_max d" for f d
    by (simp add: set_cell_def llama_n_seq_max_def)
  have "reads R src (loopS (read_seq_id R i) [0..<length ?L]) (concat (map (\<lambda>j. i32_bytes (?L ! j)) [0..<length ?L])) ?c True
      (fold (\<lambda>j. set_cell i (\<lambda>d. d\<lparr>cseq := insert (?L ! j) (cseq d)\<rparr>)) [0..<length ?L] ?c)"
  proof (rule reads_loop [where P = "\<lambda>d. llama_n_seq_max d = llama_n_seq_max c"])
    fix j d assume j: "j \<in> set [0..<length ?L]" "llama_n_seq_max d = llama_n_seq_max c"
    have "?L ! j \<in> set ?L" using j(1) by (intro nth_mem) simp
    then have "?L ! j \<in> cseq cell" using ok by simp
    with ok j(2) show "reads R src (read_seq_id R i j) (i32_bytes (?L ! j)) d True
        (set_cell i (\<lambda>d. d\<lparr>cseq := insert (?L ! j) (cseq d)\<rparr>) d)
      \<and> llama_n_seq_max (set_cell i (\<lambda>d. d\<lparr>cseq := insert (?L ! j) (cseq d)\<rparr>) d) = llama_n_seq_max c"
      by (simp add: max reads_seq_id)
  qed (simp add: max)
  moreover have "(\<lambda>j. ?L ! j) ` set [0..<length ?L] = cseq cell"
    unfolding nth_set using ok by simp
  ultimately have seqs: "reads R src (loopS (read_seq_id R i) [0..<length ?L]) (concat (map i32_bytes ?L)) ?c True
      (set_cell i (load_cell cell) c)"
    by (simp only: fold_insert_seqs set_cell_set_cell map_nth_image) (simp add: load_cell_def [abs_def])
  have len: "length ?L < 256 ^ 4" using ok by simp
  show ?thesis
    unfolding read_cell_def cell_image_def cell_seqs_def if_P [OF refl]
    by (rule reads_bind [OF reads_i32], use ok in simp, use ok in simp, rule reads_bind [OF reads_num], rule len,
        rule reads_bind0 [OF reads_lift], rule refl, rule seqs)
qed

lemma reads_cells:
  assumes "length cs \<le> ksize (st_kv c)" "ksize (st_kv c) < 2 ^ 32" "list_all (cell_fits (ksize (st_kv c))) cs"
    and "length (kcells (st_kv c)) = ksize (st_kv c)"
  shows "reads R src (read_cells R (length cs)) (concat (map (cell_image (-1)) cs)) c True
    (set_kv ((st_kv c)\<lparr>kcells := map (\<lambda>j. if j < length cs then (kcells (st_kv c) ! j)\<lparr>cpos := cpos (cs ! j), cseq := cseq (cs ! j)\<rparr>
         else (kcells (st_kv c) ! j)\<lparr>cpos := -1, cseq := {}\<rparr>) [0..<ksize (st_kv c)],
      khead := 0, kused := of_nat (length cs)\<rparr>) (clear_data c))"
proof -
  let ?n = "length cs"
  let ?c = "clear_kv c"
  let ?f = "fold (\<lambda>i. set_cell i (load_cell (cs ! i))) [0..<?n] ?c"
  have "reads R src (loopS (read_cell R) [0..<?n]) (concat (map (\<lambda>i. cell_image (-1) (cs ! i)) [0..<?n])) ?c True ?f"
  proof (rule reads_loop [where P = "\<lambda>d. llama_n_seq_max d = ksize (st_kv c)"])
    fix i d assume "i \<in> set [0..<?n]" "llama_n_seq_max d = ksize (st_kv c)"
    then show "reads R src (read_cell R i) (cell_image (-1) (cs ! i)) d True (set_cell i (load_cell (cs ! i)) d)
        \<and> llama_n_seq_max (set_cell i (load_cell (cs ! i)) d) = ksize (st_kv c)"
      using assms(3) by (intro conjI reads_cell) (auto simp: list_all_length set_cell_def llama_n_seq_max_def)
  qed (simp add: clear_kv_def llama_n_seq_max_def llama_kv_cache_clear_def)
  then have loop: "reads R src (loopS (read_cell R) [0..<?n]) (concat (map (cell_image (-1)) cs)) ?c True ?f"
    by (simp only: map_nth_image)
  have "load_cells cs ?n (map (\<lambda>cell. cell\<lparr>cpos := -1, cseq := {}\<rparr>) (kcells (st_kv c)))
      = map (\<lambda>j. if j < ?n then (kcells (st_kv c) ! j)\<lparr>cpos := cpos (cs ! j), cseq := cseq (cs ! j)\<rparr>
             else (kcells (st_kv c) ! j)\<lparr>cpos := -1, cseq := {}\<rparr>) [0..<ksize (st_kv c)]"
    using assms(4) by (intro nth_equalityI) (auto simp: load_cells_def load_cell_def)
  then have final: "set_kv ((st_kv ?f)\<lparr>khead := 0, kused := of_nat ?n\<rparr>) ?f
      = set_kv ((st_kv c)\<lparr>kcells := map (\<lambda>j. if j < ?n then (kcells (st_kv c) ! j)\<lparr>cpos := cpos (cs ! j), cseq := cseq (cs ! j)\<rparr>
             else (kcells (st_kv c) ! j)\<lparr>cpos := -1, cseq := {}\<rparr>) [0..<ksize (st_kv c)],
          khead := 0, kused := of_nat ?n\<rparr>) (clear_data c)"
    unfolding load_cells_fold by (simp add: clear_kv_def llama_kv_cache_clear_def)
  show ?thesis
    unfolding read_cells_def using assms(1)
    by (intro reads_bind0 [OF reads_get])
      (auto simp: final [symmetric] intro!: reads_bind0 [OF reads_lift] reads_bind1 [OF loop] reads_return)
qed

end

section \<open>The data\<close>

lemma splice_length [simp]: "off + length bs \<le> length xs \<Longrightarrow> length (splice off bs xs) = length xs"
  by (simp add: splice_def)

lemma splice_Nil [simp]: "splice off [] xs = xs"
  by (simp add: splice_def)

definition splice_t :: "nat \<Rightarrow> byte list \<Rightarrow> kv_tensor \<Rightarrow> kv_tensor" where
  "splice_t off bs t = t\<lparr>kt_data := splice off bs (kt_data t)\<rparr>"

lemma splice_t_simps [simp]: "kt_type (splice_t off bs t) = kt_type t" "splice_t off [] t = t"
  by (simp_all add: splice_t_def)

lemma row_at_splice:
  assumes "length bs = n * row" "(h + n) * row \<le> length (kt_data t)"
  shows "row_at row (splice_t (h * row) bs t) i = (if h \<le> i \<and> i < h + n then take row (drop ((i - h) * row) bs) else row_at row t i)"
proof -
  let ?d = "kt_data t"
  have hn: "h * row + n * row \<le> length ?d" using assms(2) by (simp add: add_mult_distrib)
  consider "i < h" | "h \<le> i" "i < h + n" | "h + n \<le> i" by linarith
  then show ?thesis
  proof cases
    case 1
    then have "i * row + row \<le> h * row" by (metis Suc_leI mult_Suc add.commute mult_le_mono1)
    moreover have "row_at row (splice_t (h * row) bs t) i = take row (take (h * row - i * row) (drop (i * row) ?d))"
      using calculation hn assms(1) by (auto simp: row_at_def splice_t_def splice_def drop_take)
    moreover have "row \<le> h * row - i * row" using calculation(1) by linarith
    ultimately have "row_at row (splice_t (h * row) bs t) i = row_at row t i" by (simp add: row_at_def min_def)
    with 1 show ?thesis by simp
  next
    case 2
    then obtain k where k: "i = h + k" "k < n" by (metis le_Suc_ex nat_add_left_cancel_less)
    then have "k * row + row \<le> n * row" by (metis Suc_leI mult_Suc add.commute mult_le_mono1)
    moreover have "drop (i * row) (take (h * row) ?d @ bs @ drop (h * row + length bs) ?d)
        = drop (k * row) bs @ drop (h * row + length bs) ?d"
      using hn k assms(1) \<open>k * row + row \<le> n * row\<close>
      by (auto simp: add_mult_distrib min_def simp flip: length_0_conv)
    ultimately show ?thesis
      using 2 k assms(1) by (simp add: row_at_def splice_t_def splice_def)
  next
    case 3
    then obtain k where k: "i = h + n + k" by (metis le_Suc_ex)
    have "drop (i * row) (take (h * row) ?d @ bs @ drop (h * row + length bs) ?d) = drop (i * row) ?d"
      using hn k assms(1) by (auto simp: algebra_simps min_def)
    with 3 show ?thesis by (simp add: row_at_def splice_t_def splice_def)
  qed
qed

lemma chunk_concat:
  assumes "\<And>x. x \<in> set xs \<Longrightarrow> length (g x) = row" "k < length xs"
  shows "take row (drop (k * row) (concat (map g xs))) = g (xs ! k)"
  using assms
proof (induction xs arbitrary: k)
  case (Cons x xs)
  then show ?case by (cases k) auto
qed simp

end
