(* ===== verification/StateLayers.thy ===== *)
theory StateLayers
  imports StateRestored
begin

text \<open>
  Restoring the data of the cached cells, layer by layer: the rows of the tensors, or for a transposed tensor
  the columns, receive the saved bytes.
\<close>

section \<open>Changing one tensor\<close>

text \<open>Changing one of the tensors of a layer.\<close>

abbreviation tensors :: "bool \<Rightarrow> state_ctx \<Rightarrow> kv_tensor list" where
  "tensors is_k c \<equiv> (if is_k then st_k c else st_v c)"

definition upd_tensor :: "bool \<Rightarrow> nat \<Rightarrow> (kv_tensor \<Rightarrow> kv_tensor) \<Rightarrow> state_ctx \<Rightarrow> state_ctx" where
  "upd_tensor is_k il g c = set_tensor is_k il (g (tensors is_k c ! il)) c"

definition set_tensors :: "bool \<Rightarrow> kv_tensor list \<Rightarrow> state_ctx \<Rightarrow> state_ctx" where
  "set_tensors is_k ts c = (if is_k then c\<lparr>st_k := ts\<rparr> else c\<lparr>st_v := ts\<rparr>)"

lemma upd_tensor_simps [simp]:
  "st_kv (upd_tensor is_k il g c) = st_kv c" "st_hparams (upd_tensor is_k il g c) = st_hparams c"
  "st_v_trans (upd_tensor is_k il g c) = st_v_trans c"
  "st_k (upd_tensor is_k il g c) = (if is_k then (st_k c)[il := g (st_k c ! il)] else st_k c)"
  "st_v (upd_tensor is_k il g c) = (if is_k then st_v c else (st_v c)[il := g (st_v c ! il)])"
  by (simp_all add: upd_tensor_def set_tensor_def)

lemma upd_tensor_id: "g (tensors is_k c ! il) = tensors is_k c ! il \<Longrightarrow> upd_tensor is_k il g c = c"
  by (simp add: upd_tensor_def set_tensor_def split: if_splits)

lemma upd_tensor_twice: "upd_tensor is_k il f (upd_tensor is_k il g c) = upd_tensor is_k il (\<lambda>t. f (g t)) c"
  by (cases is_k; cases "il < length (tensors is_k c)") (simp_all add: upd_tensor_def set_tensor_def list_update_beyond)

lemma fold_upd_one: "fold (\<lambda>j. upd_tensor is_k il (g j)) xs c = upd_tensor is_k il (fold g xs) c"
  by (induction xs arbitrary: c) (simp_all add: upd_tensor_twice upd_tensor_id comp_def)

lemma fold_upd_layers:
  assumes "n \<le> length (tensors is_k c)"
  shows "fold (\<lambda>il. upd_tensor is_k il (g il)) [0..<n] c
    = set_tensors is_k (map (\<lambda>il. if il < n then g il (tensors is_k c ! il) else tensors is_k c ! il) [0..<length (tensors is_k c)]) c"
  using assms
proof (induction n)
  case 0
  then show ?case by (simp add: set_tensors_def map_nth)
next
  case (Suc n)
  let ?ts = "\<lambda>n. map (\<lambda>il. if il < n then g il (tensors is_k c ! il) else tensors is_k c ! il) [0..<length (tensors is_k c)]"
  have "(?ts n)[n := g n (tensors is_k c ! n)] = ?ts (Suc n)"
    by (cases is_k; intro nth_equalityI) (auto simp: nth_list_update less_Suc_eq)
  moreover have "upd_tensor is_k n (g n) (set_tensors is_k (?ts n) c) = set_tensors is_k ((?ts n)[n := g n (?ts n ! n)]) c"
    by (simp add: upd_tensor_def set_tensors_def set_tensor_def)
  ultimately show ?case using Suc by simp
qed

text \<open>Tensors of the same type and size.\<close>

definition same_shape :: "kv_tensor \<Rightarrow> kv_tensor \<Rightarrow> bool" where
  "same_shape t u \<longleftrightarrow> kt_type t = kt_type u \<and> length (kt_data t) = length (kt_data u)"

definition same_layers :: "state_ctx \<Rightarrow> state_ctx \<Rightarrow> bool" where
  "same_layers c d \<longleftrightarrow> st_hparams c = st_hparams d \<and> st_kv c = st_kv d \<and> st_v_trans c = st_v_trans d
     \<and> list_all2 same_shape (st_k c) (st_k d) \<and> list_all2 same_shape (st_v c) (st_v d)"

lemma same_layers_refl: "same_layers c c"
  by (simp add: same_layers_def same_shape_def list_all2_conv_all_nth)

lemma same_layers_upd:
  "same_layers c d \<Longrightarrow> same_shape (g (tensors is_k c ! il)) (tensors is_k d ! il) \<Longrightarrow> same_layers (upd_tensor is_k il g c) d"
  using list_all2_update_cong [of same_shape "tensors is_k c" "tensors is_k d" "g (tensors is_k c ! il)" "tensors is_k d ! il" il]
  by (cases is_k) (simp_all add: same_layers_def)

lemma put_tensor_ok:
  fixes off :: u64
  assumes "il < length (tensors is_k c)" "t = tensors is_k c ! il"
    and "unat off + length bs \<le> length (kt_data t)" "length (kt_data t) < 2 ^ 64"
  shows "put_tensor is_k il bs off c = Inr (upd_tensor is_k il (splice_t (unat off) bs) c)"
proof -
  have "unat (off + of_nat (length bs)) = unat off + length bs"
    using assms(3,4) by (simp add: unat_word_ariths unat_of_nat take_bit_nat_eq_self)
  then show ?thesis using assms(1,3)
    by (simp add: put_tensor_def tensor_at_def ggml_backend_tensor_set_def upd_tensor_def assms(2) [symmetric] splice_t_def)
qed


lemma column_offset:
  assumes "h + j * sz + n \<le> m * sz" "m * sz * el < 2 ^ 32"
  shows "unat (ucast (of_nat h + of_nat j * of_nat sz :: u32) * of_nat el :: u64) = (h + j * sz) * el"
proof (cases "el = 0")
  case False
  have "h + j * sz \<le> (h + j * sz) * el" using False by (cases el) simp_all
  moreover have "(h + j * sz) * el \<le> m * sz * el" using assms(1) by (intro mult_le_mono1) simp
  ultimately have less: "(h + j * sz) * el < 2 ^ 32" "h + j * sz < 2 ^ 32" using assms(2) by linarith+
  have "(of_nat h + of_nat j * of_nat sz :: u32) = of_nat (h + j * sz)" by simp
  then have "unat (of_nat h + of_nat j * of_nat sz :: u32) = h + j * sz" using less(2) by (simp only: unat_of_nat_less)
  then have "(ucast (of_nat h + of_nat j * of_nat sz :: u32) :: u64) = of_nat (h + j * sz)"
    using less(2) unfolding word_unat_eq_iff unat_ucast_u64 by (subst unat_of_nat_less(2)) simp_all
  then have "ucast (of_nat h + of_nat j * of_nat sz :: u32) * of_nat el = (of_nat ((h + j * sz) * el) :: u64)" by simp
  moreover have "(h + j * sz) * el < 2 ^ 64" using less(1) by simp
  ultimately show ?thesis by (simp only: unat_of_nat_less(2))
qed simp

context data_reader
begin

lemma reads_tensor_rows:
  assumes il: "il < hp_n_layer (st_hparams c)" "il < length (tensors is_k c)"
    and t: "t = (tensors is_k c) ! il"
    and f: "f = (if is_k then k_width else v_width) (st_hparams c)"
    and row: "row = unat (ggml_row_size (kt_type t) (ucast (width_of f il)))"
    and ok: "rows_ok (ksize (st_kv c)) (width_of f il) t" and n: "khead (st_kv c) + n \<le> ksize (st_kv c)" "length bs = n * row"
  shows "reads R src (read_tensor_rows R n is_k il) (le_bytes 4 (kt_type t) @ le_bytes 8 row @ bs) c True
    (upd_tensor is_k il (splice_t (khead (st_kv c) * row) bs) c)"
proof -
  let ?row = "ggml_row_size (kt_type t) (ucast (width_of f il))"
  have width: "(if is_k then k_width else v_width) (st_hparams c) il = Inr (width_of f il)"
    unfolding f using width_of_k [OF il(1)] width_of_v [OF il(1)] by simp
  have at: "tensor_at (tensors is_k c) il = Inr t" using il(2) t by (simp add: tensor_at_def)
  have len: "(khead (st_kv c) + n) * row \<le> length (kt_data t)" "length (kt_data t) < 2 ^ 64" "kt_type t < 2 ^ 31"
    using ok mult_le_mono1 [OF n(1), of row] by (simp_all add: rows_ok_def row [symmetric])
  have word: "unat (of_nat k * ?row) = k * row" if "k \<le> khead (st_kv c) + n" for k
  proof -
    have "k * row < 2 ^ 64" using order_trans [OF mult_le_mono1 [OF that, of row] len(1)] len(2) by linarith
    moreover have "of_nat k * ?row = of_nat (k * row)" by (simp add: row)
    ultimately show ?thesis by (simp only: unat_of_nat_less)
  qed
  have small: "row < 256 ^ 8" using unsigned_less [of ?row, where ?'a = nat] by (simp add: row)
  have rest: "reads R src (if n = 0 then returnS True else bindS (readS R (unat (of_nat n * ?row))) (\<lambda>bs.
      bindS (liftS (put_tensor is_k il bs (of_nat (khead (st_kv c)) * ?row))) (\<lambda>_. returnS True))) bs c True
      (upd_tensor is_k il (splice_t (khead (st_kv c) * row) bs) c)"
  proof (cases "n = 0")
    case True
    then show ?thesis using n(2) by (simp add: upd_tensor_id reads_return)
  next
    case False
    have "put_tensor is_k il bs (of_nat (khead (st_kv c)) * ?row) c = Inr (upd_tensor is_k il (splice_t (khead (st_kv c) * row) bs) c)"
      using put_tensor_ok [OF il(2) t, of "of_nat (khead (st_kv c)) * ?row" bs] word [of "khead (st_kv c)"] len n(2)
      by (simp add: add_mult_distrib)
    with False show ?thesis using word [of n] n(2)
      by (auto intro!: reads_bind1 [OF reads_readS] reads_bind0 [OF reads_lift] reads_return)
  qed
  show ?thesis
    unfolding read_tensor_rows_def
    apply (rule reads_bind0 [OF reads_get])
    apply (rule reads_bind0 [OF reads_res [OF width]])
    apply (rule reads_bind [OF reads_num])
    subgoal using len(3) by simp
    apply (rule reads_bind0 [OF reads_res [OF at]])
    apply (simp only: simp_thms if_False Let_def not_not HOL.refl)
    apply (rule reads_bind [OF reads_num [OF small]])
    apply (simp only: simp_thms if_False row [symmetric])
    by (rule rest)
qed

end

section \<open>Columns\<close>

lemma fold_splice_shape:
  assumes "\<And>j. j \<in> set xs \<Longrightarrow> off j + length (b j) \<le> length (kt_data t)"
  shows "same_shape (fold (\<lambda>j. splice_t (off j) (b j)) xs t) t"
  using assms
proof (induction xs arbitrary: t)
  case (Cons j xs)
  have "same_shape (splice_t (off j) (b j) t) t" using Cons.prems [of j] by (simp add: same_shape_def splice_t_def)
  moreover have "same_shape (fold (\<lambda>j. splice_t (off j) (b j)) xs (splice_t (off j) (b j) t)) (splice_t (off j) (b j) t)"
    using Cons.prems calculation by (intro Cons.IH) (auto simp: same_shape_def)
  ultimately show ?case by (simp add: same_shape_def)
qed (simp add: same_shape_def)

lemma column_bound:
  fixes sz :: nat
  assumes "h + n \<le> sz" "j < m" shows "h + j * sz + n \<le> m * sz"
proof -
  have "Suc j * sz \<le> m * sz" using assms(2) by (intro mult_le_mono1) simp
  then show ?thesis using assms(1) by simp
qed

context data_reader
begin

lemma reads_columns:
  assumes il: "il < hp_n_layer (st_hparams c)" "il < length (st_v c)" and t: "t = st_v c ! il"
    and w: "w = width_of (v_width (st_hparams c)) il" and el: "el = ggml_type_size (kt_type t)"
    and ok: "columns_ok (ksize (st_kv c)) w t" and n: "khead (st_kv c) + n \<le> ksize (st_kv c)"
    and b: "\<And>j. j < unat w \<Longrightarrow> length (b j) = n * el"
  shows "reads R src (read_columns R n il)
    (le_bytes 4 (kt_type t) @ le_bytes 4 el @ le_bytes 4 (unat w) @ concat (map b [0..<unat w])) c True
    (upd_tensor False il (fold (\<lambda>j. splice_t ((khead (st_kv c) + j * ksize (st_kv c)) * el) (b j)) [0..<unat w]) c)"
proof -
  let ?h = "khead (st_kv c)" and ?sz = "ksize (st_kv c)"
  let ?put = "\<lambda>j. upd_tensor False il (splice_t ((?h + j * ?sz) * el) (b j))"
  have width: "v_width (st_hparams c) il = Inr w" unfolding w using width_of_v [OF il(1)] .
  have at: "tensor_at (st_v c) il = Inr t" using il(2) t by (simp add: tensor_at_def)
  have len: "unat w * ?sz * el = length (kt_data t)" "length (kt_data t) < 2 ^ 32" "kt_type t < 2 ^ 31" "el < 2 ^ 32"
    using ok by (simp_all add: columns_ok_def el)
  have bound: "(?h + j * ?sz) * el + length (b j) \<le> length (kt_data t)" if "j < unat w" for j
  proof -
    have "(?h + j * ?sz + n) * el \<le> length (kt_data t)"
      unfolding len(1) [symmetric] by (rule mult_le_mono1) (rule column_bound [OF n that])
    then show ?thesis by (simp add: b [OF that] add_mult_distrib)
  qed
  let ?P = "\<lambda>d :: state_ctx. il < length (st_v d) \<and> length (kt_data (st_v d ! il)) = length (kt_data t)"
  let ?body = "\<lambda>j. bindS (readS R (n * el)) (\<lambda>bs. bindS (liftS (put_tensor False il bs
      (ucast (of_nat ?h + of_nat j * of_nat ?sz :: u32) * of_nat el))) (\<lambda>_. returnS True))"
  have loop: "reads R src (loopS ?body [0..<unat w]) (concat (map b [0..<unat w])) c True (fold ?put [0..<unat w] c)"
  proof (rule reads_loop [where P = ?P])
    show "?P c" using il(2) t by simp
    fix j and d :: state_ctx assume j: "j \<in> set [0..<unat w]" and d: "?P d"
    then have off: "unat (ucast (of_nat ?h + of_nat j * of_nat ?sz :: u32) * of_nat el :: u64) = (?h + j * ?sz) * el"
      using column_offset [OF column_bound [OF n, of j "unat w"], of el] len(1,2) by simp
    have "put_tensor False il (b j) (ucast (of_nat ?h + of_nat j * of_nat ?sz :: u32) * of_nat el) d = Inr (?put j d)"
      using put_tensor_ok [of il False d _ "ucast (of_nat ?h + of_nat j * of_nat ?sz :: u32) * of_nat el" "b j"]
        off bound [of j] j d len(2) by simp
    then have "reads R src (?body j) (b j) d True (?put j d)"
      using b j by (intro reads_bind1 [OF reads_readS] reads_bind0 [OF reads_lift]) (auto simp: reads_return)
    moreover have "?P (?put j d)" using d bound [of j] j by (simp add: splice_t_def)
    ultimately show "reads R src (?body j) (b j) d True (?put j d) \<and> ?P (?put j d)" by blast
  qed
  have rest: "reads R src (if n = 0 then returnS True else loopS ?body [0..<unat w]) (concat (map b [0..<unat w])) c True
      (upd_tensor False il (fold (\<lambda>j. splice_t ((?h + j * ?sz) * el) (b j)) [0..<unat w]) c)"
  proof (cases "n = 0")
    case True
    then have b0: "j < unat w \<Longrightarrow> b j = []" for j using b [of j] by simp
    then have "fold (\<lambda>j. splice_t ((?h + j * ?sz) * el) (b j)) [0..<unat w] t = t"
      by (intro fold_invariant [where Q = "\<lambda>j. b j = []" and P = "\<lambda>u. u = t"]) auto
    moreover have bs: "concat (map b [0..<unat w]) = []" using b0 by simp
    ultimately show ?thesis unfolding bs using True t by (simp add: upd_tensor_id reads_return)
  next
    case False
    then show ?thesis using loop by (simp add: fold_upd_one)
  qed
  show ?thesis
    unfolding read_columns_def
    apply (rule reads_bind0 [OF reads_get])
    apply (rule reads_bind0 [OF reads_res [OF width]])
    apply (rule reads_bind [OF reads_num])
    subgoal using len(3) by simp
    apply (rule reads_bind0 [OF reads_res [OF at]])
    apply (simp only: simp_thms if_False Let_def not_not HOL.refl el [symmetric])
    apply (rule reads_bind [OF reads_num])
    subgoal using len(4) by simp
    apply (simp only: simp_thms if_False)
    apply (rule reads_bind [OF reads_num])
    subgoal using u32_less [of w] by simp
    apply (simp only: simp_thms if_False)
    by (rule rest)
qed

end

lemma row_at_columns:
  assumes "i < sz" "h + n \<le> sz" "j < m" "m * sz * el = length (kt_data t)" "\<And>j. j < m \<Longrightarrow> length (b j) = n * el"
  shows "row_at el (fold (\<lambda>j. splice_t ((h + j * sz) * el) (b j)) [0..<m] t) (j * sz + i)
    = (if h \<le> i \<and> i < h + n then take el (drop ((i - h) * el) (b j)) else row_at el t (j * sz + i))"
proof -
  let ?F = "\<lambda>k. fold (\<lambda>j. splice_t ((h + j * sz) * el) (b j)) [0..<k] t"
  have bound: "(h + j * sz) * el + length (b j) \<le> length (kt_data t)" if "j < m" for j
    using mult_le_mono1 [OF column_bound [OF assms(2) that], of el] assms(4,5) that by (simp add: add_mult_distrib)
  have "row_at el (?F k) (j * sz + i)
      = (if j < k \<and> h \<le> i \<and> i < h + n then take el (drop ((i - h) * el) (b j)) else row_at el t (j * sz + i))" if "k \<le> m" for k
    using that
  proof (induction k)
    case (Suc k)
    have "(h + k * sz + n) * el \<le> length (kt_data (?F k))"
      using mult_le_mono1 [OF column_bound [OF assms(2), of k m], of el] assms(4) Suc.prems
        fold_splice_shape [of "[0..<k]" "\<lambda>j. (h + j * sz) * el" b t] bound by (simp add: same_shape_def)
    from row_at_splice [OF assms(5) this] Suc.prems
    have "row_at el (?F (Suc k)) (j * sz + i) = (if h + k * sz \<le> j * sz + i \<and> j * sz + i < h + k * sz + n
        then take el (drop ((j * sz + i - (h + k * sz)) * el) (b k)) else row_at el (?F k) (j * sz + i))" by simp
    moreover have "h + k * sz \<le> j * sz + i \<and> j * sz + i < h + k * sz + n \<longleftrightarrow> j = k \<and> h \<le> i \<and> i < h + n"
    proof -
      have "j * sz + i < k * sz" if "j < k"
        using mult_le_mono1 [OF Suc_leI [OF that], of sz] assms(1) by simp
      moreover have "h + k * sz + n \<le> j * sz" if "k < j"
        using column_bound [OF assms(2) that] .
      ultimately show ?thesis by (cases j k rule: linorder_cases) auto
    qed
    ultimately show ?case using Suc by (auto simp: less_Suc_eq)
  qed simp
  from this [of m] show ?thesis using assms(3) by simp
qed

section \<open>All layers\<close>

definition row_size_of :: "bool \<Rightarrow> state_ctx \<Rightarrow> nat \<Rightarrow> nat" where
  "row_size_of is_k c il = unat (ggml_row_size (kt_type (tensors is_k c ! il))
     (ucast (width_of ((if is_k then k_width else v_width) (st_hparams c)) il)))"

text \<open>Where the data of the cells \<open>is\<close> of \<open>s\<close> go, from cell \<open>h\<close> on.\<close>

definition load_rows :: "state_ctx \<Rightarrow> nat list \<Rightarrow> nat \<Rightarrow> bool \<Rightarrow> nat \<Rightarrow> kv_tensor \<Rightarrow> kv_tensor" where
  "load_rows s is h is_k il =
    splice_t (h * row_size_of is_k s il) (concat (map (row_at (row_size_of is_k s il) (tensors is_k s ! il)) is))"

definition load_columns :: "state_ctx \<Rightarrow> nat list \<Rightarrow> nat \<Rightarrow> nat \<Rightarrow> nat \<Rightarrow> kv_tensor \<Rightarrow> kv_tensor" where
  "load_columns s is h sz il =
    (let t = st_v s ! il; el = ggml_type_size (kt_type t) in
     fold (\<lambda>j. splice_t ((h + j * sz) * el) (concat (map (\<lambda>i. row_at el t (j * ksize (st_kv s) + i)) is)))
       [0..<unat (width_of (v_width (st_hparams s)) il)])"

definition load_value :: "state_ctx \<Rightarrow> nat list \<Rightarrow> nat \<Rightarrow> nat \<Rightarrow> nat \<Rightarrow> kv_tensor \<Rightarrow> kv_tensor" where
  "load_value s is h sz il = (if st_v_trans s then load_columns s is h sz il else load_rows s is h False il)"

definition load_layers :: "state_ctx \<Rightarrow> nat list \<Rightarrow> state_ctx \<Rightarrow> state_ctx" where
  "load_layers s is c =
    (let h = khead (st_kv c); layers = [0..<hp_n_layer (st_hparams c)] in
     c\<lparr>st_k := map (\<lambda>il. load_rows s is h True il (st_k c ! il)) layers,
       st_v := map (\<lambda>il. load_value s is h (ksize (st_kv c)) il (st_v c ! il)) layers\<rparr>)"

text \<open>A context with the same tensors, but for the number of cells.\<close>

definition layers_match :: "state_ctx \<Rightarrow> state_ctx \<Rightarrow> bool" where
  "layers_match s c \<longleftrightarrow> layers_ok s \<and> layers_ok c \<and> st_hparams c = st_hparams s \<and> st_v_trans c = st_v_trans s
     \<and> map kt_type (st_k c) = map kt_type (st_k s) \<and> map kt_type (st_v c) = map kt_type (st_v s)"

lemma row_at_length:
  assumes "(i + 1) * row \<le> length (kt_data t)" shows "length (row_at row t i) = row"
  using assms by (simp add: row_at_def)

lemma rows_length:
  assumes "sz * row = length (kt_data t)" "list_all (\<lambda>i. i < sz) is"
  shows "length (concat (map (row_at row t) is)) = length is * row"
proof -
  have "length (row_at row t i) = row" if "i \<in> set is" for i
    using assms that mult_le_mono1 [of "i + 1" sz row] by (intro row_at_length) (auto simp: list_all_iff)
  then show ?thesis by (simp add: length_concat comp_def sum_list_triv cong: map_cong)
qed

lemma columns_length:
  assumes "m * sz * el = length (kt_data t)" "list_all (\<lambda>i. i < sz) is" "j < m"
  shows "length (concat (map (\<lambda>i. row_at el t (j * sz + i)) is)) = length is * el"
proof -
  have "length (row_at el t (j * sz + i)) = el" if "i \<in> set is" for i
  proof (rule row_at_length)
    have "i < sz" using assms(2) that by (simp add: list_all_iff)
    then have "j * sz + i + 1 \<le> m * sz" using column_bound [of i 1 sz j m] assms(3) by simp
    then show "(j * sz + i + 1) * el \<le> length (kt_data t)" unfolding assms(1) [symmetric] by (rule mult_le_mono1)
  qed
  then show ?thesis by (simp add: length_concat comp_def sum_list_triv cong: map_cong)
qed

lemma layers_at:
  assumes "layers_ok c" "il < hp_n_layer (st_hparams c)"
  shows "il < length (tensors is_k c)"
    "rows_ok (ksize (st_kv c)) (width_of (k_width (st_hparams c)) il) (st_k c ! il)"
    "\<not> st_v_trans c \<Longrightarrow> rows_ok (ksize (st_kv c)) (width_of (v_width (st_hparams c)) il) (st_v c ! il)"
    "st_v_trans c \<Longrightarrow> columns_ok (ksize (st_kv c)) (width_of (v_width (st_hparams c)) il) (st_v c ! il)"
  using assms by (auto simp: layers_ok_def Let_def)

lemma layers_match_type:
  assumes "layers_match s c" "il < hp_n_layer (st_hparams c)"
  shows "kt_type (tensors is_k c ! il) = kt_type (tensors is_k s ! il)"
proof -
  have "map kt_type (tensors is_k c) ! il = map kt_type (tensors is_k s) ! il"
    using assms(1) by (simp add: layers_match_def)
  then show ?thesis using assms layers_at(1) [of c il is_k] layers_at(1) [of s il is_k]
    by (simp add: layers_match_def split: if_splits)
qed

lemma row_size_match:
  "layers_match s c \<Longrightarrow> il < hp_n_layer (st_hparams c) \<Longrightarrow> row_size_of is_k c il = row_size_of is_k s il"
  using layers_match_type [of s c il is_k] by (simp add: row_size_of_def layers_match_def)

lemma same_layers_at:
  assumes "same_layers d c" "il < length (tensors is_k c)"
  shows "il < length (tensors is_k d)" "kt_type (tensors is_k d ! il) = kt_type (tensors is_k c ! il)"
    "length (kt_data (tensors is_k d ! il)) = length (kt_data (tensors is_k c ! il))"
  using assms by (auto simp: same_layers_def list_all2_conv_all_nth same_shape_def split: if_splits)

lemma rows_ok_shape: "kt_type t = kt_type u \<Longrightarrow> length (kt_data t) = length (kt_data u) \<Longrightarrow> rows_ok sz w t = rows_ok sz w u"
  by (simp add: rows_ok_def)

lemma columns_ok_shape: "kt_type t = kt_type u \<Longrightarrow> length (kt_data t) = length (kt_data u) \<Longrightarrow> columns_ok sz w t = columns_ok sz w u"
  by (simp add: columns_ok_def)

lemma rows_fit:
  assumes m: "layers_match s c" and il: "il < hp_n_layer (st_hparams c)" and rows: "is_k \<or> \<not> st_v_trans c"
  shows "rows_ok (ksize (st_kv c)) (width_of ((if is_k then k_width else v_width) (st_hparams c)) il) (tensors is_k c ! il)"
    "ksize (st_kv c) * row_size_of is_k s il = length (kt_data (tensors is_k c ! il))"
    "ksize (st_kv s) * row_size_of is_k s il = length (kt_data (tensors is_k s ! il))"
proof -
  have ok: "rows_ok (ksize (st_kv d)) (width_of ((if is_k then k_width else v_width) (st_hparams d)) il) (tensors is_k d ! il)"
    if "layers_ok d" "il < hp_n_layer (st_hparams d)" "is_k \<or> \<not> st_v_trans d" for d
    using layers_at [OF that(1,2)] that(3) by (cases is_k) simp_all
  have "layers_ok c" using m by (simp add: layers_match_def)
  from ok [OF this il rows]
  show "rows_ok (ksize (st_kv c)) (width_of ((if is_k then k_width else v_width) (st_hparams c)) il) (tensors is_k c ! il)" .
  have len: "ksize (st_kv d) * row_size_of is_k d il = length (kt_data (tensors is_k d ! il))"
    if "layers_ok d" "il < hp_n_layer (st_hparams d)" "is_k \<or> \<not> st_v_trans d" for d
    using ok [OF that] unfolding rows_ok_def row_size_of_def by blast
  show "ksize (st_kv c) * row_size_of is_k s il = length (kt_data (tensors is_k c ! il))"
    unfolding row_size_match [OF m il, symmetric] using m il rows by (intro len) (simp_all add: layers_match_def)
  show "ksize (st_kv s) * row_size_of is_k s il = length (kt_data (tensors is_k s ! il))"
    using m il rows by (intro len) (simp_all add: layers_match_def)
qed

lemma columns_fit:
  assumes m: "layers_match s c" and il: "il < hp_n_layer (st_hparams c)" and cols: "st_v_trans c"
  defines "w \<equiv> width_of (v_width (st_hparams s)) il" and "el \<equiv> ggml_type_size (kt_type (st_v s ! il))"
  shows "columns_ok (ksize (st_kv c)) w (st_v c ! il)" "unat w * ksize (st_kv c) * el = length (kt_data (st_v c ! il))"
    "unat w * ksize (st_kv s) * el = length (kt_data (st_v s ! il))"
proof -
  have hp: "st_hparams c = st_hparams s" "layers_ok c" "layers_ok s" "st_v_trans s" using m cols by (simp_all add: layers_match_def)
  show c: "columns_ok (ksize (st_kv c)) w (st_v c ! il)"
    using layers_at(4) [OF hp(2) il cols] by (simp add: w_def hp(1))
  then show "unat w * ksize (st_kv c) * el = length (kt_data (st_v c ! il))"
    using layers_match_type [OF m il, of False] by (simp add: columns_ok_def el_def)
  show "unat w * ksize (st_kv s) * el = length (kt_data (st_v s ! il))"
    using layers_at(4) [OF hp(3) _ hp(4), of il] il hp(1) by (simp add: columns_ok_def el_def w_def)
qed

lemma load_rows_shape:
  assumes m: "layers_match s c" and il: "il < hp_n_layer (st_hparams c)" and rows: "is_k \<or> \<not> st_v_trans c"
    and "list_all (\<lambda>i. i < ksize (st_kv s)) is" "h + length is \<le> ksize (st_kv c)" "same_shape t (tensors is_k c ! il)"
  shows "same_shape (load_rows s is h is_k il t) t"
proof -
  let ?r = "row_size_of is_k s il"
  note fit = rows_fit [OF m il rows]
  have "h * ?r + length is * ?r \<le> length (kt_data t)"
    using mult_le_mono1 [OF assms(5), of ?r] fit(2) assms(6) by (simp add: add_mult_distrib same_shape_def)
  then show ?thesis
    using rows_length [OF fit(3) assms(4)] by (simp add: same_shape_def load_rows_def splice_t_def)
qed

lemma load_columns_shape:
  assumes m: "layers_match s c" and il: "il < hp_n_layer (st_hparams c)" and cols: "st_v_trans c"
    and "list_all (\<lambda>i. i < ksize (st_kv s)) is" "h + length is \<le> ksize (st_kv c)" "same_shape t (st_v c ! il)"
  shows "same_shape (load_columns s is h (ksize (st_kv c)) il t) t"
  unfolding load_columns_def Let_def
proof (rule fold_splice_shape)
  let ?w = "unat (width_of (v_width (st_hparams s)) il)" and ?el = "ggml_type_size (kt_type (st_v s ! il))"
  note fit = columns_fit [OF m il cols]
  fix j assume "j \<in> set [0..<?w]"
  then have j: "j < ?w" by simp
  show "(h + j * ksize (st_kv c)) * ?el
      + length (concat (map (\<lambda>i. row_at ?el (st_v s ! il) (j * ksize (st_kv s) + i)) is)) \<le> length (kt_data t)"
    unfolding columns_length [OF fit(3) assms(4) j]
    using mult_le_mono1 [OF column_bound [OF assms(5) j], of ?el] fit(2) assms(6) by (simp add: add_mult_distrib same_shape_def)
qed

context data_reader
begin

lemma reads_rows_layers:
  assumes m: "layers_match s c" and rows: "is_k \<or> \<not> st_v_trans c"
    and cells: "list_all (\<lambda>i. i < ksize (st_kv s)) is" "khead (st_kv c) + length is \<le> ksize (st_kv c)" and e: "same_layers e c"
  shows "reads R src (loopS (read_tensor_rows R (length is) is_k) [0..<hp_n_layer (st_hparams c)])
      (concat (map (\<lambda>il. rows_image (width_of ((if is_k then k_width else v_width) (st_hparams s)) il) (tensors is_k s ! il) is)
        [0..<hp_n_layer (st_hparams c)]))
      e True (fold (\<lambda>il. upd_tensor is_k il (load_rows s is (khead (st_kv c)) is_k il)) [0..<hp_n_layer (st_hparams c)] e)"
proof (rule reads_loop [where P = "\<lambda>d. same_layers d c"])
  let ?h = "khead (st_kv c)"
  fix il d assume "il \<in> set [0..<hp_n_layer (st_hparams c)]" and d: "same_layers d c"
  then have il: "il < hp_n_layer (st_hparams c)" by simp
  let ?w = "width_of ((if is_k then k_width else v_width) (st_hparams s)) il" and ?t = "tensors is_k s ! il"
  let ?r = "row_size_of is_k s il" and ?bs = "concat (map (row_at (row_size_of is_k s il) (tensors is_k s ! il)) is)"
  note fit = rows_fit [OF m il rows]
  have "layers_ok c" using m by (simp add: layers_match_def)
  note at = layers_at(1) [OF this il, of is_k]
  note shape = same_layers_at [OF d at]
  have hp: "st_hparams d = st_hparams c" "st_kv d = st_kv c" "st_hparams s = st_hparams c"
    using d m by (simp_all add: same_layers_def layers_match_def)
  have type: "kt_type (tensors is_k d ! il) = kt_type ?t"
    using shape(2) layers_match_type [OF m il, of is_k] by simp
  have "reads R src (read_tensor_rows R (length is) is_k il) (le_bytes 4 (kt_type (tensors is_k d ! il)) @ le_bytes 8 ?r @ ?bs) d True
      (upd_tensor is_k il (splice_t (khead (st_kv d) * ?r) ?bs) d)"
  proof (rule reads_tensor_rows [where f = "(if is_k then k_width else v_width) (st_hparams d)"])
    show "il < hp_n_layer (st_hparams d)" "il < length (tensors is_k d)" using il hp shape(1) by simp_all
    show "?r = unat (ggml_row_size (kt_type (tensors is_k d ! il)) (ucast (width_of ((if is_k then k_width else v_width) (st_hparams d)) il)))"
      by (simp add: row_size_of_def type hp)
    show "rows_ok (ksize (st_kv d)) (width_of ((if is_k then k_width else v_width) (st_hparams d)) il) (tensors is_k d ! il)"
      using fit(1) rows_ok_shape [OF shape(2,3)] by (simp add: hp)
    show "khead (st_kv d) + length is \<le> ksize (st_kv d)" "length ?bs = length is * ?r"
      using cells rows_length [OF fit(3) cells(1)] by (simp_all add: hp)
  qed simp_all
  moreover have "rows_image ?w ?t is = le_bytes 4 (kt_type (tensors is_k d ! il)) @ le_bytes 8 ?r @ ?bs"
    by (simp add: rows_image_def Let_def type row_size_of_def)
  moreover have "same_shape (load_rows s is ?h is_k il (tensors is_k d ! il)) (tensors is_k d ! il)"
    by (rule load_rows_shape [OF m il rows cells]) (use shape in \<open>simp add: same_shape_def\<close>)
  then have "same_layers (upd_tensor is_k il (load_rows s is ?h is_k il) d) c"
    using shape by (intro same_layers_upd [OF d]) (simp add: same_shape_def)
  ultimately show "reads R src (read_tensor_rows R (length is) is_k il) (rows_image ?w ?t is) d True
      (upd_tensor is_k il (load_rows s is ?h is_k il) d) \<and> same_layers (upd_tensor is_k il (load_rows s is ?h is_k il) d) c"
    by (simp add: load_rows_def [abs_def] hp)
qed (rule e)

lemma reads_columns_layers:
  assumes m: "layers_match s c" and cols: "st_v_trans c"
    and cells: "list_all (\<lambda>i. i < ksize (st_kv s)) is" "khead (st_kv c) + length is \<le> ksize (st_kv c)" and e: "same_layers e c"
  shows "reads R src (loopS (read_columns R (length is)) [0..<hp_n_layer (st_hparams c)])
      (concat (map (\<lambda>il. columns_image (ksize (st_kv s)) (width_of (v_width (st_hparams s)) il) (st_v s ! il) is)
        [0..<hp_n_layer (st_hparams c)]))
      e True (fold (\<lambda>il. upd_tensor False il (load_columns s is (khead (st_kv c)) (ksize (st_kv c)) il)) [0..<hp_n_layer (st_hparams c)] e)"
proof (rule reads_loop [where P = "\<lambda>d. same_layers d c"])
  let ?h = "khead (st_kv c)" and ?sz = "ksize (st_kv c)"
  fix il d assume "il \<in> set [0..<hp_n_layer (st_hparams c)]" and d: "same_layers d c"
  then have il: "il < hp_n_layer (st_hparams c)" by simp
  let ?w = "width_of (v_width (st_hparams s)) il" and ?t = "st_v s ! il"
  let ?el = "ggml_type_size (kt_type ?t)"
  let ?b = "\<lambda>j. concat (map (\<lambda>i. row_at ?el ?t (j * ksize (st_kv s) + i)) is)"
  note fit = columns_fit [OF m il cols]
  have "layers_ok c" using m by (simp add: layers_match_def)
  note at = layers_at(1) [OF this il, of False]
  note shape = same_layers_at [OF d at, simplified]
  have hp: "st_hparams d = st_hparams c" "st_kv d = st_kv c" "st_hparams s = st_hparams c"
    using d m by (simp_all add: same_layers_def layers_match_def)
  have type: "kt_type (st_v d ! il) = kt_type ?t"
    using shape(2) layers_match_type [OF m il, of False] by simp
  have "reads R src (read_columns R (length is) il)
      (le_bytes 4 (kt_type (st_v d ! il)) @ le_bytes 4 ?el @ le_bytes 4 (unat ?w) @ concat (map ?b [0..<unat ?w])) d True
      (upd_tensor False il (fold (\<lambda>j. splice_t ((khead (st_kv d) + j * ksize (st_kv d)) * ?el) (?b j)) [0..<unat ?w]) d)"
  proof (rule reads_columns)
    show "il < hp_n_layer (st_hparams d)" "il < length (st_v d)" using il hp shape(1) by simp_all
    show "columns_ok (ksize (st_kv d)) ?w (st_v d ! il)"
      using fit(1) columns_ok_shape [OF shape(2,3)] by (simp add: hp)
    show "khead (st_kv d) + length is \<le> ksize (st_kv d)" using cells by (simp add: hp)
    show "length (?b j) = length is * ?el" if "j < unat ?w" for j using columns_length [OF fit(3) cells(1) that] .
  qed (simp_all add: hp type)
  moreover have "columns_image (ksize (st_kv s)) ?w ?t is
      = le_bytes 4 (kt_type (st_v d ! il)) @ le_bytes 4 ?el @ le_bytes 4 (unat ?w) @ concat (map ?b [0..<unat ?w])"
    by (simp add: columns_image_def Let_def type)
  moreover have "same_shape (load_columns s is ?h ?sz il (st_v d ! il)) (st_v d ! il)"
    by (rule load_columns_shape [OF m il cols cells]) (use shape in \<open>simp add: same_shape_def\<close>)
  then have "same_layers (upd_tensor False il (load_columns s is ?h ?sz il) d) c"
    using shape by (intro same_layers_upd [OF d]) (simp add: same_shape_def)
  ultimately show "reads R src (read_columns R (length is) il) (columns_image (ksize (st_kv s)) ?w ?t is) d True
      (upd_tensor False il (load_columns s is ?h ?sz il) d) \<and> same_layers (upd_tensor False il (load_columns s is ?h ?sz il) d) c"
    by (simp add: load_columns_def [abs_def] Let_def hp)
qed (rule e)

end

text \<open>The fold over the layers, in one.\<close>

lemma fold_layers:
  assumes "layers_ok c"
  defines "n \<equiv> hp_n_layer (st_hparams c)"
  shows "fold (\<lambda>il. upd_tensor True il (f il)) [0..<n] c = c\<lparr>st_k := map (\<lambda>il. f il (st_k c ! il)) [0..<n]\<rparr>"
    "fold (\<lambda>il. upd_tensor False il (f il)) [0..<n] (c\<lparr>st_k := ks\<rparr>) = c\<lparr>st_k := ks, st_v := map (\<lambda>il. f il (st_v c ! il)) [0..<n]\<rparr>"
proof -
  have len: "length (st_k c) = n" "length (st_v c) = n" using assms(1) by (simp_all add: layers_ok_def Let_def n_def)
  show "fold (\<lambda>il. upd_tensor True il (f il)) [0..<n] c = c\<lparr>st_k := map (\<lambda>il. f il (st_k c ! il)) [0..<n]\<rparr>"
    using fold_upd_layers [of n True c f] len by (simp add: set_tensors_def cong: map_cong)
  show "fold (\<lambda>il. upd_tensor False il (f il)) [0..<n] (c\<lparr>st_k := ks\<rparr>)
      = c\<lparr>st_k := ks, st_v := map (\<lambda>il. f il (st_v c ! il)) [0..<n]\<rparr>"
    using fold_upd_layers [of n False "c\<lparr>st_k := ks\<rparr>" f] len by (simp add: set_tensors_def cong: map_cong)
qed

context data_reader
begin

lemma reads_data:
  assumes m: "layers_match s c"
    and cells: "list_all (\<lambda>i. i < ksize (st_kv s)) is" "khead (st_kv c) + length is \<le> ksize (st_kv c)"
  shows "reads R src (read_kv_cache_data R (length is)) (cells_image s is) c True (load_layers s is c)"
proof -
  let ?n = "hp_n_layer (st_hparams c)" and ?h = "khead (st_kv c)"
  let ?e = "c\<lparr>st_k := map (\<lambda>il. load_rows s is ?h True il (st_k c ! il)) [0..<?n]\<rparr>"
  have ok: "layers_ok c" "layers_ok s" "st_hparams s = st_hparams c" "st_v_trans s = st_v_trans c"
    using m by (simp_all add: layers_match_def)
  have n: "?n < 2 ^ 32" "length (st_k c) = ?n" using ok(1) by (simp_all add: layers_ok_def Let_def)
  have keys: "reads R src (loopS (read_tensor_rows R (length is) True) [0..<?n])
      (concat (map (\<lambda>il. rows_image (width_of (k_width (st_hparams s)) il) (st_k s ! il) is) [0..<?n])) c True ?e"
    using reads_rows_layers [OF m _ cells same_layers_refl, of True] by (simp add: fold_layers(1) [OF ok(1)])
  have shape: "same_shape (load_rows s is ?h True il (st_k c ! il)) (st_k c ! il)" if "il < ?n" for il
    by (rule load_rows_shape [OF m that _ cells]) (simp_all add: same_shape_def)
  have e: "same_layers ?e c"
    using shape n(2) by (simp add: same_layers_def list_all2_conv_all_nth same_shape_def [of t t for t])
  have vals: "reads R src (if \<not> st_v_trans c then loopS (read_tensor_rows R (length is) False) [0..<?n]
        else loopS (read_columns R (length is)) [0..<?n])
      (if st_v_trans s then concat (map (\<lambda>il. columns_image (ksize (st_kv s)) (width_of (v_width (st_hparams s)) il) (st_v s ! il) is) [0..<?n])
       else concat (map (\<lambda>il. rows_image (width_of (v_width (st_hparams s)) il) (st_v s ! il) is) [0..<?n]))
      ?e True (load_layers s is c)"
  proof (cases "st_v_trans c")
    case True
    then show ?thesis
      using reads_columns_layers [OF m True cells e] ok(4)
      by (simp add: fold_layers(2) [OF ok(1)] load_layers_def load_value_def Let_def)
  next
    case False
    then show ?thesis
      using reads_rows_layers [OF m _ cells e, of False] ok(4)
      by (simp add: fold_layers(2) [OF ok(1)] load_layers_def load_value_def Let_def)
  qed
  show ?thesis
    unfolding read_kv_cache_data_def cells_image_def Let_def ok(3)
    apply (rule reads_bind [OF reads_num])
    subgoal by simp
    apply (rule reads_bind [OF reads_num])
    subgoal using n(1) by simp
    apply (rule reads_bind0 [OF reads_get])
    using cells(2) ok(4) apply simp
    apply (intro conjI impI)
    subgoal by (rule reads_bind [OF keys [unfolded ok(3)]]) (use vals in \<open>simp add: ok(3,4)\<close>)
    subgoal by (rule reads_bind [OF keys [unfolded ok(3)]]) (use vals in \<open>simp add: ok(3,4)\<close>)
    done
qed

end

section \<open>The data of a cell\<close>

text \<open>The key and the value of a cell in each layer.\<close>

definition cell_value :: "state_ctx \<Rightarrow> nat \<Rightarrow> nat \<Rightarrow> byte list" where
  "cell_value c il i =
    (let t = st_v c ! il in
     if st_v_trans c then
       concat (map (\<lambda>j. row_at (ggml_type_size (kt_type t)) t (j * ksize (st_kv c) + i))
         [0..<unat (width_of (v_width (st_hparams c)) il)])
     else row_at (row_size_of False c il) t i)"

definition cell_data :: "state_ctx \<Rightarrow> nat \<Rightarrow> (byte list \<times> byte list) list" where
  "cell_data c i = map (\<lambda>il. (row_at (row_size_of True c il) (st_k c ! il) i, cell_value c il i))
     [0..<hp_n_layer (st_hparams c)]"

lemma load_rows_row:
  assumes m: "layers_match s c" and il: "il < hp_n_layer (st_hparams c)" and rows: "is_k \<or> \<not> st_v_trans c"
    and cells: "list_all (\<lambda>i. i < ksize (st_kv s)) is" "h + length is \<le> ksize (st_kv c)"
  shows "row_at (row_size_of is_k s il) (load_rows s is h is_k il (tensors is_k c ! il)) j
    = row_at (row_size_of is_k s il) (if h \<le> j \<and> j < h + length is then tensors is_k s ! il else tensors is_k c ! il)
        (if h \<le> j \<and> j < h + length is then is ! (j - h) else j)"
proof -
  let ?r = "row_size_of is_k s il"
  note fit = rows_fit [OF m il rows]
  have "(h + length is) * ?r \<le> length (kt_data (tensors is_k c ! il))"
    using mult_le_mono1 [OF cells(2), of ?r] fit(2) by simp
  note row = row_at_splice [OF rows_length [OF fit(3) cells(1)] this, of j]
  have "take ?r (drop (k * ?r) (concat (map (row_at ?r (tensors is_k s ! il)) is))) = row_at ?r (tensors is_k s ! il) (is ! k)"
    if "k < length is" for k
  proof (rule chunk_concat [OF _ that])
    fix i assume "i \<in> set is"
    then have "i + 1 \<le> ksize (st_kv s)" using cells(1) by (auto simp: list_all_iff Suc_le_eq)
    from mult_le_mono1 [OF this, of ?r] show "length (row_at ?r (tensors is_k s ! il) i) = ?r"
      using fit(3) by (intro row_at_length) simp
  qed
  from this [of "j - h"] row show ?thesis
    unfolding load_rows_def by (cases "h \<le> j \<and> j < h + length is") auto
qed

lemma load_columns_row:
  assumes m: "layers_match s c" and il: "il < hp_n_layer (st_hparams c)" and cols: "st_v_trans c"
    and cells: "list_all (\<lambda>i. i < ksize (st_kv s)) is" "h + length is \<le> ksize (st_kv c)" and k: "k < ksize (st_kv c)"
    and j: "j < unat (width_of (v_width (st_hparams s)) il)"
  defines "el \<equiv> ggml_type_size (kt_type (st_v s ! il))"
  shows "row_at el (load_columns s is h (ksize (st_kv c)) il (st_v c ! il)) (j * ksize (st_kv c) + k)
    = (if h \<le> k \<and> k < h + length is then row_at el (st_v s ! il) (j * ksize (st_kv s) + is ! (k - h))
       else row_at el (st_v c ! il) (j * ksize (st_kv c) + k))"
proof -
  let ?b = "\<lambda>j. concat (map (\<lambda>i. row_at el (st_v s ! il) (j * ksize (st_kv s) + i)) is)"
  note fit = columns_fit [OF m il cols, folded el_def]
  have "take el (drop (n * el) (?b j)) = row_at el (st_v s ! il) (j * ksize (st_kv s) + is ! n)" if "n < length is" for n
  proof (rule chunk_concat [OF _ that])
    fix i assume "i \<in> set is"
    then have "i + 1 \<le> ksize (st_kv s)" using cells(1) by (auto simp: list_all_iff Suc_le_eq)
    from mult_le_mono1 [OF column_bound [OF this j], of el] show "length (row_at el (st_v s ! il) (j * ksize (st_kv s) + i)) = el"
      using fit(3) by (intro row_at_length) (simp add: ac_simps)
  qed
  then show ?thesis
    unfolding load_columns_def Let_def el_def [symmetric]
    using row_at_columns [OF k cells(2) j fit(2), of ?b] columns_length [OF fit(3) cells(1)] by auto
qed

lemma load_layers_data:
  assumes m: "layers_match s c"
    and cells: "list_all (\<lambda>i. i < ksize (st_kv s)) is" "khead (st_kv c) + length is \<le> ksize (st_kv c)" and k: "k < ksize (st_kv c)"
  defines "h \<equiv> khead (st_kv c)"
  shows "cell_data (load_layers s is c) k = (if h \<le> k \<and> k < h + length is then cell_data s (is ! (k - h)) else cell_data c k)"
proof -
  let ?c' = "load_layers s is c" and ?in = "h \<le> k \<and> k < h + length is"
  let ?d = "if ?in then s else c" and ?k = "if ?in then is ! (k - h) else k"
  have hp: "st_hparams ?c' = st_hparams c" "st_hparams s = st_hparams c" "st_kv ?c' = st_kv c" "st_v_trans ?c' = st_v_trans c"
    "st_v_trans s = st_v_trans c"
    using m by (simp_all add: load_layers_def Let_def layers_match_def)
  have type: "kt_type (load_rows s is h is_k il t) = kt_type t" for is_k il t by (simp add: load_rows_def)
  have "(row_at (row_size_of True ?c' il) (st_k ?c' ! il) k, cell_value ?c' il k)
      = (row_at (row_size_of True ?d il) (st_k ?d ! il) ?k, cell_value ?d il ?k)" if il: "il < hp_n_layer (st_hparams c)" for il
  proof -
    have key: "st_k ?c' ! il = load_rows s is h True il (st_k c ! il)" using il by (simp add: load_layers_def Let_def h_def)
    have val: "st_v ?c' ! il = load_value s is h (ksize (st_kv c)) il (st_v c ! il)" using il by (simp add: load_layers_def Let_def h_def)
    note match = layers_match_type [OF m il] and sizes = row_size_match [OF m il]
    note cells' = cells(1) cells(2) [folded h_def]
    have "row_size_of True ?c' il = row_size_of True s il"
      using match [of True] by (simp add: row_size_of_def key type hp)
    then have keys: "row_at (row_size_of True ?c' il) (st_k ?c' ! il) k = row_at (row_size_of True ?d il) (st_k ?d ! il) ?k"
      using load_rows_row [OF m il _ cells', of True k] key sizes [of True] by simp
    have "cell_value ?c' il k = cell_value ?d il ?k"
    proof (cases "st_v_trans c")
      case True
      have "kt_type (st_v ?c' ! il) = kt_type (st_v s ! il)"
        using load_columns_shape [OF m il True cells', of "st_v c ! il"] match [of False] val True hp(5)
        by (simp add: load_value_def same_shape_def)
      then show ?thesis
        using load_columns_row [OF m il True cells' k] val True hp match [of False]
        by (auto simp: cell_value_def load_value_def Let_def intro!: arg_cong [where f = concat] map_cong)
    next
      case False
      then have "row_size_of False ?c' il = row_size_of False s il"
        using match [of False] val hp by (simp add: row_size_of_def load_value_def type)
      then show ?thesis
        using load_rows_row [OF m il _ cells', of False k] val False hp sizes [of False] by (simp add: cell_value_def load_value_def)
    qed
    with keys show ?thesis by simp
  qed
  then have "cell_data ?c' k = cell_data ?d ?k" by (simp add: cell_data_def hp)
  then show ?thesis by simp
qed

end
