(* ===== verification/StateRoundtrip.thy ===== *)
theory StateRoundtrip
  imports StateLayers KvDecodeProps
begin

text \<open>
  Saving a state and restoring it in a context of the same model: nothing of the saved state is lost, and a
  truncated state is refused.
\<close>

section \<open>Output buffers\<close>

lemma chunks_concat:
  assumes "length xs = m * w" shows "concat (map (\<lambda>i. take w (drop (i * w) xs)) [0..<m]) = xs"
proof -
  have "concat (map (\<lambda>i. take w (drop (i * w) xs)) [0..<k]) = take (k * w) xs" for k
  proof (induction k)
    case (Suc k)
    have "Suc k * w = k * w + w" by simp
    then show ?case using Suc by (simp only: take_add) simp
  qed simp
  then show ?thesis using assms by simp
qed

lemma flat_put_rows:
  assumes "length fs \<le> length (flat_rows w rs)" "length (flat_rows w rs) = length rs * w"
  shows "flat_rows w (put_rows w fs rs) = fs @ drop (length fs) (flat_rows w rs)"
proof -
  let ?flat = "fs @ drop (length fs) (flat_rows w rs)"
  have "flat_rows w (put_rows w fs rs) = concat (map (\<lambda>i. take w (drop (i * w) ?flat)) [0..<length rs])"
    by (simp add: flat_rows_def put_rows_def Let_def comp_def)
  also have "\<dots> = ?flat" by (rule chunks_concat) (use assms in simp)
  finally show ?thesis .
qed

lemma used_put_rows:
  assumes "length fs = n * w" "n \<le> m"
  shows "used_floats n w (Some (if fs = [] then replicate m None else put_rows w fs (replicate m None))) = fs"
proof (cases "fs = []")
  case True
  then show ?thesis using assms by (auto simp: used_floats_def)
next
  case False
  have "length fs \<le> m * w" unfolding assms(1) using assms(2) by (rule mult_le_mono1)
  then have "flat_rows w (put_rows w fs (replicate m None)) = fs @ drop (length fs) (flat_rows w (replicate m None))"
    by (intro flat_put_rows) (simp_all add: flat_fresh)
  then show ?thesis using False assms(1) by (simp add: used_floats_def)
qed

section \<open>The cache\<close>

abbreviation saved_cells :: "state_ctx \<Rightarrow> kv_cell list" where
  "saved_cells c \<equiv> map (\<lambda>i. kcells (st_kv c) ! i) (saved (st_kv c) (-1))"

text \<open>The cached tokens of a context with their data, in the order of the cells.\<close>

definition cached :: "state_ctx \<Rightarrow> (int \<times> int set \<times> (byte list \<times> byte list) list) list" where
  "cached c = map (\<lambda>i. (cpos (kcells (st_kv c) ! i), cseq (kcells (st_kv c) ! i), cell_data c i)) (saved (st_kv c) (-1))"

definition loaded_cells :: "kv_cell list \<Rightarrow> kv_cell list \<Rightarrow> nat \<Rightarrow> kv_cell list" where
  "loaded_cells cs cells n = map (\<lambda>j. if j < length cs then (cells ! j)\<lparr>cpos := cpos (cs ! j), cseq := cseq (cs ! j)\<rparr>
     else (cells ! j)\<lparr>cpos := -1, cseq := {}\<rparr>) [0..<n]"

definition loaded_cache :: "kv_cell list \<Rightarrow> kv_cache \<Rightarrow> kv_cache" where
  "loaded_cache cs cache = cache\<lparr>kcells := loaded_cells cs (kcells cache) (ksize cache), khead := 0, kused := of_nat (length cs)\<rparr>"

definition kv_restored :: "state_ctx \<Rightarrow> state_ctx \<Rightarrow> state_ctx" where
  "kv_restored s c = load_layers s (saved (st_kv s) (-1)) (set_kv (loaded_cache (saved_cells s) (st_kv c)) (clear_data c))"

text \<open>Room for the saved cells, and sequence ids that the cache admits.\<close>

definition room_for :: "state_ctx \<Rightarrow> state_ctx \<Rightarrow> bool" where
  "room_for s c \<longleftrightarrow> length (saved_cells s) \<le> ksize (st_kv c) \<and> list_all (cell_fits (ksize (st_kv c))) (saved_cells s)"

lemma saved_less: "list_all (\<lambda>i. i < ksize cache) (saved cache seq_id)"
  by (simp add: saved_def list_all_iff)

lemma saves_all: "saves (-1) cell \<longleftrightarrow> cseq cell \<noteq> {}"
  by (auto simp: saves_def is_empty_def has_seq_id_def)

lemma layers_match_set_kv:
  assumes "ksize cache = ksize (st_kv c)" "layers_match s c" shows "layers_match s (set_kv cache c)"
proof -
  have "layers_ok (set_kv cache c) = layers_ok c" by (simp only: layers_ok_def set_kv_simps assms(1))
  then show ?thesis using assms(2) by (simp add: layers_match_def)
qed

lemma layers_match_clear:
  assumes "layers_match s c" shows "layers_match s (clear_data c)"
proof -
  have "layers_ok (clear_data c)"
    using assms by (auto simp: layers_match_def layers_ok_def Let_def clear_data_def rows_ok_def columns_ok_def)
  then show ?thesis using assms by (simp add: layers_match_def clear_data_def comp_def)
qed

lemma loaded_cells_saved:
  assumes "length cs \<le> n" "list_all (\<lambda>cell. cseq cell \<noteq> {}) cs"
  shows "filter (\<lambda>i. saves (-1) (loaded_cells cs cells n ! i)) [0..<n] = [0..<length cs]"
proof -
  have "saves (-1) (loaded_cells cs cells n ! i) \<longleftrightarrow> i < length cs" if "i < n" for i
    using that assms(2) by (auto simp: saves_all loaded_cells_def list_all_length)
  then have "filter (\<lambda>i. saves (-1) (loaded_cells cs cells n ! i)) [0..<n] = filter (\<lambda>i. i < length cs) [0..<n]"
    by (intro filter_cong) simp_all
  also have "\<dots> = [0..<length cs]"
    using assms(1) by (auto simp: filter_False dest!: le_Suc_ex simp: upt_add_eq_append [of 0, simplified])
  finally show ?thesis .
qed

lemma loaded_cache_saved:
  assumes "room_for s c"
  shows "saved (loaded_cache (saved_cells s) (st_kv c)) (-1) = [0..<length (saved (st_kv s) (-1))]"
  using loaded_cells_saved [of "saved_cells s" "ksize (st_kv c)"] assms
  by (simp add: room_for_def saved_def loaded_cache_def list_all_iff saves_all)

lemma length_filter_nth: "length (filter P xs) = length (filter (\<lambda>i. P (xs ! i)) [0..<length xs])"
  using length_map [of "\<lambda>i. xs ! i" "filter (\<lambda>i. P (xs ! i)) [0..<length xs]"]
    filter_map [of P "\<lambda>i. xs ! i" "[0..<length xs]"] by (simp add: comp_def map_nth)

lemma loaded_cache_inv:
  assumes "kv_inv (st_kv s)" "kv_inv (st_kv c)" "room_for s c"
  shows "kv_inv (loaded_cache (saved_cells s) (st_kv c))"
proof -
  let ?cs = "saved_cells s" and ?cache = "loaded_cache (saved_cells s) (st_kv c)"
  have len: "length (kcells ?cache) = ksize ?cache" by (simp add: loaded_cache_def loaded_cells_def)
  have "occupied (kcells ?cache) = length (filter (\<lambda>i. saves (-1) (kcells ?cache ! i)) [0..<length (kcells ?cache)])"
    unfolding occupied_def by (subst length_filter_nth) (simp add: saves_all is_empty_def)
  also have "\<dots> = length ?cs" unfolding len using arg_cong [OF loaded_cache_saved [OF assms(3)], of length]
    by (simp add: saved_def [of ?cache])
  finally have occ: "occupied (kcells ?cache) = length ?cs" .
  have cells: "list_all cell_ok ?cs" using assms(1) by (auto simp: kv_inv_def saved_def list_all_iff)
  have "list_all cell_ok (kcells ?cache)"
    using cells by (auto simp: loaded_cache_def loaded_cells_def list_all_length cell_ok_def is_empty_def)
  moreover have "unat (of_nat (length ?cs) :: u32) = length ?cs"
    using assms(2,3) by (intro unat_of_nat_less) (simp add: room_for_def kv_inv_def)
  ultimately show ?thesis using occ len assms(2) by (simp add: kv_inv_def loaded_cache_def)
qed

lemma kv_restored_simps:
  "st_kv (kv_restored s c) = loaded_cache (saved_cells s) (st_kv c)" "st_rng (kv_restored s c) = st_rng c"
  "st_ctx (kv_restored s c) = (st_ctx c)\<lparr>kv := loaded_cache (saved_cells s) (st_kv c)\<rparr>"
  by (simp_all add: kv_restored_def load_layers_def set_kv_def Let_def)

lemma kv_restored_params: "st_params (kv_restored s c) = st_params c"
  by (simp add: kv_restored_def load_layers_def set_kv_def Let_def)

lemma kv_restored_cached:
  assumes "layers_match s c" "room_for s c"
  shows "cached (kv_restored s c) = cached s"
proof (rule nth_equalityI)
  let ?is = "saved (st_kv s) (-1)" and ?cache = "loaded_cache (saved_cells s) (st_kv c)"
  have sv: "saved (st_kv (kv_restored s c)) (-1) = [0..<length ?is]"
    using loaded_cache_saved [OF assms(2)] by (simp add: kv_restored_simps)
  show "length (cached (kv_restored s c)) = length (cached s)" by (simp add: cached_def sv)
  fix i assume "i < length (cached (kv_restored s c))"
  then have i: "i < length ?is" by (simp add: cached_def sv)
  have le: "length ?is \<le> ksize (st_kv c)" using assms(2) by (simp add: room_for_def)
  have m: "layers_match s (set_kv ?cache (clear_data c))"
    using layers_match_set_kv [OF _ layers_match_clear [OF assms(1)], of ?cache] by (simp add: loaded_cache_def)
  have "cell_data (kv_restored s c) i = cell_data s (?is ! i)"
    using load_layers_data [OF m saved_less, of "-1" i] i le by (simp add: kv_restored_def loaded_cache_def)
  moreover have "cpos (kcells (st_kv (kv_restored s c)) ! i) = cpos (kcells (st_kv s) ! (?is ! i))"
    "cseq (kcells (st_kv (kv_restored s c)) ! i) = cseq (kcells (st_kv s) ! (?is ! i))"
    using i le by (simp_all add: kv_restored_simps loaded_cache_def loaded_cells_def)
  ultimately show "cached (kv_restored s c) ! i = cached s ! i" using i by (simp add: cached_def sv)
qed

context data_reader
begin

lemma reads_kv:
  assumes "kv_inv (st_kv c)" "layers_match s c" "room_for s c"
  shows "reads R src (read_kv_cache R (-1)) (cache_image s (-1)) c () (kv_restored s c)"
proof -
  let ?is = "saved (st_kv s) (-1)" and ?cache = "loaded_cache (saved_cells s) (st_kv c)"
  have room: "length ?is \<le> ksize (st_kv c)" "ksize (st_kv c) < 2 ^ 32"
    using assms(1,3) by (simp_all add: room_for_def kv_inv_def)
  have cells: "reads R src (read_cells R (length ?is)) (concat (map (\<lambda>i. cell_image (-1) (kcells (st_kv s) ! i)) ?is)) c True (set_kv ?cache (clear_data c))"
    using reads_cells [of "saved_cells s" c] assms(1,3)
    by (simp add: room_for_def kv_inv_def loaded_cache_def loaded_cells_def comp_def)
  have m: "layers_match s (set_kv ?cache (clear_data c))"
    using layers_match_set_kv [OF _ layers_match_clear [OF assms(2)], of ?cache] by (simp add: loaded_cache_def)
  have data: "reads R src (read_kv_cache_data R (length ?is)) (cells_image s ?is) (set_kv ?cache (clear_data c)) True (kv_restored s c)"
    unfolding kv_restored_def by (rule reads_data [OF m saved_less]) (use room in \<open>simp add: loaded_cache_def\<close>)
  show ?thesis
    unfolding read_kv_cache_def cache_image_def Let_def read_kv_cache_meta_def
    apply (rule reads_bind [OF reads_num])
    subgoal using room by simp
    apply (simp only: simp_thms if_False if_True)
    apply (rule reads_bind [OF cells])
    apply (simp only: simp_thms if_True)
    apply (rule reads_bind1 [OF data])
    by (simp add: reads_return)
qed

end

section \<open>The whole state\<close>

text \<open>
  A context to restore in: of the same model and parameters, with room for the cells; its output buffers are
  those of the parameters, unless the saved state has no outputs.
\<close>

definition outputs_match :: "state_ctx \<Rightarrow> bool" where
  "outputs_match s \<longleftrightarrow> (let p = st_params s in n_outputs (st_ctx s) = 0
     \<or> (logits (st_ctx s) = None \<longleftrightarrow> embeddings p) \<and> (embd (st_ctx s) = None \<longleftrightarrow> \<not> (embeddings p \<and> pooling p = PoolNone)))"

definition restorable :: "state_ctx \<Rightarrow> state_ctx \<Rightarrow> bool" where
  "restorable s c \<longleftrightarrow> st_arch c = st_arch s \<and> st_params c = st_params s \<and> kv_inv (st_kv c)
     \<and> layers_match s c \<and> room_for s c \<and> outputs_match s
     \<and> (output_ids (st_ctx c) = [] \<or> length (output_ids (st_ctx c)) = n_batch (st_params c))"

text \<open>
  What is the same after restoring: the generator, the outputs (a token without one has -1), and the cached
  tokens with their data.
\<close>

definition same_state :: "state_ctx \<Rightarrow> state_ctx \<Rightarrow> bool" where
  "same_state s c \<longleftrightarrow> st_rng c = st_rng s \<and> n_outputs (st_ctx c) = n_outputs (st_ctx s)
     \<and> output_ids (st_ctx c) = map (max (-1)) (output_ids (st_ctx s))
     \<and> used_floats (n_outputs (st_ctx c)) (n_vocab (st_params c)) (logits (st_ctx c))
       = used_floats (n_outputs (st_ctx s)) (n_vocab (st_params s)) (logits (st_ctx s))
     \<and> used_floats (n_outputs (st_ctx c)) (n_embd (st_params c)) (embd (st_ctx c))
       = used_floats (n_outputs (st_ctx s)) (n_embd (st_params s)) (embd (st_ctx s))
     \<and> kv_inv (st_kv c) \<and> cached c = cached s"

definition saved_logits :: "state_ctx \<Rightarrow> u32 list" where
  "saved_logits s = used_floats (n_outputs (st_ctx s)) (n_vocab (st_params s)) (logits (st_ctx s))"

definition saved_embd :: "state_ctx \<Rightarrow> u32 list" where
  "saved_embd s = used_floats (n_outputs (st_ctx s)) (n_embd (st_params s)) (embd (st_ctx s))"

definition restored :: "state_ctx \<Rightarrow> state_ctx \<Rightarrow> state_ctx" where
  "restored s c = kv_restored s (put_embd (saved_embd s) (put_logits (saved_logits s)
     (with_outputs s (c\<lparr>st_rng := st_rng s\<rparr>))))"

lemma used_floats_length:
  assumes "buffer_ok m w sz rows" "n \<le> m"
  shows "length (used_floats n w rows) = (if rows = None then 0 else n * w)"
proof (cases rows)
  case (Some rs)
  with assms(1) have "length (flat_rows w rs) = m * w" using flat_rows_length [of w rs] by (simp add: buffer_ok_def)
  then show ?thesis using Some mult_le_mono1 [OF assms(2), of w] by (simp add: used_floats_def)
qed (simp add: used_floats_def)

lemma with_outputs_simps:
  fixes s c defines "m \<equiv> max (n_outputs (st_ctx s)) (n_seq_max (st_params c))"
  shows "st_kv (with_outputs s c) = st_kv c" "st_params (with_outputs s c) = st_params c" "st_rng (with_outputs s c) = st_rng c"
    "n_outputs (st_ctx (with_outputs s c)) = n_outputs (st_ctx s)"
    "output_ids (st_ctx (with_outputs s c)) = map (max (-1)) (output_ids (st_ctx s))"
    "logits_size (st_ctx (with_outputs s c)) = (if embeddings (st_params c) then 0 else n_vocab (st_params c) * m)"
    "embd_size (st_ctx (with_outputs s c)) = (if embeddings (st_params c) \<and> pooling (st_params c) = PoolNone then n_embd (st_params c) * m else 0)"
    "logits (st_ctx (with_outputs s c)) = (if embeddings (st_params c) then None else Some (replicate m None))"
    "embd (st_ctx (with_outputs s c)) = (if embeddings (st_params c) \<and> pooling (st_params c) = PoolNone then Some (replicate m None) else None)"
  by (simp_all add: with_outputs_def reserved_fields m_def)

lemma put_simps [simp]:
  "st_kv (put_logits fs c) = st_kv c" "st_params (put_logits fs c) = st_params c" "st_rng (put_logits fs c) = st_rng c"
  "st_kv (put_embd fs c) = st_kv c" "st_params (put_embd fs c) = st_params c" "st_rng (put_embd fs c) = st_rng c"
  "n_outputs (st_ctx (put_logits fs c)) = n_outputs (st_ctx c)" "n_outputs (st_ctx (put_embd fs c)) = n_outputs (st_ctx c)"
  "output_ids (st_ctx (put_logits fs c)) = output_ids (st_ctx c)" "output_ids (st_ctx (put_embd fs c)) = output_ids (st_ctx c)"
  "embd (st_ctx (put_logits fs c)) = embd (st_ctx c)" "embd_size (st_ctx (put_logits fs c)) = embd_size (st_ctx c)"
  "logits (st_ctx (put_embd fs c)) = logits (st_ctx c)"
  by (simp_all add: put_logits_def put_embd_def)

lemma logits_put_logits:
  "logits (st_ctx (put_logits fs c)) = (if fs = [] then logits (st_ctx c)
     else Some (put_rows (n_vocab (st_params c)) fs (the (logits (st_ctx c)))))"
  by (simp add: put_logits_def)

lemma embd_put_embd:
  "embd (st_ctx (put_embd fs c)) = (if fs = [] then embd (st_ctx c)
     else Some (put_rows (n_embd (st_params c)) fs (the (embd (st_ctx c)))))"
  by (simp add: put_embd_def)

lemma put_tensors [simp]:
  "st_hparams (with_outputs s c) = st_hparams c" "st_v_trans (with_outputs s c) = st_v_trans c"
  "st_k (with_outputs s c) = st_k c" "st_v (with_outputs s c) = st_v c"
  "st_hparams (put_logits fs c) = st_hparams c" "st_v_trans (put_logits fs c) = st_v_trans c"
  "st_k (put_logits fs c) = st_k c" "st_v (put_logits fs c) = st_v c"
  "st_hparams (put_embd fs c) = st_hparams c" "st_v_trans (put_embd fs c) = st_v_trans c"
  "st_k (put_embd fs c) = st_k c" "st_v (put_embd fs c) = st_v c"
  by (simp_all add: with_outputs_def put_logits_def put_embd_def)

lemma layers_match_cong:
  assumes "st_kv d = st_kv c" "st_hparams d = st_hparams c" "st_v_trans d = st_v_trans c" "st_k d = st_k c" "st_v d = st_v c"
  shows "layers_match s d = layers_match s c"
  by (simp only: layers_match_def layers_ok_def assms)

lemma used_floats_rows:
  assumes "buffer_ok k w sz rows" "n \<le> k" "n \<le> m" "n = 0 \<or> (rows = None \<longleftrightarrow> \<not> p)"
  defines "fs \<equiv> used_floats n w rows" and "rs \<equiv> (if p then Some (replicate m None) else None)"
  shows "used_floats n w (if fs = [] then rs else Some (put_rows w fs (the rs))) = fs"
proof (cases "p \<and> rows \<noteq> None")
  case True
  then have "length fs = n * w" using used_floats_length [OF assms(1,2)] by (auto simp: fs_def)
  from used_put_rows [OF this assms(3)] True show ?thesis by (simp add: rs_def split: if_splits)
next
  case False
  then have "fs = []" using assms(4) used_floats_length [OF assms(1,2)] by (auto simp: fs_def used_floats_def split: option.splits)
  with False assms(4) show ?thesis by (auto simp: rs_def used_floats_def)
qed

lemma used_floats_fit:
  assumes "buffer_ok k w sz rows" "n \<le> k" "n \<le> m" "k * w < 2 ^ 62" "n = 0 \<or> (rows = None \<longleftrightarrow> \<not> p)"
  shows "fits (used_floats n w rows) w (if p then w * m else 0) (if p then Some (replicate m None) else None)"
proof -
  have len: "length (used_floats n w rows) \<le> n * w" using used_floats_length [OF assms(1,2)] by simp
  moreover have "length (used_floats n w rows) \<le> m * w" "length (used_floats n w rows) \<le> k * w"
    using order_trans [OF len mult_le_mono1 [OF assms(3)]] order_trans [OF len mult_le_mono1 [OF assms(2)]] .
  moreover have "n = 0 \<or> \<not> p \<Longrightarrow> used_floats n w rows = []"
    using assms(5) used_floats_length [OF assms(1,2)] by (auto split: if_splits)
  ultimately show ?thesis using assms(4) by (auto simp: fits_def flat_fresh mult.commute)
qed

context data_reader
begin

lemma reads_state:
  assumes s: "saveable s" and c: "restorable s c"
  shows "reads R src (bindS (read_model_info R) (\<lambda>_. bindS (read_rng R) (\<lambda>_. bindS (read_output_ids (\<lambda>_. True) R) (\<lambda>_.
      bindS (read_logits R) (\<lambda>_. bindS (read_embeddings R) (\<lambda>_. read_kv_cache R (-1)))))))
    (state_image s) c () (restored s c)"
proof -
  let ?c1 = "c\<lparr>st_rng := st_rng s\<rparr>"
  let ?c2 = "with_outputs s ?c1"
  let ?c3 = "put_logits (saved_logits s) ?c2"
  let ?c4 = "put_embd (saved_embd s) ?c3"
  let ?m = "max (n_outputs (st_ctx s)) (n_seq_max (st_params c))"
  note [simp] = c [unfolded restorable_def]
  have outs: "outputs_ok s" "length (st_rng s) = MT_STATE_SIZE" using s by (simp_all add: saveable_def)
  then have ok: "n_outputs (st_ctx s) \<le> output_size (st_ctx s)" "n_outputs (st_ctx s) < 2 ^ 31"
    "buffer_ok (output_size (st_ctx s)) (n_vocab (st_params s)) (logits_size (st_ctx s)) (logits (st_ctx s))"
    "buffer_ok (output_size (st_ctx s)) (n_embd (st_params s)) (embd_size (st_ctx s)) (embd (st_ctx s))"
    "output_size (st_ctx s) * n_vocab (st_params s) < 2 ^ 62" "output_size (st_ctx s) * n_embd (st_params s) < 2 ^ 62"
    by (simp_all add: outputs_ok_def Let_def)
  have arch: "arch_text s = arch_text c" by (simp add: arch_text_def)
  have match: "n_outputs (st_ctx s) = 0 \<or> (logits (st_ctx s) = None) = (\<not> (\<not> embeddings (st_params s)))"
    "n_outputs (st_ctx s) = 0 \<or> (embd (st_ctx s) = None) = (\<not> (embeddings (st_params s) \<and> pooling (st_params s) = PoolNone))"
    using c by (auto simp: restorable_def outputs_match_def Let_def)
  have logits: "fits (saved_logits s) (n_vocab (st_params ?c2)) (logits_size (st_ctx ?c2)) (logits (st_ctx ?c2))"
    using used_floats_fit [OF ok(3,1) max.cobounded1 [of _ "n_seq_max (st_params s)"] ok(5) match(1)]
    by (cases "embeddings (st_params s)") (simp_all add: with_outputs_simps saved_logits_def)
  have embd: "fits (saved_embd s) (n_embd (st_params ?c3)) (embd_size (st_ctx ?c3)) (embd (st_ctx ?c3))"
    using used_floats_fit [OF ok(4,1) max.cobounded1 [of _ "n_seq_max (st_params s)"] ok(6) match(2)]
    by (cases "embeddings (st_params s) \<and> pooling (st_params s) = PoolNone") (auto simp: with_outputs_simps saved_embd_def)
  have kv: "reads R src (read_kv_cache R (-1)) (cache_image s (-1)) ?c4 () (restored s c)"
    unfolding restored_def
  proof (rule reads_kv)
    show "layers_match s ?c4"
      using layers_match_cong [of ?c4 c s] c by (simp add: with_outputs_simps restorable_def)
    show "kv_inv (st_kv ?c4)" "room_for s ?c4"
      using c by (simp_all add: with_outputs_simps restorable_def room_for_def)
  qed
  show ?thesis
    unfolding state_image_def saved_logits_def [symmetric] saved_embd_def [symmetric]
    apply (rule reads_bind [OF reads_model_info [OF arch]])
    apply (rule reads_bind [OF reads_rng [OF outs(2)]])
    apply (rule reads_bind [OF reads_output_ids [OF outs(1)]])
    subgoal by simp
    subgoal using c by (simp add: restorable_def)
    apply (rule reads_bind [OF reads_logits [OF logits]])
    apply (rule reads_bind [OF reads_embeddings [OF embd]])
    by (rule kv)
qed

end

lemma state_set_data_internal:
  "llama_state_set_data_internal alloc R = bindS (bindS (read_model_info R) (\<lambda>_. bindS (read_rng R) (\<lambda>_.
     bindS (read_output_ids alloc R) (\<lambda>_. bindS (read_logits R) (\<lambda>_. bindS (read_embeddings R) (\<lambda>_.
     read_kv_cache R (-1))))))) (\<lambda>_ s. (Inr (dr_size R (fst s)), s))"
  by (simp add: llama_state_set_data_internal_def fun_eq_iff bindS_def split: prod.split sum.split)

lemma restored_same:
  assumes s: "saveable s" and c: "restorable s c"
  shows "same_state s (restored s c)"
proof -
  let ?n = "n_outputs (st_ctx s)" and ?p = "st_params s"
  let ?c4 = "put_embd (saved_embd s) (put_logits (saved_logits s) (with_outputs s (c\<lparr>st_rng := st_rng s\<rparr>)))"
  let ?m = "max ?n (n_seq_max ?p)" and ?e = "embeddings ?p \<and> pooling ?p = PoolNone"
  have ok: "?n \<le> output_size (st_ctx s)" "kv_inv (st_kv s)"
    "buffer_ok (output_size (st_ctx s)) (n_vocab ?p) (logits_size (st_ctx s)) (logits (st_ctx s))"
    "buffer_ok (output_size (st_ctx s)) (n_embd ?p) (embd_size (st_ctx s)) (embd (st_ctx s))"
    using s by (simp_all add: saveable_def outputs_ok_def Let_def)
  have match: "?n = 0 \<or> (logits (st_ctx s) = None \<longleftrightarrow> \<not> (\<not> embeddings ?p))" "?n = 0 \<or> (embd (st_ctx s) = None \<longleftrightarrow> \<not> ?e)"
    using c by (auto simp: restorable_def outputs_match_def Let_def)
  have same: "st_params c = ?p" "kv_inv (st_kv c)" "room_for s c" "layers_match s c"
    using c by (simp_all add: restorable_def)
  have room: "room_for s ?c4" "layers_match s ?c4" "kv_inv (st_kv ?c4)"
    using same layers_match_cong [of ?c4 c s] by (simp_all add: room_for_def with_outputs_simps)
  have logits: "used_floats ?n (n_vocab ?p) (logits (st_ctx ?c4)) = saved_logits s"
    using used_floats_rows [OF ok(3,1) max.cobounded1 [of _ "n_seq_max ?p"] match(1)] same(1)
    by (cases "embeddings ?p"; cases "saved_logits s = []") (simp_all add: logits_put_logits with_outputs_simps saved_logits_def)
  have embd: "used_floats ?n (n_embd ?p) (embd (st_ctx ?c4)) = saved_embd s"
    using used_floats_rows [OF ok(4,1) max.cobounded1 [of _ "n_seq_max ?p"] match(2)] same(1)
    by (cases ?e; cases "saved_embd s = []") (auto simp: embd_put_embd with_outputs_simps saved_embd_def)
  have params: "st_params (kv_restored s ?c4) = ?p"
    using same(1) by (simp add: kv_restored_params with_outputs_simps)
  show ?thesis
    using kv_restored_cached [OF room(2,1)] loaded_cache_inv [OF ok(2) room(3,1)] logits embd params
    unfolding same_state_def restored_def kv_restored_simps
    by (simp add: kv_restored_simps with_outputs_simps saved_logits_def saved_embd_def)
qed

lemma state_set_data_restores:
  assumes "saveable s" "restorable s c"
  shows "llama_state_set_data (\<lambda>_. True) (state_image s @ rest) (length (state_image s)) c = (Inr (length (state_image s)), restored s c)"
  using bufread.reads_source [OF bufread.reads_state [OF assms],
      of "\<lparr>rb_mem = state_image s @ rest, rb_buf_size = length (state_image s), rb_size_read = 0\<rparr>" "[]"]
  by (auto simp: llama_state_set_data_def read_from_buffer_def state_set_data_internal buffer_rest_def bindS_def caught_def
      llama_data_read_buffer_def)

lemma state_set_data_truncated:
  assumes "saveable s" "restorable s c" "n < length (state_image s)"
  shows "fst (llama_state_set_data (\<lambda>_. True) (state_image s @ rest) n c) = Inr 0"
proof -
  have "drop n (state_image s) \<noteq> []" "take n (state_image s) @ drop n (state_image s) = state_image s" using assms(3) by simp_all
  with bufread.reads_truncated [OF bufread.reads_state [OF assms(1,2)],
      of "\<lparr>rb_mem = state_image s @ rest, rb_buf_size = n, rb_size_read = 0\<rparr>" "take n (state_image s)" "drop n (state_image s)"]
    assms(3)
  show ?thesis
    by (auto simp: llama_state_set_data_def read_from_buffer_def state_set_data_internal buffer_rest_def bindS_def caught_def
        thrown_def)
qed

text \<open>
  C21: A saved state can be restored: saving the state of a context in a buffer of the size that
  \<open>llama_state_get_size\<close> announces and restoring it in another context of the same model, whatever this
  context held, succeeds, reads exactly the bytes of the state, and gives a context with the same generator,
  outputs and cached tokens: positions, sequences, and the data of the keys and values of every layer. With
  fewer bytes than the state has, restoring returns 0.
\<close>

theorem state_roundtrip:
  assumes "saveable s" "restorable s c"
  shows "\<exists>k bs c'. llama_state_get_size s = Inr k \<and> llama_state_get_data s k = Inr (k, bs)
    \<and> llama_state_set_data (\<lambda>_. True) (bs @ rest) k c = (Inr k, c') \<and> same_state s c'
    \<and> (\<forall>n<k. fst (llama_state_set_data (\<lambda>_. True) (bs @ rest) n c) = Inr 0)"
  using state_size_exact [OF assms(1)] state_get_image [OF assms(1), of "length (state_image s)"] state_set_data_restores [OF assms] restored_same [OF assms]
    state_set_data_truncated [OF assms] by auto

text \<open>Two cached tokens and the logits of one output; and an empty context with three cells.\<close>

definition saved_sample :: state_ctx where
  "saved_sample = \<lparr>st_arch = LLM_ARCH_LLAMA,
     st_hparams = \<lparr>hp_n_layer = 1, n_head_kv_arr = [1], n_embd_head_k = 1, n_embd_head_v = 1, ssm_d_conv = 0,
       ssm_d_inner = 0, ssm_d_state = 0\<rparr>,
     st_params = sample_params, st_rng = replicate 624 7,
     st_ctx = \<lparr>kv = sample_cache, kdata = [], output_ids = [-1, 0, -1, -1], n_outputs = 1, buf_size = Some 8, output_size = 1,
       logits = Some [Some [1, 2]], embd = None, logits_size = 2, embd_size = 0, embd_seq = Map.empty\<rparr>,
     st_v_trans = True, st_k = [\<lparr>kt_type = 0, kt_data = replicate 16 1\<rparr>], st_v = [\<lparr>kt_type = 0, kt_data = replicate 16 2\<rparr>]\<rparr>"

definition sample_target :: state_ctx where
  "sample_target = saved_sample\<lparr>st_rng := replicate 624 0,
     st_ctx := \<lparr>kv = llama_kv_cache_init False 3, kdata = [], output_ids = [], n_outputs = 0, buf_size = None, output_size = 0,
       logits = None, embd = None, logits_size = 0, embd_size = 0, embd_seq = Map.empty\<rparr>,
     st_k := [\<lparr>kt_type = 0, kt_data = replicate 12 0\<rparr>], st_v := [\<lparr>kt_type = 0, kt_data = replicate 12 0\<rparr>]\<rparr>"

lemma sample_widths: "width_of (k_width (st_hparams saved_sample)) 0 = 1" "width_of (v_width (st_hparams saved_sample)) 0 = 1"
  by (simp_all add: saved_sample_def width_of_def k_width_def v_width_def n_embd_k_gqa_def n_embd_v_gqa_def n_head_kv_def
      n_embd_k_s_def n_embd_v_s_def)

lemma sample_row_size: "ggml_type_size 0 = 4" "ggml_row_size 0 1 = 4"
  by (simp_all add: ggml_row_size_def ggml_type_size_def ggml_blck_size_def type_traits_def)

lemma sample_layers: "layers_ok saved_sample" "layers_ok sample_target"
  using sample_widths sample_row_size
  by (simp_all add: layers_ok_def Let_def rows_ok_def columns_ok_def) (simp_all add: saved_sample_def sample_target_def llama_kv_cache_init_def)

lemma saved_sample_ok: "saveable saved_sample"
proof -
  have "outputs_ok saved_sample"
    by (auto simp: outputs_ok_def Let_def saved_sample_def sample_params_def buffer_ok_def less_Suc_eq nth_Cons')
  then show ?thesis
    using sample_layers(1) sample_cache_inv by (simp add: saveable_def) (simp add: saved_sample_def MT_STATE_SIZE_def)
qed

lemma sample_restorable: "restorable saved_sample sample_target"
proof -
  have inv: "kv_inv (st_kv sample_target)"
    by (simp add: sample_target_def kv_inv_def llama_kv_cache_init_def new_cell_def cell_ok_def is_empty_def list_all_iff
        occupied_def)
  have saved: "saved_cells saved_sample = [new_cell\<lparr>cpos := 0, cseq := {0}\<rparr>, new_cell\<lparr>cpos := 1, cseq := {0, 1}\<rparr>]"
    by (simp add: saved_def saved_sample_def saves_all upt_rec sample_cache_def llama_kv_cache_init_def new_cell_def)
  have room: "room_for saved_sample sample_target"
    unfolding room_for_def saved by (simp add: cell_fits_def new_cell_def sample_target_def llama_kv_cache_init_def)
  have "layers_match saved_sample sample_target"
    using sample_layers by (simp add: layers_match_def) (simp add: sample_target_def saved_sample_def)
  with inv room show ?thesis
    by (simp add: restorable_def) (simp add: sample_target_def saved_sample_def outputs_match_def Let_def sample_params_def)
qed

lemma state_roundtrip_witness:
  "\<exists>k bs c'. llama_state_get_size saved_sample = Inr k \<and> llama_state_get_data saved_sample k = Inr (k, bs)
    \<and> llama_state_set_data (\<lambda>_. True) (bs @ [0]) k sample_target = (Inr k, c') \<and> same_state saved_sample c'"
  using state_roundtrip [OF saved_sample_ok sample_restorable, of "[0]"] by blast

end
