(* ===== verification/StateSeq.thy ===== *)
theory StateSeq
  imports StateRoundtrip
begin

text \<open>
  Saving one sequence and restoring it as another one: \<open>llama_state_seq_get_data\<close> and
  \<open>llama_state_seq_set_data\<close>. The cells are placed like those of a batch, and only their data change.
\<close>

lemma cell_data_set_kv:
  "ksize cache = ksize (st_kv c) \<Longrightarrow> cell_data (set_kv cache c) i = cell_data c i"
  by (simp add: cell_data_def cell_value_def row_size_of_def Let_def)

lemma for_cells_total: "\<exists>x. for_cells sz (\<lambda>cell. Inr (g cell)) i cells used nh = Inr x"
proof (induction cells arbitrary: i used nh)
  case (Cons cell cells)
  obtain cell' dec freed where g: "g cell = (cell', dec, freed)" by (cases "g cell")
  obtain x where "for_cells sz (\<lambda>cell. Inr (g cell)) (i + 1) cells (if dec then used - 1 else used)
      (if freed \<and> nh = sz then i else nh) = Inr x" using Cons by blast
  then show ?case using g by (cases x) simp
qed simp

lemma seq_rm_total:
  assumes "kv_inv cache"
  shows "\<exists>cache'. llama_kv_cache_seq_rm cache s p0 p1 = Inr (True, cache') \<and> ksize cache' = ksize cache"
proof -
  obtain x where "all_cells (\<lambda>cell. Inr (rm_cell s (range_start p0) (range_end p1) cell)) cache = Inr x"
    unfolding all_cells_def using for_cells_total by blast
  then show ?thesis using assms
    by (cases x) (simp add: llama_kv_cache_seq_rm_def Let_def kv_inv_def set_head_if_freed_def)
qed

lemma slot_ok_placed:
  assumes "map entry (take n (drop (khead cache) (kcells cache))) = map (\<lambda>p. (p, {s})) ps"
    and "khead cache + n \<le> ksize cache" "length (kcells cache) = ksize cache" "length ps = n" "ps \<noteq> []"
  shows "slot_ok cache s ps = Inr ()"
proof -
  have cell: "entry (kcells cache ! (khead cache + i)) = (ps ! i, {s})" if "i < n" for i
    using arg_cong [OF assms(1), of "\<lambda>xs. xs ! i"] assms(2-4) that by simp
  have "entry (kcells cache ! khead cache) = (hd ps, {s})" "entry (kcells cache ! (khead cache + n - 1)) = (last ps, {s})"
    using cell [of 0] cell [of "n - 1"] assms(4,5) by (cases n; simp add: hd_conv_nth last_conv_nth)+
  then show ?thesis using assms(2,4,5) by (auto simp: slot_ok_def Let_def entry_def has_seq_id_def)
qed

context data_reader
begin

lemma reads_positions:
  assumes "list_all (\<lambda>p. - (2 ^ 31) \<le> p \<and> p < 2 ^ 31) ps"
  shows "reads R src (read_positions R (length ps)) (concat (map (\<lambda>p. i32_bytes p @ le_bytes 4 0) ps)) c (Some ps) c"
  using assms
proof (induction ps)
  case Nil
  then show ?case by (simp add: reads_return)
next
  case (Cons p ps)
  have tail: "reads R src (bindS (read_positions R (length ps)) (\<lambda>ps. returnS (map_option (Cons p) ps)))
      (concat (map (\<lambda>p. i32_bytes p @ le_bytes 4 0) ps)) c (Some (p # ps)) c"
    by (rule reads_bind1 [OF Cons.IH]) (use Cons.prems in \<open>simp_all add: reads_return\<close>)
  have "reads R src (read_positions R (Suc (length ps))) (i32_bytes p @ le_bytes 4 0 @ concat (map (\<lambda>p. i32_bytes p @ le_bytes 4 0) ps))
      c (Some (p # ps)) c"
    unfolding read_positions.simps
    by (rule reads_bind [OF reads_i32], use Cons.prems in simp, use Cons.prems in simp, rule reads_bind [OF reads_num], simp)
      (use tail in simp)
  then show ?case by simp
qed

lemma reads_sequence:
  fixes c :: state_ctx
  assumes rm: "llama_kv_cache_seq_rm (st_kv c) dst (-1) (-1) = Inr (ok, cache1)"
    and slot: "llama_kv_cache_find_slot cache1 \<lparr>bpos = ps, bseq = replicate (length ps) [dst]\<rparr> = (True, cache2)"
    and placed: "slot_ok cache2 dst ps = Inr ()" and n: "length ps < 2 ^ 31"
    and pos: "list_all (\<lambda>p. - (2 ^ 31) \<le> p \<and> p < 2 ^ 31) ps"
  shows "reads R src (read_sequence R (length ps) dst) (concat (map (\<lambda>p. i32_bytes p @ le_bytes 4 0) ps)) c True (set_kv cache2 c)"
proof -
  have removed: "reads R src (liftS (seq_rm dst)) [] c () (set_kv cache1 c)"
    by (rule reads_lift) (simp add: seq_rm_def rm)
  have place: "reads R src (place_sequence dst ps) [] (set_kv cache1 c) True (set_kv cache2 c)"
    using slot placed unfolding place_sequence_def
    by (intro reads_bind0 [OF reads_get]) (auto intro!: reads_bind0 [OF reads_lift] reads_return)
  show ?thesis
    unfolding read_sequence_def
    by (rule reads_bind0 [OF removed], rule reads_bind0 [OF reads_check [OF n]],
        rule reads_bind1 [OF reads_positions [OF pos]], use place in simp)
qed

end

context data_reader
begin

lemma reads_kv_seq:
  fixes s :: state_ctx and sid :: int
  defines "is \<equiv> saved (st_kv s) sid" and "ps \<equiv> map (\<lambda>i. cpos (kcells (st_kv s) ! i)) (saved (st_kv s) sid)"
  assumes "sid \<noteq> -1" "dst \<noteq> -1" and m: "layers_match s c"
    and rm: "llama_kv_cache_seq_rm (st_kv c) dst (-1) (-1) = Inr (ok, cache1)" "ksize cache1 = ksize (st_kv c)"
    and slot: "llama_kv_cache_find_slot cache1 \<lparr>bpos = ps, bseq = replicate (length ps) [dst]\<rparr> = (True, cache2)" "ksize cache2 = ksize cache1"
    and placed: "slot_ok cache2 dst ps = Inr ()" and n: "length is < 2 ^ 31" "khead cache2 + length is \<le> ksize cache2"
    and pos: "list_all (\<lambda>p. - (2 ^ 31) \<le> p \<and> p < 2 ^ 31) ps"
  shows "reads R src (read_kv_cache R dst) (cache_image s sid) c () (load_layers s is (set_kv cache2 c))"
proof -
  have len: "length ps = length is" by (simp add: ps_def is_def)
  have img: "concat (map (\<lambda>i. cell_image sid (kcells (st_kv s) ! i)) is) = concat (map (\<lambda>p. i32_bytes p @ le_bytes 4 0) ps)"
    using assms(3) by (simp add: ps_def is_def cell_image_def cell_seqs_def comp_def)
  have meta: "reads R src (read_kv_cache_meta R (length is) dst) (concat (map (\<lambda>p. i32_bytes p @ le_bytes 4 0) ps)) c True (set_kv cache2 c)"
    using reads_sequence [OF rm(1) slot(1) placed _ pos] n(1) assms(4) by (simp add: read_kv_cache_meta_def len)
  have m2: "layers_match s (set_kv cache2 c)" using layers_match_set_kv [OF _ m, of cache2] rm(2) slot(2) by simp
  have data: "reads R src (read_kv_cache_data R (length is)) (cells_image s is) (set_kv cache2 c) True (load_layers s is (set_kv cache2 c))"
    by (rule reads_data [OF m2]) (use saved_less n(2) in \<open>simp_all add: is_def\<close>)
  show ?thesis
    unfolding read_kv_cache_def cache_image_def Let_def is_def [symmetric] img
    apply (rule reads_bind [OF reads_num])
    subgoal using n(1) by simp
    apply (rule reads_bind [OF meta])
    apply (simp only: simp_thms if_True)
    apply (rule reads_bind1 [OF data])
    by (simp add: reads_return)
qed

end

lemma seq_set_data_reads:
  assumes "reads llama_data_read_buffer buffer_rest (read_kv_cache llama_data_read_buffer dst) bs c () c'"
  shows "llama_state_seq_set_data (bs @ rest) (length bs) dst c = (Inr (length bs), c')"
  using bufread.reads_source [OF assms, of "\<lparr>rb_mem = bs @ rest, rb_buf_size = length bs, rb_size_read = 0\<rparr>" "[]"]
  by (auto simp: llama_state_seq_set_data_def read_from_buffer_def llama_state_seq_set_data_internal_def buffer_rest_def
      bindS_def caught_def llama_data_read_buffer_def)

text \<open>The positions and the data of the cells of a sequence.\<close>

definition seq_cells :: "state_ctx \<Rightarrow> int \<Rightarrow> (int \<times> (byte list \<times> byte list) list) list" where
  "seq_cells c sid = map (\<lambda>i. (cpos (kcells (st_kv c) ! i), cell_data c i)) (saved (st_kv c) sid)"

text \<open>
  C22: A sequence saved in one context and restored as \<open>dst\<close> in another context of the same model, where the
  removal of \<open>dst\<close> leaves enough consecutive free cells. Restoring first removes \<open>dst\<close> from the cells it was in.
  The new cells then stand one after the other from \<open>head\<close> on, belong to \<open>dst\<close> alone, and have the positions
  and the data of the saved cells; every other cell is as the removal left it (so cells of other sequences are
  as they were), and its data are the data it had.
\<close>

theorem seq_state_roundtrip:
  fixes s c :: state_ctx and sid :: int
  defines "n \<equiv> length (saved (st_kv s) sid)"
  assumes "kv_inv (st_kv s)" "kv_inv (st_kv c)" "layers_match s c" "0 \<le> sid" "0 \<le> dst" "0 < n" "n < 2 ^ 31"
    and "list_all (\<lambda>cell. cpos cell < 2 ^ 31) (kcells (st_kv s))"
    and "llama_kv_cache_seq_rm (st_kv c) dst (-1) (-1) = Inr (ok, cache1)" "free_slot (kcells cache1) (ksize cache1) n free"
  shows "\<exists>k bs c'. llama_state_seq_get_size s sid = Inr k \<and> llama_state_seq_get_data s k sid = Inr (k, bs)
    \<and> llama_state_seq_set_data (bs @ rest) k dst c = (Inr k, c') \<and> kv_inv (st_kv c')
    \<and> (let h = khead (st_kv c') in h + n \<le> ksize (st_kv c')
        \<and> map (\<lambda>j. (cpos (kcells (st_kv c') ! j), cell_data c' j)) [h..<h + n] = seq_cells s sid
        \<and> (\<forall>j<ksize (st_kv c). if h \<le> j \<and> j < h + n then cseq (kcells (st_kv c') ! j) = {dst}
             else kcells (st_kv c') ! j = kcells cache1 ! j \<and> cell_data c' j = cell_data c j))"
proof -
  let ?is = "saved (st_kv s) sid" and ?ps = "map (\<lambda>i. cpos (kcells (st_kv s) ! i)) (saved (st_kv s) sid)"
  let ?b = "\<lparr>bpos = ?ps, bseq = replicate n [dst]\<rparr>"
  have nlen: "length ?ps = n" "length ?is = n" by (simp_all add: n_def)
  have rm: "ok" "kv_inv cache1" "ksize cache1 = ksize (st_kv c)"
    using seq_rm_refines [OF assms(10,3)] seq_rm_total [OF assms(3), of dst "-1" "-1"] assms(10) by auto
  have cells: "cell_ok (kcells (st_kv s) ! i) \<and> cpos (kcells (st_kv s) ! i) < 2 ^ 31 \<and> 0 \<le> cpos (kcells (st_kv s) ! i)"
    if "i \<in> set ?is" for i
    using that assms(2,9) assms(5) by (auto simp: saved_def kv_inv_def list_all_length cell_ok_def saves_def has_seq_id_def is_empty_def)
  have batch: "batch_ok ?b" using cells by (auto simp: batch_ok_def nlen)
  obtain found cache2 where slot: "llama_kv_cache_find_slot cache1 ?b = (found, cache2)" by fastforce
  note f = find_slot_effect [OF rm(2) batch slot, simplified nlen kv_batch.simps]
  have found: found using f assms(11) by auto
  have tokens: "batch_tokens ?b = map (\<lambda>p. (p, {dst})) ?ps"
    by (rule nth_equalityI) (simp_all add: batch_tokens_def n_def)
  let ?h = "khead cache2" and ?c' = "load_layers s ?is (set_kv cache2 c)"
  have slot': "free_slot (kcells cache1) (ksize cache1) n ?h" "ksize cache2 = ksize cache1" "kv_inv cache2"
    "map entry (take n (drop ?h (kcells cache2))) = map (\<lambda>p. (p, {dst})) ?ps"
    "\<And>j. j < ksize cache1 \<Longrightarrow> \<not> (?h \<le> j \<and> j < ?h + n) \<Longrightarrow> kcells cache2 ! j = kcells cache1 ! j"
    using f found tokens by auto
  have room: "?h + n \<le> ksize cache2" using slot'(1,2) by (simp add: free_slot_def)
  have lenc: "length (kcells cache2) = ksize cache2" using slot'(3) by (simp add: kv_inv_def)
  have placed: "slot_ok cache2 dst ?ps = Inr ()"
    by (rule slot_ok_placed [OF slot'(4) room lenc]) (use assms(7) nlen in \<open>auto simp flip: length_greater_0_conv\<close>)
  have cell: "entry (kcells cache2 ! (?h + i)) = (?ps ! i, {dst})" if "i < n" for i
    using arg_cong [OF slot'(4), of "\<lambda>xs. xs ! i"] room lenc nlen that by simp
  have reads: "reads llama_data_read_buffer buffer_rest (read_kv_cache llama_data_read_buffer dst) (cache_image s sid) c () ?c'"
    by (rule bufread.reads_kv_seq [OF _ _ assms(4,10) rm(3) _ slot'(2) placed])
      (use assms(5,6,8) slot found room nlen cells in \<open>auto simp: list_all_iff intro: order_trans [of _ 0]\<close>)
  have m2: "layers_match s (set_kv cache2 c)" using layers_match_set_kv [OF _ assms(4), of cache2] rm(3) slot'(2) by simp
  have data: "cell_data ?c' j = (if ?h \<le> j \<and> j < ?h + n then cell_data s (?is ! (j - ?h)) else cell_data c j)"
    if "j < ksize (st_kv c)" for j
    using load_layers_data [OF m2 saved_less [of "st_kv s" sid], of j] room that rm(3) slot'(2) nlen
    by (simp add: cell_data_set_kv)
  have "layers_ok s" using assms(4) by (simp add: layers_match_def)
  note size = seq_size_exact [OF assms(2) this, of sid] and image = seq_get_image [OF assms(2) this, of "length (cache_image s sid)" sid]
  have "kv_inv (st_kv ?c')" "khead (st_kv ?c') = ?h" "kcells (st_kv ?c') = kcells cache2" "ksize (st_kv ?c') = ksize cache2"
    using slot'(3) by (simp_all add: load_layers_def Let_def)
  moreover have "map (\<lambda>j. (cpos (kcells cache2 ! j), cell_data ?c' j)) [?h..<?h + n] = seq_cells s sid"
    using cell data room rm(3) slot'(2) nlen
    by (intro nth_equalityI) (auto simp: seq_cells_def entry_def)
  moreover have "if ?h \<le> j \<and> j < ?h + n then cseq (kcells cache2 ! j) = {dst}
      else kcells cache2 ! j = kcells cache1 ! j \<and> cell_data ?c' j = cell_data c j" if "j < ksize (st_kv c)" for j
    using cell [of "j - ?h"] slot'(5) [of j] data [OF that] that rm(3) by (auto simp: entry_def)
  ultimately show ?thesis using seq_set_data_reads [OF reads, of rest] room size image by (auto simp: Let_def)
qed

text \<open>Sequence 0 copied to sequence 2 within one context.\<close>

lemma sample_rm: "llama_kv_cache_seq_rm sample_cache 2 (-1) (-1) = Inr (True, sample_cache)"
  by (simp add: llama_kv_cache_seq_rm_def all_cells_def rm_cell_def has_seq_id_def new_cell_def set_head_if_freed_def Let_def)

lemma seq_state_roundtrip_witness:
  "\<exists>k bs c'. llama_state_seq_get_size saved_sample 0 = Inr k \<and> llama_state_seq_get_data saved_sample k 0 = Inr (k, bs)
    \<and> llama_state_seq_set_data (bs @ [1]) k 2 saved_sample = (Inr k, c') \<and> kv_inv (st_kv c')"
proof -
  have kv: "st_kv saved_sample = sample_cache" by (simp add: saved_sample_def)
  have saved: "saved sample_cache 0 = [0, 1]"
    by (simp add: saved_def saves_def has_seq_id_def is_empty_def upt_rec new_cell_def)
  have m: "layers_match saved_sample saved_sample" using sample_layers(1) by (simp add: layers_match_def)
  have slot: "free_slot (kcells sample_cache) (ksize sample_cache) (length [0, 1 :: nat]) 2"
    by (simp add: free_slot_def new_cell_def less_Suc_eq)
  have small: "(0 :: int) \<le> 0" "(0 :: int) \<le> 2" "0 < length [0, 1 :: nat]" "length [0, 1 :: nat] < 2 ^ 31"
    "list_all (\<lambda>cell. cpos cell < 2 ^ 31) (kcells sample_cache)" by (simp_all add: new_cell_def)
  from seq_state_roundtrip [of saved_sample saved_sample 0 2 True sample_cache 2 "[1]", unfolded kv, unfolded saved,
      OF sample_cache_inv sample_cache_inv m small sample_rm slot]
  show ?thesis by blast
qed

end
