(* ===== verification/StateFile.thy ===== *)
theory StateFile
  imports StateSeq
begin

text \<open>
  Session files and files of one sequence: \<open>llama_state_save_file\<close>, \<open>llama_state_load_file\<close> and the same for a
  sequence, of \<open>src/src/llama.cpp\<close>: a magic number, a version, the tokens of the prompt, and the state.

  \<open>disk\<close> is the number of bytes the file can take, \<open>None\<close> where it cannot be opened; a file to read is its bytes,
  \<open>None\<close> where it cannot be opened. Saving gives what the file holds in the end, \<open>None\<close> for failure; what a
  failed call leaves in the file is not told.
\<close>

section \<open>Files\<close>

definition LLAMA_SESSION_MAGIC :: nat where "LLAMA_SESSION_MAGIC = 0x6767736e"
definition LLAMA_SESSION_VERSION :: nat where "LLAMA_SESSION_VERSION = 8"
definition LLAMA_STATE_SEQ_MAGIC :: nat where "LLAMA_STATE_SEQ_MAGIC = 0x67677371"
definition LLAMA_STATE_SEQ_VERSION :: nat where "LLAMA_STATE_SEQ_VERSION = 2"

definition open_file :: "'a option \<Rightarrow> 'a res" where
  "open_file f = (case f of None \<Rightarrow> Inl (RuntimeError ''failed to open'') | Some x \<Rightarrow> Inr x)"

definition write_u32 :: "nat \<Rightarrow> nat \<Rightarrow> byte list \<Rightarrow> byte list res" where
  "write_u32 disk n = write_raw disk (le_bytes 4 n)"

definition read_u32 :: "byte list \<Rightarrow> (nat \<times> byte list) res" where
  "read_u32 file = bindE (read_raw 4 file) (\<lambda>(bs, rest). Inr (le_nat bs, rest))"

text \<open>The number of tokens is a \<open>size_t\<close>, and cast to 32 bits in the file.\<close>

definition save_prompt :: "nat \<Rightarrow> nat \<Rightarrow> nat \<Rightarrow> int list \<Rightarrow> byte list res" where
  "save_prompt disk magic version tokens =
    bindE (write_u32 disk magic []) (\<lambda>out.
    bindE (write_u32 disk version out) (\<lambda>out.
    bindE (write_u32 disk (unat (of_nat (length tokens) :: u32)) out)
      (write_raw disk (concat (map i32_bytes tokens)))))"

text \<open>The tokens and what follows them, \<open>None\<close> if the file is of another kind or has too many tokens.\<close>

definition load_prompt :: "nat \<Rightarrow> nat \<Rightarrow> nat \<Rightarrow> byte list \<Rightarrow> (int list \<times> byte list) option res" where
  "load_prompt magic version n_token_capacity file =
    bindE (read_u32 file) (\<lambda>(m, file).
    bindE (read_u32 file) (\<lambda>(v, file).
      if m \<noteq> magic \<or> v \<noteq> version then Inr None
      else bindE (read_u32 file) (\<lambda>(n_token_count, file).
        if n_token_count > n_token_capacity then Inr None
        else bindE (read_raw (4 * n_token_count) file) (\<lambda>(bs, file). Inr (Some (i32s_of n_token_count bs, file))))))"

section \<open>Sessions\<close>

definition llama_state_save_file_internal :: "nat option \<Rightarrow> state_ctx \<Rightarrow> int list \<Rightarrow> byte list res" where
  "llama_state_save_file_internal f c tokens =
    bindE (open_file f) (\<lambda>disk.
    bindE (save_prompt disk LLAMA_SESSION_MAGIC LLAMA_SESSION_VERSION tokens) (\<lambda>out.
    bindE (llama_state_get_data_internal (llama_data_write_file disk) c \<lparr>wf_out = out, wf_size_written = 0\<rparr>)
      (\<lambda>(_, w). Inr (wf_out w))))"

definition llama_state_save_file :: "nat option \<Rightarrow> state_ctx \<Rightarrow> int list \<Rightarrow> byte list option res" where
  "llama_state_save_file f c tokens =
    caught None (bindE (llama_state_save_file_internal f c tokens) (\<lambda>out. Inr (Some out)))"

text \<open>The result, the tokens that the caller receives, and the context.\<close>

definition llama_state_load_file_internal ::
  "(nat \<Rightarrow> bool) \<Rightarrow> byte list option \<Rightarrow> nat \<Rightarrow> state_ctx \<Rightarrow> bool res \<times> int list option \<times> state_ctx" where
  "llama_state_load_file_internal alloc f n_token_capacity c =
    (case bindE (open_file f) (load_prompt LLAMA_SESSION_MAGIC LLAMA_SESSION_VERSION n_token_capacity) of
       Inl e \<Rightarrow> (Inl e, None, c)
     | Inr None \<Rightarrow> (Inr False, None, c)
     | Inr (Some (tokens, rest)) \<Rightarrow>
         (case llama_state_set_data_internal alloc llama_data_read_file (\<lparr>rf_rest = rest, rf_size_read = 0\<rparr>, c) of
            (Inl e, _, c') \<Rightarrow> (Inl e, Some tokens, c')
          | (Inr n_read, _, c') \<Rightarrow> (Inr (n_read = length rest), Some tokens, c')))"

definition llama_state_load_file ::
  "(nat \<Rightarrow> bool) \<Rightarrow> byte list option \<Rightarrow> nat \<Rightarrow> state_ctx \<Rightarrow> bool res \<times> int list option \<times> state_ctx" where
  "llama_state_load_file alloc f n_token_capacity c =
    (case llama_state_load_file_internal alloc f n_token_capacity c of (ok, tokens, c') \<Rightarrow> (caught False ok, tokens, c'))"

section \<open>Sequences\<close>

definition llama_state_seq_save_file_internal :: "nat option \<Rightarrow> state_ctx \<Rightarrow> int \<Rightarrow> int list \<Rightarrow> (nat \<times> byte list) res" where
  "llama_state_seq_save_file_internal f c seq_id tokens =
    bindE (open_file f) (\<lambda>disk.
    bindE (save_prompt disk LLAMA_STATE_SEQ_MAGIC LLAMA_STATE_SEQ_VERSION tokens) (\<lambda>out.
    bindE (llama_state_seq_get_data_internal (llama_data_write_file disk) c seq_id \<lparr>wf_out = out, wf_size_written = 0\<rparr>)
      (\<lambda>(_, w). let res = length (wf_out w) in
         if res \<noteq> 4 * 3 + 4 * length tokens + wf_size_written w then Inl (Abort ''res == ...'')
         else Inr (res, wf_out w))))"

definition llama_state_seq_save_file :: "nat option \<Rightarrow> state_ctx \<Rightarrow> int \<Rightarrow> int list \<Rightarrow> (nat \<times> byte list) res" where
  "llama_state_seq_save_file f c seq_id tokens = caught (0, []) (llama_state_seq_save_file_internal f c seq_id tokens)"

definition llama_state_seq_load_file_internal ::
  "byte list option \<Rightarrow> int \<Rightarrow> nat \<Rightarrow> state_ctx \<Rightarrow> nat res \<times> int list option \<times> state_ctx" where
  "llama_state_seq_load_file_internal f dest_seq_id n_token_capacity c =
    (case bindE (open_file f) (load_prompt LLAMA_STATE_SEQ_MAGIC LLAMA_STATE_SEQ_VERSION n_token_capacity) of
       Inl e \<Rightarrow> (Inl e, None, c)
     | Inr None \<Rightarrow> (Inr 0, None, c)
     | Inr (Some (tokens, rest)) \<Rightarrow>
         (case llama_state_seq_set_data_internal llama_data_read_file dest_seq_id (\<lparr>rf_rest = rest, rf_size_read = 0\<rparr>, c) of
            (Inl e, _, c') \<Rightarrow> (Inl e, Some tokens, c')
          | (Inr nread, r, c') \<Rightarrow>
              (if nread = 0 then (Inr 0, Some tokens, c')
               else let tell = length (the f) - length (rf_rest r) in
                 if nread > length rest then (Inl (Abort ''nread <= state_size''), Some tokens, c')
                 else if nread + 4 * 3 + 4 * length tokens \<noteq> tell then (Inl (Abort ''file.tell()''), Some tokens, c')
                 else (Inr tell, Some tokens, c'))))"

definition llama_state_seq_load_file ::
  "byte list option \<Rightarrow> int \<Rightarrow> nat \<Rightarrow> state_ctx \<Rightarrow> nat res \<times> int list option \<times> state_ctx" where
  "llama_state_seq_load_file f dest_seq_id n_token_capacity c =
    (case llama_state_seq_load_file_internal f dest_seq_id n_token_capacity c of (n, tokens, c') \<Rightarrow> (caught 0 n, tokens, c'))"

text \<open>The deprecated names.\<close>

definition llama_get_state_size :: "state_ctx \<Rightarrow> nat res" where
  "llama_get_state_size c = llama_state_get_size c"

definition llama_load_session_file ::
  "(nat \<Rightarrow> bool) \<Rightarrow> byte list option \<Rightarrow> nat \<Rightarrow> state_ctx \<Rightarrow> bool res \<times> int list option \<times> state_ctx" where
  "llama_load_session_file alloc f n_token_capacity c = llama_state_load_file alloc f n_token_capacity c"

definition llama_save_session_file :: "nat option \<Rightarrow> state_ctx \<Rightarrow> int list \<Rightarrow> byte list option res" where
  "llama_save_session_file f c tokens = llama_state_save_file f c tokens"

section \<open>Files that were saved can be loaded\<close>

definition prompt_image :: "nat \<Rightarrow> nat \<Rightarrow> int list \<Rightarrow> byte list" where
  "prompt_image magic version tokens =
    le_bytes 4 magic @ le_bytes 4 version @ le_bytes 4 (length tokens) @ concat (map i32_bytes tokens)"

abbreviation is_i32 :: "int \<Rightarrow> bool" where
  "is_i32 t \<equiv> - (2 ^ 31) \<le> t \<and> t < 2 ^ 31"

lemma write_raw_ok: "length out + length bs \<le> disk \<Longrightarrow> write_raw disk bs out = Inr (out @ bs)"
  by (simp add: write_raw_def)

lemma i32_bytes_length [simp]: "length (i32_bytes t) = 4"
  by (simp add: i32_bytes_def)

lemma i32_bytes_concat_length [simp]: "length (concat (map i32_bytes ts)) = 4 * length ts"
  by (simp add: length_concat comp_def sum_list_triv)

lemma prompt_image_length [simp]: "length (prompt_image magic version tokens) = 12 + 4 * length tokens"
  by (simp add: prompt_image_def)

lemma save_prompt_image:
  assumes "length tokens < 2 ^ 32" "length (prompt_image magic version tokens) \<le> disk"
  shows "save_prompt disk magic version tokens = Inr (prompt_image magic version tokens)"
  using assms by (simp add: save_prompt_def write_u32_def write_raw_ok unat_of_nat_less prompt_image_def)

lemma i32s_of_i32_bytes:
  assumes "list_all is_i32 ts" shows "i32s_of (length ts) (concat (map i32_bytes ts)) = ts"
proof (rule nth_equalityI)
  fix i assume "i < length (i32s_of (length ts) (concat (map i32_bytes ts)))"
  then have i: "i < length ts" by (simp add: i32s_of_def)
  have "take 4 (drop (i * 4) (concat (map i32_bytes ts))) = i32_bytes (ts ! i)"
    by (rule chunk_concat) (use i in simp_all)
  then show "i32s_of (length ts) (concat (map i32_bytes ts)) ! i = ts ! i"
    using i assms i32_of_bytes [of "ts ! i"] by (simp add: i32s_of_def list_all_length mult.commute)
qed (simp add: i32s_of_def)

lemma read_u32_bytes: "n < 2 ^ 32 \<Longrightarrow> read_u32 (le_bytes 4 n @ rest) = Inr (n, rest)"
  by (simp add: read_u32_def read_raw_def le_nat_bytes)

lemma load_prompt_image:
  assumes "list_all is_i32 tokens" "length tokens < 2 ^ 32" "magic < 2 ^ 32" "version < 2 ^ 32"
  shows "load_prompt magic version n (prompt_image magic version tokens @ rest)
    = Inr (if length tokens \<le> n then Some (tokens, rest) else None)"
  using assms i32s_of_i32_bytes [OF assms(1)]
  by (simp add: load_prompt_def prompt_image_def read_u32_bytes read_raw_def)

lemma file_written:
  assumes "length out + length bs \<le> disk"
  shows "dw_write (llama_data_write_file disk) bs \<lparr>wf_out = out, wf_size_written = 0\<rparr>
    = Inr \<lparr>wf_out = out @ bs, wf_size_written = length bs\<rparr>"
  using assms by (simp add: llama_data_write_file_def file_write_def write_raw_ok)

text \<open>
  C23: A session file that was saved can be loaded: where the disk has room, saving the state of a context with
  the tokens of its prompt succeeds, and loading the file in another context of the same model, with room for
  these tokens, succeeds and gives the same tokens and the same state.
\<close>

theorem session_file_roundtrip:
  assumes "saveable s" "restorable s c" "list_all is_i32 tokens" "length tokens \<le> capacity" "capacity < 2 ^ 32"
  shows "\<exists>k. \<forall>disk \<ge> k. \<exists>file c'. llama_state_save_file (Some disk) s tokens = Inr (Some file) \<and> length file = k
    \<and> llama_state_load_file (\<lambda>_. True) (Some file) capacity c = (Inr True, Some tokens, c') \<and> same_state s c'"
proof (intro exI allI impI conjI)
  let ?p = "prompt_image LLAMA_SESSION_MAGIC LLAMA_SESSION_VERSION tokens" and ?i = "state_image s"
  fix disk assume disk: "length (?p @ ?i) \<le> disk"
  show "llama_state_save_file (Some disk) s tokens = Inr (Some (?p @ ?i))"
    using disk assms(4,5) save_prompt_image [of tokens LLAMA_SESSION_MAGIC LLAMA_SESSION_VERSION disk]
    by (simp add: llama_state_save_file_def llama_state_save_file_internal_def open_file_def caught_def
        diskfile.state_writes [OF assms(1)] file_written)
  have "load_prompt LLAMA_SESSION_MAGIC LLAMA_SESSION_VERSION capacity (?p @ ?i) = Inr (Some (tokens, ?i))"
    using load_prompt_image [OF assms(3), of LLAMA_SESSION_MAGIC LLAMA_SESSION_VERSION capacity ?i] assms(4,5)
    by (simp add: LLAMA_SESSION_MAGIC_def LLAMA_SESSION_VERSION_def)
  then show "llama_state_load_file (\<lambda>_. True) (Some (?p @ ?i)) capacity c = (Inr True, Some tokens, restored s c)"
    using fileread.reads_source [OF fileread.reads_state [OF assms(1,2)], of "\<lparr>rf_rest = ?i, rf_size_read = 0\<rparr>" "[]"]
    by (auto simp: llama_state_load_file_def llama_state_load_file_internal_def open_file_def caught_def
        state_set_data_internal bindS_def llama_data_read_file_def)
qed (auto simp: restored_same [OF assms(1,2)])

lemma session_file_roundtrip_witness:
  "\<exists>disk file c'. llama_state_save_file (Some disk) saved_sample [1, 2, 3] = Inr (Some file)
    \<and> llama_state_load_file (\<lambda>_. True) (Some file) 4 sample_target = (Inr True, Some [1, 2, 3], c') \<and> same_state saved_sample c'"
proof -
  have "list_all is_i32 [1, 2, 3]" by simp
  from session_file_roundtrip [OF saved_sample_ok sample_restorable this, of 4] show ?thesis by fastforce
qed

end
