(* ===== verification/StateLimits.thy ===== *)
theory StateLimits
  imports StateFile
begin

text \<open>
  Where saving and restoring go wrong: offsets that wrap around, an empty sequence, a cache that is left half
  restored, and shifts that are still pending.
\<close>

text \<open>
  For a transposed tensor of 4 GiB and more, the writer's offset (computed in 32 bits) is not the reader's: for
  131072 cells of four bytes, row 8192 starts at byte \<open>2^32\<close> and is saved as row 0.
\<close>

lemma column_offset_wraps:
  "(ucast ((of_nat 0 + of_nat 8192 * of_nat 131072) * of_nat 4 :: u32) :: u64) = 0
   \<and> (ucast (of_nat 0 + of_nat 8192 * of_nat 131072 :: u32) * of_nat 4 :: u64) = 2 ^ 32"
  by simp

text \<open>The checks after placing a sequence look at its last cell, which an empty sequence does not have.\<close>

lemma empty_sequence_undefined:
  assumes "kv_inv cache"
  shows "slot_ok cache seq_id [] = Inl (UndefinedBehaviour ''batch.pos[cell_count - 1]'')"
  using assms by (simp add: slot_ok_def kv_inv_def Let_def)

text \<open>
  An exception on the way leaves the cells that were read, while \<open>used\<close> is still 0: here the second of two cells
  is missing.
\<close>

lemma truncated_cells_break_invariant:
  defines "r \<equiv> \<lparr>rb_mem = [0, 0, 0, 0, 1, 0, 0, 0, 0, 0, 0, 0], rb_buf_size = 12, rb_size_read = 0\<rparr>"
  shows "case read_cells llama_data_read_buffer 2 (r, sample_target) of
    (x, _, c) \<Rightarrow> x = Inl (RuntimeError ''unexpectedly reached end of buffer'') \<and> \<not> kv_inv (st_kv c)"
  by (simp add: read_cells_def bindS_def getS_def liftS_def read_cell_def read_i32_def read_num_def readS_def r_def
      llama_data_read_buffer_def returnS_def sample_target_def llama_kv_cache_init_def llama_kv_cache_clear_def clear_kv_def clear_data_def set_kv_def
      numeral_2_eq_2 read_seq_id_def set_cell_def i32_of_def llama_n_seq_max_def new_cell_def kv_inv_def upt_rec is_empty_def)

text \<open>Shifts of the keys that are pending are not part of a saved state, while the shifted positions are.\<close>

lemma image_ignores_shifts:
  assumes "length (kcells (st_kv c)) = ksize (st_kv c)"
  shows "state_image (set_kv ((st_kv c)\<lparr>kcells := map (\<lambda>cell. cell\<lparr>cdelta := f cell\<rparr>) (kcells (st_kv c))\<rparr>) c) = state_image c"
proof -
  let ?cache = "(st_kv c)\<lparr>kcells := map (\<lambda>cell. cell\<lparr>cdelta := f cell\<rparr>) (kcells (st_kv c))\<rparr>"
  have cell: "cell_image (-1) (kcells ?cache ! i) = cell_image (-1) (kcells (st_kv c) ! i)"
    "saves (-1) (kcells ?cache ! i) = saves (-1) (kcells (st_kv c) ! i)" if "i < ksize (st_kv c)" for i
    using that assms by (simp_all add: cell_image_def cell_seqs_def saves_all)
  then have "saved ?cache (-1) = saved (st_kv c) (-1)" by (auto simp: saved_def intro: filter_cong)
  moreover from this have "map (\<lambda>i. cell_image (-1) (kcells ?cache ! i)) (saved ?cache (-1))
      = map (\<lambda>i. cell_image (-1) (kcells (st_kv c) ! i)) (saved (st_kv c) (-1))"
    using cell saved_less [of "st_kv c" "-1"] by (intro map_cong) (auto simp: list_all_iff)
  moreover have "cells_image (set_kv ?cache c) is = cells_image c is" for "is" by (simp add: cells_image_def Let_def)
  ultimately have "cache_image (set_kv ?cache c) (-1) = cache_image c (-1)" by (simp add: cache_image_def Let_def cong: map_cong)
  then show ?thesis by (simp add: state_image_def arch_text_def outputs_image_def set_kv_def split: sum.split)
qed

end
