(* ===== verification/NgramCache.thy ===== *)
theory NgramCache
  imports StateIO
begin

text \<open>
  The n-gram caches of speculative decoding (\<open>src/common/ngram-cache.cpp\<close>): how often each token followed each
  n-gram, and drafts of the next tokens from such counts.

  An \<open>unordered_map\<close> is the list of its entries in the order in which it is iterated; which place a new entry
  takes is not specified by the library, here it is the last one. What is shown of iterating operations holds for
  every order.
\<close>

definition LLAMA_NGRAM_MAX :: nat where "LLAMA_NGRAM_MAX = 4"
definition LLAMA_NGRAM_STATIC :: nat where "LLAMA_NGRAM_STATIC = 2"

text \<open>An n-gram has \<open>LLAMA_NGRAM_MAX\<close> tokens, -1 for those it does not have.\<close>

type_synonym llama_ngram = "int list"
type_synonym llama_ngram_cache_part = "(int \<times> int) list"
type_synonym llama_ngram_cache = "(llama_ngram \<times> llama_ngram_cache_part) list"

definition mk_ngram :: "int list \<Rightarrow> nat \<Rightarrow> llama_ngram" where
  "mk_ngram input ngram_size = map (\<lambda>i. if i < ngram_size then input ! i else -1) [0..<LLAMA_NGRAM_MAX]"

text \<open>A signed number whose computation must not leave the 32 bits.\<close>

definition i32 :: "int \<Rightarrow> int res" where
  "i32 n = (if - (2 ^ 31) \<le> n \<and> n < 2 ^ 31 then Inr n else Inl (UndefinedBehaviour ''signed overflow''))"

text \<open>\<open>find\<close>, then \<open>emplace\<close> or an assignment through the iterator.\<close>

fun put :: "'k \<Rightarrow> 'v \<Rightarrow> ('k \<times> 'v) list \<Rightarrow> ('k \<times> 'v) list" where
  "put k v [] = [(k, v)]"
| "put k v ((k', v') # m) = (if k' = k then (k, v) # m else (k', v') # put k v m)"

section \<open>Counting\<close>

definition count_token :: "int \<Rightarrow> llama_ngram_cache_part \<Rightarrow> llama_ngram_cache_part res" where
  "count_token token part =
    (case map_of part token of
       None \<Rightarrow> Inr (put token 1 part)
     | Some n \<Rightarrow> bindE (i32 (n + 1)) (\<lambda>n. Inr (put token n part)))"

definition count_ngram :: "llama_ngram \<times> int \<Rightarrow> llama_ngram_cache \<Rightarrow> llama_ngram_cache res" where
  "count_ngram = (\<lambda>(ngram, token) ngram_cache.
    case map_of ngram_cache ngram of
      None \<Rightarrow> Inr (put ngram [(token, 1)] ngram_cache)
    | Some part \<Rightarrow> bindE (count_token token part) (\<lambda>part. Inr (put ngram part ngram_cache)))"

text \<open>The progress that is printed is left out. \<open>ngram_min\<close> and \<open>ngram_max\<close> are not negative.\<close>

definition llama_ngram_cache_update ::
  "llama_ngram_cache \<Rightarrow> nat \<Rightarrow> nat \<Rightarrow> int list \<Rightarrow> int \<Rightarrow> llama_ngram_cache res" where
  "llama_ngram_cache_update ngram_cache ngram_min ngram_max inp nnew =
    foldE (\<lambda>ngram_size.
      let i_start = nat (max (int (length inp) - nnew) (int ngram_size)) in
      foldE (\<lambda>i. count_ngram (mk_ngram (drop (i - ngram_size) inp) ngram_size, inp ! i)) [i_start..<length inp])
      [ngram_min..<Suc ngram_max] ngram_cache"

definition merge_token :: "int \<times> int \<Rightarrow> llama_ngram_cache_part \<Rightarrow> llama_ngram_cache_part res" where
  "merge_token = (\<lambda>(token, count) part_merged.
    if \<not> count > 0 then Inl (Abort ''count > 0'')
    else case map_of part_merged token of
        None \<Rightarrow> Inr (put token count part_merged)
      | Some n \<Rightarrow> bindE (i32 (n + count)) (\<lambda>n. Inr (put token n part_merged)))"

definition merge_ngram :: "llama_ngram \<times> llama_ngram_cache_part \<Rightarrow> llama_ngram_cache \<Rightarrow> llama_ngram_cache res" where
  "merge_ngram = (\<lambda>(ngram, part) ngram_cache_target.
    case map_of ngram_cache_target ngram of
      None \<Rightarrow> Inr (put ngram part ngram_cache_target)
    | Some part_merged \<Rightarrow>
        bindE (foldE merge_token part part_merged) (\<lambda>part. Inr (put ngram part ngram_cache_target)))"

definition llama_ngram_cache_merge :: "llama_ngram_cache \<Rightarrow> llama_ngram_cache \<Rightarrow> llama_ngram_cache res" where
  "llama_ngram_cache_merge ngram_cache_target ngram_cache_add = foldE merge_ngram ngram_cache_add ngram_cache_target"

section \<open>Drafting\<close>

text \<open>The index is a \<open>size_t\<close>: a negative one is out of bounds of either sequence.\<close>

definition get_token :: "int list \<Rightarrow> int list \<Rightarrow> int \<Rightarrow> int res" where
  "get_token inp draft i =
    (if 0 \<le> i \<and> i < int (length inp) then Inr (inp ! nat i)
     else let k = 1 + i - int (length inp) in
       if 0 \<le> k \<and> k < int (length draft) then Inr (draft ! nat k) else Inl (UndefinedBehaviour ''draft[i]''))"

definition ngram_at :: "int list \<Rightarrow> int list \<Rightarrow> int \<Rightarrow> nat \<Rightarrow> llama_ngram res" where
  "ngram_at inp draft start n =
    (if n > LLAMA_NGRAM_MAX then Inl (UndefinedBehaviour ''tokens[j]'')
     else bindE (mapE (\<lambda>j. get_token inp draft (start + int j)) [0..<n]) (\<lambda>ts. Inr (mk_ngram ts n)))"

definition draft_min_sample_size_lax :: "int list" where "draft_min_sample_size_lax = [2, 2, 1, 1]"
definition draft_min_percent_lax :: "int list" where "draft_min_percent_lax = [66, 50, 50, 50]"
definition draft_min_sample_size_strict :: "int list" where "draft_min_sample_size_strict = [4, 3, 2, 2]"
definition draft_min_percent_strict :: "int list" where "draft_min_percent_strict = [75, 66, 66, 66]"

text \<open>The checks of a sample: large enough, and the token frequent enough.\<close>

definition frequent :: "int \<Rightarrow> int \<Rightarrow> int \<Rightarrow> int \<Rightarrow> bool res" where
  "frequent max_count sum_count min_sample_size min_percent =
    (if sum_count < min_sample_size then Inr False
     else bindE (i32 (100 * max_count)) (\<lambda>a. bindE (i32 (min_percent * sum_count)) (\<lambda>b. Inr (\<not> a < b))))"

definition best_static :: "int \<times> int \<Rightarrow> int \<times> int \<times> int \<Rightarrow> (int \<times> int \<times> int) res" where
  "best_static = (\<lambda>(token, count) (max_token, max_count, sum_count).
    bindE (i32 (sum_count + count)) (\<lambda>sum_count.
      Inr (if count > max_count then (token, count, sum_count) else (max_token, max_count, sum_count))))"

definition try_draft_static :: "llama_ngram_cache \<Rightarrow> llama_ngram \<Rightarrow> int res" where
  "try_draft_static nc_static ngram_static =
    (case map_of nc_static ngram_static of
       None \<Rightarrow> Inr (-1)
     | Some part \<Rightarrow>
         bindE (foldE best_static part (-1, 0, 0)) (\<lambda>(max_token, max_count, sum_count).
         bindE (frequent max_count sum_count (draft_min_sample_size_lax ! (LLAMA_NGRAM_STATIC - 1))
                  (draft_min_percent_lax ! (LLAMA_NGRAM_STATIC - 1))) (\<lambda>ok.
           Inr (if ok then max_token else -1))))"

definition best_primary ::
  "llama_ngram_cache_part \<Rightarrow> int \<times> int \<Rightarrow> int \<times> int \<times> int \<times> int \<Rightarrow> (int \<times> int \<times> int \<times> int) res" where
  "best_primary part_static = (\<lambda>(token, count) (max_token, max_count, max_static, sum_count).
    bindE (case map_of part_static token of None \<Rightarrow> Inr 1 | Some n \<Rightarrow> i32 (100 * n)) (\<lambda>count_static.
    bindE (i32 (count * count_static)) (\<lambda>a.
    bindE (i32 (max_count * max_static)) (\<lambda>b.
    bindE (i32 (sum_count + count)) (\<lambda>sum_count.
      Inr (if a > b then (token, count, count_static, sum_count) else (max_token, max_count, max_static, sum_count)))))))"

text \<open>The loop over the n-grams from the longest one: here \<open>n\<close> of them are left.\<close>

fun try_draft_primary ::
  "llama_ngram_cache \<Rightarrow> llama_ngram list \<Rightarrow> llama_ngram_cache_part \<Rightarrow> int list \<Rightarrow> int list \<Rightarrow> nat \<Rightarrow> int res" where
  "try_draft_primary nc_primary ngrams part_static min_sample_size min_percent 0 = Inr (-1)"
| "try_draft_primary nc_primary ngrams part_static min_sample_size min_percent (Suc n) =
    (let next = try_draft_primary nc_primary ngrams part_static min_sample_size min_percent n in
     case map_of nc_primary (ngrams ! n) of
       None \<Rightarrow> next
     | Some part \<Rightarrow>
         bindE (foldE (best_primary part_static) part (-1, 0, 0, 0)) (\<lambda>(max_token, max_count, max_static, sum_count).
           if n \<ge> length min_sample_size then Inl (UndefinedBehaviour ''min_sample_size[i]'')
           else bindE (frequent max_count sum_count (min_sample_size ! n) (min_percent ! n)) (\<lambda>ok.
             if ok \<and> max_token \<noteq> -1 then Inr max_token else next)))"

text \<open>The token that is drafted next, -1 for none; the second cache is tried after the first, the static one last.\<close>

definition draft_token ::
  "int list \<Rightarrow> int list \<Rightarrow> nat \<Rightarrow> nat \<Rightarrow> llama_ngram_cache \<Rightarrow> llama_ngram_cache \<Rightarrow> llama_ngram_cache \<Rightarrow> int res" where
  "draft_token inp draft ngram_min ngram_max nc_context nc_dynamic nc_static =
    (let start = (\<lambda>n. int (length inp) - int n + int (length draft) - 1) in
     bindE (ngram_at inp draft (start LLAMA_NGRAM_STATIC) LLAMA_NGRAM_STATIC) (\<lambda>ngram_static.
     let part_static = (case map_of nc_static ngram_static of None \<Rightarrow> [] | Some part \<Rightarrow> part) in
     bindE (mapE (\<lambda>n. ngram_at inp draft (start n) n) [ngram_min..<Suc ngram_max]) (\<lambda>ngrams_cd.
     bindE (try_draft_primary nc_context ngrams_cd part_static draft_min_sample_size_lax draft_min_percent_lax
              (length ngrams_cd)) (\<lambda>token.
     bindE (if token \<noteq> -1 then Inr token
            else try_draft_primary nc_dynamic ngrams_cd part_static draft_min_sample_size_strict draft_min_percent_strict
                   (length ngrams_cd)) (\<lambda>token.
       if token \<noteq> -1 then Inr token else try_draft_static nc_static ngram_static)))))"

function draft_loop ::
  "int list \<Rightarrow> int list \<Rightarrow> int \<Rightarrow> nat \<Rightarrow> nat \<Rightarrow> llama_ngram_cache \<Rightarrow> llama_ngram_cache \<Rightarrow> llama_ngram_cache \<Rightarrow> int list res" where
  "draft_loop inp draft n_draft ngram_min ngram_max nc_context nc_dynamic nc_static =
    (if int (length draft) - 1 < n_draft then
       bindE (draft_token inp draft ngram_min ngram_max nc_context nc_dynamic nc_static) (\<lambda>token.
         if token = -1 then Inr draft
         else draft_loop inp (draft @ [token]) n_draft ngram_min ngram_max nc_context nc_dynamic nc_static)
     else Inr draft)"
  by pat_completeness auto
termination
  by (relation "measure (\<lambda>(inp, draft, n_draft, _). nat (n_draft - (int (length draft) - 1)))") auto

declare draft_loop.simps [simp del]

definition llama_ngram_cache_draft ::
  "int list \<Rightarrow> int list \<Rightarrow> int \<Rightarrow> nat \<Rightarrow> nat \<Rightarrow> llama_ngram_cache \<Rightarrow> llama_ngram_cache \<Rightarrow> llama_ngram_cache \<Rightarrow> int list res" where
  "llama_ngram_cache_draft inp draft n_draft ngram_min ngram_max nc_context nc_dynamic nc_static =
    (if length draft \<noteq> 1 then Inl (Abort ''draft.size() == 1'')
     else if length inp < LLAMA_NGRAM_STATIC then Inr draft
     else draft_loop inp draft n_draft ngram_min ngram_max nc_context nc_dynamic nc_static)"

section \<open>Files\<close>

text \<open>What is written; the state of the stream is not checked.\<close>

definition save_count :: "int \<times> int \<Rightarrow> byte list \<Rightarrow> byte list res" where
  "save_count = (\<lambda>(token, count) out.
    if \<not> count > 0 then Inl (Abort ''count > 0'') else Inr (out @ i32_bytes token @ i32_bytes count))"

definition save_ngram :: "llama_ngram \<times> llama_ngram_cache_part \<Rightarrow> byte list \<Rightarrow> byte list res" where
  "save_ngram = (\<lambda>(ngram, token_counts) out.
    if token_counts = [] then Inl (Abort ''!token_counts.empty()'')
    else let ntokens = i32_of (le_bytes 4 (unat (of_nat (length token_counts) :: u32))) in
      if \<not> ntokens > 0 then Inl (Abort ''ntokens > 0'')
      else foldE save_count token_counts (out @ concat (map i32_bytes ngram) @ i32_bytes ntokens))"

definition llama_ngram_cache_save :: "llama_ngram_cache \<Rightarrow> byte list res" where
  "llama_ngram_cache_save ngram_cache = foldE save_ngram ngram_cache []"

text \<open>
  \<open>read\<close> fails at the end of the file, which also sets \<open>eof\<close>. \<open>emplace\<close> keeps an entry that is there already.
\<close>

definition read_or_abort :: "nat \<Rightarrow> byte list \<Rightarrow> (byte list \<times> byte list) res" where
  "read_or_abort n data = (if length data < n then Inl (Abort ''hashmap_file.read'') else Inr (take n data, drop n data))"

definition emplace_new :: "'k \<Rightarrow> 'v \<Rightarrow> ('k \<times> 'v) list \<Rightarrow> ('k \<times> 'v) list" where
  "emplace_new k v m = (if map_of m k = None then put k v m else m)"

fun load_counts :: "nat \<Rightarrow> byte list \<Rightarrow> llama_ngram_cache_part \<Rightarrow> (llama_ngram_cache_part \<times> byte list) res" where
  "load_counts 0 data token_counts = Inr (token_counts, data)"
| "load_counts (Suc n) data token_counts =
    bindE (read_or_abort 4 data) (\<lambda>(t, data).
    bindE (read_or_abort 4 data) (\<lambda>(c, data).
      if \<not> i32_of c > 0 then Inl (Abort ''count > 0'')
      else load_counts n data (emplace_new (i32_of t) (i32_of c) token_counts)))"

lemma load_counts_rest: "load_counts n data part = Inr (part', rest) \<Longrightarrow> length rest \<le> length data"
  by (induction n arbitrary: data part) (fastforce simp: bindE_Inr_iff read_or_abort_def split: if_splits)+

definition load_part :: "byte list \<Rightarrow> (llama_ngram_cache_part \<times> byte list) res" where
  "load_part data =
    bindE (read_or_abort 4 data) (\<lambda>(n, data).
      if \<not> i32_of n > 0 then Inl (Abort ''ntokens > 0'') else load_counts (nat (i32_of n)) data [])"

lemma load_part_rest: "load_part data = Inr (part, rest) \<Longrightarrow> length rest < length data"
  by (auto simp: load_part_def bindE_Inr_iff read_or_abort_def dest!: load_counts_rest split: if_splits)

function load_ngrams :: "byte list \<Rightarrow> llama_ngram_cache \<Rightarrow> llama_ngram_cache res" where
  "load_ngrams data ngram_cache =
    (if length data < 4 * LLAMA_NGRAM_MAX then Inr ngram_cache
     else bindE (load_part (drop (4 * LLAMA_NGRAM_MAX) data)) (\<lambda>(token_counts, rest).
       load_ngrams rest (emplace_new (map (\<lambda>i. i32_of (take 4 (drop (4 * i) data))) [0..<LLAMA_NGRAM_MAX]) token_counts ngram_cache)))"
  by pat_completeness auto
termination
  by (relation "measure (\<lambda>(data, _). length data)") (auto dest: load_part_rest)

declare load_ngrams.simps [simp del]

definition llama_ngram_cache_load :: "byte list option \<Rightarrow> llama_ngram_cache res" where
  "llama_ngram_cache_load f =
    (case f of None \<Rightarrow> Inl (RuntimeError ''Unable to open file'') | Some data \<Rightarrow> load_ngrams data [])"

end
