(* ===== verification/NgramProps.thy ===== *)
theory NgramProps
  imports NgramCache StateFile
begin

text \<open>
  The n-gram caches count: updating as the text grows gives the counts of a rebuild, merging adds, and saved
  caches load again; and a drafted token is one that was seen often enough.
\<close>

section \<open>Well-formed caches\<close>

lemma map_of_put [simp]: "map_of (put k v m) = (map_of m)(k \<mapsto> v)"
  by (induction k v m rule: put.induct) auto

lemma put_keys: "set (map fst (put k v m)) = insert k (set (map fst m))"
  by (induction k v m rule: put.induct) auto

lemma distinct_put: "distinct (map fst m) \<Longrightarrow> distinct (map fst (put k v m))"
  by (induction k v m rule: put.induct) (auto simp: put_keys [simplified])

lemma put_new: "map_of m k = None \<Longrightarrow> put k v m = m @ [(k, v)]"
  by (induction k v m rule: put.induct) (auto split: if_splits)

lemma set_put: "set (put k v m) \<subseteq> insert (k, v) (set m)"
  by (induction k v m rule: put.induct) auto

definition part_ok :: "llama_ngram_cache_part \<Rightarrow> bool" where
  "part_ok part \<longleftrightarrow> part \<noteq> [] \<and> distinct (map fst part) \<and> (\<forall>(t, n)\<in>set part. is_i32 t \<and> 0 < n \<and> n < 2 ^ 31)"

definition ngram_ok :: "llama_ngram \<Rightarrow> bool" where
  "ngram_ok g \<longleftrightarrow> length g = LLAMA_NGRAM_MAX \<and> list_all is_i32 g"

definition ngrams_ok :: "llama_ngram_cache \<Rightarrow> bool" where
  "ngrams_ok c \<longleftrightarrow> distinct (map fst c) \<and> (\<forall>(g, part)\<in>set c. ngram_ok g \<and> part_ok part)"

lemma ngrams_ok_at: "ngrams_ok c \<Longrightarrow> map_of c g = Some part \<Longrightarrow> part_ok part"
  by (auto simp: ngrams_ok_def dest!: map_of_SomeD)

lemma part_ok_put: "part_ok part \<Longrightarrow> is_i32 t \<Longrightarrow> 0 < n \<Longrightarrow> n < 2 ^ 31 \<Longrightarrow> part_ok (put t n part)"
  using set_put [of t n part] put_keys [of t n part] distinct_put [of part t n]
  by (auto simp: part_ok_def)

lemma ngrams_ok_put: "ngrams_ok c \<Longrightarrow> ngram_ok g \<Longrightarrow> part_ok part \<Longrightarrow> ngrams_ok (put g part c)"
  using set_put [of g part c] distinct_put [of c g part] by (auto simp: ngrams_ok_def)

text \<open>What a cache says: how often a token followed an n-gram.\<close>

definition count_in :: "llama_ngram_cache_part \<Rightarrow> int \<Rightarrow> int" where
  "count_in part t = (case map_of part t of None \<Rightarrow> 0 | Some n \<Rightarrow> n)"

definition counts :: "llama_ngram_cache \<Rightarrow> llama_ngram \<Rightarrow> int \<Rightarrow> int" where
  "counts c g t = (case map_of c g of None \<Rightarrow> 0 | Some part \<Rightarrow> count_in part t)"

lemma counts_put: "counts (put g part c) = (counts c)(g := count_in part)"
  by (auto simp: counts_def fun_eq_iff)

lemma count_in_put: "count_in (put t n part) = (count_in part)(t := n)"
  by (auto simp: count_in_def fun_eq_iff)

lemma count_in_bounds: "part_ok part \<Longrightarrow> 0 \<le> count_in part t \<and> count_in part t < 2 ^ 31"
  by (fastforce simp: count_in_def part_ok_def dest: map_of_SomeD split: option.split)

section \<open>Counting\<close>

text \<open>What is counted, in order.\<close>

definition events :: "nat \<Rightarrow> nat \<Rightarrow> int list \<Rightarrow> int \<Rightarrow> (llama_ngram \<times> int) list" where
  "events ngram_min ngram_max inp nnew =
    concat (map (\<lambda>k. map (\<lambda>i. (mk_ngram (drop (i - k) inp) k, inp ! i)) [nat (max (int (length inp) - nnew) (int k))..<length inp])
      [ngram_min..<Suc ngram_max])"

lemma foldE_map: "foldE f (map g xs) s = foldE (\<lambda>x. f (g x)) xs s"
  by (induction xs arbitrary: s) (auto intro: bindE_cong)

lemma foldE_concat: "foldE (\<lambda>x. foldE f (g x)) xs s = foldE f (concat (map g xs)) s"
  by (induction xs arbitrary: s) (auto simp: foldE_append intro: bindE_cong)

lemma update_events: "llama_ngram_cache_update c ngram_min ngram_max inp nnew = foldE count_ngram (events ngram_min ngram_max inp nnew) c"
  unfolding llama_ngram_cache_update_def events_def Let_def foldE_concat [symmetric] foldE_map ..

definition tally :: "('a \<times> 'b) list \<Rightarrow> 'a \<Rightarrow> 'b \<Rightarrow> int" where
  "tally xs g t = int (count_list xs (g, t))"

lemma count_token_ok:
  assumes "part_ok part" "is_i32 t" "count_in part t + 1 < 2 ^ 31"
  shows "\<exists>part'. count_token t part = Inr part' \<and> part_ok part' \<and> count_in part' = (count_in part)(t := count_in part t + 1)"
proof (cases "map_of part t")
  case None
  then show ?thesis using assms part_ok_put [of part t 1] by (simp add: count_token_def count_in_put) (simp add: count_in_def)
next
  case (Some n)
  then have n: "count_in part t = n" by (simp add: count_in_def)
  with assms count_in_bounds [of part t] have "i32 (n + 1) = Inr (n + 1)" "part_ok (put t (n + 1) part)"
    by (auto simp: i32_def intro!: part_ok_put)
  then show ?thesis using Some n by (simp add: count_token_def count_in_put)
qed

lemma count_ngram_ok:
  assumes "ngrams_ok c" "ngram_ok g" "is_i32 t" "counts c g t + 1 < 2 ^ 31"
  shows "\<exists>c'. count_ngram (g, t) c = Inr c' \<and> ngrams_ok c' \<and> counts c' = (\<lambda>h u. counts c h u + (if h = g \<and> u = t then 1 else 0))"
proof (cases "map_of c g")
  case None
  then have "counts c g = (\<lambda>u. 0)" by (simp add: counts_def fun_eq_iff)
  moreover have "part_ok [(t, 1)]" using assms(3) by (simp add: part_ok_def)
  ultimately show ?thesis
    using None ngrams_ok_put [OF assms(1,2), of "[(t, 1)]"]
    by (auto simp: count_ngram_def counts_put count_in_def fun_eq_iff)
next
  case (Some part)
  then have part: "counts c g = count_in part" by (simp add: counts_def fun_eq_iff)
  with assms(4) obtain part' where p': "count_token t part = Inr part'" "part_ok part'"
    "count_in part' = (count_in part)(t := count_in part t + 1)"
    using count_token_ok [OF ngrams_ok_at [OF assms(1) Some] assms(3)] by auto
  then show ?thesis using Some ngrams_ok_put [OF assms(1,2) p'(2)] part by (auto simp: count_ngram_def counts_put fun_eq_iff)
qed

lemma count_ngrams:
  assumes "ngrams_ok c" "\<forall>(g, t)\<in>set evs. ngram_ok g \<and> is_i32 t" "\<forall>g t. counts c g t + tally evs g t < 2 ^ 31"
  shows "\<exists>c'. foldE count_ngram evs c = Inr c' \<and> ngrams_ok c' \<and> counts c' = (\<lambda>g t. counts c g t + tally evs g t)"
  using assms
proof (induction evs arbitrary: c)
  case Nil
  then show ?case by (simp add: tally_def)
next
  case (Cons e evs)
  obtain g t where e: "e = (g, t)" by (cases e)
  have step: "tally (e # evs) h u = tally evs h u + (if h = g \<and> u = t then 1 else 0)" for h u
    by (auto simp: tally_def e)
  have "counts c g t + tally (e # evs) g t < 2 ^ 31" using Cons.prems(3) by blast
  then have "counts c g t + 1 < 2 ^ 31" unfolding step by (simp add: tally_def)
  with Cons.prems(1,2) e obtain c1 where c1: "count_ngram e c = Inr c1" "ngrams_ok c1"
    "counts c1 = (\<lambda>h u. counts c h u + (if h = g \<and> u = t then 1 else 0))"
    using count_ngram_ok [of c g t] by auto
  have "\<forall>h u. counts c1 h u + tally evs h u < 2 ^ 31"
    using Cons.prems(3) unfolding c1(3) step by (metis add.assoc add.commute)
  with Cons.IH [OF c1(2)] Cons.prems(2) obtain c2 where "foldE count_ngram evs c1 = Inr c2" "ngrams_ok c2"
    "counts c2 = (\<lambda>g t. counts c1 g t + tally evs g t)" by auto
  then show ?case using c1(1,3) step by (auto simp: fun_eq_iff)
qed

text \<open>The counted n-grams are those of the text.\<close>

lemma mk_ngram_ok:
  assumes "list_all is_i32 inp" "k \<le> i" "i < length inp" shows "ngram_ok (mk_ngram (drop (i - k) inp) k)"
  using assms by (auto simp: ngram_ok_def mk_ngram_def list_all_length)

lemma events_ok: "list_all is_i32 inp \<Longrightarrow> \<forall>(g, t)\<in>set (events ngram_min ngram_max inp nnew). ngram_ok g \<and> is_i32 t"
  by (auto simp: events_def list_all_length intro!: mk_ngram_ok [unfolded list_all_length])

lemma tally_append: "tally (xs @ ys) g t = tally xs g t + tally ys g t"
  by (simp add: tally_def)

lemma tally_concat: "tally (concat (map f ks)) g t = (\<Sum>k\<leftarrow>ks. tally (f k) g t)"
  by (induction ks) (simp_all add: tally_append, simp add: tally_def)

lemma tally_map: "tally (map f xs) g t = int (length (filter (\<lambda>x. f x = (g, t)) xs))"
  by (induction xs) (auto simp: tally_def)

text \<open>How often \<open>t\<close> follows an n-gram of \<open>k\<close> tokens that is \<open>g\<close>.\<close>

definition occurrences :: "int list \<Rightarrow> llama_ngram \<Rightarrow> int \<Rightarrow> nat \<Rightarrow> int" where
  "occurrences inp g t k = int (card {i. k \<le> i \<and> i < length inp \<and> mk_ngram (drop (i - k) inp) k = g \<and> inp ! i = t})"

lemma tally_range: "tally (map (\<lambda>i. (f i, h i)) [a..<b]) g t = int (card {i. a \<le> i \<and> i < b \<and> f i = g \<and> h i = t})"
proof -
  have "length (filter P [a..<b]) = card {i. a \<le> i \<and> i < b \<and> P i}" for P
  proof -
    have "{i. a \<le> i \<and> i < b \<and> P i} = set (filter P [a..<b])" by auto
    then show ?thesis using distinct_card [of "filter P [a..<b]"] by simp
  qed
  then show ?thesis by (simp add: tally_map)
qed

lemma tally_rebuild:
  "tally (events ngram_min ngram_max inp (int (length inp))) g t = (\<Sum>k\<leftarrow>[ngram_min..<Suc ngram_max]. occurrences inp g t k)"
  unfolding events_def tally_concat tally_range occurrences_def by simp

lemma events_append:
  "tally (events ngram_min ngram_max (inp @ new) (int (length (inp @ new)))) g t
   = tally (events ngram_min ngram_max inp (int (length inp))) g t + tally (events ngram_min ngram_max (inp @ new) (int (length new))) g t"
proof -
  let ?f = "\<lambda>inp k i. (mk_ngram (drop (i - k) inp) k, inp ! i)"
  have mk: "mk_ngram (drop (i - k) (inp @ new)) k = mk_ngram (drop (i - k) inp) k" if "k \<le> i" "i < length inp" for i k
    using that by (auto simp: mk_ngram_def nth_append)
  have "map (?f (inp @ new) k) [k..<length (inp @ new)]
      = map (?f inp k) [k..<length inp] @ map (?f (inp @ new) k) [max (length inp) k..<length (inp @ new)]" for k
  proof (cases "k \<le> length inp")
    case True
    have split: "[k..<length (inp @ new)] = [k..<length inp] @ [length inp..<length (inp @ new)]"
      unfolding length_append by (rule upt_add_eq_append [OF True])
    have "map (?f (inp @ new) k) [k..<length inp] = map (?f inp k) [k..<length inp]"
      by (rule map_cong [OF refl]) (use mk in \<open>simp add: nth_append\<close>)
    moreover have "max (length inp) k = length inp" using True by simp
    ultimately show ?thesis unfolding split map_append by simp
  qed (simp add: max_def)
  moreover have "nat (max (int (length (inp @ new)) - int (length new)) (int k)) = max (length inp) k" for k by (simp add: max_def)
  moreover have "tally (map (?f (inp @ new) k) [nat (max (int (length (inp @ new)) - int (length (inp @ new))) (int k))..<length (inp @ new)]) g t
      = tally (map (?f inp k) [nat (max (int (length inp) - int (length inp)) (int k))..<length inp]) g t
        + tally (map (?f (inp @ new) k) [nat (max (int (length (inp @ new)) - int (length new)) (int k))..<length (inp @ new)]) g t" for k
    using calculation by (simp only: tally_append diff_self) (simp add: tally_append)
  then show ?thesis unfolding events_def tally_concat sum_list_addf [symmetric] by (simp only:)
qed

text \<open>
  C39: An n-gram cache that is updated as a text grows has the counts of a rebuild from the whole text: each
  update counts exactly the n-grams that end in new tokens. These counts are the numbers of occurrences; as
  long as they fit their type no update fails.
\<close>

theorem ngram_update_incremental:
  assumes "ngrams_ok c" "list_all is_i32 (inp @ new)"
    and "\<forall>g t. counts c g t + (\<Sum>k\<leftarrow>[ngram_min..<Suc ngram_max]. occurrences (inp @ new) g t k) < 2 ^ 31"
  shows "\<exists>c1 c2 c3. llama_ngram_cache_update c ngram_min ngram_max inp (int (length inp)) = Inr c1
    \<and> llama_ngram_cache_update c1 ngram_min ngram_max (inp @ new) (int (length new)) = Inr c2
    \<and> llama_ngram_cache_update c ngram_min ngram_max (inp @ new) (int (length (inp @ new))) = Inr c3
    \<and> ngrams_ok c2 \<and> counts c2 = counts c3
    \<and> counts c3 = (\<lambda>g t. counts c g t + (\<Sum>k\<leftarrow>[ngram_min..<Suc ngram_max]. occurrences (inp @ new) g t k))"
proof -
  let ?e1 = "events ngram_min ngram_max inp (int (length inp))"
  let ?e2 = "events ngram_min ngram_max (inp @ new) (int (length new))"
  let ?e = "events ngram_min ngram_max (inp @ new) (int (length (inp @ new)))"
  note ok = events_ok [OF assms(2), of ngram_min ngram_max]
  have bound: "\<forall>g t. counts c g t + tally ?e g t < 2 ^ 31" using assms(3) unfolding tally_rebuild .
  have nonneg: "0 \<le> tally xs g t" for xs :: "(llama_ngram \<times> int) list" and g t by (simp add: tally_def)
  have "counts c g t + tally ?e1 g t < 2 ^ 31" for g t
    using bound [rule_format, of g t] nonneg [of ?e2 g t] unfolding events_append by linarith
  with count_ngrams [OF assms(1), of ?e1] events_ok [of inp] assms(2) obtain c1 where
    c1: "foldE count_ngram ?e1 c = Inr c1" "ngrams_ok c1" "counts c1 = (\<lambda>g t. counts c g t + tally ?e1 g t)" by fastforce
  have "\<forall>g t. counts c1 g t + tally ?e2 g t < 2 ^ 31" using bound unfolding c1(3) events_append by (simp add: add.assoc)
  with count_ngrams [OF c1(2) ok] obtain c2 where
    c2: "foldE count_ngram ?e2 c1 = Inr c2" "ngrams_ok c2" "counts c2 = (\<lambda>g t. counts c1 g t + tally ?e2 g t)" by blast
  from count_ngrams [OF assms(1) ok bound] obtain c3 where
    c3: "foldE count_ngram ?e c = Inr c3" "counts c3 = (\<lambda>g t. counts c g t + tally ?e g t)" by blast
  have "counts c2 = counts c3" unfolding c1(3) c2(3) c3(2) events_append by (simp add: add.assoc)
  then show ?thesis using c1(1) c2(1,2) c3 unfolding update_events tally_rebuild by blast
qed

lemma occurrences_le: "occurrences inp g t k \<le> int (length inp)"
proof -
  have "{i. k \<le> i \<and> i < length inp \<and> mk_ngram (drop (i - k) inp) k = g \<and> inp ! i = t} \<subseteq> {..<length inp}" by auto
  from card_mono [OF _ this] show ?thesis by (simp add: occurrences_def)
qed

theorem ngram_update_incremental_witness:
  "\<exists>c1 c2 c3. llama_ngram_cache_update [] 1 2 [5, 6] 2 = Inr c1
    \<and> llama_ngram_cache_update c1 1 2 [5, 6, 5, 6] 2 = Inr c2
    \<and> llama_ngram_cache_update [] 1 2 [5, 6, 5, 6] 4 = Inr c3 \<and> counts c2 = counts c3"
proof -
  have "counts [] g t + (\<Sum>k\<leftarrow>[1..<Suc 2]. occurrences ([5, 6] @ [5, 6]) g t k) < 2 ^ 31" for g t
    using occurrences_le [of "[5, 6, 5, 6]" g t 1] occurrences_le [of "[5, 6, 5, 6]" g t 2]
    by (simp add: counts_def numeral_2_eq_2)
  then show ?thesis
    using ngram_update_incremental [of "[]" "[5, 6]" "[5, 6]" 1 2] by (auto simp: ngrams_ok_def)
qed

section \<open>Merging\<close>

lemma count_in_Cons: "count_in ((t, n) # part) u = (if u = t then n else count_in part u)"
  by (simp add: count_in_def)

lemma merge_tokens:
  assumes "part_ok p" "distinct (map fst add)" "\<forall>(t, n)\<in>set add. is_i32 t \<and> 0 < n \<and> n < 2 ^ 31"
    and "\<forall>t. count_in p t + count_in add t < 2 ^ 31"
  shows "\<exists>p'. foldE merge_token add p = Inr p' \<and> part_ok p' \<and> count_in p' = (\<lambda>t. count_in p t + count_in add t)"
  using assms
proof (induction add arbitrary: p)
  case Nil
  then show ?case by (simp add: count_in_def)
next
  case (Cons e add)
  obtain t n where e: "e = (t, n)" by (cases e)
  have n: "is_i32 t" "0 < n" "n < 2 ^ 31" using Cons.prems(3) e by auto
  have "map_of add t = None" using Cons.prems(2) e by (simp add: map_of_eq_None_iff)
  then have new: "count_in add t = 0" by (simp add: count_in_def)
  have sum: "count_in p t + n < 2 ^ 31" using Cons.prems(4) [rule_format, of t] e by (simp add: count_in_Cons)
  have pos: "0 \<le> count_in p t" using count_in_bounds [OF Cons.prems(1)] by blast
  have step: "merge_token e p = Inr (put t (count_in p t + n) p)"
    using n sum pos e by (auto simp: merge_token_def count_in_def i32_def split: option.splits)
  have ok: "part_ok (put t (count_in p t + n) p)" using Cons.prems(1) n sum pos by (intro part_ok_put) auto
  have count: "count_in (put t (count_in p t + n) p) u + count_in add u = count_in p u + count_in (e # add) u" for u
    using new by (simp add: count_in_put e count_in_Cons)
  with Cons.IH [OF ok] Cons.prems obtain p' where "foldE merge_token add (put t (count_in p t + n) p) = Inr p'" "part_ok p'"
    "count_in p' = (\<lambda>u. count_in (put t (count_in p t + n) p) u + count_in add u)" by auto
  then show ?case using step count by (simp add: fun_eq_iff)
qed

lemma counts_Cons: "counts ((g, part) # c) h = (if h = g then count_in part else counts c h)"
  by (auto simp: counts_def fun_eq_iff)

lemma merge_ngrams:
  assumes "ngrams_ok c" "ngrams_ok add" "\<forall>g t. counts c g t + counts add g t < 2 ^ 31"
  shows "\<exists>c'. foldE merge_ngram add c = Inr c' \<and> ngrams_ok c' \<and> counts c' = (\<lambda>g t. counts c g t + counts add g t)"
  using assms
proof (induction add arbitrary: c)
  case Nil
  then show ?case by (simp add: counts_def)
next
  case (Cons e add)
  obtain g part where e: "e = (g, part)" by (cases e)
  have ok: "ngram_ok g" "part_ok part" "ngrams_ok add" using Cons.prems(2) e by (auto simp: ngrams_ok_def)
  have "map_of add g = None" using Cons.prems(2) e by (simp add: map_of_eq_None_iff ngrams_ok_def)
  then have new: "counts add g = (\<lambda>t. 0)" by (simp add: counts_def fun_eq_iff)
  have sum: "\<forall>t. counts c g t + count_in part t < 2 ^ 31"
    using Cons.prems(3) e by (metis counts_Cons)
  have "\<exists>p. merge_ngram e c = Inr (put g p c) \<and> part_ok p \<and> count_in p = (\<lambda>t. counts c g t + count_in part t)"
  proof (cases "map_of c g")
    case None
    then show ?thesis using ok(2) by (intro exI [of _ part]) (simp add: merge_ngram_def e counts_def)
  next
    case (Some q)
    then have q: "counts c g = count_in q" by (simp add: counts_def fun_eq_iff)
    with merge_tokens [OF ngrams_ok_at [OF Cons.prems(1) Some], of part] ok(2) sum Some show ?thesis
      by (auto simp: merge_ngram_def e part_ok_def)
  qed
  then obtain p where p: "merge_ngram e c = Inr (put g p c)" "part_ok p" "count_in p = (\<lambda>t. counts c g t + count_in part t)" by blast
  have count: "counts (put g p c) h t + counts add h t = counts c h t + counts (e # add) h t" for h t
    using new p(3) by (simp add: counts_put e counts_Cons)
  with Cons.IH [OF ngrams_ok_put [OF Cons.prems(1) ok(1) p(2)] ok(3)] Cons.prems(3) obtain c' where
    "foldE merge_ngram add (put g p c) = Inr c'" "ngrams_ok c'"
    "counts c' = (\<lambda>h t. counts (put g p c) h t + counts add h t)" by auto
  then show ?case using p(1) count by (simp add: fun_eq_iff)
qed

section \<open>Files\<close>

lemma save_counts:
  "\<forall>(t, n)\<in>set part. 0 < n \<Longrightarrow>
   foldE save_count part out = Inr (out @ concat (map (\<lambda>(t, n). i32_bytes t @ i32_bytes n) part))"
  by (induction part arbitrary: out) (auto simp: save_count_def)

definition ngram_image :: "llama_ngram \<times> llama_ngram_cache_part \<Rightarrow> byte list" where
  "ngram_image = (\<lambda>(g, part). concat (map i32_bytes g) @ i32_bytes (int (length part))
     @ concat (map (\<lambda>(t, n). i32_bytes t @ i32_bytes n) part))"

lemma save_ngrams:
  assumes "\<forall>(g, part)\<in>set c. part_ok part \<and> length part < 2 ^ 31"
  shows "foldE save_ngram c out = Inr (out @ concat (map ngram_image c))"
  using assms
proof (induction c arbitrary: out)
  case (Cons e c)
  obtain g part where e: "e = (g, part)" by (cases e)
  have ok: "part_ok part" "length part < 2 ^ 31" using Cons.prems e by auto
  then have n: "i32_of (le_bytes 4 (unat (of_nat (length part) :: u32))) = int (length part)"
    by (simp add: i32_of_def le_nat_bytes unat_of_nat_less sint_small)
  have "\<forall>(t, n)\<in>set part. 0 < n" using ok(1) by (auto simp: part_ok_def)
  from save_counts [OF this] have "save_ngram e out = Inr (out @ ngram_image e)"
    using ok by (simp add: save_ngram_def e n ngram_image_def part_ok_def)
  then show ?case using Cons by simp
qed simp

lemma load_counts_image:
  assumes "distinct (map fst (done @ part))" "\<forall>(t, n)\<in>set part. is_i32 t \<and> 0 < n \<and> n < 2 ^ 31"
  shows "load_counts (length part) (concat (map (\<lambda>(t, n). i32_bytes t @ i32_bytes n) part) @ rest) done = Inr (done @ part, rest)"
  using assms
proof (induction part arbitrary: "done")
  case (Cons e part)
  obtain t n where e: "e = (t, n)" by (cases e)
  have tn: "i32_of (i32_bytes t) = t" "i32_of (i32_bytes n) = n" "0 < n"
    using Cons.prems(2) e by (auto intro!: i32_of_bytes)
  have "emplace_new t n done = done @ [(t, n)]"
    using Cons.prems(1) e by (auto simp: emplace_new_def map_of_eq_None_iff put_new)
  then show ?case using Cons.IH [of "done @ [(t, n)]"] Cons.prems tn e by (simp add: read_or_abort_def)
qed simp

lemma ngram_of_image:
  assumes "length g = LLAMA_NGRAM_MAX" "list_all is_i32 g"
  shows "map (\<lambda>i. i32_of (take 4 (drop (4 * i) (concat (map i32_bytes g) @ rest)))) [0..<LLAMA_NGRAM_MAX] = g"
proof (rule nth_equalityI)
  fix i assume "i < length (map (\<lambda>i. i32_of (take 4 (drop (4 * i) (concat (map i32_bytes g) @ rest)))) [0..<LLAMA_NGRAM_MAX])"
  then have i: "i < length g" using assms(1) by simp
  have "4 * i + 4 \<le> length (concat (map i32_bytes g))" using i by simp
  then have "take 4 (drop (4 * i) (concat (map i32_bytes g) @ rest)) = take 4 (drop (i * 4) (concat (map i32_bytes g)))"
    by (simp add: mult.commute)
  also have "\<dots> = i32_bytes (g ! i)" by (rule chunk_concat) (use i in simp_all)
  finally show "map (\<lambda>i. i32_of (take 4 (drop (4 * i) (concat (map i32_bytes g) @ rest)))) [0..<LLAMA_NGRAM_MAX] ! i = g ! i"
    using i assms i32_of_bytes [of "g ! i"] by (simp add: list_all_length)
qed (simp add: assms)

lemma load_ngrams_image:
  assumes "ngrams_ok (done @ c)" "\<forall>(g, part)\<in>set c. length part < 2 ^ 31" "length stub < 4 * LLAMA_NGRAM_MAX"
  shows "load_ngrams (concat (map ngram_image c) @ stub) done = Inr (done @ c)"
  using assms
proof (induction c arbitrary: "done")
  case Nil
  then show ?case by (simp add: load_ngrams.simps LLAMA_NGRAM_MAX_def)
next
  case (Cons e c)
  obtain g part where e: "e = (g, part)" by (cases e)
  have ok: "ngram_ok g" "part_ok part" "length part < 2 ^ 31" using Cons.prems e by (auto simp: ngrams_ok_def)
  then have g: "length g = LLAMA_NGRAM_MAX" "list_all is_i32 g" "0 < length part" by (auto simp: ngram_ok_def part_ok_def)
  let ?rest = "concat (map ngram_image c) @ stub"
  let ?tail = "i32_bytes (int (length part)) @ concat (map (\<lambda>(t, n). i32_bytes t @ i32_bytes n) part) @ ?rest"
  have img: "concat (map ngram_image (e # c)) @ stub = concat (map i32_bytes g) @ ?tail" by (simp add: ngram_image_def e)
  have "load_part ?tail = Inr (part, ?rest)"
    using load_counts_image [of "[]" part ?rest] ok(2,3) g(3) i32_of_bytes [of "int (length part)"]
    by (simp add: load_part_def read_or_abort_def part_ok_def)
  moreover have "emplace_new g part done = done @ [(g, part)]"
    using Cons.prems(1) e by (auto simp: emplace_new_def map_of_eq_None_iff put_new ngrams_ok_def)
  ultimately have "load_ngrams (concat (map ngram_image (e # c)) @ stub) done = load_ngrams ?rest (done @ [e])"
    unfolding img using g(1) ngram_of_image [OF g(1,2), of ?tail] e by (subst load_ngrams.simps) simp
  then show ?case using Cons.IH [of "done @ [e]"] Cons.prems by simp
qed

text \<open>A file that was cut within an n-gram loads without an error, less the entries that are gone.\<close>

lemma cut_file_loads:
  assumes "ngrams_ok c" "\<forall>(g, part)\<in>set c. length part < 2 ^ 31" "length stub < 4 * LLAMA_NGRAM_MAX"
  shows "llama_ngram_cache_load (Some (concat (map ngram_image c) @ stub)) = Inr c"
  using load_ngrams_image [of "[]" c stub] assms by (simp add: llama_ngram_cache_load_def)

text \<open>
  Caches can be merged and kept: merging adds the counts of two caches, however their entries are ordered,
  and a cache that was saved loads again as it was.
\<close>

theorem ngram_merge_saved:
  assumes "ngrams_ok a" "ngrams_ok b" "\<forall>g t. counts a g t + counts b g t < 2 ^ 31" "\<forall>(g, part)\<in>set b. length part < 2 ^ 31"
  shows "\<exists>out c. llama_ngram_cache_save b = Inr out \<and> llama_ngram_cache_load (Some out) = Inr b
    \<and> llama_ngram_cache_merge a b = Inr c \<and> ngrams_ok c \<and> counts c = (\<lambda>g t. counts a g t + counts b g t)"
proof -
  have "llama_ngram_cache_save b = Inr (concat (map ngram_image b))"
    using save_ngrams [of b "[]"] assms(2,4) by (fastforce simp: llama_ngram_cache_save_def ngrams_ok_def)
  moreover have "llama_ngram_cache_load (Some (concat (map ngram_image b))) = Inr b"
    using load_ngrams_image [of "[]" b "[]"] assms(2,4) by (simp add: llama_ngram_cache_load_def LLAMA_NGRAM_MAX_def)
  ultimately show ?thesis using merge_ngrams [OF assms(1-3)] by (simp add: llama_ngram_cache_merge_def)
qed

theorem ngram_merge_saved_witness:
  "\<exists>out c. llama_ngram_cache_save [([5, -1, -1, -1], [(6, 2), (7, 1)])] = Inr out
    \<and> llama_ngram_cache_load (Some out) = Inr [([5, -1, -1, -1], [(6, 2), (7, 1)])]
    \<and> llama_ngram_cache_merge [([5, -1, -1, -1], [(6, 1)])] [([5, -1, -1, -1], [(6, 2), (7, 1)])] = Inr c
    \<and> counts c [5, -1, -1, -1] 6 = 3"
proof -
  let ?a = "[([5, -1, -1, -1], [(6, 1)])]" and ?b = "[([5, -1, -1, -1], [(6, 2), (7, 1)])]"
  have "ngrams_ok ?a" "ngrams_ok ?b"
    by (simp_all add: ngrams_ok_def ngram_ok_def part_ok_def LLAMA_NGRAM_MAX_def)
  moreover have "\<forall>g t. counts ?a g t + counts ?b g t < 2 ^ 31" by (simp add: counts_def count_in_def)
  moreover have "\<forall>(g, part)\<in>set ?b. length part < 2 ^ 31" by simp
  ultimately obtain out c where "llama_ngram_cache_save ?b = Inr out" "llama_ngram_cache_load (Some out) = Inr ?b"
    "llama_ngram_cache_merge ?a ?b = Inr c" "counts c = (\<lambda>g t. counts ?a g t + counts ?b g t)"
    using ngram_merge_saved [of ?a ?b] by blast
  then show ?thesis by (intro exI [of _ out] exI [of _ c]) (simp add: counts_def count_in_def)
qed

end
