(* ===== verification/NgramDraft.thy ===== *)
theory NgramDraft
  imports NgramProps
begin

text \<open>
  Drafts of the next tokens: nothing overflows for moderate counts and long enough texts, and every drafted
  token was seen often enough after the tokens before it.
\<close>

definition total_count :: "llama_ngram_cache_part \<Rightarrow> int" where
  "total_count part = sum_list (map snd part)"

text \<open>The samples are so small that the products of counts fit 32 bits.\<close>

definition small_part :: "llama_ngram_cache_part \<Rightarrow> bool" where
  "small_part part \<longleftrightarrow> distinct (map fst part) \<and> (\<forall>(t, n)\<in>set part. 0 < n) \<and> total_count part \<le> 4000"

definition small_cache :: "llama_ngram_cache \<Rightarrow> bool" where
  "small_cache c \<longleftrightarrow> (\<forall>(g, part)\<in>set c. small_part part)"

text \<open>\<open>t\<close> is among enough samples, and in the given percentage of them.\<close>

definition seen_often :: "llama_ngram_cache_part \<Rightarrow> int \<Rightarrow> int \<Rightarrow> int \<Rightarrow> bool" where
  "seen_often part t min_size min_percent \<longleftrightarrow>
     0 < count_in part t \<and> min_size \<le> total_count part \<and> min_percent * total_count part \<le> 100 * count_in part t"

definition last_ngram :: "int list \<Rightarrow> nat \<Rightarrow> llama_ngram" where
  "last_ngram seq k = mk_ngram (drop (length seq - k) seq) k"

definition supported_in ::
  "llama_ngram_cache \<Rightarrow> int list \<Rightarrow> int list \<Rightarrow> nat \<Rightarrow> nat \<Rightarrow> int list \<Rightarrow> int \<Rightarrow> bool" where
  "supported_in c sizes percents ngram_min ngram_max seq t \<longleftrightarrow>
     (\<exists>k part. ngram_min \<le> k \<and> k \<le> ngram_max \<and> map_of c (last_ngram seq k) = Some part
        \<and> seen_often part t (sizes ! (k - ngram_min)) (percents ! (k - ngram_min)))"

definition supported ::
  "nat \<Rightarrow> nat \<Rightarrow> llama_ngram_cache \<Rightarrow> llama_ngram_cache \<Rightarrow> llama_ngram_cache \<Rightarrow> int list \<Rightarrow> int \<Rightarrow> bool" where
  "supported ngram_min ngram_max nc_context nc_dynamic nc_static seq t \<longleftrightarrow>
     supported_in nc_context draft_min_sample_size_lax draft_min_percent_lax ngram_min ngram_max seq t
   \<or> supported_in nc_dynamic draft_min_sample_size_strict draft_min_percent_strict ngram_min ngram_max seq t
   \<or> (\<exists>part. map_of nc_static (last_ngram seq LLAMA_NGRAM_STATIC) = Some part \<and> seen_often part t 2 50)"

section \<open>Samples\<close>

lemma i32_ok: "0 \<le> n \<Longrightarrow> n < 2 ^ 31 \<Longrightarrow> i32 n = Inr n"
  by (simp add: i32_def)

lemma total_count_simps [simp]: "total_count [] = 0" "total_count (xs @ [(t, n)]) = total_count xs + n"
  by (simp_all add: total_count_def)

lemma total_count_nonneg: "\<forall>(t, n)\<in>set part. 0 < n \<Longrightarrow> 0 \<le> total_count part"
  unfolding total_count_def by (intro sum_list_nonneg) auto

lemma count_le_total: "\<forall>(t, n)\<in>set part. 0 < n \<Longrightarrow> (t, n) \<in> set part \<Longrightarrow> n \<le> total_count part"
proof (induction part)
  case (Cons e part)
  then show ?case using total_count_nonneg [of part] by (cases e) (fastforce simp: total_count_def)
qed simp

lemma best_static_fold:
  assumes "\<forall>(t, n)\<in>set part. 0 < n" "total_count part \<le> 4000"
  shows "\<exists>mt mc. foldE best_static part (-1, 0, 0) = Inr (mt, mc, total_count part)
    \<and> ((mt, mc) = (-1, 0) \<or> (mt, mc) \<in> set part)"
  using assms
proof (induction part rule: rev_induct)
  case (snoc e part)
  obtain t n where e: "e = (t, n)" by (cases e)
  have pos: "0 < n" "0 \<le> total_count part" using snoc.prems(1) e total_count_nonneg [of part] by auto
  with snoc e obtain mt mc where IH: "foldE best_static part (-1, 0, 0) = Inr (mt, mc, total_count part)"
    "(mt, mc) = (-1, 0) \<or> (mt, mc) \<in> set part" by fastforce
  have "i32 (total_count part + n) = Inr (total_count part + n)"
    using pos snoc.prems(2) e by (intro i32_ok) auto
  then show ?case using IH e by (auto simp: foldE_append best_static_def)
qed simp

lemma best_primary_fold:
  assumes "\<forall>(t, n)\<in>set part. 0 < n" "total_count part \<le> 4000" "\<forall>(t, n)\<in>set part_static. 0 < n \<and> n \<le> 4000"
  shows "\<exists>mt mc ms. foldE (best_primary part_static) part (-1, 0, 0, 0) = Inr (mt, mc, ms, total_count part)
    \<and> 0 \<le> mc * ms \<and> mc * ms < 2 ^ 31 \<and> ((mt, mc) = (-1, 0) \<or> (mt, mc) \<in> set part)"
  using assms(1,2)
proof (induction part rule: rev_induct)
  case (snoc e part)
  obtain t n where e: "e = (t, n)" by (cases e)
  have pos: "0 < n" "0 \<le> total_count part" "n \<le> 4000"
    using snoc.prems e total_count_nonneg [of part] by auto
  with snoc e obtain mt mc ms where IH: "foldE (best_primary part_static) part (-1, 0, 0, 0) = Inr (mt, mc, ms, total_count part)"
    "0 \<le> mc * ms" "mc * ms < 2 ^ 31" "(mt, mc) = (-1, 0) \<or> (mt, mc) \<in> set part" by fastforce
  obtain cs where cs: "(case map_of part_static t of None \<Rightarrow> Inr 1 | Some n \<Rightarrow> i32 (100 * n)) = Inr cs" "0 < cs" "cs \<le> 400000"
  proof (cases "map_of part_static t")
    case (Some m)
    then have "0 < m \<and> m \<le> 4000" using assms(3) by (auto dest!: map_of_SomeD)
    with Some that show ?thesis by (simp add: i32_ok)
  qed (use that in simp)
  have "n * cs \<le> 4000 * 400000" using pos cs by (intro mult_mono) auto
  moreover have "0 \<le> n * cs" using pos cs by simp
  ultimately have "i32 (n * cs) = Inr (n * cs)" "0 \<le> n * cs" "n * cs < 2 ^ 31" by (auto intro: i32_ok)
  moreover have "i32 (total_count part + n) = Inr (total_count part + n)"
    using pos snoc.prems(2) e by (intro i32_ok) auto
  moreover have "i32 (mc * ms) = Inr (mc * ms)" using IH(2,3) by (rule i32_ok)
  ultimately show ?case using IH e cs(1) by (auto simp: foldE_append best_primary_def)
qed simp

lemma frequent_ok:
  assumes "0 \<le> mc" "mc \<le> n" "n \<le> 4000" "0 \<le> p" "p \<le> 100"
  shows "frequent mc n min_size p = Inr (min_size \<le> n \<and> p * n \<le> 100 * mc)"
proof -
  have "0 \<le> n" using assms(1,2) by linarith
  then have "p * n \<le> 100 * 4000" "0 \<le> p * n" using mult_mono [of p 100 n 4000] assms(3-5) by simp_all
  then have "i32 (100 * mc) = Inr (100 * mc)" "i32 (p * n) = Inr (p * n)" using assms by (auto intro!: i32_ok)
  then show ?thesis by (auto simp: frequent_def)
qed

text \<open>The best token of a sample.\<close>

lemma best_of_sample:
  assumes "small_part part" "(mt, mc) = (-1, 0) \<or> (mt, mc) \<in> set part"
  shows "0 \<le> mc" "mc \<le> total_count part" "mt \<noteq> -1 \<Longrightarrow> count_in part mt = mc \<and> 0 < mc"
  using assms total_count_nonneg [of part] count_le_total [of part mt mc]
  by (auto simp: small_part_def count_in_def)

lemma try_draft_static_ok:
  assumes "small_cache c"
  shows "\<exists>t. try_draft_static c g = Inr t \<and> (t \<noteq> -1 \<longrightarrow> (\<exists>part. map_of c g = Some part \<and> seen_often part t 2 50))"
proof (cases "map_of c g")
  case None
  then show ?thesis by (simp add: try_draft_static_def)
next
  case (Some part)
  then have small: "small_part part" using assms by (auto simp: small_cache_def dest!: map_of_SomeD)
  then obtain mt mc where best: "foldE best_static part (-1, 0, 0) = Inr (mt, mc, total_count part)"
    "(mt, mc) = (-1, 0) \<or> (mt, mc) \<in> set part" using best_static_fold [of part] by (auto simp: small_part_def)
  note m = best_of_sample [OF small best(2)]
  have "frequent mc (total_count part) 2 50 = Inr (2 \<le> total_count part \<and> 50 * total_count part \<le> 100 * mc)"
    using m small by (intro frequent_ok) (auto simp: small_part_def)
  then show ?thesis using Some best(1) m(3)
    by (auto simp: try_draft_static_def draft_min_sample_size_lax_def draft_min_percent_lax_def LLAMA_NGRAM_STATIC_def seen_often_def)
qed

lemma try_draft_primary_ok:
  assumes "small_cache c" "\<forall>(t, n)\<in>set part_static. 0 < n \<and> n \<le> 4000" "n \<le> length sizes" "length percents = length sizes"
    and "\<forall>p\<in>set percents. 0 \<le> p \<and> p \<le> 100"
  shows "\<exists>t. try_draft_primary c ngrams part_static sizes percents n = Inr t
    \<and> (t \<noteq> -1 \<longrightarrow> (\<exists>i part. i < n \<and> map_of c (ngrams ! i) = Some part \<and> seen_often part t (sizes ! i) (percents ! i)))"
  using assms(3)
proof (induction n)
  case (Suc n)
  then obtain t where IH: "try_draft_primary c ngrams part_static sizes percents n = Inr t"
    "t \<noteq> -1 \<longrightarrow> (\<exists>i part. i < n \<and> map_of c (ngrams ! i) = Some part \<and> seen_often part t (sizes ! i) (percents ! i))" by auto
  show ?case
  proof (cases "map_of c (ngrams ! n)")
    case None
    with IH show ?thesis by (auto intro: less_SucI)
  next
    case (Some part)
    then have small: "small_part part" using assms(1) by (auto simp: small_cache_def dest!: map_of_SomeD)
    then obtain mt mc ms where best: "foldE (best_primary part_static) part (-1, 0, 0, 0) = Inr (mt, mc, ms, total_count part)"
      "(mt, mc) = (-1, 0) \<or> (mt, mc) \<in> set part"
      using best_primary_fold [OF _ _ assms(2), of part] by (auto simp: small_part_def)
    note m = best_of_sample [OF small best(2)]
    have "percents ! n \<in> set percents" using Suc.prems assms(4) by simp
    then have "frequent mc (total_count part) (sizes ! n) (percents ! n)
        = Inr (sizes ! n \<le> total_count part \<and> percents ! n * total_count part \<le> 100 * mc)"
      using m small assms(5) by (intro frequent_ok) (auto simp: small_part_def)
    then have "try_draft_primary c ngrams part_static sizes percents (Suc n)
        = (if (sizes ! n \<le> total_count part \<and> percents ! n * total_count part \<le> 100 * mc) \<and> mt \<noteq> -1 then Inr mt else Inr t)"
      using Some best(1) IH(1) Suc.prems by (simp add: Let_def)
    moreover have "seen_often part mt (sizes ! n) (percents ! n)"
      if "sizes ! n \<le> total_count part \<and> percents ! n * total_count part \<le> 100 * mc" "mt \<noteq> -1"
      using that m(3) by (simp add: seen_often_def)
    ultimately show ?thesis using Some IH(2) less_Suc_eq [of _ n] by (smt (verit, best))
  qed
qed simp

section \<open>The draft\<close>

lemma get_token_ok:
  assumes "draft \<noteq> []" "i < length inp + length draft - 1"
  shows "get_token inp draft (int i) = Inr ((inp @ tl draft) ! i)"
proof (cases "i < length inp")
  case True
  then show ?thesis by (simp add: get_token_def nth_append)
next
  case False
  then have k: "1 + int i - int (length inp) = int (Suc (i - length inp))" by simp
  have "Suc (i - length inp) < length draft" using assms False by linarith
  then have "get_token inp draft (int i) = Inr (draft ! Suc (i - length inp))"
    using False unfolding get_token_def k Let_def nat_int by simp
  then show ?thesis using False \<open>Suc (i - length inp) < length draft\<close> by (simp add: nth_append nth_tl)
qed

lemma last_tokens: "n \<le> length xs \<Longrightarrow> map (\<lambda>j. xs ! (length xs - n + j)) [0..<n] = drop (length xs - n) xs"
  by (rule nth_equalityI) simp_all

lemma ngram_at_ok:
  assumes "draft \<noteq> []" "n \<le> LLAMA_NGRAM_MAX" "n \<le> length inp"
  shows "ngram_at inp draft (int (length inp) - int n + int (length draft) - 1) n = Inr (last_ngram (inp @ tl draft) n)"
proof -
  let ?seq = "inp @ tl draft"
  have len: "length ?seq = length inp + length draft - 1" using assms(1) by (cases draft) auto
  have start: "int (length inp) - int n + int (length draft) - 1 = int (length ?seq - n)"
    using assms len by (cases draft) auto
  have "mapE (\<lambda>j. get_token inp draft (int (length ?seq - n) + int j)) [0..<n] = Inr (map (\<lambda>j. ?seq ! (length ?seq - n + j)) [0..<n])"
  proof (rule mapE_Inr_map)
    fix j assume "j \<in> set [0..<n]"
    then have "length ?seq - n + j < length inp + length draft - 1" using assms len by auto
    from get_token_ok [OF assms(1) this] show "get_token inp draft (int (length ?seq - n) + int j) = Inr (?seq ! (length ?seq - n + j))"
      by (simp only: of_nat_add)
  qed
  moreover have "map (\<lambda>j. ?seq ! (length ?seq - n + j)) [0..<n] = drop (length ?seq - n) ?seq"
    using assms(3) by (intro last_tokens) simp
  ultimately show ?thesis using assms(2) unfolding ngram_at_def start by (simp add: last_ngram_def)
qed

lemma draft_token_ok:
  assumes "small_cache nc" "small_cache nd" "small_cache ns" "1 \<le> mn" "mx \<le> LLAMA_NGRAM_MAX" "mx \<le> length inp"
    and "LLAMA_NGRAM_STATIC \<le> length inp" "draft \<noteq> []"
  shows "\<exists>t. draft_token inp draft mn mx nc nd ns = Inr t \<and> (t \<noteq> -1 \<longrightarrow> supported mn mx nc nd ns (inp @ tl draft) t)"
proof -
  let ?seq = "inp @ tl draft" and ?ks = "[mn..<Suc mx]"
  let ?g = "last_ngram ?seq LLAMA_NGRAM_STATIC" and ?gs = "map (last_ngram ?seq) ?ks"
  let ?ps = "case map_of ns ?g of None \<Rightarrow> [] | Some part \<Rightarrow> part"
  have g: "ngram_at inp draft (int (length inp) - int LLAMA_NGRAM_STATIC + int (length draft) - 1) LLAMA_NGRAM_STATIC = Inr ?g"
    using assms(7,8) by (intro ngram_at_ok) (auto simp: LLAMA_NGRAM_STATIC_def LLAMA_NGRAM_MAX_def)
  have gs: "mapE (\<lambda>n. ngram_at inp draft (int (length inp) - int n + int (length draft) - 1) n) ?ks = Inr ?gs"
    using assms(5,6,8) by (intro mapE_Inr_map ngram_at_ok) auto
  have ps: "\<forall>(t, n)\<in>set ?ps. 0 < n \<and> n \<le> 4000"
  proof (cases "map_of ns ?g")
    case (Some part)
    then have "small_part part" using assms(3) by (auto simp: small_cache_def dest!: map_of_SomeD)
    then show ?thesis using Some count_le_total [of part] by (fastforce simp: small_part_def)
  qed simp
  have n: "length ?gs \<le> 4" using assms(4,5) unfolding LLAMA_NGRAM_MAX_def length_map length_upt by linarith
  have sup: "supported_in c sizes percents mn mx ?seq t"
    if "i < length ?gs" "map_of c (?gs ! i) = Some part" "seen_often part t (sizes ! i) (percents ! i)" for c sizes percents i part t
    using that unfolding supported_in_def by (intro exI [of _ "mn + i"] exI [of _ part]) (auto simp del: upt_Suc)
  obtain t1 where t1: "try_draft_primary nc ?gs ?ps draft_min_sample_size_lax draft_min_percent_lax (length ?gs) = Inr t1"
    "t1 \<noteq> -1 \<longrightarrow> supported_in nc draft_min_sample_size_lax draft_min_percent_lax mn mx ?seq t1"
    using try_draft_primary_ok [OF assms(1) ps, of "length ?gs" draft_min_sample_size_lax draft_min_percent_lax ?gs] n sup
    by (auto simp: draft_min_sample_size_lax_def draft_min_percent_lax_def simp del: length_map)
  obtain t2 where t2: "try_draft_primary nd ?gs ?ps draft_min_sample_size_strict draft_min_percent_strict (length ?gs) = Inr t2"
    "t2 \<noteq> -1 \<longrightarrow> supported_in nd draft_min_sample_size_strict draft_min_percent_strict mn mx ?seq t2"
    using try_draft_primary_ok [OF assms(2) ps, of "length ?gs" draft_min_sample_size_strict draft_min_percent_strict ?gs] n sup
    by (auto simp: draft_min_sample_size_strict_def draft_min_percent_strict_def simp del: length_map)
  obtain t3 where t3: "try_draft_static ns ?g = Inr t3"
    "t3 \<noteq> -1 \<longrightarrow> (\<exists>part. map_of ns ?g = Some part \<and> seen_often part t3 2 50)"
    using try_draft_static_ok [OF assms(3)] by blast
  show ?thesis
    using t1 t2 t3 unfolding draft_token_def Let_def g gs bindE_simps supported_def
    by (cases "t1 = -1"; cases "t2 = -1") auto
qed

lemma draft_loop_ok:
  assumes "small_cache nc" "small_cache nd" "small_cache ns" "1 \<le> mn" "mx \<le> LLAMA_NGRAM_MAX" "mx \<le> length inp"
    and "LLAMA_NGRAM_STATIC \<le> length inp" "draft \<noteq> []"
  shows "\<exists>d. draft_loop inp draft n mn mx nc nd ns = Inr (draft @ d) \<and> int (length draft + length d) - 1 \<le> max (int (length draft) - 1) n
    \<and> (\<forall>i<length d. supported mn mx nc nd ns (inp @ tl draft @ take i d) (d ! i))"
  using assms
proof (induction inp draft n mn mx nc nd ns rule: draft_loop.induct)
  case (1 inp draft n mn mx nc nd ns)
  note simps = draft_loop.simps [of inp draft n mn mx nc nd ns]
  show ?case
  proof (cases "int (length draft) - 1 < n")
    case False
    then show ?thesis by (intro exI [of _ "[]"]) (simp add: simps)
  next
    case True
    from draft_token_ok [OF 1(2-9)] obtain t where
      t: "draft_token inp draft mn mx nc nd ns = Inr t" "t \<noteq> -1 \<longrightarrow> supported mn mx nc nd ns (inp @ tl draft) t" by blast
    show ?thesis
    proof (cases "t = -1")
      case end_draft: True
      with True t show ?thesis by (intro exI [of _ "[]"]) (simp add: simps)
    next
      case False
      from 1(1) [OF True t(1) False 1(2-8)] obtain d where
        d: "draft_loop inp (draft @ [t]) n mn mx nc nd ns = Inr ((draft @ [t]) @ d)"
        "int (length (draft @ [t]) + length d) - 1 \<le> max (int (length (draft @ [t])) - 1) n"
        "\<forall>i<length d. supported mn mx nc nd ns (inp @ tl (draft @ [t]) @ take i d) (d ! i)" by auto
      have "supported mn mx nc nd ns (inp @ tl draft @ take i (t # d)) ((t # d) ! i)" if "i < length (t # d)" for i
        using that d(3) t(2) False 1(9) by (cases i) auto
      with True t(1) False d(1,2) show ?thesis by (intro exI [of _ "t # d"]) (auto simp: simps)
    qed
  qed
qed

text \<open>
  C40: Drafting, in caches with small samples and after a text of at least \<open>ngram_max\<close> tokens, never overflows or
  leaves an array; it keeps the token it started with, drafts at most \<open>n_draft\<close> more, and each of them is
  supported by a cache: it was seen after the last tokens, among enough samples and in enough of them.
\<close>

theorem ngram_draft_supported:
  assumes "small_cache nc" "small_cache nd" "small_cache ns" "1 \<le> mn" "mx \<le> LLAMA_NGRAM_MAX" "mx \<le> length inp"
  shows "\<exists>d. llama_ngram_cache_draft inp [t0] n mn mx nc nd ns = Inr (t0 # d) \<and> int (length d) \<le> max 0 n
    \<and> (\<forall>i<length d. supported mn mx nc nd ns (inp @ take i d) (d ! i))"
proof (cases "length inp < LLAMA_NGRAM_STATIC")
  case False
  then show ?thesis
    using draft_loop_ok [OF assms, of "[t0]" n] by (auto simp: llama_ngram_cache_draft_def)
qed (simp add: llama_ngram_cache_draft_def)

theorem ngram_draft_supported_witness:
  "llama_ngram_cache_draft [5, 6] [6] 1 1 2 [([6, -1, -1, -1], [(5, 2)])] [] [] = Inr [6, 5]
    \<and> supported 1 2 [([6, -1, -1, -1], [(5, 2)])] [] [] [5, 6] 5"
proof -
  let ?nc = "[([6, -1, -1, -1], [(5, 2)])]"
  have run: "llama_ngram_cache_draft [5, 6] [6] 1 1 2 ?nc [] [] = Inr [6, 5]"
    by (simp add: llama_ngram_cache_draft_def draft_loop.simps draft_token_def ngram_at_def get_token_def Let_def
        LLAMA_NGRAM_STATIC_def LLAMA_NGRAM_MAX_def mk_ngram_def best_primary_def frequent_def i32_def
        draft_min_sample_size_lax_def draft_min_percent_lax_def upt_rec numeral_eq_Suc)
  have "small_cache ?nc" "small_cache []" by (simp_all add: small_cache_def small_part_def total_count_def)
  with ngram_draft_supported [of ?nc "[]" "[]" 1 2 "[5, 6]" 6 1] run show ?thesis
    by (auto simp: LLAMA_NGRAM_MAX_def)
qed

section \<open>What the assumptions exclude\<close>

text \<open>A text shorter than the longest n-gram is read before its start.\<close>

lemma short_text_undefined:
  "llama_ngram_cache_draft [5, 6] [6] 1 1 4 [] [] [] = Inl (UndefinedBehaviour ''draft[i]'')"
  by (simp add: llama_ngram_cache_draft_def draft_loop.simps draft_token_def ngram_at_def get_token_def Let_def
      LLAMA_NGRAM_STATIC_def LLAMA_NGRAM_MAX_def upt_rec numeral_eq_Suc)

text \<open>A token that a large text has often overflows the weight of its count.\<close>

lemma static_count_overflows:
  "foldE (best_primary [(7, 21474837)]) [(7, 1)] (-1, 0, 0, 0) = Inl (UndefinedBehaviour ''signed overflow'')"
  by (simp add: best_primary_def i32_def)

end
