(* ===== verification/Spec2Isabelle.thy ===== *)
theory Spec2Isabelle
  imports GrammarUtf8 GrammarSampling GrammarRepetition GrammarPrint KvDecodeProps SpmRoundtrip PreTypes
    GgufEdit ModelLoaderProps VocabLoadProps StateLimits NgramDraft
begin

text \<open>
  This development models six parts of the C++ inference library in \<open>src/src\<close>, with the helpers
  they use from \<open>src/common\<close> and \<open>src/ggml\<close>, and proves what makes each of them correct: constrained
  sampling with grammars, the key/value cache with the batch scheduling around it, the tokenizers,
  the model files with their loader, the saving and restoring of the state of a context, and the n-gram
  caches of speculative decoding.

  \<^bold>\<open>Conventions.\<close> Operations keep the names of the C++ functions. Every function that can throw,
  fail an assertion, read out of bounds or exhaust the stack returns a sum: \<open>Inl\<close> with a
  \<open>cxx_error\<close> of \<open>Prelude\<close>, or \<open>Inr\<close> with its value; \<open>bindE\<close>, \<open>mapE\<close> and \<open>foldE\<close> sequence such
  functions. Bytes and 32-bit values are words where arithmetic on them matters; token ids and
  positions (\<open>int32_t\<close>) are \<open>int\<close>, sizes are \<open>nat\<close>: texts, batches and caches are assumed to stay
  below the width of these types. A recursion of the sources whose depth the input does not bound
  takes the available depth as an argument (\<open>depth\<close>) and fails with \<open>StackOverflow\<close>; loops are
  recursive functions with a termination proof, or take as fuel a bound that is proved to suffice.

  \<^bold>\<open>UTF-8\<close> (\<open>Utf8\<close>; \<open>src/src/unicode.cpp\<close>): encoding and decoding of code points, and the round trip.

  \<^bold>\<open>Grammars.\<close> \<open>GrammarEngine\<close> translates \<open>src/src/llama-grammar.cpp\<close>: rules are lists of elements,
  a stack is a list of positions (pairs of rule and offset where the code has pointers), and
  accepting a character advances the set of stacks. \<open>GrammarLanguage\<close> gives the language of a
  grammar by an inductive derivation relation and shows that the stacks recognise it;
  \<open>GrammarDepth\<close> bounds the recursion for grammars without left recursion; \<open>GrammarCandidates\<close>
  relates the batch rejection of candidates to accepting their code points; \<open>GrammarUtf8\<close> treats
  code points cut across tokens; \<open>GrammarSampling\<close> shows that sampling leaves only tokens that can
  be accepted. \<open>GrammarParser\<close> translates \<open>src/common/grammar-parser.cpp\<close>; \<open>GrammarParserProps\<close> and
  \<open>GrammarParserRules\<close> show that it terminates and yields well-formed rules, \<open>GrammarRepetition\<close> that the
  rewrite of repetitions has the intended language, \<open>GrammarPrint\<close> that printing never fails.

  \<^bold>\<open>The KV cache\<close> (\<open>src/src/llama.cpp\<close>). \<open>KvCache\<close> has the cells and the operations on sequences,
  \<open>KvCacheProps\<close> and \<open>KvCacheOps\<close> their refinement of operations on a multiset of cached tokens and
  the invariant on the counters; \<open>KvSlot\<close> the search for a slot; \<open>KvDefrag\<close> and \<open>KvDefragProps\<close>
  defragmentation with its data movement; \<open>KvUpdate\<close> the pending shifts, copies and moves; \<open>KvView\<close>
  the view for debugging. \<open>KvInputs\<close> has the masks and pooling rows that the graph reads, and
  \<open>KvDecode\<close> and \<open>KvDecodeProps\<close> have \<open>llama_decode_internal\<close>: the cut of a batch into micro-batches,
  the output buffer and \<open>llama_get_logits_ith\<close>. Tensors are one row per cell; what the compute graph
  calculates is a parameter.

  \<^bold>\<open>Tokenizers\<close> (\<open>src/src/llama-vocab.cpp\<close>, \<open>src/src/unicode.cpp\<close>). \<open>Vocab\<close> has the vocabulary and the
  escaping of spaces, \<open>ByteEncoding\<close> the byte-level alphabet and the byte tokens, \<open>VocabTrie\<close> the
  token trie (with its laws as a locale). \<open>MergeSymbols\<close> and \<open>MergeQueue\<close> have what SPM and BPE
  share: the doubly linked symbols, the heap of pairs, and locales that relate the loop over the heap
  to a reference \<open>greedy\<close> merge; \<open>SpmTokenizer\<close> and \<open>BpeTokenizer\<close> interpret them. The heap may
  return any of several entries of equal priority; the choice is a parameter (\<open>tie\<close>) of which the
  result is shown to be independent. \<open>PreTokenizer\<close> has the split into words with the two
  hand-written matchers, \<open>BpeText\<close> composes it with BPE. \<open>UgmTokenizer\<close> has the Viterbi search, whose
  float arithmetic is a record of operations with the laws \<open>arith_ok\<close> (monotone sums and rounding); \<open>UgmNormalize\<close> the
  normalization with the compressed character map; \<open>WpmTokenizer\<close> the longest-match tokenizer.
  \<open>SpecialTokens\<close> has the partition of a text by special tokens, \<open>VocabTokenize\<close> the dispatch, the
  buffer protocol and the validity of the ids; \<open>Detokenize\<close> has the way back from tokens to text with
  the clean-up passes, \<open>CharGroups\<close> the cut of UTF-8 bytes into characters, and \<open>SpmRoundtrip\<close> shows
  that an SPM vocabulary with byte fallback gives back the text it was given.

  \<^bold>\<open>Model files.\<close> \<open>Gguf\<close> translates the reader of GGUF files in \<open>src/ggml/src/ggml.c\<close>, \<open>GgufWrite\<close> the writer
  with its sizing pass, \<open>GgufEdit\<close> the accessors and the operations that build a context. \<open>GgufCodec\<close>
  relates the parts of a file to their images through a locale of element codecs, \<open>GgufRoundtrip\<close>
  characterises exactly which files are read, \<open>GgufWriteProps\<close> and \<open>GgufProps\<close> have what is written and
  the round trip; the pairs of a context interpret a locale of key stores. \<open>LlmArch\<close> has the
  architectures and the keys of the metadata, \<open>ModelLoader\<close> the loader of \<open>src/src/llama.cpp\<close> with
  overrides, split files and their mappings, \<open>ModelLoaderProps\<close> shows that every tensor it creates is loaded from
  the place inside of its file that the file declares for a tensor of its name; \<open>PreTypes\<close> has the expressions of the pre-tokenizers. \<open>VocabLoad\<close> is \<open>llm_load_vocab\<close>, which makes the
  vocabulary of the tokenizers from the metadata, and \<open>VocabLoadProps\<close> shows which of the assumptions of
  the tokenizers a loaded vocabulary satisfies. Which allocations succeed (\<open>mem\<close>), the file
  system and \<open>PATH_MAX\<close> are parameters; floats are bit patterns.

  \<^bold>\<open>States of a context.\<close> \<open>StateIO\<close> has the writers and what is saved (\<open>llama_data_write\<close>): the architecture, the
  random number generator, the outputs of the last batch, the metadata of the cached cells and the bytes of
  their keys and values in every layer; \<open>StateRestore\<close> has the readers (\<open>llama_data_read\<close>), which change the
  context as they read, and the functions of the interface in memory, \<open>StateFile\<close> those on files. Both abstract
  classes are records of operations. \<open>StateSaved\<close> states the contract of a writer as a locale, interpreted on
  the counting, the memory and the file writer, in which every function writes the image of what it saves.
  \<open>StateRestored\<close> and \<open>StateLayers\<close> state that of a reader: reading the image gives the saved part, and reading
  from anything shorter throws. \<open>StateRoundtrip\<close>, \<open>StateSeq\<close> and \<open>StateFile\<close> put them together for a whole context,
  for one sequence, and for session files; \<open>StateLimits\<close> has the cases that go wrong. The data of the cells are
  here the bytes of the tensors, where the decoding model has one opaque row per cell; \<open>llama_synchronize\<close>,
  which waits for the devices, is left out. The generator is the sequence of its words, written and read as
  the C++ standard has it; a sign in front of a number, which a stream would read, makes reading fail.

  \<^bold>\<open>N-gram caches.\<close> \<open>NgramCache\<close> translates \<open>src/common/ngram-cache.cpp\<close>; a hash map is the list of its entries
  in the order of iteration, and \<open>int\<close> arithmetic fails where it would leave 32 bits. \<open>NgramProps\<close> shows that the
  counts are numbers of occurrences, also if the cache is updated as the text grows, that merging adds counts
  and that a saved cache loads again; \<open>NgramDraft\<close> that every drafted token was seen often enough after the
  tokens before it, and what happens to short texts and large counts.

  \<^bold>\<open>Not modelled.\<close> The construction and execution of compute graphs, the placement of tensors on
  devices and their asynchronous upload, quantization, the backends and the samplers (floating-point
  code, memory mapping, devices); the encoder \<open>llama_encode_internal\<close>; the contents of the generated
  Unicode tables; \<open>std::regex\<close> itself, which is a parameter that may give any sequence of disjoint
  matches; logging; the vendored libraries, the examples and the servers.
\<close>

end
